(* ===== verification/Prelude.thy ===== *)
theory Prelude
  imports Main "HOL-Library.Word" "HOL-Library.Monad_Syntax"
begin

text \<open>
  Shared vocabulary of the development: the machine integers of the C++ sources, byte buffers
  (\<open>std::vector<uint8_t>\<close>, \<open>std::array<uint8_t, N>\<close>) as lists of bytes, \<open>memcpy\<close> between
  buffers, the little-endian accessors every component uses, and the facts about them that carry
  the component proofs.
  A computation that may abort the process (a failed \<open>ASSERT\<close>, \<open>UNREACHABLE\<close>, an exception
  nobody catches, a read of an indeterminate value) returns an \<open>option\<close>; \<open>None\<close> is the abort.
\<close>

unbundle bit_operations_syntax

section \<open>Machine integers and buffers\<close>

type_synonym u8 = "8 word"
type_synonym u16 = "16 word"
type_synonym u32 = "32 word"
type_synonym u64 = "64 word"
type_synonym bytes = "u8 list"

named_theorems buffer_simps "lengths and elements of byte buffers after a write"

section \<open>Copying between buffers\<close>

definition memcpy :: "'a list \<Rightarrow> nat \<Rightarrow> 'a list \<Rightarrow> nat \<Rightarrow> nat \<Rightarrow> 'a list" where
  "memcpy dst doff src soff n = take doff dst @ take n (drop soff src) @ drop (doff + n) dst"

definition read_at :: "'a list \<Rightarrow> nat \<Rightarrow> 'a option" where
  "read_at xs i = (if i < length xs then Some (xs ! i) else None)"

lemma nth_update: "xs[i := x] ! j = (if i = j \<and> j < length xs then x else xs ! j)"
  by (cases "i < length xs") (auto simp: nth_list_update list_update_beyond)

lemma length_memcpy [simp, buffer_simps]:
  "doff + n \<le> length dst \<Longrightarrow> soff + n \<le> length src \<Longrightarrow> length (memcpy dst doff src soff n) = length dst"
  by (simp add: memcpy_def)

lemma nth_memcpy:
  assumes "doff + n \<le> length dst" "soff + n \<le> length src" "i < length dst"
  shows "memcpy dst doff src soff n ! i =
    (if doff \<le> i \<and> i < doff + n then src ! (soff + (i - doff)) else dst ! i)"
proof -
  have len: "length (take n (drop soff src)) = n" "length (take doff dst) = doff"
    using assms by simp_all
  show ?thesis
    using assms len by (auto simp: memcpy_def nth_append simp del: length_take)
qed

lemma memcpy_all:
  "length dst = n \<Longrightarrow> memcpy dst 0 src 0 n = take n src"
  by (simp add: memcpy_def)

section \<open>Little-endian accessors\<close>

text \<open>
  \<open>ReadLE16\<close>, \<open>WriteLE16\<close>, \<open>ReadLE32\<close> and \<open>WriteLE32\<close> of \<open>core/poke_export.cpp\<close>. The C++ code
  indexes a raw pointer; every caller guards the size of the buffer first.
\<close>

definition ReadLE16 :: "bytes \<Rightarrow> nat \<Rightarrow> u16" where
  "ReadLE16 b off = (ucast (b ! off) :: u16) OR push_bit 8 (ucast (b ! (off + 1)))"

definition WriteLE16 :: "bytes \<Rightarrow> nat \<Rightarrow> u16 \<Rightarrow> bytes" where
  "WriteLE16 b off v = b[off := ucast (v AND 0xFF), off + 1 := ucast (drop_bit 8 v AND 0xFF)]"

definition ReadLE32 :: "bytes \<Rightarrow> nat \<Rightarrow> u32" where
  "ReadLE32 b off = (ucast (b ! off) :: u32) OR push_bit 8 (ucast (b ! (off + 1)))
     OR push_bit 16 (ucast (b ! (off + 2))) OR push_bit 24 (ucast (b ! (off + 3)))"

definition WriteLE32 :: "bytes \<Rightarrow> nat \<Rightarrow> u32 \<Rightarrow> bytes" where
  "WriteLE32 b off v =
     b[off := ucast (v AND 0xFF), off + 1 := ucast (drop_bit 8 v AND 0xFF),
       off + 2 := ucast (drop_bit 16 v AND 0xFF), off + 3 := ucast (drop_bit 24 v AND 0xFF)]"

lemma length_WriteLE16 [simp, buffer_simps]: "length (WriteLE16 b off v) = length b"
  by (simp add: WriteLE16_def)

lemma length_WriteLE32 [simp, buffer_simps]: "length (WriteLE32 b off v) = length b"
  by (simp add: WriteLE32_def)

lemma byte_mask16: "(0xFF :: u16) = mask 8" and byte_mask32: "(0xFF :: u32) = mask 8"
  by (simp_all add: mask_eq_exp_minus_1)

lemma join_bytes16:
  "(ucast (ucast (v AND 0xFF) :: u8) :: u16) OR push_bit 8 (ucast (ucast (drop_bit 8 v AND 0xFF) :: u8)) = v"
  unfolding byte_mask16 by (rule bit_word_eqI) (auto simp: bit_simps)

lemma join_bytes32:
  "(ucast (ucast (v AND 0xFF) :: u8) :: u32) OR push_bit 8 (ucast (ucast (drop_bit 8 v AND 0xFF) :: u8))
     OR push_bit 16 (ucast (ucast (drop_bit 16 v AND 0xFF) :: u8))
     OR push_bit 24 (ucast (ucast (drop_bit 24 v AND 0xFF) :: u8)) = v"
  unfolding byte_mask32
proof (rule bit_word_eqI)
  fix n assume "n < LENGTH(32)"
  then consider "n < 8" | "8 \<le> n" "n < 16" | "16 \<le> n" "n < 24" | "24 \<le> n" "n < 32"
    by fastforce
  then show "bit ((ucast (ucast (v AND mask 8) :: u8) :: u32)
      OR push_bit 8 (ucast (ucast (drop_bit 8 v AND mask 8) :: u8))
      OR push_bit 16 (ucast (ucast (drop_bit 16 v AND mask 8) :: u8))
      OR push_bit 24 (ucast (ucast (drop_bit 24 v AND mask 8) :: u8))) n = bit v n"
    by cases (auto simp: bit_simps)
qed

lemma low_byte16: "ucast (((ucast (x :: u8) :: u16) OR push_bit 8 (ucast (y :: u8))) AND 0xFF) = x"
  unfolding byte_mask16 by (rule bit_word_eqI) (auto simp: bit_simps)

lemma high_byte16:
  "ucast (drop_bit 8 ((ucast (x :: u8) :: u16) OR push_bit 8 (ucast (y :: u8))) AND 0xFF) = y"
  unfolding byte_mask16 by (rule bit_word_eqI) (auto simp: bit_simps dest: bit_imp_le_length)

lemma ReadLE16_WriteLE16 [simp]:
  "off + 1 < length b \<Longrightarrow> ReadLE16 (WriteLE16 b off v) off = v"
  by (simp add: ReadLE16_def WriteLE16_def join_bytes16)

lemma WriteLE16_ReadLE16 [simp]: "WriteLE16 b off (ReadLE16 b off) = b"
  by (simp only: ReadLE16_def WriteLE16_def low_byte16 high_byte16 list_update_id)

lemma ReadLE32_WriteLE32 [simp]:
  "off + 3 < length b \<Longrightarrow> ReadLE32 (WriteLE32 b off v) off = v"
  by (simp add: ReadLE32_def WriteLE32_def join_bytes32)

lemma nth_WriteLE16_other:
  "k \<noteq> off \<Longrightarrow> k \<noteq> Suc off \<Longrightarrow> WriteLE16 b off v ! k = b ! k"
  by (simp add: WriteLE16_def)

lemma nth_WriteLE16_high:
  "k = Suc off \<Longrightarrow> k < length b \<Longrightarrow> WriteLE16 b off v ! k = ucast (drop_bit 8 v AND 0xFF)"
  by (simp add: WriteLE16_def)

lemma nth_WriteLE32_other:
  "k < off \<or> off + 4 \<le> k \<Longrightarrow> WriteLE32 b off v ! k = b ! k"
  by (auto simp: WriteLE32_def)

lemma ReadLE16_cong: "b ! off = c ! off \<Longrightarrow> b ! Suc off = c ! Suc off \<Longrightarrow> ReadLE16 b off = ReadLE16 c off"
  by (simp add: ReadLE16_def)

lemma ReadLE32_cong: "(\<And>k. off \<le> k \<Longrightarrow> k < off + 4 \<Longrightarrow> b ! k = c ! k) \<Longrightarrow> ReadLE32 b off = ReadLE32 c off"
  by (simp add: ReadLE32_def)

lemma ReadLE16_WriteLE16_other:
  "off + 1 < off' \<or> off' + 1 < off \<Longrightarrow> ReadLE16 (WriteLE16 b off' v) off = ReadLE16 b off"
  by (rule ReadLE16_cong) (auto intro!: nth_WriteLE16_other)

lemma ReadLE16_WriteLE32_other:
  "off + 1 < off' \<or> off' + 3 < off \<Longrightarrow> ReadLE16 (WriteLE32 b off' v) off = ReadLE16 b off"
  by (rule ReadLE16_cong) (auto intro!: nth_WriteLE32_other)

lemma ReadLE32_WriteLE16_other:
  "off + 3 < off' \<or> off' + 1 < off \<Longrightarrow> ReadLE32 (WriteLE16 b off' v) off = ReadLE32 b off"
  by (rule ReadLE32_cong) (auto intro!: nth_WriteLE16_other)

lemma ReadLE32_WriteLE32_other:
  "off + 3 < off' \<or> off' + 3 < off \<Longrightarrow> ReadLE32 (WriteLE32 b off' v) off = ReadLE32 b off"
  by (rule ReadLE32_cong) (auto intro!: nth_WriteLE32_other)

lemma ReadLE16_update_other:
  "k \<noteq> off \<Longrightarrow> k \<noteq> Suc off \<Longrightarrow> ReadLE16 (b[k := v]) off = ReadLE16 b off"
  by (rule ReadLE16_cong) simp_all

lemma ReadLE32_update_other:
  "k < off \<or> off + 3 < k \<Longrightarrow> ReadLE32 (b[k := v]) off = ReadLE32 b off"
  by (rule ReadLE32_cong) auto

lemma ReadLE16_memcpy_other:
  assumes "doff + n \<le> length b" "soff + n \<le> length src" "Suc off < length b"
    and "off + 1 < doff \<or> doff + n \<le> off"
  shows "ReadLE16 (memcpy b doff src soff n) off = ReadLE16 b off"
  by (rule ReadLE16_cong) (use assms in \<open>auto simp: nth_memcpy\<close>)

lemma ReadLE32_memcpy_other:
  assumes "doff + n \<le> length b" "soff + n \<le> length src" "off + 3 < length b"
    and "off + 3 < doff \<or> doff + n \<le> off"
  shows "ReadLE32 (memcpy b doff src soff n) off = ReadLE32 b off"
  by (rule ReadLE32_cong) (use assms in \<open>auto simp: nth_memcpy\<close>)

lemmas read_other =
  ReadLE16_WriteLE16_other ReadLE16_WriteLE32_other ReadLE32_WriteLE16_other
  ReadLE32_WriteLE32_other ReadLE16_update_other ReadLE32_update_other
  ReadLE16_memcpy_other ReadLE32_memcpy_other nth_WriteLE16_other nth_WriteLE32_other nth_WriteLE16_high

lemma WriteLE16_commute:
  assumes "off + 1 < off' \<or> off' + 1 < off"
  shows "WriteLE16 (WriteLE16 b off v) off' w = WriteLE16 (WriteLE16 b off' w) off v"
  by (rule nth_equalityI) (use assms in \<open>auto simp: WriteLE16_def nth_update\<close>)

lemma WriteLE16_overwrite [simp]: "WriteLE16 (WriteLE16 b off v) off w = WriteLE16 b off w"
  by (simp add: WriteLE16_def list_update_swap [of off "Suc off"])

lemma unat_add_of_nat:
  "unat a + k < 2 ^ 32 \<Longrightarrow> unat ((a :: u32) + of_nat k) = unat a + k"
  by (simp add: unat_word_ariths unat_of_nat)

lemma xor_cancel_right [simp]: "(x XOR k) XOR k = (x :: 'a :: len word)"
  by (simp add: xor.assoc)

section \<open>Host integers in memory\<close>

text \<open>
  The bytes of an integer as \<open>memcpy\<close> and the binary streams of a little-endian host lay them out, and
  the integer they stand for.
\<close>

definition le_bytes :: "nat \<Rightarrow> u64 \<Rightarrow> bytes" where
  "le_bytes n v = map (\<lambda>i. ucast (drop_bit (8 * i) v)) [0..<n]"

definition decode_le :: "bytes \<Rightarrow> u64" where
  "decode_le bs = foldr (\<lambda>b acc. ucast b OR push_bit 8 acc) bs 0"


end
