(* ===== verification/Pk6_Crypto.thy ===== *)
theory Pk6_Crypto
  imports Prelude
begin

text \<open>
  The PK6 container of \<open>core/poke_export.cpp\<close>: a record of 232 (box) or 260 (party) bytes whose
  224-byte main part is shuffled in four blocks and masked by a linear congruential generator, and
  whose battle statistics are masked by the same generator further on. The in-place functions of
  the source return a flag and leave the buffer changed; here they return the flag and the buffer.
\<close>

unbundle bit_operations_syntax

section \<open>Layout\<close>

definition PKM_PARTY_SIZE :: nat where "PKM_PARTY_SIZE = 260"
definition PKM_BOX_SIZE :: nat where "PKM_BOX_SIZE = 232"
definition PKM_ENCRYPTED_START :: nat where "PKM_ENCRYPTED_START = 0x08"
definition PKM_MAIN_ENCRYPTED_SIZE :: nat where "PKM_MAIN_ENCRYPTED_SIZE = 224"
definition PKM_BLOCK_SIZE :: nat where "PKM_BLOCK_SIZE = 56"

lemmas pk6_layout [simp] =
  PKM_PARTY_SIZE_def PKM_BOX_SIZE_def PKM_ENCRYPTED_START_def PKM_MAIN_ENCRYPTED_SIZE_def
  PKM_BLOCK_SIZE_def

definition BLOCK_ORDERS :: "nat list list" where
  "BLOCK_ORDERS =
    [[0, 1, 2, 3], [0, 1, 3, 2], [0, 2, 1, 3], [0, 2, 3, 1], [0, 3, 1, 2],
     [0, 3, 2, 1], [1, 0, 2, 3], [1, 0, 3, 2], [1, 2, 0, 3], [1, 2, 3, 0],
     [1, 3, 0, 2], [1, 3, 2, 0], [2, 0, 1, 3], [2, 0, 3, 1], [2, 1, 0, 3],
     [2, 1, 3, 0], [2, 3, 0, 1], [2, 3, 1, 0], [3, 0, 1, 2], [3, 0, 2, 1],
     [3, 1, 0, 2], [3, 1, 2, 0], [3, 2, 0, 1], [3, 2, 1, 0]]"

definition LCG_A :: u32 where "LCG_A = 0x41C64E6D"
definition LCG_C :: u32 where "LCG_C = 0x6073"

section \<open>The generator and the masking loop\<close>

definition lcg_step :: "u32 \<Rightarrow> u32" where
  "lcg_step state = state * LCG_A + LCG_C"

definition LCG_next_u16 :: "u32 \<Rightarrow> u16 \<times> u32" where
  "LCG_next_u16 state =
     (let state' = lcg_step state in (ucast (drop_bit 16 state' AND 0xFFFF), state'))"

text \<open>
  \<open>for (off = from; off < stop; off += 2) { if (off + 1 >= size) break; w = Read(off);
  w ^= next(); Write(off, w); }\<close>
\<close>

function lcg_xor_loop :: "nat \<Rightarrow> nat \<Rightarrow> nat \<Rightarrow> u32 \<Rightarrow> bytes \<Rightarrow> bytes" where
  "lcg_xor_loop off stop sz state buf =
     (if off < stop then
        if off + 1 \<ge> sz then buf
        else
          let w = ReadLE16 buf off;
              (r, state') = LCG_next_u16 state
          in lcg_xor_loop (off + 2) stop sz state' (WriteLE16 buf off (w XOR r))
      else buf)"
  by pat_completeness auto
termination
  by (relation "measure (\<lambda>(off, stop, _). stop - off)") auto

declare lcg_xor_loop.simps [simp del]

definition block_shift :: "u32 \<Rightarrow> nat" where
  "block_shift enc_key = unat (drop_bit 13 (enc_key AND 0x3E000) mod 24)"

section \<open>Block shuffling\<close>

text \<open>The inner search of \<open>DecryptPk6InPlace\<close>: \<open>found_index\<close>, \<open>None\<close> for \<open>-1\<close>.\<close>

definition found_index :: "nat list \<Rightarrow> nat \<Rightarrow> nat option" where
  "found_index order j = find (\<lambda>k. order ! k = j) [0..<4]"

fun unshuffle_loop :: "nat list \<Rightarrow> bytes \<Rightarrow> nat list \<Rightarrow> bytes \<Rightarrow> bytes option" where
  "unshuffle_loop order enc [] out = Some out"
| "unshuffle_loop order enc (j # js) out =
     (case found_index order j of
        None \<Rightarrow> None
      | Some k \<Rightarrow>
          unshuffle_loop order enc js
            (memcpy out (j * PKM_BLOCK_SIZE) enc (k * PKM_BLOCK_SIZE) PKM_BLOCK_SIZE))"

fun shuffle_loop :: "nat list \<Rightarrow> bytes \<Rightarrow> nat list \<Rightarrow> bytes \<Rightarrow> bytes" where
  "shuffle_loop order clear [] out = out"
| "shuffle_loop order clear (k # ks) out =
     shuffle_loop order clear ks
       (memcpy out (k * PKM_BLOCK_SIZE) clear ((order ! k) * PKM_BLOCK_SIZE) PKM_BLOCK_SIZE)"

section \<open>Checksum\<close>

text \<open>\<open>for (off = 0x08; off < 0x08 + 224; off += 2) checksum += ReadLE16(off)\<close>, modulo \<open>2\<^sup>1\<^sup>6\<close>.\<close>

definition pk6_checksum :: "bytes \<Rightarrow> u16" where
  "pk6_checksum buf =
     foldl (\<lambda>checksum i. checksum + ReadLE16 buf (PKM_ENCRYPTED_START + 2 * i)) 0
       [0..<PKM_MAIN_ENCRYPTED_SIZE div 2]"

section \<open>Decryption and encryption in place\<close>

definition DecryptPk6InPlace :: "bytes \<Rightarrow> nat \<Rightarrow> bool \<Rightarrow> bool \<times> bytes" where
  "DecryptPk6InPlace buf sz is_party =
     (if sz < 232 then (False, buf)
      else
        let enc_key = ReadLE32 buf 0;
            buf = lcg_xor_loop PKM_ENCRYPTED_START (PKM_ENCRYPTED_START + PKM_MAIN_ENCRYPTED_SIZE)
                    sz enc_key buf
        in if sz \<ge> PKM_ENCRYPTED_START + PKM_MAIN_ENCRYPTED_SIZE then
             let shift = block_shift enc_key;
                 encrypted_main =
                   memcpy (replicate PKM_MAIN_ENCRYPTED_SIZE 0) 0 buf PKM_ENCRYPTED_START
                     PKM_MAIN_ENCRYPTED_SIZE;
                 order = BLOCK_ORDERS ! shift
             in case unshuffle_loop order encrypted_main [0..<4]
                       (replicate PKM_MAIN_ENCRYPTED_SIZE 0) of
                  None \<Rightarrow> (False, buf)
                | Some unshuffled_main \<Rightarrow>
                    (True, memcpy buf PKM_ENCRYPTED_START unshuffled_main 0 PKM_MAIN_ENCRYPTED_SIZE)
           else (True, buf))"

definition EncryptPk6InPlace :: "bytes \<Rightarrow> nat \<Rightarrow> bool \<Rightarrow> bool \<times> bytes" where
  "EncryptPk6InPlace buf sz is_party =
     (if (is_party \<and> sz < PKM_PARTY_SIZE) \<or> (\<not> is_party \<and> sz < PKM_BOX_SIZE)
      then (False, buf)
      else
        let buf = WriteLE16 buf 0x06 (pk6_checksum buf);
            main_clear =
              memcpy (replicate PKM_MAIN_ENCRYPTED_SIZE 0) 0 buf PKM_ENCRYPTED_START
                PKM_MAIN_ENCRYPTED_SIZE;
            enc_key = ReadLE32 buf 0x00;
            shift = block_shift enc_key;
            order = BLOCK_ORDERS ! shift;
            main_shuffled = shuffle_loop order main_clear [0..<4] (replicate PKM_MAIN_ENCRYPTED_SIZE 0);
            buf = memcpy buf PKM_ENCRYPTED_START main_shuffled 0 PKM_MAIN_ENCRYPTED_SIZE
        in (True, lcg_xor_loop PKM_ENCRYPTED_START (PKM_ENCRYPTED_START + PKM_MAIN_ENCRYPTED_SIZE)
                    sz enc_key buf))"

text \<open>\<open>for (i = 0; i < 112; ++i) (void)next_u16();\<close> advances the generator past the main part.\<close>

definition lcg_skip :: "nat \<Rightarrow> u32 \<Rightarrow> u32" where
  "lcg_skip n state = (lcg_step ^^ n) state"

definition EncryptBattleStats :: "bytes \<Rightarrow> nat \<Rightarrow> bool \<Rightarrow> bool \<times> bytes" where
  "EncryptBattleStats buf sz is_party =
     (if sz < PKM_PARTY_SIZE \<or> \<not> is_party then (False, buf)
      else
        let state = lcg_skip 112 (ReadLE32 buf 0)
        in (True, lcg_xor_loop 0xE8 0x104 sz state buf))"

definition DecryptBattleStats :: "bytes \<Rightarrow> nat \<Rightarrow> bool \<Rightarrow> bool \<times> bytes" where
  "DecryptBattleStats buf sz is_party =
     (if sz < PKM_PARTY_SIZE \<or> \<not> is_party then (False, buf)
      else
        let state = lcg_skip 112 (ReadLE32 buf 0)
        in (True, lcg_xor_loop 0xE8 0x104 sz state buf))"

section \<open>The masking loop is an involution\<close>

lemma length_lcg_xor_loop [simp, buffer_simps]:
  "length (lcg_xor_loop off stop sz state buf) = length buf"
proof (induction off stop sz state buf rule: lcg_xor_loop.induct)
  case (1 off stop sz state buf)
  then show ?case
    by (subst lcg_xor_loop.simps) (simp add: Let_def split: prod.split)
qed

lemma nth_lcg_xor_loop_before:
  "k < off \<Longrightarrow> lcg_xor_loop off stop sz state buf ! k = buf ! k"
proof (induction off stop sz state buf rule: lcg_xor_loop.induct)
  case (1 off stop sz state buf)
  then show ?case
    by (subst lcg_xor_loop.simps) (simp add: Let_def nth_WriteLE16_other split: prod.split)
qed

lemma nth_lcg_xor_loop_after:
  "stop \<le> k \<Longrightarrow> even (stop - off) \<Longrightarrow> lcg_xor_loop off stop sz state buf ! k = buf ! k"
proof (induction off stop sz state buf rule: lcg_xor_loop.induct)
  case (1 off stop sz state buf)
  show ?case
  proof (cases "off < stop \<and> \<not> off + 1 \<ge> sz")
    case True
    with "1.prems" have "off + 2 \<le> stop" by presburger
    with True "1.prems" have "even (stop - (off + 2))" "off + 1 < k" by auto
    with "1.IH" "1.prems" True show ?thesis
      by (subst lcg_xor_loop.simps) (simp add: Let_def nth_WriteLE16_other split: prod.split)
  next
    case False
    then show ?thesis by (subst lcg_xor_loop.simps) simp
  qed
qed

lemma lcg_xor_loop_write_before:
  "o' + 1 < off \<Longrightarrow>
   lcg_xor_loop off stop sz state (WriteLE16 buf o' v) = WriteLE16 (lcg_xor_loop off stop sz state buf) o' v"
proof (induction off stop sz state buf rule: lcg_xor_loop.induct)
  case (1 off stop sz state buf)
  obtain r state' where rs: "LCG_next_u16 state = (r, state')" by fastforce
  from "1.prems" have "WriteLE16 (WriteLE16 buf o' v) off w = WriteLE16 (WriteLE16 buf off w) o' v" for w
    by (intro WriteLE16_commute) simp
  with "1" rs show ?case
    by (simp add: lcg_xor_loop.simps [of off] ReadLE16_WriteLE16_other)
qed

lemma lcg_xor_loop_involution:
  assumes "sz = length buf"
  shows "lcg_xor_loop off stop sz state (lcg_xor_loop off stop sz state buf) = buf"
  using assms
proof (induction "stop - off" arbitrary: off state buf rule: less_induct)
  case less
  obtain r state' where rs: "LCG_next_u16 state = (r, state')" by fastforce
  show ?case
  proof (cases "off < stop \<and> \<not> off + 1 \<ge> sz")
    case True
    define w where "w = ReadLE16 buf off XOR r"
    define rest where "rest = lcg_xor_loop (off + 2) stop sz state' (WriteLE16 buf off w)"
    have step: "lcg_xor_loop off stop sz state b =
        lcg_xor_loop (off + 2) stop sz state' (WriteLE16 b off (ReadLE16 b off XOR r))" for b
      using True rs by (simp add: lcg_xor_loop.simps [of off])
    have once: "lcg_xor_loop off stop sz state buf = rest"
      unfolding rest_def w_def by (rule step)
    have rd: "ReadLE16 rest off = w"
    proof -
      have "ReadLE16 rest off = ReadLE16 (WriteLE16 buf off w) off"
        unfolding rest_def by (rule ReadLE16_cong) (simp_all add: nth_lcg_xor_loop_before)
      then show ?thesis using True less.prems by simp
    qed
    have "lcg_xor_loop off stop sz state (lcg_xor_loop off stop sz state buf) =
        lcg_xor_loop (off + 2) stop sz state' (WriteLE16 rest off (w XOR r))"
      by (simp only: once step [of rest] rd)
    also have "WriteLE16 rest off (w XOR r) =
        lcg_xor_loop (off + 2) stop sz state' (WriteLE16 (WriteLE16 buf off w) off (w XOR r))"
      unfolding rest_def by (subst lcg_xor_loop_write_before) simp_all
    also have "WriteLE16 (WriteLE16 buf off w) off (w XOR r) = buf"
      by (simp add: w_def)
    finally show ?thesis
      using less.hyps [of "off + 2" buf state'] True less.prems by fastforce
  next
    case False
    then show ?thesis by (simp add: lcg_xor_loop.simps [of off])
  qed
qed

lemma ReadLE32_lcg_xor_loop [simp]:
  "4 \<le> off \<Longrightarrow> ReadLE32 (lcg_xor_loop off stop sz state buf) 0 = ReadLE32 buf 0"
  by (rule ReadLE32_cong) (simp add: nth_lcg_xor_loop_before)

section \<open>Shuffling and unshuffling are inverse\<close>

lemma upt_four: "[0..<4] = [0, 1, 2, 3 :: nat]"
  by (simp add: upt_rec)

lemma all_less_four: "(\<forall>k < 4. P k) \<longleftrightarrow> (\<forall>k \<in> {0, 1, 2, 3 :: nat}. P k)"
  and ex_less_four: "(\<exists>k < 4. P k) \<longleftrightarrow> (\<exists>k \<in> {0, 1, 2, 3 :: nat}. P k)"
  by (auto simp: less_Suc_eq numeral_eq_Suc)

lemma block_orders_table:
  "\<forall>ord \<in> set BLOCK_ORDERS. length ord = 4 \<and> (\<forall>k \<in> {0, 1, 2, 3}. ord ! k < 4) \<and>
     (\<forall>j \<in> {0, 1, 2, 3}. \<exists>k \<in> {0, 1, 2, 3}. found_index ord j = Some k \<and> ord ! k = j)"
  by (simp add: BLOCK_ORDERS_def found_index_def upt_four)

lemma block_orders_perm:
  assumes "s < 24"
  shows "\<forall>k < 4. BLOCK_ORDERS ! s ! k < 4"
    "\<forall>j < 4. \<exists>k < 4. found_index (BLOCK_ORDERS ! s) j = Some k \<and> BLOCK_ORDERS ! s ! k = j"
proof -
  have "BLOCK_ORDERS ! s \<in> set BLOCK_ORDERS"
    using assms by (intro nth_mem) (simp add: BLOCK_ORDERS_def)
  from bspec [OF block_orders_table this]
  show "\<forall>k < 4. BLOCK_ORDERS ! s ! k < 4"
    "\<forall>j < 4. \<exists>k < 4. found_index (BLOCK_ORDERS ! s) j = Some k \<and> BLOCK_ORDERS ! s ! k = j"
    unfolding all_less_four ex_less_four by blast+
qed

lemma block_shift_less [simp]: "block_shift k < 24"
proof -
  have "unat (drop_bit 13 (k AND 0x3E000) mod 24) < unat (24 :: u32)"
    by (intro unat_mono word_mod_less_divisor) simp
  then show ?thesis by (simp add: block_shift_def)
qed

definition copy_blocks :: "(nat \<Rightarrow> nat) \<Rightarrow> bytes \<Rightarrow> nat list \<Rightarrow> bytes \<Rightarrow> bytes" where
  "copy_blocks g src = fold (\<lambda>k out. memcpy out (k * PKM_BLOCK_SIZE) src (g k * PKM_BLOCK_SIZE) PKM_BLOCK_SIZE)"

lemma shuffle_loop_copy: "shuffle_loop order clear ks out = copy_blocks (\<lambda>k. order ! k) clear ks out"
  by (induction ks arbitrary: out) (simp_all add: copy_blocks_def)

lemma unshuffle_loop_copy:
  "\<forall>j \<in> set js. found_index order j = Some (g j) \<Longrightarrow>
   unshuffle_loop order enc js out = Some (copy_blocks g enc js out)"
  by (induction js arbitrary: out) (simp_all add: copy_blocks_def)

lemma copy_blocks_nth:
  assumes "length out = 224" "length src = 224" "\<forall>k \<in> set ks. k < 4 \<and> g k < 4"
  shows "length (copy_blocks g src ks out) = 224 \<and>
    (k < 4 \<longrightarrow> r < 56 \<longrightarrow> copy_blocks g src ks out ! (k * 56 + r) =
      (if k \<in> set ks then src ! (g k * 56 + r) else out ! (k * 56 + r)))"
  using assms
proof (induction ks arbitrary: out)
  case Nil
  then show ?case by (simp add: copy_blocks_def)
next
  case (Cons a ks)
  define out' where "out' = memcpy out (a * 56) src (g a * 56) 56"
  have a: "a < 4" "g a < 4" using Cons.prems by auto
  then have fit: "a * 56 + 56 \<le> length out" "g a * 56 + 56 \<le> length src"
    using Cons.prems by simp_all
  have "out' ! (k * 56 + r) = (if k = a then src ! (g k * 56 + r) else out ! (k * 56 + r))"
    if "k < 4" "r < 56"
  proof -
    have "(a * 56 \<le> k * 56 + r \<and> k * 56 + r < a * 56 + 56) = (k = a)"
      using that by auto
    moreover have "k * 56 + r < length out" using that Cons.prems by simp
    ultimately show ?thesis
      unfolding out'_def using fit by (simp add: nth_memcpy)
  qed
  moreover have "length out' = 224" using fit Cons.prems by (simp add: out'_def)
  moreover have "copy_blocks g src (a # ks) out = copy_blocks g src ks out'"
    by (simp add: copy_blocks_def out'_def)
  ultimately show ?case
    using Cons.IH [of out'] Cons.prems by auto
qed

lemma block_index: "i < 224 \<Longrightarrow> \<exists>k r. i = k * 56 + r \<and> k < 4 \<and> r < (56 :: nat)"
  by (rule exI [of _ "i div 56"], rule exI [of _ "i mod 56"]) auto

lemma copy_blocks_inverse:
  assumes len: "length src = 224" "length o1 = 224" "length o2 = 224"
    and g: "\<forall>k < 4. g k < 4" and h: "\<forall>k < 4. h k < 4" and inv: "\<forall>k < 4. g (h k) = k"
  shows "copy_blocks h (copy_blocks g src [0..<4] o1) [0..<4] o2 = src"
proof (rule nth_equalityI)
  let ?m = "copy_blocks g src [0..<4] o1"
  have lm: "length ?m = 224" using copy_blocks_nth [of o1 src "[0..<4]" g] len g by simp
  then show "length (copy_blocks h ?m [0..<4] o2) = length src"
    using copy_blocks_nth [of o2 ?m "[0..<4]" h] len h by simp
  fix i assume "i < length (copy_blocks h ?m [0..<4] o2)"
  then have "i < 224" using copy_blocks_nth [of o2 ?m "[0..<4]" h] len h lm by simp
  then obtain k r where i: "i = k * 56 + r" "k < 4" "r < 56" using block_index by blast
  have "copy_blocks h ?m [0..<4] o2 ! i = ?m ! (h k * 56 + r)"
    using copy_blocks_nth [of o2 ?m "[0..<4]" h k r] len h lm i by simp
  also have "\<dots> = src ! (g (h k) * 56 + r)"
    using copy_blocks_nth [of o1 src "[0..<4]" g "h k" r] len g h i by simp
  finally show "copy_blocks h ?m [0..<4] o2 ! i = src ! i" using inv i by simp
qed

lemma inverse_on_four:
  assumes "\<forall>j < (4 :: nat). f j < 4" "\<forall>j < 4. g (f j) = j" "\<forall>k < (4 :: nat). g k < 4"
  shows "\<forall>k < 4. f (g k) = k"
proof -
  have "inj_on f {..<4}" using assms(2) by (metis inj_onI lessThan_iff)
  then have "f ` {..<4} = {..<4}"
    using assms(1) by (intro endo_inj_surj) auto
  then show ?thesis using assms(2) by (metis imageE lessThan_iff)
qed

lemma shuffle_unshuffle:
  assumes "s < 24" "length main = 224" "length o1 = 224" "length o2 = 224"
  shows "unshuffle_loop (BLOCK_ORDERS ! s) (shuffle_loop (BLOCK_ORDERS ! s) main [0..<4] o1) [0..<4] o2
    = Some main"
    and "\<exists>u. unshuffle_loop (BLOCK_ORDERS ! s) main [0..<4] o1 = Some u \<and> length u = 224 \<and>
      shuffle_loop (BLOCK_ORDERS ! s) u [0..<4] o2 = main"
proof -
  let ?ord = "BLOCK_ORDERS ! s"
  let ?f = "\<lambda>j. the (found_index ?ord j)"
  note perm = block_orders_perm [OF assms(1)]
  from perm(2) have f: "\<forall>j < 4. ?f j < 4" "\<forall>j < 4. ?ord ! ?f j = j"
    and fi: "\<forall>j \<in> set [0..<4]. found_index ?ord j = Some (?f j)"
    by fastforce+
  show "unshuffle_loop ?ord (shuffle_loop ?ord main [0..<4] o1) [0..<4] o2 = Some main"
    unfolding unshuffle_loop_copy [OF fi] shuffle_loop_copy
    using assms perm(1) f by (simp add: copy_blocks_inverse)
  have fo: "\<forall>k < 4. ?f (?ord ! k) = k"
    by (rule inverse_on_four) (use perm(1) f in auto)
  have "length (copy_blocks ?f main [0..<4] o1) = 224"
    using copy_blocks_nth [of o1 main "[0..<4]" ?f] assms f by simp
  moreover have "copy_blocks (\<lambda>k. ?ord ! k) (copy_blocks ?f main [0..<4] o1) [0..<4] o2 = main"
    using assms perm(1) f fo by (intro copy_blocks_inverse) auto
  ultimately show "\<exists>u. unshuffle_loop ?ord main [0..<4] o1 = Some u \<and> length u = 224 \<and>
      shuffle_loop ?ord u [0..<4] o2 = main"
    unfolding unshuffle_loop_copy [OF fi] shuffle_loop_copy by simp
qed

section \<open>The container round trips\<close>

definition pk6_main :: "bytes \<Rightarrow> bytes" where
  "pk6_main buf = take 224 (drop 8 buf)"

definition valid_checksum :: "bytes \<Rightarrow> bool" where
  "valid_checksum buf \<longleftrightarrow> ReadLE16 buf 0x06 = pk6_checksum buf"

lemma extract_main:
  "232 \<le> length buf \<Longrightarrow> memcpy (replicate 224 0) 0 buf 8 224 = pk6_main buf"
  by (simp add: memcpy_def pk6_main_def)

lemma length_pk6_main [simp]: "232 \<le> length buf \<Longrightarrow> length (pk6_main buf) = 224"
  by (simp add: pk6_main_def)

lemma main_memcpy [simp]:
  "232 \<le> length buf \<Longrightarrow> length m = 224 \<Longrightarrow> pk6_main (memcpy buf 8 m 0 224) = m"
  by (simp add: pk6_main_def memcpy_def)

lemma memcpy_main [simp]: "232 \<le> length buf \<Longrightarrow> memcpy buf 8 (pk6_main buf) 0 224 = buf"
  by (rule nth_equalityI) (auto simp: nth_memcpy pk6_main_def)

lemma memcpy_main_twice [simp]:
  "232 \<le> length buf \<Longrightarrow> length m = 224 \<Longrightarrow> length m' = 224 \<Longrightarrow>
   memcpy (memcpy buf 8 m 0 224) 8 m' 0 224 = memcpy buf 8 m' 0 224"
  by (simp add: memcpy_def)

lemma header_memcpy_main [simp]:
  "232 \<le> length buf \<Longrightarrow> length m = 224 \<Longrightarrow> ReadLE32 (memcpy buf 8 m 0 224) 0 = ReadLE32 buf 0"
  by (simp add: ReadLE32_memcpy_other)

lemma header_checksum_write [simp]: "ReadLE32 (WriteLE16 buf 6 c) 0 = ReadLE32 buf 0"
  by (simp add: ReadLE32_WriteLE16_other)

lemma foldl_cong_set: "(\<And>i a. i \<in> set xs \<Longrightarrow> f a i = g a i) \<Longrightarrow> foldl f a xs = foldl g a xs"
  by (induction xs arbitrary: a) simp_all

lemma pk6_checksum_cong:
  "(\<And>k. 8 \<le> k \<Longrightarrow> k < 232 \<Longrightarrow> b ! k = c ! k) \<Longrightarrow> pk6_checksum b = pk6_checksum c"
  unfolding pk6_checksum_def by (rule foldl_cong_set) (auto intro!: arg_cong2 [of _ _ _ _ "(+)"] ReadLE16_cong)

lemma pk6_checksum_write [simp]: "pk6_checksum (WriteLE16 buf 6 c) = pk6_checksum buf"
  by (rule pk6_checksum_cong) (simp add: nth_WriteLE16_other)

abbreviation main_mask :: "nat \<Rightarrow> u32 \<Rightarrow> bytes \<Rightarrow> bytes" where
  "main_mask sz key buf \<equiv> lcg_xor_loop 8 232 sz key buf"

lemma Encrypt_eq:
  assumes "length buf = sz" "if is_party then 260 \<le> sz else 232 \<le> sz"
  defines "b \<equiv> WriteLE16 buf 6 (pk6_checksum buf)" and "key \<equiv> ReadLE32 buf 0"
  shows "EncryptPk6InPlace buf sz is_party =
    (True, main_mask sz key
       (memcpy b 8 (shuffle_loop (BLOCK_ORDERS ! block_shift key) (pk6_main b) [0..<4] (replicate 224 0)) 0 224))"
  using assms(1,2)
  by (simp add: EncryptPk6InPlace_def Let_def extract_main b_def key_def split: if_splits)

lemma Decrypt_eq:
  assumes "length buf = sz" "232 \<le> sz"
  defines "key \<equiv> ReadLE32 buf 0"
  defines "b \<equiv> main_mask sz key buf"
  shows "DecryptPk6InPlace buf sz is_party =
    (case unshuffle_loop (BLOCK_ORDERS ! block_shift key) (pk6_main b) [0..<4] (replicate 224 0) of
       None \<Rightarrow> (False, b) | Some u \<Rightarrow> (True, memcpy b 8 u 0 224))"
  using assms(1,2)
  by (simp add: DecryptPk6InPlace_def Let_def extract_main b_def key_def split: option.split)

lemma length_shuffle_loop:
  "s < 24 \<Longrightarrow> length main = 224 \<Longrightarrow> length out = 224 \<Longrightarrow>
   length (shuffle_loop (BLOCK_ORDERS ! s) main [0..<4] out) = 224"
  using copy_blocks_nth [of out main "[0..<4]" "\<lambda>k. BLOCK_ORDERS ! s ! k"] block_orders_perm(1) [of s]
  by (simp add: shuffle_loop_copy)

lemma decrypt_encrypt:
  assumes "length buf = sz" "if is_party then 260 \<le> sz else 232 \<le> sz"
  shows "\<exists>e. EncryptPk6InPlace buf sz is_party = (True, e) \<and> length e = sz \<and>
    ReadLE32 e 0 = ReadLE32 buf 0 \<and>
    DecryptPk6InPlace e sz is_party' = (True, WriteLE16 buf 6 (pk6_checksum buf))"
proof -
  define b where "b = WriteLE16 buf 6 (pk6_checksum buf)"
  define key where "key = ReadLE32 buf 0"
  define s where "s = shuffle_loop (BLOCK_ORDERS ! block_shift key) (pk6_main b) [0..<4] (replicate 224 0)"
  define e where "e = main_mask sz key (memcpy b 8 s 0 224)"
  have sz: "232 \<le> sz" using assms(2) by (simp split: if_splits)
  then have lb: "length b = sz" "232 \<le> length b" using assms(1) by (simp_all add: b_def)
  then have ls: "length s = 224" unfolding s_def by (intro length_shuffle_loop) simp_all
  have le: "length e = sz" and ke: "ReadLE32 e 0 = key"
    using lb ls by (simp_all add: e_def b_def key_def)
  have "main_mask sz key e = memcpy b 8 s 0 224"
    unfolding e_def using lb ls by (intro lcg_xor_loop_involution) simp
  moreover have "unshuffle_loop (BLOCK_ORDERS ! block_shift key) s [0..<4] (replicate 224 0) = Some (pk6_main b)"
    unfolding s_def using lb by (intro shuffle_unshuffle(1)) simp_all
  ultimately have "DecryptPk6InPlace e sz is_party' = (True, b)"
    using Decrypt_eq [OF le sz] lb ls ke by simp
  moreover have "EncryptPk6InPlace buf sz is_party = (True, e)"
    using Encrypt_eq [OF assms] by (simp add: e_def s_def b_def key_def)
  ultimately show ?thesis using le ke by (auto simp: b_def key_def)
qed

lemma checksum_of_main: "232 \<le> length b \<Longrightarrow> length c = length b \<Longrightarrow> pk6_main b = pk6_main c \<Longrightarrow>
  pk6_checksum b = pk6_checksum c"
proof (rule pk6_checksum_cong)
  fix k assume "232 \<le> length b" "length c = length b" "pk6_main b = pk6_main c" "8 \<le> k" "k < (232 :: nat)"
  then have "pk6_main b ! (k - 8) = pk6_main c ! (k - 8)" by simp
  with \<open>8 \<le> k\<close> \<open>k < 232\<close> \<open>232 \<le> length b\<close> \<open>length c = length b\<close> show "b ! k = c ! k"
    by (simp add: pk6_main_def)
qed

lemma Decrypt_main:
  assumes "length e = sz" "232 \<le> sz"
  shows "\<exists>d. DecryptPk6InPlace e sz is_party = (True, d) \<and> length d = sz \<and>
    (\<forall>k. k < 8 \<or> 232 \<le> k \<longrightarrow> k < sz \<longrightarrow> d ! k = e ! k) \<and> ReadLE32 d 0 = ReadLE32 e 0 \<and>
    memcpy d 8 (shuffle_loop (BLOCK_ORDERS ! block_shift (ReadLE32 e 0)) (pk6_main d) [0..<4] (replicate 224 0))
      0 224 = main_mask sz (ReadLE32 e 0) e"
proof -
  let ?key = "ReadLE32 e 0"
  define b where "b = main_mask sz ?key e"
  have lb: "length b = sz" "232 \<le> length b" using assms by (simp_all add: b_def)
  obtain u where u: "unshuffle_loop (BLOCK_ORDERS ! block_shift ?key) (pk6_main b) [0..<4] (replicate 224 0) = Some u"
    "length u = 224" "shuffle_loop (BLOCK_ORDERS ! block_shift ?key) u [0..<4] (replicate 224 0) = pk6_main b"
    using shuffle_unshuffle(2) [of "block_shift ?key" "pk6_main b" "replicate 224 0" "replicate 224 0"] lb
    by auto
  define d where "d = memcpy b 8 u 0 224"
  have "DecryptPk6InPlace e sz is_party = (True, d)"
    using Decrypt_eq [OF assms] u(1) by (simp add: b_def d_def)
  moreover have "d ! k = e ! k" if "k < 8 \<or> 232 \<le> k" "k < sz" for k
    using that lb u(2)
    by (auto simp: d_def nth_memcpy b_def nth_lcg_xor_loop_before nth_lcg_xor_loop_after)
  moreover have "ReadLE32 d 0 = ?key" using lb u(2) by (simp add: d_def b_def)
  moreover have "length d = sz" using lb u(2) by (simp add: d_def)
  moreover have "memcpy d 8 (shuffle_loop (BLOCK_ORDERS ! block_shift ?key) (pk6_main d) [0..<4] (replicate 224 0))
      0 224 = b"
    using lb u by (simp add: d_def)
  ultimately show ?thesis by (auto simp: b_def)
qed

lemma encrypt_decrypt:
  assumes "length e = sz" "if is_party then 260 \<le> sz else 232 \<le> sz"
    and dec: "DecryptPk6InPlace e sz is_party' = (True, d)" and ok: "valid_checksum d"
  shows "EncryptPk6InPlace d sz is_party = (True, e)"
proof -
  let ?key = "ReadLE32 e 0"
  have sz: "232 \<le> sz" using assms(2) by (simp split: if_splits)
  from Decrypt_main [OF assms(1) sz, of is_party'] dec
  have d: "length d = sz" "ReadLE32 d 0 = ?key"
    "memcpy d 8 (shuffle_loop (BLOCK_ORDERS ! block_shift ?key) (pk6_main d) [0..<4] (replicate 224 0)) 0 224
      = main_mask sz ?key e"
    by auto
  have "WriteLE16 d 6 (pk6_checksum d) = d"
    using ok WriteLE16_ReadLE16 [of d 6] by (simp add: valid_checksum_def)
  then show ?thesis
    using Encrypt_eq [of d sz is_party] d assms(1,2) lcg_xor_loop_involution [of sz e 8 232 ?key] by simp
qed

lemma battle_stats_round_trip:
  assumes "length buf = sz" "260 \<le> sz"
  shows "\<exists>e. EncryptBattleStats buf sz True = (True, e) \<and> length e = sz \<and>
    (\<forall>k < 232. e ! k = buf ! k) \<and> DecryptBattleStats e sz True = (True, buf)"
    and "\<exists>d. DecryptBattleStats buf sz True = (True, d) \<and> length d = sz \<and>
    (\<forall>k < 232. d ! k = buf ! k) \<and> EncryptBattleStats d sz True = (True, buf)"
  using assms
  by (simp_all add: EncryptBattleStats_def DecryptBattleStats_def Let_def lcg_xor_loop_involution
      nth_lcg_xor_loop_before)

section \<open>Main part and battle statistics do not interfere\<close>

lemma lcg_xor_loop_cong_above:
  assumes "\<And>k. off \<le> k \<Longrightarrow> b ! k = c ! k" "length b = length c" "off \<le> k"
  shows "lcg_xor_loop off stop sz state b ! k = lcg_xor_loop off stop sz state c ! k"
  using assms
proof (induction "stop - off" arbitrary: off state b c rule: less_induct)
  case less
  obtain r state' where rs: "LCG_next_u16 state = (r, state')" by fastforce
  show ?case
  proof (cases "off < stop \<and> \<not> off + 1 \<ge> sz")
    case True
    let ?w = "\<lambda>b. WriteLE16 b off (ReadLE16 b off XOR r)"
    have rd: "ReadLE16 b off = ReadLE16 c off" using less.prems(1) by (intro ReadLE16_cong) simp_all
    then have w: "?w b ! j = ?w c ! j" if "off \<le> j" for j
      using less.prems(1,2) that by (simp add: WriteLE16_def nth_update)
    have step: "lcg_xor_loop off stop sz state b' = lcg_xor_loop (off + 2) stop sz state' (?w b')" for b'
      using True rs by (simp add: lcg_xor_loop.simps [of off])
    show ?thesis
    proof (cases "off + 2 \<le> k")
      case True2: True
      show ?thesis unfolding step
        by (rule less.hyps) (use True True2 w less.prems(2) in auto)
    next
      case False
      with w less.prems(3) show ?thesis unfolding step by (simp add: nth_lcg_xor_loop_before)
    qed
  next
    case False
    with less.prems show ?thesis by (simp add: lcg_xor_loop.simps [of off])
  qed
qed

lemma lcg_xor_loop_cong_below:
  assumes "\<And>k. k < stop \<Longrightarrow> b ! k = c ! k" "length b = length c" "even (stop - off)" "k < stop"
  shows "lcg_xor_loop off stop sz state b ! k = lcg_xor_loop off stop sz state c ! k"
  using assms
proof (induction "stop - off" arbitrary: off state b c rule: less_induct)
  case less
  obtain r state' where rs: "LCG_next_u16 state = (r, state')" by fastforce
  show ?case
  proof (cases "off < stop \<and> \<not> off + 1 \<ge> sz")
    case True
    let ?w = "\<lambda>b. WriteLE16 b off (ReadLE16 b off XOR r)"
    have fit: "off + 2 \<le> stop" using True less.prems(3) by presburger
    then have "ReadLE16 b off = ReadLE16 c off" using less.prems(1) by (intro ReadLE16_cong) simp_all
    then have w: "?w b ! j = ?w c ! j" if "j < stop" for j
      using less.prems(1,2) that by (simp add: WriteLE16_def nth_update)
    have step: "lcg_xor_loop off stop sz state b' = lcg_xor_loop (off + 2) stop sz state' (?w b')" for b'
      using True rs by (simp add: lcg_xor_loop.simps [of off])
    show ?thesis unfolding step
      by (rule less.hyps) (use True fit w less.prems in auto)
  next
    case False
    with less.prems show ?thesis by (simp add: lcg_xor_loop.simps [of off])
  qed
qed

lemma Decrypt_local:
  assumes len: "length b = sz" "length c = sz" "232 \<le> sz" and agree: "\<And>k. k < 232 \<Longrightarrow> b ! k = c ! k"
    and dec: "DecryptPk6InPlace b sz p = (True, d)"
  shows "DecryptPk6InPlace c sz p' = (True, take 232 d @ drop 232 c)"
proof -
  let ?key = "ReadLE32 b 0" and ?mb = "main_mask sz (ReadLE32 b 0) b" and ?mc = "main_mask sz (ReadLE32 b 0) c"
  let ?u = "\<lambda>m. unshuffle_loop (BLOCK_ORDERS ! block_shift ?key) m [0..<4] (replicate 224 0)"
  have key: "ReadLE32 c 0 = ?key" using agree by (intro ReadLE32_cong) simp
  have mask: "?mb ! k = ?mc ! k" if "k < 232" for k
    using that len agree by (intro lcg_xor_loop_cong_below) simp_all
  then have main: "pk6_main ?mb = pk6_main ?mc"
    using len by (intro nth_equalityI) (simp_all add: pk6_main_def)
  obtain u where u: "?u (pk6_main ?mb) = Some u" "length u = 224"
    using shuffle_unshuffle(2) [of "block_shift ?key" "pk6_main ?mb" "replicate 224 0" "replicate 224 0"] len
    by auto
  from dec have d: "d = memcpy ?mb 8 u 0 224" using Decrypt_eq [OF len(1,3)] u(1) by simp
  have "DecryptPk6InPlace c sz p' = (True, memcpy ?mc 8 u 0 224)"
    using Decrypt_eq [OF len(2,3)] u(1) main key by simp
  moreover have "memcpy ?mc 8 u 0 224 = take 232 d @ drop 232 c"
  proof (rule nth_equalityI)
    show "length (memcpy ?mc 8 u 0 224) = length (take 232 d @ drop 232 c)"
      using len u(2) by (simp add: d)
    fix i assume "i < length (memcpy ?mc 8 u 0 224)"
    then have "i < sz" using len u(2) by simp
    then show "memcpy ?mc 8 u 0 224 ! i = (take 232 d @ drop 232 c) ! i"
      using len u(2) mask
      by (auto simp: d nth_memcpy nth_append nth_lcg_xor_loop_after)
  qed
  ultimately show ?thesis by simp
qed

text \<open>A party record with both parts masked, as the conversion of a fainted Pokemon leaves it.\<close>

lemma decrypt_both:
  assumes len: "length x = 260"
    and e1: "EncryptPk6InPlace x 260 True = (True, e1)" and e2: "EncryptBattleStats e1 260 True = (True, e2)"
  shows "\<exists>d. length e2 = 260 \<and> DecryptPk6InPlace e2 260 True = (True, d) \<and>
    DecryptBattleStats d 260 True = (True, WriteLE16 x 6 (pk6_checksum x)) \<and>
    (\<forall>k < 232. d ! k = WriteLE16 x 6 (pk6_checksum x) ! k)"
proof -
  let ?x = "WriteLE16 x 6 (pk6_checksum x)"
  have sz: "if True then 260 \<le> (260 :: nat) else 232 \<le> (260 :: nat)" by simp
  from decrypt_encrypt [OF len sz, of True] e1
  have le1: "length e1 = 260" and k1: "ReadLE32 e1 0 = ReadLE32 x 0"
    and d1: "DecryptPk6InPlace e1 260 True = (True, ?x)" by auto
  from battle_stats_round_trip(1) [OF le1] e2
  have le2: "length e2 = 260" and a2: "\<And>k. k < 232 \<Longrightarrow> e2 ! k = e1 ! k"
    and d2: "DecryptBattleStats e2 260 True = (True, e1)" by auto
  define d where "d = take 232 ?x @ drop 232 e2"
  have dec: "DecryptPk6InPlace e2 260 True = (True, d)"
    unfolding d_def by (rule Decrypt_local [OF le1 le2 _ _ d1]) (simp_all add: a2)
  have tail1: "e1 ! k = ?x ! k" if "232 \<le> k" "k < 260" for k
    using Decrypt_main [OF le1, of True] d1 that by auto
  have kd: "ReadLE32 d 0 = ReadLE32 e2 0"
  proof -
    have "ReadLE32 d 0 = ReadLE32 ?x 0" unfolding d_def by (rule ReadLE32_cong) (simp add: nth_append len)
    moreover have "ReadLE32 e2 0 = ReadLE32 e1 0" by (rule ReadLE32_cong) (simp add: a2)
    ultimately show ?thesis using k1 by simp
  qed
  let ?st = "lcg_skip 112 (ReadLE32 e2 0)"
  have lx: "length ?x = 260" and ld: "length d = 260" using len le2 by (simp_all add: d_def)
  have "lcg_xor_loop 232 260 260 ?st d = ?x"
  proof (rule nth_equalityI)
    show "length (lcg_xor_loop 232 260 260 ?st d) = length ?x" using lx ld by simp
    fix i assume i: "i < length (lcg_xor_loop 232 260 260 ?st d)"
    show "lcg_xor_loop 232 260 260 ?st d ! i = ?x ! i"
    proof (cases "i < 232")
      case True
      then show ?thesis using lx by (simp add: nth_lcg_xor_loop_before d_def nth_append)
    next
      case False
      have "lcg_xor_loop 232 260 260 ?st d ! i = lcg_xor_loop 232 260 260 ?st e2 ! i"
        using False lx ld le2 by (intro lcg_xor_loop_cong_above) (simp_all add: d_def nth_append)
      also have "\<dots> = e1 ! i" using d2 by (simp add: DecryptBattleStats_def Let_def)
      finally show ?thesis using tail1 [of i] False i ld by simp
    qed
  qed
  then have "DecryptBattleStats d 260 True = (True, ?x)"
    by (simp add: DecryptBattleStats_def Let_def kd)
  moreover have "\<forall>k < 232. d ! k = ?x ! k" using lx by (simp add: d_def nth_append)
  ultimately show ?thesis using le2 dec by blast
qed

section \<open>Properties\<close>

text \<open>
  C7: \<open>EncryptPk6InPlace\<close> accepts every buffer of the declared size and \<open>DecryptPk6InPlace\<close> undoes it:
  the decrypted buffer is the original one with its checksum refreshed, whichever of the 24 block
  orders the encryption key selects.
\<close>

theorem pk6_encrypt_then_decrypt:
  assumes "length buf = sz" "if is_party then 260 \<le> sz else 232 \<le> sz"
  shows "\<exists>e. EncryptPk6InPlace buf sz is_party = (True, e) \<and> length e = sz \<and>
    DecryptPk6InPlace e sz is_party' = (True, WriteLE16 buf 6 (pk6_checksum buf))"
  using decrypt_encrypt [OF assms] by blast

theorem pk6_encrypt_then_decrypt_witness:
  "\<exists>e. EncryptPk6InPlace (replicate 260 7) 260 True = (True, e) \<and> length e = 260 \<and>
    DecryptPk6InPlace e 260 True = (True, WriteLE16 (replicate 260 7) 6 (pk6_checksum (replicate 260 7)))"
  using pk6_encrypt_then_decrypt [of "replicate 260 7" 260 True True] by simp

text \<open>
  C8: \<open>DecryptPk6InPlace\<close> loses nothing: encrypting what it returned gives back the original bytes, for
  every record whose checksum is valid.
\<close>

theorem pk6_decrypt_then_encrypt:
  assumes "length e = sz" "if is_party then 260 \<le> sz else 232 \<le> sz"
    and "DecryptPk6InPlace e sz is_party' = (True, d)" "valid_checksum d"
  shows "EncryptPk6InPlace d sz is_party = (True, e)"
  by (rule encrypt_decrypt [OF assms])

theorem pk6_decrypt_then_encrypt_witness:
  "\<exists>e d. DecryptPk6InPlace e 232 False = (True, d) \<and> length e = 232 \<and> EncryptPk6InPlace d 232 False = (True, e)"
proof -
  let ?b = "replicate 232 (0 :: u8)" and ?d = "WriteLE16 (replicate 232 0) 6 (pk6_checksum (replicate 232 0))"
  obtain e where e: "length e = 232" "DecryptPk6InPlace e 232 False = (True, ?d)"
    using decrypt_encrypt [of ?b 232 False False] by auto
  have "valid_checksum ?d" by (simp add: valid_checksum_def)
  then show ?thesis using pk6_decrypt_then_encrypt [of e 232 False False ?d] e by auto
qed

end
