(* ===== verification/Memory_System.thy ===== *)
theory Memory_System
  imports Prelude
begin

text \<open>
  \<open>core/memory.cpp\<close>, \<open>core/memory.h\<close> and \<open>common/memory_ref.h\<close>: the emulated address space. A
  page table maps each of the \<open>2\<^sup>2\<^sup>0\<close> guest pages to a reference into host memory, with an
  attribute per page; the block operations walk the pages of an address range. Host memory is a
  function from a backing object and an offset to a byte. The GPU's rasterizer and its registers,
  which live in \<open>video_core\<close>, enter as the functions of the record \<open>gpu_ops\<close>: what they do to host
  memory is not modelled here. An access outside a backing object, an index outside the page table
  and a failed \<open>ASSERT\<close> or \<open>UNREACHABLE\<close> are the abort \<open>None\<close>.
\<close>

unbundle bit_operations_syntax

section \<open>Constants and data\<close>

abbreviation CITRA_PAGE_SIZE :: nat where "CITRA_PAGE_SIZE \<equiv> 0x1000"
abbreviation CITRA_PAGE_BITS :: nat where "CITRA_PAGE_BITS \<equiv> 12"
abbreviation CITRA_PAGE_MASK :: u32 where "CITRA_PAGE_MASK \<equiv> 0xFFF"
abbreviation PAGE_TABLE_NUM_ENTRIES :: nat where "PAGE_TABLE_NUM_ENTRIES \<equiv> 0x100000"

abbreviation IO_AREA_PADDR :: u32 where "IO_AREA_PADDR \<equiv> 0x10100000"
abbreviation VRAM_PADDR :: u32 where "VRAM_PADDR \<equiv> 0x18000000"
abbreviation VRAM_SIZE :: u32 where "VRAM_SIZE \<equiv> 0x00600000"
abbreviation VRAM_PADDR_END :: u32 where "VRAM_PADDR_END \<equiv> 0x18600000"
abbreviation N3DS_EXTRA_RAM_PADDR :: u32 where "N3DS_EXTRA_RAM_PADDR \<equiv> 0x1F000000"
abbreviation N3DS_EXTRA_RAM_SIZE :: u32 where "N3DS_EXTRA_RAM_SIZE \<equiv> 0x00400000"
abbreviation DSP_RAM_PADDR :: u32 where "DSP_RAM_PADDR \<equiv> 0x1FF00000"
abbreviation DSP_RAM_SIZE :: u32 where "DSP_RAM_SIZE \<equiv> 0x00080000"
abbreviation FCRAM_PADDR :: u32 where "FCRAM_PADDR \<equiv> 0x20000000"
abbreviation FCRAM_PADDR_END :: u32 where "FCRAM_PADDR_END \<equiv> 0x28000000"
abbreviation FCRAM_N3DS_SIZE :: u32 where "FCRAM_N3DS_SIZE \<equiv> 0x10000000"
abbreviation FCRAM_N3DS_PADDR_END :: u32 where "FCRAM_N3DS_PADDR_END \<equiv> 0x30000000"

abbreviation HEAP_VADDR :: nat where "HEAP_VADDR \<equiv> 0x08000000"
abbreviation HEAP_VADDR_END :: nat where "HEAP_VADDR_END \<equiv> 0x10000000"
abbreviation LINEAR_HEAP_VADDR :: u32 where "LINEAR_HEAP_VADDR \<equiv> 0x14000000"
abbreviation LINEAR_HEAP_VADDR_END :: u32 where "LINEAR_HEAP_VADDR_END \<equiv> 0x1C000000"
abbreviation VRAM_VADDR :: u32 where "VRAM_VADDR \<equiv> 0x1F000000"
abbreviation VRAM_VADDR_END :: u32 where "VRAM_VADDR_END \<equiv> 0x1F600000"
abbreviation NEW_LINEAR_HEAP_VADDR :: u32 where "NEW_LINEAR_HEAP_VADDR \<equiv> 0x30000000"
abbreviation NEW_LINEAR_HEAP_VADDR_END :: u32 where "NEW_LINEAR_HEAP_VADDR_END \<equiv> 0x40000000"
abbreviation PLUGIN_3GX_FB_VADDR :: u32 where "PLUGIN_3GX_FB_VADDR \<equiv> 0x06000000"
abbreviation PLUGIN_3GX_FB_SIZE :: u32 where "PLUGIN_3GX_FB_SIZE \<equiv> 0x000A9000"
abbreviation PLUGIN_3GX_FB_VADDR_END :: u32 where "PLUGIN_3GX_FB_VADDR_END \<equiv> 0x060A9000"

datatype PageType = Unmapped | Memory | RasterizerCachedMemory

datatype FlushMode = Flush | Invalidate | FlushAndInvalidate

text \<open>
  Backing objects: the four regions of \<open>MemorySystem::Impl\<close> and the \<open>BufferMem\<close> objects, told
  apart by a number and carrying their size.
\<close>

datatype backing = FCRAM | VRAM | DSP | N3DS | BufferMem nat nat

fun GetSize :: "backing \<Rightarrow> nat" where
  "GetSize VRAM = unat VRAM_SIZE"
| "GetSize DSP = unat DSP_RAM_SIZE"
| "GetSize FCRAM = unat FCRAM_N3DS_SIZE"
| "GetSize N3DS = unat N3DS_EXTRA_RAM_SIZE"
| "GetSize (BufferMem i n) = n"

type_synonym MemoryRef = "(backing \<times> nat) option"
type_synonym host_memory = "backing \<Rightarrow> nat \<Rightarrow> u8"

text \<open>\<open>MemoryRef\<close>: its constructor asserts the offset, \<open>operator+=\<close> that it stays inside.\<close>

definition make_ref :: "backing \<Rightarrow> nat \<Rightarrow> MemoryRef" where
  "make_ref b off = (if off \<le> GetSize b then Some (b, off) else None)"

definition ref_size :: "MemoryRef \<Rightarrow> nat" where
  "ref_size r = (case r of None \<Rightarrow> 0 | Some (b, off) \<Rightarrow> GetSize b - off)"

record PageTable =
  pointers :: "nat \<Rightarrow> MemoryRef"
  attributes :: "nat \<Rightarrow> PageType"

definition PageTable_Clear :: "PageTable \<Rightarrow> PageTable" where
  "PageTable_Clear pt = pt\<lparr>pointers := (\<lambda>_. None), attributes := (\<lambda>_. Unmapped)\<rparr>"

record gpu_ops =
  rasterizer_region :: "FlushMode \<Rightarrow> u32 \<Rightarrow> u32 \<Rightarrow> host_memory \<Rightarrow> host_memory"
  gpu_ReadReg :: "u32 \<Rightarrow> u32"
  gpu_WriteReg :: "u32 \<Rightarrow> u32 \<Rightarrow> host_memory \<Rightarrow> host_memory"

datatype marker_array = Marker_vram | Marker_linear_heap | Marker_new_linear_heap | Marker_plugin_fb

record MemorySystem =
  host :: host_memory
  tables :: "nat \<Rightarrow> PageTable"
  page_table_list :: "nat list"
  current_page_table :: nat
  current_process :: nat
  cache_marker :: "marker_array \<Rightarrow> nat \<Rightarrow> bool"
  plugin_fb_addr :: "u32 option"
  powered_on :: bool
  physical_ptr_cache :: "u32 \<times> MemoryRef"
  gpu :: gpu_ops

section \<open>Host memory\<close>

definition host_range :: "backing \<Rightarrow> nat \<Rightarrow> nat \<Rightarrow> bool" where
  "host_range b off n \<longleftrightarrow> off + n \<le> GetSize b"

definition host_read :: "host_memory \<Rightarrow> backing \<Rightarrow> nat \<Rightarrow> nat \<Rightarrow> bytes option" where
  "host_read h b off n = (if host_range b off n then Some (map (h b) [off..<off + n]) else None)"

definition host_put :: "host_memory \<Rightarrow> backing \<Rightarrow> nat \<Rightarrow> bytes \<Rightarrow> host_memory" where
  "host_put h b off bs =
     h(b := (\<lambda>i. if off \<le> i \<and> i < off + length bs then bs ! (i - off) else h b i))"

definition host_write :: "host_memory \<Rightarrow> backing \<Rightarrow> nat \<Rightarrow> bytes \<Rightarrow> host_memory option" where
  "host_write h b off bs = (if host_range b off (length bs) then Some (host_put h b off bs) else None)"

section \<open>Rasterizer cache marking\<close>

definition marker_At :: "u32 \<Rightarrow> (marker_array \<times> nat) option" where
  "marker_At addr =
     (if addr \<ge> VRAM_VADDR \<and> addr < VRAM_VADDR_END
        then Some (Marker_vram, unat (addr - VRAM_VADDR) div CITRA_PAGE_SIZE)
      else if addr \<ge> LINEAR_HEAP_VADDR \<and> addr < LINEAR_HEAP_VADDR_END
        then Some (Marker_linear_heap, unat (addr - LINEAR_HEAP_VADDR) div CITRA_PAGE_SIZE)
      else if addr \<ge> NEW_LINEAR_HEAP_VADDR \<and> addr < NEW_LINEAR_HEAP_VADDR_END
        then Some (Marker_new_linear_heap, unat (addr - NEW_LINEAR_HEAP_VADDR) div CITRA_PAGE_SIZE)
      else if addr \<ge> PLUGIN_3GX_FB_VADDR \<and> addr < PLUGIN_3GX_FB_VADDR_END
        then Some (Marker_plugin_fb, unat (addr - PLUGIN_3GX_FB_VADDR) div CITRA_PAGE_SIZE)
      else None)"

definition marker_Mark :: "u32 \<Rightarrow> bool \<Rightarrow> MemorySystem \<Rightarrow> MemorySystem" where
  "marker_Mark addr cached m =
     (case marker_At addr of
        None \<Rightarrow> m
      | Some (a, i) \<Rightarrow> m\<lparr>cache_marker := (cache_marker m)(a := (cache_marker m a)(i := cached))\<rparr>)"

definition marker_IsCached :: "u32 \<Rightarrow> MemorySystem \<Rightarrow> bool" where
  "marker_IsCached addr m =
     (case marker_At addr of None \<Rightarrow> False | Some (a, i) \<Rightarrow> cache_marker m a i)"

definition GetPointerForRasterizerCache :: "MemorySystem \<Rightarrow> u32 \<Rightarrow> MemoryRef" where
  "GetPointerForRasterizerCache m addr =
     (if addr \<ge> LINEAR_HEAP_VADDR \<and> addr < LINEAR_HEAP_VADDR_END
        then make_ref FCRAM (unat (addr - LINEAR_HEAP_VADDR))
      else if addr \<ge> NEW_LINEAR_HEAP_VADDR \<and> addr < NEW_LINEAR_HEAP_VADDR_END
        then make_ref FCRAM (unat (addr - NEW_LINEAR_HEAP_VADDR))
      else if addr \<ge> VRAM_VADDR \<and> addr < VRAM_VADDR_END
        then make_ref VRAM (unat (addr - VRAM_VADDR))
      else if addr \<ge> PLUGIN_3GX_FB_VADDR \<and> addr < PLUGIN_3GX_FB_VADDR_END
        then (case plugin_fb_addr m of
                None \<Rightarrow> None
              | Some fb \<Rightarrow> make_ref FCRAM (unat (addr - PLUGIN_3GX_FB_VADDR + fb - FCRAM_PADDR)))
      else None)"

text \<open>The lambda \<open>CheckRegion\<close> of \<open>RasterizerFlushVirtualRegion\<close>.\<close>

definition CheckRegion ::
    "u32 \<Rightarrow> u32 \<Rightarrow> FlushMode \<Rightarrow> u32 \<Rightarrow> u32 \<Rightarrow> u32 \<Rightarrow> MemorySystem \<Rightarrow> MemorySystem" where
  "CheckRegion start stop mode region_start region_end paddr_region_start m =
     (if start \<ge> region_end \<or> stop \<le> region_start then m
      else
        let overlap_start = max start region_start;
            overlap_end = min stop region_end;
            physical_start = paddr_region_start + (overlap_start - region_start);
            overlap_size = overlap_end - overlap_start
        in m\<lparr>host := rasterizer_region (gpu m) mode physical_start overlap_size (host m)\<rparr>)"

definition RasterizerFlushVirtualRegion :: "u32 \<Rightarrow> u32 \<Rightarrow> FlushMode \<Rightarrow> MemorySystem \<Rightarrow> MemorySystem" where
  "RasterizerFlushVirtualRegion start sz mode m =
     (let stop = start + sz;
          m = CheckRegion start stop mode LINEAR_HEAP_VADDR LINEAR_HEAP_VADDR_END FCRAM_PADDR m;
          m = CheckRegion start stop mode NEW_LINEAR_HEAP_VADDR NEW_LINEAR_HEAP_VADDR_END FCRAM_PADDR m;
          m = CheckRegion start stop mode VRAM_VADDR VRAM_VADDR_END VRAM_PADDR m
      in case plugin_fb_addr m of
           None \<Rightarrow> m
         | Some fb \<Rightarrow>
             if fb = 0 then m
             else CheckRegion start stop mode PLUGIN_3GX_FB_VADDR PLUGIN_3GX_FB_VADDR_END fb m)"

section \<open>Block access\<close>

text \<open>
  The loop of \<open>ReadBlockImpl<UNSAFE>\<close>: state is the page index, the offset in the page and the
  bytes still to copy; \<open>acc\<close> is what the destination buffer holds so far.
\<close>

function read_block_loop ::
    "bool \<Rightarrow> nat \<Rightarrow> MemorySystem \<Rightarrow> nat \<Rightarrow> nat \<Rightarrow> nat \<Rightarrow> bytes \<Rightarrow> (bytes \<times> MemorySystem) option" where
  "read_block_loop unsafe pt m page_index page_offset remaining_size acc =
     (if remaining_size > 0 then
        let copy_amount = min (CITRA_PAGE_SIZE - page_offset) remaining_size;
            current_vaddr = of_nat (page_index * CITRA_PAGE_SIZE + page_offset) :: u32
        in if page_index \<ge> PAGE_TABLE_NUM_ENTRIES then None
           else (case attributes (tables m pt) page_index of
               Unmapped \<Rightarrow>
                 read_block_loop unsafe pt m (page_index + 1) 0 (remaining_size - copy_amount)
                   (acc @ replicate copy_amount 0)
             | Memory \<Rightarrow>
                 (case pointers (tables m pt) page_index of
                    None \<Rightarrow> None
                  | Some (b, off) \<Rightarrow>
                      (case host_read (host m) b (off + page_offset) copy_amount of
                         None \<Rightarrow> None
                       | Some bs \<Rightarrow>
                           read_block_loop unsafe pt m (page_index + 1) 0
                             (remaining_size - copy_amount) (acc @ bs)))
             | RasterizerCachedMemory \<Rightarrow>
                 (let m = (if unsafe then m
                           else RasterizerFlushVirtualRegion current_vaddr (of_nat copy_amount) Flush m)
                  in case GetPointerForRasterizerCache m current_vaddr of
                       None \<Rightarrow> None
                     | Some (b, off) \<Rightarrow>
                         (case host_read (host m) b off copy_amount of
                            None \<Rightarrow> None
                          | Some bs \<Rightarrow>
                              read_block_loop unsafe pt m (page_index + 1) 0
                                (remaining_size - copy_amount) (acc @ bs))))
      else Some (acc, m))"
  by pat_completeness auto
termination
  by (relation "measures [\<lambda>(_, _, _, _, _, rem, _). rem, \<lambda>(_, _, _, _, off, _, _). off]") auto

declare read_block_loop.simps [simp del]

definition ReadBlockImpl :: "bool \<Rightarrow> nat \<Rightarrow> MemorySystem \<Rightarrow> u32 \<Rightarrow> nat \<Rightarrow> (bytes \<times> MemorySystem) option" where
  "ReadBlockImpl unsafe pt m src_addr sz =
     read_block_loop unsafe pt m (unat (drop_bit CITRA_PAGE_BITS src_addr))
       (unat (src_addr AND CITRA_PAGE_MASK)) sz []"

lemma copy_progress:
  "src \<noteq> [] \<Longrightarrow> \<not> length src - min (CITRA_PAGE_SIZE - off) (length src) < length src \<Longrightarrow> 0 < off"
  by (cases src) auto

function write_block_loop ::
    "bool \<Rightarrow> nat \<Rightarrow> MemorySystem \<Rightarrow> nat \<Rightarrow> nat \<Rightarrow> bytes \<Rightarrow> MemorySystem option" where
  "write_block_loop unsafe pt m page_index page_offset src =
     (if length src > 0 then
        let copy_amount = min (CITRA_PAGE_SIZE - page_offset) (length src);
            current_vaddr = of_nat (page_index * CITRA_PAGE_SIZE + page_offset) :: u32
        in if page_index \<ge> PAGE_TABLE_NUM_ENTRIES then None
           else (case attributes (tables m pt) page_index of
               Unmapped \<Rightarrow> write_block_loop unsafe pt m (page_index + 1) 0 (drop copy_amount src)
             | Memory \<Rightarrow>
                 (case pointers (tables m pt) page_index of
                    None \<Rightarrow> None
                  | Some (b, off) \<Rightarrow>
                      (case host_write (host m) b (off + page_offset) (take copy_amount src) of
                         None \<Rightarrow> None
                       | Some h \<Rightarrow>
                           write_block_loop unsafe pt (m\<lparr>host := h\<rparr>) (page_index + 1) 0
                             (drop copy_amount src)))
             | RasterizerCachedMemory \<Rightarrow>
                 (let m = (if unsafe then m
                           else RasterizerFlushVirtualRegion current_vaddr (of_nat copy_amount)
                                  Invalidate m)
                  in case GetPointerForRasterizerCache m current_vaddr of
                       None \<Rightarrow> None
                     | Some (b, off) \<Rightarrow>
                         (case host_write (host m) b off (take copy_amount src) of
                            None \<Rightarrow> None
                          | Some h \<Rightarrow>
                              write_block_loop unsafe pt (m\<lparr>host := h\<rparr>) (page_index + 1) 0
                                (drop copy_amount src))))
      else Some m)"
  by pat_completeness auto
termination
  by (relation "measures [\<lambda>(_, _, _, _, _, src). length src, \<lambda>(_, _, _, _, off, _). off]")
     (auto intro: copy_progress)

declare write_block_loop.simps [simp del]

definition WriteBlockImpl :: "bool \<Rightarrow> nat \<Rightarrow> MemorySystem \<Rightarrow> u32 \<Rightarrow> bytes \<Rightarrow> MemorySystem option" where
  "WriteBlockImpl unsafe pt m dest_addr src =
     write_block_loop unsafe pt m (unat (drop_bit CITRA_PAGE_BITS dest_addr))
       (unat (dest_addr AND CITRA_PAGE_MASK)) src"

text \<open>The overloads without a process use the page table of the current process.\<close>

definition ReadBlock :: "MemorySystem \<Rightarrow> u32 \<Rightarrow> nat \<Rightarrow> (bytes \<times> MemorySystem) option" where
  "ReadBlock m src_addr sz = ReadBlockImpl False (current_process m) m src_addr sz"

definition WriteBlock :: "MemorySystem \<Rightarrow> u32 \<Rightarrow> bytes \<Rightarrow> MemorySystem option" where
  "WriteBlock m dest_addr src = WriteBlockImpl False (current_process m) m dest_addr src"

section \<open>Plainly mapped ranges\<close>

text \<open>
  A guest address is plain when its page is of type \<open>Memory\<close>, has a pointer, and the whole page lies
  inside the backing object. \<open>vloc\<close> is then its location in host memory.
\<close>

definition plain_page :: "PageTable \<Rightarrow> nat \<Rightarrow> bool" where
  "plain_page pt p \<longleftrightarrow> p < PAGE_TABLE_NUM_ENTRIES \<and> attributes pt p = Memory \<and>
     (\<exists>b off. pointers pt p = Some (b, off) \<and> host_range b off CITRA_PAGE_SIZE)"

definition vloc :: "PageTable \<Rightarrow> nat \<Rightarrow> backing \<times> nat" where
  "vloc pt a = (case the (pointers pt (a div CITRA_PAGE_SIZE)) of
     (b, off) \<Rightarrow> (b, off + a mod CITRA_PAGE_SIZE))"

definition peek :: "MemorySystem \<Rightarrow> nat \<Rightarrow> u8" where
  "peek m a = (case vloc (tables m (current_process m)) a of (b, off) \<Rightarrow> host m b off)"

lemma page_chunk:
  assumes "plain_page pt p" "off + n \<le> CITRA_PAGE_SIZE"
  obtains b base where "pointers pt p = Some (b, base)" "attributes pt p = Memory" "p < PAGE_TABLE_NUM_ENTRIES"
    "host_range b (base + off) n"
    "\<And>i. i < CITRA_PAGE_SIZE \<Longrightarrow> vloc pt (p * CITRA_PAGE_SIZE + i) = (b, base + i)"
  using assms by (force simp: plain_page_def host_range_def vloc_def)

lemma page_split:
  assumes "off < CITRA_PAGE_SIZE"
  shows "[p * CITRA_PAGE_SIZE + off..<p * CITRA_PAGE_SIZE + off + n] =
    [p * CITRA_PAGE_SIZE + off..<p * CITRA_PAGE_SIZE + off + min (CITRA_PAGE_SIZE - off) n] @
    [(p + 1) * CITRA_PAGE_SIZE..<(p + 1) * CITRA_PAGE_SIZE + (n - min (CITRA_PAGE_SIZE - off) n)]"
proof (cases "n \<le> CITRA_PAGE_SIZE - off")
  case True
  then show ?thesis by (simp add: min_absorb2)
next
  case False
  define a where "a = p * CITRA_PAGE_SIZE + off"
  define c where "c = CITRA_PAGE_SIZE - off"
  have "[a..<a + n] = [a..<a + c] @ [a + c..<a + c + (n - c)]"
    using False upt_add_eq_append [of a "a + c" "n - c"] by (simp add: c_def)
  moreover have "a + c = (p + 1) * CITRA_PAGE_SIZE" using assms by (simp add: a_def c_def)
  moreover have "min (CITRA_PAGE_SIZE - off) n = c" using False by (simp add: c_def)
  ultimately show ?thesis by (simp only: flip: a_def)
qed

lemma read_block_loop_plain:
  assumes "page_offset < CITRA_PAGE_SIZE"
    and "\<And>a. page_index * CITRA_PAGE_SIZE + page_offset \<le> a \<Longrightarrow>
        a < page_index * CITRA_PAGE_SIZE + page_offset + n \<Longrightarrow> plain_page (tables m pt) (a div CITRA_PAGE_SIZE)"
  shows "read_block_loop unsafe pt m page_index page_offset n acc =
    Some (acc @ map (\<lambda>a. case vloc (tables m pt) a of (b, off) \<Rightarrow> host m b off)
      [page_index * CITRA_PAGE_SIZE + page_offset..<page_index * CITRA_PAGE_SIZE + page_offset + n], m)"
  using assms
proof (induction n arbitrary: page_index page_offset acc rule: less_induct)
  case (less n)
  let ?a = "page_index * CITRA_PAGE_SIZE + page_offset"
  let ?c = "min (CITRA_PAGE_SIZE - page_offset) n"
  let ?f = "\<lambda>a. case vloc (tables m pt) a of (b, off) \<Rightarrow> host m b off"
  show ?case
  proof (cases "n = 0")
    case True
    then show ?thesis by (simp add: read_block_loop.simps)
  next
    case False
    have "plain_page (tables m pt) (?a div CITRA_PAGE_SIZE)"
      using less.prems(2) [of ?a] False by simp
    moreover have "?a div CITRA_PAGE_SIZE = page_index" using less.prems(1) by simp
    ultimately have "plain_page (tables m pt) page_index" by simp
    then obtain b base where pg: "pointers (tables m pt) page_index = Some (b, base)"
      "attributes (tables m pt) page_index = Memory" "page_index < PAGE_TABLE_NUM_ENTRIES"
      "host_range b (base + page_offset) ?c"
      "\<And>i. i < CITRA_PAGE_SIZE \<Longrightarrow> vloc (tables m pt) (page_index * CITRA_PAGE_SIZE + i) = (b, base + i)"
      using less.prems(1) by (elim page_chunk [where off = page_offset and n = ?c]) auto
    have chunk: "host_read (host m) b (base + page_offset) ?c = Some (map ?f [?a..<?a + ?c])"
    proof -
      have "host m b (base + page_offset + i) = ?f (?a + i)" if "i < ?c" for i
      proof -
        have "page_offset + i < CITRA_PAGE_SIZE" using that by auto
        from pg(5) [OF this] show ?thesis by (simp add: add.assoc)
      qed
      then have "map (host m b) [base + page_offset..<base + page_offset + ?c] = map ?f [?a..<?a + ?c]"
        by (intro nth_equalityI) simp_all
      with pg(4) show ?thesis by (simp add: host_read_def)
    qed
    have rest: "read_block_loop unsafe pt m (page_index + 1) 0 (n - ?c) acc' =
        Some (acc' @ map ?f [(page_index + 1) * CITRA_PAGE_SIZE..<(page_index + 1) * CITRA_PAGE_SIZE + (n - ?c)], m)"
      for acc'
    proof -
      have "n - ?c < n" using False less.prems(1) by simp
      moreover have "plain_page (tables m pt) (a div CITRA_PAGE_SIZE)"
        if "(page_index + 1) * CITRA_PAGE_SIZE \<le> a" "a < (page_index + 1) * CITRA_PAGE_SIZE + (n - ?c)" for a
        using that less.prems by (intro less.prems(2)) (auto simp: min_def split: if_splits)
      ultimately show ?thesis using less.IH [of "n - ?c" 0 "page_index + 1" acc'] by simp
    qed
    show ?thesis
      using False pg(1-3) chunk rest
      by (subst page_split [OF less.prems(1)], subst read_block_loop.simps) (simp add: Let_def)
  qed
qed

fun poke :: "PageTable \<Rightarrow> nat \<Rightarrow> bytes \<Rightarrow> host_memory \<Rightarrow> host_memory" where
  "poke pt a [] h = h"
| "poke pt a (x # xs) h = poke pt (Suc a) xs (case vloc pt a of (b, off) \<Rightarrow> h(b := (h b)(off := x)))"

lemma poke_append: "poke pt a (xs @ ys) h = poke pt (a + length xs) ys (poke pt a xs h)"
  by (induction xs arbitrary: a h) simp_all

lemma host_put_Cons:
  "host_put h b off (x # xs) = host_put (h(b := (h b)(off := x))) b (Suc off) xs"
  by (auto simp: host_put_def fun_eq_iff nth_Cons split: nat.split) (metis Suc_diff_Suc Suc_leI le_neq_implies_less nat.inject)+

lemma poke_chunk:
  assumes "\<And>i. i < length xs \<Longrightarrow> vloc pt (a + i) = (b, off + i)"
  shows "poke pt a xs h = host_put h b off xs"
  using assms
proof (induction xs arbitrary: a off h)
  case Nil
  then show ?case by (auto simp: host_put_def fun_eq_iff)
next
  case (Cons x xs)
  have "vloc pt (Suc a + i) = (b, Suc off + i)" if "i < length xs" for i
    using Cons.prems [of "Suc i"] that by simp
  moreover have "vloc pt a = (b, off)" using Cons.prems [of 0] by simp
  ultimately show ?case using Cons.IH by (simp add: host_put_Cons fun_upd_def)
qed

lemma write_block_loop_plain:
  assumes "page_offset < CITRA_PAGE_SIZE"
    and "\<And>a. page_index * CITRA_PAGE_SIZE + page_offset \<le> a \<Longrightarrow>
        a < page_index * CITRA_PAGE_SIZE + page_offset + length src \<Longrightarrow> plain_page (tables m pt) (a div CITRA_PAGE_SIZE)"
  shows "write_block_loop unsafe pt m page_index page_offset src =
    Some (m\<lparr>host := poke (tables m pt) (page_index * CITRA_PAGE_SIZE + page_offset) src (host m)\<rparr>)"
  using assms
proof (induction "length src" arbitrary: page_index page_offset src m rule: less_induct)
  case less
  let ?a = "page_index * CITRA_PAGE_SIZE + page_offset"
  let ?c = "min (CITRA_PAGE_SIZE - page_offset) (length src)"
  show ?case
  proof (cases "src = []")
    case True
    then show ?thesis by (simp add: write_block_loop.simps)
  next
    case False
    have "plain_page (tables m pt) (?a div CITRA_PAGE_SIZE)"
      using less.prems(2) [of ?a] False by simp
    moreover have "?a div CITRA_PAGE_SIZE = page_index" using less.prems(1) by simp
    ultimately have "plain_page (tables m pt) page_index" by simp
    then obtain b base where pg: "pointers (tables m pt) page_index = Some (b, base)"
      "attributes (tables m pt) page_index = Memory" "page_index < PAGE_TABLE_NUM_ENTRIES"
      "host_range b (base + page_offset) ?c"
      "\<And>i. i < CITRA_PAGE_SIZE \<Longrightarrow> vloc (tables m pt) (page_index * CITRA_PAGE_SIZE + i) = (b, base + i)"
      using less.prems(1) by (elim page_chunk [where off = page_offset and n = ?c]) auto
    define m1 where "m1 = m\<lparr>host := poke (tables m pt) ?a (take ?c src) (host m)\<rparr>"
    have chunk: "host_write (host m) b (base + page_offset) (take ?c src) = Some (host m1)"
    proof -
      have "vloc (tables m pt) (?a + i) = (b, base + page_offset + i)" if "i < length (take ?c src)" for i
      proof -
        have "page_offset + i < CITRA_PAGE_SIZE" using that by auto
        from pg(5) [OF this] show ?thesis by (simp add: add.assoc)
      qed
      then have "poke (tables m pt) ?a (take ?c src) (host m) =
          host_put (host m) b (base + page_offset) (take ?c src)"
        by (rule poke_chunk)
      with pg(4) show ?thesis by (simp add: host_write_def m1_def)
    qed
    have rest: "write_block_loop unsafe pt m1 (page_index + 1) 0 (drop ?c src) =
        Some (m1\<lparr>host := poke (tables m pt) ((page_index + 1) * CITRA_PAGE_SIZE) (drop ?c src) (host m1)\<rparr>)"
    proof -
      have "length (drop ?c src) < length src" using False less.prems(1) by simp
      moreover have "plain_page (tables m1 pt) (a div CITRA_PAGE_SIZE)"
        if "(page_index + 1) * CITRA_PAGE_SIZE \<le> a"
           "a < (page_index + 1) * CITRA_PAGE_SIZE + length (drop ?c src)" for a
      proof -
        have "plain_page (tables m pt) (a div CITRA_PAGE_SIZE)"
          using that less.prems by (intro less.prems(2)) (auto simp: min_def split: if_splits)
        then show ?thesis by (simp add: m1_def)
      qed
      ultimately show ?thesis
        using less.hyps [of "drop ?c src" 0 "page_index + 1" m1] by (simp add: m1_def)
    qed
    have "poke (tables m pt) ?a src (host m) =
        poke (tables m pt) ((page_index + 1) * CITRA_PAGE_SIZE) (drop ?c src) (host m1)"
    proof (cases "length src \<le> CITRA_PAGE_SIZE - page_offset")
      case True
      then show ?thesis by (simp add: m1_def)
    next
      case False
      then have "?a + length (take ?c src) = (page_index + 1) * CITRA_PAGE_SIZE"
        using less.prems(1) by simp
      then show ?thesis
        using poke_append [of "tables m pt" ?a "take ?c src" "drop ?c src" "host m"]
        by (simp only: append_take_drop_id) (simp add: m1_def)
    qed
    then show ?thesis
      using False pg(1-3) chunk rest
      by (subst write_block_loop.simps) (simp add: Let_def m1_def)
  qed
qed

section \<open>The interface the guest-memory clients rely on\<close>

text \<open>
  \<open>guest_memory\<close> is what the rest of the development assumes of a memory: on a region of the address
  space, a block read returns the bytes the region holds and changes nothing, and a block write
  replaces exactly the addressed bytes.
\<close>

locale guest_memory =
  fixes read_block :: "'m \<Rightarrow> u32 \<Rightarrow> nat \<Rightarrow> (bytes \<times> 'm) option"
    and write_block :: "'m \<Rightarrow> u32 \<Rightarrow> bytes \<Rightarrow> 'm option"
    and byte_at :: "'m \<Rightarrow> nat \<Rightarrow> u8"
    and ready :: "'m \<Rightarrow> bool"
    and lo :: nat and hi :: nat
  assumes hi_bound: "hi \<le> 2 ^ 32"
    and read_law: "ready m \<Longrightarrow> lo \<le> unat a \<Longrightarrow> unat a + n \<le> hi \<Longrightarrow>
      read_block m a n = Some (map (byte_at m) [unat a..<unat a + n], m)"
    and write_law: "ready m \<Longrightarrow> lo \<le> unat a \<Longrightarrow> unat a + length bs \<le> hi \<Longrightarrow>
      \<exists>m'. write_block m a bs = Some m' \<and> ready m' \<and>
        (\<forall>c. lo \<le> c \<longrightarrow> c < hi \<longrightarrow> byte_at m' c =
          (if unat a \<le> c \<and> c < unat a + length bs then bs ! (c - unat a) else byte_at m c))"
begin

definition block_at :: "'m \<Rightarrow> u32 \<Rightarrow> nat \<Rightarrow> bytes" where
  "block_at m a n = map (byte_at m) [unat a..<unat a + n]"

lemma length_block_at [simp]: "length (block_at m a n) = n"
  by (simp add: block_at_def)

lemma read_block_at:
  "ready m \<Longrightarrow> lo \<le> unat a \<Longrightarrow> unat a + n \<le> hi \<Longrightarrow> read_block m a n = Some (block_at m a n, m)"
  by (simp add: read_law block_at_def)

lemma read_after_write:
  assumes "ready m" "lo \<le> unat a" "unat a + length bs \<le> hi"
  obtains m' where "write_block m a bs = Some m'" "ready m'" "block_at m' a (length bs) = bs"
    "\<And>a' n. lo \<le> unat a' \<Longrightarrow> unat a' + n \<le> hi \<Longrightarrow>
      unat a' + n \<le> unat a \<or> unat a + length bs \<le> unat a' \<Longrightarrow> block_at m' a' n = block_at m a' n"
proof -
  from write_law [OF assms] obtain m' where m': "write_block m a bs = Some m'" "ready m'"
    "\<And>c. lo \<le> c \<Longrightarrow> c < hi \<Longrightarrow> byte_at m' c =
      (if unat a \<le> c \<and> c < unat a + length bs then bs ! (c - unat a) else byte_at m c)"
    by auto
  have "block_at m' a (length bs) = bs"
    using m'(3) assms by (intro nth_equalityI) (simp_all add: block_at_def)
  moreover have "block_at m' a' n = block_at m a' n"
    if "lo \<le> unat a'" "unat a' + n \<le> hi" "unat a' + n \<le> unat a \<or> unat a + length bs \<le> unat a'" for a' n
    using m'(3) that by (auto simp: block_at_def)
  ultimately show ?thesis using that m'(1,2) by blast
qed

lemma write_then_read:
  assumes "ready m" "lo \<le> unat a" "unat a + length bs \<le> hi"
  shows "\<exists>m'. write_block m a bs = Some m' \<and> read_block m' a (length bs) = Some (bs, m')"
proof -
  from read_after_write [OF assms] obtain m' where
    "write_block m a bs = Some m'" "ready m'" "block_at m' a (length bs) = bs" by metis
  with assms show ?thesis by (auto simp: read_block_at)
qed

end

section \<open>The application heap satisfies the interface\<close>

text \<open>
  \<open>heap_ready\<close>: every page of the application heap of the current process is plain, and no two heap
  addresses share a host location (the process's own mappings never alias inside its heap).
\<close>

definition heap_ready :: "MemorySystem \<Rightarrow> bool" where
  "heap_ready m \<longleftrightarrow>
     (\<forall>a. HEAP_VADDR \<le> a \<longrightarrow> a < HEAP_VADDR_END \<longrightarrow>
        plain_page (tables m (current_process m)) (a div CITRA_PAGE_SIZE)) \<and>
     inj_on (vloc (tables m (current_process m))) {HEAP_VADDR..<HEAP_VADDR_END}"

lemma page_of_address:
  "unat (drop_bit CITRA_PAGE_BITS (a :: u32)) * CITRA_PAGE_SIZE + unat (a AND CITRA_PAGE_MASK) = unat a"
  "unat (a AND CITRA_PAGE_MASK) < CITRA_PAGE_SIZE"
proof -
  have m: "(CITRA_PAGE_MASK :: u32) = mask 12" by (simp add: mask_eq_exp_minus_1)
  have "unat (a AND CITRA_PAGE_MASK) = unat a mod CITRA_PAGE_SIZE"
    unfolding m by (simp only: unsigned_take_bit_eq flip: take_bit_eq_mask) (simp add: take_bit_eq_mod)
  moreover have "unat (drop_bit CITRA_PAGE_BITS a) = unat a div CITRA_PAGE_SIZE"
    by (simp only: unat_drop_bit_eq) (simp add: drop_bit_eq_div)
  ultimately show "unat (drop_bit CITRA_PAGE_BITS a) * CITRA_PAGE_SIZE + unat (a AND CITRA_PAGE_MASK) = unat a"
    "unat (a AND CITRA_PAGE_MASK) < CITRA_PAGE_SIZE"
    by simp_all
qed

lemma poke_lookup:
  assumes "inj_on (vloc pt) S" "{a..<a + length bs} \<subseteq> S" "c \<in> S"
  shows "(case vloc pt c of (b, off) \<Rightarrow> poke pt a bs h b off) =
    (if a \<le> c \<and> c < a + length bs then bs ! (c - a) else (case vloc pt c of (b, off) \<Rightarrow> h b off))"
  using assms(2)
proof (induction bs arbitrary: a h)
  case Nil
  then show ?case by auto
next
  case (Cons x xs)
  obtain b off where va: "vloc pt a = (b, off)" by fastforce
  have aS: "a \<in> S" and sub: "{Suc a..<Suc a + length xs} \<subseteq> S" using Cons.prems by auto
  have "vloc pt c = vloc pt a \<longleftrightarrow> c = a" using assms(1,3) aS by (metis inj_onD)
  then have upd: "(case vloc pt c of (b', off') \<Rightarrow> (h(b := (h b)(off := x))) b' off') =
      (if c = a then x else (case vloc pt c of (b', off') \<Rightarrow> h b' off'))"
    using va by (auto split: prod.splits)
  have "(case vloc pt c of (b', off') \<Rightarrow> poke pt a (x # xs) h b' off') =
      (if Suc a \<le> c \<and> c < Suc a + length xs then xs ! (c - Suc a)
       else if c = a then x else (case vloc pt c of (b', off') \<Rightarrow> h b' off'))"
    using Cons.IH [OF sub, of "h(b := (h b)(off := x))"] va by (simp only: poke.simps upd prod.case)
  then show ?case by (auto simp: nth_Cons')
qed

lemma heap_read_law:
  assumes "heap_ready m" "HEAP_VADDR \<le> unat a" "unat a + n \<le> HEAP_VADDR_END"
  shows "ReadBlock m a n = Some (map (peek m) [unat a..<unat a + n], m)"
proof -
  have "plain_page (tables m (current_process m)) (c div CITRA_PAGE_SIZE)"
    if "unat a \<le> c" "c < unat a + n" for c
    using assms that by (simp add: heap_ready_def)
  then show ?thesis
    using read_block_loop_plain [of "unat (a AND CITRA_PAGE_MASK)" "unat (drop_bit CITRA_PAGE_BITS a)" n m
        "current_process m" False "[]"]
    by (simp add: ReadBlock_def ReadBlockImpl_def page_of_address peek_def [abs_def])
qed

lemma heap_write_eq:
  assumes "heap_ready m" "HEAP_VADDR \<le> unat a" "unat a + length bs \<le> HEAP_VADDR_END"
  shows "WriteBlock m a bs = Some (m\<lparr>host := poke (tables m (current_process m)) (unat a) bs (host m)\<rparr>)"
proof -
  have "plain_page (tables m (current_process m)) (c div CITRA_PAGE_SIZE)"
    if "unat a \<le> c" "c < unat a + length bs" for c
    using assms that by (simp add: heap_ready_def)
  then show ?thesis
    using write_block_loop_plain [of "unat (a AND CITRA_PAGE_MASK)" "unat (drop_bit CITRA_PAGE_BITS a)" bs m
        "current_process m" False]
    by (simp add: WriteBlock_def WriteBlockImpl_def page_of_address)
qed

lemma heap_write_law:
  assumes "heap_ready m" "HEAP_VADDR \<le> unat a" "unat a + length bs \<le> HEAP_VADDR_END"
  shows "\<exists>m'. WriteBlock m a bs = Some m' \<and> heap_ready m' \<and>
    (\<forall>c. HEAP_VADDR \<le> c \<longrightarrow> c < HEAP_VADDR_END \<longrightarrow> peek m' c =
      (if unat a \<le> c \<and> c < unat a + length bs then bs ! (c - unat a) else peek m c))"
proof -
  let ?pt = "tables m (current_process m)"
  let ?m' = "m\<lparr>host := poke ?pt (unat a) bs (host m)\<rparr>"
  have "heap_ready ?m'" using assms(1) by (simp add: heap_ready_def)
  moreover have "peek ?m' c = (if unat a \<le> c \<and> c < unat a + length bs then bs ! (c - unat a) else peek m c)"
    if "HEAP_VADDR \<le> c" "c < HEAP_VADDR_END" for c
    using poke_lookup [of ?pt "{HEAP_VADDR..<HEAP_VADDR_END}" "unat a" bs c "host m"] assms that
    by (simp add: heap_ready_def peek_def)
  ultimately show ?thesis using heap_write_eq [OF assms] by auto
qed

interpretation heap: guest_memory ReadBlock WriteBlock peek heap_ready HEAP_VADDR HEAP_VADDR_END
  by unfold_locales (simp, rule heap_read_law, assumption+, rule heap_write_law, assumption+)

section \<open>A mapped heap exists\<close>

text \<open>
  A memory whose heap pages are mapped to FCRAM in order, with the byte \<open>f a\<close> at heap address \<open>a\<close>:
  the shape \<open>vm_manager\<close> gives a process, used to show that statements about a mapped heap are not
  vacuous.
\<close>

definition idle_gpu :: gpu_ops where
  "idle_gpu = \<lparr>rasterizer_region = (\<lambda>_ _ _ h. h), gpu_ReadReg = (\<lambda>_. 0), gpu_WriteReg = (\<lambda>_ _ h. h)\<rparr>"

definition heap_table :: PageTable where
  "heap_table =
     \<lparr>pointers = (\<lambda>p. if 0x8000 \<le> p \<and> p < 0x10000 then Some (FCRAM, (p - 0x8000) * CITRA_PAGE_SIZE) else None),
      attributes = (\<lambda>p. if 0x8000 \<le> p \<and> p < 0x10000 then Memory else Unmapped)\<rparr>"

definition heap_memory :: "(nat \<Rightarrow> u8) \<Rightarrow> MemorySystem" where
  "heap_memory f =
     \<lparr>host = (\<lambda>b off. f (HEAP_VADDR + off)), tables = (\<lambda>_. heap_table), page_table_list = [0],
      current_page_table = 0, current_process = 0, cache_marker = (\<lambda>_ _. False), plugin_fb_addr = None,
      powered_on = True, physical_ptr_cache = (0, None), gpu = idle_gpu\<rparr>"

lemma heap_table_vloc:
  "HEAP_VADDR \<le> a \<Longrightarrow> a < HEAP_VADDR_END \<Longrightarrow> vloc heap_table a = (FCRAM, a - HEAP_VADDR)"
proof -
  assume a: "HEAP_VADDR \<le> a" "a < HEAP_VADDR_END"
  then have "0x8000 \<le> a div CITRA_PAGE_SIZE" "a div CITRA_PAGE_SIZE < 0x10000" by auto
  moreover from this have "(a div CITRA_PAGE_SIZE - 0x8000) * CITRA_PAGE_SIZE + a mod CITRA_PAGE_SIZE = a - HEAP_VADDR"
    by (simp add: diff_mult_distrib)
  ultimately show ?thesis by (simp add: vloc_def heap_table_def)
qed

lemma heap_memory_ready: "heap_ready (heap_memory f)"
proof -
  have "plain_page heap_table (a div CITRA_PAGE_SIZE)" if "HEAP_VADDR \<le> a" "a < HEAP_VADDR_END" for a
    using that by (auto simp: plain_page_def heap_table_def host_range_def)
  moreover have "inj_on (vloc heap_table) {HEAP_VADDR..<HEAP_VADDR_END}"
    by (rule inj_onI) (auto simp: heap_table_vloc)
  ultimately show ?thesis by (simp add: heap_ready_def heap_memory_def)
qed

lemma heap_memory_peek:
  "HEAP_VADDR \<le> a \<Longrightarrow> a < HEAP_VADDR_END \<Longrightarrow> peek (heap_memory f) a = f a"
  by (simp add: peek_def heap_memory_def heap_table_vloc)

lemma heap_memory_block:
  "HEAP_VADDR \<le> unat a \<Longrightarrow> unat a + n \<le> HEAP_VADDR_END \<Longrightarrow>
   heap.block_at (heap_memory f) a n = map f [unat a..<unat a + n]"
  by (simp add: heap.block_at_def heap_memory_peek)

lemma heap_memory_block_nth:
  "HEAP_VADDR \<le> unat a \<Longrightarrow> unat a + n \<le> HEAP_VADDR_END \<Longrightarrow> i < n \<Longrightarrow>
   heap.block_at (heap_memory f) a n ! i = f (unat a + i)"
  by (simp add: heap_memory_block)

section \<open>Properties\<close>

text \<open>
  C30: A block written to the mapped heap is read back unchanged, whatever the number of pages it spans,
  and every other heap address keeps its byte.
\<close>

theorem WriteBlock_ReadBlock:
  assumes "heap_ready m" "HEAP_VADDR \<le> unat a" "unat a + length bs \<le> HEAP_VADDR_END"
  shows "\<exists>m'. WriteBlock m a bs = Some m' \<and> ReadBlock m' a (length bs) = Some (bs, m') \<and>
    (\<forall>c. HEAP_VADDR \<le> c \<longrightarrow> c < HEAP_VADDR_END \<longrightarrow> \<not> (unat a \<le> c \<and> c < unat a + length bs) \<longrightarrow>
      ReadBlock m' (of_nat c) 1 = Some ([peek m c], m'))"
proof -
  obtain m' where m': "WriteBlock m a bs = Some m'" "heap_ready m'"
    "\<forall>c. HEAP_VADDR \<le> c \<longrightarrow> c < HEAP_VADDR_END \<longrightarrow> peek m' c =
      (if unat a \<le> c \<and> c < unat a + length bs then bs ! (c - unat a) else peek m c)"
    using heap_write_law [OF assms] by blast
  have "ReadBlock m' a (length bs) = Some (bs, m')"
    using heap.write_then_read [OF assms] m'(1) by simp
  moreover have "ReadBlock m' (of_nat c) 1 = Some ([peek m' c], m')"
    if "HEAP_VADDR \<le> c" "c < HEAP_VADDR_END" for c
    using heap_read_law [OF m'(2), of "of_nat c" 1] that by (simp add: unat_of_nat)
  ultimately show ?thesis using m' by auto
qed

theorem WriteBlock_ReadBlock_witness:
  "\<exists>m'. WriteBlock (heap_memory (\<lambda>_. 0)) 0x8000FFE [1, 2, 3, 4] = Some m' \<and>
    ReadBlock m' 0x8000FFE (length [1 :: u8, 2, 3, 4]) = Some ([1, 2, 3, 4], m')"
  using WriteBlock_ReadBlock [OF heap_memory_ready, of "0x8000FFE" "[1, 2, 3, 4]" "\<lambda>_. 0"] by auto

end
