(* ===== verification/Host_Files.thy ===== *)
theory Host_Files
  imports Prelude
begin

text \<open>
  The host file system as the sources use it: a file is its bytes, a path is a string relative to
  the directory of the executable (every path of the nuzlocke code is \<open>exeDir / "user" / ...\<close>).
  \<open>files p = None\<close> is a path that cannot be opened for reading; opening a path for writing succeeds
  when \<open>writable p\<close> holds. Input or output errors after a successful open are not modelled.
\<close>

type_synonym path = string

record file_system =
  files :: "path \<Rightarrow> bytes option"
  writable :: "path \<Rightarrow> bool"

definition fs_exists :: "file_system \<Rightarrow> path \<Rightarrow> bool" where
  "fs_exists fs p \<longleftrightarrow> files fs p \<noteq> None"

text \<open>\<open>std::ofstream out(path, std::ios::binary)\<close> followed by writing \<open>data\<close>; \<open>None\<close> if it did not open.\<close>

definition fs_write :: "file_system \<Rightarrow> path \<Rightarrow> bytes \<Rightarrow> file_system option" where
  "fs_write fs p data = (if writable fs p then Some (fs\<lparr>files := (files fs)(p := Some data)\<rparr>) else None)"

definition P_DIR :: path where "P_DIR = ''user/rtp/p/''"
definition VISROU_BIN :: path where "VISROU_BIN = P_DIR @ ''visRou.bin''"
definition HASPKB_BIN :: path where "HASPKB_BIN = P_DIR @ ''haspkb.bin''"
definition DEP_MAP_BIN :: path where "DEP_MAP_BIN = P_DIR @ ''DEp_Map.bin''"
definition PTS_JSON :: path where "PTS_JSON = P_DIR @ ''pts.json''"

lemma fs_write_files:
  "fs_write fs p data = Some fs' \<Longrightarrow> files fs' q = (if q = p then Some data else files fs q)"
  "fs_write fs p data = Some fs' \<Longrightarrow> writable fs' = writable fs"
  by (auto simp: fs_write_def split: if_splits)

lemma nuzlocke_paths_distinct [simp]:
  "VISROU_BIN \<noteq> HASPKB_BIN" "HASPKB_BIN \<noteq> VISROU_BIN" "VISROU_BIN \<noteq> PTS_JSON" "PTS_JSON \<noteq> VISROU_BIN"
  "HASPKB_BIN \<noteq> PTS_JSON" "PTS_JSON \<noteq> HASPKB_BIN" "DEP_MAP_BIN \<noteq> VISROU_BIN" "DEP_MAP_BIN \<noteq> HASPKB_BIN"
  "VISROU_BIN \<noteq> DEP_MAP_BIN" "HASPKB_BIN \<noteq> DEP_MAP_BIN" "DEP_MAP_BIN \<noteq> PTS_JSON" "PTS_JSON \<noteq> DEP_MAP_BIN"
  by (simp_all add: VISROU_BIN_def HASPKB_BIN_def DEP_MAP_BIN_def PTS_JSON_def)

end
