(* ===== verification/Pk6_Slot.thy ===== *)
theory Pk6_Slot
  imports Pk6_Crypto Memory_System Host_Files
begin

text \<open>
  The slot readers and the conversion of a fainted Pokemon of \<open>core/poke_export.cpp\<close>, with the
  structures and addresses of \<open>core/poke_export.h\<close>. A reader returns what it read and the memory
  afterwards; \<open>None\<close> is an abort inside the memory system.
\<close>

unbundle bit_operations_syntax

section \<open>Structures and addresses\<close>

record Pk6FullData =
  pid :: u32
  species :: u16
  metLocation :: u8
  item :: u16
  ability :: u8
  experience :: u32
  moves :: "u16 list"
  currentPP :: "u8 list"
  isShiny :: bool

record BattleSlotData =
  b_species :: u16
  b_item :: u16
  b_ability :: u16
  b_level :: u16
  moveIDs :: "u16 list"
  movePP :: "u8 list"

definition blank_pk6 :: Pk6FullData where
  "blank_pk6 = \<lparr>pid = 0, species = 0, metLocation = 0, item = 0, ability = 0, experience = 0,
     moves = [0, 0, 0, 0], currentPP = [0, 0, 0, 0], isShiny = False\<rparr>"

definition blank_battle_slot :: BattleSlotData where
  "blank_battle_slot = \<lparr>b_species = 0, b_item = 0, b_ability = 0, b_level = 0,
     moveIDs = [0, 0, 0, 0], movePP = [0, 0, 0, 0]\<rparr>"

definition PARTY_ORAS :: u32 where "PARTY_ORAS = 0x8cf727c"
definition WILD_ORAS :: u32 where "WILD_ORAS = 0x081FFA6C"
definition MAPID_ORAS :: u32 where "MAPID_ORAS = 0x8D36774"
definition PC_ORAS :: u32 where "PC_ORAS = 0x8C9A144"
definition TID_ORAS :: u32 where "TID_ORAS = 0x8C7D350"
definition SID_ORAS :: u32 where "SID_ORAS = 0x8C7D352"
definition BATTLE_HP_SLOT_WILD :: u32 where "BATTLE_HP_SLOT_WILD = 0x8204204"
definition BATTLE_HP_SLOT_TRAINER :: u32 where "BATTLE_HP_SLOT_TRAINER = 0x8205D14"
definition BATTLE_HP_SLOT_STRIDE :: int where "BATTLE_HP_SLOT_STRIDE = 580"
definition POKEMON_SLOT_STRIDE :: int where "POKEMON_SLOT_STRIDE = 484"
definition PARTY_SIZE :: int where "PARTY_SIZE = 6"
definition MAX_WILDS :: int where "MAX_WILDS = 5"
definition PC_SIZE :: int where "PC_SIZE = 31 * 30"
definition OFF_PID :: nat where "OFF_PID = 0x18"
definition OFF_SPECIES :: nat where "OFF_SPECIES = 0x08"
definition OFF_METLOCATION :: nat where "OFF_METLOCATION = 0xDA"
definition OFF_CURRENT_HP :: nat where "OFF_CURRENT_HP = 0xF0"

lemmas oras_constants [simp] =
  PARTY_ORAS_def WILD_ORAS_def MAPID_ORAS_def PC_ORAS_def TID_ORAS_def SID_ORAS_def
  BATTLE_HP_SLOT_WILD_def BATTLE_HP_SLOT_TRAINER_def BATTLE_HP_SLOT_STRIDE_def
  POKEMON_SLOT_STRIDE_def PARTY_SIZE_def MAX_WILDS_def PC_SIZE_def OFF_PID_def OFF_SPECIES_def
  OFF_METLOCATION_def OFF_CURRENT_HP_def

section \<open>Writing a block and reading it back\<close>

fun write_verify_attempts :: "nat \<Rightarrow> MemorySystem \<Rightarrow> u32 \<Rightarrow> bytes \<Rightarrow> (bool \<times> MemorySystem) option" where
  "write_verify_attempts 0 m addr data = Some (False, m)"
| "write_verify_attempts (Suc n) m addr data =
     do {
       m \<leftarrow> WriteBlock m addr data;
       (verify, m) \<leftarrow> ReadBlock m addr (length data);
       if verify = data then Some (True, m) else write_verify_attempts n m addr data
     }"

definition MAX_WRITE_ATTEMPTS :: nat where "MAX_WRITE_ATTEMPTS = 6"

definition WriteBlockStrideWithVerify :: "MemorySystem \<Rightarrow> u32 \<Rightarrow> bytes \<Rightarrow> (bool \<times> MemorySystem) option" where
  "WriteBlockStrideWithVerify m addr data = write_verify_attempts MAX_WRITE_ATTEMPTS m addr data"

section \<open>Slot readers\<close>

definition isBattleTrainer :: "MemorySystem \<Rightarrow> (bool \<times> MemorySystem) option" where
  "isBattleTrainer m =
     do {
       let addr = BATTLE_HP_SLOT_WILD;
       (a, m) \<leftarrow> ReadBlock m (addr + 0x006) 2;
       (s, m) \<leftarrow> ReadBlock m (addr + 0x0E4) 2;
       Some (ReadLE16 s 0 = 0 \<and> ReadLE16 a 0 = 0, m)
     }"

definition slot_address :: "u32 \<Rightarrow> int \<Rightarrow> u32" where
  "slot_address base slot = base + of_int (slot * POKEMON_SLOT_STRIDE)"

text \<open>The fields \<open>ReadPk6Slot\<close> takes from the decrypted buffer, apart from \<open>isShiny\<close>.\<close>

definition pk6_fields :: "bytes \<Rightarrow> Pk6FullData \<Rightarrow> Pk6FullData" where
  "pk6_fields buf out = out
     \<lparr>pid := ReadLE32 buf 0x18, species := ReadLE16 buf 0x08, item := ReadLE16 buf 0x0A,
      ability := buf ! 0x14, experience := ReadLE32 buf 0x10, metLocation := buf ! 0xDB,
      moves := [ReadLE16 buf 0x5A, ReadLE16 buf 0x5C, ReadLE16 buf 0x5E, ReadLE16 buf 0x60],
      currentPP := [buf ! 0x62, buf ! 0x63, buf ! 0x64, buf ! 0x65]\<rparr>"

definition shiny_value :: "u16 \<Rightarrow> u16 \<Rightarrow> u32 \<Rightarrow> bool" where
  "shiny_value tid sid p =
     (let pidHigh = ucast (drop_bit 16 p) :: u16; pidLow = ucast (p AND 0xFFFF) :: u16
      in (tid XOR sid XOR pidHigh XOR pidLow) < 16)"

definition ReadPk6Slot ::
    "MemorySystem \<Rightarrow> int \<Rightarrow> Pk6FullData \<Rightarrow> bool \<Rightarrow> (bool \<times> Pk6FullData \<times> MemorySystem) option" where
  "ReadPk6Slot m party_slot outPk6 isWild =
     (if party_slot < 0 \<or> party_slot \<ge> PARTY_SIZE then Some (False, outPk6, m)
      else do {
        let slot_addr = slot_address (if isWild then WILD_ORAS else PARTY_ORAS) party_slot;
        (buf, m) \<leftarrow> ReadBlock m slot_addr PKM_PARTY_SIZE;
        (case DecryptPk6InPlace buf (length buf) True of
           (False, _) \<Rightarrow> Some (False, outPk6, m)
         | (True, buf) \<Rightarrow>
             do {
               let out = pk6_fields buf outPk6;
               if ReadLE16 buf 0x08 \<noteq> 0 then
                 if isWild then
                   do {
                     (t, m) \<leftarrow> ReadBlock m TID_ORAS 2;
                     (s, m) \<leftarrow> ReadBlock m SID_ORAS 2;
                     Some (True, out\<lparr>isShiny := shiny_value (ReadLE16 t 0) (ReadLE16 s 0) (pid out)\<rparr>, m)
                   }
                 else
                   Some (True,
                     out\<lparr>isShiny := shiny_value (ReadLE16 buf 0x0C) (ReadLE16 buf 0x0E) (pid out)\<rparr>, m)
               else Some (True, out\<lparr>isShiny := False\<rparr>, m)
             })
      })"

definition battle_slot_base :: "bool \<Rightarrow> int \<Rightarrow> u32" where
  "battle_slot_base trainer slot =
     (if trainer then BATTLE_HP_SLOT_TRAINER else BATTLE_HP_SLOT_WILD) + of_int (slot * BATTLE_HP_SLOT_STRIDE)"

definition ReadBattleHPFromSlot :: "MemorySystem \<Rightarrow> int \<Rightarrow> (u16 \<times> MemorySystem) option" where
  "ReadBattleHPFromSlot m slot =
     (if slot < 0 \<or> slot \<ge> PARTY_SIZE then Some (0xFFFF, m)
      else do {
        (trainer, m) \<leftarrow> isBattleTrainer m;
        (hp, m) \<leftarrow> ReadBlock m (battle_slot_base trainer slot) 2;
        Some (ReadLE16 hp 0, m)
      })"

text \<open>The loop over the four moves: the identifier at \<open>moveOffsets[i]\<close>, the PP at \<open>ppOffsets[i]\<close>.\<close>

fun read_battle_moves :: "MemorySystem \<Rightarrow> u32 \<Rightarrow> (u32 \<times> u32) list \<Rightarrow>
    ((u16 list \<times> u8 list) \<times> MemorySystem) option" where
  "read_battle_moves m base [] = Some (([], []), m)"
| "read_battle_moves m base ((mo, po) # offs) =
     do {
       (mv, m) \<leftarrow> ReadBlock m (base + mo) 2;
       (pp, m) \<leftarrow> ReadBlock m (base + po) 1;
       ((mvs, pps), m) \<leftarrow> read_battle_moves m base offs;
       Some ((ReadLE16 mv 0 # mvs, pp ! 0 # pps), m)
     }"

definition ReadBattleSlot ::
    "int \<Rightarrow> MemorySystem \<Rightarrow> int \<Rightarrow> (BattleSlotData \<times> MemorySystem) option" where
  "ReadBattleSlot pokemonCarried m slot =
     (if slot > pokemonCarried - 1 then Some (blank_battle_slot, m)
      else do {
        (trainer, m) \<leftarrow> isBattleTrainer m;
        let base = battle_slot_base trainer slot;
        (ab, m) \<leftarrow> ReadBlock m (base + 0x006) 2;
        (sp, m) \<leftarrow> ReadBlock m (base + 0x0E4) 2;
        (lv, m) \<leftarrow> ReadBlock m (base + 0x008) 2;
        (it, m) \<leftarrow> ReadBlock m (base + 0x002) 2;
        ((mvs, pps), m) \<leftarrow> read_battle_moves m base
          [(0x106, 0x108), (0x114, 0x116), (0x122, 0x124), (0x130, 0x132)];
        Some (\<lparr>b_species = ReadLE16 sp 0, b_item = ReadLE16 it 0, b_ability = ReadLE16 ab 0,
               b_level = ReadLE16 lv 0, moveIDs = mvs, movePP = pps\<rparr>, m)
      })"

text \<open>\<open>b.ability\<close> has 16 bits and \<open>p.ability\<close> 8; both are promoted before the comparison.\<close>

definition MatchBattleSlotToPk6 :: "BattleSlotData \<Rightarrow> Pk6FullData \<Rightarrow> bool" where
  "MatchBattleSlotToPk6 b p =
     (if b_species b \<noteq> species p then False
      else if b_item b \<noteq> item p then False
      else if unat (b_ability b) \<noteq> unat (ability p) then False
      else list_all (\<lambda>i. \<not> (moveIDs b ! i \<noteq> moves p ! i \<or> movePP b ! i \<noteq> currentPP p ! i)) [0..<4])"

definition ReadPk6PCSlot :: "MemorySystem \<Rightarrow> int \<Rightarrow> (int \<times> MemorySystem) option" where
  "ReadPk6PCSlot m pc_slot =
     do {
       (buf, m) \<leftarrow> ReadBlock m (PC_ORAS + of_int (pc_slot * int PKM_BOX_SIZE)) PKM_BOX_SIZE;
       (case DecryptPk6InPlace buf (length buf) False of
          (False, _) \<Rightarrow> Some (0, m)
        | (True, buf) \<Rightarrow> Some (uint (ReadLE16 buf 0x08), m))
     }"

definition ExportMapID :: "MemorySystem \<Rightarrow> (u16 \<times> MemorySystem) option" where
  "ExportMapID m =
     do {
       (buf, m) \<leftarrow> ReadBlock m MAPID_ORAS 2;
       Some (ucast (buf ! 0) OR push_bit 8 (ucast (buf ! 1)), m)
     }"

text \<open>The six tests of \<open>isBattle\<close> on the decrypted wild slot.\<close>

definition battle_tests :: "bytes \<Rightarrow> bool list" where
  "battle_tests data =
     [ReadLE16 data OFF_SPECIES \<noteq> 0 \<and> ReadLE16 data OFF_SPECIES < 750,
      data ! 0x1C \<le> 30,
      sum_list (map (\<lambda>off. unat (data ! off)) [0x1E..<0x24]) \<le> 520,
      data ! 0x15 \<le> 5,
      data ! 0xDC \<le> 30,
      data ! 0xE3 \<ge> 1 \<and> data ! 0xE3 \<le> 15]"

definition isBattle :: "MemorySystem \<Rightarrow> (bool \<times> MemorySystem) option" where
  "isBattle m =
     do {
       (data, m) \<leftarrow> ReadBlock m WILD_ORAS PKM_BOX_SIZE;
       (case DecryptPk6InPlace data (length data) False of
          (False, _) \<Rightarrow> Some (False, m)
        | (True, data) \<Rightarrow> Some (length (filter id (battle_tests data)) \<ge> 5, m))
     }"

section \<open>Converting a fainted Pokemon\<close>

definition shedinja_name :: bytes where
  "shedinja_name = [0x8C, 0x87, 0x84, 0x83, 0x92, 0x8C, 0x8D, 0x80, 0x00, 0x00, 0x00, 0x00]"

definition ot_name :: bytes where
  "ot_name = [0x80, 0x99, 0x80, 0x87, 0x80, 0x8A, 0x00, 0x00, 0x00, 0x00, 0x00, 0x00]"

text \<open>\<open>for (int i = first; i <= last; i++) pkm_data[i] = 0;\<close>\<close>

definition zero_range :: "nat \<Rightarrow> nat \<Rightarrow> bytes \<Rightarrow> bytes" where
  "zero_range first last_i b = fold (\<lambda>i b. b[i := 0]) [first..<last_i + 1] b"

text \<open>The writes of \<open>ConvertToDeadShedinjaInPlaceManual\<close> between decryption and the checksum.\<close>

definition shedinja_main_edits :: "bytes \<Rightarrow> bytes" where
  "shedinja_main_edits b =
     (let b = WriteLE32 b OFF_PID 1;
          b = WriteLE16 b OFF_SPECIES 292;
          b = b[0x14 := 54];
          b = b[0x15 := 1];
          b = WriteLE32 b 0x10 0;
          b = WriteLE16 b 0x5A 0;
          b = WriteLE16 b 0x5C 0;
          b = WriteLE16 b 0x5E 0;
          b = WriteLE16 b 0x60 0;
          b = b[0x62 := 0];
          b = b[0x63 := 0];
          b = b[0x64 := 0];
          b = b[0x65 := 0];
          b = b[0x66 := 0];
          b = WriteLE16 b 0x6A 0;
          b = WriteLE16 b 0x6C 0;
          b = WriteLE16 b 0x6E 0;
          b = WriteLE16 b 0x70 0;
          b = memcpy b 0x40 shedinja_name 0 12;
          b = memcpy b 0xB0 ot_name 0 12;
          b = b[0x1D := 0x04];
          b = b[0x1D := b ! 0x1D AND 0xF8];
          b = b[0x1D := b ! 0x1D AND 0xFE];
          b = zero_range 0x1E 0x23 b;
          b = zero_range 0x24 0x29 b;
          b = b[0xDC := 0x01];
          b = WriteLE16 b OFF_METLOCATION 0x7C;
          b = b[0xDD := 0x01];
          b = WriteLE32 b 0x74 0;
          b = b[0x1C := 0x00];
          b = b[0xCA := 0]
      in b)"

definition dead_battle_stats :: "bytes \<Rightarrow> bytes" where
  "dead_battle_stats b =
     (let b = b[0xEC := 1];
          b = WriteLE16 b OFF_CURRENT_HP 0;
          b = WriteLE16 b 0xF2 1;
          b = WriteLE16 b 0xF4 1;
          b = WriteLE16 b 0xF6 1;
          b = WriteLE16 b 0xF8 1;
          b = WriteLE16 b 0xFA 1;
          b = WriteLE16 b 0xFC 1
      in b)"

definition ConvertToDeadShedinjaInPlaceManual :: "bytes \<Rightarrow> nat \<Rightarrow> bool \<Rightarrow> bool \<times> bytes" where
  "ConvertToDeadShedinjaInPlaceManual pkm_data sz is_party =
     (if sz < PKM_PARTY_SIZE then (False, pkm_data)
      else case DecryptPk6InPlace pkm_data sz is_party of
        (False, b) \<Rightarrow> (False, b)
      | (True, b) \<Rightarrow>
          (case DecryptBattleStats b sz is_party of
             (False, b) \<Rightarrow> (False, b)
           | (True, b) \<Rightarrow>
               (let b = shedinja_main_edits b;
                    b = dead_battle_stats b;
                    b = WriteLE16 b 0x06 (pk6_checksum b)
                in case EncryptPk6InPlace b sz is_party of
                     (False, b) \<Rightarrow> (False, b)
                   | (True, b) \<Rightarrow>
                       (case EncryptBattleStats b sz is_party of
                          (False, b) \<Rightarrow> (False, b)
                        | (True, b) \<Rightarrow> (True, b)))))"

definition LoadShedinjaFromFile :: "file_system \<Rightarrow> path \<Rightarrow> bytes" where
  "LoadShedinjaFromFile fs base_path =
     (case files fs (base_path @ ''shd.pk6'') of None \<Rightarrow> [] | Some data \<Rightarrow> data)"

text \<open>The fields \<open>PrepareShedinjaFromFile\<close> overwrites outside the battle statistics.\<close>

definition prepared_main_edits :: "bytes \<Rightarrow> bytes" where
  "prepared_main_edits b =
     (let b = WriteLE16 b OFF_SPECIES 292;
          b = b[0x14 := 54];
          b = b[0x15 := 1];
          b = WriteLE16 b 0x5A 0;
          b = WriteLE16 b 0x5C 0;
          b = WriteLE16 b 0x5E 0;
          b = WriteLE16 b 0x60 0;
          b = b[0x62 := 0];
          b = b[0x63 := 0];
          b = b[0x64 := 0];
          b = b[0x65 := 0]
      in b)"

definition PrepareShedinjaFromFile :: "file_system \<Rightarrow> bytes \<Rightarrow> nat \<Rightarrow> bool \<Rightarrow> path \<Rightarrow> bool \<times> bytes" where
  "PrepareShedinjaFromFile fs pkm_data sz is_party base_path =
     (if sz < PKM_PARTY_SIZE then (False, pkm_data)
      else
        let shedinja_data = LoadShedinjaFromFile fs base_path
        in if shedinja_data = [] then (False, pkm_data)
           else if length shedinja_data \<noteq> PKM_PARTY_SIZE \<and> length shedinja_data \<noteq> PKM_BOX_SIZE
             then (False, pkm_data)
           else if length shedinja_data = PKM_BOX_SIZE \<and> is_party
             then ConvertToDeadShedinjaInPlaceManual pkm_data sz is_party
           else
             let b = shedinja_data;
                 b = (if is_party then dead_battle_stats b else b);
                 b = prepared_main_edits b;
                 b = WriteLE16 b 0x06 (pk6_checksum b)
             in (True, b))"

definition ConvertToDeadShedinjaInPlace :: "file_system \<Rightarrow> bytes \<Rightarrow> nat \<Rightarrow> bool \<Rightarrow> path \<Rightarrow> bool \<times> bytes" where
  "ConvertToDeadShedinjaInPlace fs pkm_data sz is_party base_path =
     (case PrepareShedinjaFromFile fs pkm_data sz is_party base_path of
        (True, b) \<Rightarrow> (True, b)
      | (False, b) \<Rightarrow> ConvertToDeadShedinjaInPlaceManual b sz is_party)"

section \<open>What the conversion leaves behind\<close>

lemma length_zero_range [simp, buffer_simps]: "length (zero_range i j b) = length b"
proof -
  have "length (fold (\<lambda>i b. b[i := 0]) xs b) = length b" for xs by (induction xs arbitrary: b) simp_all
  then show ?thesis by (simp add: zero_range_def)
qed

lemma nth_zero_range:
  "k < length b \<Longrightarrow> zero_range i j b ! k = (if i \<le> k \<and> k \<le> j then 0 else b ! k)"
proof -
  assume "k < length b"
  then have "fold (\<lambda>i b. b[i := 0]) xs b ! k = (if k \<in> set xs then 0 else b ! k)" for xs
    by (induction xs arbitrary: b) (auto simp: nth_list_update)
  then show ?thesis by (auto simp: zero_range_def)
qed

lemma ReadLE_zero_range:
  "Suc off < length b \<Longrightarrow> off + 1 < i \<or> j < off \<Longrightarrow> ReadLE16 (zero_range i j b) off = ReadLE16 b off"
  "off + 3 < length b \<Longrightarrow> off + 3 < i \<or> j < off \<Longrightarrow> ReadLE32 (zero_range i j b) off = ReadLE32 b off"
  by (rule ReadLE16_cong ReadLE32_cong; auto simp: nth_zero_range)+

lemma length_shedinja_names [simp]: "length shedinja_name = 12" "length ot_name = 12"
  by (simp_all add: shedinja_name_def ot_name_def)

lemma length_shedinja_edits [simp, buffer_simps]:
  "232 \<le> length b \<Longrightarrow> length (shedinja_main_edits b) = length b"
  "length (dead_battle_stats b) = length b"
  "length (prepared_main_edits b) = length b"
  by (simp_all add: shedinja_main_edits_def dead_battle_stats_def prepared_main_edits_def Let_def)

lemmas edit_simps = shedinja_main_edits_def dead_battle_stats_def prepared_main_edits_def Let_def
  read_other ReadLE_zero_range nth_zero_range nth_memcpy

lemma shedinja_edits_fields:
  assumes "length b = 260"
  defines "c \<equiv> dead_battle_stats (shedinja_main_edits b)"
  shows "ReadLE32 c 0 = ReadLE32 b 0" "ReadLE32 c 0x18 = 1" "ReadLE16 c 8 = 292" "c ! 0x14 = 54"
    "ReadLE32 c 0x10 = 0"
    "ReadLE16 c 0x5A = 0" "ReadLE16 c 0x5C = 0" "ReadLE16 c 0x5E = 0" "ReadLE16 c 0x60 = 0"
    "c ! 0x62 = 0" "c ! 0x63 = 0" "c ! 0x64 = 0" "c ! 0x65 = 0"
    "c ! 0xEC = 1" "ReadLE16 c 0xF0 = 0" "ReadLE16 c 0xF2 = 1"
    "c ! 0x1D = 0" "ReadLE16 c 0xDA = 0x7C" "c ! 0xDB = 0"
  using assms(1) unfolding c_def
  by (simp_all add: edit_simps)

definition dead_record :: "bytes \<Rightarrow> bool" where
  "dead_record b \<longleftrightarrow>
     ReadLE16 b OFF_SPECIES = 292 \<and> ReadLE32 b OFF_PID = 1 \<and> b ! 0x14 = 54 \<and> ReadLE32 b 0x10 = 0 \<and>
     (\<forall>off \<in> {0x5A, 0x5C, 0x5E, 0x60}. ReadLE16 b off = 0) \<and>
     (\<forall>k \<in> {0x62, 0x63, 0x64, 0x65}. b ! k = 0) \<and>
     b ! 0xEC = 1 \<and> ReadLE16 b OFF_CURRENT_HP = 0 \<and> ReadLE16 b 0xF2 = 1"

lemma checksum_stable:
  "length x = 260 \<Longrightarrow> WriteLE16 (WriteLE16 x 6 (pk6_checksum x)) 6 (pk6_checksum (WriteLE16 x 6 (pk6_checksum x)))
    = WriteLE16 x 6 (pk6_checksum x)"
  by simp

lemma dead_record_checksum:
  "length x = 260 \<Longrightarrow> dead_record x \<Longrightarrow> dead_record (WriteLE16 x 6 c)"
  by (simp add: dead_record_def read_other)

lemma shedinja_edits_dead:
  "length b = 260 \<Longrightarrow> dead_record (dead_battle_stats (shedinja_main_edits b))"
  using shedinja_edits_fields [of b] by (simp add: dead_record_def)

lemma manual_conversion:
  assumes "length b = 260"
  shows "\<exists>c d e. ConvertToDeadShedinjaInPlaceManual b 260 True = (True, c) \<and> length c = 260 \<and>
    DecryptPk6InPlace c 260 True = (True, d) \<and> DecryptBattleStats d 260 True = (True, e) \<and>
    length e = 260 \<and> (\<forall>k < 232. d ! k = e ! k) \<and> valid_checksum e \<and> dead_record e \<and>
    e ! 0x1D = 0 \<and> e ! 0xDB = 0 \<and> ReadLE16 e OFF_METLOCATION = 0x7C"
proof -
  obtain b1 where b1: "DecryptPk6InPlace b 260 True = (True, b1)" "length b1 = 260"
    using Decrypt_main [of b 260 True] assms by auto
  obtain b2 where b2: "DecryptBattleStats b1 260 True = (True, b2)" "length b2 = 260"
    using battle_stats_round_trip(2) [OF b1(2)] by auto
  define x where "x = dead_battle_stats (shedinja_main_edits b2)"
  define y where "y = WriteLE16 x 6 (pk6_checksum x)"
  have lx: "length x = 260" and ly: "length y = 260" using b2(2) by (simp_all add: x_def y_def)
  obtain e1 where e1: "EncryptPk6InPlace y 260 True = (True, e1)" "length e1 = 260"
    using decrypt_encrypt [of y 260 True] ly by auto
  obtain c where c: "EncryptBattleStats e1 260 True = (True, c)"
    using battle_stats_round_trip(1) [OF e1(2)] by auto
  have conv: "ConvertToDeadShedinjaInPlaceManual b 260 True = (True, c)"
    using b1 b2 e1 c by (simp add: ConvertToDeadShedinjaInPlaceManual_def x_def y_def Let_def)
  have yy: "WriteLE16 y 6 (pk6_checksum y) = y"
    using checksum_stable [OF lx] by (simp add: y_def)
  obtain d where d: "length c = 260" "DecryptPk6InPlace c 260 True = (True, d)"
    "DecryptBattleStats d 260 True = (True, y)" "\<forall>k < 232. d ! k = y ! k"
    using decrypt_both [OF ly e1(1) c] yy by auto
  have "valid_checksum y" using lx by (simp add: valid_checksum_def y_def)
  moreover have "dead_record y" unfolding y_def
    using lx b2(2) by (intro dead_record_checksum) (simp_all add: x_def shedinja_edits_dead)
  moreover have "y ! 0x1D = 0" "y ! 0xDB = 0" "ReadLE16 y OFF_METLOCATION = 0x7C"
    using shedinja_edits_fields [OF b2(2)] by (simp_all add: y_def x_def read_other)
  ultimately show ?thesis using conv d ly by blast
qed

lemma prepared_from_party_file:
  assumes shd: "files fs (base @ ''shd.pk6'') = Some data" "length data = 260"
  shows "\<exists>c. ConvertToDeadShedinjaInPlace fs b 260 True base = (True, c) \<and> length c = 260 \<and>
    valid_checksum c \<and> ReadLE16 c OFF_SPECIES = 292 \<and> ReadLE16 c OFF_CURRENT_HP = 0 \<and>
    (\<forall>k < 6. c ! k = data ! k)"
proof -
  define x where "x = prepared_main_edits (dead_battle_stats data)"
  define c where "c = WriteLE16 x 6 (pk6_checksum x)"
  have len: "length x = 260" using shd(2) by (simp add: x_def)
  have "data \<noteq> []" using shd(2) by auto
  then have "ConvertToDeadShedinjaInPlace fs b 260 True base = (True, c)"
    using shd
    by (simp add: ConvertToDeadShedinjaInPlace_def PrepareShedinjaFromFile_def LoadShedinjaFromFile_def
        x_def c_def Let_def)
  moreover have "ReadLE16 c OFF_SPECIES = 292" "ReadLE16 c OFF_CURRENT_HP = 0" "\<forall>k < 6. c ! k = data ! k"
    using shd(2) len by (simp_all add: c_def x_def edit_simps)
  moreover have "valid_checksum c" using len by (simp add: valid_checksum_def c_def)
  ultimately show ?thesis using len by (auto simp: c_def)
qed

lemma conversion_without_file:
  "files fs (base @ ''shd.pk6'') = None \<Longrightarrow>
   ConvertToDeadShedinjaInPlace fs b 260 True base = ConvertToDeadShedinjaInPlaceManual b 260 True"
  by (simp add: ConvertToDeadShedinjaInPlace_def PrepareShedinjaFromFile_def LoadShedinjaFromFile_def)

section \<open>Reading and writing slots in a mapped heap\<close>

lemma write_verify_first_attempt:
  assumes "heap_ready m" "HEAP_VADDR \<le> unat a" "unat a + length data \<le> HEAP_VADDR_END"
  obtains m' where "WriteBlockStrideWithVerify m a data = Some (True, m')" "heap_ready m'"
    "heap.block_at m' a (length data) = data"
    "\<And>a' n. HEAP_VADDR \<le> unat a' \<Longrightarrow> unat a' + n \<le> HEAP_VADDR_END \<Longrightarrow>
      unat a' + n \<le> unat a \<or> unat a + length data \<le> unat a' \<Longrightarrow>
      heap.block_at m' a' n = heap.block_at m a' n"
proof -
  from heap.read_after_write [OF assms] obtain m' where m': "WriteBlock m a data = Some m'" "heap_ready m'"
    "heap.block_at m' a (length data) = data"
    "\<And>a' n. HEAP_VADDR \<le> unat a' \<Longrightarrow> unat a' + n \<le> HEAP_VADDR_END \<Longrightarrow>
      unat a' + n \<le> unat a \<or> unat a + length data \<le> unat a' \<Longrightarrow>
      heap.block_at m' a' n = heap.block_at m a' n"
    by metis
  have "ReadBlock m' a (length data) = Some (data, m')"
    using heap.read_block_at [OF m'(2) assms(2,3)] m'(3) by simp
  then have "WriteBlockStrideWithVerify m a data = Some (True, m')"
    using m'(1) by (simp add: WriteBlockStrideWithVerify_def MAX_WRITE_ATTEMPTS_def numeral_eq_Suc)
  then show ?thesis using that m' by blast
qed

lemma party_slot_in_heap:
  assumes "0 \<le> slot" "slot < 6"
  shows "unat (slot_address PARTY_ORAS slot) = 0x8cf727c + nat slot * 484"
    "unat (slot_address WILD_ORAS slot) = 0x081FFA6C + nat slot * 484"
proof -
  define n where "n = nat slot"
  have n: "slot = int n" "n < 6" using assms by (simp_all add: n_def)
  have "unat (0x8cf727c + of_nat (n * 484) :: u32) = 0x8cf727c + n * 484"
    "unat (0x081FFA6C + of_nat (n * 484) :: u32) = 0x081FFA6C + n * 484"
    using n(2) by (subst unat_add_of_nat; simp)+
  then show "unat (slot_address PARTY_ORAS slot) = 0x8cf727c + nat slot * 484"
    "unat (slot_address WILD_ORAS slot) = 0x081FFA6C + nat slot * 484"
    using n(1) by (simp_all add: slot_address_def)
qed

section \<open>Properties\<close>

text \<open>
  C9: A party record of any content converted by \<open>ConvertToDeadShedinjaInPlaceManual\<close> decrypts, with the
  program's own decryption, to a record with a valid checksum that is a Shedinja (species 292) with
  personality value 1, no experience, no moves, level 1 and no hit points left.
\<close>

theorem conversion_yields_dead_shedinja:
  assumes "length b = PKM_PARTY_SIZE"
  shows "\<exists>c d e. ConvertToDeadShedinjaInPlaceManual b PKM_PARTY_SIZE True = (True, c) \<and> length c = PKM_PARTY_SIZE \<and>
    DecryptPk6InPlace c PKM_PARTY_SIZE True = (True, d) \<and> DecryptBattleStats d PKM_PARTY_SIZE True = (True, e) \<and>
    valid_checksum e \<and> dead_record e"
  using manual_conversion [of b] assms by auto

theorem conversion_yields_dead_shedinja_witness:
  "\<exists>c d e. ConvertToDeadShedinjaInPlaceManual (replicate 260 9) PKM_PARTY_SIZE True = (True, c) \<and>
    DecryptPk6InPlace c PKM_PARTY_SIZE True = (True, d) \<and> DecryptBattleStats d PKM_PARTY_SIZE True = (True, e) \<and>
    dead_record e"
  using conversion_yields_dead_shedinja [of "replicate 260 9"] by auto

text \<open>
  With a party-sized \<open>shd.pk6\<close> the slot's own record is ignored: the result is the file's record in
  clear, patched and with a fresh checksum, and its first six bytes, the encryption key among them,
  are the file's. Nothing encrypts it.
\<close>

theorem conversion_from_file_is_clear:
  assumes "files fs (base @ ''shd.pk6'') = Some data" "length data = PKM_PARTY_SIZE"
  shows "\<exists>c. ConvertToDeadShedinjaInPlace fs b PKM_PARTY_SIZE True base = (True, c) \<and> length c = PKM_PARTY_SIZE \<and>
    valid_checksum c \<and> ReadLE16 c OFF_SPECIES = 292 \<and> ReadLE16 c OFF_CURRENT_HP = 0 \<and> (\<forall>k < 6. c ! k = data ! k)"
  using prepared_from_party_file [of fs base data b] assms by simp

theorem conversion_from_file_is_clear_witness:
  "\<exists>c. ConvertToDeadShedinjaInPlace \<lparr>files = [''p/shd.pk6'' \<mapsto> replicate 260 3], writable = (\<lambda>_. True)\<rparr>
      (replicate 260 0) PKM_PARTY_SIZE True ''p/'' = (True, c) \<and> ReadLE16 c OFF_SPECIES = 292 \<and> c ! 0 = 3"
  using conversion_from_file_is_clear [of "\<lparr>files = [''p/shd.pk6'' \<mapsto> replicate 260 3], writable = (\<lambda>_. True)\<rparr>"
      "''p/''" "replicate 260 3" "replicate 260 0"] by auto

end
