(* ===== verification/Item_Pocket.thy ===== *)
theory Item_Pocket
  imports Prelude "HOL-Library.Multiset"
begin

text \<open>
  The item pockets of \<open>core/poke_capture.cpp\<close>: arrays of (identifier, quantity) slots, their
  little-endian image in guest memory, the removal of empty slots, of Poke Balls and of rare
  candies, and the reinsertion of the removed balls. The functions here are the pure parts of
  \<open>RemovePokeballs\<close>, \<open>RestorePokeballs\<close> and \<open>RemoveCandies\<close>; the memory accesses around them are in
  the theory of the capture rules.
\<close>

unbundle bit_operations_syntax

record ItemEntry =
  item_id :: u16
  item_qty :: u16

definition no_item :: ItemEntry where "no_item = \<lparr>item_id = 0, item_qty = 0\<rparr>"

definition SLOT_SIZE :: nat where "SLOT_SIZE = 4"
definition SLOT_COUNT :: nat where "SLOT_COUNT = 305"
definition BLOCK_SIZE :: nat where "BLOCK_SIZE = SLOT_SIZE * SLOT_COUNT"
definition MEDICINE_SLOT_COUNT :: nat where "MEDICINE_SLOT_COUNT = 54"
definition MEDICINE_BLOCK_SIZE :: nat where "MEDICINE_BLOCK_SIZE = SLOT_SIZE * MEDICINE_SLOT_COUNT"
definition REMOVED_COUNT :: nat where "REMOVED_COUNT = 17"

lemmas pocket_sizes [simp] =
  SLOT_SIZE_def SLOT_COUNT_def BLOCK_SIZE_def MEDICINE_SLOT_COUNT_def MEDICINE_BLOCK_SIZE_def
  REMOVED_COUNT_def

section \<open>Operations\<close>

definition parse_slot :: "bytes \<Rightarrow> nat \<Rightarrow> ItemEntry" where
  "parse_slot buffer i =
     (let off = i * 4
      in \<lparr>item_id = ucast (buffer ! off) OR push_bit 8 (ucast (buffer ! (off + 1))),
          item_qty = ucast (buffer ! (off + 2)) OR push_bit 8 (ucast (buffer ! (off + 3)))\<rparr>)"

definition parse_pocket :: "nat \<Rightarrow> bytes \<Rightarrow> ItemEntry list" where
  "parse_pocket cnt buffer = map (parse_slot buffer) [0..<cnt]"

definition store_slot :: "ItemEntry list \<Rightarrow> nat \<Rightarrow> bytes \<Rightarrow> bytes" where
  "store_slot arr i buffer =
     (let off = i * SLOT_SIZE
      in buffer[off := ucast (item_id (arr ! i) AND 0xFF),
                off + 1 := ucast (drop_bit 8 (item_id (arr ! i))),
                off + 2 := ucast (item_qty (arr ! i) AND 0xFF),
                off + 3 := ucast (drop_bit 8 (item_qty (arr ! i)))])"

definition store_pocket :: "nat \<Rightarrow> ItemEntry list \<Rightarrow> bytes \<Rightarrow> bytes" where
  "store_pocket cnt arr buffer = fold (store_slot arr) [0..<cnt] buffer"

text \<open>\<open>RemoveEmptySlots\<close>: the copying loop with its two indices, then the clearing loop.\<close>

function compact_loop :: "ItemEntry list \<Rightarrow> nat \<Rightarrow> nat \<Rightarrow> nat \<Rightarrow> ItemEntry list \<times> nat" where
  "compact_loop arr readIndex writeIndex cnt =
     (if readIndex < cnt then
        if item_id (arr ! readIndex) \<noteq> 0 then
          compact_loop
            (if writeIndex \<noteq> readIndex then arr[writeIndex := arr ! readIndex] else arr)
            (readIndex + 1) (writeIndex + 1) cnt
        else compact_loop arr (readIndex + 1) writeIndex cnt
      else (arr, writeIndex))"
  by pat_completeness auto
termination
  by (relation "measure (\<lambda>(_, r, _, cnt). cnt - r)") auto

declare compact_loop.simps [simp del]

definition RemoveEmptySlots :: "ItemEntry list \<Rightarrow> nat \<Rightarrow> ItemEntry list" where
  "RemoveEmptySlots arr cnt =
     (let (arr, writeIndex) = compact_loop arr 0 0 cnt
      in fold (\<lambda>i arr. arr[i := no_item]) [writeIndex..<cnt] arr)"

text \<open>
  The loop of \<open>RemovePokeballs\<close> over the slots: identifiers 1 to 16 go to their own place of
  \<open>g_RemovedPokeBalls\<close>, identifier 576 to place 16, everything else stays.
\<close>

definition take_ball :: "ItemEntry list \<Rightarrow> ItemEntry \<Rightarrow> ItemEntry list" where
  "take_ball removed e =
     (if item_id e \<noteq> 0 \<and> item_id e \<le> 16 then removed[unat (item_id e) := e]
      else if item_id e = 576 then removed[16 := e]
      else removed)"

definition keep_item :: "ItemEntry \<Rightarrow> ItemEntry" where
  "keep_item e =
     (if (item_id e \<noteq> 0 \<and> item_id e \<le> 16) \<or> item_id e = 576 then no_item else e)"

definition split_balls :: "ItemEntry list \<Rightarrow> ItemEntry list \<Rightarrow> ItemEntry list \<times> ItemEntry list" where
  "split_balls removed pocket = (foldl take_ball removed pocket, map keep_item pocket)"

text \<open>\<open>RemoveCandies\<close>: identifier 50 is the rare candy.\<close>

definition drop_candy :: "ItemEntry \<Rightarrow> ItemEntry" where
  "drop_candy e = (if item_id e = 50 then no_item else e)"

definition remove_candies :: "ItemEntry list \<Rightarrow> ItemEntry list" where
  "remove_candies pocket = RemoveEmptySlots (map drop_candy pocket) MEDICINE_SLOT_COUNT"

text \<open>
  \<open>RestorePokeballs\<close>: \<open>memmove\<close> shifts the pocket up by the number of removed balls with a
  quantity, and the balls are written into the gap.
\<close>

definition insert_count :: "ItemEntry list \<Rightarrow> nat" where
  "insert_count removed = length (filter (\<lambda>e. item_qty e \<noteq> 0) (take REMOVED_COUNT removed))"

definition shift_pocket :: "nat \<Rightarrow> ItemEntry list \<Rightarrow> ItemEntry list" where
  "shift_pocket n pocket = memcpy pocket n pocket 0 (SLOT_COUNT - n)"

fun insert_balls :: "ItemEntry list \<Rightarrow> nat \<Rightarrow> ItemEntry list \<Rightarrow> ItemEntry list" where
  "insert_balls [] writeIndex pocket = pocket"
| "insert_balls (e # es) writeIndex pocket =
     (if item_qty e \<noteq> 0 then insert_balls es (writeIndex + 1) (pocket[writeIndex := e])
      else insert_balls es writeIndex pocket)"

definition restore_balls :: "ItemEntry list \<Rightarrow> ItemEntry list \<Rightarrow> ItemEntry list" where
  "restore_balls removed pocket =
     insert_balls (take REMOVED_COUNT removed) 0 (shift_pocket (insert_count removed) pocket)"

section \<open>Memory image\<close>

lemma store_slot_LE:
  "store_slot arr i buffer =
     WriteLE16 (WriteLE16 buffer (i * 4) (item_id (arr ! i))) (i * 4 + 2) (item_qty (arr ! i))"
proof -
  have "(ucast (drop_bit 8 (v :: u16)) :: u8) = ucast (drop_bit 8 v AND 0xFF)" for v
    unfolding byte_mask16 by (rule bit_word_eqI) (auto simp: bit_simps)
  then show ?thesis by (simp add: store_slot_def WriteLE16_def Let_def numeral_3_eq_3)
qed

lemma parse_slot_LE:
  "parse_slot buffer i = \<lparr>item_id = ReadLE16 buffer (i * 4), item_qty = ReadLE16 buffer (i * 4 + 2)\<rparr>"
  by (simp add: parse_slot_def ReadLE16_def Let_def numeral_3_eq_3)

lemma length_parse_pocket [simp]: "length (parse_pocket n buffer) = n"
  by (simp add: parse_pocket_def)

lemma length_store_pocket [simp, buffer_simps]: "length (store_pocket n arr buffer) = length buffer"
proof -
  have "length (fold (store_slot arr) xs buffer) = length buffer" for xs
    by (induction xs arbitrary: buffer) (simp_all add: store_slot_LE)
  then show ?thesis by (simp add: store_pocket_def)
qed

lemma parse_store_slot_other: "i \<noteq> j \<Longrightarrow> parse_slot (store_slot arr j buffer) i = parse_slot buffer i"
  by (auto simp: parse_slot_LE store_slot_LE ReadLE16_WriteLE16_other neq_iff)

lemma parse_store_slot: "i * 4 + 3 < length buffer \<Longrightarrow> parse_slot (store_slot arr i buffer) i = arr ! i"
  by (simp add: parse_slot_LE store_slot_LE ReadLE16_WriteLE16_other)

lemma parse_store_pocket:
  assumes "length arr = n" "4 * n \<le> length buffer"
  shows "parse_pocket n (store_pocket n arr buffer) = arr"
proof -
  have "i < k \<Longrightarrow> k \<le> n \<Longrightarrow> parse_slot (fold (store_slot arr) [0..<k] buffer) i = arr ! i" for i k
  proof (induction k)
    case (Suc k)
    have len: "length (fold (store_slot arr) [0..<k] buffer) = length buffer"
      using length_store_pocket [of k arr buffer] by (simp add: store_pocket_def)
    show ?case
    proof (cases "i = k")
      case True
      then show ?thesis using Suc.prems assms len by (simp add: parse_store_slot)
    next
      case False
      then show ?thesis using Suc by (simp add: parse_store_slot_other)
    qed
  qed simp
  then show ?thesis
    using assms by (intro nth_equalityI) (simp_all add: parse_pocket_def store_pocket_def)
qed

section \<open>Compaction is filtering\<close>

abbreviation occupied :: "ItemEntry \<Rightarrow> bool" where "occupied e \<equiv> item_id e \<noteq> 0"

lemma compact_loop_spec:
  assumes "w \<le> r" "r \<le> length arr" "cnt = length arr"
  shows "\<exists>arr' w'. compact_loop arr r w cnt = (arr', w') \<and> length arr' = length arr \<and> w' \<le> length arr \<and>
    take w' arr' = take w arr @ filter occupied (drop r arr)"
  using assms
proof (induction "length arr - r" arbitrary: arr r w rule: less_induct)
  case less
  show ?case
  proof (cases "r < cnt")
    case False
    then show ?thesis using less.prems by (simp add: compact_loop.simps)
  next
    case True
    then have dr: "drop r arr = arr ! r # drop (Suc r) arr"
      using less.prems by (simp add: Cons_nth_drop_Suc)
    show ?thesis
    proof (cases "occupied (arr ! r)")
      case occ: True
      define a where "a = (if w \<noteq> r then arr[w := arr ! r] else arr)"
      have len: "length a = length arr" by (simp add: a_def)
      have aw: "take (Suc w) a = take w arr @ [arr ! r]"
        using less.prems True by (auto simp: a_def take_Suc_conv_app_nth)
      have ad: "drop (Suc r) a = drop (Suc r) arr"
        using less.prems by (auto simp: a_def)
      have "length arr - Suc r < length arr - r" using True less.prems by simp
      with less.hyps [of a "Suc r" "Suc w"] True less.prems len
      obtain arr' w' where "compact_loop a (Suc r) (Suc w) cnt = (arr', w')" "length arr' = length arr"
        "w' \<le> length arr" "take w' arr' = take (Suc w) a @ filter occupied (drop (Suc r) a)"
        by auto
      then show ?thesis using True occ aw ad dr by (simp add: compact_loop.simps [of arr] flip: a_def)
    next
      case False
      have "length arr - Suc r < length arr - r" using True less.prems by simp
      with less.hyps [of arr "Suc r" w] True less.prems
      obtain arr' w' where "compact_loop arr (Suc r) w cnt = (arr', w')" "length arr' = length arr"
        "w' \<le> length arr" "take w' arr' = take w arr @ filter occupied (drop (Suc r) arr)"
        by auto
      then show ?thesis using True False dr by (simp add: compact_loop.simps [of arr])
    qed
  qed
qed

lemma fold_clear:
  "w \<le> length arr \<Longrightarrow> fold (\<lambda>i arr. arr[i := no_item]) [w..<length arr] arr =
     take w arr @ replicate (length arr - w) no_item"
proof (induction "length arr - w" arbitrary: arr w)
  case 0
  then show ?case by simp
next
  case (Suc n)
  then have w: "w < length arr" by simp
  then have "[w..<length arr] = w # [Suc w..<length (arr[w := no_item])]" by (simp add: upt_conv_Cons)
  moreover have "take (Suc w) (arr[w := no_item]) = take w arr @ [no_item]"
    using w by (simp add: take_Suc_conv_app_nth)
  moreover have "replicate (length arr - w) no_item = no_item # replicate (length arr - Suc w) no_item"
    using w by (simp flip: replicate_Suc add: Suc_diff_Suc)
  ultimately show ?case using Suc.hyps(1) [of "arr[w := no_item]" "Suc w"] Suc.hyps(2) w by simp
qed

lemma RemoveEmptySlots_filter:
  assumes "cnt = length arr"
  shows "RemoveEmptySlots arr cnt =
    filter occupied arr @ replicate (cnt - length (filter occupied arr)) no_item"
proof -
  from compact_loop_spec [of 0 0 arr cnt] assms
  obtain arr' w' where cl: "compact_loop arr 0 0 cnt = (arr', w')" "length arr' = length arr"
    "w' \<le> length arr" "take w' arr' = filter occupied arr" by auto
  have "length (filter occupied arr) = w'" using cl(2-4) by (metis length_take min_absorb2)
  then show ?thesis
    using cl assms fold_clear [of w' arr'] by (simp add: RemoveEmptySlots_def)
qed

lemma length_RemoveEmptySlots [simp]: "length (RemoveEmptySlots arr (length arr)) = length arr"
  by (simp add: RemoveEmptySlots_filter)

lemma occupied_no_item [simp]: "\<not> occupied no_item"
  by (simp add: no_item_def)

lemma filter_RemoveEmptySlots [simp]:
  "filter occupied (RemoveEmptySlots arr (length arr)) = filter occupied arr"
  by (simp add: RemoveEmptySlots_filter)

section \<open>Removing and restoring Poke Balls\<close>

definition is_ball :: "ItemEntry \<Rightarrow> bool" where
  "is_ball e \<longleftrightarrow> (item_id e \<noteq> 0 \<and> item_id e \<le> 16) \<or> item_id e = 576"

text \<open>The place of \<open>g_RemovedPokeBalls\<close> a ball goes to: identifier 16 and identifier 576 share one.\<close>

definition ball_place :: "ItemEntry \<Rightarrow> nat" where
  "ball_place e = (if item_id e = 576 then 16 else unat (item_id e))"

lemma ball_occupied: "is_ball e \<Longrightarrow> occupied e"
  by (auto simp: is_ball_def)

lemma filter_ball_occupied: "filter (\<lambda>e. is_ball e \<and> occupied e) pocket = filter is_ball pocket"
  by (rule filter_cong) (auto dest: ball_occupied)

lemma take_ball_eq: "take_ball removed e = (if is_ball e then removed[ball_place e := e] else removed)"
  by (auto simp: take_ball_def is_ball_def ball_place_def word_le_nat_alt)

lemma keep_item_eq: "keep_item e = (if is_ball e then no_item else e)"
  by (simp add: keep_item_def is_ball_def)

lemma ball_place_bound: "is_ball e \<Longrightarrow> ball_place e < 17"
  by (auto simp: is_ball_def ball_place_def word_le_nat_alt)

lemma filter_keep_item: "filter occupied (map keep_item pocket) = filter (\<lambda>e. occupied e \<and> \<not> is_ball e) pocket"
  by (induction pocket) (auto simp: keep_item_eq)

lemma length_foldl_take_ball [simp]: "length (foldl take_ball removed pocket) = length removed"
  by (induction pocket arbitrary: removed) (simp_all add: take_ball_eq)

text \<open>With distinct places every ball of the pocket ends up in the array of removed balls.\<close>

lemma mset_list_update_no_item:
  assumes "k < length xs" "xs ! k = no_item" "occupied e"
  shows "filter_mset occupied (mset (xs[k := e])) = add_mset e (filter_mset occupied (mset xs))"
  using assms by (simp add: mset_update)

lemma foldl_take_ball_mset:
  assumes "length removed = 17" "distinct (map ball_place (filter is_ball pocket))"
    and "\<forall>e \<in> set pocket. is_ball e \<longrightarrow> removed ! ball_place e = no_item"
  shows "filter_mset occupied (mset (foldl take_ball removed pocket)) =
    filter_mset occupied (mset removed) + mset (filter is_ball pocket)"
  using assms
proof (induction pocket arbitrary: removed)
  case Nil
  then show ?case by simp
next
  case (Cons e pocket)
  show ?case
  proof (cases "is_ball e")
    case True
    let ?r = "removed[ball_place e := e]"
    have bp: "ball_place e < length removed" using True Cons.prems(1) by (simp add: ball_place_bound)
    have "filter_mset occupied (mset (foldl take_ball ?r pocket)) =
        filter_mset occupied (mset ?r) + mset (filter is_ball pocket)"
      using Cons.prems True by (intro Cons.IH) (auto simp: nth_update image_iff)
    moreover have "filter_mset occupied (mset ?r) = add_mset e (filter_mset occupied (mset removed))"
      using Cons.prems True bp by (intro mset_list_update_no_item) (auto simp: ball_occupied)
    ultimately show ?thesis using True by (simp add: take_ball_eq [of removed e])
  next
    case False
    then show ?thesis using Cons by (simp add: take_ball_eq [of removed e])
  qed
qed

lemma insert_balls_spec:
  assumes "w + length (filter (\<lambda>e. item_qty e \<noteq> 0) es) \<le> length pocket"
  shows "insert_balls es w pocket =
    take w pocket @ filter (\<lambda>e. item_qty e \<noteq> 0) es @ drop (w + length (filter (\<lambda>e. item_qty e \<noteq> 0) es)) pocket"
  using assms
proof (induction es arbitrary: w pocket)
  case Nil
  then show ?case by simp
next
  case (Cons e es)
  show ?case
  proof (cases "item_qty e = 0")
    case True
    then show ?thesis using Cons by simp
  next
    case False
    then have "w < length pocket" using Cons.prems by simp
    then have "take (Suc w) (pocket[w := e]) = take w pocket @ [e]" by (simp add: take_Suc_conv_app_nth)
    then show ?thesis using Cons.IH [of "Suc w" "pocket[w := e]"] Cons.prems False by simp
  qed
qed

lemma restore_balls_eq:
  assumes "length pocket = SLOT_COUNT" "length removed = REMOVED_COUNT"
  shows "restore_balls removed pocket =
    filter (\<lambda>e. item_qty e \<noteq> 0) removed @ take (SLOT_COUNT - insert_count removed) pocket"
proof -
  let ?n = "insert_count removed"
  have n: "?n = length (filter (\<lambda>e. item_qty e \<noteq> 0) removed)" using assms(2) by (simp add: insert_count_def)
  have le: "?n \<le> 17" using n assms(2) by (metis REMOVED_COUNT_def length_filter_le)
  have sh: "shift_pocket ?n pocket = take ?n pocket @ take (SLOT_COUNT - ?n) pocket"
    using assms(1) le by (simp add: shift_pocket_def memcpy_def)
  have "?n + (SLOT_COUNT - ?n) = SLOT_COUNT" using le by simp
  then have "length (shift_pocket ?n pocket) = SLOT_COUNT" using assms(1) le by (simp add: sh)
  moreover have "drop ?n (shift_pocket ?n pocket) = take (SLOT_COUNT - ?n) pocket"
    using assms(1) le by (simp add: sh)
  ultimately show ?thesis
    using insert_balls_spec [of 0 removed "shift_pocket ?n pocket"] assms le n
    by (simp add: restore_balls_def)
qed

lemma set_foldl_take_ball:
  "e \<in> set (foldl take_ball removed pocket) \<Longrightarrow> e \<in> set removed \<or> (e \<in> set pocket \<and> is_ball e)"
proof (induction pocket arbitrary: removed)
  case (Cons a pocket)
  then have "e \<in> set (take_ball removed a) \<or> (e \<in> set pocket \<and> is_ball e)" by simp
  then show ?case
    by (auto simp: take_ball_eq [of removed a] split: if_splits dest: set_update_subset_insert [THEN subsetD])
qed simp

lemma take_occupied_prefix:
  assumes "length (filter occupied pocket) + n \<le> cnt" "cnt = length pocket"
  shows "filter occupied (take (cnt - n) (RemoveEmptySlots pocket cnt)) = filter occupied pocket"
  using assms by (simp add: RemoveEmptySlots_filter)

text \<open>
  Removing the balls, compacting and restoring gives back every occupied slot, when each ball of the
  pocket has its own place among the removed ones and a quantity.
\<close>

lemma balls_conserved:
  fixes pocket :: "ItemEntry list"
  defines "removed \<equiv> fst (split_balls (replicate REMOVED_COUNT no_item) pocket)"
    and "pocket1 \<equiv> RemoveEmptySlots (snd (split_balls (replicate REMOVED_COUNT no_item) pocket)) SLOT_COUNT"
  assumes len: "length pocket = SLOT_COUNT"
    and places: "distinct (map ball_place (filter is_ball pocket))"
    and qty: "\<forall>e \<in> set pocket. is_ball e \<longrightarrow> item_qty e \<noteq> 0"
  shows "filter_mset occupied (mset (restore_balls removed pocket1)) = filter_mset occupied (mset pocket)"
proof -
  let ?kept = "map keep_item pocket"
  have lr: "length removed = REMOVED_COUNT" by (simp add: removed_def split_balls_def)
  have lk: "length pocket1 = SLOT_COUNT"
    using len length_RemoveEmptySlots [of ?kept] by (simp add: pocket1_def split_balls_def)
  have rem: "filter_mset occupied (mset removed) = mset (filter is_ball pocket)"
    using foldl_take_ball_mset [of "replicate 17 no_item" pocket] places ball_place_bound
    by (simp add: removed_def split_balls_def)
  have "\<forall>e \<in> set removed. e = no_item \<or> (is_ball e \<and> item_qty e \<noteq> 0)"
    using set_foldl_take_ball qty by (fastforce simp: removed_def split_balls_def)
  then have "\<forall>e \<in> set removed. item_qty e \<noteq> 0 \<longleftrightarrow> occupied e"
    by (auto simp: no_item_def ball_occupied)
  then have fq: "filter (\<lambda>e. item_qty e \<noteq> 0) removed = filter occupied removed"
    by (metis (mono_tags, lifting) filter_cong)
  have n: "insert_count removed = length (filter is_ball pocket)"
    using lr rem fq by (simp add: insert_count_def) (metis mset_filter size_mset)
  have "length (filter (\<lambda>e. occupied e \<and> \<not> is_ball e) pocket) + length (filter is_ball pocket) \<le> length pocket"
    by (induction pocket) auto
  then have "filter occupied (take (SLOT_COUNT - insert_count removed) pocket1) = filter occupied ?kept"
    unfolding pocket1_def split_balls_def snd_conv
    using len n by (intro take_occupied_prefix) (simp_all add: filter_keep_item)
  then have "filter_mset occupied (mset (restore_balls removed pocket1)) =
      mset (filter is_ball pocket) + mset (filter (\<lambda>e. occupied e \<and> \<not> is_ball e) pocket)"
    using restore_balls_eq [OF lk lr] fq rem
    by (simp flip: mset_filter add: filter_keep_item filter_ball_occupied)
  also have "\<dots> = mset (filter occupied pocket)"
    by (induction pocket) (auto simp: ball_occupied)
  finally show ?thesis by simp
qed

end
