(* ===== verification/Points_File.thy ===== *)
theory Points_File
  imports Host_Files
begin

text \<open>
  \<open>core/poke_reader.cpp\<close>: the enciphered score file \<open>user/rtp/p/pts.json\<close>. The JSON library
  (nlohmann) is not part of the program; it enters as the record \<open>json_ops\<close>, and the documented
  behaviour the code relies on is the predicate \<open>json_laws\<close>. An exception thrown by the library is
  \<open>None\<close>.
\<close>

unbundle bit_operations_syntax

section \<open>A repeating key as a position-dependent mask\<close>

text \<open>
  Both ciphers of the program (this file and the save data) xor byte \<open>i\<close> of a stream with a key
  byte that depends on \<open>i\<close> only. The contract of such a mask, with its consequences.
\<close>

locale stream_mask =
  fixes apply_mask :: "nat \<Rightarrow> bytes \<Rightarrow> bytes" and ks :: "nat \<Rightarrow> u8"
  assumes mask_length: "length (apply_mask off bs) = length bs"
    and mask_nth: "i < length bs \<Longrightarrow> apply_mask off bs ! i = bs ! i XOR ks (off + i)"
begin

lemma mask_twice: "apply_mask off (apply_mask off bs) = bs"
  by (rule nth_equalityI) (simp_all add: mask_length mask_nth)

lemma mask_append: "apply_mask off (xs @ ys) = apply_mask off xs @ apply_mask (off + length xs) ys"
  by (rule nth_equalityI) (auto simp: mask_length mask_nth nth_append)

lemma mask_inj: "apply_mask off bs = apply_mask off bs' \<longleftrightarrow> bs = bs'"
  by (metis mask_twice)

lemma mask_zeros: "apply_mask off (replicate n 0) = map (\<lambda>i. ks (off + i)) [0..<n]"
  by (rule nth_equalityI) (simp_all add: mask_length mask_nth)

end

section \<open>The cipher of the score file\<close>

definition key_bytes :: "string \<Rightarrow> bytes" where
  "key_bytes key = map of_char key"

definition XorBytes :: "bytes \<Rightarrow> string \<Rightarrow> bytes" where
  "XorBytes data key =
     map (\<lambda>i. data ! i XOR key_bytes key ! (i mod length key)) [0..<length data]"

definition POINTS_KEY :: string where "POINTS_KEY = ''ivo708''"

text \<open>The same mask started at a position of the stream; the score file always starts at 0.\<close>

definition xor_key_at :: "string \<Rightarrow> nat \<Rightarrow> bytes \<Rightarrow> bytes" where
  "xor_key_at key off data =
     map (\<lambda>i. data ! i XOR key_bytes key ! ((off + i) mod length key)) [0..<length data]"

interpretation points: stream_mask
  "xor_key_at POINTS_KEY" "\<lambda>i. key_bytes POINTS_KEY ! (i mod length POINTS_KEY)"
  by unfold_locales (simp_all add: xor_key_at_def)

lemma XorBytes_at: "XorBytes data key = xor_key_at key 0 data"
  by (simp add: XorBytes_def xor_key_at_def)

lemma XorBytes_twice: "XorBytes (XorBytes data POINTS_KEY) POINTS_KEY = data"
  unfolding XorBytes_at by (rule points.mask_twice)

section \<open>JSON\<close>

record 'j json_ops =
  json_parse :: "bytes \<Rightarrow> 'j option"
  json_dump :: "'j \<Rightarrow> bytes"
  json_value_int :: "'j \<Rightarrow> string \<Rightarrow> int \<Rightarrow> int option"
  json_set_int :: "'j \<Rightarrow> string \<Rightarrow> int \<Rightarrow> 'j option"
  json_stream :: "bytes \<Rightarrow> 'j option"
  json_get_int :: "'j \<Rightarrow> string \<Rightarrow> int option"
  json_get_ints :: "'j \<Rightarrow> string \<Rightarrow> int list option"
  json_items :: "'j \<Rightarrow> string \<Rightarrow> 'j list option"
  json_field_is :: "'j \<Rightarrow> string \<Rightarrow> int \<Rightarrow> bool option"

text \<open>
  What is relied on: \<open>parse\<close> reads back what \<open>dump\<close> wrote; on an object (\<open>value\<close> answers only for
  objects) a counter can be assigned, which changes that counter and no other.
\<close>

definition json_laws :: "'j json_ops \<Rightarrow> bool" where
  "json_laws J \<longleftrightarrow>
     (\<forall>j. json_parse J (json_dump J j) = Some j) \<and>
     (\<forall>j k d v. k \<in> {''puntos'', ''muertes''} \<longrightarrow> json_value_int J j k d \<noteq> None \<longrightarrow> json_set_int J j k v \<noteq> None) \<and>
     (\<forall>j k v j'. k \<in> {''puntos'', ''muertes''} \<longrightarrow> json_set_int J j k v = Some j' \<longrightarrow>
        (\<forall>k' d. k' \<in> {''puntos'', ''muertes''} \<longrightarrow>
           json_value_int J j' k' d = (if k' = k then Some v else json_value_int J j k' d)))"

section \<open>Operations\<close>

definition ReadFileBytes :: "file_system \<Rightarrow> path \<Rightarrow> bytes" where
  "ReadFileBytes fs p = (case files fs p of None \<Rightarrow> [] | Some data \<Rightarrow> data)"

definition WriteFileBytes :: "file_system \<Rightarrow> path \<Rightarrow> bytes \<Rightarrow> file_system" where
  "WriteFileBytes fs p data = (case fs_write fs p data of None \<Rightarrow> fs | Some fs \<Rightarrow> fs)"

definition getPointsFile :: "'j json_ops \<Rightarrow> file_system \<Rightarrow> 'j option" where
  "getPointsFile J fs = json_parse J (XorBytes (ReadFileBytes fs PTS_JSON) POINTS_KEY)"

text \<open>The common body of \<open>addPoints\<close> and \<open>addMuerte\<close>: add \<open>n\<close> to a counter and write the file back.\<close>

definition add_to_counter :: "'j json_ops \<Rightarrow> string \<Rightarrow> int \<Rightarrow> file_system \<Rightarrow> ('j \<times> file_system) option" where
  "add_to_counter J key n fs =
     do {
       pointsFile \<leftarrow> getPointsFile J fs;
       current \<leftarrow> json_value_int J pointsFile key 0;
       pointsFile \<leftarrow> json_set_int J pointsFile key (current + n);
       let jsonDump = json_dump J pointsFile;
       let bytesEncrypted = XorBytes jsonDump POINTS_KEY;
       Some (pointsFile, WriteFileBytes fs PTS_JSON bytesEncrypted)
     }"

definition addPoints :: "'j json_ops \<Rightarrow> int \<Rightarrow> file_system \<Rightarrow> ('j \<times> file_system) option" where
  "addPoints J points fs = add_to_counter J ''puntos'' points fs"

definition addMuerte :: "'j json_ops \<Rightarrow> file_system \<Rightarrow> ('j \<times> file_system) option" where
  "addMuerte J fs = add_to_counter J ''muertes'' 1 fs"

section \<open>The score as seen through the file\<close>

definition counter_of :: "'j json_ops \<Rightarrow> file_system \<Rightarrow> string \<Rightarrow> int option" where
  "counter_of J fs key =
     (case getPointsFile J fs of None \<Rightarrow> None | Some j \<Rightarrow> json_value_int J j key 0)"

lemma json_parse_dump: "json_laws J \<Longrightarrow> json_parse J (json_dump J j) = Some j"
  by (simp add: json_laws_def)

lemma json_value_set:
  assumes "json_laws J" "key \<in> {''puntos'', ''muertes''}" "json_set_int J j key v = Some j'"
    and "k' \<in> {''puntos'', ''muertes''}"
  shows "json_value_int J j' k' d = (if k' = key then Some v else json_value_int J j k' d)"
  by (rule assms(1) [unfolded json_laws_def, THEN conjunct2, THEN conjunct2, rule_format, OF assms(2,3,4)])

lemma json_set_total:
  assumes "json_laws J" "key \<in> {''puntos'', ''muertes''}" "json_value_int J j key d = Some c"
  obtains j' where "json_set_int J j key v = Some j'"
  using assms(1) [unfolded json_laws_def, THEN conjunct2, THEN conjunct1, rule_format, OF assms(2), of j d v] assms(3) that
  by auto

lemma getPointsFile_written:
  assumes "json_laws J" "writable fs PTS_JSON"
  shows "getPointsFile J (WriteFileBytes fs PTS_JSON (XorBytes (json_dump J j) POINTS_KEY)) = Some j"
  using assms by (simp add: getPointsFile_def WriteFileBytes_def ReadFileBytes_def fs_write_def
      XorBytes_twice json_parse_dump)

lemma add_to_counter_effect:
  assumes laws: "json_laws J" and wr: "writable fs PTS_JSON"
    and key: "key \<in> {''puntos'', ''muertes''}"
    and run: "add_to_counter J key n fs = Some (j, fs')"
  shows "getPointsFile J fs' = Some j"
    and "counter_of J fs' key = map_option (\<lambda>c. c + n) (counter_of J fs key)"
    and "key' \<in> {''puntos'', ''muertes''} \<Longrightarrow> key' \<noteq> key \<Longrightarrow> counter_of J fs' key' = counter_of J fs key'"
    and "writable fs' = writable fs" and "p \<noteq> PTS_JSON \<Longrightarrow> files fs' p = files fs p"
proof -
  from run obtain j0 c where j0: "getPointsFile J fs = Some j0" "json_value_int J j0 key 0 = Some c"
    "json_set_int J j0 key (c + n) = Some j"
    "fs' = WriteFileBytes fs PTS_JSON (XorBytes (json_dump J j) POINTS_KEY)"
    by (auto simp: add_to_counter_def Let_def bind_eq_Some_conv)
  then show g: "getPointsFile J fs' = Some j" using getPointsFile_written [OF laws wr] by simp
  have upd: "json_value_int J j k' d = (if k' = key then Some (c + n) else json_value_int J j0 k' d)"
    if "k' \<in> {''puntos'', ''muertes''}" for k' d
    by (rule json_value_set [OF laws key j0(3) that])
  show "counter_of J fs' key = map_option (\<lambda>c. c + n) (counter_of J fs key)"
    using g j0 upd key by (simp add: counter_of_def)
  show "key' \<in> {''puntos'', ''muertes''} \<Longrightarrow> key' \<noteq> key \<Longrightarrow> counter_of J fs' key' = counter_of J fs key'"
    using g j0 upd by (simp add: counter_of_def)
  show "writable fs' = writable fs" "p \<noteq> PTS_JSON \<Longrightarrow> files fs' p = files fs p"
    using j0(4) wr by (auto simp: WriteFileBytes_def fs_write_def)
qed

text \<open>A score file that can be read: both counters have a value.\<close>

definition score_ok :: "'j json_ops \<Rightarrow> file_system \<Rightarrow> bool" where
  "score_ok J fs \<longleftrightarrow> json_laws J \<and> writable fs PTS_JSON \<and>
     counter_of J fs ''puntos'' \<noteq> None \<and> counter_of J fs ''muertes'' \<noteq> None"

lemma add_to_counter_total:
  assumes ok: "score_ok J fs" and key: "key \<in> {''puntos'', ''muertes''}"
  obtains j fs' where "add_to_counter J key n fs = Some (j, fs')" "score_ok J fs'"
    "the (counter_of J fs' key) = the (counter_of J fs key) + n"
    "\<And>k. k \<in> {''puntos'', ''muertes''} \<Longrightarrow> k \<noteq> key \<Longrightarrow> counter_of J fs' k = counter_of J fs k"
    "writable fs' = writable fs" "\<And>p. p \<noteq> PTS_JSON \<Longrightarrow> files fs' p = files fs p"
proof -
  have laws: "json_laws J" and wr: "writable fs PTS_JSON" using ok by (simp_all add: score_ok_def)
  have "counter_of J fs key \<noteq> None" using ok key by (auto simp: score_ok_def)
  then obtain j0 c where j0: "getPointsFile J fs = Some j0" "json_value_int J j0 key 0 = Some c"
    by (auto simp: counter_of_def split: option.splits)
  then obtain j1 where "json_set_int J j0 key (c + n) = Some j1"
    using json_set_total [OF laws key] by metis
  then obtain fs' where run: "add_to_counter J key n fs = Some (j1, fs')"
    using j0 by (simp add: add_to_counter_def)
  note eff = add_to_counter_effect [OF laws wr key run]
  have other: "counter_of J fs' k = counter_of J fs k" if "k \<in> {''puntos'', ''muertes''}" "k \<noteq> key" for k
    using eff(3) that by blast
  have "counter_of J fs' k \<noteq> None" if "k \<in> {''puntos'', ''muertes''}" for k
    using eff(2) other [OF that] ok key that by (cases "k = key") (auto simp: score_ok_def)
  then have "score_ok J fs'" using laws wr eff(4) by (simp add: score_ok_def)
  moreover have "the (counter_of J fs' key) = the (counter_of J fs key) + n"
    using eff(2) ok key by (auto simp: score_ok_def)
  ultimately show ?thesis using that run other eff(4,5) by blast
qed

section \<open>An instance of the library laws\<close>

text \<open>
  A score object with the two counters only, written in unary: an instance of the laws, so that what
  is proved from them is not vacuous.
\<close>

definition unary :: "int \<Rightarrow> bytes" where
  "unary i = (if i < 0 then 1 else 0) # replicate (nat \<bar>i\<bar>) 2"

fun parse_unary :: "bytes \<Rightarrow> (int \<times> bytes) option" where
  "parse_unary [] = None"
| "parse_unary (b # bs) =
     (let n = int (length (takeWhile (\<lambda>x. x = 2) bs))
      in Some (if b = 1 then - n else n, dropWhile (\<lambda>x. x = 2) bs))"

definition tally_parse :: "bytes \<Rightarrow> (int \<times> int) option" where
  "tally_parse bs = do { (p, bs) \<leftarrow> parse_unary bs; (m, bs) \<leftarrow> parse_unary bs; Some (p, m) }"

definition tally_json :: "(int \<times> int) json_ops" where
  "tally_json = \<lparr>json_parse = tally_parse, json_dump = (\<lambda>(p, m). unary p @ unary m),
     json_value_int = (\<lambda>(p, m) k d. Some (if k = ''puntos'' then p else if k = ''muertes'' then m else d)),
     json_set_int = (\<lambda>(p, m) k v. Some (if k = ''puntos'' then (v, m) else if k = ''muertes'' then (p, v) else (p, m))),
     json_stream = tally_parse, json_get_int = (\<lambda>_ _. None), json_get_ints = (\<lambda>_ _. Some []),
     json_items = (\<lambda>_ _. Some []), json_field_is = (\<lambda>_ _ _. None)\<rparr>"

lemma parse_unary_append:
  "bs = [] \<or> hd bs \<noteq> 2 \<Longrightarrow> parse_unary (unary i @ bs) = Some (i, bs)"
proof -
  assume "bs = [] \<or> hd bs \<noteq> 2"
  then have "takeWhile (\<lambda>x. x = 2) (replicate n 2 @ bs) = replicate n 2"
    "dropWhile (\<lambda>x. x = 2) (replicate n 2 @ bs) = bs" for n :: nat
    by (cases bs; simp add: takeWhile_append dropWhile_append)+
  then show ?thesis by (simp add: unary_def Let_def)
qed

lemma tally_laws: "json_laws tally_json"
proof -
  have "tally_parse (unary p @ unary m) = Some (p, m)" for p m
  proof -
    have "hd (unary m) \<noteq> 2" by (simp add: unary_def)
    then show ?thesis using parse_unary_append [of "unary m" p] parse_unary_append [of "[]" m]
      by (simp add: tally_parse_def)
  qed
  then show ?thesis by (auto simp: json_laws_def tally_json_def)
qed

text \<open>The score file with a given tally, and nothing else on the disk.\<close>

definition tally_fs :: "int \<times> int \<Rightarrow> file_system" where
  "tally_fs j = \<lparr>files = [PTS_JSON \<mapsto> XorBytes (json_dump tally_json j) POINTS_KEY], writable = (\<lambda>_. True)\<rparr>"

lemma tally_fs_score: "score_ok tally_json (tally_fs j)" "files (tally_fs j) p = (if p = PTS_JSON then
    Some (XorBytes (json_dump tally_json j) POINTS_KEY) else None)" "writable (tally_fs j) p"
  "counter_of tally_json (tally_fs j) ''puntos'' = Some (fst j)"
  "counter_of tally_json (tally_fs j) ''muertes'' = Some (snd j)"
proof -
  have "getPointsFile tally_json (tally_fs j) = Some j"
    by (simp add: getPointsFile_def ReadFileBytes_def tally_fs_def XorBytes_twice json_parse_dump [OF tally_laws])
  then show c: "counter_of tally_json (tally_fs j) ''puntos'' = Some (fst j)"
    "counter_of tally_json (tally_fs j) ''muertes'' = Some (snd j)"
    by (simp_all add: counter_of_def tally_json_def split: prod.split)
  then show "score_ok tally_json (tally_fs j)" by (simp add: score_ok_def tally_laws tally_fs_def)
qed (simp_all add: tally_fs_def)

section \<open>Properties\<close>

text \<open>
  Adding to the score: \<open>addPoints\<close> returns, the file it leaves reads back as the object it returned,
  the points have grown by the argument, the deaths are unchanged and so is every other file.
\<close>

theorem addPoints_persists:
  assumes "score_ok J fs"
  shows "\<exists>j fs'. addPoints J n fs = Some (j, fs') \<and> getPointsFile J fs' = Some j \<and>
    the (counter_of J fs' ''puntos'') = the (counter_of J fs ''puntos'') + n \<and>
    counter_of J fs' ''muertes'' = counter_of J fs ''muertes'' \<and> (\<forall>p. p \<noteq> PTS_JSON \<longrightarrow> files fs' p = files fs p)"
proof -
  have key: "''puntos'' \<in> {''puntos'', ''muertes''}" by simp
  obtain j fs' where run: "add_to_counter J ''puntos'' n fs = Some (j, fs')"
    and pts: "the (counter_of J fs' ''puntos'') = the (counter_of J fs ''puntos'') + n"
    by (rule add_to_counter_total [OF assms key]) (rule that)
  have "json_laws J" "writable fs PTS_JSON" using assms by (simp_all add: score_ok_def)
  note eff = add_to_counter_effect [OF this key run]
  show ?thesis using run pts eff(1,5) eff(3) [of "''muertes''"] by (simp add: addPoints_def)
qed

theorem addPoints_persists_witness:
  "\<exists>j fs'. addPoints tally_json (- 50) (tally_fs (10, 2)) = Some (j, fs') \<and>
    the (counter_of tally_json fs' ''puntos'') = - 40 \<and> counter_of tally_json fs' ''muertes'' = Some 2"
  using addPoints_persists [OF tally_fs_score(1), of "- 50" "(10, 2)"] by (auto simp: tally_fs_score)

end
