(* ===== verification/Capture_Rules.thy ===== *)
theory Capture_Rules
  imports Nuzlocke_State
begin

text \<open>
  \<open>core/poke_capture.cpp\<close>: which encounters may be caught. The visited routes are kept in
  \<open>user/rtp/p/visRou.bin\<close>; \<open>ShouldRemove\<close> decides whether the Poke Balls are taken away for the
  battle, \<open>RemovePokeballs\<close> and \<open>RestorePokeballs\<close> take and return them, \<open>RemoveCandies\<close> removes the
  rare candies. Every operation takes the global state and returns it; \<open>None\<close> is an abort (of the
  memory system), a read of an indeterminate value (a truncated route file) or an index outside
  \<open>evolutionLines\<close>.
\<close>

unbundle bit_operations_syntax

section \<open>The route file\<close>

definition encode_routes :: "u16 list \<Rightarrow> bytes" where
  "encode_routes routes = le_bytes 8 (of_nat (length routes)) @ concat (map (\<lambda>v. le_bytes 2 (ucast v)) routes)"

definition saveVisitedRoutes :: "'j nuz_state \<Rightarrow> 'j nuz_state" where
  "saveVisitedRoutes s =
     (case fs_write (fs s) VISROU_BIN (encode_routes (g_visitedRoutes s)) of
        None \<Rightarrow> s
      | Some f \<Rightarrow> s\<lparr>fs := f\<rparr>)"

fun read_routes :: "nat \<Rightarrow> bytes \<Rightarrow> u16 list \<Rightarrow> u16 list option" where
  "read_routes 0 bs routes = Some routes"
| "read_routes (Suc n) (a # b # bs) routes = read_routes n bs (insort_insert (ucast (decode_le [a, b])) routes)"
| "read_routes (Suc n) _ routes = None"

definition loadVisitedRoutes :: "'j nuz_state \<Rightarrow> 'j nuz_state option" where
  "loadVisitedRoutes s =
     (case files (fs s) VISROU_BIN of
        None \<Rightarrow> Some s
      | Some data \<Rightarrow>
          if length data < 8 then None
          else do {
            routes \<leftarrow> read_routes (unat (decode_le (take 8 data))) (drop 8 data) [];
            Some (s\<lparr>g_visitedRoutes := routes\<rparr>)
          })"

section \<open>Caught Pokemon and evolution lines\<close>

fun load_pc :: "int list \<Rightarrow> MemorySystem \<Rightarrow> int list \<Rightarrow> (int list \<times> MemorySystem) option" where
  "load_pc [] m caught = Some (caught, m)"
| "load_pc (i # is) m caught =
     do {
       (sp, m) \<leftarrow> ReadPk6PCSlot m i;
       load_pc is m (if sp \<noteq> 0 then List.insert sp caught else caught)
     }"

definition insert_species :: "Pk6FullData \<Rightarrow> int list \<Rightarrow> int list" where
  "insert_species p caught = (if species p \<noteq> 0 then List.insert (uint (species p)) caught else caught)"

definition loadCaughtPokemon :: "'j nuz_state \<Rightarrow> 'j nuz_state option" where
  "loadCaughtPokemon s =
     do {
       (caught, m) \<leftarrow> load_pc [0..PC_SIZE - 1] (mem s) [];
       let caught = fold insert_species (g_partyData s) caught;
       Some (s\<lparr>mem := m, g_caught := caught\<rparr>)
     }"

definition evolution_line :: "int \<Rightarrow> int option" where
  "evolution_line sp = (if 0 \<le> sp \<and> sp < 722 then Some (evolutionLines ! nat sp) else None)"

fun any_on_line :: "int list \<Rightarrow> int \<Rightarrow> bool option" where
  "any_on_line [] line = Some False"
| "any_on_line (c # cs) line =
     do {
       l \<leftarrow> evolution_line c;
       if l = line then Some True else any_on_line cs line
     }"

definition hasEvolutionLine :: "int list \<Rightarrow> int \<Rightarrow> bool option" where
  "hasEvolutionLine caught sp =
     do {
       line \<leftarrow> evolution_line sp;
       any_on_line caught line
     }"

fun wild_already_caught :: "int list \<Rightarrow> Pk6FullData list \<Rightarrow> bool option" where
  "wild_already_caught caught [] = Some False"
| "wild_already_caught caught (w # ws) =
     do {
       h \<leftarrow> hasEvolutionLine caught (uint (species w));
       if h \<and> species w \<noteq> 0 then Some True else wild_already_caught caught ws
     }"

section \<open>The decision\<close>

definition mark_route :: "u16 \<Rightarrow> 'j nuz_state \<Rightarrow> 'j nuz_state" where
  "mark_route r s = saveVisitedRoutes (s\<lparr>g_visitedRoutes := insort_insert r (g_visitedRoutes s)\<rparr>)"

definition mark_if_battle :: "u16 \<Rightarrow> 'j nuz_state \<Rightarrow> 'j nuz_state option" where
  "mark_if_battle r s =
     do {
       (battle, m) \<leftarrow> isBattle (mem s);
       let s = s\<lparr>mem := m\<rparr>;
       Some (if battle then mark_route r s else s)
     }"

definition ShouldRemove :: "'j nuz_state \<Rightarrow> (bool \<times> 'j nuz_state) option" where
  "ShouldRemove s =
     (if fs_exists (fs s) DEP_MAP_BIN then Some (False, s)
      else do {
        (trainer, m) \<leftarrow> isBattleTrainer (mem s);
        let s = s\<lparr>mem := m\<rparr>;
        if trainer then Some (False, s)
        else do {
          s \<leftarrow> loadVisitedRoutes s;
          (currentMapID, m) \<leftarrow> ExportMapID (mem s);
          let s = s\<lparr>mem := m\<rparr>;
          if list_ex isShiny (g_wildData s) then do {
            s \<leftarrow> mark_if_battle currentMapID s;
            Some (False, s)
          }
          else if list_ex (\<lambda>w. species w \<in> set legendarySpecies) (g_wildData s) then Some (True, s)
          else do {
            caught \<leftarrow> wild_already_caught (g_caught s) (g_wildData s);
            if caught then Some (True, s)
            else if currentMapID \<in> set (g_visitedRoutes s) then Some (True, s)
            else do {
              s \<leftarrow> (if fs_exists (fs s) HASPKB_BIN then mark_if_battle currentMapID s else Some s);
              Some (False, saveVisitedRoutes s)
            }
          }
        }
      })"

section \<open>Taking and returning the Poke Balls\<close>

definition POCKET_START :: u32 where "POCKET_START = 0x8C6AC80"
definition MEDICINE_POCKET_START :: u32 where "MEDICINE_POCKET_START = 0x8C6B5F0"

lemmas pocket_addresses [simp] = POCKET_START_def MEDICINE_POCKET_START_def

text \<open>
  The first part of \<open>RemovePokeballs\<close>: once a Poke Ball with a quantity is in the pocket, the flag
  file is created (\<open>std::ofstream\<close> writes nothing into it).
\<close>

definition note_first_pokeball :: "'j nuz_state \<Rightarrow> 'j nuz_state option" where
  "note_first_pokeball s =
     (if fs_exists (fs s) HASPKB_BIN then Some s
      else do {
        (buffer, m) \<leftarrow> ReadBlock (mem s) POCKET_START BLOCK_SIZE;
        let s = s\<lparr>mem := m\<rparr>;
        if list_ex (\<lambda>e. item_id e \<noteq> 0 \<and> item_id e \<le> 16 \<and> item_qty e \<noteq> 0) (parse_pocket SLOT_COUNT buffer)
        then (case fs_write (fs s) HASPKB_BIN [] of None \<Rightarrow> Some s | Some f \<Rightarrow> Some (s\<lparr>fs := f\<rparr>))
        else Some s
      })"

definition RemovePokeballs :: "'j nuz_state \<Rightarrow> (bool \<times> 'j nuz_state) option" where
  "RemovePokeballs s =
     do {
       s \<leftarrow> loadCaughtPokemon s;
       s \<leftarrow> note_first_pokeball s;
       (remove, s) \<leftarrow> ShouldRemove s;
       if \<not> remove then Some (False, s)
       else do {
         (buffer, m) \<leftarrow> ReadBlock (mem s) POCKET_START BLOCK_SIZE;
         let (removed, kept) = split_balls (g_RemovedPokeBalls s) (parse_pocket SLOT_COUNT buffer);
         let pocket = RemoveEmptySlots kept SLOT_COUNT;
         let buffer = store_pocket SLOT_COUNT pocket buffer;
         m \<leftarrow> WriteBlock m POCKET_START buffer;
         Some (True, s\<lparr>mem := m, g_MainPocket := pocket, g_RemovedPokeBalls := removed\<rparr>)
       }
     }"

definition RemoveCandies :: "'j nuz_state \<Rightarrow> 'j nuz_state option" where
  "RemoveCandies s =
     do {
       (buffer, m) \<leftarrow> ReadBlock (mem s) MEDICINE_POCKET_START MEDICINE_BLOCK_SIZE;
       let pocket = remove_candies (parse_pocket MEDICINE_SLOT_COUNT buffer);
       let buffer = store_pocket MEDICINE_SLOT_COUNT pocket buffer;
       m \<leftarrow> WriteBlock m MEDICINE_POCKET_START buffer;
       Some (s\<lparr>mem := m\<rparr>)
     }"

definition clear_pockets :: "'j nuz_state \<Rightarrow> 'j nuz_state" where
  "clear_pockets s = s\<lparr>g_MainPocket := replicate SLOT_COUNT no_item,
                        g_RemovedPokeBalls := replicate REMOVED_COUNT no_item\<rparr>"

definition RestorePokeballs :: "'j nuz_state \<Rightarrow> (bool \<times> 'j nuz_state) option" where
  "RestorePokeballs s =
     (if insert_count (g_RemovedPokeBalls s) = 0 then Some (True, clear_pockets s)
      else do {
        (buffer, m) \<leftarrow> ReadBlock (mem s) POCKET_START BLOCK_SIZE;
        let pocket = restore_balls (g_RemovedPokeBalls s) (parse_pocket SLOT_COUNT buffer);
        let buffer = store_pocket SLOT_COUNT pocket buffer;
        m \<leftarrow> WriteBlock m POCKET_START buffer;
        Some (True, clear_pockets (s\<lparr>mem := m\<rparr>))
      })"

section \<open>Reads in a mapped heap do not change the memory\<close>

named_theorems ready_reads "a reader of the nuzlocke code in a mapped heap"

lemma isBattleTrainer_ready [ready_reads]:
  "heap_ready m \<Longrightarrow> isBattleTrainer m = Some (fst (the (isBattleTrainer m)), m)"
  by (simp add: isBattleTrainer_def heap.read_block_at Let_def)

lemma ExportMapID_ready [ready_reads]:
  "heap_ready m \<Longrightarrow> ExportMapID m = Some (fst (the (ExportMapID m)), m)"
  by (simp add: ExportMapID_def heap.read_block_at)

lemma isBattle_ready [ready_reads]:
  "heap_ready m \<Longrightarrow> isBattle m = Some (fst (the (isBattle m)), m)"
  by (simp add: isBattle_def heap.read_block_at split: prod.split bool.split)

lemma ReadPk6PCSlot_ready:
  assumes "heap_ready m" "0 \<le> i" "i < PC_SIZE"
  shows "\<exists>sp. ReadPk6PCSlot m i = Some (sp, m) \<and> 0 \<le> sp"
proof -
  define n where "n = nat i"
  have n: "i = int n" "n < 930" using assms by (simp_all add: n_def)
  have a: "unat (PC_ORAS + of_int (i * int PKM_BOX_SIZE)) = 0x8C9A144 + n * 232"
    using n by (simp add: unat_add_of_nat [of _ "n * 232", simplified])
  show ?thesis
    using assms n a heap.read_block_at [of m "PC_ORAS + of_int (i * int PKM_BOX_SIZE)" PKM_BOX_SIZE]
    by (simp add: ReadPk6PCSlot_def split: prod.split bool.split)
qed

section \<open>The route file round trip\<close>

lemma decode_le_bytes2: "ucast (decode_le (le_bytes 2 (ucast (v :: u16)))) = v"
  by (simp add: decode_le_def le_bytes_def upt_rec)
     (rule bit_word_eqI, auto simp: bit_simps)

lemma decode_le_bytes8: "decode_le (le_bytes 8 v) = v"
proof (rule bit_word_eqI)
  fix n assume "n < LENGTH(64)"
  then have "n < 64" by simp
  have "bit (decode_le (map (\<lambda>i. ucast (drop_bit (8 * i) v)) [k..<k + j])) n \<longleftrightarrow> n < 8 * j \<and> bit v (8 * k + n)"
    if "8 * (k + j) \<le> 64" "n < 64" for k j n
    using that
  proof (induction j arbitrary: k n)
    case 0
    then show ?case by (simp add: decode_le_def)
  next
    case (Suc j)
    have up: "[k..<k + Suc j] = k # [Suc k..<Suc k + j]" by (simp add: upt_conv_Cons)
    have IH: "bit (decode_le (map (\<lambda>i. ucast (drop_bit (8 * i) v)) [Suc k..<Suc k + j])) (n - 8) \<longleftrightarrow>
        n - 8 < 8 * j \<and> bit v (8 * Suc k + (n - 8))" if "8 \<le> n"
      using Suc.IH [of "Suc k" "n - 8"] Suc.prems that by simp
    show ?case
      unfolding up using IH Suc.prems
      by (cases "n < 8") (auto simp: decode_le_def bit_simps)
  qed
  from this [of 0 8 n] \<open>n < 64\<close> show "bit (decode_le (le_bytes 8 v)) n \<longleftrightarrow> bit v n"
    by (simp add: le_bytes_def)
qed

lemma le_bytes2_Cons: "\<exists>a b. le_bytes 2 v = [a, b]"
  by (simp add: le_bytes_def upt_rec)

lemma read_routes_encoded:
  "read_routes (length rs) (concat (map (\<lambda>v. le_bytes 2 (ucast v)) rs) @ rest) acc = Some (fold insort_insert rs acc)"
proof (induction rs arbitrary: acc)
  case (Cons r rs)
  obtain a b where ab: "le_bytes 2 (ucast r) = [a, b]" using le_bytes2_Cons by blast
  have "ucast (decode_le [a, b]) = r" using decode_le_bytes2 [of r] by (simp add: ab)
  then show ?case using Cons by (simp add: ab)
qed simp

lemma fold_insort_insert:
  assumes "sorted acc" "distinct acc"
  shows "sorted (fold insort_insert rs acc) \<and> distinct (fold insort_insert rs acc) \<and>
    set (fold insort_insert rs acc) = set rs \<union> set (acc :: 'a :: linorder list)"
  using assms
  by (induction rs arbitrary: acc) (auto simp: sorted_insort_insert distinct_insort_insert set_insort_insert)

lemma fold_insort_insert_sorted:
  "sorted rs \<Longrightarrow> distinct rs \<Longrightarrow> fold insort_insert rs [] = (rs :: 'a :: linorder list)"
  using fold_insort_insert [of "[]" rs] by (simp add: sorted_distinct_set_unique)

lemma routes_fit:
  assumes "distinct (rs :: u16 list)"
  shows "unat (of_nat (length rs) :: u64) = length rs"
proof -
  have "length rs \<le> card (UNIV :: u16 set)"
    using assms by (metis card_mono distinct_card finite subset_UNIV)
  then have "length rs < 2 ^ 64" by (simp add: card_word)
  then show ?thesis by (simp add: unat_of_nat)
qed

lemma length_encoded_header: "take 8 (encode_routes rs) = le_bytes 8 (of_nat (length rs))"
  "drop 8 (encode_routes rs) = concat (map (\<lambda>v. le_bytes 2 (ucast v)) rs)" "8 \<le> length (encode_routes rs)"
  by (simp_all add: encode_routes_def le_bytes_def)

text \<open>\<open>route_file s\<close>: the routes a later \<open>loadVisitedRoutes\<close> reads.\<close>

definition route_file :: "file_system \<Rightarrow> u16 list \<Rightarrow> bool" where
  "route_file f rs \<longleftrightarrow> files f VISROU_BIN = Some (encode_routes rs) \<and> sorted rs \<and> distinct rs"

lemma load_route_file:
  "route_file (fs s) rs \<Longrightarrow> loadVisitedRoutes s = Some (s\<lparr>g_visitedRoutes := rs\<rparr>)"
  using read_routes_encoded [of rs "[]" "[]"] length_encoded_header [of rs]
  by (simp add: route_file_def loadVisitedRoutes_def decode_le_bytes8 routes_fit
      fold_insort_insert_sorted)

lemma save_route_file:
  "nuz_ok s \<Longrightarrow> writable (fs s) VISROU_BIN \<Longrightarrow> route_file (fs (saveVisitedRoutes s)) (g_visitedRoutes s)"
  by (simp add: route_file_def saveVisitedRoutes_def fs_write_def nuz_ok_def)

lemma mark_route_file:
  assumes "sorted (g_visitedRoutes s)" "distinct (g_visitedRoutes s)" "writable (fs s) VISROU_BIN"
  shows "route_file (fs (mark_route r s)) (insort_insert r (g_visitedRoutes s))"
  using assms
  by (simp add: route_file_def mark_route_def saveVisitedRoutes_def fs_write_def sorted_insort_insert
      distinct_insort_insert)

end
