(* ===== verification/Capture_Facts.thy ===== *)
theory Capture_Facts
  imports Capture_Rules
begin

text \<open>
  What the capture rules of \<open>core/poke_capture.cpp\<close> guarantee: the decision of \<open>ShouldRemove\<close> as a
  function of the encounter, the routes it leaves behind, and the pocket in guest memory before,
  during and after a battle.
\<close>

section \<open>Evolution lines\<close>

abbreviation known_species :: "int \<Rightarrow> bool" where
  "known_species sp \<equiv> 0 \<le> sp \<and> sp < 722"

definition same_line :: "int \<Rightarrow> int \<Rightarrow> bool" where
  "same_line a b \<longleftrightarrow> evolutionLines ! nat a = evolutionLines ! nat b"

lemma any_on_line_known:
  "\<forall>c \<in> set caught. known_species c \<Longrightarrow>
   any_on_line caught line = Some (\<exists>c \<in> set caught. evolutionLines ! nat c = line)"
  by (induction caught) (auto simp: evolution_line_def)

lemma hasEvolutionLine_known:
  "known_species sp \<Longrightarrow> \<forall>c \<in> set caught. known_species c \<Longrightarrow>
   hasEvolutionLine caught sp = Some (\<exists>c \<in> set caught. same_line c sp)"
  by (simp add: hasEvolutionLine_def evolution_line_def any_on_line_known same_line_def)

lemma wild_already_caught_known:
  "\<forall>w \<in> set ws. known_species (uint (species w)) \<Longrightarrow> \<forall>c \<in> set caught. known_species c \<Longrightarrow>
   wild_already_caught caught ws =
     Some (\<exists>w \<in> set ws. species w \<noteq> 0 \<and> (\<exists>c \<in> set caught. same_line c (uint (species w))))"
  by (induction ws) (auto simp: hasEvolutionLine_known)

section \<open>The decision\<close>

text \<open>What the guest memory says of the encounter.\<close>

definition trainer_now :: "MemorySystem \<Rightarrow> bool" where
  "trainer_now m = fst (the (isBattleTrainer m))"

definition map_now :: "MemorySystem \<Rightarrow> u16" where
  "map_now m = fst (the (ExportMapID m))"

definition battle_now :: "MemorySystem \<Rightarrow> bool" where
  "battle_now m = fst (the (isBattle m))"

lemma encounter_reads:
  assumes "heap_ready m"
  shows "isBattleTrainer m = Some (trainer_now m, m)" "ExportMapID m = Some (map_now m, m)"
    "isBattle m = Some (battle_now m, m)"
  using ready_reads [OF assms] unfolding trainer_now_def map_now_def battle_now_def by simp_all

definition rules_apply :: "'j nuz_state \<Rightarrow> bool" where
  "rules_apply s \<longleftrightarrow> \<not> fs_exists (fs s) DEP_MAP_BIN \<and> \<not> trainer_now (mem s)"

definition shiny_wild :: "'j nuz_state \<Rightarrow> bool" where
  "shiny_wild s \<longleftrightarrow> (\<exists>w \<in> set (g_wildData s). isShiny w)"

definition legendary_wild :: "'j nuz_state \<Rightarrow> bool" where
  "legendary_wild s \<longleftrightarrow> (\<exists>w \<in> set (g_wildData s). species w \<in> set legendarySpecies)"

definition duplicate_wild :: "'j nuz_state \<Rightarrow> bool" where
  "duplicate_wild s \<longleftrightarrow> (\<exists>w \<in> set (g_wildData s). species w \<noteq> 0 \<and>
     (\<exists>c \<in> set (g_caught s). same_line c (uint (species w))))"

text \<open>The rule of the challenge: which encounters lose the Poke Balls, and which ones use up the route.\<close>

definition capture_denied :: "u16 set \<Rightarrow> 'j nuz_state \<Rightarrow> bool" where
  "capture_denied visited s \<longleftrightarrow> rules_apply s \<and> \<not> shiny_wild s \<and>
     (legendary_wild s \<or> duplicate_wild s \<or> map_now (mem s) \<in> visited)"

definition uses_route :: "u16 set \<Rightarrow> 'j nuz_state \<Rightarrow> bool" where
  "uses_route visited s \<longleftrightarrow> rules_apply s \<and> battle_now (mem s) \<and>
     (shiny_wild s \<or> \<not> capture_denied visited s \<and> fs_exists (fs s) HASPKB_BIN)"

definition species_in_tables :: "'j nuz_state \<Rightarrow> bool" where
  "species_in_tables s \<longleftrightarrow> (\<forall>w \<in> set (g_wildData s). known_species (uint (species w))) \<and>
     (\<forall>c \<in> set (g_caught s). known_species c)"

lemma saveVisitedRoutes_writable:
  "writable (fs s) VISROU_BIN \<Longrightarrow> saveVisitedRoutes s =
     s\<lparr>fs := (fs s)\<lparr>files := (files (fs s))(VISROU_BIN := Some (encode_routes (g_visitedRoutes s)))\<rparr>\<rparr>"
  by (simp add: saveVisitedRoutes_def fs_write_def)

text \<open>
  \<open>ShouldRemove\<close> decides by the rule and leaves the route in the file exactly when the encounter used
  it up. \<open>s1\<close> is the state afterwards.
\<close>

definition same_but_routes :: "'j nuz_state \<Rightarrow> 'j nuz_state \<Rightarrow> bool" where
  "same_but_routes s s1 \<longleftrightarrow>
     (\<exists>rs. s1 = s\<lparr>g_visitedRoutes := rs, fs := fs s1\<rparr>) \<and> writable (fs s1) = writable (fs s) \<and>
     (\<forall>p. p \<noteq> VISROU_BIN \<longrightarrow> files (fs s1) p = files (fs s) p)"

lemma same_but_routes_refl [simp]: "same_but_routes s s"
  by (simp add: same_but_routes_def) (rule exI [of _ "g_visitedRoutes s"], simp)

lemma mark_if_battle_effect:
  assumes "heap_ready (mem s)" "writable (fs s) VISROU_BIN" "route_file (fs s) (g_visitedRoutes s)"
  shows "\<exists>s1. mark_if_battle r s = Some s1 \<and> same_but_routes s s1 \<and>
    g_visitedRoutes s1 = (if battle_now (mem s) then insort_insert r (g_visitedRoutes s) else g_visitedRoutes s) \<and>
    route_file (fs s1) (g_visitedRoutes s1)"
proof -
  have "route_file (fs (mark_route r s)) (insort_insert r (g_visitedRoutes s))"
    using assms by (intro mark_route_file) (simp_all add: route_file_def)
  moreover have "g_visitedRoutes (mark_route r s) = insort_insert r (g_visitedRoutes s)"
    "same_but_routes s (mark_route r s)"
    using assms(2) by (auto simp: mark_route_def saveVisitedRoutes_writable same_but_routes_def)
  ultimately show ?thesis
    using assms by (simp add: mark_if_battle_def encounter_reads)
qed

lemma save_again:
  "writable (fs s) VISROU_BIN \<Longrightarrow> route_file (fs s) (g_visitedRoutes s) \<Longrightarrow> saveVisitedRoutes s = s"
  by (simp add: saveVisitedRoutes_writable route_file_def fun_upd_idem)

lemma ShouldRemove_rule:
  assumes ready: "heap_ready (mem s)" and wr: "writable (fs s) VISROU_BIN"
    and rs: "route_file (fs s) rs" and sp: "species_in_tables s"
  shows "\<exists>s1. ShouldRemove s = Some (capture_denied (set rs) s, s1) \<and> same_but_routes s s1 \<and>
    route_file (fs s1) (if uses_route (set rs) s then insort_insert (map_now (mem s)) rs else rs)"
proof (cases "rules_apply s")
  case False
  then have "ShouldRemove s = Some (False, s)"
    using ready by (auto simp: ShouldRemove_def rules_apply_def encounter_reads)
  moreover have "\<not> capture_denied (set rs) s" "\<not> uses_route (set rs) s"
    using False by (simp_all add: capture_denied_def uses_route_def)
  ultimately show ?thesis using rs same_but_routes_refl [of s] by simp
next
  case True
  define t where "t = s\<lparr>g_visitedRoutes := rs\<rparr>"
  have t: "mem t = mem s" "fs t = fs s" "g_visitedRoutes t = rs" by (simp_all add: t_def)
  have trans: "same_but_routes t s1 \<Longrightarrow> same_but_routes s s1" for s1
    by (auto simp: same_but_routes_def t_def)
  obtain s1 where s1: "mark_if_battle (map_now (mem s)) t = Some s1" "same_but_routes t s1"
    "g_visitedRoutes s1 = (if battle_now (mem s) then insort_insert (map_now (mem s)) rs else rs)"
    "route_file (fs s1) (g_visitedRoutes s1)"
    using mark_if_battle_effect [of t "map_now (mem s)"] ready wr rs t by auto
  have s1w: "writable (fs s1) VISROU_BIN" using s1(2) wr t by (simp add: same_but_routes_def)
  have head: "ShouldRemove s =
      (if shiny_wild s then map_option (Pair False) (mark_if_battle (map_now (mem s)) t)
       else if legendary_wild s \<or> duplicate_wild s \<or> map_now (mem s) \<in> set rs then Some (True, t)
       else map_option (\<lambda>s. (False, saveVisitedRoutes s))
         (if fs_exists (fs s) HASPKB_BIN then mark_if_battle (map_now (mem s)) t else Some t))"
    using True ready rs sp wild_already_caught_known [of "g_wildData s" "g_caught s"] s1(1)
    by (auto simp: ShouldRemove_def rules_apply_def encounter_reads load_route_file t_def species_in_tables_def
        shiny_wild_def legendary_wild_def duplicate_wild_def list_ex_iff Let_def)
  have tt: "same_but_routes s t" "route_file (fs t) rs" "saveVisitedRoutes t = t"
    using rs wr save_again [of t] by (auto simp: same_but_routes_def t_def)
  have s1s: "same_but_routes s s1" "saveVisitedRoutes s1 = s1" "same_but_routes s t"
    using trans s1 s1w tt(1) save_again by blast+
  let ?bad = "legendary_wild s \<or> duplicate_wild s \<or> map_now (mem s) \<in> set rs"
  have den: "capture_denied (set rs) s \<longleftrightarrow> \<not> shiny_wild s \<and> ?bad"
    and use: "uses_route (set rs) s \<longleftrightarrow>
      battle_now (mem s) \<and> (shiny_wild s \<or> \<not> ?bad \<and> fs_exists (fs s) HASPKB_BIN)"
    using True by (auto simp: capture_denied_def uses_route_def)
  show ?thesis
    unfolding head den use using s1(1,3,4) s1s tt
    by (cases "shiny_wild s"; cases ?bad; cases "fs_exists (fs s) HASPKB_BIN"; cases "battle_now (mem s)") simp_all
qed

section \<open>A sequence of encounters\<close>

text \<open>
  Between two encounters the guest memory, the wild slots and the caught species change; the route
  file stays. \<open>run_encounters\<close> asks \<open>ShouldRemove\<close> once per encounter.
\<close>

type_synonym encounter = "MemorySystem \<times> Pk6FullData list \<times> int list"

definition meet :: "encounter \<Rightarrow> 'j nuz_state \<Rightarrow> 'j nuz_state" where
  "meet e s = (case e of (m, wild, caught) \<Rightarrow> s\<lparr>mem := m, g_wildData := wild, g_caught := caught\<rparr>)"

fun run_encounters :: "encounter list \<Rightarrow> 'j nuz_state \<Rightarrow> (bool list \<times> 'j nuz_state) option" where
  "run_encounters [] s = Some ([], s)"
| "run_encounters (e # es) s =
     do {
       (denied, s) \<leftarrow> ShouldRemove (meet e s);
       (rest, s) \<leftarrow> run_encounters es s;
       Some (denied # rest, s)
     }"

definition encounter_ok :: "encounter \<Rightarrow> bool" where
  "encounter_ok e \<longleftrightarrow> (case e of (m, wild, caught) \<Rightarrow>
     heap_ready m \<and> (\<forall>w \<in> set wild. known_species (uint (species w))) \<and> (\<forall>c \<in> set caught. known_species c))"

lemma meet_simps [simp]:
  "fs (meet e s) = fs s" "mem (meet e s) = fst e" "g_wildData (meet e s) = fst (snd e)"
  "g_caught (meet e s) = snd (snd e)"
  by (simp_all add: meet_def split: prod.split)

lemma meet_ok: "encounter_ok e \<Longrightarrow> heap_ready (mem (meet e s)) \<and> species_in_tables (meet e s)"
  by (cases e) (simp add: encounter_ok_def species_in_tables_def)

lemma run_encounters_total:
  assumes "\<forall>e \<in> set es. encounter_ok e" "writable (fs s) VISROU_BIN" "route_file (fs s) rs"
  shows "\<exists>ds s1 rs1. run_encounters es s = Some (ds, s1) \<and> length ds = length es \<and>
    writable (fs s1) VISROU_BIN \<and> route_file (fs s1) rs1 \<and> set rs \<subseteq> set rs1 \<and>
    (\<forall>p. p \<noteq> VISROU_BIN \<longrightarrow> files (fs s1) p = files (fs s) p)"
  using assms
proof (induction es arbitrary: s rs)
  case Nil
  then show ?case by auto
next
  case (Cons e es)
  let ?u = "uses_route (set rs) (meet e s)"
  obtain s1 where s1: "ShouldRemove (meet e s) = Some (capture_denied (set rs) (meet e s), s1)"
    "same_but_routes (meet e s) s1"
    "route_file (fs s1) (if ?u then insort_insert (map_now (mem (meet e s))) rs else rs)"
    using ShouldRemove_rule [of "meet e s" rs] Cons.prems meet_ok [of e s] by auto
  then have "writable (fs s1) VISROU_BIN" "\<forall>p. p \<noteq> VISROU_BIN \<longrightarrow> files (fs s1) p = files (fs s) p"
    using Cons.prems by (simp_all add: same_but_routes_def)
  moreover have "set rs \<subseteq> set (if ?u then insort_insert (map_now (mem (meet e s))) rs else rs)"
    by (auto simp: set_insort_insert)
  ultimately show ?case
    using Cons.IH [OF _ _ s1(3)] Cons.prems s1(1) by fastforce
qed

lemma run_encounters_append:
  "run_encounters (es @ es') s =
     do { (ds, s) \<leftarrow> run_encounters es s; (ds', s) \<leftarrow> run_encounters es' s; Some (ds @ ds', s) }"
  by (induction es arbitrary: s) (auto simp: Option.bind_eq_Some_conv split: Option.bind_split option.splits)

text \<open>The first catch on a map uses it up: every later encounter there is denied.\<close>

lemma later_encounter_denied:
  assumes ok: "\<forall>d \<in> set (e # es @ [e']). encounter_ok d" and wr: "writable (fs s) VISROU_BIN"
    and rs: "route_file (fs s) rs" and first: "uses_route (set rs) (meet e s)"
    and again: "map_now (fst e') = map_now (fst e)" "rules_apply (meet e' s)" "\<not> shiny_wild (meet e' s)"
  shows "\<exists>ds s1. run_encounters (e # es @ [e']) s = Some (ds @ [True], s1)"
proof -
  obtain s1 where s1: "ShouldRemove (meet e s) = Some (capture_denied (set rs) (meet e s), s1)"
    "same_but_routes (meet e s) s1" "route_file (fs s1) (insort_insert (map_now (fst e)) rs)"
    using ShouldRemove_rule [of "meet e s" rs] ok wr rs first meet_ok [of e s] by auto
  then have s1f: "writable (fs s1) VISROU_BIN" "\<forall>p. p \<noteq> VISROU_BIN \<longrightarrow> files (fs s1) p = files (fs s) p"
    using wr by (simp_all add: same_but_routes_def)
  have oks: "\<forall>d \<in> set es. encounter_ok d" using ok by simp
  from run_encounters_total [OF oks s1f(1) s1(3)]
  obtain ds s2 rs2 where s2: "run_encounters es s1 = Some (ds, s2)"
    "writable (fs s2) VISROU_BIN" "route_file (fs s2) rs2" "map_now (fst e) \<in> set rs2"
    "\<forall>p. p \<noteq> VISROU_BIN \<longrightarrow> files (fs s2) p = files (fs s1) p"
    by (force simp: set_insort_insert)
  have "capture_denied (set rs2) (meet e' s2)"
    using again s2(4,5) s1f(2) unfolding capture_denied_def rules_apply_def shiny_wild_def fs_exists_def
    by simp
  then obtain s3 where "ShouldRemove (meet e' s2) = Some (True, s3)"
    using ShouldRemove_rule [of "meet e' s2" rs2] ok s2(2,3) meet_ok [of e' s2] by auto
  then show ?thesis using s1(1) s2(1) by (simp add: run_encounters_append)
qed

section \<open>The pockets in guest memory\<close>

definition pocket_of :: "MemorySystem \<Rightarrow> ItemEntry list" where
  "pocket_of m = parse_pocket SLOT_COUNT (heap.block_at m POCKET_START BLOCK_SIZE)"

definition medicine_of :: "MemorySystem \<Rightarrow> ItemEntry list" where
  "medicine_of m = parse_pocket MEDICINE_SLOT_COUNT (heap.block_at m MEDICINE_POCKET_START MEDICINE_BLOCK_SIZE)"

lemma length_pockets [simp]: "length (pocket_of m) = SLOT_COUNT" "length (medicine_of m) = MEDICINE_SLOT_COUNT"
  by (simp_all add: pocket_of_def medicine_of_def)

text \<open>Addresses \<open>[a, a + n)\<close> of the heap hold the same bytes in both memories.\<close>

abbreviation same_block :: "MemorySystem \<Rightarrow> MemorySystem \<Rightarrow> u32 \<Rightarrow> nat \<Rightarrow> bool" where
  "same_block m m' a n \<equiv> heap.block_at m' a n = heap.block_at m a n"

abbreviation in_heap :: "u32 \<Rightarrow> nat \<Rightarrow> bool" where
  "in_heap a n \<equiv> HEAP_VADDR \<le> unat a \<and> unat a + n \<le> HEAP_VADDR_END"

lemma pocket_write:
  assumes "heap_ready m" "in_heap start (4 * n)" "length arr = n"
  obtains m' where
    "WriteBlock m start (store_pocket n arr (heap.block_at m start (4 * n))) = Some m'" "heap_ready m'"
    "parse_pocket n (heap.block_at m' start (4 * n)) = arr"
    "\<And>a k. in_heap a k \<Longrightarrow> unat a + k \<le> unat start \<or> unat start + 4 * n \<le> unat a \<Longrightarrow> same_block m m' a k"
proof -
  let ?bs = "store_pocket n arr (heap.block_at m start (4 * n))"
  have len: "length ?bs = 4 * n" by simp
  from heap.read_after_write [of m start ?bs] assms obtain m' where m': "WriteBlock m start ?bs = Some m'"
    "heap_ready m'" "heap.block_at m' start (4 * n) = ?bs"
    "\<And>a k. HEAP_VADDR \<le> unat a \<Longrightarrow> unat a + k \<le> HEAP_VADDR_END \<Longrightarrow>
      unat a + k \<le> unat start \<or> unat start + 4 * n \<le> unat a \<Longrightarrow> same_block m m' a k"
    unfolding len by metis
  then show ?thesis using that assms(3) parse_store_pocket [of arr n "heap.block_at m start (4 * n)"] by simp
qed

lemma load_pc_ready:
  assumes "heap_ready m" "\<forall>i \<in> set is. 0 \<le> i \<and> i < PC_SIZE"
  shows "\<exists>caught'. load_pc is m caught = Some (caught', m) \<and>
    set caught' = set caught \<union> {sp. sp \<noteq> 0 \<and> (\<exists>i \<in> set is. ReadPk6PCSlot m i = Some (sp, m))}"
  using assms(2)
proof (induction "is" arbitrary: caught)
  case Nil
  then show ?case by simp
next
  case (Cons i "is")
  obtain sp where sp: "ReadPk6PCSlot m i = Some (sp, m)"
    using ReadPk6PCSlot_ready [OF assms(1), of i] Cons.prems by auto
  obtain caught' where c: "load_pc is m (if sp \<noteq> 0 then List.insert sp caught else caught) = Some (caught', m)"
    "set caught' = set (if sp \<noteq> 0 then List.insert sp caught else caught) \<union>
      {sp. sp \<noteq> 0 \<and> (\<exists>i \<in> set is. ReadPk6PCSlot m i = Some (sp, m))}"
    using Cons.IH [of "if sp \<noteq> 0 then List.insert sp caught else caught"] Cons.prems by auto
  then show ?case using sp by (auto split: if_splits)
qed

lemma set_fold_insert_species:
  "set (fold insert_species ps caught) = set caught \<union> {uint (species p) |p. p \<in> set ps \<and> species p \<noteq> 0}"
  by (induction ps arbitrary: caught) (auto simp: insert_species_def)

text \<open>The species the player owns: in the boxes and in the party.\<close>

definition owned :: "'j nuz_state \<Rightarrow> int set" where
  "owned s = {sp. sp \<noteq> 0 \<and> (\<exists>i. 0 \<le> i \<and> i < PC_SIZE \<and> ReadPk6PCSlot (mem s) i = Some (sp, mem s))} \<union>
     {uint (species p) |p. p \<in> set (g_partyData s) \<and> species p \<noteq> 0}"

lemma loadCaughtPokemon_owned:
  assumes "heap_ready (mem s)"
  shows "\<exists>caught. loadCaughtPokemon s = Some (s\<lparr>g_caught := caught\<rparr>) \<and> set caught = owned s"
proof -
  obtain c where c: "load_pc [0..PC_SIZE - 1] (mem s) [] = Some (c, mem s)"
    "set c = {sp. sp \<noteq> 0 \<and> (\<exists>i \<in> set [0..PC_SIZE - 1]. ReadPk6PCSlot (mem s) i = Some (sp, mem s))}"
    using load_pc_ready [OF assms, of "[0..PC_SIZE - 1]" "[]"] by auto
  then have "loadCaughtPokemon s = Some (s\<lparr>g_caught := fold insert_species (g_partyData s) c\<rparr>)"
    unfolding loadCaughtPokemon_def by (simp only: Option.bind.bind_lunit prod.case Let_def) simp
  moreover have "set (fold insert_species (g_partyData s) c) = owned s"
    using c(2) by (auto simp: set_fold_insert_species owned_def)
  ultimately show ?thesis by blast
qed

lemma note_first_pokeball_effect:
  assumes "heap_ready (mem s)" "writable (fs s) HASPKB_BIN"
  shows "note_first_pokeball s = Some
    (if fs_exists (fs s) HASPKB_BIN \<or>
        \<not> (\<exists>e \<in> set (pocket_of (mem s)). item_id e \<noteq> 0 \<and> item_id e \<le> 16 \<and> item_qty e \<noteq> 0)
     then s else s\<lparr>fs := (fs s)\<lparr>files := (files (fs s))(HASPKB_BIN := Some [])\<rparr>\<rparr>)"
  using assms heap.read_block_at [of "mem s" POCKET_START BLOCK_SIZE]
  by (auto simp: note_first_pokeball_def fs_write_def pocket_of_def list_ex_iff Let_def)

lemma RemoveCandies_effect:
  assumes "heap_ready (mem s)"
  obtains m' where "RemoveCandies s = Some (s\<lparr>mem := m'\<rparr>)" "heap_ready m'"
    "medicine_of m' = remove_candies (medicine_of (mem s))"
    "\<And>a k. in_heap a k \<Longrightarrow> unat a + k \<le> 0x8C6B5F0 \<or> 0x8C6B6C8 \<le> unat a \<Longrightarrow> same_block (mem s) m' a k"
proof -
  let ?arr = "remove_candies (medicine_of (mem s))"
  have arr: "length ?arr = MEDICINE_SLOT_COUNT"
    using length_RemoveEmptySlots [of "map drop_candy (medicine_of (mem s))"] by (simp add: remove_candies_def)
  have hp: "in_heap MEDICINE_POCKET_START (4 * MEDICINE_SLOT_COUNT)" by simp
  from pocket_write [OF assms hp arr] obtain m' where m':
    "WriteBlock (mem s) MEDICINE_POCKET_START (store_pocket MEDICINE_SLOT_COUNT ?arr
       (heap.block_at (mem s) MEDICINE_POCKET_START (4 * MEDICINE_SLOT_COUNT))) = Some m'" "heap_ready m'"
    "parse_pocket MEDICINE_SLOT_COUNT (heap.block_at m' MEDICINE_POCKET_START (4 * MEDICINE_SLOT_COUNT)) = ?arr"
    "\<And>a k. in_heap a k \<Longrightarrow> unat a + k \<le> unat MEDICINE_POCKET_START \<or>
       unat MEDICINE_POCKET_START + 4 * MEDICINE_SLOT_COUNT \<le> unat a \<Longrightarrow> same_block (mem s) m' a k"
    by metis
  have rd: "ReadBlock (mem s) MEDICINE_POCKET_START MEDICINE_BLOCK_SIZE =
      Some (heap.block_at (mem s) MEDICINE_POCKET_START MEDICINE_BLOCK_SIZE, mem s)"
    using assms by (intro heap.read_block_at) simp_all
  have "RemoveCandies s = Some (s\<lparr>mem := m'\<rparr>)"
    using rd m'(1) by (simp add: RemoveCandies_def medicine_of_def)
  then show ?thesis using that m'(2-4) by (simp add: medicine_of_def)
qed

lemma filter_drop_candy:
  "filter occupied (map drop_candy pocket) = filter (\<lambda>e. occupied e \<and> item_id e \<noteq> 50) pocket"
  by (induction pocket) (auto simp: drop_candy_def)

lemma filter_remove_candies:
  "length pocket = MEDICINE_SLOT_COUNT \<Longrightarrow>
   filter occupied (remove_candies pocket) = filter (\<lambda>e. occupied e \<and> item_id e \<noteq> 50) pocket"
  using filter_RemoveEmptySlots [of "map drop_candy pocket"]
  by (simp add: remove_candies_def filter_drop_candy)

section \<open>Taking the Poke Balls and giving them back\<close>

lemma main_pocket_write:
  assumes "heap_ready m" "length arr = SLOT_COUNT"
  obtains m' where
    "WriteBlock m POCKET_START (store_pocket SLOT_COUNT arr (heap.block_at m POCKET_START BLOCK_SIZE)) = Some m'"
    "heap_ready m'" "pocket_of m' = arr"
    "\<And>a k. in_heap a k \<Longrightarrow> unat a + k \<le> 0x8C6AC80 \<or> 0x8C6B144 \<le> unat a \<Longrightarrow> same_block m m' a k"
proof -
  have hp: "in_heap POCKET_START (4 * SLOT_COUNT)" by simp
  obtain m' where
    "WriteBlock m POCKET_START (store_pocket SLOT_COUNT arr (heap.block_at m POCKET_START (4 * SLOT_COUNT))) = Some m'"
    "heap_ready m'" "parse_pocket SLOT_COUNT (heap.block_at m' POCKET_START (4 * SLOT_COUNT)) = arr"
    "\<And>a k. in_heap a k \<Longrightarrow> unat a + k \<le> unat POCKET_START \<or> unat POCKET_START + 4 * SLOT_COUNT \<le> unat a \<Longrightarrow>
      same_block m m' a k"
    by (rule pocket_write [OF assms(1) hp assms(2)]) (rule that)
  then show ?thesis by (intro that [of m']) (simp_all add: pocket_of_def)
qed

lemma main_pocket_read:
  "heap_ready m \<Longrightarrow> ReadBlock m POCKET_START BLOCK_SIZE = Some (heap.block_at m POCKET_START BLOCK_SIZE, m)"
  by (rule heap.read_block_at) simp_all

lemma filter_kept_pocket:
  assumes "length pocket = SLOT_COUNT"
  shows "length (RemoveEmptySlots (map keep_item pocket) SLOT_COUNT) = SLOT_COUNT"
    and "filter occupied (RemoveEmptySlots (map keep_item pocket) SLOT_COUNT) =
      filter (\<lambda>e. occupied e \<and> \<not> is_ball e) pocket"
  using assms length_RemoveEmptySlots [of "map keep_item pocket"]
    filter_RemoveEmptySlots [of "map keep_item pocket"]
  by (simp_all add: filter_keep_item)

text \<open>
  A state in which \<open>RemovePokeballs\<close> runs to its end: the arrays have their lengths, the heap is
  mapped, the files can be written, and every species involved is in the tables.
\<close>

definition capture_ready :: "u16 list \<Rightarrow> 'j nuz_state \<Rightarrow> bool" where
  "capture_ready rs s \<longleftrightarrow> nuz_ok s \<and> writable (fs s) VISROU_BIN \<and> writable (fs s) HASPKB_BIN \<and>
     route_file (fs s) rs \<and> (\<forall>w \<in> set (g_wildData s). known_species (uint (species w))) \<and>
     (\<forall>sp \<in> owned s. known_species sp)"

text \<open>What \<open>RemovePokeballs\<close> sees when it decides.\<close>

definition denied_now :: "u16 list \<Rightarrow> 'j nuz_state \<Rightarrow> bool" where
  "denied_now rs s \<longleftrightarrow> rules_apply s \<and> \<not> shiny_wild s \<and>
     (legendary_wild s \<or>
      (\<exists>w \<in> set (g_wildData s). species w \<noteq> 0 \<and> (\<exists>c \<in> owned s. same_line c (uint (species w)))) \<or>
      map_now (mem s) \<in> set rs)"

lemma RemovePokeballs_decision:
  assumes ready: "capture_ready rs s"
  obtains s1 where "mem s1 = mem s" "g_MainPocket s1 = g_MainPocket s" "g_RemovedPokeBalls s1 = g_RemovedPokeBalls s"
    "g_partyData s1 = g_partyData s" "g_battleData s1 = g_battleData s" "g_wildData s1 = g_wildData s"
    "pokemonCarried s1 = pokemonCarried s" "g_pending_delete s1 = g_pending_delete s"
    "RemovePokeballs s =
      (if denied_now rs s then
         let (removed, kept) = split_balls (g_RemovedPokeBalls s) (pocket_of (mem s));
             pocket = RemoveEmptySlots kept SLOT_COUNT
         in do {
           m \<leftarrow> WriteBlock (mem s) POCKET_START
             (store_pocket SLOT_COUNT pocket (heap.block_at (mem s) POCKET_START BLOCK_SIZE));
           Some (True, s1\<lparr>mem := m, g_MainPocket := pocket, g_RemovedPokeBalls := removed\<rparr>)
         }
       else Some (False, s1))"
    "\<exists>rs'. route_file (fs s1) rs' \<and> set rs \<subseteq> set rs'"
proof -
  have hr: "heap_ready (mem s)" using ready by (simp add: capture_ready_def nuz_ok_def)
  obtain caught where c: "loadCaughtPokemon s = Some (s\<lparr>g_caught := caught\<rparr>)" "set caught = owned s"
    using loadCaughtPokemon_owned [OF hr] by blast
  define f where "f = (if fs_exists (fs s) HASPKB_BIN \<or>
        \<not> (\<exists>e \<in> set (pocket_of (mem s)). item_id e \<noteq> 0 \<and> item_id e \<le> 16 \<and> item_qty e \<noteq> 0)
     then fs s else (fs s)\<lparr>files := (files (fs s))(HASPKB_BIN := Some [])\<rparr>)"
  define t where "t = s\<lparr>g_caught := caught, fs := f\<rparr>"
  have ntd: "note_first_pokeball (s\<lparr>g_caught := caught\<rparr>) = Some t"
    using note_first_pokeball_effect [of "s\<lparr>g_caught := caught\<rparr>"] hr ready
    by (auto simp: t_def f_def capture_ready_def)
  have ft: "files f VISROU_BIN = files (fs s) VISROU_BIN" "files f DEP_MAP_BIN = files (fs s) DEP_MAP_BIN"
    "writable f = writable (fs s)"
    by (simp_all add: f_def)
  have tt: "heap_ready (mem t)" "writable (fs t) VISROU_BIN" "route_file (fs t) rs" "species_in_tables t"
    using ready hr ft c(2) by (simp_all add: t_def capture_ready_def route_file_def species_in_tables_def)
  have den: "capture_denied (set rs) t = denied_now rs s"
    using ft c(2) by (simp add: capture_denied_def denied_now_def t_def rules_apply_def fs_exists_def
        shiny_wild_def legendary_wild_def duplicate_wild_def)
  obtain s1 where s1: "ShouldRemove t = Some (denied_now rs s, s1)" "same_but_routes t s1"
    "\<exists>rs'. route_file (fs s1) rs' \<and> set rs \<subseteq> set rs'"
    using ShouldRemove_rule [OF tt] den by (force simp: set_insort_insert split: if_splits)
  obtain rs' where s1r: "s1 = t\<lparr>g_visitedRoutes := rs', fs := fs s1\<rparr>"
    using s1(2) by (auto simp: same_but_routes_def)
  have fields: "mem s1 = mem s" "g_MainPocket s1 = g_MainPocket s" "g_RemovedPokeBalls s1 = g_RemovedPokeBalls s"
    "g_partyData s1 = g_partyData s" "g_battleData s1 = g_battleData s" "g_wildData s1 = g_wildData s"
    "pokemonCarried s1 = pokemonCarried s" "g_pending_delete s1 = g_pending_delete s"
    by (subst s1r, simp add: t_def)+
  show ?thesis
    using c(1) ntd s1(1) fields hr main_pocket_read [OF hr]
    by (intro that [OF fields _ s1(3)])
       (simp add: RemovePokeballs_def pocket_of_def Let_def split: prod.split)
qed

lemma RemovePokeballs_effect:
  assumes ready: "capture_ready rs s"
  obtains s1 where "RemovePokeballs s = Some (denied_now rs s, s1)" "heap_ready (mem s1)"
    "\<not> denied_now rs s \<Longrightarrow> mem s1 = mem s \<and> g_RemovedPokeBalls s1 = g_RemovedPokeBalls s"
    "denied_now rs s \<Longrightarrow>
       pocket_of (mem s1) = RemoveEmptySlots (map keep_item (pocket_of (mem s))) SLOT_COUNT \<and>
       g_RemovedPokeBalls s1 = foldl take_ball (g_RemovedPokeBalls s) (pocket_of (mem s))"
    "\<And>a k. in_heap a k \<Longrightarrow> unat a + k \<le> 0x8C6AC80 \<or> 0x8C6B144 \<le> unat a \<Longrightarrow> same_block (mem s) (mem s1) a k"
    "\<exists>rs'. route_file (fs s1) rs' \<and> set rs \<subseteq> set rs'"
proof -
  obtain s1 where s1: "mem s1 = mem s" "g_RemovedPokeBalls s1 = g_RemovedPokeBalls s"
    "RemovePokeballs s =
      (if denied_now rs s then
         let (removed, kept) = split_balls (g_RemovedPokeBalls s) (pocket_of (mem s));
             pocket = RemoveEmptySlots kept SLOT_COUNT
         in do {
           m \<leftarrow> WriteBlock (mem s) POCKET_START
             (store_pocket SLOT_COUNT pocket (heap.block_at (mem s) POCKET_START BLOCK_SIZE));
           Some (True, s1\<lparr>mem := m, g_MainPocket := pocket, g_RemovedPokeBalls := removed\<rparr>)
         }
       else Some (False, s1))"
    "\<exists>rs'. route_file (fs s1) rs' \<and> set rs \<subseteq> set rs'"
    by (rule RemovePokeballs_decision [OF ready]) (rule that)
  have hr: "heap_ready (mem s)" using ready by (simp add: capture_ready_def nuz_ok_def)
  let ?p = "RemoveEmptySlots (map keep_item (pocket_of (mem s))) SLOT_COUNT"
  show ?thesis
  proof (cases "denied_now rs s")
    case False
    then show ?thesis using s1 hr by (intro that [of s1]) simp_all
  next
    case True
    have lp: "length ?p = SLOT_COUNT" by (rule filter_kept_pocket) simp
    obtain m' where m': "WriteBlock (mem s) POCKET_START
        (store_pocket SLOT_COUNT ?p (heap.block_at (mem s) POCKET_START BLOCK_SIZE)) = Some m'"
      "heap_ready m'" "pocket_of m' = ?p"
      "\<And>a k. in_heap a k \<Longrightarrow> unat a + k \<le> 0x8C6AC80 \<or> 0x8C6B144 \<le> unat a \<Longrightarrow> same_block (mem s) m' a k"
      using main_pocket_write [OF hr lp] by metis
    let ?s2 = "s1\<lparr>mem := m', g_MainPocket := ?p,
        g_RemovedPokeBalls := foldl take_ball (g_RemovedPokeBalls s) (pocket_of (mem s))\<rparr>"
    have "RemovePokeballs s = Some (True, ?s2)"
      using s1(3) True m'(1) by (simp add: split_balls_def)
    then show ?thesis using True m' s1(4) by (intro that [of ?s2]) simp_all
  qed
qed

lemma RestorePokeballs_effect:
  assumes hr: "heap_ready (mem s)" and len: "length (g_RemovedPokeBalls s) = REMOVED_COUNT"
  obtains m' where "RestorePokeballs s = Some (True, clear_pockets (s\<lparr>mem := m'\<rparr>))" "heap_ready m'"
    "pocket_of m' = restore_balls (g_RemovedPokeBalls s) (pocket_of (mem s))"
    "\<And>a k. in_heap a k \<Longrightarrow> unat a + k \<le> 0x8C6AC80 \<or> 0x8C6B144 \<le> unat a \<Longrightarrow> same_block (mem s) m' a k"
proof (cases "insert_count (g_RemovedPokeBalls s) = 0")
  case True
  have "filter (\<lambda>e. item_qty e \<noteq> 0) (g_RemovedPokeBalls s) = []"
    using True len by (simp add: insert_count_def filter_empty_conv)
  then have "restore_balls (g_RemovedPokeBalls s) (pocket_of (mem s)) = pocket_of (mem s)"
    using restore_balls_eq [of "pocket_of (mem s)", OF _ len] True by simp
  then show ?thesis using True hr by (intro that [of "mem s"]) (simp_all add: RestorePokeballs_def)
next
  case False
  let ?p = "restore_balls (g_RemovedPokeBalls s) (pocket_of (mem s))"
  have "length (filter (\<lambda>e. item_qty e \<noteq> 0) (g_RemovedPokeBalls s)) \<le> 17"
    using len length_filter_le [of _ "g_RemovedPokeBalls s"] by (simp add: order_trans)
  then have lp: "length ?p = SLOT_COUNT"
    using restore_balls_eq [of "pocket_of (mem s)", OF _ len] len by (simp add: insert_count_def)
  obtain m' where "WriteBlock (mem s) POCKET_START
      (store_pocket SLOT_COUNT ?p (heap.block_at (mem s) POCKET_START BLOCK_SIZE)) = Some m'"
    "heap_ready m'" "pocket_of m' = ?p"
    "\<And>a k. in_heap a k \<Longrightarrow> unat a + k \<le> 0x8C6AC80 \<or> 0x8C6B144 \<le> unat a \<Longrightarrow> same_block (mem s) m' a k"
    using main_pocket_write [OF hr lp] by metis
  then show ?thesis
    using False main_pocket_read [OF hr] by (intro that [of m']) (simp_all add: RestorePokeballs_def pocket_of_def Let_def)
qed

section \<open>A concrete state\<close>

text \<open>
  A heap of zeros except for the ability of the first battle slot, which tells a wild battle from one
  against a trainer, five Poke Balls in the first pocket slot and, in the wild slot, a record that
  looks like a Pokemon in battle; a legendary Pokemon (species 150) read from the first wild slot; an
  empty route file.
\<close>

definition battle_record :: bytes where
  "battle_record = (replicate 232 0)[8 := 1, 0xE3 := 1]"

definition wild_heap :: "nat \<Rightarrow> u8" where
  "wild_heap a =
     (if a = 0x820420A then 1 else if a = 0x8C6AC80 then 1 else if a = 0x8C6AC82 then 5
      else if 0x081FFA6C \<le> a \<and> a < 0x081FFA6C + 232
        then snd (EncryptPk6InPlace battle_record 232 False) ! (a - 0x081FFA6C)
      else 0)"

definition empty_routes_fs :: file_system where
  "empty_routes_fs = \<lparr>files = [VISROU_BIN \<mapsto> encode_routes []], writable = (\<lambda>_. True)\<rparr>"

definition legendary_state :: "unit nuz_state" where
  "legendary_state = (fresh_state (heap_memory wild_heap) empty_routes_fs ())
     \<lparr>g_wildData := blank_pk6\<lparr>species := 150\<rparr> # replicate 4 blank_pk6\<rparr>"

lemma empty_routes: "route_file empty_routes_fs []" "writable empty_routes_fs p"
  "\<not> fs_exists empty_routes_fs DEP_MAP_BIN"
  by (simp_all add: route_file_def empty_routes_fs_def fs_exists_def)

lemma wild_heap_trainer: "\<not> trainer_now (heap_memory wild_heap)"
  by (simp add: trainer_now_def isBattleTrainer_def heap.read_block_at heap_memory_ready heap_memory_block Let_def
      wild_heap_def ReadLE16_def upt_rec)

lemma wild_heap_battle: "battle_now (heap_memory wild_heap)"
proof -
  obtain e where e: "EncryptPk6InPlace battle_record 232 False = (True, e)" "length e = 232"
    "DecryptPk6InPlace e 232 False = (True, WriteLE16 battle_record 6 (pk6_checksum battle_record))"
    using decrypt_encrypt [of battle_record 232 False False] by (auto simp: battle_record_def)
  have blk: "heap.block_at (heap_memory wild_heap) WILD_ORAS PKM_BOX_SIZE = e"
    using e by (intro nth_equalityI) (simp_all add: heap_memory_block_nth wild_heap_def)
  have "ReadBlock (heap_memory wild_heap) WILD_ORAS PKM_BOX_SIZE = Some (e, heap_memory wild_heap)"
    using heap.read_block_at [OF heap_memory_ready, of WILD_ORAS PKM_BOX_SIZE wild_heap] blk by simp
  then show ?thesis
    using e by (simp add: battle_now_def isBattle_def battle_tests_def upt_rec read_other nth_WriteLE16_other)
      (simp add: battle_record_def ReadLE16_def nth_list_update)
qed

lemma wild_heap_pocket: "pocket_of (heap_memory wild_heap) = \<lparr>item_id = 1, item_qty = 5\<rparr> # replicate 304 no_item"
proof (rule nth_equalityI)
  fix i assume "i < length (pocket_of (heap_memory wild_heap))"
  then have i: "i < 305" by simp
  define blk where "blk = heap.block_at (heap_memory wild_heap) POCKET_START BLOCK_SIZE"
  have b: "blk ! k = wild_heap (0x8C6AC80 + k)" if "k < 1220" for k
    unfolding blk_def using that by (subst heap_memory_block_nth) simp_all
  have "parse_slot blk i = (if i = 0 then \<lparr>item_id = 1, item_qty = 5\<rparr> else no_item)"
    using i by (auto simp: parse_slot_def b wild_heap_def no_item_def Let_def)
  then show "pocket_of (heap_memory wild_heap) ! i = (\<lparr>item_id = 1, item_qty = 5\<rparr> # replicate 304 no_item) ! i"
    using i by (cases i) (simp_all add: pocket_of_def parse_pocket_def blk_def)
qed simp

lemma zero_record_species: "ReadLE16 (snd (DecryptPk6InPlace (replicate 232 0) 232 False)) 8 = 0"
proof -
  let ?b = "replicate 232 (0 :: u8)"
  have key: "ReadLE32 ?b 0 = 0" by (simp add: ReadLE32_def)
  have sh: "BLOCK_ORDERS ! block_shift 0 = [0, 1, 2, 3]" by (simp add: block_shift_def BLOCK_ORDERS_def)
  define w where "w = lcg_xor_loop 8 232 232 0 ?b"
  have lw: "length w = 232" by (simp add: w_def)
  have w8: "w ! 8 = 0" "w ! 9 = 0"
    unfolding w_def
    by (subst lcg_xor_loop.simps, simp add: LCG_next_u16_def lcg_step_def LCG_C_def Let_def
        nth_lcg_xor_loop_before ReadLE16_def WriteLE16_def)+
  have "found_index [0, 1, 2, 3] j = Some j" if "j < 4" for j
    using that by (simp add: found_index_def upt_rec numeral_eq_Suc less_Suc_eq) auto
  then show ?thesis
    using key sh lw w8
    by (simp add: DecryptPk6InPlace_def Let_def upt_rec ReadLE16_def nth_memcpy flip: w_def)
qed

lemma wild_heap_pc:
  assumes "0 \<le> i" "i < PC_SIZE" "ReadPk6PCSlot (heap_memory wild_heap) i = Some (sp, m)"
  shows "sp = 0"
proof -
  define n where "n = nat i"
  have n: "i = int n" "n < 930" using assms by (simp_all add: n_def)
  have a: "unat (PC_ORAS + of_int (i * int PKM_BOX_SIZE)) = 0x8C9A144 + n * 232"
    using n by (simp add: unat_add_of_nat [of _ "n * 232", simplified])
  have "heap.block_at (heap_memory wild_heap) (PC_ORAS + of_int (i * int PKM_BOX_SIZE)) PKM_BOX_SIZE =
      map wild_heap [0x8C9A144 + n * 232..<0x8C9A144 + n * 232 + 232]"
    using a n by (subst heap_memory_block) simp_all
  also have "\<dots> = replicate 232 0" by (rule nth_equalityI) (simp_all add: wild_heap_def)
  finally have b: "heap.block_at (heap_memory wild_heap) (PC_ORAS + of_int (i * int PKM_BOX_SIZE)) PKM_BOX_SIZE = replicate 232 0" .
  have "ReadBlock (heap_memory wild_heap) (PC_ORAS + of_int (i * int PKM_BOX_SIZE)) PKM_BOX_SIZE =
      Some (replicate 232 0, heap_memory wild_heap)"
    using heap.read_block_at [OF heap_memory_ready, of "PC_ORAS + of_int (i * int PKM_BOX_SIZE)" PKM_BOX_SIZE wild_heap] a n b
    by simp
  then show ?thesis
    using assms(3) zero_record_species
    by (auto simp: ReadPk6PCSlot_def split: prod.splits bool.splits)
qed

lemma legendary_state_fields:
  "mem legendary_state = heap_memory wild_heap" "fs legendary_state = empty_routes_fs"
  "g_wildData legendary_state = blank_pk6\<lparr>species := 150\<rparr> # replicate 4 blank_pk6"
  "g_RemovedPokeBalls legendary_state = replicate REMOVED_COUNT no_item" "g_caught legendary_state = []"
  "g_visitedRoutes legendary_state = []"
  by (simp_all add: legendary_state_def fresh_state_def)

lemma legendary_state_ok: "nuz_ok legendary_state"
  using fresh_state_ok [OF heap_memory_ready, of wild_heap empty_routes_fs "()"]
  by (simp add: legendary_state_def nuz_ok_def)

lemma legendary_owned: "owned legendary_state = {}"
  using wild_heap_pc by (auto simp: owned_def legendary_state_def fresh_state_def blank_pk6_def)

lemma legendary_state_ready: "capture_ready [] legendary_state" "denied_now [] legendary_state"
  "species_in_tables legendary_state" "capture_denied {} legendary_state" "\<not> uses_route {} legendary_state"
proof -
  have sp: "\<forall>w \<in> set (g_wildData legendary_state). known_species (uint (species w))"
    by (simp add: legendary_state_fields blank_pk6_def)
  show "capture_ready [] legendary_state"
    using legendary_state_ok empty_routes sp by (simp add: capture_ready_def legendary_owned legendary_state_fields)
  show "species_in_tables legendary_state" using sp by (simp add: species_in_tables_def legendary_state_fields)
  have "(150 :: u16) \<in> set legendarySpecies" by (simp add: legendarySpecies_def)
  then have "legendary_wild legendary_state" by (simp add: legendary_wild_def legendary_state_fields)
  moreover have "rules_apply legendary_state" "\<not> shiny_wild legendary_state"
    using empty_routes(3) wild_heap_trainer
    by (auto simp: rules_apply_def shiny_wild_def legendary_state_fields blank_pk6_def)
  ultimately show "denied_now [] legendary_state" "capture_denied {} legendary_state" "\<not> uses_route {} legendary_state"
    by (simp_all add: denied_now_def capture_denied_def uses_route_def)
qed

section \<open>Properties\<close>

text \<open>
  The route file: what \<open>saveVisitedRoutes\<close> writes, \<open>loadVisitedRoutes\<close> reads back as the same set, in a
  later session too.
\<close>

theorem visited_routes_round_trip:
  assumes "nuz_ok s" "writable (fs s) VISROU_BIN" "fs s' = fs (saveVisitedRoutes s)"
  shows "loadVisitedRoutes s' = Some (s'\<lparr>g_visitedRoutes := g_visitedRoutes s\<rparr>)"
  using save_route_file [OF assms(1,2)] assms(3) by (intro load_route_file) simp

theorem visited_routes_round_trip_witness:
  "map_option g_visitedRoutes
     (loadVisitedRoutes (saveVisitedRoutes (legendary_state\<lparr>g_visitedRoutes := [3, 7]\<rparr>))) = Some [3, 7]"
proof -
  have "nuz_ok (legendary_state\<lparr>g_visitedRoutes := [3, 7]\<rparr>)" using legendary_state_ok by (simp add: nuz_ok_def)
  moreover have "writable (fs legendary_state) VISROU_BIN" by (simp add: legendary_state_fields empty_routes)
  ultimately show ?thesis
    using visited_routes_round_trip [of "legendary_state\<lparr>g_visitedRoutes := [3, 7]\<rparr>"
        "saveVisitedRoutes (legendary_state\<lparr>g_visitedRoutes := [3, 7]\<rparr>)"]
    by simp
qed

text \<open>
  C3: \<open>ShouldRemove\<close> always answers, and answers by the rule of the challenge: outside Delta Episode and
  trainer battles, and unless a wild Pokemon is shiny, the balls go exactly when a wild Pokemon is
  legendary, belongs to an evolution line already owned, or the map was used before. The route file
  afterwards holds the map exactly when this encounter used it up, and no other file changes.
\<close>

theorem ShouldRemove_decides:
  assumes "heap_ready (mem s)" "writable (fs s) VISROU_BIN" "route_file (fs s) rs" "species_in_tables s"
  shows "\<exists>s1. ShouldRemove s = Some (capture_denied (set rs) s, s1) \<and> same_but_routes s s1 \<and>
    route_file (fs s1) (if uses_route (set rs) s then insort_insert (map_now (mem s)) rs else rs)"
  by (rule ShouldRemove_rule [OF assms])

theorem ShouldRemove_decides_witness:
  "\<exists>s1. ShouldRemove legendary_state = Some (True, s1) \<and> route_file (fs s1) []"
  using ShouldRemove_decides [of legendary_state "[]"] legendary_state_ready(3-5) heap_memory_ready empty_routes
  by (auto simp: legendary_state_fields)

text \<open>
  C4: One capture per map: once an encounter has used a map up, however many encounters follow, the next
  one on that map that is neither shiny nor excluded from the rules is denied.
\<close>

theorem one_capture_per_map:
  assumes "\<forall>d \<in> set (e # es @ [e']). encounter_ok d" "writable (fs s) VISROU_BIN" "route_file (fs s) rs"
    and "uses_route (set rs) (meet e s)"
    and "map_now (fst e') = map_now (fst e)" "rules_apply (meet e' s)" "\<not> shiny_wild (meet e' s)"
  shows "\<exists>ds s1. run_encounters (e # es @ [e']) s = Some (ds @ [True], s1)"
  by (rule later_encounter_denied [OF assms])

theorem one_capture_per_map_witness:
  "\<exists>ds s1. run_encounters
     [(heap_memory wild_heap, [blank_pk6], []), (heap_memory wild_heap, [blank_pk6], []), (heap_memory wild_heap, [blank_pk6], [])]
     (legendary_state\<lparr>fs := empty_routes_fs\<lparr>files := (files empty_routes_fs)(HASPKB_BIN \<mapsto> [])\<rparr>\<rparr>) = Some (ds @ [True], s1)"
proof -
  let ?f = "empty_routes_fs\<lparr>files := (files empty_routes_fs)(HASPKB_BIN \<mapsto> [])\<rparr>"
  let ?s = "legendary_state\<lparr>fs := ?f\<rparr>" and ?e = "(heap_memory wild_heap, [blank_pk6], []) :: encounter"
  have ok: "encounter_ok ?e" by (simp add: encounter_ok_def heap_memory_ready blank_pk6_def)
  have r: "rules_apply (meet ?e ?s)" "\<not> shiny_wild (meet ?e ?s)" "route_file ?f []" "writable ?f VISROU_BIN"
    using wild_heap_trainer empty_routes
    by (simp_all add: rules_apply_def fs_exists_def shiny_wild_def blank_pk6_def route_file_def)
  have "uses_route (set []) (meet ?e ?s)"
    using r wild_heap_battle
    by (simp add: uses_route_def capture_denied_def legendary_wild_def duplicate_wild_def blank_pk6_def
        legendarySpecies_def fs_exists_def)
  then show ?thesis
    using one_capture_per_map [of ?e "[?e]" ?e ?s "[]"] ok r by simp
qed

text \<open>
  C6: \<open>RemovePokeballs\<close> always returns. When the encounter is denied, no Poke Ball is left in the pocket in
  guest memory, every other item is still there in the same order, and all memory outside the pocket
  is unchanged; otherwise memory is untouched. No visited route is forgotten.
\<close>

theorem RemovePokeballs_takes_all:
  assumes "capture_ready rs s"
  shows "\<exists>s1. RemovePokeballs s = Some (denied_now rs s, s1) \<and>
    (if denied_now rs s then
       (\<forall>e \<in> set (pocket_of (mem s1)). \<not> is_ball e) \<and>
       filter occupied (pocket_of (mem s1)) = filter (\<lambda>e. occupied e \<and> \<not> is_ball e) (pocket_of (mem s))
     else mem s1 = mem s) \<and>
    (\<forall>a k. in_heap a k \<longrightarrow> unat a + k \<le> 0x8C6AC80 \<or> 0x8C6B144 \<le> unat a \<longrightarrow> same_block (mem s) (mem s1) a k) \<and>
    (\<exists>rs'. route_file (fs s1) rs' \<and> set rs \<subseteq> set rs')"
proof -
  obtain s1 where s1: "RemovePokeballs s = Some (denied_now rs s, s1)" "heap_ready (mem s1)"
    "\<not> denied_now rs s \<Longrightarrow> mem s1 = mem s \<and> g_RemovedPokeBalls s1 = g_RemovedPokeBalls s"
    "denied_now rs s \<Longrightarrow>
       pocket_of (mem s1) = RemoveEmptySlots (map keep_item (pocket_of (mem s))) SLOT_COUNT \<and>
       g_RemovedPokeBalls s1 = foldl take_ball (g_RemovedPokeBalls s) (pocket_of (mem s))"
    "\<And>a k. in_heap a k \<Longrightarrow> unat a + k \<le> 0x8C6AC80 \<or> 0x8C6B144 \<le> unat a \<Longrightarrow> same_block (mem s) (mem s1) a k"
    "\<exists>rs'. route_file (fs s1) rs' \<and> set rs \<subseteq> set rs'"
    by (rule RemovePokeballs_effect [OF assms]) (rule that)
  have kept: "filter occupied (RemoveEmptySlots (map keep_item (pocket_of (mem s))) SLOT_COUNT) =
      filter (\<lambda>e. occupied e \<and> \<not> is_ball e) (pocket_of (mem s))"
    by (rule filter_kept_pocket) simp
  then have "\<not> is_ball e" if "e \<in> set (RemoveEmptySlots (map keep_item (pocket_of (mem s))) SLOT_COUNT)" for e
    using that ball_occupied [of e] by (auto dest!: arg_cong [where f = set])
  with s1 kept show ?thesis by (intro exI [of _ s1]) auto
qed

theorem RemovePokeballs_takes_all_witness:
  "\<exists>s1. RemovePokeballs legendary_state = Some (True, s1) \<and> (\<forall>e \<in> set (pocket_of (mem s1)). \<not> is_ball e)"
  using RemovePokeballs_takes_all [OF legendary_state_ready(1)] legendary_state_ready(2) by auto

text \<open>
  C5: Taking the balls and giving them back loses and invents nothing: if the pocket has not changed in
  between, \<open>RestorePokeballs\<close> leaves in guest memory the same items with the same quantities as before
  \<open>RemovePokeballs\<close>. The hypothesis on \<open>ball_place\<close> excludes a pocket with both identifier 16 and
  identifier 576, which share a place.
\<close>

theorem battle_conserves_items:
  assumes "capture_ready rs s" "denied_now rs s" "RemovePokeballs s = Some (b, s1)"
    and "g_RemovedPokeBalls s = replicate REMOVED_COUNT no_item"
    and "distinct (map ball_place (filter is_ball (pocket_of (mem s))))"
    and "\<forall>e \<in> set (pocket_of (mem s)). is_ball e \<longrightarrow> item_qty e \<noteq> 0"
    and "heap_ready (mem s2)" "pocket_of (mem s2) = pocket_of (mem s1)" "g_RemovedPokeBalls s2 = g_RemovedPokeBalls s1"
  shows "\<exists>s3. RestorePokeballs s2 = Some (True, s3) \<and>
    filter_mset occupied (mset (pocket_of (mem s3))) = filter_mset occupied (mset (pocket_of (mem s))) \<and>
    g_RemovedPokeBalls s3 = replicate REMOVED_COUNT no_item"
proof -
  obtain t where t: "RemovePokeballs s = Some (denied_now rs s, t)"
    "denied_now rs s \<Longrightarrow>
       pocket_of (mem t) = RemoveEmptySlots (map keep_item (pocket_of (mem s))) SLOT_COUNT \<and>
       g_RemovedPokeBalls t = foldl take_ball (g_RemovedPokeBalls s) (pocket_of (mem s))"
    by (rule RemovePokeballs_effect [OF assms(1)]) (rule that)
  have s1: "pocket_of (mem s1) = RemoveEmptySlots (map keep_item (pocket_of (mem s))) SLOT_COUNT"
    "g_RemovedPokeBalls s1 = foldl take_ball (replicate REMOVED_COUNT no_item) (pocket_of (mem s))"
    using t assms(2,3,4) by simp_all
  have len: "length (g_RemovedPokeBalls s2) = REMOVED_COUNT" using assms(9) s1(2) by simp
  obtain m3 where m3: "RestorePokeballs s2 = Some (True, clear_pockets (s2\<lparr>mem := m3\<rparr>))"
    "pocket_of m3 = restore_balls (g_RemovedPokeBalls s2) (pocket_of (mem s2))"
    by (rule RestorePokeballs_effect [OF assms(7) len]) (rule that)
  have "filter_mset occupied (mset (pocket_of m3)) = filter_mset occupied (mset (pocket_of (mem s)))"
    using balls_conserved [OF length_pockets(1) assms(5,6)] m3(2) assms(8,9) s1 by (simp add: split_balls_def)
  then show ?thesis using m3(1) by (simp add: clear_pockets_def)
qed

theorem battle_conserves_items_witness:
  "\<exists>s1 s3. RemovePokeballs legendary_state = Some (True, s1) \<and> RestorePokeballs s1 = Some (True, s3) \<and>
    filter_mset occupied (mset (pocket_of (mem s3))) = {#\<lparr>item_id = 1, item_qty = 5\<rparr>#}"
proof -
  obtain s1 where s1: "RemovePokeballs legendary_state = Some (True, s1)" "heap_ready (mem s1)"
    by (rule RemovePokeballs_effect [OF legendary_state_ready(1)]) (use legendary_state_ready(2) in auto)
  have p: "pocket_of (mem legendary_state) = \<lparr>item_id = 1, item_qty = 5\<rparr> # replicate 304 no_item"
    by (simp add: legendary_state_fields wild_heap_pocket)
  show ?thesis
    using battle_conserves_items [OF legendary_state_ready(1,2) s1(1) legendary_state_fields(4) _ _ s1(2)] s1(1)
    by (auto simp: p is_ball_def no_item_def)
qed

end
