(* ===== verification/Nuzlocke.thy ===== *)
theory Nuzlocke
  imports Capture_Facts
begin

text \<open>
  The rest of \<open>core/poke_export.cpp\<close>: detecting deaths during a battle, the transition into and out
  of a battle, the conversion of the dead with its score, the level cap, and the timer in
  \<open>core/memory.cpp\<close> that drives it all. \<open>J\<close> is the JSON library. \<open>None\<close> is an abort of the memory
  system or an exception nobody catches.
\<close>

unbundle bit_operations_syntax

section \<open>Constants\<close>

definition PUNTOS_POR_MUERTE :: int where "PUNTOS_POR_MUERTE = 50"
definition PUNTOS_POR_WIPE :: int where "PUNTOS_POR_WIPE = 100"
definition LEVEL_CAPS :: "int list" where
  "LEVEL_CAPS = [15, 18, 23, 31, 33, 39, 50, 51, 65, 87, 100]"

definition POKEMON_GROWTHS :: path where "POKEMON_GROWTHS = ''user/rtp/GrowthRates/pokemon/''"
definition LEVEL_CURVES :: path where "LEVEL_CURVES = ''user/rtp/GrowthRates/curves/''"

section \<open>Growth curves\<close>

fun dec_digits :: "nat \<Rightarrow> string" where
  "dec_digits n = (if n < 10 then [char_of (48 + n)] else dec_digits (n div 10) @ [char_of (48 + n mod 10)])"

declare dec_digits.simps [simp del]

definition to_string :: "int \<Rightarrow> string" where
  "to_string i = (if i < 0 then CHR ''-'' # dec_digits (nat (- i)) else dec_digits (nat i))"

definition readJson :: "'j json_ops \<Rightarrow> file_system \<Rightarrow> path \<Rightarrow> 'j option" where
  "readJson J f filepath =
     (case files f filepath of None \<Rightarrow> None | Some data \<Rightarrow> json_stream J data)"

fun find_level :: "'j json_ops \<Rightarrow> int \<Rightarrow> 'j list \<Rightarrow> int option" where
  "find_level J level [] = None"
| "find_level J level (lvl # levels) =
     do {
       hit \<leftarrow> json_field_is J lvl ''level'' level;
       if hit then json_get_int J lvl ''experience'' else find_level J level levels
     }"

definition getExperienceForLevel ::
    "'j json_ops \<Rightarrow> file_system \<Rightarrow> path \<Rightarrow> path \<Rightarrow> int \<Rightarrow> int \<Rightarrow> int option" where
  "getExperienceForLevel J f pokemonPath curvesPath pokemon level =
     do {
       pokemonData \<leftarrow> readJson J f (pokemonPath @ to_string pokemon @ ''.json'');
       growthRateId \<leftarrow> json_get_int J pokemonData ''growth_rate_id'';
       curveData \<leftarrow> readJson J f (curvesPath @ to_string growthRateId @ ''.json'');
       levels \<leftarrow> json_items J curveData ''levels'';
       find_level J level levels
     }"

definition getCurrentLevelCap :: "'j json_ops \<Rightarrow> 'j nuz_state \<Rightarrow> (int \<times> 'j nuz_state) option" where
  "getCurrentLevelCap J s =
     do {
       p \<leftarrow> getPointsFile J (fs s);
       let s = s\<lparr>pointsFile := p\<rparr>;
       medallas \<leftarrow> json_get_ints J p ''medallas'';
       let countMedallas = length (filter (\<lambda>m. m \<noteq> 0) medallas);
       if countMedallas < length LEVEL_CAPS then Some (LEVEL_CAPS ! countMedallas, s) else None
     }"

section \<open>The level cap\<close>

text \<open>
  The write of one slot: the whole stride of 484 bytes is read, the first 260 are decrypted, given the
  new experience and checksum, encrypted and written back. The flag is the early \<open>return\<close>.
\<close>

definition cap_slot :: "int \<Rightarrow> int \<Rightarrow> MemorySystem \<Rightarrow> (bool \<times> MemorySystem) option" where
  "cap_slot party_slot experienceMax m =
     do {
       let slot_addr = slot_address PARTY_ORAS party_slot;
       (slot_data, m) \<leftarrow> ReadBlock m slot_addr (nat POKEMON_SLOT_STRIDE);
       let pk6_data = take PKM_PARTY_SIZE slot_data;
       (case DecryptPk6InPlace pk6_data (length pk6_data) True of
          (False, _) \<Rightarrow> Some (True, m)
        | (True, pk6_data) \<Rightarrow>
            (let pk6_data = WriteLE32 pk6_data 0x10 (of_int experienceMax);
                 pk6_data = WriteLE16 pk6_data 0x06 (pk6_checksum pk6_data)
             in case EncryptPk6InPlace pk6_data (length pk6_data) True of
                  (False, _) \<Rightarrow> Some (False, m)
                | (True, pk6_data) \<Rightarrow>
                    do {
                      let slot_data = memcpy slot_data 0 pk6_data 0 (length pk6_data);
                      m \<leftarrow> WriteBlock m slot_addr slot_data;
                      Some (False, m)
                    }))
     }"

text \<open>\<open>uint32_t > int\<close> compares as unsigned.\<close>

fun cap_slots :: "'j json_ops \<Rightarrow> int \<Rightarrow> nat list \<Rightarrow> 'j nuz_state \<Rightarrow> 'j nuz_state option" where
  "cap_slots J cap [] s = Some s"
| "cap_slots J cap (slot # slots) s =
     (let p = g_partyData s ! slot
      in if species p = 0 \<or> species p > 721 then Some s
         else do {
           experienceMax \<leftarrow> getExperienceForLevel J (fs s) POKEMON_GROWTHS LEVEL_CURVES (uint (species p)) cap;
           experienceMaxPlus \<leftarrow>
             getExperienceForLevel J (fs s) POKEMON_GROWTHS LEVEL_CURVES (uint (species p)) (cap + 1);
           if experience p > of_int experienceMax then do {
             s \<leftarrow> (if experience p \<ge> of_int experienceMaxPlus then RemoveCandies s else Some s);
             (stop, m) \<leftarrow> cap_slot (int slot) experienceMax (mem s);
             let s = s\<lparr>mem := m\<rparr>;
             if stop then Some s else cap_slots J cap slots s
           }
           else cap_slots J cap slots s
         })"

definition LevelCapAdjustment :: "'j json_ops \<Rightarrow> 'j nuz_state \<Rightarrow> 'j nuz_state option" where
  "LevelCapAdjustment J s =
     do {
       (battle, m) \<leftarrow> isBattle (mem s);
       let s = s\<lparr>mem := m\<rparr>;
       if battle then Some s
       else do {
         (currentLevelCap, s) \<leftarrow> getCurrentLevelCap J s;
         if currentLevelCap = 100 then Some s else cap_slots J currentLevelCap [0..<nat PARTY_SIZE] s
       }
     }"

section \<open>The dead\<close>

definition score :: "'j json_ops \<Rightarrow> ('j \<times> file_system) option \<Rightarrow> 'j nuz_state \<Rightarrow> 'j nuz_state option" where
  "score J r s = do { (j, f) \<leftarrow> r; Some (s\<lparr>pointsFile := j, fs := f\<rparr>) }"

text \<open>The body of the inner loop of \<open>DeleteFaintedPokemon\<close> on the matching slot.\<close>

definition convert_slot ::
    "'j json_ops \<Rightarrow> path \<Rightarrow> int \<Rightarrow> int \<times> 'j nuz_state \<Rightarrow> (int \<times> 'j nuz_state) option" where
  "convert_slot J base_path party_slot cs =
     (let (converted_count, s) = cs; slot_addr = slot_address PARTY_ORAS party_slot
      in do {
        (pkm_data, m) \<leftarrow> ReadBlock (mem s) slot_addr PKM_PARTY_SIZE;
        let s = s\<lparr>mem := m\<rparr>;
        (case ConvertToDeadShedinjaInPlace (fs s) pkm_data (length pkm_data) True base_path of
           (False, _) \<Rightarrow> Some (converted_count, s)
         | (True, pkm_data) \<Rightarrow>
             do {
               (ok, m) \<leftarrow> WriteBlockStrideWithVerify (mem s) slot_addr pkm_data;
               let s = s\<lparr>mem := m\<rparr>;
               s \<leftarrow> score J (addPoints J ((- 1) * PUNTOS_POR_MUERTE) (fs s)) s;
               s \<leftarrow> (if ok then score J (addMuerte J (fs s)) s else Some s);
               Some (converted_count + 1, s)
             })
      })"

fun convert_first_match ::
    "'j json_ops \<Rightarrow> path \<Rightarrow> nat \<Rightarrow> nat list \<Rightarrow> int \<times> 'j nuz_state \<Rightarrow> (int \<times> 'j nuz_state) option" where
  "convert_first_match J base_path battle_slot [] cs = Some cs"
| "convert_first_match J base_path battle_slot (party_slot # slots) cs =
     (if MatchBattleSlotToPk6 (g_battleData (snd cs) ! battle_slot) (g_partyData (snd cs) ! party_slot)
      then convert_slot J base_path (int party_slot) cs
      else convert_first_match J base_path battle_slot slots cs)"

fun convert_pending ::
    "'j json_ops \<Rightarrow> path \<Rightarrow> nat list \<Rightarrow> int \<times> 'j nuz_state \<Rightarrow> (int \<times> 'j nuz_state) option" where
  "convert_pending J base_path [] cs = Some cs"
| "convert_pending J base_path (battle_slot # slots) cs =
     (if \<not> g_pending_delete (snd cs) ! battle_slot then convert_pending J base_path slots cs
      else do {
        cs \<leftarrow> convert_first_match J base_path battle_slot [0..<nat (pokemonCarried (snd cs))] cs;
        convert_pending J base_path slots cs
      })"

definition DeleteFaintedPokemon :: "'j json_ops \<Rightarrow> path \<Rightarrow> 'j nuz_state \<Rightarrow> 'j nuz_state option" where
  "DeleteFaintedPokemon J base_path s =
     do {
       (converted_count, s) \<leftarrow> convert_pending J base_path [0..<nat (pokemonCarried s)] (0, s);
       s \<leftarrow> (if converted_count \<ge> pokemonCarried s
             then score J (addPoints J ((- 1) * PUNTOS_POR_WIPE) (fs s)) s else Some s);
       Some (s\<lparr>g_pending_delete := replicate 6 False\<rparr>)
     }"

section \<open>Battle transitions\<close>

fun read_party :: "nat list \<Rightarrow> 'j nuz_state \<Rightarrow> 'j nuz_state option" where
  "read_party [] s = Some s"
| "read_party (slot # slots) s =
     do {
       (_, p, m) \<leftarrow> ReadPk6Slot (mem s) (int slot) (g_partyData s ! slot) False;
       read_party slots (s\<lparr>mem := m, g_partyData := (g_partyData s)[slot := p]\<rparr>)
     }"

fun read_wild :: "nat list \<Rightarrow> 'j nuz_state \<Rightarrow> 'j nuz_state option" where
  "read_wild [] s = Some s"
| "read_wild (slot # slots) s =
     do {
       (_, p, m) \<leftarrow> ReadPk6Slot (mem s) (int slot) (g_wildData s ! slot) True;
       read_wild slots (s\<lparr>mem := m, g_wildData := (g_wildData s)[slot := p]\<rparr>)
     }"

definition ExportWild :: "'j nuz_state \<Rightarrow> 'j nuz_state option" where
  "ExportWild s = read_wild [0..<nat MAX_WILDS] s"

definition OnBattleEnded :: "'j json_ops \<Rightarrow> path \<Rightarrow> 'j nuz_state \<Rightarrow> 'j nuz_state option" where
  "OnBattleEnded J base_path s =
     do {
       (_, s) \<leftarrow> RestorePokeballs s;
       s \<leftarrow> read_party [0..<nat PARTY_SIZE] s;
       DeleteFaintedPokemon J base_path s
     }"

definition OnBattleStarted :: "'j nuz_state \<Rightarrow> 'j nuz_state option" where
  "OnBattleStarted s =
     do {
       s \<leftarrow> ExportWild s;
       (_, s) \<leftarrow> RemovePokeballs s;
       Some s
     }"

definition CheckBattleTransition :: "'j json_ops \<Rightarrow> path \<Rightarrow> 'j nuz_state \<Rightarrow> 'j nuz_state option" where
  "CheckBattleTransition J base_path s =
     do {
       (isBattleNow, m) \<leftarrow> isBattle (mem s);
       let s = s\<lparr>mem := m\<rparr>;
       s \<leftarrow> (if \<not> g_wasInBattle s \<and> isBattleNow then OnBattleStarted s else Some s);
       s \<leftarrow> (if g_wasInBattle s \<and> \<not> isBattleNow then OnBattleEnded J base_path s else Some s);
       Some (s\<lparr>g_wasInBattle := isBattleNow\<rparr>)
     }"

section \<open>The periodic work\<close>

fun export_slots :: "nat list \<Rightarrow> int \<times> 'j nuz_state \<Rightarrow> (int \<times> 'j nuz_state) option" where
  "export_slots [] cs = Some cs"
| "export_slots (slot # slots) (carried, s) =
     do {
       (_, p, m) \<leftarrow> ReadPk6Slot (mem s) (int slot) (g_partyData s ! slot) False;
       let s = s\<lparr>mem := m, g_partyData := (g_partyData s)[slot := p]\<rparr>;
       let carried = (if pid p \<noteq> 0 then carried + 1 else carried);
       (battle, m) \<leftarrow> isBattle (mem s);
       let s = s\<lparr>mem := m\<rparr>;
       if battle then do {
         (b, m) \<leftarrow> ReadBattleSlot (pokemonCarried s) (mem s) (int slot);
         export_slots slots (carried, s\<lparr>mem := m, g_battleData := (g_battleData s)[slot := b]\<rparr>)
       }
       else export_slots slots (carried, s)
     }"

definition ExportParty :: "'j json_ops \<Rightarrow> path \<Rightarrow> 'j nuz_state \<Rightarrow> (bool \<times> 'j nuz_state) option" where
  "ExportParty J out_dir s =
     do {
       (pokemonCarriedTmp, s) \<leftarrow> export_slots [0..<nat PARTY_SIZE] (0, s);
       let s = s\<lparr>pokemonCarried := pokemonCarriedTmp\<rparr>;
       s \<leftarrow> LevelCapAdjustment J s;
       s \<leftarrow> CheckBattleTransition J out_dir s;
       Some (True, s)
     }"

fun check_dead_slots :: "nat list \<Rightarrow> 'j nuz_state \<Rightarrow> 'j nuz_state option" where
  "check_dead_slots [] s = Some s"
| "check_dead_slots (slot # slots) s =
     do {
       (currenthp, m) \<leftarrow> ReadBattleHPFromSlot (mem s) (int slot);
       let s = s\<lparr>mem := m\<rparr>;
       let p = g_partyData s ! slot;
       check_dead_slots slots
         (if currenthp = 0 \<and> pid p \<noteq> 0 \<and> species p \<le> 721 \<and> fs_exists (fs s) HASPKB_BIN
          then s\<lparr>g_pending_delete := (g_pending_delete s)[slot := True]\<rparr> else s)
     }"

definition CheckDeadPokemon :: "'j nuz_state \<Rightarrow> 'j nuz_state option" where
  "CheckDeadPokemon s =
     do {
       (battle, m) \<leftarrow> isBattle (mem s);
       let s = s\<lparr>mem := m\<rparr>;
       if battle then check_dead_slots [0..<nat PARTY_SIZE] s else Some s
     }"

text \<open>\<open>MaybeExportParty\<close> of \<open>core/memory.cpp\<close>; \<open>now\<close> is the steady clock in milliseconds.\<close>

definition MaybeExportParty :: "'j json_ops \<Rightarrow> int \<Rightarrow> 'j nuz_state \<Rightarrow> 'j nuz_state option" where
  "MaybeExportParty J now s =
     (if now - last_export2 s \<ge> 100 then do {
        s \<leftarrow> CheckDeadPokemon (s\<lparr>last_export2 := now\<rparr>);
        if now - last_export s \<ge> 2000 then do {
          (_, s) \<leftarrow> ExportParty J P_DIR (s\<lparr>last_export := now\<rparr>);
          Some s
        }
        else Some s
      }
      else Some s)"

text \<open>\<open>MemorySystem::SetCurrentPageTable\<close>: the call that drives the nuzlocke code.\<close>

definition SetCurrentPageTable :: "'j json_ops \<Rightarrow> int \<Rightarrow> nat \<Rightarrow> 'j nuz_state \<Rightarrow> 'j nuz_state option" where
  "SetCurrentPageTable J now page_table s =
     MaybeExportParty J now (s\<lparr>mem := (mem s)\<lparr>current_page_table := page_table\<rparr>\<rparr>)"

end
