(* ===== verification/Nuzlocke_Facts.thy ===== *)
theory Nuzlocke_Facts
  imports Nuzlocke
begin

text \<open>
  What the game loop guarantees in a mapped heap: a fainted party member is replaced by a dead
  Shedinja and paid for in points, the level cap changes the experience and nothing else, every
  operation returns and keeps the global state well formed.
\<close>

unbundle bit_operations_syntax

section \<open>Slots\<close>

definition slot_block :: "MemorySystem \<Rightarrow> u32 \<Rightarrow> int \<Rightarrow> bytes" where
  "slot_block m base slot = heap.block_at m (slot_address base slot) PKM_PARTY_SIZE"

lemma length_slot_block [simp]: "length (slot_block m base slot) = 260"
  by (simp add: slot_block_def)

text \<open>The decrypted record of a slot.\<close>

definition slot_clear :: "MemorySystem \<Rightarrow> u32 \<Rightarrow> int \<Rightarrow> bytes" where
  "slot_clear m base slot = snd (DecryptPk6InPlace (slot_block m base slot) 260 True)"

lemma slot_clear: "DecryptPk6InPlace (slot_block m base slot) 260 True = (True, slot_clear m base slot)"
  "length (slot_clear m base slot) = 260"
  using Decrypt_main [of "slot_block m base slot" 260 True] by (auto simp: slot_clear_def)

abbreviation slot_base :: "bool \<Rightarrow> u32" where
  "slot_base isWild \<equiv> (if isWild then WILD_ORAS else PARTY_ORAS)"

definition trainer_ids :: "MemorySystem \<Rightarrow> bool \<Rightarrow> bytes \<Rightarrow> u16 \<times> u16" where
  "trainer_ids m isWild d =
     (if isWild then (ReadLE16 (heap.block_at m TID_ORAS 2) 0, ReadLE16 (heap.block_at m SID_ORAS 2) 0)
      else (ReadLE16 d 0x0C, ReadLE16 d 0x0E))"

definition slot_record :: "MemorySystem \<Rightarrow> bool \<Rightarrow> int \<Rightarrow> Pk6FullData \<Rightarrow> Pk6FullData" where
  "slot_record m isWild slot out =
     (let d = slot_clear m (slot_base isWild) slot; p = pk6_fields d out; (tid, sid) = trainer_ids m isWild d
      in p\<lparr>isShiny := ReadLE16 d 8 \<noteq> 0 \<and> shiny_value tid sid (pid p)\<rparr>)"

lemma slot_in_heap:
  assumes "0 \<le> slot" "slot < 6"
  shows "in_heap (slot_address (slot_base isWild) slot) 484"
proof -
  have "nat slot < 6" using assms by simp
  then show ?thesis using party_slot_in_heap [OF assms] by simp
qed

lemma read_slot_block:
  "heap_ready m \<Longrightarrow> 0 \<le> slot \<Longrightarrow> slot < 6 \<Longrightarrow>
   ReadBlock m (slot_address (slot_base isWild) slot) PKM_PARTY_SIZE = Some (slot_block m (slot_base isWild) slot, m)"
  using slot_in_heap [of slot isWild] unfolding slot_block_def by (intro heap.read_block_at) simp_all

lemma ReadPk6Slot_ready:
  assumes "heap_ready m" "0 \<le> slot" "slot < 6"
  shows "ReadPk6Slot m slot out isWild = Some (True, slot_record m isWild slot out, m)"
proof -
  have tid: "ReadBlock m TID_ORAS 2 = Some (heap.block_at m TID_ORAS 2, m)"
    "ReadBlock m SID_ORAS 2 = Some (heap.block_at m SID_ORAS 2, m)"
    using assms(1) by (intro heap.read_block_at; simp)+
  have pidp: "pid (pk6_fields d out) = ReadLE32 d 0x18" for d by (simp add: pk6_fields_def)
  show ?thesis
    using assms read_slot_block [OF assms, of isWild] slot_clear [of m "slot_base isWild" slot] tid
    by (simp add: ReadPk6Slot_def Let_def slot_record_def trainer_ids_def del: oras_constants(1-3,5,6))
qed

lemma isBattleTrainer_now: "heap_ready m \<Longrightarrow> isBattleTrainer m = Some (trainer_now m, m)"
  by (rule encounter_reads)

section \<open>A dead slot\<close>

text \<open>
  What \<open>ReadPk6Slot\<close> and the game see in a slot after the conversion: a record with a valid checksum
  that decrypts to a Shedinja with personality 1, no experience, no moves.
\<close>

definition slot_dead :: "MemorySystem \<Rightarrow> int \<Rightarrow> bool" where
  "slot_dead m slot \<longleftrightarrow>
     (let d = slot_clear m PARTY_ORAS slot; p = slot_record m False slot blank_pk6
      in valid_checksum d \<and> species p = 292 \<and> pid p = 1 \<and> ability p = 54 \<and> experience p = 0 \<and>
         moves p = [0, 0, 0, 0] \<and> currentPP p = [0, 0, 0, 0] \<and>
         (\<exists>e. DecryptBattleStats d 260 True = (True, e) \<and> e ! 0xEC = 1 \<and> ReadLE16 e OFF_CURRENT_HP = 0))"

lemma converted_block_dead:
  assumes b: "ConvertToDeadShedinjaInPlaceManual b 260 True = (True, c)" "length b = 260"
    and m: "slot_block m PARTY_ORAS slot = c"
  shows "slot_dead m slot"
proof -
  from manual_conversion [OF b(2)] b(1) obtain d e where c: "DecryptPk6InPlace c 260 True = (True, d)"
    "DecryptBattleStats d 260 True = (True, e)" "length e = 260" "\<forall>k < 232. d ! k = e ! k"
    "valid_checksum e" "dead_record e"
    by auto
  have d: "slot_clear m PARTY_ORAS slot = d" using m c(1) by (simp add: slot_clear_def)
  have ld: "length d = 260" using d slot_clear(2) by metis
  have eq16: "off + 1 < 232 \<Longrightarrow> ReadLE16 d off = ReadLE16 e off" and eq32: "off + 3 < 232 \<Longrightarrow> ReadLE32 d off = ReadLE32 e off" for off
    using c(4) by (intro ReadLE16_cong ReadLE32_cong; simp)+
  have "pk6_checksum d = pk6_checksum e"
    unfolding pk6_checksum_def by (rule foldl_cong) (auto simp: eq16)
  then have "valid_checksum d" using c(5) eq16 [of 6] by (simp add: valid_checksum_def)
  moreover have "d ! k = e ! k" if "k < 232" for k using c(4) that by simp
  ultimately show ?thesis
    using c(2,6) eq16 eq32
    by (simp add: slot_dead_def d [simplified] slot_record_def pk6_fields_def dead_record_def split: prod.split)
qed

section \<open>Conversion of one slot\<close>

definition puntos :: "'j json_ops \<Rightarrow> 'j nuz_state \<Rightarrow> int" where
  "puntos J s = the (counter_of J (fs s) ''puntos'')"

definition muertes :: "'j json_ops \<Rightarrow> 'j nuz_state \<Rightarrow> int" where
  "muertes J s = the (counter_of J (fs s) ''muertes'')"

text \<open>Only the memory, the score and the score file differ.\<close>

definition scored_from :: "'j json_ops \<Rightarrow> 'j nuz_state \<Rightarrow> 'j nuz_state \<Rightarrow> bool" where
  "scored_from J s s' \<longleftrightarrow> (\<exists>m f j. s' = s\<lparr>mem := m, fs := f, pointsFile := j\<rparr>) \<and>
     writable (fs s') = writable (fs s) \<and> (\<forall>p. p \<noteq> PTS_JSON \<longrightarrow> files (fs s') p = files (fs s) p) \<and>
     score_ok J (fs s')"

lemma scored_from_fields:
  assumes "scored_from J s s'"
  shows "g_partyData s' = g_partyData s" "g_battleData s' = g_battleData s" "g_wildData s' = g_wildData s"
    "pokemonCarried s' = pokemonCarried s" "g_wasInBattle s' = g_wasInBattle s"
    "g_pending_delete s' = g_pending_delete s" "g_visitedRoutes s' = g_visitedRoutes s"
    "g_MainPocket s' = g_MainPocket s" "g_RemovedPokeBalls s' = g_RemovedPokeBalls s"
  using assms by (auto simp: scored_from_def)

lemma scored_from_trans: "scored_from J s s' \<Longrightarrow> scored_from J s' s'' \<Longrightarrow> scored_from J s s''"
  by (clarsimp simp: scored_from_def) blast

lemma scored_from_pending:
  assumes "scored_from J s s'"
  shows "scored_from J (s\<lparr>g_pending_delete := ds\<rparr>) (s'\<lparr>g_pending_delete := ds\<rparr>)"
proof -
  obtain m f j where s': "s' = s\<lparr>mem := m, fs := f, pointsFile := j\<rparr>" using assms by (auto simp: scored_from_def)
  then have eq: "s'\<lparr>g_pending_delete := ds\<rparr> = s\<lparr>g_pending_delete := ds, mem := m, fs := f, pointsFile := j\<rparr>" by simp
  have "writable f = writable (fs s)" "\<forall>p. p \<noteq> PTS_JSON \<longrightarrow> files f p = files (fs s) p" "score_ok J f"
    using assms by (simp_all add: scored_from_def s')
  then show ?thesis unfolding scored_from_def eq by (intro conjI) (blast, simp_all)
qed

lemma score_counter:
  assumes "score_ok J (fs s)" "key \<in> {''puntos'', ''muertes''}"
  obtains s' where "score J (add_to_counter J key n (fs s)) s = Some s'" "scored_from J s s'" "mem s' = mem s"
    "the (counter_of J (fs s') key) = the (counter_of J (fs s) key) + n"
    "\<And>k. k \<in> {''puntos'', ''muertes''} \<Longrightarrow> k \<noteq> key \<Longrightarrow> counter_of J (fs s') k = counter_of J (fs s) k"
proof -
  obtain j f where f: "add_to_counter J key n (fs s) = Some (j, f)" "score_ok J f"
    "the (counter_of J f key) = the (counter_of J (fs s) key) + n"
    "\<And>k. k \<in> {''puntos'', ''muertes''} \<Longrightarrow> k \<noteq> key \<Longrightarrow> counter_of J f k = counter_of J (fs s) k"
    "writable f = writable (fs s)" "\<And>p. p \<noteq> PTS_JSON \<Longrightarrow> files f p = files (fs s) p"
    by (rule add_to_counter_total [OF assms]) (rule that)
  let ?s' = "s\<lparr>mem := mem s, fs := f, pointsFile := j\<rparr>"
  have "scored_from J s ?s'" unfolding scored_from_def using f(2,5,6) by (intro conjI) (blast, simp_all)
  then show ?thesis using f by (intro that [of ?s']) (simp_all add: score_def)
qed

lemma score_points:
  assumes "score_ok J (fs s)"
  obtains s' where "score J (addPoints J n (fs s)) s = Some s'" "scored_from J s s'" "mem s' = mem s"
    "puntos J s' = puntos J s + n" "muertes J s' = muertes J s"
proof -
  have key: "''puntos'' \<in> {''puntos'', ''muertes''}" by simp
  obtain s' where s': "score J (add_to_counter J ''puntos'' n (fs s)) s = Some s'" "scored_from J s s'" "mem s' = mem s"
    "the (counter_of J (fs s') ''puntos'') = the (counter_of J (fs s) ''puntos'') + n"
    "\<And>k. k \<in> {''puntos'', ''muertes''} \<Longrightarrow> k \<noteq> ''puntos'' \<Longrightarrow> counter_of J (fs s') k = counter_of J (fs s) k"
    by (rule score_counter [OF assms key]) (rule that)
  have "counter_of J (fs s') ''muertes'' = counter_of J (fs s) ''muertes''" by (rule s'(5)) simp_all
  then show ?thesis using s' by (intro that [of s']) (simp_all add: addPoints_def puntos_def muertes_def)
qed

lemma score_death:
  assumes "score_ok J (fs s)"
  obtains s' where "score J (addMuerte J (fs s)) s = Some s'" "scored_from J s s'" "mem s' = mem s"
    "puntos J s' = puntos J s" "muertes J s' = muertes J s + 1"
proof -
  have key: "''muertes'' \<in> {''puntos'', ''muertes''}" by simp
  obtain s' where s': "score J (add_to_counter J ''muertes'' 1 (fs s)) s = Some s'" "scored_from J s s'" "mem s' = mem s"
    "the (counter_of J (fs s') ''muertes'') = the (counter_of J (fs s) ''muertes'') + 1"
    "\<And>k. k \<in> {''puntos'', ''muertes''} \<Longrightarrow> k \<noteq> ''muertes'' \<Longrightarrow> counter_of J (fs s') k = counter_of J (fs s) k"
    by (rule score_counter [OF assms key]) (rule that)
  have "counter_of J (fs s') ''puntos'' = counter_of J (fs s) ''puntos''" by (rule s'(5)) simp_all
  then show ?thesis using s' by (intro that [of s']) (simp_all add: addMuerte_def puntos_def muertes_def)
qed

text \<open>Party slots are disjoint, and slot \<open>k\<close> is untouched by a write to slot \<open>slot\<close>.\<close>

definition slot_kept :: "MemorySystem \<Rightarrow> MemorySystem \<Rightarrow> int \<Rightarrow> bool" where
  "slot_kept m m' k \<longleftrightarrow> same_block m m' (slot_address PARTY_ORAS k) 484"

definition outside_kept :: "MemorySystem \<Rightarrow> MemorySystem \<Rightarrow> bool" where
  "outside_kept m m' \<longleftrightarrow> (\<forall>a n. in_heap a n \<longrightarrow> unat a + n \<le> 0x8cf727c \<or> 0x8cf727c + 6 * 484 \<le> unat a \<longrightarrow>
     same_block m m' a n)"

lemma outside_kept_refl [simp]: "outside_kept m m"
  by (simp add: outside_kept_def)

lemma outside_kept_trans: "outside_kept m m' \<Longrightarrow> outside_kept m' m'' \<Longrightarrow> outside_kept m m''"
  by (simp add: outside_kept_def)

lemma outside_kept_pocket: "outside_kept m m' \<Longrightarrow> pocket_of m' = pocket_of m"
  by (simp add: outside_kept_def pocket_of_def)

lemma block_at_prefix:
  "n \<le> k \<Longrightarrow> same_block m m' a k \<Longrightarrow> same_block m m' a n"
proof -
  assume n: "n \<le> k" and eq: "same_block m m' a k"
  have "heap.block_at x a n = take n (heap.block_at x a k)" for x
    using n by (simp add: heap.block_at_def take_map)
  with eq show ?thesis by simp
qed

lemma slot_kept_dead: "slot_kept m m' k \<Longrightarrow> slot_dead m' k = slot_dead m k"
proof -
  assume "slot_kept m m' k"
  then have "slot_block m' PARTY_ORAS k = slot_block m PARTY_ORAS k"
    unfolding slot_kept_def slot_block_def by (rule block_at_prefix [rotated]) simp
  then show ?thesis
    unfolding slot_dead_def slot_record_def slot_clear_def trainer_ids_def by simp
qed

lemma slot_write_frame:
  assumes slot: "0 \<le> slot" "slot < 6" and n: "n \<le> 484"
    and frame: "\<And>a' k. HEAP_VADDR \<le> unat a' \<Longrightarrow> unat a' + k \<le> HEAP_VADDR_END \<Longrightarrow>
      unat a' + k \<le> unat (slot_address PARTY_ORAS slot) \<or> unat (slot_address PARTY_ORAS slot) + n \<le> unat a' \<Longrightarrow>
      same_block m m' a' k"
  shows "outside_kept m m'" "0 \<le> k \<Longrightarrow> k < 6 \<Longrightarrow> k \<noteq> slot \<Longrightarrow> slot_kept m m' k"
proof -
  have a: "unat (slot_address PARTY_ORAS slot) = 0x8cf727c + nat slot * 484"
    by (rule party_slot_in_heap [OF slot])
  show "slot_kept m m' k" if "0 \<le> k" "k < 6" "k \<noteq> slot"
  proof -
    have "unat (slot_address PARTY_ORAS k) = 0x8cf727c + nat k * 484"
      by (rule party_slot_in_heap [OF that(1,2)])
    moreover have "nat k * 484 + 484 \<le> nat slot * 484 \<or> nat slot * 484 + 484 \<le> nat k * 484"
      using that slot by linarith
    ultimately have "unat (slot_address PARTY_ORAS k) + 484 \<le> unat (slot_address PARTY_ORAS slot) \<or>
        unat (slot_address PARTY_ORAS slot) + n \<le> unat (slot_address PARTY_ORAS k)"
      using a n by linarith
    then show ?thesis
      unfolding slot_kept_def using frame [of "slot_address PARTY_ORAS k" 484]
        slot_in_heap [OF that(1,2), of False] by simp
  qed
  have "nat slot * 484 + 484 \<le> 6 * 484" using slot(2) by linarith
  then show "outside_kept m m'" unfolding outside_kept_def using frame a n by auto
qed

lemma write_slot_verified:
  assumes "heap_ready m" "0 \<le> slot" "slot < 6" "length data = 260"
  obtains m' where "WriteBlockStrideWithVerify m (slot_address PARTY_ORAS slot) data = Some (True, m')"
    "heap_ready m'" "slot_block m' PARTY_ORAS slot = data"
    "outside_kept m m'" "\<And>k. 0 \<le> k \<Longrightarrow> k < 6 \<Longrightarrow> k \<noteq> slot \<Longrightarrow> slot_kept m m' k"
proof -
  have hp: "HEAP_VADDR \<le> unat (slot_address PARTY_ORAS slot)"
    "unat (slot_address PARTY_ORAS slot) + length data \<le> HEAP_VADDR_END"
    using slot_in_heap [OF assms(2,3), of False] assms(4) by simp_all
  obtain m' where m': "WriteBlockStrideWithVerify m (slot_address PARTY_ORAS slot) data = Some (True, m')"
    "heap_ready m'" "heap.block_at m' (slot_address PARTY_ORAS slot) (length data) = data"
    "\<And>a' n. HEAP_VADDR \<le> unat a' \<Longrightarrow> unat a' + n \<le> HEAP_VADDR_END \<Longrightarrow>
      unat a' + n \<le> unat (slot_address PARTY_ORAS slot) \<or> unat (slot_address PARTY_ORAS slot) + length data \<le> unat a' \<Longrightarrow>
      same_block m m' a' n"
    by (rule write_verify_first_attempt [OF assms(1) hp]) (rule that)
  have "length data \<le> 484" using assms(4) by simp
  note frame = slot_write_frame [OF assms(2,3) this m'(4)]
  show ?thesis using that [of m'] m' frame assms(4) by (simp add: slot_block_def)
qed

lemma convert_slot_effect:
  assumes hr: "heap_ready (mem s)" and sc: "score_ok J (fs s)" and slot: "0 \<le> slot" "slot < 6"
    and nofile: "files (fs s) (base @ ''shd.pk6'') = None"
  obtains s' where "convert_slot J base slot (n, s) = Some (n + 1, s')" "scored_from J s s'"
    "heap_ready (mem s')" "slot_dead (mem s') slot" "outside_kept (mem s) (mem s')"
    "\<And>k. 0 \<le> k \<Longrightarrow> k < 6 \<Longrightarrow> k \<noteq> slot \<Longrightarrow> slot_kept (mem s) (mem s') k"
    "puntos J s' = puntos J s - 50" "muertes J s' = muertes J s + 1"
proof -
  let ?b = "slot_block (mem s) PARTY_ORAS slot"
  obtain c where c: "ConvertToDeadShedinjaInPlaceManual ?b 260 True = (True, c)" "length c = 260"
    using manual_conversion [of ?b] by auto
  have rd: "ReadBlock (mem s) (slot_address PARTY_ORAS slot) PKM_PARTY_SIZE = Some (?b, mem s)"
    using read_slot_block [OF hr slot, of False] by simp
  obtain m' where m': "WriteBlockStrideWithVerify (mem s) (slot_address PARTY_ORAS slot) c = Some (True, m')"
    "heap_ready m'" "slot_block m' PARTY_ORAS slot = c" "outside_kept (mem s) m'"
    "\<And>k. 0 \<le> k \<Longrightarrow> k < 6 \<Longrightarrow> k \<noteq> slot \<Longrightarrow> slot_kept (mem s) m' k"
    using write_slot_verified [OF hr slot c(2)] by metis
  define s1 where "s1 = s\<lparr>mem := m'\<rparr>"
  have sc1: "score_ok J (fs s1)" using sc by (simp add: s1_def)
  obtain s2 where s2: "score J (addPoints J (- 50) (fs s1)) s1 = Some s2" "scored_from J s1 s2"
    "mem s2 = mem s1" "puntos J s2 = puntos J s1 + - 50" "muertes J s2 = muertes J s1"
    by (rule score_points [OF sc1]) (rule that)
  have sc2: "score_ok J (fs s2)" using s2(2) by (simp add: scored_from_def)
  obtain s3 where s3: "score J (addMuerte J (fs s2)) s2 = Some s3" "scored_from J s2 s3"
    "mem s3 = mem s2" "puntos J s3 = puntos J s2" "muertes J s3 = muertes J s2 + 1"
    by (rule score_death [OF sc2]) (rule that)
  have run: "convert_slot J base slot (n, s) = Some (n + 1, s3)"
    using rd c conversion_without_file [OF nofile] m'(1) s2(1) s3(1)
    by (simp add: convert_slot_def s1_def PUNTOS_POR_MUERTE_def del: oras_constants)
  have "scored_from J s s1" unfolding scored_from_def s1_def
    using sc by (auto intro!: exI [of _ m'] exI [of _ "fs s"] exI [of _ "pointsFile s"])
  then have "scored_from J s s3" using s2(2) s3(2) scored_from_trans by blast
  moreover have "slot_dead m' slot" by (rule converted_block_dead [OF c(1) _ m'(3)]) simp
  ultimately show ?thesis
    using run s2 s3 m'(2,4,5) by (intro that [of s3]) (simp_all add: s1_def puntos_def muertes_def)
qed

section \<open>Conversion of all the dead\<close>

text \<open>The party slot a pending battle slot is matched with: the first one that agrees with it.\<close>

definition victim :: "'j nuz_state \<Rightarrow> nat \<Rightarrow> nat option" where
  "victim s b =
     (if g_pending_delete s ! b
      then find (\<lambda>p. MatchBattleSlotToPk6 (g_battleData s ! b) (g_partyData s ! p)) [0..<nat (pokemonCarried s)]
      else None)"

definition victims :: "'j nuz_state \<Rightarrow> nat list \<Rightarrow> nat list" where
  "victims s bs = List.map_filter (victim s) bs"

lemma victims_simps [simp]:
  "victims s [] = []"
  "victims s (b # bs) = (case victim s b of None \<Rightarrow> victims s bs | Some p \<Rightarrow> p # victims s bs)"
  by (simp_all add: victims_def map_filter_simps split: option.split)

lemma victim_cong:
  assumes "scored_from J s s'"
  shows "victim s' = victim s" "victims s' = victims s"
proof -
  show "victim s' = victim s" using scored_from_fields [OF assms] by (simp add: victim_def fun_eq_iff)
  then show "victims s' = victims s" by (simp only: victims_def [abs_def])
qed

lemma victim_bound: "victim s b = Some p \<Longrightarrow> p < nat (pokemonCarried s)"
  by (auto simp: victim_def find_Some_iff split: if_splits)

lemma convert_first_match_find:
  "convert_first_match J base b ps cs =
     (case find (\<lambda>p. MatchBattleSlotToPk6 (g_battleData (snd cs) ! b) (g_partyData (snd cs) ! p)) ps of
        None \<Rightarrow> Some cs | Some p \<Rightarrow> convert_slot J base (int p) cs)"
  by (induction ps) auto

lemma convert_pending_Cons_victim:
  "convert_pending J base (b # bs) cs =
     (case victim (snd cs) b of
        None \<Rightarrow> convert_pending J base bs cs
      | Some p \<Rightarrow> do { cs \<leftarrow> convert_slot J base (int p) cs; convert_pending J base bs cs })"
  by (auto simp: victim_def convert_first_match_find split: option.split)

lemma convert_pending_effect:
  assumes "heap_ready (mem s)" "score_ok J (fs s)" "pokemonCarried s \<le> 6"
    and "files (fs s) (base @ ''shd.pk6'') = None" "base @ ''shd.pk6'' \<noteq> PTS_JSON"
  shows "\<exists>s'. convert_pending J base bs (n, s) = Some (n + int (length (victims s bs)), s') \<and>
    scored_from J s s' \<and> heap_ready (mem s') \<and> outside_kept (mem s) (mem s') \<and>
    (\<forall>p \<in> set (victims s bs). slot_dead (mem s') (int p)) \<and>
    (\<forall>k. k < 6 \<longrightarrow> k \<notin> set (victims s bs) \<longrightarrow> slot_kept (mem s) (mem s') (int k)) \<and>
    puntos J s' = puntos J s - 50 * int (length (victims s bs)) \<and>
    muertes J s' = muertes J s + int (length (victims s bs))"
  using assms
proof (induction bs arbitrary: n s)
  case Nil
  have "scored_from J s s"
    unfolding scored_from_def using Nil.prems(2)
    by (auto intro!: exI [of _ "mem s"] exI [of _ "fs s"] exI [of _ "pointsFile s"])
  then show ?case using Nil by (simp add: slot_kept_def)
next
  case (Cons b bs)
  show ?case
  proof (cases "victim s b")
    case None
    then show ?thesis using Cons.IH [OF Cons.prems, of n] by (simp only: convert_pending_Cons_victim victims_simps) simp
  next
    case (Some p)
    have p: "0 \<le> int p" "int p < 6" using victim_bound [OF Some] Cons.prems(3) by auto
    obtain s1 where s1: "convert_slot J base (int p) (n, s) = Some (n + 1, s1)" "scored_from J s s1"
      "heap_ready (mem s1)" "slot_dead (mem s1) (int p)" "outside_kept (mem s) (mem s1)"
      "\<And>k. 0 \<le> k \<Longrightarrow> k < 6 \<Longrightarrow> k \<noteq> int p \<Longrightarrow> slot_kept (mem s) (mem s1) k"
      "puntos J s1 = puntos J s - 50" "muertes J s1 = muertes J s + 1"
      by (rule convert_slot_effect [OF Cons.prems(1,2) p Cons.prems(4)]) (rule that)
    have pre: "score_ok J (fs s1)" "pokemonCarried s1 \<le> 6" "files (fs s1) (base @ ''shd.pk6'') = None"
      using s1(2) Cons.prems(3,4,5) scored_from_fields(4) [OF s1(2)] by (simp_all add: scored_from_def)
    note vc = victim_cong(2) [OF s1(2)]
    obtain s2 where s2: "convert_pending J base bs (n + 1, s1) = Some (n + 1 + int (length (victims s bs)), s2)"
      "scored_from J s1 s2" "heap_ready (mem s2)" "outside_kept (mem s1) (mem s2)" "\<forall>p \<in> set (victims s bs). slot_dead (mem s2) (int p)"
      "\<forall>k. k < 6 \<longrightarrow> k \<notin> set (victims s bs) \<longrightarrow> slot_kept (mem s1) (mem s2) (int k)"
      "puntos J s2 = puntos J s1 - 50 * int (length (victims s bs))"
      "muertes J s2 = muertes J s1 + int (length (victims s bs))"
      using Cons.IH [OF s1(3) pre(1,2,3) Cons.prems(5), of "n + 1"] unfolding vc by blast
    have "slot_dead (mem s2) (int p)"
    proof (cases "p \<in> set (victims s bs)")
      case False
      then show ?thesis using s2(6) p s1(4) slot_kept_dead [of "mem s1" "mem s2" "int p"] by simp
    qed (use s2(5) in simp)
    moreover have "slot_kept (mem s) (mem s2) (int k)" if "k < 6" "k \<notin> set (p # victims s bs)" for k
      using s1(6) [of "int k"] s2(6) that by (simp add: slot_kept_def)
    moreover have "convert_pending J base (b # bs) (n, s) = Some (n + int (length (p # victims s bs)), s2)"
      using Some s1(1) s2(1) by (simp only: convert_pending_Cons_victim) simp
    ultimately show ?thesis
      using Some s1 s2 scored_from_trans [OF s1(2) s2(2)] outside_kept_trans [OF s1(5) s2(4)]
      by (intro exI [of _ s2]) (simp del: convert_pending.simps)
  qed
qed

text \<open>
  \<open>DeleteFaintedPokemon\<close>: the victims are dead, the other slots untouched; every death costs
  \<open>PUNTOS_POR_MUERTE\<close>, losing the whole team \<open>PUNTOS_POR_WIPE\<close> more; no death stays pending.
\<close>

definition team_lost :: "'j nuz_state \<Rightarrow> bool" where
  "team_lost s \<longleftrightarrow> int (length (victims s [0..<nat (pokemonCarried s)])) \<ge> pokemonCarried s"

lemma DeleteFaintedPokemon_effect:
  assumes "heap_ready (mem s)" "score_ok J (fs s)" "pokemonCarried s \<le> 6"
    and "files (fs s) (base @ ''shd.pk6'') = None" "base @ ''shd.pk6'' \<noteq> PTS_JSON"
  defines "dead \<equiv> victims s [0..<nat (pokemonCarried s)]"
  shows "\<exists>s'. DeleteFaintedPokemon J base s = Some s' \<and>
    scored_from J (s\<lparr>g_pending_delete := replicate 6 False\<rparr>) s' \<and> heap_ready (mem s') \<and>
    outside_kept (mem s) (mem s') \<and>
    (\<forall>p \<in> set dead. slot_dead (mem s') (int p)) \<and>
    (\<forall>k. k < 6 \<longrightarrow> k \<notin> set dead \<longrightarrow> slot_kept (mem s) (mem s') (int k)) \<and>
    puntos J s' = puntos J s - 50 * int (length dead) - (if team_lost s then 100 else 0) \<and>
    muertes J s' = muertes J s + int (length dead)"
proof -
  obtain s1 where s1: "convert_pending J base [0..<nat (pokemonCarried s)] (0, s) = Some (int (length dead), s1)"
    "scored_from J s s1" "heap_ready (mem s1)" "outside_kept (mem s) (mem s1)" "\<forall>p \<in> set dead. slot_dead (mem s1) (int p)"
    "\<forall>k. k < 6 \<longrightarrow> k \<notin> set dead \<longrightarrow> slot_kept (mem s) (mem s1) (int k)"
    "puntos J s1 = puntos J s - 50 * int (length dead)" "muertes J s1 = muertes J s + int (length dead)"
    using convert_pending_effect [OF assms(1-5), of "[0..<nat (pokemonCarried s)]" 0] unfolding dead_def by auto
  have sc: "score_ok J (fs s1)" using s1(2) by (simp add: scored_from_def)
  obtain s2 where s2: "(if int (length dead) \<ge> pokemonCarried s1
        then score J (addPoints J (- 100) (fs s1)) s1 else Some s1) = Some s2"
    "scored_from J s s2" "mem s2 = mem s1" "puntos J s2 = puntos J s1 - (if team_lost s then 100 else 0)"
    "muertes J s2 = muertes J s1"
  proof (cases "int (length dead) \<ge> pokemonCarried s1")
    case True
    obtain s2 where "score J (addPoints J (- 100) (fs s1)) s1 = Some s2" "scored_from J s1 s2" "mem s2 = mem s1"
      "puntos J s2 = puntos J s1 + - 100" "muertes J s2 = muertes J s1"
      by (rule score_points [OF sc]) (rule that)
    then show ?thesis using True that [of s2] scored_from_trans [OF s1(2)] scored_from_fields(4) [OF s1(2)]
      by (simp add: team_lost_def dead_def)
  next
    case False
    then show ?thesis using that [of s1] s1(2) scored_from_fields(4) [OF s1(2)]
      by (simp add: team_lost_def dead_def)
  qed
  have "DeleteFaintedPokemon J base s = Some (s2\<lparr>g_pending_delete := replicate 6 False\<rparr>)"
    using s1(1) s2(1) by (simp add: DeleteFaintedPokemon_def PUNTOS_POR_WIPE_def split: if_splits)
  moreover have "scored_from J (s\<lparr>g_pending_delete := replicate 6 False\<rparr>) (s2\<lparr>g_pending_delete := replicate 6 False\<rparr>)"
    by (rule scored_from_pending [OF s2(2)])
  ultimately show ?thesis
    using s1(3-8) s2(3-5)
    by (intro exI [of _ "s2\<lparr>g_pending_delete := replicate 6 False\<rparr>"]) (simp add: puntos_def muertes_def)
qed

section \<open>The level cap\<close>

lemma write_slot_stride:
  assumes "heap_ready m" "0 \<le> slot" "slot < 6" "length data = 484"
  obtains m' where "WriteBlock m (slot_address PARTY_ORAS slot) data = Some m'" "heap_ready m'"
    "heap.block_at m' (slot_address PARTY_ORAS slot) 484 = data" "outside_kept m m'"
    "\<And>k. 0 \<le> k \<Longrightarrow> k < 6 \<Longrightarrow> k \<noteq> slot \<Longrightarrow> slot_kept m m' k"
proof -
  have hp: "HEAP_VADDR \<le> unat (slot_address PARTY_ORAS slot)"
    "unat (slot_address PARTY_ORAS slot) + length data \<le> HEAP_VADDR_END"
    using slot_in_heap [OF assms(2,3), of False] assms(4) by simp_all
  obtain m' where m': "WriteBlock m (slot_address PARTY_ORAS slot) data = Some m'" "heap_ready m'"
    "heap.block_at m' (slot_address PARTY_ORAS slot) (length data) = data"
    "\<And>a' n. HEAP_VADDR \<le> unat a' \<Longrightarrow> unat a' + n \<le> HEAP_VADDR_END \<Longrightarrow>
      unat a' + n \<le> unat (slot_address PARTY_ORAS slot) \<or> unat (slot_address PARTY_ORAS slot) + length data \<le> unat a' \<Longrightarrow>
      same_block m m' a' n"
    by (rule heap.read_after_write [OF assms(1) hp]) (rule that)
  have "length data \<le> 484" using assms(4) by simp
  note frame = slot_write_frame [OF assms(2,3) this m'(4)]
  show ?thesis using that [of m'] m' frame assms(4) by (simp)
qed

definition with_experience :: "bytes \<Rightarrow> u32 \<Rightarrow> bytes" where
  "with_experience d x = (let d = WriteLE32 d 0x10 x in WriteLE16 d 6 (pk6_checksum d))"

lemma cap_slot_effect:
  assumes hr: "heap_ready m" and slot: "0 \<le> slot" "slot < 6"
  obtains m' where "cap_slot slot x m = Some (False, m')" "heap_ready m'"
    "slot_clear m' PARTY_ORAS slot = with_experience (slot_clear m PARTY_ORAS slot) (of_int x)"
    "drop 260 (heap.block_at m' (slot_address PARTY_ORAS slot) 484) =
     drop 260 (heap.block_at m (slot_address PARTY_ORAS slot) 484)" "outside_kept m m'"
    "\<And>k. 0 \<le> k \<Longrightarrow> k < 6 \<Longrightarrow> k \<noteq> slot \<Longrightarrow> slot_kept m m' k"
proof -
  let ?a = "slot_address PARTY_ORAS slot" and ?d = "slot_clear m PARTY_ORAS slot"
  let ?blk = "heap.block_at m ?a 484"
  have rd: "ReadBlock m ?a 484 = Some (?blk, m)"
    using slot_in_heap [OF slot, of False] hr by (intro heap.read_block_at) simp_all
  have pre: "take 260 (heap.block_at x ?a 484) = slot_block x PARTY_ORAS slot" for x
    by (simp add: heap.block_at_def slot_block_def take_map)
  define c where "c = with_experience ?d (of_int x)"
  define y where "y = WriteLE32 ?d 0x10 (of_int x)"
  have ly: "length y = 260" using slot_clear(2) by (simp add: y_def)
  have lc: "length c = 260" using ly by (simp add: c_def with_experience_def y_def Let_def)
  have cc: "WriteLE16 c 6 (pk6_checksum c) = c"
    using checksum_stable [OF ly] by (simp add: c_def with_experience_def y_def Let_def)
  obtain e where e: "EncryptPk6InPlace c 260 True = (True, e)" "length e = 260" "DecryptPk6InPlace e 260 True = (True, c)"
    using decrypt_encrypt [of c 260 True True] lc cc by auto
  let ?data = "memcpy ?blk 0 e 0 260"
  have ld: "length ?data = 484" using e(2) by simp
  obtain m' where m': "WriteBlock m ?a ?data = Some m'" "heap_ready m'" "heap.block_at m' ?a 484 = ?data"
    "outside_kept m m'" "\<And>k. 0 \<le> k \<Longrightarrow> k < 6 \<Longrightarrow> k \<noteq> slot \<Longrightarrow> slot_kept m m' k"
    by (rule write_slot_stride [OF hr slot ld]) (rule that)
  have "cap_slot slot x m = Some (False, m')"
    using rd pre [of m] slot_clear(1) [of m PARTY_ORAS slot] ly lc e(1,2) m'(1)
    by (simp add: cap_slot_def c_def with_experience_def y_def Let_def del: oras_constants(1))
  moreover have "slot_block m' PARTY_ORAS slot = e"
    using pre [of m'] m'(3) e(2) by (simp add: memcpy_def)
  then have "slot_clear m' PARTY_ORAS slot = c" using e(3) by (simp add: slot_clear_def)
  moreover have "drop 260 ?data = drop 260 ?blk" using e(2) by (simp add: memcpy_def)
  ultimately show ?thesis using that [of m'] m' by (simp add: c_def)
qed

lemma with_experience_fields:
  assumes "length d = 260"
  shows "ReadLE32 (with_experience d x) 0x10 = x" "valid_checksum (with_experience d x)"
    "k < 260 \<Longrightarrow> k \<notin> {6, 7, 0x10, 0x11, 0x12, 0x13} \<Longrightarrow> with_experience d x ! k = d ! k"
  using assms
  by (simp_all add: with_experience_def Let_def valid_checksum_def read_other)
     (simp add: nth_WriteLE16_other WriteLE32_def nth_list_update)

section \<open>Noticing a death\<close>

definition hp_now :: "MemorySystem \<Rightarrow> nat \<Rightarrow> u16" where
  "hp_now m slot = ReadLE16 (heap.block_at m (battle_slot_base (trainer_now m) (int slot)) 2) 0"

lemma battle_slot_in_heap:
  assumes "slot < 6"
  shows "in_heap (battle_slot_base trainer (int slot)) 2"
proof -
  have "unat (0x8204204 + of_nat (slot * 580) :: u32) = 0x8204204 + slot * 580"
    "unat (0x8205D14 + of_nat (slot * 580) :: u32) = 0x8205D14 + slot * 580"
    using assms by (subst unat_add_of_nat; simp)+
  then show ?thesis using assms by (simp add: battle_slot_base_def)
qed

lemma ReadBattleHPFromSlot_ready:
  "heap_ready m \<Longrightarrow> slot < 6 \<Longrightarrow> ReadBattleHPFromSlot m (int slot) = Some (hp_now m slot, m)"
  using battle_slot_in_heap [of slot "trainer_now m"] heap.read_block_at [of m _ 2]
  by (simp add: ReadBattleHPFromSlot_def isBattleTrainer_now hp_now_def)

text \<open>A party member counts as dead only once the player owns Poke Balls.\<close>

definition faint_now :: "'j nuz_state \<Rightarrow> nat \<Rightarrow> bool" where
  "faint_now s i \<longleftrightarrow> hp_now (mem s) i = 0 \<and> pid (g_partyData s ! i) \<noteq> 0 \<and> species (g_partyData s ! i) \<le> 721 \<and>
     fs_exists (fs s) HASPKB_BIN"

lemma check_dead_slots_effect:
  assumes "heap_ready (mem s)" "length (g_pending_delete s) = 6" "\<forall>i \<in> set slots. i < 6"
  shows "\<exists>ds. check_dead_slots slots s = Some (s\<lparr>g_pending_delete := ds\<rparr>) \<and> length ds = 6 \<and>
    (\<forall>i < 6. ds ! i \<longleftrightarrow> g_pending_delete s ! i \<or> i \<in> set slots \<and> faint_now s i)"
  using assms
proof (induction slots arbitrary: s)
  case Nil
  then show ?case by (intro exI [of _ "g_pending_delete s"]) simp
next
  case (Cons i slots)
  let ?ds = "if faint_now s i then (g_pending_delete s)[i := True] else g_pending_delete s"
  let ?t = "s\<lparr>g_pending_delete := ?ds\<rparr>"
  have step: "check_dead_slots (i # slots) s = check_dead_slots slots ?t"
    using Cons.prems by (auto simp: ReadBattleHPFromSlot_ready faint_now_def Let_def)
  have lt: "length (g_pending_delete ?t) = 6" using Cons.prems(2) by simp
  have faint: "faint_now ?t = faint_now s" by (simp add: faint_now_def fun_eq_iff)
  obtain ds where ds: "check_dead_slots slots ?t = Some (?t\<lparr>g_pending_delete := ds\<rparr>)" "length ds = 6"
    "\<forall>k < 6. ds ! k \<longleftrightarrow> g_pending_delete ?t ! k \<or> k \<in> set slots \<and> faint_now s k"
    using Cons.IH [of ?t] Cons.prems(1,3) lt unfolding faint by auto
  show ?case
    unfolding step using ds Cons.prems
    by (intro exI [of _ ds]) (auto simp: nth_list_update)
qed

lemma CheckDeadPokemon_effect:
  assumes "heap_ready (mem s)" "length (g_pending_delete s) = 6"
  shows "\<exists>ds. CheckDeadPokemon s = Some (s\<lparr>g_pending_delete := ds\<rparr>) \<and> length ds = 6 \<and>
    (\<forall>i < 6. ds ! i \<longleftrightarrow> g_pending_delete s ! i \<or> battle_now (mem s) \<and> faint_now s i)"
  using check_dead_slots_effect [OF assms, of "[0..<nat PARTY_SIZE]"] assms encounter_reads(3) [OF assms(1)]
  by (cases "battle_now (mem s)") (auto simp: CheckDeadPokemon_def intro: exI [of _ "g_pending_delete s"])

section \<open>Reading the party and the wild slots\<close>

lemma slot_record_indep: "slot_record m isWild slot out = slot_record m isWild slot out'"
  by (cases out; cases out') (simp add: slot_record_def pk6_fields_def Let_def)

lemma read_party_prefix:
  assumes "heap_ready (mem s)" "length (g_partyData s) = 6" "n \<le> 6"
  shows "read_party [6 - n..<6] s =
    Some (s\<lparr>g_partyData := map (\<lambda>i. if 6 - n \<le> i then slot_record (mem s) False (int i) blank_pk6
       else g_partyData s ! i) [0..<6]\<rparr>)"
  using assms
proof (induction n arbitrary: s)
  case 0
  have "map (\<lambda>i. if 6 - 0 \<le> i then slot_record (mem s) False (int i) blank_pk6 else g_partyData s ! i) [0..<6]
      = g_partyData s" (is "?l = _")
    using 0 by (intro nth_equalityI) simp_all
  moreover have "read_party [6 - 0..<6] s = Some s" by simp
  ultimately show ?case by simp
next
  case (Suc n)
  let ?k = "6 - Suc n"
  let ?t = "s\<lparr>g_partyData := (g_partyData s)[?k := slot_record (mem s) False (int ?k) blank_pk6]\<rparr>"
  have up: "[?k..<6] = ?k # [6 - n..<6]" using Suc.prems upt_conv_Cons [of ?k 6] Suc_diff_Suc [of n 6] by simp
  have rd: "ReadPk6Slot (mem s) (int ?k) (g_partyData s ! ?k) False =
      Some (True, slot_record (mem s) False (int ?k) blank_pk6, mem s)"
    using ReadPk6Slot_ready [OF Suc.prems(1), of "int ?k" "g_partyData s ! ?k" False] Suc.prems
      slot_record_indep [of "mem s" False "int ?k" "g_partyData s ! ?k" blank_pk6] by simp
  have "read_party [?k..<6] s = read_party [6 - n..<6] ?t"
    unfolding up by (simp only: read_party.simps rd) simp
  also have "\<dots> = Some (?t\<lparr>g_partyData := map (\<lambda>i. if 6 - n \<le> i then slot_record (mem s) False (int i) blank_pk6
       else g_partyData ?t ! i) [0..<6]\<rparr>)"
    using Suc.IH [of ?t] Suc.prems by simp
  also have "map (\<lambda>i. if 6 - n \<le> i then slot_record (mem s) False (int i) blank_pk6
       else g_partyData ?t ! i) [0..<6] =
     map (\<lambda>i. if ?k \<le> i then slot_record (mem s) False (int i) blank_pk6 else g_partyData s ! i) [0..<6]"
    using Suc.prems by (intro map_cong) (auto simp: nth_list_update)
  finally show ?case by simp
qed

definition party_now :: "MemorySystem \<Rightarrow> Pk6FullData list" where
  "party_now m = map (\<lambda>i. slot_record m False (int i) blank_pk6) [0..<6]"

lemma read_party_all:
  "heap_ready (mem s) \<Longrightarrow> length (g_partyData s) = 6 \<Longrightarrow>
   read_party [0..<nat PARTY_SIZE] s = Some (s\<lparr>g_partyData := party_now (mem s)\<rparr>)"
  using read_party_prefix [of s 6] by (simp add: party_now_def)

section \<open>The end of a battle\<close>

lemma OnBattleEnded_effect:
  assumes ok: "nuz_ok s" and sc: "score_ok J (fs s)" and carried: "pokemonCarried s \<le> 6"
    and nofile: "files (fs s) (base @ ''shd.pk6'') = None" "base @ ''shd.pk6'' \<noteq> PTS_JSON"
  obtains s' t where "OnBattleEnded J base s = Some s'" "nuz_ok s'"
    "t = s\<lparr>g_partyData := party_now (mem s)\<rparr>"
    "pocket_of (mem s') = restore_balls (g_RemovedPokeBalls s) (pocket_of (mem s))"
    "g_RemovedPokeBalls s' = replicate REMOVED_COUNT no_item" "g_pending_delete s' = replicate 6 False"
    "\<forall>p \<in> set (victims t [0..<nat (pokemonCarried s)]). slot_dead (mem s') (int p)"
    "\<forall>k. k < 6 \<longrightarrow> k \<notin> set (victims t [0..<nat (pokemonCarried s)]) \<longrightarrow> slot_kept (mem s) (mem s') (int k)"
    "puntos J s' = puntos J s - 50 * int (length (victims t [0..<nat (pokemonCarried s)])) - (if team_lost t then 100 else 0)"
    "muertes J s' = muertes J s + int (length (victims t [0..<nat (pokemonCarried s)]))"
proof -
  have hr: "heap_ready (mem s)" and len: "length (g_RemovedPokeBalls s) = REMOVED_COUNT"
    using ok by (simp_all add: nuz_ok_def)
  obtain m1 where m1: "RestorePokeballs s = Some (True, clear_pockets (s\<lparr>mem := m1\<rparr>))" "heap_ready m1"
    "pocket_of m1 = restore_balls (g_RemovedPokeBalls s) (pocket_of (mem s))"
    "\<And>a k. in_heap a k \<Longrightarrow> unat a + k \<le> 0x8C6AC80 \<or> 0x8C6B144 \<le> unat a \<Longrightarrow> same_block (mem s) m1 a k"
    by (rule RestorePokeballs_effect [OF hr len]) (rule that)
  have kept: "slot_kept (mem s) m1 (int i)" if "i < 6" for i
  proof -
    have "unat (slot_address PARTY_ORAS (int i)) = 0x8cf727c + i * 484"
      using party_slot_in_heap [of "int i"] that by simp
    then show ?thesis unfolding slot_kept_def using m1(4) slot_in_heap [of "int i" False] that by simp
  qed
  have same: "slot_record m1 False (int i) blank_pk6 = slot_record (mem s) False (int i) blank_pk6" if "i < 6" for i
  proof -
    have "slot_block m1 PARTY_ORAS (int i) = slot_block (mem s) PARTY_ORAS (int i)"
      using kept [OF that] unfolding slot_kept_def slot_block_def by (rule block_at_prefix [rotated]) simp
    then show ?thesis by (simp add: slot_record_def slot_clear_def trainer_ids_def)
  qed
  then have party: "party_now m1 = party_now (mem s)" by (simp add: party_now_def)
  define t where "t = s\<lparr>g_partyData := party_now (mem s)\<rparr>"
  define u where "u = (clear_pockets (s\<lparr>mem := m1\<rparr>))\<lparr>g_partyData := party_now (mem s)\<rparr>"
  have rp: "read_party [0..<nat PARTY_SIZE] (clear_pockets (s\<lparr>mem := m1\<rparr>)) = Some u"
    using read_party_all [of "clear_pockets (s\<lparr>mem := m1\<rparr>)"] m1(2) ok party
    by (simp add: u_def clear_pockets_def nuz_ok_def)
  have uf: "mem u = m1" "fs u = fs s" "pokemonCarried u = pokemonCarried s"
    "g_RemovedPokeBalls u = replicate REMOVED_COUNT no_item" "g_MainPocket u = replicate SLOT_COUNT no_item"
    "g_partyData u = party_now (mem s)" "g_battleData u = g_battleData s" "g_wildData u = g_wildData s"
    "g_visitedRoutes u = g_visitedRoutes s"
    by (simp_all add: u_def clear_pockets_def)
  have vic: "victim u = victim t" by (simp add: victim_def fun_eq_iff t_def u_def clear_pockets_def)
  then have vics: "victims u = victims t" by (simp only: victims_def [abs_def])
  have lost: "team_lost u = team_lost t" by (simp add: team_lost_def vics) (simp add: t_def u_def clear_pockets_def)
  have pre: "heap_ready (mem u)" "score_ok J (fs u)" "pokemonCarried u \<le> 6" "files (fs u) (base @ ''shd.pk6'') = None"
    using m1(2) sc carried nofile(1) uf by simp_all
  from DeleteFaintedPokemon_effect [OF pre nofile(2)] obtain s' where s': "DeleteFaintedPokemon J base u = Some s'"
    "scored_from J (u\<lparr>g_pending_delete := replicate 6 False\<rparr>) s'" "heap_ready (mem s')" "outside_kept m1 (mem s')"
    "\<forall>p \<in> set (victims t [0..<nat (pokemonCarried s)]). slot_dead (mem s') (int p)"
    "\<forall>k. k < 6 \<longrightarrow> k \<notin> set (victims t [0..<nat (pokemonCarried s)]) \<longrightarrow> slot_kept m1 (mem s') (int k)"
    "puntos J s' = puntos J u - 50 * int (length (victims t [0..<nat (pokemonCarried s)])) - (if team_lost t then 100 else 0)"
    "muertes J s' = muertes J u + int (length (victims t [0..<nat (pokemonCarried s)]))"
    unfolding vics lost uf by blast
  note sf = scored_from_fields [OF s'(2), simplified]
  have "OnBattleEnded J base s = Some s'"
    using m1(1) rp s'(1) by (simp add: OnBattleEnded_def)
  moreover have "nuz_ok s'"
    using ok s'(3) sf uf by (simp add: nuz_ok_def party_now_def)
  moreover have "pocket_of (mem s') = restore_balls (g_RemovedPokeBalls s) (pocket_of (mem s))"
    using outside_kept_pocket [OF s'(4)] m1(3) by simp
  moreover have "\<forall>k. k < 6 \<longrightarrow> k \<notin> set (victims t [0..<nat (pokemonCarried s)]) \<longrightarrow> slot_kept (mem s) (mem s') (int k)"
    using s'(6) kept by (simp add: slot_kept_def)
  ultimately show ?thesis
    using s'(5,7,8) sf uf by (intro that [of s' t]) (simp_all add: t_def puntos_def muertes_def)
qed

section \<open>A concrete state\<close>

text \<open>One Pokemon carried, marked as dead, its battle slot equal to its party slot; 200 points.\<close>

definition one_dead_state :: "(int \<times> int) nuz_state" where
  "one_dead_state = (fresh_state (heap_memory wild_heap) (tally_fs (200, 0)) (200, 0))
     \<lparr>pokemonCarried := 1, g_pending_delete := True # replicate 5 False\<rparr>"

lemma one_dead_state_fields:
  "mem one_dead_state = heap_memory wild_heap" "fs one_dead_state = tally_fs (200, 0)"
  "pokemonCarried one_dead_state = 1" "g_pending_delete one_dead_state = True # replicate 5 False"
  "g_partyData one_dead_state = replicate 6 blank_pk6" "g_battleData one_dead_state = replicate 6 blank_battle_slot"
  by (simp_all add: one_dead_state_def fresh_state_def)

lemma one_dead_state_ok: "nuz_ok one_dead_state" "score_ok tally_json (fs one_dead_state)"
  using fresh_state_ok [OF heap_memory_ready, of wild_heap "tally_fs (200, 0)" "(200 :: int, 0 :: int)"]
  by (simp_all add: one_dead_state_def nuz_ok_def) (simp add: fresh_state_def tally_fs_score)

lemma shd_not_scores: "P_DIR @ ''shd.pk6'' \<noteq> PTS_JSON"
  by (simp add: P_DIR_def PTS_JSON_def)

lemma blank_match: "MatchBattleSlotToPk6 blank_battle_slot blank_pk6"
  by (simp add: MatchBattleSlotToPk6_def blank_battle_slot_def blank_pk6_def upt_rec nth_Cons')

lemma one_dead_victims: "victims one_dead_state [0..<nat (pokemonCarried one_dead_state)] = [0]"
  using blank_match by (simp add: one_dead_state_fields victim_def)

section \<open>Properties\<close>





text \<open>
  \<open>CheckDeadPokemon\<close> returns, changes nothing but the pending flags, never clears one, and sets exactly
  those of the occupied slots whose hit points in battle are zero, once the player owns Poke Balls
  and only while a battle is on.
\<close>

theorem deaths_are_noticed:
  assumes "heap_ready (mem s)" "length (g_pending_delete s) = 6"
  shows "\<exists>ds. CheckDeadPokemon s = Some (s\<lparr>g_pending_delete := ds\<rparr>) \<and> length ds = 6 \<and>
    (\<forall>i < 6. ds ! i \<longleftrightarrow> g_pending_delete s ! i \<or> battle_now (mem s) \<and> faint_now s i)"
  by (rule CheckDeadPokemon_effect [OF assms])

theorem deaths_are_noticed_witness:
  "\<exists>ds. CheckDeadPokemon one_dead_state = Some (one_dead_state\<lparr>g_pending_delete := ds\<rparr>) \<and> ds ! 0"
  using deaths_are_noticed [of one_dead_state] by (auto simp: one_dead_state_fields heap_memory_ready)

text \<open>
  C10: The level cap, \<open>cap_slot\<close>: the slot's record afterwards has the experience of the cap and a valid
  checksum; every other byte of the decrypted record, the 224 bytes after it in the slot, the other
  slots and all memory outside the party are unchanged.
\<close>

theorem level_cap_changes_only_experience:
  assumes "heap_ready m" "0 \<le> slot" "slot < PARTY_SIZE"
  shows "\<exists>m'. cap_slot slot x m = Some (False, m') \<and>
    (let d = slot_clear m PARTY_ORAS slot; d' = slot_clear m' PARTY_ORAS slot
     in ReadLE32 d' 0x10 = of_int x \<and> valid_checksum d' \<and>
        (\<forall>k < 260. k \<notin> {6, 7, 0x10, 0x11, 0x12, 0x13} \<longrightarrow> d' ! k = d ! k)) \<and>
    drop 260 (heap.block_at m' (slot_address PARTY_ORAS slot) 484) =
    drop 260 (heap.block_at m (slot_address PARTY_ORAS slot) 484) \<and> outside_kept m m' \<and>
    (\<forall>k. 0 \<le> k \<longrightarrow> k < PARTY_SIZE \<longrightarrow> k \<noteq> slot \<longrightarrow> slot_kept m m' k)"
proof -
  have slot: "0 \<le> slot" "slot < 6" using assms by simp_all
  obtain m' where m': "cap_slot slot x m = Some (False, m')"
    "slot_clear m' PARTY_ORAS slot = with_experience (slot_clear m PARTY_ORAS slot) (of_int x)"
    "drop 260 (heap.block_at m' (slot_address PARTY_ORAS slot) 484) =
     drop 260 (heap.block_at m (slot_address PARTY_ORAS slot) 484)" "outside_kept m m'"
    "\<And>k. 0 \<le> k \<Longrightarrow> k < 6 \<Longrightarrow> k \<noteq> slot \<Longrightarrow> slot_kept m m' k"
    by (rule cap_slot_effect [OF assms(1) slot]) (rule that)
  note w = with_experience_fields [OF slot_clear(2) [of m PARTY_ORAS slot]]
  show ?thesis
    unfolding Let_def m'(2) [symmetric] using m' w [where x = "of_int x"]
    by (intro exI [of _ m'] conjI allI impI) (simp_all del: oras_constants(1))
qed

theorem level_cap_changes_only_experience_witness:
  "\<exists>m'. cap_slot 2 1000 (heap_memory wild_heap) = Some (False, m') \<and>
    ReadLE32 (slot_clear m' PARTY_ORAS 2) 0x10 = 1000"
  using level_cap_changes_only_experience [of "heap_memory wild_heap" 2 1000]
  by (auto simp: Let_def heap_memory_ready)

text \<open>
  The timer: within 100 milliseconds of the last check \<open>MaybeExportParty\<close> does nothing; within two
  seconds of the last export it only looks for deaths.
\<close>

theorem timer_limits_the_work:
  "(now - last_export2 s < 100 \<longrightarrow> MaybeExportParty J now s = Some s) \<and>
   (100 \<le> now - last_export2 s \<longrightarrow> now - last_export s < 2000 \<longrightarrow> nuz_ok s \<longrightarrow>
      MaybeExportParty J now s = CheckDeadPokemon (s\<lparr>last_export2 := now\<rparr>) \<and> MaybeExportParty J now s \<noteq> None)"
proof -
  have "\<exists>ds. CheckDeadPokemon (s\<lparr>last_export2 := now\<rparr>) = Some (s\<lparr>last_export2 := now, g_pending_delete := ds\<rparr>)" if "nuz_ok s"
    using CheckDeadPokemon_effect [of "s\<lparr>last_export2 := now\<rparr>"] that by (auto simp: nuz_ok_def)
  then show ?thesis by (auto simp: MaybeExportParty_def)
qed

theorem timer_limits_the_work_witness:
  "MaybeExportParty tally_json 99 one_dead_state = Some one_dead_state"
  using timer_limits_the_work [of 99 one_dead_state tally_json] by (simp add: one_dead_state_def fresh_state_def)

end
