(* ===== verification/Memory_Access.thy ===== *)
theory Memory_Access
  imports Memory_System
begin

text \<open>
  The rest of \<open>core/memory.cpp\<close>: mapping and unmapping pages, single reads and writes (with the
  custom Luma3DS mapping above \<open>0x80000000\<close>), exclusive writes, address checks, physical addresses,
  the rasterizer's page marking, and the block operations that clear and copy. A page table is named
  by its number in \<open>tables\<close>; a process by the number of its page table. A value of type \<open>T\<close> is its
  \<open>sizeof(T)\<close> bytes.
\<close>

unbundle bit_operations_syntax

section \<open>Mapping\<close>

definition set_page :: "nat \<Rightarrow> nat \<Rightarrow> PageType \<Rightarrow> MemoryRef \<Rightarrow> MemorySystem \<Rightarrow> MemorySystem" where
  "set_page pt p ty r m =
     m\<lparr>tables := (tables m)(pt := (tables m pt)
        \<lparr>attributes := (attributes (tables m pt))(p := ty), pointers := (pointers (tables m pt))(p := r)\<rparr>)\<rparr>"

text \<open>\<open>memory += CITRA_PAGE_SIZE\<close>, guarded as in the loop of \<open>MapPages\<close>.\<close>

definition next_page_ref :: "MemoryRef \<Rightarrow> MemoryRef" where
  "next_page_ref r =
     (case r of None \<Rightarrow> None
      | Some (b, off) \<Rightarrow> if ref_size r > CITRA_PAGE_SIZE then Some (b, off + CITRA_PAGE_SIZE) else r)"

function map_pages_loop ::
    "nat \<Rightarrow> u32 \<Rightarrow> u32 \<Rightarrow> MemoryRef \<Rightarrow> PageType \<Rightarrow> MemorySystem \<Rightarrow> MemorySystem option" where
  "map_pages_loop pt base stop memory ty m =
     (if base \<noteq> stop then
        if unat base \<ge> PAGE_TABLE_NUM_ENTRIES then None
        else
          let m = set_page pt (unat base) ty memory m;
              m = (if ty = Memory \<and> marker_IsCached (base * of_nat CITRA_PAGE_SIZE) m
                   then set_page pt (unat base) RasterizerCachedMemory None m else m)
          in map_pages_loop pt (base + 1) stop (next_page_ref memory) ty m
      else Some m)"
  by pat_completeness auto
termination
proof (relation "measure (\<lambda>(pt, base, stop, memory, ty, m). PAGE_TABLE_NUM_ENTRIES - unat base)", simp)
  fix pt base stop memory ty m x xa
  assume "\<not> unat (base :: u32) \<ge> PAGE_TABLE_NUM_ENTRIES"
  then have "unat base < PAGE_TABLE_NUM_ENTRIES" by simp
  moreover from this have "unat (base + 1) = unat base + 1"
    by (simp add: unat_word_ariths)
  ultimately show "((pt, base + 1, stop, next_page_ref memory, ty, xa), (pt, base, stop, memory, ty, m))
      \<in> measure (\<lambda>(pt, base, stop, memory, ty, m). PAGE_TABLE_NUM_ENTRIES - unat base)"
    by simp
qed

declare map_pages_loop.simps [simp del]

definition MapPages ::
    "nat \<Rightarrow> u32 \<Rightarrow> u32 \<Rightarrow> MemoryRef \<Rightarrow> PageType \<Rightarrow> MemorySystem \<Rightarrow> MemorySystem option" where
  "MapPages pt base sz memory ty m =
     (let m = (if powered_on m
               then RasterizerFlushVirtualRegion (push_bit CITRA_PAGE_BITS base) (sz * of_nat CITRA_PAGE_SIZE)
                      FlushAndInvalidate m
               else m)
      in map_pages_loop pt base (base + sz) memory ty m)"

definition page_aligned :: "u32 \<Rightarrow> bool" where
  "page_aligned a \<longleftrightarrow> a AND CITRA_PAGE_MASK = 0"

definition MapMemoryRegion :: "nat \<Rightarrow> u32 \<Rightarrow> u32 \<Rightarrow> MemoryRef \<Rightarrow> MemorySystem \<Rightarrow> MemorySystem option" where
  "MapMemoryRegion pt base sz target m =
     (if \<not> page_aligned sz then None
      else if \<not> page_aligned base then None
      else MapPages pt (base div of_nat CITRA_PAGE_SIZE) (sz div of_nat CITRA_PAGE_SIZE) target Memory m)"

definition UnmapRegion :: "nat \<Rightarrow> u32 \<Rightarrow> u32 \<Rightarrow> MemorySystem \<Rightarrow> MemorySystem option" where
  "UnmapRegion pt base sz m =
     (if \<not> page_aligned sz then None
      else if \<not> page_aligned base then None
      else MapPages pt (base div of_nat CITRA_PAGE_SIZE) (sz div of_nat CITRA_PAGE_SIZE) None Unmapped m)"

definition RegisterPageTable :: "nat \<Rightarrow> MemorySystem \<Rightarrow> MemorySystem" where
  "RegisterPageTable pt m = m\<lparr>page_table_list := page_table_list m @ [pt]\<rparr>"

definition UnregisterPageTable :: "nat \<Rightarrow> MemorySystem \<Rightarrow> MemorySystem" where
  "UnregisterPageTable pt m = m\<lparr>page_table_list := remove1 pt (page_table_list m)\<rparr>"

section \<open>FCRAM and physical addresses\<close>

definition GetFCRAMRef :: "nat \<Rightarrow> MemoryRef" where
  "GetFCRAMRef off = (if off \<le> unat FCRAM_N3DS_SIZE then make_ref FCRAM off else None)"

definition GetFCRAMOffset :: "backing \<times> nat \<Rightarrow> u32 option" where
  "GetFCRAMOffset p =
     (case p of (b, off) \<Rightarrow> if b = FCRAM \<and> off \<le> unat FCRAM_N3DS_SIZE then Some (of_nat off) else None)"

definition memory_areas :: "(u32 \<times> u32 \<times> backing) list" where
  "memory_areas =
     [(VRAM_PADDR, VRAM_SIZE, VRAM), (DSP_RAM_PADDR, DSP_RAM_SIZE, DSP),
      (FCRAM_PADDR, FCRAM_N3DS_SIZE, FCRAM), (N3DS_EXTRA_RAM_PADDR, N3DS_EXTRA_RAM_SIZE, N3DS)]"

definition GetPhysicalRef :: "u32 \<Rightarrow> MemorySystem \<Rightarrow> MemoryRef \<times> MemorySystem" where
  "GetPhysicalRef address m =
     (if address = fst (physical_ptr_cache m) then (snd (physical_ptr_cache m), m)
      else
        let r = (case find (\<lambda>(first, sz, _). address \<ge> first \<and> address \<le> first + sz) memory_areas of
                   None \<Rightarrow> None
                 | Some (first, sz, target_mem) \<Rightarrow>
                     (let offset_into_region = unat (address - first)
                      in if offset_into_region > GetSize target_mem then None
                         else make_ref target_mem offset_into_region))
        in (r, m\<lparr>physical_ptr_cache := (address, r)\<rparr>))"

definition IsValidPhysicalAddress :: "u32 \<Rightarrow> MemorySystem \<Rightarrow> bool \<times> MemorySystem" where
  "IsValidPhysicalAddress paddr m = (let (r, m) = GetPhysicalRef paddr m in (r \<noteq> None, m))"

section \<open>Single accesses\<close>

definition page_of :: "u32 \<Rightarrow> nat" where
  "page_of vaddr = unat (drop_bit CITRA_PAGE_BITS vaddr)"

definition page_off :: "u32 \<Rightarrow> nat" where
  "page_off vaddr = unat (vaddr AND CITRA_PAGE_MASK)"

datatype luma_target = Luma_fcram u32 | Luma_mmio u32

text \<open>The custom Luma3DS mapping: FCRAM and the IO registers above \<open>0x80000000\<close>.\<close>

definition luma_mapping :: "u32 \<Rightarrow> luma_target option" where
  "luma_mapping vaddr =
     (if bit vaddr 31 then
        let paddr = vaddr AND 0x7FFFFFFF
        in if paddr AND 0xF0000000 = FCRAM_PADDR then Some (Luma_fcram (paddr - FCRAM_PADDR))
           else if paddr AND 0xF0000000 = 0x10000000 \<and> paddr \<ge> IO_AREA_PADDR
             then Some (Luma_mmio (paddr - IO_AREA_PADDR + 0x1EC00000))
           else None
      else None)"

definition Read :: "nat \<Rightarrow> u32 \<Rightarrow> nat \<Rightarrow> MemorySystem \<Rightarrow> (bytes \<times> MemorySystem) option" where
  "Read n vaddr pt m =
     (case pointers (tables m pt) (page_of vaddr) of
        Some (b, off) \<Rightarrow> map_option (\<lambda>bs. (bs, m)) (host_read (host m) b (off + page_off vaddr) n)
      | None \<Rightarrow>
          (case luma_mapping vaddr of
             Some (Luma_fcram off) \<Rightarrow> map_option (\<lambda>bs. (bs, m)) (host_read (host m) FCRAM (unat off) n)
           | Some (Luma_mmio reg) \<Rightarrow> Some (le_bytes n (ucast (gpu_ReadReg (gpu m) reg)), m)
           | None \<Rightarrow>
               (case attributes (tables m pt) (page_of vaddr) of
                  Unmapped \<Rightarrow> Some (replicate n 0, m)
                | Memory \<Rightarrow> None
                | RasterizerCachedMemory \<Rightarrow>
                    (let m = RasterizerFlushVirtualRegion vaddr (of_nat n) Flush m
                     in case GetPointerForRasterizerCache m vaddr of
                          None \<Rightarrow> None
                        | Some (b, off) \<Rightarrow> map_option (\<lambda>bs. (bs, m)) (host_read (host m) b off n)))))"

definition put_host :: "host_memory option \<Rightarrow> MemorySystem \<Rightarrow> MemorySystem option" where
  "put_host h m = map_option (\<lambda>h. m\<lparr>host := h\<rparr>) h"

definition Write :: "u32 \<Rightarrow> bytes \<Rightarrow> nat \<Rightarrow> MemorySystem \<Rightarrow> MemorySystem option" where
  "Write vaddr data pt m =
     (case pointers (tables m pt) (page_of vaddr) of
        Some (b, off) \<Rightarrow> put_host (host_write (host m) b (off + page_off vaddr) data) m
      | None \<Rightarrow>
          (case luma_mapping vaddr of
             Some (Luma_fcram off) \<Rightarrow> put_host (host_write (host m) FCRAM (unat off) data) m
           | Some (Luma_mmio reg) \<Rightarrow>
               if length data \<noteq> 4 then None
               else Some (m\<lparr>host := gpu_WriteReg (gpu m) reg (ucast (decode_le data)) (host m)\<rparr>)
           | None \<Rightarrow>
               (case attributes (tables m pt) (page_of vaddr) of
                  Unmapped \<Rightarrow> Some m
                | Memory \<Rightarrow> None
                | RasterizerCachedMemory \<Rightarrow>
                    (let m = RasterizerFlushVirtualRegion vaddr (of_nat (length data)) Invalidate m
                     in case GetPointerForRasterizerCache m vaddr of
                          None \<Rightarrow> None
                        | Some (b, off) \<Rightarrow> put_host (host_write (host m) b off data) m))))"

text \<open>\<open>Common::AtomicCompareAndSwap\<close> on host memory.\<close>

definition compare_and_swap ::
    "backing \<Rightarrow> nat \<Rightarrow> bytes \<Rightarrow> bytes \<Rightarrow> MemorySystem \<Rightarrow> (bool \<times> MemorySystem) option" where
  "compare_and_swap b off data expected m =
     do {
       current \<leftarrow> host_read (host m) b off (length data);
       if current = expected then do {
         h \<leftarrow> host_write (host m) b off data;
         Some (True, m\<lparr>host := h\<rparr>)
       }
       else Some (False, m)
     }"

definition WriteExclusive :: "u32 \<Rightarrow> bytes \<Rightarrow> bytes \<Rightarrow> MemorySystem \<Rightarrow> (bool \<times> MemorySystem) option" where
  "WriteExclusive vaddr data expected m =
     (let pt = current_page_table m
      in case pointers (tables m pt) (page_of vaddr) of
           Some (b, off) \<Rightarrow> compare_and_swap b (off + page_off vaddr) data expected m
         | None \<Rightarrow>
             (case attributes (tables m pt) (page_of vaddr) of
                Unmapped \<Rightarrow> Some (True, m)
              | Memory \<Rightarrow> None
              | RasterizerCachedMemory \<Rightarrow>
                  (let m = RasterizerFlushVirtualRegion vaddr (of_nat (length data)) Invalidate m
                   in case GetPointerForRasterizerCache m vaddr of
                        None \<Rightarrow> None
                      | Some (b, off) \<Rightarrow> compare_and_swap b off data expected m)))"

definition IsValidVirtualAddress :: "nat \<Rightarrow> u32 \<Rightarrow> MemorySystem \<Rightarrow> bool" where
  "IsValidVirtualAddress process vaddr m =
     (if pointers (tables m process) (page_of vaddr) \<noteq> None then True
      else if attributes (tables m process) (page_of vaddr) = RasterizerCachedMemory then True
      else False)"

text \<open>\<open>GetPointer\<close>; \<open>Some None\<close> is the null pointer.\<close>

definition GetPointer :: "u32 \<Rightarrow> MemorySystem \<Rightarrow> (backing \<times> nat) option option" where
  "GetPointer vaddr m =
     (let pt = current_page_table m
      in case pointers (tables m pt) (page_of vaddr) of
           Some (b, off) \<Rightarrow> Some (Some (b, off + page_off vaddr))
         | None \<Rightarrow>
             if attributes (tables m pt) (page_of vaddr) = RasterizerCachedMemory
             then map_option Some (GetPointerForRasterizerCache m vaddr) else Some None)"

fun ReadCString :: "u32 \<Rightarrow> nat \<Rightarrow> MemorySystem \<Rightarrow> (bytes \<times> MemorySystem) option" where
  "ReadCString vaddr 0 m = Some ([], m)"
| "ReadCString vaddr (Suc max_length) m =
     do {
       (c, m) \<leftarrow> Read 1 vaddr (current_page_table m) m;
       if hd c = 0 then Some ([], m)
       else do {
         (rest, m) \<leftarrow> ReadCString (vaddr + 1) max_length m;
         Some (hd c # rest, m)
       }
     }"

section \<open>Rasterizer page marking\<close>

definition PhysicalToVirtualAddressForRasterizer :: "u32 \<Rightarrow> MemorySystem \<Rightarrow> u32 list" where
  "PhysicalToVirtualAddressForRasterizer addr m =
     (if addr \<ge> VRAM_PADDR \<and> addr < VRAM_PADDR_END then [addr - VRAM_PADDR + VRAM_VADDR]
      else if (case plugin_fb_addr m of None \<Rightarrow> False
               | Some fb_addr \<Rightarrow> addr \<ge> fb_addr \<and> addr < fb_addr + PLUGIN_3GX_FB_SIZE)
        then [addr - the (plugin_fb_addr m) + PLUGIN_3GX_FB_VADDR]
      else if addr \<ge> FCRAM_PADDR \<and> addr < FCRAM_PADDR_END
        then [addr - FCRAM_PADDR + LINEAR_HEAP_VADDR, addr - FCRAM_PADDR + NEW_LINEAR_HEAP_VADDR]
      else if addr \<ge> FCRAM_PADDR_END \<and> addr < FCRAM_N3DS_PADDR_END
        then [addr - FCRAM_PADDR + NEW_LINEAR_HEAP_VADDR]
      else [])"

definition mark_page :: "bool \<Rightarrow> u32 \<Rightarrow> nat \<Rightarrow> MemorySystem \<Rightarrow> MemorySystem option" where
  "mark_page cached vaddr pt m =
     (if cached then
        (case attributes (tables m pt) (page_of vaddr) of
           Unmapped \<Rightarrow> Some m
         | Memory \<Rightarrow> Some (set_page pt (page_of vaddr) RasterizerCachedMemory None m)
         | RasterizerCachedMemory \<Rightarrow> None)
      else
        (case attributes (tables m pt) (page_of vaddr) of
           Unmapped \<Rightarrow> Some m
         | RasterizerCachedMemory \<Rightarrow>
             (case GetPointerForRasterizerCache m (vaddr AND NOT CITRA_PAGE_MASK) of
                None \<Rightarrow> None
              | Some r \<Rightarrow> Some (set_page pt (page_of vaddr) Memory (Some r) m))
         | Memory \<Rightarrow> None))"

fun mark_tables :: "bool \<Rightarrow> u32 \<Rightarrow> nat list \<Rightarrow> MemorySystem \<Rightarrow> MemorySystem option" where
  "mark_tables cached vaddr [] m = Some m"
| "mark_tables cached vaddr (pt # pts) m = do { m \<leftarrow> mark_page cached vaddr pt m; mark_tables cached vaddr pts m }"

fun mark_addresses :: "bool \<Rightarrow> u32 list \<Rightarrow> MemorySystem \<Rightarrow> MemorySystem option" where
  "mark_addresses cached [] m = Some m"
| "mark_addresses cached (vaddr # vs) m =
     do {
       let m = marker_Mark vaddr cached m;
       m \<leftarrow> mark_tables cached vaddr (page_table_list m) m;
       mark_addresses cached vs m
     }"

fun mark_pages :: "bool \<Rightarrow> nat \<Rightarrow> u32 \<Rightarrow> MemorySystem \<Rightarrow> MemorySystem option" where
  "mark_pages cached 0 paddr m = Some m"
| "mark_pages cached (Suc n) paddr m =
     do {
       m \<leftarrow> mark_addresses cached (PhysicalToVirtualAddressForRasterizer paddr m) m;
       mark_pages cached n (paddr + of_nat CITRA_PAGE_SIZE) m
     }"

definition RasterizerMarkRegionCached :: "u32 \<Rightarrow> u32 \<Rightarrow> bool \<Rightarrow> MemorySystem \<Rightarrow> MemorySystem option" where
  "RasterizerMarkRegionCached start sz cached m =
     (if start = 0 then Some m
      else
        let num_pages = drop_bit CITRA_PAGE_BITS (start + sz - 1) - drop_bit CITRA_PAGE_BITS start + 1
        in mark_pages cached (unat num_pages) start m)"

section \<open>Clearing and copying blocks\<close>

function zero_block_loop :: "nat \<Rightarrow> nat \<Rightarrow> nat \<Rightarrow> nat \<Rightarrow> MemorySystem \<Rightarrow> MemorySystem option" where
  "zero_block_loop pt page_index page_offset remaining_size m =
     (if remaining_size > 0 then
        let copy_amount = min (CITRA_PAGE_SIZE - page_offset) remaining_size;
            current_vaddr = of_nat (page_index * CITRA_PAGE_SIZE + page_offset) :: u32
        in if page_index \<ge> PAGE_TABLE_NUM_ENTRIES then None
           else do {
             m \<leftarrow> (case attributes (tables m pt) page_index of
                      Unmapped \<Rightarrow> Some m
                    | Memory \<Rightarrow>
                        (case pointers (tables m pt) page_index of
                           None \<Rightarrow> None
                         | Some (b, off) \<Rightarrow>
                             put_host (host_write (host m) b (off + page_offset) (replicate copy_amount 0)) m)
                    | RasterizerCachedMemory \<Rightarrow>
                        (let m = RasterizerFlushVirtualRegion current_vaddr (of_nat copy_amount) Invalidate m
                         in case GetPointerForRasterizerCache m current_vaddr of
                              None \<Rightarrow> None
                            | Some (b, off) \<Rightarrow>
                                put_host (host_write (host m) b off (replicate copy_amount 0)) m));
             zero_block_loop pt (page_index + 1) 0 (remaining_size - copy_amount) m
           }
      else Some m)"
  by pat_completeness auto
termination
  by (relation "measures [\<lambda>(_, _, _, rem, _). rem, \<lambda>(_, _, off, _, _). off]") auto

declare zero_block_loop.simps [simp del]

definition ZeroBlock :: "nat \<Rightarrow> u32 \<Rightarrow> nat \<Rightarrow> MemorySystem \<Rightarrow> MemorySystem option" where
  "ZeroBlock process dest_addr sz m =
     zero_block_loop process (page_of dest_addr) (page_off dest_addr) sz m"

function copy_block_loop ::
    "nat \<Rightarrow> nat \<Rightarrow> u32 \<Rightarrow> nat \<Rightarrow> nat \<Rightarrow> nat \<Rightarrow> MemorySystem \<Rightarrow> MemorySystem option" where
  "copy_block_loop dest_process src_process dest_addr page_index page_offset remaining_size m =
     (if remaining_size > 0 then
        let copy_amount = min (CITRA_PAGE_SIZE - page_offset) remaining_size;
            current_vaddr = of_nat (page_index * CITRA_PAGE_SIZE + page_offset) :: u32
        in if page_index \<ge> PAGE_TABLE_NUM_ENTRIES then None
           else do {
             m \<leftarrow> (case attributes (tables m src_process) page_index of
                      Unmapped \<Rightarrow> ZeroBlock dest_process dest_addr copy_amount m
                    | Memory \<Rightarrow>
                        (case pointers (tables m src_process) page_index of
                           None \<Rightarrow> None
                         | Some (b, off) \<Rightarrow>
                             (case host_read (host m) b (off + page_offset) copy_amount of
                                None \<Rightarrow> None
                              | Some bs \<Rightarrow> WriteBlockImpl False dest_process m dest_addr bs))
                    | RasterizerCachedMemory \<Rightarrow>
                        (let m = RasterizerFlushVirtualRegion current_vaddr (of_nat copy_amount) Flush m
                         in case GetPointerForRasterizerCache m current_vaddr of
                              None \<Rightarrow> None
                            | Some (b, off) \<Rightarrow>
                                (case host_read (host m) b off copy_amount of
                                   None \<Rightarrow> None
                                 | Some bs \<Rightarrow> WriteBlockImpl False dest_process m dest_addr bs)));
             copy_block_loop dest_process src_process (dest_addr + of_nat copy_amount) (page_index + 1) 0
               (remaining_size - copy_amount) m
           }
      else Some m)"
  by pat_completeness auto
termination
  by (relation "measures [\<lambda>(_, _, _, _, _, rem, _). rem, \<lambda>(_, _, _, _, off, _, _). off]") auto

declare copy_block_loop.simps [simp del]

definition CopyBlock :: "nat \<Rightarrow> nat \<Rightarrow> u32 \<Rightarrow> u32 \<Rightarrow> nat \<Rightarrow> MemorySystem \<Rightarrow> MemorySystem option" where
  "CopyBlock dest_process src_process dest_addr src_addr sz m =
     copy_block_loop dest_process src_process dest_addr (page_of src_addr) (page_off src_addr) sz m"

section \<open>The page-table invariant\<close>

text \<open>
  \<open>core/memory.h\<close>: a page has a pointer only if it is of type \<open>Memory\<close>; and every page of type
  \<open>Memory\<close> has one, or the accesses abort.
\<close>

definition table_ok :: "PageTable \<Rightarrow> bool" where
  "table_ok t \<longleftrightarrow> (\<forall>p. pointers t p \<noteq> None \<longleftrightarrow> attributes t p = Memory)"

definition memory_ok :: "MemorySystem \<Rightarrow> bool" where
  "memory_ok m \<longleftrightarrow> (\<forall>pt. table_ok (tables m pt))"

lemma flush_keeps [simp]:
  "tables (RasterizerFlushVirtualRegion a n mode m) = tables m"
  "cache_marker (RasterizerFlushVirtualRegion a n mode m) = cache_marker m"
  "current_page_table (RasterizerFlushVirtualRegion a n mode m) = current_page_table m"
  "current_process (RasterizerFlushVirtualRegion a n mode m) = current_process m"
  "page_table_list (RasterizerFlushVirtualRegion a n mode m) = page_table_list m"
  "powered_on (RasterizerFlushVirtualRegion a n mode m) = powered_on m"
  by (simp_all add: RasterizerFlushVirtualRegion_def CheckRegion_def Let_def split: option.split)

lemma marker_Mark_tables [simp]: "tables (marker_Mark a c m) = tables m"
  by (simp add: marker_Mark_def split: option.split prod.split)

lemma set_page_tables:
  "tables (set_page pt p ty r m) q =
     (if q = pt then (tables m pt)\<lparr>attributes := (attributes (tables m pt))(p := ty),
                                  pointers := (pointers (tables m pt))(p := r)\<rparr> else tables m q)"
  by (simp add: set_page_def)

lemma set_page_ok: "memory_ok m \<Longrightarrow> (r \<noteq> None \<longleftrightarrow> ty = Memory) \<Longrightarrow> memory_ok (set_page pt p ty r m)"
  by (simp add: memory_ok_def table_ok_def set_page_tables)

lemma next_page_ref_None [simp]: "next_page_ref r = None \<longleftrightarrow> r = None"
  by (auto simp: next_page_ref_def split: option.split)

lemma map_pages_loop_ok:
  "map_pages_loop pt base stop r ty m = Some m' \<Longrightarrow> memory_ok m \<Longrightarrow> (r \<noteq> None \<longleftrightarrow> ty = Memory) \<Longrightarrow> memory_ok m'"
proof (induction pt base stop r ty m rule: map_pages_loop.induct)
  case (1 pt base stop r ty m)
  show ?case
  proof (cases "base = stop")
    case True
    with "1.prems" show ?thesis using map_pages_loop.simps [of pt stop stop r ty m] by simp
  next
    case False
    define m1 where "m1 = set_page pt (unat base) ty r m"
    define m2 where "m2 = (if ty = Memory \<and> marker_IsCached (base * of_nat CITRA_PAGE_SIZE) m1
                   then set_page pt (unat base) RasterizerCachedMemory None m1 else m1)"
    have "map_pages_loop pt base stop r ty m =
        (if unat base \<ge> PAGE_TABLE_NUM_ENTRIES then None else map_pages_loop pt (base + 1) stop (next_page_ref r) ty m2)"
      unfolding m1_def m2_def using False by (subst map_pages_loop.simps) (simp only: Let_def not_False_eq_True if_True)
    then have run: "\<not> unat base \<ge> PAGE_TABLE_NUM_ENTRIES" "map_pages_loop pt (base + 1) stop (next_page_ref r) ty m2 = Some m'"
      using "1.prems"(1) by (simp_all split: if_splits)
    have "memory_ok m1" using "1.prems" by (simp add: m1_def set_page_ok)
    then have "memory_ok m2" by (simp add: m2_def set_page_ok)
    then show ?thesis
      using "1.IH" [OF False run(1) m1_def m2_def run(2)] "1.prems"(3) by simp
  qed
qed

lemma MapPages_ok:
  assumes "MapPages pt base sz r ty m = Some m'" "memory_ok m" "r \<noteq> None \<longleftrightarrow> ty = Memory"
  shows "memory_ok m'"
  using assms(1) map_pages_loop_ok [OF _ _ assms(3)] assms(2)
  by (auto simp: MapPages_def Let_def memory_ok_def split: if_splits)

lemma mark_page_ok: "mark_page cached vaddr pt m = Some m' \<Longrightarrow> memory_ok m \<Longrightarrow> memory_ok m'"
  by (auto simp: mark_page_def set_page_ok split: if_splits PageType.splits option.splits)

lemma mark_tables_ok: "mark_tables cached vaddr pts m = Some m' \<Longrightarrow> memory_ok m \<Longrightarrow> memory_ok m'"
  by (induction pts arbitrary: m) (auto simp: bind_eq_Some_conv dest: mark_page_ok)

lemma mark_addresses_ok: "mark_addresses cached vs m = Some m' \<Longrightarrow> memory_ok m \<Longrightarrow> memory_ok m'"
proof (induction vs arbitrary: m)
  case (Cons v vs)
  then have "memory_ok (marker_Mark v cached m)" by (simp add: memory_ok_def)
  with Cons show ?case by (auto simp: bind_eq_Some_conv Let_def dest: mark_tables_ok)
qed simp

lemma mark_pages_ok: "mark_pages cached n paddr m = Some m' \<Longrightarrow> memory_ok m \<Longrightarrow> memory_ok m'"
  by (induction n arbitrary: paddr m) (auto simp: bind_eq_Some_conv dest: mark_addresses_ok)

lemma RasterizerMarkRegionCached_ok:
  "RasterizerMarkRegionCached start sz cached m = Some m' \<Longrightarrow> memory_ok m \<Longrightarrow> memory_ok m'"
  by (auto simp: RasterizerMarkRegionCached_def Let_def dest: mark_pages_ok split: if_splits)

section \<open>Accesses leave the page tables alone\<close>

lemma Write_tables: "Write vaddr data pt m = Some m' \<Longrightarrow> tables m' = tables m"
  by (auto simp: Write_def put_host_def Let_def split: option.splits luma_target.splits PageType.splits if_splits)

lemma write_block_loop_tables:
  "write_block_loop unsafe pt m i off src = Some m' \<Longrightarrow> tables m' = tables m"
proof (induction unsafe pt m i off src rule: write_block_loop.induct)
  case (1 unsafe pt m i off src)
  show ?case
  proof (cases "attributes (tables m pt) i")
    case Unmapped
    with 1 show ?thesis by (auto simp: write_block_loop.simps [of unsafe pt m] Let_def split: if_splits)
  next
    case Memory
    with 1 show ?thesis
      by (auto simp: write_block_loop.simps [of unsafe pt m] Let_def split: if_splits option.splits)
  next
    case RasterizerCachedMemory
    with 1 show ?thesis
      by (simp add: write_block_loop.simps [of unsafe pt m] Let_def split: if_splits option.splits prod.splits)
  qed
qed

section \<open>Reachable memories\<close>

text \<open>
  The operations that change the state of the memory system, as steps. A region is mapped onto a
  reference that exists, as every caller does.
\<close>

inductive mem_step :: "MemorySystem \<Rightarrow> MemorySystem \<Rightarrow> bool" where
  step_map: "MapMemoryRegion pt base sz (Some r) m = Some m' \<Longrightarrow> mem_step m m'"
| step_unmap: "UnmapRegion pt base sz m = Some m' \<Longrightarrow> mem_step m m'"
| step_mark: "RasterizerMarkRegionCached start sz cached m = Some m' \<Longrightarrow> mem_step m m'"
| step_write: "Write vaddr data pt m = Some m' \<Longrightarrow> mem_step m m'"
| step_block: "WriteBlockImpl unsafe pt m a bs = Some m' \<Longrightarrow> mem_step m m'"
| step_exclusive: "WriteExclusive vaddr data expected m = Some (ok, m') \<Longrightarrow> mem_step m m'"
| step_flush: "mem_step m (RasterizerFlushVirtualRegion a n mode m)"
| step_register: "mem_step m (RegisterPageTable pt m)"
| step_unregister: "mem_step m (UnregisterPageTable pt m)"

lemma same_tables_ok: "tables m' = tables m \<Longrightarrow> memory_ok m \<Longrightarrow> memory_ok m'"
  by (simp add: memory_ok_def)

lemma compare_and_swap_tables: "compare_and_swap b off data expected m = Some (ok, m') \<Longrightarrow> tables m' = tables m"
  by (auto simp: compare_and_swap_def bind_eq_Some_conv split: if_splits)

lemma WriteExclusive_tables: "WriteExclusive vaddr data expected m = Some (ok, m') \<Longrightarrow> tables m' = tables m"
  by (auto simp: WriteExclusive_def Let_def dest: compare_and_swap_tables
      split: option.splits PageType.splits)

lemma mem_step_ok: "mem_step m m' \<Longrightarrow> memory_ok m \<Longrightarrow> memory_ok m'"
proof (induction rule: mem_step.induct)
  case (step_map pt base sz r m m')
  then show ?case by (auto simp: MapMemoryRegion_def dest: MapPages_ok split: if_splits)
next
  case (step_unmap pt base sz m m')
  then show ?case by (auto simp: UnmapRegion_def dest: MapPages_ok split: if_splits)
next
  case (step_mark start sz cached m m')
  then show ?case by (rule RasterizerMarkRegionCached_ok)
next
  case (step_write vaddr data pt m m')
  then show ?case using same_tables_ok Write_tables by blast
next
  case (step_block unsafe pt m a bs m')
  then show ?case using same_tables_ok write_block_loop_tables unfolding WriteBlockImpl_def by blast
next
  case (step_exclusive vaddr data expected m ok m')
  then show ?case using same_tables_ok WriteExclusive_tables by blast
qed (simp_all add: memory_ok_def RegisterPageTable_def UnregisterPageTable_def)

lemma reachable_memory_ok: "mem_step\<^sup>*\<^sup>* m m' \<Longrightarrow> memory_ok m \<Longrightarrow> memory_ok m'"
  by (induction rule: rtranclp_induct) (auto dest: mem_step_ok)

section \<open>Mapping a region\<close>

text \<open>The page table with \<open>n\<close> pages from \<open>p\<close> mapped in order from \<open>(b, off)\<close>.\<close>

definition mapped_range :: "nat \<Rightarrow> nat \<Rightarrow> backing \<Rightarrow> nat \<Rightarrow> PageTable \<Rightarrow> bool" where
  "mapped_range p n b off t \<longleftrightarrow>
     (\<forall>i < n. attributes t (p + i) = Memory \<and> pointers t (p + i) = Some (b, off + i * CITRA_PAGE_SIZE))"

lemma next_page_ref_inside:
  "off + CITRA_PAGE_SIZE < GetSize b \<Longrightarrow> next_page_ref (Some (b, off)) = Some (b, off + CITRA_PAGE_SIZE)"
  by (simp add: next_page_ref_def ref_size_def)

lemma map_pages_loop_range:
  assumes "p + n \<le> PAGE_TABLE_NUM_ENTRIES" "off + n * CITRA_PAGE_SIZE \<le> GetSize b"
    and "\<And>i. i < n \<Longrightarrow> marker_At (of_nat (p + i) * of_nat CITRA_PAGE_SIZE) = None"
  shows "\<exists>m'. map_pages_loop pt (of_nat p) (of_nat (p + n)) (Some (b, off)) Memory m = Some m' \<and>
    mapped_range p n b off (tables m' pt) \<and> current_process m' = current_process m \<and>
    (\<forall>q. q < p \<or> p + n \<le> q \<longrightarrow> attributes (tables m' pt) q = attributes (tables m pt) q \<and>
        pointers (tables m' pt) q = pointers (tables m pt) q) \<and>
    (\<forall>q. q \<noteq> pt \<longrightarrow> tables m' q = tables m q) \<and> host m' = host m"
  using assms
proof (induction n arbitrary: p off m)
  case 0
  then show ?case by (simp add: map_pages_loop.simps mapped_range_def)
next
  case (Suc n)
  let ?m1 = "set_page pt p Memory (Some (b, off)) m"
  have small: "unat (of_nat k :: u32) = k" if "k \<le> PAGE_TABLE_NUM_ENTRIES" for k
    using that by (simp add: unat_of_nat)
  have up: "unat (of_nat p :: u32) = p" "unat (of_nat (p + Suc n) :: u32) = p + Suc n"
    using Suc.prems(1) by (intro small; simp)+
  then have ne: "(of_nat p :: u32) \<noteq> of_nat (p + Suc n)" by (metis add.right_neutral add_left_cancel nat.distinct(1))
  have notc: "\<not> marker_IsCached (of_nat p * of_nat CITRA_PAGE_SIZE) ?m1"
    using Suc.prems(3) [of 0] by (simp add: marker_IsCached_def)
  have step: "map_pages_loop pt (of_nat p) (of_nat (p + Suc n)) (Some (b, off)) Memory m =
      map_pages_loop pt (of_nat (Suc p)) (of_nat (Suc p + n)) (next_page_ref (Some (b, off))) Memory ?m1"
    using ne notc up(1) Suc.prems(1)
    by (subst map_pages_loop.simps) (simp add: Let_def add.commute)
  have at_p: "tables ?m1 pt = (tables m pt)\<lparr>attributes := (attributes (tables m pt))(p := Memory),
      pointers := (pointers (tables m pt))(p := Some (b, off))\<rparr>"
    by (simp add: set_page_tables)
  show ?case
  proof (cases "n = 0")
    case True
    then have "map_pages_loop pt (of_nat (Suc p)) (of_nat (Suc p + n)) (next_page_ref (Some (b, off))) Memory ?m1 = Some ?m1"
      by (subst map_pages_loop.simps) simp
    then show ?thesis
      unfolding step using True by (auto simp: mapped_range_def set_page_def)
  next
    case False
    then have nx: "next_page_ref (Some (b, off)) = Some (b, off + CITRA_PAGE_SIZE)"
      using Suc.prems(2) by (intro next_page_ref_inside) simp
    have pre: "Suc p + n \<le> PAGE_TABLE_NUM_ENTRIES" "off + CITRA_PAGE_SIZE + n * CITRA_PAGE_SIZE \<le> GetSize b"
      "\<And>i. i < n \<Longrightarrow> marker_At (of_nat (Suc p + i) * of_nat CITRA_PAGE_SIZE) = None"
      using Suc.prems(1,2) Suc.prems(3) [of "Suc i" for i] by simp_all
    from Suc.IH [OF pre, of ?m1] obtain m' where m': "map_pages_loop pt (of_nat (Suc p)) (of_nat (Suc p + n))
        (Some (b, off + CITRA_PAGE_SIZE)) Memory ?m1 = Some m'"
      "mapped_range (Suc p) n b (off + CITRA_PAGE_SIZE) (tables m' pt)" "current_process m' = current_process ?m1"
      "\<forall>q. q < Suc p \<or> Suc p + n \<le> q \<longrightarrow> attributes (tables m' pt) q = attributes (tables ?m1 pt) q \<and>
        pointers (tables m' pt) q = pointers (tables ?m1 pt) q"
      "\<forall>q. q \<noteq> pt \<longrightarrow> tables m' q = tables ?m1 q" "host m' = host ?m1"
      by blast
    have "mapped_range p (Suc n) b off (tables m' pt)"
      unfolding mapped_range_def
    proof (intro allI impI)
      fix i assume "i < Suc n"
      then show "attributes (tables m' pt) (p + i) = Memory \<and>
          pointers (tables m' pt) (p + i) = Some (b, off + i * CITRA_PAGE_SIZE)"
        using m'(2) m'(4) at_p by (cases i) (auto simp: mapped_range_def)
    qed
    then show ?thesis
      unfolding step nx using m' at_p by (intro exI [of _ m']) (auto simp: set_page_def)
  qed
qed

text \<open>
  Mapping the application heap onto FCRAM, as the kernel does for a process, makes the heap ready for
  the clients of \<open>guest_memory\<close>.
\<close>

lemma heap_not_rasterized:
  assumes "0x8000 \<le> q" "q < 0x10000"
  shows "marker_At (of_nat q * of_nat CITRA_PAGE_SIZE) = None"
proof -
  define a where "a = (of_nat q * of_nat CITRA_PAGE_SIZE :: u32)"
  have "unat a = q * CITRA_PAGE_SIZE"
    unfolding a_def using assms by (simp add: unat_word_ariths unat_of_nat)
  then have "0x8000000 \<le> unat a" "unat a < 0x10000000" using assms by simp_all
  then have "0x8000000 \<le> a" "a < 0x10000000" by (simp_all add: word_le_nat_alt word_less_nat_alt)
  then show ?thesis unfolding a_def [symmetric] marker_At_def by (auto simp: word_le_nat_alt word_less_nat_alt)
qed

lemma mapped_heap_ready:
  assumes "mapped_range 0x8000 0x8000 FCRAM off (tables m (current_process m))"
    "off + 0x8000000 \<le> GetSize FCRAM"
  shows "heap_ready m"
proof -
  let ?t = "tables m (current_process m)"
  have loc: "pointers ?t (a div CITRA_PAGE_SIZE) = Some (FCRAM, off + (a div CITRA_PAGE_SIZE - 0x8000) * CITRA_PAGE_SIZE)"
    "attributes ?t (a div CITRA_PAGE_SIZE) = Memory" "a div CITRA_PAGE_SIZE < 0x10000" "0x8000 \<le> a div CITRA_PAGE_SIZE"
    if "HEAP_VADDR \<le> a" "a < HEAP_VADDR_END" for a
  proof -
    show b: "a div CITRA_PAGE_SIZE < 0x10000" "0x8000 \<le> a div CITRA_PAGE_SIZE" using that by auto
    then have "a div CITRA_PAGE_SIZE - 0x8000 < 0x8000" by simp
    with assms(1) b show "pointers ?t (a div CITRA_PAGE_SIZE) = Some (FCRAM, off + (a div CITRA_PAGE_SIZE - 0x8000) * CITRA_PAGE_SIZE)"
      "attributes ?t (a div CITRA_PAGE_SIZE) = Memory"
      unfolding mapped_range_def by (metis le_add_diff_inverse)+
  qed
  have v: "vloc ?t a = (FCRAM, off + (a - HEAP_VADDR))" if "HEAP_VADDR \<le> a" "a < HEAP_VADDR_END" for a
    using loc [OF that] that by (simp add: vloc_def diff_mult_distrib)
  have "plain_page ?t (a div CITRA_PAGE_SIZE)" if "HEAP_VADDR \<le> a" "a < HEAP_VADDR_END" for a
  proof -
    have "(a div CITRA_PAGE_SIZE - 0x8000) * CITRA_PAGE_SIZE + CITRA_PAGE_SIZE \<le> 0x8000000"
      using loc(3,4) [OF that] by simp
    then show ?thesis
      using loc [OF that] assms(2) by (simp add: plain_page_def host_range_def del: GetSize.simps)
  qed
  moreover have "inj_on (vloc ?t) {HEAP_VADDR..<HEAP_VADDR_END}" by (rule inj_onI) (auto simp: v)
  ultimately show ?thesis by (simp add: heap_ready_def)
qed

lemma MapMemoryRegion_heap:
  assumes "off + 0x8000000 \<le> GetSize FCRAM"
  shows "\<exists>m'. MapMemoryRegion pt 0x08000000 0x08000000 (Some (FCRAM, off)) m = Some m' \<and>
    mapped_range 0x8000 0x8000 FCRAM off (tables m' pt) \<and> current_process m' = current_process m \<and>
    (\<forall>q. q \<noteq> pt \<longrightarrow> tables m' q = tables m q)"
proof -
  define m1 where "m1 = (if powered_on m
     then RasterizerFlushVirtualRegion (push_bit CITRA_PAGE_BITS (0x8000 :: u32)) (0x8000 * of_nat CITRA_PAGE_SIZE) FlushAndInvalidate m
     else m)"
  have al: "page_aligned 0x08000000"
    unfolding page_aligned_def by (rule bit_word_eqI) (simp add: bit_simps)
  have mk: "marker_At (of_nat (0x8000 + i) * of_nat CITRA_PAGE_SIZE) = None" if "i < 0x8000" for i
    using that by (intro heap_not_rasterized) simp_all
  from map_pages_loop_range [of "0x8000" "0x8000" off FCRAM pt m1, OF _ _ mk] assms
  obtain m' where m': "map_pages_loop pt (of_nat 0x8000) (of_nat (0x8000 + 0x8000)) (Some (FCRAM, off)) Memory m1 = Some m'"
    "mapped_range 0x8000 0x8000 FCRAM off (tables m' pt)" "current_process m' = current_process m1"
    "\<forall>q. q \<noteq> pt \<longrightarrow> tables m' q = tables m1 q"
    by auto
  have "MapMemoryRegion pt 0x08000000 0x08000000 (Some (FCRAM, off)) m =
      map_pages_loop pt (of_nat 0x8000) (of_nat (0x8000 + 0x8000)) (Some (FCRAM, off)) Memory m1"
    using al by (simp add: MapMemoryRegion_def MapPages_def m1_def Let_def)
  then show ?thesis using m' by (auto simp: m1_def)
qed

section \<open>Single accesses\<close>

lemma host_read_put: "host_range b off (length bs) \<Longrightarrow> host_read (host_put h b off bs) b off (length bs) = Some bs"
  by (simp add: host_read_def host_put_def) (rule nth_equalityI, simp_all)

lemma Read_Write_mapped:
  assumes "pointers (tables m pt) (page_of vaddr) = Some (b, off)"
    and "host_range b (off + page_off vaddr) (length data)"
  shows "\<exists>m'. Write vaddr data pt m = Some m' \<and> Read (length data) vaddr pt m' = Some (data, m')"
  using assms host_read_put [OF assms(2)]
  by (simp add: Write_def Read_def host_write_def put_host_def)

section \<open>Properties\<close>

text \<open>
  The invariant documented in \<open>core/memory.h\<close>: starting from cleared page tables, after any sequence of
  mappings, unmappings, rasterizer markings, writes and table registrations, a page has a pointer
  exactly when its attribute is \<open>Memory\<close>. So neither the fast path ever sees a stale pointer nor do
  \<open>Read\<close> and \<open>Write\<close> run into their assertion.
\<close>

theorem page_tables_stay_consistent:
  assumes "\<forall>pt. tables m pt = PageTable_Clear (t pt)" "mem_step\<^sup>*\<^sup>* m m'"
  shows "pointers (tables m' pt) p \<noteq> None \<longleftrightarrow> attributes (tables m' pt) p = Memory"
proof -
  have "memory_ok m" using assms(1) by (simp add: memory_ok_def table_ok_def PageTable_Clear_def)
  then show ?thesis using reachable_memory_ok [OF assms(2)] unfolding memory_ok_def table_ok_def by blast
qed

definition cleared_memory :: MemorySystem where
  "cleared_memory = (heap_memory (\<lambda>_. 0))\<lparr>tables := (\<lambda>_. PageTable_Clear heap_table)\<rparr>"

theorem page_tables_stay_consistent_witness:
  "pointers (tables (RegisterPageTable 1 cleared_memory) 0) 5 \<noteq> None \<longleftrightarrow>
   attributes (tables (RegisterPageTable 1 cleared_memory) 0) 5 = Memory"
proof (rule page_tables_stay_consistent)
  show "\<forall>pt. tables cleared_memory pt = PageTable_Clear ((\<lambda>_. heap_table) pt)" by (simp add: cleared_memory_def)
  show "mem_step\<^sup>*\<^sup>* cleared_memory (RegisterPageTable 1 cleared_memory)" by (blast intro: step_register)
qed

text \<open>
  Mapping the 128 MB application heap of the current process onto FCRAM with \<open>MapMemoryRegion\<close> succeeds,
  touches no other page table, and leaves a memory in which the block operations of the nuzlocke code
  behave as a plain array of bytes.
\<close>

theorem mapping_the_heap_makes_it_ready:
  assumes "off + 0x8000000 \<le> GetSize FCRAM"
  shows "\<exists>m'. MapMemoryRegion (current_process m) 0x08000000 0x08000000 (Some (FCRAM, off)) m = Some m' \<and>
    heap_ready m' \<and> (\<forall>q. q \<noteq> current_process m \<longrightarrow> tables m' q = tables m q)"
proof -
  obtain m' where "MapMemoryRegion (current_process m) 0x08000000 0x08000000 (Some (FCRAM, off)) m = Some m'"
    "mapped_range 0x8000 0x8000 FCRAM off (tables m' (current_process m))" "current_process m' = current_process m"
    "\<forall>q. q \<noteq> current_process m \<longrightarrow> tables m' q = tables m q"
    using MapMemoryRegion_heap [OF assms] by blast
  moreover from this have "heap_ready m'" using mapped_heap_ready [of off m'] assms by simp
  ultimately show ?thesis by blast
qed

theorem mapping_the_heap_makes_it_ready_witness:
  "\<exists>m'. MapMemoryRegion 0 0x08000000 0x08000000 (Some (FCRAM, 0x1000000)) cleared_memory = Some m' \<and> heap_ready m'"
  using mapping_the_heap_makes_it_ready [of "0x1000000" cleared_memory]
  by (auto simp: cleared_memory_def heap_memory_def)

text \<open>
  \<open>Write\<close> then \<open>Read\<close> of the same type at the same address gives the value back, when the page is mapped and
  the access stays inside the backing object; on an unmapped page below \<open>0x80000000\<close> a read gives zero
  and a write is ignored.
\<close>

theorem single_access_laws:
  "(pointers (tables m pt) (page_of vaddr) = Some (b, off) \<longrightarrow> host_range b (off + page_off vaddr) (length data) \<longrightarrow>
      (\<exists>m'. Write vaddr data pt m = Some m' \<and> Read (length data) vaddr pt m' = Some (data, m'))) \<and>
   (attributes (tables m pt) (page_of vaddr) = Unmapped \<longrightarrow> pointers (tables m pt) (page_of vaddr) = None \<longrightarrow>
      vaddr < 0x80000000 \<longrightarrow>
      Read n vaddr pt m = Some (replicate n 0, m) \<and> Write vaddr data pt m = Some m)"
proof -
  have "luma_mapping vaddr = None" if "vaddr < 0x80000000"
  proof -
    have "unat vaddr div 2 ^ 31 = 0" using that by (simp add: word_less_nat_alt)
    then have "\<not> bit (unat vaddr) 31" unfolding bit_iff_odd by simp
    then have "\<not> bit vaddr 31" by (simp add: bit_unsigned_iff)
    then show ?thesis by (simp add: luma_mapping_def)
  qed
  then show ?thesis using Read_Write_mapped [of m pt vaddr b off data] by (auto simp: Read_def Write_def)
qed

theorem single_access_laws_witness:
  "\<exists>m'. Write 0x8000010 [1, 2, 3, 4] 0 (heap_memory (\<lambda>_. 0)) = Some m' \<and>
    Read (length [1 :: u8, 2, 3, 4]) 0x8000010 0 m' = Some ([1, 2, 3, 4], m') \<and>
    Read 4 0x100 0 (heap_memory (\<lambda>_. 0)) = Some (replicate 4 0, heap_memory (\<lambda>_. 0))"
proof -
  have p: "page_of 0x8000010 = 0x8000" "page_off 0x8000010 = 0x10" "page_of 0x100 = 0"
    by (simp_all add: page_of_def page_off_def)
  have t: "tables (heap_memory (\<lambda>_. 0)) 0 = heap_table" by (simp add: heap_memory_def)
  show ?thesis
    using single_access_laws [of "heap_memory (\<lambda>_. 0)" 0 "0x8000010" FCRAM 0 "[1, 2, 3, 4]"]
      single_access_laws [of "heap_memory (\<lambda>_. 0)" 0 "0x100" FCRAM 0 "[]" 4]
    by (auto simp: p t heap_table_def host_range_def)
qed

text \<open>
  \<open>WriteExclusive\<close> on a mapped page is a compare-and-swap: it succeeds exactly when memory holds the
  expected value, stores the new value then, and otherwise leaves memory unchanged.
\<close>

theorem WriteExclusive_is_compare_and_swap:
  assumes "pointers (tables m (current_page_table m)) (page_of vaddr) = Some (b, off)"
    and "host_range b (off + page_off vaddr) (length data)"
  shows "\<exists>m'. WriteExclusive vaddr data expected m =
      Some (Read (length data) vaddr (current_page_table m) m = Some (expected, m), m') \<and>
    Read (length data) vaddr (current_page_table m') m' =
      Some (if Read (length data) vaddr (current_page_table m) m = Some (expected, m) then data
            else fst (the (Read (length data) vaddr (current_page_table m) m)), m')"
  using assms host_read_put [OF assms(2)]
  by (auto simp: WriteExclusive_def compare_and_swap_def Read_def host_write_def host_read_def Let_def)

theorem WriteExclusive_is_compare_and_swap_witness:
  "\<exists>m'. WriteExclusive 0x8000010 [7] [0] (heap_memory (\<lambda>_. 0)) = Some (True, m') \<and> Read 1 0x8000010 0 m' = Some ([7], m')"
proof -
  let ?m = "heap_memory (\<lambda>_. 0)"
  have p: "page_of 0x8000010 = 0x8000" "page_off 0x8000010 = 0x10"
    by (simp_all add: page_of_def page_off_def)
  have t: "tables ?m 0 = heap_table" "current_page_table ?m = 0" "host ?m = (\<lambda>_ _. 0)" by (simp_all add: heap_memory_def)
  have r: "Read 1 0x8000010 0 ?m = Some ([0], ?m)"
    by (simp add: Read_def p t heap_table_def host_read_def host_range_def)
  obtain m' where m': "WriteExclusive 0x8000010 [7] [0] ?m = Some (True, m')" "Read 1 0x8000010 (current_page_table m') m' = Some ([7], m')"
    using WriteExclusive_is_compare_and_swap [of ?m "0x8000010" FCRAM 0 "[7]" "[0]"] r
    by (auto simp: p t heap_table_def host_range_def)
  have "current_page_table m' = 0"
    using m'(1) by (auto simp: WriteExclusive_def Let_def p t heap_table_def compare_and_swap_def host_read_def
        host_write_def host_range_def split: if_splits)
  with m' show ?thesis by auto
qed

end
