(* ===== verification/Path_Parser.thy ===== *)
theory Path_Parser
  imports Host_Files "HOL-Library.Sublist"
begin

text \<open>
  \<open>core/file_sys/path_parser.cpp\<close> with the wrappers of \<open>common/file_util.cpp\<close> it uses. A guest path is
  its type and the string \<open>Path::AsString\<close> returns. The operating system enters as the record
  \<open>os_ops\<close> over an abstract host state; the wrappers follow the POSIX branches of the source.
\<close>

section \<open>The host\<close>

text \<open>
  \<open>os_stat\<close> is \<open>None\<close> when \<open>stat\<close> fails and otherwise says whether the path is a directory;
  \<open>os_mkdir\<close> answers whether it succeeded or the path existed (\<open>EEXIST\<close>); \<open>os_readdir\<close>
  is \<open>None\<close> when \<open>opendir\<close> fails and otherwise the names \<open>readdir\<close> gives; \<open>os_create\<close> opens for
  writing and truncates; \<open>os_open\<close> says whether a file can be opened without creating it;
  \<open>os_write_at\<close> seeks in a file open for writing and writes bytes there.
\<close>

record 'h os_ops =
  os_stat :: "string \<Rightarrow> 'h \<Rightarrow> bool option"
  os_unlink :: "string \<Rightarrow> 'h \<Rightarrow> bool \<times> 'h"
  os_mkdir :: "string \<Rightarrow> 'h \<Rightarrow> (bool \<times> bool) \<times> 'h"
  os_rmdir :: "string \<Rightarrow> 'h \<Rightarrow> bool \<times> 'h"
  os_rename :: "string \<Rightarrow> string \<Rightarrow> 'h \<Rightarrow> bool \<times> 'h"
  os_readdir :: "string \<Rightarrow> 'h \<Rightarrow> string list option"
  os_create :: "string \<Rightarrow> 'h \<Rightarrow> bool \<times> 'h"
  os_open :: "bool \<Rightarrow> string \<Rightarrow> 'h \<Rightarrow> bool"
  os_write_at :: "string \<Rightarrow> nat \<Rightarrow> bytes \<Rightarrow> 'h \<Rightarrow> bool \<times> 'h"

definition StripTailDirSlashes :: "string \<Rightarrow> string" where
  "StripTailDirSlashes fname =
     (if length fname \<le> 1 then fname else rev (dropWhile (\<lambda>c. c = CHR ''/'') (rev fname)))"

definition Exists :: "'h os_ops \<Rightarrow> string \<Rightarrow> 'h \<Rightarrow> bool" where
  "Exists os filename h = (os_stat os (StripTailDirSlashes filename) h \<noteq> None)"

definition IsDirectory :: "'h os_ops \<Rightarrow> string \<Rightarrow> 'h \<Rightarrow> bool" where
  "IsDirectory os filename h =
     (case os_stat os (StripTailDirSlashes filename) h of None \<Rightarrow> False | Some d \<Rightarrow> d)"

definition Delete :: "'h os_ops \<Rightarrow> string \<Rightarrow> 'h \<Rightarrow> bool \<times> 'h" where
  "Delete os filename h =
     (if \<not> Exists os filename h then (True, h)
      else if IsDirectory os filename h then (False, h)
      else os_unlink os filename h)"

definition CreateDir :: "'h os_ops \<Rightarrow> string \<Rightarrow> 'h \<Rightarrow> bool \<times> 'h" where
  "CreateDir os p h = (case os_mkdir os p h of ((ok, exists), h) \<Rightarrow> (ok \<or> exists, h))"

definition DeleteDir :: "'h os_ops \<Rightarrow> string \<Rightarrow> 'h \<Rightarrow> bool \<times> 'h" where
  "DeleteDir os filename h = (if \<not> IsDirectory os filename h then (False, h) else os_rmdir os filename h)"

definition Rename :: "'h os_ops \<Rightarrow> string \<Rightarrow> string \<Rightarrow> 'h \<Rightarrow> bool \<times> 'h" where
  "Rename os src dest h = os_rename os src dest h"

definition CreateEmptyFile :: "'h os_ops \<Rightarrow> string \<Rightarrow> 'h \<Rightarrow> bool \<times> 'h" where
  "CreateEmptyFile os filename h = os_create os filename h"

text \<open>The loop over the entries of a directory stops at the first callback that fails.\<close>

fun foreach_entry :: "(string \<Rightarrow> string \<Rightarrow> 'h \<Rightarrow> bool \<times> 'h) \<Rightarrow> string \<Rightarrow> string list \<Rightarrow> 'h \<Rightarrow> bool \<times> 'h" where
  "foreach_entry callback directory [] h = (True, h)"
| "foreach_entry callback directory (virtual_name # names) h =
     (if virtual_name = ''.'' \<or> virtual_name = ''..'' then foreach_entry callback directory names h
      else case callback directory virtual_name h of
             (False, h) \<Rightarrow> (False, h)
           | (True, h) \<Rightarrow> foreach_entry callback directory names h)"

definition ForeachDirectoryEntry ::
    "'h os_ops \<Rightarrow> string \<Rightarrow> (string \<Rightarrow> string \<Rightarrow> 'h \<Rightarrow> bool \<times> 'h) \<Rightarrow> 'h \<Rightarrow> bool \<times> 'h" where
  "ForeachDirectoryEntry os directory callback h =
     (case os_readdir os directory h of
        None \<Rightarrow> (False, h)
      | Some names \<Rightarrow> foreach_entry callback directory names h)"

text \<open>The callback of \<open>DeleteDirRecursively\<close>; \<open>recurse\<close> is the recursive call, if there is any left.\<close>

definition delete_entry ::
    "'h os_ops \<Rightarrow> (string \<Rightarrow> 'h \<Rightarrow> bool \<times> 'h) option \<Rightarrow> string \<Rightarrow> string \<Rightarrow> 'h \<Rightarrow> bool \<times> 'h" where
  "delete_entry os recurse directory virtual_name h =
     (let new_path = directory @ ''/'' @ virtual_name
      in if IsDirectory os new_path h then
           (case recurse of None \<Rightarrow> (False, h) | Some again \<Rightarrow> again new_path h)
         else Delete os new_path h)"

definition delete_tree ::
    "'h os_ops \<Rightarrow> (string \<Rightarrow> 'h \<Rightarrow> bool \<times> 'h) option \<Rightarrow> string \<Rightarrow> 'h \<Rightarrow> bool \<times> 'h" where
  "delete_tree os recurse directory h =
     (case ForeachDirectoryEntry os directory (delete_entry os recurse) h of
        (False, h) \<Rightarrow> (False, h)
      | (True, h) \<Rightarrow> (True, snd (DeleteDir os directory h)))"

primrec DeleteDirRecursively :: "'h os_ops \<Rightarrow> nat \<Rightarrow> string \<Rightarrow> 'h \<Rightarrow> bool \<times> 'h" where
  "DeleteDirRecursively os 0 = delete_tree os None"
| "DeleteDirRecursively os (Suc recursion) = delete_tree os (Some (DeleteDirRecursively os recursion))"

section \<open>Splitting a path\<close>

text \<open>\<open>Common::SplitString\<close>: \<open>getline\<close> gives no empty piece after a final delimiter.\<close>

lemma dropWhile_shorter: "dropWhile P xs = y # ys \<Longrightarrow> length ys < length xs"
  using length_dropWhile_le [of P xs] by simp

function SplitString :: "string \<Rightarrow> char \<Rightarrow> string list" where
  "SplitString str delim =
     (if str = [] then []
      else takeWhile (\<lambda>c. c \<noteq> delim) str #
        (case dropWhile (\<lambda>c. c \<noteq> delim) str of [] \<Rightarrow> [] | _ # rest \<Rightarrow> SplitString rest delim))"
  by pat_completeness auto
termination
  by (relation "measure (\<lambda>(str, delim). length str)") (auto dest: dropWhile_shorter)

declare SplitString.simps [simp del]

datatype LowPathType = PathInvalid | PathEmpty | PathBinary | PathChar | PathWchar

record Path =
  path_type :: LowPathType
  path_string :: string

record PathParser =
  path_sequence :: "string list"
  is_valid :: bool
  is_root :: bool

definition invalid_chars :: "char list" where
  "invalid_chars = [CHR ''<'', CHR ''>'', CHR 0x5C, CHR ''|'', CHR '':'', CHR 0x22, CHR ''*'', CHR ''?'']"

text \<open>The bounds check: \<open>None\<close> as soon as the level is negative.\<close>

fun check_level :: "string list \<Rightarrow> int \<Rightarrow> int option" where
  "check_level [] level = Some level"
| "check_level (node # nodes) level =
     (if node = ''..'' then if level - 1 < 0 then None else check_level nodes (level - 1)
      else check_level nodes (level + 1))"

definition PathParser_of :: "Path \<Rightarrow> PathParser" where
  "PathParser_of p =
     (let invalid = \<lparr>path_sequence = [], is_valid = False, is_root = False\<rparr>;
          s = path_string p
      in if path_type p \<noteq> PathChar \<and> path_type p \<noteq> PathWchar then invalid
         else if length s = 0 \<or> s ! 0 \<noteq> CHR ''/'' then invalid
         else if list_ex (\<lambda>c. c \<in> set invalid_chars) s then invalid
         else
           let nodes = filter (\<lambda>str. \<not> (str = '''' \<or> str = ''.'')) (SplitString s (CHR ''/''))
           in case check_level nodes 0 of
                None \<Rightarrow> \<lparr>path_sequence = nodes, is_valid = False, is_root = False\<rparr>
              | Some level \<Rightarrow> \<lparr>path_sequence = nodes, is_valid = True, is_root = (level = 0)\<rparr>)"

datatype HostStatus = InvalidMountPoint | PathNotFound | FileInPath | FileFound | DirectoryFound | NotFound

text \<open>\<open>if (path.back() != '/') path += '/'; path += node;\<close>\<close>

definition append_node :: "string \<Rightarrow> string \<Rightarrow> string" where
  "append_node p node = (if p \<noteq> [] \<and> last p = CHR ''/'' then p @ node else p @ ''/'' @ node)"

fun walk_nodes :: "'h os_ops \<Rightarrow> 'h \<Rightarrow> string \<Rightarrow> string list \<Rightarrow> HostStatus + string" where
  "walk_nodes os h p [] = Inr p"
| "walk_nodes os h p (node # nodes) =
     (let p = append_node p node
      in if \<not> Exists os p h then Inl PathNotFound
         else if IsDirectory os p h then walk_nodes os h p nodes
         else Inl FileInPath)"

definition GetHostStatus :: "'h os_ops \<Rightarrow> PathParser \<Rightarrow> string \<Rightarrow> 'h \<Rightarrow> HostStatus" where
  "GetHostStatus os pp mount_point h =
     (if \<not> IsDirectory os mount_point h then InvalidMountPoint
      else if path_sequence pp = [] then DirectoryFound
      else case walk_nodes os h mount_point (butlast (path_sequence pp)) of
             Inl st \<Rightarrow> st
           | Inr p \<Rightarrow>
               (let p = p @ ''/'' @ last (path_sequence pp)
                in if \<not> Exists os p h then NotFound
                   else if IsDirectory os p h then DirectoryFound
                   else FileFound))"

definition BuildHostPath :: "PathParser \<Rightarrow> string \<Rightarrow> string" where
  "BuildHostPath pp mount_point = foldl append_node mount_point (path_sequence pp)"

section \<open>Lexical resolution\<close>

text \<open>
  What a sequence of nodes means: a stack of directories, innermost first; \<open>..\<close> leaves the innermost
  one and fails above the start.
\<close>

fun resolve :: "string list \<Rightarrow> string list \<Rightarrow> string list option" where
  "resolve st [] = Some st"
| "resolve st (node # nodes) =
     (if node = ''..'' then (case st of [] \<Rightarrow> None | _ # st \<Rightarrow> resolve st nodes)
      else resolve (node # st) nodes)"

lemma check_level_resolve:
  "check_level nodes (int (length st)) = map_option (\<lambda>s. int (length s)) (resolve st nodes)"
proof (induction nodes arbitrary: st)
  case (Cons node nodes)
  then show ?case
    using Cons.IH [of "tl st"] Cons.IH [of "node # st"] by (cases st) (auto simp: algebra_simps)
qed simp

lemma resolve_append:
  "resolve st (xs @ ys) = (case resolve st xs of None \<Rightarrow> None | Some st \<Rightarrow> resolve st ys)"
  by (induction xs arbitrary: st) (auto split: list.split)

lemma resolve_under: "resolve st nodes = Some st' \<Longrightarrow> resolve (st @ base) nodes = Some (st' @ base)"
proof (induction nodes arbitrary: st)
  case (Cons node nodes)
  then show ?case
    using Cons.IH [of "tl st"] Cons.IH [of "node # st"] by (cases st) (auto split: if_splits)
qed simp

lemma resolve_take: "resolve st nodes \<noteq> None \<Longrightarrow> resolve st (take k nodes) \<noteq> None"
  using resolve_append [of st "take k nodes" "drop k nodes"] by (auto split: option.splits)

section \<open>Host paths and their components\<close>

definition components :: "string \<Rightarrow> string list" where
  "components s = filter (\<lambda>c. c \<noteq> []) (SplitString s (CHR ''/''))"

lemma no_delim_while:
  "d \<notin> set xs \<Longrightarrow> takeWhile (\<lambda>c. c \<noteq> d) (xs @ zs) = xs @ takeWhile (\<lambda>c. c \<noteq> d) zs"
  "d \<notin> set xs \<Longrightarrow> dropWhile (\<lambda>c. c \<noteq> d) (xs @ zs) = dropWhile (\<lambda>c. c \<noteq> d) zs"
  by (induction xs) auto

lemma SplitString_single:
  assumes "d \<notin> set xs" "xs \<noteq> []"
  shows "SplitString xs d = [xs]"
proof -
  have "takeWhile (\<lambda>c. c \<noteq> d) xs = xs" "dropWhile (\<lambda>c. c \<noteq> d) xs = []"
    using no_delim_while [OF assms(1), of "[]"] by simp_all
  then show ?thesis unfolding SplitString.simps [of xs d] using assms(2) by (simp only: if_False list.case)
qed

lemma SplitString_append:
  "SplitString (xs @ d # ys) d =
     (if xs = [] then [] # SplitString ys d
      else if last xs = d then SplitString xs d @ [] # SplitString ys d
      else SplitString xs d @ SplitString ys d)"
proof (induction xs d rule: SplitString.induct)
  case (1 xs d)
  show ?case
  proof (cases "xs = []")
    case True
    then show ?thesis by (simp add: SplitString.simps [of "d # ys"])
  next
    case False
    show ?thesis
    proof (cases "d \<in> set xs")
      case True
      then obtain pre post where xs: "xs = pre @ d # post" "d \<notin> set pre" by (meson split_list_first)
      have tw: "takeWhile (\<lambda>c. c \<noteq> d) (pre @ d # zs) = pre" "dropWhile (\<lambda>c. c \<noteq> d) (pre @ d # zs) = d # zs" for zs
        using xs(2) by (induction pre) auto
      have IH: "SplitString (post @ d # ys) d =
         (if post = [] then [] # SplitString ys d
          else if last post = d then SplitString post d @ [] # SplitString ys d
          else SplitString post d @ SplitString ys d)"
        using "1.IH" [of d post] False tw xs(1) by simp
      have s: "SplitString (pre @ d # zs) d = pre # SplitString zs d" for zs
        by (subst SplitString.simps) (simp add: tw)
      show ?thesis
        using IH s [of post] s [of "post @ d # ys"] xs(1) by (auto simp: SplitString.simps [of "[]"])
    next
      case nd: False
      then have "SplitString (xs @ d # ys) d = xs # SplitString ys d"
        using no_delim_while [of d xs "d # ys"] False by (subst SplitString.simps) simp
      moreover have "last xs \<noteq> d" using nd False last_in_set by metis
      ultimately show ?thesis using False SplitString_single [OF nd False] by simp
    qed
  qed
qed

lemma components_append: "components (xs @ CHR ''/'' # ys) = components xs @ components ys"
  by (simp add: components_def SplitString_append SplitString.simps [of "[]"])

lemma components_node: "node \<noteq> [] \<Longrightarrow> CHR ''/'' \<notin> set node \<Longrightarrow> components node = [node]"
  by (simp add: components_def SplitString_single)

lemma components_append_node:
  assumes "node \<noteq> []" "CHR ''/'' \<notin> set node"
  shows "components (append_node p node) = components p @ [node]"
proof (cases "p \<noteq> [] \<and> last p = CHR ''/''")
  case True
  then obtain q where "p = q @ [CHR ''/'']" by (metis append_butlast_last_id)
  then show ?thesis
    using components_append [of q node] components_append [of q "[]"] components_node [OF assms] True
    by (simp add: append_node_def components_def SplitString.simps [of "[]"])
next
  case False
  then have "append_node p node = p @ CHR ''/'' # node" by (simp add: append_node_def)
  then show ?thesis using components_append [of p node] components_node [OF assms] by simp
qed

lemma components_foldl:
  "\<forall>n \<in> set nodes. n \<noteq> [] \<and> CHR ''/'' \<notin> set n \<Longrightarrow>
   components (foldl append_node p nodes) = components p @ nodes"
  by (induction nodes arbitrary: p) (simp_all add: components_append_node)

lemma SplitString_no_delim: "n \<in> set (SplitString s d) \<Longrightarrow> d \<notin> set n"
proof (induction s d rule: SplitString.induct)
  case (1 s d)
  show ?case
  proof (cases "s = []")
    case False
    have "n = takeWhile (\<lambda>c. c \<noteq> d) s \<or>
        (\<exists>x rest. dropWhile (\<lambda>c. c \<noteq> d) s = x # rest \<and> n \<in> set (SplitString rest d))"
      using "1.prems" False SplitString.simps [of s d] by (auto split: list.splits)
    then show ?thesis using "1.IH" [OF False] by (auto dest: set_takeWhileD)
  qed (use "1.prems" in \<open>simp add: SplitString.simps\<close>)
qed

lemma parser_nodes:
  "n \<in> set (path_sequence (PathParser_of p)) \<Longrightarrow> n \<noteq> [] \<and> CHR ''/'' \<notin> set n"
  by (auto simp: PathParser_of_def Let_def dest: SplitString_no_delim split: if_splits option.splits)

lemma parser_valid:
  "is_valid (PathParser_of p) \<Longrightarrow>
   \<exists>st. resolve [] (path_sequence (PathParser_of p)) = Some st \<and> (is_root (PathParser_of p) \<longleftrightarrow> st = [])"
  using check_level_resolve [of _ "[]"]
  by (auto simp: PathParser_of_def Let_def split: if_splits option.splits)

section \<open>Properties\<close>

text \<open>
  C31: No valid guest path leaves the archive: the host path built for it consists of the components of the
  mount point followed by the parsed nodes, and at no point of the walk along these nodes does \<open>..\<close>
  climb above the mount point. The path is the root exactly when the walk ends at the mount point.
\<close>

theorem valid_paths_stay_inside:
  assumes "is_valid (PathParser_of p)"
  defines "nodes \<equiv> path_sequence (PathParser_of p)"
  shows "components (BuildHostPath (PathParser_of p) mount_point) = components mount_point @ nodes \<and>
    (\<forall>k. \<exists>st. resolve (rev (components mount_point)) (take k nodes) = Some (st @ rev (components mount_point))) \<and>
    (is_root (PathParser_of p) \<longleftrightarrow>
       resolve (rev (components mount_point)) nodes = Some (rev (components mount_point)))"
proof -
  obtain st where st: "resolve [] nodes = Some st" "is_root (PathParser_of p) \<longleftrightarrow> st = []"
    using parser_valid [OF assms(1)] unfolding nodes_def by blast
  have "\<exists>st. resolve (rev (components mount_point)) (take k nodes) = Some (st @ rev (components mount_point))" for k
  proof -
    obtain st' where "resolve [] (take k nodes) = Some st'" using resolve_take [of "[]" nodes k] st(1) by auto
    from resolve_under [OF this, of "rev (components mount_point)"] show ?thesis by auto
  qed
  moreover have "resolve (rev (components mount_point)) nodes = Some (st @ rev (components mount_point))"
    using resolve_under [OF st(1)] by simp
  moreover have "components (BuildHostPath (PathParser_of p) mount_point) = components mount_point @ nodes"
    unfolding BuildHostPath_def nodes_def using parser_nodes by (intro components_foldl) blast
  ultimately show ?thesis using st(2) by simp
qed

theorem valid_paths_stay_inside_witness:
  "components (BuildHostPath (PathParser_of \<lparr>path_type = PathChar, path_string = ''/a/../b''\<rparr>) ''/sd/'') = [''sd'', ''a'', ''..'', ''b'']"
proof -
  let ?p = "\<lparr>path_type = PathChar, path_string = ''/a/../b''\<rparr>"
  have pp: "PathParser_of ?p = \<lparr>path_sequence = [''a'', ''..'', ''b''], is_valid = True, is_root = False\<rparr>"
    by (simp add: PathParser_of_def invalid_chars_def SplitString.simps Let_def)
  have "components ''/sd/'' = [''sd'']" by (simp add: components_def SplitString.simps)
  then show ?thesis using valid_paths_stay_inside [of ?p "''/sd/''"] by (simp add: pp)
qed

lemma foreach_entry_keeps:
  assumes "\<And>name h. P h \<Longrightarrow> P (snd (callback directory name h))" and "P h"
  shows "P (snd (foreach_entry callback directory names h))"
  using assms(2)
proof (induction names arbitrary: h)
  case (Cons name names)
  have "P (snd (callback directory name h))" using assms(1) Cons.prems .
  then show ?case using Cons by (auto split: prod.split bool.split)
qed simp

lemma delete_tree_keeps:
  assumes unlink: "\<And>q h. prefix directory q \<Longrightarrow> P h \<Longrightarrow> P (snd (os_unlink os q h))"
    and rmdir: "\<And>q h. prefix directory q \<Longrightarrow> P h \<Longrightarrow> P (snd (os_rmdir os q h))"
    and again: "\<And>again name h. recurse = Some again \<Longrightarrow> P h \<Longrightarrow> P (snd (again (directory @ ''/'' @ name) h))"
    and "P h"
  shows "P (snd (delete_tree os recurse directory h))"
proof -
  have "P (snd (delete_entry os recurse directory name h))" if "P h" for name h
    using that again [OF _ that] unlink [OF _ that, of "directory @ ''/'' @ name"]
    by (auto simp: delete_entry_def Delete_def Let_def split: option.split)
  then have "P (snd (ForeachDirectoryEntry os directory (delete_entry os recurse) h))"
    using foreach_entry_keeps [of P "delete_entry os recurse" directory h] assms(4)
    by (auto simp: ForeachDirectoryEntry_def split: option.split)
  then show ?thesis using rmdir [of directory]
    by (auto simp: delete_tree_def DeleteDir_def split: prod.split bool.split)
qed

text \<open>
  Recursive deletion stays below the directory it is given: whatever holds of the host and is kept by
  unlinking and removing paths that start with that directory still holds when \<open>DeleteDirRecursively\<close>
  returns, for every depth of recursion and every directory tree.
\<close>

theorem recursive_deletion_stays_below:
  assumes "\<And>q h. prefix directory q \<Longrightarrow> P h \<Longrightarrow> P (snd (os_unlink os q h))"
    and "\<And>q h. prefix directory q \<Longrightarrow> P h \<Longrightarrow> P (snd (os_rmdir os q h))"
    and "P h"
  shows "P (snd (DeleteDirRecursively os recursion directory h))"
  using assms
proof (induction recursion arbitrary: directory h)
  case 0
  then show ?case unfolding DeleteDirRecursively.simps by (intro delete_tree_keeps [where P = P]) simp_all
next
  case (Suc recursion)
  have "P (snd (DeleteDirRecursively os recursion (directory @ ''/'' @ name) h))" if "P h" for name h
    using that Suc.prems(1,2) by (intro Suc.IH) (auto dest: append_prefixD)
  then show ?case
    unfolding DeleteDirRecursively.simps using Suc.prems by (intro delete_tree_keeps [where P = P]) simp_all
qed

text \<open>A host that only knows which paths exist and which of them are directories.\<close>

definition tree_host :: "(string \<Rightarrow> bool option) os_ops" where
  "tree_host =
     \<lparr>os_stat = (\<lambda>p h. h p), os_unlink = (\<lambda>p h. (h p = Some False, h(p := None))),
      os_mkdir = (\<lambda>p h. ((h p = None, h p \<noteq> None), h(p := Some True))),
      os_rmdir = (\<lambda>p h. (h p = Some True, h(p := None))), os_rename = (\<lambda>p q h. (True, h(q := h p, p := None))),
      os_readdir = (\<lambda>p h. if p = ''/a'' then Some [''.'', ''..'', ''x''] else None),
      os_create = (\<lambda>p h. (True, h(p := Some False))), os_open = (\<lambda>w p h. h p = Some False),
      os_write_at = (\<lambda>p off data h. (True, h))\<rparr>"

theorem recursive_deletion_stays_below_witness:
  "(snd (DeleteDirRecursively tree_host 256 ''/a'' [''/a'' \<mapsto> True, ''/a/x'' \<mapsto> False, ''/b'' \<mapsto> False])) ''/b'' = Some False"
  by (rule recursive_deletion_stays_below [where P = "\<lambda>h. h ''/b'' = Some False"])
    (auto simp: tree_host_def prefix_def)

end
