(* ===== verification/Save_Archive.thy ===== *)
theory Save_Archive
  imports Path_Parser Points_File
begin

text \<open>
  \<open>core/file_sys/savedata_archive.cpp\<close>, \<open>core/file_sys/disk_archive.cpp\<close> (files) and
  \<open>core/file_sys/xored_disk_file.h\<close>: the save data of the emulated console, kept on the host disk
  xored with a repeating key. An archive operation takes the host state and returns a result and the
  host state; an open file is its bytes on disk and its mode.
\<close>

unbundle bit_operations_syntax

section \<open>Results and modes\<close>

datatype Result =
    ResultSuccess | ResultInvalidPath | ResultUnsupportedOpenFlags | ResultInvalidOpenFlags
  | ResultFileNotFound | ResultPathNotFound | ResultUnexpectedFileOrDirectory | ResultFileAlreadyExists
  | ResultDirectoryAlreadyExists | ResultDirectoryNotEmpty | Result_NothingHappened | Result_Canceled
  | Result_TooLarge

type_synonym Mode = u32

definition read_flag :: "Mode \<Rightarrow> bool" where "read_flag mode = bit mode 0"
definition write_flag :: "Mode \<Rightarrow> bool" where "write_flag mode = bit mode 1"
definition create_flag :: "Mode \<Rightarrow> bool" where "create_flag mode = bit mode 2"

section \<open>Files on disk\<close>

record disk_file =
  content :: bytes
  file_mode :: Mode

definition DiskFile_Read :: "disk_file \<Rightarrow> nat \<Rightarrow> nat \<Rightarrow> Result + bytes" where
  "DiskFile_Read f off len =
     (if \<not> read_flag (file_mode f) then Inl ResultInvalidOpenFlags
      else Inr (take len (drop off (content f))))"

text \<open>\<open>fseek\<close> followed by \<open>fwrite\<close>: a gap before the offset is filled with zeros.\<close>

definition write_bytes :: "bytes \<Rightarrow> nat \<Rightarrow> bytes \<Rightarrow> bytes" where
  "write_bytes old off data =
     (if data = [] then old
      else take off (old @ replicate (off - length old) 0) @ data @ drop (off + length data) old)"

definition DiskFile_Write :: "disk_file \<Rightarrow> nat \<Rightarrow> bytes \<Rightarrow> (Result + nat) \<times> disk_file" where
  "DiskFile_Write f off data =
     (if \<not> write_flag (file_mode f) then (Inl ResultInvalidOpenFlags, f)
      else (Inr (length data), f\<lparr>content := write_bytes (content f) off data\<rparr>))"

definition DiskFile_GetSize :: "disk_file \<Rightarrow> nat" where
  "DiskFile_GetSize f = length (content f)"

definition DiskFile_SetSize :: "disk_file \<Rightarrow> nat \<Rightarrow> bool \<times> disk_file" where
  "DiskFile_SetSize f sz = (True, f\<lparr>content := take sz (content f @ replicate (sz - length (content f)) 0)\<rparr>)"

section \<open>The save cipher\<close>

definition XOR_KEY :: string where "XOR_KEY = ''ivo708''"

text \<open>\<open>XorBuffer\<close>: \<open>offset + i\<close> is computed in 64 bits.\<close>

definition XorBuffer :: "string \<Rightarrow> nat \<Rightarrow> bytes \<Rightarrow> bytes" where
  "XorBuffer key off buf =
     map (\<lambda>i. buf ! i XOR key_bytes key ! (((off + i) mod 2 ^ 64) mod length key)) [0..<length buf]"

definition Xored_Read :: "string \<Rightarrow> disk_file \<Rightarrow> nat \<Rightarrow> nat \<Rightarrow> Result + bytes" where
  "Xored_Read key f off len =
     (case DiskFile_Read f off len of Inl e \<Rightarrow> Inl e | Inr buffer \<Rightarrow> Inr (XorBuffer key off buffer))"

definition Xored_Write :: "string \<Rightarrow> disk_file \<Rightarrow> nat \<Rightarrow> bytes \<Rightarrow> (Result + nat) \<times> disk_file" where
  "Xored_Write key f off buffer =
     (let tmp = XorBuffer key off buffer in DiskFile_Write f off tmp)"

section \<open>The archive\<close>

record archive =
  mount_point :: string
  allow_zero_size_create :: bool

text \<open>What \<open>OpenFile\<close> returns on success: the host path and the mode of the file it opened.\<close>

definition OpenFile ::
    "'h os_ops \<Rightarrow> archive \<Rightarrow> Path \<Rightarrow> Mode \<Rightarrow> 'h \<Rightarrow> (Result + string \<times> Mode) \<times> 'h" where
  "OpenFile os ar p mode h =
     (let pp = PathParser_of p
      in if \<not> is_valid pp then (Inl ResultInvalidPath, h)
         else if mode = 0 then (Inl ResultUnsupportedOpenFlags, h)
         else if create_flag mode \<and> \<not> write_flag mode then (Inl ResultUnsupportedOpenFlags, h)
         else
           let full_path = BuildHostPath pp (mount_point ar);
               open_it = (\<lambda>h. if \<not> os_open os (write_flag mode) full_path h then (Inl ResultFileNotFound, h)
                              else (Inr (full_path, mode), h))
           in case GetHostStatus os pp (mount_point ar) h of
                InvalidMountPoint \<Rightarrow> (Inl ResultFileNotFound, h)
              | PathNotFound \<Rightarrow> (Inl ResultPathNotFound, h)
              | FileInPath \<Rightarrow> (Inl ResultUnexpectedFileOrDirectory, h)
              | DirectoryFound \<Rightarrow> (Inl ResultUnexpectedFileOrDirectory, h)
              | NotFound \<Rightarrow>
                  if \<not> create_flag mode then (Inl ResultFileNotFound, h)
                  else open_it (snd (CreateEmptyFile os full_path h))
              | FileFound \<Rightarrow> open_it h)"

definition DeleteFile :: "'h os_ops \<Rightarrow> archive \<Rightarrow> Path \<Rightarrow> 'h \<Rightarrow> Result \<times> 'h" where
  "DeleteFile os ar p h =
     (let pp = PathParser_of p
      in if \<not> is_valid pp then (ResultInvalidPath, h)
         else
           let full_path = BuildHostPath pp (mount_point ar)
           in case GetHostStatus os pp (mount_point ar) h of
                InvalidMountPoint \<Rightarrow> (ResultFileNotFound, h)
              | PathNotFound \<Rightarrow> (ResultPathNotFound, h)
              | FileInPath \<Rightarrow> (ResultFileNotFound, h)
              | DirectoryFound \<Rightarrow> (ResultFileNotFound, h)
              | NotFound \<Rightarrow> (ResultFileNotFound, h)
              | FileFound \<Rightarrow>
                  (case Delete os full_path h of
                     (True, h) \<Rightarrow> (ResultSuccess, h)
                   | (False, h) \<Rightarrow> (ResultFileNotFound, h)))"

text \<open>\<open>RenameFile\<close> and \<open>RenameDirectory\<close> have the same body.\<close>

definition RenameFile :: "'h os_ops \<Rightarrow> archive \<Rightarrow> Path \<Rightarrow> Path \<Rightarrow> 'h \<Rightarrow> Result \<times> 'h" where
  "RenameFile os ar src_path dest_path h =
     (let src = PathParser_of src_path
      in if \<not> is_valid src then (ResultInvalidPath, h)
         else
           let dest = PathParser_of dest_path
           in if \<not> is_valid dest then (ResultInvalidPath, h)
              else case Rename os (BuildHostPath src (mount_point ar)) (BuildHostPath dest (mount_point ar)) h of
                     (True, h) \<Rightarrow> (ResultSuccess, h)
                   | (False, h) \<Rightarrow> (Result_NothingHappened, h))"

definition RenameDirectory :: "'h os_ops \<Rightarrow> archive \<Rightarrow> Path \<Rightarrow> Path \<Rightarrow> 'h \<Rightarrow> Result \<times> 'h" where
  "RenameDirectory os ar src_path dest_path h =
     (let src = PathParser_of src_path
      in if \<not> is_valid src then (ResultInvalidPath, h)
         else
           let dest = PathParser_of dest_path
           in if \<not> is_valid dest then (ResultInvalidPath, h)
              else case Rename os (BuildHostPath src (mount_point ar)) (BuildHostPath dest (mount_point ar)) h of
                     (True, h) \<Rightarrow> (ResultSuccess, h)
                   | (False, h) \<Rightarrow> (Result_NothingHappened, h))"

definition DeleteDirectoryHelper ::
    "'h os_ops \<Rightarrow> archive \<Rightarrow> Path \<Rightarrow> (string \<Rightarrow> 'h \<Rightarrow> bool \<times> 'h) \<Rightarrow> 'h \<Rightarrow> Result \<times> 'h" where
  "DeleteDirectoryHelper os ar p deleter h =
     (let pp = PathParser_of p
      in if \<not> is_valid pp then (ResultInvalidPath, h)
         else if is_root pp then (ResultDirectoryNotEmpty, h)
         else
           let full_path = BuildHostPath pp (mount_point ar)
           in case GetHostStatus os pp (mount_point ar) h of
                InvalidMountPoint \<Rightarrow> (ResultPathNotFound, h)
              | PathNotFound \<Rightarrow> (ResultPathNotFound, h)
              | NotFound \<Rightarrow> (ResultPathNotFound, h)
              | FileInPath \<Rightarrow> (ResultUnexpectedFileOrDirectory, h)
              | FileFound \<Rightarrow> (ResultUnexpectedFileOrDirectory, h)
              | DirectoryFound \<Rightarrow>
                  (case deleter full_path h of
                     (True, h) \<Rightarrow> (ResultSuccess, h)
                   | (False, h) \<Rightarrow> (ResultDirectoryNotEmpty, h)))"

definition DeleteDirectory :: "'h os_ops \<Rightarrow> archive \<Rightarrow> Path \<Rightarrow> 'h \<Rightarrow> Result \<times> 'h" where
  "DeleteDirectory os ar p h = DeleteDirectoryHelper os ar p (DeleteDir os) h"

definition DeleteDirectoryRecursively :: "'h os_ops \<Rightarrow> archive \<Rightarrow> Path \<Rightarrow> 'h \<Rightarrow> Result \<times> 'h" where
  "DeleteDirectoryRecursively os ar p h = DeleteDirectoryHelper os ar p (DeleteDirRecursively os 256) h"

definition CreateFile :: "'h os_ops \<Rightarrow> archive \<Rightarrow> Path \<Rightarrow> nat \<Rightarrow> 'h \<Rightarrow> Result \<times> 'h" where
  "CreateFile os ar p sz h =
     (let pp = PathParser_of p
      in if \<not> is_valid pp then (ResultInvalidPath, h)
         else
           let full_path = BuildHostPath pp (mount_point ar)
           in case GetHostStatus os pp (mount_point ar) h of
                InvalidMountPoint \<Rightarrow> (ResultFileNotFound, h)
              | PathNotFound \<Rightarrow> (ResultPathNotFound, h)
              | FileInPath \<Rightarrow> (ResultUnexpectedFileOrDirectory, h)
              | DirectoryFound \<Rightarrow> (ResultFileAlreadyExists, h)
              | FileFound \<Rightarrow> (ResultFileAlreadyExists, h)
              | NotFound \<Rightarrow>
                  if sz = 0 then
                    if allow_zero_size_create ar then (ResultSuccess, snd (CreateEmptyFile os full_path h))
                    else (ResultUnsupportedOpenFlags, h)
                  else
                    (case os_create os full_path h of
                       (False, h) \<Rightarrow> (Result_TooLarge, h)
                     | (True, h) \<Rightarrow>
                         (case os_write_at os full_path (sz - 1) [0] h of
                            (True, h) \<Rightarrow> (ResultSuccess, h)
                          | (False, h) \<Rightarrow> (Result_TooLarge, h))))"

definition CreateDirectory :: "'h os_ops \<Rightarrow> archive \<Rightarrow> Path \<Rightarrow> 'h \<Rightarrow> Result \<times> 'h" where
  "CreateDirectory os ar p h =
     (let pp = PathParser_of p
      in if \<not> is_valid pp then (ResultInvalidPath, h)
         else
           case GetHostStatus os pp (mount_point ar) h of
                InvalidMountPoint \<Rightarrow> (ResultFileNotFound, h)
              | PathNotFound \<Rightarrow> (ResultPathNotFound, h)
              | FileInPath \<Rightarrow> (ResultUnexpectedFileOrDirectory, h)
              | DirectoryFound \<Rightarrow> (ResultDirectoryAlreadyExists, h)
              | FileFound \<Rightarrow> (ResultDirectoryAlreadyExists, h)
              | NotFound \<Rightarrow>
                  (case CreateDir os (mount_point ar @ path_string p) h of
                     (True, h) \<Rightarrow> (ResultSuccess, h)
                   | (False, h) \<Rightarrow> (Result_Canceled, h)))"

text \<open>\<open>OpenDirectory\<close> returns the directory of the host path.\<close>

definition OpenDirectory :: "'h os_ops \<Rightarrow> archive \<Rightarrow> Path \<Rightarrow> 'h \<Rightarrow> Result + string" where
  "OpenDirectory os ar p h =
     (let pp = PathParser_of p
      in if \<not> is_valid pp then Inl ResultInvalidPath
         else
           let full_path = BuildHostPath pp (mount_point ar)
           in case GetHostStatus os pp (mount_point ar) h of
                InvalidMountPoint \<Rightarrow> Inl ResultFileNotFound
              | PathNotFound \<Rightarrow> Inl ResultPathNotFound
              | NotFound \<Rightarrow> Inl ResultPathNotFound
              | FileInPath \<Rightarrow> Inl ResultUnexpectedFileOrDirectory
              | FileFound \<Rightarrow> Inl ResultUnexpectedFileOrDirectory
              | DirectoryFound \<Rightarrow> Inr full_path)"

definition GetFreeBytes :: nat where "GetFreeBytes = 1024 * 1024 * 32"

section \<open>The cipher is a stream mask\<close>

interpretation save: stream_mask
  "XorBuffer XOR_KEY" "\<lambda>i. key_bytes XOR_KEY ! ((i mod 2 ^ 64) mod length XOR_KEY)"
  by unfold_locales (simp_all add: XorBuffer_def)

lemma length_write_bytes:
  "length (write_bytes old off data) = (if data = [] then length old else max (length old) (off + length data))"
  by (auto simp: write_bytes_def)

lemma nth_write_bytes:
  assumes "i < length (write_bytes old off data)"
  shows "write_bytes old off data ! i =
    (if off \<le> i \<and> i < off + length data then data ! (i - off)
     else if i < length old then old ! i else 0)"
  using assms by (auto simp: write_bytes_def nth_append min_def)

text \<open>The contents of a save file as the guest sees them: every byte unmasked.\<close>

definition plain_text :: "disk_file \<Rightarrow> bytes" where
  "plain_text f = XorBuffer XOR_KEY 0 (content f)"

lemma length_plain_text [simp]: "length (plain_text f) = length (content f)"
  by (simp add: plain_text_def save.mask_length)

lemma nth_plain_text:
  "i < length (content f) \<Longrightarrow>
   plain_text f ! i = content f ! i XOR key_bytes XOR_KEY ! ((i mod 2 ^ 64) mod length XOR_KEY)"
  by (simp add: plain_text_def save.mask_nth)

lemma Xored_Read_plain:
  assumes "read_flag (file_mode f)"
  shows "Xored_Read XOR_KEY f off len = Inr (take len (drop off (plain_text f)))"
proof -
  have "XorBuffer XOR_KEY off (take len (drop off (content f))) = take len (drop off (plain_text f))"
  proof (rule nth_equalityI)
    fix i assume "i < length (XorBuffer XOR_KEY off (take len (drop off (content f))))"
    then have "i < len" "i < length (content f) - off" "off + i < length (content f)"
      by (auto simp: save.mask_length)
    then show "XorBuffer XOR_KEY off (take len (drop off (content f))) ! i = take len (drop off (plain_text f)) ! i"
      by (simp add: save.mask_nth nth_plain_text)
  qed (simp add: save.mask_length)
  then show ?thesis using assms by (simp add: Xored_Read_def DiskFile_Read_def)
qed

lemma Xored_Write_plain:
  assumes "write_flag (file_mode f)" "off \<le> length (content f)"
  shows "\<exists>f'. Xored_Write XOR_KEY f off data = (Inr (length data), f') \<and> file_mode f' = file_mode f \<and>
    plain_text f' = write_bytes (plain_text f) off data"
proof -
  let ?f' = "f\<lparr>content := write_bytes (content f) off (XorBuffer XOR_KEY off data)\<rparr>"
  have len: "length (XorBuffer XOR_KEY off data) = length data" by (rule save.mask_length)
  have e: "XorBuffer XOR_KEY off data = [] \<longleftrightarrow> data = []" using len by (metis length_0_conv)
  have "plain_text ?f' = write_bytes (plain_text f) off data"
  proof (rule nth_equalityI)
    show l: "length (plain_text ?f') = length (write_bytes (plain_text f) off data)"
      by (simp add: length_write_bytes len e)
    fix i assume "i < length (plain_text ?f')"
    then have i: "i < length (write_bytes (content f) off (XorBuffer XOR_KEY off data))"
      "i < length (write_bytes (plain_text f) off data)" using l by simp_all
    then have "i < length (content f) \<or> off \<le> i \<and> i < off + length data"
      using assms(2) by (auto simp: length_write_bytes len e split: if_splits)
    then show "plain_text ?f' ! i = write_bytes (plain_text f) off data ! i"
      using i by (auto simp: nth_plain_text nth_write_bytes len save.mask_nth)
  qed
  then show ?thesis
    using assms(1) len by (intro exI [of _ ?f']) (simp add: Xored_Write_def DiskFile_Write_def)
qed

section \<open>Properties\<close>



text \<open>
  A file created with a size is full of zero bytes on disk, so the guest reads the key instead of the
  zeros the console would give: byte \<open>i\<close> of a fresh save file reads as byte \<open>i mod 6\<close> of the key.
\<close>

theorem fresh_save_file_reads_key:
  assumes "read_flag mode" "n \<le> 2 ^ 64"
  shows "Xored_Read XOR_KEY \<lparr>content = replicate n 0, file_mode = mode\<rparr> 0 n =
    Inr (map (\<lambda>i. key_bytes XOR_KEY ! (i mod length XOR_KEY)) [0..<n])"
proof -
  have "XorBuffer XOR_KEY 0 (replicate n 0) = map (\<lambda>i. key_bytes XOR_KEY ! (i mod length XOR_KEY)) [0..<n]"
    unfolding save.mask_zeros using assms(2) by (intro map_cong) auto
  then show ?thesis using assms(1) by (simp add: Xored_Read_def DiskFile_Read_def)
qed

theorem fresh_save_file_reads_key_witness:
  "Xored_Read XOR_KEY \<lparr>content = replicate 2 0, file_mode = 1\<rparr> 0 2 = Inr [0x69, 0x76]"
proof -
  have "Xored_Read XOR_KEY \<lparr>content = replicate 2 0, file_mode = 1\<rparr> 0 2 =
      Inr (map (\<lambda>i. key_bytes XOR_KEY ! (i mod length XOR_KEY)) [0..<2])"
    by (rule fresh_save_file_reads_key) (simp_all add: read_flag_def)
  then show ?thesis by (simp add: upt_rec key_bytes_def XOR_KEY_def of_char_def)
qed

text \<open>
  C35: A path that is not valid is refused by every archive operation with \<open>ResultInvalidPath\<close>, before the
  host is asked anything or changed; a valid path to the root directory is never deleted either.
\<close>

theorem invalid_paths_never_reach_the_host:
  assumes "\<not> is_valid (PathParser_of p)"
  shows "OpenFile os ar p mode h = (Inl ResultInvalidPath, h) \<and> DeleteFile os ar p h = (ResultInvalidPath, h) \<and>
    RenameFile os ar p q h = (ResultInvalidPath, h) \<and> RenameDirectory os ar p q h = (ResultInvalidPath, h) \<and>
    (is_valid (PathParser_of q) \<longrightarrow> RenameFile os ar q p h = (ResultInvalidPath, h) \<and>
      RenameDirectory os ar q p h = (ResultInvalidPath, h)) \<and>
    DeleteDirectory os ar p h = (ResultInvalidPath, h) \<and>
    DeleteDirectoryRecursively os ar p h = (ResultInvalidPath, h) \<and> CreateFile os ar p sz h = (ResultInvalidPath, h) \<and>
    CreateDirectory os ar p h = (ResultInvalidPath, h) \<and> OpenDirectory os ar p h = Inl ResultInvalidPath \<and>
    (is_valid (PathParser_of q) \<and> is_root (PathParser_of q) \<longrightarrow>
       DeleteDirectory os ar q h = (ResultDirectoryNotEmpty, h) \<and>
       DeleteDirectoryRecursively os ar q h = (ResultDirectoryNotEmpty, h))"
  using assms
  by (simp add: OpenFile_def DeleteFile_def RenameFile_def RenameDirectory_def DeleteDirectory_def DeleteDirectoryRecursively_def
      DeleteDirectoryHelper_def CreateFile_def CreateDirectory_def OpenDirectory_def Let_def)

theorem invalid_paths_never_reach_the_host_witness:
  "DeleteFile tree_host \<lparr>mount_point = ''/sd'', allow_zero_size_create = True\<rparr>
     \<lparr>path_type = PathChar, path_string = ''/a/../../b''\<rparr> Map.empty = (ResultInvalidPath, Map.empty) \<and>
   DeleteDirectoryRecursively tree_host \<lparr>mount_point = ''/sd'', allow_zero_size_create = True\<rparr>
     \<lparr>path_type = PathChar, path_string = ''/a/..''\<rparr> Map.empty = (ResultDirectoryNotEmpty, Map.empty)"
proof -
  let ?p = "\<lparr>path_type = PathChar, path_string = ''/a/../../b''\<rparr>"
  let ?q = "\<lparr>path_type = PathChar, path_string = ''/a/..''\<rparr>"
  have p: "\<not> is_valid (PathParser_of ?p)"
    by (simp add: PathParser_of_def invalid_chars_def SplitString.simps Let_def)
  have q: "is_valid (PathParser_of ?q)" "is_root (PathParser_of ?q)"
    by (simp_all add: PathParser_of_def invalid_chars_def SplitString.simps Let_def)
  note all = invalid_paths_never_reach_the_host [OF p, of tree_host _ _ Map.empty ?q]
  show ?thesis
    using all [of "\<lparr>mount_point = ''/sd'', allow_zero_size_create = True\<rparr>" 0 0] q by (simp only: simp_thms)
qed

end
