(* ===== verification/Save_States.thy ===== *)
theory Save_States
  imports Prelude
begin

text \<open>
  \<open>core/poke_antirq.cpp\<close> (the guard against leaving a lost battle by closing the window) and the part of
  \<open>core/core.cpp\<close> it drives: the signals other threads send to the emulation thread and the save state
  requests the emulation thread makes of them. Clocks are read by the environment and enter as
  arguments; \<open>LoadState\<close> and \<open>SaveState\<close> themselves (the serialization of the whole console) are
  outside the model, which says when and for which slot they begin.
\<close>

section \<open>Signals\<close>

datatype Signal = Signal_None | Signal_Shutdown | Signal_Reset | Signal_Save | Signal_Load

datatype SaveStateStatus = Status_NONE | Status_LOADING | Status_SAVING

record System =
  current_signal :: Signal
  signal_param :: u32
  save_state_slot :: u32
  save_state_request_time :: int
  save_state_request_status :: SaveStateStatus

definition SendSignal :: "Signal \<Rightarrow> u32 \<Rightarrow> System \<Rightarrow> bool \<times> System" where
  "SendSignal signal param sys =
     (if current_signal sys \<noteq> signal \<and> current_signal sys \<noteq> Signal_None then (False, sys)
      else (True, sys\<lparr>current_signal := signal, signal_param := param\<rparr>))"

definition take_signal :: "System \<Rightarrow> (Signal \<times> u32) \<times> System" where
  "take_signal sys =
     (if current_signal sys \<noteq> Signal_None
      then ((current_signal sys, signal_param sys), sys\<lparr>current_signal := Signal_None\<rparr>)
      else ((Signal_None, 0), sys))"

text \<open>
  How far one call of \<open>RunLoop\<close> gets: it returns at once, it loads or saves the state of a slot, or it
  goes on to run the processor cores.
\<close>

datatype RunOutcome =
    Run_NotInitialized | Run_Reset | Run_ShutdownRequested | Run_ErrorSavestate
  | Run_LoadState u32 | Run_SaveState u32 | Run_Cores

text \<open>What \<open>RunLoop\<close> asks its surroundings: the clock is read when a request is made and again when
  its age is tested.\<close>

record RunInput =
  powered_on :: bool
  initial_setup :: bool
  kernel_idle :: bool
  time_of_request :: int
  time_of_check :: int

definition seconds_5 :: int where "seconds_5 = 5 * 10 ^ 9"

definition request :: "SaveStateStatus \<Rightarrow> u32 \<Rightarrow> int \<Rightarrow> System \<Rightarrow> RunOutcome option \<times> System" where
  "request st param now sys =
     (if save_state_request_status sys \<noteq> Status_NONE then (Some Run_ErrorSavestate, sys)
      else (None, sys\<lparr>save_state_slot := param, save_state_request_time := now, save_state_request_status := st\<rparr>))"

definition handle_signal :: "RunInput \<Rightarrow> Signal \<Rightarrow> u32 \<Rightarrow> System \<Rightarrow> RunOutcome option \<times> System" where
  "handle_signal inp signal param sys =
     (case signal of
        Signal_Reset \<Rightarrow>
          if initial_setup inp then (Some Run_ShutdownRequested, sys) else (Some Run_Reset, sys)
      | Signal_Shutdown \<Rightarrow> (Some Run_ShutdownRequested, sys)
      | Signal_Load \<Rightarrow> request Status_LOADING param (time_of_request inp) sys
      | Signal_Save \<Rightarrow> request Status_SAVING param (time_of_request inp) sys
      | Signal_None \<Rightarrow> (None, sys))"

definition serve_request :: "RunInput \<Rightarrow> System \<Rightarrow> RunOutcome \<times> System" where
  "serve_request inp sys =
     (if save_state_request_status sys = Status_LOADING \<and> kernel_idle inp then
        (Run_LoadState (save_state_slot sys), sys\<lparr>save_state_request_status := Status_NONE\<rparr>)
      else if save_state_request_status sys = Status_SAVING \<and> kernel_idle inp then
        (Run_SaveState (save_state_slot sys), sys\<lparr>save_state_request_status := Status_NONE\<rparr>)
      else if save_state_request_status sys \<noteq> Status_NONE \<and>
          time_of_check inp - save_state_request_time sys > seconds_5 then
        (Run_ErrorSavestate, sys\<lparr>save_state_request_status := Status_NONE\<rparr>)
      else (Run_Cores, sys))"

definition RunLoop :: "RunInput \<Rightarrow> System \<Rightarrow> RunOutcome \<times> System" where
  "RunLoop inp sys =
     (if \<not> powered_on inp then (Run_NotInitialized, sys)
      else case take_signal sys of
        ((signal, param), sys) \<Rightarrow>
          (case handle_signal inp signal param sys of
             (Some outcome, sys) \<Rightarrow> (outcome, sys)
           | (None, sys) \<Rightarrow> serve_request inp sys))"

definition IsSaveStateInProgress :: "System \<Rightarrow> bool" where
  "IsSaveStateInProgress sys = (save_state_request_status sys \<noteq> Status_NONE)"

section \<open>Titles and paths\<close>

text \<open>\<open>fmt\<close>'s zero-padded hexadecimal, for numbers of at most \<open>width\<close> digits.\<close>

fun format_hex :: "string \<Rightarrow> nat \<Rightarrow> int \<Rightarrow> string" where
  "format_hex alphabet 0 n = []"
| "format_hex alphabet (Suc width) n =
     alphabet ! nat (n div 16 ^ width mod 16) # format_hex alphabet width n"

definition lower_hex :: string where "lower_hex = ''0123456789abcdef''"
definition upper_hex :: string where "upper_hex = ''0123456789ABCDEF''"

text \<open>The program identifier the loader leaves in \<open>g_program_id\<close>.\<close>

definition loaded_program_id :: "64 word \<Rightarrow> string" where
  "loaded_program_id ncch_program_id = format_hex upper_hex 16 (uint ncch_program_id)"

datatype stoull_error = Invalid_argument | Out_of_range

definition hex_value :: "char \<Rightarrow> int option" where
  "hex_value c =
     (let n = of_char c
      in if 48 \<le> n \<and> n \<le> 57 then Some (n - 48)
         else if 97 \<le> n \<and> n \<le> 102 then Some (n - 87)
         else if 65 \<le> n \<and> n \<le> 70 then Some (n - 55)
         else None)"

fun hex_prefix :: "string \<Rightarrow> int \<Rightarrow> int" where
  "hex_prefix [] acc = acc"
| "hex_prefix (c # cs) acc =
     (case hex_value c of None \<Rightarrow> acc | Some d \<Rightarrow> hex_prefix cs (acc * 16 + d))"

definition is_space :: "char \<Rightarrow> bool" where
  "is_space c = (let n = of_char c :: int in n = 32 \<or> (9 \<le> n \<and> n \<le> 13))"

definition starts_hex :: "string \<Rightarrow> bool" where
  "starts_hex s = (case s of [] \<Rightarrow> False | c # _ \<Rightarrow> hex_value c \<noteq> None)"

definition drop_0x :: "string \<Rightarrow> string" where
  "drop_0x s =
     (case s of
        a # b # rest \<Rightarrow>
          if a = CHR ''0'' \<and> (b = CHR ''x'' \<or> b = CHR ''X'') \<and> starts_hex rest then rest else s
      | _ \<Rightarrow> s)"

text \<open>\<open>std::stoull(s, nullptr, 16)\<close>: blanks, a sign, an optional \<open>0x\<close>, then the longest run of digits.\<close>

definition stoull_hex :: "string \<Rightarrow> stoull_error + 64 word" where
  "stoull_hex s =
     (let s = dropWhile is_space s;
          negative = (s \<noteq> [] \<and> hd s = CHR ''-'');
          s = (if s \<noteq> [] \<and> (hd s = CHR ''-'' \<or> hd s = CHR ''+'') then tl s else s);
          s = drop_0x s;
          v = hex_prefix s 0
      in if \<not> starts_hex s then Inl Invalid_argument
         else if v \<ge> 2 ^ 64 then Inl Out_of_range
         else Inr (if negative then - of_int v else of_int v))"

definition GetCurrentTitleID_u64 :: "string \<Rightarrow> stoull_error + 64 word" where
  "GetCurrentTitleID_u64 title = (if title = [] then Inr 0 else stoull_hex title)"

definition SYSTEM_ID :: string where "SYSTEM_ID = replicate 32 CHR ''0''"
definition SDCARD_ID :: string where "SDCARD_ID = replicate 32 CHR ''0''"

definition GetSaveDataContainerPath :: "string \<Rightarrow> string" where
  "GetSaveDataContainerPath sdmc_directory =
     sdmc_directory @ ''Nintendo 3DS/'' @ SYSTEM_ID @ ''/'' @ SDCARD_ID @ ''/title/''"

definition GetSaveDataPath :: "string \<Rightarrow> 64 word \<Rightarrow> string" where
  "GetSaveDataPath mount_location program_id =
     (let high = ucast (drop_bit 32 program_id) :: u32;
          low = ucast (program_id AND 0xFFFFFFFF) :: u32
      in mount_location @ format_hex lower_hex 8 (uint high) @ ''/'' @ format_hex lower_hex 8 (uint low) @
         ''/data/00000001/'')"

definition GetSaveDataPathFor :: "string \<Rightarrow> 64 word \<Rightarrow> string" where
  "GetSaveDataPathFor mount_point program_id = GetSaveDataPath (GetSaveDataContainerPath mount_point) program_id"

text \<open>
  \<open>std::filesystem::path\<close> on Windows: \<open>operator/\<close> puts a backslash between its operands unless the
  left one ends in a separator; \<open>relative_path\<close> drops leading separators. \<open>exe_dir\<close> is the directory of
  the running executable.
\<close>

definition is_separator :: "char \<Rightarrow> bool" where
  "is_separator c = (c = CHR 0x5C \<or> c = CHR ''/'')"

definition path_join :: "string \<Rightarrow> string \<Rightarrow> string" where
  "path_join p q = (if p = [] \<or> is_separator (last p) then p @ q else p @ [CHR 0x5C] @ q)"

definition relative_path :: "string \<Rightarrow> string" where
  "relative_path p = dropWhile is_separator p"

definition GetCurrentSaveDataPath :: "string \<Rightarrow> string \<Rightarrow> stoull_error + string" where
  "GetCurrentSaveDataPath exe_dir title =
     (case GetCurrentTitleID_u64 title of
        Inl e \<Rightarrow> Inl e
      | Inr program_id \<Rightarrow>
          if program_id = 0 then Inr ''''
          else
            let sdmc_dir = path_join (path_join exe_dir ''user'') ''sdmc'';
                relativePath = GetSaveDataPathFor ''/'' program_id
            in Inr (path_join sdmc_dir (relative_path relativePath)))"

definition GetCurrentSaveStatePath :: "string \<Rightarrow> string \<Rightarrow> string" where
  "GetCurrentSaveStatePath exe_dir title =
     (if title = [] then ''''
      else path_join (path_join exe_dir ''user/states'') (title @ ''.00.cst''))"

section \<open>Opening and closing\<close>

text \<open>The file system is what \<open>fs::exists\<close> answers.\<close>

definition onStart :: "string \<Rightarrow> string \<Rightarrow> (string \<Rightarrow> bool) \<Rightarrow> System \<Rightarrow> System" where
  "onStart exe_dir title exists sys =
     (let saveStatePath = GetCurrentSaveStatePath exe_dir title
      in if \<not> exists saveStatePath then sys
         else snd (SendSignal Signal_Load 0 sys))"

definition timeout_ms :: nat where "timeout_ms = 5000"

text \<open>The waiting loop: \<open>there k\<close> is the answer of the \<open>k\<close>-th test of the file; the result is \<open>waited\<close>.\<close>

function wait_for_state :: "(nat \<Rightarrow> bool) \<Rightarrow> nat \<Rightarrow> nat \<Rightarrow> nat" where
  "wait_for_state there k waited =
     (if \<not> there k \<and> waited < timeout_ms then wait_for_state there (Suc k) (waited + 10) else waited)"
  by pat_completeness auto
termination by (relation "measure (\<lambda>(there, k, waited). timeout_ms - waited)") auto

declare wait_for_state.simps [simp del]

text \<open>Clock ticks are 100 ns, the resolution of both clocks on Windows.\<close>

definition permittedTime :: int where "permittedTime = 45 * 10 ^ 7"

record Clocks =
  last_write :: int
  now_sys :: int
  now_file :: int

definition elapsed :: "Clocks \<Rightarrow> int" where
  "elapsed c =
     (let delta_sys = last_write c - now_file c;
          file_time_as_system = now_sys c + delta_sys
      in now_sys c - file_time_as_system)"

text \<open>The result says how long the loop waited, if it was reached.\<close>

definition onClose ::
    "string \<Rightarrow> string \<Rightarrow> (string \<Rightarrow> bool) \<Rightarrow> Clocks \<Rightarrow> (nat \<Rightarrow> bool) \<Rightarrow> System \<Rightarrow>
     stoull_error + nat option \<times> System" where
  "onClose exe_dir title exists clocks there sys =
     (case GetCurrentSaveDataPath exe_dir title of
        Inl e \<Rightarrow> Inl e
      | Inr save_path \<Rightarrow>
          if \<not> exists (path_join save_path ''main'') then Inr (None, sys)
          else if elapsed clocks < permittedTime then Inr (None, sys)
          else case SendSignal Signal_Save 0 sys of
                 (False, sys) \<Rightarrow> Inr (None, sys)
               | (True, sys) \<Rightarrow> Inr (Some (wait_for_state there 0 0), sys))"

section \<open>Hexadecimal\<close>

lemma hex_value_alphabets:
  assumes "0 \<le> d" "d < 16"
  shows "hex_value (upper_hex ! nat d) = Some d \<and> hex_value (lower_hex ! nat d) = Some d \<and>
    \<not> is_space (upper_hex ! nat d) \<and> upper_hex ! nat d \<notin> {CHR ''-'', CHR ''+'', CHR ''x'', CHR ''X''}"
proof -
  have "d \<in> {0,1,2,3,4,5,6,7,8,9,10,11,12,13,14,15}" using assms by simp presburger
  then show ?thesis
    by (elim insertE emptyE)
      (simp_all add: upper_hex_def lower_hex_def hex_value_def is_space_def of_char_def Let_def)
qed

lemma hex_prefix_format:
  assumes "\<And>d. 0 \<le> d \<Longrightarrow> d < 16 \<Longrightarrow> hex_value (alphabet ! nat d) = Some d"
  shows "hex_prefix (format_hex alphabet width n) acc = acc * 16 ^ width + n mod 16 ^ width"
proof (induction width arbitrary: acc)
  case (Suc width)
  have "16 ^ width * (n div 16 ^ width mod 16) + n mod 16 ^ width = n mod (16 ^ width * 16)"
    by (simp add: zmod_zmult2_eq)
  then show ?case using Suc by (simp add: assms algebra_simps)
qed simp

lemma format_hex_inj:
  assumes "\<And>d. 0 \<le> d \<Longrightarrow> d < 16 \<Longrightarrow> hex_value (alphabet ! nat d) = Some d"
    and "0 \<le> m" "m < 16 ^ width" "0 \<le> n" "n < 16 ^ width"
    and "format_hex alphabet width m = format_hex alphabet width n"
  shows "m = n"
proof -
  have e: "hex_prefix (format_hex alphabet width k) 0 = 0 * 16 ^ width + k mod 16 ^ width" for k
    by (rule hex_prefix_format) (rule assms(1))
  have "hex_prefix (format_hex alphabet width m) 0 = m"
    unfolding e mod_pos_pos_trivial [OF assms(2,3)] by simp
  moreover have "hex_prefix (format_hex alphabet width n) 0 = n"
    unfolding e mod_pos_pos_trivial [OF assms(4,5)] by simp
  ultimately show ?thesis using assms(6) by argo
qed

lemma length_format_hex [simp]: "length (format_hex alphabet width n) = width"
  by (induction width) auto

lemma format_hex_chars:
  "c \<in> set (format_hex alphabet width n) \<Longrightarrow> \<exists>d. 0 \<le> d \<and> d < 16 \<and> c = alphabet ! nat d"
proof (induction width)
  case (Suc width)
  then show ?case by (cases "c \<in> set (format_hex alphabet width n)") (auto intro: exI [of _ "n div 16 ^ width mod 16"])
qed simp

lemma stoull_hex_digits:
  assumes "s \<noteq> []" "\<And>c. c \<in> set s \<Longrightarrow> \<exists>d. 0 \<le> d \<and> d < 16 \<and> c = upper_hex ! nat d" "hex_prefix s 0 < 2 ^ 64"
  shows "stoull_hex s = Inr (of_int (hex_prefix s 0))"
proof -
  have ok: "hex_value c \<noteq> None" "\<not> is_space c" "c \<notin> {CHR ''-'', CHR ''+'', CHR ''x'', CHR ''X''}"
    if "c \<in> set s" for c using assms(2) [OF that] hex_value_alphabets by auto
  have h: "hd s \<in> set s" using assms(1) by simp
  have "dropWhile is_space s = s" using ok(2) [OF h] assms(1) by (cases s) auto
  moreover have "drop_0x s = s"
    using ok(3) by (auto simp: drop_0x_def split: list.split)
  moreover have "starts_hex s" using ok(1) [OF h] assms(1) by (cases s) (auto simp: starts_hex_def)
  ultimately show ?thesis
    using ok(3) [OF h] assms(3) by (simp add: stoull_hex_def Let_def)
qed

lemma title_of_loaded: "GetCurrentTitleID_u64 (loaded_program_id w) = Inr w"
proof -
  have bound: "uint w < 2 ^ 64" using uint_lt2p [of w] by simp
  have val: "hex_prefix (loaded_program_id w) 0 = uint w"
    unfolding loaded_program_id_def
    using hex_prefix_format [of upper_hex 16 "uint w" 0] hex_value_alphabets bound by simp
  have ne: "loaded_program_id w \<noteq> []" unfolding loaded_program_id_def by (metis length_format_hex list.size(3) zero_neq_numeral)
  have "stoull_hex (loaded_program_id w) = Inr (of_int (hex_prefix (loaded_program_id w) 0))"
    using ne val bound
    by (intro stoull_hex_digits) (auto simp: loaded_program_id_def dest: format_hex_chars)
  then show ?thesis using ne val by (simp add: GetCurrentTitleID_u64_def)
qed

lemma halves_of_64:
  fixes w v :: "64 word"
  assumes "(ucast (drop_bit 32 w) :: u32) = ucast (drop_bit 32 v)" "(ucast (w AND 0xFFFFFFFF) :: u32) = ucast (v AND 0xFFFFFFFF)"
  shows "w = v"
proof (rule bit_word_eqI)
  fix n assume n: "n < LENGTH(64)"
  have m: "(0xFFFFFFFF :: 64 word) = mask 32" by (simp add: mask_eq_exp_minus_1)
  show "bit w n \<longleftrightarrow> bit v n"
  proof (cases "n < 32")
    case True
    then show ?thesis using arg_cong [OF assms(2), of "\<lambda>x. bit x n"] by (simp add: m bit_simps)
  next
    case False
    then have "n - 32 < 32" using n by simp
    with False show ?thesis using arg_cong [OF assms(1), of "\<lambda>x. bit x (n - 32)"] by (simp add: bit_simps)
  qed
qed

lemma GetSaveDataPath_inj:
  assumes "GetSaveDataPath m w = GetSaveDataPath m v"
  shows "w = v"
proof -
  have d: "\<And>d. 0 \<le> d \<Longrightarrow> d < 16 \<Longrightarrow> hex_value (lower_hex ! nat d) = Some d" using hex_value_alphabets by blast
  have b: "uint (x :: u32) < 16 ^ 8" for x using uint_lt2p [of x] by simp
  have eq: "format_hex lower_hex 8 (uint (ucast (drop_bit 32 w) :: u32)) = format_hex lower_hex 8 (uint (ucast (drop_bit 32 v) :: u32)) \<and>
    format_hex lower_hex 8 (uint (ucast (w AND 0xFFFFFFFF) :: u32)) = format_hex lower_hex 8 (uint (ucast (v AND 0xFFFFFFFF) :: u32))"
    using assms by (simp add: GetSaveDataPath_def Let_def del: format_hex.simps)
  have "(ucast (drop_bit 32 w) :: u32) = ucast (drop_bit 32 v)" "(ucast (w AND 0xFFFFFFFF) :: u32) = ucast (v AND 0xFFFFFFFF)"
    using eq format_hex_inj [OF d _ b _ b] by (simp_all add: word_uint_eq_iff)
  then show ?thesis by (rule halves_of_64)
qed

section \<open>The waiting loop\<close>

lemma wait_for_state_found:
  assumes "there (k + n)" "\<And>j. j < n \<Longrightarrow> \<not> there (k + j)" "waited + 10 * n \<le> timeout_ms"
  shows "wait_for_state there k waited = waited + 10 * n"
  using assms
proof (induction n arbitrary: k waited)
  case 0
  then show ?case by (subst wait_for_state.simps) simp
next
  case (Suc n)
  have "wait_for_state there (Suc k) (waited + 10) = waited + 10 + 10 * n"
    using Suc.prems(1,3) Suc.prems(2) [of "Suc j" for j] by (intro Suc.IH) auto
  then show ?case using Suc.prems(2) [of 0] Suc.prems(3) by (subst wait_for_state.simps) simp
qed

lemma wait_for_state_timeout:
  assumes "\<And>j. j < n \<Longrightarrow> \<not> there (k + j)" "waited + 10 * n = timeout_ms"
  shows "wait_for_state there k waited = timeout_ms"
  using assms
proof (induction n arbitrary: k waited)
  case 0
  then show ?case by (subst wait_for_state.simps) simp
next
  case (Suc n)
  have "wait_for_state there (Suc k) (waited + 10) = timeout_ms"
    using Suc.prems(2) Suc.prems(1) [of "Suc j" for j] by (intro Suc.IH) auto
  then show ?case using Suc.prems(1) [of 0] Suc.prems(2) by (subst wait_for_state.simps) simp
qed

section \<open>Runs of the system\<close>

text \<open>
  Any interleaving of signals from other threads and turns of the emulation thread, with what was sent
  and what the turns came to.
\<close>

definition idle_system :: System where
  "idle_system = \<lparr>current_signal = Signal_None, signal_param = 0, save_state_slot = 0,
     save_state_request_time = 0, save_state_request_status = Status_NONE\<rparr>"

inductive system_run :: "System \<Rightarrow> (Signal \<times> u32) list \<Rightarrow> RunOutcome list \<Rightarrow> bool" where
  boot: "system_run idle_system [] []"
| send: "system_run sys sent outs \<Longrightarrow> SendSignal signal param sys = (ok, sys') \<Longrightarrow>
    system_run sys' ((signal, param) # sent) outs"
| turn: "system_run sys sent outs \<Longrightarrow> RunLoop inp sys = (outcome, sys') \<Longrightarrow>
    system_run sys' sent (outcome # outs)"

inductive_cases system_run_sendE: "system_run sys (e # sent) outs"

definition state_operation :: "RunOutcome \<Rightarrow> bool" where
  "state_operation r = (case r of Run_LoadState _ \<Rightarrow> True | Run_SaveState _ \<Rightarrow> True | _ \<Rightarrow> False)"

lemma state_operation_simps [simp]:
  "state_operation (Run_LoadState p)" "state_operation (Run_SaveState p)" "\<not> state_operation Run_Cores"
  "\<not> state_operation Run_NotInitialized" "\<not> state_operation Run_Reset"
  "\<not> state_operation Run_ShutdownRequested" "\<not> state_operation Run_ErrorSavestate"
  by (simp_all add: state_operation_def)

text \<open>What is pending was sent, and what is pending or begun is no more than what was sent.\<close>

definition accounted :: "System \<Rightarrow> (Signal \<times> u32) list \<Rightarrow> RunOutcome list \<Rightarrow> bool" where
  "accounted sys sent outs \<longleftrightarrow>
     (current_signal sys \<noteq> Signal_None \<longrightarrow> (current_signal sys, signal_param sys) \<in> set sent) \<and>
     (save_state_request_status sys = Status_LOADING \<longrightarrow> (Signal_Load, save_state_slot sys) \<in> set sent) \<and>
     (save_state_request_status sys = Status_SAVING \<longrightarrow> (Signal_Save, save_state_slot sys) \<in> set sent) \<and>
     length (filter state_operation outs) + (if current_signal sys = Signal_None then 0 else 1) +
       (if save_state_request_status sys = Status_NONE then 0 else 1) \<le> length sent"

lemma accounted_take:
  assumes "accounted sys sent outs" "take_signal sys = ((signal, param), sys')"
  shows "current_signal sys' = Signal_None" "signal \<noteq> Signal_None \<Longrightarrow> (signal, param) \<in> set sent"
    "accounted sys' sent outs"
    "signal \<noteq> Signal_None \<Longrightarrow> length (filter state_operation outs) + 1 +
       (if save_state_request_status sys' = Status_NONE then 0 else 1) \<le> length sent"
  using assms by (auto simp: accounted_def take_signal_def split: if_splits)

lemma accounted_handle:
  assumes "accounted sys sent outs" "current_signal sys = Signal_None"
    "signal \<noteq> Signal_None \<Longrightarrow> (signal, param) \<in> set sent"
    "signal \<noteq> Signal_None \<Longrightarrow> length (filter state_operation outs) + 1 +
       (if save_state_request_status sys = Status_NONE then 0 else 1) \<le> length sent"
    "handle_signal inp signal param sys = (r, sys')"
  shows "accounted sys' sent outs \<and> (\<forall>outcome. r = Some outcome \<longrightarrow> \<not> state_operation outcome)"
  using assms
  by (cases signal) (auto simp: accounted_def handle_signal_def request_def split: if_splits)

lemma accounted_serve:
  assumes "accounted sys sent outs" "serve_request inp sys = (outcome, sys')"
  shows "accounted sys' sent (outcome # outs) \<and>
    (\<forall>p. outcome = Run_LoadState p \<longrightarrow> (Signal_Load, p) \<in> set sent) \<and>
    (\<forall>p. outcome = Run_SaveState p \<longrightarrow> (Signal_Save, p) \<in> set sent)"
  using assms by (auto simp: accounted_def serve_request_def split: if_splits)

lemma accounted_turn:
  assumes "accounted sys sent outs" "RunLoop inp sys = (outcome, sys')"
  shows "accounted sys' sent (outcome # outs) \<and>
    (\<forall>p. outcome = Run_LoadState p \<longrightarrow> (Signal_Load, p) \<in> set sent) \<and>
    (\<forall>p. outcome = Run_SaveState p \<longrightarrow> (Signal_Save, p) \<in> set sent)"
proof (cases "powered_on inp")
  case False
  then show ?thesis using assms by (auto simp: RunLoop_def accounted_def)
next
  case True
  obtain signal param s1 where t: "take_signal sys = ((signal, param), s1)" by (metis surj_pair)
  obtain r s2 where h: "handle_signal inp signal param s1 = (r, s2)" by (metis surj_pair)
  note tk = accounted_take [OF assms(1) t]
  have h2: "accounted s2 sent outs" "\<forall>outcome. r = Some outcome \<longrightarrow> \<not> state_operation outcome"
    using accounted_handle [OF tk(3) tk(1) tk(2) tk(4) h] by blast+
  show ?thesis
  proof (cases r)
    case None
    then have "serve_request inp s2 = (outcome, sys')" using assms(2) True t h by (simp add: RunLoop_def)
    then show ?thesis by (rule accounted_serve [OF h2(1)])
  next
    case (Some out)
    then have "outcome = out" "sys' = s2" using assms(2) True t h by (simp_all add: RunLoop_def)
    then show ?thesis using h2 Some by (auto simp: accounted_def)
  qed
qed

lemma system_run_accounted: "system_run sys sent outs \<Longrightarrow> accounted sys sent outs"
proof (induction rule: system_run.induct)
  case boot
  then show ?case by (simp add: accounted_def idle_system_def)
next
  case (send sys sent outs signal param ok sys')
  then show ?case by (auto simp: accounted_def SendSignal_def split: if_splits)
next
  case (turn sys sent outs inp outcome sys')
  then show ?case using accounted_turn by blast
qed

section \<open>Properties\<close>

text \<open>
  C33: Save states are loaded and saved only when asked for: in every interleaving of signals with turns of
  the emulation thread, each slot loaded (saved) was named by a load (save) signal, and there are never
  more loads and saves than signals.
\<close>

theorem state_operations_were_requested:
  assumes "system_run sys sent outs"
  shows "(\<forall>slot. Run_LoadState slot \<in> set outs \<longrightarrow> (Signal_Load, slot) \<in> set sent) \<and>
    (\<forall>slot. Run_SaveState slot \<in> set outs \<longrightarrow> (Signal_Save, slot) \<in> set sent) \<and>
    length (filter state_operation outs) \<le> length sent"
proof -
  have "(\<forall>slot. Run_LoadState slot \<in> set outs \<longrightarrow> (Signal_Load, slot) \<in> set sent) \<and>
    (\<forall>slot. Run_SaveState slot \<in> set outs \<longrightarrow> (Signal_Save, slot) \<in> set sent)"
    using assms
  proof (induction rule: system_run.induct)
    case (turn sys sent outs inp outcome sys')
    then show ?case using accounted_turn [OF system_run_accounted [OF turn.hyps(1)] turn.hyps(2)] by auto
  qed auto
  then show ?thesis using system_run_accounted [OF assms] by (auto simp: accounted_def split: if_splits)
qed

text \<open>A powered console with an idle kernel, at time 0.\<close>

definition ready_input :: RunInput where
  "ready_input = \<lparr>powered_on = True, initial_setup = False, kernel_idle = True, time_of_request = 0, time_of_check = 0\<rparr>"

theorem state_operations_were_requested_witness:
  "\<exists>sys. system_run sys [(Signal_Save, 3)] [Run_SaveState 3] \<and> length (filter state_operation [Run_SaveState 3]) \<le> 1"
proof -
  let ?s1 = "idle_system\<lparr>current_signal := Signal_Save, signal_param := 3\<rparr>"
  have "system_run ?s1 [(Signal_Save, 3)] []"
    by (rule system_run.send [OF system_run.boot, of _ _ True]) (simp add: SendSignal_def idle_system_def)
  then have "system_run (snd (RunLoop ready_input ?s1)) [(Signal_Save, 3)] [Run_SaveState 3]"
    by (rule system_run.turn [of _ _ _ ready_input])
      (simp add: RunLoop_def take_signal_def handle_signal_def request_def serve_request_def ready_input_def
        idle_system_def)
  from state_operations_were_requested [OF this] this show ?thesis by auto
qed

text \<open>
  C34: The guard against leaving: closing a title whose save file was last written 45 seconds ago or more
  sends the save signal, waits at most five seconds for the state file, and the next turn of an idle
  console saves slot 0; closing within 45 seconds of a save leaves the console alone. On the next start
  with the state file present, the next turn loads slot 0.
\<close>

theorem closing_saves_and_starting_loads:
  assumes "w \<noteq> 0" "current_signal sys = Signal_None" "\<not> IsSaveStateInProgress sys"
    and "GetCurrentSaveDataPath exe_dir (loaded_program_id w) = Inr save_path" "exists (path_join save_path ''main'')"
    and "powered_on inp" "kernel_idle inp"
  shows "(if now_file c - last_write c \<ge> permittedTime then
       \<exists>sys' waited. onClose exe_dir (loaded_program_id w) exists c there sys = Inr (Some waited, sys') \<and>
         waited \<le> timeout_ms \<and> fst (RunLoop inp sys') = Run_SaveState 0
     else onClose exe_dir (loaded_program_id w) exists c there sys = Inr (None, sys)) \<and>
     (exists (GetCurrentSaveStatePath exe_dir (loaded_program_id w)) \<longrightarrow>
        fst (RunLoop inp (onStart exe_dir (loaded_program_id w) exists sys)) = Run_LoadState 0)"
proof -
  have el: "elapsed c = now_file c - last_write c" by (simp add: elapsed_def)
  have wait: "wait_for_state there 0 0 \<le> timeout_ms"
  proof (cases "\<exists>n \<le> 500. there n")
    case True
    define n where "n = (LEAST n. there n)"
    have "there n" "\<And>j. j < n \<Longrightarrow> \<not> there j" "n \<le> 500"
      using True LeastI_ex [of there] not_less_Least [of _ there] Least_le [of there]
      unfolding n_def by (blast, blast, meson le_trans)
    then show ?thesis using wait_for_state_found [of there 0 n 0] by (simp add: timeout_ms_def)
  next
    case False
    then show ?thesis using wait_for_state_timeout [of 500 there 0 0] by (simp add: timeout_ms_def)
  qed
  have run: "fst (RunLoop inp (sys\<lparr>current_signal := Signal_Save, signal_param := 0\<rparr>)) = Run_SaveState 0"
    "fst (RunLoop inp (sys\<lparr>current_signal := Signal_Load, signal_param := 0\<rparr>)) = Run_LoadState 0"
    using assms(3,6,7)
    by (simp_all add: RunLoop_def take_signal_def handle_signal_def request_def serve_request_def IsSaveStateInProgress_def)
  show ?thesis
    using assms(2,4,5) wait run el by (simp add: onClose_def onStart_def SendSignal_def Let_def)
qed

theorem closing_saves_and_starting_loads_witness:
  "\<exists>sys' waited. onClose ''C:'' (loaded_program_id 0x4000000055D00) (\<lambda>_. True)
       \<lparr>last_write = 0, now_sys = 7, now_file = 10 ^ 9\<rparr> (\<lambda>_. False) idle_system = Inr (Some waited, sys') \<and>
     waited \<le> timeout_ms \<and> fst (RunLoop ready_input sys') = Run_SaveState 0"
proof -
  let ?t = "loaded_program_id 0x4000000055D00"
  obtain save_path where "GetCurrentSaveDataPath ''C:'' ?t = Inr save_path"
    by (simp add: GetCurrentSaveDataPath_def title_of_loaded Let_def)
  from closing_saves_and_starting_loads [OF _ _ _ this, of idle_system "\<lambda>_. True" ready_input
      "\<lparr>last_write = 0, now_sys = 7, now_file = 10 ^ 9\<rparr>" "\<lambda>_. False"]
  show ?thesis by (simp add: idle_system_def IsSaveStateInProgress_def ready_input_def permittedTime_def)
qed

text \<open>
  The title identifier survives its printing by the loader and its parsing by the guard, and titles
  with different identifiers have different save directories.
\<close>

theorem title_id_round_trip:
  "GetCurrentTitleID_u64 (loaded_program_id w) = Inr w \<and>
   (GetSaveDataPathFor mount w = GetSaveDataPathFor mount v \<longleftrightarrow> w = v)"
  using title_of_loaded GetSaveDataPath_inj by (auto simp: GetSaveDataPathFor_def)

text \<open>
  The waiting loop ends: it waits ten milliseconds for each failed test up to the first test that
  finds the file, and five seconds if there is none among the first 500. In particular it does not wait at all when a state
  file of an earlier session is still there.
\<close>

theorem waiting_time:
  "wait_for_state there 0 0 =
     (if \<exists>n < 500. there n then 10 * (LEAST n. there n) else timeout_ms) \<and>
   wait_for_state (\<lambda>k. k = 0 \<or> there k) 0 0 = 0"
proof -
  have first: "wait_for_state (\<lambda>k. k = 0 \<or> there k) 0 0 = 0" by (subst wait_for_state.simps) simp
  show ?thesis
  proof (cases "\<exists>n < 500. there n")
    case True
    define n where "n = (LEAST n. there n)"
    obtain m where m: "m < 500" "there m" using True by blast
    have "there n" "\<And>j. j < n \<Longrightarrow> \<not> there j" "n \<le> m"
      using m LeastI [of there m] not_less_Least [of _ there] Least_le [of there m] unfolding n_def by blast+
    then have "wait_for_state there 0 0 = 10 * n"
      using wait_for_state_found [of there 0 n 0] m(1) by (simp add: timeout_ms_def)
    then show ?thesis using True first by (simp add: n_def)
  next
    case False
    then have "wait_for_state there 0 0 = timeout_ms"
      using wait_for_state_timeout [of 500 there 0 0] by (simp add: timeout_ms_def)
    then show ?thesis using False first by (simp only: if_False simp_thms)
  qed
qed

end
