(* ===== verification/Handle_Table.thy ===== *)
theory Handle_Table
  imports Prelude
begin

text \<open>
  \<open>core/hle/kernel/handle_table.cpp\<close>: the table of kernel objects a process holds. Objects are the
  parameter \<open>'o\<close>; a null pointer is \<open>None\<close>. The unused entries of \<open>generations\<close> form the list of free
  slots. An abstract table (a map from handles to objects) specifies it.
\<close>

section \<open>The table\<close>

definition MAX_COUNT :: nat where "MAX_COUNT = 4096"

record 'o HandleTable =
  objects :: "nat \<Rightarrow> 'o option"
  generations :: "nat \<Rightarrow> u16"
  next_generation :: u16
  next_free_slot :: u16

definition GetSlot :: "u32 \<Rightarrow> u16" where
  "GetSlot handle = ucast (drop_bit 15 handle)"

definition GetGeneration :: "u32 \<Rightarrow> u16" where
  "GetGeneration handle = ucast (handle AND 0x7FFF)"

definition make_handle :: "u16 \<Rightarrow> u16 \<Rightarrow> u32" where
  "make_handle generation slot = ucast generation OR push_bit 15 (ucast slot)"

definition HandleTable_Clear :: "'o HandleTable \<Rightarrow> 'o HandleTable" where
  "HandleTable_Clear t =
     t\<lparr>generations := (\<lambda>i. if i < MAX_COUNT then of_nat (i + 1) else generations t i),
       objects := (\<lambda>i. if i < MAX_COUNT then None else objects t i),
       next_free_slot := 0\<rparr>"

definition HandleTable_new :: "'o HandleTable" where
  "HandleTable_new =
     HandleTable_Clear \<lparr>objects = \<lambda>_. None, generations = \<lambda>_. 0, next_generation = 1, next_free_slot = 0\<rparr>"

definition succ_generation :: "u16 \<Rightarrow> u16" where
  "succ_generation g = (if g + 1 \<ge> 0x8000 then 1 else g + 1)"

datatype handle_error = ResultOutOfHandles | ResultInvalidHandle

definition HandleTable_Create :: "'o \<Rightarrow> 'o HandleTable \<Rightarrow> handle_error + u32 \<times> 'o HandleTable" where
  "HandleTable_Create obj t =
     (let slot = next_free_slot t
      in if \<not> unat slot < MAX_COUNT then Inl ResultOutOfHandles
         else
           let generation = next_generation t
           in Inr (make_handle generation slot,
                t\<lparr>next_free_slot := generations t (unat slot),
                  next_generation := succ_generation generation,
                  generations := (generations t)(unat slot := generation),
                  objects := (objects t)(unat slot := Some obj)\<rparr>))"

definition IsValid :: "'o HandleTable \<Rightarrow> u32 \<Rightarrow> bool" where
  "IsValid t handle =
     (unat (GetSlot handle) < MAX_COUNT \<and> objects t (unat (GetSlot handle)) \<noteq> None \<and>
      generations t (unat (GetSlot handle)) = GetGeneration handle)"

definition CurrentThread :: u32 where "CurrentThread = 0xFFFF8000"
definition CurrentProcess :: u32 where "CurrentProcess = 0xFFFF8001"

text \<open>The current thread and process are the kernel's answers.\<close>

definition GetGeneric :: "'o option \<Rightarrow> 'o option \<Rightarrow> 'o HandleTable \<Rightarrow> u32 \<Rightarrow> 'o option" where
  "GetGeneric cur_thread cur_process t handle =
     (if handle = CurrentThread then cur_thread
      else if handle = CurrentProcess then cur_process
      else if \<not> IsValid t handle then None
      else objects t (unat (GetSlot handle)))"

definition HandleTable_Duplicate ::
    "'o option \<Rightarrow> 'o option \<Rightarrow> u32 \<Rightarrow> 'o HandleTable \<Rightarrow> handle_error + u32 \<times> 'o HandleTable" where
  "HandleTable_Duplicate cur_thread cur_process handle t =
     (case GetGeneric cur_thread cur_process t handle of
        None \<Rightarrow> Inl ResultInvalidHandle
      | Some obj \<Rightarrow> HandleTable_Create obj t)"

definition HandleTable_Close :: "u32 \<Rightarrow> 'o HandleTable \<Rightarrow> handle_error + 'o HandleTable" where
  "HandleTable_Close handle t =
     (if \<not> IsValid t handle then Inl ResultInvalidHandle
      else
        let slot = GetSlot handle
        in Inr (t\<lparr>objects := (objects t)(unat slot := None),
                  generations := (generations t)(unat slot := next_free_slot t),
                  next_free_slot := slot\<rparr>))"

section \<open>Well-formed tables\<close>

text \<open>The free list: the slots reached from \<open>next_free_slot\<close>, ending at \<open>MAX_COUNT\<close>.\<close>

fun free_chain :: "(nat \<Rightarrow> u16) \<Rightarrow> u16 \<Rightarrow> nat list \<Rightarrow> bool" where
  "free_chain g s [] = (s = of_nat MAX_COUNT)"
| "free_chain g s (x # xs) = (s = of_nat x \<and> x < MAX_COUNT \<and> free_chain g (g x) xs)"

definition valid_generation :: "u16 \<Rightarrow> bool" where
  "valid_generation g \<longleftrightarrow> 0 < g \<and> g < 0x8000"

definition table_wf :: "'o HandleTable \<Rightarrow> bool" where
  "table_wf t \<longleftrightarrow>
     valid_generation (next_generation t) \<and>
     (\<forall>s < MAX_COUNT. objects t s \<noteq> None \<longrightarrow> valid_generation (generations t s)) \<and>
     (\<exists>fl. distinct fl \<and> set fl = {s. s < MAX_COUNT \<and> objects t s = None} \<and>
        free_chain (generations t) (next_free_slot t) fl)"

text \<open>The table as a map from handles to objects, and the handle the table makes of any bit pattern.\<close>

definition lookup :: "'o HandleTable \<Rightarrow> u32 \<Rightarrow> 'o option" where
  "lookup t h = (if IsValid t h then objects t (unat (GetSlot h)) else None)"

definition canonical :: "u32 \<Rightarrow> u32" where
  "canonical h = make_handle (GetGeneration h) (GetSlot h)"

section \<open>Handles\<close>

lemma take_bit_generation: "take_bit 15 (g :: u16) = g \<longleftrightarrow> g < 0x8000"
  by (simp add: word_unat_eq_iff unsigned_take_bit_eq take_bit_nat_eq_self_iff word_less_nat_alt)

lemma GetSlot_make [simp]:
  assumes "g < 0x8000"
  shows "GetSlot (make_handle g s) = s"
proof (rule bit_word_eqI)
  fix n assume n: "n < LENGTH(16)"
  have "take_bit 15 g = g" using assms by (simp add: take_bit_generation)
  then have "\<not> bit g (n + 15)" by (metis bit_take_bit_iff not_add_less2)
  then show "bit (GetSlot (make_handle g s)) n \<longleftrightarrow> bit s n"
    using n by (auto simp: GetSlot_def make_handle_def bit_simps add.commute)
qed

lemma GetGeneration_make [simp]:
  assumes "g < 0x8000"
  shows "GetGeneration (make_handle g s) = g"
proof (rule bit_word_eqI)
  fix n assume n: "n < LENGTH(16)"
  have m: "(0x7FFF :: u32) = mask 15" by (simp add: mask_eq_exp_minus_1)
  have "take_bit 15 g = g" using assms by (simp add: take_bit_generation)
  then have "bit g n \<Longrightarrow> n < 15" by (metis bit_take_bit_iff)
  then show "bit (GetGeneration (make_handle g s)) n \<longleftrightarrow> bit g n"
    using n by (auto simp: GetGeneration_def make_handle_def m bit_simps)
qed

lemma GetGeneration_less: "GetGeneration h < 0x8000"
proof -
  have m: "(0x7FFF :: u32) = mask 15" by (simp add: mask_eq_exp_minus_1)
  have "take_bit 15 (GetGeneration h) = GetGeneration h"
    by (rule bit_word_eqI) (auto simp: GetGeneration_def m bit_simps)
  then show ?thesis by (simp add: take_bit_generation)
qed

lemma canonical_iff: "canonical h = canonical k \<longleftrightarrow> GetSlot h = GetSlot k \<and> GetGeneration h = GetGeneration k"
  using GetSlot_make GetGeneration_make GetGeneration_less unfolding canonical_def by metis

lemma canonical_make [simp]: "g < 0x8000 \<Longrightarrow> canonical (make_handle g s) = make_handle g s"
  by (simp add: canonical_def)

lemma lookup_canonical: "canonical h = canonical k \<Longrightarrow> lookup t h = lookup t k"
  by (simp add: lookup_def IsValid_def canonical_iff)

lemma GetGeneric_lookup:
  "h \<noteq> CurrentThread \<Longrightarrow> h \<noteq> CurrentProcess \<Longrightarrow> GetGeneric ct cp t h = lookup t h"
  by (simp add: GetGeneric_def lookup_def)

section \<open>The free list\<close>

lemma slot_of_nat: "x < MAX_COUNT \<Longrightarrow> unat (of_nat x :: u16) = x"
  by (simp add: MAX_COUNT_def unat_of_nat)

lemma slot_MAX: "unat (of_nat MAX_COUNT :: u16) = MAX_COUNT"
  by (simp add: MAX_COUNT_def unat_of_nat)

lemma free_chain_upd: "x \<notin> set xs \<Longrightarrow> free_chain (g(x := v)) s xs \<longleftrightarrow> free_chain g s xs"
  by (induction xs arbitrary: s) auto

lemma free_chain_cases:
  assumes "free_chain g s fl"
  shows "(unat s < MAX_COUNT \<and> (\<exists>xs. fl = unat s # xs \<and> free_chain g (g (unat s)) xs)) \<or> (\<not> unat s < MAX_COUNT \<and> fl = [])"
  using assms by (cases fl) (auto simp: slot_of_nat slot_MAX)

lemma free_chain_initial:
  "n \<le> MAX_COUNT \<Longrightarrow> free_chain (\<lambda>i. if i < MAX_COUNT then of_nat (i + 1) else f i) (of_nat n) [n..<MAX_COUNT]"
proof (induction "MAX_COUNT - n" arbitrary: n)
  case 0
  then show ?case by simp
next
  case (Suc m)
  then have "n < MAX_COUNT" by simp
  then show ?case
    using Suc.hyps(1) [of "Suc n"] Suc.hyps(2) by (simp add: upt_conv_Cons add.commute)
qed

lemma table_wf_Clear: "valid_generation (next_generation t) \<Longrightarrow> table_wf (HandleTable_Clear t)"
  using free_chain_initial [of 0 "generations t"]
  by (auto simp: table_wf_def HandleTable_Clear_def intro!: exI [of _ "[0..<MAX_COUNT]"])

lemma table_wf_new: "table_wf HandleTable_new"
  unfolding HandleTable_new_def by (rule table_wf_Clear) (simp add: valid_generation_def)

lemma valid_succ: "valid_generation g \<Longrightarrow> valid_generation (succ_generation g)"
  unfolding valid_generation_def succ_generation_def
  by (auto simp: word_less_nat_alt word_le_nat_alt unat_word_ariths)

lemma free_slot:
  assumes "table_wf t" "unat (next_free_slot t) < MAX_COUNT"
  shows "objects t (unat (next_free_slot t)) = None"
proof -
  obtain fl where "set fl = {s. s < MAX_COUNT \<and> objects t s = None}"
    "free_chain (generations t) (next_free_slot t) fl" using assms(1) unfolding table_wf_def by blast
  moreover from this(2) have "unat (next_free_slot t) \<in> set fl"
    using free_chain_cases assms(2) list.set_intros(1) by metis
  ultimately show ?thesis by blast
qed

lemma table_wf_Create:
  assumes "table_wf t" "HandleTable_Create obj t = Inr (h, t')"
  shows "table_wf t'"
proof -
  let ?s = "unat (next_free_slot t)"
  have s: "?s < MAX_COUNT" and t': "t' = t\<lparr>next_free_slot := generations t ?s,
      next_generation := succ_generation (next_generation t),
      generations := (generations t)(?s := next_generation t), objects := (objects t)(?s := Some obj)\<rparr>"
    using assms(2) by (auto simp: HandleTable_Create_def Let_def split: if_splits)
  obtain fl where fl: "distinct fl" "set fl = {s. s < MAX_COUNT \<and> objects t s = None}"
    "free_chain (generations t) (next_free_slot t) fl" using assms(1) unfolding table_wf_def by blast
  obtain xs where xs: "fl = ?s # xs" "free_chain (generations t) (generations t ?s) xs"
    using free_chain_cases [OF fl(3)] s by blast
  have "distinct xs" "set xs = {x. x < MAX_COUNT \<and> objects t' x = None}"
    "free_chain (generations t') (next_free_slot t') xs"
    using fl(1,2) xs s by (auto simp: t' free_chain_upd)
  moreover have "\<forall>x < MAX_COUNT. objects t' x \<noteq> None \<longrightarrow> valid_generation (generations t' x)"
    using assms(1) by (auto simp: t' table_wf_def)
  moreover have "valid_generation (next_generation t')"
    using assms(1) valid_succ by (auto simp: t' table_wf_def)
  ultimately show ?thesis unfolding table_wf_def by blast
qed

lemma table_wf_Close:
  assumes "table_wf t" "HandleTable_Close h t = Inr t'"
  shows "table_wf t'"
proof -
  let ?s = "unat (GetSlot h)"
  have v: "?s < MAX_COUNT" "objects t ?s \<noteq> None" and t': "t' = t\<lparr>objects := (objects t)(?s := None),
      generations := (generations t)(?s := next_free_slot t), next_free_slot := GetSlot h\<rparr>"
    using assms(2) by (auto simp: HandleTable_Close_def IsValid_def Let_def split: if_splits)
  obtain fl where fl: "distinct fl" "set fl = {s. s < MAX_COUNT \<and> objects t s = None}"
    "free_chain (generations t) (next_free_slot t) fl" using assms(1) unfolding table_wf_def by blast
  have "?s \<notin> set fl" using fl(2) v(2) by auto
  then have "distinct (?s # fl)" "set (?s # fl) = {x. x < MAX_COUNT \<and> objects t' x = None}"
    "free_chain (generations t') (next_free_slot t') (?s # fl)"
    using fl v by (auto simp: t' free_chain_upd)
  moreover have "\<forall>x < MAX_COUNT. objects t' x \<noteq> None \<longrightarrow> valid_generation (generations t' x)"
    using assms(1) by (auto simp: t' table_wf_def)
  moreover have "valid_generation (next_generation t')" using assms(1) by (auto simp: t' table_wf_def)
  ultimately show ?thesis unfolding table_wf_def by blast
qed

section \<open>The table as a map\<close>

lemma lookup_Create:
  assumes "table_wf t" "HandleTable_Create obj t = Inr (h, t')"
  shows "lookup t' k = (if canonical k = h then Some obj else lookup t k)" "lookup t h = None" "canonical h = h"
    "GetGeneration h = next_generation t" "next_generation t' = succ_generation (next_generation t)"
proof -
  let ?s = "next_free_slot t" and ?g = "next_generation t"
  have s: "unat ?s < MAX_COUNT" and h: "h = make_handle ?g ?s" and t': "t' = t\<lparr>next_free_slot := generations t (unat ?s),
      next_generation := succ_generation ?g, generations := (generations t)(unat ?s := ?g), objects := (objects t)(unat ?s := Some obj)\<rparr>"
    using assms(2) by (auto simp: HandleTable_Create_def Let_def split: if_splits)
  have g: "?g < 0x8000" using assms(1) by (simp add: table_wf_def valid_generation_def)
  have free: "objects t (unat ?s) = None" by (rule free_slot [OF assms(1) s])
  show ch: "canonical h = h" using g by (simp add: h)
  show "GetGeneration h = ?g" "next_generation t' = succ_generation ?g" using g by (simp_all add: h t')
  show "lookup t h = None" using g free by (simp add: lookup_def IsValid_def h)
  have c: "canonical k = h \<longleftrightarrow> GetSlot k = ?s \<and> GetGeneration k = ?g"
    using canonical_iff [of k h] ch g by (simp add: h)
  show "lookup t' k = (if canonical k = h then Some obj else lookup t k)"
    unfolding c using s free by (auto simp: lookup_def IsValid_def t' word_unat_eq_iff)
qed

lemma lookup_Close:
  assumes "table_wf t" "HandleTable_Close h t = Inr t'"
  shows "lookup t' k = (if canonical k = canonical h then None else lookup t k)" "lookup t h \<noteq> None"
    "next_generation t' = next_generation t"
proof -
  let ?s = "unat (GetSlot h)"
  have v: "?s < MAX_COUNT" "objects t ?s \<noteq> None" "generations t ?s = GetGeneration h"
    and t': "t' = t\<lparr>objects := (objects t)(?s := None), generations := (generations t)(?s := next_free_slot t), next_free_slot := GetSlot h\<rparr>"
    using assms(2) by (auto simp: HandleTable_Close_def IsValid_def Let_def split: if_splits)
  show "lookup t h \<noteq> None" "next_generation t' = next_generation t" using v by (auto simp: lookup_def IsValid_def t')
  show "lookup t' k = (if canonical k = canonical h then None else lookup t k)"
    unfolding canonical_iff using v
    by (auto simp: lookup_def IsValid_def t' dest: word_unat_eq_iff [THEN iffD2])
qed

lemma Create_fails_iff:
  assumes "table_wf t"
  shows "HandleTable_Create obj t = Inl e \<longleftrightarrow> e = ResultOutOfHandles \<and> (\<forall>s < MAX_COUNT. objects t s \<noteq> None)"
proof -
  obtain fl where fl: "set fl = {s. s < MAX_COUNT \<and> objects t s = None}"
    "free_chain (generations t) (next_free_slot t) fl" using assms unfolding table_wf_def by blast
  have "unat (next_free_slot t) < MAX_COUNT \<longleftrightarrow> fl \<noteq> []" using free_chain_cases [OF fl(2)] by auto
  moreover have "fl = [] \<longleftrightarrow> (\<forall>s < MAX_COUNT. objects t s \<noteq> None)"
    using fl(1) by (metis (mono_tags, lifting) empty_iff empty_set mem_Collect_eq set_empty subsetI subset_antisym)
  ultimately show ?thesis by (auto simp: HandleTable_Create_def Let_def)
qed

lemma Close_fails_iff: "HandleTable_Close h t = Inl e \<longleftrightarrow> e = ResultInvalidHandle \<and> lookup t h = None"
  by (auto simp: HandleTable_Close_def lookup_def IsValid_def Let_def)

section \<open>Sequences of operations\<close>

datatype 'o table_op = Op_Create 'o | Op_Close u32

text \<open>The handles a sequence of operations gives out, in order, and the table it leaves.\<close>

fun run_ops :: "'o table_op list \<Rightarrow> 'o HandleTable \<Rightarrow> u32 list \<times> 'o HandleTable" where
  "run_ops [] t = ([], t)"
| "run_ops (Op_Create obj # ops) t =
     (case HandleTable_Create obj t of
        Inl _ \<Rightarrow> run_ops ops t
      | Inr (h, t) \<Rightarrow> (case run_ops ops t of (hs, t) \<Rightarrow> (h # hs, t)))"
| "run_ops (Op_Close h # ops) t =
     (case HandleTable_Close h t of Inl _ \<Rightarrow> run_ops ops t | Inr t \<Rightarrow> run_ops ops t)"

definition gen_after :: "u16 \<Rightarrow> nat \<Rightarrow> nat" where
  "gen_after g i = (unat g - 1 + i) mod 32767"

lemma gen_after_0: "valid_generation g \<Longrightarrow> gen_after g 0 = unat g - 1"
  by (auto simp: gen_after_def valid_generation_def word_less_nat_alt)

lemma gen_after_Suc: "valid_generation g \<Longrightarrow> gen_after (succ_generation g) i = gen_after g (Suc i)"
proof (cases "unat g = 32767")
  case True
  then have "g = 0x7FFF" by (simp add: word_unat_eq_iff)
  then show ?thesis by (simp add: gen_after_def succ_generation_def)
next
  case False
  moreover assume "valid_generation g"
  ultimately have "0 < unat g" "unat g < 32767" by (auto simp: valid_generation_def word_less_nat_alt)
  then show ?thesis
    by (auto simp: gen_after_def succ_generation_def word_le_nat_alt unat_word_ariths)
qed

lemma run_ops_generations:
  assumes "table_wf t" "run_ops ops t = (hs, t')"
  shows "table_wf t' \<and> map (\<lambda>h. unat (GetGeneration h) - 1) hs = map (gen_after (next_generation t)) [0..<length hs]"
  using assms
proof (induction ops arbitrary: t hs)
  case (Cons a ops)
  show ?case
  proof (cases a)
    case (Op_Close h)
    then show ?thesis
      using Cons table_wf_Close lookup_Close(3) by (fastforce split: sum.splits)
  next
    case (Op_Create obj)
    show ?thesis
    proof (cases "HandleTable_Create obj t")
      case (Inl e)
      then show ?thesis using Cons Op_Create by simp
    next
      case (Inr p)
      then obtain h t1 where c: "HandleTable_Create obj t = Inr (h, t1)" by (cases p) auto
      obtain hs1 where r: "run_ops ops t1 = (hs1, t')" "hs = h # hs1"
        using Cons.prems(2) Op_Create c by (auto split: prod.splits)
      have v: "valid_generation (next_generation t)" using Cons.prems(1) by (simp add: table_wf_def)
      have "table_wf t'" "map (\<lambda>h. unat (GetGeneration h) - 1) hs1 = map (gen_after (next_generation t1)) [0..<length hs1]"
        using Cons.IH [OF table_wf_Create [OF Cons.prems(1) c] r(1)] by blast+
      moreover have "gen_after (next_generation t1) i = gen_after (next_generation t) (Suc i)" for i
        using gen_after_Suc [OF v] lookup_Create(5) [OF Cons.prems(1) c] by simp
      moreover have "unat (GetGeneration h) - 1 = gen_after (next_generation t) 0"
        using gen_after_0 [OF v] lookup_Create(4) [OF Cons.prems(1) c] by simp
      ultimately show ?thesis
        using r(2) by (simp add: upt_conv_Cons map_Suc_upt [symmetric] comp_def del: upt_Suc)
    qed
  qed
qed simp

lemma gen_after_inj: "inj_on (gen_after g) {0..<32767}"
proof (rule inj_onI)
  fix i j assume ij: "i \<in> {0..<32767}" "j \<in> {0..<32767}" and "gen_after g i = gen_after g j"
  then have "(unat g - 1 + i) mod 32767 = (unat g - 1 + j) mod 32767" by (simp add: gen_after_def)
  from arg_cong [OF this, of int] have "int (unat g - 1 + i) mod 32767 = int (unat g - 1 + j) mod 32767"
    unfolding zmod_int of_nat_numeral .
  then have "(int (unat g - 1 + i) - int (unat g - 1)) mod 32767 = (int (unat g - 1 + j) - int (unat g - 1)) mod 32767"
    by (rule mod_diff_cong) simp
  then show "i = j" using ij by simp
qed

section \<open>Properties\<close>



text \<open>
  Handles are not reused early: whatever handles are closed in between, 32767 consecutive creations
  give 32767 different handles, so a stale handle is not taken for a new one within that distance.
\<close>

theorem handles_stay_fresh:
  assumes "table_wf t" "run_ops ops t = (hs, t')" "length hs \<le> 32767"
  shows "distinct hs"
proof -
  have "distinct (map (gen_after (next_generation t)) [0..<length hs])"
    using gen_after_inj [of "next_generation t"] assms(3)
    by (simp add: distinct_map) (auto intro: inj_on_subset)
  then have "distinct (map (\<lambda>h. unat (GetGeneration h) - 1) hs)"
    using run_ops_generations [OF assms(1,2)] by simp
  then show ?thesis by (simp add: distinct_map)
qed

theorem handles_stay_fresh_witness:
  "\<exists>h1 h2 t'. run_ops [Op_Create ''a'', Op_Close 1, Op_Create ''b''] HandleTable_new = ([h1, h2], t') \<and> h1 \<noteq> h2"
proof -
  have "\<exists>h1 h2 t'. run_ops [Op_Create ''a'', Op_Close 1, Op_Create ''b''] HandleTable_new = ([h1, h2], t')"
    by (simp add: HandleTable_Create_def HandleTable_Close_def HandleTable_new_def HandleTable_Clear_def MAX_COUNT_def
        make_handle_def IsValid_def GetSlot_def GetGeneration_def Let_def)
  then obtain h1 h2 t' where
    r: "run_ops [Op_Create ''a'', Op_Close 1, Op_Create ''b''] HandleTable_new = ([h1, h2], t')" by blast
  show ?thesis using handles_stay_fresh [OF table_wf_new r] r by auto
qed

end
