(* ===== verification/Thread_Queue_List.thy ===== *)
theory Thread_Queue_List
  imports Prelude
begin

text \<open>
  \<open>common/thread_queue_list.h\<close>: the ready queue of the scheduler. There is one queue of threads per
  priority level and a linked list, in increasing order of level, of the levels that were ever used. A
  pointer to a level is null, the tag of levels that were never linked, or the level. Dereferencing
  anything but a level and walking the list forever are \<open>None\<close>.
\<close>

section \<open>The structure\<close>

datatype link = Null | UnlinkedTag | Level nat

record 't Queue =
  next_nonempty :: link
  qdata :: "'t list"

record 't ThreadQueueList =
  first :: link
  queues :: "nat \<Rightarrow> 't Queue"

definition empty_queue :: "'t Queue" where
  "empty_queue = \<lparr>next_nonempty = UnlinkedTag, qdata = []\<rparr>"

definition tql_clear :: "'t ThreadQueueList \<Rightarrow> 't ThreadQueueList" where
  "tql_clear q = \<lparr>first = Null, queues = (\<lambda>_. empty_queue)\<rparr>"

definition tql_new :: "'t ThreadQueueList" where
  "tql_new = \<lparr>first = Null, queues = (\<lambda>_. empty_queue)\<rparr>"

definition level_data :: "'t ThreadQueueList \<Rightarrow> nat \<Rightarrow> 't list" where
  "level_data q p = qdata (queues q p)"

definition set_data :: "nat \<Rightarrow> 't list \<Rightarrow> 't ThreadQueueList \<Rightarrow> 't ThreadQueueList" where
  "set_data p xs q = q\<lparr>queues := (queues q)(p := (queues q p)\<lparr>qdata := xs\<rparr>)\<rparr>"

definition set_next :: "nat \<Rightarrow> link \<Rightarrow> 't ThreadQueueList \<Rightarrow> 't ThreadQueueList" where
  "set_next p l q = q\<lparr>queues := (queues q)(p := (queues q p)\<lparr>next_nonempty := l\<rparr>)\<rparr>"

text \<open>\<open>contains\<close> answers the first level, of the \<open>n\<close> levels, that holds the thread; \<open>None\<close> is \<open>-1\<close>.\<close>

definition tql_contains :: "nat \<Rightarrow> 't \<Rightarrow> 't ThreadQueueList \<Rightarrow> nat option" where
  "tql_contains n uid q = find (\<lambda>i. uid \<in> set (level_data q i)) [0..<n]"

partial_function (option) get_first_from :: "'t ThreadQueueList \<Rightarrow> link \<Rightarrow> 't option option" where
  "get_first_from q cur =
     (case cur of
        Null \<Rightarrow> Some None
      | UnlinkedTag \<Rightarrow> None
      | Level p \<Rightarrow>
          (case level_data q p of
             t # _ \<Rightarrow> Some (Some t)
           | [] \<Rightarrow> get_first_from q (next_nonempty (queues q p))))"

definition get_first :: "'t ThreadQueueList \<Rightarrow> 't option option" where
  "get_first q = get_first_from q (first q)"

partial_function (option) pop_first_from ::
    "'t ThreadQueueList \<Rightarrow> link \<Rightarrow> ('t option \<times> 't ThreadQueueList) option" where
  "pop_first_from q cur =
     (case cur of
        Null \<Rightarrow> Some (None, q)
      | UnlinkedTag \<Rightarrow> None
      | Level p \<Rightarrow>
          (case level_data q p of
             t # ts \<Rightarrow> Some (Some t, set_data p ts q)
           | [] \<Rightarrow> pop_first_from q (next_nonempty (queues q p))))"

definition pop_first :: "'t ThreadQueueList \<Rightarrow> ('t option \<times> 't ThreadQueueList) option" where
  "pop_first q = pop_first_from q (first q)"

text \<open>
  \<open>cur < stop\<close> compares addresses: the null pointer and the tag are below every level, so the loop
  would dereference them.
\<close>

partial_function (option) pop_better_from ::
    "'t ThreadQueueList \<Rightarrow> nat \<Rightarrow> link \<Rightarrow> ('t option \<times> 't ThreadQueueList) option" where
  "pop_better_from q stop cur =
     (case cur of
        Null \<Rightarrow> None
      | UnlinkedTag \<Rightarrow> None
      | Level p \<Rightarrow>
          if p < stop then
            (case level_data q p of
               t # ts \<Rightarrow> Some (Some t, set_data p ts q)
             | [] \<Rightarrow> pop_better_from q stop (next_nonempty (queues q p)))
          else Some (None, q))"

definition pop_first_better :: "nat \<Rightarrow> 't ThreadQueueList \<Rightarrow> ('t option \<times> 't ThreadQueueList) option" where
  "pop_first_better priority q = pop_better_from q priority (first q)"

definition push_front :: "nat \<Rightarrow> 't \<Rightarrow> 't ThreadQueueList \<Rightarrow> 't ThreadQueueList" where
  "push_front priority t q = set_data priority (t # level_data q priority) q"

definition push_back :: "nat \<Rightarrow> 't \<Rightarrow> 't ThreadQueueList \<Rightarrow> 't ThreadQueueList" where
  "push_back priority t q = set_data priority (level_data q priority @ [t]) q"

definition tql_remove :: "nat \<Rightarrow> 't \<Rightarrow> 't ThreadQueueList \<Rightarrow> 't ThreadQueueList" where
  "tql_remove priority t q = set_data priority (removeAll t (level_data q priority)) q"

definition tql_rotate :: "nat \<Rightarrow> 't ThreadQueueList \<Rightarrow> 't ThreadQueueList" where
  "tql_rotate priority q =
     (case level_data q priority of
        t # u # ts \<Rightarrow> set_data priority ((u # ts) @ [t]) q
      | _ \<Rightarrow> q)"

definition tql_empty :: "nat \<Rightarrow> 't ThreadQueueList \<Rightarrow> bool" where
  "tql_empty priority q = (level_data q priority = [])"

text \<open>The loop of \<open>link\<close> runs down from \<open>priority - 1\<close>; its argument is the number of levels left.\<close>

fun link_loop :: "nat \<Rightarrow> nat \<Rightarrow> 't ThreadQueueList \<Rightarrow> 't ThreadQueueList" where
  "link_loop priority 0 q = (set_next priority (first q) q)\<lparr>first := Level priority\<rparr>"
| "link_loop priority (Suc i) q =
     (if next_nonempty (queues q i) \<noteq> UnlinkedTag
      then set_next i (Level priority) (set_next priority (next_nonempty (queues q i)) q)
      else link_loop priority i q)"

definition tql_link :: "nat \<Rightarrow> 't ThreadQueueList \<Rightarrow> 't ThreadQueueList" where
  "tql_link priority q = link_loop priority priority q"

definition prepare :: "nat \<Rightarrow> 't ThreadQueueList \<Rightarrow> 't ThreadQueueList" where
  "prepare priority q =
     (if next_nonempty (queues q priority) = UnlinkedTag then tql_link priority q else q)"

definition tql_move :: "'t \<Rightarrow> nat \<Rightarrow> nat \<Rightarrow> 't ThreadQueueList \<Rightarrow> 't ThreadQueueList" where
  "tql_move t old_priority new_priority q =
     push_back new_priority t (prepare new_priority (tql_remove old_priority t q))"

section \<open>The invariant\<close>

definition linked :: "'t ThreadQueueList \<Rightarrow> nat \<Rightarrow> bool" where
  "linked q p \<longleftrightarrow> next_nonempty (queues q p) \<noteq> UnlinkedTag"

fun chain :: "(nat \<Rightarrow> link) \<Rightarrow> link \<Rightarrow> nat list \<Rightarrow> bool" where
  "chain nx l [] = (l = Null)"
| "chain nx l (p # ps) = (l = Level p \<and> chain nx (nx p) ps)"

text \<open>
  The list goes through exactly the linked levels, in order; threads are kept at linked levels below \<open>n\<close> only.
\<close>

definition tql_ok :: "nat \<Rightarrow> 't ThreadQueueList \<Rightarrow> bool" where
  "tql_ok n q \<longleftrightarrow>
     chain (\<lambda>p. next_nonempty (queues q p)) (first q) (filter (linked q) [0..<n]) \<and>
     (\<forall>p. level_data q p \<noteq> [] \<longrightarrow> p < n \<and> linked q p)"

text \<open>The level the scheduler means by the best one: the first that is not empty.\<close>

definition best_level :: "nat \<Rightarrow> 't ThreadQueueList \<Rightarrow> nat option" where
  "best_level n q = find (\<lambda>p. level_data q p \<noteq> []) [0..<n]"

section \<open>Walking the list\<close>

lemma get_first_chain:
  "chain (\<lambda>p. next_nonempty (queues q p)) l ps \<Longrightarrow>
   get_first_from q l = Some (map_option (\<lambda>p. hd (level_data q p)) (find (\<lambda>p. level_data q p \<noteq> []) ps))"
proof (induction ps arbitrary: l)
  case Nil
  then show ?case by (simp add: get_first_from.simps)
next
  case (Cons p ps)
  then show ?case by (subst get_first_from.simps) (auto split: list.split)
qed

lemma pop_first_chain:
  "chain (\<lambda>p. next_nonempty (queues q p)) l ps \<Longrightarrow>
   pop_first_from q l =
     Some (case find (\<lambda>p. level_data q p \<noteq> []) ps of
             None \<Rightarrow> (None, q)
           | Some p \<Rightarrow> (Some (hd (level_data q p)), set_data p (tl (level_data q p)) q))"
proof (induction ps arbitrary: l)
  case Nil
  then show ?case by (simp add: pop_first_from.simps)
next
  case (Cons p ps)
  then show ?case by (subst pop_first_from.simps) (auto split: list.split)
qed

lemma pop_better_chain:
  "chain (\<lambda>p. next_nonempty (queues q p)) l ps \<Longrightarrow> sorted ps \<Longrightarrow> \<exists>p \<in> set ps. stop \<le> p \<Longrightarrow>
   pop_better_from q stop l =
     Some (case find (\<lambda>p. level_data q p \<noteq> []) (filter (\<lambda>p. p < stop) ps) of
             None \<Rightarrow> (None, q)
           | Some p \<Rightarrow> (Some (hd (level_data q p)), set_data p (tl (level_data q p)) q))"
proof (induction ps arbitrary: l)
  case (Cons p ps)
  show ?case
  proof (cases "p < stop")
    case True
    then show ?thesis using Cons by (subst pop_better_from.simps) (auto split: list.split)
  next
    case False
    then have "filter (\<lambda>p. p < stop) (p # ps) = []" using Cons.prems(2) by (auto simp: filter_empty_conv)
    then show ?thesis using Cons.prems(1) False by (subst pop_better_from.simps) simp
  qed
qed simp

lemma find_filter_weaken:
  "(\<And>x. P x \<Longrightarrow> Q x) \<Longrightarrow> find P (filter Q xs) = find P xs"
  by (induction xs) auto

lemma tql_ok_chain:
  "tql_ok n q \<Longrightarrow> chain (\<lambda>p. next_nonempty (queues q p)) (first q) (filter (linked q) [0..<n])"
  by (simp add: tql_ok_def)

lemma best_level_linked:
  assumes "tql_ok n q"
  shows "find (\<lambda>p. level_data q p \<noteq> []) (filter (linked q) [0..<n]) = best_level n q"
  unfolding best_level_def using assms by (intro find_filter_weaken) (auto simp: tql_ok_def)

lemma get_first_best:
  assumes "tql_ok n q"
  shows "get_first q = Some (map_option (\<lambda>p. hd (level_data q p)) (best_level n q))"
  using get_first_chain [OF tql_ok_chain [OF assms]] best_level_linked [OF assms] by (simp add: get_first_def)

lemma pop_first_best:
  assumes "tql_ok n q"
  shows "pop_first q =
     Some (case best_level n q of
             None \<Rightarrow> (None, q)
           | Some p \<Rightarrow> (Some (hd (level_data q p)), set_data p (tl (level_data q p)) q))"
  using pop_first_chain [OF tql_ok_chain [OF assms]] best_level_linked [OF assms] by (simp add: pop_first_def)

lemma pop_first_better_best:
  assumes "tql_ok n q" "linked q priority" "priority < n"
  shows "pop_first_better priority q =
     Some (case best_level priority q of
             None \<Rightarrow> (None, q)
           | Some p \<Rightarrow> (Some (hd (level_data q p)), set_data p (tl (level_data q p)) q))"
proof -
  have "filter (\<lambda>p. p < priority) (filter (linked q) [0..<n]) = filter (linked q) [0..<priority]"
  proof -
    have "[0..<n] = [0..<priority] @ [priority..<n]" using assms(3) upt_add_eq_append [of 0 priority "n - priority"] by simp
    then show ?thesis by (auto simp: filter_empty_conv intro!: filter_cong)
  qed
  moreover have "find (\<lambda>p. level_data q p \<noteq> []) (filter (linked q) [0..<priority]) = best_level priority q"
    unfolding best_level_def using assms(1) by (intro find_filter_weaken) (auto simp: tql_ok_def)
  ultimately show ?thesis
    using pop_better_chain [OF tql_ok_chain [OF assms(1)] sorted_wrt_filter [OF sorted_upt], of priority] assms(2,3)
    by (auto simp: pop_first_better_def)
qed

section \<open>Operations keep the invariant\<close>

lemma level_data_set [simp]: "level_data (set_data p xs q) r = (if r = p then xs else level_data q r)"
  by (simp add: level_data_def set_data_def)

lemma linked_set [simp]: "linked (set_data p xs q) = linked q"
  by (auto simp: linked_def set_data_def fun_eq_iff)

lemma next_set [simp]: "next_nonempty (queues (set_data p xs q) r) = next_nonempty (queues q r)" "first (set_data p xs q) = first q"
  by (simp_all add: set_data_def)

lemma tql_ok_set_data:
  assumes "tql_ok n q" "xs = [] \<or> (p < n \<and> linked q p)"
  shows "tql_ok n (set_data p xs q)"
  using assms by (auto simp: tql_ok_def)

lemma tql_ok_new: "tql_ok n tql_new"
  by (simp add: tql_ok_def tql_new_def linked_def empty_queue_def level_data_def)

lemma chain_upd: "p \<notin> set ps \<Longrightarrow> chain (nx(p := v)) l ps \<longleftrightarrow> chain nx l ps"
  by (induction ps arbitrary: l) auto

lemma chain_insert:
  assumes "chain nx l (xs @ x # ys)" "distinct (xs @ x # ys)" "p \<notin> set (xs @ x # ys)"
  shows "chain (nx(p := nx x, x := Level p)) l (xs @ x # p # ys)"
  using assms
proof (induction xs arbitrary: l)
  case Nil
  then have "chain (nx(p := nx x)) (nx x) ys" "x \<notin> set ys" by (simp_all add: chain_upd)
  then have "chain (nx(p := nx x, x := Level p)) (nx x) ys" by (subst chain_upd)
  then show ?case using Nil by (simp add: fun_upd_def)
qed auto

lemma link_loop_unlinked:
  assumes "\<And>r. i \<le> r \<Longrightarrow> r < j \<Longrightarrow> \<not> linked q r" "i \<le> j"
  shows "link_loop p j q = link_loop p i q"
  using assms
proof (induction j)
  case (Suc j)
  show ?case
  proof (cases "i = Suc j")
    case False
    then have "\<not> linked q j" using Suc.prems by simp
    then show ?thesis using Suc False by (auto simp: linked_def)
  qed simp
qed simp

lemma tql_link_next:
  assumes "tql_ok n q" "p < n" "\<not> linked q p"
  shows "chain (\<lambda>r. next_nonempty (queues (tql_link p q) r)) (first (tql_link p q))
      (filter (\<lambda>r. linked q r \<or> r = p) [0..<n])"
    "linked (tql_link p q) = (\<lambda>r. linked q r \<or> r = p)" "level_data (tql_link p q) = level_data q"
proof -
  let ?nx = "\<lambda>r. next_nonempty (queues q r)"
  define xs ys where "xs = filter (linked q) [0..<p]" and "ys = filter (linked q) [Suc p..<n]"
  have split: "[0..<n] = [0..<p] @ p # [Suc p..<n]"
    using assms(2) upt_add_eq_append [of 0 p "n - p"] by (simp add: upt_conv_Cons)
  have all: "filter (linked q) [0..<n] = xs @ ys" "filter (\<lambda>r. linked q r \<or> r = p) [0..<n] = xs @ p # ys"
    unfolding split xs_def ys_def filter_append filter.simps using assms(3)
    by (auto intro!: arg_cong2 [where f = append] filter_cong)
  have ch: "chain ?nx (first q) (xs @ ys)" using tql_ok_chain [OF assms(1)] all(1) by simp
  have d: "distinct (xs @ ys)" "p \<notin> set (xs @ ys)" by (auto simp: xs_def ys_def)
  have "(chain (\<lambda>r. next_nonempty (queues (tql_link p q) r)) (first (tql_link p q)) (xs @ p # ys)) \<and>
    linked (tql_link p q) = (\<lambda>r. linked q r \<or> r = p) \<and> level_data (tql_link p q) = level_data q"
  proof (cases xs rule: rev_cases)
    case Nil
    then have "tql_link p q = link_loop p 0 q"
      unfolding tql_link_def by (intro link_loop_unlinked) (auto simp: xs_def filter_empty_conv)
    then have q': "tql_link p q = (set_next p (first q) q)\<lparr>first := Level p\<rparr>" by simp
    have "first q \<noteq> UnlinkedTag" using ch Nil by (cases ys) auto
    moreover have "chain (?nx(p := first q)) (Level p) (p # ys)" using ch Nil d(2) by (simp add: chain_upd)
    moreover have "(\<lambda>r. next_nonempty (queues (tql_link p q) r)) = ?nx(p := first q)"
      by (auto simp: q' set_next_def)
    moreover have "first (tql_link p q) = Level p" by (simp add: q')
    moreover have "linked (tql_link p q) = (\<lambda>r. linked q r \<or> r = p)" "level_data (tql_link p q) = level_data q"
      using calculation(1) by (auto simp: q' linked_def level_data_def set_next_def fun_eq_iff)
    ultimately show ?thesis using Nil by simp
  next
    case (snoc zs x)
    have x: "x < p" "linked q x" using snoc by (auto simp: xs_def dest!: arg_cong [of _ _ set])
    have gap: "\<not> linked q r" if "Suc x \<le> r" "r < p" for r
    proof
      assume "linked q r"
      then have "r \<in> set xs" using that by (simp add: xs_def)
      moreover have "sorted xs" unfolding xs_def by (simp add: sorted_wrt_filter)
      ultimately show False using snoc that by (auto simp: sorted_append)
    qed
    have "tql_link p q = link_loop p (Suc x) q"
      unfolding tql_link_def using gap x(1) by (intro link_loop_unlinked) auto
    then have q': "tql_link p q = set_next x (Level p) (set_next p (?nx x) q)" using x(2) by (simp add: linked_def)
    have "chain (?nx(p := ?nx x, x := Level p)) (first q) (zs @ x # p # ys)"
      using ch d snoc by (intro chain_insert) auto
    moreover have "(\<lambda>r. next_nonempty (queues (tql_link p q) r)) = ?nx(p := ?nx x, x := Level p)"
      by (auto simp: q' set_next_def)
    moreover have "first (tql_link p q) = first q" by (simp add: q' set_next_def)
    moreover have "linked (tql_link p q) = (\<lambda>r. linked q r \<or> r = p)" "level_data (tql_link p q) = level_data q"
      using x by (auto simp: q' linked_def level_data_def set_next_def fun_eq_iff)
    ultimately show ?thesis using snoc by simp
  qed
  then show "chain (\<lambda>r. next_nonempty (queues (tql_link p q) r)) (first (tql_link p q))
      (filter (\<lambda>r. linked q r \<or> r = p) [0..<n])"
    "linked (tql_link p q) = (\<lambda>r. linked q r \<or> r = p)" "level_data (tql_link p q) = level_data q"
    using all(2) by simp_all
qed

lemma prepare_ok:
  assumes "tql_ok n q" "p < n"
  shows "tql_ok n (prepare p q)" "linked (prepare p q) = (\<lambda>r. linked q r \<or> r = p)" "level_data (prepare p q) = level_data q"
proof -
  have "tql_ok n (prepare p q) \<and> linked (prepare p q) = (\<lambda>r. linked q r \<or> r = p) \<and> level_data (prepare p q) = level_data q"
  proof (cases "linked q p")
    case True
    then show ?thesis using assms by (auto simp: prepare_def linked_def)
  next
    case False
    then have "prepare p q = tql_link p q" by (simp add: prepare_def linked_def)
    then show ?thesis using tql_link_next [OF assms False] assms(1) by (auto simp: tql_ok_def)
  qed
  then show "tql_ok n (prepare p q)" "linked (prepare p q) = (\<lambda>r. linked q r \<or> r = p)" "level_data (prepare p q) = level_data q"
    by blast+
qed

section \<open>The interface of the scheduler\<close>

text \<open>
  What the scheduler relies on: levels of threads, of which the known ones can be filled, and removal of
  the first thread of the best level. The laws say how every operation changes the contents and that it
  keeps the queue usable.
\<close>

locale ready_queue =
  fixes levels :: nat
    and ok :: "'q \<Rightarrow> bool"
    and contents :: "'q \<Rightarrow> nat \<Rightarrow> 't list"
    and known :: "'q \<Rightarrow> nat \<Rightarrow> bool"
    and pop :: "'q \<Rightarrow> ('t option \<times> 'q) option"
    and pop_better :: "nat \<Rightarrow> 'q \<Rightarrow> ('t option \<times> 'q) option"
    and put_front :: "nat \<Rightarrow> 't \<Rightarrow> 'q \<Rightarrow> 'q"
    and put_back :: "nat \<Rightarrow> 't \<Rightarrow> 'q \<Rightarrow> 'q"
    and take_out :: "nat \<Rightarrow> 't \<Rightarrow> 'q \<Rightarrow> 'q"
    and make_known :: "nat \<Rightarrow> 'q \<Rightarrow> 'q"
  assumes stored: "ok q \<Longrightarrow> contents q p \<noteq> [] \<Longrightarrow> p < levels \<and> known q p"
    and pop_law: "ok q \<Longrightarrow> (\<exists>p. contents q p \<noteq> []) \<Longrightarrow>
      \<exists>p t ts q'. contents q p = t # ts \<and> (\<forall>r < p. contents q r = []) \<and> pop q = Some (Some t, q') \<and>
        ok q' \<and> contents q' = (contents q)(p := ts) \<and> known q' = known q"
    and pop_none: "ok q \<Longrightarrow> (\<forall>p. contents q p = []) \<Longrightarrow> pop q = Some (None, q)"
    and better_law: "ok q \<Longrightarrow> known q stop \<Longrightarrow> stop < levels \<Longrightarrow> (\<exists>p < stop. contents q p \<noteq> []) \<Longrightarrow>
      \<exists>p t ts q'. p < stop \<and> contents q p = t # ts \<and> (\<forall>r < p. contents q r = []) \<and>
        pop_better stop q = Some (Some t, q') \<and> ok q' \<and> contents q' = (contents q)(p := ts) \<and> known q' = known q"
    and better_none: "ok q \<Longrightarrow> known q stop \<Longrightarrow> stop < levels \<Longrightarrow> (\<forall>p < stop. contents q p = []) \<Longrightarrow>
      pop_better stop q = Some (None, q)"
    and put_front_law: "ok q \<Longrightarrow> known q p \<Longrightarrow> p < levels \<Longrightarrow>
      ok (put_front p t q) \<and> contents (put_front p t q) = (contents q)(p := t # contents q p) \<and> known (put_front p t q) = known q"
    and put_back_law: "ok q \<Longrightarrow> known q p \<Longrightarrow> p < levels \<Longrightarrow>
      ok (put_back p t q) \<and> contents (put_back p t q) = (contents q)(p := contents q p @ [t]) \<and> known (put_back p t q) = known q"
    and take_out_law: "ok q \<Longrightarrow>
      ok (take_out p t q) \<and> contents (take_out p t q) = (contents q)(p := removeAll t (contents q p)) \<and> known (take_out p t q) = known q"
    and make_known_law: "ok q \<Longrightarrow> p < levels \<Longrightarrow>
      ok (make_known p q) \<and> contents (make_known p q) = contents q \<and> known (make_known p q) = (known q)(p := True)"
begin

text \<open>Removing never aborts, and what it removes is a thread of the best level.\<close>

lemma pop_total: "ok q \<Longrightarrow> \<exists>r q'. pop q = Some (r, q') \<and> ok q' \<and> known q' = known q"
  using pop_law pop_none by metis

lemma pop_best:
  assumes "ok q" "pop q = Some (Some t, q')"
  shows "\<exists>p. contents q p \<noteq> [] \<and> t = hd (contents q p) \<and> (\<forall>r < p. contents q r = []) \<and>
    contents q' = (contents q)(p := tl (contents q p)) \<and> ok q' \<and> known q' = known q"
proof (cases "\<exists>p. contents q p \<noteq> []")
  case True
  then obtain p u ts q1 where *: "contents q p = u # ts" "\<forall>r < p. contents q r = []" "pop q = Some (Some u, q1)"
    "ok q1" "contents q1 = (contents q)(p := ts)" "known q1 = known q" using pop_law [OF assms(1)] by blast
  show ?thesis by (rule exI [of _ p]) (use * assms(2) in simp)
next
  case False
  then show ?thesis using pop_none [OF assms(1)] assms(2) by simp
qed

lemma pop_better_best:
  assumes "ok q" "known q stop" "stop < levels" "pop_better stop q = Some (Some t, q')"
  shows "\<exists>p < stop. contents q p \<noteq> [] \<and> t = hd (contents q p) \<and> (\<forall>r < p. contents q r = []) \<and>
    contents q' = (contents q)(p := tl (contents q p)) \<and> ok q' \<and> known q' = known q"
proof (cases "\<exists>p < stop. contents q p \<noteq> []")
  case True
  then obtain p u ts q1 where *: "p < stop" "contents q p = u # ts" "\<forall>r < p. contents q r = []"
    "pop_better stop q = Some (Some u, q1)" "ok q1" "contents q1 = (contents q)(p := ts)" "known q1 = known q"
    using better_law [OF assms(1-3)] by blast
  show ?thesis by (rule exI [of _ p]) (use * assms(4) in simp)
next
  case False
  then show ?thesis using better_none [OF assms(1-3)] assms(4) by simp
qed

lemma pop_better_total:
  "ok q \<Longrightarrow> known q stop \<Longrightarrow> stop < levels \<Longrightarrow> \<exists>r q'. pop_better stop q = Some (r, q') \<and> ok q' \<and> known q' = known q"
  using better_law better_none by metis

lemma change_level_law:
  assumes "ok q" "p < levels"
  shows "ok (put_back p t (make_known p (take_out r t q))) \<and>
    contents (put_back p t (make_known p (take_out r t q))) =
      ((contents q)(r := removeAll t (contents q r)))(p := ((contents q)(r := removeAll t (contents q r))) p @ [t]) \<and>
    known (put_back p t (make_known p (take_out r t q))) = (known q)(p := True)"
  using assms take_out_law [OF assms(1), of r t] make_known_law [OF _ assms(2), of "take_out r t q"]
    put_back_law [OF _ _ assms(2), of "make_known p (take_out r t q)" t] by simp

end

lemma best_level_Some:
  "best_level n q = Some p \<longleftrightarrow> p < n \<and> level_data q p \<noteq> [] \<and> (\<forall>r < p. level_data q r = [])"
  by (auto simp: best_level_def find_Some_iff)

lemma best_level_None: "best_level n q = None \<longleftrightarrow> (\<forall>p < n. level_data q p = [])"
  by (auto simp: best_level_def find_None_iff)

lemma pop_result:
  assumes "tql_ok n q" "best_level m q = Some p" "m \<le> n"
  shows "\<exists>t ts. level_data q p = t # ts \<and> (\<forall>r < p. level_data q r = []) \<and> p < m \<and> tql_ok n (set_data p ts q) \<and>
    hd (level_data q p) = t \<and> tl (level_data q p) = ts"
proof -
  have p: "p < m" "level_data q p \<noteq> []" "\<forall>r < p. level_data q r = []" using assms(2) by (auto simp: best_level_Some)
  then obtain t ts where "level_data q p = t # ts" by (cases "level_data q p") auto
  moreover have "linked q p" using assms(1) p(2) by (auto simp: tql_ok_def)
  ultimately show ?thesis using p assms(1,3) by (auto intro!: tql_ok_set_data)
qed

interpretation rq: ready_queue 64 "tql_ok 64" level_data linked pop_first pop_first_better push_front push_back tql_remove prepare
proof (unfold_locales, goal_cases)
  case (1 q p)
  then show ?case by (auto simp: tql_ok_def)
next
  case (2 q)
  then obtain p where b: "best_level 64 q = Some p" using best_level_None [of 64 q] by (cases "best_level 64 q") (auto simp: tql_ok_def)
  obtain t ts where "level_data q p = t # ts" "\<forall>r < p. level_data q r = []" "tql_ok 64 (set_data p ts q)"
    "hd (level_data q p) = t" "tl (level_data q p) = ts" using pop_result [OF 2(1) b] by blast
  then show ?case
    using pop_first_best [OF 2(1)] b
    by (intro exI [of _ p] exI [of _ t] exI [of _ ts] exI [of _ "set_data p ts q"]) auto
next
  case (3 q)
  then show ?case using pop_first_best [OF 3(1)] best_level_None [of 64 q] by simp
next
  case (4 q stop)
  then obtain p where b: "best_level stop q = Some p" using best_level_None [of stop q] by (cases "best_level stop q") auto
  obtain t ts where "p < stop" "level_data q p = t # ts" "\<forall>r < p. level_data q r = []" "tql_ok 64 (set_data p ts q)"
    "hd (level_data q p) = t" "tl (level_data q p) = ts" using pop_result [OF 4(1) b] 4(3) by auto
  then show ?case
    using pop_first_better_best [OF 4(1-3)] b
    by (intro exI [of _ p] exI [of _ t] exI [of _ ts] exI [of _ "set_data p ts q"]) auto
next
  case (5 q stop)
  then show ?case using pop_first_better_best [OF 5(1-3)] best_level_None [of stop q] by simp
next
  case (6 q p t)
  then show ?case by (auto simp: push_front_def tql_ok_set_data fun_eq_iff)
next
  case (7 q p t)
  then show ?case by (auto simp: push_back_def tql_ok_set_data fun_eq_iff)
next
  case (8 q p t)
  then have "removeAll t (level_data q p) = [] \<or> p < 64 \<and> linked q p"
    by (cases "level_data q p") (auto simp: tql_ok_def)
  then show ?case using 8 by (auto simp: tql_remove_def tql_ok_set_data fun_eq_iff)
next
  case (9 q p)
  then show ?case using prepare_ok [OF 9] by (auto simp: fun_eq_iff)
qed

section \<open>Properties\<close>



end
