(* ===== verification/Binary_Heap.thy ===== *)
theory Binary_Heap
  imports Prelude "HOL-Library.Multiset"
begin

text \<open>
  \<open>std::push_heap\<close>, \<open>std::pop_heap\<close> and \<open>std::make_heap\<close> with \<open>std::greater<>\<close>, the operations of the
  standard library \<open>core/core_timing.cpp\<close> keeps its event queue with: a vector is a min-heap of
  the keys of its elements. The interface of a priority queue, over the multiset of the elements, is
  the locale \<open>min_queue\<close>.
\<close>

section \<open>Sifting\<close>

definition par :: "nat \<Rightarrow> nat" where "par i = (i - 1) div 2"

definition swap :: "'a list \<Rightarrow> nat \<Rightarrow> nat \<Rightarrow> 'a list" where
  "swap xs i j = xs[i := xs ! j, j := xs ! i]"

function sift_up :: "('a \<Rightarrow> 'k::linorder) \<Rightarrow> 'a list \<Rightarrow> nat \<Rightarrow> 'a list" where
  "sift_up key xs i =
     (if 0 < i \<and> key (xs ! i) < key (xs ! par i) then sift_up key (swap xs i (par i)) (par i) else xs)"
  by pat_completeness auto
termination by (relation "measure (\<lambda>(key, xs, i). i)") (auto simp: par_def)

declare sift_up.simps [simp del]

text \<open>The smaller child of \<open>i\<close>, if it has any.\<close>

definition least_child :: "('a \<Rightarrow> 'k::linorder) \<Rightarrow> 'a list \<Rightarrow> nat \<Rightarrow> nat option" where
  "least_child key xs i =
     (if 2 * i + 2 < length xs then
        Some (if key (xs ! (2 * i + 2)) < key (xs ! (2 * i + 1)) then 2 * i + 2 else 2 * i + 1)
      else if 2 * i + 1 < length xs then Some (2 * i + 1)
      else None)"

lemma least_child_bounds: "least_child key xs i = Some c \<Longrightarrow> i < c \<and> c < length xs"
  by (auto simp: least_child_def split: if_splits)

lemma length_swap [simp]: "length (swap xs i j) = length xs"
  by (simp add: swap_def)

function sift_down :: "('a \<Rightarrow> 'k::linorder) \<Rightarrow> 'a list \<Rightarrow> nat \<Rightarrow> 'a list" where
  "sift_down key xs i =
     (case least_child key xs i of
        None \<Rightarrow> xs
      | Some c \<Rightarrow> if key (xs ! c) < key (xs ! i) then sift_down key (swap xs i c) c else xs)"
  by pat_completeness auto
termination
  by (relation "measure (\<lambda>(key, xs, i). length xs - i)") (auto dest: least_child_bounds)

declare sift_down.simps [simp del]

definition push_heap :: "('a \<Rightarrow> 'k::linorder) \<Rightarrow> 'a list \<Rightarrow> 'a list" where
  "push_heap key xs = sift_up key xs (length xs - 1)"

text \<open>\<open>pop_heap\<close> moves the first element to the end and makes a heap of the rest.\<close>

definition pop_heap :: "('a \<Rightarrow> 'k::linorder) \<Rightarrow> 'a list \<Rightarrow> 'a list" where
  "pop_heap key xs =
     (if xs = [] then [] else sift_down key (butlast (swap xs 0 (length xs - 1))) 0 @ [xs ! 0])"

definition make_heap :: "('a \<Rightarrow> 'k::linorder) \<Rightarrow> 'a list \<Rightarrow> 'a list" where
  "make_heap key xs = fold (\<lambda>i xs. sift_down key xs i) (rev [0..<length xs div 2]) xs"

section \<open>Heaps\<close>

text \<open>Every element at or below level \<open>k\<close> of the array is no smaller than its parent, if that is at \<open>k\<close> or beyond.\<close>

definition heap_from :: "('a \<Rightarrow> 'k::linorder) \<Rightarrow> nat \<Rightarrow> 'a list \<Rightarrow> bool" where
  "heap_from key k xs \<longleftrightarrow> (\<forall>j < length xs. 0 < j \<longrightarrow> k \<le> par j \<longrightarrow> key (xs ! par j) \<le> key (xs ! j))"

definition is_heap :: "('a \<Rightarrow> 'k::linorder) \<Rightarrow> 'a list \<Rightarrow> bool" where
  "is_heap key xs \<longleftrightarrow> heap_from key 0 xs"

definition up_hole :: "('a \<Rightarrow> 'k::linorder) \<Rightarrow> 'a list \<Rightarrow> nat \<Rightarrow> bool" where
  "up_hole key xs i \<longleftrightarrow>
     (\<forall>j < length xs. 0 < j \<longrightarrow> j \<noteq> i \<longrightarrow> key (xs ! par j) \<le> key (xs ! j)) \<and>
     (0 < i \<longrightarrow> (\<forall>j < length xs. 0 < j \<longrightarrow> par j = i \<longrightarrow> key (xs ! par i) \<le> key (xs ! j)))"

definition down_hole :: "('a \<Rightarrow> 'k::linorder) \<Rightarrow> nat \<Rightarrow> 'a list \<Rightarrow> nat \<Rightarrow> bool" where
  "down_hole key k xs i \<longleftrightarrow>
     (\<forall>j < length xs. 0 < j \<longrightarrow> k \<le> par j \<longrightarrow> par j \<noteq> i \<longrightarrow> key (xs ! par j) \<le> key (xs ! j)) \<and>
     (0 < i \<longrightarrow> k \<le> par i \<longrightarrow> (\<forall>j < length xs. 0 < j \<longrightarrow> par j = i \<longrightarrow> key (xs ! par i) \<le> key (xs ! j)))"

lemma par_less: "0 < j \<Longrightarrow> par j < j"
  by (auto simp: par_def)

lemma child_cases: "0 < j \<Longrightarrow> par j = i \<longleftrightarrow> j = 2 * i + 1 \<or> j = 2 * i + 2"
  by (auto simp: par_def)

lemma nth_swap:
  "i < length xs \<Longrightarrow> j < length xs \<Longrightarrow> k < length xs \<Longrightarrow>
   swap xs i j ! k = (if k = j then xs ! i else if k = i then xs ! j else xs ! k)"
  by (auto simp: swap_def nth_list_update)

lemma mset_swap_list [simp]: "i < length xs \<Longrightarrow> j < length xs \<Longrightarrow> mset (swap xs i j) = mset xs"
  by (simp add: swap_def mset_swap)

lemma sift_up_mset: "i < length xs \<Longrightarrow> mset (sift_up key xs i) = mset xs"
proof (induction key xs i rule: sift_up.induct)
  case (1 key xs i)
  then show ?case by (subst sift_up.simps) (use par_less [of i] in auto)
qed

lemma sift_down_mset: "i < length xs \<Longrightarrow> mset (sift_down key xs i) = mset xs"
proof (induction key xs i rule: sift_down.induct)
  case (1 key xs i)
  then show ?case
    by (subst sift_down.simps) (auto split: option.split dest: least_child_bounds)
qed

lemma up_hole_swap:
  assumes "up_hole key xs i" "i < length xs" "0 < i" "key (xs ! i) < key (xs ! par i)"
  shows "up_hole key (swap xs i (par i)) (par i)"
proof -
  let ?p = "par i" and ?ys = "swap xs i (par i)"
  have p: "?p < i" "?p < length xs" using par_less [OF assms(3)] assms(2) by auto
  have nth: "?ys ! k = (if k = ?p then xs ! i else if k = i then xs ! ?p else xs ! k)" if "k < length xs" for k
    using nth_swap [OF assms(2) p(2) that] .
  have ord: "key (xs ! par j) \<le> key (xs ! j)" if "j < length xs" "0 < j" "j \<noteq> i" for j
    using assms(1) that by (auto simp: up_hole_def)
  have kid: "key (xs ! ?p) \<le> key (xs ! j)" if "j < length xs" "0 < j" "par j = i" for j
    using assms(1,3) that by (auto simp: up_hole_def)
  have "key (?ys ! par j) \<le> key (?ys ! j)" if j: "j < length xs" "0 < j" "j \<noteq> ?p" for j
  proof -
    have pj: "par j < length xs" using par_less [OF j(2)] j(1) by simp
    consider "j = i" | "j \<noteq> i" "par j = i" | "j \<noteq> i" "par j = ?p" | "j \<noteq> i" "par j \<noteq> i" "par j \<noteq> ?p" by blast
    then show ?thesis
    proof cases
      case 1
      then show ?thesis using nth pj j p assms(4) by auto
    next
      case 2
      then show ?thesis using nth [OF pj] nth [OF j(1)] kid [OF j(1,2)] j p by auto
    next
      case 3
      then show ?thesis using nth [OF pj] nth [OF j(1)] ord [OF j(1,2)] j assms(4) by auto
    next
      case 4
      then show ?thesis using nth [OF pj] nth [OF j(1)] ord [OF j(1,2)] j by auto
    qed
  qed
  moreover have "key (?ys ! par ?p) \<le> key (?ys ! j)" if pp: "0 < ?p" and j: "j < length xs" "0 < j" "par j = ?p" for j
  proof -
    have q: "par ?p < ?p" "par ?p < length xs" using par_less [OF pp] p by auto
    have top: "key (xs ! par ?p) \<le> key (xs ! ?p)" using ord [OF p(2) pp] p by auto
    show ?thesis
    proof (cases "j = i")
      case True
      then show ?thesis using nth [OF q(2)] nth [OF j(1)] top q p by auto
    next
      case False
      then have "key (xs ! ?p) \<le> key (xs ! j)" using ord [OF j(1,2)] j(3) by simp
      then show ?thesis using nth [OF q(2)] nth [OF j(1)] top q p False par_less [OF j(2)] j(3) by auto
    qed
  qed
  ultimately show ?thesis by (auto simp: up_hole_def)
qed

lemma sift_up_heap: "up_hole key xs i \<Longrightarrow> i < length xs \<Longrightarrow> is_heap key (sift_up key xs i)"
proof (induction key xs i rule: sift_up.induct)
  case (1 key xs i)
  show ?case
  proof (cases "0 < i \<and> key (xs ! i) < key (xs ! par i)")
    case True
    then have "up_hole key (swap xs i (par i)) (par i)" "par i < length (swap xs i (par i))"
      using up_hole_swap [OF 1(2,3)] par_less [of i] 1(3) by auto
    then show ?thesis using 1(1) [OF True] True by (subst sift_up.simps) simp
  next
    case False
    then have "is_heap key xs"
      using 1(2) by (auto simp: is_heap_def heap_from_def up_hole_def not_less)
    moreover have "sift_up key xs i = xs" unfolding sift_up.simps [of key xs i] using False by (rule if_not_P)
    ultimately show ?thesis by simp
  qed
qed

lemma least_child_le:
  assumes "least_child key xs i = Some c" "j < length xs" "0 < j" "par j = i"
  shows "key (xs ! c) \<le> key (xs ! j)"
  using assms by (auto simp: least_child_def child_cases split: if_splits)

lemma least_child_par: "least_child key xs i = Some c \<Longrightarrow> par c = i \<and> 0 < c"
  by (auto simp: least_child_def par_def split: if_splits)

lemma down_hole_swap:
  assumes "down_hole key k xs i" "k \<le> i" "least_child key xs i = Some c" "key (xs ! c) < key (xs ! i)"
  shows "down_hole key k (swap xs i c) c"
proof -
  let ?ys = "swap xs i c"
  have c: "i < c" "c < length xs" "par c = i" "0 < c"
    using least_child_bounds [OF assms(3)] least_child_par [OF assms(3)] by auto
  have nth: "?ys ! j = (if j = c then xs ! i else if j = i then xs ! c else xs ! j)" if "j < length xs" for j
    using nth_swap [of i xs c j] c that by simp
  have ord: "key (xs ! par j) \<le> key (xs ! j)" if "j < length xs" "0 < j" "k \<le> par j" "par j \<noteq> i" for j
    using assms(1) that by (auto simp: down_hole_def)
  have top: "key (xs ! par i) \<le> key (xs ! j)" if "0 < i" "k \<le> par i" "j < length xs" "0 < j" "par j = i" for j
    using assms(1) that by (auto simp: down_hole_def)
  have "key (?ys ! par j) \<le> key (?ys ! j)" if j: "j < length xs" "0 < j" "k \<le> par j" "par j \<noteq> c" for j
  proof -
    have pj: "par j < length xs" using par_less [OF j(2)] j(1) by simp
    consider "par j = i" | "par j \<noteq> i" "j = i" | "par j \<noteq> i" "j \<noteq> i" by blast
    then show ?thesis
    proof cases
      case 1
      then show ?thesis
        using nth [OF pj] nth [OF j(1)] c least_child_le [OF assms(3) j(1,2)] assms(4) par_less [OF j(2)] by auto
    next
      case 2
      then have "key (xs ! par i) \<le> key (xs ! c)" using top [of c] j c by auto
      then show ?thesis using 2 nth [OF pj] nth [OF j(1)] c par_less [OF j(2)] by auto
    next
      case 3
      then have "j \<noteq> c" using c by auto
      then show ?thesis using 3 nth [OF pj] nth [OF j(1)] ord [OF j(1-3)] j(4) by auto
    qed
  qed
  moreover have "key (?ys ! par c) \<le> key (?ys ! j)" if j: "j < length xs" "0 < j" "par j = c" for j
  proof -
    have "key (xs ! c) \<le> key (xs ! j)" using ord [OF j(1,2)] j(3) c assms(2) by simp
    then show ?thesis using nth [of i] nth [OF j(1)] c par_less [OF j(2)] j(3) by auto
  qed
  ultimately show ?thesis by (auto simp: down_hole_def)
qed

lemma sift_down_heap:
  "down_hole key k xs i \<Longrightarrow> k \<le> i \<Longrightarrow> i < length xs \<Longrightarrow> heap_from key k (sift_down key xs i)"
proof (induction key xs i rule: sift_down.induct)
  case (1 key xs i)
  show ?case
  proof (cases "\<exists>c. least_child key xs i = Some c \<and> key (xs ! c) < key (xs ! i)")
    case True
    then obtain c where c: "least_child key xs i = Some c" "key (xs ! c) < key (xs ! i)" by blast
    have "heap_from key k (sift_down key (swap xs i c) c)"
      using 1(1) [OF c] down_hole_swap [OF 1(2,3) c] least_child_bounds [OF c(1)] 1(3) by simp
    then show ?thesis using c by (subst sift_down.simps) simp
  next
    case False
    have kids: "key (xs ! i) \<le> key (xs ! j)" if "j < length xs" "0 < j" "par j = i" for j
    proof (cases "least_child key xs i")
      case None
      then show ?thesis using that by (auto simp: least_child_def child_cases split: if_splits)
    next
      case (Some c)
      then show ?thesis using least_child_le [OF Some that] False by auto
    qed
    have "key (xs ! par j) \<le> key (xs ! j)" if "j < length xs" "0 < j" "k \<le> par j" for j
    proof (cases "par j = i")
      case True
      then show ?thesis using kids [OF that(1,2)] by simp
    next
      case False
      then show ?thesis using 1(2) that unfolding down_hole_def by blast
    qed
    then have "heap_from key k xs" by (simp add: heap_from_def)
    then show ?thesis using False by (subst sift_down.simps) (auto split: option.split)
  qed
qed

section \<open>The three operations\<close>

lemma push_heap_mset: "mset (push_heap key (xs @ [x])) = add_mset x (mset xs)"
  unfolding push_heap_def by (subst sift_up_mset) auto

lemma push_heap_heap:
  assumes "is_heap key xs"
  shows "is_heap key (push_heap key (xs @ [x]))"
proof -
  have "up_hole key (xs @ [x]) (length xs)"
    unfolding up_hole_def
  proof (intro conjI allI impI)
    fix j assume j: "j < length (xs @ [x])" "0 < j" "j \<noteq> length xs"
    then have "j < length xs" "par j < length xs" using par_less [of j] by auto
    then show "key ((xs @ [x]) ! par j) \<le> key ((xs @ [x]) ! j)"
      using assms j(2) by (simp add: is_heap_def heap_from_def nth_append)
  next
    fix j assume "j < length (xs @ [x])" "0 < j" "par j = length xs"
    then show "key ((xs @ [x]) ! par (length xs)) \<le> key ((xs @ [x]) ! j)" using par_less [of j] by simp
  qed
  then show ?thesis unfolding push_heap_def by (intro sift_up_heap) auto
qed

lemma is_heap_min: "is_heap key xs \<Longrightarrow> i < length xs \<Longrightarrow> key (xs ! 0) \<le> key (xs ! i)"
proof (induction i rule: less_induct)
  case (less i)
  show ?case
  proof (cases "i = 0")
    case False
    then have "par i < i" using par_less by simp
    then have "key (xs ! 0) \<le> key (xs ! par i)" using less by simp
    also have "\<dots> \<le> key (xs ! i)" using less.prems False by (auto simp: is_heap_def heap_from_def)
    finally show ?thesis .
  qed simp
qed

lemma pop_heap_spec:
  assumes "is_heap key xs" "xs \<noteq> []"
  shows "last (pop_heap key xs) = xs ! 0" "is_heap key (butlast (pop_heap key xs))"
    "mset (butlast (pop_heap key xs)) = mset xs - {#xs ! 0#}"
proof -
  let ?n = "length xs - 1" and ?ys = "butlast (swap xs 0 (length xs - 1))"
  have n: "0 < length xs" "?n < length xs" using assms(2) by simp_all
  have nth: "?ys ! j = (if j = 0 then xs ! ?n else xs ! j)" if "j < ?n" for j
    using that n by (auto simp: nth_butlast nth_swap)
  have len: "length ?ys = ?n" by simp
  have hole: "down_hole key 0 ?ys 0"
  proof -
    have "key (?ys ! par j) \<le> key (?ys ! j)" if "j < ?n" "0 < j" "par j \<noteq> 0" for j
    proof -
      have "par j < ?n" using par_less [OF that(2)] that(1) by simp
      moreover have "key (xs ! par j) \<le> key (xs ! j)" using assms(1) that by (auto simp: is_heap_def heap_from_def)
      ultimately show ?thesis using nth that by simp
    qed
    then show ?thesis by (simp add: down_hole_def)
  qed
  have swp: "swap xs 0 ?n = ?ys @ [xs ! 0]"
  proof -
    have "swap xs 0 ?n \<noteq> []" using n by (metis length_swap length_greater_0_conv)
    moreover from last_conv_nth [OF this] have "last (swap xs 0 ?n) = xs ! 0"
      using n by (simp add: nth_swap)
    ultimately show ?thesis by (metis append_butlast_last_id)
  qed
  have "add_mset (xs ! 0) (mset ?ys) = mset xs"
    using arg_cong [OF swp, of mset] mset_swap_list [OF n] by simp
  then have ms: "mset ?ys = mset xs - {#xs ! 0#}" by (metis add_mset_remove_trivial)
  show "last (pop_heap key xs) = xs ! 0" using assms(2) by (simp add: pop_heap_def)
  show "is_heap key (butlast (pop_heap key xs))" "mset (butlast (pop_heap key xs)) = mset xs - {#xs ! 0#}"
  proof -
    have b: "butlast (pop_heap key xs) = sift_down key ?ys 0" using assms(2) by (simp add: pop_heap_def)
    show "is_heap key (butlast (pop_heap key xs))"
    proof (cases "?ys = []")
      case True
      then show ?thesis
        unfolding b by (subst sift_down.simps) (simp add: least_child_def is_heap_def heap_from_def)
    next
      case False
      then have "0 < length ?ys" unfolding length_greater_0_conv .
      then show ?thesis unfolding b is_heap_def by (intro sift_down_heap [OF hole]) simp_all
    qed
    show "mset (butlast (pop_heap key xs)) = mset xs - {#xs ! 0#}"
    proof (cases "?ys = []")
      case True
      then show ?thesis unfolding b ms [symmetric] by (subst sift_down.simps) (simp add: least_child_def)
    next
      case False
      then have "0 < length ?ys" unfolding length_greater_0_conv .
      then show ?thesis unfolding b ms [symmetric] by (rule sift_down_mset)
    qed
  qed
qed

lemma make_heap_loop:
  assumes "heap_from key n xs" "2 * n \<le> length xs"
  shows "heap_from key 0 (fold (\<lambda>i xs. sift_down key xs i) (rev [0..<n]) xs) \<and>
    mset (fold (\<lambda>i xs. sift_down key xs i) (rev [0..<n]) xs) = mset xs"
  using assms
proof (induction n arbitrary: xs)
  case (Suc n)
  have n: "n < length xs" using Suc.prems(2) by simp
  have "down_hole key n xs n"
    using Suc.prems(1) by (auto simp: down_hole_def heap_from_def par_def)
  then have "heap_from key n (sift_down key xs n)" using n by (intro sift_down_heap) simp_all
  moreover have "mset (sift_down key xs n) = mset xs" by (rule sift_down_mset [OF n])
  ultimately show ?case using Suc by (simp add: size_mset [symmetric] del: size_mset)
qed simp

lemma make_heap_spec: "is_heap key (make_heap key xs) \<and> mset (make_heap key xs) = mset xs"
proof -
  have "heap_from key (length xs div 2) xs" by (auto simp: heap_from_def par_def)
  then show ?thesis unfolding make_heap_def is_heap_def by (intro make_heap_loop) auto
qed

section \<open>The interface\<close>

text \<open>
  A queue that gives its least element first: what its client adds and takes is described by the
  multiset of the elements. \<open>rebuild\<close> turns any vector into a queue.
\<close>

locale min_queue =
  fixes key :: "'a \<Rightarrow> 'k::linorder"
    and ok :: "'a list \<Rightarrow> bool"
    and add :: "'a \<Rightarrow> 'a list \<Rightarrow> 'a list"
    and remove :: "'a list \<Rightarrow> 'a list"
    and rebuild :: "'a list \<Rightarrow> 'a list"
  assumes ok_empty: "ok []"
    and add_law: "ok q \<Longrightarrow> ok (add x q) \<and> mset (add x q) = add_mset x (mset q)"
    and front_law: "ok q \<Longrightarrow> x \<in> set q \<Longrightarrow> key (q ! 0) \<le> key x"
    and remove_law: "ok q \<Longrightarrow> q \<noteq> [] \<Longrightarrow> ok (remove q) \<and> mset (remove q) = mset q - {#q ! 0#}"
    and rebuild_law: "ok (rebuild q) \<and> mset (rebuild q) = mset q"
begin

lemma length_remove: "ok q \<Longrightarrow> q \<noteq> [] \<Longrightarrow> length (remove q) = length q - 1"
  using remove_law [of q] by (metis nth_mem in_multiset_in_set length_greater_0_conv size_Diff_singleton size_mset)

lemma set_add: "ok q \<Longrightarrow> set (add x q) = insert x (set q)"
  using add_law [of q x] by (metis set_mset_add_mset_insert set_mset_mset)

text \<open>Filtering and rebuilding keeps exactly the wanted elements.\<close>

lemma rebuild_filter: "ok (rebuild (filter P q)) \<and> mset (rebuild (filter P q)) = filter_mset P (mset q)"
  using rebuild_law [of "filter P q"] by simp

end

end
