(* ===== verification/Core_Timing.thy ===== *)
theory Core_Timing
  imports Binary_Heap "HOL-Library.Product_Lexorder"
begin

text \<open>
  \<open>core/core_timing.cpp\<close> and \<open>core/core_timing.h\<close>: the emulated time of the processor cores and the
  events scheduled on it. Signed 64-bit quantities are integers; a conversion that may wrap is written
  out. An event type is its registered name. A callback is a parameter over the whole timing state, whose field
  \<open>world\<close> stands for the rest of the emulator. The clock scale of \<open>AddTicks\<close> is a function on ticks.
\<close>

section \<open>Cycles\<close>

definition to_s64 :: "int \<Rightarrow> int" where "to_s64 x = (x + 2 ^ 63) mod 2 ^ 64 - 2 ^ 63"
definition to_u64 :: "int \<Rightarrow> int" where "to_u64 x = x mod 2 ^ 64"
definition to_s32 :: "int \<Rightarrow> int" where "to_s32 x = (x + 2 ^ 31) mod 2 ^ 32 - 2 ^ 31"
definition s64_max :: int where "s64_max = 2 ^ 63 - 1"

definition BASE_CLOCK_RATE_ARM11 :: int where "BASE_CLOCK_RATE_ARM11 = 268111856"

definition MAX_VALUE_TO_MULTIPLY :: int where "MAX_VALUE_TO_MULTIPLY = s64_max div BASE_CLOCK_RATE_ARM11"

definition MAX_SLICE_LENGTH :: int where "MAX_SLICE_LENGTH = BASE_CLOCK_RATE_ARM11 div 234"

text \<open>The rate is unsigned, so the products are computed modulo \<open>2 ^ 64\<close>. A signed quotient is truncated.\<close>

definition times_rate :: "int \<Rightarrow> int" where "times_rate x = to_u64 (BASE_CLOCK_RATE_ARM11 * x)"

definition quot :: "int \<Rightarrow> int \<Rightarrow> int" where "quot a b = (if a < 0 then - (- a div b) else a div b)"

definition msToCycles :: "int \<Rightarrow> int" where
  "msToCycles ms = to_s64 (times_rate ms div 1000)"

definition usToCycles_int :: "int \<Rightarrow> int" where
  "usToCycles_int us = to_s64 (times_rate us div 1000000)"

definition nsToCycles_int :: "int \<Rightarrow> int" where
  "nsToCycles_int ns = to_s64 (times_rate ns div 1000000000)"

definition usToCycles_s64 :: "int \<Rightarrow> int" where
  "usToCycles_s64 us =
     (if quot us 1000000 > MAX_VALUE_TO_MULTIPLY then s64_max
      else if us > MAX_VALUE_TO_MULTIPLY then to_s64 (times_rate (quot us 1000000))
      else to_s64 (times_rate us div 1000000))"

definition usToCycles_u64 :: "int \<Rightarrow> int" where
  "usToCycles_u64 us =
     (if us div 1000000 > MAX_VALUE_TO_MULTIPLY then s64_max
      else if us > MAX_VALUE_TO_MULTIPLY then to_s64 (times_rate (to_s64 (us div 1000000)))
      else to_s64 (times_rate (to_s64 us) div 1000000))"

definition nsToCycles_s64 :: "int \<Rightarrow> int" where
  "nsToCycles_s64 ns =
     (if quot ns 1000000000 > MAX_VALUE_TO_MULTIPLY then s64_max
      else if ns > MAX_VALUE_TO_MULTIPLY then to_s64 (times_rate (quot ns 1000000000))
      else to_s64 (times_rate ns div 1000000000))"

definition nsToCycles_u64 :: "int \<Rightarrow> int" where
  "nsToCycles_u64 ns =
     (if ns div 1000000000 > MAX_VALUE_TO_MULTIPLY then s64_max
      else if ns > MAX_VALUE_TO_MULTIPLY then to_s64 (times_rate (quot (to_s64 ns) 1000000000))
      else to_s64 (times_rate (to_s64 ns) div 1000000000))"

definition cyclesToNs :: "int \<Rightarrow> int" where
  "cyclesToNs cycles = to_u64 (to_s64 (cycles * 1000000000)) div BASE_CLOCK_RATE_ARM11"

definition cyclesToUs :: "int \<Rightarrow> int" where
  "cyclesToUs cycles = to_s64 (to_u64 (to_s64 (cycles * 1000000)) div BASE_CLOCK_RATE_ARM11)"

definition cyclesToMs :: "int \<Rightarrow> int" where
  "cyclesToMs cycles = to_u64 (to_s64 (cycles * 1000)) div BASE_CLOCK_RATE_ARM11"

section \<open>Timers\<close>

record Event =
  etime :: int
  fifo_order :: u64
  user_data :: u64
  etype :: string

definition event_key :: "Event \<Rightarrow> int \<times> u64" where
  "event_key e = (etime e, fifo_order e)"

record Timer =
  event_queue :: "Event list"
  event_fifo_id :: u64
  ts_queue :: "Event list"
  is_timer_sane :: bool
  slice_length :: int
  downcount :: int
  executed_ticks :: int
  idled_cycles :: int

definition Timer_new :: "int \<Rightarrow> Timer" where
  "Timer_new base_ticks =
     \<lparr>event_queue = [], event_fifo_id = 0, ts_queue = [], is_timer_sane = True,
      slice_length = MAX_SLICE_LENGTH, downcount = MAX_SLICE_LENGTH, executed_ticks = base_ticks, idled_cycles = 0\<rparr>"

definition Timer_GetTicks :: "Timer \<Rightarrow> int" where
  "Timer_GetTicks t =
     to_u64 (to_u64 (executed_ticks t) + (if \<not> is_timer_sane t then slice_length t - downcount t else 0))"

definition AddTicks :: "(int \<Rightarrow> int) \<Rightarrow> int \<Rightarrow> Timer \<Rightarrow> Timer" where
  "AddTicks scale ticks t = t\<lparr>downcount := to_s64 (to_u64 (downcount t) - scale ticks)\<rparr>"

definition GetIdleTicks :: "Timer \<Rightarrow> int" where "GetIdleTicks t = to_u64 (idled_cycles t)"

definition ForceExceptionCheck :: "int \<Rightarrow> Timer \<Rightarrow> Timer" where
  "ForceExceptionCheck cycles t =
     (let cycles = max 0 cycles
      in if downcount t > cycles
         then t\<lparr>slice_length := slice_length t - (downcount t - cycles), downcount := cycles\<rparr>
         else t)"

text \<open>\<open>emplace_back\<close> of an event followed by \<open>push_heap\<close>.\<close>

definition push_event :: "Event \<Rightarrow> Event list \<Rightarrow> Event list" where
  "push_event e q = push_heap event_key (q @ [e])"

text \<open>\<open>pop_heap\<close> followed by \<open>pop_back\<close>.\<close>

definition pop_event :: "Event list \<Rightarrow> Event list" where
  "pop_event q = butlast (pop_heap event_key q)"

definition move_event :: "Event \<Rightarrow> Timer \<Rightarrow> Timer" where
  "move_event ev t =
     t\<lparr>event_queue := push_event (ev\<lparr>fifo_order := event_fifo_id t\<rparr>) (event_queue t),
       event_fifo_id := event_fifo_id t + 1\<rparr>"

definition MoveEvents :: "Timer \<Rightarrow> Timer" where
  "MoveEvents t = fold move_event (ts_queue t) (t\<lparr>ts_queue := []\<rparr>)"

text \<open>\<open>None\<close> is the failed assertion.\<close>

definition GetMaxSliceLength :: "Timer \<Rightarrow> int option" where
  "GetMaxSliceLength t =
     (case event_queue t of
        [] \<Rightarrow> Some MAX_SLICE_LENGTH
      | e # _ \<Rightarrow> if etime e - executed_ticks t > 0 then Some (etime e - executed_ticks t) else None)"

definition SetNextSlice :: "int \<Rightarrow> Timer \<Rightarrow> Timer" where
  "SetNextSlice max_slice_length t =
     (let sl = (case event_queue t of
                  [] \<Rightarrow> max_slice_length
                | e # _ \<Rightarrow> to_s32 (min (etime e - executed_ticks t) max_slice_length))
      in t\<lparr>slice_length := sl, downcount := sl\<rparr>)"

definition Timer_Idle :: "Timer \<Rightarrow> Timer" where
  "Timer_Idle t = t\<lparr>idled_cycles := idled_cycles t + downcount t, downcount := 0\<rparr>"

definition GetDowncount :: "Timer \<Rightarrow> int" where "GetDowncount t = downcount t"

section \<open>Timing\<close>

record 'w Timing =
  event_types :: "string \<Rightarrow> bool option"
  timers :: "Timer list"
  current_timer :: nat
  event_queue_locked :: bool
  world :: 'w

definition Timing_new :: "nat \<Rightarrow> int \<Rightarrow> 'w \<Rightarrow> 'w Timing" where
  "Timing_new num_cores base_ticks w =
     \<lparr>event_types = Map.empty, timers = replicate num_cores (Timer_new base_ticks), current_timer = 0,
      event_queue_locked = False, world = w\<rparr>"

text \<open>A type is recorded with whether it has a callback.\<close>

definition RegisterEvent :: "string \<Rightarrow> bool \<Rightarrow> 'w Timing \<Rightarrow> 'w Timing" where
  "RegisterEvent nm has_callback tm =
     tm\<lparr>event_types := (event_types tm)(nm \<mapsto>
       (has_callback \<or> (case event_types tm nm of Some b \<Rightarrow> b | None \<Rightarrow> False)))\<rparr>"

definition upd_timer :: "nat \<Rightarrow> (Timer \<Rightarrow> Timer) \<Rightarrow> 'w Timing \<Rightarrow> 'w Timing" where
  "upd_timer i f tm = tm\<lparr>timers := (timers tm)[i := f (timers tm ! i)]\<rparr>"

definition schedule_ts :: "int \<Rightarrow> string \<Rightarrow> u64 \<Rightarrow> Timer \<Rightarrow> Timer" where
  "schedule_ts cycles ty ud t =
     t\<lparr>ts_queue := ts_queue t @
       [\<lparr>etime = to_s64 (Timer_GetTicks t + cycles), fifo_order = 0, user_data = ud, etype = ty\<rparr>]\<rparr>"

definition schedule_now :: "int \<Rightarrow> string \<Rightarrow> u64 \<Rightarrow> Timer \<Rightarrow> Timer" where
  "schedule_now cycles ty ud t =
     (let timeout = to_s64 (Timer_GetTicks t + cycles);
          t = (if \<not> is_timer_sane t then ForceExceptionCheck cycles t else t)
      in t\<lparr>event_queue := push_event
             \<lparr>etime = timeout, fifo_order = event_fifo_id t, user_data = ud, etype = ty\<rparr> (event_queue t),
           event_fifo_id := event_fifo_id t + 1\<rparr>)"

text \<open>\<open>core_id\<close> is \<open>None\<close> for the current timer; \<open>None\<close> as a result is the failed assertion.\<close>

definition ScheduleEvent ::
    "int \<Rightarrow> string \<Rightarrow> u64 \<Rightarrow> nat option \<Rightarrow> bool \<Rightarrow> 'w Timing \<Rightarrow> 'w Timing option" where
  "ScheduleEvent cycles ty ud core_id thread_safe_mode tm =
     (if event_queue_locked tm then Some tm
      else
        let i = (case core_id of None \<Rightarrow> current_timer tm | Some c \<Rightarrow> c)
        in if i \<ge> length (timers tm) then None
           else if thread_safe_mode then
             Some (upd_timer i (schedule_ts (max (MAX_SLICE_LENGTH * 2) cycles) ty ud) tm)
           else if current_timer tm = i then Some (upd_timer i (schedule_now cycles ty ud) tm)
           else Some (upd_timer i (schedule_ts cycles ty ud) tm))"

definition drop_events :: "(Event \<Rightarrow> bool) \<Rightarrow> Timer \<Rightarrow> Timer" where
  "drop_events P t =
     (let q = filter (\<lambda>e. \<not> P e) (event_queue t)
      in if length q \<noteq> length (event_queue t) then t\<lparr>event_queue := make_heap event_key q\<rparr> else t)"

definition UnscheduleEvent :: "string \<Rightarrow> u64 \<Rightarrow> 'w Timing \<Rightarrow> 'w Timing" where
  "UnscheduleEvent ty ud tm =
     (if event_queue_locked tm then tm
      else tm\<lparr>timers := map (drop_events (\<lambda>e. etype e = ty \<and> user_data e = ud)) (timers tm)\<rparr>)"

definition RemoveEvent :: "string \<Rightarrow> 'w Timing \<Rightarrow> 'w Timing" where
  "RemoveEvent ty tm =
     (if event_queue_locked tm then tm
      else tm\<lparr>timers := map (drop_events (\<lambda>e. etype e = ty)) (timers tm)\<rparr>)"

definition SetCurrentTimer :: "nat \<Rightarrow> 'w Timing \<Rightarrow> 'w Timing" where
  "SetCurrentTimer core_id tm = tm\<lparr>current_timer := core_id\<rparr>"

definition Timing_GetTicks :: "'w Timing \<Rightarrow> int" where
  "Timing_GetTicks tm = to_s64 (Timer_GetTicks (timers tm ! current_timer tm))"

text \<open>\<open>max_element\<close> of the ticks.\<close>

definition GetGlobalTicks :: "'w Timing \<Rightarrow> int" where
  "GetGlobalTicks tm = to_s64 (fold (\<lambda>t m. max m (Timer_GetTicks t)) (timers tm) 0)"

definition GetGlobalTimeUs :: "'w Timing \<Rightarrow> int" where
  "GetGlobalTimeUs tm = to_s64 (to_u64 (GetGlobalTicks tm * 1000000) div BASE_CLOCK_RATE_ARM11)"

type_synonym 'w callbacks = "string \<Rightarrow> u64 \<Rightarrow> int \<Rightarrow> 'w Timing \<Rightarrow> 'w Timing"

text \<open>The loop of \<open>Advance\<close>; events of a type without callback are dropped.\<close>

definition run_event :: "'w callbacks \<Rightarrow> Event \<Rightarrow> int \<Rightarrow> 'w Timing \<Rightarrow> 'w Timing" where
  "run_event cb evt now tm =
     (if event_types tm (etype evt) = Some True then cb (etype evt) (user_data evt) (to_s32 (now - etime evt)) tm
      else tm)"

partial_function (option) advance_loop :: "'w callbacks \<Rightarrow> nat \<Rightarrow> 'w Timing \<Rightarrow> 'w Timing option" where
  "advance_loop cb i tm =
     (case event_queue (timers tm ! i) of
        [] \<Rightarrow> Some tm
      | evt # _ \<Rightarrow>
          let now = executed_ticks (timers tm ! i)
          in if etime evt \<le> now
             then advance_loop cb i (run_event cb evt now (upd_timer i (\<lambda>t. t\<lparr>event_queue := pop_event (event_queue t)\<rparr>) tm))
             else Some tm)"

definition start_slice :: "Timer \<Rightarrow> Timer" where
  "start_slice t =
     (let t = MoveEvents t
      in t\<lparr>idled_cycles := 0, executed_ticks := executed_ticks t + (slice_length t - downcount t),
           slice_length := 0, downcount := 0, is_timer_sane := True\<rparr>)"

definition Advance :: "'w callbacks \<Rightarrow> nat \<Rightarrow> 'w Timing \<Rightarrow> 'w Timing option" where
  "Advance cb i tm =
     do {
       tm \<leftarrow> advance_loop cb i (upd_timer i start_slice tm);
       Some (upd_timer i (\<lambda>t. t\<lparr>is_timer_sane := False\<rparr>) tm)
     }"

section \<open>The event queue is a priority queue\<close>

interpretation eq: min_queue event_key "is_heap event_key" push_event pop_event "make_heap event_key"
proof
  show "is_heap event_key []" by (simp add: is_heap_def heap_from_def)
  show "is_heap event_key q \<Longrightarrow> is_heap event_key (push_event x q) \<and> mset (push_event x q) = add_mset x (mset q)" for q x
    by (simp add: push_event_def push_heap_heap push_heap_mset)
  show "is_heap event_key q \<Longrightarrow> x \<in> set q \<Longrightarrow> event_key (q ! 0) \<le> event_key x" for q x
    using is_heap_min by (metis in_set_conv_nth)
  show "is_heap event_key q \<Longrightarrow> q \<noteq> [] \<Longrightarrow> is_heap event_key (pop_event q) \<and> mset (pop_event q) = mset q - {#q ! 0#}" for q
    by (simp add: pop_event_def pop_heap_spec)
  show "is_heap event_key (make_heap event_key q) \<and> mset (make_heap event_key q) = mset q" for q
    by (rule make_heap_spec)
qed

end
