(* ===== verification/Timing_Facts.thy ===== *)
theory Timing_Facts
  imports Core_Timing
begin

text \<open>
  What the emulated time guarantees: conversions between nanoseconds and cycles, the event queues
  stay heaps and no slice runs past an event, and \<open>Advance\<close> runs exactly the due events in order.
\<close>

section \<open>Timers\<close>

lemma MoveEvents_heap:
  assumes "is_heap event_key (event_queue t)"
  shows "is_heap event_key (event_queue (MoveEvents t)) \<and> ts_queue (MoveEvents t) = [] \<and>
    executed_ticks (MoveEvents t) = executed_ticks t \<and> slice_length (MoveEvents t) = slice_length t \<and>
    downcount (MoveEvents t) = downcount t \<and>
    image_mset (\<lambda>e. (etime e, user_data e, etype e)) (mset (event_queue (MoveEvents t))) =
      image_mset (\<lambda>e. (etime e, user_data e, etype e)) (mset (event_queue t @ ts_queue t))"
proof -
  have "is_heap event_key (event_queue (fold move_event evs t)) \<and> ts_queue (fold move_event evs t) = ts_queue t \<and>
    executed_ticks (fold move_event evs t) = executed_ticks t \<and> slice_length (fold move_event evs t) = slice_length t \<and>
    downcount (fold move_event evs t) = downcount t \<and>
    image_mset (\<lambda>e. (etime e, user_data e, etype e)) (mset (event_queue (fold move_event evs t))) =
      image_mset (\<lambda>e. (etime e, user_data e, etype e)) (mset (event_queue t @ evs))"
    if "is_heap event_key (event_queue t)" for evs t
    using that
  proof (induction evs arbitrary: t)
    case (Cons ev evs)
    then have "is_heap event_key (event_queue (move_event ev t))" using eq.add_law by (simp add: move_event_def)
    from Cons.IH [OF this] show ?case using eq.add_law [OF Cons.prems] by (simp add: move_event_def)
  qed simp
  from this [of "t\<lparr>ts_queue := []\<rparr>" "ts_queue t"] assms show ?thesis by (simp add: MoveEvents_def)
qed

lemma start_slice_simps:
  assumes "is_heap event_key (event_queue t)"
  shows "is_heap event_key (event_queue (start_slice t))"
    "executed_ticks (start_slice t) = executed_ticks t + (slice_length t - downcount t)"
    "is_timer_sane (start_slice t)" "downcount (start_slice t) = 0" "slice_length (start_slice t) = 0"
    "event_queue (start_slice t) = event_queue (MoveEvents t)"
  using MoveEvents_heap [OF assms] by (simp_all add: start_slice_def Let_def)

lemma timers_upd [simp]:
  "length (timers (upd_timer i f tm)) = length (timers tm)"
  "i < length (timers tm) \<Longrightarrow> timers (upd_timer i f tm) ! i = f (timers tm ! i)"
  "event_types (upd_timer i f tm) = event_types tm" "world (upd_timer i f tm) = world tm"
  "event_queue_locked (upd_timer i f tm) = event_queue_locked tm" "current_timer (upd_timer i f tm) = current_timer tm"
  by (simp_all add: upd_timer_def)

section \<open>Advance\<close>

definition due :: "int \<Rightarrow> Event multiset \<Rightarrow> Event multiset" where
  "due now M = filter_mset (\<lambda>e. etime e \<le> now) M"

text \<open>
  What a callback may do to the timer that runs it: add events that are not due yet, and leave its
  clock, the types and the number of cores alone. It is recorded in the log with what it was given.
\<close>

definition callbacks_behave :: "('w Timing \<Rightarrow> (string \<times> u64 \<times> int) list) \<Rightarrow> 'w callbacks \<Rightarrow> nat \<Rightarrow> bool" where
  "callbacks_behave log cb i \<longleftrightarrow>
     (\<forall>ty ud late tm. i < length (timers tm) \<longrightarrow> is_heap event_key (event_queue (timers tm ! i)) \<longrightarrow>
        (let tm' = cb ty ud late tm
         in log tm' = log tm @ [(ty, ud, late)] \<and> event_types tm' = event_types tm \<and>
            length (timers tm') = length (timers tm) \<and>
            executed_ticks (timers tm' ! i) = executed_ticks (timers tm ! i) \<and>
            is_heap event_key (event_queue (timers tm' ! i)) \<and>
            due (executed_ticks (timers tm ! i)) (mset (event_queue (timers tm' ! i))) =
              due (executed_ticks (timers tm ! i)) (mset (event_queue (timers tm ! i)))))"

definition calls :: "(string \<Rightarrow> bool option) \<Rightarrow> int \<Rightarrow> Event list \<Rightarrow> (string \<times> u64 \<times> int) list" where
  "calls types now es =
     map (\<lambda>e. (etype e, user_data e, to_s32 (now - etime e))) (filter (\<lambda>e. types (etype e) = Some True) es)"

lemma advance_loop_runs:
  assumes "callbacks_behave log cb i" and log: "\<And>f tm. log (upd_timer i f tm) = log tm"
    and "i < length (timers tm)" "is_heap event_key (event_queue (timers tm ! i))"
    and "executed_ticks (timers tm ! i) = now"
  shows "\<exists>tm' es. advance_loop cb i tm = Some tm' \<and>
    mset es = due now (mset (event_queue (timers tm ! i))) \<and> sorted (map event_key es) \<and>
    log tm' = log tm @ calls (event_types tm) now es \<and>
    length (timers tm') = length (timers tm) \<and> is_heap event_key (event_queue (timers tm' ! i)) \<and>
    executed_ticks (timers tm' ! i) = now \<and> (\<forall>e \<in> set (event_queue (timers tm' ! i)). now < etime e)"
  using assms(3-5)
proof (induction "size (due now (mset (event_queue (timers tm ! i))))" arbitrary: tm rule: less_induct)
  case less
  let ?q = "event_queue (timers tm ! i)"
  show ?case
  proof (cases "?q \<noteq> [] \<and> etime (?q ! 0) \<le> now")
    case False
    then have "\<forall>e \<in> set ?q. now < etime e"
      using eq.front_law [OF less.prems(2)] by (fastforce simp: event_key_def)
    moreover from this have "due now (mset ?q) = {#}" by (auto simp: due_def)
    moreover have "advance_loop cb i tm = Some tm"
      using False less.prems(3) by (subst advance_loop.simps) (auto split: list.split)
    ultimately show ?thesis using less.prems by (intro exI [of _ tm] exI [of _ "[]"]) (simp add: calls_def)
  next
    case True
    define evt where "evt = ?q ! 0"
    define tm1 where "tm1 = upd_timer i (\<lambda>t. t\<lparr>event_queue := pop_event (event_queue t)\<rparr>) tm"
    define tm2 where "tm2 = run_event cb evt now tm1"
    obtain rest where q: "?q = evt # rest" using True by (cases ?q) (auto simp: evt_def)
    have le: "etime evt \<le> now" using True by (simp add: evt_def)
    have loop: "advance_loop cb i tm = advance_loop cb i tm2"
      using q le less.prems(3) by (subst advance_loop.simps) (simp add: tm2_def tm1_def)
    have tm1: "i < length (timers tm1)" "is_heap event_key (event_queue (timers tm1 ! i))"
      "mset (event_queue (timers tm1 ! i)) = mset ?q - {#evt#}" "executed_ticks (timers tm1 ! i) = now"
      "event_types tm1 = event_types tm" "log tm1 = log tm" "length (timers tm1) = length (timers tm)"
      using less.prems eq.remove_law [OF less.prems(2)] True by (simp_all add: tm1_def evt_def log)
    have tm2: "i < length (timers tm2)" "is_heap event_key (event_queue (timers tm2 ! i))"
      "due now (mset (event_queue (timers tm2 ! i))) = due now (mset ?q - {#evt#})"
      "executed_ticks (timers tm2 ! i) = now" "event_types tm2 = event_types tm" "length (timers tm2) = length (timers tm)"
      "log tm2 = log tm @ calls (event_types tm) now [evt]"
      using assms(1) tm1 unfolding callbacks_behave_def
      by (auto simp: tm2_def run_event_def calls_def Let_def)
    have d: "due now (mset ?q) = add_mset evt (due now (mset ?q - {#evt#}))"
      using le by (simp add: due_def q)
    obtain tm' es where IH: "advance_loop cb i tm2 = Some tm'" "mset es = due now (mset (event_queue (timers tm2 ! i)))"
      "sorted (map event_key es)" "log tm' = log tm2 @ calls (event_types tm2) now es"
      "length (timers tm') = length (timers tm2)" "is_heap event_key (event_queue (timers tm' ! i))"
      "executed_ticks (timers tm' ! i) = now" "\<forall>e \<in> set (event_queue (timers tm' ! i)). now < etime e"
      using less.hyps [of tm2] tm2 d by auto
    have "\<forall>e \<in> set es. event_key evt \<le> event_key e"
    proof
      fix e assume "e \<in> set es"
      then have "e \<in># due now (mset ?q - {#evt#})" using IH(2) tm2(3) by (metis set_mset_mset)
      then have "e \<in> set ?q" by (auto simp: due_def dest: in_diffD)
      then show "event_key evt \<le> event_key e" using eq.front_law [OF less.prems(2)] by (simp add: evt_def)
    qed
    then show ?thesis
      using IH tm2 d loop
      by (intro exI [of _ tm'] exI [of _ "evt # es"]) (auto simp: calls_def)
  qed
qed


text \<open>Callbacks that only write down that they ran.\<close>

definition note_callbacks :: "(string \<times> u64 \<times> int) list callbacks" where
  "note_callbacks ty ud late tm = tm\<lparr>world := world tm @ [(ty, ud, late)]\<rparr>"

definition two_events :: "(string \<times> u64 \<times> int) list Timing" where
  "two_events = \<lparr>event_types = [''vblank'' \<mapsto> True, ''wake'' \<mapsto> True],
     timers = [(Timer_new 0)\<lparr>event_queue := [\<lparr>etime = 5, fifo_order = 1, user_data = 7, etype = ''wake''\<rparr>,
       \<lparr>etime = 10, fifo_order = 0, user_data = 0, etype = ''vblank''\<rparr>], slice_length := 8, downcount := 1\<rparr>],
     current_timer = 0, event_queue_locked = False, world = []\<rparr>"


section \<open>Conversions\<close>

lemma to_s64_id: "- (2 ^ 63) \<le> x \<Longrightarrow> x < 2 ^ 63 \<Longrightarrow> to_s64 x = x"
  by (simp add: to_s64_def)

lemma to_u64_id: "0 \<le> x \<Longrightarrow> x < 2 ^ 64 \<Longrightarrow> to_u64 x = x"
  by (simp add: to_u64_def)

lemma cycles_of_seconds:
  assumes "0 \<le> s" "s \<le> MAX_VALUE_TO_MULTIPLY"
  shows "to_s64 (times_rate s) = BASE_CLOCK_RATE_ARM11 * s"
  using assms by (simp add: times_rate_def MAX_VALUE_TO_MULTIPLY_def s64_max_def BASE_CLOCK_RATE_ARM11_def to_u64_id to_s64_id)

lemma cycles_exact:
  assumes "0 \<le> ns" "ns \<le> MAX_VALUE_TO_MULTIPLY"
  shows "to_s64 (times_rate ns div 1000000000) = BASE_CLOCK_RATE_ARM11 * ns div 1000000000"
proof -
  have b: "BASE_CLOCK_RATE_ARM11 * ns < 2 ^ 63"
    using assms by (simp add: MAX_VALUE_TO_MULTIPLY_def s64_max_def BASE_CLOCK_RATE_ARM11_def)
  have "0 \<le> BASE_CLOCK_RATE_ARM11 * ns" using assms by (simp add: BASE_CLOCK_RATE_ARM11_def)
  moreover from this have "BASE_CLOCK_RATE_ARM11 * ns div 1000000000 \<le> BASE_CLOCK_RATE_ARM11 * ns" by simp
  ultimately show ?thesis using b by (simp add: times_rate_def to_u64_id to_s64_id pos_imp_zdiv_nonneg_iff)
qed

text \<open>
  C40: Nanoseconds become cycles without overflow: for every delay a signed 64-bit number holds, the
  result is the exact number of cycles rounded down, up to 34401209161 ns, and at most one second's
  worth of cycles below it beyond; at that limit a longer delay gives fewer cycles.
\<close>

theorem nsToCycles_bounds:
  assumes "0 \<le> ns" "ns < 2 ^ 63"
  shows "nsToCycles_s64 ns \<le> BASE_CLOCK_RATE_ARM11 * ns div 1000000000 \<and>
    BASE_CLOCK_RATE_ARM11 * ns div 1000000000 - BASE_CLOCK_RATE_ARM11 < nsToCycles_s64 ns \<and>
    0 \<le> nsToCycles_s64 ns \<and> nsToCycles_u64 ns = nsToCycles_s64 ns \<and>
    (ns \<le> MAX_VALUE_TO_MULTIPLY \<longrightarrow> nsToCycles_s64 ns = BASE_CLOCK_RATE_ARM11 * ns div 1000000000) \<and>
    nsToCycles_s64 (MAX_VALUE_TO_MULTIPLY + 1) < nsToCycles_s64 MAX_VALUE_TO_MULTIPLY"
proof (intro conjI)
  have q: "quot ns 1000000000 = ns div 1000000000" using assms(1) by (simp add: quot_def)
  have M: "MAX_VALUE_TO_MULTIPLY = 34401209161" by (simp add: MAX_VALUE_TO_MULTIPLY_def s64_max_def BASE_CLOCK_RATE_ARM11_def)
  have small: "ns div 1000000000 \<le> MAX_VALUE_TO_MULTIPLY" using assms by (simp add: M)
  have val: "nsToCycles_s64 ns = (if ns > MAX_VALUE_TO_MULTIPLY then BASE_CLOCK_RATE_ARM11 * (ns div 1000000000)
      else BASE_CLOCK_RATE_ARM11 * ns div 1000000000)"
    unfolding nsToCycles_s64_def q
    using small cycles_of_seconds [of "ns div 1000000000"] cycles_exact [of ns] assms(1) by auto
  have split: "BASE_CLOCK_RATE_ARM11 * ns div 1000000000 =
      BASE_CLOCK_RATE_ARM11 * (ns div 1000000000) + BASE_CLOCK_RATE_ARM11 * (ns mod 1000000000) div 1000000000"
  proof -
    have "BASE_CLOCK_RATE_ARM11 * (ns mod 1000000000) + BASE_CLOCK_RATE_ARM11 * (ns div 1000000000) * 1000000000 =
        BASE_CLOCK_RATE_ARM11 * (ns div 1000000000 * 1000000000 + ns mod 1000000000)"
      by (simp only: distrib_left mult.assoc add.commute)
    also have "\<dots> = BASE_CLOCK_RATE_ARM11 * ns" by (simp only: div_mult_mod_eq)
    finally have "BASE_CLOCK_RATE_ARM11 * ns = BASE_CLOCK_RATE_ARM11 * (ns mod 1000000000) +
        BASE_CLOCK_RATE_ARM11 * (ns div 1000000000) * 1000000000" by (rule sym)
    then show ?thesis by simp
  qed
  have r: "0 \<le> BASE_CLOCK_RATE_ARM11 * (ns mod 1000000000) div 1000000000"
    "BASE_CLOCK_RATE_ARM11 * (ns mod 1000000000) div 1000000000 < BASE_CLOCK_RATE_ARM11"
    by (simp_all add: BASE_CLOCK_RATE_ARM11_def pos_imp_zdiv_nonneg_iff div_less_iff_less_mult)
  show "nsToCycles_s64 ns \<le> BASE_CLOCK_RATE_ARM11 * ns div 1000000000"
    "BASE_CLOCK_RATE_ARM11 * ns div 1000000000 - BASE_CLOCK_RATE_ARM11 < nsToCycles_s64 ns"
    using val split r by (auto simp: BASE_CLOCK_RATE_ARM11_def)
  show "0 \<le> nsToCycles_s64 ns"
    using val assms(1) by (auto simp: BASE_CLOCK_RATE_ARM11_def pos_imp_zdiv_nonneg_iff)
  show "nsToCycles_u64 ns = nsToCycles_s64 ns"
    using assms by (simp add: nsToCycles_u64_def nsToCycles_s64_def q to_s64_id)
  show "ns \<le> MAX_VALUE_TO_MULTIPLY \<longrightarrow> nsToCycles_s64 ns = BASE_CLOCK_RATE_ARM11 * ns div 1000000000"
    using val by simp
  show "nsToCycles_s64 (MAX_VALUE_TO_MULTIPLY + 1) < nsToCycles_s64 MAX_VALUE_TO_MULTIPLY"
    by (simp add: nsToCycles_s64_def M quot_def times_rate_def BASE_CLOCK_RATE_ARM11_def to_u64_def to_s64_def)
qed

theorem nsToCycles_bounds_witness:
  "nsToCycles_s64 1000000 = 268111 \<and> nsToCycles_u64 1000000 = 268111"
  using nsToCycles_bounds [of 1000000] by (simp add: MAX_VALUE_TO_MULTIPLY_def s64_max_def BASE_CLOCK_RATE_ARM11_def)

section \<open>No slice runs past an event\<close>

definition now_of :: "Timer \<Rightarrow> int" where
  "now_of t = executed_ticks t + (slice_length t - downcount t)"

text \<open>
  Outside \<open>Advance\<close> a timer runs on for \<open>downcount\<close> cycles: no longer than to the next event, and not at
  all if an event is overdue.
\<close>

definition timer_ok :: "Timer \<Rightarrow> bool" where
  "timer_ok t \<longleftrightarrow> is_heap event_key (event_queue t) \<and>
     (\<not> is_timer_sane t \<longrightarrow> (\<forall>e \<in> set (event_queue t). downcount t \<le> max 0 (etime e - now_of t)))"

definition timing_ok :: "'w Timing \<Rightarrow> bool" where
  "timing_ok tm \<longleftrightarrow> (\<forall>t \<in> set (timers tm). timer_ok t)"

definition advancing :: "nat \<Rightarrow> 'w Timing \<Rightarrow> bool" where
  "advancing i tm \<longleftrightarrow> timing_ok tm \<and> i < length (timers tm) \<and> is_timer_sane (timers tm ! i) \<and> downcount (timers tm ! i) \<le> 0"

text \<open>The time of an event scheduled now fits into 64 bits.\<close>

definition in_range :: "int \<Rightarrow> Timer \<Rightarrow> bool" where
  "in_range cycles t \<longleftrightarrow> 0 \<le> executed_ticks t \<and> 0 \<le> now_of t \<and> now_of t < 2 ^ 63 \<and>
     - (2 ^ 63) \<le> now_of t + cycles \<and> now_of t + cycles < 2 ^ 63"

inductive timing_step :: "'w callbacks \<Rightarrow> 'w Timing \<Rightarrow> 'w Timing \<Rightarrow> bool" for cb :: "'w callbacks" where
  step_schedule: "(\<forall>t \<in> set (timers tm). in_range cycles t) \<Longrightarrow>
    ScheduleEvent cycles ty ud core_id thread_safe tm = Some tm' \<Longrightarrow> timing_step cb tm tm'"
| step_unschedule: "timing_step cb tm (UnscheduleEvent ty ud tm)"
| step_remove: "timing_step cb tm (RemoveEvent ty tm)"
| step_register: "timing_step cb tm (RegisterEvent nm has_callback tm)"
| step_current: "c < length (timers tm) \<Longrightarrow> timing_step cb tm (SetCurrentTimer c tm)"
| step_ticks: "i < length (timers tm) \<Longrightarrow> 0 \<le> scale n \<Longrightarrow> - (2 ^ 63) \<le> downcount (timers tm ! i) - scale n \<Longrightarrow>
    downcount (timers tm ! i) < 2 ^ 63 \<Longrightarrow> timing_step cb tm (upd_timer i (AddTicks scale n) tm)"
| step_idle: "i < length (timers tm) \<Longrightarrow> timing_step cb tm (upd_timer i Timer_Idle tm)"
| step_slice: "i < length (timers tm) \<Longrightarrow> - (2 ^ 31) \<le> m \<Longrightarrow> m < 2 ^ 31 \<Longrightarrow>
    (\<forall>e \<in> set (event_queue (timers tm ! i)). - (2 ^ 31) \<le> etime e - executed_ticks (timers tm ! i)) \<Longrightarrow>
    timing_step cb tm (upd_timer i (SetNextSlice m) tm)"
| step_advance: "i < length (timers tm) \<Longrightarrow> (\<And>ty ud late s. advancing i s \<Longrightarrow> advancing i (cb ty ud late s)) \<Longrightarrow>
    Advance cb i tm = Some tm' \<Longrightarrow> timing_step cb tm tm'"

lemma timing_ok_upd:
  "timing_ok tm \<Longrightarrow> i < length (timers tm) \<Longrightarrow> (timer_ok (timers tm ! i) \<Longrightarrow> timer_ok (f (timers tm ! i))) \<Longrightarrow>
   timing_ok (upd_timer i f tm)"
  by (auto simp: timing_ok_def upd_timer_def dest: set_update_subset_insert [THEN subsetD])

lemma timer_ok_schedule_ts: "timer_ok t \<Longrightarrow> timer_ok (schedule_ts cycles ty ud t)"
  by (simp add: timer_ok_def schedule_ts_def now_of_def)

lemma GetTicks_now: "in_range cycles t \<Longrightarrow> \<not> is_timer_sane t \<Longrightarrow> Timer_GetTicks t = now_of t"
  by (simp add: in_range_def Timer_GetTicks_def now_of_def to_u64_def mod_add_left_eq)

lemma now_of_Force [simp]: "now_of (ForceExceptionCheck c t) = now_of t"
  "event_queue (ForceExceptionCheck c t) = event_queue t" "is_timer_sane (ForceExceptionCheck c t) = is_timer_sane t"
  "event_fifo_id (ForceExceptionCheck c t) = event_fifo_id t"
  by (simp_all add: ForceExceptionCheck_def now_of_def Let_def)

lemma downcount_Force: "downcount (ForceExceptionCheck c t) \<le> max 0 c" "downcount (ForceExceptionCheck c t) \<le> downcount t"
  by (auto simp: ForceExceptionCheck_def Let_def)

lemma timer_ok_schedule_now:
  assumes "timer_ok t" "in_range cycles t"
  shows "timer_ok (schedule_now cycles ty ud t)"
proof -
  have heap: "is_heap event_key (event_queue t)" using assms(1) by (simp add: timer_ok_def)
  show ?thesis
  proof (cases "is_timer_sane t")
    case True
    then show ?thesis using eq.add_law [OF heap] by (simp add: timer_ok_def schedule_now_def Let_def)
  next
    case False
    let ?t = "ForceExceptionCheck cycles t"
    let ?e = "\<lparr>etime = to_s64 (Timer_GetTicks t + cycles), fifo_order = event_fifo_id t, user_data = ud, etype = ty\<rparr>"
    have e: "etime ?e = now_of t + cycles"
      using GetTicks_now [OF assms(2) False] assms(2) by (simp add: to_s64_id in_range_def)
    have res: "schedule_now cycles ty ud t =
        ?t\<lparr>event_queue := push_event ?e (event_queue t), event_fifo_id := event_fifo_id t + 1\<rparr>"
      using False by (simp add: schedule_now_def Let_def)
    have "downcount ?t \<le> max 0 (etime x - now_of t)" if "x \<in> insert ?e (set (event_queue t))" for x
      using that downcount_Force [of cycles t] assms(1) False e unfolding timer_ok_def by fastforce
    then show ?thesis
      using eq.add_law [OF heap, of ?e] eq.set_add [OF heap, of ?e] now_of_Force(1) [of cycles t]
      by (simp add: res timer_ok_def now_of_def)
  qed
qed

lemma timer_ok_drop: "timer_ok t \<Longrightarrow> timer_ok (drop_events P t)"
proof -
  assume t: "timer_ok t"
  have "set (make_heap event_key (filter (\<lambda>e. \<not> P e) (event_queue t))) = set (filter (\<lambda>e. \<not> P e) (event_queue t))"
    using eq.rebuild_law by (metis set_mset_mset)
  then show "timer_ok (drop_events P t)"
    using t eq.rebuild_law by (auto simp: timer_ok_def drop_events_def Let_def now_of_def)
qed

lemma ScheduleEvent_ok:
  assumes "timing_ok tm" "\<forall>t \<in> set (timers tm). in_range cycles t" "ScheduleEvent cycles ty ud core_id ts tm = Some tm'"
  shows "timing_ok tm'"
proof (cases "event_queue_locked tm")
  case True
  then show ?thesis using assms by (simp add: ScheduleEvent_def)
next
  case False
  let ?i = "case core_id of None \<Rightarrow> current_timer tm | Some c \<Rightarrow> c"
  have i: "?i < length (timers tm)" using assms(3) False by (auto simp: ScheduleEvent_def Let_def split: if_splits)
  then have "timing_ok (upd_timer ?i (schedule_ts c ty ud) tm)" "timing_ok (upd_timer ?i (schedule_now cycles ty ud) tm)" for c
    using assms(1,2) by (auto intro!: timing_ok_upd timer_ok_schedule_ts timer_ok_schedule_now)
  then show ?thesis using assms(3) False by (auto simp: ScheduleEvent_def Let_def split: if_splits)
qed

lemma timer_ok_pop:
  assumes "timer_ok t" "event_queue t \<noteq> []" "is_timer_sane t"
  shows "timer_ok (t\<lparr>event_queue := pop_event (event_queue t)\<rparr>)"
  using assms eq.remove_law by (simp add: timer_ok_def)

lemma advance_loop_advancing:
  assumes "advance_loop cb i tm = Some tm'"
  shows "(\<forall>ty ud late s. advancing i s \<longrightarrow> advancing i (cb ty ud late s)) \<longrightarrow> advancing i tm \<longrightarrow> advancing i tm'"
proof (rule advance_loop.raw_induct [where
      P = "\<lambda>cb i tm tm'. (\<forall>ty ud late s. advancing i s \<longrightarrow> advancing i (cb ty ud late s)) \<longrightarrow> advancing i tm \<longrightarrow> advancing i tm'",
      OF _ assms], intro impI)
  fix loop and cb :: "'a callbacks" and i tm tm'
  assume IH: "\<And>cb i tm tm'. loop cb i tm = Some tm' \<Longrightarrow>
      (\<forall>ty ud late s. advancing i s \<longrightarrow> advancing i (cb ty ud late s)) \<longrightarrow> advancing i tm \<longrightarrow> advancing i tm'"
    and run: "(case event_queue (timers tm ! i) of [] \<Rightarrow> Some tm
      | evt # _ \<Rightarrow> let now = executed_ticks (timers tm ! i)
          in if etime evt \<le> now
             then loop cb i (run_event cb evt now (upd_timer i (\<lambda>t. t\<lparr>event_queue := pop_event (event_queue t)\<rparr>) tm))
             else Some tm) = Some tm'"
    and keep: "\<forall>ty ud late s. advancing i s \<longrightarrow> advancing i (cb ty ud late s)" and adv: "advancing i tm"
  have "advancing i (upd_timer i (\<lambda>t. t\<lparr>event_queue := pop_event (event_queue t)\<rparr>) tm)" if "event_queue (timers tm ! i) \<noteq> []"
    using adv that by (auto simp: advancing_def intro!: timing_ok_upd timer_ok_pop)
  then have step: "advancing i (run_event cb evt now (upd_timer i (\<lambda>t. t\<lparr>event_queue := pop_event (event_queue t)\<rparr>) tm))"
    if "event_queue (timers tm ! i) \<noteq> []" for evt now
    using that keep by (simp add: run_event_def)
  show "advancing i tm'"
    using run adv keep step IH by (auto simp: Let_def split: list.splits if_splits)
qed

lemma Advance_ok:
  assumes "timing_ok tm" "i < length (timers tm)" "\<And>ty ud late s. advancing i s \<Longrightarrow> advancing i (cb ty ud late s)"
    "Advance cb i tm = Some tm'"
  shows "timing_ok tm'"
proof -
  have "is_heap event_key (event_queue (timers tm ! i))" using assms(1,2) by (simp add: timing_ok_def timer_ok_def)
  note st = start_slice_simps [OF this]
  have "advancing i (upd_timer i start_slice tm)"
    using assms(1,2) st by (auto simp: advancing_def timer_ok_def intro!: timing_ok_upd)
  moreover obtain s where s: "advance_loop cb i (upd_timer i start_slice tm) = Some s"
    "tm' = upd_timer i (\<lambda>t. t\<lparr>is_timer_sane := False\<rparr>) s"
    using assms(4) by (auto simp: Advance_def bind_eq_Some_conv)
  ultimately have "advancing i s" using advance_loop_advancing [OF s(1)] assms(3) by blast
  then show ?thesis
    unfolding s(2) by (auto simp: advancing_def timer_ok_def intro!: timing_ok_upd)
qed

lemma to_s32_id: "- (2 ^ 31) \<le> x \<Longrightarrow> x < 2 ^ 31 \<Longrightarrow> to_s32 x = x"
  by (simp add: to_s32_def)

lemma timer_ok_slice:
  assumes "timer_ok t" "- (2 ^ 31) \<le> m" "m < 2 ^ 31" "\<forall>e \<in> set (event_queue t). - (2 ^ 31) \<le> etime e - executed_ticks t"
  shows "timer_ok (SetNextSlice m t)"
proof (cases "event_queue t")
  case Nil
  then show ?thesis using assms(1) by (simp add: timer_ok_def SetNextSlice_def)
next
  case (Cons f es)
  have heap: "is_heap event_key (event_queue t)" using assms(1) by (simp add: timer_ok_def)
  have "etime f \<le> etime e" if "e \<in> set (event_queue t)" for e
    using eq.front_law [OF heap that] Cons by (auto simp: event_key_def)
  moreover have "to_s32 (min (etime f - executed_ticks t) m) = min (etime f - executed_ticks t) m"
    using assms Cons by (intro to_s32_id) auto
  ultimately show ?thesis
    using heap Cons by (fastforce simp: timer_ok_def SetNextSlice_def Let_def now_of_def)
qed

lemma timer_ok_ticks:
  assumes "timer_ok t" "0 \<le> scale n" "- (2 ^ 63) \<le> downcount t - scale n" "downcount t < 2 ^ 63"
  shows "timer_ok (AddTicks scale n t)"
proof -
  have "(downcount t mod 2 ^ 64 + (2 ^ 63 - scale n)) mod 2 ^ 64 = (downcount t + (2 ^ 63 - scale n)) mod 2 ^ 64"
    by (rule mod_add_left_eq)
  then have "to_s64 (to_u64 (downcount t) - scale n) = to_s64 (downcount t - scale n)"
    unfolding to_s64_def to_u64_def by (simp only: algebra_simps)
  then have "to_s64 (to_u64 (downcount t) - scale n) = downcount t - scale n"
    using to_s64_id [of "downcount t - scale n"] assms(2-4) by simp
  then show ?thesis using assms(1,2) by (fastforce simp: timer_ok_def AddTicks_def now_of_def)
qed

lemma timer_ok_idle: "timer_ok t \<Longrightarrow> timer_ok (Timer_Idle t)"
  by (simp add: timer_ok_def Timer_Idle_def)

lemma timing_step_ok: "timing_step cb tm tm' \<Longrightarrow> timing_ok tm \<Longrightarrow> timing_ok tm'"
proof (induction rule: timing_step.induct)
  case (step_schedule tm cycles ty ud core_id thread_safe tm')
  then show ?case using ScheduleEvent_ok by blast
next
  case (step_unschedule tm ty ud)
  then show ?case by (auto simp: UnscheduleEvent_def timing_ok_def timer_ok_drop)
next
  case (step_remove tm ty)
  then show ?case by (auto simp: RemoveEvent_def timing_ok_def timer_ok_drop)
next
  case (step_advance i tm tm')
  then show ?case using Advance_ok by blast
next
  case (step_register tm nm has_callback)
  then show ?case by (simp add: timing_ok_def RegisterEvent_def)
next
  case (step_current c tm)
  then show ?case by (simp add: timing_ok_def SetCurrentTimer_def)
qed (rule timing_ok_upd, assumption, assumption, simp add: timer_ok_ticks timer_ok_idle timer_ok_slice)+



end
