(* ===== verification/Kernel_State.thy ===== *)
theory Kernel_State
  imports Handle_Table Thread_Queue_List Core_Timing Memory_Access
begin

text \<open>
  The data of the emulated kernel (\<open>core/hle/kernel\<close>): result codes, resource limits, threads, the
  objects a thread can wait for, the thread managers of the cores and the kernel that holds them.
  A pointer to a thread is the thread's identifier; a \<open>WaitObject\<close> pointer is a thread or the number of
  another object; a process is the number of its page table. Sessions, ports and the other kernel
  objects are not modelled.
\<close>

unbundle bit_operations_syntax

section \<open>Result codes\<close>

type_synonym ResultCode = u32

definition make_result :: "u32 \<Rightarrow> u32 \<Rightarrow> u32 \<Rightarrow> u32 \<Rightarrow> ResultCode" where
  "make_result description module summary level =
     (description AND 0x3FF) OR push_bit 10 (module AND 0xFF) OR
     push_bit 21 (summary AND 0x3F) OR push_bit 27 (level AND 0x1F)"

definition IsError :: "ResultCode \<Rightarrow> bool" where "IsError r = bit r 31"

definition ResultSuccess :: ResultCode where "ResultSuccess = 0"
definition ResultTimeout :: ResultCode where "ResultTimeout = make_result 1022 6 10 1"
definition ResultOutOfRange :: ResultCode where "ResultOutOfRange = make_result 1021 6 7 28"
definition ResultOutOfRangeKernel :: ResultCode where "ResultOutOfRangeKernel = make_result 1021 1 7 27"
definition ResultNotAuthorized :: ResultCode where "ResultNotAuthorized = make_result 1002 6 8 27"
definition ResultInvalidPointer :: ResultCode where "ResultInvalidPointer = make_result 1014 1 7 27"
definition ResultInvalidEnumValue :: ResultCode where "ResultInvalidEnumValue = make_result 1005 1 7 27"
definition ResultInvalidEnumValueFnd :: ResultCode where "ResultInvalidEnumValueFnd = make_result 1005 36 7 27"
definition ResultInvalidCombinationKernel :: ResultCode where "ResultInvalidCombinationKernel = make_result 1006 1 8 27"
definition ResultOutOfMemory :: ResultCode where "ResultOutOfMemory = make_result 1011 1 3 27"
definition InvalidEntryPoint :: ResultCode where "InvalidEntryPoint = make_result 1013 1 7 27"
definition WrongLockingThread :: ResultCode where "WrongLockingThread = make_result 31 1 7 27"
definition InvalidLockCount :: ResultCode where "InvalidLockCount = make_result 1023 1 5 27"

fun handle_code :: "handle_error \<Rightarrow> ResultCode" where
  "handle_code ResultOutOfHandles = make_result 19 1 3 27"
| "handle_code ResultInvalidHandle = make_result 1015 1 7 27"

section \<open>Resource limits\<close>

datatype ResourceLimitType =
  RL_Priority | RL_Commit | RL_Thread | RL_Event | RL_Mutex | RL_Semaphore | RL_Timer | RL_SharedMemory
  | RL_AddressArbiter | RL_CpuTime

record ResourceLimit =
  m_limit_values :: "ResourceLimitType \<Rightarrow> int"
  m_current_values :: "ResourceLimitType \<Rightarrow> int"

definition ResourceLimit_Create :: ResourceLimit where
  "ResourceLimit_Create = \<lparr>m_limit_values = (\<lambda>_. 0), m_current_values = (\<lambda>_. 0)\<rparr>"

definition GetCurrentValue :: "ResourceLimitType \<Rightarrow> ResourceLimit \<Rightarrow> int" where
  "GetCurrentValue ty r = m_current_values r ty"

definition GetLimitValue :: "ResourceLimitType \<Rightarrow> ResourceLimit \<Rightarrow> int" where
  "GetLimitValue ty r = m_limit_values r ty"

definition SetLimitValue :: "ResourceLimitType \<Rightarrow> int \<Rightarrow> ResourceLimit \<Rightarrow> ResourceLimit" where
  "SetLimitValue ty value r = r\<lparr>m_limit_values := (m_limit_values r)(ty := value)\<rparr>"

text \<open>Exceeding the limit is only reported to the log. The counters are 32-bit numbers.\<close>

definition Reserve :: "ResourceLimitType \<Rightarrow> int \<Rightarrow> ResourceLimit \<Rightarrow> bool \<times> ResourceLimit" where
  "Reserve ty amount r =
     (True, r\<lparr>m_current_values := (m_current_values r)(ty := to_s32 (m_current_values r ty + amount))\<rparr>)"

definition ResourceLimit_Release :: "ResourceLimitType \<Rightarrow> int \<Rightarrow> ResourceLimit \<Rightarrow> bool \<times> ResourceLimit" where
  "ResourceLimit_Release ty amount r =
     (True, r\<lparr>m_current_values := (m_current_values r)(ty := to_s32 (m_current_values r ty - amount))\<rparr>)"

datatype ResourceLimitCategory = Application | SysApplet | LibApplet | Other

definition set_limits :: "(ResourceLimitType \<times> int) list \<Rightarrow> ResourceLimit" where
  "set_limits vs = fold (\<lambda>(ty, v). SetLimitValue ty v) vs ResourceLimit_Create"

text \<open>\<open>app_mem\<close> is the size of the application memory region.\<close>

fun ResourceLimitList :: "bool \<Rightarrow> int \<Rightarrow> ResourceLimitCategory \<Rightarrow> ResourceLimit" where
  "ResourceLimitList is_new_3ds app_mem Application = set_limits
     [(RL_Priority, 0x18), (RL_Commit, app_mem), (RL_Thread, 0x20), (RL_Event, 0x20), (RL_Mutex, 0x20),
      (RL_Semaphore, 0x8), (RL_Timer, 0x8), (RL_SharedMemory, 0x10), (RL_AddressArbiter, 0x2), (RL_CpuTime, 0x0)]"
| "ResourceLimitList is_new_3ds app_mem SysApplet = set_limits
     [(RL_Priority, 0x4), (RL_Commit, if is_new_3ds then 0x5E06000 else 0x2606000),
      (RL_Thread, if is_new_3ds then 0x1D else 0xE), (RL_Event, if is_new_3ds then 0xB else 0x8), (RL_Mutex, 0x8),
      (RL_Semaphore, 0x4), (RL_Timer, 0x4), (RL_SharedMemory, 0x8), (RL_AddressArbiter, 0x3), (RL_CpuTime, 0x2710)]"
| "ResourceLimitList is_new_3ds app_mem LibApplet = set_limits
     [(RL_Priority, 0x4), (RL_Commit, 0x602000), (RL_Thread, 0xE), (RL_Event, 0x8), (RL_Mutex, 0x8),
      (RL_Semaphore, 0x4), (RL_Timer, 0x4), (RL_SharedMemory, 0x8), (RL_AddressArbiter, 0x1), (RL_CpuTime, 0x2710)]"
| "ResourceLimitList is_new_3ds app_mem Other = set_limits
     [(RL_Priority, 0x4), (RL_Commit, if is_new_3ds then 0x2182000 else 0x1682000),
      (RL_Thread, if is_new_3ds then 0xE1 else 0xCA), (RL_Event, if is_new_3ds then 0x108 else 0xF8),
      (RL_Mutex, if is_new_3ds then 0x25 else 0x23), (RL_Semaphore, if is_new_3ds then 0x43 else 0x40),
      (RL_Timer, if is_new_3ds then 0x2C else 0x2B), (RL_SharedMemory, if is_new_3ds then 0x1F else 0x1E),
      (RL_AddressArbiter, if is_new_3ds then 0x2D else 0x2B), (RL_CpuTime, 0x3E8)]"

section \<open>Threads\<close>

type_synonym tid = nat
type_synonym pid = nat

datatype obj = Obj_Thread tid | Obj nat

datatype kobject = K_Thread tid | K_Sync nat | K_Arbiter nat | K_Process pid | K_ResourceLimit nat

definition ThreadPrioLowest :: nat where "ThreadPrioLowest = 63"
definition ThreadProcessorIdMax :: int where "ThreadProcessorIdMax = 4"

datatype ThreadStatus =
  Running | Ready | WaitArb | WaitSleep | WaitIPC | WaitSynchAny | WaitSynchAll | WaitHleEvent | Dormant | Dead

datatype ThreadWakeupReason = Signal | Timeout

text \<open>\<open>SVC_SyncCallback\<close>, the callback of an arbiter, and the callbacks of the HLE services and of IPC.\<close>

datatype callback = SVC_SyncCallback bool | ArbiterCallback nat | OtherCallback nat

record ThreadContext =
  cpu_registers :: "nat \<Rightarrow> u32"
  cpsr :: u32
  fpu_registers :: "nat \<Rightarrow> u32"
  fpscr :: u32
  fpexc :: u32

record Thread =
  status :: ThreadStatus
  can_schedule :: bool
  entry_point :: u32
  stack_top :: u32
  nominal_priority :: nat
  current_priority :: nat
  last_running_ticks :: int
  core_id :: nat
  tls_address :: u32
  held_mutexes :: "nat list"
  pending_mutexes :: "nat list"
  owner_process :: pid
  wait_objects :: "obj list"
  wait_address :: u32
  wakeup_callback :: "callback option"

section \<open>Objects to wait for\<close>

datatype ResetType = OneShot | Sticky | Pulse

record Semaphore =
  max_count :: int
  available_count :: int

record KEvent =
  ev_reset :: ResetType
  ev_signaled :: bool

record KTimer =
  tm_reset :: ResetType
  tm_signaled :: bool
  initial_delay :: int
  interval_delay :: int
  callback_id :: u64

record Mutex =
  lock_count :: int
  mtx_priority :: nat
  holding_thread :: "tid option"

datatype body = B_Semaphore Semaphore | B_Event KEvent | B_Timer KTimer | B_Mutex Mutex

section \<open>The kernel\<close>

record ThreadManager =
  current_thread :: "tid option"
  ready_queue :: "tid ThreadQueueList"
  wakeup_callback_table :: "tid \<rightharpoonup> tid"
  thread_list :: "tid list"

record Process =
  handle_table :: "kobject HandleTable"
  resource_limit :: nat
  no_thread_restrictions :: bool
  ideal_processor :: int
  tls_slots :: "bool list list"

text \<open>
  \<open>cpu_context\<close> is what the registers of a core hold, \<open>saved_context\<close> what was saved for a thread;
  \<open>arbiters\<close> gives the waiting threads of each address arbiter.
\<close>

record Kernel =
  threads :: "tid \<Rightarrow> Thread"
  saved_context :: "tid \<Rightarrow> ThreadContext"
  waiting_threads :: "obj \<Rightarrow> tid list"
  bodies :: "nat \<Rightarrow> body"
  arbiters :: "nat \<Rightarrow> tid list"
  managers :: "nat \<Rightarrow> ThreadManager"
  num_cores :: nat
  cpu_context :: "nat \<Rightarrow> ThreadContext"
  cp15_thread_uro :: "nat \<Rightarrow> u32"
  cpu_page_table :: "nat \<Rightarrow> pid option"
  current_cpu :: nat
  running_process :: "pid option"
  stored_processes :: "nat \<Rightarrow> pid option"
  processes :: "pid \<Rightarrow> Process"
  limits :: "nat \<Rightarrow> ResourceLimit"
  next_thread_id :: nat
  next_object :: nat
  next_arbiter :: nat
  next_timer_callback_id :: u64
  timer_callback_table :: "u64 \<rightharpoonup> nat"
  kmem :: MemorySystem
  reschedule_pending :: bool
  crashed :: bool

text \<open>
  What the kernel calls and these theories do not model: the wakeup callbacks of the HLE services and of
  IPC (\<open>None\<close>: a failed assertion), the notifier of an object, the clock scaling of \<open>AddTicks\<close>, the
  allocation and mapping of a page for thread local storage (\<open>None\<close>: out of memory), and
  \<open>MaybeExportParty\<close>, which runs when the page table is switched (theory \<open>Nuzlocke\<close>). \<open>crashed\<close> records
  that an assertion failed inside a callback of the event scheduler.
\<close>

record hle_env =
  other_wakeup :: "nat \<Rightarrow> ThreadWakeupReason \<Rightarrow> tid \<Rightarrow> obj option \<Rightarrow> Kernel \<Rightarrow> Kernel option"
  hle_notifier :: "obj \<Rightarrow> Kernel \<Rightarrow> Kernel"
  clock_scale :: "int \<Rightarrow> int"
  map_tls_page :: "pid \<Rightarrow> nat \<Rightarrow> MemorySystem \<Rightarrow> MemorySystem option"
  party_export :: "MemorySystem \<Rightarrow> MemorySystem option"

definition upd_thread :: "tid \<Rightarrow> (Thread \<Rightarrow> Thread) \<Rightarrow> Kernel \<Rightarrow> Kernel" where
  "upd_thread t f k = k\<lparr>threads := (threads k)(t := f (threads k t))\<rparr>"

definition upd_manager :: "nat \<Rightarrow> (ThreadManager \<Rightarrow> ThreadManager) \<Rightarrow> Kernel \<Rightarrow> Kernel" where
  "upd_manager c f k = k\<lparr>managers := (managers k)(c := f (managers k c))\<rparr>"

definition upd_queue :: "nat \<Rightarrow> (tid ThreadQueueList \<Rightarrow> tid ThreadQueueList) \<Rightarrow> Kernel \<Rightarrow> Kernel" where
  "upd_queue c f k = upd_manager c (\<lambda>m. m\<lparr>ready_queue := f (ready_queue m)\<rparr>) k"

definition set_body :: "nat \<Rightarrow> body \<Rightarrow> Kernel \<Rightarrow> Kernel" where
  "set_body i b k = k\<lparr>bodies := (bodies k)(i := b)\<rparr>"

definition upd_context :: "tid \<Rightarrow> (ThreadContext \<Rightarrow> ThreadContext) \<Rightarrow> Kernel \<Rightarrow> Kernel" where
  "upd_context t f k = k\<lparr>saved_context := (saved_context k)(t := f (saved_context k t))\<rparr>"

text \<open>The mutex with a number; held and pending mutexes are always mutexes.\<close>

definition mutex_of :: "Kernel \<Rightarrow> nat \<Rightarrow> Mutex" where
  "mutex_of k i = (case bodies k i of B_Mutex m \<Rightarrow> m | _ \<Rightarrow> \<lparr>lock_count = 0, mtx_priority = 0, holding_thread = None\<rparr>)"

definition PrepareReschedule :: "Kernel \<Rightarrow> Kernel" where
  "PrepareReschedule k = k\<lparr>reschedule_pending := True\<rparr>"

text \<open>\<open>insert\<close> and \<open>erase\<close> of a \<open>flat_set\<close> of objects; the order is that of the objects' numbers.\<close>

definition flat_insert :: "nat \<Rightarrow> nat list \<Rightarrow> nat list" where
  "flat_insert x xs = (if x \<in> set xs then xs else insort x xs)"

definition flat_erase :: "nat \<Rightarrow> nat list \<Rightarrow> nat list" where
  "flat_erase x xs = removeAll x xs"

lemma set_flat_insert [simp]: "set (flat_insert x xs) = insert x (set xs)"
  by (auto simp: flat_insert_def set_insort_key)

lemma distinct_flat [simp]:
  "distinct xs \<Longrightarrow> distinct (flat_insert x xs)" "distinct xs \<Longrightarrow> distinct (flat_erase x xs)"
  by (simp_all add: flat_insert_def flat_erase_def distinct_insort distinct_removeAll)

lemma set_flat_erase [simp]: "set (flat_erase x xs) = set xs - {x}"
  by (auto simp: flat_erase_def)

text \<open>The codes the comments of \<open>errors.h\<close> give.\<close>

lemma result_codes:
  "ResultOutOfRange = 0xE0E01BFD" "ResultOutOfRangeKernel = 0xD8E007FD" "ResultNotAuthorized = 0xD9001BEA"
  "ResultInvalidPointer = 0xD8E007F6" "ResultInvalidEnumValue = 0xD8E007ED" "ResultInvalidEnumValueFnd = 0xD8E093ED"
  "ResultInvalidCombinationKernel = 0xD90007EE" "ResultOutOfMemory = 0xD86007F3" "ResultTimeout = 0x09401BFE"
  "handle_code ResultOutOfHandles = 0xD8600413" "handle_code ResultInvalidHandle = 0xD8E007F7"
  by (simp_all add: ResultOutOfRange_def ResultOutOfRangeKernel_def ResultNotAuthorized_def ResultInvalidPointer_def
      ResultInvalidEnumValue_def ResultInvalidEnumValueFnd_def ResultInvalidCombinationKernel_def ResultOutOfMemory_def
      ResultTimeout_def make_result_def)

end
