(* ===== verification/Kernel_Sync.thy ===== *)
theory Kernel_Sync
  imports Kernel_State
begin

text \<open>
  The operations of \<open>thread.cpp\<close>, \<open>wait_object.cpp\<close>, \<open>semaphore.cpp\<close>, \<open>event.cpp\<close>, \<open>mutex.cpp\<close> and
  \<open>address_arbiter.cpp\<close> that do not involve the event scheduler: priorities and their inheritance,
  waking up, acquiring and releasing. \<open>None\<close> is a failed assertion, which ends the emulator.
\<close>

section \<open>Priorities\<close>

definition BoostPriority :: "tid \<Rightarrow> nat \<Rightarrow> Kernel \<Rightarrow> Kernel" where
  "BoostPriority t priority k =
     (let th = threads k t;
          k = (if status th = Ready
               then upd_queue (core_id th) (tql_move t (current_priority th) priority) k
               else upd_queue (core_id th) (prepare priority) k)
      in upd_thread t (\<lambda>th. th\<lparr>current_priority := priority\<rparr>) k)"

definition SetPriority :: "tid \<Rightarrow> nat \<Rightarrow> Kernel \<Rightarrow> Kernel option" where
  "SetPriority t priority k =
     (if \<not> priority \<le> ThreadPrioLowest then None
      else
        let th = threads k t;
            k = (if status th = Ready
                 then upd_queue (core_id th) (tql_move t (current_priority th) priority) k
                 else upd_queue (core_id th) (prepare priority) k)
        in Some (upd_thread t (\<lambda>th. th\<lparr>nominal_priority := priority, current_priority := priority\<rparr>) k))"

definition UpdatePriority :: "tid \<Rightarrow> Kernel \<Rightarrow> Kernel" where
  "UpdatePriority t k =
     (let best_priority =
        fold (\<lambda>i best. if mtx_priority (mutex_of k i) < best then mtx_priority (mutex_of k i) else best)
          (held_mutexes (threads k t)) (nominal_priority (threads k t))
      in BoostPriority t best_priority k)"

definition Mutex_UpdatePriority :: "nat \<Rightarrow> Kernel \<Rightarrow> Kernel" where
  "Mutex_UpdatePriority i k =
     (let m = mutex_of k i
      in case holding_thread m of
           None \<Rightarrow> k
         | Some h \<Rightarrow>
             let best_priority =
               fold (\<lambda>w best. if current_priority (threads k w) < best then current_priority (threads k w) else best)
                 (waiting_threads k (Obj i)) ThreadPrioLowest
             in if best_priority \<noteq> mtx_priority m
                then UpdatePriority h (set_body i (B_Mutex (m\<lparr>mtx_priority := best_priority\<rparr>)) k)
                else k)"

section \<open>Waiting for an object\<close>

definition is_mutex :: "Kernel \<Rightarrow> nat \<Rightarrow> bool" where
  "is_mutex k i = (case bodies k i of B_Mutex _ \<Rightarrow> True | _ \<Rightarrow> False)"

fun ShouldWait :: "Kernel \<Rightarrow> obj \<Rightarrow> tid \<Rightarrow> bool" where
  "ShouldWait k (Obj_Thread u) t = (status (threads k u) \<noteq> Dead)"
| "ShouldWait k (Obj i) t =
     (case bodies k i of
        B_Semaphore s \<Rightarrow> available_count s \<le> 0
      | B_Event e \<Rightarrow> \<not> ev_signaled e
      | B_Timer e \<Rightarrow> \<not> tm_signaled e
      | B_Mutex m \<Rightarrow> lock_count m > 0 \<and> Some t \<noteq> holding_thread m)"

definition Mutex_Acquire :: "nat \<Rightarrow> Mutex \<Rightarrow> tid \<Rightarrow> Kernel \<Rightarrow> Kernel" where
  "Mutex_Acquire i m t k =
     (let k = (if lock_count m = 0 then
                 let k = set_body i (B_Mutex (m\<lparr>mtx_priority := current_priority (threads k t)\<rparr>)) k;
                     k = upd_thread t (\<lambda>th. th\<lparr>held_mutexes := flat_insert i (held_mutexes th)\<rparr>) k;
                     k = set_body i (B_Mutex ((mutex_of k i)\<lparr>holding_thread := Some t\<rparr>)) k
                 in PrepareReschedule (UpdatePriority t k)
               else k)
      in set_body i (B_Mutex ((mutex_of k i)\<lparr>lock_count := lock_count (mutex_of k i) + 1\<rparr>)) k)"

fun Acquire :: "obj \<Rightarrow> tid \<Rightarrow> Kernel \<Rightarrow> Kernel option" where
  "Acquire (Obj_Thread u) t k = (if ShouldWait k (Obj_Thread u) t then None else Some k)"
| "Acquire (Obj i) t k =
     (case bodies k i of
        B_Semaphore s \<Rightarrow>
          if available_count s \<le> 0 then Some k
          else Some (set_body i (B_Semaphore (s\<lparr>available_count := available_count s - 1\<rparr>)) k)
      | B_Event e \<Rightarrow>
          if ShouldWait k (Obj i) t then None
          else Some (if ev_reset e = OneShot then set_body i (B_Event (e\<lparr>ev_signaled := False\<rparr>)) k else k)
      | B_Timer e \<Rightarrow>
          if ShouldWait k (Obj i) t then None
          else Some (if tm_reset e = OneShot then set_body i (B_Timer (e\<lparr>tm_signaled := False\<rparr>)) k else k)
      | B_Mutex m \<Rightarrow>
          if ShouldWait k (Obj i) t then None else Some (Mutex_Acquire i m t k))"

fun acquire_all :: "obj list \<Rightarrow> tid \<Rightarrow> Kernel \<Rightarrow> Kernel option" where
  "acquire_all [] t k = Some k"
| "acquire_all (obj # objs) t k = do { k \<leftarrow> Acquire obj t k; acquire_all objs t k }"

definition add_waiter :: "obj \<Rightarrow> tid \<Rightarrow> Kernel \<Rightarrow> Kernel" where
  "add_waiter obj t k =
     (if t \<in> set (waiting_threads k obj) then k
      else k\<lparr>waiting_threads := (waiting_threads k)(obj := waiting_threads k obj @ [t])\<rparr>)"

definition remove_waiter :: "obj \<Rightarrow> tid \<Rightarrow> Kernel \<Rightarrow> Kernel" where
  "remove_waiter obj t k =
     k\<lparr>waiting_threads := (waiting_threads k)(obj := remove1 t (waiting_threads k obj))\<rparr>"

text \<open>Mutexes override both operations.\<close>

fun AddWaitingThread :: "obj \<Rightarrow> tid \<Rightarrow> Kernel \<Rightarrow> Kernel" where
  "AddWaitingThread (Obj_Thread u) t k = add_waiter (Obj_Thread u) t k"
| "AddWaitingThread (Obj i) t k =
     (let k' = add_waiter (Obj i) t k
      in if is_mutex k i
         then Mutex_UpdatePriority i (upd_thread t (\<lambda>th. th\<lparr>pending_mutexes := flat_insert i (pending_mutexes th)\<rparr>) k')
         else k')"

fun RemoveWaitingThread :: "obj \<Rightarrow> tid \<Rightarrow> Kernel \<Rightarrow> Kernel" where
  "RemoveWaitingThread (Obj_Thread u) t k = remove_waiter (Obj_Thread u) t k"
| "RemoveWaitingThread (Obj i) t k =
     (let k' = remove_waiter (Obj i) t k
      in if is_mutex k i
         then Mutex_UpdatePriority i (upd_thread t (\<lambda>th. th\<lparr>pending_mutexes := flat_erase i (pending_mutexes th)\<rparr>) k')
         else k')"

section \<open>Waking up\<close>

definition ResumeFromWait :: "tid \<Rightarrow> Kernel \<Rightarrow> Kernel option" where
  "ResumeFromWait t k =
     (let th = threads k t
      in if wait_objects th \<noteq> [] then None
         else case status th of
             Ready \<Rightarrow> if wakeup_callback th \<noteq> None then None else Some k
           | Running \<Rightarrow> Some k
           | Dead \<Rightarrow> Some k
           | _ \<Rightarrow>
               let k = upd_thread t (\<lambda>th. th\<lparr>wakeup_callback := None\<rparr>) k;
                   k = upd_queue (core_id th) (push_back (current_priority th) t) k;
                   k = upd_thread t (\<lambda>th. th\<lparr>status := Ready\<rparr>) k
               in Some (PrepareReschedule k))"

definition SetWaitSynchronizationResult :: "tid \<Rightarrow> ResultCode \<Rightarrow> Kernel \<Rightarrow> Kernel" where
  "SetWaitSynchronizationResult t result =
     upd_context t (\<lambda>c. c\<lparr>cpu_registers := (cpu_registers c)(0 := result)\<rparr>)"

definition SetWaitSynchronizationOutput :: "tid \<Rightarrow> int \<Rightarrow> Kernel \<Rightarrow> Kernel" where
  "SetWaitSynchronizationOutput t out =
     upd_context t (\<lambda>c. c\<lparr>cpu_registers := (cpu_registers c)(1 := word_of_int out)\<rparr>)"

text \<open>The position from the last match on, \<open>-1\<close> without one.\<close>

definition last_index :: "'a \<Rightarrow> 'a list \<Rightarrow> int" where
  "last_index x xs = int (length (dropWhile (\<lambda>y. y \<noteq> x) (rev xs))) - 1"

definition GetWaitObjectIndex :: "tid \<Rightarrow> obj option \<Rightarrow> Kernel \<Rightarrow> int option" where
  "GetWaitObjectIndex t obj k =
     (if wait_objects (threads k t) = [] then None
      else Some (last_index obj (map Some (wait_objects (threads k t)))))"

fun SVC_SyncCallback_WakeUp :: "bool \<Rightarrow> ThreadWakeupReason \<Rightarrow> tid \<Rightarrow> obj option \<Rightarrow> Kernel \<Rightarrow> Kernel option" where
  "SVC_SyncCallback_WakeUp do_output Timeout t obj k = Some (SetWaitSynchronizationResult t ResultTimeout k)"
| "SVC_SyncCallback_WakeUp do_output Signal t obj k =
     (let k = SetWaitSynchronizationResult t ResultSuccess k
      in if do_output then map_option (\<lambda>i. SetWaitSynchronizationOutput t i k) (GetWaitObjectIndex t obj k)
         else Some k)"

definition AddressArbiter_WakeUp :: "nat \<Rightarrow> ThreadWakeupReason \<Rightarrow> tid \<Rightarrow> Kernel \<Rightarrow> Kernel option" where
  "AddressArbiter_WakeUp a reason t k =
     (if reason \<noteq> Timeout then None
      else Some (k\<lparr>arbiters := (arbiters k)(a := removeAll t (arbiters k a))\<rparr>))"

fun WakeUp :: "hle_env \<Rightarrow> callback \<Rightarrow> ThreadWakeupReason \<Rightarrow> tid \<Rightarrow> obj option \<Rightarrow> Kernel \<Rightarrow> Kernel option" where
  "WakeUp env (SVC_SyncCallback do_output) reason t obj k = SVC_SyncCallback_WakeUp do_output reason t obj k"
| "WakeUp env (ArbiterCallback a) reason t obj k = AddressArbiter_WakeUp a reason t k"
| "WakeUp env (OtherCallback n) reason t obj k = other_wakeup env n reason t obj k"

definition waits_for_objects :: "ThreadStatus \<Rightarrow> bool" where
  "waits_for_objects st = (st = WaitSynchAny \<or> st = WaitSynchAll \<or> st = WaitHleEvent)"

fun highest_loop :: "Kernel \<Rightarrow> obj \<Rightarrow> tid list \<Rightarrow> tid option \<Rightarrow> nat \<Rightarrow> tid option option" where
  "highest_loop k obj [] candidate candidate_priority = Some candidate"
| "highest_loop k obj (t # ts) candidate candidate_priority =
     (if \<not> waits_for_objects (status (threads k t)) then None
      else if current_priority (threads k t) \<ge> candidate_priority then highest_loop k obj ts candidate candidate_priority
      else if ShouldWait k obj t then highest_loop k obj ts candidate candidate_priority
      else if status (threads k t) = WaitSynchAll \<and>
              \<not> list_all (\<lambda>ob. \<not> ShouldWait k ob t) (wait_objects (threads k t))
           then highest_loop k obj ts candidate candidate_priority
      else highest_loop k obj ts (Some t) (current_priority (threads k t)))"

definition GetHighestPriorityReadyThread :: "obj \<Rightarrow> Kernel \<Rightarrow> tid option option" where
  "GetHighestPriorityReadyThread obj k =
     highest_loop k obj (waiting_threads k obj) None (ThreadPrioLowest + 1)"

text \<open>Leaving the waiting lists, as after a wake-up, a timeout or the end of a thread.\<close>

definition clear_wait_objects :: "tid \<Rightarrow> Kernel \<Rightarrow> Kernel" where
  "clear_wait_objects t k =
     upd_thread t (\<lambda>th. th\<lparr>wait_objects := []\<rparr>)
       (fold (\<lambda>ob. RemoveWaitingThread ob t) (wait_objects (threads k t)) k)"

definition invoke_callback :: "hle_env \<Rightarrow> ThreadWakeupReason \<Rightarrow> tid \<Rightarrow> obj option \<Rightarrow> Kernel \<Rightarrow> Kernel option" where
  "invoke_callback env reason t obj k =
     (case wakeup_callback (threads k t) of None \<Rightarrow> Some k | Some cb \<Rightarrow> WakeUp env cb reason t obj k)"

text \<open>The body of the loop of \<open>WakeupAllWaitingThreads\<close>.\<close>

definition wake_thread :: "hle_env \<Rightarrow> obj \<Rightarrow> tid \<Rightarrow> Kernel \<Rightarrow> Kernel option" where
  "wake_thread env obj t k =
     do {
       k \<leftarrow> (if status (threads k t) \<noteq> WaitSynchAll then Acquire obj t k
             else acquire_all (wait_objects (threads k t)) t k);
       k \<leftarrow> invoke_callback env Signal t (Some obj) k;
       ResumeFromWait t (clear_wait_objects t k)
     }"

partial_function (option) wakeup_loop :: "hle_env \<Rightarrow> obj \<Rightarrow> Kernel \<Rightarrow> Kernel option" where
  "wakeup_loop env obj k =
     do {
       r \<leftarrow> GetHighestPriorityReadyThread obj k;
       case r of
         None \<Rightarrow> Some k
       | Some t \<Rightarrow> do { k \<leftarrow> wake_thread env obj t k; wakeup_loop env obj k }
     }"

text \<open>Events and timers override the operation: a pulse ends once the threads are awake.\<close>

definition end_pulse :: "obj \<Rightarrow> Kernel \<Rightarrow> Kernel" where
  "end_pulse obj k =
     (case obj of
        Obj_Thread _ \<Rightarrow> k
      | Obj i \<Rightarrow>
          (case bodies k i of
             B_Event e \<Rightarrow> if ev_reset e = Pulse then set_body i (B_Event (e\<lparr>ev_signaled := False\<rparr>)) k else k
           | B_Timer e \<Rightarrow> if tm_reset e = Pulse then set_body i (B_Timer (e\<lparr>tm_signaled := False\<rparr>)) k else k
           | _ \<Rightarrow> k))"

definition WakeupAllWaitingThreads :: "hle_env \<Rightarrow> obj \<Rightarrow> Kernel \<Rightarrow> Kernel option" where
  "WakeupAllWaitingThreads env obj k =
     do { k \<leftarrow> wakeup_loop env obj k; Some (end_pulse obj (hle_notifier env obj k)) }"

section \<open>Semaphores, events and mutexes\<close>

text \<open>\<open>release_count + available_count\<close> is a 32-bit sum. The result is the code, the old count and the kernel.\<close>

definition Semaphore_Release ::
    "hle_env \<Rightarrow> nat \<Rightarrow> Semaphore \<Rightarrow> int \<Rightarrow> Kernel \<Rightarrow> (ResultCode \<times> int option \<times> Kernel) option" where
  "Semaphore_Release env i s release_count k =
     (if \<not> max_count s \<ge> to_s32 (release_count + available_count s) then Some (ResultOutOfRangeKernel, None, k)
      else do {
        k \<leftarrow> WakeupAllWaitingThreads env (Obj i)
               (set_body i (B_Semaphore (s\<lparr>available_count := to_s32 (available_count s + release_count)\<rparr>)) k);
        Some (ResultSuccess, Some (available_count s), k)
      })"

definition Event_Signal :: "hle_env \<Rightarrow> nat \<Rightarrow> KEvent \<Rightarrow> Kernel \<Rightarrow> Kernel option" where
  "Event_Signal env i e k =
     WakeupAllWaitingThreads env (Obj i) (set_body i (B_Event (e\<lparr>ev_signaled := True\<rparr>)) k)"

definition Event_Clear :: "nat \<Rightarrow> KEvent \<Rightarrow> Kernel \<Rightarrow> Kernel" where
  "Event_Clear i e k = set_body i (B_Event (e\<lparr>ev_signaled := False\<rparr>)) k"

definition Mutex_Release :: "hle_env \<Rightarrow> nat \<Rightarrow> Mutex \<Rightarrow> tid \<Rightarrow> Kernel \<Rightarrow> (ResultCode \<times> Kernel) option" where
  "Mutex_Release env i m t k =
     (if Some t \<noteq> holding_thread m then Some (WrongLockingThread, k)
      else if lock_count m \<le> 0 then Some (InvalidLockCount, k)
      else
        let k = set_body i (B_Mutex (m\<lparr>lock_count := lock_count m - 1\<rparr>)) k
        in if lock_count m - 1 = 0 then
             let k = upd_thread t (\<lambda>th. th\<lparr>held_mutexes := flat_erase i (held_mutexes th)\<rparr>) k;
                 k = UpdatePriority t k;
                 k = set_body i (B_Mutex ((mutex_of k i)\<lparr>holding_thread := None\<rparr>)) k
             in do {
                  k \<leftarrow> WakeupAllWaitingThreads env (Obj i) k;
                  Some (ResultSuccess, PrepareReschedule k)
                }
           else Some (ResultSuccess, k))"

text \<open>The loop of \<open>ReleaseThreadMutexes\<close>, over the mutexes held when the thread stops.\<close>

fun release_mutexes :: "hle_env \<Rightarrow> nat list \<Rightarrow> Kernel \<Rightarrow> Kernel option" where
  "release_mutexes env [] k = Some k"
| "release_mutexes env (i # is) k =
     do {
       k \<leftarrow> WakeupAllWaitingThreads env (Obj i)
              (set_body i (B_Mutex ((mutex_of k i)\<lparr>lock_count := 0, holding_thread := None\<rparr>)) k);
       release_mutexes env is k
     }"

definition ReleaseThreadMutexes :: "hle_env \<Rightarrow> tid \<Rightarrow> Kernel \<Rightarrow> Kernel option" where
  "ReleaseThreadMutexes env t k =
     do {
       k \<leftarrow> release_mutexes env (held_mutexes (threads k t)) k;
       Some (upd_thread t (\<lambda>th. th\<lparr>held_mutexes := []\<rparr>) k)
     }"

section \<open>Creation of objects\<close>

definition new_body :: "body \<Rightarrow> Kernel \<Rightarrow> nat \<times> Kernel" where
  "new_body b k = (next_object k, (set_body (next_object k) b k)\<lparr>next_object := next_object k + 1\<rparr>)"

definition CreateSemaphore :: "int \<Rightarrow> int \<Rightarrow> Kernel \<Rightarrow> ResultCode + nat \<times> Kernel" where
  "CreateSemaphore initial_count maximum k =
     (if \<not> initial_count \<le> maximum then Inl ResultInvalidCombinationKernel
      else Inr (new_body (B_Semaphore \<lparr>max_count = maximum, available_count = initial_count\<rparr>) k))"

definition CreateEvent :: "ResetType \<Rightarrow> Kernel \<Rightarrow> nat \<times> Kernel" where
  "CreateEvent reset_type k = new_body (B_Event \<lparr>ev_reset = reset_type, ev_signaled = False\<rparr>) k"

definition CreateTimer :: "ResetType \<Rightarrow> Kernel \<Rightarrow> nat \<times> Kernel" where
  "CreateTimer reset_type k =
     (let cid = next_timer_callback_id k + 1;
          (i, k) = new_body (B_Timer \<lparr>tm_reset = reset_type, tm_signaled = False, initial_delay = 0,
                                       interval_delay = 0, callback_id = cid\<rparr>) k
      in (i, k\<lparr>next_timer_callback_id := cid, timer_callback_table := (timer_callback_table k)(cid \<mapsto> i)\<rparr>))"

definition GetCurrentThread :: "Kernel \<Rightarrow> tid option" where
  "GetCurrentThread k = current_thread (managers k (current_cpu k))"

text \<open>Without a current thread, an initially locked mutex dereferences a null pointer.\<close>

definition CreateMutex :: "bool \<Rightarrow> Kernel \<Rightarrow> (nat \<times> Kernel) option" where
  "CreateMutex initial_locked k =
     (let (i, k) = new_body (B_Mutex \<lparr>lock_count = 0, mtx_priority = 0, holding_thread = None\<rparr>) k
      in if initial_locked then
           (case GetCurrentThread k of
              None \<Rightarrow> None
            | Some t \<Rightarrow> map_option (Pair i) (Acquire (Obj i) t k))
         else Some (i, k))"

definition CreateAddressArbiter :: "Kernel \<Rightarrow> nat \<times> Kernel" where
  "CreateAddressArbiter k =
     (next_arbiter k, k\<lparr>arbiters := (arbiters k)(next_arbiter k := []), next_arbiter := next_arbiter k + 1\<rparr>)"

section \<open>Address arbiters\<close>

definition WaitThread :: "nat \<Rightarrow> tid \<Rightarrow> u32 \<Rightarrow> Kernel \<Rightarrow> Kernel" where
  "WaitThread a t address k =
     (let k = upd_thread t (\<lambda>th. th\<lparr>wait_address := address, status := WaitArb\<rparr>) k
      in k\<lparr>arbiters := (arbiters k)(a := arbiters k a @ [t])\<rparr>)"

text \<open>The threads that keep waiting and those that wait for the address, each in their order.\<close>

definition arb_partition :: "nat \<Rightarrow> u32 \<Rightarrow> Kernel \<Rightarrow> (tid list \<times> tid list) option" where
  "arb_partition a address k =
     (if \<not> list_all (\<lambda>t. status (threads k t) = WaitArb) (arbiters k a) then None
      else Some (filter (\<lambda>t. wait_address (threads k t) \<noteq> address) (arbiters k a),
                 filter (\<lambda>t. wait_address (threads k t) = address) (arbiters k a)))"

fun resume_all :: "tid list \<Rightarrow> Kernel \<Rightarrow> Kernel option" where
  "resume_all [] k = Some k"
| "resume_all (t # ts) k = do { k \<leftarrow> ResumeFromWait t k; resume_all ts k }"

definition ResumeAllThreads :: "nat \<Rightarrow> u32 \<Rightarrow> Kernel \<Rightarrow> (nat \<times> Kernel) option" where
  "ResumeAllThreads a address k =
     do {
       (rest, found) \<leftarrow> arb_partition a address k;
       k \<leftarrow> resume_all found k;
       Some (length found, k\<lparr>arbiters := (arbiters k)(a := rest)\<rparr>)
     }"

text \<open>\<open>min_element\<close>: the first of the smallest elements.\<close>

fun min_element :: "('a \<Rightarrow> nat) \<Rightarrow> 'a list \<Rightarrow> 'a option" where
  "min_element f [] = None"
| "min_element f (x # xs) =
     (case min_element f xs of None \<Rightarrow> Some x | Some y \<Rightarrow> if f y < f x then Some y else Some x)"

definition ResumeHighestPriorityThread :: "nat \<Rightarrow> u32 \<Rightarrow> Kernel \<Rightarrow> (bool \<times> Kernel) option" where
  "ResumeHighestPriorityThread a address k =
     do {
       (rest, found) \<leftarrow> arb_partition a address k;
       case min_element (\<lambda>t. current_priority (threads k t)) found of
         None \<Rightarrow> Some (False, k\<lparr>arbiters := (arbiters k)(a := rest @ found)\<rparr>)
       | Some t \<Rightarrow>
           do {
             k \<leftarrow> ResumeFromWait t k;
             Some (True, k\<lparr>arbiters := (arbiters k)(a := rest @ remove1 t found)\<rparr>)
           }
     }"

text \<open>The loop over the first \<open>n\<close> threads; the result is the number of threads resumed.\<close>

fun resume_n :: "nat \<Rightarrow> nat \<Rightarrow> u32 \<Rightarrow> Kernel \<Rightarrow> (nat \<times> Kernel) option" where
  "resume_n 0 a address k = Some (0, k)"
| "resume_n (Suc n) a address k =
     do {
       (b, k) \<leftarrow> ResumeHighestPriorityThread a address k;
       (c, k) \<leftarrow> resume_n n a address k;
       Some (of_bool b + c, k)
     }"

end
