(* ===== verification/Kernel_Sched.thy ===== *)
theory Kernel_Sched
  imports Kernel_Sync
begin

text \<open>
  The scheduler of \<open>thread.cpp\<close>, the timers of \<open>timer.cpp\<close> and the life of
  threads. The state is the kernel inside the event scheduler of
  \<open>core_timing.cpp\<close>, whose callbacks are \<open>ThreadWakeupCallback\<close> and \<open>TimerCallback\<close>.
\<close>

type_synonym sys = "Kernel Timing"

definition updk :: "(Kernel \<Rightarrow> Kernel) \<Rightarrow> sys \<Rightarrow> sys" where
  "updk f s = s\<lparr>world := f (world s)\<rparr>"

definition onk :: "(Kernel \<Rightarrow> Kernel option) \<Rightarrow> sys \<Rightarrow> sys option" where
  "onk f s = map_option (\<lambda>k. s\<lparr>world := k\<rparr>) (f (world s))"

text \<open>The event type of a thread manager; there are at most four cores.\<close>

definition wakeup_event :: "nat \<Rightarrow> string" where
  "wakeup_event c = ''ThreadWakeupCallback_'' @ [char_of (48 + c)]"

definition timer_event :: string where "timer_event = ''TimerCallback''"

section \<open>Processes and cores\<close>

definition SetCurrentMemoryPageTable :: "hle_env \<Rightarrow> pid \<Rightarrow> Kernel \<Rightarrow> Kernel option" where
  "SetCurrentMemoryPageTable env p k =
     map_option (\<lambda>m. k\<lparr>kmem := m, cpu_page_table := (cpu_page_table k)(current_cpu k := Some p)\<rparr>)
       (party_export env ((kmem k)\<lparr>current_page_table := p\<rparr>))"

definition SetCurrentProcess :: "hle_env \<Rightarrow> pid \<Rightarrow> Kernel \<Rightarrow> Kernel option" where
  "SetCurrentProcess env p k =
     SetCurrentMemoryPageTable env p (k\<lparr>running_process := Some p, kmem := (kmem k)\<lparr>current_process := p\<rparr>\<rparr>)"

definition SetCurrentProcessForCPU :: "hle_env \<Rightarrow> pid \<Rightarrow> nat \<Rightarrow> Kernel \<Rightarrow> Kernel option" where
  "SetCurrentProcessForCPU env p c k =
     (if current_cpu k = c
      then SetCurrentMemoryPageTable env p (k\<lparr>running_process := Some p, kmem := (kmem k)\<lparr>current_process := p\<rparr>\<rparr>)
      else Some (k\<lparr>stored_processes := (stored_processes k)(c := Some p),
                   cpu_page_table := (cpu_page_table k)(c := Some p)\<rparr>))"

definition SetRunningCPU :: "hle_env \<Rightarrow> nat \<Rightarrow> sys \<Rightarrow> sys option" where
  "SetRunningCPU env c s =
     (let s = updk (\<lambda>k. if running_process k \<noteq> None
                        then k\<lparr>stored_processes := (stored_processes k)(current_cpu k := running_process k)\<rparr> else k) s;
          s = updk (\<lambda>k. k\<lparr>current_cpu := c\<rparr>) s;
          s = SetCurrentTimer c s
      in case stored_processes (world s) c of
           None \<Rightarrow> Some s
         | Some p \<Rightarrow> onk (SetCurrentProcess env p) s)"

section \<open>Scheduling\<close>

definition WakeAfterDelay :: "tid \<Rightarrow> int \<Rightarrow> bool \<Rightarrow> sys \<Rightarrow> sys option" where
  "WakeAfterDelay t nanoseconds thread_safe_mode s =
     (if nanoseconds = -1 then Some s
      else
        let c = core_id (threads (world s) t)
        in ScheduleEvent (nsToCycles_s64 nanoseconds) (wakeup_event c) (of_nat t)
             (if thread_safe_mode then Some c else None) thread_safe_mode s)"

definition save_previous :: "nat \<Rightarrow> tid \<Rightarrow> int \<Rightarrow> Kernel \<Rightarrow> Kernel" where
  "save_previous c p ticks k =
     (let k = upd_thread p (\<lambda>th. th\<lparr>last_running_ticks := ticks\<rparr>) k;
          k = upd_context p (\<lambda>_. cpu_context k c) k
      in if status (threads k p) = Running then
           let k = upd_queue c (push_front (current_priority (threads k p)) p) k
           in upd_thread p (\<lambda>th. th\<lparr>status := Ready\<rparr>) k
         else k)"

definition load_new :: "hle_env \<Rightarrow> nat \<Rightarrow> pid option \<Rightarrow> tid \<Rightarrow> Kernel \<Rightarrow> Kernel option" where
  "load_new env c previous_process n k =
     do {
       k \<leftarrow> Some (upd_manager c (\<lambda>m. m\<lparr>current_thread := Some n\<rparr>) k);
       k \<leftarrow> Some (upd_queue c (tql_remove (current_priority (threads k n)) n) k);
       k \<leftarrow> Some (upd_thread n (\<lambda>th. th\<lparr>status := Running\<rparr>) k);
       k \<leftarrow> (if previous_process \<noteq> Some (owner_process (threads k n))
             then SetCurrentProcessForCPU env (owner_process (threads k n)) c k else Some k);
       Some (k\<lparr>cpu_context := (cpu_context k)(c := saved_context k n),
               cp15_thread_uro := (cp15_thread_uro k)(c := tls_address (threads k n))\<rparr>)
     }"

definition SwitchContext :: "hle_env \<Rightarrow> nat \<Rightarrow> tid option \<Rightarrow> sys \<Rightarrow> sys option" where
  "SwitchContext env c new_thread s =
     (let previous_thread = current_thread (managers (world s) c);
          previous_process = map_option (\<lambda>p. owner_process (threads (world s) p)) previous_thread;
          s = (case previous_thread of
                 None \<Rightarrow> s
               | Some p \<Rightarrow> updk (save_previous c p (Timer_GetTicks (timers s ! c))) s)
      in case new_thread of
           None \<Rightarrow> Some (updk (upd_manager c (\<lambda>m. m\<lparr>current_thread := None\<rparr>)) s)
         | Some n \<Rightarrow>
             if status (threads (world s) n) \<noteq> Ready then None
             else onk (load_new env c previous_process n) (UnscheduleEvent (wakeup_event c) (of_nat n) s))"

text \<open>
  The two loops of \<open>PopNextReadyThread\<close>: threads that may not be scheduled are set aside. With
  \<open>stop = Some p\<close> only levels better than \<open>p\<close> are searched.
\<close>

partial_function (option) pop_loop ::
    "(tid \<Rightarrow> bool) \<Rightarrow> nat option \<Rightarrow> tid ThreadQueueList \<Rightarrow> tid list \<Rightarrow>
     (tid option \<times> tid ThreadQueueList \<times> tid list) option" where
  "pop_loop can stop q unscheduled =
     do {
       (next, q) \<leftarrow> (case stop of Some p \<Rightarrow> pop_first_better p q | None \<Rightarrow> pop_first q);
       case next of
         None \<Rightarrow> Some (None, q, unscheduled)
       | Some t \<Rightarrow> if can t then Some (Some t, q, unscheduled) else pop_loop can stop q (unscheduled @ [t])
     }"

definition PopNextReadyThread :: "nat \<Rightarrow> Kernel \<Rightarrow> (tid option \<times> Kernel) option" where
  "PopNextReadyThread c k =
     (let m = managers k c;
          cur = current_thread m;
          running = (case cur of None \<Rightarrow> False | Some t \<Rightarrow> status (threads k t) = Running);
          stop = (if running then Some (current_priority (threads k (the cur))) else None)
      in do {
           (next, q, unscheduled) \<leftarrow> pop_loop (\<lambda>t. can_schedule (threads k t)) stop (ready_queue m) [];
           let q = fold (\<lambda>t. push_back (current_priority (threads k t)) t) (rev unscheduled) q;
           Some (if running \<and> next = None then cur else next, upd_queue c (\<lambda>_. q) k)
         })"

definition Reschedule :: "hle_env \<Rightarrow> nat \<Rightarrow> sys \<Rightarrow> sys option" where
  "Reschedule env c s =
     do {
       (next, k) \<leftarrow> PopNextReadyThread c (world s);
       let s = s\<lparr>world := k\<rparr>;
       if current_thread (managers k c) = None \<and> next = None then Some s
       else SwitchContext env c next s
     }"

text \<open>\<open>System::Reschedule\<close>: all cores, when one asked for it.\<close>

fun reschedule_cores :: "hle_env \<Rightarrow> nat list \<Rightarrow> sys \<Rightarrow> sys option" where
  "reschedule_cores env [] s = Some s"
| "reschedule_cores env (c # cs) s = do { s \<leftarrow> Reschedule env c s; reschedule_cores env cs s }"

definition System_Reschedule :: "hle_env \<Rightarrow> sys \<Rightarrow> sys option" where
  "System_Reschedule env s =
     (if \<not> reschedule_pending (world s) then Some s
      else reschedule_cores env [0..<num_cores (world s)] (updk (\<lambda>k. k\<lparr>reschedule_pending := False\<rparr>) s))"

definition HaveReadyThreads :: "nat \<Rightarrow> Kernel \<Rightarrow> bool option" where
  "HaveReadyThreads c k = map_option (\<lambda>r. r \<noteq> None) (get_first (ready_queue (managers k c)))"

definition WaitCurrentThread_Sleep :: "nat \<Rightarrow> Kernel \<Rightarrow> Kernel option" where
  "WaitCurrentThread_Sleep c k =
     map_option (\<lambda>t. upd_thread t (\<lambda>th. th\<lparr>status := WaitSleep\<rparr>) k) (current_thread (managers k c))"

definition ThreadWakeupCallback :: "hle_env \<Rightarrow> nat \<Rightarrow> u64 \<Rightarrow> Kernel \<Rightarrow> Kernel option" where
  "ThreadWakeupCallback env c thread_id k =
     do {
       t \<leftarrow> wakeup_callback_table (managers k c) (unat thread_id);
       k \<leftarrow> (if status (threads k t) \<in> {WaitSynchAny, WaitSynchAll, WaitArb, WaitHleEvent}
             then map_option (clear_wait_objects t) (invoke_callback env Timeout t None k)
             else Some k);
       ResumeFromWait t k
     }"

section \<open>The life of a thread\<close>

definition TLS_AREA_VADDR :: u32 where "TLS_AREA_VADDR = 0x1FF82000"
definition TLS_ENTRY_SIZE :: nat where "TLS_ENTRY_SIZE = 0x200"

text \<open>The first page with a free slot and the first free slot in it.\<close>

fun find_slot :: "bool list list \<Rightarrow> nat \<Rightarrow> (nat \<times> nat) option" where
  "find_slot [] n = None"
| "find_slot (page # pages) n =
     (if list_all id page then find_slot pages (n + 1)
      else Some (n, length (takeWhile id page)))"

definition tls_address_of :: "nat \<Rightarrow> nat \<Rightarrow> u32" where
  "tls_address_of page slot =
     TLS_AREA_VADDR + of_nat page * of_nat CITRA_PAGE_SIZE + of_nat slot * of_nat TLS_ENTRY_SIZE"

definition AllocateThreadLocalStorage ::
    "hle_env \<Rightarrow> pid \<Rightarrow> Kernel \<Rightarrow> (ResultCode \<times> Kernel + u32 \<times> Kernel) option" where
  "AllocateThreadLocalStorage env p k =
     (let pr = processes k p
      in case (case find_slot (tls_slots pr) 0 of
                 Some (page, slot) \<Rightarrow> Some (page, slot, tls_slots pr, kmem k)
               | None \<Rightarrow>
                   map_option (\<lambda>m. (length (tls_slots pr), 0, tls_slots pr @ [replicate 8 False], m))
                     (map_tls_page env p (length (tls_slots pr)) (kmem k))) of
           None \<Rightarrow> Some (Inl (ResultOutOfMemory, k))
         | Some (page, slot, slots, m) \<Rightarrow>
             do {
               let slots = slots[page := (slots ! page)[slot := True]];
               m \<leftarrow> ZeroBlock p (tls_address_of page slot) TLS_ENTRY_SIZE m;
               Some (Inr (tls_address_of page slot,
                          k\<lparr>kmem := m, processes := (processes k)(p := pr\<lparr>tls_slots := slots\<rparr>)\<rparr>))
             })"

definition ResetThreadContext :: "u32 \<Rightarrow> u32 \<Rightarrow> u32 \<Rightarrow> ThreadContext \<Rightarrow> ThreadContext" where
  "ResetThreadContext stack entry arg c =
     c\<lparr>cpu_registers := (cpu_registers c)(0 := arg, 15 := entry, 13 := stack),
       cpsr := 0x10 OR push_bit 5 (entry AND 1)\<rparr>"

definition empty_context :: ThreadContext where
  "empty_context = \<lparr>cpu_registers = (\<lambda>_. 0), cpsr = 0, fpu_registers = (\<lambda>_. 0), fpscr = 0, fpexc = 0\<rparr>"

definition new_thread :: "u32 \<Rightarrow> nat \<Rightarrow> nat \<Rightarrow> u32 \<Rightarrow> pid \<Rightarrow> int \<Rightarrow> Thread" where
  "new_thread entry priority c stack p ticks =
     \<lparr>status = Dormant, can_schedule = True, entry_point = entry, stack_top = stack, nominal_priority = priority,
      current_priority = priority, last_running_ticks = ticks, core_id = c, tls_address = 0,
      held_mutexes = [], pending_mutexes = [], owner_process = p, wait_objects = [], wait_address = 0,
      wakeup_callback = None\<rparr>"

text \<open>
  \<open>KernelSystem::CreateThread\<close>. A processor number outside the vector of thread managers is an
  out-of-range access, \<open>None\<close>; the result is an error code or the thread.
\<close>

definition KernelSystem_CreateThread ::
    "hle_env \<Rightarrow> u32 \<Rightarrow> nat \<Rightarrow> u32 \<Rightarrow> int \<Rightarrow> u32 \<Rightarrow> pid \<Rightarrow> bool \<Rightarrow> sys \<Rightarrow> ((ResultCode + tid) \<times> sys) option" where
  "KernelSystem_CreateThread env entry priority arg processor_id stack p make_ready s =
     (if priority > ThreadPrioLowest then Some (Inl ResultOutOfRange, s)
      else if processor_id > ThreadProcessorIdMax then Some (Inl ResultOutOfRangeKernel, s)
      else if \<not> IsValidVirtualAddress p entry (kmem (world s)) then Some (Inl InvalidEntryPoint, s)
      else if \<not> (0 \<le> processor_id \<and> nat processor_id < num_cores (world s)) then None
      else
        let k = world s;
            c = nat processor_id;
            t = next_thread_id k;
            th = new_thread entry priority c stack p (Timer_GetTicks (timers s ! c));
            k = upd_manager c (\<lambda>m. m\<lparr>thread_list := thread_list m @ [t], ready_queue := prepare priority (ready_queue m),
                                     wakeup_callback_table := (wakeup_callback_table m)(t \<mapsto> t)\<rparr>) k;
            k = k\<lparr>next_thread_id := t + 1, threads := (threads k)(t := th),
                  saved_context := (saved_context k)(t := empty_context)\<rparr>
        in do {
             r \<leftarrow> AllocateThreadLocalStorage env p k;
             case r of
               Inl (code, k) \<Rightarrow> Some (Inl code, s\<lparr>world := k\<rparr>)
             | Inr (tls, k) \<Rightarrow>
                 let k = upd_thread t (\<lambda>th. th\<lparr>tls_address := tls\<rparr>) k;
                     k = upd_context t (ResetThreadContext stack entry arg) k;
                     k = (if make_ready then
                            upd_thread t (\<lambda>th. th\<lparr>status := Ready\<rparr>) (upd_queue c (push_back priority t) k)
                          else k)
                 in Some (Inr t, s\<lparr>world := k\<rparr>)
           })"

definition free_tls :: "tid \<Rightarrow> Kernel \<Rightarrow> Kernel" where
  "free_tls t k =
     (let off = unat (tls_address (threads k t) - TLS_AREA_VADDR);
          page = off div CITRA_PAGE_SIZE;
          slot = off mod CITRA_PAGE_SIZE div TLS_ENTRY_SIZE;
          p = owner_process (threads k t);
          pr = processes k p;
          rl = resource_limit pr
      in k\<lparr>processes := (processes k)(p := pr\<lparr>tls_slots := (tls_slots pr)[page := (tls_slots pr ! page)[slot := False]]\<rparr>),
           limits := (limits k)(rl := snd (ResourceLimit_Release RL_Thread 1 (limits k rl)))\<rparr>)"

definition Stop :: "hle_env \<Rightarrow> tid \<Rightarrow> sys \<Rightarrow> sys option" where
  "Stop env t s =
     (let c = core_id (threads (world s) t);
          s = UnscheduleEvent (wakeup_event c) (of_nat t) s;
          s = updk (upd_manager c (\<lambda>m. m\<lparr>wakeup_callback_table := (wakeup_callback_table m)(t := None)\<rparr>)) s;
          s = (if status (threads (world s) t) = Ready
               then updk (upd_queue c (tql_remove (current_priority (threads (world s) t)) t)) s else s);
          s = updk (upd_thread t (\<lambda>th. th\<lparr>status := Dead\<rparr>)) s
      in onk (\<lambda>k. do {
           k \<leftarrow> WakeupAllWaitingThreads env (Obj_Thread t) k;
           k \<leftarrow> ReleaseThreadMutexes env t (clear_wait_objects t k);
           Some (free_tls t k)
         }) s)"

definition ExitCurrentThread :: "hle_env \<Rightarrow> nat \<Rightarrow> sys \<Rightarrow> sys option" where
  "ExitCurrentThread env c s =
     do {
       t \<leftarrow> current_thread (managers (world s) c);
       s \<leftarrow> Stop env t s;
       Some (updk (\<lambda>k. PrepareReschedule (upd_manager c (\<lambda>m. m\<lparr>thread_list := removeAll t (thread_list m)\<rparr>) k)) s)
     }"

fun terminate_threads :: "hle_env \<Rightarrow> nat \<Rightarrow> pid \<Rightarrow> tid list \<Rightarrow> sys \<Rightarrow> sys option" where
  "terminate_threads env c p [] s = Some s"
| "terminate_threads env c p (t # ts) s =
     (if current_thread (managers (world s) c) = Some t \<or> owner_process (threads (world s) t) \<noteq> p
      then terminate_threads env c p ts s
      else do {
        s \<leftarrow> Stop env t s;
        terminate_threads env c p ts
          (updk (upd_manager c (\<lambda>m. m\<lparr>thread_list := remove1 t (thread_list m)\<rparr>)) s)
      })"

definition TerminateProcessThreads :: "hle_env \<Rightarrow> nat \<Rightarrow> pid \<Rightarrow> sys \<Rightarrow> sys option" where
  "TerminateProcessThreads env c p s =
     do {
       s \<leftarrow> terminate_threads env c p (thread_list (managers (world s) c)) s;
       case current_thread (managers (world s) c) of
         None \<Rightarrow> Some s
       | Some t \<Rightarrow> if owner_process (threads (world s) t) = p then ExitCurrentThread env c s else Some s
     }"

section \<open>Timers\<close>

definition Timer_Cancel :: "KTimer \<Rightarrow> sys \<Rightarrow> sys" where
  "Timer_Cancel e s = UnscheduleEvent timer_event (callback_id e) s"

definition Timer_Clear :: "nat \<Rightarrow> KTimer \<Rightarrow> Kernel \<Rightarrow> Kernel" where
  "Timer_Clear i e k = set_body i (B_Timer (e\<lparr>tm_signaled := False\<rparr>)) k"

definition Timer_Signal :: "hle_env \<Rightarrow> nat \<Rightarrow> KTimer \<Rightarrow> int \<Rightarrow> sys \<Rightarrow> sys option" where
  "Timer_Signal env i e cycles_late s =
     do {
       s \<leftarrow> onk (WakeupAllWaitingThreads env (Obj i)) (updk (set_body i (B_Timer (e\<lparr>tm_signaled := True\<rparr>))) s);
       if interval_delay e \<noteq> 0
       then ScheduleEvent (nsToCycles_u64 (interval_delay e) - cycles_late) timer_event (callback_id e) None False s
       else Some s
     }"

definition Timer_Set :: "hle_env \<Rightarrow> nat \<Rightarrow> KTimer \<Rightarrow> int \<Rightarrow> int \<Rightarrow> sys \<Rightarrow> sys option" where
  "Timer_Set env i e initial interval s =
     (let s = Timer_Cancel e s;
          e = e\<lparr>initial_delay := to_u64 initial, interval_delay := to_u64 interval\<rparr>;
          s = updk (set_body i (B_Timer e)) s
      in if initial = 0 then Timer_Signal env i e 0 s
         else ScheduleEvent (nsToCycles_s64 initial) timer_event (callback_id e) None False s)"

definition TimerCallback :: "hle_env \<Rightarrow> u64 \<Rightarrow> int \<Rightarrow> sys \<Rightarrow> sys option" where
  "TimerCallback env cid cycles_late s =
     do {
       i \<leftarrow> timer_callback_table (world s) cid;
       case bodies (world s) i of B_Timer e \<Rightarrow> Timer_Signal env i e cycles_late s | _ \<Rightarrow> None
     }"

text \<open>The callbacks the kernel registers with the event scheduler.\<close>

definition event_callback :: "hle_env \<Rightarrow> string \<Rightarrow> u64 \<Rightarrow> int \<Rightarrow> sys \<Rightarrow> sys option" where
  "event_callback env ty ud cycles_late s =
     (if ty = timer_event then TimerCallback env ud cycles_late s
      else case find (\<lambda>c. ty = wakeup_event c) [0..<num_cores (world s)] of
             Some c \<Rightarrow> onk (ThreadWakeupCallback env c ud) s
           | None \<Rightarrow> Some s)"

definition kernel_callbacks :: "hle_env \<Rightarrow> Kernel callbacks" where
  "kernel_callbacks env ty ud cycles_late s =
     (case event_callback env ty ud cycles_late s of
        Some s' \<Rightarrow> s'
      | None \<Rightarrow> updk (\<lambda>k. k\<lparr>crashed := True\<rparr>) s)"

end
