(* ===== verification/Kernel_Svc.thy ===== *)
theory Kernel_Svc
  imports Kernel_Sched
begin

text \<open>
  The supervisor calls of \<open>svc.cpp\<close> on threads, synchronization, timers, address arbiters and handles.
  A call returns its result code and what it writes through its output pointer (\<open>None\<close>: nothing); a null
  pointer and a failed assertion are \<open>None\<close>. \<open>wrap_result\<close> and \<open>wrap_output\<close> are the register writes of
  \<open>svc_wrapper.h\<close>.
\<close>

unbundle bit_operations_syntax

section \<open>Handles\<close>

fun as_wait :: "Kernel \<Rightarrow> kobject \<Rightarrow> obj option" where
  "as_wait k (K_Thread t) = Some (Obj_Thread t)"
| "as_wait k (K_Sync i) = Some (Obj i)"
| "as_wait k _ = None"

fun as_thread :: "Kernel \<Rightarrow> kobject \<Rightarrow> tid option" where
  "as_thread k (K_Thread t) = Some t"
| "as_thread k _ = None"

fun as_mutex :: "Kernel \<Rightarrow> kobject \<Rightarrow> (nat \<times> Mutex) option" where
  "as_mutex k (K_Sync i) = (case bodies k i of B_Mutex m \<Rightarrow> Some (i, m) | _ \<Rightarrow> None)"
| "as_mutex k _ = None"

fun as_semaphore :: "Kernel \<Rightarrow> kobject \<Rightarrow> (nat \<times> Semaphore) option" where
  "as_semaphore k (K_Sync i) = (case bodies k i of B_Semaphore x \<Rightarrow> Some (i, x) | _ \<Rightarrow> None)"
| "as_semaphore k _ = None"

fun as_event :: "Kernel \<Rightarrow> kobject \<Rightarrow> (nat \<times> KEvent) option" where
  "as_event k (K_Sync i) = (case bodies k i of B_Event x \<Rightarrow> Some (i, x) | _ \<Rightarrow> None)"
| "as_event k _ = None"

fun as_timer :: "Kernel \<Rightarrow> kobject \<Rightarrow> (nat \<times> KTimer) option" where
  "as_timer k (K_Sync i) = (case bodies k i of B_Timer x \<Rightarrow> Some (i, x) | _ \<Rightarrow> None)"
| "as_timer k _ = None"

fun as_arbiter :: "Kernel \<Rightarrow> kobject \<Rightarrow> nat option" where
  "as_arbiter k (K_Arbiter a) = Some a"
| "as_arbiter k _ = None"

fun as_limit :: "Kernel \<Rightarrow> kobject \<Rightarrow> nat option" where
  "as_limit k (K_ResourceLimit r) = Some r"
| "as_limit k _ = None"

fun as_process :: "Kernel \<Rightarrow> kobject \<Rightarrow> pid option" where
  "as_process k (K_Process p) = Some p"
| "as_process k _ = None"

text \<open>\<open>GetCurrentProcess()->handle_table.Get<T>(handle)\<close>; the outer \<open>None\<close> is the missing process.\<close>

definition GetHandle :: "(Kernel \<Rightarrow> kobject \<Rightarrow> 'a option) \<Rightarrow> u32 \<Rightarrow> Kernel \<Rightarrow> 'a option option" where
  "GetHandle cast h k =
     map_option (\<lambda>p. Option.bind
         (GetGeneric (map_option K_Thread (GetCurrentThread k)) (Some (K_Process p)) (handle_table (processes k p)) h)
         (cast k))
       (running_process k)"

definition InvalidHandle :: ResultCode where "InvalidHandle = handle_code ResultInvalidHandle"

text \<open>\<open>handle_table.Create\<close> in the current process.\<close>

definition CreateHandle :: "kobject \<Rightarrow> Kernel \<Rightarrow> (ResultCode \<times> u32 option \<times> Kernel) option" where
  "CreateHandle ob k =
     map_option (\<lambda>p.
         case HandleTable_Create ob (handle_table (processes k p)) of
           Inl e \<Rightarrow> (handle_code e, None, k)
         | Inr (h, tab) \<Rightarrow> (ResultSuccess, Some h, k\<lparr>processes := (processes k)(p := (processes k p)\<lparr>handle_table := tab\<rparr>)\<rparr>))
       (running_process k)"

definition SVC_CloseHandle :: "u32 \<Rightarrow> Kernel \<Rightarrow> (ResultCode \<times> Kernel) option" where
  "SVC_CloseHandle h k =
     map_option (\<lambda>p.
         case HandleTable_Close h (handle_table (processes k p)) of
           Inl e \<Rightarrow> (handle_code e, k)
         | Inr tab \<Rightarrow> (ResultSuccess, k\<lparr>processes := (processes k)(p := (processes k p)\<lparr>handle_table := tab\<rparr>)\<rparr>))
       (running_process k)"

definition SVC_DuplicateHandle :: "u32 \<Rightarrow> Kernel \<Rightarrow> (ResultCode \<times> u32 option \<times> Kernel) option" where
  "SVC_DuplicateHandle h k =
     do {
       r \<leftarrow> GetHandle (\<lambda>_. Some) h k;
       case r of None \<Rightarrow> Some (InvalidHandle, None, k) | Some ob \<Rightarrow> CreateHandle ob k
     }"

section \<open>Registers\<close>

definition SetReg :: "nat \<Rightarrow> u32 \<Rightarrow> Kernel \<Rightarrow> Kernel" where
  "SetReg i v k =
     k\<lparr>cpu_context := (cpu_context k)(current_cpu k :=
         (cpu_context k (current_cpu k))\<lparr>cpu_registers := (cpu_registers (cpu_context k (current_cpu k)))(i := v)\<rparr>)\<rparr>"

definition wrap_result :: "(ResultCode \<times> sys) option \<Rightarrow> sys option" where
  "wrap_result r = map_option (\<lambda>(code, s). updk (SetReg 0 code) s) r"

text \<open>\<open>garbage\<close> is what the uninitialised output variable of the wrapper happens to hold.\<close>

definition wrap_output :: "u32 \<Rightarrow> (ResultCode \<times> u32 option \<times> sys) option \<Rightarrow> sys option" where
  "wrap_output garbage r =
     map_option (\<lambda>(code, out, s). updk (\<lambda>k. SetReg 1 (case out of Some v \<Rightarrow> v | None \<Rightarrow> garbage) (SetReg 0 code k)) s) r"

section \<open>Waiting\<close>

text \<open>What the waiting calls share once the thread has to be suspended.\<close>

definition suspend :: "tid \<Rightarrow> bool \<Rightarrow> int \<Rightarrow> sys \<Rightarrow> sys option" where
  "suspend t do_output nano_seconds s =
     do {
       s \<leftarrow> WakeAfterDelay t nano_seconds False s;
       Some (updk (\<lambda>k. PrepareReschedule
         (upd_thread t (\<lambda>th. th\<lparr>wakeup_callback := Some (SVC_SyncCallback do_output)\<rparr>) k)) s)
     }"

definition WaitSynchronization1 :: "u32 \<Rightarrow> int \<Rightarrow> sys \<Rightarrow> (ResultCode \<times> sys) option" where
  "WaitSynchronization1 h nano_seconds s =
     do {
       r \<leftarrow> GetHandle as_wait h (world s);
       case r of
         None \<Rightarrow> Some (InvalidHandle, s)
       | Some ob \<Rightarrow>
           do {
             t \<leftarrow> GetCurrentThread (world s);
             if ShouldWait (world s) ob t then
               (if nano_seconds = 0 then Some (ResultTimeout, s)
                else do {
                  let s = updk (upd_thread t (\<lambda>th. th\<lparr>wait_objects := [ob]\<rparr>)) s;
                  let s = updk (AddWaitingThread ob t) s;
                  let s = updk (upd_thread t (\<lambda>th. th\<lparr>status := WaitSynchAny\<rparr>)) s;
                  s \<leftarrow> suspend t False nano_seconds s;
                  Some (ResultTimeout, s)
                })
             else do { s \<leftarrow> onk (Acquire ob t) s; Some (ResultSuccess, s) }
           }
     }"

text \<open>The handles in memory, read until one is invalid (\<open>Inl\<close>); \<open>n\<close> handles remain.\<close>

fun read_handles :: "nat \<Rightarrow> u32 \<Rightarrow> Kernel \<Rightarrow> ((ResultCode + obj list) \<times> Kernel) option" where
  "read_handles 0 address k = Some (Inr [], k)"
| "read_handles (Suc n) address k =
     do {
       (bs, m) \<leftarrow> Read 4 address (current_page_table (kmem k)) (kmem k);
       let k = k\<lparr>kmem := m\<rparr>;
       r \<leftarrow> GetHandle as_wait (ucast (decode_le bs)) k;
       case r of
         None \<Rightarrow> Some (Inl InvalidHandle, k)
       | Some ob \<Rightarrow>
           do {
             (rest, k) \<leftarrow> read_handles n (address + 4) k;
             Some (map_sum id (Cons ob) rest, k)
           }
     }"

definition wait_on :: "tid \<Rightarrow> ThreadStatus \<Rightarrow> obj list \<Rightarrow> Kernel \<Rightarrow> Kernel" where
  "wait_on t st obs k =
     upd_thread t (\<lambda>th. th\<lparr>wait_objects := obs\<rparr>)
       (fold (\<lambda>ob. AddWaitingThread ob t) obs (upd_thread t (\<lambda>th. th\<lparr>status := st\<rparr>) k))"

definition find_index :: "('a \<Rightarrow> bool) \<Rightarrow> 'a list \<Rightarrow> nat option" where
  "find_index P xs = (let n = length (takeWhile (\<lambda>x. \<not> P x) xs) in if n < length xs then Some n else None)"

definition wait_objects_call ::
    "tid \<Rightarrow> obj list \<Rightarrow> bool \<Rightarrow> int \<Rightarrow> sys \<Rightarrow> (ResultCode \<times> u32 option \<times> sys) option" where
  "wait_objects_call t obs wait_all nano_seconds s =
     (if wait_all then
        if list_all (\<lambda>ob. \<not> ShouldWait (world s) ob t) obs
        then do { s \<leftarrow> onk (acquire_all obs t) s; Some (ResultSuccess, None, s) }
        else if nano_seconds = 0 then Some (ResultTimeout, None, s)
        else do {
          s \<leftarrow> suspend t False nano_seconds (updk (wait_on t WaitSynchAll obs) s);
          Some (ResultTimeout, Some (-1), s)
        }
      else
        case find_index (\<lambda>ob. \<not> ShouldWait (world s) ob t) obs of
          Some i \<Rightarrow> do { s \<leftarrow> onk (Acquire (obs ! i) t) s; Some (ResultSuccess, Some (of_nat i), s) }
        | None \<Rightarrow>
            if nano_seconds = 0 then Some (ResultTimeout, None, s)
            else do {
              s \<leftarrow> suspend t True nano_seconds (updk (wait_on t WaitSynchAny obs) s);
              Some (ResultTimeout, Some (-1), s)
            })"

definition WaitSynchronizationN ::
    "u32 \<Rightarrow> int \<Rightarrow> bool \<Rightarrow> int \<Rightarrow> sys \<Rightarrow> (ResultCode \<times> u32 option \<times> sys) option" where
  "WaitSynchronizationN handles_address handle_count wait_all nano_seconds s =
     do {
       t \<leftarrow> GetCurrentThread (world s);
       p \<leftarrow> running_process (world s);
       if \<not> IsValidVirtualAddress p handles_address (kmem (world s)) then Some (ResultInvalidPointer, None, s)
       else if handle_count < 0 then Some (ResultOutOfRange, None, s)
       else do {
         (r, k) \<leftarrow> read_handles (nat handle_count) handles_address (world s);
         let s = s\<lparr>world := k\<rparr>;
         case r of
           Inl code \<Rightarrow> Some (code, None, s)
         | Inr obs \<Rightarrow> wait_objects_call t obs wait_all nano_seconds s
       }
     }"

definition SleepThread :: "int \<Rightarrow> sys \<Rightarrow> sys option" where
  "SleepThread nanoseconds s =
     (let c = current_cpu (world s)
      in do {
           have_ready \<leftarrow> (if nanoseconds = 0 then HaveReadyThreads c (world s) else Some True);
           if nanoseconds = 0 \<and> \<not> have_ready then Some s
           else do {
             s \<leftarrow> onk (WaitCurrentThread_Sleep c) s;
             t \<leftarrow> GetCurrentThread (world s);
             s \<leftarrow> WakeAfterDelay t nanoseconds False s;
             Some (updk PrepareReschedule s)
           }
         })"

section \<open>Signalling and releasing\<close>

definition SVC_ReleaseMutex :: "hle_env \<Rightarrow> u32 \<Rightarrow> Kernel \<Rightarrow> (ResultCode \<times> Kernel) option" where
  "SVC_ReleaseMutex env h k =
     do {
       r \<leftarrow> GetHandle as_mutex h k;
       case r of
         None \<Rightarrow> Some (InvalidHandle, k)
       | Some (i, m) \<Rightarrow> do { t \<leftarrow> GetCurrentThread k; Mutex_Release env i m t k }
     }"

definition SVC_ReleaseSemaphore :: "hle_env \<Rightarrow> u32 \<Rightarrow> int \<Rightarrow> Kernel \<Rightarrow> (ResultCode \<times> int option \<times> Kernel) option" where
  "SVC_ReleaseSemaphore env h release_count k =
     do {
       r \<leftarrow> GetHandle as_semaphore h k;
       case r of
         None \<Rightarrow> Some (InvalidHandle, None, k)
       | Some (i, x) \<Rightarrow> Semaphore_Release env i x release_count k
     }"

definition SVC_SignalEvent :: "hle_env \<Rightarrow> u32 \<Rightarrow> Kernel \<Rightarrow> (ResultCode \<times> Kernel) option" where
  "SVC_SignalEvent env h k =
     do {
       r \<leftarrow> GetHandle as_event h k;
       case r of
         None \<Rightarrow> Some (InvalidHandle, k)
       | Some (i, e) \<Rightarrow> map_option (Pair ResultSuccess) (Event_Signal env i e k)
     }"

definition SVC_ClearEvent :: "u32 \<Rightarrow> Kernel \<Rightarrow> (ResultCode \<times> Kernel) option" where
  "SVC_ClearEvent h k =
     do {
       r \<leftarrow> GetHandle as_event h k;
       case r of
         None \<Rightarrow> Some (InvalidHandle, k)
       | Some (i, e) \<Rightarrow> Some (ResultSuccess, Event_Clear i e k)
     }"

definition SVC_ClearTimer :: "u32 \<Rightarrow> Kernel \<Rightarrow> (ResultCode \<times> Kernel) option" where
  "SVC_ClearTimer h k =
     do {
       r \<leftarrow> GetHandle as_timer h k;
       case r of
         None \<Rightarrow> Some (InvalidHandle, k)
       | Some (i, e) \<Rightarrow> Some (ResultSuccess, Timer_Clear i e k)
     }"

definition SVC_SetTimer :: "hle_env \<Rightarrow> u32 \<Rightarrow> int \<Rightarrow> int \<Rightarrow> sys \<Rightarrow> (ResultCode \<times> sys) option" where
  "SVC_SetTimer env h initial interval s =
     (if \<not> (initial \<ge> 0 \<and> interval \<ge> 0) then Some (ResultOutOfRangeKernel, s)
      else do {
        r \<leftarrow> GetHandle as_timer h (world s);
        case r of
          None \<Rightarrow> Some (InvalidHandle, s)
        | Some (i, e) \<Rightarrow> map_option (Pair ResultSuccess) (Timer_Set env i e initial interval s)
      })"

definition SVC_CancelTimer :: "u32 \<Rightarrow> sys \<Rightarrow> (ResultCode \<times> sys) option" where
  "SVC_CancelTimer h s =
     do {
       r \<leftarrow> GetHandle as_timer h (world s);
       case r of
         None \<Rightarrow> Some (InvalidHandle, s)
       | Some (i, e) \<Rightarrow> Some (ResultSuccess, Timer_Cancel e s)
     }"

section \<open>Address arbitration\<close>

datatype ArbitrationType =
  Arb_Signal | WaitIfLessThan | DecrementAndWaitIfLessThan | WaitIfLessThanWithTimeout
  | DecrementAndWaitIfLessThanWithTimeout

fun arbitration_type :: "nat \<Rightarrow> ArbitrationType option" where
  "arbitration_type n =
     (if n = 0 then Some Arb_Signal else if n = 1 then Some WaitIfLessThan
      else if n = 2 then Some DecrementAndWaitIfLessThan else if n = 3 then Some WaitIfLessThanWithTimeout
      else if n = 4 then Some DecrementAndWaitIfLessThanWithTimeout else None)"

definition read_s32 :: "u32 \<Rightarrow> Kernel \<Rightarrow> (int \<times> Kernel) option" where
  "read_s32 address k =
     map_option (\<lambda>(bs, m). (sint (ucast (decode_le bs) :: u32), k\<lparr>kmem := m\<rparr>))
       (Read 4 address (current_page_table (kmem k)) (kmem k))"

definition write_s32 :: "u32 \<Rightarrow> int \<Rightarrow> Kernel \<Rightarrow> Kernel option" where
  "write_s32 address v k =
     map_option (\<lambda>m. k\<lparr>kmem := m\<rparr>)
       (Write address (le_bytes 4 (ucast (word_of_int v :: u32))) (current_page_table (kmem k)) (kmem k))"

definition arb_signal :: "hle_env \<Rightarrow> nat \<Rightarrow> tid \<Rightarrow> u32 \<Rightarrow> int \<Rightarrow> sys \<Rightarrow> sys option" where
  "arb_signal env a t address value s =
     do {
       (num_threads, k) \<leftarrow> (if value < 0 then ResumeAllThreads a address (world s)
                            else resume_n (nat value) a address (world s));
       let s = s\<lparr>world := k\<rparr>;
       Some (if num_threads = 0 \<and> current_priority (threads k t) \<ge> 49
             then upd_timer (current_cpu k) (AddTicks (clock_scale env) 1614) s else s)
     }"

text \<open>The waiting types: with \<open>decrement\<close> the value in memory is lowered first, with \<open>timeout\<close> a wake-up is scheduled.\<close>

definition arb_wait :: "bool \<Rightarrow> bool \<Rightarrow> nat \<Rightarrow> tid \<Rightarrow> u32 \<Rightarrow> int \<Rightarrow> int \<Rightarrow> sys \<Rightarrow> sys option" where
  "arb_wait decrement timeout a t address value nanoseconds s =
     do {
       (memory_value, k) \<leftarrow> read_s32 address (world s);
       let s = s\<lparr>world := k\<rparr>;
       if memory_value < value then do {
         s \<leftarrow> (if decrement then onk (write_s32 address (memory_value - 1)) s else Some s);
         s \<leftarrow> (if timeout
               then WakeAfterDelay t nanoseconds False
                      (updk (upd_thread t (\<lambda>th. th\<lparr>wakeup_callback := Some (ArbiterCallback a)\<rparr>)) s)
               else Some s);
         Some (updk (WaitThread a t address) s)
       } else Some s
     }"

definition ArbitrateAddress ::
    "hle_env \<Rightarrow> nat \<Rightarrow> tid \<Rightarrow> ArbitrationType option \<Rightarrow> u32 \<Rightarrow> int \<Rightarrow> int \<Rightarrow> sys \<Rightarrow> (ResultCode \<times> sys) option" where
  "ArbitrateAddress env a t ty address value nanoseconds s =
     (case ty of
        Some Arb_Signal \<Rightarrow> map_option (Pair ResultSuccess) (arb_signal env a t address value s)
      | Some WaitIfLessThan \<Rightarrow> map_option (Pair ResultSuccess) (arb_wait False False a t address value nanoseconds s)
      | Some WaitIfLessThanWithTimeout \<Rightarrow>
          map_option (Pair ResultTimeout) (arb_wait False True a t address value nanoseconds s)
      | Some DecrementAndWaitIfLessThan \<Rightarrow>
          map_option (Pair ResultSuccess) (arb_wait True False a t address value nanoseconds s)
      | Some DecrementAndWaitIfLessThanWithTimeout \<Rightarrow>
          map_option (Pair ResultTimeout) (arb_wait True True a t address value nanoseconds s)
      | None \<Rightarrow> Some (ResultInvalidEnumValueFnd, s))"

text \<open>The nanoseconds pass through an unsigned parameter and back.\<close>

definition SVC_ArbitrateAddress ::
    "hle_env \<Rightarrow> u32 \<Rightarrow> u32 \<Rightarrow> u32 \<Rightarrow> u32 \<Rightarrow> int \<Rightarrow> sys \<Rightarrow> (ResultCode \<times> sys) option" where
  "SVC_ArbitrateAddress env h address ty value nanoseconds s =
     do {
       r \<leftarrow> GetHandle as_arbiter h (world s);
       case r of
         None \<Rightarrow> Some (InvalidHandle, s)
       | Some a \<Rightarrow>
           do {
             t \<leftarrow> GetCurrentThread (world s);
             (code, s) \<leftarrow> ArbitrateAddress env a t (arbitration_type (unat ty)) address (sint value)
                            (to_s64 (to_u64 nanoseconds)) s;
             Some (code, updk PrepareReschedule s)
           }
     }"

section \<open>Creating objects and threads\<close>

text \<open>A reservation in the resource limit of the current process; it is always granted.\<close>

definition reserve :: "ResourceLimitType \<Rightarrow> Kernel \<Rightarrow> (bool \<times> Kernel) option" where
  "reserve ty k =
     map_option (\<lambda>p. let rl = resource_limit (processes k p); (ok, l) = Reserve ty 1 (limits k rl)
                      in (ok, k\<lparr>limits := (limits k)(rl := l)\<rparr>))
       (running_process k)"

fun out_of :: "ResourceLimitType \<Rightarrow> ResultCode" where
  "out_of RL_Thread = make_result 12 6 3 25"
| "out_of RL_Mutex = make_result 13 6 3 25"
| "out_of RL_Semaphore = make_result 14 6 3 25"
| "out_of RL_Event = make_result 15 6 3 25"
| "out_of RL_Timer = make_result 16 6 3 25"
| "out_of RL_AddressArbiter = make_result 51 6 3 25"
| "out_of _ = ResultSuccess"

definition create_with ::
    "ResourceLimitType \<Rightarrow> (Kernel \<Rightarrow> ((ResultCode + kobject) \<times> Kernel) option) \<Rightarrow> Kernel \<Rightarrow>
     (ResultCode \<times> u32 option \<times> Kernel) option" where
  "create_with ty create k =
     do {
       (ok, k) \<leftarrow> reserve ty k;
       if \<not> ok then Some (out_of ty, None, k)
       else do {
         (r, k) \<leftarrow> create k;
         case r of Inl code \<Rightarrow> Some (code, None, k) | Inr ob \<Rightarrow> CreateHandle ob k
       }
     }"

definition SVC_CreateMutex :: "u32 \<Rightarrow> Kernel \<Rightarrow> (ResultCode \<times> u32 option \<times> Kernel) option" where
  "SVC_CreateMutex initial_locked =
     create_with RL_Mutex (\<lambda>k. map_option (\<lambda>(i, k). (Inr (K_Sync i), k)) (CreateMutex (initial_locked \<noteq> 0) k))"

definition SVC_CreateSemaphore :: "int \<Rightarrow> int \<Rightarrow> Kernel \<Rightarrow> (ResultCode \<times> u32 option \<times> Kernel) option" where
  "SVC_CreateSemaphore initial_count maximum =
     create_with RL_Semaphore (\<lambda>k.
       case CreateSemaphore initial_count maximum k of
         Inl code \<Rightarrow> Some (Inl code, k)
       | Inr (i, k) \<Rightarrow> Some (Inr (K_Sync i), k))"

definition SVC_CreateEvent :: "ResetType \<Rightarrow> Kernel \<Rightarrow> (ResultCode \<times> u32 option \<times> Kernel) option" where
  "SVC_CreateEvent reset_type =
     create_with RL_Event (\<lambda>k. let (i, k) = CreateEvent reset_type k in Some (Inr (K_Sync i), k))"

definition SVC_CreateTimer :: "ResetType \<Rightarrow> Kernel \<Rightarrow> (ResultCode \<times> u32 option \<times> Kernel) option" where
  "SVC_CreateTimer reset_type =
     create_with RL_Timer (\<lambda>k. let (i, k) = CreateTimer reset_type k in Some (Inr (K_Sync i), k))"

definition SVC_CreateAddressArbiter :: "Kernel \<Rightarrow> (ResultCode \<times> u32 option \<times> Kernel) option" where
  "SVC_CreateAddressArbiter =
     create_with RL_AddressArbiter (\<lambda>k. let (a, k) = CreateAddressArbiter k in Some (Inr (K_Arbiter a), k))"

text \<open>The core a thread is created on; \<open>None\<close> is the error of an unknown processor.\<close>

definition target_core :: "int \<Rightarrow> int \<Rightarrow> int option" where
  "target_core ideal processor_id =
     (let c = (if processor_id = -2 then ideal else processor_id)
      in if c = -1 then Some 0 else if c = 0 \<or> c = 1 \<or> c = 2 \<or> c = 3 then Some c else None)"

definition SVC_CreateThread ::
    "hle_env \<Rightarrow> u32 \<Rightarrow> u32 \<Rightarrow> u32 \<Rightarrow> u32 \<Rightarrow> int \<Rightarrow> sys \<Rightarrow> (ResultCode \<times> u32 option \<times> sys) option" where
  "SVC_CreateThread env entry arg stack priority processor_id s =
     do {
       p \<leftarrow> running_process (world s);
       let pr = processes (world s) p;
       let max_priority = (word_of_int (GetLimitValue RL_Priority (limits (world s) (resource_limit pr))) :: u32);
       if \<not> unat priority \<le> ThreadPrioLowest then Some (ResultOutOfRange, None, s)
       else if \<not> (max_priority \<le> priority \<or> no_thread_restrictions pr) then Some (ResultNotAuthorized, None, s)
       else if processor_id = -2 \<and> ideal_processor pr = -2 then None
       else case target_core (ideal_processor pr) processor_id of
         None \<Rightarrow> Some (ResultOutOfRange, None, s)
       | Some c \<Rightarrow>
           do {
             (ok, k) \<leftarrow> reserve RL_Thread (world s);
             if \<not> ok then Some (out_of RL_Thread, None, s\<lparr>world := k\<rparr>)
             else do {
               (r, s) \<leftarrow> KernelSystem_CreateThread env entry (unat priority) arg c stack p True (s\<lparr>world := k\<rparr>);
               case r of
                 Inl code \<Rightarrow> Some (code, None, s)
               | Inr t \<Rightarrow>
                   do {
                     let s = updk (\<lambda>k. PrepareReschedule (upd_context t (\<lambda>c. c\<lparr>fpscr := 0x03C00000\<rparr>) k)) s;
                     (code, h, k) \<leftarrow> CreateHandle (K_Thread t) (world s);
                     Some (code, h, s\<lparr>world := k\<rparr>)
                   }
             }
           }
     }"

definition SVC_ExitThread :: "hle_env \<Rightarrow> sys \<Rightarrow> sys option" where
  "SVC_ExitThread env s =
     do { s \<leftarrow> ExitCurrentThread env (current_cpu (world s)) s; Some (updk PrepareReschedule s) }"

definition SVC_GetThreadPriority :: "u32 \<Rightarrow> Kernel \<Rightarrow> (ResultCode \<times> nat option) option" where
  "SVC_GetThreadPriority h k =
     do {
       r \<leftarrow> GetHandle as_thread h k;
       case r of
         None \<Rightarrow> Some (InvalidHandle, None)
       | Some t \<Rightarrow> Some (ResultSuccess, Some (current_priority (threads k t)))
     }"

definition SVC_GetThreadId :: "u32 \<Rightarrow> Kernel \<Rightarrow> (ResultCode \<times> tid option) option" where
  "SVC_GetThreadId h k =
     do {
       r \<leftarrow> GetHandle as_thread h k;
       case r of None \<Rightarrow> Some (InvalidHandle, None) | Some t \<Rightarrow> Some (ResultSuccess, Some t)
     }"

definition SVC_SetThreadPriority :: "u32 \<Rightarrow> u32 \<Rightarrow> Kernel \<Rightarrow> (ResultCode \<times> Kernel) option" where
  "SVC_SetThreadPriority h priority k =
     (if \<not> unat priority \<le> ThreadPrioLowest then Some (ResultOutOfRange, k)
      else do {
        r \<leftarrow> GetHandle as_thread h k;
        case r of
          None \<Rightarrow> Some (InvalidHandle, k)
        | Some t \<Rightarrow>
            do {
              p \<leftarrow> running_process k;
              if \<not> (word_of_int (GetLimitValue RL_Priority (limits k (resource_limit (processes k p)))) :: u32) \<le> priority
              then Some (ResultNotAuthorized, k)
              else do {
                k \<leftarrow> SetPriority t (unat priority) k;
                let k = UpdatePriority t k;
                let k = fold Mutex_UpdatePriority (pending_mutexes (threads k t)) k;
                Some (ResultSuccess, PrepareReschedule k)
              }
            }
      })"

text \<open>
  \<open>GetResourceLimitCurrentValues\<close> and \<open>GetResourceLimitLimitValues\<close>; the names are numbers from guest
  memory. Only the second one tests that the number is a resource; for the first one a larger number
  is an access outside the array, \<open>None\<close>.
\<close>

definition limit_type :: "u32 \<Rightarrow> ResourceLimitType option" where
  "limit_type n =
     (let types = [RL_Priority, RL_Commit, RL_Thread, RL_Event, RL_Mutex, RL_Semaphore, RL_Timer, RL_SharedMemory,
                   RL_AddressArbiter, RL_CpuTime]
      in if unat n < length types then Some (types ! unat n) else None)"

fun limit_values ::
    "bool \<Rightarrow> (ResourceLimitType \<Rightarrow> int) \<Rightarrow> nat \<Rightarrow> u32 \<Rightarrow> u32 \<Rightarrow> Kernel \<Rightarrow> (ResultCode \<times> Kernel) option" where
  "limit_values checked get 0 values names k = Some (ResultSuccess, k)"
| "limit_values checked get (Suc n) values names k =
     do {
       (bs, m) \<leftarrow> Read 4 names (current_page_table (kmem k)) (kmem k);
       let k = k\<lparr>kmem := m\<rparr>;
       case limit_type (ucast (decode_le bs)) of
         None \<Rightarrow> if checked then Some (ResultInvalidEnumValue, k) else None
       | Some ty \<Rightarrow>
           do {
             m \<leftarrow> Write values (le_bytes 8 (word_of_int (get ty))) (current_page_table (kmem k)) (kmem k);
             limit_values checked get n (values + 8) (names + 4) (k\<lparr>kmem := m\<rparr>)
           }
     }"

definition SVC_GetResourceLimitCurrentValues :: "u32 \<Rightarrow> u32 \<Rightarrow> u32 \<Rightarrow> u32 \<Rightarrow> Kernel \<Rightarrow> (ResultCode \<times> Kernel) option" where
  "SVC_GetResourceLimitCurrentValues values h names name_count k =
     do {
       r \<leftarrow> GetHandle as_limit h k;
       case r of
         None \<Rightarrow> Some (InvalidHandle, k)
       | Some rl \<Rightarrow> limit_values False (\<lambda>ty. GetCurrentValue ty (limits k rl)) (unat name_count) values names k
     }"

definition SVC_GetResourceLimitLimitValues :: "u32 \<Rightarrow> u32 \<Rightarrow> u32 \<Rightarrow> u32 \<Rightarrow> Kernel \<Rightarrow> (ResultCode \<times> Kernel) option" where
  "SVC_GetResourceLimitLimitValues values h names name_count k =
     do {
       r \<leftarrow> GetHandle as_limit h k;
       case r of
         None \<Rightarrow> Some (InvalidHandle, k)
       | Some rl \<Rightarrow> limit_values True (\<lambda>ty. GetLimitValue ty (limits k rl)) (unat name_count) values names k
     }"

definition SVC_GetResourceLimit :: "u32 \<Rightarrow> Kernel \<Rightarrow> (ResultCode \<times> u32 option \<times> Kernel) option" where
  "SVC_GetResourceLimit process_handle k =
     do {
       r \<leftarrow> GetHandle as_process process_handle k;
       case r of
         None \<Rightarrow> Some (InvalidHandle, None, k)
       | Some p \<Rightarrow> CreateHandle (K_ResourceLimit (resource_limit (processes k p))) k
     }"

end
