(* ===== verification/Kernel_Inv.thy ===== *)
theory Kernel_Inv
  imports Kernel_Svc
begin

text \<open>
  The invariant of the kernel. Priorities and ready queues change in almost every operation, through the
  inheritance of priorities, while the relation between threads and the objects they wait for or hold does
  not depend on them: \<open>view\<close> forgets them, the operations are described on views, and the
  invariant is the conjunction of \<open>queue_ok\<close>, on priorities and queues, and of \<open>relation_ok\<close>, on views.
\<close>

section \<open>Views\<close>

fun erase_body :: "body \<Rightarrow> body" where
  "erase_body (B_Mutex m) = B_Mutex (m\<lparr>mtx_priority := 0\<rparr>)"
| "erase_body b = b"

definition view :: "Kernel \<Rightarrow> Kernel" where
  "view k = k\<lparr>threads := \<lambda>t. (threads k t)\<lparr>current_priority := 0\<rparr>, bodies := \<lambda>i. erase_body (bodies k i),
     managers := \<lambda>c. (managers k c)\<lparr>ready_queue := tql_new\<rparr>, saved_context := \<lambda>_. empty_context,
     cpu_context := \<lambda>_. empty_context, kmem := undefined, reschedule_pending := False\<rparr>"

lemmas kernel_upd_defs = upd_thread_def upd_manager_def upd_queue_def set_body_def upd_context_def PrepareReschedule_def

lemma view_PrepareReschedule [simp]: "view (PrepareReschedule k) = view k"
  by (simp add: view_def PrepareReschedule_def)

lemma view_upd_queue [simp]: "view (upd_queue c f k) = view k"
  by (simp add: view_def upd_queue_def upd_manager_def fun_eq_iff)

lemma view_upd_context [simp]: "view (upd_context t f k) = view k"
  by (simp add: view_def upd_context_def)

lemma view_context_memory [simp]: "view (k\<lparr>saved_context := c, kmem := m\<rparr>) = view k"
  by (simp add: view_def)

lemma view_set_body [simp]: "view (set_body i b k) = set_body i (erase_body b) (view k)"
  by (simp add: view_def set_body_def fun_eq_iff)

lemma view_upd_thread:
  "(\<And>th. (f th)\<lparr>current_priority := 0\<rparr> = g (th\<lparr>current_priority := 0\<rparr>)) \<Longrightarrow> view (upd_thread t f k) = upd_thread t g (view k)"
  by (simp add: view_def upd_thread_def fun_eq_iff)

lemma view_upd_priority [simp]: "view (upd_thread t (\<lambda>th. th\<lparr>current_priority := p\<rparr>) k) = view k"
  by (simp add: view_def upd_thread_def fun_eq_iff)

lemma view_BoostPriority [simp]: "view (BoostPriority t p k) = view k"
  by (simp add: BoostPriority_def Let_def)

lemma view_UpdatePriority [simp]: "view (UpdatePriority t k) = view k"
  by (simp add: UpdatePriority_def)

lemma view_set_mutex_priority:
  "bodies k i = B_Mutex m \<Longrightarrow> view (set_body i (B_Mutex (m\<lparr>mtx_priority := p\<rparr>)) k) = view k"
  by (simp add: view_def set_body_def fun_eq_iff)

lemma view_Mutex_UpdatePriority [simp]: "view (Mutex_UpdatePriority i k) = view k"
proof (cases "\<exists>m. bodies k i = B_Mutex m")
  case True
  then obtain m where m: "bodies k i = B_Mutex m" by blast
  then show ?thesis
    by (simp add: Mutex_UpdatePriority_def mutex_of_def Let_def view_set_mutex_priority del: view_set_body split: option.splits)
next
  case False
  then have "holding_thread (mutex_of k i) = None" by (simp add: mutex_of_def split: body.splits)
  then show ?thesis by (simp add: Mutex_UpdatePriority_def Let_def)
qed

lemma bodies_view [simp]: "bodies (view k) i = erase_body (bodies k i)"
  by (simp add: view_def)

lemma threads_view [simp]: "threads (view k) t = (threads k t)\<lparr>current_priority := 0\<rparr>"
  by (simp add: view_def)

lemma kernel_view [simp]:
  "waiting_threads (view k) = waiting_threads k" "arbiters (view k) = arbiters k" "num_cores (view k) = num_cores k"
  "next_thread_id (view k) = next_thread_id k" "current_thread (managers (view k) c) = current_thread (managers k c)"
  "current_cpu (view k) = current_cpu k" "wakeup_callback_table (managers (view k) c) = wakeup_callback_table (managers k c)"
  "next_object (view k) = next_object k" "processes (view k) = processes k" "running_process (view k) = running_process k"
  by (simp_all add: view_def)

lemma is_mutex_view [simp]: "is_mutex (view k) i = is_mutex k i"
  by (simp add: is_mutex_def split: body.split)

lemma ShouldWait_view [simp]: "ShouldWait (view k) ob t = ShouldWait k ob t"
  by (cases ob) (simp_all split: body.split)

lemma erase_body_same [simp]: "erase_body (erase_body b) = erase_body b"
  by (cases b) simp_all

text \<open>The fields an operation leaves alone are those of its view.\<close>

lemma same_view:
  assumes "view k' = view k"
  shows "waiting_threads k' = waiting_threads k" "arbiters k' = arbiters k" "num_cores k' = num_cores k"
    "next_thread_id k' = next_thread_id k" "status (threads k' t) = status (threads k t)"
    "wait_objects (threads k' t) = wait_objects (threads k t)" "held_mutexes (threads k' t) = held_mutexes (threads k t)"
    "pending_mutexes (threads k' t) = pending_mutexes (threads k t)" "core_id (threads k' t) = core_id (threads k t)"
    "wakeup_callback (threads k' t) = wakeup_callback (threads k t)" "nominal_priority (threads k' t) = nominal_priority (threads k t)"
    "erase_body (bodies k' i) = erase_body (bodies k i)" "ShouldWait k' ob t = ShouldWait k ob t" "is_mutex k' i = is_mutex k i"
    "current_thread (managers k' c) = current_thread (managers k c)" "current_cpu k' = current_cpu k"
proof -
  have th: "\<And>f. f (threads (view k') t) = f (threads (view k) t)" using assms by simp
  show "status (threads k' t) = status (threads k t)" using th [of status] by simp
  show "wait_objects (threads k' t) = wait_objects (threads k t)" using th [of wait_objects] by simp
  show "held_mutexes (threads k' t) = held_mutexes (threads k t)" using th [of held_mutexes] by simp
  show "pending_mutexes (threads k' t) = pending_mutexes (threads k t)" using th [of pending_mutexes] by simp
  show "core_id (threads k' t) = core_id (threads k t)" using th [of core_id] by simp
  show "wakeup_callback (threads k' t) = wakeup_callback (threads k t)" using th [of wakeup_callback] by simp
  show "nominal_priority (threads k' t) = nominal_priority (threads k t)" using th [of nominal_priority] by simp
  show "erase_body (bodies k' i) = erase_body (bodies k i)" using assms by (metis bodies_view)
  show "ShouldWait k' ob t = ShouldWait k ob t" using assms by (metis ShouldWait_view)
  show "is_mutex k' i = is_mutex k i" using assms by (metis is_mutex_view)
qed (use assms in \<open>metis kernel_view\<close>)+

lemma mutex_erase: "m\<lparr>mtx_priority := 0\<rparr> = m'\<lparr>mtx_priority := 0\<rparr> \<Longrightarrow> holding_thread m = holding_thread m' \<and> lock_count m = lock_count m'"
  by (cases m; cases m') simp

lemma mutex_same_view:
  assumes "view k' = view k"
  shows "holding_thread (mutex_of k' i) = holding_thread (mutex_of k i)" "lock_count (mutex_of k' i) = lock_count (mutex_of k i)"
  using same_view(12) [OF assms, of i] by (auto simp: mutex_of_def dest: mutex_erase split: body.splits)

section \<open>Priorities and ready queues\<close>

definition live :: "Kernel \<Rightarrow> tid \<Rightarrow> bool" where
  "live k t \<longleftrightarrow> 1 \<le> t \<and> t < next_thread_id k"

abbreviation rqueue :: "Kernel \<Rightarrow> nat \<Rightarrow> tid ThreadQueueList" where
  "rqueue k c \<equiv> ready_queue (managers k c)"

text \<open>The ready threads of a core are in its queue, once, at their current priority; every thread's level is prepared.\<close>

definition core_queue_ok :: "Kernel \<Rightarrow> nat \<Rightarrow> bool" where
  "core_queue_ok k c \<longleftrightarrow>
     tql_ok 64 (rqueue k c) \<and> (\<forall>p. distinct (level_data (rqueue k c) p)) \<and>
     (\<forall>p t. t \<in> set (level_data (rqueue k c) p) \<longleftrightarrow>
        live k t \<and> status (threads k t) = Ready \<and> current_priority (threads k t) = p \<and> core_id (threads k t) = c)"

definition thread_queue_ok :: "Kernel \<Rightarrow> tid \<Rightarrow> bool" where
  "thread_queue_ok k t \<longleftrightarrow>
     core_id (threads k t) < num_cores k \<and> current_priority (threads k t) < 64 \<and> nominal_priority (threads k t) < 64 \<and>
     linked (rqueue k (core_id (threads k t))) (current_priority (threads k t))"

definition queue_ok :: "Kernel \<Rightarrow> bool" where
  "queue_ok k \<longleftrightarrow> (\<forall>c < num_cores k. core_queue_ok k c) \<and> (\<forall>t. live k t \<longrightarrow> thread_queue_ok k t)"

lemma queue_ok_cong:
  assumes "num_cores k' = num_cores k" "next_thread_id k' = next_thread_id k" "\<And>c. rqueue k' c = rqueue k c"
    and "\<And>t. status (threads k' t) = status (threads k t)" "\<And>t. current_priority (threads k' t) = current_priority (threads k t)"
    and "\<And>t. nominal_priority (threads k' t) = nominal_priority (threads k t)" "\<And>t. core_id (threads k' t) = core_id (threads k t)"
  shows "queue_ok k' = queue_ok k"
  using assms by (simp add: queue_ok_def core_queue_ok_def thread_queue_ok_def live_def)

lemma queue_ok_upd_thread:
  assumes "\<And>th. (status (f th), current_priority (f th), nominal_priority (f th), core_id (f th)) =
     (status th, current_priority th, nominal_priority th, core_id th)"
  shows "queue_ok (upd_thread t f k) = queue_ok k"
  by (rule queue_ok_cong) (use assms in \<open>simp_all add: upd_thread_def\<close>)

lemma queue_ok_neutral [simp]:
  "queue_ok (set_body i b k) = queue_ok k" "queue_ok (PrepareReschedule k) = queue_ok k"
  "queue_ok (upd_context t g k) = queue_ok k" "queue_ok (k\<lparr>saved_context := x, kmem := m\<rparr>) = queue_ok k"
  "queue_ok (k\<lparr>waiting_threads := w\<rparr>) = queue_ok k" "queue_ok (k\<lparr>arbiters := a\<rparr>) = queue_ok k"
  by (rule queue_ok_cong; simp add: kernel_upd_defs)+

text \<open>Changing the queue of one core and the status and priority of one of its threads.\<close>

lemma queue_ok_step:
  assumes q: "queue_ok k" and c: "c < num_cores k" and lv: "live k t" and core: "core_id (threads k t) = c"
    and q': "tql_ok 64 q'" "\<And>p. distinct (level_data q' p)" "\<And>r. linked (rqueue k c) r \<Longrightarrow> linked q' r"
    and mem: "\<And>p u. u \<noteq> t \<Longrightarrow> u \<in> set (level_data q' p) \<longleftrightarrow> u \<in> set (level_data (rqueue k c) p)"
    and memt: "\<And>p. t \<in> set (level_data q' p) \<longleftrightarrow> st = Ready \<and> p = pr"
    and pr: "pr < 64" "np < 64" "linked q' pr"
    and k': "num_cores k' = num_cores k" "next_thread_id k' = next_thread_id k" "\<And>d. rqueue k' d = (if d = c then q' else rqueue k d)"
    and th: "\<And>u. u \<noteq> t \<Longrightarrow> (status (threads k' u), current_priority (threads k' u), nominal_priority (threads k' u), core_id (threads k' u)) =
       (status (threads k u), current_priority (threads k u), nominal_priority (threads k u), core_id (threads k u))"
    and tht: "status (threads k' t) = st" "current_priority (threads k' t) = pr" "nominal_priority (threads k' t) = np" "core_id (threads k' t) = c"
  shows "queue_ok k'"
proof -
  have lv': "live k' u = live k u" for u using k'(2) by (simp add: live_def)
  have old: "core_queue_ok k d" if "d < num_cores k" for d using q that by (simp add: queue_ok_def)
  have "core_queue_ok k' d" if d: "d < num_cores k" for d
  proof (cases "d = c")
    case True
    have "u \<in> set (level_data q' p) \<longleftrightarrow>
        live k' u \<and> status (threads k' u) = Ready \<and> current_priority (threads k' u) = p \<and> core_id (threads k' u) = c" for p u
      using memt [of p] mem [of u p] old [OF c] th [of u] tht lv lv' [of u] by (cases "u = t") (auto simp: core_queue_ok_def)
    then show ?thesis using q' True k'(3) by (simp add: core_queue_ok_def)
  next
    case False
    have "u \<in> set (level_data (rqueue k d) p) \<longleftrightarrow>
        live k' u \<and> status (threads k' u) = Ready \<and> current_priority (threads k' u) = p \<and> core_id (threads k' u) = d" for p u
      using old [OF d] th [of u] tht(4) False core lv' [of u] by (cases "u = t") (auto simp: core_queue_ok_def)
    then show ?thesis using old [OF d] False k'(3) by (simp add: core_queue_ok_def)
  qed
  moreover have "thread_queue_ok k' u" if u: "live k' u" for u
  proof (cases "u = t")
    case True
    then show ?thesis using tht pr k'(1,3) c by (simp add: thread_queue_ok_def)
  next
    case False
    then have "thread_queue_ok k u" using q u lv' by (simp add: queue_ok_def)
    then show ?thesis using th [OF False] k'(1,3) q'(3) by (auto simp: thread_queue_ok_def)
  qed
  ultimately show ?thesis using k'(1) by (simp add: queue_ok_def)
qed

lemma rqueue_upd [simp]:
  "rqueue (upd_queue c f k) d = (if d = c then f (rqueue k c) else rqueue k d)"
  "rqueue (upd_thread t g k) d = rqueue k d"
  by (simp_all add: kernel_upd_defs)

lemma threads_upd [simp]:
  "threads (upd_queue c f k) = threads k" "threads (upd_thread t g k) u = (if u = t then g (threads k t) else threads k u)"
  "threads (set_body i b k) = threads k" "threads (PrepareReschedule k) = threads k" "threads (upd_context t h k) = threads k"
  by (simp_all add: kernel_upd_defs)

lemma kernel_upd [simp]:
  "num_cores (upd_queue c f k) = num_cores k" "num_cores (upd_thread t g k) = num_cores k"
  "next_thread_id (upd_queue c f k) = next_thread_id k" "next_thread_id (upd_thread t g k) = next_thread_id k"
  "waiting_threads (upd_queue c f k) = waiting_threads k" "waiting_threads (upd_thread t g k) = waiting_threads k"
  "waiting_threads (set_body i b k) = waiting_threads k" "waiting_threads (PrepareReschedule k) = waiting_threads k"
  "bodies (upd_queue c f k) = bodies k" "bodies (upd_thread t g k) = bodies k" "bodies (PrepareReschedule k) = bodies k"
  "bodies (set_body i b k) = (bodies k)(i := b)" "bodies (upd_context t h k) = bodies k"
  "num_cores (set_body i b k) = num_cores k" "next_thread_id (set_body i b k) = next_thread_id k"
  "num_cores (PrepareReschedule k) = num_cores k" "next_thread_id (PrepareReschedule k) = next_thread_id k"
  "arbiters (upd_queue c f k) = arbiters k" "arbiters (upd_thread t g k) = arbiters k" "arbiters (set_body i b k) = arbiters k"
  "arbiters (PrepareReschedule k) = arbiters k" "current_cpu (upd_thread t g k) = current_cpu k"
  by (simp_all add: kernel_upd_defs)

lemma live_upd [simp]:
  "live (upd_queue c f k) = live k" "live (upd_thread t g k) = live k" "live (set_body i b k) = live k"
  "live (PrepareReschedule k) = live k"
  by (simp_all add: live_def fun_eq_iff)

lemma queue_okD:
  assumes "queue_ok k" "live k t"
  shows "core_id (threads k t) < num_cores k" "current_priority (threads k t) < 64" "nominal_priority (threads k t) < 64"
    "linked (rqueue k (core_id (threads k t))) (current_priority (threads k t))" "tql_ok 64 (rqueue k (core_id (threads k t)))"
    "distinct (level_data (rqueue k (core_id (threads k t))) p)"
    "u \<in> set (level_data (rqueue k (core_id (threads k t))) p) \<longleftrightarrow>
      live k u \<and> status (threads k u) = Ready \<and> current_priority (threads k u) = p \<and> core_id (threads k u) = core_id (threads k t)"
  using assms by (auto simp: queue_ok_def thread_queue_ok_def core_queue_ok_def)

lemma queue_ok_reprioritize:
  assumes q: "queue_ok k" and lv: "live k t" and p: "p < 64" "np < 64"
    and f: "\<And>th. (status (f th), current_priority (f th), nominal_priority (f th), core_id (f th)) = (status th, p, np, core_id th)"
  shows "queue_ok (upd_thread t f
    (if status (threads k t) = Ready then upd_queue (core_id (threads k t)) (tql_move t (current_priority (threads k t)) p) k
     else upd_queue (core_id (threads k t)) (prepare p) k))"
proof -
  let ?c = "core_id (threads k t)" and ?q = "rqueue k (core_id (threads k t))" and ?old = "current_priority (threads k t)"
  define q' where "q' = (if status (threads k t) = Ready then tql_move t ?old p ?q else prepare p ?q)"
  note qd = queue_okD [OF q lv]
  note mv = rq.change_level_law [OF qd(5) p(1), of t ?old] and mk = rq.make_known_law [OF qd(5) p(1)]
  have ok: "tql_ok 64 q'" "linked q' = (linked ?q)(p := True)"
    using mv mk by (simp_all add: q'_def tql_move_def)
  have lev: "level_data q' r = (if status (threads k t) = Ready then
      (if r = p then removeAll t (level_data ?q r) @ [t] else removeAll t (level_data ?q r)) else level_data ?q r)" for r
  proof (cases "status (threads k t) = Ready")
    case True
    have "t \<notin> set (level_data ?q r)" if "r \<noteq> ?old" using qd(7) [of t r] that by blast
    then have rem: "removeAll t (level_data ?q r) = (if r = ?old then removeAll t (level_data ?q ?old) else level_data ?q r)"
      by simp
    show ?thesis unfolding rem using mv True by (auto simp: q'_def tql_move_def)
  qed (use mk in \<open>simp add: q'_def\<close>)
  show ?thesis
  proof (rule queue_ok_step [OF q qd(1) lv refl, of q' "status (threads k t)" p np])
    show "distinct (level_data q' r)" for r using qd(6) [of r] by (auto simp: lev distinct_removeAll)
    show "t \<in> set (level_data q' r) \<longleftrightarrow> status (threads k t) = Ready \<and> r = p" for r
      using qd(7) [of t r] by (simp add: lev)
    show "u \<in> set (level_data q' r) \<longleftrightarrow> u \<in> set (level_data ?q r)" if "u \<noteq> t" for r u using that by (simp add: lev)
  qed (use ok p f in \<open>auto simp: q'_def\<close>)
qed

lemma queue_ok_BoostPriority:
  assumes "queue_ok k" "live k t" "p < 64"
  shows "queue_ok (BoostPriority t p k)"
proof -
  let ?f = "\<lambda>th. th\<lparr>current_priority := p, nominal_priority := nominal_priority (threads k t)\<rparr>"
  have "queue_ok (upd_thread t ?f
    (if status (threads k t) = Ready then upd_queue (core_id (threads k t)) (tql_move t (current_priority (threads k t)) p) k
     else upd_queue (core_id (threads k t)) (prepare p) k))"
    using assms queue_okD(3) [OF assms(1,2)] by (intro queue_ok_reprioritize) auto
  moreover have "BoostPriority t p k = upd_thread t ?f
    (if status (threads k t) = Ready then upd_queue (core_id (threads k t)) (tql_move t (current_priority (threads k t)) p) k
     else upd_queue (core_id (threads k t)) (prepare p) k)"
    by (simp add: BoostPriority_def Let_def upd_thread_def fun_eq_iff)
  ultimately show ?thesis by simp
qed

lemma queue_ok_SetPriority:
  assumes "queue_ok k" "live k t" "SetPriority t p k = Some k'"
  shows "queue_ok k'"
proof -
  have "p < 64" and k': "k' = upd_thread t (\<lambda>th. th\<lparr>nominal_priority := p, current_priority := p\<rparr>)
    (if status (threads k t) = Ready then upd_queue (core_id (threads k t)) (tql_move t (current_priority (threads k t)) p) k
     else upd_queue (core_id (threads k t)) (prepare p) k)"
    using assms(3) by (auto simp: SetPriority_def ThreadPrioLowest_def Let_def split: if_splits)
  then show ?thesis using assms(1,2) unfolding k' by (intro queue_ok_reprioritize) auto
qed

lemma fold_best_le: "fold (\<lambda>i best. if f i < best then f i else best) xs (b :: nat) \<le> b"
proof (induction xs arbitrary: b)
  case (Cons x xs)
  then show ?case using Cons [of "f x"] Cons [of b] by (simp, meson le_less_trans less_imp_le)
qed simp

lemma queue_ok_UpdatePriority:
  assumes "queue_ok k" "live k t"
  shows "queue_ok (UpdatePriority t k)"
  unfolding UpdatePriority_def Let_def
  by (rule queue_ok_BoostPriority [OF assms]) (rule le_less_trans [OF fold_best_le queue_okD(3) [OF assms]])

lemma queue_ok_Mutex_UpdatePriority:
  assumes "queue_ok k" "\<And>h. holding_thread (mutex_of k i) = Some h \<Longrightarrow> live k h"
  shows "queue_ok (Mutex_UpdatePriority i k)"
  using assms by (auto simp: Mutex_UpdatePriority_def Let_def intro!: queue_ok_UpdatePriority split: option.splits)

text \<open>A thread becomes ready, or changes its status without having been ready.\<close>

lemma queue_ok_push:
  assumes q: "queue_ok k" and lv: "live k t" and st: "status (threads k t) \<noteq> Ready"
    and f: "\<And>th. (status (f th), current_priority (f th), nominal_priority (f th), core_id (f th)) =
       (Ready, current_priority th, nominal_priority th, core_id th)"
    and put: "put = push_back (current_priority (threads k t)) t \<or> put = push_front (current_priority (threads k t)) t"
  shows "queue_ok (upd_thread t f (upd_queue (core_id (threads k t)) put k))"
proof -
  let ?p = "current_priority (threads k t)" and ?q = "rqueue k (core_id (threads k t))"
  note qd = queue_okD [OF q lv]
  have law: "tql_ok 64 (put ?q)" "linked (put ?q) = linked ?q"
    "level_data (put ?q) = (level_data ?q)(?p := level_data ?q ?p @ [t]) \<or> level_data (put ?q) = (level_data ?q)(?p := t # level_data ?q ?p)"
    using put rq.put_back_law [OF qd(5,4,2), of t] rq.put_front_law [OF qd(5,4,2), of t] by auto
  have new: "t \<notin> set (level_data ?q r)" for r using qd(7) st by blast
  show ?thesis
  proof (rule queue_ok_step [OF q qd(1) lv refl, of "put ?q" Ready ?p "nominal_priority (threads k t)"])
    show "distinct (level_data (put ?q) r)" for r using law(3) qd(6) new by auto
    show "t \<in> set (level_data (put ?q) r) \<longleftrightarrow> Ready = Ready \<and> r = ?p" for r
      using law(3) new by (cases "r = ?p") auto
    show "u \<in> set (level_data (put ?q) r) \<longleftrightarrow> u \<in> set (level_data ?q r)" if "u \<noteq> t" for r u
      using law(3) that by (cases "r = ?p") auto
  qed (use law qd f in auto)
qed

lemma queue_ok_status:
  assumes q: "queue_ok k" and lv: "live k t" and st: "status (threads k t) \<noteq> Ready" "\<And>th. status (f th) \<noteq> Ready"
    and f: "\<And>th. (current_priority (f th), nominal_priority (f th), core_id (f th)) = (current_priority th, nominal_priority th, core_id th)"
  shows "queue_ok (upd_thread t f k)"
proof -
  let ?q = "rqueue k (core_id (threads k t))"
  note qd = queue_okD [OF q lv]
  show ?thesis
    by (rule queue_ok_step [OF q qd(1) lv refl, of ?q "status (f (threads k t))" "current_priority (threads k t)"
          "nominal_priority (threads k t)"]) (use qd f st in auto)
qed

text \<open>A ready thread leaves the queue, with a new status.\<close>

lemma queue_ok_take:
  assumes q: "queue_ok k" and lv: "live k t" and st: "\<And>th. status (f th) \<noteq> Ready"
    and f: "\<And>th. (current_priority (f th), nominal_priority (f th), core_id (f th)) = (current_priority th, nominal_priority th, core_id th)"
  shows "queue_ok (upd_thread t f (upd_queue (core_id (threads k t)) (tql_remove (current_priority (threads k t)) t) k))"
proof -
  let ?p = "current_priority (threads k t)" and ?q = "rqueue k (core_id (threads k t))"
  note qd = queue_okD [OF q lv]
  note law = rq.take_out_law [OF qd(5), of ?p t]
  show ?thesis
  proof (rule queue_ok_step [OF q qd(1) lv refl, of "tql_remove ?p t ?q" "status (f (threads k t))" ?p "nominal_priority (threads k t)"])
    show "distinct (level_data (tql_remove ?p t ?q) r)" for r using law qd(6) by (auto simp: distinct_removeAll)
    show "t \<in> set (level_data (tql_remove ?p t ?q) r) \<longleftrightarrow> status (f (threads k t)) = Ready \<and> r = ?p" for r
      using law st qd(7) [of t r] by auto
    show "u \<in> set (level_data (tql_remove ?p t ?q) r) \<longleftrightarrow> u \<in> set (level_data ?q r)" if "u \<noteq> t" for r u
      using law that by auto
  qed (use law qd f in auto)
qed

section \<open>Threads and the objects they wait for or hold\<close>

definition wait_ok :: "Kernel \<Rightarrow> bool" where
  "wait_ok k \<longleftrightarrow>
     (\<forall>ob t. t \<in> set (waiting_threads k ob) \<longleftrightarrow> ob \<in> set (wait_objects (threads k t))) \<and>
     (\<forall>ob. distinct (waiting_threads k ob)) \<and>
     (\<forall>t. wait_objects (threads k t) \<noteq> [] \<longrightarrow> live k t \<and> waits_for_objects (status (threads k t)))"

text \<open>
  A mutex is locked exactly while a thread holds it, and the thread knows it. A thread that stops keeps its
  list until all its mutexes are released.
\<close>

definition mutex_ok :: "Kernel \<Rightarrow> bool" where
  "mutex_ok k \<longleftrightarrow>
     (\<forall>t i. is_mutex k i \<and> holding_thread (mutex_of k i) = Some t \<longrightarrow> i \<in> set (held_mutexes (threads k t))) \<and>
     (\<forall>t i. i \<in> set (held_mutexes (threads k t)) \<and> status (threads k t) \<noteq> Dead \<longrightarrow>
        is_mutex k i \<and> holding_thread (mutex_of k i) = Some t) \<and>
     (\<forall>i. 0 \<le> lock_count (mutex_of k i) \<and> (0 < lock_count (mutex_of k i) \<longleftrightarrow> holding_thread (mutex_of k i) \<noteq> None)) \<and>
     (\<forall>t i. i \<in> set (pending_mutexes (threads k t)) \<longleftrightarrow> is_mutex k i \<and> Obj i \<in> set (wait_objects (threads k t)))"

definition holders_ok :: "Kernel \<Rightarrow> bool" where
  "holders_ok k \<longleftrightarrow> (\<forall>t. held_mutexes (threads k t) \<noteq> [] \<longrightarrow> live k t) \<and> (\<forall>t. distinct (held_mutexes (threads k t)))"

definition dead_ok :: "Kernel \<Rightarrow> bool" where
  "dead_ok k \<longleftrightarrow> (\<forall>t. status (threads k t) = Dead \<longrightarrow> held_mutexes (threads k t) = [])"

definition callback_ok :: "Kernel \<Rightarrow> bool" where
  "callback_ok k \<longleftrightarrow>
     (\<forall>t. status (threads k t) \<in> {Ready, Running} \<longrightarrow> wakeup_callback (threads k t) = None) \<and>
     (\<forall>t a. wakeup_callback (threads k t) = Some (ArbiterCallback a) \<longrightarrow> status (threads k t) \<in> {WaitArb, Dead})"

definition arb_ok :: "Kernel \<Rightarrow> bool" where
  "arb_ok k \<longleftrightarrow>
     (\<forall>a t. t \<in> set (arbiters k a) \<longrightarrow> live k t \<and> status (threads k t) = WaitArb) \<and>
     (\<forall>a. distinct (arbiters k a)) \<and>
     (\<forall>a b t. t \<in> set (arbiters k a) \<and> t \<in> set (arbiters k b) \<longrightarrow> a = b) \<and>
     (\<forall>a b t. wakeup_callback (threads k t) = Some (ArbiterCallback a) \<and> t \<in> set (arbiters k b) \<longrightarrow> a = b)"

definition current_ok :: "Kernel \<Rightarrow> bool" where
  "current_ok k \<longleftrightarrow>
     (\<forall>c t. current_thread (managers k c) = Some t \<longrightarrow> live k t \<and> core_id (threads k t) = c) \<and>
     (\<forall>t. live k t \<and> status (threads k t) = Running \<longrightarrow> current_thread (managers k (core_id (threads k t))) = Some t)"

text \<open>Numbers not yet given to an object or a thread are unused.\<close>

definition fresh_ok :: "Kernel \<Rightarrow> bool" where
  "fresh_ok k \<longleftrightarrow>
     (\<forall>i \<ge> next_object k. \<not> is_mutex k i \<and> waiting_threads k (Obj i) = []) \<and>
     (\<forall>a \<ge> next_arbiter k. arbiters k a = []) \<and>
     1 \<le> next_thread_id k \<and> (\<forall>t \<ge> next_thread_id k. waiting_threads k (Obj_Thread t) = [])"

lemmas relation_defs = wait_ok_def mutex_ok_def callback_ok_def arb_ok_def current_ok_def fresh_ok_def

definition relation_ok :: "Kernel \<Rightarrow> bool" where
  "relation_ok k \<longleftrightarrow> wait_ok k \<and> mutex_ok k \<and> callback_ok k \<and> arb_ok k \<and> current_ok k \<and> fresh_ok k"

definition kernel_ok :: "Kernel \<Rightarrow> bool" where
  "kernel_ok k \<longleftrightarrow> queue_ok k \<and> relation_ok k \<and> holders_ok k"

lemma live_view [simp]: "live (view k) = live k"
  by (simp add: live_def fun_eq_iff)

lemma mutex_of_view [simp]:
  "holding_thread (mutex_of (view k) i) = holding_thread (mutex_of k i)" "lock_count (mutex_of (view k) i) = lock_count (mutex_of k i)"
  by (simp_all add: mutex_of_def split: body.split)

lemma next_arbiter_view [simp]: "next_arbiter (view k) = next_arbiter k"
  by (simp add: view_def)

lemma view_ok [simp]:
  "wait_ok (view k) = wait_ok k" "mutex_ok (view k) = mutex_ok k" "callback_ok (view k) = callback_ok k"
  "arb_ok (view k) = arb_ok k" "current_ok (view k) = current_ok k" "fresh_ok (view k) = fresh_ok k"
  "holders_ok (view k) = holders_ok k" "dead_ok (view k) = dead_ok k"
  by (simp_all add: relation_defs holders_ok_def dead_ok_def)

lemma relation_ok_view [simp]: "relation_ok (view k) = relation_ok k"
  by (simp add: relation_ok_def)

lemma relation_ok_cong: "view k' = view k \<Longrightarrow> relation_ok k' = relation_ok k"
  by (metis relation_ok_view)

lemma holders_ok_cong: "view k' = view k \<Longrightarrow> holders_ok k' = holders_ok k"
  by (metis view_ok(7))

lemma live_cong: "view k' = view k \<Longrightarrow> live k' = live k"
  by (metis live_view)

lemma wait_okD:
  assumes "wait_ok k"
  shows "t \<in> set (waiting_threads k ob) \<longleftrightarrow> ob \<in> set (wait_objects (threads k t))" "distinct (waiting_threads k ob)"
    "ob \<in> set (wait_objects (threads k t)) \<Longrightarrow> live k t \<and> waits_for_objects (status (threads k t))"
  using assms by (simp_all add: wait_ok_def) (metis empty_iff list.set(1))

lemma mutex_okD:
  assumes "mutex_ok k"
  shows "i \<in> set (held_mutexes (threads k t)) \<Longrightarrow> status (threads k t) \<noteq> Dead \<Longrightarrow> is_mutex k i \<and> holding_thread (mutex_of k i) = Some t"
    "0 \<le> lock_count (mutex_of k i)" "0 < lock_count (mutex_of k i) \<longleftrightarrow> holding_thread (mutex_of k i) \<noteq> None"
    "i \<in> set (pending_mutexes (threads k t)) \<longleftrightarrow> is_mutex k i \<and> Obj i \<in> set (wait_objects (threads k t))"
    "is_mutex k i \<Longrightarrow> holding_thread (mutex_of k i) = Some t \<Longrightarrow> i \<in> set (held_mutexes (threads k t))"
  using assms unfolding mutex_ok_def by blast+

lemma arb_okD:
  assumes "arb_ok k"
  shows "t \<in> set (arbiters k a) \<Longrightarrow> live k t" "t \<in> set (arbiters k a) \<Longrightarrow> status (threads k t) = WaitArb" "distinct (arbiters k a)"
    "t \<in> set (arbiters k a) \<Longrightarrow> t \<in> set (arbiters k b) \<Longrightarrow> a = b"
    "wakeup_callback (threads k t) = Some (ArbiterCallback a) \<Longrightarrow> t \<in> set (arbiters k b) \<Longrightarrow> a = b"
  using assms unfolding arb_ok_def by blast+

lemma relation_okD:
  assumes "relation_ok k"
  shows "wait_ok k" "mutex_ok k" "callback_ok k" "arb_ok k" "current_ok k" "fresh_ok k"
  using assms by (simp_all add: relation_ok_def)

lemma holder_live:
  assumes "mutex_ok k" "holders_ok k" "holding_thread (mutex_of k i) = Some h"
  shows "live k h"
proof -
  have "is_mutex k i" using assms(3) by (auto simp: is_mutex_def mutex_of_def split: body.splits)
  then have "i \<in> set (held_mutexes (threads k h))" using mutex_okD(5) [OF assms(1)] assms(3) by blast
  then have "held_mutexes (threads k h) \<noteq> []" by auto
  then show ?thesis using assms(2) by (auto simp: holders_ok_def)
qed

section \<open>Leaving the waiting lists\<close>

definition removed :: "tid \<Rightarrow> obj list \<Rightarrow> Kernel \<Rightarrow> Kernel" where
  "removed t obs k =
     k\<lparr>waiting_threads := \<lambda>ob. if ob \<in> set obs then removeAll t (waiting_threads k ob) else waiting_threads k ob,
       threads := (threads k)(t := (threads k t)\<lparr>pending_mutexes :=
         filter (\<lambda>i. \<not> (is_mutex k i \<and> Obj i \<in> set obs)) (pending_mutexes (threads k t))\<rparr>)\<rparr>"

lemma removed_view: "view (removed t obs k) = removed t obs (view k)"
  unfolding removed_def is_mutex_view by (rule Kernel.equality) (simp_all add: view_def fun_eq_iff)

lemma is_mutex_upd [simp]:
  "is_mutex (upd_thread t f k) i = is_mutex k i" "is_mutex (upd_queue c g k) i = is_mutex k i"
  "is_mutex (remove_waiter ob t k) i = is_mutex k i" "is_mutex (add_waiter ob t k) i = is_mutex k i"
  "is_mutex (k\<lparr>waiting_threads := w\<rparr>) i = is_mutex k i" "is_mutex (k\<lparr>threads := x\<rparr>) i = is_mutex k i"
  by (simp_all add: is_mutex_def remove_waiter_def add_waiter_def)

lemma view_remove_pending [simp]:
  "view (upd_thread t (\<lambda>th. th\<lparr>pending_mutexes := f (pending_mutexes th)\<rparr>) k) =
   upd_thread t (\<lambda>th. th\<lparr>pending_mutexes := f (pending_mutexes th)\<rparr>) (view k)"
  by (rule view_upd_thread) simp

lemma view_RemoveWaitingThread:
  assumes "distinct (waiting_threads k ob)"
  shows "view (RemoveWaitingThread ob t k) = view (removed t [ob] k)"
proof (cases ob)
  case (Obj_Thread u)
  then show ?thesis
    using assms by (simp add: remove_waiter_def removed_def view_def fun_eq_iff distinct_remove1_removeAll)
next
  case (Obj i)
  have "RemoveWaitingThread ob t k = (if is_mutex k i then Mutex_UpdatePriority i (removed t [ob] k) else removed t [ob] k)"
  proof (cases "is_mutex k i")
    case True
    have "filter (\<lambda>j. \<not> (is_mutex k j \<and> j = i)) xs = flat_erase i xs" for xs
      using True by (auto simp: flat_erase_def removeAll_filter_not_eq intro: filter_cong)
    then have "upd_thread t (\<lambda>th. th\<lparr>pending_mutexes := flat_erase i (pending_mutexes th)\<rparr>) (remove_waiter ob t k) = removed t [ob] k"
      using assms Obj
      by (intro Kernel.equality) (simp_all add: removed_def remove_waiter_def upd_thread_def distinct_remove1_removeAll fun_eq_iff)
    then show ?thesis using True Obj by (simp add: Let_def)
  next
    case False
    then have "filter (\<lambda>j. is_mutex k j \<longrightarrow> j \<noteq> i) xs = xs" for xs by (induction xs) auto
    then have "remove_waiter ob t k = removed t [ob] k" using assms Obj
      by (intro Kernel.equality) (simp_all add: removed_def remove_waiter_def distinct_remove1_removeAll fun_eq_iff)
    then show ?thesis using False Obj by (simp add: Let_def)
  qed
  then show ?thesis by simp
qed

lemma removed_removed:
  "removed t obs (removed t obs' k) = removed t (obs' @ obs) k"
  by (rule Kernel.equality) (simp_all add: removed_def fun_eq_iff imp_conjR)

lemma removed_cong: "view k' = view k \<Longrightarrow> view (removed t obs k') = view (removed t obs k)"
  by (simp add: removed_view)

lemma view_fold_remove:
  "(\<And>ob. distinct (waiting_threads k ob)) \<Longrightarrow> view (fold (\<lambda>ob. RemoveWaitingThread ob t) obs k) = view (removed t obs k)"
proof (induction obs arbitrary: k)
  case Nil
  then show ?case by (simp add: removed_def view_def fun_eq_iff)
next
  case (Cons ob obs)
  let ?k = "RemoveWaitingThread ob t k"
  have v: "view ?k = view (removed t [ob] k)" using Cons.prems by (rule view_RemoveWaitingThread)
  have "distinct (waiting_threads ?k o')" for o'
    using same_view(1) [OF v] Cons.prems by (simp add: removed_def distinct_removeAll)
  then have "view (fold (\<lambda>ob. RemoveWaitingThread ob t) obs ?k) = view (removed t obs ?k)" by (rule Cons.IH)
  also have "\<dots> = view (removed t (ob # obs) k)" using removed_cong [OF v] by (simp add: removed_removed)
  finally show ?case by simp
qed

definition cleared :: "tid \<Rightarrow> Kernel \<Rightarrow> Kernel" where
  "cleared t k = upd_thread t (\<lambda>th. th\<lparr>wait_objects := []\<rparr>) (removed t (wait_objects (threads k t)) k)"

lemma view_clear_wait_objects:
  assumes "wait_ok k"
  shows "view (clear_wait_objects t k) = view (cleared t k)"
proof -
  have "view (fold (\<lambda>ob. RemoveWaitingThread ob t) obs k) = view (removed t obs k)" for obs
    by (rule view_fold_remove) (rule wait_okD(2) [OF assms])
  moreover have "view (upd_thread t (\<lambda>th. th\<lparr>wait_objects := []\<rparr>) k') = upd_thread t (\<lambda>th. th\<lparr>wait_objects := []\<rparr>) (view k')" for k'
    by (rule view_upd_thread) simp
  ultimately show ?thesis by (simp add: clear_wait_objects_def cleared_def)
qed

lemma threads_cleared:
  "threads (cleared t k) u =
     (if u = t then (threads k t)\<lparr>wait_objects := [], pending_mutexes :=
        filter (\<lambda>i. \<not> (is_mutex k i \<and> Obj i \<in> set (wait_objects (threads k t)))) (pending_mutexes (threads k t))\<rparr>
      else threads k u)"
  by (simp add: cleared_def removed_def upd_thread_def)

lemma cleared_fields [simp]:
  "waiting_threads (cleared t k) ob =
     (if ob \<in> set (wait_objects (threads k t)) then removeAll t (waiting_threads k ob) else waiting_threads k ob)"
  "bodies (cleared t k) = bodies k" "is_mutex (cleared t k) = is_mutex k" "mutex_of (cleared t k) = mutex_of k"
  "arbiters (cleared t k) = arbiters k" "managers (cleared t k) = managers k" "live (cleared t k) = live k"
  "next_object (cleared t k) = next_object k" "next_arbiter (cleared t k) = next_arbiter k"
  "next_thread_id (cleared t k) = next_thread_id k" "num_cores (cleared t k) = num_cores k"
  by (simp_all add: cleared_def removed_def upd_thread_def is_mutex_def mutex_of_def live_def fun_eq_iff)

lemma thread_cleared [simp]:
  "status (threads (cleared t k) u) = status (threads k u)" "wakeup_callback (threads (cleared t k) u) = wakeup_callback (threads k u)"
  "core_id (threads (cleared t k) u) = core_id (threads k u)" "held_mutexes (threads (cleared t k) u) = held_mutexes (threads k u)"
  "wait_objects (threads (cleared t k) u) = (if u = t then [] else wait_objects (threads k u))"
  by (simp_all add: threads_cleared)

lemma relation_ok_cleared:
  assumes "relation_ok k"
  shows "relation_ok (cleared t k)"
proof -
  note r = relation_okD [OF assms]
  have "wait_ok (cleared t k)"
    using r(1) unfolding wait_ok_def threads_cleared by (simp add: distinct_removeAll)
  moreover have "mutex_ok (cleared t k)"
    unfolding mutex_ok_def
    by (intro conjI allI)
      (auto simp: threads_cleared mutex_okD(4) [OF r(2)] mutex_okD(2,3) [OF r(2)] intro: mutex_okD(5) [OF r(2)] dest: mutex_okD(1) [OF r(2)])
  moreover have "callback_ok (cleared t k)" "arb_ok (cleared t k)" "current_ok (cleared t k)"
    using r(3-5) unfolding callback_ok_def arb_ok_def current_ok_def thread_cleared cleared_fields by blast+
  moreover have "fresh_ok (cleared t k)"
    using r(6) by (auto simp: fresh_ok_def)
  ultimately show ?thesis by (simp add: relation_ok_def)
qed

end
