(* ===== verification/Kernel_Wake.thy ===== *)
theory Kernel_Wake
  imports Kernel_Inv
begin

text \<open>
  Acquiring objects and waking threads keep the invariant of the kernel; waking all threads that wait for
  an object returns, and afterwards none of them could be woken.
\<close>

section \<open>Acquiring\<close>

fun acquired :: "obj \<Rightarrow> tid \<Rightarrow> Kernel \<Rightarrow> Kernel" where
  "acquired (Obj_Thread u) t k = k"
| "acquired (Obj i) t k =
     (case bodies k i of
        B_Semaphore x \<Rightarrow>
          if available_count x \<le> 0 then k else set_body i (B_Semaphore (x\<lparr>available_count := available_count x - 1\<rparr>)) k
      | B_Event e \<Rightarrow> if ev_reset e = OneShot then set_body i (B_Event (e\<lparr>ev_signaled := False\<rparr>)) k else k
      | B_Timer e \<Rightarrow> if tm_reset e = OneShot then set_body i (B_Timer (e\<lparr>tm_signaled := False\<rparr>)) k else k
      | B_Mutex m \<Rightarrow>
          if lock_count m = 0
          then set_body i (B_Mutex (m\<lparr>lock_count := 1, holding_thread := Some t\<rparr>))
                 (upd_thread t (\<lambda>th. th\<lparr>held_mutexes := flat_insert i (held_mutexes th)\<rparr>) k)
          else set_body i (B_Mutex (m\<lparr>lock_count := lock_count m + 1\<rparr>)) k)"

lemma view_upd_held [simp]:
  "view (upd_thread t (\<lambda>th. th\<lparr>held_mutexes := f (held_mutexes th)\<rparr>) k) =
   upd_thread t (\<lambda>th. th\<lparr>held_mutexes := f (held_mutexes th)\<rparr>) (view k)"
  by (rule view_upd_thread) simp

lemma mutex_of_simps [simp]:
  "mutex_of (set_body i b k) j = (if j = i then (case b of B_Mutex m \<Rightarrow> m | _ \<Rightarrow> \<lparr>lock_count = 0, mtx_priority = 0, holding_thread = None\<rparr>) else mutex_of k j)"
  "mutex_of (upd_thread t f k) j = mutex_of k j" "mutex_of (upd_queue c g k) j = mutex_of k j"
  "mutex_of (PrepareReschedule k) j = mutex_of k j" "mutex_of (upd_context t h k) j = mutex_of k j"
  "mutex_of (k\<lparr>waiting_threads := w\<rparr>) j = mutex_of k j" "mutex_of (k\<lparr>arbiters := a\<rparr>) j = mutex_of k j"
  by (simp_all add: mutex_of_def)

lemma is_mutex_set_body [simp]:
  "is_mutex (set_body i b k) j = (if j = i then (case b of B_Mutex _ \<Rightarrow> True | _ \<Rightarrow> False) else is_mutex k j)"
  "is_mutex (PrepareReschedule k) j = is_mutex k j" "is_mutex (upd_context t h k) j = is_mutex k j"
  "is_mutex (k\<lparr>arbiters := a\<rparr>) j = is_mutex k j"
  by (simp_all add: is_mutex_def)

lemma set_body_twice [simp]: "set_body i b (set_body i b' k) = set_body i b k"
  by (simp add: set_body_def)

lemma mutex_ofI: "bodies k i = B_Mutex m \<Longrightarrow> mutex_of k i = m \<and> is_mutex k i"
  by (simp add: mutex_of_def is_mutex_def)

lemma view_lock:
  "view k' = view k \<Longrightarrow> view (set_body i (B_Mutex ((mutex_of k' i)\<lparr>lock_count := n\<rparr>)) k') =
    view (set_body i (B_Mutex ((mutex_of k i)\<lparr>lock_count := n\<rparr>)) k)"
  using mutex_same_view [of k' k i] by (simp, metis (full_types) Mutex.cases Mutex.select_convs(1,3) Mutex.update_convs)

lemma view_Mutex_Acquire:
  assumes "bodies k i = B_Mutex m"
  shows "view (Mutex_Acquire i m t k) = view (acquired (Obj i) t k)"
proof (cases "lock_count m = 0")
  case True
  define k3 where "k3 = set_body i (B_Mutex (m\<lparr>mtx_priority := current_priority (threads k t), holding_thread := Some t\<rparr>))
    (upd_thread t (\<lambda>th. th\<lparr>held_mutexes := flat_insert i (held_mutexes th)\<rparr>) k)"
  define k4 where "k4 = PrepareReschedule (UpdatePriority t k3)"
  have v: "view k4 = view k3" by (simp add: k4_def)
  have "Mutex_Acquire i m t k = set_body i (B_Mutex ((mutex_of k4 i)\<lparr>lock_count := lock_count (mutex_of k4 i) + 1\<rparr>)) k4"
    unfolding k4_def k3_def Mutex_Acquire_def by (simp add: True Let_def) (simp add: set_body_def upd_thread_def)
  moreover have "lock_count (mutex_of k4 i) + 1 = 1" using mutex_same_view(2) [OF v, of i] True by (simp add: k3_def)
  ultimately have "view (Mutex_Acquire i m t k) = view (set_body i (B_Mutex ((mutex_of k3 i)\<lparr>lock_count := 1\<rparr>)) k3)"
    using view_lock [OF v, of i 1] by simp
  then show ?thesis using assms True by (cases m) (simp add: k3_def)
next
  case False
  then show ?thesis using assms by (simp add: Mutex_Acquire_def mutex_of_def)
qed

lemma view_Acquire:
  assumes "Acquire ob t k = Some k'"
  shows "view k' = view (acquired ob t k)"
  using assms view_Mutex_Acquire [of k] by (cases ob) (auto split: body.splits if_splits simp del: view_set_body)

lemma queue_ok_Acquire:
  assumes "queue_ok k" "live k t" "Acquire ob t k = Some k'"
  shows "queue_ok k'"
proof -
  have "queue_ok (Mutex_Acquire i m t k)" for i m
    using assms(1,2) by (auto simp: Mutex_Acquire_def Let_def queue_ok_upd_thread intro!: queue_ok_UpdatePriority)
  then show ?thesis using assms by (cases ob) (auto split: body.splits if_splits)
qed

lemma relation_ok_body:
  assumes "\<not> is_mutex k i" "case b of B_Mutex _ \<Rightarrow> False | _ \<Rightarrow> True" "relation_ok k"
  shows "relation_ok (set_body i b k)"
proof -
  have m: "is_mutex (set_body i b k) = is_mutex k" "mutex_of (set_body i b k) = mutex_of k"
    using assms(1,2) by (auto simp: fun_eq_iff is_mutex_def mutex_of_def split: body.splits)
  have o: "managers (set_body i b k) = managers k" "next_object (set_body i b k) = next_object k"
    "next_arbiter (set_body i b k) = next_arbiter k" by (simp_all add: set_body_def)
  show ?thesis using assms(3)
    unfolding relation_ok_def wait_ok_def mutex_ok_def callback_ok_def arb_ok_def current_ok_def fresh_ok_def m o
      threads_upd kernel_upd live_upd .
qed

text \<open>What acquiring and the wakeup callbacks leave alone.\<close>

definition same_waits :: "Kernel \<Rightarrow> Kernel \<Rightarrow> bool" where
  "same_waits k k' \<longleftrightarrow> waiting_threads k' = waiting_threads k \<and> live k' = live k \<and>
     (\<forall>u. status (threads k' u) = status (threads k u) \<and> wait_objects (threads k' u) = wait_objects (threads k u) \<and>
          wakeup_callback (threads k' u) = wakeup_callback (threads k u))"

lemma same_waits_refl [simp]: "same_waits k k"
  by (simp add: same_waits_def)

lemma same_waits_trans: "same_waits k k1 \<Longrightarrow> same_waits k1 k2 \<Longrightarrow> same_waits k k2"
  by (simp add: same_waits_def)

lemma same_waits_view: "view k' = view k \<Longrightarrow> same_waits k k'"
  unfolding same_waits_def by (intro conjI allI same_view live_cong)

lemma same_waits_acquired: "same_waits k (acquired ob t k)"
  by (cases ob) (auto simp: same_waits_def split: body.splits)

lemma acquired_fields [simp]:
  "arbiters (acquired ob t k) = arbiters k" "managers (acquired ob t k) = managers k" "next_object (acquired ob t k) = next_object k"
  "next_arbiter (acquired ob t k) = next_arbiter k" "next_thread_id (acquired ob t k) = next_thread_id k"
  "core_id (threads (acquired ob t k) u) = core_id (threads k u)"
  "pending_mutexes (threads (acquired ob t k) u) = pending_mutexes (threads k u)"
  "is_mutex (acquired ob t k) i = is_mutex k i"
  by (cases ob; auto simp: kernel_upd_defs is_mutex_def split: body.splits)+

lemma acquired_waits [simp]:
  "waiting_threads (acquired ob t k) = waiting_threads k" "live (acquired ob t k) = live k"
  "status (threads (acquired ob t k) u) = status (threads k u)"
  "wait_objects (threads (acquired ob t k) u) = wait_objects (threads k u)"
  "wakeup_callback (threads (acquired ob t k) u) = wakeup_callback (threads k u)"
  using same_waits_acquired [of k ob t] by (simp_all add: same_waits_def)

lemma mutex_ok_acquired:
  assumes m: "mutex_ok k" and free: "\<not> ShouldWait k ob t" and nd: "status (threads k t) \<noteq> Dead"
  shows "mutex_ok (acquired ob t k)"
proof (cases "\<exists>i m. ob = Obj i \<and> bodies k i = B_Mutex m")
  case True
  then obtain i m where ob: "ob = Obj i" and b: "bodies k i = B_Mutex m" by blast
  have mi: "mutex_of k i = m" "is_mutex k i" using b by (auto simp: mutex_ofI)
  note d = mutex_okD(1-3) [OF m] and a = mutex_okD(5) [OF m]
  have hm: "lock_count m = 0 \<Longrightarrow> holding_thread m = None" using d(3) [of i] mi by simp
  have free': "lock_count m \<noteq> 0 \<Longrightarrow> holding_thread m = Some t" using free d(2) [of i] mi b ob by auto
  have "i' \<in> set (held_mutexes (threads (acquired ob t k) u))"
    if "is_mutex k i'" "holding_thread (mutex_of (acquired ob t k) i') = Some u" for u i'
    using that a [of i' u] hm mi by (auto simp: ob b split: if_splits)
  moreover have "is_mutex k i' \<and> holding_thread (mutex_of (acquired ob t k) i') = Some u"
    if "i' \<in> set (held_mutexes (threads (acquired ob t k) u))" "status (threads k u) \<noteq> Dead" for u i'
    using that d(1) [of i' u] hm mi by (auto simp: ob b split: if_splits)
  moreover have "0 \<le> lock_count (mutex_of (acquired ob t k) j) \<and>
      (0 < lock_count (mutex_of (acquired ob t k) j) \<longleftrightarrow> holding_thread (mutex_of (acquired ob t k) j) \<noteq> None)" for j
    using d(2,3) [of j] d(2) [of i] free' mi by (auto simp: ob b)
  ultimately show ?thesis unfolding mutex_ok_def acquired_fields acquired_waits using mutex_okD(4) [OF m] by blast
next
  case False
  then have e: "mutex_of (acquired ob t k) = mutex_of k"
    by (cases ob) (auto simp: fun_eq_iff mutex_of_def split: body.splits)
  have h: "held_mutexes (threads (acquired ob t k) u) = held_mutexes (threads k u)" for u
    using False by (cases ob) (auto split: body.splits)
  show ?thesis using m unfolding mutex_ok_def acquired_fields acquired_waits e h .
qed

lemma relation_ok_acquired:
  assumes "relation_ok k" "\<not> ShouldWait k ob t" "status (threads k t) \<noteq> Dead"
  shows "relation_ok (acquired ob t k)"
  using relation_okD [OF assms(1)] mutex_ok_acquired [OF _ assms(2,3)]
  unfolding relation_ok_def wait_ok_def callback_ok_def arb_ok_def current_ok_def fresh_ok_def acquired_fields acquired_waits
  by blast

lemma holders_ok_acquired:
  assumes "holders_ok k" "live k t"
  shows "holders_ok (acquired ob t k)"
proof -
  have "held_mutexes (threads (acquired ob t k) u) = held_mutexes (threads k u)" if "u \<noteq> t" for u
    using that by (cases ob) (auto split: body.splits)
  moreover have "distinct (held_mutexes (threads (acquired ob t k) t))"
    using assms(1) by (cases ob) (auto simp: holders_ok_def split: body.splits)
  ultimately show ?thesis using assms by (auto simp: holders_ok_def) metis+
qed

lemma Acquire_free: "Acquire ob t k = Some k' \<Longrightarrow> ShouldWait k ob t \<Longrightarrow> view k' = view k"
  by (cases ob) (auto split: body.splits if_splits)

lemma kernel_okD:
  assumes "kernel_ok k"
  shows "queue_ok k" "relation_ok k" "holders_ok k" "wait_ok k" "mutex_ok k"
  using assms by (auto simp: kernel_ok_def relation_ok_def)

lemma kernel_ok_cong: "view k' = view k \<Longrightarrow> queue_ok k' \<Longrightarrow> kernel_ok k \<Longrightarrow> kernel_ok k'"
  unfolding kernel_ok_def by (metis relation_ok_cong holders_ok_cong)

text \<open>
  What waking threads leaves alone: the tables of the kernel, the current threads, and the dead threads with
  the mutexes they hold.
\<close>

definition same_tables :: "Kernel \<Rightarrow> Kernel \<Rightarrow> bool" where
  "same_tables k k' \<longleftrightarrow>
     processes k' = processes k \<and> running_process k' = running_process k \<and> next_object k' = next_object k \<and>
     next_arbiter k' = next_arbiter k \<and> next_thread_id k' = next_thread_id k \<and> num_cores k' = num_cores k \<and>
     current_cpu k' = current_cpu k \<and> arbiters k' = arbiters k \<and> timer_callback_table k' = timer_callback_table k \<and>
     (\<forall>c. current_thread (managers k' c) = current_thread (managers k c) \<and>
          wakeup_callback_table (managers k' c) = wakeup_callback_table (managers k c)) \<and>
     (\<forall>u. core_id (threads k' u) = core_id (threads k u) \<and> owner_process (threads k' u) = owner_process (threads k u))"

definition wake_frame :: "Kernel \<Rightarrow> Kernel \<Rightarrow> bool" where
  "wake_frame k k' \<longleftrightarrow> same_tables k k' \<and>
     (\<forall>u. (status (threads k' u) = Dead \<longleftrightarrow> status (threads k u) = Dead) \<and>
          (status (threads k u) = Dead \<longrightarrow> held_mutexes (threads k' u) = held_mutexes (threads k u)) \<and>
          (\<forall>i. status (threads k u) = Dead \<longrightarrow> (holding_thread (mutex_of k' i) = Some u \<longleftrightarrow> holding_thread (mutex_of k i) = Some u)))"

lemma same_tables_refl [simp]: "same_tables k k"
  by (simp add: same_tables_def)

lemma same_tables_trans: "same_tables k k1 \<Longrightarrow> same_tables k1 k2 \<Longrightarrow> same_tables k k2"
  by (simp add: same_tables_def)

lemma same_tables_view:
  assumes "view k' = view k"
  shows "same_tables k k'"
proof -
  have e: "f (view k') = f (view k)" for f :: "Kernel \<Rightarrow> 'a" using assms by simp
  have "processes k' = processes k" "running_process k' = running_process k" "next_object k' = next_object k"
    "next_arbiter k' = next_arbiter k" "next_thread_id k' = next_thread_id k" "num_cores k' = num_cores k"
    "current_cpu k' = current_cpu k" "arbiters k' = arbiters k" "timer_callback_table k' = timer_callback_table k"
    using e [of processes] e [of running_process] e [of next_object] e [of next_arbiter] e [of next_thread_id]
      e [of num_cores] e [of current_cpu] e [of arbiters] e [of timer_callback_table] by (simp_all add: view_def)
  moreover have "current_thread (managers k' c) = current_thread (managers k c)"
    "wakeup_callback_table (managers k' c) = wakeup_callback_table (managers k c)"
    "core_id (threads k' u) = core_id (threads k u)" "owner_process (threads k' u) = owner_process (threads k u)" for c u
    using e [of "\<lambda>k. current_thread (managers k c)"] e [of "\<lambda>k. wakeup_callback_table (managers k c)"]
      e [of "\<lambda>k. core_id (threads k u)"] e [of "\<lambda>k. owner_process (threads k u)"] by simp_all
  ultimately show ?thesis by (simp add: same_tables_def)
qed

lemma same_tables_upd [simp]:
  "same_tables k (set_body i b k)" "same_tables k (PrepareReschedule k)"
  "(\<And>th. core_id (f th) = core_id th \<and> owner_process (f th) = owner_process th) \<Longrightarrow> same_tables k (upd_thread t f k)"
  by (simp_all add: same_tables_def kernel_upd_defs)

lemma same_tables_acquired: "same_tables k (acquired ob t k)"
proof (cases ob)
  case (Obj i)
  have "same_tables k (set_body j b (upd_thread t (\<lambda>th. th\<lparr>held_mutexes := flat_insert i (held_mutexes th)\<rparr>) k))" for j b
    by (rule same_tables_trans [OF _ same_tables_upd(1)]) simp
  then show ?thesis using Obj by (simp split: body.split)
qed simp

lemma same_tables_cleared: "same_tables k (cleared t k)"
  by (simp add: same_tables_def cleared_def removed_def kernel_upd_defs)

lemma wake_frame_refl [simp]: "wake_frame k k"
  by (simp add: wake_frame_def)

lemma wake_frame_trans: "wake_frame k k1 \<Longrightarrow> wake_frame k1 k2 \<Longrightarrow> wake_frame k k2"
  using same_tables_trans by (auto simp: wake_frame_def)

lemma wake_frame_view: "view k' = view k \<Longrightarrow> wake_frame k k'"
  using same_view(5,7) [of k' k] mutex_same_view(1) [of k' k] by (simp add: wake_frame_def same_tables_view)

lemma wake_frame_dead_ok: "wake_frame k k' \<Longrightarrow> dead_ok k \<Longrightarrow> dead_ok k'"
  by (simp add: wake_frame_def dead_ok_def)

lemma wake_frame_acquired:
  assumes "status (threads k t) \<noteq> Dead" "mutex_ok k" "\<not> ShouldWait k ob t"
  shows "wake_frame k (acquired ob t k)"
proof -
  have h: "held_mutexes (threads (acquired ob t k) u) = held_mutexes (threads k u)" if "u \<noteq> t" for u
    using that by (cases ob) (auto split: body.splits)
  have m: "holding_thread (mutex_of (acquired ob t k) i) = Some u"
    if u: "holding_thread (mutex_of k i) = Some u" "u \<noteq> t" for u i
  proof (cases "ob = Obj i")
    case True
    obtain m where b: "bodies k i = B_Mutex m" using u(1) by (auto simp: mutex_of_def split: body.splits)
    then have "0 < lock_count m" "holding_thread m = Some u"
      using u(1) mutex_okD(3) [OF assms(2), of i] by (auto simp: mutex_of_def)
    then show ?thesis using assms(3) True b u(2) by simp
  next
    case False
    then have "mutex_of (acquired ob t k) i = mutex_of k i" by (cases ob) (auto split: body.splits)
    then show ?thesis using u by simp
  qed
  have m': "holding_thread (mutex_of k i) = Some u"
    if u: "holding_thread (mutex_of (acquired ob t k) i) = Some u" "u \<noteq> t" for u i
    using u by (cases ob) (auto simp: mutex_ofI split: body.splits if_splits)
  show ?thesis unfolding wake_frame_def acquired_waits using h m m' assms(1) same_tables_acquired by metis
qed

lemma Acquire_ok:
  assumes k: "kernel_ok k" "live k t" "status (threads k t) \<noteq> Dead" and a: "Acquire ob t k = Some k'"
  shows "kernel_ok k' \<and> same_waits k k' \<and> wake_frame k k'"
proof (cases "ShouldWait k ob t")
  case True
  then have "view k' = view k" using Acquire_free [OF a] by simp
  moreover have "queue_ok k'" by (rule queue_ok_Acquire [OF kernel_okD(1) [OF k(1)] k(2) a])
  ultimately show ?thesis using kernel_ok_cong [OF _ _ k(1)] same_waits_view wake_frame_view by blast
next
  case False
  have v: "view k' = view (acquired ob t k)" using a by (rule view_Acquire)
  have "relation_ok k'" using relation_ok_acquired [OF kernel_okD(2) [OF k(1)] False k(3)] relation_ok_cong [OF v] by simp
  moreover have "holders_ok k'" using holders_ok_acquired [OF kernel_okD(3) [OF k(1)] k(2)] holders_ok_cong [OF v] by simp
  moreover have "queue_ok k'" by (rule queue_ok_Acquire [OF kernel_okD(1) [OF k(1)] k(2) a])
  moreover have "same_waits k k'" by (rule same_waits_trans [OF same_waits_acquired same_waits_view [OF v]])
  moreover have "wake_frame k k'" by (rule wake_frame_trans [OF wake_frame_acquired [OF k(3) kernel_okD(5) [OF k(1)] False] wake_frame_view [OF v]])
  ultimately show ?thesis by (simp add: kernel_ok_def)
qed

lemma acquire_all_ok:
  "kernel_ok k \<Longrightarrow> live k t \<Longrightarrow> status (threads k t) \<noteq> Dead \<Longrightarrow> acquire_all obs t k = Some k' \<Longrightarrow>
   kernel_ok k' \<and> same_waits k k' \<and> wake_frame k k'"
proof (induction obs arbitrary: k)
  case (Cons ob obs)
  then obtain k1 where a: "Acquire ob t k = Some k1" "acquire_all obs t k1 = Some k'" by (auto split: bind_splits)
  have o: "kernel_ok k1" "same_waits k k1" "wake_frame k k1" using Acquire_ok [OF Cons.prems(1-3) a(1)] by auto
  then have "live k1 t" "status (threads k1 t) \<noteq> Dead" using Cons.prems by (auto simp: same_waits_def)
  then show ?case using Cons.IH [OF o(1) _ _ a(2)] same_waits_trans [OF o(2)] wake_frame_trans [OF o(3)] by blast
qed simp

text \<open>Objects that are free and different can be acquired one after the other.\<close>

lemma Acquire_total: "\<not> ShouldWait k ob t \<Longrightarrow> \<exists>k'. Acquire ob t k = Some k'"
  by (cases ob) (auto split: body.splits)

lemma ShouldWait_acquired: "ob' \<noteq> ob \<Longrightarrow> ShouldWait (acquired ob t k) ob' u = ShouldWait k ob' u"
proof (cases ob')
  case (Obj j)
  assume "ob' \<noteq> ob"
  then have "bodies (acquired ob t k) j = bodies k j" using Obj by (cases ob) (auto split: body.splits)
  then show ?thesis using Obj by simp
qed simp

lemma acquire_all_total:
  "distinct obs \<Longrightarrow> list_all (\<lambda>ob. \<not> ShouldWait k ob t) obs \<Longrightarrow> \<exists>k'. acquire_all obs t k = Some k'"
proof (induction obs arbitrary: k)
  case (Cons ob obs)
  then obtain k1 where a: "Acquire ob t k = Some k1" using Acquire_total [of k ob t] by auto
  have "ShouldWait k1 ob' t = ShouldWait k ob' t" if "ob' \<in> set obs" for ob'
  proof -
    have "ob' \<noteq> ob" using Cons.prems that by auto
    then show ?thesis using same_view(13) [OF view_Acquire [OF a]] ShouldWait_acquired by blast
  qed
  then have "\<exists>k'. acquire_all obs t k1 = Some k'" using Cons.prems by (intro Cons.IH) (auto simp: list_all_iff)
  then show ?case using a by simp
qed simp

section \<open>Callbacks\<close>

text \<open>The callbacks outside this model touch saved registers and guest memory only.\<close>

definition env_ok :: "hle_env \<Rightarrow> bool" where
  "env_ok env \<longleftrightarrow>
     (\<forall>n r t ob k. \<exists>c m. other_wakeup env n r t ob k = Some (k\<lparr>saved_context := c, kmem := m\<rparr>)) \<and>
     (\<forall>ob k. \<exists>c m. hle_notifier env ob k = k\<lparr>saved_context := c, kmem := m\<rparr>)"

lemma invoke_signal:
  assumes "env_ok env" "callback_ok k" "waits_for_objects (status (threads k t))" "wait_objects (threads k t) \<noteq> []"
  shows "\<exists>k'. invoke_callback env Signal t (Some ob) k = Some k' \<and> view k' = view k \<and> queue_ok k' = queue_ok k"
proof (cases "wakeup_callback (threads k t)")
  case None
  then show ?thesis by (simp add: invoke_callback_def)
next
  case (Some cb)
  have "cb \<noteq> ArbiterCallback a" for a using assms(2,3) Some by (auto simp: callback_ok_def waits_for_objects_def)
  moreover have "\<exists>k'. other_wakeup env n Signal t (Some ob) k = Some k' \<and> view k' = view k \<and> queue_ok k' = queue_ok k" for n
    using assms(1) unfolding env_ok_def by (metis view_context_memory queue_ok_neutral(4))
  ultimately show ?thesis using Some assms(4)
    by (cases cb) (auto simp: invoke_callback_def Let_def GetWaitObjectIndex_def SetWaitSynchronizationResult_def
        SetWaitSynchronizationOutput_def)
qed

section \<open>Waking one thread\<close>

lemma queue_ok_RemoveWaitingThread:
  assumes "queue_ok k" "\<And>i h. holding_thread (mutex_of k i) = Some h \<Longrightarrow> live k h"
  shows "queue_ok (RemoveWaitingThread ob t k)"
proof (cases ob)
  case (Obj i)
  let ?k = "upd_thread t (\<lambda>th. th\<lparr>pending_mutexes := flat_erase i (pending_mutexes th)\<rparr>) (remove_waiter ob t k)"
  have "queue_ok ?k" "queue_ok (remove_waiter ob t k)"
    using assms(1) by (simp_all add: queue_ok_upd_thread remove_waiter_def)
  moreover have "queue_ok (Mutex_UpdatePriority i ?k)"
    by (rule queue_ok_Mutex_UpdatePriority) (use assms in \<open>simp_all add: queue_ok_upd_thread remove_waiter_def live_def\<close>)
  ultimately show ?thesis using Obj by (simp add: Let_def)
qed (use assms(1) in \<open>simp add: remove_waiter_def\<close>)

lemma queue_ok_fold_remove:
  "queue_ok k \<Longrightarrow> (\<And>ob. distinct (waiting_threads k ob)) \<Longrightarrow> (\<And>i h. holding_thread (mutex_of k i) = Some h \<Longrightarrow> live k h) \<Longrightarrow>
   queue_ok (fold (\<lambda>ob. RemoveWaitingThread ob t) obs k)"
proof (induction obs arbitrary: k)
  case (Cons ob obs)
  let ?k = "RemoveWaitingThread ob t k"
  have v: "view ?k = view (removed t [ob] k)" using Cons.prems(2) by (rule view_RemoveWaitingThread)
  have "distinct (waiting_threads ?k o')" for o'
    using same_view(1) [OF v] Cons.prems(2) by (simp add: removed_def distinct_removeAll)
  moreover have "live ?k h" if "holding_thread (mutex_of ?k i) = Some h" for i h
    using that mutex_same_view(1) [OF v, of i] live_cong [OF v] Cons.prems(3) [of i h]
    by (simp add: removed_def mutex_of_def live_def)
  ultimately show ?case using Cons.IH [of ?k] queue_ok_RemoveWaitingThread [OF Cons.prems(1,3)] by simp
qed simp

lemma queue_ok_clear_wait_objects:
  assumes "queue_ok k" "wait_ok k" "mutex_ok k" "holders_ok k"
  shows "queue_ok (clear_wait_objects t k)"
proof -
  have "queue_ok (fold (\<lambda>ob. RemoveWaitingThread ob t) obs k)" for obs
    using assms(1) wait_okD(2) [OF assms(2)] holder_live(1) [OF assms(3,4)] by (rule queue_ok_fold_remove)
  then show ?thesis by (simp add: clear_wait_objects_def queue_ok_upd_thread)
qed

definition awake :: "tid \<Rightarrow> Kernel \<Rightarrow> Kernel" where
  "awake t k = upd_thread t (\<lambda>th. th\<lparr>wakeup_callback := None, status := Ready\<rparr>) k"

definition waiting_status :: "ThreadStatus \<Rightarrow> bool" where
  "waiting_status st \<longleftrightarrow> st \<noteq> Ready \<and> st \<noteq> Running \<and> st \<noteq> Dead"

lemma ResumeFromWait_wakes:
  assumes "queue_ok k" "live k t" "wait_objects (threads k t) = []" "waiting_status (status (threads k t))"
  shows "\<exists>k'. ResumeFromWait t k = Some k' \<and> queue_ok k' \<and> view k' = view (awake t k)"
proof -
  define k1 where "k1 = upd_thread t (\<lambda>th. th\<lparr>wakeup_callback := None\<rparr>) k"
  let ?c = "core_id (threads k t)" and ?p = "current_priority (threads k t)"
  let ?k' = "PrepareReschedule (upd_thread t (\<lambda>th. th\<lparr>status := Ready\<rparr>) (upd_queue ?c (push_back ?p t) k1))"
  have r: "ResumeFromWait t k = Some ?k'"
    using assms(3,4) by (cases "status (threads k t)") (simp_all add: ResumeFromWait_def waiting_status_def k1_def Let_def)
  have "queue_ok k1" "live k1 t" "status (threads k1 t) \<noteq> Ready" "core_id (threads k1 t) = ?c" "current_priority (threads k1 t) = ?p"
    using assms by (simp_all add: k1_def queue_ok_upd_thread waiting_status_def)
  then have "queue_ok (upd_thread t (\<lambda>th. th\<lparr>status := Ready\<rparr>) (upd_queue ?c (push_back ?p t) k1))"
    using queue_ok_push [of k1 t "\<lambda>th. th\<lparr>status := Ready\<rparr>" "push_back ?p t"] by simp
  moreover have "view ?k' = view (awake t k)"
    by (simp add: awake_def k1_def view_def fun_eq_iff kernel_upd_defs)
  ultimately show ?thesis using r by simp
qed

lemma relation_ok_awake:
  assumes "relation_ok k" "wait_objects (threads k t) = []" "\<And>a. t \<notin> set (arbiters k a)" "status (threads k t) \<noteq> Dead"
  shows "relation_ok (awake t k)"
proof -
  note r = relation_okD [OF assms(1)]
  have m: "is_mutex (awake t k) = is_mutex k" "mutex_of (awake t k) = mutex_of k" "managers (awake t k) = managers k"
    "waiting_threads (awake t k) = waiting_threads k" "arbiters (awake t k) = arbiters k" "live (awake t k) = live k"
    "next_object (awake t k) = next_object k" "next_arbiter (awake t k) = next_arbiter k" "next_thread_id (awake t k) = next_thread_id k"
    "\<And>u. wait_objects (threads (awake t k) u) = wait_objects (threads k u)"
    "\<And>u. held_mutexes (threads (awake t k) u) = held_mutexes (threads k u)"
    "\<And>u. pending_mutexes (threads (awake t k) u) = pending_mutexes (threads k u)"
    "\<And>u. core_id (threads (awake t k) u) = core_id (threads k u)"
    by (auto simp: awake_def upd_thread_def is_mutex_def mutex_of_def live_def fun_eq_iff)
  have s: "status (threads (awake t k) u) = (if u = t then Ready else status (threads k u))"
    "wakeup_callback (threads (awake t k) u) = (if u = t then None else wakeup_callback (threads k u))" for u
    by (simp_all add: awake_def)
  have "wait_ok (awake t k)" using r(1) assms(2) by (simp add: wait_ok_def m s)
  moreover have "mutex_ok (awake t k)"
  proof -
    have "status (threads (awake t k) u) \<noteq> Dead \<Longrightarrow> status (threads k u) \<noteq> Dead" for u
      using assms(4) by (cases "u = t") (simp_all add: s)
    then show ?thesis using r(2) unfolding mutex_ok_def m by blast
  qed
  moreover have "callback_ok (awake t k)" using r(3) by (simp add: callback_ok_def s)
  moreover have "arb_ok (awake t k)" 
    unfolding arb_ok_def m s
    by (intro conjI allI impI) (use assms(3) arb_okD [OF r(4)] in \<open>auto split: if_splits\<close>)
  moreover have "current_ok (awake t k)" using r(5) by (simp add: current_ok_def m s)
  moreover have "fresh_ok (awake t k)" using r(6) unfolding fresh_ok_def m .
  ultimately show ?thesis by (simp add: relation_ok_def)
qed

lemma wake_thread_ok:
  assumes env: "env_ok env" and k: "kernel_ok k" and w: "t \<in> set (waiting_threads k ob)"
    and acq: "(if status (threads k t) \<noteq> WaitSynchAll then Acquire ob t k
               else acquire_all (wait_objects (threads k t)) t k) = Some k1"
  shows "\<exists>k'. wake_thread env ob t k = Some k' \<and> kernel_ok k' \<and> status (threads k' t) = Ready \<and>
    (\<forall>o'. waiting_threads k' o' = removeAll t (waiting_threads k o')) \<and> live k' = live k \<and> wake_frame k k' \<and>
    (\<forall>u. u \<noteq> t \<longrightarrow> status (threads k' u) = status (threads k u) \<and> wait_objects (threads k' u) = wait_objects (threads k u))"
proof -
  have ob: "ob \<in> set (wait_objects (threads k t))" using w wait_okD(1) [OF kernel_okD(4) [OF k]] by simp
  then have t: "live k t" "waits_for_objects (status (threads k t))" using wait_okD(3) [OF kernel_okD(4) [OF k]] by auto
  have nd: "status (threads k t) \<noteq> Dead" using t(2) by (auto simp: waits_for_objects_def)
  have k1: "kernel_ok k1" "same_waits k k1" "wake_frame k k1"
    using acq Acquire_ok [OF k t(1) nd] acquire_all_ok [OF k t(1) nd] by (auto split: if_splits)
  have t1: "live k1 t" "waits_for_objects (status (threads k1 t))" "wait_objects (threads k1 t) \<noteq> []"
    using k1(2) t ob by (auto simp: same_waits_def)
  obtain k2 where k2: "invoke_callback env Signal t (Some ob) k1 = Some k2" "view k2 = view k1" "queue_ok k2"
    using invoke_signal [OF env relation_okD(3) [OF kernel_okD(2) [OF k1(1)]] t1(2,3)] kernel_okD(1) [OF k1(1)] by blast
  have ok2: "kernel_ok k2" by (rule kernel_ok_cong [OF k2(2,3) k1(1)])
  define k3 where "k3 = clear_wait_objects t k2"
  have v3: "view k3 = view (cleared t k2)" unfolding k3_def by (rule view_clear_wait_objects [OF kernel_okD(4) [OF ok2]])
  have q3: "queue_ok k3" unfolding k3_def using kernel_okD [OF ok2] by (intro queue_ok_clear_wait_objects)
  have s3: "same_waits k k2" using k1(2) same_waits_view [OF k2(2)] same_waits_trans by blast
  have t3: "live k3 t" "wait_objects (threads k3 t) = []" "waiting_status (status (threads k3 t))"
    using live_cong [OF v3] same_view(5,6) [OF v3] s3 t by (auto simp: same_waits_def waiting_status_def waits_for_objects_def)
  obtain k' where k': "ResumeFromWait t k3 = Some k'" "queue_ok k'" "view k' = view (awake t k3)"
    using ResumeFromWait_wakes [OF q3 t3] by blast
  have r3: "relation_ok k3" using relation_ok_cleared [OF kernel_okD(2) [OF ok2]] relation_ok_cong [OF v3] by simp
  have "t \<notin> set (arbiters k3 a)" for a
    using arb_okD(2) [OF relation_okD(4) [OF r3]] same_view(5) [OF v3, of t] s3 t(2) by (auto simp: same_waits_def waits_for_objects_def)
  then have "relation_ok k'" using relation_ok_awake [OF r3 t3(2)] t3(3) relation_ok_cong [OF k'(3)] by (simp add: waiting_status_def)
  moreover have "holders_ok k'"
  proof -
    have "holders_ok k3" using kernel_okD(3) [OF ok2] holders_ok_cong [OF v3] by (simp add: holders_ok_def)
    then have "holders_ok (awake t k3)" by (auto simp: holders_ok_def awake_def)
    then show ?thesis using holders_ok_cong [OF k'(3)] by simp
  qed
  ultimately have "kernel_ok k'" using k'(2) by (simp add: kernel_ok_def)
  moreover have "waiting_threads k' o' = removeAll t (waiting_threads k o')" for o'
  proof -
    have "waiting_threads k' o' = waiting_threads (cleared t k2) o'"
      using same_view(1) [OF k'(3)] same_view(1) [OF v3] by (simp add: awake_def)
    moreover have "waiting_threads k2 o' = waiting_threads k o'" "wait_objects (threads k2 t) = wait_objects (threads k t)"
      using s3 by (auto simp: same_waits_def)
    ultimately show ?thesis using wait_okD(1) [OF kernel_okD(4) [OF k], of t o'] by simp
  qed
  moreover have "live k' = live k"
    using live_cong [OF k'(3)] live_cong [OF v3] s3 by (simp add: awake_def same_waits_def)
  moreover have "status (threads k' u) = (if u = t then Ready else status (threads k u))"
    "u \<noteq> t \<Longrightarrow> wait_objects (threads k' u) = wait_objects (threads k u)" for u
    using same_view(5,6) [OF k'(3), of u] same_view(5,6) [OF v3, of u] s3 by (auto simp: awake_def same_waits_def)
  moreover have "wake_frame k k'"
  proof -
    have "wake_frame k k3"
    proof -
      have "wake_frame k2 (cleared t k2)" by (simp add: wake_frame_def same_tables_cleared)
      then show ?thesis using k1(3) wake_frame_view [OF k2(2)] wake_frame_view [OF v3] wake_frame_trans by blast
    qed
    moreover have "wake_frame k3 (awake t k3)" using t3(3) by (auto simp: wake_frame_def awake_def waiting_status_def)
    ultimately show ?thesis using wake_frame_view [OF k'(3)] wake_frame_trans by blast
  qed
  moreover have "wake_thread env ob t k = Some k'"
    using acq k2(1) k'(1) by (simp add: wake_thread_def k3_def)
  ultimately show ?thesis by auto
qed

section \<open>The best thread that can be woken\<close>

definition can_wake :: "Kernel \<Rightarrow> obj \<Rightarrow> tid \<Rightarrow> bool" where
  "can_wake k ob t \<longleftrightarrow> \<not> ShouldWait k ob t \<and>
     (status (threads k t) = WaitSynchAll \<longrightarrow> list_all (\<lambda>o'. \<not> ShouldWait k o' t) (wait_objects (threads k t)))"

lemma highest_loop_min:
  "list_all (\<lambda>t. waits_for_objects (status (threads k t))) ts \<Longrightarrow>
   highest_loop k ob ts cand p =
     Some (case min_element (\<lambda>t. current_priority (threads k t)) (filter (can_wake k ob) ts) of
             None \<Rightarrow> cand | Some t \<Rightarrow> if current_priority (threads k t) < p then Some t else cand)"
proof (induction ts arbitrary: cand p)
  case (Cons t ts)
  show ?case
  proof (cases "can_wake k ob t")
    case True
    then show ?thesis using Cons by (auto simp: can_wake_def split: option.splits)
  next
    case False
    then show ?thesis using Cons by (auto simp: can_wake_def)
  qed
qed simp

lemma min_element_in: "min_element f xs = Some x \<Longrightarrow> x \<in> set xs"
  by (induction xs arbitrary: x) (auto split: option.splits if_splits)

lemma min_element_None [simp]: "min_element f xs = None \<longleftrightarrow> xs = []"
  by (cases xs) (auto split: option.splits)

lemma min_element_le: "min_element f xs = Some x \<Longrightarrow> y \<in> set xs \<Longrightarrow> f x \<le> f y"
  by (induction xs arbitrary: x) (fastforce split: option.splits if_splits)+

lemma GetHighestPriorityReadyThread_min:
  assumes "wait_ok k" "queue_ok k"
  shows "GetHighestPriorityReadyThread ob k =
    Some (min_element (\<lambda>t. current_priority (threads k t)) (filter (can_wake k ob) (waiting_threads k ob)))"
proof -
  have w: "live k t \<and> waits_for_objects (status (threads k t))" if "t \<in> set (waiting_threads k ob)" for t
    using that wait_okD(1,3) [OF assms(1)] by blast
  then have *: "list_all (\<lambda>t. waits_for_objects (status (threads k t))) (waiting_threads k ob)" by (simp add: list_all_iff)
  have "current_priority (threads k t) < ThreadPrioLowest + 1"
    if "min_element (\<lambda>t. current_priority (threads k t)) (filter (can_wake k ob) (waiting_threads k ob)) = Some t" for t
    using min_element_in [OF that] w queue_okD(2) [OF assms(2), of t] by (simp add: ThreadPrioLowest_def)
  then show ?thesis unfolding GetHighestPriorityReadyThread_def highest_loop_min [OF *] by (auto split: option.split)
qed

section \<open>Waking all threads\<close>

lemma wakeup_step:
  assumes "env_ok env" "kernel_ok k" "GetHighestPriorityReadyThread ob k = Some (Some t)" "wake_thread env ob t k = Some k'"
  shows "kernel_ok k' \<and> wake_frame k k'"
proof -
  have w: "t \<in> set (waiting_threads k ob)"
    using assms(3) GetHighestPriorityReadyThread_min [OF kernel_okD(4,1) [OF assms(2)], of ob]
      min_element_in [of _ "filter (can_wake k ob) (waiting_threads k ob)" t] by simp
  obtain k1 where "(if status (threads k t) \<noteq> WaitSynchAll then Acquire ob t k
               else acquire_all (wait_objects (threads k t)) t k) = Some k1"
    using assms(4) by (auto simp: wake_thread_def split: bind_splits if_splits)
  then show ?thesis using wake_thread_ok [OF assms(1,2) w] assms(4) by auto
qed

lemma wakeup_loop_ok:
  assumes "wakeup_loop env ob k = Some k'"
  shows "env_ok env \<longrightarrow> kernel_ok k \<longrightarrow> kernel_ok k' \<and> wake_frame k k'"
proof (rule wakeup_loop.raw_induct [where P = "\<lambda>env ob k k'. env_ok env \<longrightarrow> kernel_ok k \<longrightarrow> kernel_ok k' \<and> wake_frame k k'", OF _ assms])
  fix f env ob k k'
  assume IH: "\<And>env ob k k'. f env ob k = Some k' \<Longrightarrow> env_ok env \<longrightarrow> kernel_ok k \<longrightarrow> kernel_ok k' \<and> wake_frame k k'"
    and r: "(GetHighestPriorityReadyThread ob k \<bind> case_option (Some k) (\<lambda>t. wake_thread env ob t k \<bind> f env ob)) = Some k'"
  show "env_ok env \<longrightarrow> kernel_ok k \<longrightarrow> kernel_ok k' \<and> wake_frame k k'"
  proof (intro impI)
    assume a: "env_ok env" "kernel_ok k"
    from r consider "k' = k" | t k1 where "GetHighestPriorityReadyThread ob k = Some (Some t)" "wake_thread env ob t k = Some k1"
        "f env ob k1 = Some k'"
      by (auto split: bind_splits option.splits)
    then show "kernel_ok k' \<and> wake_frame k k'"
    proof cases
      case 2
      then show ?thesis using wakeup_step [OF a 2(1,2)] IH [OF 2(3)] a(1) wake_frame_trans by blast
    qed (use a in simp)
  qed
qed

text \<open>
  A thread that waits for all of several objects must not name one of them twice: acquiring a one-shot event
  a second time fails an assertion. Nothing in the kernel prevents it.
\<close>

definition no_duplicate_waits :: "Kernel \<Rightarrow> bool" where
  "no_duplicate_waits k \<longleftrightarrow> (\<forall>t. status (threads k t) = WaitSynchAll \<longrightarrow> distinct (wait_objects (threads k t)))"

lemma wake_total:
  assumes "env_ok env" "kernel_ok k" "no_duplicate_waits k" "GetHighestPriorityReadyThread ob k = Some (Some t)"
  shows "\<exists>k'. wake_thread env ob t k = Some k' \<and> kernel_ok k' \<and> no_duplicate_waits k' \<and> status (threads k' t) = Ready \<and>
    (\<forall>o'. waiting_threads k' o' = removeAll t (waiting_threads k o')) \<and> t \<in> set (waiting_threads k ob) \<and>
    (\<forall>u. u \<noteq> t \<longrightarrow> status (threads k' u) = status (threads k u))"
proof -
  have "t \<in> set (filter (can_wake k ob) (waiting_threads k ob))"
    using assms(4) GetHighestPriorityReadyThread_min [OF kernel_okD(4,1) [OF assms(2)], of ob]
    by (intro min_element_in [of "\<lambda>t. current_priority (threads k t)"]) simp
  then have w: "t \<in> set (waiting_threads k ob)" and c: "can_wake k ob t" by auto
  have "\<exists>k1. (if status (threads k t) \<noteq> WaitSynchAll then Acquire ob t k
               else acquire_all (wait_objects (threads k t)) t k) = Some k1"
    using c assms(3) Acquire_total [of k ob t] acquire_all_total [of "wait_objects (threads k t)" k t]
    by (auto simp: can_wake_def no_duplicate_waits_def)
  then obtain k1 where a: "(if status (threads k t) \<noteq> WaitSynchAll then Acquire ob t k
               else acquire_all (wait_objects (threads k t)) t k) = Some k1" ..
  obtain k' where k': "wake_thread env ob t k = Some k'" "kernel_ok k'" "status (threads k' t) = Ready"
    "\<forall>o'. waiting_threads k' o' = removeAll t (waiting_threads k o')"
    "\<forall>u. u \<noteq> t \<longrightarrow> status (threads k' u) = status (threads k u) \<and> wait_objects (threads k' u) = wait_objects (threads k u)"
    using wake_thread_ok [OF assms(1,2) w a] by blast
  have "no_duplicate_waits k'" unfolding no_duplicate_waits_def
  proof (intro allI impI)
    fix u assume "status (threads k' u) = WaitSynchAll"
    then show "distinct (wait_objects (threads k' u))" using k'(3,5) assms(3) by (cases "u = t") (auto simp: no_duplicate_waits_def)
  qed
  then show ?thesis using k' w by blast
qed

lemma wakeup_loop_total:
  assumes "env_ok env"
  shows "kernel_ok k \<Longrightarrow> no_duplicate_waits k \<Longrightarrow>
    \<exists>k'. wakeup_loop env ob k = Some k' \<and> kernel_ok k' \<and> no_duplicate_waits k' \<and>
      (\<forall>t \<in> set (waiting_threads k' ob). t \<in> set (waiting_threads k ob) \<and> \<not> can_wake k' ob t) \<and>
      (\<forall>t. t \<in> set (waiting_threads k ob) \<and> t \<notin> set (waiting_threads k' ob) \<longrightarrow> status (threads k' t) = Ready) \<and>
      (\<forall>t. t \<notin> set (waiting_threads k ob) \<longrightarrow> status (threads k' t) = status (threads k t))"
proof (induction "length (waiting_threads k ob)" arbitrary: k rule: less_induct)
  case less
  note gh = GetHighestPriorityReadyThread_min [OF kernel_okD(4,1) [OF less.prems(1)], of ob]
  show ?case
  proof (cases "GetHighestPriorityReadyThread ob k = Some None")
    case True
    then have "filter (can_wake k ob) (waiting_threads k ob) = []" using gh by simp
    then have "\<forall>t \<in> set (waiting_threads k ob). \<not> can_wake k ob t" by (simp add: filter_empty_conv)
    then show ?thesis using True less.prems by (subst wakeup_loop.simps) simp
  next
    case False
    then obtain t where t: "GetHighestPriorityReadyThread ob k = Some (Some t)" using gh by (auto simp del: min_element_None)
    obtain k1 where k1: "wake_thread env ob t k = Some k1" "kernel_ok k1" "no_duplicate_waits k1" "status (threads k1 t) = Ready"
      "\<forall>o'. waiting_threads k1 o' = removeAll t (waiting_threads k o')" "t \<in> set (waiting_threads k ob)"
      "\<forall>u. u \<noteq> t \<longrightarrow> status (threads k1 u) = status (threads k u)"
      using wake_total [OF assms less.prems t] by blast
    have "length (waiting_threads k1 ob) < length (waiting_threads k ob)"
      using k1(5,6) by (simp add: removeAll_filter_not_eq length_filter_less)
    then obtain k' where k': "wakeup_loop env ob k1 = Some k'" "kernel_ok k'" "no_duplicate_waits k'"
      "\<forall>t \<in> set (waiting_threads k' ob). t \<in> set (waiting_threads k1 ob) \<and> \<not> can_wake k' ob t"
      "\<forall>t. t \<in> set (waiting_threads k1 ob) \<and> t \<notin> set (waiting_threads k' ob) \<longrightarrow> status (threads k' t) = Ready"
      "\<forall>t. t \<notin> set (waiting_threads k1 ob) \<longrightarrow> status (threads k' t) = status (threads k1 t)"
      using less.hyps [OF _ k1(2,3)] by blast
    have "wakeup_loop env ob k = Some k'" using t k1(1) k'(1) by (subst wakeup_loop.simps) simp
    moreover have "status (threads k' u) = Ready" if "u \<in> set (waiting_threads k ob)" "u \<notin> set (waiting_threads k' ob)" for u
      using that k'(5,6) k1(4,5) by (cases "u = t") auto
    moreover have "status (threads k' u) = status (threads k u)" if "u \<notin> set (waiting_threads k ob)" for u
    proof -
      have "u \<noteq> t" "u \<notin> set (waiting_threads k1 ob)" using that k1(5,6) by auto
      then show ?thesis using k'(6) k1(7) by simp
    qed
    ultimately show ?thesis using k'(2-4) k1(5) by auto
  qed
qed

lemma env_notifier:
  assumes "env_ok env"
  shows "view (hle_notifier env ob k) = view k" "queue_ok (hle_notifier env ob k) = queue_ok k"
    "bodies (hle_notifier env ob k) = bodies k"
proof -
  obtain c m where "hle_notifier env ob k = k\<lparr>saved_context := c, kmem := m\<rparr>" using assms unfolding env_ok_def by blast
  then show "view (hle_notifier env ob k) = view k" "queue_ok (hle_notifier env ob k) = queue_ok k"
    "bodies (hle_notifier env ob k) = bodies k" by simp_all
qed

lemma holders_ok_set_body [simp]: "holders_ok (set_body i b k) = holders_ok k"
  by (simp add: holders_ok_def)

lemma kernel_ok_body:
  assumes "kernel_ok k" "\<not> is_mutex k i" "case b of B_Mutex _ \<Rightarrow> False | _ \<Rightarrow> True"
  shows "kernel_ok (set_body i b k)"
  using assms relation_ok_body [OF assms(2,3)] by (simp add: kernel_ok_def)

lemma kernel_ok_end_pulse:
  assumes "kernel_ok k"
  shows "kernel_ok (end_pulse ob k)"
  using assms kernel_ok_body [OF assms] by (auto simp: end_pulse_def is_mutex_def split: obj.splits body.splits)

lemma end_pulse_fields [simp]:
  "threads (end_pulse ob k) = threads k" "waiting_threads (end_pulse ob k) = waiting_threads k"
  "mutex_of (end_pulse ob k) i = mutex_of k i" "same_tables k (end_pulse ob k)"
  by (auto simp: end_pulse_def mutex_of_def split: obj.splits body.splits)

lemma WakeupAllWaitingThreads_ok:
  assumes "env_ok env" "kernel_ok k" "WakeupAllWaitingThreads env ob k = Some k'"
  shows "kernel_ok k'" "wake_frame k k'"
proof -
  obtain k1 where k1: "wakeup_loop env ob k = Some k1" "k' = end_pulse ob (hle_notifier env ob k1)"
    using assms(3) by (auto simp: WakeupAllWaitingThreads_def split: bind_splits)
  have k1': "kernel_ok k1" "wake_frame k k1" using wakeup_loop_ok [OF k1(1)] assms by simp_all
  then have "kernel_ok (hle_notifier env ob k1)"
    using kernel_ok_cong [OF env_notifier(1) [OF assms(1)]] env_notifier(2) [OF assms(1)] kernel_okD(1) by blast
  then show "kernel_ok k'" unfolding k1(2) by (rule kernel_ok_end_pulse)
  have "wake_frame (hle_notifier env ob k1) k'" by (simp add: k1(2) wake_frame_def)
  then have "wake_frame k1 k'" using wake_frame_view [OF env_notifier(1) [OF assms(1)]] wake_frame_trans by blast
  then show "wake_frame k k'" by (rule wake_frame_trans [OF k1'(2)])
qed

lemma can_wake_cong:
  assumes "view k' = view k"
  shows "can_wake k' ob t = can_wake k ob t"
  unfolding can_wake_def same_view(5) [OF assms] same_view(6) [OF assms] same_view(13) [OF assms] ..

lemma can_wake_end_pulse: "can_wake (end_pulse ob k) ob t \<Longrightarrow> can_wake k ob t"
  by (auto simp: can_wake_def end_pulse_def split: obj.splits body.splits if_splits)

lemma WakeupAllWaitingThreads_total:
  assumes "env_ok env" "kernel_ok k" "no_duplicate_waits k"
  shows "\<exists>k'. WakeupAllWaitingThreads env ob k = Some k' \<and> kernel_ok k' \<and> no_duplicate_waits k' \<and>
      (\<forall>t \<in> set (waiting_threads k' ob). t \<in> set (waiting_threads k ob) \<and> \<not> can_wake k' ob t) \<and>
      (\<forall>t. t \<in> set (waiting_threads k ob) \<and> t \<notin> set (waiting_threads k' ob) \<longrightarrow> status (threads k' t) = Ready) \<and>
      (\<forall>t. t \<notin> set (waiting_threads k ob) \<longrightarrow> status (threads k' t) = status (threads k t))"
proof -
  obtain k1 where k1: "wakeup_loop env ob k = Some k1" "kernel_ok k1" "no_duplicate_waits k1"
    "\<forall>t \<in> set (waiting_threads k1 ob). t \<in> set (waiting_threads k ob) \<and> \<not> can_wake k1 ob t"
    "\<forall>t. t \<in> set (waiting_threads k ob) \<and> t \<notin> set (waiting_threads k1 ob) \<longrightarrow> status (threads k1 t) = Ready"
    "\<forall>t. t \<notin> set (waiting_threads k ob) \<longrightarrow> status (threads k1 t) = status (threads k t)"
    using wakeup_loop_total [OF assms] by blast
  define k2 where "k2 = hle_notifier env ob k1"
  have v: "view k2 = view k1" unfolding k2_def by (rule env_notifier(1) [OF assms(1)])
  have "WakeupAllWaitingThreads env ob k = Some (end_pulse ob k2)" using k1(1) by (simp add: WakeupAllWaitingThreads_def k2_def)
  moreover from this have "kernel_ok (end_pulse ob k2)" by (rule WakeupAllWaitingThreads_ok(1) [OF assms(1,2)])
  moreover have "no_duplicate_waits (end_pulse ob k2)"
    using k1(3) same_view(5,6) [OF v] by (simp add: no_duplicate_waits_def)
  moreover have "\<not> can_wake (end_pulse ob k2) ob t" if "t \<in> set (waiting_threads k1 ob)" for t
    using that k1(4) can_wake_end_pulse can_wake_cong [OF v] by blast
  ultimately show ?thesis using k1(4-6) same_view(1) [OF v] same_view(5) [OF v] by (intro exI [of _ "end_pulse ob k2"]) auto
qed

end
