(* ===== verification/Kernel_Steps.thy ===== *)
theory Kernel_Steps
  imports Kernel_Wake
begin

text \<open>Every operation on threads and objects keeps the invariant of the kernel.\<close>

definition kernel_inv :: "Kernel \<Rightarrow> bool" where
  "kernel_inv k \<longleftrightarrow> kernel_ok k \<and> dead_ok k"

lemma kernel_invD:
  assumes "kernel_inv k"
  shows "kernel_ok k" "dead_ok k" "queue_ok k" "relation_ok k" "holders_ok k" "wait_ok k" "mutex_ok k"
    "callback_ok k" "arb_ok k" "current_ok k" "fresh_ok k"
  using assms kernel_okD by (auto simp: kernel_inv_def relation_ok_def)

lemma dead_ok_cong: "view k' = view k \<Longrightarrow> dead_ok k' = dead_ok k"
  by (metis view_ok(8))

lemma kernel_inv_cong: "view k' = view k \<Longrightarrow> queue_ok k' \<Longrightarrow> kernel_inv k \<Longrightarrow> kernel_inv k'"
  unfolding kernel_inv_def using kernel_ok_cong dead_ok_cong by blast

lemma kernel_inv_wakeup:
  assumes "env_ok env" "kernel_inv k" "WakeupAllWaitingThreads env ob k = Some k'"
  shows "kernel_inv k'"
  using assms WakeupAllWaitingThreads_ok wake_frame_dead_ok unfolding kernel_inv_def by blast

lemma kernel_inv_body:
  assumes "kernel_inv k" "\<not> is_mutex k i" "case b of B_Mutex _ \<Rightarrow> False | _ \<Rightarrow> True"
  shows "kernel_inv (set_body i b k)"
  using assms kernel_ok_body [OF _ assms(2,3)] by (simp add: kernel_inv_def dead_ok_def)

lemma kernel_inv_PrepareReschedule [simp]: "kernel_inv k \<Longrightarrow> kernel_inv (PrepareReschedule k)"
  by (rule kernel_inv_cong) (simp_all add: kernel_invD)

section \<open>Semaphores, events and mutexes\<close>

lemma not_mutex:
  "bodies k i = B_Semaphore x \<Longrightarrow> \<not> is_mutex k i" "bodies k i = B_Event e \<Longrightarrow> \<not> is_mutex k i"
  "bodies k i = B_Timer y \<Longrightarrow> \<not> is_mutex k i"
  by (simp_all add: is_mutex_def)

lemma kernel_inv_body_wakeup:
  assumes "env_ok env" "kernel_inv k" "\<not> is_mutex k i" "case b of B_Mutex _ \<Rightarrow> False | _ \<Rightarrow> True"
    "WakeupAllWaitingThreads env ob (set_body i b k) = Some k'"
  shows "kernel_inv k'"
  by (rule kernel_inv_wakeup [OF assms(1) kernel_inv_body [OF assms(2-4)] assms(5)])

lemma kernel_inv_Semaphore_Release:
  assumes "env_ok env" "kernel_inv k" "bodies k i = B_Semaphore x" "Semaphore_Release env i x n k = Some (r, out, k')"
  shows "kernel_inv k'"
  using assms(2,4) kernel_inv_body_wakeup [OF assms(1,2) not_mutex(1) [OF assms(3)],
      of "B_Semaphore (x\<lparr>available_count := to_s32 (available_count x + n)\<rparr>)" "Obj i" k']
  by (auto simp: Semaphore_Release_def split: if_splits bind_splits)

lemma kernel_inv_Event:
  assumes "env_ok env" "kernel_inv k" "bodies k i = B_Event e"
  shows "Event_Signal env i e k = Some k' \<Longrightarrow> kernel_inv k'" "kernel_inv (Event_Clear i e k)"
  using kernel_inv_body [OF assms(2) not_mutex(2) [OF assms(3)], of "B_Event (e\<lparr>ev_signaled := False\<rparr>)"]
    kernel_inv_body_wakeup [OF assms(1,2) not_mutex(2) [OF assms(3)], of "B_Event (e\<lparr>ev_signaled := True\<rparr>)" "Obj i" k']
  by (simp_all add: Event_Signal_def Event_Clear_def)

text \<open>What the operations on mutexes leave alone.\<close>

definition same_rel :: "Kernel \<Rightarrow> Kernel \<Rightarrow> bool" where
  "same_rel k k' \<longleftrightarrow> waiting_threads k' = waiting_threads k \<and> arbiters k' = arbiters k \<and>
     (\<forall>c. current_thread (managers k' c) = current_thread (managers k c)) \<and>
     next_object k' = next_object k \<and> next_arbiter k' = next_arbiter k \<and> next_thread_id k' = next_thread_id k \<and>
     is_mutex k' = is_mutex k \<and>
     (\<forall>u. status (threads k' u) = status (threads k u) \<and> wait_objects (threads k' u) = wait_objects (threads k u) \<and>
          wakeup_callback (threads k' u) = wakeup_callback (threads k u) \<and> core_id (threads k' u) = core_id (threads k u))"

lemma relation_ok_same_rel:
  assumes "relation_ok k" "same_rel k k'" "mutex_ok k'"
  shows "relation_ok k'"
proof -
  have e: "waiting_threads k' = waiting_threads k" "arbiters k' = arbiters k" "next_object k' = next_object k"
    "next_arbiter k' = next_arbiter k" "next_thread_id k' = next_thread_id k" "is_mutex k' = is_mutex k"
    "\<And>c. current_thread (managers k' c) = current_thread (managers k c)"
    "\<And>u. status (threads k' u) = status (threads k u)" "\<And>u. wait_objects (threads k' u) = wait_objects (threads k u)"
    "\<And>u. wakeup_callback (threads k' u) = wakeup_callback (threads k u)" "\<And>u. core_id (threads k' u) = core_id (threads k u)"
    using assms(2) by (auto simp: same_rel_def)
  have l: "live k' = live k" by (simp add: live_def e fun_eq_iff)
  show ?thesis using relation_okD [OF assms(1)] assms(3)
    unfolding relation_ok_def wait_ok_def callback_ok_def arb_ok_def current_ok_def fresh_ok_def e l by blast
qed

text \<open>Unlocking a mutex partly, and giving it up.\<close>

lemma mutex_ok_unlock:
  assumes k: "mutex_ok k" and b: "bodies k i = B_Mutex m" and h: "holding_thread m = Some t" and n: "0 < n"
  shows "mutex_ok (set_body i (B_Mutex (m\<lparr>lock_count := n\<rparr>)) k)"
proof -
  have mi: "mutex_of k i = m" "is_mutex k i" using b by (auto simp: mutex_ofI)
  have e: "is_mutex (set_body i (B_Mutex (m\<lparr>lock_count := n\<rparr>)) k) = is_mutex k"
    "\<And>j. holding_thread (mutex_of (set_body i (B_Mutex (m\<lparr>lock_count := n\<rparr>)) k) j) = holding_thread (mutex_of k j)"
    using mi by (auto simp: fun_eq_iff)
  have l: "0 \<le> lock_count (mutex_of (set_body i (B_Mutex (m\<lparr>lock_count := n\<rparr>)) k) j) \<and>
    (0 < lock_count (mutex_of (set_body i (B_Mutex (m\<lparr>lock_count := n\<rparr>)) k) j) \<longleftrightarrow> holding_thread (mutex_of k j) \<noteq> None)" for j
    using mutex_okD(2,3) [OF k, of j] mi h n by auto
  show ?thesis using k l unfolding mutex_ok_def e threads_upd by blast
qed

definition given_up :: "nat \<Rightarrow> Mutex \<Rightarrow> tid \<Rightarrow> (nat list \<Rightarrow> nat list) \<Rightarrow> Kernel \<Rightarrow> Kernel" where
  "given_up i m t f k =
     set_body i (B_Mutex (m\<lparr>lock_count := 0, holding_thread := None\<rparr>))
       (upd_thread t (\<lambda>th. th\<lparr>held_mutexes := f (held_mutexes th)\<rparr>) k)"

lemma mutex_ok_given_up:
  assumes k: "mutex_ok k" and b: "bodies k i = B_Mutex m" and h: "holding_thread m = Some t"
    and f: "f = flat_erase i \<or> f = id \<and> status (threads k t) = Dead"
  shows "mutex_ok (given_up i m t f k)"
proof -
  have mi: "mutex_of k i = m" "is_mutex k i" using b by (auto simp: mutex_ofI)
  have e: "is_mutex (given_up i m t f k) = is_mutex k" "\<And>u. status (threads (given_up i m t f k) u) = status (threads k u)"
    "\<And>u. pending_mutexes (threads (given_up i m t f k) u) = pending_mutexes (threads k u)"
    "\<And>u. wait_objects (threads (given_up i m t f k) u) = wait_objects (threads k u)"
    using mi by (auto simp: fun_eq_iff given_up_def)
  have mu: "mutex_of (given_up i m t f k) j = (if j = i then m\<lparr>lock_count := 0, holding_thread := None\<rparr> else mutex_of k j)" for j
    by (simp add: given_up_def)
  have he: "held_mutexes (threads (given_up i m t f k) u) = (if u = t then f (held_mutexes (threads k u)) else held_mutexes (threads k u))" for u
    by (simp add: given_up_def)
  have "j \<in> set (held_mutexes (threads (given_up i m t f k) u))"
    if "is_mutex k j" "holding_thread (mutex_of (given_up i m t f k) j) = Some u" for u j
    using that mutex_okD(5) [OF k, of j u] f by (auto simp: mu he split: if_splits)
  moreover have "is_mutex k j \<and> holding_thread (mutex_of (given_up i m t f k) j) = Some u"
    if j: "j \<in> set (held_mutexes (threads (given_up i m t f k) u))" "status (threads k u) \<noteq> Dead" for u j
  proof -
    have "j \<in> set (held_mutexes (threads k u))" using j f by (auto simp: he split: if_splits)
    then have "is_mutex k j" "holding_thread (mutex_of k j) = Some u" using mutex_okD(1) [OF k] j(2) by blast+
    moreover have "j \<noteq> i" using j f h mi \<open>holding_thread (mutex_of k j) = Some u\<close> by (auto simp: he split: if_splits)
    ultimately show ?thesis by (simp add: mu)
  qed
  moreover have "0 \<le> lock_count (mutex_of (given_up i m t f k) j) \<and>
     (0 < lock_count (mutex_of (given_up i m t f k) j) \<longleftrightarrow> holding_thread (mutex_of (given_up i m t f k) j) \<noteq> None)" for j
    using mutex_okD(2,3) [OF k, of j] by (simp add: mu)
  ultimately show ?thesis unfolding mutex_ok_def e using mutex_okD(4) [OF k] by blast
qed

lemma same_rel_given_up: "is_mutex k i \<Longrightarrow> same_rel k (given_up i m t f k)"
  by (auto simp: same_rel_def given_up_def fun_eq_iff) (auto simp: kernel_upd_defs)

lemma same_rel_unlock: "is_mutex k i \<Longrightarrow> same_rel k (set_body i (B_Mutex m) k)"
  by (auto simp: same_rel_def fun_eq_iff) (auto simp: kernel_upd_defs)

lemma queue_ok_given_up [simp]: "queue_ok (given_up i m t f k) = queue_ok k"
  by (simp add: given_up_def queue_ok_upd_thread)

lemma kernel_ok_given_up:
  assumes k: "kernel_ok k" and b: "bodies k i = B_Mutex m" and h: "holding_thread m = Some t"
    and f: "f = flat_erase i \<or> f = id \<and> status (threads k t) = Dead"
  shows "kernel_ok (given_up i m t f k)"
proof -
  have "relation_ok (given_up i m t f k)"
    using relation_ok_same_rel [OF kernel_okD(2) [OF k] same_rel_given_up mutex_ok_given_up [OF kernel_okD(5) [OF k] b h f]] b
    by (simp add: is_mutex_def)
  moreover have "holders_ok (given_up i m t f k)"
  proof -
    have "distinct (f (held_mutexes (threads k t)))" using kernel_okD(3) [OF k] f by (auto simp: holders_ok_def)
    then show ?thesis using kernel_okD(3) [OF k] f by (auto simp: holders_ok_def given_up_def flat_erase_def) force
  qed
  ultimately show ?thesis using kernel_okD(1) [OF k] by (simp add: kernel_ok_def)
qed

lemma Mutex_Release_ok:
  assumes env: "env_ok env" and k: "kernel_inv k" and b: "bodies k i = B_Mutex m" and r: "Mutex_Release env i m t k = Some (r, k')"
  shows "kernel_inv k'"
proof (cases "Some t = holding_thread m \<and> 0 < lock_count m")
  case False
  then show ?thesis using r k by (auto simp: Mutex_Release_def split: if_splits)
next
  case True
  then have h: "holding_thread m = Some t" and l: "0 < lock_count m" by auto
  have mi: "mutex_of k i = m" "is_mutex k i" using b by (auto simp: mutex_ofI)
  have held: "i \<in> set (held_mutexes (threads k t))" using mutex_okD(5) [OF kernel_invD(7) [OF k] mi(2)] mi(1) h by simp
  then have lv: "live k t" using holder_live [OF kernel_invD(7,5) [OF k], of i t] mi h by simp
  show ?thesis
  proof (cases "lock_count m = 1")
    case False
    then have k': "k' = set_body i (B_Mutex (m\<lparr>lock_count := lock_count m - 1\<rparr>)) k"
      using r h l by (auto simp: Mutex_Release_def split: if_splits)
    have "relation_ok k'" unfolding k'
      using relation_ok_same_rel [OF kernel_invD(4) [OF k] same_rel_unlock [OF mi(2)] mutex_ok_unlock [OF kernel_invD(7) [OF k] b h]] False l
      by simp
    then show ?thesis using kernel_invD [OF k] by (simp add: k' kernel_inv_def kernel_ok_def dead_ok_def)
  next
    case True
    define k1 where "k1 = upd_thread t (\<lambda>th. th\<lparr>held_mutexes := flat_erase i (held_mutexes th)\<rparr>)
      (set_body i (B_Mutex (m\<lparr>lock_count := 0\<rparr>)) k)"
    define k2 where "k2 = UpdatePriority t k1"
    define k3 where "k3 = set_body i (B_Mutex ((mutex_of k2 i)\<lparr>holding_thread := None\<rparr>)) k2"
    obtain k4 where k4: "WakeupAllWaitingThreads env (Obj i) k3 = Some k4" "k' = PrepareReschedule k4"
      using r h l True by (auto simp: Mutex_Release_def Let_def k1_def k2_def k3_def split: bind_splits)
    have v2: "view k2 = view k1" by (simp add: k2_def)
    have "view k3 = view (given_up i m t (flat_erase i) k)"
    proof -
      have "view k3 = set_body i (erase_body (B_Mutex ((mutex_of k2 i)\<lparr>holding_thread := None\<rparr>))) (view k1)"
        unfolding k3_def by (simp only: view_set_body v2)
      moreover have "erase_body (B_Mutex ((mutex_of k2 i)\<lparr>holding_thread := None\<rparr>)) = B_Mutex \<lparr>lock_count = 0, mtx_priority = 0, holding_thread = None\<rparr>"
        using mutex_same_view [OF v2, of i] by (cases "mutex_of k2 i") (simp add: k1_def)
      ultimately show ?thesis by (cases m) (simp add: k1_def given_up_def, simp add: kernel_upd_defs)
    qed
    moreover have "queue_ok k3"
      unfolding k3_def k2_def using kernel_invD(3) [OF k] lv by (simp add: k1_def queue_ok_upd_thread queue_ok_UpdatePriority)
    ultimately have "kernel_inv k3"
    proof -
      assume v: "view k3 = view (given_up i m t (flat_erase i) k)" and q: "queue_ok k3"
      have "kernel_ok (given_up i m t (flat_erase i) k)" using kernel_ok_given_up [OF kernel_invD(1) [OF k] b h] by blast
      moreover have "dead_ok (given_up i m t (flat_erase i) k)"
        using kernel_invD(2) [OF k] by (auto simp: dead_ok_def given_up_def flat_erase_def)
      ultimately show ?thesis using kernel_inv_cong [OF v q] by (simp add: kernel_inv_def)
    qed
    then show ?thesis using kernel_inv_wakeup [OF env _ k4(1)] by (simp add: k4(2))
  qed
qed

section \<open>Starting to wait\<close>

definition add_pending :: "Kernel \<Rightarrow> obj \<Rightarrow> nat list \<Rightarrow> nat list" where
  "add_pending k ob pend = (case ob of Obj i \<Rightarrow> if is_mutex k i then flat_insert i pend else pend | Obj_Thread _ \<Rightarrow> pend)"

definition added :: "tid \<Rightarrow> obj list \<Rightarrow> Kernel \<Rightarrow> Kernel" where
  "added t obs k =
     k\<lparr>waiting_threads := \<lambda>ob. if ob \<in> set obs \<and> t \<notin> set (waiting_threads k ob) then waiting_threads k ob @ [t]
                             else waiting_threads k ob,
       threads := (threads k)(t := (threads k t)\<lparr>pending_mutexes := fold (add_pending k) obs (pending_mutexes (threads k t))\<rparr>)\<rparr>"

lemma add_pending_cong: "is_mutex k' = is_mutex k \<Longrightarrow> add_pending k' = add_pending k"
  by (simp add: add_pending_def fun_eq_iff split: obj.split)

lemma add_pending_view [simp]: "add_pending (view k) = add_pending k"
  by (rule add_pending_cong) (simp add: fun_eq_iff)

lemma added_view: "view (added t obs k) = added t obs (view k)"
  unfolding added_def add_pending_view by (rule Kernel.equality) (simp_all add: view_def fun_eq_iff)

lemma view_AddWaitingThread: "view (AddWaitingThread ob t k) = view (added t [ob] k)"
proof -
  have t: "waiting_threads k = (\<lambda>o'. if o' = ob \<and> t \<notin> set (waiting_threads k o') then waiting_threads k o' @ [t] else waiting_threads k o')"
    if "t \<in> set (waiting_threads k ob)" using that by auto
  show ?thesis
  proof (cases "\<exists>i. ob = Obj i \<and> is_mutex k i")
    case True
    then obtain i where i: "ob = Obj i" "is_mutex k i" by blast
    have "upd_thread t (\<lambda>th. th\<lparr>pending_mutexes := flat_insert i (pending_mutexes th)\<rparr>) (add_waiter ob t k) = added t [ob] k"
      by (rule Kernel.equality) (use i t in \<open>auto simp: added_def add_waiter_def upd_thread_def add_pending_def fun_eq_iff\<close>)
    then show ?thesis using i by (simp add: Let_def)
  next
    case False
    then have "AddWaitingThread ob t k = add_waiter ob t k" by (cases ob) (auto simp: Let_def)
    also have "\<dots> = added t [ob] k"
      by (rule Kernel.equality)
        (use False t in \<open>auto simp: added_def add_waiter_def add_pending_def fun_eq_iff split: obj.splits\<close>)
    finally show ?thesis by simp
  qed
qed

lemma added_added: "added t obs (added t obs' k) = added t (obs' @ obs) k"
proof -
  have p: "add_pending (added t obs' k) = add_pending k" by (rule add_pending_cong) (simp add: added_def fun_eq_iff)
  show ?thesis by (rule Kernel.equality) (auto simp: added_def fun_eq_iff p [unfolded added_def])
qed

lemma view_fold_add: "view (fold (\<lambda>ob. AddWaitingThread ob t) obs k) = view (added t obs k)"
proof (induction obs arbitrary: k)
  case Nil
  then show ?case by (simp add: added_def view_def fun_eq_iff)
next
  case (Cons ob obs)
  have "view (fold (\<lambda>ob. AddWaitingThread ob t) obs (AddWaitingThread ob t k)) = view (added t obs (AddWaitingThread ob t k))"
    by (rule Cons.IH)
  also have "\<dots> = added t obs (view (added t [ob] k))" by (simp add: added_view view_AddWaitingThread)
  also have "\<dots> = view (added t (ob # obs) k)" by (metis added_added added_view append_Cons append_Nil)
  finally show ?case by simp
qed

lemma queue_ok_fold_add:
  "queue_ok k \<Longrightarrow> (\<And>i h. holding_thread (mutex_of k i) = Some h \<Longrightarrow> live k h) \<Longrightarrow>
   queue_ok (fold (\<lambda>ob. AddWaitingThread ob t) obs k)"
proof (induction obs arbitrary: k)
  case (Cons ob obs)
  let ?k = "AddWaitingThread ob t k"
  have v: "view ?k = view (added t [ob] k)" by (rule view_AddWaitingThread)
  have "live ?k h" if "holding_thread (mutex_of ?k i) = Some h" for i h
    using that mutex_same_view(1) [OF v, of i] live_cong [OF v] Cons.prems(2) [of i h]
    by (simp add: added_def mutex_of_def live_def)
  moreover have "queue_ok ?k"
  proof (cases "\<exists>i. ob = Obj i \<and> is_mutex k i")
    case True
    then obtain i where i: "ob = Obj i" "is_mutex k i" by blast
    have "queue_ok (Mutex_UpdatePriority i (upd_thread t (\<lambda>th. th\<lparr>pending_mutexes := flat_insert i (pending_mutexes th)\<rparr>) (add_waiter ob t k)))"
      by (rule queue_ok_Mutex_UpdatePriority)
        (use Cons.prems in \<open>auto simp: queue_ok_upd_thread add_waiter_def live_def split: if_splits\<close>)
    then show ?thesis using i by (simp add: Let_def)
  next
    case False
    then have "?k = add_waiter ob t k" by (cases ob) (auto simp: Let_def)
    then show ?thesis using Cons.prems(1) by (simp add: add_waiter_def)
  qed
  ultimately show ?case using Cons.IH by simp
qed simp

lemma set_fold_pending: "set (fold (add_pending k) obs pend) = set pend \<union> {i. is_mutex k i \<and> Obj i \<in> set obs}"
  by (induction obs arbitrary: pend) (auto simp: add_pending_def split: obj.splits)

definition waiting_on :: "tid \<Rightarrow> ThreadStatus \<Rightarrow> obj list \<Rightarrow> Kernel \<Rightarrow> Kernel" where
  "waiting_on t st obs k = upd_thread t (\<lambda>th. th\<lparr>wait_objects := obs, status := st\<rparr>) (added t obs k)"

lemma view_wait_on: "view (wait_on t st obs k) = view (waiting_on t st obs k)"
proof -
  let ?k = "upd_thread t (\<lambda>th. th\<lparr>status := st\<rparr>) k"
  have "view (wait_on t st obs k) = upd_thread t (\<lambda>th. th\<lparr>wait_objects := obs\<rparr>) (view (added t obs ?k))"
    unfolding wait_on_def view_fold_add [symmetric] by (rule view_upd_thread) simp
  also have "\<dots> = view (upd_thread t (\<lambda>th. th\<lparr>wait_objects := obs\<rparr>) (added t obs ?k))"
    by (rule sym, rule view_upd_thread) simp
  also have "upd_thread t (\<lambda>th. th\<lparr>wait_objects := obs\<rparr>) (added t obs ?k) = waiting_on t st obs k"
  proof -
    have p: "add_pending ?k = add_pending k" by (rule add_pending_cong) (simp add: fun_eq_iff)
    show ?thesis
      by (intro Kernel.equality) (auto simp: waiting_on_def added_def upd_thread_def p [unfolded upd_thread_def] intro!: ext Thread.equality)
  qed
  finally show ?thesis .
qed

lemma waiting_on_fields:
  "waiting_threads (waiting_on t st obs k) ob =
     (if ob \<in> set obs \<and> t \<notin> set (waiting_threads k ob) then waiting_threads k ob @ [t] else waiting_threads k ob)"
  "threads (waiting_on t st obs k) u = (if u = t then (threads k t)\<lparr>wait_objects := obs, status := st,
     pending_mutexes := fold (add_pending k) obs (pending_mutexes (threads k t))\<rparr> else threads k u)"
  "mutex_of (waiting_on t st obs k) = mutex_of k" "is_mutex (waiting_on t st obs k) = is_mutex k"
  "arbiters (waiting_on t st obs k) = arbiters k" "managers (waiting_on t st obs k) = managers k" "live (waiting_on t st obs k) = live k"
  "next_object (waiting_on t st obs k) = next_object k" "next_arbiter (waiting_on t st obs k) = next_arbiter k"
  "next_thread_id (waiting_on t st obs k) = next_thread_id k"
  by (simp_all add: waiting_on_def added_def upd_thread_def mutex_of_def is_mutex_def live_def fun_eq_iff)

fun obj_exists :: "Kernel \<Rightarrow> obj \<Rightarrow> bool" where
  "obj_exists k (Obj i) = (i < next_object k)"
| "obj_exists k (Obj_Thread t) = live k t"

lemma running_free:
  assumes "kernel_inv k" "status (threads k t) = Running"
  shows "wait_objects (threads k t) = []" "pending_mutexes (threads k t) = []" "t \<notin> set (waiting_threads k ob)"
    "t \<notin> set (arbiters k a)" "wakeup_callback (threads k t) = None"
proof -
  show w: "wait_objects (threads k t) = []"
    using kernel_invD(6) [OF assms(1)] assms(2) by (auto simp: wait_ok_def waits_for_objects_def)
  then have "i \<notin> set (pending_mutexes (threads k t))" for i using mutex_okD(4) [OF kernel_invD(7) [OF assms(1)]] by simp
  then show "pending_mutexes (threads k t) = []" by (metis list.set_intros(1) neq_Nil_conv)
  show "t \<notin> set (waiting_threads k ob)" using wait_okD(1) [OF kernel_invD(6) [OF assms(1)]] w by simp
  show "t \<notin> set (arbiters k a)" using arb_okD(2) [OF kernel_invD(9) [OF assms(1)]] assms(2) by force
  show "wakeup_callback (threads k t) = None" using kernel_invD(8) [OF assms(1)] assms(2) by (simp add: callback_ok_def)
qed

lemma relation_ok_waiting_on:
  assumes k: "kernel_inv k" and t: "live k t" "status (threads k t) = Running"
    and st': "waiting_status st" and st: "obs \<noteq> [] \<Longrightarrow> waits_for_objects st" and obs: "\<And>ob. ob \<in> set obs \<Longrightarrow> obj_exists k ob"
  shows "relation_ok (waiting_on t st obs k)"
proof -
  note f = waiting_on_fields and free = running_free [OF k t(2)]
  have st': "st \<noteq> Ready" "st \<noteq> Running" "st \<noteq> Dead" using st' by (auto simp: waiting_status_def)
  have "wait_ok (waiting_on t st obs k)"
  proof -
    have "u \<in> set (waiting_threads (waiting_on t st obs k) ob) \<longleftrightarrow> ob \<in> set (wait_objects (threads (waiting_on t st obs k) u))" for u ob
      using wait_okD(1) [OF kernel_invD(6) [OF k], of u ob] free(1,3) by (auto simp: f)
    moreover have "distinct (waiting_threads (waiting_on t st obs k) ob)" for ob
      using wait_okD(2) [OF kernel_invD(6) [OF k], of ob] by (simp add: f)
    moreover have "wait_objects (threads (waiting_on t st obs k) u) \<noteq> [] \<longrightarrow>
        live (waiting_on t st obs k) u \<and> waits_for_objects (status (threads (waiting_on t st obs k) u))" for u
      using kernel_invD(6) [OF k] t(1) st by (simp add: wait_ok_def f)
    ultimately show ?thesis unfolding wait_ok_def by blast
  qed
  moreover have "mutex_ok (waiting_on t st obs k)"
  proof -
    have "held_mutexes (threads (waiting_on t st obs k) u) = held_mutexes (threads k u)" for u by (simp add: f)
    moreover have "status (threads (waiting_on t st obs k) u) \<noteq> Dead \<Longrightarrow> status (threads k u) \<noteq> Dead" for u
      using t(2) by (auto simp: f split: if_splits)
    moreover have "i \<in> set (pending_mutexes (threads (waiting_on t st obs k) u)) \<longleftrightarrow>
        is_mutex k i \<and> Obj i \<in> set (wait_objects (threads (waiting_on t st obs k) u))" for i u
      using mutex_okD(4) [OF kernel_invD(7) [OF k], of i u] free(2) by (simp add: f set_fold_pending)
    ultimately show ?thesis
      using mutex_okD(1-3,5) [OF kernel_invD(7) [OF k]] unfolding mutex_ok_def f(3,4) by metis
  qed
  moreover have "callback_ok (waiting_on t st obs k)"
    using kernel_invD(8) [OF k] free(5) st' unfolding callback_ok_def f(2) by simp
  moreover have "arb_ok (waiting_on t st obs k)"
  proof -
    have "status (threads (waiting_on t st obs k) u) = status (threads k u)" if "u \<in> set (arbiters k a)" for u a
      using that free(4) by (auto simp: f)
    moreover have "wakeup_callback (threads (waiting_on t st obs k) u) = wakeup_callback (threads k u)" for u by (simp add: f)
    ultimately show ?thesis using arb_okD [OF kernel_invD(9) [OF k]] unfolding arb_ok_def f(5,7) by metis
  qed
  moreover have "current_ok (waiting_on t st obs k)"
    using kernel_invD(10) [OF k] st' by (auto simp: current_ok_def f)
  moreover have "fresh_ok (waiting_on t st obs k)"
    using kernel_invD(11) [OF k] obs by (force simp: fresh_ok_def f live_def)
  ultimately show ?thesis by (simp add: relation_ok_def)
qed

lemma kernel_inv_wait_on:
  assumes k: "kernel_inv k" and t: "live k t" "status (threads k t) = Running"
    and st': "waiting_status st" and st: "obs \<noteq> [] \<Longrightarrow> waits_for_objects st" and obs: "\<And>ob. ob \<in> set obs \<Longrightarrow> obj_exists k ob"
  shows "kernel_inv (wait_on t st obs k)"
proof -
  let ?k = "upd_thread t (\<lambda>th. th\<lparr>status := st\<rparr>) k"
  have s: "st \<noteq> Ready" "st \<noteq> Dead" using st' by (auto simp: waiting_status_def)
  have q1: "queue_ok ?k" by (rule queue_ok_status [OF kernel_invD(3) [OF k] t(1)]) (use t(2) s in simp_all)
  have "queue_ok (fold (\<lambda>ob. AddWaitingThread ob t) obs ?k)"
    by (rule queue_ok_fold_add [OF q1]) (use holder_live [OF kernel_invD(7,5) [OF k]] in simp)
  then have q: "queue_ok (wait_on t st obs k)" by (simp add: wait_on_def queue_ok_upd_thread)
  have "kernel_inv (waiting_on t st obs k)"
  proof -
    have "holders_ok (waiting_on t st obs k)" "dead_ok (waiting_on t st obs k)"
      using kernel_invD(2,5) [OF k] s by (auto simp: holders_ok_def dead_ok_def waiting_on_fields)
    moreover have "queue_ok (waiting_on t st obs k)"
    proof -
      have "queue_ok (waiting_on t st obs k) = queue_ok ?k"
        by (rule queue_ok_cong) (simp_all add: waiting_on_def added_def upd_thread_def)
      then show ?thesis using q1 by simp
    qed
    ultimately show ?thesis using relation_ok_waiting_on [OF assms] by (simp add: kernel_inv_def kernel_ok_def)
  qed
  then show ?thesis by (rule kernel_inv_cong [OF view_wait_on q])
qed

lemma kernel_inv_status:
  assumes "kernel_inv k" "live k t" "status (threads k t) = Running" "waiting_status st"
  shows "kernel_inv (upd_thread t (\<lambda>th. th\<lparr>status := st\<rparr>) k)"
proof -
  have "wait_on t st [] k = upd_thread t (\<lambda>th. th\<lparr>status := st\<rparr>) k"
    using running_free(1) [OF assms(1,3)]
    by (intro Kernel.equality) (auto simp: wait_on_def upd_thread_def intro!: ext Thread.equality)
  then show ?thesis using kernel_inv_wait_on [OF assms, of "[]"] by simp
qed

text \<open>\<open>WaitSynchronization1\<close> writes the fields in another order.\<close>

lemma kernel_inv_wait1:
  assumes k: "kernel_inv k" and t: "live k t" "status (threads k t) = Running" and ob: "obj_exists k ob"
  shows "kernel_inv (upd_thread t (\<lambda>th. th\<lparr>status := WaitSynchAny\<rparr>) (AddWaitingThread ob t (upd_thread t (\<lambda>th. th\<lparr>wait_objects := [ob]\<rparr>) k)))"
    (is "kernel_inv ?k'")
proof -
  let ?k0 = "upd_thread t (\<lambda>th. th\<lparr>wait_objects := [ob]\<rparr>) k" and ?k1 = "AddWaitingThread ob t (upd_thread t (\<lambda>th. th\<lparr>wait_objects := [ob]\<rparr>) k)"
  have v1: "view ?k1 = view (added t [ob] ?k0)" by (rule view_AddWaitingThread)
  have "view ?k' = upd_thread t (\<lambda>th. th\<lparr>status := WaitSynchAny\<rparr>) (view (added t [ob] ?k0))"
    unfolding v1 [symmetric] by (rule view_upd_thread) simp
  also have "\<dots> = view (upd_thread t (\<lambda>th. th\<lparr>status := WaitSynchAny\<rparr>) (added t [ob] ?k0))"
    by (rule sym, rule view_upd_thread) simp
  also have "upd_thread t (\<lambda>th. th\<lparr>status := WaitSynchAny\<rparr>) (added t [ob] ?k0) = waiting_on t WaitSynchAny [ob] k"
  proof -
    have p: "add_pending ?k0 = add_pending k" by (rule add_pending_cong) (simp add: fun_eq_iff)
    show ?thesis
      by (intro Kernel.equality) (auto simp: waiting_on_def added_def upd_thread_def p [unfolded upd_thread_def] intro!: ext Thread.equality)
  qed
  finally have v: "view ?k' = view (wait_on t WaitSynchAny [ob] k)" by (simp add: view_wait_on)
  have "queue_ok (fold (\<lambda>ob. AddWaitingThread ob t) [ob] ?k0)"
    by (rule queue_ok_fold_add) (use kernel_invD(3) [OF k] holder_live [OF kernel_invD(7,5) [OF k]] in \<open>simp_all add: queue_ok_upd_thread\<close>)
  then have q1: "queue_ok ?k1" by simp
  have "live ?k1 t" "status (threads ?k1 t) = Running"
    using live_cong [OF v1] same_view(5) [OF v1, of t] t by (simp_all add: added_def live_def)
  then have "queue_ok ?k'" using queue_ok_status [OF q1] by simp
  moreover have "kernel_inv (wait_on t WaitSynchAny [ob] k)"
    by (rule kernel_inv_wait_on [OF k t]) (use ob in \<open>simp_all add: waits_for_objects_def waiting_status_def\<close>)
  ultimately show ?thesis using kernel_inv_cong [OF v] by blast
qed

lemma relation_ok_thread:
  assumes "relation_ok k"
    and "\<And>th. (status (f th), wait_objects (f th), held_mutexes (f th), pending_mutexes (f th), core_id (f th)) =
      (status th, wait_objects th, held_mutexes th, pending_mutexes th, core_id th)"
    and "callback_ok (upd_thread t f k)" "\<And>a b. wakeup_callback (f (threads k t)) = Some (ArbiterCallback a) \<Longrightarrow> t \<in> set (arbiters k b) \<Longrightarrow> a = b"
  shows "relation_ok (upd_thread t f k)"
proof -
  let ?k = "upd_thread t f k"
  note r = relation_okD [OF assms(1)]
  have e: "waiting_threads ?k = waiting_threads k" "arbiters ?k = arbiters k" "managers ?k = managers k" "live ?k = live k"
    "is_mutex ?k = is_mutex k" "mutex_of ?k = mutex_of k" "next_object ?k = next_object k" "next_arbiter ?k = next_arbiter k"
    "next_thread_id ?k = next_thread_id k" "\<And>u. status (threads ?k u) = status (threads k u)"
    "\<And>u. wait_objects (threads ?k u) = wait_objects (threads k u)" "\<And>u. held_mutexes (threads ?k u) = held_mutexes (threads k u)"
    "\<And>u. pending_mutexes (threads ?k u) = pending_mutexes (threads k u)" "\<And>u. core_id (threads ?k u) = core_id (threads k u)"
    using assms(2) by (simp_all add: upd_thread_def is_mutex_def mutex_of_def live_def fun_eq_iff)
  have "arb_ok ?k"
  proof -
    have "a = b" if "wakeup_callback (threads ?k u) = Some (ArbiterCallback a)" "u \<in> set (arbiters k b)" for a b u
      using that assms(4) arb_okD(5) [OF r(4)] by (cases "u = t") auto
    then show ?thesis using arb_okD(1-4) [OF r(4)] unfolding arb_ok_def e by blast
  qed
  moreover have "wait_ok ?k" "mutex_ok ?k" "current_ok ?k" "fresh_ok ?k"
    using r unfolding wait_ok_def mutex_ok_def current_ok_def fresh_ok_def e by blast+
  ultimately show ?thesis using assms(3) by (simp add: relation_ok_def)
qed

lemma kernel_inv_thread:
  assumes k: "kernel_inv k"
    and f: "\<And>th. (status (f th), wait_objects (f th), held_mutexes (f th), pending_mutexes (f th), core_id (f th),
        current_priority (f th), nominal_priority (f th)) =
      (status th, wait_objects th, held_mutexes th, pending_mutexes th, core_id th, current_priority th, nominal_priority th)"
    and cb: "callback_ok (upd_thread t f k)" "\<And>a b. wakeup_callback (f (threads k t)) = Some (ArbiterCallback a) \<Longrightarrow> t \<in> set (arbiters k b) \<Longrightarrow> a = b"
  shows "kernel_inv (upd_thread t f k)"
proof -
  have "relation_ok (upd_thread t f k)" by (rule relation_ok_thread [OF kernel_invD(4) [OF k] _ cb]) (use f in simp_all)
  moreover have "queue_ok (upd_thread t f k)" using kernel_invD(3) [OF k] by (subst queue_ok_upd_thread) (use f in simp_all)
  moreover have "holders_ok (upd_thread t f k)" "dead_ok (upd_thread t f k)"
    using kernel_invD(2,5) [OF k] f by (simp_all add: holders_ok_def dead_ok_def)
  ultimately show ?thesis by (simp add: kernel_inv_def kernel_ok_def)
qed

lemma kernel_inv_sync_callback:
  assumes "kernel_inv k" "status (threads k t) \<notin> {Ready, Running}"
  shows "kernel_inv (upd_thread t (\<lambda>th. th\<lparr>wakeup_callback := Some (SVC_SyncCallback b)\<rparr>) k)"
  by (rule kernel_inv_thread [OF assms(1)]) (use kernel_invD(8) [OF assms(1)] assms(2) in \<open>auto simp: callback_ok_def\<close>)

section \<open>Address arbiters\<close>

text \<open>A list of waiting threads shrinks, or a running thread joins it.\<close>

lemma kernel_inv_arbiters:
  assumes k: "kernel_inv k" and arb: "arb_ok (k\<lparr>arbiters := A\<rparr>)" and fr: "\<And>a. a \<ge> next_arbiter k \<Longrightarrow> A a = []"
  shows "kernel_inv (k\<lparr>arbiters := A\<rparr>)"
proof -
  let ?k = "k\<lparr>arbiters := A\<rparr>"
  have e: "waiting_threads ?k = waiting_threads k" "managers ?k = managers k" "live ?k = live k" "is_mutex ?k = is_mutex k"
    "mutex_of ?k = mutex_of k" "next_object ?k = next_object k" "next_arbiter ?k = next_arbiter k" "next_thread_id ?k = next_thread_id k"
    "threads ?k = threads k" "arbiters ?k = A" by (simp_all add: is_mutex_def mutex_of_def live_def fun_eq_iff)
  have "wait_ok ?k" "mutex_ok ?k" "callback_ok ?k" "current_ok ?k" "holders_ok ?k" "dead_ok ?k"
    using kernel_invD [OF k] unfolding wait_ok_def mutex_ok_def callback_ok_def current_ok_def holders_ok_def dead_ok_def e by blast+
  moreover have "fresh_ok ?k" using kernel_invD(11) [OF k] fr unfolding fresh_ok_def e by blast
  ultimately show ?thesis using kernel_invD(3) [OF k] arb by (simp add: kernel_inv_def kernel_ok_def relation_ok_def)
qed

lemma live_arbiters: "live (k\<lparr>arbiters := A\<rparr>) = live k"
  by (simp add: live_def fun_eq_iff)

lemma arb_okI:
  assumes "\<And>a t. t \<in> set (arbiters k a) \<Longrightarrow> live k t" "\<And>a t. t \<in> set (arbiters k a) \<Longrightarrow> status (threads k t) = WaitArb"
    "\<And>a. distinct (arbiters k a)" "\<And>a b t. t \<in> set (arbiters k a) \<Longrightarrow> t \<in> set (arbiters k b) \<Longrightarrow> a = b"
    "\<And>a b t. wakeup_callback (threads k t) = Some (ArbiterCallback a) \<Longrightarrow> t \<in> set (arbiters k b) \<Longrightarrow> a = b"
  shows "arb_ok k"
  using assms unfolding arb_ok_def by blast

lemma kernel_inv_arb_shrink:
  assumes k: "kernel_inv k" and xs: "set xs \<subseteq> set (arbiters k a)" "distinct xs"
  shows "kernel_inv (k\<lparr>arbiters := (arbiters k)(a := xs)\<rparr>)"
proof (rule kernel_inv_arbiters [OF k])
  let ?k = "k\<lparr>arbiters := (arbiters k)(a := xs)\<rparr>"
  note ar = arb_okD [OF kernel_invD(9) [OF k]]
  have m: "u \<in> set (arbiters ?k b) \<Longrightarrow> u \<in> set (arbiters k b)" for u b using xs(1) by (auto split: if_splits)
  show "arb_ok ?k"
  proof (rule arb_okI)
    show "u \<in> set (arbiters ?k b) \<Longrightarrow> live ?k u" for u b using ar(1) [OF m, of u b] by (simp add: live_def)
    show "u \<in> set (arbiters ?k b) \<Longrightarrow> status (threads ?k u) = WaitArb" for u b using ar(2) [OF m, of u b] by simp
    show "distinct (arbiters ?k b)" for b using xs(2) ar(3) by simp
    show "u \<in> set (arbiters ?k b) \<Longrightarrow> u \<in> set (arbiters ?k c) \<Longrightarrow> b = c" for u b c using ar(4) [OF m m] .
    show "wakeup_callback (threads ?k u) = Some (ArbiterCallback b) \<Longrightarrow> u \<in> set (arbiters ?k c) \<Longrightarrow> b = c" for u b c
      using ar(5) [OF _ m, of u b c] by simp
  qed
  show "b \<ge> next_arbiter k \<Longrightarrow> ((arbiters k)(a := xs)) b = []" for b
    using kernel_invD(11) [OF k] xs(1) by (auto simp: fresh_ok_def)
qed

lemma kernel_inv_WaitThread:
  assumes k: "kernel_inv k" and t: "live k t" "status (threads k t) = Running" and a: "a < next_arbiter k"
    and cb: "cb = None \<or> cb = Some (ArbiterCallback a)"
  shows "kernel_inv (WaitThread a t address (upd_thread t (\<lambda>th. th\<lparr>wakeup_callback := cb\<rparr>) k))"
proof -
  let ?f = "\<lambda>th. th\<lparr>wakeup_callback := cb, wait_address := address\<rparr>"
  define k1 where "k1 = upd_thread t (\<lambda>th. th\<lparr>status := WaitArb\<rparr>) k"
  define k2 where "k2 = upd_thread t ?f k1"
  have k1: "kernel_inv k1" unfolding k1_def by (rule kernel_inv_status [OF k t]) (simp add: waiting_status_def)
  have st: "status (threads k1 t) = WaitArb" "arbiters k1 = arbiters k" "live k1 = live k" "next_arbiter k1 = next_arbiter k"
    by (simp_all add: k1_def) (simp add: kernel_upd_defs)
  note free = running_free [OF k t(2)]
  have "callback_ok k2"
    using kernel_invD(8) [OF k1] st cb unfolding k2_def callback_ok_def by auto
  then have k2: "kernel_inv k2"
    unfolding k2_def by (intro kernel_inv_thread [OF k1]) (use free(4) st(2) in auto)
  have e2: "arbiters k2 = arbiters k" "live k2 = live k" "next_arbiter k2 = next_arbiter k" "status (threads k2 t) = WaitArb"
    "wakeup_callback (threads k2 t) = cb"
    using st by (simp_all add: k2_def) (simp add: kernel_upd_defs)
  have "WaitThread a t address (upd_thread t (\<lambda>th. th\<lparr>wakeup_callback := cb\<rparr>) k) = k2\<lparr>arbiters := (arbiters k2)(a := arbiters k2 a @ [t])\<rparr>"
    by (intro Kernel.equality) (auto simp: WaitThread_def k2_def k1_def upd_thread_def intro!: ext Thread.equality)
  moreover have "kernel_inv (k2\<lparr>arbiters := (arbiters k2)(a := arbiters k2 a @ [t])\<rparr>)"
  proof (rule kernel_inv_arbiters [OF k2])
    note ar = arb_okD [OF kernel_invD(9) [OF k2]]
    have m: "u \<in> set (((arbiters k2)(a := arbiters k2 a @ [t])) b) \<longleftrightarrow> u \<in> set (arbiters k2 b) \<or> u = t \<and> b = a" for u b by auto
    have d: "distinct (((arbiters k2)(a := arbiters k2 a @ [t])) b)" for b using ar(3) free(4) e2(1) by simp
    have nt: "t \<notin> set (arbiters k2 b)" for b using free(4) e2(1) by simp
    let ?k = "k2\<lparr>arbiters := (arbiters k2)(a := arbiters k2 a @ [t])\<rparr>"
    have m': "u \<in> set (arbiters ?k b) \<longleftrightarrow> u \<in> set (arbiters k2 b) \<or> u = t \<and> b = a" for u b using m by simp
    show "arb_ok ?k"
    proof (rule arb_okI)
      show "u \<in> set (arbiters ?k b) \<Longrightarrow> live ?k u" for u b
        unfolding m' live_arbiters using ar(1) [of u b] e2(2) t(1) by auto
      show "u \<in> set (arbiters ?k b) \<Longrightarrow> status (threads ?k u) = WaitArb" for u b using ar(2) [of u b] e2 m' by auto
      show "distinct (arbiters ?k b)" for b using d by simp
      show "u \<in> set (arbiters ?k b) \<Longrightarrow> u \<in> set (arbiters ?k c) \<Longrightarrow> b = c" for u b c
        unfolding m' using ar(4) nt by blast
      show "wakeup_callback (threads ?k u) = Some (ArbiterCallback b) \<Longrightarrow> u \<in> set (arbiters ?k c) \<Longrightarrow> b = c" for u b c
        unfolding m' using ar(5) [of u b c] e2(5) cb by auto
    qed
    show "b \<ge> next_arbiter k2 \<Longrightarrow> ((arbiters k2)(a := arbiters k2 a @ [t])) b = []" for b
      using kernel_invD(11) [OF k2] a e2(3) by (auto simp: fresh_ok_def)
  qed
  ultimately show ?thesis by simp
qed

lemma ResumeFromWait_arbiters:
  "ResumeFromWait t (k\<lparr>arbiters := A\<rparr>) = map_option (\<lambda>k. k\<lparr>arbiters := A\<rparr>) (ResumeFromWait t k)"
  by (cases "status (threads k t)") (simp_all add: ResumeFromWait_def Let_def kernel_upd_defs)

lemma resume_all_arbiters:
  "resume_all ts (k\<lparr>arbiters := A\<rparr>) = map_option (\<lambda>k. k\<lparr>arbiters := A\<rparr>) (resume_all ts k)"
  by (induction ts arbitrary: k) (auto simp: ResumeFromWait_arbiters split: bind_splits)

text \<open>Resuming a thread that waits and is in no list keeps the invariant.\<close>

lemma kernel_inv_resume:
  assumes k: "kernel_inv k" and t: "live k t" "wait_objects (threads k t) = []" "waiting_status (status (threads k t))"
    and arb: "\<And>a. t \<notin> set (arbiters k a)"
  shows "\<exists>k'. ResumeFromWait t k = Some k' \<and> kernel_inv k' \<and> view k' = view (awake t k)"
proof -
  obtain k' where k': "ResumeFromWait t k = Some k'" "queue_ok k'" "view k' = view (awake t k)"
    using ResumeFromWait_wakes [OF kernel_invD(3) [OF k] t] by blast
  have nd: "status (threads k t) \<noteq> Dead" using t(3) by (simp add: waiting_status_def)
  have "relation_ok k'"
    using relation_ok_awake [OF kernel_invD(4) [OF k] t(2) arb nd] relation_ok_cong [OF k'(3)] by simp
  moreover have "holders_ok (awake t k)" "dead_ok (awake t k)"
    using kernel_invD(2,5) [OF k] by (auto simp: holders_ok_def dead_ok_def awake_def)
  then have "holders_ok k'" "dead_ok k'" using holders_ok_cong [OF k'(3)] dead_ok_cong [OF k'(3)] by simp_all
  ultimately show ?thesis using k' by (auto simp: kernel_inv_def kernel_ok_def)
qed

lemma arb_wait_objects:
  assumes "kernel_inv k" "status (threads k t) = WaitArb"
  shows "wait_objects (threads k t) = []" "waiting_status (status (threads k t))"
  using kernel_invD(6) [OF assms(1)] assms(2) by (auto simp: wait_ok_def waits_for_objects_def waiting_status_def)

lemma view_awake:
  assumes "view k' = view (awake t k)"
  shows "status (threads k' u) = (if u = t then Ready else status (threads k u))" "arbiters k' = arbiters k" "live k' = live k"
  using same_view(5) [OF assms, of u] same_view(2) [OF assms] live_cong [OF assms] by (auto simp: awake_def)

lemma resume_all_ok:
  "kernel_inv k \<Longrightarrow> distinct ts \<Longrightarrow> (\<And>t a. t \<in> set ts \<Longrightarrow> live k t \<and> status (threads k t) = WaitArb \<and> t \<notin> set (arbiters k a)) \<Longrightarrow>
   \<exists>k'. resume_all ts k = Some k' \<and> kernel_inv k' \<and> (\<forall>t. status (threads k' t) = (if t \<in> set ts then Ready else status (threads k t)))"
proof (induction ts arbitrary: k)
  case (Cons t ts)
  have t: "live k t" "status (threads k t) = WaitArb" "\<And>a. t \<notin> set (arbiters k a)" using Cons.prems(3) [of t] by auto
  obtain k1 where k1: "ResumeFromWait t k = Some k1" "kernel_inv k1" "view k1 = view (awake t k)"
    using kernel_inv_resume [OF Cons.prems(1) t(1) arb_wait_objects [OF Cons.prems(1) t(2)] t(3)] by blast
  note v = view_awake [OF k1(3)]
  have "\<exists>k'. resume_all ts k1 = Some k' \<and> kernel_inv k' \<and> (\<forall>t. status (threads k' t) = (if t \<in> set ts then Ready else status (threads k1 t)))"
    by (rule Cons.IH [OF k1(2)]) (use Cons.prems v in auto)
  then show ?case using k1(1) v(1) Cons.prems(2) by (auto simp del: awake_def)
qed simp

lemma arb_partition_total:
  assumes "kernel_inv k"
  shows "arb_partition a address k =
    Some (filter (\<lambda>t. wait_address (threads k t) \<noteq> address) (arbiters k a), filter (\<lambda>t. wait_address (threads k t) = address) (arbiters k a))"
  using arb_okD(2) [OF kernel_invD(9) [OF assms]] by (simp add: arb_partition_def list_all_iff)

lemma arbiters_resume: "ResumeFromWait t k = Some k' \<Longrightarrow> arbiters k' = arbiters k"
  by (cases "status (threads k t)") (auto simp: ResumeFromWait_def Let_def kernel_upd_defs split: if_splits)

lemma ResumeAllThreads_ok:
  assumes k: "kernel_inv k"
  shows "\<exists>k'. ResumeAllThreads a address k = Some (length (filter (\<lambda>t. wait_address (threads k t) = address) (arbiters k a)), k') \<and>
    kernel_inv k' \<and> (\<forall>t. status (threads k' t) =
      (if t \<in> set (arbiters k a) \<and> wait_address (threads k t) = address then Ready else status (threads k t)))"
proof -
  let ?rest = "filter (\<lambda>t. wait_address (threads k t) \<noteq> address) (arbiters k a)"
  let ?found = "filter (\<lambda>t. wait_address (threads k t) = address) (arbiters k a)"
  let ?k0 = "k\<lparr>arbiters := (arbiters k)(a := ?rest)\<rparr>"
  note ar = arb_okD [OF kernel_invD(9) [OF k]]
  have i0: "kernel_inv ?k0" by (rule kernel_inv_arb_shrink [OF k]) (use ar(3) in auto)
  have "\<exists>k'. resume_all ?found ?k0 = Some k' \<and> kernel_inv k' \<and> (\<forall>t. status (threads k' t) = (if t \<in> set ?found then Ready else status (threads ?k0 t)))"
  proof (rule resume_all_ok [OF i0])
    show "distinct ?found" using ar(3) by simp
    fix t b assume "t \<in> set ?found"
    then have t: "t \<in> set (arbiters k a)" "wait_address (threads k t) = address" by auto
    have "t \<notin> set (arbiters ?k0 b)"
    proof (cases "b = a")
      case False
      then have "t \<notin> set (arbiters k b)" using ar(4) t(1) by blast
      then show ?thesis using False by simp
    qed (simp add: t(2))
    then show "live ?k0 t \<and> status (threads ?k0 t) = WaitArb \<and> t \<notin> set (arbiters ?k0 b)"
      using ar(1,2) [OF t(1)] by (simp add: live_arbiters)
  qed
  then obtain k' where k': "resume_all ?found ?k0 = Some k'" "kernel_inv k'"
    "\<forall>t. status (threads k' t) = (if t \<in> set ?found then Ready else status (threads k t))" by auto
  obtain k1 where k1: "resume_all ?found k = Some k1" "k' = k1\<lparr>arbiters := (arbiters k)(a := ?rest)\<rparr>"
    using k'(1) by (auto simp: resume_all_arbiters)
  have "arbiters k1 = arbiters k" if "resume_all ts k = Some k1" for ts k1
    using that by (induction ts arbitrary: k) (auto split: bind_splits dest: arbiters_resume)
  then have "ResumeAllThreads a address k = Some (length ?found, k')"
    using k1 by (simp add: ResumeAllThreads_def arb_partition_total [OF k])
  then show ?thesis using k'(2,3) by auto
qed

lemma ResumeHighestPriorityThread_ok:
  assumes k: "kernel_inv k"
  shows "\<exists>r k'. ResumeHighestPriorityThread a address k = Some (r, k') \<and> kernel_inv k'"
proof -
  let ?rest = "filter (\<lambda>t. wait_address (threads k t) \<noteq> address) (arbiters k a)"
  let ?found = "filter (\<lambda>t. wait_address (threads k t) = address) (arbiters k a)"
  note ar = arb_okD [OF kernel_invD(9) [OF k]]
  show ?thesis
  proof (cases "min_element (\<lambda>t. current_priority (threads k t)) ?found")
    case None
    then have "ResumeHighestPriorityThread a address k = Some (False, k\<lparr>arbiters := (arbiters k)(a := ?rest @ ?found)\<rparr>)"
      by (simp only: ResumeHighestPriorityThread_def arb_partition_total [OF k]) simp
    moreover have "kernel_inv (k\<lparr>arbiters := (arbiters k)(a := ?rest @ ?found)\<rparr>)"
      by (rule kernel_inv_arb_shrink [OF k]) (use ar(3) in auto)
    ultimately show ?thesis by blast
  next
    case (Some t)
    then have t: "t \<in> set (arbiters k a)" "wait_address (threads k t) = address" using min_element_in [OF Some] by auto
    let ?k0 = "k\<lparr>arbiters := (arbiters k)(a := ?rest @ remove1 t ?found)\<rparr>"
    have i0: "kernel_inv ?k0"
      by (rule kernel_inv_arb_shrink [OF k]) (use ar(3) [of a] in \<open>auto dest: notin_set_remove1 simp: distinct_remove1 set_remove1_eq\<close>)
    have "t \<notin> set (arbiters ?k0 b)" for b
    proof (cases "b = a")
      case False
      then have "t \<notin> set (arbiters k b)" using ar(4) t(1) by blast
      then show ?thesis using False by simp
    next
      case True
      have "distinct ?found" using ar(3) [of a] by simp
      then show ?thesis using True t(2) by (simp add: set_remove1_eq)
    qed
    then obtain k' where k': "ResumeFromWait t ?k0 = Some k'" "kernel_inv k'"
      using kernel_inv_resume [OF i0, of t] arb_wait_objects [OF i0, of t] ar(1,2) [OF t(1)] by (auto simp: live_arbiters)
    obtain k1 where k1: "ResumeFromWait t k = Some k1" "k' = k1\<lparr>arbiters := (arbiters k)(a := ?rest @ remove1 t ?found)\<rparr>"
      using k'(1) by (auto simp: ResumeFromWait_arbiters)
    have "ResumeHighestPriorityThread a address k = Some (True, k')"
      using Some k1 arbiters_resume [OF k1(1)] by (simp add: ResumeHighestPriorityThread_def arb_partition_total [OF k])
    then show ?thesis using k'(2) by blast
  qed
qed

lemma resume_n_ok: "kernel_inv k \<Longrightarrow> \<exists>c k'. resume_n n a address k = Some (c, k') \<and> kernel_inv k'"
proof (induction n arbitrary: k)
  case (Suc n)
  obtain r k1 where k1: "ResumeHighestPriorityThread a address k = Some (r, k1)" "kernel_inv k1"
    using ResumeHighestPriorityThread_ok [OF Suc.prems] by blast
  obtain c k' where "resume_n n a address k1 = Some (c, k')" "kernel_inv k'" using Suc.IH [OF k1(2)] by blast
  then show ?case using k1 by simp
qed simp

end
