(* ===== verification/Kernel_Switch.thy ===== *)
theory Kernel_Switch
  imports Kernel_Steps
begin

text \<open>
  The scheduler: which thread \<open>PopNextReadyThread\<close> chooses, and that switching to it keeps the invariant
  of the kernel.
\<close>

section \<open>The search in the ready queue\<close>

text \<open>The threads the search goes through, in its order.\<close>

definition last_level :: "nat option \<Rightarrow> nat" where
  "last_level stop = (case stop of None \<Rightarrow> 64 | Some p \<Rightarrow> p)"

definition candidates :: "nat option \<Rightarrow> tid ThreadQueueList \<Rightarrow> tid list" where
  "candidates stop q = concat (map (level_data q) [0..<last_level stop])"

definition stop_ok :: "nat option \<Rightarrow> tid ThreadQueueList \<Rightarrow> bool" where
  "stop_ok stop q \<longleftrightarrow> (case stop of None \<Rightarrow> True | Some p \<Rightarrow> p < 64 \<and> linked q p)"

definition one_level :: "tid ThreadQueueList \<Rightarrow> bool" where
  "one_level q \<longleftrightarrow> (\<forall>p. distinct (level_data q p)) \<and>
     (\<forall>p r t. t \<in> set (level_data q p) \<and> t \<in> set (level_data q r) \<longrightarrow> p = r)"

definition pop_step :: "nat option \<Rightarrow> tid ThreadQueueList \<Rightarrow> (tid option \<times> tid ThreadQueueList) option" where
  "pop_step stop q = (case stop of Some p \<Rightarrow> pop_first_better p q | None \<Rightarrow> pop_first q)"

lemma set_candidates: "t \<in> set (candidates stop q) \<longleftrightarrow> (\<exists>p < last_level stop. t \<in> set (level_data q p))"
  by (auto simp: candidates_def)

lemma concat_levels_cons:
  assumes "p < n" "f p = t # ts" "\<forall>r < p. f r = []"
  shows "concat (map f [0..<n]) = t # concat (map (f(p := ts)) [0..<n])"
proof -
  have u: "[0..<n] = [0..<p] @ p # [Suc p..<n]" using assms(1) upt_add_eq_append [of 0 p "n - p"] by (simp add: upt_conv_Cons)
  have "concat (map f [0..<p]) = []" "concat (map (f(p := ts)) [0..<p]) = []" using assms(3) by auto
  moreover have "map (f(p := ts)) [Suc p..<n] = map f [Suc p..<n]" by simp
  ultimately show ?thesis unfolding u map_append concat_append using assms(2) by (simp del: concat_eq_Nil_conv)
qed

lemma pop_step_cases:
  assumes "tql_ok 64 q" "stop_ok stop q"
  obtains "candidates stop q = []" "pop_step stop q = Some (None, q)"
  | p t ts q' where "level_data q p = t # ts" "pop_step stop q = Some (Some t, q')" "tql_ok 64 q'" "linked q' = linked q"
      "level_data q' = (level_data q)(p := ts)" "candidates stop q = t # candidates stop q'"
proof (cases "\<exists>p < last_level stop. level_data q p \<noteq> []")
  case False
  then have "candidates stop q = []" by (auto simp: candidates_def)
  moreover have "pop_step stop q = Some (None, q)"
  proof (cases stop)
    case None
    have "level_data q p = []" for p
      using False None rq.stored [OF assms(1), of p] by (cases "level_data q p = []") (auto simp: last_level_def)
    then show ?thesis using None rq.pop_none [OF assms(1)] by (simp add: pop_step_def)
  next
    case (Some s)
    then show ?thesis using False rq.better_none [OF assms(1), of s] assms(2)
      by (auto simp: pop_step_def stop_ok_def last_level_def)
  qed
  ultimately show ?thesis by (rule that(1))
next
  case True
  have "\<exists>p t ts q'. p < last_level stop \<and> level_data q p = t # ts \<and> (\<forall>r < p. level_data q r = []) \<and>
      pop_step stop q = Some (Some t, q') \<and> tql_ok 64 q' \<and> level_data q' = (level_data q)(p := ts) \<and> linked q' = linked q"
  proof (cases stop)
    case None
    then obtain p t ts q' where *: "level_data q p = t # ts" "\<forall>r < p. level_data q r = []" "pop_first q = Some (Some t, q')"
      "tql_ok 64 q'" "level_data q' = (level_data q)(p := ts)" "linked q' = linked q" using True rq.pop_law [OF assms(1)] by blast
    then have "p < 64" using rq.stored [OF assms(1), of p] by simp
    then show ?thesis using * None by (auto simp: pop_step_def last_level_def)
  next
    case (Some s)
    then have "s < 64" "linked q s" "\<exists>p < s. level_data q p \<noteq> []" using True assms(2) by (auto simp: stop_ok_def last_level_def)
    then show ?thesis using rq.better_law [OF assms(1), of s] Some by (simp add: pop_step_def last_level_def)
  qed
  then obtain p t ts q' where *: "p < last_level stop" "level_data q p = t # ts" "\<forall>r < p. level_data q r = []"
      "pop_step stop q = Some (Some t, q')" "tql_ok 64 q'" "level_data q' = (level_data q)(p := ts)" "linked q' = linked q" by blast
  then have "candidates stop q = t # candidates stop q'" unfolding candidates_def by (simp add: concat_levels_cons)
  then show ?thesis using that(2) * by blast
qed

lemma one_level_tail:
  assumes "one_level q" "level_data q p = t # ts" "level_data q' = (level_data q)(p := ts)"
  shows "one_level q'" "level_data q' r = removeAll t (level_data q r)"
proof -
  have d: "distinct (t # ts)" and u: "\<And>r. r \<noteq> p \<Longrightarrow> t \<notin> set (level_data q r)"
    using assms(1,2) unfolding one_level_def by (metis, metis list.set_intros(1))
  have "set (level_data q' r) \<subseteq> set (level_data q r)" "distinct (level_data q' r)" for r
    using assms d by (auto simp: one_level_def)
  then show "one_level q'" using assms(1) unfolding one_level_def by blast
  show "level_data q' r = removeAll t (level_data q r)"
    using assms(2,3) d u [of r] by (cases "r = p") (simp_all add: removeAll_id)
qed

definition searched :: "(tid \<Rightarrow> bool) \<Rightarrow> tid list \<Rightarrow> tid list" where
  "searched can ts = takeWhile (\<lambda>t. \<not> can t) ts @ (case find can ts of None \<Rightarrow> [] | Some t \<Rightarrow> [t])"

lemma filter_removeAll: "filter (\<lambda>u. u \<notin> set xs) (removeAll t ys) = filter (\<lambda>u. u \<notin> set (t # xs)) ys"
  by (induction ys) auto

lemma pop_loop_step:
  "pop_loop can stop q un =
     do { (next, q) \<leftarrow> pop_step stop q;
          case next of None \<Rightarrow> Some (None, q, un)
          | Some t \<Rightarrow> if can t then Some (Some t, q, un) else pop_loop can stop q (un @ [t]) }"
  unfolding pop_step_def by (subst pop_loop.simps) simp

lemma pop_loop_total:
  assumes "tql_ok 64 q" "stop_ok stop q" "one_level q"
  shows "\<exists>q'. pop_loop can stop q un =
      Some (find can (candidates stop q), q', un @ takeWhile (\<lambda>t. \<not> can t) (candidates stop q)) \<and>
    tql_ok 64 q' \<and> linked q' = linked q \<and>
    (\<forall>r. level_data q' r = filter (\<lambda>t. t \<notin> set (searched can (candidates stop q))) (level_data q r))"
  using assms
proof (induction "length (candidates stop q)" arbitrary: q un)
  case 0
  then show ?case
    by (cases rule: pop_step_cases [OF 0(2,3)]) (auto simp: pop_loop_step [of can stop q] searched_def)
next
  case (Suc n)
  show ?case
  proof (cases rule: pop_step_cases [OF Suc.prems(1,2)])
    case 1
    then show ?thesis using Suc.hyps(2) by simp
  next
    case (2 p t ts q1)
    note tail = one_level_tail [OF Suc.prems(3) 2(1,5)]
    show ?thesis
    proof (cases "can t")
      case True
      then show ?thesis using 2 tail(2)
        by (auto simp: pop_loop_step [of can stop q] searched_def removeAll_filter_not_eq neq_commute)
    next
      case False
      have "stop_ok stop q1" using Suc.prems(2) 2(4) by (simp add: stop_ok_def split: option.splits)
      moreover have "n = length (candidates stop q1)" using Suc.hyps(2) 2(6) by simp
      ultimately obtain q' where q': "pop_loop can stop q1 (un @ [t]) =
          Some (find can (candidates stop q1), q', (un @ [t]) @ takeWhile (\<lambda>t. \<not> can t) (candidates stop q1))"
        "tql_ok 64 q'" "linked q' = linked q1"
        "\<And>r. level_data q' r = filter (\<lambda>t. t \<notin> set (searched can (candidates stop q1))) (level_data q1 r)"
        using Suc.hyps(1) [of q1 "un @ [t]"] 2(3) tail(1) by blast
      have s: "searched can (t # candidates stop q1) = t # searched can (candidates stop q1)"
        using False by (simp add: searched_def)
      have "pop_loop can stop q un = pop_loop can stop q1 (un @ [t])"
        using 2(2) False by (simp add: pop_loop_step [of can stop q])
      then show ?thesis using q' 2(4,6) False by (intro exI [of _ q']) (simp add: s tail(2) filter_removeAll)
    qed
  qed
qed

text \<open>Putting the threads back that may not be scheduled.\<close>

lemma push_back_all:
  assumes "tql_ok 64 q" "\<And>t. t \<in> set ts \<Longrightarrow> f t < 64 \<and> linked q (f t)"
  shows "tql_ok 64 (fold (\<lambda>t. push_back (f t) t) ts q) \<and> linked (fold (\<lambda>t. push_back (f t) t) ts q) = linked q \<and>
    (\<forall>r. level_data (fold (\<lambda>t. push_back (f t) t) ts q) r = level_data q r @ filter (\<lambda>t. f t = r) ts)"
  using assms
proof (induction ts arbitrary: q)
  case (Cons t ts)
  have t: "f t < 64" "linked q (f t)" using Cons.prems(2) by auto
  note law = rq.put_back_law [OF Cons.prems(1) t(2,1), of t]
  then show ?case using Cons.IH [of "push_back (f t) t q"] Cons.prems(2) by auto
qed simp

section \<open>The choice of a thread\<close>

definition running_thread :: "nat \<Rightarrow> Kernel \<Rightarrow> tid option" where
  "running_thread c k =
     (case current_thread (managers k c) of
        None \<Rightarrow> None | Some t \<Rightarrow> if status (threads k t) = Running then Some t else None)"

definition schedulable :: "Kernel \<Rightarrow> nat \<Rightarrow> tid \<Rightarrow> bool" where
  "schedulable k c t \<longleftrightarrow> live k t \<and> status (threads k t) = Ready \<and> core_id (threads k t) = c \<and> can_schedule (threads k t)"

definition stop_at :: "nat \<Rightarrow> Kernel \<Rightarrow> nat option" where
  "stop_at c k = map_option (\<lambda>t. current_priority (threads k t)) (running_thread c k)"

lemma queue_members:
  assumes "queue_ok k" "c < num_cores k"
  shows "tql_ok 64 (rqueue k c)" "one_level (rqueue k c)"
    "t \<in> set (level_data (rqueue k c) p) \<longleftrightarrow>
       live k t \<and> status (threads k t) = Ready \<and> current_priority (threads k t) = p \<and> core_id (threads k t) = c"
  using assms by (simp_all add: queue_ok_def core_queue_ok_def one_level_def)

lemma stop_at_ok:
  assumes "kernel_inv k"
  shows "stop_ok (stop_at c k) (rqueue k c)"
proof (cases "running_thread c k")
  case (Some t)
  then have "live k t" "core_id (threads k t) = c"
    using kernel_invD(10) [OF assms] by (auto simp: running_thread_def current_ok_def split: option.splits if_splits)
  then show ?thesis using queue_okD(2,4) [OF kernel_invD(3) [OF assms], of t] Some by (simp add: stop_ok_def stop_at_def)
qed (simp add: stop_ok_def stop_at_def)

lemma sorted_find_le:
  "sorted (map f xs) \<Longrightarrow> find P xs = Some x \<Longrightarrow> y \<in> set xs \<Longrightarrow> P y \<Longrightarrow> (f x :: nat) \<le> f y"
  by (induction xs) (auto split: if_splits)

lemma sorted_candidates:
  assumes "\<And>p t. t \<in> set (level_data q p) \<Longrightarrow> f t = p"
  shows "sorted (map f (candidates stop q))"
proof -
  have c: "map f (level_data q p) = replicate (length (level_data q p)) p" for p
    by (rule replicate_eqI) (use assms in auto)
  have "sorted (map f (concat (map (level_data q) [0..<n])))" for n
  proof (induction n)
    case (Suc n)
    then show ?case using assms by (auto simp: sorted_append c)
  qed simp
  then show ?thesis by (simp add: candidates_def)
qed

lemma distinct_candidates:
  assumes "one_level q"
  shows "distinct (candidates stop q)"
proof -
  have d: "distinct (level_data q p)" and u: "t \<in> set (level_data q p) \<Longrightarrow> t \<in> set (level_data q r) \<Longrightarrow> p = r" for t p r
    using assms unfolding one_level_def by blast+
  have "distinct (concat (map (level_data q) [0..<n]))" for n
  proof (induction n)
    case (Suc n)
    have "set (concat (map (level_data q) [0..<n])) \<inter> set (level_data q n) = {}" using u by fastforce
    then show ?case using Suc d by simp
  qed simp
  then show ?thesis by (simp add: candidates_def)
qed

text \<open>What \<open>PopNextReadyThread\<close> finds, and the queue it leaves.\<close>

definition best_thread :: "Kernel \<Rightarrow> nat \<Rightarrow> tid option \<Rightarrow> bool" where
  "best_thread k c found \<longleftrightarrow>
     (case found of
        None \<Rightarrow> \<forall>u. schedulable k c u \<longrightarrow>
          (case running_thread c k of None \<Rightarrow> False | Some t \<Rightarrow> current_priority (threads k t) \<le> current_priority (threads k u))
      | Some t \<Rightarrow> schedulable k c t \<and> (\<forall>u. schedulable k c u \<longrightarrow> current_priority (threads k t) \<le> current_priority (threads k u)) \<and>
          (\<forall>u. running_thread c k = Some u \<longrightarrow> current_priority (threads k t) < current_priority (threads k u)))"

lemma find_candidates_best:
  assumes q: "queue_ok k" "c < num_cores k"
  shows "best_thread k c (find (\<lambda>t. can_schedule (threads k t)) (candidates (stop_at c k) (rqueue k c)))"
proof -
  let ?can = "\<lambda>t. can_schedule (threads k t)" and ?prio = "\<lambda>t. current_priority (threads k t)"
  let ?cs = "candidates (stop_at c k) (rqueue k c)"
  note m = queue_members(3) [OF q]
  have in_cs: "u \<in> set ?cs \<and> ?can u \<longleftrightarrow> schedulable k c u \<and> ?prio u < last_level (stop_at c k)" for u
    by (auto simp: set_candidates m schedulable_def)
  have srt: "sorted (map ?prio ?cs)" by (rule sorted_candidates) (simp add: m)
  have all: "?prio u < 64" if "schedulable k c u" for u using that queue_okD(2) [OF q(1)] by (simp add: schedulable_def)
  have lev: "last_level (stop_at c k) = (case running_thread c k of None \<Rightarrow> 64 | Some t \<Rightarrow> ?prio t)"
    by (simp add: last_level_def stop_at_def split: option.split)
  show ?thesis
  proof (cases "find ?can ?cs")
    case None
    then have "u \<notin> set ?cs \<or> \<not> ?can u" for u by (auto simp: find_None_iff)
    then have "\<not> ?prio u < last_level (stop_at c k)" if "schedulable k c u" for u using that in_cs by blast
    then show ?thesis using None all lev by (fastforce simp: best_thread_def split: option.splits)
  next
    case (Some t)
    then have t: "t \<in> set ?cs" "?can t" by (auto simp: find_Some_iff)
    then have st: "schedulable k c t" "?prio t < last_level (stop_at c k)" using in_cs by blast+
    have "?prio t \<le> ?prio u" if "schedulable k c u" for u
    proof (cases "?prio u < last_level (stop_at c k)")
      case True
      then show ?thesis using sorted_find_le [OF srt Some] that in_cs [of u] by blast
    qed (use st(2) in simp)
    then show ?thesis using Some st lev by (auto simp: best_thread_def)
  qed
qed

lemma PopNextReadyThread_ok:
  assumes k: "kernel_inv k" and c: "c < num_cores k"
  shows "\<exists>found q. PopNextReadyThread c k =
      Some (if found = None then running_thread c k else found, upd_queue c (\<lambda>_. q) k) \<and>
    best_thread k c found \<and> tql_ok 64 q \<and> linked q = linked (rqueue k c) \<and> (\<forall>r. distinct (level_data q r)) \<and>
    (\<forall>u r. u \<in> set (level_data q r) \<longleftrightarrow> u \<in> set (level_data (rqueue k c) r) \<and> found \<noteq> Some u)"
proof -
  let ?can = "\<lambda>t. can_schedule (threads k t)" and ?prio = "\<lambda>t. current_priority (threads k t)"
  let ?cs = "candidates (stop_at c k) (rqueue k c)"
  let ?un = "takeWhile (\<lambda>t. \<not> ?can t) ?cs"
  note q = kernel_invD(3) [OF k]
  note m = queue_members [OF q c]
  obtain q1 where q1: "pop_loop ?can (stop_at c k) (rqueue k c) [] = Some (find ?can ?cs, q1, ?un)" "tql_ok 64 q1"
    "linked q1 = linked (rqueue k c)" "\<And>r. level_data q1 r = filter (\<lambda>t. t \<notin> set (searched ?can ?cs)) (level_data (rqueue k c) r)"
    using pop_loop_total [OF m(1) stop_at_ok [OF k] m(2), of ?can "[]"] by auto
  define q2 where "q2 = fold (\<lambda>t. push_back (?prio t) t) (rev ?un) q1"
  have un: "t \<in> set (level_data (rqueue k c) (?prio t))" "\<not> ?can t" if "t \<in> set ?un" for t
    using set_takeWhileD [OF that] by (auto simp: set_candidates m(3))
  have lnk: "?prio t < 64 \<and> linked q1 (?prio t)" if "t \<in> set (rev ?un)" for t
  proof -
    have "level_data (rqueue k c) (?prio t) \<noteq> []" using un(1) [of t] that by (auto simp del: set_takeWhileD)
    then show ?thesis using rq.stored [OF m(1), of "?prio t"] q1(3) by simp
  qed
  have q2: "tql_ok 64 q2" "linked q2 = linked (rqueue k c)" "\<And>r. level_data q2 r = level_data q1 r @ filter (\<lambda>t. ?prio t = r) (rev ?un)"
    using push_back_all [of q1 "rev ?un" ?prio, OF q1(2) lnk] q1(3) by (auto simp: q2_def)
  have dcs: "distinct ?un" by (rule distinct_takeWhile) (rule distinct_candidates [OF m(2)])
  have "distinct (level_data q2 r)" for r
    using m(2) dcs q2(3) q1(4) by (auto simp: one_level_def searched_def)
  moreover have "u \<in> set (level_data q2 r) \<longleftrightarrow> u \<in> set (level_data (rqueue k c) r) \<and> find ?can ?cs \<noteq> Some u" for u r
  proof -
    have "find ?can ?cs \<noteq> Some u" if "u \<in> set ?un" using un(2) [OF that] by (auto simp: find_Some_iff)
    moreover have "u \<in> set ?un \<Longrightarrow> ?prio u = r \<longleftrightarrow> u \<in> set (level_data (rqueue k c) r)" using un(1) [of u] by (auto simp: m(3))
    ultimately show ?thesis unfolding q2(3) q1(4) searched_def by (auto split: option.splits)
  qed
  moreover have "PopNextReadyThread c k =
      Some (if find ?can ?cs = None then running_thread c k else find ?can ?cs, upd_queue c (\<lambda>_. q2) k)"
  proof -
    have "stop_at c k = (if case current_thread (managers k c) of None \<Rightarrow> False | Some t \<Rightarrow> status (threads k t) = Running
        then Some (?prio (the (current_thread (managers k c)))) else None)"
      by (simp add: stop_at_def running_thread_def split: option.split)
    then show ?thesis using q1(1)
      by (auto simp: PopNextReadyThread_def Let_def q2_def running_thread_def split: option.split)
  qed
  ultimately show ?thesis using find_candidates_best [OF q c] q2(1,2) by blast
qed

section \<open>Switching threads\<close>

text \<open>The scheduler only moves threads between ready and running.\<close>

definition reranked :: "Kernel \<Rightarrow> Kernel \<Rightarrow> bool" where
  "reranked k k' \<longleftrightarrow>
     waiting_threads k' = waiting_threads k \<and> bodies k' = bodies k \<and> arbiters k' = arbiters k \<and>
     next_thread_id k' = next_thread_id k \<and> next_object k' = next_object k \<and> next_arbiter k' = next_arbiter k \<and>
     num_cores k' = num_cores k \<and> processes k' = processes k \<and>
     (\<forall>c. wakeup_callback_table (managers k' c) = wakeup_callback_table (managers k c)) \<and>
     (\<forall>u. wait_objects (threads k' u) = wait_objects (threads k u) \<and> held_mutexes (threads k' u) = held_mutexes (threads k u) \<and>
          pending_mutexes (threads k' u) = pending_mutexes (threads k u) \<and> core_id (threads k' u) = core_id (threads k u) \<and>
          wakeup_callback (threads k' u) = wakeup_callback (threads k u) \<and>
          current_priority (threads k' u) = current_priority (threads k u) \<and>
          nominal_priority (threads k' u) = nominal_priority (threads k u) \<and>
          (status (threads k' u) = status (threads k u) \<or>
           status (threads k' u) \<in> {Ready, Running} \<and> status (threads k u) \<in> {Ready, Running}))"

lemma reranked_trans: "reranked k k1 \<Longrightarrow> reranked k1 k2 \<Longrightarrow> reranked k k2"
  unfolding reranked_def by (intro conjI allI) (metis)+

lemma reranked_inv:
  assumes k: "kernel_inv k" and r: "reranked k k'" and q: "queue_ok k'" and cur: "current_ok k'"
  shows "kernel_inv k'"
proof -
  have st: "status (threads k' u) = status (threads k u) \<or>
           status (threads k' u) \<in> {Ready, Running} \<and> status (threads k u) \<in> {Ready, Running}" for u
    using r by (simp add: reranked_def)
  have e: "waiting_threads k' = waiting_threads k" "arbiters k' = arbiters k"
    "next_thread_id k' = next_thread_id k" "next_object k' = next_object k" "next_arbiter k' = next_arbiter k"
    "is_mutex k' = is_mutex k" "mutex_of k' = mutex_of k" "live k' = live k"
    "\<And>u. wait_objects (threads k' u) = wait_objects (threads k u)" "\<And>u. held_mutexes (threads k' u) = held_mutexes (threads k u)"
    "\<And>u. pending_mutexes (threads k' u) = pending_mutexes (threads k u)" "\<And>u. core_id (threads k' u) = core_id (threads k u)"
    "\<And>u. wakeup_callback (threads k' u) = wakeup_callback (threads k u)"
    using r by (auto simp: reranked_def is_mutex_def mutex_of_def live_def fun_eq_iff)
  have dead: "status (threads k' u) = Dead \<longleftrightarrow> status (threads k u) = Dead"
    and arb: "status (threads k' u) = WaitArb \<longleftrightarrow> status (threads k u) = WaitArb"
    and wt: "waits_for_objects (status (threads k' u)) \<longleftrightarrow> waits_for_objects (status (threads k u))"
    and rr: "status (threads k' u) \<in> {Ready, Running} \<longleftrightarrow> status (threads k u) \<in> {Ready, Running}" for u
    using st [of u] by (auto simp: waits_for_objects_def)
  have "wait_ok k'" using kernel_invD(6) [OF k] unfolding wait_ok_def e wt .
  moreover have "mutex_ok k'" using kernel_invD(7) [OF k] unfolding mutex_ok_def e dead .
  moreover have "callback_ok k'" using kernel_invD(8) [OF k] unfolding callback_ok_def e rr using dead arb by simp
  moreover have "arb_ok k'" using kernel_invD(9) [OF k] unfolding arb_ok_def e arb .
  moreover have "fresh_ok k'" using kernel_invD(11) [OF k] unfolding fresh_ok_def e .
  moreover have "holders_ok k'" using kernel_invD(5) [OF k] unfolding holders_ok_def e .
  moreover have "dead_ok k'" using kernel_invD(2) [OF k] unfolding dead_ok_def e dead .
  ultimately show ?thesis using q cur by (simp add: kernel_inv_def kernel_ok_def relation_ok_def)
qed

text \<open>A new queue for one core, when it holds that core's ready threads.\<close>

lemma queue_ok_rerank:
  assumes q: "queue_ok k" and r: "reranked k k'" and c: "c < num_cores k"
    and new: "tql_ok 64 (rqueue k' c)" "\<And>p. distinct (level_data (rqueue k' c) p)" "\<And>p. linked (rqueue k c) p \<Longrightarrow> linked (rqueue k' c) p"
    and mem: "\<And>p u. u \<in> set (level_data (rqueue k' c) p) \<longleftrightarrow>
      live k u \<and> status (threads k' u) = Ready \<and> current_priority (threads k u) = p \<and> core_id (threads k u) = c"
    and other: "\<And>d. d \<noteq> c \<Longrightarrow> rqueue k' d = rqueue k d" "\<And>u. core_id (threads k u) \<noteq> c \<Longrightarrow> status (threads k' u) = status (threads k u)"
  shows "queue_ok k'"
proof -
  have e: "num_cores k' = num_cores k" "live k' = live k" "\<And>u. core_id (threads k' u) = core_id (threads k u)"
    "\<And>u. current_priority (threads k' u) = current_priority (threads k u)"
    "\<And>u. nominal_priority (threads k' u) = nominal_priority (threads k u)"
    using r by (auto simp: reranked_def live_def fun_eq_iff)
  have "core_queue_ok k' d" if d: "d < num_cores k" for d
  proof (cases "d = c")
    case True
    then show ?thesis using new(1,2) mem by (simp add: core_queue_ok_def e)
  next
    case False
    have "core_queue_ok k d" using q d by (simp add: queue_ok_def)
    then show ?thesis using other(1) [OF False] other(2) False by (auto simp: core_queue_ok_def e)
  qed
  moreover have "thread_queue_ok k' t" if "live k t" for t
    using queue_okD [OF q that] new(3) other(1) [of "core_id (threads k t)"]
    by (cases "core_id (threads k t) = c") (auto simp: thread_queue_ok_def e)
  ultimately show ?thesis by (simp add: queue_ok_def e)
qed

lemma SetCurrentProcessForCPU_frame:
  assumes "SetCurrentProcessForCPU env p c k = Some k'"
  shows "threads k' = threads k" "managers k' = managers k" "reranked k k'" "current_cpu k' = current_cpu k"
    "saved_context k' = saved_context k"
  using assms by (auto simp: SetCurrentProcessForCPU_def SetCurrentMemoryPageTable_def reranked_def split: if_splits)

lemma reranked_simps [simp]:
  "reranked k k" "reranked k (upd_queue c f k)" "reranked k (upd_context t g k)"
  "reranked k (upd_manager c (\<lambda>m. m\<lparr>current_thread := x\<rparr>) k)" "reranked k (k\<lparr>cpu_context := y, cp15_thread_uro := z\<rparr>)"
  "(status (threads k t) \<in> {Ready, Running} \<and> st \<in> {Ready, Running}) \<Longrightarrow> reranked k (upd_thread t (\<lambda>th. th\<lparr>status := st\<rparr>) k)"
  "reranked k (upd_thread t (\<lambda>th. th\<lparr>last_running_ticks := n\<rparr>) k)"
  by (auto simp: reranked_def kernel_upd_defs)

lemma save_previous_fields:
  assumes "core_id (threads k p) = c"
  shows "threads (save_previous c p ticks k) u =
      (if u = p then (threads k p)\<lparr>last_running_ticks := ticks,
         status := if status (threads k p) = Running then Ready else status (threads k p)\<rparr> else threads k u)"
    "managers (save_previous c p ticks k) = (if status (threads k p) = Running
      then managers (upd_queue c (push_front (current_priority (threads k p)) p) k) else managers k)"
    "reranked k (save_previous c p ticks k)"
proof -
  show "reranked k (save_previous c p ticks k)"
    by (auto simp: reranked_def save_previous_def Let_def kernel_upd_defs)
qed (auto simp: save_previous_def Let_def kernel_upd_defs)

lemma threads_manager [simp]: "threads (upd_manager c f k) = threads k"
  by (simp add: upd_manager_def)

lemma load_new_fields:
  assumes "load_new env c previous n k = Some k'"
  shows "threads k' u = (if u = n then (threads k n)\<lparr>status := Running\<rparr> else threads k u)"
    "current_thread (managers k' d) = (if d = c then Some n else current_thread (managers k d))"
    "rqueue k' d = (if d = c then tql_remove (current_priority (threads k n)) n (rqueue k c) else rqueue k d)"
    "status (threads k n) = Ready \<Longrightarrow> reranked k k'"
proof -
  let ?k1 = "upd_thread n (\<lambda>th. th\<lparr>status := Running\<rparr>)
     (upd_queue c (tql_remove (current_priority (threads k n)) n) (upd_manager c (\<lambda>m. m\<lparr>current_thread := Some n\<rparr>) k))"
  obtain k2 where k2: "threads k2 = threads ?k1" "managers k2 = managers ?k1" "reranked ?k1 k2"
    "k' = k2\<lparr>cpu_context := (cpu_context k2)(c := saved_context k2 n), cp15_thread_uro := (cp15_thread_uro k2)(c := tls_address (threads k2 n))\<rparr>"
  proof (cases "previous = Some (owner_process (threads k n))")
    case True
    then show ?thesis using assms that [of ?k1] by (simp add: load_new_def)
  next
    case False
    then obtain x where x: "SetCurrentProcessForCPU env (owner_process (threads k n)) c ?k1 = Some x"
      "k' = x\<lparr>cpu_context := (cpu_context x)(c := saved_context x n), cp15_thread_uro := (cp15_thread_uro x)(c := tls_address (threads x n))\<rparr>"
      using assms by (auto simp: load_new_def split: bind_splits)
    then show ?thesis using that SetCurrentProcessForCPU_frame [OF x(1)] by blast
  qed
  show "threads k' u = (if u = n then (threads k n)\<lparr>status := Running\<rparr> else threads k u)"
    "current_thread (managers k' d) = (if d = c then Some n else current_thread (managers k d))"
    "rqueue k' d = (if d = c then tql_remove (current_priority (threads k n)) n (rqueue k c) else rqueue k d)"
    using k2 by (auto simp: kernel_upd_defs)
  assume "status (threads k n) = Ready"
  then have "reranked k ?k1" by (auto simp: reranked_def kernel_upd_defs)
  then have "reranked k k2" by (rule reranked_trans) (rule k2(3))
  then show "reranked k k'" unfolding k2(4) by (rule reranked_trans) simp
qed

lemma running_threadD:
  assumes "kernel_inv k" "running_thread c k = Some t"
  shows "live k t" "core_id (threads k t) = c" "status (threads k t) = Running" "current_thread (managers k c) = Some t"
  using assms kernel_invD(10) [OF assms(1)] by (auto simp: running_thread_def current_ok_def split: option.splits if_splits)

lemma world_timing [simp]:
  "world (UnscheduleEvent ty ud s) = world s" "ScheduleEvent cyc ty ud co ts s = Some s' \<Longrightarrow> world s' = world s"
  by (auto simp: UnscheduleEvent_def ScheduleEvent_def upd_timer_def Let_def split: if_splits option.splits bind_splits)

text \<open>The state after a choice of the scheduler: \<open>next\<close> runs, the thread that ran is ready again.\<close>

definition switched :: "nat \<Rightarrow> tid option \<Rightarrow> Kernel \<Rightarrow> Kernel \<Rightarrow> bool" where
  "switched c next k k' \<longleftrightarrow>
     reranked k k' \<and>
     (\<forall>u. status (threads k' u) = (if next = Some u then Running
        else if running_thread c k = Some u then Ready else status (threads k u))) \<and>
     (\<forall>d. current_thread (managers k' d) = (if d = c then next else current_thread (managers k d)))"

lemma current_ok_switched:
  assumes k: "kernel_inv k" and s: "switched c next k k'" and n: "\<And>t. next = Some t \<Longrightarrow> live k t \<and> core_id (threads k t) = c"
  shows "current_ok k'"
proof -
  have e: "live k' = live k" "\<And>u. core_id (threads k' u) = core_id (threads k u)"
    "\<And>u. status (threads k' u) = (if next = Some u then Running else if running_thread c k = Some u then Ready else status (threads k u))"
    "\<And>d. current_thread (managers k' d) = (if d = c then next else current_thread (managers k d))"
    using s by (auto simp: switched_def reranked_def live_def fun_eq_iff)
  note cur = kernel_invD(10) [OF k, unfolded current_ok_def]
  have run: "running_thread c k = Some t" if "live k t" "status (threads k t) = Running" "core_id (threads k t) = c" for t
  proof -
    have "current_thread (managers k c) = Some t" using that cur by blast
    then show ?thesis using that(2) by (simp add: running_thread_def)
  qed
  show ?thesis unfolding current_ok_def e using cur n run by (auto split: if_splits)
qed

lemma SwitchContext_ok:
  assumes k: "kernel_inv k" and c: "c < num_cores k" and w: "world s = upd_queue c (\<lambda>_. q) k"
    and q: "tql_ok 64 q" "linked q = linked (rqueue k c)" "\<And>r. distinct (level_data q r)"
      "\<And>u r. u \<in> set (level_data q r) \<longleftrightarrow> u \<in> set (level_data (rqueue k c) r) \<and> found \<noteq> Some u"
    and best: "best_thread k c found" and n: "n = (if found = None then running_thread c k else found)"
    and r: "SwitchContext env c n s = Some s'"
  shows "switched c n k (world s')" "kernel_inv (world s')"
proof -
  let ?k1 = "upd_queue c (\<lambda>_. q) k" and ?prio = "\<lambda>t. current_priority (threads k t)"
  define k2 where "k2 = (case current_thread (managers k c) of None \<Rightarrow> ?k1 | Some p \<Rightarrow> save_previous c p (Timer_GetTicks (timers s ! c)) ?k1)"
  note rd = running_threadD [OF k]
  have cur: "core_id (threads ?k1 p) = c" if "current_thread (managers k c) = Some p" for p
    using that kernel_invD(10) [OF k] by (simp add: current_ok_def upd_queue_def upd_manager_def)
  have r2: "reranked k k2"
    using reranked_trans [OF reranked_simps(2) save_previous_fields(3) [OF cur]] by (simp add: k2_def split: option.split)
  have s2: "status (threads k2 u) = (if running_thread c k = Some u then Ready else status (threads k u))" for u
    using save_previous_fields(1) [OF cur] by (auto simp: k2_def running_thread_def upd_queue_def upd_manager_def split: option.split)
  have q2: "rqueue k2 d = (if d = c then (case running_thread c k of None \<Rightarrow> q | Some p \<Rightarrow> push_front (?prio p) p q) else rqueue k d)"
    and c2: "current_thread (managers k2 d) = current_thread (managers k d)" for d
    using save_previous_fields(2) [OF cur] by (auto simp: k2_def running_thread_def upd_queue_def upd_manager_def split: option.split)
  have n_live: "live k t" "core_id (threads k t) = c" "status (threads k2 t) = Ready" if "n = Some t" for t
    using that best n rd s2 [of t] by (auto simp: best_thread_def schedulable_def split: if_splits option.splits)
  have rd': "?prio p < 64" "linked q (?prio p)" if "running_thread c k = Some p" for p
    using queue_okD(2,4) [OF kernel_invD(3) [OF k] rd(1) [OF that]] rd(2) [OF that] q(2) by simp_all
  have q2': "tql_ok 64 (rqueue k2 c)" "linked (rqueue k2 c) = linked q"
    "u \<in> set (level_data (rqueue k2 c) r) \<longleftrightarrow> u \<in> set (level_data q r) \<or> running_thread c k = Some u \<and> r = ?prio u"
    "distinct (level_data (rqueue k2 c) r)" for u r
  proof -
    have "tql_ok 64 (rqueue k2 c) \<and> linked (rqueue k2 c) = linked q \<and>
      (u \<in> set (level_data (rqueue k2 c) r) \<longleftrightarrow> u \<in> set (level_data q r) \<or> running_thread c k = Some u \<and> r = ?prio u) \<and>
      distinct (level_data (rqueue k2 c) r)"
    proof (cases "running_thread c k")
      case (Some p)
      have "p \<notin> set (level_data q (?prio p))"
        using queue_members(3) [OF kernel_invD(3) [OF k] c, of p "?prio p"] rd(3) [OF Some] q(4) by simp
      then show ?thesis using rq.put_front_law [OF q(1) rd'(2,1) [OF Some], of p] q2 [of c] Some q(3) by auto
    qed (use q2 [of c] q(1,3) in simp)
    then show "tql_ok 64 (rqueue k2 c)" "linked (rqueue k2 c) = linked q"
      "u \<in> set (level_data (rqueue k2 c) r) \<longleftrightarrow> u \<in> set (level_data q r) \<or> running_thread c k = Some u \<and> r = ?prio u"
      "distinct (level_data (rqueue k2 c) r)" by blast+
  qed
  note m0 = queue_members(3) [OF kernel_invD(3) [OF k] c]
  have p2: "current_priority (threads k2 u) = ?prio u" for u using r2 by (simp add: reranked_def)
  have main: "switched c n k (world s') \<and> tql_ok 64 (rqueue (world s') c) \<and> linked (rqueue (world s') c) = linked q \<and>
      (\<forall>p. distinct (level_data (rqueue (world s') c) p)) \<and> (\<forall>d. d \<noteq> c \<longrightarrow> rqueue (world s') d = rqueue k d) \<and>
      (\<forall>u p. u \<in> set (level_data (rqueue (world s') c) p) \<longleftrightarrow> u \<in> set (level_data (rqueue k2 c) p) \<and> n \<noteq> Some u)"
  proof (cases n)
    case None
    then have none: "found = None" "running_thread c k = None" using n by (auto split: if_splits)
    have "world s' = upd_manager c (\<lambda>m. m\<lparr>current_thread := None\<rparr>) k2"
      using r None w by (auto simp: SwitchContext_def k2_def updk_def Let_def upd_queue_def upd_manager_def split: option.splits)
    then show ?thesis using reranked_trans [OF r2 reranked_simps(4)] q2 q2' none c2 s2 None
      by (auto simp: switched_def upd_manager_def)
  next
    case (Some t)
    have "load_new env c (map_option (\<lambda>p. owner_process (threads (world s) p)) (current_thread (managers (world s) c))) t k2 = Some (world s')"
      using r Some w by (auto simp: SwitchContext_def k2_def updk_def onk_def Let_def upd_queue_def upd_manager_def split: option.splits if_splits)
    note f = load_new_fields [OF this]
    have law: "tql_ok 64 (tql_remove (?prio t) t (rqueue k2 c))"
      "level_data (tql_remove (?prio t) t (rqueue k2 c)) = (level_data (rqueue k2 c))(?prio t := removeAll t (level_data (rqueue k2 c) (?prio t)))"
      "linked (tql_remove (?prio t) t (rqueue k2 c)) = linked (rqueue k2 c)"
      using rq.take_out_law [OF q2'(1), of "?prio t" t] by auto
    have lev: "t \<in> set (level_data (rqueue k2 c) p) \<Longrightarrow> p = ?prio t" for p using q2'(3) [of t p] q(4) [of t p] m0 [of t p] by auto
    have "rqueue (world s') c = tql_remove (?prio t) t (rqueue k2 c)" "\<And>d. d \<noteq> c \<Longrightarrow> rqueue (world s') d = rqueue k d"
      using f(3) p2 q2 by auto
    moreover have "switched c n k (world s')"
      using f(1,2,4) n_live(3) [OF Some] reranked_trans [OF r2] s2 c2 Some by (auto simp: switched_def)
    ultimately show ?thesis using law lev q2'(2,4) Some by (auto simp: distinct_removeAll)
  qed
  then have sw: "switched c n k (world s')" by blast
  then have rr: "reranked k (world s')" and st: "\<And>u. status (threads (world s') u) = (if n = Some u then Running
      else if running_thread c k = Some u then Ready else status (threads k u))" by (auto simp: switched_def)
  have core: "core_id (threads k u) = c" if "n = Some u \<or> running_thread c k = Some u" for u using that n_live(2) rd(2) by blast
  have "queue_ok (world s')"
  proof (rule queue_ok_rerank [OF kernel_invD(3) [OF k] rr c])
    show "u \<in> set (level_data (rqueue (world s') c) p) \<longleftrightarrow>
        live k u \<and> status (threads (world s') u) = Ready \<and> ?prio u = p \<and> core_id (threads k u) = c" for p u
    proof -
      have "u \<in> set (level_data (rqueue (world s') c) p) \<longleftrightarrow>
          ((u \<in> set (level_data (rqueue k c) p) \<and> found \<noteq> Some u) \<or> running_thread c k = Some u \<and> p = ?prio u) \<and> n \<noteq> Some u"
        using main q2'(3) q(4) by blast
      moreover have "found \<noteq> Some u" if "n \<noteq> Some u" using that n by auto
      ultimately show ?thesis using m0 st rd(1,2) by auto
    qed
  qed (use main st core q(2) in auto)
  moreover have "current_ok (world s')" by (rule current_ok_switched [OF k sw]) (use n_live in blast)
  ultimately show "switched c n k (world s')" "kernel_inv (world s')" using reranked_inv [OF k rr] sw by blast+
qed

text \<open>The choice itself: the running thread unless a better one is ready.\<close>

definition choice :: "Kernel \<Rightarrow> nat \<Rightarrow> tid option \<Rightarrow> bool" where
  "choice k c next \<longleftrightarrow> (\<exists>found. next = (if found = None then running_thread c k else found) \<and> best_thread k c found)"

lemma choiceD:
  assumes "choice k c (Some t)"
  shows "running_thread c k = Some t \<or> schedulable k c t"
    "schedulable k c u \<Longrightarrow> current_priority (threads k t) \<le> current_priority (threads k u)"
    "running_thread c k = Some u \<Longrightarrow> u \<noteq> t \<Longrightarrow> current_priority (threads k t) < current_priority (threads k u)"
  using assms by (auto simp: choice_def best_thread_def split: if_splits option.splits)

lemma choice_None: "choice k c None \<Longrightarrow> running_thread c k = None \<and> \<not> schedulable k c u"
  by (auto simp: choice_def best_thread_def split: if_splits)

lemma Reschedule_ok:
  assumes k: "kernel_inv (world s)" and c: "c < num_cores (world s)" and r: "Reschedule env c s = Some s'"
  shows "\<exists>next. choice (world s) c next \<and> switched c next (world s) (world s') \<and> kernel_inv (world s')"
proof -
  obtain found q where *: "PopNextReadyThread c (world s) =
      Some (if found = None then running_thread c (world s) else found, upd_queue c (\<lambda>_. q) (world s))"
    "best_thread (world s) c found" "tql_ok 64 q" "linked q = linked (rqueue (world s) c)" "\<And>r. distinct (level_data q r)"
    "\<And>u r. u \<in> set (level_data q r) \<longleftrightarrow> u \<in> set (level_data (rqueue (world s) c) r) \<and> found \<noteq> Some u"
    using PopNextReadyThread_ok [OF k c] by blast
  define n where "n = (if found = None then running_thread c (world s) else found)"
  define k1 where "k1 = upd_queue c (\<lambda>_. q) (world s)"
  have ch: "choice (world s) c n" using *(2) by (auto simp: choice_def n_def)
  have cur: "current_thread (managers k1 c) = current_thread (managers (world s) c)" by (simp add: k1_def upd_queue_def upd_manager_def)
  show ?thesis
  proof (cases "current_thread (managers (world s) c) = None \<and> n = None")
    case True
    then have w: "world s' = k1" using r *(1) cur by (auto simp: Reschedule_def n_def k1_def)
    have f: "found = None" "running_thread c (world s) = None" using True by (auto simp: n_def split: if_splits)
    have rr: "reranked (world s) k1" by (simp add: k1_def)
    have th: "threads k1 = threads (world s)" "\<And>d. current_thread (managers k1 d) = current_thread (managers (world s) d)"
      "rqueue k1 c = q" "\<And>d. d \<noteq> c \<Longrightarrow> rqueue k1 d = rqueue (world s) d"
      by (auto simp: k1_def upd_queue_def upd_manager_def)
    have sw: "switched c n (world s) k1" using True rr f th by (simp add: switched_def)
    have "queue_ok k1"
      by (rule queue_ok_rerank [OF kernel_invD(3) [OF k] rr c])
        (use *(3-6) f th queue_members(3) [OF kernel_invD(3) [OF k] c] in auto)
    moreover have "current_ok k1" by (rule current_ok_switched [OF k sw]) (use True in simp)
    ultimately show ?thesis using w ch sw reranked_inv [OF k rr] by blast
  next
    case False
    have "SwitchContext env c n (s\<lparr>world := k1\<rparr>) = Some s'"
      using r *(1) cur False by (auto simp: Reschedule_def n_def [symmetric] k1_def [symmetric] split: if_splits)
    then show ?thesis using SwitchContext_ok [OF k c _ *(3-6) *(2) n_def, of "s\<lparr>world := k1\<rparr>" env s'] ch by (auto simp: k1_def)
  qed
qed

lemma switched_frame:
  assumes "switched c next k k'"
  shows "num_cores k' = num_cores k" "processes k' = processes k"
  using assms by (simp_all add: switched_def reranked_def)

lemma reschedule_cores_ok:
  "kernel_inv (world s) \<Longrightarrow> \<forall>c \<in> set cs. c < num_cores (world s) \<Longrightarrow> reschedule_cores env cs s = Some s' \<Longrightarrow> kernel_inv (world s')"
proof (induction cs arbitrary: s)
  case (Cons c cs)
  then obtain s1 where s1: "Reschedule env c s = Some s1" "reschedule_cores env cs s1 = Some s'" by (auto split: bind_splits)
  obtain n where "switched c n (world s) (world s1)" "kernel_inv (world s1)" using Reschedule_ok [OF Cons.prems(1) _ s1(1)] Cons.prems(2) by auto
  then show ?case using Cons.IH [OF _ _ s1(2)] Cons.prems(2) switched_frame(1) by auto
qed simp

text \<open>The invariant does not depend on the other parts of the kernel.\<close>

lemma kernel_inv_same:
  assumes "threads k' = threads k" "waiting_threads k' = waiting_threads k" "bodies k' = bodies k" "arbiters k' = arbiters k"
    "\<And>c. current_thread (managers k' c) = current_thread (managers k c)" "\<And>c. rqueue k' c = rqueue k c"
    "num_cores k' = num_cores k" "next_thread_id k' = next_thread_id k" "next_object k' = next_object k" "next_arbiter k' = next_arbiter k"
  shows "kernel_inv k' = kernel_inv k"
proof -
  have e: "is_mutex k' = is_mutex k" "mutex_of k' = mutex_of k" "live k' = live k"
    using assms by (auto simp: is_mutex_def mutex_of_def live_def fun_eq_iff)
  have q: "queue_ok k' = queue_ok k" by (rule queue_ok_cong) (use assms in auto)
  show ?thesis unfolding kernel_inv_def kernel_ok_def relation_ok_def wait_ok_def mutex_ok_def callback_ok_def arb_ok_def
      current_ok_def fresh_ok_def holders_ok_def dead_ok_def e q assms(1-5) assms(8-10) by (rule refl)
qed

lemma kernel_inv_other [simp]:
  "kernel_inv (k\<lparr>reschedule_pending := b\<rparr>) = kernel_inv k" "kernel_inv (k\<lparr>limits := l\<rparr>) = kernel_inv k"
  "kernel_inv (k\<lparr>processes := ps\<rparr>) = kernel_inv k" "kernel_inv (k\<lparr>kmem := m\<rparr>) = kernel_inv k"
  "kernel_inv (k\<lparr>current_cpu := c\<rparr>) = kernel_inv k" "kernel_inv (upd_context t f k) = kernel_inv k"
  "kernel_inv (SetReg i v k) = kernel_inv k"
  "kernel_inv (k\<lparr>next_timer_callback_id := n, timer_callback_table := tb\<rparr>) = kernel_inv k"
  by (rule kernel_inv_same; simp add: SetReg_def upd_context_def)+

lemma System_Reschedule_ok:
  assumes "kernel_inv (world s)" "System_Reschedule env s = Some s'"
  shows "kernel_inv (world s')"
  using assms reschedule_cores_ok [of "updk (\<lambda>k. k\<lparr>reschedule_pending := False\<rparr>) s" "[0..<num_cores (world s)]" env s']
  by (auto simp: System_Reschedule_def updk_def split: if_splits)

lemma SetRunningCPU_ok:
  assumes "kernel_inv (world s)" "SetRunningCPU env c s = Some s'"
  shows "kernel_inv (world s')"
proof -
  have "kernel_inv (world s') = kernel_inv (world s)"
    using assms(2) by (intro kernel_inv_same)
      (auto simp: SetRunningCPU_def SetCurrentTimer_def updk_def onk_def SetCurrentProcess_def SetCurrentMemoryPageTable_def Let_def
        split: if_splits option.splits)
  then show ?thesis using assms(1) by simp
qed

section \<open>The scheduler never aborts\<close>

definition export_total :: "hle_env \<Rightarrow> bool" where
  "export_total env \<longleftrightarrow> (\<forall>m. \<exists>m'. party_export env m = Some m')"

lemma load_new_total:
  assumes "export_total env"
  shows "\<exists>k'. load_new env c previous n k = Some k'"
  using assms by (auto simp: load_new_def SetCurrentProcessForCPU_def SetCurrentMemoryPageTable_def export_total_def split: bind_splits if_splits)
    (metis option.distinct(1))+

lemma Reschedule_total:
  assumes env: "export_total env" and k: "kernel_inv (world s)" and c: "c < num_cores (world s)"
  shows "\<exists>s'. Reschedule env c s = Some s'"
proof -
  obtain found q where p: "PopNextReadyThread c (world s) =
      Some (if found = None then running_thread c (world s) else found, upd_queue c (\<lambda>_. q) (world s))"
    and b: "best_thread (world s) c found" using PopNextReadyThread_ok [OF k c] by blast
  define n where "n = (if found = None then running_thread c (world s) else found)"
  define s1 where "s1 = s\<lparr>world := upd_queue c (\<lambda>_. q) (world s)\<rparr>"
  have e: "current_thread (managers (world s1) c) = current_thread (managers (world s) c)" "threads (world s1) = threads (world s)"
    by (simp_all add: s1_def upd_queue_def upd_manager_def)
  have ready: "status (threads (world (case current_thread (managers (world s1) c) of None \<Rightarrow> s1
      | Some p \<Rightarrow> updk (save_previous c p (Timer_GetTicks (timers s1 ! c))) s1)) t) = Ready" if "n = Some t" for t
  proof -
    have "running_thread c (world s) = Some t \<or> status (threads (world s) t) = Ready"
      using that b by (auto simp: n_def best_thread_def schedulable_def split: if_splits option.splits)
    then show ?thesis using e kernel_invD(10) [OF k]
      by (auto simp: running_thread_def updk_def save_previous_fields(1) current_ok_def split: option.splits if_splits)
  qed
  have "\<exists>s'. SwitchContext env c n s1 = Some s'"
  proof (cases n)
    case (Some t)
    then show ?thesis using ready [OF Some] load_new_total [OF env] by (auto simp: SwitchContext_def Let_def onk_def)
  qed (simp add: SwitchContext_def Let_def)
  then show ?thesis using p by (auto simp: Reschedule_def n_def [symmetric] s1_def [symmetric])
qed

end
