(* ===== verification/Kernel_Life.thy ===== *)
theory Kernel_Life
  imports Kernel_Switch
begin

text \<open>
  The life of threads and objects keeps the invariant: the end of a thread, timeouts, timers, priorities
  and the creation of objects and threads.
\<close>

section \<open>The end of a thread\<close>

text \<open>A thread that does not wait dies; until its mutexes are released only \<open>dead_ok\<close> is missing.\<close>

definition killed :: "tid \<Rightarrow> Kernel \<Rightarrow> Kernel" where
  "killed t k =
     upd_thread t (\<lambda>th. th\<lparr>status := Dead\<rparr>)
       (if status (threads k t) = Ready then upd_queue (core_id (threads k t)) (tql_remove (current_priority (threads k t)) t) k else k)"

lemma killed_fields:
  "waiting_threads (killed t k) = waiting_threads k" "arbiters (killed t k) = arbiters k" "live (killed t k) = live k"
  "is_mutex (killed t k) = is_mutex k" "mutex_of (killed t k) = mutex_of k" "next_object (killed t k) = next_object k"
  "next_arbiter (killed t k) = next_arbiter k" "next_thread_id (killed t k) = next_thread_id k"
  "current_thread (managers (killed t k) c) = current_thread (managers k c)"
  "threads (killed t k) u = (if u = t then (threads k t)\<lparr>status := Dead\<rparr> else threads k u)"
  by (auto simp: killed_def kernel_upd_defs live_def is_mutex_def mutex_of_def fun_eq_iff)

lemma kernel_ok_killed:
  assumes k: "kernel_inv k" and t: "live k t" "wait_objects (threads k t) = []" "\<And>a. t \<notin> set (arbiters k a)"
  shows "kernel_ok (killed t k)"
proof -
  note f = killed_fields(1-9)
  have th: "wait_objects (threads (killed t k) u) = wait_objects (threads k u)" "held_mutexes (threads (killed t k) u) = held_mutexes (threads k u)"
    "pending_mutexes (threads (killed t k) u) = pending_mutexes (threads k u)" "core_id (threads (killed t k) u) = core_id (threads k u)"
    "wakeup_callback (threads (killed t k) u) = wakeup_callback (threads k u)"
    "status (threads (killed t k) u) = (if u = t then Dead else status (threads k u))" for u
    by (auto simp: killed_fields(10))
  have "queue_ok (killed t k)"
    unfolding killed_def using kernel_invD(3) [OF k] t(1) by (auto intro: queue_ok_take queue_ok_status)
  moreover have "wait_ok (killed t k)"
    using kernel_invD(6) [OF k] t(2) unfolding wait_ok_def f th by auto
  moreover have "mutex_ok (killed t k)"
  proof -
    have nd: "status (threads k u) \<noteq> Dead" if "status (threads (killed t k) u) \<noteq> Dead" for u using that th(6) [of u] by (auto split: if_splits)
    show ?thesis using kernel_invD(7) [OF k] nd unfolding mutex_ok_def killed_fields(1-9) th(1-3) by blast
  qed
  moreover have "callback_ok (killed t k)"
    using kernel_invD(8) [OF k] unfolding callback_ok_def f th by auto
  moreover have "arb_ok (killed t k)"
  proof -
    note ar = arb_okD [OF kernel_invD(9) [OF k]]
    have "status (threads (killed t k) u) = WaitArb" if "u \<in> set (arbiters k a)" for u a using ar(2) [OF that] that t(3) by (auto simp: th(6))
    then show ?thesis unfolding arb_ok_def killed_fields(1-9) th(5) using ar(1,3-5) by blast
  qed
  moreover have "current_ok (killed t k)"
    using kernel_invD(10) [OF k] unfolding current_ok_def f th by auto
  moreover have "fresh_ok (killed t k)" using kernel_invD(11) [OF k] unfolding fresh_ok_def f .
  moreover have "holders_ok (killed t k)" using kernel_invD(5) [OF k] unfolding holders_ok_def f th .
  ultimately show ?thesis by (simp add: kernel_ok_def relation_ok_def)
qed

text \<open>The other dead threads hold nothing.\<close>

definition others_dead_ok :: "tid \<Rightarrow> Kernel \<Rightarrow> bool" where
  "others_dead_ok t k \<longleftrightarrow> (\<forall>u. u \<noteq> t \<and> status (threads k u) = Dead \<longrightarrow> held_mutexes (threads k u) = [])"

lemma others_dead_wake: "wake_frame k k' \<Longrightarrow> others_dead_ok t k \<Longrightarrow> others_dead_ok t k'"
  by (simp add: wake_frame_def others_dead_ok_def)

lemma holding_is_mutex: "holding_thread (mutex_of k i) = Some t \<Longrightarrow> bodies k i = B_Mutex (mutex_of k i)"
  by (auto simp: mutex_of_def split: body.splits)

text \<open>What the loop over the mutexes of a dead thread keeps; \<open>is\<close> are the mutexes still to release.\<close>

definition dying :: "tid \<Rightarrow> nat list \<Rightarrow> Kernel \<Rightarrow> bool" where
  "dying t is k \<longleftrightarrow> kernel_ok k \<and> others_dead_ok t k \<and> status (threads k t) = Dead \<and>
     (\<forall>i. holding_thread (mutex_of k i) = Some t \<longleftrightarrow> i \<in> set is)"

lemma dying_wake:
  assumes "env_ok env" "dying t is k" "WakeupAllWaitingThreads env ob k = Some k'"
  shows "dying t is k'"
proof -
  have "kernel_ok k'" "wake_frame k k'" using WakeupAllWaitingThreads_ok [OF assms(1) _ assms(3)] assms(2) by (auto simp: dying_def)
  then show ?thesis using assms(2) others_dead_wake by (auto simp: dying_def wake_frame_def)
qed

lemma release_mutexes_ok:
  "env_ok env \<Longrightarrow> dying t is k \<Longrightarrow> distinct is \<Longrightarrow> release_mutexes env is k = Some k' \<Longrightarrow> dying t [] k'"
proof (induction "is" arbitrary: k)
  case (Cons i "is")
  let ?k1 = "set_body i (B_Mutex ((mutex_of k i)\<lparr>lock_count := 0, holding_thread := None\<rparr>)) k"
  obtain k2 where k2: "WakeupAllWaitingThreads env (Obj i) ?k1 = Some k2" "release_mutexes env is k2 = Some k'"
    using Cons.prems(4) by (auto split: bind_splits)
  have h: "holding_thread (mutex_of k i) = Some t" "status (threads k t) = Dead" using Cons.prems(2) by (auto simp: dying_def)
  note b = holding_is_mutex [OF h(1)]
  have e: "?k1 = given_up i (mutex_of k i) t id k"
    by (intro Kernel.equality) (auto simp: given_up_def kernel_upd_defs)
  have "kernel_ok ?k1" unfolding e using kernel_ok_given_up [OF _ b h(1), of id] Cons.prems(2) h(2) by (auto simp: dying_def)
  moreover have "others_dead_ok t ?k1" using Cons.prems(2) by (auto simp: dying_def others_dead_ok_def)
  ultimately have "dying t is ?k1" using Cons.prems(2,3) h(2) by (auto simp: dying_def)
  then show ?case using dying_wake [OF Cons.prems(1) _ k2(1)] Cons.IH [OF Cons.prems(1) _ _ k2(2)] Cons.prems(3) by auto
qed simp

lemma dying_end:
  assumes "dying t [] k"
  shows "kernel_inv (upd_thread t (\<lambda>th. th\<lparr>held_mutexes := []\<rparr>) k)" (is "kernel_inv ?k")
proof -
  have k: "kernel_ok k" and o: "others_dead_ok t k" and d: "status (threads k t) = Dead"
    and h: "\<And>i. holding_thread (mutex_of k i) \<noteq> Some t" using assms by (auto simp: dying_def)
  have he: "held_mutexes (threads ?k u) = (if u = t then [] else held_mutexes (threads k u))" for u by simp
  have e: "is_mutex ?k = is_mutex k" "mutex_of ?k = mutex_of k" "\<And>u. status (threads ?k u) = status (threads k u)"
    "\<And>u. pending_mutexes (threads ?k u) = pending_mutexes (threads k u)" "\<And>u. wait_objects (threads ?k u) = wait_objects (threads k u)"
    by (simp_all add: fun_eq_iff)
  note m = mutex_okD [OF kernel_okD(5) [OF k]]
  have "mutex_ok ?k"
  proof -
    have "i \<in> set (held_mutexes (threads ?k u))" if "is_mutex k i" "holding_thread (mutex_of k i) = Some u" for u i
      using m(5) [OF that] that(2) h by (auto simp: he)
    moreover have "is_mutex k i \<and> holding_thread (mutex_of k i) = Some u"
      if "i \<in> set (held_mutexes (threads ?k u))" "status (threads k u) \<noteq> Dead" for u i
      using m(1) [of i u] that by (auto simp: he split: if_splits)
    ultimately show ?thesis unfolding mutex_ok_def e using m(2-4) by blast
  qed
  moreover have "same_rel k ?k" by (auto simp: same_rel_def fun_eq_iff) (auto simp: kernel_upd_defs)
  ultimately have "relation_ok ?k" by (intro relation_ok_same_rel [OF kernel_okD(2) [OF k]])
  moreover have "queue_ok ?k" using kernel_okD(1) [OF k] by (simp add: queue_ok_upd_thread)
  moreover have "holders_ok ?k" using kernel_okD(3) [OF k] by (auto simp: holders_ok_def)
  moreover have "dead_ok ?k" using o by (auto simp: dead_ok_def others_dead_ok_def)
  ultimately show ?thesis by (simp add: kernel_inv_def kernel_ok_def)
qed

lemma clear_nothing: "wait_objects (threads k t) = [] \<Longrightarrow> clear_wait_objects t k = k"
  by (intro Kernel.equality) (auto simp: clear_wait_objects_def upd_thread_def split: if_splits intro!: ext Thread.equality)

text \<open>The part of \<open>Stop\<close> after the thread was marked dead.\<close>

definition bury :: "hle_env \<Rightarrow> tid \<Rightarrow> Kernel \<Rightarrow> Kernel option" where
  "bury env t k =
     do {
       k \<leftarrow> WakeupAllWaitingThreads env (Obj_Thread t) k;
       k \<leftarrow> ReleaseThreadMutexes env t (clear_wait_objects t k);
       Some (free_tls t k)
     }"

lemma bury_ok:
  assumes env: "env_ok env" and k: "kernel_inv k" and t: "live k t" "wait_objects (threads k t) = []" "\<And>a. t \<notin> set (arbiters k a)"
    and r: "bury env t (killed t k) = Some k'"
  shows "kernel_inv k'"
proof -
  let ?L = "held_mutexes (threads k t)"
  have "dying t ?L (killed t k)"
  proof -
    note m = mutex_okD [OF kernel_invD(7) [OF k]]
    have "holding_thread (mutex_of k i) = Some t \<longleftrightarrow> i \<in> set ?L" for i
    proof (cases "status (threads k t) = Dead")
      case True
      then have "?L = []" using kernel_invD(2) [OF k] by (simp add: dead_ok_def)
      then show ?thesis using m(5) [of i t] holding_is_mutex [of k i t] by (auto simp: is_mutex_def)
    next
      case False
      then show ?thesis using m(1,5) [of i t] holding_is_mutex [of k i t] by (auto simp: is_mutex_def)
    qed
    moreover have "others_dead_ok t (killed t k)"
      using kernel_invD(2) [OF k] by (simp add: others_dead_ok_def dead_ok_def killed_fields)
    ultimately show ?thesis using kernel_ok_killed [OF k t] by (simp add: dying_def killed_fields)
  qed
  moreover obtain k1 k2 where k1: "WakeupAllWaitingThreads env (Obj_Thread t) (killed t k) = Some k1"
    and k2: "ReleaseThreadMutexes env t (clear_wait_objects t k1) = Some k2" "k' = free_tls t k2"
    using r by (auto simp: bury_def split: bind_splits)
  ultimately have d1: "dying t ?L k1" using dying_wake [OF env _ k1] by blast
  then have w: "wait_objects (threads k1 t) = []"
    using wait_okD(3) [OF kernel_okD(4), of k1 _ t] by (cases "wait_objects (threads k1 t)") (auto simp: dying_def waits_for_objects_def)
  have "wake_frame (killed t k) k1" using WakeupAllWaitingThreads_ok(2) [OF env kernel_ok_killed [OF k t] k1] .
  then have L: "held_mutexes (threads k1 t) = ?L" by (simp add: wake_frame_def killed_fields)
  have "distinct ?L" using kernel_invD(5) [OF k] by (simp add: holders_ok_def)
  moreover obtain k3 where "release_mutexes env ?L k1 = Some k3" "k2 = upd_thread t (\<lambda>th. th\<lparr>held_mutexes := []\<rparr>) k3"
    using k2(1) clear_nothing [OF w] L by (auto simp: ReleaseThreadMutexes_def split: bind_splits)
  ultimately have "kernel_inv k2" using release_mutexes_ok [OF env d1] dying_end by blast
  moreover have "kernel_inv (free_tls t k2) = kernel_inv k2" by (rule kernel_inv_same) (simp_all add: free_tls_def Let_def)
  ultimately show ?thesis using k2(2) by simp
qed

lemma Stop_ok:
  assumes env: "env_ok env" and k: "kernel_inv (world s)"
    and t: "live (world s) t" "wait_objects (threads (world s) t) = []" "\<And>a. t \<notin> set (arbiters (world s) a)"
    and r: "Stop env t s = Some s'"
  shows "kernel_inv (world s')"
proof -
  let ?c = "core_id (threads (world s) t)"
  define k0 where "k0 = upd_manager ?c (\<lambda>m. m\<lparr>wakeup_callback_table := (wakeup_callback_table m)(t := None)\<rparr>) (world s)"
  have k0: "kernel_inv k0" "live k0 t" "wait_objects (threads k0 t) = []" "\<And>a. t \<notin> set (arbiters k0 a)"
    using kernel_inv_same [of k0 "world s"] k t by (auto simp: k0_def upd_manager_def live_def)
  have "bury env t (killed t k0) = Some (world s')"
    using r by (auto simp: Stop_def bury_def killed_def k0_def updk_def onk_def Let_def split: if_splits)
  then show ?thesis by (rule bury_ok [OF env k0])
qed

lemma ExitCurrentThread_ok:
  assumes env: "env_ok env" and k: "kernel_inv (world s)"
    and t: "current_thread (managers (world s) c) = Some t" "status (threads (world s) t) = Running"
    and r: "ExitCurrentThread env c s = Some s'"
  shows "kernel_inv (world s')"
proof -
  have lv: "live (world s) t" using kernel_invD(10) [OF k] t(1) by (simp add: current_ok_def)
  obtain s1 where s1: "Stop env t s = Some s1"
    "world s' = PrepareReschedule (upd_manager c (\<lambda>m. m\<lparr>thread_list := removeAll t (thread_list m)\<rparr>) (world s1))"
    using r t(1) by (auto simp: ExitCurrentThread_def updk_def split: bind_splits)
  have "kernel_inv (world s1)" by (rule Stop_ok [OF env k lv _ _ s1(1)]) (use running_free [OF k t(2)] in auto)
  moreover have "kernel_inv (upd_manager c (\<lambda>m. m\<lparr>thread_list := removeAll t (thread_list m)\<rparr>) (world s1)) = kernel_inv (world s1)"
    by (rule kernel_inv_same) (simp_all add: upd_manager_def)
  ultimately show ?thesis by (simp add: s1(2))
qed

section \<open>Timeouts\<close>

text \<open>
  A wake-up event of a thread is scheduled when the thread starts to wait and removed when it is switched
  to; a thread that waits at an arbiter without a timeout has none.
\<close>

definition timeout_due :: "Kernel \<Rightarrow> tid \<Rightarrow> bool" where
  "timeout_due k t \<longleftrightarrow> live k t \<and> (status (threads k t) = WaitArb \<longrightarrow> (\<exists>a. wakeup_callback (threads k t) = Some (ArbiterCallback a)))"

lemma kernel_inv_clear:
  assumes "kernel_inv k"
  shows "kernel_inv (clear_wait_objects t k)" "view (clear_wait_objects t k) = view (cleared t k)"
proof -
  show v: "view (clear_wait_objects t k) = view (cleared t k)" by (rule view_clear_wait_objects [OF kernel_invD(6) [OF assms]])
  have "relation_ok (cleared t k)" by (rule relation_ok_cleared [OF kernel_invD(4) [OF assms]])
  moreover have "holders_ok (cleared t k)" "dead_ok (cleared t k)" using kernel_invD(2,5) [OF assms] by (simp_all add: holders_ok_def dead_ok_def)
  moreover have "queue_ok (clear_wait_objects t k)" using kernel_invD [OF assms] by (intro queue_ok_clear_wait_objects)
  ultimately show "kernel_inv (clear_wait_objects t k)"
    using relation_ok_cong [OF v] holders_ok_cong [OF v] dead_ok_cong [OF v] by (simp add: kernel_inv_def kernel_ok_def)
qed

lemma invoke_timeout_sync:
  assumes "env_ok env" "callback_ok k" "waits_for_objects (status (threads k t))"
  shows "\<exists>k'. invoke_callback env Timeout t ob k = Some k' \<and> view k' = view k \<and> queue_ok k' = queue_ok k"
proof (cases "wakeup_callback (threads k t)")
  case (Some cb)
  have "cb \<noteq> ArbiterCallback a" for a using assms(2,3) Some by (auto simp: callback_ok_def waits_for_objects_def)
  moreover have "\<exists>k'. other_wakeup env n Timeout t ob k = Some k' \<and> view k' = view k \<and> queue_ok k' = queue_ok k" for n
    using assms(1) unfolding env_ok_def by (metis view_context_memory queue_ok_neutral(4))
  ultimately show ?thesis using Some
    by (cases cb) (auto simp: invoke_callback_def SetWaitSynchronizationResult_def)
qed (simp add: invoke_callback_def)

text \<open>The callback leaves the thread in no list.\<close>

lemma timeout_leaves:
  assumes env: "env_ok env" and k: "kernel_inv k" and t: "timeout_due k t"
    and st: "status (threads k t) \<in> {WaitSynchAny, WaitSynchAll, WaitArb, WaitHleEvent}"
  shows "\<exists>k'. map_option (clear_wait_objects t) (invoke_callback env Timeout t None k) = Some k' \<and> kernel_inv k' \<and>
    live k' = live k \<and> (\<forall>u. status (threads k' u) = status (threads k u)) \<and> wait_objects (threads k' t) = [] \<and>
    (\<forall>a. t \<notin> set (arbiters k' a))"
proof (cases "status (threads k t) = WaitArb")
  case True
  then obtain a where a: "wakeup_callback (threads k t) = Some (ArbiterCallback a)" using t by (auto simp: timeout_due_def)
  let ?k = "k\<lparr>arbiters := (arbiters k)(a := removeAll t (arbiters k a))\<rparr>"
  note ar = arb_okD [OF kernel_invD(9) [OF k]]
  have i: "kernel_inv ?k" by (rule kernel_inv_arb_shrink [OF k]) (use ar(3) in \<open>auto simp: distinct_removeAll\<close>)
  have w: "wait_objects (threads ?k t) = []" using arb_wait_objects(1) [OF k True] by simp
  have "t \<notin> set (arbiters ?k b)" for b
  proof (cases "b = a")
    case False
    then have "t \<notin> set (arbiters k b)" using ar(5) [OF a] by blast
    then show ?thesis using False by simp
  qed simp
  moreover have "invoke_callback env Timeout t None k = Some ?k" using a by (simp add: invoke_callback_def AddressArbiter_WakeUp_def)
  ultimately show ?thesis using i w clear_nothing [OF w] by (auto simp: live_arbiters)
next
  case False
  then have ws: "waits_for_objects (status (threads k t))" using st by (auto simp: waits_for_objects_def)
  obtain k1 where k1: "invoke_callback env Timeout t None k = Some k1" "view k1 = view k" "queue_ok k1"
    using invoke_timeout_sync [OF env kernel_invD(8) [OF k] ws] kernel_invD(3) [OF k] by blast
  have i1: "kernel_inv k1" by (rule kernel_inv_cong [OF k1(2,3) k])
  note c = kernel_inv_clear [OF i1, of t]
  have "status (threads (clear_wait_objects t k1) u) = status (threads k u)" for u
    using same_view(5) [OF c(2), of u] same_view(5) [OF k1(2), of u] by simp
  moreover have "wait_objects (threads (clear_wait_objects t k1) t) = []" using same_view(6) [OF c(2), of t] by simp
  moreover have "live (clear_wait_objects t k1) = live k" using live_cong [OF c(2)] live_cong [OF k1(2)] by simp
  moreover have "t \<notin> set (arbiters (clear_wait_objects t k1) a)" for a
    using arb_okD(2) [OF kernel_invD(9) [OF c(1)], of t a] calculation(1) [of t] False by auto
  ultimately show ?thesis using k1(1) c(1) by auto
qed

lemma no_wait_objects:
  assumes "kernel_inv k" "\<not> waits_for_objects (status (threads k t))"
  shows "wait_objects (threads k t) = []"
  using kernel_invD(6) [OF assms(1)] assms(2) unfolding wait_ok_def by blast

lemma ThreadWakeupCallback_ok:
  assumes env: "env_ok env" and k: "kernel_inv k" and t: "wakeup_callback_table (managers k c) (unat thread_id) = Some t" "timeout_due k t"
  shows "\<exists>k'. ThreadWakeupCallback env c thread_id k = Some k' \<and> kernel_inv k' \<and>
    (\<forall>u. status (threads k' u) = (if u = t \<and> waiting_status (status (threads k t)) then Ready else status (threads k u)))"
proof (cases "waiting_status (status (threads k t))")
  case False
  then have s: "status (threads k t) = Ready \<or> status (threads k t) = Running \<or> status (threads k t) = Dead" by (auto simp: waiting_status_def)
  then have "wait_objects (threads k t) = []" by (intro no_wait_objects [OF k]) (auto simp: waits_for_objects_def)
  then have "ResumeFromWait t k = Some k" using s kernel_invD(8) [OF k] by (auto simp: ResumeFromWait_def callback_ok_def)
  then show ?thesis using t(1) s k False by (auto simp: ThreadWakeupCallback_def)
next
  case True
  have "\<exists>k1. (if status (threads k t) \<in> {WaitSynchAny, WaitSynchAll, WaitArb, WaitHleEvent}
      then map_option (clear_wait_objects t) (invoke_callback env Timeout t None k) else Some k) = Some k1 \<and> kernel_inv k1 \<and>
    live k1 = live k \<and> (\<forall>u. status (threads k1 u) = status (threads k u)) \<and> wait_objects (threads k1 t) = [] \<and>
    (\<forall>a. t \<notin> set (arbiters k1 a))"
  proof (cases "status (threads k t) \<in> {WaitSynchAny, WaitSynchAll, WaitArb, WaitHleEvent}")
    case True
    then show ?thesis using timeout_leaves [OF env k t(2)] by simp
  next
    case False
    then have "wait_objects (threads k t) = []" by (intro no_wait_objects [OF k]) (auto simp: waits_for_objects_def)
    then show ?thesis using False k arb_okD(2) [OF kernel_invD(9) [OF k], of t] by auto
  qed
  then obtain k1 where k1: "(if status (threads k t) \<in> {WaitSynchAny, WaitSynchAll, WaitArb, WaitHleEvent}
      then map_option (clear_wait_objects t) (invoke_callback env Timeout t None k) else Some k) = Some k1" "kernel_inv k1"
    "live k1 = live k" "\<And>u. status (threads k1 u) = status (threads k u)" "wait_objects (threads k1 t) = []"
    "\<And>a. t \<notin> set (arbiters k1 a)" by blast
  obtain k' where k': "ResumeFromWait t k1 = Some k'" "kernel_inv k'" "view k' = view (awake t k1)"
    using kernel_inv_resume [OF k1(2) _ k1(5) _ k1(6)] k1(3,4) t(2) True by (auto simp: timeout_due_def)
  have "ThreadWakeupCallback env c thread_id k = Some k'" using t(1) k1(1) k'(1) by (simp add: ThreadWakeupCallback_def)
  then show ?thesis using k'(2) view_awake(1) [OF k'(3)] k1(4) True by auto
qed

end
