(* ===== verification/Kernel_Create.thy ===== *)
theory Kernel_Create
  imports Kernel_Life
begin

text \<open>Priorities, timers and the creation of objects and threads keep the invariant of the kernel.\<close>

section \<open>Priorities\<close>

lemma kernel_inv_threads:
  assumes k: "kernel_inv k" and q: "queue_ok k'"
    and th: "\<And>u. (status (threads k' u), wait_objects (threads k' u), held_mutexes (threads k' u), pending_mutexes (threads k' u),
        wakeup_callback (threads k' u), core_id (threads k' u)) =
      (status (threads k u), wait_objects (threads k u), held_mutexes (threads k u), pending_mutexes (threads k u),
        wakeup_callback (threads k u), core_id (threads k u))"
    and e: "waiting_threads k' = waiting_threads k" "bodies k' = bodies k" "arbiters k' = arbiters k"
      "\<And>c. current_thread (managers k' c) = current_thread (managers k c)" "next_thread_id k' = next_thread_id k"
      "next_object k' = next_object k" "next_arbiter k' = next_arbiter k"
  shows "kernel_inv k'"
proof -
  have m: "is_mutex k' = is_mutex k" "mutex_of k' = mutex_of k" "live k' = live k"
    using e by (auto simp: is_mutex_def mutex_of_def live_def fun_eq_iff)
  have t: "status (threads k' u) = status (threads k u)" "wait_objects (threads k' u) = wait_objects (threads k u)"
    "held_mutexes (threads k' u) = held_mutexes (threads k u)" "pending_mutexes (threads k' u) = pending_mutexes (threads k u)"
    "wakeup_callback (threads k' u) = wakeup_callback (threads k u)" "core_id (threads k' u) = core_id (threads k u)" for u
    using th [of u] by auto
  have "wait_ok k' = wait_ok k" "mutex_ok k' = mutex_ok k" "callback_ok k' = callback_ok k" "arb_ok k' = arb_ok k"
    "current_ok k' = current_ok k" "fresh_ok k' = fresh_ok k" "holders_ok k' = holders_ok k" "dead_ok k' = dead_ok k"
    unfolding wait_ok_def mutex_ok_def callback_ok_def arb_ok_def current_ok_def fresh_ok_def holders_ok_def dead_ok_def m t e(1,3-7)
    by (rule refl)+
  then show ?thesis using k q by (simp add: kernel_inv_def kernel_ok_def relation_ok_def)
qed

lemma SetPriority_ok:
  assumes k: "kernel_inv k" and t: "live k t" and r: "SetPriority t p k = Some k'"
  shows "kernel_inv k'"
  by (rule kernel_inv_threads [OF k queue_ok_SetPriority [OF kernel_invD(3) [OF k] t r]])
    (use r in \<open>auto simp: SetPriority_def Let_def kernel_upd_defs split: if_splits\<close>)

lemma Mutex_UpdatePriority_ok:
  assumes "kernel_inv k"
  shows "kernel_inv (Mutex_UpdatePriority i k)"
  by (rule kernel_inv_cong [OF _ _ assms])
    (use holder_live [OF kernel_invD(7,5) [OF assms]] kernel_invD(3) [OF assms] in \<open>auto intro: queue_ok_Mutex_UpdatePriority\<close>)

lemma fold_Mutex_UpdatePriority_ok: "kernel_inv k \<Longrightarrow> kernel_inv (fold Mutex_UpdatePriority is k)"
  by (induction "is" arbitrary: k) (simp_all add: Mutex_UpdatePriority_ok)

lemma UpdatePriority_ok:
  assumes "kernel_inv k" "live k t"
  shows "kernel_inv (UpdatePriority t k)"
  by (rule kernel_inv_cong [OF _ _ assms(1)]) (use kernel_invD(3) [OF assms(1)] assms(2) in \<open>auto intro: queue_ok_UpdatePriority\<close>)

section \<open>Timers\<close>

lemma Timer_Signal_ok:
  assumes env: "env_ok env" and k: "kernel_inv (world s)" and b: "\<not> is_mutex (world s) i"
    and r: "Timer_Signal env i e late s = Some s'"
  shows "kernel_inv (world s')"
proof -
  have "WakeupAllWaitingThreads env (Obj i) (set_body i (B_Timer (e\<lparr>tm_signaled := True\<rparr>)) (world s)) = Some (world s')"
    using r by (auto simp: Timer_Signal_def onk_def updk_def split: bind_splits if_splits)
  then show ?thesis by (rule kernel_inv_body_wakeup [OF env k b, rotated]) simp
qed

lemma Timer_Set_ok:
  assumes env: "env_ok env" and k: "kernel_inv (world s)" and b: "\<not> is_mutex (world s) i"
    and r: "Timer_Set env i e initial interval s = Some s'"
  shows "kernel_inv (world s')"
proof -
  let ?e = "e\<lparr>initial_delay := to_u64 initial, interval_delay := to_u64 interval\<rparr>"
  let ?s = "updk (set_body i (B_Timer ?e)) (Timer_Cancel e s)"
  have i: "kernel_inv (world ?s)" "\<not> is_mutex (world ?s) i"
    using kernel_inv_body [OF k b, of "B_Timer ?e"] by (simp_all add: updk_def Timer_Cancel_def)
  show ?thesis
  proof (cases "initial = 0")
    case True
    then have "Timer_Signal env i ?e 0 ?s = Some s'" using r by (simp add: Timer_Set_def Let_def)
    then show ?thesis by (rule Timer_Signal_ok [OF env i])
  next
    case False
    then show ?thesis using r i(1) by (auto simp: Timer_Set_def Let_def)
  qed
qed

lemma TimerCallback_ok:
  assumes "env_ok env" "kernel_inv (world s)" "TimerCallback env cid late s = Some s'"
  shows "kernel_inv (world s')"
  using assms(3) Timer_Signal_ok [OF assms(1,2) not_mutex(3)] by (auto simp: TimerCallback_def split: bind_splits body.splits)

section \<open>Creation of objects\<close>

lemma fresh_object:
  assumes "kernel_inv k" "next_object k \<le> i"
  shows "\<not> is_mutex k i" "Obj i \<notin> set (wait_objects (threads k t))" "waiting_threads k (Obj i) = []"
    "holding_thread (mutex_of k i) = None" "status (threads k t) \<noteq> Dead \<Longrightarrow> i \<notin> set (held_mutexes (threads k t))"
proof -
  show n: "\<not> is_mutex k i" "waiting_threads k (Obj i) = []" using kernel_invD(11) [OF assms(1)] assms(2) by (auto simp: fresh_ok_def)
  then show "Obj i \<notin> set (wait_objects (threads k t))" using wait_okD(1) [OF kernel_invD(6) [OF assms(1)], of t "Obj i"] by simp
  show "holding_thread (mutex_of k i) = None" using n(1) by (simp add: is_mutex_def mutex_of_def split: body.splits)
  show "status (threads k t) \<noteq> Dead \<Longrightarrow> i \<notin> set (held_mutexes (threads k t))"
    using mutex_okD(1) [OF kernel_invD(7) [OF assms(1)], of i t] n(1) by blast
qed

lemma new_body_ok:
  assumes k: "kernel_inv k" and b: "case b of B_Mutex m \<Rightarrow> lock_count m = 0 \<and> holding_thread m = None | _ \<Rightarrow> True"
  shows "kernel_inv (snd (new_body b k))" (is "kernel_inv ?k")
proof -
  let ?i = "next_object k"
  note fr = fresh_object [OF k order.refl]
  have e: "waiting_threads ?k = waiting_threads k" "threads ?k = threads k" "arbiters ?k = arbiters k" "managers ?k = managers k"
    "live ?k = live k" "next_thread_id ?k = next_thread_id k" "next_arbiter ?k = next_arbiter k" "next_object ?k = Suc ?i"
    by (simp_all add: new_body_def set_body_def live_def fun_eq_iff)
  have mu: "holding_thread (mutex_of ?k j) = holding_thread (mutex_of k j)" "lock_count (mutex_of ?k j) = lock_count (mutex_of k j)" for j
    using b fr(4) mutex_okD(2,3) [OF kernel_invD(7) [OF k], of ?i] by (auto simp: new_body_def set_body_def mutex_of_def split: body.splits)
  have im: "is_mutex ?k j \<longleftrightarrow> is_mutex k j \<or> j = ?i \<and> is_mutex ?k ?i" for j
    using fr(1) by (auto simp: new_body_def set_body_def is_mutex_def)
  have "mutex_ok ?k"
  proof -
    note m = mutex_okD [OF kernel_invD(7) [OF k]]
    have "i \<in> set (held_mutexes (threads k t))" if "is_mutex ?k i" "holding_thread (mutex_of k i) = Some t" for i t
      using m(5) [of i t] that fr(4) im [of i] by auto
    moreover have "is_mutex ?k i" if "i \<in> set (held_mutexes (threads k t))" "status (threads k t) \<noteq> Dead" for i t
      using m(1) [OF that] im [of i] by blast
    moreover have "i \<in> set (pending_mutexes (threads k t)) \<longleftrightarrow> is_mutex ?k i \<and> Obj i \<in> set (wait_objects (threads k t))" for i t
      using m(4) [of i t] fr(2) [of t] im [of i] by blast
    ultimately show ?thesis unfolding mutex_ok_def mu e using m(1-3) by blast
  qed
  moreover have "fresh_ok ?k"
  proof -
    have "\<not> is_mutex ?k j \<and> waiting_threads k (Obj j) = []" if "Suc ?i \<le> j" for j
      using fresh_object(1,3) [OF k, of j] that im [of j] by simp
    then show ?thesis using kernel_invD(11) [OF k] unfolding fresh_ok_def e by blast
  qed
  moreover have "queue_ok ?k = queue_ok k" by (rule queue_ok_cong) (simp_all add: new_body_def set_body_def)
  moreover have "wait_ok ?k = wait_ok k" "callback_ok ?k = callback_ok k" "arb_ok ?k = arb_ok k"
    "current_ok ?k = current_ok k" "holders_ok ?k = holders_ok k" "dead_ok ?k = dead_ok k"
    unfolding wait_ok_def callback_ok_def arb_ok_def current_ok_def holders_ok_def dead_ok_def e by (rule refl)+
  ultimately show ?thesis using kernel_invD [OF k] by (simp add: kernel_inv_def kernel_ok_def relation_ok_def)
qed

lemma Acquire_inv:
  assumes "kernel_inv k" "live k t" "status (threads k t) \<noteq> Dead" "Acquire ob t k = Some k'"
  shows "kernel_inv k'"
  using Acquire_ok [OF kernel_invD(1) [OF assms(1)] assms(2-4)] wake_frame_dead_ok kernel_invD(2) [OF assms(1)] by (auto simp: kernel_inv_def)

lemma acquire_all_inv:
  assumes "kernel_inv k" "live k t" "status (threads k t) \<noteq> Dead" "acquire_all obs t k = Some k'"
  shows "kernel_inv k'"
  using acquire_all_ok [OF kernel_invD(1) [OF assms(1)] assms(2-4)] wake_frame_dead_ok kernel_invD(2) [OF assms(1)] by (auto simp: kernel_inv_def)

lemma CreateSemaphore_ok: "kernel_inv k \<Longrightarrow> CreateSemaphore n m k = Inr (i, k') \<Longrightarrow> kernel_inv k'"
  using new_body_ok [of k "B_Semaphore \<lparr>max_count = m, available_count = n\<rparr>"] by (auto simp: CreateSemaphore_def split: if_splits)

lemma CreateEvent_ok: "kernel_inv k \<Longrightarrow> kernel_inv (snd (CreateEvent ty k))"
  by (simp add: CreateEvent_def new_body_ok)

lemma CreateTimer_ok: "kernel_inv k \<Longrightarrow> kernel_inv (snd (CreateTimer ty k))"
  using new_body_ok [of k] by (auto simp: CreateTimer_def Let_def new_body_def)

lemma CreateMutex_ok:
  assumes k: "kernel_inv k" and t: "\<And>t. GetCurrentThread k = Some t \<Longrightarrow> status (threads k t) \<noteq> Dead"
    and r: "CreateMutex locked k = Some (i, k')"
  shows "kernel_inv k'"
proof -
  let ?b = "B_Mutex \<lparr>lock_count = 0, mtx_priority = 0, holding_thread = None\<rparr>"
  have n: "kernel_inv (snd (new_body ?b k))" by (rule new_body_ok [OF k]) simp
  have e: "GetCurrentThread (snd (new_body ?b k)) = GetCurrentThread k" "threads (snd (new_body ?b k)) = threads k"
    "live (snd (new_body ?b k)) = live k" by (simp_all add: GetCurrentThread_def new_body_def set_body_def live_def fun_eq_iff)
  have lv: "live k t" if "GetCurrentThread k = Some t" for t using that kernel_invD(10) [OF k] by (simp add: GetCurrentThread_def current_ok_def)
  show ?thesis
  proof (cases locked)
    case False
    then show ?thesis using r n by (auto simp: CreateMutex_def Let_def split: prod.splits)
  next
    case True
    then obtain t where t': "GetCurrentThread k = Some t" and a: "Acquire (Obj (fst (new_body ?b k))) t (snd (new_body ?b k)) = Some k'"
      using r e(1) by (auto simp: CreateMutex_def Let_def simp del: Acquire.simps split: prod.splits option.splits)
    show ?thesis by (rule Acquire_inv [OF n _ _ a]) (use e(2,3) lv [OF t'] t [OF t'] in simp_all)
  qed
qed

lemma CreateAddressArbiter_ok:
  assumes k: "kernel_inv k"
  shows "kernel_inv (snd (CreateAddressArbiter k))"
proof -
  have "arbiters k (next_arbiter k) = []" using kernel_invD(11) [OF k] by (simp add: fresh_ok_def)
  then have "(arbiters k)(next_arbiter k := []) = arbiters k" by (rule fun_upd_idem)
  then have e: "snd (CreateAddressArbiter k) = k\<lparr>next_arbiter := next_arbiter k + 1\<rparr>" by (simp add: CreateAddressArbiter_def)
  have m: "is_mutex (k\<lparr>next_arbiter := n\<rparr>) = is_mutex k" "mutex_of (k\<lparr>next_arbiter := n\<rparr>) = mutex_of k" "live (k\<lparr>next_arbiter := n\<rparr>) = live k"
    for n by (auto simp: is_mutex_def mutex_of_def live_def fun_eq_iff)
  have q: "queue_ok (k\<lparr>next_arbiter := n\<rparr>) = queue_ok k" for n by (rule queue_ok_cong) simp_all
  have "wait_ok (k\<lparr>next_arbiter := n\<rparr>) = wait_ok k" "mutex_ok (k\<lparr>next_arbiter := n\<rparr>) = mutex_ok k"
    "callback_ok (k\<lparr>next_arbiter := n\<rparr>) = callback_ok k" "arb_ok (k\<lparr>next_arbiter := n\<rparr>) = arb_ok k"
    "current_ok (k\<lparr>next_arbiter := n\<rparr>) = current_ok k" "holders_ok (k\<lparr>next_arbiter := n\<rparr>) = holders_ok k"
    "dead_ok (k\<lparr>next_arbiter := n\<rparr>) = dead_ok k" for n
    unfolding wait_ok_def mutex_ok_def callback_ok_def arb_ok_def current_ok_def holders_ok_def dead_ok_def m by simp_all
  moreover have "fresh_ok (k\<lparr>next_arbiter := next_arbiter k + 1\<rparr>)" using kernel_invD(11) [OF k] unfolding fresh_ok_def m by simp
  ultimately show ?thesis using kernel_invD [OF k] by (simp add: e q kernel_inv_def kernel_ok_def relation_ok_def)
qed

section \<open>Creation of threads\<close>

text \<open>The number the next thread gets occurs nowhere.\<close>

lemma fresh_thread:
  assumes k: "kernel_inv k" and t: "next_thread_id k \<le> t"
  shows "\<not> live k t" "wait_objects (threads k t) = []" "held_mutexes (threads k t) = []" "t \<notin> set (arbiters k a)"
    "current_thread (managers k c) \<noteq> Some t" "t \<notin> set (waiting_threads k ob)" "pending_mutexes (threads k t) = []"
    "waiting_threads k (Obj_Thread t) = []"
proof -
  show l: "\<not> live k t" using t by (simp add: live_def)
  show w: "wait_objects (threads k t) = []" using kernel_invD(6) [OF k] l unfolding wait_ok_def by blast
  show "held_mutexes (threads k t) = []" using kernel_invD(5) [OF k] l unfolding holders_ok_def by blast
  show "t \<notin> set (arbiters k a)" using arb_okD(1) [OF kernel_invD(9) [OF k]] l by blast
  show "current_thread (managers k c) \<noteq> Some t" using kernel_invD(10) [OF k] l unfolding current_ok_def by blast
  show "t \<notin> set (waiting_threads k ob)" using wait_okD(1) [OF kernel_invD(6) [OF k], of t ob] w by simp
  have "i \<notin> set (pending_mutexes (threads k t))" for i using mutex_okD(4) [OF kernel_invD(7) [OF k], of i t] w by simp
  then show "pending_mutexes (threads k t) = []" by (metis list.set_intros(1) neq_Nil_conv)
  show "waiting_threads k (Obj_Thread t) = []" using kernel_invD(11) [OF k] t by (simp add: fresh_ok_def)
qed

text \<open>\<open>th\<close> is added to the threads of core \<open>c\<close>.\<close>

definition with_thread :: "tid \<Rightarrow> Thread \<Rightarrow> nat \<Rightarrow> Kernel \<Rightarrow> Kernel" where
  "with_thread t th c k =
     (let k = upd_manager c (\<lambda>m. m\<lparr>thread_list := thread_list m @ [t], ready_queue := prepare (current_priority th) (ready_queue m),
                                  wakeup_callback_table := (wakeup_callback_table m)(t \<mapsto> t)\<rparr>) k
      in k\<lparr>next_thread_id := t + 1, threads := (threads k)(t := th), saved_context := (saved_context k)(t := empty_context)\<rparr>)"

definition blank :: "Thread \<Rightarrow> bool" where
  "blank th \<longleftrightarrow> status th = Dormant \<and> held_mutexes th = [] \<and> pending_mutexes th = [] \<and> wait_objects th = [] \<and> wakeup_callback th = None"

lemma with_thread_fields:
  "threads (with_thread t th c k) u = (if u = t then th else threads k u)"
  "waiting_threads (with_thread t th c k) = waiting_threads k" "bodies (with_thread t th c k) = bodies k"
  "arbiters (with_thread t th c k) = arbiters k" "num_cores (with_thread t th c k) = num_cores k"
  "next_thread_id (with_thread t th c k) = t + 1" "next_object (with_thread t th c k) = next_object k"
  "next_arbiter (with_thread t th c k) = next_arbiter k"
  "current_thread (managers (with_thread t th c k) d) = current_thread (managers k d)"
  "rqueue (with_thread t th c k) d = (if d = c then prepare (current_priority th) (rqueue k c) else rqueue k d)"
  "is_mutex (with_thread t th c k) = is_mutex k" "mutex_of (with_thread t th c k) = mutex_of k"
  by (auto simp: with_thread_def Let_def upd_manager_def is_mutex_def mutex_of_def fun_eq_iff)

lemma queue_ok_with_thread:
  assumes k: "kernel_inv k" and t: "t = next_thread_id k" and th: "status th = Dormant" "core_id th = c" "c < num_cores k"
    "current_priority th < 64" "nominal_priority th < 64"
  shows "queue_ok (with_thread t th c k)"
proof -
  let ?k = "with_thread t th c k"
  note f = with_thread_fields
  note q = kernel_invD(3) [OF k]
  have lv: "live ?k u \<longleftrightarrow> live k u \<or> u = t" for u
    using t kernel_invD(11) [OF k] by (auto simp: live_def f fresh_ok_def)
  note law = rq.make_known_law [OF queue_members(1) [OF q th(3)] th(4)]
  have data: "level_data (rqueue ?k d) = level_data (rqueue k d)" for d using law by (simp add: f)
  have lnk: "linked (rqueue k d) p \<Longrightarrow> linked (rqueue ?k d) p" for d p using law by (auto simp: f)
  have "core_queue_ok ?k d" if "d < num_cores k" for d
  proof -
    have old: "core_queue_ok k d" using q that by (simp add: queue_ok_def)
    then have "tql_ok 64 (rqueue ?k d)" using law by (auto simp: f core_queue_ok_def)
    moreover have "\<not> live k t" using t by (simp add: live_def)
    ultimately show ?thesis using old th(1) unfolding core_queue_ok_def data lv by (auto simp: f)
  qed
  moreover have "thread_queue_ok ?k u" if "live ?k u" for u
  proof (cases "u = t")
    case True
    then show ?thesis using th(2-5) law by (auto simp: thread_queue_ok_def f)
  next
    case False
    then show ?thesis using queue_okD [OF q, of u] that lv lnk by (auto simp: thread_queue_ok_def f(1,5))
  qed
  ultimately show ?thesis by (simp add: queue_ok_def f)
qed

lemma kernel_inv_with_thread:
  assumes k: "kernel_inv k" and t: "t = next_thread_id k" and th: "blank th" "core_id th = c" "c < num_cores k"
    "current_priority th < 64" "nominal_priority th < 64"
  shows "kernel_inv (with_thread t th c k)"
proof -
  let ?k = "with_thread t th c k"
  note f = with_thread_fields and fr = fresh_thread [OF k eq_refl [OF t [symmetric]]]
  have b: "status th = Dormant" "held_mutexes th = []" "pending_mutexes th = []" "wait_objects th = []" "wakeup_callback th = None"
    using th(1) by (auto simp: blank_def)
  have lv: "live ?k u \<longleftrightarrow> live k u \<or> u = t" for u
    using t kernel_invD(11) [OF k] by (auto simp: live_def f fresh_ok_def)
  have e: "wait_objects (threads ?k u) = wait_objects (threads k u)" "held_mutexes (threads ?k u) = held_mutexes (threads k u)"
    "pending_mutexes (threads ?k u) = pending_mutexes (threads k u)" for u using b fr by (auto simp: f(1))
  have st: "u \<noteq> t \<Longrightarrow> threads ?k u = threads k u" "status (threads ?k t) = Dormant" for u using b by (auto simp: f(1))
  have "wait_ok ?k"
  proof -
    have "live ?k u \<and> waits_for_objects (status (threads ?k u))" if "wait_objects (threads k u) \<noteq> []" for u
      using that kernel_invD(6) [OF k] fr(2) st(1) [of u] lv by (cases "u = t") (auto simp: wait_ok_def)
    then show ?thesis using kernel_invD(6) [OF k] unfolding wait_ok_def e f(2) by blast
  qed
  moreover have "mutex_ok ?k"
  proof -
    have "status (threads k u) \<noteq> Dead" if "i \<in> set (held_mutexes (threads k u))" "status (threads ?k u) \<noteq> Dead" for u i
      using that fr(3) st(1) [of u] by (cases "u = t") auto
    then show ?thesis using kernel_invD(7) [OF k] unfolding mutex_ok_def e f(11,12) by blast
  qed
  moreover have "callback_ok ?k" using kernel_invD(8) [OF k] b by (auto simp: callback_ok_def f(1))
  moreover have "arb_ok ?k"
  proof (rule arb_okI)
    note ar = arb_okD [OF kernel_invD(9) [OF k]]
    show "u \<in> set (arbiters ?k a) \<Longrightarrow> live ?k u" for u a using ar(1) lv by (simp add: f)
    show "u \<in> set (arbiters ?k a) \<Longrightarrow> status (threads ?k u) = WaitArb" for u a using ar(2) [of u a] fr(4) [of a] st(1) [of u] by (cases "u = t") (auto simp: f(4))
    show "distinct (arbiters ?k a)" for a using ar(3) by (simp add: f)
    show "u \<in> set (arbiters ?k a) \<Longrightarrow> u \<in> set (arbiters ?k c) \<Longrightarrow> a = c" for u a c unfolding f(4) using ar(4) by blast
    show "wakeup_callback (threads ?k u) = Some (ArbiterCallback a) \<Longrightarrow> u \<in> set (arbiters ?k c) \<Longrightarrow> a = c" for u a c
      using ar(5) [of u a c] b(5) by (cases "u = t") (simp_all add: f(1,4))
  qed
  moreover have "current_ok ?k" using kernel_invD(10) [OF k] fr(5) b(1) unfolding current_ok_def lv f(9) by (auto simp: f(1))
  moreover have "fresh_ok ?k" using kernel_invD(11) [OF k] t unfolding fresh_ok_def f by simp
  moreover have "holders_ok ?k" using kernel_invD(5) [OF k] lv unfolding holders_ok_def e by blast
  moreover have "dead_ok ?k" using kernel_invD(2) [OF k] b unfolding dead_ok_def by (simp add: f(1))
  moreover have "queue_ok ?k" by (rule queue_ok_with_thread [OF k t b(1) th(2-5)])
  ultimately show ?thesis by (simp add: kernel_inv_def kernel_ok_def relation_ok_def)
qed

lemma kernel_inv_make_ready:
  assumes k: "kernel_inv k" and t: "live k t" "status (threads k t) = Dormant" "wakeup_callback (threads k t) = None"
  shows "kernel_inv (upd_thread t (\<lambda>th. th\<lparr>status := Ready\<rparr>)
    (upd_queue (core_id (threads k t)) (push_back (current_priority (threads k t)) t) k))" (is "kernel_inv ?k")
proof -
  have w: "wait_objects (threads k t) = []" by (rule no_wait_objects [OF k]) (simp add: t(2) waits_for_objects_def)
  have a: "t \<notin> set (arbiters k b)" for b using arb_okD(2) [OF kernel_invD(9) [OF k], of t b] t(2) by auto
  obtain k' where k': "ResumeFromWait t k = Some k'" "kernel_inv k'"
    using kernel_inv_resume [OF k t(1) w _ a] t(2) by (auto simp: waiting_status_def)
  have "upd_thread t (\<lambda>th. th\<lparr>wakeup_callback := None\<rparr>) k = k"
    using t(3) by (intro Kernel.equality) (auto simp: upd_thread_def split: if_splits intro!: ext Thread.equality)
  then have "k' = PrepareReschedule ?k" using k'(1) w t(2) by (simp add: ResumeFromWait_def Let_def)
  moreover have "kernel_inv (PrepareReschedule ?k) = kernel_inv ?k" by (rule kernel_inv_same) (simp_all add: PrepareReschedule_def)
  ultimately show ?thesis using k'(2) by simp
qed

lemma AllocateThreadLocalStorage_frame:
  assumes "AllocateThreadLocalStorage env p k = Some r"
  shows "\<exists>m sl. case r of Inl (code, k') \<Rightarrow> k' = k
    | Inr (a, k') \<Rightarrow> k' = k\<lparr>kmem := m, processes := (processes k)(p := (processes k p)\<lparr>tls_slots := sl\<rparr>)\<rparr>"
  using assms by (auto simp: AllocateThreadLocalStorage_def Let_def split: option.splits bind_splits) blast+

text \<open>The states \<open>CreateThread\<close> can leave.\<close>

lemma CreateThread_cases:
  assumes r: "KernelSystem_CreateThread env entry priority arg proc stack p mk s = Some (r, s')"
  obtains code where "r = Inl code" "world s' = world s"
  | th where "th = new_thread entry priority (nat proc) stack p (Timer_GetTicks (timers s ! nat proc))"
      "nat proc < num_cores (world s)" "priority \<le> ThreadPrioLowest"
      "(\<exists>code. r = Inl code) \<and> world s' = with_thread (next_thread_id (world s)) th (nat proc) (world s)"
  | th m sl tls k3 where "th = new_thread entry priority (nat proc) stack p (Timer_GetTicks (timers s ! nat proc))"
      "nat proc < num_cores (world s)" "priority \<le> ThreadPrioLowest" "r = Inr (next_thread_id (world s))"
      "k3 = upd_context (next_thread_id (world s)) (ResetThreadContext stack entry arg)
         (upd_thread (next_thread_id (world s)) (\<lambda>th. th\<lparr>tls_address := tls\<rparr>)
           ((with_thread (next_thread_id (world s)) th (nat proc) (world s))\<lparr>kmem := m,
              processes := (processes (world s))(p := (processes (world s) p)\<lparr>tls_slots := sl\<rparr>)\<rparr>))"
      "world s' = (if mk then upd_thread (next_thread_id (world s)) (\<lambda>th. th\<lparr>status := Ready\<rparr>)
         (upd_queue (nat proc) (push_back priority (next_thread_id (world s))) k3) else k3)"
proof (cases "priority > ThreadPrioLowest \<or> proc > ThreadProcessorIdMax \<or> \<not> IsValidVirtualAddress p entry (kmem (world s))")
  case True
  then show ?thesis using r that(1) by (auto simp: KernelSystem_CreateThread_def split: if_splits)
next
  case False
  let ?t = "next_thread_id (world s)" and ?c = "nat proc"
  let ?th = "new_thread entry priority ?c stack p (Timer_GetTicks (timers s ! ?c))"
  define k1 where "k1 = with_thread ?t ?th ?c (world s)"
  have th: "current_priority ?th = priority" by (simp add: new_thread_def)
  have c: "0 \<le> proc \<and> ?c < num_cores (world s)" using r False by (auto simp: KernelSystem_CreateThread_def split: if_splits)
  define made where "made = case_sum (\<lambda>(code, k). Some (Inl code, s\<lparr>world := k\<rparr>))
       (\<lambda>(tls, k).
           let k = upd_thread ?t (\<lambda>th. th\<lparr>tls_address := tls\<rparr>) k; k = upd_context ?t (ResetThreadContext stack entry arg) k;
               k = (if mk then upd_thread ?t (\<lambda>th. th\<lparr>status := Ready\<rparr>) (upd_queue ?c (push_back priority ?t) k) else k)
           in Some (Inr ?t :: ResultCode + tid, s\<lparr>world := k\<rparr>))"
  have "AllocateThreadLocalStorage env p k1 \<bind> made = Some (r, s')"
    using r False th c by (simp only: KernelSystem_CreateThread_def made_def k1_def with_thread_def) (simp add: Let_def)
  then obtain a where a: "AllocateThreadLocalStorage env p k1 = Some a" and res: "made a = Some (r, s')"
    by (auto split: bind_splits)
  have pr: "priority \<le> ThreadPrioLowest" using False by simp
  show ?thesis
  proof (cases a)
    case (Inl x)
    obtain code k2 where x: "x = (code, k2)" by (cases x)
    have "k2 = k1" using AllocateThreadLocalStorage_frame [OF a] Inl x by auto
    then show ?thesis using that(2) [OF refl _ pr] res c Inl x by (auto simp: made_def k1_def)
  next
    case (Inr x)
    obtain tls k2 where x: "x = (tls, k2)" by (cases x)
    have ps: "processes k1 = processes (world s)" by (simp add: k1_def with_thread_def Let_def upd_manager_def)
    obtain m sl where k2: "k2 = k1\<lparr>kmem := m, processes := (processes (world s))(p := (processes (world s) p)\<lparr>tls_slots := sl\<rparr>)\<rparr>"
      using AllocateThreadLocalStorage_frame [OF a] Inr x ps by auto
    have "made (Inr (tls, k2)) = Some (r, s')" using res Inr x by simp
    then have "r = Inr ?t" "world s' = (let k3 = upd_context ?t (ResetThreadContext stack entry arg) (upd_thread ?t (\<lambda>th. th\<lparr>tls_address := tls\<rparr>) k2)
        in if mk then upd_thread ?t (\<lambda>th. th\<lparr>status := Ready\<rparr>) (upd_queue ?c (push_back priority ?t) k3) else k3)"
      by (auto simp: made_def Let_def)
    then show ?thesis by (intro that(3) [OF refl _ pr _ refl]) (use c in \<open>simp_all add: k2 k1_def Let_def\<close>)
  qed
qed

lemma CreateThread_ok:
  assumes k: "kernel_inv (world s)" and r: "KernelSystem_CreateThread env entry priority arg proc stack p mk s = Some (r, s')"
  shows "kernel_inv (world s')"
proof -
  let ?t = "next_thread_id (world s)" and ?c = "nat proc"
  let ?th = "new_thread entry priority ?c stack p (Timer_GetTicks (timers s ! ?c))"
  have th: "blank ?th" "core_id ?th = ?c" "current_priority ?th = priority" "nominal_priority ?th = priority" "wakeup_callback ?th = None"
    by (simp_all add: new_thread_def blank_def)
  have i1: "kernel_inv (with_thread ?t ?th ?c (world s))" if "?c < num_cores (world s)" "priority \<le> ThreadPrioLowest"
    by (rule kernel_inv_with_thread [OF k refl th(1,2) that(1)]) (use that(2) th(3,4) in \<open>auto simp: ThreadPrioLowest_def\<close>)
  show ?thesis
  proof (cases rule: CreateThread_cases [OF r])
    case 1
    then show ?thesis using k by simp
  next
    case (2 th)
    then show ?thesis using i1 by simp
  next
    case (3 th m sl tls k3)
    let ?k2 = "(with_thread ?t th ?c (world s))\<lparr>kmem := m, processes := (processes (world s))(p := (processes (world s) p)\<lparr>tls_slots := sl\<rparr>)\<rparr>"
    have i2: "kernel_inv ?k2"
      using i1 [OF 3(2,3)] kernel_inv_same [of ?k2 "with_thread ?t th ?c (world s)"] 3(1) by simp
    have i3: "kernel_inv k3" unfolding 3(5)
      by (rule kernel_inv_threads [OF i2]) (use kernel_invD(3) [OF i2] in \<open>auto simp: queue_ok_upd_thread\<close>, auto simp: kernel_upd_defs)
    have t3: "threads k3 ?t = ?th\<lparr>tls_address := tls\<rparr>" "live k3 ?t"
      using kernel_invD(11) [OF k] by (auto simp: 3(1,5) with_thread_fields live_def upd_context_def upd_thread_def fresh_ok_def)
    have "kernel_inv (upd_thread ?t (\<lambda>th. th\<lparr>status := Ready\<rparr>) (upd_queue ?c (push_back priority ?t) k3))"
      using kernel_inv_make_ready [OF i3 t3(2)] t3(1) by (simp add: new_thread_def)
    then show ?thesis using 3(6) i3 by simp
  qed
qed

end
