(* ===== verification/Kernel_Call.thy ===== *)
theory Kernel_Call
  imports Kernel_Svc
begin

text \<open>
  The dispatch of supervisor calls: the entries of \<open>SVC_Table\<close> whose functions are modelled, with their
  cycles, and \<open>CallSVC\<close>. The arguments are those the wrapper takes from the registers.
\<close>

datatype svc_call =
  Call_CreateThread u32 u32 u32 u32 int | Call_ExitThread | Call_SleepThread int | Call_GetThreadPriority u32
  | Call_SetThreadPriority u32 u32 | Call_CreateMutex u32 | Call_ReleaseMutex u32 | Call_CreateSemaphore int int
  | Call_ReleaseSemaphore u32 int | Call_CreateEvent ResetType | Call_SignalEvent u32 | Call_ClearEvent u32
  | Call_CreateTimer ResetType | Call_SetTimer u32 int int | Call_CancelTimer u32 | Call_ClearTimer u32
  | Call_CreateAddressArbiter | Call_ArbitrateAddress u32 u32 u32 u32 int | Call_CloseHandle u32
  | Call_WaitSynchronization1 u32 int | Call_WaitSynchronizationN u32 int bool int | Call_DuplicateHandle u32
  | Call_GetThreadId u32 | Call_GetResourceLimit u32 | Call_GetResourceLimitLimitValues u32 u32 u32 u32
  | Call_GetResourceLimitCurrentValues u32 u32 u32 u32

fun svc_cycles :: "svc_call \<Rightarrow> int" where
  "svc_cycles (Call_CreateThread _ _ _ _ _) = 5214"
| "svc_cycles (Call_SleepThread _) = 946"
| "svc_cycles (Call_GetThreadPriority _) = 616"
| "svc_cycles (Call_SetThreadPriority _ _) = 1812"
| "svc_cycles (Call_ReleaseMutex _) = 1324"
| "svc_cycles (Call_ReleaseSemaphore _ _) = 2713"
| "svc_cycles (Call_CreateEvent _) = 4329"
| "svc_cycles (Call_SignalEvent _) = 3285"
| "svc_cycles (Call_ClearEvent _) = 1389"
| "svc_cycles (Call_SetTimer _ _ _) = 5163"
| "svc_cycles (Call_ArbitrateAddress _ _ _ _ _) = 5664"
| "svc_cycles (Call_CloseHandle _) = 2937"
| "svc_cycles (Call_WaitSynchronization1 _ _) = 4005"
| "svc_cycles (Call_WaitSynchronizationN _ _ _ _) = 6918"
| "svc_cycles (Call_GetThreadId _) = 677"
| "svc_cycles _ = 1000"

text \<open>Calls that do not touch the event scheduler, inside the whole system.\<close>

definition res_sys :: "sys \<Rightarrow> (ResultCode \<times> Kernel) option \<Rightarrow> (ResultCode \<times> sys) option" where
  "res_sys s r = map_option (\<lambda>(code, k). (code, s\<lparr>world := k\<rparr>)) r"

definition out_sys :: "('a \<Rightarrow> u32) \<Rightarrow> sys \<Rightarrow> (ResultCode \<times> 'a option \<times> Kernel) option \<Rightarrow> (ResultCode \<times> u32 option \<times> sys) option" where
  "out_sys conv s r = map_option (\<lambda>(code, out, k). (code, map_option conv out, s\<lparr>world := k\<rparr>)) r"

fun svc_exec :: "hle_env \<Rightarrow> u32 \<Rightarrow> svc_call \<Rightarrow> sys \<Rightarrow> sys option" where
  "svc_exec env g (Call_CreateThread entry arg stack priority processor_id) s =
     wrap_output g (SVC_CreateThread env entry arg stack priority processor_id s)"
| "svc_exec env g Call_ExitThread s = SVC_ExitThread env s"
| "svc_exec env g (Call_SleepThread ns) s = SleepThread ns s"
| "svc_exec env g (Call_GetThreadPriority h) s =
     wrap_output g (out_sys of_nat s (map_option (\<lambda>(c, out). (c, out, world s)) (SVC_GetThreadPriority h (world s))))"
| "svc_exec env g (Call_SetThreadPriority h p) s = wrap_result (res_sys s (SVC_SetThreadPriority h p (world s)))"
| "svc_exec env g (Call_CreateMutex locked) s = wrap_output g (out_sys id s (SVC_CreateMutex locked (world s)))"
| "svc_exec env g (Call_ReleaseMutex h) s = wrap_result (res_sys s (SVC_ReleaseMutex env h (world s)))"
| "svc_exec env g (Call_CreateSemaphore n m) s = wrap_output g (out_sys id s (SVC_CreateSemaphore n m (world s)))"
| "svc_exec env g (Call_ReleaseSemaphore h n) s =
     wrap_output g (out_sys word_of_int s (SVC_ReleaseSemaphore env h n (world s)))"
| "svc_exec env g (Call_CreateEvent ty) s = wrap_output g (out_sys id s (SVC_CreateEvent ty (world s)))"
| "svc_exec env g (Call_SignalEvent h) s = wrap_result (res_sys s (SVC_SignalEvent env h (world s)))"
| "svc_exec env g (Call_ClearEvent h) s = wrap_result (res_sys s (SVC_ClearEvent h (world s)))"
| "svc_exec env g (Call_CreateTimer ty) s = wrap_output g (out_sys id s (SVC_CreateTimer ty (world s)))"
| "svc_exec env g (Call_SetTimer h initial interval) s = wrap_result (SVC_SetTimer env h initial interval s)"
| "svc_exec env g (Call_CancelTimer h) s = wrap_result (SVC_CancelTimer h s)"
| "svc_exec env g (Call_ClearTimer h) s = wrap_result (res_sys s (SVC_ClearTimer h (world s)))"
| "svc_exec env g Call_CreateAddressArbiter s = wrap_output g (out_sys id s (SVC_CreateAddressArbiter (world s)))"
| "svc_exec env g (Call_ArbitrateAddress h address ty v ns) s = wrap_result (SVC_ArbitrateAddress env h address ty v ns s)"
| "svc_exec env g (Call_CloseHandle h) s = wrap_result (res_sys s (SVC_CloseHandle h (world s)))"
| "svc_exec env g (Call_WaitSynchronization1 h ns) s = wrap_result (WaitSynchronization1 h ns s)"
| "svc_exec env g (Call_WaitSynchronizationN handles n wait_all ns) s = wrap_output g (WaitSynchronizationN handles n wait_all ns s)"
| "svc_exec env g (Call_DuplicateHandle h) s = wrap_output g (out_sys id s (SVC_DuplicateHandle h (world s)))"
| "svc_exec env g (Call_GetThreadId h) s =
     wrap_output g (out_sys of_nat s (map_option (\<lambda>(c, out). (c, out, world s)) (SVC_GetThreadId h (world s))))"
| "svc_exec env g (Call_GetResourceLimit h) s = wrap_output g (out_sys id s (SVC_GetResourceLimit h (world s)))"
| "svc_exec env g (Call_GetResourceLimitLimitValues values h names n) s =
     wrap_result (res_sys s (SVC_GetResourceLimitLimitValues values h names n (world s)))"
| "svc_exec env g (Call_GetResourceLimitCurrentValues values h names n) s =
     wrap_result (res_sys s (SVC_GetResourceLimitCurrentValues values h names n (world s)))"

definition CallSVC :: "hle_env \<Rightarrow> u32 \<Rightarrow> svc_call \<Rightarrow> sys \<Rightarrow> sys option" where
  "CallSVC env garbage call s =
     svc_exec env garbage call (upd_timer (current_cpu (world s)) (AddTicks (clock_scale env) (svc_cycles call)) s)"

end
