(* ===== verification/Kernel_Runs.thy ===== *)
theory Kernel_Runs
  imports Kernel_Create Kernel_Call
begin

text \<open>
  Runs of the kernel: the supervisor calls of running threads, the scheduler, timeouts and timers, from
  the start of the emulator on. Every state of such a run satisfies the invariant of the kernel.
\<close>

section \<open>Handles and tables of threads\<close>

fun kobj_ok :: "Kernel \<Rightarrow> kobject \<Rightarrow> bool" where
  "kobj_ok k (K_Thread t) = live k t"
| "kobj_ok k (K_Sync i) = (i < next_object k)"
| "kobj_ok k (K_Arbiter a) = (a < next_arbiter k)"
| "kobj_ok k _ = True"

definition handles_ok :: "Kernel \<Rightarrow> bool" where
  "handles_ok k \<longleftrightarrow> (\<forall>p i ob. objects (handle_table (processes k p)) i = Some ob \<longrightarrow> kobj_ok k ob)"

definition wakeup_table_ok :: "Kernel \<Rightarrow> bool" where
  "wakeup_table_ok k \<longleftrightarrow> (\<forall>c n t. wakeup_callback_table (managers k c) n = Some t \<longrightarrow> live k t)"

definition run_inv :: "Kernel \<Rightarrow> bool" where
  "run_inv k \<longleftrightarrow> kernel_inv k \<and> handles_ok k \<and> wakeup_table_ok k"

text \<open>Operations that neither change handles nor forget objects.\<close>

definition keeps :: "Kernel \<Rightarrow> Kernel \<Rightarrow> bool" where
  "keeps k k' \<longleftrightarrow>
     (\<forall>p. handle_table (processes k' p) = handle_table (processes k p)) \<and>
     next_thread_id k \<le> next_thread_id k' \<and> next_object k \<le> next_object k' \<and> next_arbiter k \<le> next_arbiter k' \<and>
     (\<forall>c n t. wakeup_callback_table (managers k' c) n = Some t \<longrightarrow> wakeup_callback_table (managers k c) n = Some t \<or> live k' t)"

lemma keeps_refl [simp]: "keeps k k"
  by (simp add: keeps_def)

lemma keeps_live: "keeps k k' \<Longrightarrow> live k t \<Longrightarrow> live k' t"
  by (auto simp: keeps_def live_def)

lemma keeps_trans [trans]:
  assumes "keeps k k1" "keeps k1 k2"
  shows "keeps k k2"
  using assms keeps_live [OF assms(2)] unfolding keeps_def by (auto intro: order_trans) metis

lemma keeps_kobj: "keeps k k' \<Longrightarrow> kobj_ok k ob \<Longrightarrow> kobj_ok k' ob"
  using keeps_live by (cases ob) (auto simp: keeps_def)

lemma keeps_run_inv:
  assumes "run_inv k" "keeps k k'" "kernel_inv k'"
  shows "run_inv k'"
proof -
  have "handles_ok k'" using assms(1) keeps_kobj [OF assms(2)] assms(2) by (simp add: run_inv_def handles_ok_def keeps_def)
  moreover have "wakeup_table_ok k'"
    using assms(1,2) keeps_live [OF assms(2)] unfolding run_inv_def wakeup_table_ok_def keeps_def by blast
  ultimately show ?thesis using assms(3) by (simp add: run_inv_def)
qed

lemma keeps_view: "view k' = view k \<Longrightarrow> keeps k k'"
  using same_tables_view [of k' k] by (simp add: same_tables_def keeps_def)

lemma keeps_tables: "same_tables k k' \<Longrightarrow> keeps k k'"
  by (simp add: same_tables_def keeps_def)

lemma keeps_simps [simp]:
  "keeps k (upd_thread t f k)" "keeps k (set_body i b k)" "keeps k (upd_queue c q k)" "keeps k (upd_context t g k)"
  "keeps k (PrepareReschedule k)" "keeps k (SetReg i v k)" "keeps k (k\<lparr>kmem := m\<rparr>)" "keeps k (k\<lparr>arbiters := a\<rparr>)" "keeps k (k\<lparr>limits := l\<rparr>)"
  by (simp_all add: keeps_def kernel_upd_defs SetReg_def)

text \<open>Waking up never changes the tables.\<close>

lemma keeps_Acquire: "Acquire ob t k = Some k' \<Longrightarrow> keeps k k'"
  using keeps_trans [OF keeps_tables [OF same_tables_acquired] keeps_view [OF view_Acquire]] .

lemma keeps_acquire_all: "acquire_all obs t k = Some k' \<Longrightarrow> keeps k k'"
proof (induction obs arbitrary: k)
  case (Cons ob obs)
  then obtain k1 where "Acquire ob t k = Some k1" "acquire_all obs t k1 = Some k'" by (auto split: bind_splits)
  then show ?case using keeps_trans [OF keeps_Acquire Cons.IH] by blast
qed simp

lemma keeps_context [simp]: "keeps k (k\<lparr>saved_context := c, kmem := m\<rparr>)"
  by (simp add: keeps_def)

lemma keeps_invoke:
  assumes env: "env_ok env" and r: "invoke_callback env reason t ob k = Some k'"
  shows "keeps k k'"
proof (cases "wakeup_callback (threads k t)")
  case (Some cb)
  have "keeps k k1" if "other_wakeup env n reason t ob k = Some k1" for n k1
    using env that unfolding env_ok_def by (metis keeps_context option.inject)
  moreover have "keeps k k1" if "SVC_SyncCallback_WakeUp b reason t ob k = Some k1" for b k1
    using that by (cases reason) (auto simp: SetWaitSynchronizationResult_def SetWaitSynchronizationOutput_def Let_def
        intro: keeps_trans [OF keeps_simps(4) keeps_simps(4)] split: if_splits)
  ultimately show ?thesis using r Some by (cases cb) (auto simp: invoke_callback_def AddressArbiter_WakeUp_def split: if_splits)
qed (use r in \<open>simp add: invoke_callback_def\<close>)

lemma keeps_waiter [simp]: "keeps k (remove_waiter ob t k)"
  by (simp add: keeps_def remove_waiter_def)

lemma keeps_RemoveWaitingThread: "keeps k (RemoveWaitingThread ob t k)"
proof (cases ob)
  case (Obj i)
  have "keeps (upd_thread t f (remove_waiter ob t k)) (Mutex_UpdatePriority i (upd_thread t f (remove_waiter ob t k)))" for f
    by (rule keeps_view) simp
  then have "keeps k (Mutex_UpdatePriority i (upd_thread t f (remove_waiter ob t k)))" for f
    by (rule keeps_trans [OF keeps_trans [OF keeps_waiter keeps_simps(1)]])
  then show ?thesis using Obj by (simp add: Let_def)
qed simp

lemma keeps_clear: "keeps k (clear_wait_objects t k)"
proof -
  have "keeps k (fold (\<lambda>ob. RemoveWaitingThread ob t) obs k)" for obs
  proof (induction obs arbitrary: k)
    case (Cons ob obs)
    show ?case using keeps_trans [OF keeps_RemoveWaitingThread Cons.IH [of "RemoveWaitingThread ob t k"]] by simp
  qed simp
  then show ?thesis unfolding clear_wait_objects_def using keeps_trans keeps_simps(1) by blast
qed

lemma keeps_resume: "ResumeFromWait t k = Some k' \<Longrightarrow> keeps k k'"
  by (cases "status (threads k t)") (auto simp: ResumeFromWait_def Let_def keeps_def kernel_upd_defs split: if_splits)

lemma keeps_wake_thread:
  assumes "env_ok env" "wake_thread env ob t k = Some k'"
  shows "keeps k k'"
proof -
  obtain k1 k2 where k1: "(if status (threads k t) \<noteq> WaitSynchAll then Acquire ob t k else acquire_all (wait_objects (threads k t)) t k) = Some k1"
    and k2: "invoke_callback env Signal t (Some ob) k1 = Some k2" and r: "ResumeFromWait t (clear_wait_objects t k2) = Some k'"
    using assms(2) by (auto simp: wake_thread_def split: bind_splits)
  have "keeps k k1" using k1 keeps_Acquire keeps_acquire_all by (auto split: if_splits)
  then show ?thesis using keeps_trans keeps_invoke [OF assms(1) k2] keeps_clear keeps_resume [OF r] by blast
qed

lemma keeps_wakeup_loop:
  assumes "wakeup_loop env ob k = Some k'"
  shows "env_ok env \<longrightarrow> keeps k k'"
proof (rule wakeup_loop.raw_induct [where P = "\<lambda>env ob k k'. env_ok env \<longrightarrow> keeps k k'", OF _ assms])
  fix f env ob k k'
  assume IH: "\<And>env ob k k'. f env ob k = Some k' \<Longrightarrow> env_ok env \<longrightarrow> keeps k k'"
    and r: "(GetHighestPriorityReadyThread ob k \<bind> case_option (Some k) (\<lambda>t. wake_thread env ob t k \<bind> f env ob)) = Some k'"
  from r consider "k' = k" | t k1 where "wake_thread env ob t k = Some k1" "f env ob k1 = Some k'"
    by (auto split: bind_splits option.splits)
  then show "env_ok env \<longrightarrow> keeps k k'"
  proof cases
    case 2
    then show ?thesis using IH [OF 2(2)] keeps_wake_thread [OF _ 2(1)] keeps_trans by blast
  qed simp
qed

lemma keeps_end_pulse: "keeps k (end_pulse ob k)"
  by (simp add: end_pulse_def split: obj.split body.split)

lemma keeps_wakeup:
  assumes env: "env_ok env" and r: "WakeupAllWaitingThreads env ob k = Some k'"
  shows "keeps k k'"
proof -
  obtain k1 where k1: "wakeup_loop env ob k = Some k1" "k' = end_pulse ob (hle_notifier env ob k1)"
    using r by (auto simp: WakeupAllWaitingThreads_def split: bind_splits)
  have "keeps k1 (hle_notifier env ob k1)" using env keeps_context unfolding env_ok_def by metis
  then show ?thesis using keeps_wakeup_loop [OF k1(1)] env k1(2) keeps_end_pulse keeps_trans by blast
qed

lemma run_invD:
  assumes "run_inv k"
  shows "kernel_inv k" "handles_ok k" "wakeup_table_ok k"
  using assms by (simp_all add: run_inv_def)

text \<open>What a handle of a process denotes exists.\<close>

lemma GetHandle_ok:
  assumes k: "run_inv k" and h: "GetHandle cast h k = Some (Some x)"
  shows "\<exists>ob. kobj_ok k ob \<and> cast k ob = Some x"
proof -
  obtain p ob where p: "running_process k = Some p" and g: "GetGeneric (map_option K_Thread (GetCurrentThread k)) (Some (K_Process p)) (handle_table (processes k p)) h = Some ob"
    and c: "cast k ob = Some x" using h by (auto simp: GetHandle_def split: bind_splits)
  have "kobj_ok k ob"
  proof (cases "\<exists>t. ob = K_Thread t \<and> GetCurrentThread k = Some t \<or> ob = K_Process p")
    case True
    then show ?thesis using kernel_invD(10) [OF run_invD(1) [OF k]] by (auto simp: GetCurrentThread_def current_ok_def)
  next
    case False
    then have "\<exists>i. objects (handle_table (processes k p)) i = Some ob" using g by (auto simp: GetGeneric_def split: if_splits)
    then show ?thesis using run_invD(2) [OF k] unfolding handles_ok_def by blast
  qed
  then show ?thesis using c by blast
qed

lemma GetHandle_casts:
  assumes "run_inv k"
  shows "GetHandle as_wait h k = Some (Some ob) \<Longrightarrow> obj_exists k ob" "GetHandle as_thread h k = Some (Some t) \<Longrightarrow> live k t"
    "GetHandle as_mutex h k = Some (Some (i, m)) \<Longrightarrow> bodies k i = B_Mutex m"
    "GetHandle as_semaphore h k = Some (Some (i, sm)) \<Longrightarrow> bodies k i = B_Semaphore sm"
    "GetHandle as_event h k = Some (Some (i, e)) \<Longrightarrow> bodies k i = B_Event e"
    "GetHandle as_timer h k = Some (Some (i, y)) \<Longrightarrow> bodies k i = B_Timer y"
    "GetHandle as_arbiter h k = Some (Some a) \<Longrightarrow> a < next_arbiter k"
  using GetHandle_ok [OF assms, of as_wait h ob] GetHandle_ok [OF assms, of as_thread h t] GetHandle_ok [OF assms, of as_mutex h "(i, m)"]
    GetHandle_ok [OF assms, of as_semaphore h "(i, sm)"] GetHandle_ok [OF assms, of as_event h "(i, e)"]
    GetHandle_ok [OF assms, of as_timer h "(i, y)"] GetHandle_ok [OF assms, of as_arbiter h a]
  by (auto elim!: as_wait.elims as_thread.elims as_mutex.elims as_semaphore.elims as_event.elims as_timer.elims as_arbiter.elims
      split: body.splits)

lemma run_inv_handle_table:
  assumes k: "run_inv k" and t: "\<And>i ob. objects tab i = Some ob \<Longrightarrow> kobj_ok k ob"
  shows "run_inv (k\<lparr>processes := (processes k)(p := (processes k p)\<lparr>handle_table := tab\<rparr>)\<rparr>)" (is "run_inv ?k")
proof -
  have e: "live ?k = live k" "kobj_ok ?k ob = kobj_ok k ob" for ob by (cases ob; simp add: live_def fun_eq_iff)+
  show ?thesis using k t unfolding run_inv_def handles_ok_def wakeup_table_ok_def e by auto
qed

lemma CreateHandle_ok:
  assumes k: "run_inv k" and ob: "kobj_ok k ob" and r: "CreateHandle ob k = Some (c, out, k')"
  shows "run_inv k'"
proof -
  obtain p where p: "running_process k = Some p" using r by (auto simp: CreateHandle_def)
  show ?thesis
  proof (cases "HandleTable_Create ob (handle_table (processes k p))")
    case (Inl e)
    then show ?thesis using r p k by (auto simp: CreateHandle_def)
  next
    case (Inr x)
    obtain h tab where x: "x = (h, tab)" by (cases x)
    have "objects tab i = Some ob' \<Longrightarrow> ob' = ob \<or> objects (handle_table (processes k p)) i = Some ob'" for i ob'
      using Inr x by (auto simp: HandleTable_Create_def Let_def split: if_splits)
    then have "kobj_ok k ob'" if "objects tab i = Some ob'" for i ob' using that ob run_invD(2) [OF k] unfolding handles_ok_def by blast
    then show ?thesis using run_inv_handle_table [OF k] r p Inr x by (auto simp: CreateHandle_def)
  qed
qed

lemma SVC_CloseHandle_ok:
  assumes k: "run_inv k" and r: "SVC_CloseHandle h k = Some (c, k')"
  shows "run_inv k'"
proof -
  obtain p where p: "running_process k = Some p" using r by (auto simp: SVC_CloseHandle_def)
  show ?thesis
  proof (cases "HandleTable_Close h (handle_table (processes k p))")
    case (Inl e)
    then show ?thesis using r p k by (auto simp: SVC_CloseHandle_def)
  next
    case (Inr tab)
    then have "objects tab i = Some ob \<Longrightarrow> objects (handle_table (processes k p)) i = Some ob" for i ob
      by (auto simp: HandleTable_Close_def Let_def split: if_splits)
    then have "objects tab i = Some ob \<Longrightarrow> kobj_ok k ob" for i ob using run_invD(2) [OF k] unfolding handles_ok_def by blast
    then show ?thesis using run_inv_handle_table [OF k] r p Inr by (auto simp: SVC_CloseHandle_def)
  qed
qed

lemma SVC_DuplicateHandle_ok:
  assumes k: "run_inv k" and r: "SVC_DuplicateHandle h k = Some (c, out, k')"
  shows "run_inv k'"
  using r k GetHandle_ok [OF k, of "\<lambda>_. Some" h] CreateHandle_ok [OF k]
  by (auto simp: SVC_DuplicateHandle_def split: bind_splits option.splits)

section \<open>Waiting\<close>

definition runs :: "Kernel \<Rightarrow> tid \<Rightarrow> bool" where
  "runs k t \<longleftrightarrow> GetCurrentThread k = Some t \<and> status (threads k t) = Running"

lemma runsD:
  assumes "kernel_inv k" "runs k t"
  shows "live k t" "status (threads k t) = Running" "GetCurrentThread k = Some t"
  using assms kernel_invD(10) [OF assms(1)] by (auto simp: runs_def GetCurrentThread_def current_ok_def)

lemma run_inv_kmem [simp]: "run_inv (k\<lparr>kmem := m\<rparr>) = run_inv k"
proof -
  have "kobj_ok (k\<lparr>kmem := m\<rparr>) ob = kobj_ok k ob" for ob by (cases ob) (simp_all add: live_def)
  then show ?thesis by (simp add: run_inv_def handles_ok_def wakeup_table_ok_def live_def)
qed

lemma run_inv_prepare [simp]: "run_inv k \<Longrightarrow> run_inv (PrepareReschedule k)"
  by (rule keeps_run_inv [OF _ keeps_simps(5)]) (simp_all add: run_invD(1))

lemma run_inv_SetReg [simp]: "run_inv k \<Longrightarrow> run_inv (SetReg i v k)"
  by (rule keeps_run_inv [OF _ keeps_simps(6)]) (simp_all add: run_invD(1))

lemma world_WakeAfterDelay: "WakeAfterDelay t ns b s = Some s' \<Longrightarrow> world s' = world s"
  by (auto simp: WakeAfterDelay_def Let_def split: if_splits)

lemma suspend_ok:
  assumes k: "run_inv (world s)" and st: "status (threads (world s) t) \<notin> {Ready, Running}" and r: "suspend t b ns s = Some s'"
  shows "run_inv (world s')"
proof -
  let ?k = "upd_thread t (\<lambda>th. th\<lparr>wakeup_callback := Some (SVC_SyncCallback b)\<rparr>) (world s)"
  have "world s' = PrepareReschedule ?k" using r by (auto simp: suspend_def updk_def world_WakeAfterDelay split: bind_splits)
  moreover have "run_inv ?k" by (rule keeps_run_inv [OF k]) (simp_all add: kernel_inv_sync_callback [OF run_invD(1) [OF k] st])
  ultimately show ?thesis by simp
qed

lemma keeps_added: "keeps k (added t obs k)"
  by (simp add: keeps_def added_def)

lemma keeps_add: "keeps k (fold (\<lambda>ob. AddWaitingThread ob t) obs k)"
  by (rule keeps_trans [OF keeps_added keeps_view]) (rule view_fold_add)

lemma run_inv_wait_on:
  assumes k: "run_inv k" and t: "runs k t" and st: "waits_for_objects st" and obs: "\<And>ob. ob \<in> set obs \<Longrightarrow> obj_exists k ob"
  shows "run_inv (wait_on t st obs k)" "status (threads (wait_on t st obs k) t) = st"
proof -
  note rt = runsD [OF run_invD(1) [OF k] t]
  have "keeps k (wait_on t st obs k)"
    unfolding wait_on_def by (rule keeps_trans [OF keeps_trans [OF keeps_simps(1) keeps_add] keeps_simps(1)])
  moreover have "kernel_inv (wait_on t st obs k)"
    by (rule kernel_inv_wait_on [OF run_invD(1) [OF k] rt(1,2)]) (use st obs in \<open>auto simp: waiting_status_def waits_for_objects_def\<close>)
  ultimately show "run_inv (wait_on t st obs k)" by (intro keeps_run_inv [OF k])
  show "status (threads (wait_on t st obs k) t) = st"
    using same_view(5) [OF view_wait_on, of t st obs k t] by (simp add: waiting_on_fields)
qed

lemma WaitSynchronization1_ok:
  assumes k: "run_inv (world s)" and t: "runs (world s) t" and r: "WaitSynchronization1 h ns s = Some (c, s')"
  shows "run_inv (world s')"
proof -
  note rt = runsD [OF run_invD(1) [OF k] t]
  show ?thesis
  proof (cases "\<exists>ob. GetHandle as_wait h (world s) = Some (Some ob)")
    case False
    then show ?thesis using r k by (auto simp: WaitSynchronization1_def split: bind_splits option.splits)
  next
    case True
    then obtain ob where h: "GetHandle as_wait h (world s) = Some (Some ob)" by blast
    then have ex: "obj_exists (world s) ob" by (rule GetHandle_casts(1) [OF k])
    show ?thesis
    proof (cases "ShouldWait (world s) ob t")
      case False
      then obtain k1 where "Acquire ob t (world s) = Some k1" "world s' = k1"
        using r h rt(3) by (auto simp: WaitSynchronization1_def onk_def split: bind_splits)
      moreover have "kernel_inv k1" "keeps (world s) k1"
        using Acquire_inv [OF run_invD(1) [OF k] rt(1)] Acquire_ok [OF kernel_invD(1) [OF run_invD(1) [OF k]] rt(1)] rt(2) calculation(1)
        by (auto simp: wake_frame_def keeps_tables)
      ultimately show ?thesis using keeps_run_inv [OF k] by simp
    next
      case True
      let ?k1 = "upd_thread t (\<lambda>th. th\<lparr>status := WaitSynchAny\<rparr>) (AddWaitingThread ob t (upd_thread t (\<lambda>th. th\<lparr>wait_objects := [ob]\<rparr>) (world s)))"
      have "keeps (world s) ?k1"
        using keeps_trans [OF keeps_trans [OF keeps_simps(1) keeps_add [of _ t "[ob]"]] keeps_simps(1)] by simp
      then have i: "run_inv ?k1"
        by (rule keeps_run_inv [OF k]) (rule kernel_inv_wait1 [OF run_invD(1) [OF k] rt(1,2) ex])
      show ?thesis
      proof (cases "ns = 0")
        case True
        then show ?thesis using r h rt(3) k \<open>ShouldWait (world s) ob t\<close> by (auto simp: WaitSynchronization1_def)
      next
        case False
        then have "suspend t False ns (s\<lparr>world := ?k1\<rparr>) = Some s'"
          using r h rt(3) \<open>ShouldWait (world s) ob t\<close> by (auto simp: WaitSynchronization1_def updk_def split: bind_splits)
        then show ?thesis using suspend_ok [of "s\<lparr>world := ?k1\<rparr>" t] i by simp
      qed
    qed
  qed
qed

lemma read_handles_ok:
  "run_inv k \<Longrightarrow> read_handles n address k = Some (r, k') \<Longrightarrow>
   (\<exists>m. k' = k\<lparr>kmem := m\<rparr>) \<and> (\<forall>obs. r = Inr obs \<longrightarrow> (\<forall>ob \<in> set obs. obj_exists k ob))"
proof (induction n arbitrary: address k r)
  case 0
  then show ?case by (auto intro: exI [of _ "kmem k"])
next
  case (Suc n)
  obtain bs m x where rd: "Read 4 address (current_page_table (kmem k)) (kmem k) = Some (bs, m)"
    and x: "GetHandle as_wait (ucast (decode_le bs)) (k\<lparr>kmem := m\<rparr>) = Some x"
    using Suc.prems(2) by (auto simp: Let_def split: bind_splits)
  have i: "run_inv (k\<lparr>kmem := m\<rparr>)" using Suc.prems(1) by simp
  have ex: "obj_exists (k\<lparr>kmem := m'\<rparr>) ob = obj_exists k ob" for ob m' by (cases ob) (simp_all add: live_def)
  show ?case
  proof (cases x)
    case None
    then show ?thesis using Suc.prems(2) rd x by auto
  next
    case (Some ob)
    then obtain rest where rest: "read_handles n (address + 4) (k\<lparr>kmem := m\<rparr>) = Some (rest, k')" "r = map_sum id (Cons ob) rest"
      using Suc.prems(2) rd x by (auto split: bind_splits)
    have "obj_exists k ob" using GetHandle_casts(1) [OF i, of _ ob] x Some ex by simp
    then show ?thesis using Suc.IH [OF i rest(1)] rest(2) ex by (cases rest) auto
  qed
qed

lemma wait_objects_call_ok:
  assumes k: "run_inv (world s)" and t: "runs (world s) t" and obs: "\<And>ob. ob \<in> set obs \<Longrightarrow> obj_exists (world s) ob"
    and r: "wait_objects_call t obs wait_all ns s = Some (c, out, s')"
  shows "run_inv (world s')"
proof -
  note rt = runsD [OF run_invD(1) [OF k] t]
  have nd: "status (threads (world s) t) \<noteq> Dead" using rt(2) by simp
  note ki = run_invD(1) [OF k]
  have all: "run_inv k1" if "acquire_all xs t (world s) = Some k1" for xs k1
    using keeps_run_inv [OF k] acquire_all_inv [OF ki rt(1) nd that] acquire_all_ok [OF kernel_invD(1) [OF ki] rt(1) nd that]
    by (auto simp: wake_frame_def keeps_tables)
  have one: "run_inv k1" if "Acquire ob t (world s) = Some k1" for ob k1
    using keeps_run_inv [OF k] Acquire_inv [OF ki rt(1) nd that] Acquire_ok [OF kernel_invD(1) [OF ki] rt(1) nd that]
    by (auto simp: wake_frame_def keeps_tables)
  have w: "run_inv (world s1)" if "suspend t b ns (updk (wait_on t st obs) s) = Some s1" "waits_for_objects st" for b st s1
    using suspend_ok [OF _ _ that(1)] run_inv_wait_on [OF k t that(2) obs] that(2) by (auto simp: updk_def waits_for_objects_def)
  show ?thesis
    using r k w [of _ WaitSynchAll] w [of _ WaitSynchAny] all one
    by (auto simp: wait_objects_call_def onk_def waits_for_objects_def simp del: Acquire.simps acquire_all.simps
        split: if_splits option.splits bind_splits)
qed

lemma WaitSynchronizationN_ok:
  assumes k: "run_inv (world s)" and t: "runs (world s) t" and r: "WaitSynchronizationN a n wait_all ns s = Some (c, out, s')"
  shows "run_inv (world s')"
proof -
  have cur: "GetCurrentThread (world s) = Some t" using t by (simp add: runs_def)
  obtain p where p: "running_process (world s) = Some p" using r cur by (auto simp: WaitSynchronizationN_def split: bind_splits)
  show ?thesis
  proof (cases "\<not> IsValidVirtualAddress p a (kmem (world s)) \<or> n < 0")
    case True
    then show ?thesis using r cur p k by (auto simp: WaitSynchronizationN_def split: if_splits)
  next
    case False
    then obtain x k1 where x: "read_handles (nat n) a (world s) = Some (x, k1)"
      using r cur p by (auto simp: WaitSynchronizationN_def split: bind_splits)
    obtain m where m: "k1 = (world s)\<lparr>kmem := m\<rparr>" and obs: "\<And>obs ob. x = Inr obs \<Longrightarrow> ob \<in> set obs \<Longrightarrow> obj_exists (world s) ob"
      using read_handles_ok [OF k x] by blast
    have i: "run_inv k1" "runs k1 t" using k t by (simp_all add: m runs_def GetCurrentThread_def)
    have ex: "obj_exists k1 ob = obj_exists (world s) ob" for ob by (cases ob) (simp_all add: m live_def)
    show ?thesis
    proof (cases x)
      case (Inl code)
      then show ?thesis using r cur p False x i(1) by (auto simp: WaitSynchronizationN_def)
    next
      case (Inr objs)
      then have w: "wait_objects_call t objs wait_all ns (s\<lparr>world := k1\<rparr>) = Some (c, out, s')"
        using r cur p False x by (auto simp: WaitSynchronizationN_def)
      have o: "obj_exists (world (s\<lparr>world := k1\<rparr>)) ob" if "ob \<in> set objs" for ob using obs [OF Inr that] ex by simp
      show ?thesis by (rule wait_objects_call_ok [OF _ _ o w]) (simp_all add: i)
    qed
  qed
qed

lemma SleepThread_ok:
  assumes k: "run_inv (world s)" and t: "runs (world s) t" and r: "SleepThread ns s = Some s'"
  shows "run_inv (world s')"
proof -
  note rt = runsD [OF run_invD(1) [OF k] t]
  let ?k = "upd_thread t (\<lambda>th. th\<lparr>status := WaitSleep\<rparr>) (world s)"
  have "kernel_inv ?k" by (rule kernel_inv_status [OF run_invD(1) [OF k] rt(1,2)]) (simp add: waiting_status_def)
  then have i: "run_inv ?k" by (rule keeps_run_inv [OF k keeps_simps(1)])
  have "world s' = world s \<or> world s' = PrepareReschedule ?k"
    using r rt(3) by (auto simp: SleepThread_def Let_def onk_def updk_def WaitCurrentThread_Sleep_def GetCurrentThread_def
        world_WakeAfterDelay split: bind_splits if_splits)
  then show ?thesis using k i by auto
qed

section \<open>Signalling and releasing\<close>

lemma keeps_Mutex_Release:
  assumes env: "env_ok env" and r: "Mutex_Release env i m t k = Some (c, k')"
  shows "keeps k k'"
proof -
  have u: "keeps k1 (UpdatePriority u k1)" for k1 u by (rule keeps_view) simp
  note st = keeps_trans [OF keeps_trans [OF keeps_trans [OF keeps_simps(2) keeps_simps(1)] u] keeps_simps(2)]
  show ?thesis using r keeps_trans [OF keeps_trans [OF st keeps_wakeup [OF env]] keeps_simps(5)]
    by (auto simp: Mutex_Release_def Let_def split: if_splits bind_splits)
qed

lemma SVC_ReleaseMutex_ok:
  assumes env: "env_ok env" and k: "run_inv k" and r: "SVC_ReleaseMutex env h k = Some (c, k')"
  shows "run_inv k'"
proof (cases "\<exists>i m. GetHandle as_mutex h k = Some (Some (i, m))")
  case True
  then obtain i m where h: "GetHandle as_mutex h k = Some (Some (i, m))" by blast
  then obtain t where t: "Mutex_Release env i m t k = Some (c, k')" using r by (auto simp: SVC_ReleaseMutex_def split: bind_splits)
  show ?thesis
    by (rule keeps_run_inv [OF k keeps_Mutex_Release [OF env t] Mutex_Release_ok [OF env run_invD(1) [OF k] GetHandle_casts(3) [OF k h] t]])
next
  case False
  then show ?thesis using r k by (auto simp: SVC_ReleaseMutex_def split: bind_splits option.splits)
qed

lemma SVC_ReleaseSemaphore_ok:
  assumes env: "env_ok env" and k: "run_inv k" and r: "SVC_ReleaseSemaphore env h n k = Some (c, out, k')"
  shows "run_inv k'"
proof (cases "\<exists>i x. GetHandle as_semaphore h k = Some (Some (i, x))")
  case True
  then obtain i x where h: "GetHandle as_semaphore h k = Some (Some (i, x))" by blast
  then have rel: "Semaphore_Release env i x n k = Some (c, out, k')" using r by (auto simp: SVC_ReleaseSemaphore_def)
  have "keeps k k'" using rel keeps_trans [OF keeps_simps(2) keeps_wakeup [OF env]] by (auto simp: Semaphore_Release_def split: if_splits bind_splits)
  then show ?thesis
    by (rule keeps_run_inv [OF k _ kernel_inv_Semaphore_Release [OF env run_invD(1) [OF k] GetHandle_casts(4) [OF k h] rel]])
next
  case False
  then show ?thesis using r k by (auto simp: SVC_ReleaseSemaphore_def split: bind_splits option.splits)
qed

lemma SVC_SignalEvent_ok:
  assumes env: "env_ok env" and k: "run_inv k" and r: "SVC_SignalEvent env h k = Some (c, k')"
  shows "run_inv k'"
proof (cases "\<exists>i e. GetHandle as_event h k = Some (Some (i, e))")
  case True
  then obtain i e where h: "GetHandle as_event h k = Some (Some (i, e))" by blast
  then have sig: "Event_Signal env i e k = Some k'" using r by (auto simp: SVC_SignalEvent_def)
  have "keeps k k'" using sig keeps_trans [OF keeps_simps(2) keeps_wakeup [OF env]] by (simp add: Event_Signal_def)
  then show ?thesis by (rule keeps_run_inv [OF k _ kernel_inv_Event(1) [OF env run_invD(1) [OF k] GetHandle_casts(5) [OF k h] sig]])
next
  case False
  then show ?thesis using r k by (auto simp: SVC_SignalEvent_def split: bind_splits option.splits)
qed

lemma SVC_ClearEvent_ok:
  assumes env: "env_ok env" and k: "run_inv k" and r: "SVC_ClearEvent h k = Some (c, k')"
  shows "run_inv k'"
proof (cases "\<exists>i e. GetHandle as_event h k = Some (Some (i, e))")
  case True
  then obtain i e where h: "GetHandle as_event h k = Some (Some (i, e))" by blast
  have "keeps k (Event_Clear i e k)" by (simp add: Event_Clear_def)
  then have "run_inv (Event_Clear i e k)"
    by (rule keeps_run_inv [OF k _ kernel_inv_Event(2) [OF env run_invD(1) [OF k] GetHandle_casts(5) [OF k h]]])
  then show ?thesis using r h by (auto simp: SVC_ClearEvent_def)
next
  case False
  then show ?thesis using r k by (auto simp: SVC_ClearEvent_def split: bind_splits option.splits)
qed

lemma SVC_ClearTimer_ok:
  assumes k: "run_inv k" and r: "SVC_ClearTimer h k = Some (c, k')"
  shows "run_inv k'"
proof (cases "\<exists>i e. GetHandle as_timer h k = Some (Some (i, e))")
  case True
  then obtain i e where h: "GetHandle as_timer h k = Some (Some (i, e))" by blast
  have "keeps k (Timer_Clear i e k)" by (simp add: Timer_Clear_def)
  moreover have "kernel_inv (Timer_Clear i e k)"
    unfolding Timer_Clear_def by (rule kernel_inv_body [OF run_invD(1) [OF k] not_mutex(3) [OF GetHandle_casts(6) [OF k h]]]) simp
  ultimately have "run_inv (Timer_Clear i e k)" by (rule keeps_run_inv [OF k])
  then show ?thesis using r h by (auto simp: SVC_ClearTimer_def)
next
  case False
  then show ?thesis using r k by (auto simp: SVC_ClearTimer_def split: bind_splits option.splits)
qed

lemma keeps_Timer_Signal:
  assumes env: "env_ok env" and r: "Timer_Signal env i e late s = Some s'"
  shows "keeps (world s) (world s')"
  using r keeps_trans [OF keeps_simps(2) keeps_wakeup [OF env]]
  by (auto simp: Timer_Signal_def onk_def updk_def split: bind_splits if_splits)

lemma keeps_Timer_Set:
  assumes env: "env_ok env" and r: "Timer_Set env i e initial interval s = Some s'"
  shows "keeps (world s) (world s')"
proof -
  let ?e = "e\<lparr>initial_delay := to_u64 initial, interval_delay := to_u64 interval\<rparr>"
  let ?s = "updk (set_body i (B_Timer ?e)) (Timer_Cancel e s)"
  have w: "world ?s = set_body i (B_Timer ?e) (world s)" by (simp add: updk_def Timer_Cancel_def)
  then have k: "keeps (world s) (world ?s)" by simp
  show ?thesis
  proof (cases "initial = 0")
    case True
    then have "Timer_Signal env i ?e 0 ?s = Some s'" using r by (simp add: Timer_Set_def Let_def)
    then show ?thesis using keeps_trans [OF k keeps_Timer_Signal [OF env]] by blast
  next
    case False
    then have "world s' = world ?s" using r by (auto simp: Timer_Set_def Let_def)
    then show ?thesis using k by simp
  qed
qed

lemma SVC_SetTimer_ok:
  assumes env: "env_ok env" and k: "run_inv (world s)" and r: "SVC_SetTimer env h initial interval s = Some (c, s')"
  shows "run_inv (world s')"
proof (cases "initial \<ge> 0 \<and> interval \<ge> 0 \<and> (\<exists>i e. GetHandle as_timer h (world s) = Some (Some (i, e)))")
  case True
  then obtain i e where h: "GetHandle as_timer h (world s) = Some (Some (i, e))" by blast
  have st: "Timer_Set env i e initial interval s = Some s'" using r True h by (auto simp: SVC_SetTimer_def)
  show ?thesis
    by (rule keeps_run_inv [OF k keeps_Timer_Set [OF env st] Timer_Set_ok [OF env run_invD(1) [OF k] not_mutex(3) [OF GetHandle_casts(6) [OF k h]] st]])
next
  case False
  then show ?thesis using r k by (auto simp: SVC_SetTimer_def split: if_splits bind_splits option.splits)
qed

section \<open>Address arbitration\<close>

lemma keeps_resume_all: "resume_all ts k = Some k' \<Longrightarrow> keeps k k'"
proof (induction ts arbitrary: k)
  case (Cons t ts)
  then obtain k1 where "ResumeFromWait t k = Some k1" "resume_all ts k1 = Some k'" by (auto split: bind_splits)
  then show ?case using keeps_trans [OF keeps_resume Cons.IH] by blast
qed simp

lemma keeps_ResumeAllThreads: "ResumeAllThreads a address k = Some (n, k') \<Longrightarrow> keeps k k'"
  using keeps_trans [OF keeps_resume_all keeps_simps(8)] by (auto simp: ResumeAllThreads_def split: bind_splits)

lemma keeps_ResumeHighest: "ResumeHighestPriorityThread a address k = Some (b, k') \<Longrightarrow> keeps k k'"
  using keeps_trans [OF keeps_resume keeps_simps(8)] by (auto simp: ResumeHighestPriorityThread_def split: bind_splits option.splits)

lemma keeps_resume_n: "resume_n n a address k = Some (c, k') \<Longrightarrow> keeps k k'"
proof (induction n arbitrary: k c)
  case (Suc n)
  then obtain b k1 d where "ResumeHighestPriorityThread a address k = Some (b, k1)" "resume_n n a address k1 = Some (d, k')"
    by (auto split: bind_splits)
  then show ?case using keeps_trans [OF keeps_ResumeHighest Suc.IH] by blast
qed simp

lemma arb_signal_ok:
  assumes k: "run_inv (world s)" and r: "arb_signal env a t address v s = Some s'"
  shows "run_inv (world s')"
proof -
  obtain n k1 where k1: "(if v < 0 then ResumeAllThreads a address (world s) else resume_n (nat v) a address (world s)) = Some (n, k1)"
    "world s' = k1" using r by (auto simp: arb_signal_def upd_timer_def Let_def split: bind_splits if_splits)
  have "keeps (world s) k1" using k1(1) keeps_ResumeAllThreads keeps_resume_n by (auto split: if_splits)
  moreover have "kernel_inv k1"
  proof (cases "v < 0")
    case True
    then show ?thesis using k1(1) ResumeAllThreads_ok [OF run_invD(1) [OF k], of a address] by auto
  next
    case False
    then show ?thesis using k1(1) resume_n_ok [OF run_invD(1) [OF k], of "nat v" a address] by auto
  qed
  ultimately show ?thesis using keeps_run_inv [OF k] k1(2) by simp
qed

lemma arb_wait_ok:
  assumes k: "run_inv (world s)" and t: "runs (world s) t" and a: "a < next_arbiter (world s)"
    and r: "arb_wait decrement timeout a t address v ns s = Some s'"
  shows "run_inv (world s')"
proof -
  obtain mv m where m: "read_s32 address (world s) = Some (mv, (world s)\<lparr>kmem := m\<rparr>)"
    using r by (auto simp: arb_wait_def read_s32_def split: bind_splits)
  have W: "run_inv (WaitThread a t address (upd_thread t (\<lambda>th. th\<lparr>wakeup_callback := cb\<rparr>) ((world s)\<lparr>kmem := m'\<rparr>)))" (is "run_inv ?k")
    if "cb = None \<or> cb = Some (ArbiterCallback a)" for cb m'
  proof -
    have i: "run_inv ((world s)\<lparr>kmem := m'\<rparr>)" "runs ((world s)\<lparr>kmem := m'\<rparr>) t" using k t by (simp_all add: runs_def GetCurrentThread_def)
    note rt = runsD [OF run_invD(1) [OF i(1)] i(2)]
    have "keeps ((world s)\<lparr>kmem := m'\<rparr>) ?k" by (simp add: keeps_def WaitThread_def Let_def upd_thread_def)
    then show ?thesis by (rule keeps_run_inv [OF i(1)]) (rule kernel_inv_WaitThread [OF run_invD(1) [OF i(1)] rt(1,2) _ that], simp add: a)
  qed
  have none: "upd_thread t (\<lambda>th. th\<lparr>wakeup_callback := None\<rparr>) ((world s)\<lparr>kmem := m'\<rparr>) = (world s)\<lparr>kmem := m'\<rparr>" for m'
  proof -
    have "wakeup_callback (threads (world s) t) = None" using running_free(5) [OF run_invD(1) [OF k]] t by (simp add: runs_def)
    then show ?thesis by (intro Kernel.equality) (auto simp: upd_thread_def split: if_splits intro!: ext Thread.equality)
  qed
  show ?thesis
  proof (cases "mv < v")
    case False
    then show ?thesis using r m k by (auto simp: arb_wait_def)
  next
    case True
    obtain m' where m': "(if decrement then onk (write_s32 address (mv - 1)) (s\<lparr>world := (world s)\<lparr>kmem := m\<rparr>\<rparr>)
        else Some (s\<lparr>world := (world s)\<lparr>kmem := m\<rparr>\<rparr>)) = Some (s\<lparr>world := (world s)\<lparr>kmem := m'\<rparr>\<rparr>)"
      using r m True by (auto simp: arb_wait_def onk_def write_s32_def Let_def split: bind_splits if_splits)
    have "\<exists>cb. (cb = None \<or> cb = Some (ArbiterCallback a)) \<and>
      world s' = WaitThread a t address (upd_thread t (\<lambda>th. th\<lparr>wakeup_callback := cb\<rparr>) ((world s)\<lparr>kmem := m'\<rparr>))"
    proof (cases timeout)
      case True
      then show ?thesis using r m m' \<open>mv < v\<close>
        by (auto simp: arb_wait_def updk_def world_WakeAfterDelay Let_def split: bind_splits)
    next
      case False
      then show ?thesis using r m m' \<open>mv < v\<close> none [of m'] by (auto simp: arb_wait_def updk_def split: bind_splits)
    qed
    then show ?thesis using W by auto
  qed
qed

lemma SVC_ArbitrateAddress_ok:
  assumes k: "run_inv (world s)" and t: "runs (world s) t" and r: "SVC_ArbitrateAddress env h address ty v ns s = Some (c, s')"
  shows "run_inv (world s')"
proof (cases "\<exists>a. GetHandle as_arbiter h (world s) = Some (Some a)")
  case False
  then show ?thesis using r k by (auto simp: SVC_ArbitrateAddress_def split: bind_splits option.splits)
next
  case True
  then obtain a where h: "GetHandle as_arbiter h (world s) = Some (Some a)" by blast
  have cur: "GetCurrentThread (world s) = Some t" using t by (simp add: runs_def)
  obtain c1 s1 where s1: "ArbitrateAddress env a t (arbitration_type (unat ty)) address (sint v) (to_s64 (to_u64 ns)) s = Some (c1, s1)"
    "world s' = PrepareReschedule (world s1)"
    using r h cur by (auto simp: SVC_ArbitrateAddress_def updk_def simp del: arbitration_type.simps split: bind_splits)
  have "run_inv (world s1)"
    using s1(1) k arb_signal_ok [OF k] arb_wait_ok [OF k t GetHandle_casts(7) [OF k h]]
    by (auto simp: ArbitrateAddress_def simp del: arbitration_type.simps split: option.splits ArbitrationType.splits)
  then show ?thesis by (simp add: s1(2))
qed

section \<open>Creation\<close>

lemma run_inv_limits [simp]: "run_inv k \<Longrightarrow> run_inv (k\<lparr>limits := l\<rparr>)"
  by (rule keeps_run_inv [OF _ keeps_simps(9)]) (simp_all add: run_invD(1))

lemma create_with_ok:
  assumes k: "run_inv k" and cr: "\<And>l x k1. create (k\<lparr>limits := l\<rparr>) = Some (x, k1) \<Longrightarrow> run_inv k1 \<and> (\<forall>ob. x = Inr ob \<longrightarrow> kobj_ok k1 ob)"
    and r: "create_with ty create k = Some (c, out, k')"
  shows "run_inv k'"
proof -
  obtain b l where l: "reserve ty k = Some (b, k\<lparr>limits := l\<rparr>)" and b: b
    using r by (auto simp: create_with_def reserve_def Reserve_def Let_def split: bind_splits)
  obtain x k1 where x: "create (k\<lparr>limits := l\<rparr>) = Some (x, k1)" using r l b by (auto simp: create_with_def split: bind_splits)
  note i = cr [OF x]
  show ?thesis
  proof (cases x)
    case (Inl code)
    then show ?thesis using r l b x i by (auto simp: create_with_def)
  next
    case (Inr ob)
    then have "CreateHandle ob k1 = Some (c, out, k')" using r l b x by (auto simp: create_with_def)
    then show ?thesis using CreateHandle_ok i Inr by blast
  qed
qed

lemma keeps_new_body: "keeps k (snd (new_body b k))" "fst (new_body b k) < next_object (snd (new_body b k))"
  by (simp_all add: keeps_def new_body_def set_body_def)

lemma new_body_run:
  assumes k: "run_inv k" and b: "case b of B_Mutex m \<Rightarrow> lock_count m = 0 \<and> holding_thread m = None | _ \<Rightarrow> True"
    and r: "new_body b k = (i, k')"
  shows "run_inv k'" "i < next_object k'"
  using keeps_run_inv [OF k keeps_new_body(1) new_body_ok [OF run_invD(1) [OF k] b]] keeps_new_body(2) [of b k] by (simp_all add: r)

lemma runs_limits: "runs (k\<lparr>limits := l\<rparr>) t = runs k t"
  by (simp add: runs_def GetCurrentThread_def)

lemma CreateMutex_run:
  assumes k: "run_inv k" and t: "runs k t" and r: "CreateMutex locked k = Some (i, k')"
  shows "run_inv k' \<and> i < next_object k'"
proof -
  let ?b = "B_Mutex \<lparr>lock_count = 0, mtx_priority = 0, holding_thread = None\<rparr>"
  have "kernel_inv k'" by (rule CreateMutex_ok [OF run_invD(1) [OF k] _ r]) (use t in \<open>auto simp: runs_def\<close>)
  moreover have *: "i = fst (new_body ?b k) \<and> keeps (snd (new_body ?b k)) k'"
    using r keeps_Acquire by (auto simp: CreateMutex_def Let_def simp del: Acquire.simps split: prod.splits if_splits option.splits)
  moreover have "keeps k k'" using * keeps_new_body(1) keeps_trans by blast
  moreover have "i < next_object k'" using * keeps_new_body(2) [of ?b k] by (auto simp: keeps_def)
  ultimately show ?thesis using keeps_run_inv [OF k] by blast
qed

lemma SVC_CreateMutex_ok:
  assumes k: "run_inv k" and t: "runs k t" and r: "SVC_CreateMutex locked k = Some (c, out, k')"
  shows "run_inv k'"
  by (rule create_with_ok [OF k _ r [unfolded SVC_CreateMutex_def]])
    (use CreateMutex_run [OF run_inv_limits [OF k]] t in \<open>auto simp: runs_limits\<close>)

lemma SVC_CreateSemaphore_ok:
  assumes k: "run_inv k" and r: "SVC_CreateSemaphore n m k = Some (c, out, k')"
  shows "run_inv k'"
proof (rule create_with_ok [OF k _ r [unfolded SVC_CreateSemaphore_def]])
  fix l x k1
  let ?k = "k\<lparr>limits := l\<rparr>" and ?b = "B_Semaphore \<lparr>max_count = m, available_count = n\<rparr>"
  assume "(case CreateSemaphore n m ?k of Inl code \<Rightarrow> Some (Inl code, ?k) | Inr (i, k) \<Rightarrow> Some (Inr (K_Sync i), k)) = Some (x, k1)"
  then show "run_inv k1 \<and> (\<forall>ob. x = Inr ob \<longrightarrow> kobj_ok k1 ob)"
    using new_body_run [OF run_inv_limits [OF k], of ?b] k by (auto simp: CreateSemaphore_def split: if_splits prod.splits)
qed

lemma SVC_CreateEvent_ok:
  assumes k: "run_inv k" and r: "SVC_CreateEvent ty k = Some (c, out, k')"
  shows "run_inv k'"
proof (rule create_with_ok [OF k _ r [unfolded SVC_CreateEvent_def]])
  fix l x k1
  let ?k = "k\<lparr>limits := l\<rparr>" and ?b = "B_Event \<lparr>ev_reset = ty, ev_signaled = False\<rparr>"
  assume "(let (i, k) = CreateEvent ty ?k in Some (Inr (K_Sync i), k)) = Some (x, k1)"
  then show "run_inv k1 \<and> (\<forall>ob. x = Inr ob \<longrightarrow> kobj_ok k1 ob)"
    using new_body_run [OF run_inv_limits [OF k], of ?b] by (auto simp: CreateEvent_def split: prod.splits)
qed

lemma SVC_CreateTimer_ok:
  assumes k: "run_inv k" and r: "SVC_CreateTimer ty k = Some (c, out, k')"
  shows "run_inv k'"
proof (rule create_with_ok [OF k _ r [unfolded SVC_CreateTimer_def]])
  fix l x k1
  let ?k = "k\<lparr>limits := l\<rparr>"
  assume a: "(let (i, k) = CreateTimer ty ?k in Some (Inr (K_Sync i), k)) = Some (x, k1)"
  let ?b = "B_Timer \<lparr>tm_reset = ty, tm_signaled = False, initial_delay = 0, interval_delay = 0, callback_id = next_timer_callback_id ?k + 1\<rparr>"
  obtain i k2 where n: "new_body ?b ?k = (i, k2)" by (cases "new_body ?b ?k")
  then have k1: "k1 = k2\<lparr>next_timer_callback_id := next_timer_callback_id ?k + 1, timer_callback_table := (timer_callback_table k2)(next_timer_callback_id ?k + 1 \<mapsto> i)\<rparr>"
    and x: "x = Inr (K_Sync i)" using a by (auto simp: CreateTimer_def Let_def)
  note nb = new_body_run [OF run_inv_limits [OF k] _ n]
  have "keeps k2 k1" by (simp add: k1 keeps_def)
  then have "run_inv k1" by (rule keeps_run_inv [rotated]) (use nb run_invD(1) in \<open>auto simp: k1\<close>)
  then show "run_inv k1 \<and> (\<forall>ob. x = Inr ob \<longrightarrow> kobj_ok k1 ob)" using nb(2) by (simp add: x k1)
qed

lemma SVC_CreateAddressArbiter_ok:
  assumes k: "run_inv k" and r: "SVC_CreateAddressArbiter k = Some (c, out, k')"
  shows "run_inv k'"
proof (rule create_with_ok [OF k _ r [unfolded SVC_CreateAddressArbiter_def]])
  fix l x k1
  let ?k = "k\<lparr>limits := l\<rparr>"
  assume "(let (a, k) = CreateAddressArbiter ?k in Some (Inr (K_Arbiter a), k)) = Some (x, k1)"
  then have e: "k1 = snd (CreateAddressArbiter ?k)" "x = Inr (K_Arbiter (fst (CreateAddressArbiter ?k)))" by (auto split: prod.splits)
  have "keeps ?k k1" by (simp add: e keeps_def CreateAddressArbiter_def)
  then have "run_inv k1"
    by (rule keeps_run_inv [OF run_inv_limits [OF k]]) (use CreateAddressArbiter_ok [of ?k] run_invD(1) [OF k] in \<open>simp add: e\<close>)
  then show "run_inv k1 \<and> (\<forall>ob. x = Inr ob \<longrightarrow> kobj_ok k1 ob)" by (simp add: e CreateAddressArbiter_def)
qed

lemma keeps_with_thread: "t = next_thread_id k \<Longrightarrow> 1 \<le> t \<Longrightarrow> keeps k (with_thread t th c k)"
  by (simp add: keeps_def with_thread_def Let_def upd_manager_def live_def)

lemma keeps_tls [simp]: "keeps k (k\<lparr>kmem := m, processes := (processes k)(p := (processes k p)\<lparr>tls_slots := sl\<rparr>)\<rparr>)"
  by (simp add: keeps_def)

lemma keeps_CreateThread:
  assumes k: "kernel_inv (world s)" and r: "KernelSystem_CreateThread env entry priority arg proc stack p mk s = Some (x, s')"
  shows "keeps (world s) (world s') \<and> (\<forall>t. x = Inr t \<longrightarrow> live (world s') t)"
proof (cases rule: CreateThread_cases [OF r])
  case 1
  then show ?thesis by simp
next
  case (2 th)
  then show ?thesis using keeps_with_thread [OF refl] kernel_invD(11) [OF k] by (auto simp: fresh_ok_def)
next
  case (3 th m sl tls k3)
  let ?t = "next_thread_id (world s)" and ?k1 = "with_thread (next_thread_id (world s)) th (nat proc) (world s)"
  let ?k2 = "?k1\<lparr>kmem := m, processes := (processes (world s))(p := (processes (world s) p)\<lparr>tls_slots := sl\<rparr>)\<rparr>"
  have one: "1 \<le> ?t" using kernel_invD(11) [OF k] by (simp add: fresh_ok_def)
  have "processes ?k1 = processes (world s)" by (simp add: with_thread_def Let_def upd_manager_def)
  then have "keeps ?k1 ?k2" using keeps_tls [where k = ?k1 and m = m and p = p and sl = sl] by simp
  then have "keeps (world s) ?k2" by (rule keeps_trans [OF keeps_with_thread [OF refl one]])
  then have k3: "keeps (world s) k3" unfolding 3(5) by (rule keeps_trans [OF keeps_trans [OF _ keeps_simps(1)] keeps_simps(4)])
  then have "keeps (world s) (upd_thread u f (upd_queue c q k3))" for u f c q by (rule keeps_trans [OF keeps_trans [OF _ keeps_simps(3)] keeps_simps(1)])
  moreover have "live (world s') ?t" using one by (simp add: 3(5,6) live_def kernel_upd_defs with_thread_fields)
  ultimately show ?thesis using k3 3(4,6) by simp
qed

lemma CreateThread_run:
  assumes k: "run_inv (world s)" and r: "KernelSystem_CreateThread env entry priority arg proc stack p mk s = Some (x, s')"
  shows "run_inv (world s')" "x = Inr t \<Longrightarrow> live (world s') t"
  using keeps_CreateThread [OF run_invD(1) [OF k] r] keeps_run_inv [OF k _ CreateThread_ok [OF run_invD(1) [OF k] r]] by blast+

lemma reserve_total: "running_process k = Some p \<Longrightarrow> \<exists>l. reserve ty k = Some (True, k\<lparr>limits := l\<rparr>)"
  by (auto simp: reserve_def Reserve_def Let_def)

lemma SVC_CreateThread_ok:
  assumes k: "run_inv (world s)" and r: "SVC_CreateThread env entry arg stack priority processor_id s = Some (c, out, s')"
  shows "run_inv (world s')"
proof -
  obtain p where p: "running_process (world s) = Some p" using r by (auto simp: SVC_CreateThread_def split: bind_splits)
  obtain l where l: "reserve RL_Thread (world s) = Some (True, (world s)\<lparr>limits := l\<rparr>)" using reserve_total [OF p] by blast
  let ?s = "s\<lparr>world := (world s)\<lparr>limits := l\<rparr>\<rparr>"
  from r p l consider "s' = s" | x s1 d where "KernelSystem_CreateThread env entry (unat priority) arg d stack p True ?s = Some (x, s1)"
    "(\<exists>code. x = Inl code) \<and> s' = s1 \<or> (\<exists>t h k. x = Inr t \<and>
      CreateHandle (K_Thread t) (PrepareReschedule (upd_context t (\<lambda>c. c\<lparr>fpscr := 0x03C00000\<rparr>) (world s1))) = Some (c, h, k) \<and> s' = s1\<lparr>world := k\<rparr>)"
    by (auto simp: SVC_CreateThread_def Let_def updk_def split: if_splits option.splits bind_splits sum.splits)
  then show ?thesis
  proof cases
    case 1
    then show ?thesis using k by simp
  next
    case (2 x s1 d)
    have i: "run_inv (world ?s)" using k by simp
    note ct = CreateThread_run [OF i 2(1)]
    have "run_inv k'" if "x = Inr t" "CreateHandle (K_Thread t) (PrepareReschedule (upd_context t f (world s1))) = Some (c, h, k')" for t f h k'
    proof -
      have "run_inv (upd_context t f (world s1))" by (rule keeps_run_inv [OF ct(1) keeps_simps(4)]) (simp add: run_invD(1) [OF ct(1)])
      then have "run_inv (PrepareReschedule (upd_context t f (world s1)))" by simp
      then show ?thesis
        by (rule CreateHandle_ok [OF _ _ that(2)]) (use ct(2) [OF that(1)] in \<open>simp add: live_def PrepareReschedule_def upd_context_def\<close>)
    qed
    then show ?thesis using 2(2) ct(1) by auto
  qed
qed

section \<open>The end of a thread and priorities\<close>

lemma keeps_release_mutexes: "env_ok env \<Longrightarrow> release_mutexes env is k = Some k' \<Longrightarrow> keeps k k'"
proof (induction "is" arbitrary: k)
  case (Cons i "is")
  then obtain k1 where "WakeupAllWaitingThreads env (Obj i) (set_body i (B_Mutex ((mutex_of k i)\<lparr>lock_count := 0, holding_thread := None\<rparr>)) k) = Some k1"
    "release_mutexes env is k1 = Some k'" by (auto split: bind_splits)
  then show ?case using keeps_trans [OF keeps_trans [OF keeps_simps(2) keeps_wakeup [OF Cons.prems(1)]] Cons.IH [OF Cons.prems(1)]] by blast
qed simp

lemma keeps_free_tls: "keeps k (free_tls t k)"
  by (simp add: keeps_def free_tls_def Let_def)

lemma keeps_Stop:
  assumes env: "env_ok env" and r: "Stop env t s = Some s'"
  shows "keeps (world s) (world s')"
proof -
  let ?c = "core_id (threads (world s) t)"
  define k0 where "k0 = upd_manager ?c (\<lambda>m. m\<lparr>wakeup_callback_table := (wakeup_callback_table m)(t := None)\<rparr>) (world s)"
  have "bury env t (killed t k0) = Some (world s')"
    using r by (auto simp: Stop_def bury_def killed_def k0_def updk_def onk_def Let_def split: if_splits)
  then obtain k1 k2 k3 where k: "WakeupAllWaitingThreads env (Obj_Thread t) (killed t k0) = Some k1"
    "release_mutexes env (held_mutexes (threads (clear_wait_objects t k1) t)) (clear_wait_objects t k1) = Some k2"
    "k3 = upd_thread t (\<lambda>th. th\<lparr>held_mutexes := []\<rparr>) k2" "world s' = free_tls t k3"
    by (auto simp: bury_def ReleaseThreadMutexes_def split: bind_splits)
  have "keeps (world s) k0" by (simp add: keeps_def k0_def upd_manager_def)
  moreover have "keeps k0 (killed t k0)" using keeps_trans [OF keeps_simps(3) keeps_simps(1)] by (simp add: killed_def)
  ultimately have "keeps (world s) (killed t k0)" by (rule keeps_trans)
  note kt = keeps_trans [OF keeps_trans [OF keeps_trans [OF this keeps_wakeup [OF env k(1)]] keeps_clear] keeps_release_mutexes [OF env k(2)]]
  have "keeps (world s) k3" unfolding k(3) by (rule keeps_trans [OF kt keeps_simps(1)])
  then show ?thesis unfolding k(4) by (rule keeps_trans [OF _ keeps_free_tls])
qed

lemma SVC_ExitThread_ok:
  assumes env: "env_ok env" and k: "run_inv (world s)" and t: "runs (world s) t" and r: "SVC_ExitThread env s = Some s'"
  shows "run_inv (world s')"
proof -
  let ?c = "current_cpu (world s)"
  have cur: "current_thread (managers (world s) ?c) = Some t" "status (threads (world s) t) = Running"
    using t by (simp_all add: runs_def GetCurrentThread_def)
  obtain s1 where s1: "ExitCurrentThread env ?c s = Some s1" "world s' = PrepareReschedule (world s1)"
    using r by (auto simp: SVC_ExitThread_def updk_def split: bind_splits)
  obtain s2 where s2: "Stop env t s = Some s2"
    "world s1 = PrepareReschedule (upd_manager ?c (\<lambda>m. m\<lparr>thread_list := removeAll t (thread_list m)\<rparr>) (world s2))"
    using s1(1) cur(1) by (auto simp: ExitCurrentThread_def updk_def split: bind_splits)
  have "keeps (world s2) (world s1)" by (simp add: s2(2) keeps_def upd_manager_def PrepareReschedule_def)
  then have "keeps (world s) (world s1)" by (rule keeps_trans [OF keeps_Stop [OF env s2(1)]])
  then have "run_inv (world s1)" by (rule keeps_run_inv [OF k _ ExitCurrentThread_ok [OF env run_invD(1) [OF k] cur s1(1)]])
  then show ?thesis by (simp add: s1(2))
qed

lemma SVC_SetThreadPriority_ok:
  assumes k: "run_inv k" and r: "SVC_SetThreadPriority h p k = Some (c, k')"
  shows "run_inv k'"
proof -
  have upd: "run_inv (fold Mutex_UpdatePriority is (UpdatePriority t k1))" if "live k t" "SetPriority t q k = Some k1" for t q k1 "is"
  proof -
    have i1: "kernel_inv k1" by (rule SetPriority_ok [OF run_invD(1) [OF k] that])
    have kp: "keeps k k1" using that(2) by (auto simp: SetPriority_def Let_def keeps_def kernel_upd_defs split: if_splits)
    have lv: "live k1 t" by (rule keeps_live [OF kp that(1)])
    have "keeps k2 (fold Mutex_UpdatePriority is k2)" for k2
    proof (induction "is" arbitrary: k2)
      case (Cons i "is")
      have "keeps k2 (Mutex_UpdatePriority i k2)" by (rule keeps_view) simp
      then show ?case using keeps_trans [OF _ Cons.IH [of "Mutex_UpdatePriority i k2"]] by simp
    qed simp
    moreover have "keeps k1 (UpdatePriority t k1)" by (rule keeps_view) simp
    ultimately have "keeps k (fold Mutex_UpdatePriority is (UpdatePriority t k1))" using kp keeps_trans by blast
    then show ?thesis by (rule keeps_run_inv [OF k _ fold_Mutex_UpdatePriority_ok [OF UpdatePriority_ok [OF i1 lv]]])
  qed
  show ?thesis
    using r k upd GetHandle_casts(2) [OF k, of h]
    by (auto simp: SVC_SetThreadPriority_def Let_def split: if_splits bind_splits option.splits)
qed

lemma limit_values_ok: "limit_values checked get n vals names k = Some (c, k') \<Longrightarrow> \<exists>m. k' = k\<lparr>kmem := m\<rparr>"
proof (induction n arbitrary: vals names k)
  case 0
  then show ?case by (auto intro: exI [of _ "kmem k"])
next
  case (Suc n)
  have "\<exists>m. k' = k\<lparr>kmem := m\<rparr>" if "limit_values checked get n v a (k\<lparr>kmem := m1\<rparr>) = Some (c, k')" for v a m1
    using Suc.IH [OF that] by auto
  then show ?case using Suc.prems by (auto simp: Let_def split: bind_splits option.splits if_splits)
qed

lemma SVC_limit_values_ok:
  assumes k: "run_inv k" and r: "SVC_GetResourceLimitCurrentValues v h a n k = Some (c, k') \<or> SVC_GetResourceLimitLimitValues v h a n k = Some (c, k')"
  shows "run_inv k'"
  using r k limit_values_ok
  by (auto simp: SVC_GetResourceLimitCurrentValues_def SVC_GetResourceLimitLimitValues_def split: bind_splits option.splits)
    (metis run_inv_kmem)+

lemma SVC_GetResourceLimit_ok:
  assumes k: "run_inv k" and r: "SVC_GetResourceLimit h k = Some (c, out, k')"
  shows "run_inv k'"
proof -
  have "run_inv k'" if "CreateHandle (K_ResourceLimit l) k = Some (c, out, k')" for l by (rule CreateHandle_ok [OF k _ that]) simp
  then show ?thesis using r k by (auto simp: SVC_GetResourceLimit_def split: bind_splits option.splits)
qed

section \<open>Calls, the scheduler and events\<close>

lemma wrap_result_ok: "wrap_result r = Some s' \<Longrightarrow> (\<And>c s1. r = Some (c, s1) \<Longrightarrow> run_inv (world s1)) \<Longrightarrow> run_inv (world s')"
  by (auto simp: wrap_result_def updk_def)

lemma wrap_output_ok: "wrap_output g r = Some s' \<Longrightarrow> (\<And>c out s1. r = Some (c, out, s1) \<Longrightarrow> run_inv (world s1)) \<Longrightarrow> run_inv (world s')"
  by (auto simp: wrap_output_def updk_def)

lemma res_sys_ok: "res_sys s r = Some (c, s1) \<Longrightarrow> (\<And>c k. r = Some (c, k) \<Longrightarrow> run_inv k) \<Longrightarrow> run_inv (world s1)"
  by (auto simp: res_sys_def)

lemma out_sys_ok: "out_sys conv s r = Some (c, out, s1) \<Longrightarrow> (\<And>c out k. r = Some (c, out, k) \<Longrightarrow> run_inv k) \<Longrightarrow> run_inv (world s1)"
  by (auto simp: out_sys_def)

lemmas call_wrap = wrap_result_ok [rotated] wrap_output_ok [rotated]

lemma svc_exec_ok:
  assumes env: "env_ok env" and k: "run_inv (world s)" and t: "runs (world s) t" and r: "svc_exec env g call s = Some s'"
  shows "run_inv (world s')"
proof (cases call)
  case (Call_CreateThread a b c d e)
  show ?thesis by (rule wrap_output_ok [OF r [unfolded Call_CreateThread svc_exec.simps]]) (rule SVC_CreateThread_ok [OF k])
next
  case Call_ExitThread
  then show ?thesis using SVC_ExitThread_ok [OF env k t] r by simp
next
  case (Call_SleepThread a)
  then show ?thesis using SleepThread_ok [OF k t] r by simp
next
  case (Call_GetThreadPriority a)
  show ?thesis by (rule wrap_output_ok [OF r [unfolded Call_GetThreadPriority svc_exec.simps]]) (rule out_sys_ok, assumption, use k in auto)
next
  case (Call_SetThreadPriority a b)
  show ?thesis by (rule wrap_result_ok [OF r [unfolded Call_SetThreadPriority svc_exec.simps]]) (rule res_sys_ok, assumption, rule SVC_SetThreadPriority_ok [OF k])
next
  case (Call_CreateMutex a)
  show ?thesis by (rule wrap_output_ok [OF r [unfolded Call_CreateMutex svc_exec.simps]]) (rule out_sys_ok, assumption, rule SVC_CreateMutex_ok [OF k t])
next
  case (Call_ReleaseMutex a)
  show ?thesis by (rule wrap_result_ok [OF r [unfolded Call_ReleaseMutex svc_exec.simps]]) (rule res_sys_ok, assumption, rule SVC_ReleaseMutex_ok [OF env k])
next
  case (Call_CreateSemaphore a b)
  show ?thesis by (rule wrap_output_ok [OF r [unfolded Call_CreateSemaphore svc_exec.simps]]) (rule out_sys_ok, assumption, rule SVC_CreateSemaphore_ok [OF k])
next
  case (Call_ReleaseSemaphore a b)
  show ?thesis by (rule wrap_output_ok [OF r [unfolded Call_ReleaseSemaphore svc_exec.simps]]) (rule out_sys_ok, assumption, rule SVC_ReleaseSemaphore_ok [OF env k])
next
  case (Call_CreateEvent a)
  show ?thesis by (rule wrap_output_ok [OF r [unfolded Call_CreateEvent svc_exec.simps]]) (rule out_sys_ok, assumption, rule SVC_CreateEvent_ok [OF k])
next
  case (Call_SignalEvent a)
  show ?thesis by (rule wrap_result_ok [OF r [unfolded Call_SignalEvent svc_exec.simps]]) (rule res_sys_ok, assumption, rule SVC_SignalEvent_ok [OF env k])
next
  case (Call_ClearEvent a)
  show ?thesis by (rule wrap_result_ok [OF r [unfolded Call_ClearEvent svc_exec.simps]]) (rule res_sys_ok, assumption, rule SVC_ClearEvent_ok [OF env k])
next
  case (Call_CreateTimer a)
  show ?thesis by (rule wrap_output_ok [OF r [unfolded Call_CreateTimer svc_exec.simps]]) (rule out_sys_ok, assumption, rule SVC_CreateTimer_ok [OF k])
next
  case (Call_SetTimer a b c)
  show ?thesis by (rule wrap_result_ok [OF r [unfolded Call_SetTimer svc_exec.simps]]) (rule SVC_SetTimer_ok [OF env k])
next
  case (Call_CancelTimer a)
  show ?thesis by (rule wrap_result_ok [OF r [unfolded Call_CancelTimer svc_exec.simps]])
      (use k in \<open>auto simp: SVC_CancelTimer_def Timer_Cancel_def split: bind_splits option.splits\<close>)
next
  case (Call_ClearTimer a)
  show ?thesis by (rule wrap_result_ok [OF r [unfolded Call_ClearTimer svc_exec.simps]]) (rule res_sys_ok, assumption, rule SVC_ClearTimer_ok [OF k])
next
  case Call_CreateAddressArbiter
  show ?thesis by (rule wrap_output_ok [OF r [unfolded Call_CreateAddressArbiter svc_exec.simps]]) (rule out_sys_ok, assumption, rule SVC_CreateAddressArbiter_ok [OF k])
next
  case (Call_ArbitrateAddress a b c d e)
  show ?thesis by (rule wrap_result_ok [OF r [unfolded Call_ArbitrateAddress svc_exec.simps]]) (rule SVC_ArbitrateAddress_ok [OF k t])
next
  case (Call_CloseHandle a)
  show ?thesis by (rule wrap_result_ok [OF r [unfolded Call_CloseHandle svc_exec.simps]]) (rule res_sys_ok, assumption, rule SVC_CloseHandle_ok [OF k])
next
  case (Call_WaitSynchronization1 a b)
  show ?thesis by (rule wrap_result_ok [OF r [unfolded Call_WaitSynchronization1 svc_exec.simps]]) (rule WaitSynchronization1_ok [OF k t])
next
  case (Call_WaitSynchronizationN a b c d)
  show ?thesis by (rule wrap_output_ok [OF r [unfolded Call_WaitSynchronizationN svc_exec.simps]]) (rule WaitSynchronizationN_ok [OF k t])
next
  case (Call_DuplicateHandle a)
  show ?thesis by (rule wrap_output_ok [OF r [unfolded Call_DuplicateHandle svc_exec.simps]]) (rule out_sys_ok, assumption, rule SVC_DuplicateHandle_ok [OF k])
next
  case (Call_GetThreadId a)
  show ?thesis by (rule wrap_output_ok [OF r [unfolded Call_GetThreadId svc_exec.simps]]) (rule out_sys_ok, assumption, use k in auto)
next
  case (Call_GetResourceLimit a)
  show ?thesis by (rule wrap_output_ok [OF r [unfolded Call_GetResourceLimit svc_exec.simps]]) (rule out_sys_ok, assumption, rule SVC_GetResourceLimit_ok [OF k])
next
  case (Call_GetResourceLimitLimitValues a b c d)
  show ?thesis by (rule wrap_result_ok [OF r [unfolded Call_GetResourceLimitLimitValues svc_exec.simps]]) (rule res_sys_ok, assumption, rule SVC_limit_values_ok [OF k disjI2])
next
  case (Call_GetResourceLimitCurrentValues a b c d)
  show ?thesis by (rule wrap_result_ok [OF r [unfolded Call_GetResourceLimitCurrentValues svc_exec.simps]]) (rule res_sys_ok, assumption, rule SVC_limit_values_ok [OF k disjI1])
qed

lemma CallSVC_ok:
  assumes "env_ok env" "run_inv (world s)" "runs (world s) t" "CallSVC env g call s = Some s'"
  shows "run_inv (world s')"
  using svc_exec_ok [OF assms(1) _ _ assms(4) [unfolded CallSVC_def]] assms(2,3) by (simp add: upd_timer_def)

lemma keeps_reranked: "reranked k k' \<Longrightarrow> keeps k k'"
  by (simp add: reranked_def keeps_def)

lemma reschedule_cores_run:
  "run_inv (world s) \<Longrightarrow> \<forall>c \<in> set cs. c < num_cores (world s) \<Longrightarrow> reschedule_cores env cs s = Some s' \<Longrightarrow> run_inv (world s')"
proof (induction cs arbitrary: s)
  case (Cons c cs)
  then obtain s1 where s1: "Reschedule env c s = Some s1" "reschedule_cores env cs s1 = Some s'" by (auto split: bind_splits)
  obtain n where n: "switched c n (world s) (world s1)" "kernel_inv (world s1)"
    using Reschedule_ok [OF run_invD(1) [OF Cons.prems(1)] _ s1(1)] Cons.prems(2) by auto
  then have "run_inv (world s1)" by (intro keeps_run_inv [OF Cons.prems(1) keeps_reranked]) (auto simp: switched_def)
  then show ?case using Cons.IH [OF _ _ s1(2)] Cons.prems(2) switched_frame(1) [OF n(1)] by auto
qed simp

lemma System_Reschedule_run:
  assumes k: "run_inv (world s)" and r: "System_Reschedule env s = Some s'"
  shows "run_inv (world s')"
proof (cases "reschedule_pending (world s)")
  case True
  have "keeps (world s) ((world s)\<lparr>reschedule_pending := False\<rparr>)" by (simp add: keeps_def)
  then have i: "run_inv ((world s)\<lparr>reschedule_pending := False\<rparr>)" by (rule keeps_run_inv [OF k]) (simp add: run_invD(1) [OF k])
  show ?thesis
    by (rule reschedule_cores_run [of "updk (\<lambda>k. k\<lparr>reschedule_pending := False\<rparr>) s" "[0..<num_cores (world s)]" env])
      (use i r True in \<open>simp_all add: System_Reschedule_def updk_def\<close>)
qed (use r k in \<open>simp add: System_Reschedule_def\<close>)

lemma SetRunningCPU_run:
  assumes k: "run_inv (world s)" and r: "SetRunningCPU env c s = Some s'"
  shows "run_inv (world s')"
proof (rule keeps_run_inv [OF k _ SetRunningCPU_ok [OF run_invD(1) [OF k] r]])
  show "keeps (world s) (world s')"
    using r by (auto simp: SetRunningCPU_def SetCurrentTimer_def updk_def onk_def SetCurrentProcess_def SetCurrentMemoryPageTable_def Let_def keeps_def
        split: if_splits option.splits)
qed

lemma ThreadWakeupCallback_run:
  assumes env: "env_ok env" and k: "run_inv k" and t: "wakeup_callback_table (managers k c) (unat n) = Some t" "timeout_due k t"
    and r: "ThreadWakeupCallback env c n k = Some k'"
  shows "run_inv k'"
proof (rule keeps_run_inv [OF k])
  show "kernel_inv k'" using ThreadWakeupCallback_ok [OF env run_invD(1) [OF k] t] r by auto
  obtain k1 where k1: "(if status (threads k t) \<in> {WaitSynchAny, WaitSynchAll, WaitArb, WaitHleEvent}
      then map_option (clear_wait_objects t) (invoke_callback env Timeout t None k) else Some k) = Some k1" "ResumeFromWait t k1 = Some k'"
    using r t(1) by (auto simp: ThreadWakeupCallback_def split: bind_splits)
  have "keeps k k1" using k1(1) keeps_trans [OF keeps_invoke [OF env] keeps_clear] by (auto split: if_splits)
  then show "keeps k k'" by (rule keeps_trans [OF _ keeps_resume [OF k1(2)]])
qed

lemma TimerCallback_run:
  assumes env: "env_ok env" and k: "run_inv (world s)" and r: "TimerCallback env cid late s = Some s'"
  shows "run_inv (world s')"
  by (rule keeps_run_inv [OF k _ TimerCallback_ok [OF env run_invD(1) [OF k] r]])
    (use r keeps_Timer_Signal [OF env] in \<open>auto simp: TimerCallback_def split: bind_splits body.splits\<close>)

section \<open>Runs\<close>

text \<open>The kernel when the emulator starts; \<open>pr\<close> describes the processes.\<close>

definition boot_kernel :: "nat \<Rightarrow> (pid \<Rightarrow> Process) \<Rightarrow> (nat \<Rightarrow> ResourceLimit) \<Rightarrow> MemorySystem \<Rightarrow> Kernel" where
  "boot_kernel cores pr lim m =
     \<lparr>threads = \<lambda>_. new_thread 0 0 0 0 0 0, saved_context = \<lambda>_. empty_context, waiting_threads = \<lambda>_. [],
      bodies = \<lambda>_. B_Event \<lparr>ev_reset = OneShot, ev_signaled = False\<rparr>, arbiters = \<lambda>_. [],
      managers = \<lambda>_. \<lparr>current_thread = None, ready_queue = tql_new, wakeup_callback_table = Map.empty, thread_list = []\<rparr>,
      num_cores = cores, cpu_context = \<lambda>_. empty_context, cp15_thread_uro = \<lambda>_. 0, cpu_page_table = \<lambda>_. None, current_cpu = 0,
      running_process = None, stored_processes = \<lambda>_. None,
      processes = \<lambda>p. (pr p)\<lparr>handle_table := HandleTable_new, tls_slots := []\<rparr>, limits = lim, next_thread_id = 1, next_object = 0,
      next_arbiter = 0, next_timer_callback_id = 0, timer_callback_table = Map.empty, kmem = m, reschedule_pending = False, crashed = False\<rparr>"

text \<open>
  A step is a supervisor call of a thread that runs, instructions of a guest (which change registers and
  memory), a slice that found no thread, the scheduler, the change to another core, the timeout of a
  thread, the expiry of a timer, the start of a thread by the loader, or time that passes.
\<close>

inductive kernel_step :: "hle_env \<Rightarrow> sys \<Rightarrow> sys \<Rightarrow> bool" for env where
  call: "runs (world s) t \<Longrightarrow> CallSVC env g c s = Some s' \<Longrightarrow> kernel_step env s s'"
| guest: "kernel_step env s (updk (\<lambda>k. k\<lparr>cpu_context := x, kmem := m\<rparr>) s)"
| idle: "kernel_step env s (updk PrepareReschedule s)"
| schedule: "System_Reschedule env s = Some s' \<Longrightarrow> kernel_step env s s'"
| core: "SetRunningCPU env c s = Some s' \<Longrightarrow> kernel_step env s s'"
| timeout: "wakeup_callback_table (managers (world s) c) (unat n) = Some t \<Longrightarrow> timeout_due (world s) t \<Longrightarrow>
    ThreadWakeupCallback env c n (world s) = Some k' \<Longrightarrow> kernel_step env s (s\<lparr>world := k'\<rparr>)"
| timer: "TimerCallback env cid late s = Some s' \<Longrightarrow> kernel_step env s s'"
| spawn: "KernelSystem_CreateThread env entry priority arg proc stack p mk s = Some (r, s') \<Longrightarrow> kernel_step env s s'"
| time: "world s' = world s \<Longrightarrow> kernel_step env s s'"

inductive reachable :: "hle_env \<Rightarrow> sys \<Rightarrow> bool" for env where
  boot: "world s = boot_kernel cores pr lim m \<Longrightarrow> reachable env s"
| step: "reachable env s \<Longrightarrow> kernel_step env s s' \<Longrightarrow> reachable env s'"

inductive_cases kernel_stepE: "kernel_step env s s'"

lemma run_inv_boot: "run_inv (boot_kernel cores pr lim m)"
proof -
  have l: "\<not> live (boot_kernel cores pr lim m) t" for t by (auto simp: live_def boot_kernel_def)
  have "queue_ok (boot_kernel cores pr lim m)"
    using l tql_ok_new by (auto simp: queue_ok_def core_queue_ok_def boot_kernel_def level_data_def tql_new_def empty_queue_def)
  moreover have "relation_ok (boot_kernel cores pr lim m)" "holders_ok (boot_kernel cores pr lim m)" "dead_ok (boot_kernel cores pr lim m)"
    by (auto simp: relation_ok_def relation_defs holders_ok_def dead_ok_def boot_kernel_def new_thread_def is_mutex_def mutex_of_def live_def)
  moreover have "handles_ok (boot_kernel cores pr lim m)"
    by (auto simp: handles_ok_def boot_kernel_def HandleTable_new_def HandleTable_Clear_def split: if_splits)
  moreover have "wakeup_table_ok (boot_kernel cores pr lim m)" by (simp add: wakeup_table_ok_def boot_kernel_def)
  ultimately show ?thesis by (simp add: run_inv_def kernel_inv_def kernel_ok_def)
qed

lemma kernel_step_run_inv:
  assumes env: "env_ok env" and st: "kernel_step env s s'" and k: "run_inv (world s)"
  shows "run_inv (world s')"
  using st
proof cases
  case (call t g c)
  then show ?thesis by (intro CallSVC_ok [OF env k])
next
  case (guest m x)
  have "keeps (world s) ((world s)\<lparr>cpu_context := x, kmem := m\<rparr>)" by (simp add: keeps_def)
  moreover have "kernel_inv ((world s)\<lparr>cpu_context := x, kmem := m\<rparr>) = kernel_inv (world s)" by (rule kernel_inv_same) simp_all
  ultimately have "run_inv ((world s)\<lparr>cpu_context := x, kmem := m\<rparr>)" using keeps_run_inv [OF k] run_invD(1) [OF k] by blast
  then show ?thesis by (simp add: guest updk_def)
next
  case idle
  then show ?thesis using k by (simp add: updk_def)
next
  case schedule
  then show ?thesis by (rule System_Reschedule_run [OF k])
next
  case (core c)
  then show ?thesis by (intro SetRunningCPU_run [OF k])
next
  case (timeout c n t k')
  then show ?thesis using ThreadWakeupCallback_run [OF env k] by simp
next
  case (timer cid late)
  then show ?thesis by (intro TimerCallback_run [OF env k])
next
  case spawn
  then show ?thesis by (intro CreateThread_run(1) [OF k])
next
  case time
  then show ?thesis using k by simp
qed

lemma reachable_run_inv: "reachable env s \<Longrightarrow> env_ok env \<Longrightarrow> run_inv (world s)"
  by (induction rule: reachable.induct) (simp_all add: run_inv_boot kernel_step_run_inv)

end
