(* ===== verification/Kernel_Example.thy ===== *)
theory Kernel_Example
  imports Kernel_Runs
begin

text \<open>
  Concrete kernels for the examples: a machine with one core and one process, two threads that were started by
  \<open>CreateThread\<close>, the same machine after its first rescheduling, and kernels in which the running thread waits
  for an event, for a semaphore, at an address, or holds a mutex.
\<close>

text \<open>A thread runs at least at the priority of each mutex it holds.\<close>

definition boosted :: "Kernel \<Rightarrow> tid \<Rightarrow> bool" where
  "boosted k h \<longleftrightarrow> (\<forall>i \<in> set (held_mutexes (threads k h)). current_priority (threads k h) \<le> mtx_priority (mutex_of k i))"

section \<open>Two threads\<close>

definition demo_env :: hle_env where
  "demo_env = \<lparr>other_wakeup = \<lambda>_ _ _ _ k. Some k, hle_notifier = \<lambda>_ k. k, clock_scale = id, map_tls_page = \<lambda>_ _ m. Some m, party_export = Some\<rparr>"

lemma demo_env_ok: "env_ok demo_env" "export_total demo_env"
proof -
  have "\<exists>c m. k = k\<lparr>saved_context := c, kmem := m\<rparr>" for k :: Kernel
    by (rule exI [of _ "saved_context k"], rule exI [of _ "kmem k"]) simp
  then show "env_ok demo_env" "export_total demo_env" by (simp_all add: env_ok_def export_total_def demo_env_def)
qed

definition demo_boot :: sys where
  "demo_boot = Timing_new 1 0 (boot_kernel 1
     (\<lambda>_. \<lparr>handle_table = HandleTable_new, resource_limit = 0, no_thread_restrictions = False, ideal_processor = 0, tls_slots = []\<rparr>)
     (\<lambda>_. ResourceLimit_Create) (heap_memory (\<lambda>_. 0)))"

lemma ZeroBlock_unmapped:
  assumes "attributes (tables m p) (page_of a) = Unmapped" "page_off a + n \<le> CITRA_PAGE_SIZE" "page_of a < PAGE_TABLE_NUM_ENTRIES"
  shows "ZeroBlock p a n m = Some m"
proof -
  have m: "min (CITRA_PAGE_SIZE - page_off a) n = n" using assms(2) by simp
  show ?thesis using assms unfolding ZeroBlock_def
    by (simp add: zero_block_loop.simps [of _ "page_of a"] zero_block_loop.simps [of _ _ _ 0] Let_def m)
qed


lemma demo_tls:
  assumes "tables (kmem k) 0 = heap_table"
  shows "tls_slots (processes k 0) = [] \<Longrightarrow> AllocateThreadLocalStorage demo_env 0 k =
      Some (Inr (0x1FF82000, k\<lparr>processes := (processes k)(0 := (processes k 0)\<lparr>tls_slots := [True # replicate 7 False]\<rparr>)\<rparr>))"
    "tls_slots (processes k 0) = [True # replicate 7 False] \<Longrightarrow> AllocateThreadLocalStorage demo_env 0 k =
      Some (Inr (0x1FF82200, k\<lparr>processes := (processes k)(0 := (processes k 0)\<lparr>tls_slots := [True # True # replicate 6 False]\<rparr>)\<rparr>))"
proof -
  have "ZeroBlock 0 0x1FF82000 512 (kmem k) = Some (kmem k)" "ZeroBlock 0 0x1FF82200 512 (kmem k) = Some (kmem k)"
    by (rule ZeroBlock_unmapped; simp add: assms heap_table_def page_of_def page_off_def)+
  then show "tls_slots (processes k 0) = [] \<Longrightarrow> AllocateThreadLocalStorage demo_env 0 k =
      Some (Inr (0x1FF82000, k\<lparr>processes := (processes k)(0 := (processes k 0)\<lparr>tls_slots := [True # replicate 7 False]\<rparr>)\<rparr>))"
    "tls_slots (processes k 0) = [True # replicate 7 False] \<Longrightarrow> AllocateThreadLocalStorage demo_env 0 k =
      Some (Inr (0x1FF82200, k\<lparr>processes := (processes k)(0 := (processes k 0)\<lparr>tls_slots := [True # True # replicate 6 False]\<rparr>)\<rparr>))"
    by (simp_all add: AllocateThreadLocalStorage_def demo_env_def Let_def tls_address_of_def TLS_AREA_VADDR_def TLS_ENTRY_SIZE_def numeral_eq_Suc)
qed


text \<open>The world after a thread was started.\<close>

definition started :: "nat \<Rightarrow> u32 \<Rightarrow> bool list list \<Rightarrow> sys \<Rightarrow> sys" where
  "started priority tls slots s =
     (let t = next_thread_id (world s);
          k = with_thread t (new_thread 0x08000000 priority 0 0 0 (Timer_GetTicks (timers s ! 0))) 0 (world s);
          k = k\<lparr>processes := (processes k)(0 := (processes k 0)\<lparr>tls_slots := slots\<rparr>)\<rparr>;
          k = upd_context t (ResetThreadContext 0 0x08000000 0) (upd_thread t (\<lambda>th. th\<lparr>tls_address := tls\<rparr>) k)
      in s\<lparr>world := upd_thread t (\<lambda>th. th\<lparr>status := Ready\<rparr>) (upd_queue 0 (push_back priority t) k)\<rparr>)"

lemma demo_start:
  assumes "tables (kmem (world s)) 0 = heap_table" "num_cores (world s) = 1" "priority \<le> 63"
    "tls_slots (processes (world s) 0) = [] \<and> tls = 0x1FF82000 \<and> slots = [True # replicate 7 False] \<or>
     tls_slots (processes (world s) 0) = [True # replicate 7 False] \<and> tls = 0x1FF82200 \<and> slots = [True # True # replicate 6 False]"
  shows "KernelSystem_CreateThread demo_env 0x08000000 priority 0 0 0 0 True s =
    Some (Inr (next_thread_id (world s)), started priority tls slots s)"
proof -
  let ?t = "next_thread_id (world s)"
  let ?k = "with_thread ?t (new_thread 0x08000000 priority 0 0 0 (Timer_GetTicks (timers s ! 0))) 0 (world s)"
  have f: "kmem ?k = kmem (world s)" "processes ?k = processes (world s)" by (simp_all add: with_thread_def Let_def upd_manager_def)
  have a: "AllocateThreadLocalStorage demo_env 0 ?k =
      Some (Inr (tls, ?k\<lparr>processes := (processes ?k)(0 := (processes ?k 0)\<lparr>tls_slots := slots\<rparr>)\<rparr>))"
    using demo_tls [of ?k] f assms(1,4) by auto
  have th: "current_priority (new_thread 0x08000000 priority 0 0 0 (Timer_GetTicks (timers s ! 0))) = priority" by (simp add: new_thread_def)
  have v: "IsValidVirtualAddress 0 0x08000000 (kmem (world s))"
    by (simp add: IsValidVirtualAddress_def assms(1) heap_table_def page_of_def)
  have "upd_manager 0 (\<lambda>m. m\<lparr>thread_list := thread_list m @ [?t], ready_queue := prepare priority (ready_queue m),
      wakeup_callback_table := (wakeup_callback_table m)(?t \<mapsto> ?t)\<rparr>) (world s)
      \<lparr>next_thread_id := ?t + 1, threads := (threads (world s))(?t := new_thread 0x08000000 priority 0 0 0 (Timer_GetTicks (timers s ! 0))),
       saved_context := (saved_context (world s))(?t := empty_context)\<rparr> = ?k"
    using th by (simp add: with_thread_def Let_def upd_manager_def)
  then show ?thesis using assms(2,3) a v
    by (simp add: KernelSystem_CreateThread_def started_def Let_def ThreadPrioLowest_def ThreadProcessorIdMax_def upd_manager_def)
qed

definition demo_two :: sys where
  "demo_two = started 30 0x1FF82200 [True # True # replicate 6 False] (started 48 0x1FF82000 [True # replicate 7 False] demo_boot)"

lemma demo_two_reachable: "reachable demo_env demo_two"
proof -
  have "reachable demo_env demo_boot" by (rule reachable.boot) (simp add: demo_boot_def Timing_new_def)
  moreover have "kernel_step demo_env demo_boot (started 48 0x1FF82000 [True # replicate 7 False] demo_boot)"
    by (rule kernel_step.spawn, rule demo_start) (simp_all add: demo_boot_def Timing_new_def boot_kernel_def heap_memory_def)
  moreover have "kernel_step demo_env (started 48 0x1FF82000 [True # replicate 7 False] demo_boot) demo_two"
    unfolding demo_two_def
    by (rule kernel_step.spawn, rule demo_start)
      (simp_all add: started_def Let_def with_thread_def kernel_upd_defs demo_boot_def Timing_new_def boot_kernel_def heap_memory_def)
  ultimately show ?thesis by (blast intro: reachable.step)
qed

lemma demo_two_fields:
  "num_cores (world demo_two) = 1" "next_thread_id (world demo_two) = 3" "current_thread (managers (world demo_two) 0) = None"
  "threads (world demo_two) 1 = (new_thread 0x08000000 48 0 0 0 0)\<lparr>tls_address := 0x1FF82000, status := Ready\<rparr>"
  "threads (world demo_two) 2 = (new_thread 0x08000000 30 0 0 0 0)\<lparr>tls_address := 0x1FF82200, status := Ready\<rparr>"
  by (simp_all add: demo_two_def started_def Let_def with_thread_def kernel_upd_defs demo_boot_def Timing_new_def boot_kernel_def
      Timer_GetTicks_def Timer_new_def to_u64_def)

lemma demo_two_inv: "kernel_inv (world demo_two)"
  using reachable_run_inv [OF demo_two_reachable demo_env_ok(1)] by (rule run_invD(1))

lemma demo_two_status: "status (threads (world demo_two) u) = (if u = 1 \<or> u = 2 then Ready else Dormant)"
  by (simp add: demo_two_def started_def Let_def with_thread_def kernel_upd_defs demo_boot_def Timing_new_def boot_kernel_def new_thread_def)

lemma demo_two_objects:
  "next_object (world demo_two) = 0" "next_arbiter (world demo_two) = 0"
  "arbiters (world demo_two) = (\<lambda>_. [])" "wakeup_callback_table (managers (world demo_two) 0) 2 = Some 2"
  "wakeup_callback (threads (world demo_two) 2) = None" "held_mutexes (threads (world demo_two) 2) = []"
  by (simp_all add: demo_two_def started_def Let_def with_thread_def kernel_upd_defs demo_boot_def Timing_new_def boot_kernel_def new_thread_def)

section \<open>The first rescheduling\<close>

definition demo_run :: Kernel where
  "demo_run = world (the (Reschedule demo_env 0 demo_two))"

lemma demo_two_schedulable:
  "schedulable (world demo_two) 0 u \<longleftrightarrow> u = 1 \<or> u = 2" "running_thread 0 (world demo_two) = None"
  using demo_two_status [of u] demo_two_fields
  by (auto simp: schedulable_def running_thread_def live_def new_thread_def)

lemma demo_run:
  shows "kernel_inv demo_run" "switched 0 (Some 2) (world demo_two) demo_run"
proof -
  have c: "0 < num_cores (world demo_two)" by (simp add: demo_two_fields)
  obtain s' where s': "Reschedule demo_env 0 demo_two = Some s'" using Reschedule_total [OF demo_env_ok(2) demo_two_inv c] by blast
  obtain n where n: "choice (world demo_two) 0 n" "switched 0 n (world demo_two) (world s')" "kernel_inv (world s')"
    using Reschedule_ok [OF demo_two_inv c s'] by blast
  have "n = Some 2"
  proof (cases n)
    case None
    then show ?thesis using choice_None n(1) demo_two_schedulable by blast
  next
    case (Some t)
    then have "t = 1 \<or> t = 2" "current_priority (threads (world demo_two) t) \<le> current_priority (threads (world demo_two) 2)"
      using choiceD(1,2) [of "world demo_two" 0 t] n(1) demo_two_schedulable by auto
    then show ?thesis using Some demo_two_fields(4,5) by (auto simp: new_thread_def)
  qed
  then show "kernel_inv demo_run" "switched 0 (Some 2) (world demo_two) demo_run" using n s' by (simp_all add: demo_run_def)
qed

lemma demo_run_status: "status (threads demo_run u) = (if u = 1 then Ready else if u = 2 then Running else Dormant)"
  using demo_run(2) demo_two_schedulable(2) by (simp add: switched_def demo_two_status)

lemma demo_run_fields:
  "live demo_run 2" "next_object demo_run = 0" "next_arbiter demo_run = 0" "num_cores demo_run = 1" "arbiters demo_run = (\<lambda>_. [])"
  "wakeup_callback_table (managers demo_run 0) 2 = Some 2" "held_mutexes (threads demo_run 2) = []" "waiting_threads demo_run ob = []"
  "wait_objects (threads demo_run u) = []"
proof -
  have r: "reranked (world demo_two) demo_run" using demo_run(2) by (simp add: switched_def)
  show w: "wait_objects (threads demo_run u) = []" for u
    using no_wait_objects [OF demo_run(1)] demo_run_status [of u] by (simp add: waits_for_objects_def split: if_splits)
  then show "waiting_threads demo_run ob = []" using wait_okD(1) [OF kernel_invD(6) [OF demo_run(1)]] by (metis empty_iff empty_set last_in_set)
  show "live demo_run 2" "next_object demo_run = 0" "next_arbiter demo_run = 0" "num_cores demo_run = 1" "arbiters demo_run = (\<lambda>_. [])"
    "wakeup_callback_table (managers demo_run 0) 2 = Some 2" "held_mutexes (threads demo_run 2) = []"
    using r demo_two_fields demo_two_objects by (simp_all add: reranked_def live_def)
qed

text \<open>The running thread waits for the first object, whose body is \<open>b\<close>.\<close>

definition demo_waits :: "body \<Rightarrow> Kernel" where
  "demo_waits b = wait_on 2 WaitSynchAny [Obj 0] (snd (new_body b demo_run))"

lemma demo_waits:
  assumes "\<not> (\<exists>m. b = B_Mutex m)"
  shows "kernel_inv (demo_waits b)" "no_duplicate_waits (demo_waits b)" "waiting_threads (demo_waits b) (Obj 0) = [2]"
    "bodies (demo_waits b) 0 = b" "status (threads (demo_waits b) 2) = WaitSynchAny" "live (demo_waits b) 2"
    "wakeup_callback_table (managers (demo_waits b) 0) 2 = Some 2"
proof -
  let ?k = "snd (new_body b demo_run)"
  have k: "kernel_inv ?k" by (rule new_body_ok [OF demo_run(1)]) (use assms in \<open>auto split: body.split\<close>)
  have e: "threads ?k = threads demo_run" "live ?k = live demo_run" "bodies ?k 0 = b" "waiting_threads ?k = waiting_threads demo_run"
    "managers ?k = managers demo_run" "next_object ?k = 1" "\<not> is_mutex ?k 0" "next_thread_id ?k = next_thread_id demo_run"
    using assms demo_run_fields by (auto simp: new_body_def set_body_def live_def fun_eq_iff is_mutex_def split: body.splits)
  show "kernel_inv (demo_waits b)" unfolding demo_waits_def
    by (rule kernel_inv_wait_on [OF k]) (use demo_run_fields demo_run_status in \<open>auto simp: e waiting_status_def waits_for_objects_def \<close>)
  have d: "demo_waits b = upd_thread 2 (\<lambda>th. th\<lparr>wait_objects := [Obj 0]\<rparr>) (add_waiter (Obj 0) 2 (upd_thread 2 (\<lambda>th. th\<lparr>status := WaitSynchAny\<rparr>) ?k))"
    by (simp add: demo_waits_def wait_on_def e)
  show "no_duplicate_waits (demo_waits b)" "waiting_threads (demo_waits b) (Obj 0) = [2]" "bodies (demo_waits b) 0 = b"
    "status (threads (demo_waits b) 2) = WaitSynchAny" "live (demo_waits b) 2" "wakeup_callback_table (managers (demo_waits b) 0) 2 = Some 2"
    using demo_run_fields by (auto simp: d no_duplicate_waits_def add_waiter_def kernel_upd_defs e demo_run_status live_def)
qed

text \<open>The running thread waits at an address.\<close>

definition demo_arb :: Kernel where
  "demo_arb = WaitThread 0 2 0x08000010 (upd_thread 2 (\<lambda>th. th\<lparr>wakeup_callback := None\<rparr>) (snd (CreateAddressArbiter demo_run)))"

lemma demo_arb: "kernel_inv demo_arb" "arbiters demo_arb 0 = [2]" "wait_address (threads demo_arb 2) = 0x08000010"
proof -
  let ?k = "snd (CreateAddressArbiter demo_run)"
  have e: "threads ?k = threads demo_run" "live ?k 2" "next_arbiter ?k = 1"
    using demo_run_fields(1,3) by (simp_all add: CreateAddressArbiter_def live_def)
  show "kernel_inv demo_arb" unfolding demo_arb_def
    by (rule kernel_inv_WaitThread [OF CreateAddressArbiter_ok [OF demo_run(1)]]) (simp_all add: e demo_run_status)
  show "arbiters demo_arb 0 = [2]" "wait_address (threads demo_arb 2) = 0x08000010"
    using demo_run_fields by (simp_all add: demo_arb_def WaitThread_def CreateAddressArbiter_def kernel_upd_defs)
qed

text \<open>The running thread holds a mutex.\<close>

definition demo_free :: Kernel where
  "demo_free = snd (new_body (B_Mutex \<lparr>lock_count = 0, mtx_priority = 0, holding_thread = None\<rparr>) demo_run)"

definition demo_held :: Kernel where
  "demo_held = Mutex_Acquire 0 \<lparr>lock_count = 0, mtx_priority = 0, holding_thread = None\<rparr> 2 demo_free"

lemma demo_held: "kernel_inv demo_held" "is_mutex demo_held 0" "holding_thread (mutex_of demo_held 0) = Some 2" "boosted demo_held 2"
proof -
  have k: "kernel_inv demo_free" unfolding demo_free_def by (rule new_body_ok [OF demo_run(1)]) simp
  have e: "threads demo_free = threads demo_run" "live demo_free 2" "bodies demo_free 0 = B_Mutex \<lparr>lock_count = 0, mtx_priority = 0, holding_thread = None\<rparr>"
    using demo_run_fields by (simp_all add: demo_free_def new_body_def set_body_def live_def)
  have a: "Acquire (Obj 0) 2 demo_free = Some demo_held" by (simp add: demo_held_def e)
  show "kernel_inv demo_held" by (rule Acquire_inv [OF k e(2) _ a]) (simp add: e(1) demo_run_status)
  show "is_mutex demo_held 0" "holding_thread (mutex_of demo_held 0) = Some 2" "boosted demo_held 2"
    using demo_run_fields(7)
    by (simp_all add: demo_held_def Mutex_Acquire_def UpdatePriority_def BoostPriority_def Let_def kernel_upd_defs is_mutex_def mutex_of_def e boosted_def flat_insert_def)
qed

end
