(* ===== verification/Kernel_Facts.thy ===== *)
theory Kernel_Facts
  imports Kernel_Example
begin

text \<open>
  What the kernel promises its threads: mutual exclusion, consistent lists, the choice of the scheduler,
  who is woken and when, permits that are neither lost nor duplicated, and priority inheritance.
\<close>

section \<open>Permits of a semaphore\<close>

lemma semaphore_view:
  assumes "view k' = view k"
  shows "bodies k' i = B_Semaphore x \<longleftrightarrow> bodies k i = B_Semaphore x"
  using same_view(12) [OF assms, of i] by (cases "bodies k' i"; cases "bodies k i") auto

lemma acquired_other: "ob \<noteq> Obj i \<Longrightarrow> bodies (acquired ob t k) i = bodies k i"
  by (cases ob) (auto split: body.splits)

lemma acquire_all_semaphore:
  "distinct obs \<Longrightarrow> Obj i \<in> set obs \<Longrightarrow> bodies k i = B_Semaphore x \<Longrightarrow> 0 < available_count x \<Longrightarrow> acquire_all obs t k = Some k' \<Longrightarrow>
   bodies k' i = B_Semaphore (x\<lparr>available_count := available_count x - 1\<rparr>)"
  "Obj i \<notin> set obs \<Longrightarrow> bodies k i = B_Semaphore x \<Longrightarrow> acquire_all obs t k = Some k' \<Longrightarrow> bodies k' i = B_Semaphore x"
proof -
  show skip: "bodies k' i = B_Semaphore x" if "Obj i \<notin> set obs" "bodies k i = B_Semaphore x" "acquire_all obs t k = Some k'" for k k' x obs
    using that
  proof (induction obs arbitrary: k)
    case (Cons ob obs)
    then obtain k1 where k1: "Acquire ob t k = Some k1" "acquire_all obs t k1 = Some k'" by (auto split: bind_splits)
    have "bodies k1 i = B_Semaphore x" using semaphore_view [OF view_Acquire [OF k1(1)], of i x] acquired_other [of ob i t k] Cons.prems by auto
    then show ?case using Cons.IH [OF _ _ k1(2)] Cons.prems(1) by simp
  qed simp
  assume "distinct obs" "Obj i \<in> set obs" "bodies k i = B_Semaphore x" "0 < available_count x" "acquire_all obs t k = Some k'"
  then show "bodies k' i = B_Semaphore (x\<lparr>available_count := available_count x - 1\<rparr>)"
  proof (induction obs arbitrary: k)
    case (Cons ob obs)
    then obtain k1 where k1: "Acquire ob t k = Some k1" "acquire_all obs t k1 = Some k'" by (auto split: bind_splits)
    show ?case
    proof (cases "ob = Obj i")
      case True
      then have "bodies k1 i = B_Semaphore (x\<lparr>available_count := available_count x - 1\<rparr>)"
        using semaphore_view [OF view_Acquire [OF k1(1)], of i] Cons.prems(3,4) by simp
      then show ?thesis using skip [OF _ _ k1(2)] Cons.prems(1) True by simp
    next
      case False
      then have "bodies k1 i = B_Semaphore x"
        using semaphore_view [OF view_Acquire [OF k1(1)], of i x] acquired_other [of ob i t k] Cons.prems by auto
      then show ?thesis using Cons.IH [OF _ _ _ _ k1(2)] Cons.prems(1,2,4) False by simp
    qed
  qed simp
qed

lemma wake_thread_semaphore:
  assumes env: "env_ok env" and k: "kernel_ok k" and nd: "no_duplicate_waits k" and w: "t \<in> set (waiting_threads k (Obj i))"
    and c: "can_wake k (Obj i) t" and b: "bodies k i = B_Semaphore x" and r: "wake_thread env (Obj i) t k = Some k'"
  shows "bodies k' i = B_Semaphore (x\<lparr>available_count := available_count x - 1\<rparr>)" "0 < available_count x"
proof -
  show av: "0 < available_count x" using c b by (simp add: can_wake_def)
  have ob: "Obj i \<in> set (wait_objects (threads k t))" using w wait_okD(1) [OF kernel_okD(4) [OF k]] by simp
  then have t: "live k t" "waits_for_objects (status (threads k t))" using wait_okD(3) [OF kernel_okD(4) [OF k]] by auto
  have dead: "status (threads k t) \<noteq> Dead" using t(2) by (auto simp: waits_for_objects_def)
  obtain k1 k2 where k1: "(if status (threads k t) \<noteq> WaitSynchAll then Acquire (Obj i) t k else acquire_all (wait_objects (threads k t)) t k) = Some k1"
    and k2: "invoke_callback env Signal t (Some (Obj i)) k1 = Some k2" and res: "ResumeFromWait t (clear_wait_objects t k2) = Some k'"
    using r by (auto simp: wake_thread_def simp del: Acquire.simps split: bind_splits)
  have b1: "bodies k1 i = B_Semaphore (x\<lparr>available_count := available_count x - 1\<rparr>)"
  proof (cases "status (threads k t) = WaitSynchAll")
    case True
    then show ?thesis using acquire_all_semaphore(1) [OF _ ob b av] nd k1 by (simp add: no_duplicate_waits_def)
  next
    case False
    then have "Acquire (Obj i) t k = Some k1" using k1 by simp
    then show ?thesis using b av by (auto simp: set_body_def)
  qed
  have o1: "kernel_ok k1" "same_waits k k1" using k1 Acquire_ok [OF k t(1) dead] acquire_all_ok [OF k t(1) dead] by (auto simp del: Acquire.simps split: if_splits)
  have w1: "waits_for_objects (status (threads k1 t))" "wait_objects (threads k1 t) \<noteq> []" using o1(2) t ob by (auto simp: same_waits_def)
  have v2: "view k2 = view k1" "queue_ok k2"
    using invoke_signal [OF env relation_okD(3) [OF kernel_okD(2) [OF o1(1)]] w1, of "Obj i"] k2 kernel_okD(1) [OF o1(1)] by auto
  have o2: "kernel_ok k2" by (rule kernel_ok_cong [OF v2 o1(1)])
  have b2: "bodies k2 i = B_Semaphore (x\<lparr>available_count := available_count x - 1\<rparr>)" using semaphore_view [OF v2(1)] b1 by simp
  have "bodies (clear_wait_objects t k2) i = B_Semaphore (x\<lparr>available_count := available_count x - 1\<rparr>)"
    using semaphore_view [OF view_clear_wait_objects [OF kernel_okD(4) [OF o2]]] b2 by simp
  then show "bodies k' i = B_Semaphore (x\<lparr>available_count := available_count x - 1\<rparr>)"
    using res by (cases "status (threads (clear_wait_objects t k2) t)") (auto simp: ResumeFromWait_def Let_def kernel_upd_defs split: if_splits)
qed

text \<open>Every thread that is woken takes one permit.\<close>

lemma wakeup_loop_semaphore:
  assumes env: "env_ok env"
  shows "kernel_ok k \<Longrightarrow> no_duplicate_waits k \<Longrightarrow> bodies k i = B_Semaphore x \<Longrightarrow> 0 \<le> available_count x \<Longrightarrow>
    \<exists>k' n. wakeup_loop env (Obj i) k = Some k' \<and> bodies k' i = B_Semaphore (x\<lparr>available_count := available_count x - int n\<rparr>) \<and>
      int n \<le> available_count x \<and> length (waiting_threads k' (Obj i)) + n = length (waiting_threads k (Obj i))"
proof (induction "length (waiting_threads k (Obj i))" arbitrary: k x rule: less_induct)
  case less
  let ?ob = "Obj i"
  note gh = GetHighestPriorityReadyThread_min [OF kernel_okD(4,1) [OF less.prems(1)], of ?ob]
  show ?case
  proof (cases "GetHighestPriorityReadyThread ?ob k = Some None")
    case True
    then have "wakeup_loop env ?ob k = Some k" by (subst wakeup_loop.simps) simp
    then show ?thesis using less.prems(3,4) by (intro exI [of _ k] exI [of _ 0]) simp
  next
    case False
    then obtain t where t: "GetHighestPriorityReadyThread ?ob k = Some (Some t)" using gh by (auto simp del: min_element_None)
    then have c: "can_wake k ?ob t" using gh min_element_in [of "\<lambda>t. current_priority (threads k t)" "filter (can_wake k ?ob) (waiting_threads k ?ob)" t] by simp
    obtain k1 where k1: "wake_thread env ?ob t k = Some k1" "kernel_ok k1" "no_duplicate_waits k1"
      "\<forall>o'. waiting_threads k1 o' = removeAll t (waiting_threads k o')" "t \<in> set (waiting_threads k ?ob)"
      using wake_total [OF env less.prems(1,2) t] by blast
    note b1 = wake_thread_semaphore [OF env less.prems(1,2) k1(5) c less.prems(3) k1(1)]
    have "distinct (waiting_threads k ?ob)" by (rule wait_okD(2) [OF kernel_okD(4) [OF less.prems(1)]])
    then have len: "length (waiting_threads k1 ?ob) + 1 = length (waiting_threads k ?ob)"
      using k1(4,5) by (simp add: distinct_remove1_removeAll [symmetric] length_remove1) (metis Suc_pred length_pos_if_in_set)
    obtain k' n where "wakeup_loop env ?ob k1 = Some k'"
      "bodies k' i = B_Semaphore ((x\<lparr>available_count := available_count x - 1\<rparr>)\<lparr>available_count := available_count x - 1 - int n\<rparr>)"
      "int n \<le> available_count x - 1" "length (waiting_threads k' ?ob) + n = length (waiting_threads k1 ?ob)"
      using less.hyps [OF _ k1(2,3) b1(1)] len b1(2) by fastforce
    moreover from this have "wakeup_loop env ?ob k = Some k'" using t k1(1) by (subst wakeup_loop.simps) simp
    ultimately show ?thesis using len by (intro exI [of _ k'] exI [of _ "Suc n"]) (simp add: algebra_simps)
  qed
qed

section \<open>Priority inheritance\<close>

lemma fold_min_le:
  "fold (\<lambda>x best. if f x < best then f x else best) xs b \<le> (b :: nat)"
  "x \<in> set xs \<Longrightarrow> fold (\<lambda>x best. if f x < best then f x else best) xs b \<le> f x"
proof -
  show le: "fold (\<lambda>x best. if f x < best then f x else best) xs b \<le> (b :: nat)" for xs b by (rule fold_best_le)
  assume "x \<in> set xs"
  then show "fold (\<lambda>x best. if f x < best then f x else best) xs b \<le> f x"
  proof (induction xs arbitrary: b)
    case (Cons y ys)
    then show ?case using le [of ys "if f y < b then f y else b"] by (cases "x = y") (auto simp: le_trans split: if_splits)
  qed simp
qed

lemma UpdatePriority_fields:
  "current_priority (threads (UpdatePriority h k) u) =
     (if u = h then fold (\<lambda>i best. if mtx_priority (mutex_of k i) < best then mtx_priority (mutex_of k i) else best)
        (held_mutexes (threads k h)) (nominal_priority (threads k h)) else current_priority (threads k u))"
  "held_mutexes (threads (UpdatePriority h k) u) = held_mutexes (threads k u)" "mutex_of (UpdatePriority h k) = mutex_of k"
  "waiting_threads (UpdatePriority h k) = waiting_threads k"
  by (auto simp: UpdatePriority_def BoostPriority_def Let_def kernel_upd_defs mutex_of_def fun_eq_iff)

lemma boosted_UpdatePriority: "boosted (UpdatePriority h k) h"
  using fold_min_le(2) [where f = "\<lambda>i. mtx_priority (mutex_of k i)"] by (simp add: boosted_def UpdatePriority_fields)

lemma Mutex_UpdatePriority_inherits:
  assumes m: "holding_thread (mutex_of k i) = Some h" "i \<in> set (held_mutexes (threads k h))" "boosted k h"
    and w: "w \<in> set (waiting_threads k (Obj i))" "w \<noteq> h"
  shows "boosted (Mutex_UpdatePriority i k) h"
    "current_priority (threads (Mutex_UpdatePriority i k) h) \<le> current_priority (threads (Mutex_UpdatePriority i k) w)"
proof -
  define best where "best = fold (\<lambda>w best. if current_priority (threads k w) < best then current_priority (threads k w) else best)
    (waiting_threads k (Obj i)) ThreadPrioLowest"
  define k1 where "k1 = set_body i (B_Mutex ((mutex_of k i)\<lparr>mtx_priority := best\<rparr>)) k"
  have best: "best \<le> current_priority (threads k w)" unfolding best_def by (rule fold_min_le(2) [OF w(1)])
  have e: "Mutex_UpdatePriority i k = (if best \<noteq> mtx_priority (mutex_of k i) then UpdatePriority h k1 else k)"
    using m(1) by (simp add: Mutex_UpdatePriority_def Let_def best_def k1_def)
  have "i \<in> set (held_mutexes (threads (UpdatePriority h k1) h))" using m(2) by (simp add: UpdatePriority_fields(2) k1_def)
  then have "current_priority (threads (UpdatePriority h k1) h) \<le> mtx_priority (mutex_of (UpdatePriority h k1) i)"
    using boosted_UpdatePriority [of h k1] unfolding boosted_def by blast
  also have "mtx_priority (mutex_of (UpdatePriority h k1) i) = best" by (simp add: UpdatePriority_fields(3) k1_def)
  also have "best \<le> current_priority (threads (UpdatePriority h k1) w)" using best w(2) by (simp add: UpdatePriority_fields(1) k1_def)
  finally show "current_priority (threads (Mutex_UpdatePriority i k) h) \<le> current_priority (threads (Mutex_UpdatePriority i k) w)"
    using m(2,3) best by (auto simp: e boosted_def)
  show "boosted (Mutex_UpdatePriority i k) h" using m(3) boosted_UpdatePriority [of h k1] by (simp add: e)
qed

section \<open>Properties of runs\<close>



text \<open>C12: In every state of a run the lists of the kernel agree with its threads: the ready queue of a
  core holds, once and at their current priority, exactly the ready threads of that core; a thread is in the
  waiting list of an object exactly while that object is among those it waits for, and then it is in a
  waiting state; a running thread is the current thread of its core.\<close>

theorem kernel_lists_agree:
  assumes "env_ok env" "reachable env s" "c < num_cores (world s)"
  shows "(\<forall>p. distinct (level_data (ready_queue (managers (world s) c)) p)) \<and>
    (\<forall>p t. t \<in> set (level_data (ready_queue (managers (world s) c)) p) \<longleftrightarrow>
       live (world s) t \<and> status (threads (world s) t) = Ready \<and> core_id (threads (world s) t) = c \<and>
       current_priority (threads (world s) t) = p) \<and>
    (\<forall>ob t. t \<in> set (waiting_threads (world s) ob) \<longleftrightarrow> ob \<in> set (wait_objects (threads (world s) t))) \<and>
    (\<forall>t. wait_objects (threads (world s) t) \<noteq> [] \<longrightarrow> waits_for_objects (status (threads (world s) t))) \<and>
    (\<forall>t. live (world s) t \<and> status (threads (world s) t) = Running \<and> core_id (threads (world s) t) = c \<longrightarrow>
       current_thread (managers (world s) c) = Some t)"
proof -
  have k: "kernel_inv (world s)" using reachable_run_inv [OF assms(2,1)] by (rule run_invD(1))
  have "core_queue_ok (world s) c" using kernel_invD(3) [OF k] assms(3) by (simp add: queue_ok_def)
  then show ?thesis using kernel_invD(6,10) [OF k] unfolding core_queue_ok_def wait_ok_def current_ok_def by blast
qed

theorem kernel_lists_agree_witness:
  "2 \<in> set (level_data (ready_queue (managers (world demo_two) 0)) 30)"
proof -
  have "0 < num_cores (world demo_two)" by (simp add: demo_two_fields)
  then show ?thesis using kernel_lists_agree [OF demo_env_ok(1) demo_two_reachable, of 0] by (simp add: demo_two_fields live_def new_thread_def)
qed

text \<open>C13: Rescheduling a core never aborts. It leaves the core to the running thread unless a ready thread
  that may be scheduled has a better priority; it never passes over a better ready thread; the core
  is left idle only when no thread of it could run. The thread it chose is running afterwards, the one
  it displaced is ready, and the state of no other thread changes.\<close>

theorem scheduler_choice:
  assumes "env_ok env" "export_total env" "reachable env s" "c < num_cores (world s)"
  shows "\<exists>s' next. Reschedule env c s = Some s' \<and>
    current_thread (managers (world s') c) = next \<and>
    (case next of
       None \<Rightarrow> running_thread c (world s) = None \<and> (\<forall>u. \<not> schedulable (world s) c u)
     | Some t \<Rightarrow> (running_thread c (world s) = Some t \<or> schedulable (world s) c t) \<and>
         (\<forall>u. schedulable (world s) c u \<longrightarrow> current_priority (threads (world s) t) \<le> current_priority (threads (world s) u)) \<and>
         (\<forall>u. running_thread c (world s) = Some u \<and> u \<noteq> t \<longrightarrow>
            current_priority (threads (world s) t) < current_priority (threads (world s) u))) \<and>
    (\<forall>u. status (threads (world s') u) = (if next = Some u then Running
       else if running_thread c (world s) = Some u then Ready else status (threads (world s) u)))"
proof -
  have k: "kernel_inv (world s)" using reachable_run_inv [OF assms(3,1)] by (rule run_invD(1))
  obtain s' where s': "Reschedule env c s = Some s'" using Reschedule_total [OF assms(2) k assms(4)] by blast
  obtain n where n: "choice (world s) c n" "switched c n (world s) (world s')" using Reschedule_ok [OF k assms(4) s'] by blast
  show ?thesis
    by (rule exI [of _ s'], rule exI [of _ n])
      (use s' n choiceD [of "world s" c] choice_None in \<open>auto simp: switched_def split: option.split\<close>)
qed

theorem scheduler_choice_witness:
  "\<exists>s'. Reschedule demo_env 0 demo_two = Some s' \<and> current_thread (managers (world s') 0) = Some 2"
proof -
  have "0 < num_cores (world demo_two)" by (simp add: demo_two_fields)
  then obtain s' n where n: "Reschedule demo_env 0 demo_two = Some s'" "current_thread (managers (world s') 0) = n"
    "case n of None \<Rightarrow> \<forall>u. \<not> schedulable (world demo_two) 0 u
     | Some t \<Rightarrow> schedulable (world demo_two) 0 t \<and>
       (\<forall>u. schedulable (world demo_two) 0 u \<longrightarrow> current_priority (threads (world demo_two) t) \<le> current_priority (threads (world demo_two) u))"
    using scheduler_choice [OF demo_env_ok demo_two_reachable, of 0] by (auto simp: demo_two_schedulable(2) split: option.splits)
  then have "n = Some 2"
    using demo_two_fields(4,5) by (force simp: demo_two_schedulable(1) new_thread_def split: option.splits)
  then show ?thesis using n(1,2) by blast
qed

text \<open>The loop that looks for the thread to wake, with its candidate and best priority so far, finds what
  the specification says, in every kernel whose lists agree: among the threads that wait for the object and would not
  have to wait for it any more (nor, when they wait for all their objects, for any other of them), the first one of the
  best priority.\<close>

theorem wake_choice_is_first_best:
  assumes "kernel_inv k"
  shows "GetHighestPriorityReadyThread ob k =
    Some (min_element (\<lambda>t. current_priority (threads k t)) (filter (can_wake k ob) (waiting_threads k ob)))"
  by (rule GetHighestPriorityReadyThread_min [OF kernel_invD(6,3) [OF assms]])

theorem wake_choice_is_first_best_witness:
  "GetHighestPriorityReadyThread (Obj 0) (demo_waits (B_Event \<lparr>ev_reset = OneShot, ev_signaled = True\<rparr>)) = Some (Some 2)"
  using wake_choice_is_first_best [OF demo_waits(1), of "B_Event \<lparr>ev_reset = OneShot, ev_signaled = True\<rparr>" "Obj 0"]
  by (simp add: demo_waits can_wake_def)

text \<open>C14: Signalling an object returns, whoever waits for it: the loop over the waiting threads ends, every thread that
  it removed from the list is ready to run, no thread that is left could be woken, and the threads that did
  not wait for the object are not touched. No thread may wait for all of several objects with one listed
  twice.\<close>

theorem signalling_wakes_every_waiter:
  assumes "env_ok env" "kernel_inv k" "no_duplicate_waits k"
  shows "\<exists>k'. WakeupAllWaitingThreads env ob k = Some k' \<and> kernel_inv k' \<and>
    (\<forall>t \<in> set (waiting_threads k' ob). t \<in> set (waiting_threads k ob) \<and> \<not> can_wake k' ob t) \<and>
    (\<forall>t. t \<in> set (waiting_threads k ob) \<and> t \<notin> set (waiting_threads k' ob) \<longrightarrow> status (threads k' t) = Ready) \<and>
    (\<forall>t. t \<notin> set (waiting_threads k ob) \<longrightarrow> status (threads k' t) = status (threads k t))"
  using WakeupAllWaitingThreads_total [OF assms(1) kernel_invD(1) [OF assms(2)] assms(3), of ob] kernel_inv_wakeup [OF assms(1,2)] by blast

theorem signalling_wakes_every_waiter_witness:
  "\<exists>k'. WakeupAllWaitingThreads demo_env (Obj 0) (demo_waits (B_Event \<lparr>ev_reset = OneShot, ev_signaled = True\<rparr>)) = Some k' \<and>
    (2 \<notin> set (waiting_threads k' (Obj 0)) \<longrightarrow> status (threads k' 2) = Ready)"
  using signalling_wakes_every_waiter [OF demo_env_ok(1) demo_waits(1,2), of "B_Event \<lparr>ev_reset = OneShot, ev_signaled = True\<rparr>" "Obj 0"]
  by (auto simp: demo_waits(3))

text \<open>C15: Permits are neither lost nor duplicated. Releasing \<open>n\<close> permits of a semaphore, when the sum does not exceed
  the maximum, returns the old count and leaves the old count plus \<open>n\<close> minus one for each thread that was woken; the
  count stays between zero and the maximum.\<close>

theorem semaphore_permits_are_conserved:
  assumes "env_ok env" "kernel_inv k" "no_duplicate_waits k" "bodies k i = B_Semaphore x" "0 \<le> n"
    "0 \<le> available_count x" "available_count x + n \<le> max_count x" "max_count x < 2 ^ 31"
  shows "\<exists>k' y woken. Semaphore_Release env i x n k = Some (ResultSuccess, Some (available_count x), k') \<and>
    bodies k' i = B_Semaphore y \<and> max_count y = max_count x \<and> 0 \<le> available_count y \<and> available_count y \<le> max_count y \<and>
    length (waiting_threads k' (Obj i)) + woken = length (waiting_threads k (Obj i)) \<and>
    available_count y + int woken = available_count x + n"
proof -
  let ?x = "x\<lparr>available_count := available_count x + n\<rparr>"
  have e: "to_s32 (n + available_count x) = available_count x + n" "to_s32 (available_count x + n) = available_count x + n"
    using assms(5-8) by (simp_all add: to_s32_def signed_take_bit_int_eq_self add.commute)
  define k1 where "k1 = set_body i (B_Semaphore ?x) k"
  have k1: "kernel_inv k1" unfolding k1_def by (rule kernel_inv_body [OF assms(2) not_mutex(1) [OF assms(4)]]) simp
  have nd: "no_duplicate_waits k1" using assms(3) by (simp add: k1_def no_duplicate_waits_def)
  have b: "bodies k1 i = B_Semaphore ?x" by (simp add: k1_def set_body_def)
  obtain k2 w where w: "wakeup_loop env (Obj i) k1 = Some k2" "bodies k2 i = B_Semaphore (?x\<lparr>available_count := available_count ?x - int w\<rparr>)"
    "int w \<le> available_count ?x" "length (waiting_threads k2 (Obj i)) + w = length (waiting_threads k1 (Obj i))"
    using wakeup_loop_semaphore [OF assms(1) kernel_invD(1) [OF k1] nd b] assms(5,6) by auto
  define k3 where "k3 = end_pulse (Obj i) (hle_notifier env (Obj i) k2)"
  have wk: "WakeupAllWaitingThreads env (Obj i) k1 = Some k3" using w(1) by (simp add: WakeupAllWaitingThreads_def k3_def)
  have "bodies (hle_notifier env (Obj i) k2) i = bodies k2 i" using env_notifier(3) [OF assms(1)] by simp
  then have "k3 = hle_notifier env (Obj i) k2" using w(2) by (simp add: k3_def end_pulse_def)
  then have f: "bodies k3 i = bodies k2 i" "waiting_threads k3 = waiting_threads k2"
    using env_notifier(3) [OF assms(1)] same_view(1) [OF env_notifier(1) [OF assms(1)]] by simp_all
  have "Semaphore_Release env i x n k = Some (ResultSuccess, Some (available_count x), k3)"
    using wk assms(7) e by (simp add: Semaphore_Release_def k1_def add.commute)
  then show ?thesis using w f assms(5-7)
    by (intro exI [of _ k3] exI [of _ "?x\<lparr>available_count := available_count ?x - int w\<rparr>"] exI [of _ w]) (simp add: k1_def)
qed

theorem semaphore_permits_are_conserved_witness:
  "\<exists>k' y. Semaphore_Release demo_env 0 \<lparr>max_count = 5, available_count = 0\<rparr> 3 (demo_waits (B_Semaphore \<lparr>max_count = 5, available_count = 0\<rparr>)) =
      Some (ResultSuccess, Some 0, k') \<and>
    bodies k' 0 = B_Semaphore y \<and> 2 \<le> available_count y \<and> available_count y \<le> 5"
proof -
  have "\<not> (\<exists>m. B_Semaphore x = B_Mutex m)" for x by simp
  then show ?thesis
    using semaphore_permits_are_conserved [OF demo_env_ok(1) demo_waits(1,2,4), of "\<lparr>max_count = 5, available_count = 0\<rparr>" 3] by (fastforce simp: demo_waits(3))
qed

text \<open>Signalling an address through an arbiter with a negative count wakes exactly the threads that wait at this arbiter for this
  address; they are ready afterwards, all other threads keep their state, and the answer is their number.\<close>

theorem arbiter_wakes_the_address:
  assumes "kernel_inv k"
  shows "\<exists>k'. ResumeAllThreads a address k =
      Some (length (filter (\<lambda>t. wait_address (threads k t) = address) (arbiters k a)), k') \<and> kernel_inv k' \<and>
    (\<forall>t. status (threads k' t) =
      (if t \<in> set (arbiters k a) \<and> wait_address (threads k t) = address then Ready else status (threads k t)))"
  by (rule ResumeAllThreads_ok [OF assms])

theorem arbiter_wakes_the_address_witness:
  "\<exists>k'. ResumeAllThreads 0 0x08000010 demo_arb = Some (1, k') \<and> status (threads k' 2) = Ready"
  using arbiter_wakes_the_address [OF demo_arb(1), of 0 "0x08000010"] by (auto simp: demo_arb)

text \<open>A timeout that comes due always makes its thread ready: whatever the thread waits for, the callback returns, the thread leaves
  all waiting lists and is ready; a thread that is already ready, running or dead is left alone; no other
  thread changes its state.\<close>

theorem timeout_resumes_the_thread:
  assumes "env_ok env" "kernel_inv k" "wakeup_callback_table (managers k c) (unat thread_id) = Some t" "timeout_due k t"
  shows "\<exists>k'. ThreadWakeupCallback env c thread_id k = Some k' \<and> kernel_inv k' \<and> wait_objects (threads k' t) = [] \<and>
    (\<forall>u. status (threads k' u) = (if u = t \<and> waiting_status (status (threads k t)) then Ready else status (threads k u)))"
proof -
  obtain k' where k': "ThreadWakeupCallback env c thread_id k = Some k'" "kernel_inv k'"
    "\<forall>u. status (threads k' u) = (if u = t \<and> waiting_status (status (threads k t)) then Ready else status (threads k u))"
    using ThreadWakeupCallback_ok [OF assms] by blast
  have "\<not> waits_for_objects (status (threads k' t))" using k'(3) by (auto simp: waiting_status_def waits_for_objects_def)
  then show ?thesis using k' no_wait_objects [OF k'(2)] by blast
qed

theorem timeout_resumes_the_thread_witness:
  "\<exists>k'. ThreadWakeupCallback demo_env 0 2 (demo_waits (B_Event \<lparr>ev_reset = OneShot, ev_signaled = False\<rparr>)) = Some k' \<and> status (threads k' 2) = Ready"
proof -
  let ?k = "demo_waits (B_Event \<lparr>ev_reset = OneShot, ev_signaled = False\<rparr>)"
  have "wakeup_callback_table (managers ?k 0) (unat (2 :: 64 word)) = Some 2" "timeout_due ?k 2" "waiting_status (status (threads ?k 2))"
    by (simp_all add: demo_waits timeout_due_def waiting_status_def)
  then show ?thesis using timeout_resumes_the_thread [OF demo_env_ok(1) demo_waits(1)] by fastforce
qed

text \<open>Priority inheritance: when a thread starts to wait for a mutex, the holder's priority is at least as good as the waiter's, provided it
  was at least that of each mutex it holds, which remains so.\<close>

theorem waiting_boosts_the_holder:
  assumes "kernel_inv k" "is_mutex k i" "holding_thread (mutex_of k i) = Some h" "t \<noteq> h" "boosted k h"
  shows "boosted (AddWaitingThread (Obj i) t k) h \<and>
    current_priority (threads (AddWaitingThread (Obj i) t k) h) \<le> current_priority (threads (AddWaitingThread (Obj i) t k) t)"
proof -
  let ?k1 = "upd_thread t (\<lambda>th. th\<lparr>pending_mutexes := flat_insert i (pending_mutexes th)\<rparr>) (add_waiter (Obj i) t k)"
  have m: "holding_thread (mutex_of ?k1 i) = Some h" "boosted ?k1 h" "t \<in> set (waiting_threads ?k1 (Obj i))"
    using assms(3-5) by (auto simp: add_waiter_def boosted_def)
  have "i \<in> set (held_mutexes (threads k h))" by (rule mutex_okD(5) [OF kernel_invD(7) [OF assms(1)] assms(2,3)])
  then have "i \<in> set (held_mutexes (threads ?k1 h))" using assms(4) by (simp add: add_waiter_def)
  then show ?thesis using Mutex_UpdatePriority_inherits [OF m(1) _ m(2,3) assms(4)] assms(2) by (simp add: Let_def)
qed

theorem waiting_boosts_the_holder_witness:
  "boosted (AddWaitingThread (Obj 0) 1 demo_held) 2 \<and>
   current_priority (threads (AddWaitingThread (Obj 0) 1 demo_held) 2) \<le> current_priority (threads (AddWaitingThread (Obj 0) 1 demo_held) 1)"
  using waiting_boosts_the_holder [OF demo_held(1-3) _ demo_held(4), of 1] by simp

end
