(* ===== verification/Vm_Manager.thy ===== *)
theory Vm_Manager
  imports Kernel_State
begin

text \<open>
  \<open>hle/kernel/vm_manager.cpp\<close>: the areas of a process' address space. \<open>vma_map\<close>, a \<open>std::map\<close> keyed by the
  base of an area, is the list of its areas in the order of the keys; the base of a stored area never
  changes. An iterator is the key of its element, \<open>None\<close> is \<open>end()\<close>. Failed assertions, the
  dereference of \<open>end()\<close> and steps before \<open>begin()\<close> are the abort \<open>None\<close>. The memory system the manager
  refers to is a field. Pointers into different backing objects are never adjacent. The
  plugin loader, which is told of changes, is not modelled.
\<close>

unbundle bit_operations_syntax

section \<open>Data\<close>

definition ResultInvalidAddress :: ResultCode where "ResultInvalidAddress = make_result 1013 6 7 28"
definition ResultInvalidAddressState :: ResultCode where "ResultInvalidAddressState = make_result 1013 6 5 28"

datatype VMAType = VMA_Free | VMA_BackingMemory

type_synonym VMAPermission = u8

abbreviation Perm_None :: VMAPermission where "Perm_None \<equiv> 0"
abbreviation Perm_Read :: VMAPermission where "Perm_Read \<equiv> 1"
abbreviation Perm_ReadWrite :: VMAPermission where "Perm_ReadWrite \<equiv> 3"
abbreviation Perm_ReadExecute :: VMAPermission where "Perm_ReadExecute \<equiv> 5"

datatype MemoryState =
  MS_Free | MS_Reserved | MS_IO | MS_Static | MS_Code | MS_Private | MS_Shared | MS_Continuous | MS_Aliased
  | MS_Alias | MS_AliasCode | MS_Locked

record VirtualMemoryArea =
  vma_base :: u32
  vma_size :: u32
  vma_type :: VMAType
  vma_permissions :: VMAPermission
  meminfo_state :: MemoryState
  backing_memory :: MemoryRef

record VMManager =
  vma_map :: "VirtualMemoryArea list"
  page_table :: nat
  is_locked :: bool
  vm_memory :: MemorySystem

definition MAX_ADDRESS :: u32 where "MAX_ADDRESS = 0x40000000"

section \<open>The map\<close>

definition vma_at :: "u32 \<Rightarrow> VirtualMemoryArea list \<Rightarrow> VirtualMemoryArea option" where
  "vma_at key vs = find (\<lambda>v. vma_base v = key) vs"

definition upper_bound :: "u32 \<Rightarrow> VirtualMemoryArea list \<Rightarrow> u32 option" where
  "upper_bound a vs = map_option vma_base (find (\<lambda>v. vma_base v > a) vs)"

definition lower_bound :: "u32 \<Rightarrow> VirtualMemoryArea list \<Rightarrow> u32 option" where
  "lower_bound a vs = map_option vma_base (find (\<lambda>v. vma_base v \<ge> a) vs)"

text \<open>\<open>std::prev\<close>; before \<open>begin()\<close> there is nothing.\<close>

definition std_prev :: "u32 option \<Rightarrow> VirtualMemoryArea list \<Rightarrow> u32 option" where
  "std_prev it vs =
     (let before = (case it of None \<Rightarrow> vs | Some key \<Rightarrow> takeWhile (\<lambda>v. vma_base v < key) vs)
      in if before = [] then None else Some (vma_base (last before)))"

definition std_next :: "u32 \<Rightarrow> VirtualMemoryArea list \<Rightarrow> u32 option" where
  "std_next key vs = upper_bound key vs"

text \<open>The elements from one iterator up to another.\<close>

definition areas_from :: "u32 \<Rightarrow> VirtualMemoryArea list \<Rightarrow> VirtualMemoryArea list" where
  "areas_from key vs = dropWhile (\<lambda>v. vma_base v \<noteq> key) vs"

definition areas_between :: "u32 \<Rightarrow> u32 option \<Rightarrow> VirtualMemoryArea list \<Rightarrow> VirtualMemoryArea list" where
  "areas_between key i_end vs = takeWhile (\<lambda>v. Some (vma_base v) \<noteq> i_end) (areas_from key vs)"

text \<open>Writing an element, inserting one (nothing happens when the key is there) and erasing one.\<close>

definition put_vma :: "VirtualMemoryArea \<Rightarrow> VirtualMemoryArea list \<Rightarrow> VirtualMemoryArea list" where
  "put_vma v vs = map (\<lambda>u. if vma_base u = vma_base v then v else u) vs"

definition emplace_vma :: "VirtualMemoryArea \<Rightarrow> VirtualMemoryArea list \<Rightarrow> VirtualMemoryArea list" where
  "emplace_vma v vs = (if vma_base v \<in> vma_base ` set vs then vs else insort_key vma_base v vs)"

definition erase_vma :: "u32 \<Rightarrow> VirtualMemoryArea list \<Rightarrow> VirtualMemoryArea list" where
  "erase_vma key vs = filter (\<lambda>u. vma_base u \<noteq> key) vs"

section \<open>Areas\<close>

text \<open>\<open>MemoryRef::operator+\<close> asserts that the offset is inside.\<close>

definition ref_plus :: "MemoryRef \<Rightarrow> nat \<Rightarrow> MemoryRef option" where
  "ref_plus r offset_by = (if offset_by < ref_size r then Some (map_option (\<lambda>(b, off). (b, off + offset_by)) r) else None)"

definition adjacent_refs :: "MemoryRef \<Rightarrow> u32 \<Rightarrow> MemoryRef \<Rightarrow> bool" where
  "adjacent_refs r sz r' = (case (r, r') of (Some (b, off), Some (b', off')) \<Rightarrow> b = b' \<and> off + unat sz = off' | _ \<Rightarrow> False)"

definition CanBeMergedWith :: "VirtualMemoryArea \<Rightarrow> VirtualMemoryArea \<Rightarrow> bool option" where
  "CanBeMergedWith v w =
     (if vma_base v + vma_size v \<noteq> vma_base w then None
      else if vma_permissions v \<noteq> vma_permissions w \<or> meminfo_state v \<noteq> meminfo_state w \<or> vma_type v \<noteq> vma_type w then Some False
      else if vma_type v = VMA_BackingMemory \<and> \<not> adjacent_refs (backing_memory v) (vma_size v) (backing_memory w) then Some False
      else Some True)"

definition UpdatePageTableForVMA :: "VirtualMemoryArea \<Rightarrow> VMManager \<Rightarrow> VMManager option" where
  "UpdatePageTableForVMA v vm =
     map_option (\<lambda>m. vm\<lparr>vm_memory := m\<rparr>)
       (case vma_type v of
          VMA_Free \<Rightarrow> UnmapRegion (page_table vm) (vma_base v) (vma_size v) (vm_memory vm)
        | VMA_BackingMemory \<Rightarrow> MapMemoryRegion (page_table vm) (vma_base v) (vma_size v) (backing_memory v) (vm_memory vm))"

definition initial_vma :: VirtualMemoryArea where
  "initial_vma = \<lparr>vma_base = 0, vma_size = MAX_ADDRESS, vma_type = VMA_Free, vma_permissions = Perm_None,
                  meminfo_state = MS_Free, backing_memory = None\<rparr>"

definition VMManager_Reset :: "VMManager \<Rightarrow> VMManager option" where
  "VMManager_Reset vm =
     (if is_locked vm then None
      else
        let m = vm_memory vm;
            m = m\<lparr>tables := (tables m)(page_table vm := PageTable_Clear (tables m (page_table vm)))\<rparr>
        in UpdatePageTableForVMA initial_vma (vm\<lparr>vma_map := [initial_vma], vm_memory := m\<rparr>))"

definition FindVMA :: "u32 \<Rightarrow> VirtualMemoryArea list \<Rightarrow> u32 option option" where
  "FindVMA target vs =
     (if target \<ge> MAX_ADDRESS then Some None else map_option Some (std_prev (upper_bound target vs) vs))"

section \<open>Splitting and merging\<close>

text \<open>The left part keeps its iterator, the result is the right part.\<close>

definition SplitVMA :: "u32 \<Rightarrow> u32 \<Rightarrow> VirtualMemoryArea list \<Rightarrow> (u32 \<times> VirtualMemoryArea list) option" where
  "SplitVMA key offset_in_vma vs =
     do {
       old \<leftarrow> vma_at key vs;
       if \<not> offset_in_vma < vma_size old then None
       else if \<not> offset_in_vma > 0 then None
       else do {
         let left = old\<lparr>vma_size := offset_in_vma\<rparr>;
         let new = old\<lparr>vma_base := vma_base old + offset_in_vma, vma_size := vma_size old - offset_in_vma\<rparr>;
         r \<leftarrow> (case vma_type new of
                VMA_Free \<Rightarrow> Some (backing_memory new)
              | VMA_BackingMemory \<Rightarrow> ref_plus (backing_memory new) (unat offset_in_vma));
         let new = new\<lparr>backing_memory := r\<rparr>;
         ok \<leftarrow> CanBeMergedWith left new;
         if ok then Some (vma_base new, emplace_vma new (put_vma left vs)) else None
       }
     }"

definition merge_next :: "u32 \<Rightarrow> VirtualMemoryArea list \<Rightarrow> VirtualMemoryArea list option" where
  "merge_next key vs =
     (case std_next key vs of
        None \<Rightarrow> Some vs
      | Some nkey \<Rightarrow> do {
          v \<leftarrow> vma_at key vs;
          w \<leftarrow> vma_at nkey vs;
          ok \<leftarrow> CanBeMergedWith v w;
          Some (if ok then erase_vma nkey (put_vma (v\<lparr>vma_size := vma_size v + vma_size w\<rparr>) vs) else vs)
        })"

definition merge_prev :: "u32 \<Rightarrow> VirtualMemoryArea list \<Rightarrow> (u32 \<times> VirtualMemoryArea list) option" where
  "merge_prev key vs =
     (case std_prev (Some key) vs of
        None \<Rightarrow> Some (key, vs)
      | Some pkey \<Rightarrow> do {
          u \<leftarrow> vma_at pkey vs;
          v \<leftarrow> vma_at key vs;
          ok \<leftarrow> CanBeMergedWith u v;
          Some (if ok then (pkey, erase_vma key (put_vma (u\<lparr>vma_size := vma_size u + vma_size v\<rparr>) vs)) else (key, vs))
        })"

definition MergeAdjacent :: "u32 \<Rightarrow> VirtualMemoryArea list \<Rightarrow> (u32 \<times> VirtualMemoryArea list) option" where
  "MergeAdjacent key vs = do { vs \<leftarrow> merge_next key vs; merge_prev key vs }"

text \<open>\<open>Inl\<close> is the result code of an error; the areas have then not changed.\<close>

definition CarveVMA :: "u32 \<Rightarrow> u32 \<Rightarrow> VirtualMemoryArea list \<Rightarrow> (ResultCode + u32 \<times> VirtualMemoryArea list) option" where
  "CarveVMA base sz vs =
     (if \<not> page_aligned sz \<or> \<not> page_aligned base then None
      else do {
        it \<leftarrow> FindVMA base vs;
        case it of
          None \<Rightarrow> Some (Inl ResultInvalidAddress)
        | Some key \<Rightarrow> do {
            v \<leftarrow> vma_at key vs;
            if vma_type v \<noteq> VMA_Free then Some (Inl ResultInvalidAddressState)
            else
              let start_in_vma = base - vma_base v;
                  end_in_vma = start_in_vma + sz
              in if end_in_vma > vma_size v then Some (Inl ResultInvalidAddressState)
                 else do {
                   vs \<leftarrow> (if end_in_vma \<noteq> vma_size v then map_option snd (SplitVMA key end_in_vma vs) else Some vs);
                   r \<leftarrow> (if start_in_vma \<noteq> 0 then SplitVMA key start_in_vma vs else Some (key, vs));
                   Some (Inr r)
                 }
          }
      })"

definition CarveVMARange :: "u32 \<Rightarrow> u32 \<Rightarrow> VirtualMemoryArea list \<Rightarrow> (ResultCode + u32 \<times> VirtualMemoryArea list) option" where
  "CarveVMARange target sz vs =
     (let target_end = target + sz
      in if \<not> page_aligned sz \<or> \<not> page_aligned target then None
         else if \<not> (target_end \<ge> target \<and> target_end \<le> MAX_ADDRESS \<and> sz > 0) then None
         else do {
           it \<leftarrow> FindVMA target vs;
           key \<leftarrow> it;
           if list_ex (\<lambda>v. vma_type v = VMA_Free) (areas_between key (lower_bound target_end vs) vs)
             then Some (Inl ResultInvalidAddressState)
           else do {
             (begin_vma, vs) \<leftarrow> (if target \<noteq> key then SplitVMA key (target - key) vs else Some (key, vs));
             e \<leftarrow> FindVMA target_end vs;
             vs \<leftarrow> (case e of
                     None \<Rightarrow> Some vs
                   | Some ekey \<Rightarrow> if target_end \<noteq> ekey then map_option snd (SplitVMA ekey (target_end - ekey) vs) else Some vs);
             Some (Inr (begin_vma, vs))
           }
         })"

section \<open>Changing areas\<close>

text \<open>Writing the attributes of an area, its page table entries and merging it, as the operations below do.\<close>

definition change_vma :: "(VirtualMemoryArea \<Rightarrow> VirtualMemoryArea) \<Rightarrow> u32 \<Rightarrow> VMManager \<Rightarrow> (u32 \<times> VMManager) option" where
  "change_vma f key vm =
     do {
       v \<leftarrow> vma_at key (vma_map vm);
       vm \<leftarrow> UpdatePageTableForVMA (f v) (vm\<lparr>vma_map := put_vma (f v) (vma_map vm)\<rparr>);
       (key, vs) \<leftarrow> MergeAdjacent key (vma_map vm);
       Some (key, vm\<lparr>vma_map := vs\<rparr>)
     }"

definition MapBackingMemory :: "u32 \<Rightarrow> MemoryRef \<Rightarrow> u32 \<Rightarrow> MemoryState \<Rightarrow> VMManager \<Rightarrow> ((ResultCode + u32) \<times> VMManager) option" where
  "MapBackingMemory target memory sz state vm =
     (if is_locked vm \<or> memory = None then None
      else do {
        r \<leftarrow> CarveVMA target sz (vma_map vm);
        case r of
          Inl code \<Rightarrow> Some (Inl code, vm)
        | Inr (key, vs) \<Rightarrow> do {
            final_vma \<leftarrow> vma_at key vs;
            if vma_size final_vma \<noteq> sz then None
            else do {
              (key, vm) \<leftarrow> change_vma (\<lambda>v. v\<lparr>vma_type := VMA_BackingMemory, vma_permissions := Perm_ReadWrite,
                                            meminfo_state := state, backing_memory := memory\<rparr>) key (vm\<lparr>vma_map := vs\<rparr>);
              Some (Inr key, vm)
            }
          }
      })"

definition MapBackingMemoryToBase ::
    "u32 \<Rightarrow> u32 \<Rightarrow> MemoryRef \<Rightarrow> u32 \<Rightarrow> MemoryState \<Rightarrow> VMManager \<Rightarrow> ((ResultCode + u32) \<times> VMManager) option" where
  "MapBackingMemoryToBase base region_size memory sz state vm =
     (if is_locked vm then None
      else do {
        v \<leftarrow> find (\<lambda>v. vma_type v = VMA_Free \<and> vma_base v + vma_size v > base \<and> vma_base v + vma_size v \<ge> base + sz) (vma_map vm);
        let target = max base (vma_base v);
        if target + sz > base + region_size then Some (Inl ResultOutOfMemory, vm)
        else do {
          (r, vm) \<leftarrow> MapBackingMemory target memory sz state vm;
          Some (case r of Inl code \<Rightarrow> Inl code | Inr _ \<Rightarrow> Inr target, vm)
        }
      })"

definition VMManager_Unmap :: "u32 \<Rightarrow> VMManager \<Rightarrow> (u32 \<times> VMManager) option" where
  "VMManager_Unmap key vm =
     (if is_locked vm then None
      else change_vma (\<lambda>v. v\<lparr>vma_type := VMA_Free, vma_permissions := Perm_None, meminfo_state := MS_Free, backing_memory := None\<rparr>) key vm)"

definition Reprotect :: "u32 \<Rightarrow> VMAPermission \<Rightarrow> VMManager \<Rightarrow> (u32 \<times> VMManager) option" where
  "Reprotect key new_perms vm = (if is_locked vm then None else change_vma (\<lambda>v. v\<lparr>vma_permissions := new_perms\<rparr>) key vm)"

text \<open>The loop over the areas of a range: areas may be merged on the way, so the end is found by its address.\<close>

partial_function (option) range_loop ::
    "(u32 \<Rightarrow> VMManager \<Rightarrow> (u32 \<times> VMManager) option) \<Rightarrow> u32 \<Rightarrow> u32 option \<Rightarrow> VMManager \<Rightarrow> VMManager option" where
  "range_loop f target_end it vm =
     (case it of
        None \<Rightarrow> Some vm
      | Some key \<Rightarrow>
          if key < target_end then do {
            (key, vm) \<leftarrow> f key vm;
            range_loop f target_end (std_next key (vma_map vm)) vm
          } else Some vm)"

definition UnmapRange :: "u32 \<Rightarrow> u32 \<Rightarrow> VMManager \<Rightarrow> (ResultCode \<times> VMManager) option" where
  "UnmapRange target sz vm =
     (if is_locked vm then None
      else do {
        r \<leftarrow> CarveVMARange target sz (vma_map vm);
        case r of
          Inl code \<Rightarrow> Some (code, vm)
        | Inr (key, vs) \<Rightarrow> do {
            vm \<leftarrow> range_loop VMManager_Unmap (target + sz) (Some key) (vm\<lparr>vma_map := vs\<rparr>);
            it \<leftarrow> FindVMA target (vma_map vm);
            v \<leftarrow> Option.bind it (\<lambda>key. vma_at key (vma_map vm));
            if vma_size v \<ge> sz then Some (ResultSuccess, vm) else None
          }
      })"

definition ReprotectRange :: "u32 \<Rightarrow> u32 \<Rightarrow> VMAPermission \<Rightarrow> VMManager \<Rightarrow> (ResultCode \<times> VMManager) option" where
  "ReprotectRange target sz new_perms vm =
     (if is_locked vm then None
      else do {
        r \<leftarrow> CarveVMARange target sz (vma_map vm);
        case r of
          Inl code \<Rightarrow> Some (code, vm)
        | Inr (key, vs) \<Rightarrow> do {
            vm \<leftarrow> range_loop (\<lambda>key. Reprotect key new_perms) (target + sz) (Some key) (vm\<lparr>vma_map := vs\<rparr>);
            Some (ResultSuccess, vm)
          }
      })"

text \<open>The test of \<open>ChangeMemoryState\<close>; a loop that misses its end runs past \<open>end()\<close>.\<close>

fun states_loop :: "MemoryState \<Rightarrow> VMAPermission \<Rightarrow> u32 option \<Rightarrow> VirtualMemoryArea list \<Rightarrow> bool option" where
  "states_loop expected_state perms i_end [] = (if i_end = None then Some True else None)"
| "states_loop expected_state perms i_end (v # vs) =
     (if i_end = Some (vma_base v) then Some True
      else if meminfo_state v \<noteq> expected_state then Some False
      else if vma_permissions v AND perms \<noteq> perms then Some False
      else states_loop expected_state perms i_end vs)"

definition ChangeMemoryState ::
    "u32 \<Rightarrow> u32 \<Rightarrow> MemoryState \<Rightarrow> VMAPermission \<Rightarrow> MemoryState \<Rightarrow> VMAPermission \<Rightarrow> VMManager \<Rightarrow> (ResultCode \<times> VMManager) option" where
  "ChangeMemoryState target sz expected_state expected_perms new_state new_perms vm =
     (if is_locked vm then Some (ResultSuccess, vm)
      else do {
        it \<leftarrow> FindVMA target (vma_map vm);
        case it of
          None \<Rightarrow> Some (ResultInvalidAddress, vm)
        | Some begin_vma \<Rightarrow> do {
            ok \<leftarrow> states_loop expected_state expected_perms (lower_bound (target + sz) (vma_map vm)) (areas_from begin_vma (vma_map vm));
            if \<not> ok then Some (ResultInvalidAddressState, vm)
            else do {
              r \<leftarrow> CarveVMARange target sz (vma_map vm);
              case r of
                Inl code \<Rightarrow> Some (code, vm)
              | Inr (key, vs) \<Rightarrow> do {
                  vm \<leftarrow> range_loop (change_vma (\<lambda>v. v\<lparr>vma_permissions := new_perms, meminfo_state := new_state\<rparr>)) (target + sz)
                         (Some key) (vm\<lparr>vma_map := vs\<rparr>);
                  Some (ResultSuccess, vm)
                }
            }
          }
      })"

definition VMManager_Unlock :: "VMManager \<Rightarrow> VMManager" where
  "VMManager_Unlock vm = vm\<lparr>is_locked := False\<rparr>"

partial_function (option) backing_loop ::
    "u32 \<Rightarrow> u32 \<Rightarrow> VirtualMemoryArea list \<Rightarrow> (MemoryRef \<times> u32) list \<Rightarrow> (ResultCode + (MemoryRef \<times> u32) list) option" where
  "backing_loop interval_target stop vs acc =
     (if interval_target = stop then Some (Inr acc)
      else do {
        it \<leftarrow> FindVMA interval_target vs;
        v \<leftarrow> Option.bind it (\<lambda>key. vma_at key vs);
        if vma_type v \<noteq> VMA_BackingMemory then Some (Inl ResultInvalidAddressState)
        else do {
          let interval_end = min stop (vma_base v + vma_size v);
          let interval_size = interval_end - interval_target;
          r \<leftarrow> ref_plus (backing_memory v) (unat (interval_target - vma_base v));
          backing_loop (interval_target + interval_size) stop vs (acc @ [(r, interval_size)])
        }
      })"

definition GetBackingBlocksForRange :: "u32 \<Rightarrow> u32 \<Rightarrow> VirtualMemoryArea list \<Rightarrow> (ResultCode + (MemoryRef \<times> u32) list) option" where
  "GetBackingBlocksForRange address sz vs = backing_loop address (address + sz) vs []"

end
