(* ===== verification/Vm_Tiles.thy ===== *)
theory Vm_Tiles
  imports Vm_Manager
begin

text \<open>
  Lists of areas that tile an interval of addresses, what the map operations do to them, and the contents of
  an address space: the attributes of each address. Splitting and merging change the areas and not the
  contents.
\<close>

section \<open>Tilings\<close>

abbreviation ub :: "VirtualMemoryArea \<Rightarrow> nat" where "ub v \<equiv> unat (vma_base v)"

definition vend :: "VirtualMemoryArea \<Rightarrow> nat" where "vend v = unat (vma_base v) + unat (vma_size v)"

abbreviation vm_end :: nat where "vm_end \<equiv> 0x40000000"

lemma MAX_ADDRESS [simp]: "unat MAX_ADDRESS = vm_end" by (simp add: MAX_ADDRESS_def)

fun tiled :: "nat \<Rightarrow> VirtualMemoryArea list \<Rightarrow> nat \<Rightarrow> bool" where
  "tiled a [] b \<longleftrightarrow> a = b"
| "tiled a (v # vs) b \<longleftrightarrow> ub v = a \<and> 0 < vma_size v \<and> tiled (vend v) vs b"

lemma tiled_le: "tiled a vs b \<Longrightarrow> a \<le> b"
  by (induction vs arbitrary: a) (fastforce simp: vend_def)+

lemma tiled_append: "tiled a (xs @ ys) b \<longleftrightarrow> (\<exists>c. tiled a xs c \<and> tiled c ys b)"
  by (induction xs arbitrary: a) auto

lemma tiled_mid: "tiled a (xs @ v # ys) b \<longleftrightarrow> tiled a xs (ub v) \<and> ub v < vend v \<and> tiled (vend v) ys b"
  by (auto simp: tiled_append vend_def word_gt_0 unat_gt_0)

lemma tiled_in: "tiled a vs b \<Longrightarrow> v \<in> set vs \<Longrightarrow> a \<le> ub v \<and> ub v < vend v \<and> vend v \<le> b"
proof -
  assume "tiled a vs b" "v \<in> set vs"
  moreover from this(2) obtain xs ys where "vs = xs @ v # ys" by (auto dest: split_list)
  ultimately have "tiled a xs (ub v)" "ub v < vend v" "tiled (vend v) ys b" by (simp_all add: tiled_mid)
  then show ?thesis using tiled_le by blast
qed

lemma tiled_bases:
  assumes "tiled a (xs @ v # ys) b"
  shows "u \<in> set xs \<Longrightarrow> vma_base u < vma_base v" "u \<in> set ys \<Longrightarrow> vma_base v < vma_base u"
    "u \<in> set xs \<Longrightarrow> vma_base u \<noteq> vma_base v" "u \<in> set ys \<Longrightarrow> vma_base u \<noteq> vma_base v"
proof -
  have "tiled a xs (ub v)" "ub v < vend v" "tiled (vend v) ys b" using assms by (simp_all add: tiled_mid)
  then have "u \<in> set xs \<Longrightarrow> ub u < ub v" "u \<in> set ys \<Longrightarrow> ub v < ub u" using tiled_in by fastforce+
  then show "u \<in> set xs \<Longrightarrow> vma_base u < vma_base v" "u \<in> set ys \<Longrightarrow> vma_base v < vma_base u"
    "u \<in> set xs \<Longrightarrow> vma_base u \<noteq> vma_base v" "u \<in> set ys \<Longrightarrow> vma_base u \<noteq> vma_base v"
    by (auto simp: word_less_nat_alt)
qed

lemma vend_word:
  assumes "vend v < 2 ^ 32"
  shows "unat (vma_base v + vma_size v) = vend v"
  using assms by (simp add: vend_def unat_word_ariths)

lemma tiled_find: "tiled a vs b \<Longrightarrow> a \<le> x \<Longrightarrow> x < b \<Longrightarrow> \<exists>xs v ys. vs = xs @ v # ys \<and> ub v \<le> x \<and> x < vend v"
proof (induction vs arbitrary: a)
  case (Cons v vs)
  show ?case
  proof (cases "x < vend v")
    case True
    then show ?thesis using Cons.prems by (intro exI [of _ "[]"] exI [of _ v] exI [of _ vs]) simp
  next
    case False
    then obtain xs w ys where "vs = xs @ w # ys" "ub w \<le> x" "x < vend w" using Cons.IH [of "vend v"] Cons.prems by auto
    then show ?thesis by (intro exI [of _ "v # xs"] exI [of _ w] exI [of _ ys]) simp
  qed
qed simp

section \<open>The map operations on a tiling\<close>

lemma find_mid: "(\<And>u. u \<in> set xs \<Longrightarrow> \<not> P u) \<Longrightarrow> P v \<Longrightarrow> find P (xs @ v # ys) = Some v"
  by (induction xs) auto

lemma find_skip: "(\<And>u. u \<in> set xs \<Longrightarrow> \<not> P u) \<Longrightarrow> find P (xs @ ys) = find P ys"
  by (induction xs) auto

lemma vma_at_mid: "tiled a (xs @ v # ys) b \<Longrightarrow> vma_at (vma_base v) (xs @ v # ys) = Some v"
  unfolding vma_at_def by (rule find_mid) (use tiled_bases in auto)

lemma std_next_mid:
  assumes "tiled a (xs @ v # ys) b"
  shows "std_next (vma_base v) (xs @ v # ys) = (case ys of [] \<Rightarrow> None | w # _ \<Rightarrow> Some (vma_base w))"
proof -
  have "find (\<lambda>u. vma_base v < vma_base u) (xs @ v # ys) = find (\<lambda>u. vma_base v < vma_base u) ys"
    using find_skip [of "xs @ [v]" "\<lambda>u. vma_base v < vma_base u" ys] tiled_bases(1) [OF assms] by fastforce
  then show ?thesis using tiled_bases(2) [OF assms] by (auto simp: std_next_def upper_bound_def split: list.split)
qed

lemma std_prev_mid:
  assumes "tiled a (xs @ v # ys) b"
  shows "std_prev (Some (vma_base v)) (xs @ v # ys) = (if xs = [] then None else Some (vma_base (last xs)))"
proof -
  have "takeWhile (\<lambda>u. vma_base u < vma_base v) (xs @ v # ys) = xs"
    using tiled_bases(1) [OF assms] by (simp add: takeWhile_append2)
  then show ?thesis by (simp add: std_prev_def)
qed

lemma put_vma_mid:
  assumes "tiled a (xs @ v # ys) b" "vma_base v' = vma_base v"
  shows "put_vma v' (xs @ v # ys) = xs @ v' # ys"
  using tiled_bases(3,4) [OF assms(1)] assms(2) by (auto simp: put_vma_def intro!: map_idI)

lemma erase_vma_mid: "tiled a (xs @ v # ys) b \<Longrightarrow> erase_vma (vma_base v) (xs @ v # ys) = xs @ ys"
  using tiled_bases(3,4) [of a xs v ys b] by (simp add: erase_vma_def filter_id_conv)

lemma emplace_vma_mid:
  assumes "tiled a (xs @ v # ys) b"
  shows "emplace_vma v (xs @ ys) = xs @ v # ys"
proof -
  have "insort_key vma_base v (xs @ ys) = xs @ v # ys" using tiled_bases(1,2) [OF assms]
  proof (induction xs)
    case Nil
    then show ?case by (cases ys) (auto simp: less_imp_le)
  next
    case (Cons x xs)
    then show ?case by (force simp: not_le)
  qed
  moreover have "vma_base v \<notin> vma_base ` set (xs @ ys)"
  proof
    assume "vma_base v \<in> vma_base ` set (xs @ ys)"
    then obtain u where "vma_base u = vma_base v" "u \<in> set xs \<or> u \<in> set ys" by auto
    then show False using tiled_bases(3) [OF assms, of u] tiled_bases(4) [OF assms, of u] by blast
  qed
  ultimately show ?thesis by (simp add: emplace_vma_def)
qed

lemma upper_bound_mid:
  assumes "tiled a (xs @ v # ys) b" "ub v \<le> unat x" "unat x < vend v"
  shows "upper_bound x (xs @ v # ys) = (case ys of [] \<Rightarrow> None | w # _ \<Rightarrow> Some (vma_base w))"
proof -
  have t: "tiled (vend v) ys b" using assms(1) by (simp add: tiled_mid)
  have "\<not> x < vma_base u" if "u \<in> set (xs @ [v])" for u
    using that tiled_bases(1) [OF assms(1), of u] assms(2) by (auto simp: word_less_nat_alt not_less)
  then have "find (\<lambda>u. x < vma_base u) ((xs @ [v]) @ ys) = find (\<lambda>u. x < vma_base u) ys" by (rule find_skip)
  moreover have "x < vma_base w" if "ys = w # ws" for w ws using that t assms(3) by (simp add: word_less_nat_alt)
  ultimately show ?thesis by (auto simp: upper_bound_def split: list.split)
qed

lemma std_prev_after:
  assumes "tiled a (xs @ v # ys) b"
  shows "std_prev (case ys of [] \<Rightarrow> None | w # _ \<Rightarrow> Some (vma_base w)) (xs @ v # ys) = Some (vma_base v)"
proof (cases ys)
  case (Cons w ws)
  then have "tiled a ((xs @ [v]) @ w # ws) b" using assms by simp
  then show ?thesis using std_prev_mid [of a "xs @ [v]" w ws b] Cons by simp
qed (simp add: std_prev_def)

lemma FindVMA_mid:
  assumes "tiled a (xs @ v # ys) b" "ub v \<le> unat x" "unat x < vend v" "b \<le> vm_end"
  shows "FindVMA x (xs @ v # ys) = Some (Some (vma_base v))"
proof -
  have "vend v \<le> b" using tiled_in [OF assms(1), of v] by simp
  then have "x < MAX_ADDRESS" using assms(3,4) by (simp add: word_less_nat_alt)
  then show ?thesis using upper_bound_mid [OF assms(1-3)] std_prev_after [OF assms(1)] by (simp add: FindVMA_def)
qed

section \<open>Well-formed areas and contents\<close>

definition vma_ok :: "VirtualMemoryArea \<Rightarrow> bool" where
  "vma_ok v \<longleftrightarrow> page_aligned (vma_base v) \<and> page_aligned (vma_size v) \<and>
     (case vma_type v of
        VMA_Free \<Rightarrow> vma_permissions v = Perm_None \<and> meminfo_state v = MS_Free \<and> backing_memory v = None
      | VMA_BackingMemory \<Rightarrow> (\<exists>b off. backing_memory v = Some (b, off) \<and> off + unat (vma_size v) \<le> GetSize b))"

type_synonym attrs = "VMAType \<times> VMAPermission \<times> MemoryState \<times> MemoryRef"

definition attrs :: "VirtualMemoryArea \<Rightarrow> nat \<Rightarrow> attrs" where
  "attrs v x = (vma_type v, vma_permissions v, meminfo_state v,
     map_option (\<lambda>(b, off). (b, off + (x - ub v))) (backing_memory v))"

definition content :: "VirtualMemoryArea list \<Rightarrow> nat \<Rightarrow> attrs option" where
  "content vs x = map_option (\<lambda>v. attrs v x) (find (\<lambda>v. ub v \<le> x \<and> x < vend v) vs)"

lemma content_outside: "tiled a vs b \<Longrightarrow> x < a \<or> b \<le> x \<Longrightarrow> content vs x = None"
  using tiled_in by (fastforce simp: content_def find_None_iff)

lemma content_append:
  assumes "tiled a xs c" "tiled c ys b"
  shows "content (xs @ ys) x = (if x < c then content xs x else content ys x)"
proof (cases "x < c")
  case True
  then have "find (\<lambda>v. ub v \<le> x \<and> x < vend v) ys = None" using tiled_in [OF assms(2)] by (fastforce simp: find_None_iff)
  then show ?thesis using True by (induction xs) (auto simp: content_def)
next
  case False
  then show ?thesis using tiled_in [OF assms(1)] find_skip [of xs "\<lambda>v. ub v \<le> x \<and> x < vend v" ys] by (fastforce simp: content_def)
qed

lemma content_mid:
  assumes "tiled a (xs @ v # ys) b"
  shows "content (xs @ v # ys) x = (if x < ub v then content xs x else if x < vend v then Some (attrs v x) else content ys x)"
proof -
  have t: "tiled a xs (ub v)" "tiled (ub v) (v # ys) b" "tiled (ub v) [v] (vend v)" "tiled (vend v) ys b" "ub v < vend v"
    using assms by (auto simp: tiled_mid vend_def word_gt_0 unat_gt_0)
  show ?thesis using content_append [OF t(1,2), of x] content_append [OF t(3,4), of x] by (auto simp: content_def)
qed

section \<open>Merging\<close>

definition mergeable :: "VirtualMemoryArea \<Rightarrow> VirtualMemoryArea \<Rightarrow> bool" where
  "mergeable v w \<longleftrightarrow> vma_permissions v = vma_permissions w \<and> meminfo_state v = meminfo_state w \<and> vma_type v = vma_type w \<and>
     (vma_type v = VMA_BackingMemory \<longrightarrow> adjacent_refs (backing_memory v) (vma_size v) (backing_memory w))"

lemma CanBeMergedWith_adjacent: "vma_base v + vma_size v = vma_base w \<Longrightarrow> CanBeMergedWith v w = Some (mergeable v w)"
  by (auto simp: CanBeMergedWith_def mergeable_def)

definition join :: "VirtualMemoryArea \<Rightarrow> VirtualMemoryArea \<Rightarrow> VirtualMemoryArea" where
  "join v w = v\<lparr>vma_size := vma_size v + vma_size w\<rparr>"

lemma join_fields [simp]:
  "vma_base (join v w) = vma_base v" "vma_type (join v w) = vma_type v" "vma_permissions (join v w) = vma_permissions v"
  "meminfo_state (join v w) = meminfo_state v" "backing_memory (join v w) = backing_memory v"
  by (simp_all add: join_def)

lemma page_aligned_unat: "page_aligned a \<longleftrightarrow> 4096 dvd unat a"
proof -
  have "a AND CITRA_PAGE_MASK = take_bit 12 a"
  proof -
    have "(0xFFF :: u32) = mask 12" by (simp add: mask_eq_exp_minus_1)
    then show ?thesis by (simp add: take_bit_eq_mask)
  qed
  then have "page_aligned a \<longleftrightarrow> unat (take_bit 12 a) = 0" by (simp add: page_aligned_def unat_eq_0)
  also have "unat (take_bit 12 a) = take_bit 12 (unat a)" by (rule unsigned_take_bit_eq)
  finally show ?thesis by (simp add: take_bit_eq_mod dvd_eq_mod_eq_0)
qed

lemma join_ok:
  assumes t: "tiled a (v # w # ys) b" and b: "b \<le> vm_end" and ok: "vma_ok v" "vma_ok w" and m: "mergeable v w"
  shows "tiled a (join v w # ys) b" "vma_ok (join v w)" "vend (join v w) = vend w"
    "\<And>x. content (join v w # ys) x = content (v # w # ys) x"
proof -
  have e: "ub v = a" "vend v = ub w" "ub v < vend v" "ub w < vend w" "tiled (vend w) ys b" "vend w \<le> b"
    using t tiled_le [of "vend w" ys b] by (auto simp: vend_def word_gt_0 unat_gt_0)
  have s: "unat (vma_size v + vma_size w) = unat (vma_size v) + unat (vma_size w)"
    using e b by (simp add: vend_def unat_word_ariths)
  show ve: "vend (join v w) = vend w" using s e(2) by (simp add: vend_def join_def)
  have "0 < unat (vma_size v + vma_size w)" using s e(3) by (simp add: vend_def)
  then have "0 < vma_size v + vma_size w" by (simp add: word_gt_0 unat_gt_0)
  then show tj: "tiled a (join v w # ys) b" using e(1,5) ve by (simp add: join_def)
  show "vma_ok (join v w)"
    using ok m s by (auto simp: vma_ok_def mergeable_def page_aligned_unat adjacent_refs_def join_def split: VMAType.splits option.splits)
  have at: "attrs v x = attrs w x" if "ub w \<le> x" for x
    using m ok that e(2,3) by (auto simp: attrs_def mergeable_def vma_ok_def adjacent_refs_def vend_def split: VMAType.splits option.splits)
  have aj: "attrs (join v w) x = attrs v x" for x by (simp add: attrs_def)
  show "content (join v w # ys) x = content (v # w # ys) x" for x
    using content_mid [of a "[]" "join v w" ys b x] content_mid [of a "[]" v "w # ys" b x] content_mid [of "ub w" "[]" w ys b x] tj t e ve at [of x] aj [of x]
    by (auto simp: content_def)
qed

text \<open>Two areas that meet.\<close>

lemma tiled_adjacent:
  assumes "tiled a (xs @ v # w # ys) b" "b \<le> vm_end"
  shows "vma_base v + vma_size v = vma_base w" "vend v = ub w"
proof -
  have t: "tiled (vend v) (w # ys) b" using assms(1) by (simp add: tiled_mid)
  then show e: "vend v = ub w" by simp
  have "vend v < 2 ^ 32" using tiled_le [OF t] assms(2) by simp
  then show "vma_base v + vma_size v = vma_base w" using vend_word [of v] e by (simp add: word_unat_eq_iff)
qed

lemma content_cong:
  assumes "tiled a xs c" "tiled c ys b" "tiled c ys' b" "\<And>x. content ys' x = content ys x"
  shows "content (xs @ ys') x = content (xs @ ys) x"
  using content_append [OF assms(1,2), of x] content_append [OF assms(1,3), of x] assms(4) by simp

lemma content_cong_left:
  assumes "tiled a xs c" "tiled a xs' c" "tiled c ys b" "\<And>x. content xs' x = content xs x"
  shows "content (xs' @ ys) x = content (xs @ ys) x"
  using content_append [OF assms(1,3), of x] content_append [OF assms(2,3), of x] assms(4) by simp

section \<open>Splitting\<close>

definition left_part :: "VirtualMemoryArea \<Rightarrow> u32 \<Rightarrow> VirtualMemoryArea" where
  "left_part v k = v\<lparr>vma_size := k\<rparr>"

definition right_part :: "VirtualMemoryArea \<Rightarrow> u32 \<Rightarrow> VirtualMemoryArea" where
  "right_part v k = v\<lparr>vma_base := vma_base v + k, vma_size := vma_size v - k,
     backing_memory := map_option (\<lambda>(b, off). (b, off + unat k)) (backing_memory v)\<rparr>"

lemma parts_fields [simp]:
  "vma_base (left_part v k) = vma_base v" "vma_size (left_part v k) = k" "vma_type (left_part v k) = vma_type v"
  "vma_base (right_part v k) = vma_base v + k" "vma_size (right_part v k) = vma_size v - k" "vma_type (right_part v k) = vma_type v"
  by (simp_all add: left_part_def right_part_def)

lemma parts_tile:
  assumes t: "tiled a (v # ys) b" and b: "b \<le> vm_end" and k: "0 < k" "k < vma_size v"
  shows "tiled a (left_part v k # right_part v k # ys) b" "ub (right_part v k) = ub v + unat k" "vend (left_part v k) = ub v + unat k"
    "vend (right_part v k) = vend v"
proof -
  have e: "vend v \<le> b" "ub v = a" using tiled_le [of "vend v" ys b] t by auto
  have k': "0 < unat k" "unat k < unat (vma_size v)" using k by (simp_all add: word_less_nat_alt)
  show u: "ub (right_part v k) = ub v + unat k" using e k' b by (simp add: vend_def unat_word_ariths)
  show l: "vend (left_part v k) = ub v + unat k" by (simp add: vend_def)
  have s: "unat (vma_size v - k) = unat (vma_size v) - unat k" using k' by (simp add: unat_sub word_le_nat_alt)
  show r: "vend (right_part v k) = vend v" using u s k' by (simp add: vend_def)
  have "0 < vma_size v - k" using s k' by (simp add: word_less_nat_alt)
  then show "tiled a (left_part v k # right_part v k # ys) b" using t u l r k by simp
qed

lemma parts_content:
  assumes t: "tiled a (v # ys) b" and b: "b \<le> vm_end" and k: "0 < k" "k < vma_size v"
  shows "content (left_part v k # right_part v k # ys) x = content (v # ys) x"
proof -
  note p = parts_tile [OF t b k]
  have e: "vend v \<le> b" "ub v = a" using tiled_le [of "vend v" ys b] t by auto
  have u: "unat (vma_base v + k) = ub v + unat k" using p(2) by simp
  have "attrs (left_part v k) x = attrs v x" "ub v + unat k \<le> x \<Longrightarrow> attrs (right_part v k) x = attrs v x"
    using u by (auto simp: attrs_def left_part_def right_part_def option.map_comp intro!: option.map_cong)
  moreover have "tiled (ub v + unat k) (right_part v k # ys) b" using p(1,3) by simp
  ultimately show ?thesis
    using content_mid [of a "[]" "left_part v k" "right_part v k # ys" b x] content_mid [of "ub v + unat k" "[]" "right_part v k" ys b x]
      content_mid [of a "[]" v ys b x] p t tiled_in [OF p(1), of "right_part v k"] by (auto simp: content_def)
qed

lemma parts_ok:
  assumes "vma_ok v" "page_aligned k" "0 < k" "k < vma_size v" "vend v \<le> vm_end"
  shows "vma_ok (left_part v k)" "vma_ok (right_part v k)" "mergeable (left_part v k) (right_part v k)"
proof -
  have k: "unat k < unat (vma_size v)" using assms by (simp add: word_less_nat_alt)
  have u: "unat (vma_base v + k) = ub v + unat k" using assms(5) k by (simp add: vend_def unat_word_ariths)
  have s: "unat (vma_size v - k) = unat (vma_size v) - unat k" using k by (simp add: unat_sub word_le_nat_alt)
  show "vma_ok (left_part v k)" "vma_ok (right_part v k)" "mergeable (left_part v k) (right_part v k)"
    using assms(1,2) k u s by (auto simp: vma_ok_def left_part_def right_part_def page_aligned_unat mergeable_def adjacent_refs_def dvd_diff_nat
        split: VMAType.splits)
qed

lemma SplitVMA_mid:
  assumes t: "tiled a (xs @ v # ys) b" and b: "b \<le> vm_end" and ok: "vma_ok v" and k: "page_aligned k" "0 < k" "k < vma_size v"
  shows "SplitVMA (vma_base v) k (xs @ v # ys) = Some (vma_base v + k, xs @ left_part v k # right_part v k # ys)"
proof -
  have tv: "tiled (ub v) (v # ys) b" "tiled a xs (ub v)" using t by (auto simp: tiled_mid vend_def word_gt_0 unat_gt_0)
  have "tiled a (xs @ left_part v k # right_part v k # ys) b"
    unfolding tiled_append using tv(2) parts_tile(1) [OF tv(1) b k(2,3)] by blast
  then have em: "emplace_vma (right_part v k) (xs @ left_part v k # ys) = xs @ left_part v k # right_part v k # ys"
    using emplace_vma_mid [of a "xs @ [left_part v k]" "right_part v k" ys b] by simp
  have "vend v \<le> vm_end" using tiled_in [OF t, of v] b by simp
  note p = parts_ok [OF ok k this]
  have c: "CanBeMergedWith (left_part v k) (right_part v k) = Some True" using p(3) by (simp add: CanBeMergedWith_adjacent)
  have r: "(case vma_type v of VMA_Free \<Rightarrow> Some (backing_memory v) | VMA_BackingMemory \<Rightarrow> ref_plus (backing_memory v) (unat k)) =
      Some (map_option (\<lambda>(b, off). (b, off + unat k)) (backing_memory v))"
    using ok k(3) by (auto simp: vma_ok_def ref_plus_def ref_size_def word_less_nat_alt split: VMAType.splits)
  have pv: "put_vma (left_part v k) (xs @ v # ys) = xs @ left_part v k # ys" by (rule put_vma_mid [OF t]) simp
  show ?thesis
    using k r c em pv by (cases "vma_type v") (simp_all add: SplitVMA_def vma_at_mid [OF t] Let_def left_part_def right_part_def)
qed

section \<open>Merging with the neighbours\<close>

lemma merge_next_mid:
  assumes t: "tiled a (xs @ v # ys) b" and b: "b \<le> vm_end"
  shows "merge_next (vma_base v) (xs @ v # ys) =
    Some (case ys of [] \<Rightarrow> xs @ [v] | w # ws \<Rightarrow> if mergeable v w then xs @ join v w # ws else xs @ v # ys)"
proof (cases ys)
  case Nil
  then show ?thesis using std_next_mid [OF t] by (simp add: merge_next_def)
next
  case (Cons w ws)
  have t': "tiled a ((xs @ [v]) @ w # ws) b" using t Cons by simp
  have "put_vma (join v w) (xs @ v # ys) = xs @ join v w # ys" by (rule put_vma_mid [OF t]) simp
  moreover have "erase_vma (vma_base w) (xs @ join v w # w # ws) = xs @ join v w # ws"
    using tiled_bases(3,4) [OF t', of _] by (auto simp: erase_vma_def filter_id_conv)
  ultimately show ?thesis
    using std_next_mid [OF t] vma_at_mid [OF t] vma_at_mid [OF t'] CanBeMergedWith_adjacent [OF tiled_adjacent(1), of a xs v w ws b] t b Cons
    by (simp add: merge_next_def join_def)
qed

lemma merge_prev_mid:
  assumes t: "tiled a (xs @ v # ys) b" and b: "b \<le> vm_end"
  shows "merge_prev (vma_base v) (xs @ v # ys) =
    Some (if xs \<noteq> [] \<and> mergeable (last xs) v then (vma_base (last xs), butlast xs @ join (last xs) v # ys) else (vma_base v, xs @ v # ys))"
proof (cases xs rule: rev_cases)
  case Nil
  then show ?thesis using std_prev_mid [OF t] by (simp add: merge_prev_def)
next
  case (snoc us u)
  have t': "tiled a (us @ u # v # ys) b" using t snoc by simp
  have "put_vma (join u v) (us @ u # v # ys) = us @ join u v # v # ys" by (rule put_vma_mid [OF t']) simp
  moreover have "erase_vma (vma_base v) (us @ join u v # v # ys) = us @ join u v # ys"
    using tiled_bases(3,4) [OF t, of _] snoc by (auto simp: erase_vma_def filter_id_conv)
  ultimately show ?thesis
    using std_prev_mid [OF t] vma_at_mid [OF t] vma_at_mid [OF t'] CanBeMergedWith_adjacent [OF tiled_adjacent(1) [OF t' b]] snoc
    by (simp add: merge_prev_def join_def)
qed

end
