(* ===== verification/Vm_Facts.thy ===== *)
theory Vm_Facts
  imports Vm_Tiles
begin

text \<open>
  What the manager of an address space keeps and what its operations do to the contents: the areas always tile the
  address space, no two free areas meet, the page table agrees with the areas, and each operation changes
  the attributes of exactly the addresses of its range.
\<close>

section \<open>Free areas\<close>

definition free_merged :: "VirtualMemoryArea list \<Rightarrow> bool" where
  "free_merged vs \<longleftrightarrow> successively (\<lambda>v w. \<not> (vma_type v = VMA_Free \<and> vma_type w = VMA_Free)) vs"

lemma free_merged_append:
  "free_merged (xs @ ys) \<longleftrightarrow> free_merged xs \<and> free_merged ys \<and>
     (xs = [] \<or> ys = [] \<or> \<not> (vma_type (last xs) = VMA_Free \<and> vma_type (hd ys) = VMA_Free))"
  by (simp add: free_merged_def successively_append_iff)

lemma free_merged_simps [simp]: "free_merged []" "free_merged [v]"
  "free_merged (v # w # vs) \<longleftrightarrow> \<not> (vma_type v = VMA_Free \<and> vma_type w = VMA_Free) \<and> free_merged (w # vs)"
  by (simp_all add: free_merged_def)

lemma free_merged_Cons: "free_merged (v # vs) \<longleftrightarrow> free_merged vs \<and> (vs = [] \<or> \<not> (vma_type v = VMA_Free \<and> vma_type (hd vs) = VMA_Free))"
  by (cases vs) auto

lemma free_merged_split:
  "free_merged (xs @ v # ys) \<Longrightarrow> vma_type v \<noteq> VMA_Free \<Longrightarrow> vma_type l \<noteq> VMA_Free \<Longrightarrow> vma_type r \<noteq> VMA_Free \<Longrightarrow> free_merged (xs @ l # r # ys)"
  by (auto simp: free_merged_append free_merged_Cons)

lemma free_mergeable: "vma_ok v \<Longrightarrow> vma_ok w \<Longrightarrow> vma_type v = VMA_Free \<Longrightarrow> vma_type w = VMA_Free \<Longrightarrow> mergeable v w"
  by (simp add: vma_ok_def mergeable_def)

abbreviation all_ok :: "VirtualMemoryArea list \<Rightarrow> bool" where "all_ok vs \<equiv> \<forall>v \<in> set vs. vma_ok v"

lemma merge_next_ok:
  assumes t: "tiled a (xs @ v # ys) b" and b: "b \<le> vm_end" and ok: "all_ok (xs @ v # ys)" and fm: "free_merged ys"
  shows "\<exists>v1 ys1. merge_next (vma_base v) (xs @ v # ys) = Some (xs @ v1 # ys1) \<and> vma_base v1 = vma_base v \<and> vma_type v1 = vma_type v \<and>
    tiled a (xs @ v1 # ys1) b \<and> all_ok (xs @ v1 # ys1) \<and> free_merged (v1 # ys1) \<and> (\<forall>x. content (xs @ v1 # ys1) x = content (xs @ v # ys) x) \<and>
    (ys1 = ys \<and> vend v1 = vend v \<or> (\<exists>w. ys = w # ys1 \<and> mergeable v w \<and> vend v1 = vend w))"
proof (cases "ys \<noteq> [] \<and> mergeable v (hd ys)")
  case True
  then obtain w ws where ys: "ys = w # ws" "mergeable v w" by (cases ys) auto
  have tv: "tiled a xs (ub v)" "tiled (ub v) (v # w # ws) b" using t ys by (auto simp: tiled_mid vend_def word_gt_0 unat_gt_0)
  note j = join_ok [OF tv(2) b _ _ ys(2)]
  have okv: "vma_ok v" "vma_ok w" using ok ys by simp_all
  have fm': "free_merged (join v w # ws)" using fm ys by (auto simp: free_merged_Cons mergeable_def)
  have tj: "tiled a (xs @ join v w # ws) b" unfolding tiled_append using tv(1) j(1) [OF okv] by blast
  have "content (xs @ join v w # ws) x = content (xs @ v # ys) x" for x
    unfolding ys(1) by (rule content_cong [OF tv(1,2) j(1) [OF okv]]) (rule j(4) [OF okv])
  then show ?thesis using merge_next_mid [OF t b] ys fm' tj ok j(2,3) [OF okv] by auto
next
  case False
  then have "free_merged (v # ys)" using fm ok free_mergeable [of v "hd ys"] by (auto simp: free_merged_Cons)
  then show ?thesis using False merge_next_mid [OF t b] t ok by (intro exI [of _ v] exI [of _ ys]) (auto split: list.splits)
qed

lemma merge_prev_ok:
  assumes t: "tiled a (xs @ v # ys) b" and b: "b \<le> vm_end" and ok: "all_ok (xs @ v # ys)" and fm: "free_merged xs" "free_merged (v # ys)"
  shows "\<exists>xs' v'. merge_prev (vma_base v) (xs @ v # ys) = Some (vma_base v', xs' @ v' # ys) \<and> tiled a (xs' @ v' # ys) b \<and>
    all_ok (xs' @ v' # ys) \<and> free_merged (xs' @ v' # ys) \<and> (\<forall>x. content (xs' @ v' # ys) x = content (xs @ v # ys) x) \<and> vend v' = vend v \<and> ub v' \<le> ub v"
proof (cases "xs \<noteq> [] \<and> mergeable (last xs) v")
  case True
  then obtain us u where xs: "xs = us @ [u]" "mergeable u v" by (cases xs rule: rev_cases) auto
  have tv: "tiled a us (ub u)" "tiled (ub u) (u # v # ys) b" using t xs by (auto simp: tiled_append vend_def word_gt_0 unat_gt_0)
  note j = join_ok [OF tv(2) b _ _ xs(2)]
  have okv: "vma_ok u" "vma_ok v" using ok xs by simp_all
  have tj: "tiled a (us @ join u v # ys) b" unfolding tiled_append using tv(1) j(1) [OF okv] by blast
  have lo: "ub u \<le> ub v" using tv(2) tiled_le by (auto simp: vend_def)
  have "content (us @ join u v # ys) x = content (us @ u # v # ys) x" for x
    by (rule content_cong [OF tv(1,2) j(1) [OF okv]]) (rule j(4) [OF okv])
  moreover have "free_merged (us @ join u v # ys)"
    using fm xs by (auto simp: free_merged_append free_merged_Cons mergeable_def)
  ultimately show ?thesis using merge_prev_mid [OF t b] xs tj ok j(2,3) [OF okv] lo
    by (intro exI [of _ us] exI [of _ "join u v"]) auto
next
  case False
  then have "free_merged (xs @ v # ys)" using fm ok free_mergeable [of "last xs" v] by (auto simp: free_merged_append)
  then show ?thesis using False merge_prev_mid [OF t b] t ok by (intro exI [of _ xs] exI [of _ v]) auto
qed

lemma MergeAdjacent_ok:
  assumes t: "tiled a (xs @ v # ys) b" and b: "b \<le> vm_end" and ok: "all_ok (xs @ v # ys)" and fm: "free_merged xs" "free_merged ys"
  shows "\<exists>xs' v' ys'. MergeAdjacent (vma_base v) (xs @ v # ys) = Some (vma_base v', xs' @ v' # ys') \<and> tiled a (xs' @ v' # ys') b \<and>
    all_ok (xs' @ v' # ys') \<and> free_merged (xs' @ v' # ys') \<and> (\<forall>x. content (xs' @ v' # ys') x = content (xs @ v # ys) x) \<and>
    (ys' = ys \<and> vend v' = vend v \<or> (\<exists>w. ys = w # ys' \<and> mergeable v w \<and> vend v' = vend w)) \<and> ub v' \<le> ub v"
proof -
  obtain v1 ys1 where m: "merge_next (vma_base v) (xs @ v # ys) = Some (xs @ v1 # ys1)" "vma_base v1 = vma_base v"
    "tiled a (xs @ v1 # ys1) b" "all_ok (xs @ v1 # ys1)" "free_merged (v1 # ys1)" "\<forall>x. content (xs @ v1 # ys1) x = content (xs @ v # ys) x"
    "ys1 = ys \<and> vend v1 = vend v \<or> (\<exists>w. ys = w # ys1 \<and> mergeable v w \<and> vend v1 = vend w)"
    using merge_next_ok [OF t b ok fm(2)] by blast
  obtain xs' v' where p: "merge_prev (vma_base v1) (xs @ v1 # ys1) = Some (vma_base v', xs' @ v' # ys1)" "tiled a (xs' @ v' # ys1) b"
    "all_ok (xs' @ v' # ys1)" "free_merged (xs' @ v' # ys1)" "\<forall>x. content (xs' @ v' # ys1) x = content (xs @ v1 # ys1) x" "vend v' = vend v1" "ub v' \<le> ub v1"
    using merge_prev_ok [OF m(3) b m(4) fm(1) m(5)] by blast
  show ?thesis using m p by (intro exI [of _ xs'] exI [of _ v'] exI [of _ ys1]) (simp add: MergeAdjacent_def)
qed

section \<open>Pages\<close>

text \<open>The entry of a page agrees with a type and a reference; a page the rasterizer has cached has no pointer.\<close>

definition entry_is :: "PageType \<Rightarrow> MemoryRef \<Rightarrow> PageTable \<Rightarrow> nat \<Rightarrow> bool" where
  "entry_is ty r t p \<longleftrightarrow> attributes t p = ty \<and> pointers t p = r \<or>
     ty = Memory \<and> attributes t p = RasterizerCachedMemory \<and> pointers t p = None"

lemma map_pages_loop_entries:
  assumes "p + n \<le> PAGE_TABLE_NUM_ENTRIES" "ty = Unmapped \<and> r = None \<or> ty = Memory \<and> (\<exists>b off. r = Some (b, off) \<and> off + n * CITRA_PAGE_SIZE \<le> GetSize b)"
  shows "\<exists>m'. map_pages_loop pt (of_nat p) (of_nat (p + n)) r ty m = Some m' \<and>
    (\<forall>i < n. entry_is ty (map_option (\<lambda>(b, off). (b, off + i * CITRA_PAGE_SIZE)) r) (tables m' pt) (p + i)) \<and>
    (\<forall>q. q < p \<or> p + n \<le> q \<longrightarrow> attributes (tables m' pt) q = attributes (tables m pt) q \<and>
        pointers (tables m' pt) q = pointers (tables m pt) q) \<and>
    (\<forall>q. q \<noteq> pt \<longrightarrow> tables m' q = tables m q)"
  using assms
proof (induction n arbitrary: p r m)
  case 0
  then show ?case by (simp add: map_pages_loop.simps)
next
  case (Suc n)
  define m1 where "m1 = set_page pt p ty r m"
  define m2 where "m2 = (if ty = Memory \<and> marker_IsCached (of_nat p * of_nat CITRA_PAGE_SIZE) m1
      then set_page pt p RasterizerCachedMemory None m1 else m1)"
  have small: "unat (of_nat k :: u32) = k" if "k \<le> PAGE_TABLE_NUM_ENTRIES" for k using that by (simp add: unat_of_nat)
  have up: "unat (of_nat p :: u32) = p" "unat (of_nat (p + Suc n) :: u32) = p + Suc n"
    using Suc.prems(1) by (intro small; simp)+
  then have ne: "(of_nat p :: u32) \<noteq> of_nat (p + Suc n)" by (metis add.right_neutral add_left_cancel nat.distinct(1))
  have step: "map_pages_loop pt (of_nat p) (of_nat (p + Suc n)) r ty m =
      map_pages_loop pt (of_nat (Suc p)) (of_nat (Suc p + n)) (next_page_ref r) ty m2"
    using ne up(1) Suc.prems(1) unfolding m2_def m1_def by (subst map_pages_loop.simps) (auto simp: Let_def add.commute)
  have at_p: "entry_is ty r (tables m2 pt) p" "\<And>q. q \<noteq> p \<Longrightarrow> attributes (tables m2 pt) q = attributes (tables m pt) q \<and>
      pointers (tables m2 pt) q = pointers (tables m pt) q" "\<And>q. q \<noteq> pt \<Longrightarrow> tables m2 q = tables m q"
    by (auto simp: m2_def m1_def set_page_tables entry_is_def)
  show ?case
  proof (cases "n = 0")
    case True
    then have "map_pages_loop pt (of_nat (Suc p)) (of_nat (Suc p + n)) (next_page_ref r) ty m2 = Some m2"
      by (subst map_pages_loop.simps) simp
    moreover have "map_option (\<lambda>a. a) r = r" by (cases r) auto
    ultimately show ?thesis unfolding step using True at_p by (intro exI [of _ m2]) auto
  next
    case False
    have nx: "next_page_ref r = map_option (\<lambda>(b, off). (b, off + CITRA_PAGE_SIZE)) r"
      using Suc.prems(2) False by (auto simp: next_page_ref_def ref_size_def)
    have pre: "Suc p + n \<le> PAGE_TABLE_NUM_ENTRIES"
      "ty = Unmapped \<and> next_page_ref r = None \<or>
       ty = Memory \<and> (\<exists>b off. next_page_ref r = Some (b, off) \<and> off + n * CITRA_PAGE_SIZE \<le> GetSize b)"
      using Suc.prems nx by auto
    obtain m' where m': "map_pages_loop pt (of_nat (Suc p)) (of_nat (Suc p + n)) (next_page_ref r) ty m2 = Some m'"
      "\<forall>i < n. entry_is ty (map_option (\<lambda>(b, off). (b, off + i * CITRA_PAGE_SIZE)) (next_page_ref r)) (tables m' pt) (Suc p + i)"
      "\<forall>q. q < Suc p \<or> Suc p + n \<le> q \<longrightarrow> attributes (tables m' pt) q = attributes (tables m2 pt) q \<and>
        pointers (tables m' pt) q = pointers (tables m2 pt) q"
      "\<forall>q. q \<noteq> pt \<longrightarrow> tables m' q = tables m2 q"
      using Suc.IH [OF pre] by blast
    have "entry_is ty (map_option (\<lambda>(b, off). (b, off + i * CITRA_PAGE_SIZE)) r) (tables m' pt) (p + i)" if "i < Suc n" for i
    proof (cases i)
      case 0
      moreover have "map_option (\<lambda>(b, off). (b, off + 0)) r = r" by (cases r) auto
      ultimately show ?thesis using at_p(1) m'(3) by (auto simp: entry_is_def)
    next
      case (Suc j)
      have "map_option (\<lambda>(b, off). (b, off + j * CITRA_PAGE_SIZE)) (next_page_ref r) = map_option (\<lambda>(b, off). (b, off + i * CITRA_PAGE_SIZE)) r"
        unfolding nx using Suc by (cases r) auto
      then show ?thesis using m'(2) that Suc by (metis Suc_less_eq add_Suc_shift)
    qed
    then show ?thesis unfolding step using m' at_p by (intro exI [of _ m']) auto
  qed
qed

lemma MapPages_entries:
  assumes "p + n \<le> PAGE_TABLE_NUM_ENTRIES" "ty = Unmapped \<and> r = None \<or> ty = Memory \<and> (\<exists>b off. r = Some (b, off) \<and> off + n * CITRA_PAGE_SIZE \<le> GetSize b)"
  shows "\<exists>m'. MapPages pt (of_nat p) (of_nat n) r ty m = Some m' \<and>
    (\<forall>i < n. entry_is ty (map_option (\<lambda>(b, off). (b, off + i * CITRA_PAGE_SIZE)) r) (tables m' pt) (p + i)) \<and>
    (\<forall>q. q < p \<or> p + n \<le> q \<longrightarrow> attributes (tables m' pt) q = attributes (tables m pt) q \<and>
        pointers (tables m' pt) q = pointers (tables m pt) q) \<and>
    (\<forall>q. q \<noteq> pt \<longrightarrow> tables m' q = tables m q)"
proof -
  define m1 where "m1 = (if powered_on m then RasterizerFlushVirtualRegion (push_bit CITRA_PAGE_BITS (of_nat p))
      (of_nat n * of_nat CITRA_PAGE_SIZE) FlushAndInvalidate m else m)"
  have t: "tables m1 = tables m" by (simp add: m1_def)
  have "MapPages pt (of_nat p) (of_nat n) r ty m = map_pages_loop pt (of_nat p) (of_nat (p + n)) r ty m1"
    by (simp add: MapPages_def Let_def m1_def)
  then show ?thesis using map_pages_loop_entries [OF assms, of pt m1] unfolding t by simp
qed

text \<open>The page table agrees with the contents at every page of the address space.\<close>

definition page_agrees :: "attrs option \<Rightarrow> PageTable \<Rightarrow> nat \<Rightarrow> bool" where
  "page_agrees c t p \<longleftrightarrow> (case c of None \<Rightarrow> True
     | Some (ty, _, _, r) \<Rightarrow> entry_is (case ty of VMA_Free \<Rightarrow> Unmapped | VMA_BackingMemory \<Rightarrow> Memory) r t p)"

definition pages_agree :: "VirtualMemoryArea list \<Rightarrow> PageTable \<Rightarrow> bool" where
  "pages_agree vs t \<longleftrightarrow> (\<forall>p. page_agrees (content vs (p * CITRA_PAGE_SIZE)) t p)"

lemma pages_agree_cong: "(\<And>x. content vs' x = content vs x) \<Longrightarrow> pages_agree vs' t = pages_agree vs t"
  by (simp add: pages_agree_def)

lemma page_agrees_cong:
  "attributes t' p = attributes t p \<and> pointers t' p = pointers t p \<Longrightarrow> page_agrees c t' p = page_agrees c t p"
  by (simp add: page_agrees_def entry_is_def split: option.split)

lemma UpdatePageTableForVMA_pages:
  assumes ok: "vma_ok v" and e: "vend v \<le> vm_end" and v: "0 < vma_size v"
  shows "\<exists>m'. UpdatePageTableForVMA v vm = Some (vm\<lparr>vm_memory := m'\<rparr>) \<and>
    (\<forall>p. ub v \<le> p * CITRA_PAGE_SIZE \<and> p * CITRA_PAGE_SIZE < vend v \<longrightarrow>
       page_agrees (Some (attrs v (p * CITRA_PAGE_SIZE))) (tables m' (page_table vm)) p) \<and>
    (\<forall>p. p * CITRA_PAGE_SIZE < ub v \<or> vend v \<le> p * CITRA_PAGE_SIZE \<longrightarrow>
       attributes (tables m' (page_table vm)) p = attributes (tables (vm_memory vm) (page_table vm)) p \<and>
       pointers (tables m' (page_table vm)) p = pointers (tables (vm_memory vm) (page_table vm)) p) \<and>
    (\<forall>q. q \<noteq> page_table vm \<longrightarrow> tables m' q = tables (vm_memory vm) q)"
proof -
  have al: "page_aligned (vma_base v)" "page_aligned (vma_size v)" using ok by (simp_all add: vma_ok_def)
  then obtain p n where pn: "ub v = CITRA_PAGE_SIZE * p" "unat (vma_size v) = CITRA_PAGE_SIZE * n" by (auto simp: page_aligned_unat elim!: dvdE)
  define ty where "ty = (case vma_type v of VMA_Free \<Rightarrow> Unmapped | VMA_BackingMemory \<Rightarrow> Memory)"
  have w: "vma_base v div of_nat CITRA_PAGE_SIZE = of_nat p" "vma_size v div of_nat CITRA_PAGE_SIZE = of_nat n"
    using pn e by (auto simp: word_unat_eq_iff unat_div unat_of_nat vend_def)
  have "p + n \<le> PAGE_TABLE_NUM_ENTRIES" using e pn by (simp add: vend_def)
  moreover have "ty = Unmapped \<and> backing_memory v = None \<or> ty = Memory \<and> (\<exists>b off. backing_memory v = Some (b, off) \<and> off + n * CITRA_PAGE_SIZE \<le> GetSize b)"
    using ok pn by (auto simp: vma_ok_def ty_def mult.commute split: VMAType.splits)
  ultimately obtain m' where m': "MapPages (page_table vm) (of_nat p) (of_nat n) (backing_memory v) ty (vm_memory vm) = Some m'"
    "\<forall>i < n. entry_is ty (map_option (\<lambda>(b, off). (b, off + i * CITRA_PAGE_SIZE)) (backing_memory v)) (tables m' (page_table vm)) (p + i)"
    "\<forall>q. q < p \<or> p + n \<le> q \<longrightarrow> attributes (tables m' (page_table vm)) q = attributes (tables (vm_memory vm) (page_table vm)) q \<and>
        pointers (tables m' (page_table vm)) q = pointers (tables (vm_memory vm) (page_table vm)) q"
    "\<forall>q. q \<noteq> page_table vm \<longrightarrow> tables m' q = tables (vm_memory vm) q"
    using MapPages_entries [of p n ty "backing_memory v" "page_table vm" "vm_memory vm"] by blast
  have u: "UpdatePageTableForVMA v vm = Some (vm\<lparr>vm_memory := m'\<rparr>)"
    using m'(1) al w ok by (auto simp: UpdatePageTableForVMA_def UnmapRegion_def MapMemoryRegion_def ty_def vma_ok_def split: VMAType.splits)
  have "page_agrees (Some (attrs v (q * CITRA_PAGE_SIZE))) (tables m' (page_table vm)) q"
    if "ub v \<le> q * CITRA_PAGE_SIZE" "q * CITRA_PAGE_SIZE < vend v" for q
  proof -
    have i: "p \<le> q" "q - p < n" using that pn by (auto simp: vend_def)
    have "q * CITRA_PAGE_SIZE - ub v = (q - p) * CITRA_PAGE_SIZE" using pn(1) by (simp add: diff_mult_distrib mult.commute)
    then show ?thesis using m'(2) [rule_format, OF i(2)] i(1) by (simp add: page_agrees_def attrs_def ty_def [symmetric])
  qed
  moreover have "q < p \<or> p + n \<le> q" if "q * CITRA_PAGE_SIZE < ub v \<or> vend v \<le> q * CITRA_PAGE_SIZE" for q using that pn by (auto simp: vend_def)
  ultimately show ?thesis using u m'(3,4) by (intro exI [of _ m']) blast
qed

lemma content_total:
  assumes "tiled 0 vs b" "x < b"
  shows "\<exists>c. content vs x = Some c"
proof -
  obtain xs v ys where "vs = xs @ v # ys" "ub v \<le> x" "x < vend v" using tiled_find [OF assms(1) _ assms(2)] by auto
  then have "content vs x = Some (attrs v x)" using content_mid [of 0 xs v ys b x] assms(1) by simp
  then show ?thesis by blast
qed

section \<open>The invariant\<close>

definition vm_core :: "VMManager \<Rightarrow> bool" where
  "vm_core vm \<longleftrightarrow> tiled 0 (vma_map vm) vm_end \<and> all_ok (vma_map vm) \<and> pages_agree (vma_map vm) (tables (vm_memory vm) (page_table vm))"

definition vm_inv :: "VMManager \<Rightarrow> bool" where
  "vm_inv vm \<longleftrightarrow> vm_core vm \<and> free_merged (vma_map vm)"

abbreviation vm_content :: "VMManager \<Rightarrow> nat \<Rightarrow> attrs option" where "vm_content vm \<equiv> content (vma_map vm)"

text \<open>What every operation leaves alone: the lock and the page tables of other processes.\<close>

definition same_space :: "VMManager \<Rightarrow> VMManager \<Rightarrow> bool" where
  "same_space vm vm' \<longleftrightarrow> page_table vm' = page_table vm \<and> is_locked vm' = is_locked vm \<and>
     (\<forall>q. q \<noteq> page_table vm \<longrightarrow> tables (vm_memory vm') q = tables (vm_memory vm) q)"

lemma same_space_trans: "same_space vm vm1 \<Longrightarrow> same_space vm1 vm2 \<Longrightarrow> same_space vm vm2"
  by (simp add: same_space_def)

lemma same_space_refl [simp]: "same_space vm vm" "same_space vm (vm\<lparr>vma_map := vs\<rparr>)"
  by (simp_all add: same_space_def)

lemma vm_core_cong:
  assumes "vm_core vm" "tiled 0 vs vm_end" "all_ok vs" "\<And>x. content vs x = vm_content vm x"
  shows "vm_core (vm\<lparr>vma_map := vs\<rparr>)"
  using assms pages_agree_cong [of vs "vma_map vm"] by (simp add: vm_core_def)

lemma put_content:
  assumes "tiled 0 (xs @ v # ys) b" "vma_base v' = vma_base v" "vma_size v' = vma_size v"
  shows "tiled 0 (xs @ v' # ys) b"
    "content (xs @ v' # ys) x = (if ub v \<le> x \<and> x < vend v then Some (attrs v' x) else content (xs @ v # ys) x)"
proof -
  have e: "vend v' = vend v" "ub v' = ub v" using assms(2,3) by (simp_all add: vend_def)
  show t: "tiled 0 (xs @ v' # ys) b" using assms(1) e by (simp add: tiled_mid)
  show "content (xs @ v' # ys) x = (if ub v \<le> x \<and> x < vend v then Some (attrs v' x) else content (xs @ v # ys) x)"
    using content_mid [OF t, of x] content_mid [OF assms(1), of x] e by auto
qed

text \<open>The areas after the one that was changed: they are the old ones, except that the first may have been merged.\<close>

definition after_change :: "VirtualMemoryArea \<Rightarrow> VirtualMemoryArea list \<Rightarrow> VirtualMemoryArea \<Rightarrow> VirtualMemoryArea list \<Rightarrow> bool" where
  "after_change v ys v' ys' \<longleftrightarrow> ys' = ys \<and> vend v' = vend v \<or> (\<exists>w. ys = w # ys' \<and> mergeable v w \<and> vend v' = vend w)"

lemma change_vma_ok:
  assumes c: "vm_core vm" and vs: "vma_map vm = xs @ v # ys" and fm: "free_merged xs" "free_merged ys"
    and f: "vma_base (f v) = vma_base v" "vma_size (f v) = vma_size v" "vma_ok (f v)"
  shows "\<exists>vm' xs' v' ys'. change_vma f (vma_base v) vm = Some (vma_base v', vm') \<and> vma_map vm' = xs' @ v' # ys' \<and> vm_inv vm' \<and>
    same_space vm vm' \<and> after_change (f v) ys v' ys' \<and> ub v' \<le> ub v \<and>
    (\<forall>x. vm_content vm' x = (if ub v \<le> x \<and> x < vend v then Some (attrs (f v) x) else vm_content vm x))"
proof -
  have t: "tiled 0 (xs @ v # ys) vm_end" and ok: "all_ok (xs @ v # ys)" and pg: "pages_agree (xs @ v # ys) (tables (vm_memory vm) (page_table vm))"
    using c vs by (simp_all add: vm_core_def)
  note pc = put_content [OF t f(1,2)]
  define vm1 where "vm1 = vm\<lparr>vma_map := xs @ f v # ys\<rparr>"
  have e: "ub (f v) = ub v" "vend (f v) = vend v" "0 < vma_size (f v)" "vend (f v) \<le> vm_end"
    using f tiled_in [OF t, of v] by (auto simp: vend_def word_gt_0 unat_gt_0)
  obtain m' where m': "UpdatePageTableForVMA (f v) vm1 = Some (vm1\<lparr>vm_memory := m'\<rparr>)"
    "\<forall>p. ub v \<le> p * CITRA_PAGE_SIZE \<and> p * CITRA_PAGE_SIZE < vend v \<longrightarrow> page_agrees (Some (attrs (f v) (p * CITRA_PAGE_SIZE))) (tables m' (page_table vm)) p"
    "\<forall>p. p * CITRA_PAGE_SIZE < ub v \<or> vend v \<le> p * CITRA_PAGE_SIZE \<longrightarrow>
       attributes (tables m' (page_table vm)) p = attributes (tables (vm_memory vm) (page_table vm)) p \<and>
       pointers (tables m' (page_table vm)) p = pointers (tables (vm_memory vm) (page_table vm)) p"
    "\<forall>q. q \<noteq> page_table vm \<longrightarrow> tables m' q = tables (vm_memory vm) q"
    using UpdatePageTableForVMA_pages [OF f(3) e(4,3), of vm1] e(1,2) by (auto simp: vm1_def)
  have pg1: "pages_agree (xs @ f v # ys) (tables m' (page_table vm))" unfolding pages_agree_def
  proof
    fix p
    show "page_agrees (content (xs @ f v # ys) (p * CITRA_PAGE_SIZE)) (tables m' (page_table vm)) p"
    proof (cases "ub v \<le> p * CITRA_PAGE_SIZE \<and> p * CITRA_PAGE_SIZE < vend v")
      case True
      then show ?thesis using pc(2) [of "p * CITRA_PAGE_SIZE"] m'(2) by simp
    next
      case False
      then have "p * CITRA_PAGE_SIZE < ub v \<or> vend v \<le> p * CITRA_PAGE_SIZE" by auto
      then have "page_agrees c (tables m' (page_table vm)) p = page_agrees c (tables (vm_memory vm) (page_table vm)) p" for c
        using m'(3) by (intro page_agrees_cong) blast
      then show ?thesis using pc(2) [of "p * CITRA_PAGE_SIZE"] False pg by (auto simp: pages_agree_def)
    qed
  qed
  have ok1: "all_ok (xs @ f v # ys)" using ok f(3) by simp
  obtain xs' v' ys' where mg: "MergeAdjacent (vma_base (f v)) (xs @ f v # ys) = Some (vma_base v', xs' @ v' # ys')" "tiled 0 (xs' @ v' # ys') vm_end"
    "all_ok (xs' @ v' # ys')" "free_merged (xs' @ v' # ys')" "\<And>x. content (xs' @ v' # ys') x = content (xs @ f v # ys) x" "after_change (f v) ys v' ys'" "ub v' \<le> ub v"
    using MergeAdjacent_ok [OF pc(1) order.refl ok1 fm] unfolding after_change_def e(1) by auto
  define vm' where "vm' = vm1\<lparr>vm_memory := m', vma_map := xs' @ v' # ys'\<rparr>"
  have "change_vma f (vma_base v) vm = Some (vma_base v', vm')"
    using mg(1) m'(1) vs vma_at_mid [OF t] put_vma_mid [OF t f(1)] f(1) by (simp add: change_vma_def vm'_def vm1_def)
  moreover have "vm_inv vm'"
    using mg(2-4) pages_agree_cong [OF mg(5)] pg1 by (simp add: vm_inv_def vm_core_def vm'_def vm1_def)
  moreover have "same_space vm vm'" using m'(4) by (simp add: same_space_def vm'_def vm1_def)
  ultimately show ?thesis using mg(5-7) pc(2) vs by (intro exI [of _ vm'] exI [of _ xs'] exI [of _ v'] exI [of _ ys']) (simp add: vm'_def)
qed

section \<open>The loop over a range\<close>

definition updated :: "(attrs \<Rightarrow> attrs) \<Rightarrow> nat \<Rightarrow> nat \<Rightarrow> (nat \<Rightarrow> attrs option) \<Rightarrow> nat \<Rightarrow> attrs option" where
  "updated g lo hi c x = (if lo \<le> x \<and> x < hi then map_option g (c x) else c x)"

text \<open>Changes of attributes: base and size stay, an area in use stays well formed, and an area that a changed one can be merged with has the new
  attributes already.\<close>

definition attr_change :: "(VirtualMemoryArea \<Rightarrow> VirtualMemoryArea) \<Rightarrow> (attrs \<Rightarrow> attrs) \<Rightarrow> bool" where
  "attr_change f g \<longleftrightarrow> (\<forall>v. vma_base (f v) = vma_base v \<and> vma_size (f v) = vma_size v \<and> (\<forall>x. attrs (f v) x = g (attrs v x)) \<and>
     (vma_ok v \<and> vma_type v \<noteq> VMA_Free \<longrightarrow> vma_ok (f v)) \<and>
     (\<forall>w. vma_ok v \<and> vma_type v \<noteq> VMA_Free \<and> vma_ok w \<and> mergeable (f v) w \<longrightarrow> f w = w))"

lemma attr_changeD:
  assumes "attr_change f g"
  shows "vma_base (f v) = vma_base v" "vma_size (f v) = vma_size v" "attrs (f v) x = g (attrs v x)"
    "vma_ok v \<Longrightarrow> vma_type v \<noteq> VMA_Free \<Longrightarrow> vma_ok (f v)"
    "vma_ok v \<Longrightarrow> vma_type v \<noteq> VMA_Free \<Longrightarrow> vma_ok w \<Longrightarrow> mergeable (f v) w \<Longrightarrow> f w = w"
  using assms unfolding attr_change_def by blast+

definition first_key :: "VirtualMemoryArea list \<Rightarrow> u32 option" where
  "first_key vs = (case vs of [] \<Rightarrow> None | v # _ \<Rightarrow> Some (vma_base v))"

lemma range_loop_stop:
  assumes "tiled hi zs vm_end" "unat target_end \<le> hi"
  shows "range_loop F target_end (first_key zs) vm = Some vm"
  using assms by (subst range_loop.simps) (auto simp: first_key_def word_less_nat_alt split: list.splits)

lemma range_loop_ok:
  assumes ch: "attr_change f g" and F: "\<And>key vm. \<not> is_locked vm \<Longrightarrow> F key vm = change_vma f key vm" and hi: "unat target_end = hi"
  shows "vm_inv vm \<Longrightarrow> \<not> is_locked vm \<Longrightarrow> vma_map vm = xs @ ms @ zs \<Longrightarrow> tiled 0 xs lo \<Longrightarrow> tiled lo ms hi \<Longrightarrow> tiled hi zs vm_end \<Longrightarrow>
    \<forall>v \<in> set ms. vma_type v \<noteq> VMA_Free \<Longrightarrow>
    \<exists>vm'. range_loop F target_end (first_key (ms @ zs)) vm = Some vm' \<and> vm_inv vm' \<and> same_space vm vm' \<and>
      (\<forall>x. vm_content vm' x = updated g lo hi (vm_content vm) x)"
proof (induction "length ms" arbitrary: vm xs ms lo rule: less_induct)
  case less
  show ?case
  proof (cases ms)
    case Nil
    then have "lo = hi" using less.prems by simp
    then show ?thesis using range_loop_stop [OF less.prems(6)] hi Nil less.prems(1) by (auto simp: updated_def)
  next
    case (Cons v ns)
    have c: "vm_core vm" "free_merged (xs @ v # ns @ zs)" using less.prems(1,3) Cons by (simp_all add: vm_inv_def)
    have vs: "vma_map vm = xs @ v # (ns @ zs)" using less.prems(3) Cons by simp
    have t: "tiled 0 (xs @ v # (ns @ zs)) vm_end" and ok: "all_ok (xs @ v # (ns @ zs))" using c(1) vs by (simp_all add: vm_core_def)
    have fm: "free_merged xs" "free_merged (ns @ zs)" using c(2) by (auto simp: free_merged_append free_merged_Cons)
    have lo: "ub v = lo" "lo < vend v" "vend v \<le> hi" "tiled (vend v) ns hi"
      using less.prems(5) Cons tiled_le [of "vend v" ns hi] tiled_in [OF t, of v] by auto
    have nf: "vma_type v \<noteq> VMA_Free" "vma_ok v" using less.prems(7) Cons ok by auto
    obtain vm1 xs' v' ys' where s: "change_vma f (vma_base v) vm = Some (vma_base v', vm1)" "vma_map vm1 = xs' @ v' # ys'" "vm_inv vm1"
      "same_space vm vm1" "after_change (f v) (ns @ zs) v' ys'"
      "\<forall>x. vm_content vm1 x = (if ub v \<le> x \<and> x < vend v then Some (attrs (f v) x) else vm_content vm x)"
      using change_vma_ok [where f = f, OF c(1) vs fm attr_changeD(1,2) [OF ch, of v] attr_changeD(4) [OF ch nf(2,1)]] by blast
    have t1: "tiled 0 (xs' @ v' # ys') vm_end" using s(2,3) by (simp add: vm_inv_def vm_core_def)
    have nx: "std_next (vma_base v') (vma_map vm1) = first_key ys'" using std_next_mid [OF t1] s(2) by (simp add: first_key_def)
    have "vma_base v < target_end" using lo hi by (simp add: word_less_nat_alt)
    then have run: "range_loop F target_end (first_key (ms @ zs)) vm = range_loop F target_end (first_key ys') vm1"
      using s(1) nx F [OF less.prems(2)] Cons by (subst range_loop.simps) (simp add: first_key_def)
    have lock: "\<not> is_locked vm1" using s(4) less.prems(2) by (simp add: same_space_def)
    have tys: "tiled 0 (xs' @ [v']) (vend v')" "tiled (vend v') ys' vm_end" using t1 by (auto simp: tiled_mid tiled_append vend_def word_gt_0 unat_gt_0)
    have one: "vm_content vm1 x = updated g lo (vend v) (vm_content vm) x" for x
      using s(6) content_mid [OF t, of x] vs lo(1,2) attr_changeD(3) [OF ch] by (auto simp: updated_def)
    have kept: "map_option g (vm_content vm x) = vm_content vm x"
      if "ns @ zs = w # ws" "mergeable (f v) w" "ub w \<le> x" "x < vend w" for w ws x
    proof -
      have t': "tiled 0 ((xs @ [v]) @ w # ws) vm_end" using t that(1) by simp
      have "vma_ok w" using ok that(1) by (metis in_set_conv_decomp list.set_intros(1) set_ConsD set_append Un_iff list.set_intros(2))
      then have "f w = w" by (rule attr_changeD(5) [OF ch nf(2,1) _ that(2)])
      then have "g (attrs w x) = attrs w x" using attr_changeD(3) [OF ch, of w x] by simp
      moreover have "vm_content vm x = Some (attrs w x)" using content_mid [OF t', of x] vs that by simp
      ultimately show ?thesis by simp
    qed
    consider (same) "ys' = ns @ zs" "vend v' = vend v"
      | (inside) w ns' where "ns = w # ns'" "ys' = ns' @ zs" "mergeable (f v) w" "vend v' = vend w"
      | (outside) w where "ns = []" "zs = w # ys'" "mergeable (f v) w" "vend v' = vend w"
    proof (cases "ys' = ns @ zs \<and> vend v' = vend (f v)")
      case True
      moreover have "vend (f v) = vend v" using attr_changeD(1,2) [OF ch] by (simp add: vend_def)
      ultimately show ?thesis using same by simp
    next
      case False
      then obtain w where "ns @ zs = w # ys'" "mergeable (f v) w" "vend v' = vend w" using s(5) by (auto simp: after_change_def)
      then show ?thesis using inside outside by (cases ns) auto
    qed
    then show ?thesis
    proof cases
      case same
      then obtain vm' where vm': "range_loop F target_end (first_key (ns @ zs)) vm1 = Some vm'" "vm_inv vm'" "same_space vm1 vm'"
        "\<forall>x. vm_content vm' x = updated g (vend v) hi (vm_content vm1) x"
        using less.hyps [of ns vm1 "xs' @ [v']" "vend v"] s(2,3) lock tys lo(4) less.prems(6,7) Cons by auto
      then show ?thesis using run same(1) same_space_trans [OF s(4)] one lo by (intro exI [of _ vm']) (auto simp: updated_def)
    next
      case inside
      have "tiled (vend w) ns' hi" "vend v = ub w" "ub w < vend w" "vend w \<le> hi"
        using lo(4) inside(1) tiled_in [of "vend v" ns hi w] by auto
      moreover from this obtain vm' where vm': "range_loop F target_end (first_key (ns' @ zs)) vm1 = Some vm'" "vm_inv vm'" "same_space vm1 vm'"
        "\<forall>x. vm_content vm' x = updated g (vend w) hi (vm_content vm1) x"
        using less.hyps [of ns' vm1 "xs' @ [v']" "vend w"] s(2,3) lock tys less.prems(6,7) Cons inside by auto
      ultimately show ?thesis
        using run inside(2) same_space_trans [OF s(4)] one lo kept [of w "ns' @ zs"] inside(1,3)
        by (intro exI [of _ vm']) (auto simp: updated_def)
    next
      case outside
      have e: "vend v = hi" "vend v = ub w" "ub w < vend w" using lo(4) outside(1,2) less.prems(6) tiled_in [OF less.prems(6), of w] by auto
      have "range_loop F target_end (first_key ys') vm1 = Some vm1" using range_loop_stop [OF tys(2)] outside(4) e hi by simp
      then show ?thesis using run s(3,4) one e(1) by (intro exI [of _ vm1]) simp
    qed
  qed
qed

section \<open>Carving\<close>

abbreviation free_at :: "VirtualMemoryArea list \<Rightarrow> nat \<Rightarrow> bool" where
  "free_at vs x \<equiv> map_option fst (content vs x) = Some VMA_Free"

lemma free_at_mid: "tiled a (xs @ v # ys) b \<Longrightarrow> ub v \<le> x \<Longrightarrow> x < vend v \<Longrightarrow> free_at (xs @ v # ys) x \<longleftrightarrow> vma_type v = VMA_Free"
  by (simp add: content_mid attrs_def)

lemma page_aligned_diff: "page_aligned x \<Longrightarrow> page_aligned y \<Longrightarrow> y \<le> x \<Longrightarrow> page_aligned (x - y)"
  by (simp add: page_aligned_unat unat_sub dvd_diff_nat)

text \<open>Making an address the boundary of areas, behind a prefix \<open>ps\<close>.\<close>

lemma cut_at:
  assumes t: "tiled 0 ps a" "tiled a vs vm_end" and ok: "all_ok (ps @ vs)" and fm: "free_merged (ps @ vs)"
    and x: "page_aligned x" "a \<le> unat x" "unat x < vm_end" and nf: "\<And>v. v \<in> set vs \<Longrightarrow> ub v < unat x \<Longrightarrow> unat x < vend v \<Longrightarrow> vma_type v \<noteq> VMA_Free"
  shows "\<exists>key xs ys. FindVMA x (ps @ vs) = Some (Some key) \<and>
    (if x \<noteq> key then SplitVMA key (x - key) (ps @ vs) else Some (key, ps @ vs)) = Some (x, ps @ xs @ ys) \<and>
    tiled a xs (unat x) \<and> tiled (unat x) ys vm_end \<and> all_ok (ps @ xs @ ys) \<and> free_merged (ps @ xs @ ys) \<and>
    (\<forall>x. content (ps @ xs @ ys) x = content (ps @ vs) x)"
proof -
  obtain us v ws where v: "vs = us @ v # ws" "ub v \<le> unat x" "unat x < vend v" using tiled_find [OF t(2) x(2,3)] by blast
  have t': "tiled 0 ((ps @ us) @ v # ws) vm_end" using t v(1) by (auto simp: tiled_append)
  have f: "FindVMA x (ps @ vs) = Some (Some (vma_base v))" using FindVMA_mid [OF t' v(2,3)] v(1) by simp
  have tv: "tiled a us (ub v)" "tiled (ub v) (v # ws) vm_end" "vma_ok v"
    using t(2) v(1) ok by (auto simp: tiled_mid vend_def word_gt_0 unat_gt_0)
  show ?thesis
  proof (cases "x = vma_base v")
    case True
    then show ?thesis using f v(1) tv ok fm by (intro exI [of _ "vma_base v"] exI [of _ us] exI [of _ "v # ws"]) simp
  next
    case False
    have le: "vma_base v \<le> x" using v(2) by (simp add: word_le_nat_alt)
    have s: "unat (x - vma_base v) = unat x - ub v" using le by (simp add: unat_sub)
    have lt: "ub v < unat x" using False v(2) by (metis le_neq_implies_less word_unat_eq_iff)
    have k: "page_aligned (x - vma_base v)" "0 < x - vma_base v" "x - vma_base v < vma_size v"
      using page_aligned_diff [OF x(1) _ le] tv(3) s v(3) lt by (simp_all add: vma_ok_def vend_def word_less_nat_alt)
    let ?l = "left_part v (x - vma_base v)" and ?r = "right_part v (x - vma_base v)"
    have vm: "vend v \<le> vm_end" using tiled_in [OF t', of v] by simp
    note p = parts_tile [OF tv(2) order.refl k(2,3)] and po = parts_ok [OF tv(3) k vm]
    have sp: "SplitVMA (vma_base v) (x - vma_base v) (ps @ vs) = Some (x, ps @ (us @ [?l]) @ ?r # ws)"
      using SplitVMA_mid [OF t' order.refl tv(3) k] v(1) by simp
    have "vend ?l = unat x" "ub v < vend ?l" using p(3) s lt by simp_all
    then have tl: "tiled a (us @ [?l]) (unat x)" "tiled (unat x) (?r # ws) vm_end"
      using tv(1) p(1) k(2) by (auto simp: tiled_append)
    have "tiled 0 (ps @ us) (ub v)" using t(1) tv(1) by (auto simp: tiled_append)
    then have c: "content (ps @ (us @ [?l]) @ ?r # ws) y = content (ps @ vs) y" for y
      using content_cong [OF _ tv(2) p(1) parts_content [OF tv(2) order.refl k(2,3)], of 0 "ps @ us" y] v(1) by simp
    have "vma_type v \<noteq> VMA_Free" using nf [of v] lt v by simp
    then have "free_merged (ps @ (us @ [?l]) @ ?r # ws)" using free_merged_split [of "ps @ us" v ws ?l ?r] fm v(1) by simp
    moreover have "all_ok (ps @ (us @ [?l]) @ ?r # ws)" using ok v(1) po by auto
    ultimately show ?thesis using f sp tl c False by (intro exI [of _ "vma_base v"] exI [of _ "us @ [?l]"] exI [of _ "?r # ws"]) simp
  qed
qed

lemma cut_end:
  assumes t: "tiled 0 ps a" "tiled a vs vm_end" and ok: "all_ok (ps @ vs)" and fm: "free_merged (ps @ vs)"
    and x: "page_aligned x" "a \<le> unat x" "unat x \<le> vm_end" and nf: "\<And>v. v \<in> set vs \<Longrightarrow> ub v < unat x \<Longrightarrow> unat x < vend v \<Longrightarrow> vma_type v \<noteq> VMA_Free"
  shows "\<exists>e xs ys. FindVMA x (ps @ vs) = Some e \<and>
    (case e of None \<Rightarrow> Some (ps @ vs)
     | Some key \<Rightarrow> if x \<noteq> key then map_option snd (SplitVMA key (x - key) (ps @ vs)) else Some (ps @ vs)) = Some (ps @ xs @ ys) \<and>
    tiled a xs (unat x) \<and> tiled (unat x) ys vm_end \<and> all_ok (ps @ xs @ ys) \<and> free_merged (ps @ xs @ ys) \<and>
    (\<forall>x. content (ps @ xs @ ys) x = content (ps @ vs) x)"
proof (cases "unat x = vm_end")
  case True
  then have "FindVMA x (ps @ vs) = Some None" by (simp add: FindVMA_def word_le_nat_alt)
  then show ?thesis using True t ok fm by (intro exI [of _ None] exI [of _ vs] exI [of _ "[]"]) simp
next
  case False
  then have "unat x < vm_end" using x(3) by simp
  then obtain key xs ys where "FindVMA x (ps @ vs) = Some (Some key)"
    "(if x \<noteq> key then SplitVMA key (x - key) (ps @ vs) else Some (key, ps @ vs)) = Some (x, ps @ xs @ ys)"
    "tiled a xs (unat x)" "tiled (unat x) ys vm_end" "all_ok (ps @ xs @ ys)" "free_merged (ps @ xs @ ys)"
    "\<forall>x. content (ps @ xs @ ys) x = content (ps @ vs) x"
    using cut_at [OF t ok fm x(1,2) _ nf] by blast
  then show ?thesis by (intro exI [of _ "Some key"] exI [of _ xs] exI [of _ ys]) (auto split: if_splits)
qed

text \<open>The areas that meet a range.\<close>

lemma takeWhile_tiled:
  assumes "tiled a vs b"
  shows "takeWhile (\<lambda>u. vma_base u < x) vs = filter (\<lambda>u. vma_base u < x) vs"
  using assms
proof (induction vs arbitrary: a)
  case (Cons v vs)
  have "\<not> vma_base u < x" if "\<not> vma_base v < x" "u \<in> set vs" for u
    using that Cons.prems tiled_in [of "vend v" vs b u] by (auto simp: word_less_nat_alt vend_def)
  then show ?case using Cons by (auto simp: filter_empty_conv)
qed simp

lemma areas_between_mid:
  assumes t: "tiled a (xs @ v # ys) b" and x: "vma_base v < x"
  shows "areas_between (vma_base v) (lower_bound x (xs @ v # ys)) (xs @ v # ys) = takeWhile (\<lambda>u. vma_base u < x) (v # ys)"
proof -
  let ?P = "\<lambda>u. vma_base u < x"
  define zs where "zs = v # ys"
  have from_v: "areas_from (vma_base v) (xs @ v # ys) = zs"
    using tiled_bases(3) [OF t] by (simp add: areas_from_def dropWhile_append2 zs_def)
  have "find (\<lambda>u. x \<le> vma_base u) (xs @ v # ys) = find (\<lambda>u. x \<le> vma_base u) zs"
    unfolding zs_def using tiled_bases(1) [OF t] x by (intro find_skip) (auto simp: not_le intro: less_trans)
  also have "\<dots> = find (\<lambda>u. x \<le> vma_base u) (takeWhile ?P zs @ dropWhile ?P zs)" by simp
  also have "\<dots> = find (\<lambda>u. x \<le> vma_base u) (dropWhile ?P zs)" by (rule find_skip) (auto simp: not_le dest: set_takeWhileD)
  finally have fd: "find (\<lambda>u. x \<le> vma_base u) (xs @ v # ys) = find (\<lambda>u. x \<le> vma_base u) (dropWhile ?P zs)" .
  define ds where "ds = dropWhile ?P zs"
  have "ds \<noteq> [] \<Longrightarrow> x \<le> vma_base (hd ds)" unfolding ds_def by (metis hd_dropWhile dropWhile_eq_Nil_conv not_less)
  then have "lower_bound x (xs @ v # ys) = first_key ds"
    unfolding lower_bound_def fd ds_def [symmetric] by (cases ds) (simp_all add: first_key_def)
  then have lb: "lower_bound x (xs @ v # ys) = first_key (dropWhile ?P zs)" by (simp only: ds_def)
  have "takeWhile (\<lambda>u. Some (vma_base u) \<noteq> first_key ds) (takeWhile ?P zs @ ds) = takeWhile ?P zs"
  proof (cases ds)
    case Nil
    then show ?thesis by (simp add: first_key_def)
  next
    case (Cons w ws)
    then have "x \<le> vma_base w" using \<open>ds \<noteq> [] \<Longrightarrow> x \<le> vma_base (hd ds)\<close> by simp
    then have "vma_base u \<noteq> vma_base w" if "u \<in> set (takeWhile ?P zs)" for u using that by (auto dest: set_takeWhileD)
    then show ?thesis using Cons by (simp add: first_key_def takeWhile_append2)
  qed
  then show ?thesis by (simp only: areas_between_def from_v lb ds_def takeWhile_dropWhile_id zs_def)
qed

lemma areas_between_ex:
  assumes t: "tiled 0 (xs @ v # ys) vm_end" and v: "ub v \<le> unat lo" "unat lo < vend v" and hi: "lo < hi" "unat hi \<le> vm_end"
    and Q: "\<And>u x. Q (attrs u x) \<longleftrightarrow> P u"
  shows "list_ex P (areas_between (vma_base v) (lower_bound hi (xs @ v # ys)) (xs @ v # ys)) \<longleftrightarrow>
    (\<exists>x c. unat lo \<le> x \<and> x < unat hi \<and> content (xs @ v # ys) x = Some c \<and> Q c)"
proof -
  have tv: "tiled (ub v) (v # ys) vm_end" using t by (auto simp: tiled_append vend_def word_gt_0 unat_gt_0)
  have lt: "vma_base v < hi" using v(1) hi(1) by (simp add: word_less_nat_alt)
  have e: "areas_between (vma_base v) (lower_bound hi (xs @ v # ys)) (xs @ v # ys) = filter (\<lambda>u. vma_base u < hi) (v # ys)"
    using areas_between_mid [OF t lt] takeWhile_tiled [OF tv] by simp
  show ?thesis
  proof
    assume "list_ex P (areas_between (vma_base v) (lower_bound hi (xs @ v # ys)) (xs @ v # ys))"
    then obtain u where u: "u \<in> set (v # ys)" "vma_base u < hi" "P u" unfolding e by (auto simp: list_ex_iff split: if_splits)
    show "\<exists>x c. unat lo \<le> x \<and> x < unat hi \<and> content (xs @ v # ys) x = Some c \<and> Q c"
    proof (cases "u = v")
      case True
      then have "content (xs @ v # ys) (unat lo) = Some (attrs u (unat lo))" using content_mid [OF t, of "unat lo"] v by simp
      then show ?thesis using Q u(3) hi by (intro exI [of _ "unat lo"] exI [of _ "attrs u (unat lo)"]) (simp add: word_less_nat_alt)
    next
      case False
      then obtain as bs where s: "ys = as @ u # bs" using u(1) by (auto dest: split_list)
      have t': "tiled 0 ((xs @ v # as) @ u # bs) vm_end" using t s by simp
      have "vend v \<le> ub u" using t s tiled_in [of "vend v" ys vm_end u] by (simp add: tiled_mid)
      moreover have "content (xs @ v # ys) (ub u) = Some (attrs u (ub u))"
        using content_mid [OF t', of "ub u"] tiled_in [OF t', of u] s by simp
      ultimately show ?thesis using Q u v(2) by (intro exI [of _ "ub u"] exI [of _ "attrs u (ub u)"]) (simp add: word_less_nat_alt)
    qed
  next
    assume "\<exists>x c. unat lo \<le> x \<and> x < unat hi \<and> content (xs @ v # ys) x = Some c \<and> Q c"
    then obtain x c where x: "unat lo \<le> x" "x < unat hi" "content (xs @ v # ys) x = Some c" "Q c" by blast
    obtain as u bs where s: "v # ys = as @ u # bs" "ub u \<le> x" "x < vend u" using tiled_find [OF tv, of x] v(1) x hi(2) by auto
    have t': "tiled 0 ((xs @ as) @ u # bs) vm_end" using t s by simp
    have "P u" using content_mid [OF t', of x] s x(3,4) Q [of u x] by simp
    moreover have "u \<in> set (v # ys)" "vma_base u < hi" using s x(2) by (auto simp: word_less_nat_alt)
    ultimately show "list_ex P (areas_between (vma_base v) (lower_bound hi (xs @ v # ys)) (xs @ v # ys))"
      unfolding e list_ex_iff by (auto simp del: filter.simps)
  qed
qed

lemma areas_between_free:
  assumes t: "tiled 0 (xs @ v # ys) vm_end" and v: "ub v \<le> unat lo" "unat lo < vend v" and hi: "lo < hi" "unat hi \<le> vm_end"
  shows "list_ex (\<lambda>u. vma_type u = VMA_Free) (areas_between (vma_base v) (lower_bound hi (xs @ v # ys)) (xs @ v # ys)) \<longleftrightarrow>
    (\<exists>x. unat lo \<le> x \<and> x < unat hi \<and> free_at (xs @ v # ys) x)"
  using areas_between_ex [OF assms, of "\<lambda>c. fst c = VMA_Free" "\<lambda>u. vma_type u = VMA_Free"] by (auto simp: attrs_def)

text \<open>A range of pages inside the address space.\<close>

definition good_range :: "u32 \<Rightarrow> u32 \<Rightarrow> bool" where
  "good_range target sz \<longleftrightarrow> page_aligned target \<and> page_aligned sz \<and> 0 < sz \<and> unat target + unat sz \<le> vm_end"

lemma good_rangeD:
  assumes "good_range target sz"
  shows "page_aligned target" "page_aligned sz" "0 < sz" "unat target < unat target + unat sz" "unat target + unat sz \<le> vm_end"
    "unat (target + sz) = unat target + unat sz" "target \<le> target + sz" "target < target + sz" "target + sz \<le> MAX_ADDRESS" "page_aligned (target + sz)"
proof -
  show a: "page_aligned target" "page_aligned sz" "0 < sz" "unat target + unat sz \<le> vm_end" using assms by (simp_all add: good_range_def)
  show b: "unat target < unat target + unat sz" using a(3) by (simp add: word_less_nat_alt)
  show c: "unat (target + sz) = unat target + unat sz" using a(4) by (simp add: unat_word_ariths)
  show "target \<le> target + sz" "target < target + sz" "target + sz \<le> MAX_ADDRESS" using a(4) b c by (simp_all add: word_le_nat_alt word_less_nat_alt)
  show "page_aligned (target + sz)" using a(1,2) c by (simp add: page_aligned_unat)
qed

lemma CarveVMARange_ok:
  assumes t: "tiled 0 vs vm_end" and ok: "all_ok vs" and fm: "free_merged vs" and r: "good_range target sz"
  shows "(\<exists>x. unat target \<le> x \<and> x < unat target + unat sz \<and> free_at vs x) \<Longrightarrow> CarveVMARange target sz vs = Some (Inl ResultInvalidAddressState)"
    "(\<And>x. unat target \<le> x \<Longrightarrow> x < unat target + unat sz \<Longrightarrow> \<not> free_at vs x) \<Longrightarrow>
     \<exists>xs ms zs. CarveVMARange target sz vs = Some (Inr (target, xs @ ms @ zs)) \<and> tiled 0 xs (unat target) \<and>
       tiled (unat target) ms (unat target + unat sz) \<and> tiled (unat target + unat sz) zs vm_end \<and> (\<forall>v \<in> set ms. vma_type v \<noteq> VMA_Free) \<and>
       all_ok (xs @ ms @ zs) \<and> free_merged (xs @ ms @ zs) \<and> (\<forall>x. content (xs @ ms @ zs) x = content vs x)"
proof -
  note g = good_rangeD [OF r]
  let ?lo = "unat target" and ?hi = "unat target + unat sz"
  have lt: "?lo < vm_end" using g(4,5) by simp
  obtain us v ws where v: "vs = us @ v # ws" "ub v \<le> ?lo" "?lo < vend v" using tiled_find [OF t _ lt] by auto
  have tv: "tiled 0 (us @ v # ws) vm_end" using t v(1) by simp
  have f: "FindVMA target vs = Some (Some (vma_base v))" using FindVMA_mid [OF tv v(2,3)] v(1) by simp
  have ex: "list_ex (\<lambda>v. vma_type v = VMA_Free) (areas_between (vma_base v) (lower_bound (target + sz) vs) vs) \<longleftrightarrow>
      (\<exists>x. ?lo \<le> x \<and> x < ?hi \<and> free_at vs x)"
    using areas_between_free [OF tv v(2,3) g(8)] g(5,6) v(1) by simp
  have guards: "\<not> (\<not> page_aligned sz \<or> \<not> page_aligned target)" "\<not> \<not> (target \<le> target + sz \<and> target + sz \<le> MAX_ADDRESS \<and> 0 < sz)" using g by auto
  show "CarveVMARange target sz vs = Some (Inl ResultInvalidAddressState)" if "\<exists>x. ?lo \<le> x \<and> x < ?hi \<and> free_at vs x"
    using that ex f guards by (simp add: CarveVMARange_def Let_def)
  assume nf: "\<And>x. ?lo \<le> x \<Longrightarrow> x < ?hi \<Longrightarrow> \<not> free_at vs x"
  have nf1: "vma_type u \<noteq> VMA_Free" if u: "u \<in> set vs'" "tiled 0 vs' vm_end" "\<And>x. content vs' x = content vs x" and y: "ub u \<le> y" "y < vend u" "?lo \<le> y" "y < ?hi" for u vs' y
  proof -
    obtain as bs where "vs' = as @ u # bs" using u(1) by (auto dest: split_list)
    then show ?thesis using free_at_mid [of 0 as u bs vm_end y] u(2,3) y nf [of y] by auto
  qed
  have "\<exists>key xs ys. FindVMA target ([] @ vs) = Some (Some key) \<and>
    (if target \<noteq> key then SplitVMA key (target - key) ([] @ vs) else Some (key, [] @ vs)) = Some (target, [] @ xs @ ys) \<and>
    tiled 0 xs ?lo \<and> tiled ?lo ys vm_end \<and> all_ok ([] @ xs @ ys) \<and> free_merged ([] @ xs @ ys) \<and> (\<forall>x. content ([] @ xs @ ys) x = content ([] @ vs) x)"
    by (rule cut_at [where a = 0]) (use t ok fm g lt nf1 [OF _ t refl, of _ ?lo] in auto)
  then obtain xs ys where c1: "(if target \<noteq> vma_base v then SplitVMA (vma_base v) (target - vma_base v) vs else Some (vma_base v, vs)) = Some (target, xs @ ys)"
    "tiled 0 xs ?lo" "tiled ?lo ys vm_end" "all_ok (xs @ ys)" "free_merged (xs @ ys)" "\<And>x. content (xs @ ys) x = content vs x"
    using f unfolding append_Nil by auto
  have t1: "tiled 0 (xs @ ys) vm_end" using c1(2,3) by (auto simp: tiled_append)
  have "\<exists>e ms zs. FindVMA (target + sz) (xs @ ys) = Some e \<and>
      (case e of None \<Rightarrow> Some (xs @ ys)
       | Some ekey \<Rightarrow> if target + sz \<noteq> ekey then map_option snd (SplitVMA ekey (target + sz - ekey) (xs @ ys)) else Some (xs @ ys)) = Some (xs @ ms @ zs) \<and>
      tiled ?lo ms (unat (target + sz)) \<and> tiled (unat (target + sz)) zs vm_end \<and> all_ok (xs @ ms @ zs) \<and> free_merged (xs @ ms @ zs) \<and>
      (\<forall>x. content (xs @ ms @ zs) x = content (xs @ ys) x)"
  proof (rule cut_end [OF c1(2,3,4,5) g(10)])
    show "?lo \<le> unat (target + sz)" "unat (target + sz) \<le> vm_end" using g by simp_all
    fix u assume u: "u \<in> set ys" "ub u < unat (target + sz)" "unat (target + sz) < vend u"
    then have "?lo \<le> ub u" using tiled_in [OF c1(3)] by blast
    then show "vma_type u \<noteq> VMA_Free" using nf1 [OF _ t1 c1(6), of u "ub u"] u g(6) by auto
  qed
  then obtain e ms zs where c2: "FindVMA (target + sz) (xs @ ys) = Some e"
    "(case e of None \<Rightarrow> Some (xs @ ys)
      | Some ekey \<Rightarrow> if target + sz \<noteq> ekey then map_option snd (SplitVMA ekey (target + sz - ekey) (xs @ ys)) else Some (xs @ ys)) = Some (xs @ ms @ zs)"
    "tiled ?lo ms ?hi" "tiled ?hi zs vm_end" "all_ok (xs @ ms @ zs)" "free_merged (xs @ ms @ zs)" "\<And>x. content (xs @ ms @ zs) x = content vs x"
    unfolding g(6) c1(6) by blast
  have t2: "tiled 0 (xs @ ms @ zs) vm_end" using c1(2) c2(3,4) by (auto simp: tiled_append)
  have "vma_type u \<noteq> VMA_Free" if "u \<in> set ms" for u
    using nf1 [OF _ t2 c2(7), of u "ub u"] that tiled_in [OF c2(3) that] by auto
  moreover have "CarveVMARange target sz vs = Some (Inr (target, xs @ ms @ zs))"
  proof -
    have "\<not> list_ex (\<lambda>v. vma_type v = VMA_Free) (areas_between (vma_base v) (lower_bound (target + sz) vs) vs)" using ex nf by blast
    then show ?thesis using guards f c1(1) c2(1,2) by (simp add: CarveVMARange_def Let_def)
  qed
  ultimately show "\<exists>xs ms zs. CarveVMARange target sz vs = Some (Inr (target, xs @ ms @ zs)) \<and> tiled 0 xs ?lo \<and>
       tiled ?lo ms ?hi \<and> tiled ?hi zs vm_end \<and> (\<forall>v \<in> set ms. vma_type v \<noteq> VMA_Free) \<and>
       all_ok (xs @ ms @ zs) \<and> free_merged (xs @ ms @ zs) \<and> (\<forall>x. content (xs @ ms @ zs) x = content vs x)"
    using c1(2) c2(3-7) by (intro exI [of _ xs] exI [of _ ms] exI [of _ zs]) blast
qed

end
