(* ===== verification/Vm_Ops.thy ===== *)
theory Vm_Ops
  imports Vm_Facts
begin

text \<open>
  The operations of the manager on the contents of an address space: unmapping, protecting and changing the state of a
  range, mapping memory, and the blocks behind a range.
\<close>

section \<open>Operations on a range of areas in use\<close>

lemma vm_invD:
  assumes "vm_inv vm"
  shows "vm_core vm" "tiled 0 (vma_map vm) vm_end" "all_ok (vma_map vm)" "free_merged (vma_map vm)"
    "pages_agree (vma_map vm) (tables (vm_memory vm) (page_table vm))"
  using assms by (simp_all add: vm_inv_def vm_core_def)

text \<open>Carving a range in use and changing its areas.\<close>

lemma carve_and_change:
  assumes inv: "vm_inv vm" and lk: "\<not> is_locked vm" and r: "good_range target sz" and ch: "attr_change f g"
    and F: "\<And>key vm. \<not> is_locked vm \<Longrightarrow> F key vm = change_vma f key vm"
    and nf: "\<And>x. unat target \<le> x \<Longrightarrow> x < unat target + unat sz \<Longrightarrow> \<not> free_at (vma_map vm) x"
  shows "\<exists>vs vm'. CarveVMARange target sz (vma_map vm) = Some (Inr (target, vs)) \<and>
    range_loop F (target + sz) (Some target) (vm\<lparr>vma_map := vs\<rparr>) = Some vm' \<and> vm_inv vm' \<and> same_space vm vm' \<and>
    (\<forall>x. vm_content vm' x = updated g (unat target) (unat target + unat sz) (vm_content vm) x)"
proof -
  note i = vm_invD [OF inv] and gr = good_rangeD [OF r]
  obtain xs ms zs where c: "CarveVMARange target sz (vma_map vm) = Some (Inr (target, xs @ ms @ zs))" "tiled 0 xs (unat target)"
    "tiled (unat target) ms (unat target + unat sz)" "tiled (unat target + unat sz) zs vm_end" "\<forall>v \<in> set ms. vma_type v \<noteq> VMA_Free"
    "all_ok (xs @ ms @ zs)" "free_merged (xs @ ms @ zs)" "\<And>x. content (xs @ ms @ zs) x = vm_content vm x"
    using CarveVMARange_ok(2) [OF i(2-4) r nf] by blast
  define vm1 where "vm1 = vm\<lparr>vma_map := xs @ ms @ zs\<rparr>"
  have "tiled 0 (xs @ ms @ zs) vm_end" using c(2-4) by (auto simp: tiled_append)
  then have v1: "vm_inv vm1" using vm_core_cong [OF i(1) _ c(6,8)] c(7) by (simp add: vm_inv_def vm1_def)
  have lk1: "\<not> is_locked vm1" "vma_map vm1 = xs @ ms @ zs" using lk by (simp_all add: vm1_def)
  have "ms \<noteq> []" using c(3) gr(4) by auto
  then have k: "first_key (ms @ zs) = Some target" using c(3) by (cases ms) (auto simp: first_key_def word_unat_eq_iff)
  obtain vm' where "range_loop F (target + sz) (Some target) vm1 = Some vm'" "vm_inv vm'" "same_space vm1 vm'"
    "\<forall>x. vm_content vm' x = updated g (unat target) (unat target + unat sz) (vm_content vm1) x"
    using range_loop_ok [OF ch F gr(6) v1 lk1 c(2,3,4,5)] k by auto
  moreover from this(3) have "same_space vm vm'" using same_space_trans [of vm vm1 vm'] by (simp add: vm1_def)
  ultimately show ?thesis using c(1,8) by (intro exI [of _ "xs @ ms @ zs"] exI [of _ vm']) (auto simp: vm1_def updated_def)
qed

abbreviation free_attrs :: attrs where "free_attrs \<equiv> (VMA_Free, Perm_None, MS_Free, None)"

definition unmapped :: "VirtualMemoryArea \<Rightarrow> VirtualMemoryArea" where
  "unmapped v = v\<lparr>vma_type := VMA_Free, vma_permissions := Perm_None, meminfo_state := MS_Free, backing_memory := None\<rparr>"

definition set_perms :: "VMAPermission \<Rightarrow> attrs \<Rightarrow> attrs" where "set_perms p = (\<lambda>(ty, _, s, r). (ty, p, s, r))"

definition set_state :: "MemoryState \<Rightarrow> VMAPermission \<Rightarrow> attrs \<Rightarrow> attrs" where "set_state s p = (\<lambda>(ty, _, _, r). (ty, p, s, r))"

lemma attr_changes:
  "attr_change unmapped (\<lambda>_. free_attrs)" "attr_change (\<lambda>v. v\<lparr>vma_permissions := p\<rparr>) (set_perms p)"
  "attr_change (\<lambda>v. v\<lparr>vma_permissions := p, meminfo_state := s\<rparr>) (set_state s p)"
proof -
  show "attr_change unmapped (\<lambda>_. free_attrs)"
    by (auto simp: attr_change_def unmapped_def attrs_def vma_ok_def mergeable_def split: VMAType.splits intro!: VirtualMemoryArea.equality)
  show "attr_change (\<lambda>v. v\<lparr>vma_permissions := p\<rparr>) (set_perms p)"
    by (auto simp: attr_change_def attrs_def set_perms_def vma_ok_def mergeable_def split: VMAType.splits intro!: VirtualMemoryArea.equality)
  show "attr_change (\<lambda>v. v\<lparr>vma_permissions := p, meminfo_state := s\<rparr>) (set_state s p)"
    by (auto simp: attr_change_def attrs_def set_state_def vma_ok_def mergeable_def split: VMAType.splits intro!: VirtualMemoryArea.equality)
qed

text \<open>A free range lies in one area.\<close>

lemma free_area_covers:
  assumes t: "tiled 0 (xs @ v # ys) vm_end" and fm: "free_merged (xs @ v # ys)" and v: "ub v \<le> lo" "lo < vend v" and hi: "hi \<le> vm_end"
    and f: "\<And>x. lo \<le> x \<Longrightarrow> x < hi \<Longrightarrow> free_at (xs @ v # ys) x" and lo: "lo < hi"
  shows "vma_type v = VMA_Free" "hi \<le> vend v"
proof -
  show tv: "vma_type v = VMA_Free" using free_at_mid [OF t v] f [of lo] lo by simp
  show "hi \<le> vend v"
  proof (rule ccontr)
    assume n: "\<not> hi \<le> vend v"
    then obtain w ws where ys: "ys = w # ws" "ub w = vend v" using t hi by (cases ys) (auto simp: tiled_mid)
    have t': "tiled 0 ((xs @ [v]) @ w # ws) vm_end" using t ys by simp
    have "vma_type w = VMA_Free" using free_at_mid [OF t', of "ub w"] f [of "ub w"] n ys v tiled_in [OF t', of w] by simp
    then show False using fm tv ys by (simp add: free_merged_append)
  qed
qed

lemma UnmapRange_ok:
  assumes inv: "vm_inv vm" and lk: "\<not> is_locked vm" and r: "good_range target sz"
  shows "(\<exists>x. unat target \<le> x \<and> x < unat target + unat sz \<and> free_at (vma_map vm) x) \<Longrightarrow> UnmapRange target sz vm = Some (ResultInvalidAddressState, vm)"
    "(\<And>x. unat target \<le> x \<Longrightarrow> x < unat target + unat sz \<Longrightarrow> \<not> free_at (vma_map vm) x) \<Longrightarrow>
     \<exists>vm'. UnmapRange target sz vm = Some (ResultSuccess, vm') \<and> vm_inv vm' \<and> same_space vm vm' \<and>
       (\<forall>x. vm_content vm' x = updated (\<lambda>_. free_attrs) (unat target) (unat target + unat sz) (vm_content vm) x)"
proof -
  note i = vm_invD [OF inv] and gr = good_rangeD [OF r]
  let ?lo = "unat target" and ?hi = "unat target + unat sz"
  show "UnmapRange target sz vm = Some (ResultInvalidAddressState, vm)" if "\<exists>x. ?lo \<le> x \<and> x < ?hi \<and> free_at (vma_map vm) x"
    using CarveVMARange_ok(1) [OF i(2-4) r that] lk by (simp add: UnmapRange_def)
  assume nf: "\<And>x. ?lo \<le> x \<Longrightarrow> x < ?hi \<Longrightarrow> \<not> free_at (vma_map vm) x"
  have F: "\<not> is_locked vm \<Longrightarrow> VMManager_Unmap key vm = change_vma unmapped key vm" for key vm
    by (simp add: VMManager_Unmap_def unmapped_def [abs_def])
  obtain vs vm' where c: "CarveVMARange target sz (vma_map vm) = Some (Inr (target, vs))"
    "range_loop VMManager_Unmap (target + sz) (Some target) (vm\<lparr>vma_map := vs\<rparr>) = Some vm'" "vm_inv vm'" "same_space vm vm'"
    "\<forall>x. vm_content vm' x = updated (\<lambda>_. free_attrs) ?lo ?hi (vm_content vm) x"
    using carve_and_change [OF inv lk r attr_changes(1) F nf] by blast
  note i' = vm_invD [OF c(3)]
  obtain xs v ys where v: "vma_map vm' = xs @ v # ys" "ub v \<le> ?lo" "?lo < vend v" using tiled_find [OF i'(2), of ?lo] gr(4,5) by auto
  have tv: "tiled 0 (xs @ v # ys) vm_end" "free_merged (xs @ v # ys)" using i'(2,4) v(1) by simp_all
  have "free_at (xs @ v # ys) x" if "?lo \<le> x" "x < ?hi" for x
    using content_total [OF i(2), of x] c(5) that gr(5) v(1) by (auto simp: updated_def)
  then have "?hi \<le> vend v" using free_area_covers(2) [OF tv v(2,3) gr(5)] gr(4) by blast
  then have "vma_size v \<ge> sz" using v(2) by (simp add: word_le_nat_alt vend_def)
  then show "\<exists>vm'. UnmapRange target sz vm = Some (ResultSuccess, vm') \<and> vm_inv vm' \<and> same_space vm vm' \<and>
       (\<forall>x. vm_content vm' x = updated (\<lambda>_. free_attrs) ?lo ?hi (vm_content vm) x)"
    using c lk FindVMA_mid [OF tv(1) v(2,3)] vma_at_mid [OF tv(1)] v(1) by (intro exI [of _ vm']) (simp add: UnmapRange_def)
qed

lemma ReprotectRange_ok:
  assumes inv: "vm_inv vm" and lk: "\<not> is_locked vm" and r: "good_range target sz"
  shows "(\<exists>x. unat target \<le> x \<and> x < unat target + unat sz \<and> free_at (vma_map vm) x) \<Longrightarrow> ReprotectRange target sz p vm = Some (ResultInvalidAddressState, vm)"
    "(\<And>x. unat target \<le> x \<Longrightarrow> x < unat target + unat sz \<Longrightarrow> \<not> free_at (vma_map vm) x) \<Longrightarrow>
     \<exists>vm'. ReprotectRange target sz p vm = Some (ResultSuccess, vm') \<and> vm_inv vm' \<and> same_space vm vm' \<and>
       (\<forall>x. vm_content vm' x = updated (set_perms p) (unat target) (unat target + unat sz) (vm_content vm) x)"
proof -
  note i = vm_invD [OF inv]
  show "ReprotectRange target sz p vm = Some (ResultInvalidAddressState, vm)" if "\<exists>x. unat target \<le> x \<and> x < unat target + unat sz \<and> free_at (vma_map vm) x"
    using CarveVMARange_ok(1) [OF i(2-4) r that] lk by (simp add: ReprotectRange_def)
  assume nf: "\<And>x. unat target \<le> x \<Longrightarrow> x < unat target + unat sz \<Longrightarrow> \<not> free_at (vma_map vm) x"
  have F: "\<not> is_locked vm \<Longrightarrow> Reprotect key p vm = change_vma (\<lambda>v. v\<lparr>vma_permissions := p\<rparr>) key vm" for key vm by (simp add: Reprotect_def)
  show "\<exists>vm'. ReprotectRange target sz p vm = Some (ResultSuccess, vm') \<and> vm_inv vm' \<and> same_space vm vm' \<and>
       (\<forall>x. vm_content vm' x = updated (set_perms p) (unat target) (unat target + unat sz) (vm_content vm) x)"
    using carve_and_change [OF inv lk r attr_changes(2) [of p] F nf] lk by (fastforce simp: ReprotectRange_def)
qed

text \<open>The test of \<open>ChangeMemoryState\<close>, address by address.\<close>

definition in_state :: "MemoryState \<Rightarrow> VMAPermission \<Rightarrow> attrs \<Rightarrow> bool" where
  "in_state st p c \<longleftrightarrow> (case c of (_, q, s, _) \<Rightarrow> s = st \<and> q AND p = p)"

lemma states_loop_between:
  "i_end = None \<or> (\<exists>v \<in> set vs. i_end = Some (vma_base v)) \<Longrightarrow>
   states_loop st p i_end vs = Some (\<not> list_ex (\<lambda>v. \<not> (meminfo_state v = st \<and> vma_permissions v AND p = p)) (takeWhile (\<lambda>v. Some (vma_base v) \<noteq> i_end) vs))"
  by (induction vs) auto

lemma lower_bound_later:
  assumes t: "tiled a (xs @ v # ys) b" and x: "vma_base v < x"
  shows "lower_bound x (xs @ v # ys) = None \<or> (\<exists>w \<in> set (v # ys). lower_bound x (xs @ v # ys) = Some (vma_base w))"
proof (cases "find (\<lambda>u. x \<le> vma_base u) (xs @ v # ys)")
  case (Some w)
  then have w: "w \<in> set (xs @ v # ys)" "x \<le> vma_base w" by (metis find_Some_iff nth_mem)+
  have "w \<notin> set xs" using tiled_bases(1) [OF t, of w] w(2) x by (meson leD less_trans)
  then show ?thesis using w Some by (auto simp: lower_bound_def)
qed (simp add: lower_bound_def)

lemma ChangeMemoryState_ok:
  assumes inv: "vm_inv vm" and lk: "\<not> is_locked vm" and r: "good_range target sz"
  shows "(\<exists>x. unat target \<le> x \<and> x < unat target + unat sz \<and> (\<exists>c. vm_content vm x = Some c \<and> (\<not> in_state st p c \<or> fst c = VMA_Free))) \<Longrightarrow>
     ChangeMemoryState target sz st p new_st new_p vm = Some (ResultInvalidAddressState, vm)"
    "(\<And>x c. unat target \<le> x \<Longrightarrow> x < unat target + unat sz \<Longrightarrow> vm_content vm x = Some c \<Longrightarrow> in_state st p c \<and> fst c \<noteq> VMA_Free) \<Longrightarrow>
     \<exists>vm'. ChangeMemoryState target sz st p new_st new_p vm = Some (ResultSuccess, vm') \<and> vm_inv vm' \<and> same_space vm vm' \<and>
       (\<forall>x. vm_content vm' x = updated (set_state new_st new_p) (unat target) (unat target + unat sz) (vm_content vm) x)"
proof -
  note i = vm_invD [OF inv] and gr = good_rangeD [OF r]
  let ?lo = "unat target" and ?hi = "unat target + unat sz"
  obtain xs v ys where v: "vma_map vm = xs @ v # ys" "ub v \<le> ?lo" "?lo < vend v" using tiled_find [OF i(2), of ?lo] gr(4,5) by auto
  have t: "tiled 0 (xs @ v # ys) vm_end" using i(2) v(1) by simp
  have f: "FindVMA target (vma_map vm) = Some (Some (vma_base v))" using FindVMA_mid [OF t v(2,3)] v(1) by simp
  have lt: "vma_base v < target + sz" using v(2) gr(4,6) by (simp add: word_less_nat_alt)
  have fr: "areas_from (vma_base v) (vma_map vm) = v # ys"
    using tiled_bases(3) [OF t] v(1) by (simp add: areas_from_def dropWhile_append2)
  have loop: "states_loop st p (lower_bound (target + sz) (vma_map vm)) (areas_from (vma_base v) (vma_map vm)) =
      Some (\<not> (\<exists>x c. ?lo \<le> x \<and> x < ?hi \<and> vm_content vm x = Some c \<and> \<not> in_state st p c))"
    using states_loop_between [OF lower_bound_later [OF t lt], of st p] fr v(1) gr(5,6)
      areas_between_ex [OF t v(2,3) gr(8), of "\<lambda>c. \<not> in_state st p c" "\<lambda>v. \<not> (meminfo_state v = st \<and> vma_permissions v AND p = p)"]
    by (simp add: areas_between_def in_state_def attrs_def)
  have carve: "CarveVMARange target sz (vma_map vm) = Some (Inl ResultInvalidAddressState)"
    if "?lo \<le> x" "x < ?hi" "vm_content vm x = Some c" "fst c = VMA_Free" for x c
    by (rule CarveVMARange_ok(1) [OF i(2-4) r], rule exI [of _ x]) (use that in simp)
  show "ChangeMemoryState target sz st p new_st new_p vm = Some (ResultInvalidAddressState, vm)"
    if "\<exists>x. ?lo \<le> x \<and> x < ?hi \<and> (\<exists>c. vm_content vm x = Some c \<and> (\<not> in_state st p c \<or> fst c = VMA_Free))"
  proof (cases "\<exists>x c. ?lo \<le> x \<and> x < ?hi \<and> vm_content vm x = Some c \<and> \<not> in_state st p c")
    case True
    then show ?thesis using lk f loop by (simp add: ChangeMemoryState_def)
  next
    case False
    then have "CarveVMARange target sz (vma_map vm) = Some (Inl ResultInvalidAddressState)" using that carve by blast
    then show ?thesis using False lk f loop by (simp add: ChangeMemoryState_def)
  qed
  assume ok: "\<And>x c. ?lo \<le> x \<Longrightarrow> x < ?hi \<Longrightarrow> vm_content vm x = Some c \<Longrightarrow> in_state st p c \<and> fst c \<noteq> VMA_Free"
  then have "states_loop st p (lower_bound (target + sz) (vma_map vm)) (areas_from (vma_base v) (vma_map vm)) = Some True"
    using loop by (simp del: split_paired_Ex)
  moreover have nf: "\<not> free_at (vma_map vm) x" if "?lo \<le> x" "x < ?hi" for x using ok [OF that] by auto
  ultimately show "\<exists>vm'. ChangeMemoryState target sz st p new_st new_p vm = Some (ResultSuccess, vm') \<and> vm_inv vm' \<and> same_space vm vm' \<and>
       (\<forall>x. vm_content vm' x = updated (set_state new_st new_p) ?lo ?hi (vm_content vm) x)"
    using carve_and_change [OF inv lk r attr_changes(3) [where p = new_p and s = new_st] refl nf] lk f by (fastforce simp: ChangeMemoryState_def)
qed

section \<open>Mapping\<close>

text \<open>Cutting a free area at its right and at its left end.\<close>

lemma carve_right:
  assumes t: "tiled 0 (us @ v # ws) vm_end" and ok: "all_ok (us @ v # ws)" and v: "vma_type v = VMA_Free"
    and fm: "free_merged ws" "ws = [] \<or> vma_type (hd ws) \<noteq> VMA_Free" and k: "page_aligned k" "0 < k" "k \<le> vma_size v"
  shows "\<exists>v1 ws1. (if k \<noteq> vma_size v then map_option snd (SplitVMA (vma_base v) k (us @ v # ws)) else Some (us @ v # ws)) = Some (us @ v1 # ws1) \<and>
    vma_base v1 = vma_base v \<and> vma_size v1 = k \<and> vma_type v1 = VMA_Free \<and> all_ok (us @ v1 # ws1) \<and> free_merged ws1 \<and>
    tiled 0 (us @ v1 # ws1) vm_end \<and> (\<forall>x. content (us @ v1 # ws1) x = content (us @ v # ws) x)"
proof (cases "k = vma_size v")
  case True
  then show ?thesis using t ok v fm by (intro exI [of _ v] exI [of _ ws]) simp
next
  case False
  then have lt: "k < vma_size v" using k(3) by simp
  have tv: "tiled 0 us (ub v)" "tiled (ub v) (v # ws) vm_end" "vma_ok v" "vend v \<le> vm_end"
    using t ok tiled_in [OF t, of v] by (auto simp: tiled_mid vend_def word_gt_0 unat_gt_0)
  note p = parts_tile(1) [OF tv(2) order.refl k(2) lt] and po = parts_ok [OF tv(3) k(1,2) lt tv(4)]
  have "tiled 0 (us @ left_part v k # right_part v k # ws) vm_end" using tv(1) p by (auto simp: tiled_append)
  moreover have "content (us @ left_part v k # right_part v k # ws) x = content (us @ v # ws) x" for x
    by (rule content_cong [OF tv(1,2) p parts_content [OF tv(2) order.refl k(2) lt]])
  ultimately show ?thesis using False SplitVMA_mid [OF t order.refl tv(3) k(1,2) lt] po ok fm v
    by (intro exI [of _ "left_part v k"] exI [of _ "right_part v k # ws"]) (auto simp: free_merged_Cons)
qed

lemma carve_left:
  assumes t: "tiled 0 (us @ v # ws) vm_end" and ok: "all_ok (us @ v # ws)" and v: "vma_type v = VMA_Free"
    and fm: "free_merged us" "us = [] \<or> vma_type (last us) \<noteq> VMA_Free" and k: "page_aligned k" "k < vma_size v"
  shows "\<exists>xs w. (if k \<noteq> 0 then SplitVMA (vma_base v) k (us @ v # ws) else Some (vma_base v, us @ v # ws)) = Some (vma_base v + k, xs @ w # ws) \<and>
    vma_base w = vma_base v + k \<and> vma_size w = vma_size v - k \<and> vma_type w = VMA_Free \<and> all_ok (xs @ w # ws) \<and> free_merged xs \<and>
    tiled 0 (xs @ w # ws) vm_end \<and> (\<forall>x. content (xs @ w # ws) x = content (us @ v # ws) x)"
proof (cases "k = 0")
  case True
  then show ?thesis using t ok v fm by (intro exI [of _ us] exI [of _ v]) simp
next
  case False
  then have k0: "0 < k" by (simp add: word_gt_0)
  have tv: "tiled 0 us (ub v)" "tiled (ub v) (v # ws) vm_end" "vma_ok v" "vend v \<le> vm_end"
    using t ok tiled_in [OF t, of v] by (auto simp: tiled_mid vend_def word_gt_0 unat_gt_0)
  let ?l = "left_part v k" and ?r = "right_part v k"
  note p = parts_tile(1) [OF tv(2) order.refl k0 k(2)] and po = parts_ok [OF tv(3) k(1) k0 k(2) tv(4)]
  have "tiled 0 (us @ ?l # ?r # ws) vm_end" using tv(1) p unfolding tiled_append by blast
  moreover have "content (us @ ?l # ?r # ws) x = content (us @ v # ws) x" for x
    by (rule content_cong [OF tv(1,2) p parts_content [OF tv(2) order.refl k0 k(2)]])
  moreover have "free_merged (us @ [?l])" using fm by (auto simp: free_merged_append)
  ultimately show ?thesis using False SplitVMA_mid [OF t order.refl tv(3) k(1) k0 k(2)] po ok v
    by (intro exI [of _ "us @ [?l]"] exI [of _ ?r]) auto
qed

text \<open>Carving a free range leaves one free area of exactly that range; a range that is not free is refused.\<close>

lemma CarveVMA_ok:
  assumes t: "tiled 0 vs vm_end" and ok: "all_ok vs" and fm: "free_merged vs" and r: "good_range target sz"
  shows "(\<exists>x. unat target \<le> x \<and> x < unat target + unat sz \<and> \<not> free_at vs x) \<Longrightarrow> CarveVMA target sz vs = Some (Inl ResultInvalidAddressState)"
    "(\<And>x. unat target \<le> x \<Longrightarrow> x < unat target + unat sz \<Longrightarrow> free_at vs x) \<Longrightarrow>
     \<exists>xs w ys. CarveVMA target sz vs = Some (Inr (target, xs @ w # ys)) \<and> vma_base w = target \<and> vma_size w = sz \<and>
       tiled 0 (xs @ w # ys) vm_end \<and> all_ok (xs @ w # ys) \<and> free_merged xs \<and> free_merged ys \<and> (\<forall>x. content (xs @ w # ys) x = content vs x)"
proof -
  note g = good_rangeD [OF r]
  let ?lo = "unat target" and ?hi = "unat target + unat sz"
  obtain us v ws where v: "vs = us @ v # ws" "ub v \<le> ?lo" "?lo < vend v" using tiled_find [OF t, of ?lo] g(4,5) by auto
  have tv: "tiled 0 (us @ v # ws) vm_end" "all_ok (us @ v # ws)" "free_merged (us @ v # ws)" using t ok fm v(1) by simp_all
  have vm: "vend v \<le> vm_end" using tiled_in [OF tv(1), of v] by simp
  have le: "vma_base v \<le> target" using v(2) by (simp add: word_le_nat_alt)
  define k where "k = target - vma_base v"
  have s: "unat k = ?lo - ub v" using le by (simp add: k_def unat_sub)
  have e: "unat (k + sz) = ?lo - ub v + unat sz" using s v g(5) vm by (simp add: unat_word_ariths vend_def)
  have fits: "k + sz \<le> vma_size v \<longleftrightarrow> ?hi \<le> vend v" using e v(2) by (auto simp: word_le_nat_alt vend_def)
  have f: "FindVMA target vs = Some (Some (vma_base v))" "vma_at (vma_base v) vs = Some v"
    using FindVMA_mid [OF tv(1) v(2,3)] vma_at_mid [OF tv(1)] v(1) by simp_all
  note unf = CarveVMA_def f k_def [symmetric] Let_def
  show "CarveVMA target sz vs = Some (Inl ResultInvalidAddressState)" if "\<exists>x. ?lo \<le> x \<and> x < ?hi \<and> \<not> free_at vs x"
  proof (cases "vma_type v = VMA_Free \<and> ?hi \<le> vend v")
    case True
    then have "free_at vs x" if "?lo \<le> x" "x < ?hi" for x using free_at_mid [OF tv(1), of x] that v by simp
    then show ?thesis using that by blast
  next
    case False
    then show ?thesis using g(1,2) fits by (auto simp: unf not_le)
  qed
  assume fr: "\<And>x. ?lo \<le> x \<Longrightarrow> x < ?hi \<Longrightarrow> free_at vs x"
  have fc: "vma_type v = VMA_Free" "?hi \<le> vend v"
    using free_area_covers [OF tv(1,3) v(2,3) g(5)] fr v(1) g(4) by blast+
  have fms: "free_merged us" "free_merged ws" "ws = [] \<or> vma_type (hd ws) \<noteq> VMA_Free" "us = [] \<or> vma_type (last us) \<noteq> VMA_Free"
    using tv(3) fc(1) by (auto simp: free_merged_append free_merged_Cons)
  have "page_aligned k" using page_aligned_diff [OF g(1) _ le] tv(2) by (simp add: k_def vma_ok_def)
  moreover from this have "page_aligned (k + sz)" using g(2) s e by (simp add: page_aligned_unat)
  moreover have "0 < k + sz" "k + sz \<le> vma_size v" using e g(4) fits fc(2) by (simp_all add: word_less_nat_alt)
  ultimately obtain v1 ws1 where a: "(if k + sz \<noteq> vma_size v then map_option snd (SplitVMA (vma_base v) (k + sz) vs) else Some vs) = Some (us @ v1 # ws1)"
    "vma_base v1 = vma_base v" "vma_size v1 = k + sz" "vma_type v1 = VMA_Free" "all_ok (us @ v1 # ws1)" "free_merged ws1" "tiled 0 (us @ v1 # ws1) vm_end"
    "\<And>x. content (us @ v1 # ws1) x = content vs x" and al: "page_aligned k"
    using carve_right [OF tv(1,2) fc(1) fms(2,3)] unfolding v(1) by blast
  have "k < vma_size v1" using a(3) s e g(4) by (simp add: word_less_nat_alt)
  then obtain xs w where b: "(if k \<noteq> 0 then SplitVMA (vma_base v1) k (us @ v1 # ws1) else Some (vma_base v1, us @ v1 # ws1)) = Some (vma_base v1 + k, xs @ w # ws1)"
    "vma_base w = vma_base v1 + k" "vma_size w = vma_size v1 - k" "all_ok (xs @ w # ws1)" "free_merged xs" "tiled 0 (xs @ w # ws1) vm_end"
    "\<And>x. content (xs @ w # ws1) x = content (us @ v1 # ws1) x"
    using carve_left [OF a(7,5,4) fms(1,4) al] by blast
  have tgt: "vma_base v1 + k = target" using a(2) by (simp add: k_def)
  have "CarveVMA target sz vs = Some (Inr (target, xs @ w # ws1))"
    using g(1,2) fc(1) a(1) b(1) tgt \<open>k + sz \<le> vma_size v\<close> unfolding a(2) by (auto simp: unf not_less split: if_splits)
  then show "\<exists>xs w ys. CarveVMA target sz vs = Some (Inr (target, xs @ w # ys)) \<and> vma_base w = target \<and> vma_size w = sz \<and>
       tiled 0 (xs @ w # ys) vm_end \<and> all_ok (xs @ w # ys) \<and> free_merged xs \<and> free_merged ys \<and> (\<forall>x. content (xs @ w # ys) x = content vs x)"
    using b(2-7) a(3,6,8) tgt by (intro exI [of _ xs] exI [of _ w] exI [of _ ws1]) simp
qed

text \<open>Memory that backs a mapping of this size.\<close>

definition backs :: "MemoryRef \<Rightarrow> u32 \<Rightarrow> bool" where
  "backs memory sz \<longleftrightarrow> (\<exists>b off. memory = Some (b, off) \<and> off + unat sz \<le> GetSize b)"

definition mapped_at :: "nat \<Rightarrow> MemoryRef \<Rightarrow> MemoryState \<Rightarrow> VMAPermission \<Rightarrow> nat \<Rightarrow> attrs" where
  "mapped_at lo memory st p x = (VMA_BackingMemory, p, st, map_option (\<lambda>(b, off). (b, off + (x - lo))) memory)"

lemma MapBackingMemory_ok:
  assumes inv: "vm_inv vm" and lk: "\<not> is_locked vm" and r: "good_range target sz" and b: "backs memory sz"
  shows "(\<exists>x. unat target \<le> x \<and> x < unat target + unat sz \<and> \<not> free_at (vma_map vm) x) \<Longrightarrow>
     MapBackingMemory target memory sz st vm = Some (Inl ResultInvalidAddressState, vm)"
    "(\<And>x. unat target \<le> x \<Longrightarrow> x < unat target + unat sz \<Longrightarrow> free_at (vma_map vm) x) \<Longrightarrow>
     \<exists>vm' xs v ys. MapBackingMemory target memory sz st vm = Some (Inr (vma_base v), vm') \<and> vma_map vm' = xs @ v # ys \<and>
       ub v \<le> unat target \<and> unat target + unat sz \<le> vend v \<and> vm_inv vm' \<and> same_space vm vm' \<and>
       (\<forall>x. vm_content vm' x = (if unat target \<le> x \<and> x < unat target + unat sz then Some (mapped_at (unat target) memory st Perm_ReadWrite x) else vm_content vm x))"
proof -
  note i = vm_invD [OF inv] and gr = good_rangeD [OF r]
  have m: "memory \<noteq> None" using b by (auto simp: backs_def)
  show "MapBackingMemory target memory sz st vm = Some (Inl ResultInvalidAddressState, vm)"
    if "\<exists>x. unat target \<le> x \<and> x < unat target + unat sz \<and> \<not> free_at (vma_map vm) x"
    using CarveVMA_ok(1) [OF i(2-4) r that] lk m by (simp add: MapBackingMemory_def)
  assume fr: "\<And>x. unat target \<le> x \<Longrightarrow> x < unat target + unat sz \<Longrightarrow> free_at (vma_map vm) x"
  obtain xs w ys where c: "CarveVMA target sz (vma_map vm) = Some (Inr (target, xs @ w # ys))" "vma_base w = target" "vma_size w = sz"
    "tiled 0 (xs @ w # ys) vm_end" "all_ok (xs @ w # ys)" "free_merged xs" "free_merged ys" "\<And>x. content (xs @ w # ys) x = vm_content vm x"
    using CarveVMA_ok(2) [OF i(2-4) r fr] by blast
  define f where "f = (\<lambda>v :: VirtualMemoryArea. v\<lparr>vma_type := VMA_BackingMemory, vma_permissions := Perm_ReadWrite, meminfo_state := st, backing_memory := memory\<rparr>)"
  define vm1 where "vm1 = vm\<lparr>vma_map := xs @ w # ys\<rparr>"
  have core: "vm_core vm1" "vma_map vm1 = xs @ w # ys" using vm_core_cong [OF i(1) c(4,5,8)] by (simp_all add: vm1_def)
  have fw: "vma_base (f w) = vma_base w" "vma_size (f w) = vma_size w" "vma_ok (f w)"
    using b c(3,5) by (auto simp: f_def vma_ok_def backs_def)
  obtain vm' xs' v' ys' where s: "change_vma f (vma_base w) vm1 = Some (vma_base v', vm')" "vma_map vm' = xs' @ v' # ys'" "vm_inv vm'"
    "same_space vm1 vm'" "after_change (f w) ys v' ys'" "ub v' \<le> ub w"
    "\<forall>x. vm_content vm' x = (if ub w \<le> x \<and> x < vend w then Some (attrs (f w) x) else vm_content vm1 x)"
    using change_vma_ok [where f = f, OF core c(6,7) fw] by blast
  have e: "vend w = unat target + unat sz" "vend (f w) = vend w" using c(2,3) fw by (simp_all add: vend_def)
  have "tiled (vend w) ys vm_end" using c(4) by (simp add: tiled_mid)
  then have "vend w \<le> vend v'" using s(5) e(2) tiled_in [of "vend w" ys vm_end] by (fastforce simp: after_change_def)
  moreover have "same_space vm vm'" using same_space_trans [of vm vm1 vm'] s(4) by (simp add: vm1_def)
  moreover have "MapBackingMemory target memory sz st vm = Some (Inr (vma_base v'), vm')"
    using lk m c(1,2,3) s(1) vma_at_mid [OF c(4)] by (simp add: MapBackingMemory_def f_def vm1_def)
  moreover have "attrs (f w) x = mapped_at (unat target) memory st Perm_ReadWrite x" for x using c(2) by (simp add: attrs_def f_def mapped_at_def)
  ultimately show "\<exists>vm' xs v ys. MapBackingMemory target memory sz st vm = Some (Inr (vma_base v), vm') \<and> vma_map vm' = xs @ v # ys \<and>
       ub v \<le> unat target \<and> unat target + unat sz \<le> vend v \<and> vm_inv vm' \<and> same_space vm vm' \<and>
       (\<forall>x. vm_content vm' x = (if unat target \<le> x \<and> x < unat target + unat sz then Some (mapped_at (unat target) memory st Perm_ReadWrite x) else vm_content vm x))"
    using s(2,3,6,7) e(1) c(2,8) by (intro exI [of _ vm'] exI [of _ xs'] exI [of _ v'] exI [of _ ys']) (simp add: vm1_def)
qed

text \<open>Protecting an area in use.\<close>

lemma Reprotect_ok:
  assumes inv: "vm_inv vm" and lk: "\<not> is_locked vm" and v: "vma_map vm = xs @ v # ys" "vma_type v \<noteq> VMA_Free"
  shows "\<exists>key vm'. Reprotect (vma_base v) p vm = Some (key, vm') \<and> vm_inv vm' \<and> same_space vm vm' \<and>
    (\<forall>x. vm_content vm' x = updated (set_perms p) (ub v) (vend v) (vm_content vm) x)"
proof -
  note i = vm_invD [OF inv]
  let ?f = "\<lambda>v. v\<lparr>vma_permissions := p\<rparr>"
  have fm: "free_merged xs" "free_merged ys" using i(4) v(1) by (auto simp: free_merged_append free_merged_Cons)
  have ok: "vma_ok v" and t: "tiled 0 (xs @ v # ys) vm_end" using i(2,3) v(1) by simp_all
  note ch = attr_changeD [OF attr_changes(2) [of p], of v]
  obtain vm' key where "change_vma ?f (vma_base v) vm = Some (key, vm')" "vm_inv vm'" "same_space vm vm'"
    "\<forall>x. vm_content vm' x = (if ub v \<le> x \<and> x < vend v then Some (attrs (?f v) x) else vm_content vm x)"
    using change_vma_ok [where f = ?f, OF i(1) v(1) fm ch(1,2) ch(4) [OF ok v(2)]] by blast
  moreover have "updated (set_perms p) (ub v) (vend v) (vm_content vm) x = (if ub v \<le> x \<and> x < vend v then Some (attrs (?f v) x) else vm_content vm x)" for x
    using content_mid [OF t, of x] v(1) ch(3) [of x] by (auto simp: updated_def)
  ultimately show ?thesis using lk by (auto simp: Reprotect_def)
qed

section \<open>The blocks behind a range\<close>

fun blocks_cover :: "(nat \<Rightarrow> attrs option) \<Rightarrow> nat \<Rightarrow> (MemoryRef \<times> u32) list \<Rightarrow> nat \<Rightarrow> bool" where
  "blocks_cover c lo [] hi \<longleftrightarrow> lo = hi"
| "blocks_cover c lo ((r, n) # bs) hi \<longleftrightarrow> 0 < n \<and> backs r n \<and>
     (\<forall>x. lo \<le> x \<and> x < lo + unat n \<longrightarrow> (\<exists>p s. c x = Some (mapped_at lo r s p x))) \<and> blocks_cover c (lo + unat n) bs hi"

lemma blocks_cover_append: "blocks_cover c lo (xs @ [(r, n)]) (hi + unat n) \<longleftrightarrow>
    blocks_cover c lo xs hi \<and> 0 < n \<and> backs r n \<and> (\<forall>x. hi \<le> x \<and> x < hi + unat n \<longrightarrow> (\<exists>p s. c x = Some (mapped_at hi r s p x)))"
  by (induction xs arbitrary: lo) auto

text \<open>One round of the loop, in an area in use.\<close>

lemma backing_step:
  assumes t: "tiled 0 vs vm_end" and ok: "all_ok vs" and hi: "unat stop \<le> vm_end" and lt: "unat target < unat stop" and nf: "\<not> free_at vs (unat target)"
  shows "\<exists>r n. backing_loop target stop vs acc = backing_loop (target + n) stop vs (acc @ [(r, n)]) \<and> 0 < n \<and> unat (target + n) = unat target + unat n \<and>
    unat (target + n) \<le> unat stop \<and> backs r n \<and>
    (\<forall>x. unat target \<le> x \<and> x < unat target + unat n \<longrightarrow> (\<exists>p s. content vs x = Some (mapped_at (unat target) r s p x)))"
proof -
  obtain xs v ys where v: "vs = xs @ v # ys" "ub v \<le> unat target" "unat target < vend v" using tiled_find [OF t, of "unat target"] lt hi by auto
  have tv: "tiled 0 (xs @ v # ys) vm_end" and okv: "vma_ok v" and ve: "vend v \<le> vm_end" using t ok v(1) tiled_in [OF t, of v] by simp_all
  have "vma_type v \<noteq> VMA_Free" using nf free_at_mid [OF tv v(2,3)] v(1) by simp
  then obtain b off where bm: "backing_memory v = Some (b, off)" "off + unat (vma_size v) \<le> GetSize b" "vma_type v = VMA_BackingMemory"
    using okv by (cases "vma_type v") (auto simp: vma_ok_def)
  define d where "d = unat target - ub v"
  define n where "n = min stop (vma_base v + vma_size v) - target"
  have vw: "unat (vma_base v + vma_size v) = vend v" using ve by (intro vend_word) simp
  have n: "unat n = min (unat stop) (vend v) - unat target" using v(3) lt vw by (auto simp: n_def min_def unat_sub word_le_nat_alt)
  have n0: "0 < unat n" "unat target + unat n \<le> vend v" "unat target + unat n \<le> unat stop" using n v(3) lt by simp_all
  have nt: "unat (target + n) = unat target + unat n" using n0 hi by (simp add: unat_word_ariths)
  have "vma_base v \<le> target" using v(2) by (simp add: word_le_nat_alt)
  then have dd: "unat (target - vma_base v) = d" by (simp add: d_def unat_sub)
  have ds: "d + unat n \<le> unat (vma_size v)" using n0 v(2) by (simp add: d_def vend_def)
  have "ref_plus (backing_memory v) (unat (target - vma_base v)) = Some (Some (b, off + d))"
    using bm ds n0(1) by (simp add: ref_plus_def ref_size_def dd)
  then have "backing_loop target stop vs acc = backing_loop (target + n) stop vs (acc @ [(Some (b, off + d), n)])"
    using FindVMA_mid [OF tv v(2,3)] vma_at_mid [OF tv] v(1) lt bm(3) by (subst backing_loop.simps) (auto simp: n_def Let_def)
  moreover have "content vs x = Some (mapped_at (unat target) (Some (b, off + d)) (meminfo_state v) (vma_permissions v) x)"
    if "unat target \<le> x" "x < vend v" for x
    using content_mid [OF tv, of x] v that bm by (auto simp: attrs_def mapped_at_def d_def)
  moreover have "backs (Some (b, off + d)) n" using ds bm(2) by (simp add: backs_def)
  ultimately show ?thesis using n0 nt
    by (intro exI [of _ "Some (b, off + d)"] exI [of _ n]) (auto simp: word_gt_0 unat_gt_0)
qed

lemma mapped_not_free: "content vs x = Some (mapped_at lo r s p x) \<Longrightarrow> \<not> free_at vs x"
  by (simp add: mapped_at_def)

lemma skip_ex:
  assumes "\<And>x. a \<le> x \<Longrightarrow> x < b \<Longrightarrow> \<not> P x" "a \<le> (b :: nat)"
  shows "(\<exists>x. a \<le> x \<and> x < c \<and> P x) \<longleftrightarrow> (\<exists>x. b \<le> x \<and> x < c \<and> P x)"
  using assms by (meson le_trans not_le)

lemma backing_loop_ok:
  assumes t: "tiled 0 vs vm_end" and ok: "all_ok vs" and hi: "unat stop \<le> vm_end"
  shows "unat target \<le> unat stop \<Longrightarrow> blocks_cover (content vs) lo acc (unat target) \<Longrightarrow>
    (if \<exists>x. unat target \<le> x \<and> x < unat stop \<and> free_at vs x then backing_loop target stop vs acc = Some (Inl ResultInvalidAddressState)
     else \<exists>bs. backing_loop target stop vs acc = Some (Inr bs) \<and> blocks_cover (content vs) lo bs (unat stop))"
proof (induction "unat stop - unat target" arbitrary: target acc rule: less_induct)
  case less
  consider (finished) "target = stop" | (free) "unat target < unat stop" "free_at vs (unat target)" | (more) "unat target < unat stop" "\<not> free_at vs (unat target)"
    using less.prems(1) by (metis le_neq_implies_less word_unat_eq_iff)
  then show ?case
  proof cases
    case finished
    then show ?thesis using less.prems by (auto simp: backing_loop.simps)
  next
    case free
    obtain xs v ys where v: "vs = xs @ v # ys" "ub v \<le> unat target" "unat target < vend v" using tiled_find [OF t, of "unat target"] free(1) hi by auto
    have tv: "tiled 0 (xs @ v # ys) vm_end" using t v(1) by simp
    have "vma_type v = VMA_Free" using free(2) free_at_mid [OF tv v(2,3)] v(1) by simp
    then have "backing_loop target stop vs acc = Some (Inl ResultInvalidAddressState)"
      using FindVMA_mid [OF tv v(2,3)] vma_at_mid [OF tv] v(1) free(1) by (subst backing_loop.simps) auto
    then show ?thesis using free by auto
  next
    case more
    obtain r n where s: "backing_loop target stop vs acc = backing_loop (target + n) stop vs (acc @ [(r, n)])" "0 < n"
      "unat (target + n) = unat target + unat n" "unat (target + n) \<le> unat stop" "backs r n"
      "\<forall>x. unat target \<le> x \<and> x < unat target + unat n \<longrightarrow> (\<exists>p s. content vs x = Some (mapped_at (unat target) r s p x))"
      using backing_step [OF t ok hi more] by blast
    have "blocks_cover (content vs) lo (acc @ [(r, n)]) (unat (target + n))" using less.prems(2) s by (simp add: blocks_cover_append)
    moreover have "(\<exists>x. unat target \<le> x \<and> x < unat stop \<and> free_at vs x) \<longleftrightarrow> (\<exists>x. unat (target + n) \<le> x \<and> x < unat stop \<and> free_at vs x)"
    proof -
      have "\<not> free_at vs x" if h: "unat target \<le> x" "x < unat (target + n)" for x
      proof -
        obtain p st where "content vs x = Some (mapped_at (unat target) r st p x)" using s(3,6) h by auto
        then show ?thesis by (rule mapped_not_free)
      qed
      moreover have "unat target \<le> unat (target + n)" using s(3) by simp
      ultimately show ?thesis by (rule skip_ex)
    qed
    moreover have "unat stop - unat (target + n) < unat stop - unat target" using s(2-4) by (simp add: word_less_nat_alt)
    ultimately show ?thesis unfolding s(1) using less.hyps [of "target + n" "acc @ [(r, n)]"] s(4) by auto
  qed
qed

lemma GetBackingBlocksForRange_ok:
  assumes "vm_inv vm" "good_range target sz"
  shows "if \<exists>x. unat target \<le> x \<and> x < unat target + unat sz \<and> free_at (vma_map vm) x
     then GetBackingBlocksForRange target sz (vma_map vm) = Some (Inl ResultInvalidAddressState)
     else \<exists>bs. GetBackingBlocksForRange target sz (vma_map vm) = Some (Inr bs) \<and> blocks_cover (vm_content vm) (unat target) bs (unat target + unat sz)"
proof -
  note g = good_rangeD [OF assms(2)]
  have "unat (target + sz) \<le> vm_end" "unat target \<le> unat (target + sz)" using g(4-6) by simp_all
  then show ?thesis
    using backing_loop_ok [OF vm_invD(2,3) [OF assms(1)], of "target + sz" target "unat target" "[]"]
    unfolding GetBackingBlocksForRange_def g(6) by simp
qed

end
