(* ===== verification/Vm_Runs.thy ===== *)
theory Vm_Runs
  imports Vm_Ops
begin

text \<open>
  Runs of the manager of an address space, the interface it offers to the kernel, and its properties.
\<close>

section \<open>Calls outside a good range\<close>

lemma no_wrap:
  fixes a b :: u32
  assumes "a \<le> a + b"
  shows "unat (a + b) = unat a + unat b"
proof -
  define x y where "x = unat a" and "y = unat b"
  have xy: "x < 4294967296" "y < 4294967296" using unsigned_less [of a] unsigned_less [of b] by (simp_all add: x_def y_def)
  have s: "unat (a + b) = (x + y) mod 4294967296" by (simp add: unat_word_ariths x_def y_def)
  have "x \<le> (x + y) mod 4294967296" using assms s by (simp add: word_le_nat_alt x_def)
  then have "(x + y) mod 4294967296 = x + y" using xy by (simp add: mod_if split: if_splits)
  then show ?thesis using s by (simp add: x_def y_def)
qed

lemma CarveVMARange_range:
  assumes "CarveVMARange target sz vs = Some r"
  shows "good_range target sz"
proof -
  have g: "page_aligned sz" "page_aligned target" "target \<le> target + sz" "target + sz \<le> MAX_ADDRESS" "0 < sz"
    using assms by (auto simp: CarveVMARange_def Let_def split: if_splits)
  then show ?thesis using no_wrap [OF g(3)] by (simp add: good_range_def word_le_nat_alt)
qed

lemma SplitVMA_guard: "SplitVMA key k vs = Some r \<Longrightarrow> \<exists>v. vma_at key vs = Some v \<and> 0 < k \<and> k < vma_size v"
  by (auto simp: SplitVMA_def split: bind_splits if_splits)

text \<open>A mapping whose range is empty or leaves the address space either fails or aborts.\<close>

lemma CarveVMA_bad:
  assumes t: "tiled 0 vs vm_end" and ok: "all_ok vs" and bad: "\<not> good_range target sz" and c: "CarveVMA target sz vs = Some r"
  shows "\<exists>code. r = Inl code"
proof (rule ccontr)
  assume "\<not> (\<exists>code. r = Inl code)"
  then obtain p where r: "r = Inr p" by (cases r) auto
  have al: "page_aligned sz" "page_aligned target" using c by (auto simp: CarveVMA_def split: if_splits)
  have lt: "target < MAX_ADDRESS" using c r al by (auto simp: CarveVMA_def FindVMA_def split: if_splits)
  then have lo: "unat target < vm_end" by (simp add: word_less_nat_alt)
  obtain us v ws where v: "vs = us @ v # ws" "ub v \<le> unat target" "unat target < vend v" using tiled_find [OF t _ lo] by auto
  have tv: "tiled 0 (us @ v # ws) vm_end" and okv: "vma_ok v" and ve: "vend v \<le> vm_end" using t ok v(1) tiled_in [OF t, of v] by simp_all
  define k where "k = target - vma_base v"
  have k: "unat k = unat target - ub v" using v(2) by (simp add: k_def unat_sub word_le_nat_alt)
  have kv: "unat k < unat (vma_size v)" using k v(2,3) by (simp add: vend_def)
  have f: "FindVMA target vs = Some (Some (vma_base v))" "vma_at (vma_base v) vs = Some v"
    using FindVMA_mid [OF tv v(2,3)] vma_at_mid [OF tv] v(1) by simp_all
  have e: "k + sz \<le> vma_size v" using c r al f by (auto simp: CarveVMA_def k_def [symmetric] Let_def not_less split: if_splits)
  have small: "unat (k + sz) \<le> unat k"
  proof (cases "sz = 0")
    case False
    then have "vm_end < unat target + unat sz" using bad al by (simp add: good_range_def word_gt_0)
    then have "unat (vma_size v) < unat k + unat sz" using ve v(2) k by (simp add: vend_def)
    then have "\<not> k \<le> k + sz" using no_wrap [of k sz] e by (auto simp: word_le_nat_alt)
    then show ?thesis by (simp add: word_le_nat_alt)
  qed simp
  then have ne: "k + sz \<noteq> vma_size v" using kv by auto
  then obtain vs1 where s1: "SplitVMA (vma_base v) (k + sz) vs = Some (vma_base v + (k + sz), vs1)"
    using c r al f e by (auto simp: CarveVMA_def k_def [symmetric] Let_def SplitVMA_def split: if_splits bind_splits)
  then have g1: "0 < k + sz" "k + sz < vma_size v" using SplitVMA_guard [OF s1] f(2) by auto
  have al1: "page_aligned (k + sz)"
  proof -
    have "page_aligned k" using page_aligned_diff [OF al(2), of "vma_base v"] okv v(2) by (simp add: k_def vma_ok_def word_le_nat_alt)
    then show ?thesis using al(1) by (simp add: page_aligned_unat unat_word_ariths dvd_mod_iff)
  qed
  have vs1: "vs1 = us @ left_part v (k + sz) # right_part v (k + sz) # ws"
    using SplitVMA_mid [OF tv order.refl okv al1 g1] s1 v(1) by simp
  have "k \<noteq> 0" using small g1(1) by (auto simp: word_less_nat_alt)
  then obtain q where s2: "SplitVMA (vma_base v) k vs1 = Some q"
    using c r al f e ne s1 by (auto simp: CarveVMA_def k_def [symmetric] Let_def split: if_splits bind_splits)
  have "vma_at (vma_base v) vs1 = Some (left_part v (k + sz))"
    unfolding vs1 vma_at_def by (rule find_mid) (use tiled_bases(3) [OF tv] in auto)
  then have "k < k + sz" using SplitVMA_guard [OF s2] by simp
  then show False using small by (simp add: word_less_nat_alt)
qed

section \<open>Runs\<close>

lemma Reset_ok:
  assumes "\<not> is_locked vm"
  shows "\<exists>vm'. VMManager_Reset vm = Some vm' \<and> vm_inv vm' \<and> same_space vm vm' \<and> vma_map vm' = [initial_vma]"
proof -
  define m where "m = (vm_memory vm)\<lparr>tables := (tables (vm_memory vm))(page_table vm := PageTable_Clear (tables (vm_memory vm) (page_table vm)))\<rparr>"
  define vm1 where "vm1 = vm\<lparr>vma_map := [initial_vma], vm_memory := m\<rparr>"
  have i: "vma_ok initial_vma" "vend initial_vma = vm_end" "0 < vma_size initial_vma" "ub initial_vma = 0"
    by (simp_all add: initial_vma_def vma_ok_def vend_def page_aligned_unat MAX_ADDRESS_def)
  obtain m' where m': "UpdatePageTableForVMA initial_vma vm1 = Some (vm1\<lparr>vm_memory := m'\<rparr>)"
    "\<forall>p. p * CITRA_PAGE_SIZE < vm_end \<longrightarrow> page_agrees (Some (attrs initial_vma (p * CITRA_PAGE_SIZE))) (tables m' (page_table vm1)) p"
    "\<forall>q. q \<noteq> page_table vm1 \<longrightarrow> tables m' q = tables (vm_memory vm1) q"
    using UpdatePageTableForVMA_pages [OF i(1) _ i(3), of vm1] i(2,4) by auto
  have t: "tiled 0 [initial_vma] vm_end" using i by simp
  have "content [initial_vma] x = (if x < vm_end then Some (attrs initial_vma x) else None)" for x
    using content_mid [of 0 "[]" initial_vma "[]" vm_end x] t i by (auto simp: content_def)
  then have "pages_agree [initial_vma] (tables m' (page_table vm))" using m'(2) by (auto simp: pages_agree_def page_agrees_def vm1_def)
  then have "vm_inv (vm1\<lparr>vm_memory := m'\<rparr>)" using t i by (simp add: vm_inv_def vm_core_def vm1_def)
  moreover have "same_space vm (vm1\<lparr>vm_memory := m'\<rparr>)" using m'(3) by (simp add: same_space_def vm1_def m_def)
  moreover have "VMManager_Reset vm = Some (vm1\<lparr>vm_memory := m'\<rparr>)" using assms m'(1) by (simp add: VMManager_Reset_def Let_def vm1_def m_def)
  ultimately show ?thesis by (simp add: vm1_def)
qed

text \<open>Steps: the operations when they return, and whatever happens to memory while this page table is left alone. A mapping is backed by memory of its
  size; only areas in use are protected, as the callers do with an area they have just mapped.\<close>

inductive vm_step :: "VMManager \<Rightarrow> VMManager \<Rightarrow> bool" where
  map: "backs memory sz \<Longrightarrow> MapBackingMemory target memory sz st vm = Some (r, vm') \<Longrightarrow> vm_step vm vm'"
| map_base: "backs memory sz \<Longrightarrow> MapBackingMemoryToBase base region_size memory sz st vm = Some (r, vm') \<Longrightarrow> vm_step vm vm'"
| unmap: "UnmapRange target sz vm = Some (code, vm') \<Longrightarrow> vm_step vm vm'"
| protect_range: "ReprotectRange target sz p vm = Some (code, vm') \<Longrightarrow> vm_step vm vm'"
| protect: "vma_at key (vma_map vm) = Some v \<Longrightarrow> vma_type v \<noteq> VMA_Free \<Longrightarrow> Reprotect key p vm = Some (key', vm') \<Longrightarrow> vm_step vm vm'"
| state: "ChangeMemoryState target sz st p new_st new_p vm = Some (code, vm') \<Longrightarrow> vm_step vm vm'"
| memory: "tables m (page_table vm) = tables (vm_memory vm) (page_table vm) \<Longrightarrow> vm_step vm (vm\<lparr>vm_memory := m\<rparr>)"
| unlock: "vm_step vm (VMManager_Unlock vm)"

inductive vm_reachable :: "VMManager \<Rightarrow> bool" where
  reset: "VMManager_Reset vm = Some vm' \<Longrightarrow> vm_reachable vm'"
| step: "vm_reachable vm \<Longrightarrow> vm_step vm vm' \<Longrightarrow> vm_reachable vm'"

lemma MapBackingMemory_inv:
  assumes inv: "vm_inv vm" and b: "backs memory sz" and r: "MapBackingMemory target memory sz st vm = Some (res, vm')"
  shows "vm_inv vm'"
proof -
  have lk: "\<not> is_locked vm" using r by (auto simp: MapBackingMemory_def split: if_splits)
  note i = vm_invD [OF inv]
  show ?thesis
  proof (cases "good_range target sz")
    case True
    show ?thesis
    proof (cases "\<exists>x. unat target \<le> x \<and> x < unat target + unat sz \<and> \<not> free_at (vma_map vm) x")
      case True
      then show ?thesis using MapBackingMemory_ok(1) [OF inv lk \<open>good_range target sz\<close> b] r inv by simp
    next
      case False
      then show ?thesis using MapBackingMemory_ok(2) [OF inv lk \<open>good_range target sz\<close> b, of st] r by auto
    qed
  next
    case False
    then have "\<exists>code. CarveVMA target sz (vma_map vm) = Some (Inl code)"
      using r CarveVMA_bad [OF i(2,3) False] by (cases "CarveVMA target sz (vma_map vm)") (auto simp: MapBackingMemory_def split: if_splits)
    then show ?thesis using r inv by (auto simp: MapBackingMemory_def split: if_splits)
  qed
qed

lemma vm_step_inv: "vm_step vm vm' \<Longrightarrow> vm_inv vm \<Longrightarrow> vm_inv vm'"
proof (induction rule: vm_step.induct)
  case (map memory sz target st vm r vm')
  then show ?case by (blast intro: MapBackingMemory_inv)
next
  case (map_base memory sz base region_size st vm r vm')
  then show ?case using MapBackingMemory_inv [of vm memory sz]
    by (auto simp: MapBackingMemoryToBase_def Let_def split: if_splits bind_splits)
next
  case (unmap target sz vm code vm')
  have lk: "\<not> is_locked vm" and "\<exists>r. CarveVMARange target sz (vma_map vm) = Some r"
    using unmap(1) by (auto simp: UnmapRange_def split: if_splits bind_splits)
  then have g: "good_range target sz" using CarveVMARange_range by blast
  show ?case using UnmapRange_ok [OF unmap(2) lk g] unmap by (cases "\<exists>x. unat target \<le> x \<and> x < unat target + unat sz \<and> free_at (vma_map vm) x") auto
next
  case (protect_range target sz p vm code vm')
  have lk: "\<not> is_locked vm" and "\<exists>r. CarveVMARange target sz (vma_map vm) = Some r"
    using protect_range(1) by (auto simp: ReprotectRange_def split: if_splits bind_splits)
  then have g: "good_range target sz" using CarveVMARange_range by blast
  show ?case using ReprotectRange_ok [OF protect_range(2) lk g, of p] protect_range
    by (cases "\<exists>x. unat target \<le> x \<and> x < unat target + unat sz \<and> free_at (vma_map vm) x") auto
next
  case (protect key vm v p key' vm')
  have lk: "\<not> is_locked vm" using protect(3) by (auto simp: Reprotect_def split: if_splits)
  have "v \<in> set (vma_map vm)" "vma_base v = key" using protect(1) by (auto simp: vma_at_def find_Some_iff)
  then obtain xs ys where "vma_map vm = xs @ v # ys" by (auto dest: split_list)
  then show ?case using Reprotect_ok [OF protect(4) lk _ protect(2), of xs ys p] protect(3) \<open>vma_base v = key\<close> by auto
next
  case (state target sz st p new_st new_p vm code vm')
  show ?case
  proof (cases "vm' = vm")
    case False
    have lk: "\<not> is_locked vm" and "\<exists>r. CarveVMARange target sz (vma_map vm) = Some r"
      using state(1) False by (auto simp: ChangeMemoryState_def split: if_splits bind_splits option.splits)
    then have g: "good_range target sz" using CarveVMARange_range by blast
    show ?thesis using ChangeMemoryState_ok [OF state(2) lk g, of st p new_st new_p] state(1) False
      by (metis Pair_inject option.inject)
  qed (use state in simp)
next
  case (memory m vm)
  then show ?case by (simp add: vm_inv_def vm_core_def)
next
  case (unlock vm)
  then show ?case by (simp add: VMManager_Unlock_def vm_inv_def vm_core_def)
qed

lemma vm_reachable_inv: "vm_reachable vm \<Longrightarrow> vm_inv vm"
proof (induction rule: vm_reachable.induct)
  case (reset vm vm')
  have "\<not> is_locked vm" using reset by (auto simp: VMManager_Reset_def split: if_splits)
  then show ?case using Reset_ok [of vm] reset by auto
qed (blast intro: vm_step_inv)

end
