(* ===== verification/Vm_Space.thy ===== *)
theory Vm_Space
  imports Vm_Runs
begin

text \<open>
  The interface of an address space as the kernel uses it: a view of what lies at every address, and operations that
  are pointwise updates of the view. The laws are those of the locale \<open>address_space\<close>; the manager of
  \<open>vm_manager.cpp\<close> obeys them.
\<close>

section \<open>The interface\<close>

definition free_range :: "(nat \<Rightarrow> attrs option) \<Rightarrow> u32 \<Rightarrow> u32 \<Rightarrow> bool" where
  "free_range c a n \<longleftrightarrow> (\<forall>x. unat a \<le> x \<and> x < unat a + unat n \<longrightarrow> map_option fst (c x) = Some VMA_Free)"

definition used_range :: "(nat \<Rightarrow> attrs option) \<Rightarrow> u32 \<Rightarrow> u32 \<Rightarrow> bool" where
  "used_range c a n \<longleftrightarrow> (\<forall>x. unat a \<le> x \<and> x < unat a + unat n \<longrightarrow> map_option fst (c x) \<noteq> Some VMA_Free)"

definition with_mapping :: "u32 \<Rightarrow> MemoryRef \<Rightarrow> u32 \<Rightarrow> MemoryState \<Rightarrow> (nat \<Rightarrow> attrs option) \<Rightarrow> nat \<Rightarrow> attrs option" where
  "with_mapping a m n st c x =
     (if unat a \<le> x \<and> x < unat a + unat n then Some (mapped_at (unat a) m st Perm_ReadWrite x) else c x)"

definition with_change :: "(attrs \<Rightarrow> attrs) \<Rightarrow> u32 \<Rightarrow> u32 \<Rightarrow> (nat \<Rightarrow> attrs option) \<Rightarrow> nat \<Rightarrow> attrs option" where
  "with_change g a n c = updated g (unat a) (unat a + unat n) c"

definition disjoint_ranges :: "u32 \<Rightarrow> u32 \<Rightarrow> u32 \<Rightarrow> u32 \<Rightarrow> bool" where
  "disjoint_ranges a n b k \<longleftrightarrow> unat a + unat n \<le> unat b \<or> unat b + unat k \<le> unat a"

locale address_space =
  fixes ready :: "'s \<Rightarrow> bool"
    and look :: "'s \<Rightarrow> nat \<Rightarrow> attrs option"
    and map_memory :: "u32 \<Rightarrow> MemoryRef \<Rightarrow> u32 \<Rightarrow> MemoryState \<Rightarrow> 's \<Rightarrow> ((ResultCode + u32) \<times> 's) option"
    and unmap :: "u32 \<Rightarrow> u32 \<Rightarrow> 's \<Rightarrow> (ResultCode \<times> 's) option"
    and protect :: "u32 \<Rightarrow> u32 \<Rightarrow> VMAPermission \<Rightarrow> 's \<Rightarrow> (ResultCode \<times> 's) option"
  assumes map_free: "ready s \<Longrightarrow> good_range a n \<Longrightarrow> backs m n \<Longrightarrow> free_range (look s) a n \<Longrightarrow>
      \<exists>key s'. map_memory a m n st s = Some (Inr key, s') \<and> ready s' \<and> look s' = with_mapping a m n st (look s)"
    and map_used: "ready s \<Longrightarrow> good_range a n \<Longrightarrow> backs m n \<Longrightarrow> \<not> free_range (look s) a n \<Longrightarrow>
      map_memory a m n st s = Some (Inl ResultInvalidAddressState, s)"
    and unmap_used: "ready s \<Longrightarrow> good_range a n \<Longrightarrow> used_range (look s) a n \<Longrightarrow>
      \<exists>s'. unmap a n s = Some (ResultSuccess, s') \<and> ready s' \<and> look s' = with_change (\<lambda>_. free_attrs) a n (look s)"
    and unmap_free: "ready s \<Longrightarrow> good_range a n \<Longrightarrow> \<not> used_range (look s) a n \<Longrightarrow> unmap a n s = Some (ResultInvalidAddressState, s)"
    and protect_used: "ready s \<Longrightarrow> good_range a n \<Longrightarrow> used_range (look s) a n \<Longrightarrow>
      \<exists>s'. protect a n p s = Some (ResultSuccess, s') \<and> ready s' \<and> look s' = with_change (set_perms p) a n (look s)"
    and protect_free: "ready s \<Longrightarrow> good_range a n \<Longrightarrow> \<not> used_range (look s) a n \<Longrightarrow> protect a n p s = Some (ResultInvalidAddressState, s)"
    and free_look: "ready s \<Longrightarrow> map_option fst (look s x) = Some VMA_Free \<Longrightarrow> look s x = Some free_attrs"
begin

lemma mapped_used: "used_range (with_mapping a m n st c) a n"
  by (simp add: used_range_def with_mapping_def mapped_at_def)

text \<open>What has been mapped can be unmapped, and then the addresses look as before.\<close>

lemma map_unmap:
  assumes "ready s" "good_range a n" "backs m n" "free_range (look s) a n"
  shows "\<exists>key s1 s2. map_memory a m n st s = Some (Inr key, s1) \<and> unmap a n s1 = Some (ResultSuccess, s2) \<and> ready s2 \<and> look s2 = look s"
proof -
  obtain key s1 where s1: "map_memory a m n st s = Some (Inr key, s1)" "ready s1" "look s1 = with_mapping a m n st (look s)"
    using map_free [OF assms] by blast
  moreover obtain s2 where "unmap a n s1 = Some (ResultSuccess, s2)" "ready s2" "look s2 = with_change (\<lambda>_. free_attrs) a n (look s1)"
    using unmap_used [OF s1(2) assms(2)] s1(3) mapped_used by auto
  moreover have "with_change (\<lambda>_. free_attrs) a n (with_mapping a m n st (look s)) x = look s x" for x
    using assms(4) free_look [OF assms(1), of x] by (auto simp: with_change_def updated_def with_mapping_def free_range_def)
  ultimately show ?thesis by auto
qed

lemma map_twice:
  assumes "ready s" "good_range a n" "backs m n" "free_range (look s) a n" "backs m' n"
  shows "\<exists>key s1. map_memory a m n st s = Some (Inr key, s1) \<and> map_memory a m' n st' s1 = Some (Inl ResultInvalidAddressState, s1)"
proof -
  obtain key s1 where s1: "map_memory a m n st s = Some (Inr key, s1)" "ready s1" "look s1 = with_mapping a m n st (look s)"
    using map_free [OF assms(1-4)] by blast
  have "0 < unat n" using good_rangeD(4) [OF assms(2)] by simp
  then have "\<not> free_range (look s1) a n" by (auto simp: s1(3) free_range_def with_mapping_def mapped_at_def)
  then show ?thesis using map_used [OF s1(2) assms(2,5)] s1(1) by blast
qed

text \<open>Mappings of disjoint ranges do not see each other.\<close>

lemma maps_two:
  assumes s: "ready s" and a: "good_range a n" "backs m n" "free_range (look s) a n"
    and b: "good_range b k" "backs m' k" "free_range (look s) b k" and d: "disjoint_ranges a n b k"
  shows "\<exists>key s1 key' s2. map_memory a m n st s = Some (Inr key, s1) \<and> map_memory b m' k st' s1 = Some (Inr key', s2) \<and> ready s2 \<and>
    look s2 = with_mapping b m' k st' (with_mapping a m n st (look s))"
proof -
  obtain key s1 where s1: "map_memory a m n st s = Some (Inr key, s1)" "ready s1" "look s1 = with_mapping a m n st (look s)"
    using map_free [OF s a] by blast
  have "free_range (look s1) b k" using b(3) d by (auto simp: s1(3) free_range_def with_mapping_def disjoint_ranges_def)
  then obtain key' s2 where "map_memory b m' k st' s1 = Some (Inr key', s2)" "ready s2" "look s2 = with_mapping b m' k st' (look s1)"
    using map_free [OF s1(2) b(1,2)] by blast
  then show ?thesis using s1 by simp
qed

lemma maps_commute:
  assumes "ready s" "good_range a n" "backs m n" "free_range (look s) a n" "good_range b k" "backs m' k" "free_range (look s) b k" "disjoint_ranges a n b k"
  shows "\<exists>key1 s1 key2 s2 key3 s3 key4 s4. map_memory a m n st s = Some (Inr key1, s1) \<and> map_memory b m' k st' s1 = Some (Inr key2, s2) \<and>
    map_memory b m' k st' s = Some (Inr key3, s3) \<and> map_memory a m n st s3 = Some (Inr key4, s4) \<and> look s2 = look s4"
proof -
  have d: "disjoint_ranges b k a n" using assms(8) by (auto simp: disjoint_ranges_def)
  have e: "with_mapping b m' k st' (with_mapping a m n st c) = with_mapping a m n st (with_mapping b m' k st' c)" for c
    using assms(8) by (intro ext) (auto simp: with_mapping_def disjoint_ranges_def)
  show ?thesis using maps_two [OF assms, of st st'] maps_two [OF assms(1,5-7,2-4) d, of st' st] unfolding e by metis
qed

text \<open>Protecting what was mapped and unmapping it again restores the view whatever the permissions.\<close>

lemma map_protect_unmap:
  assumes "ready s" "good_range a n" "backs m n" "free_range (look s) a n"
  shows "\<exists>key s1 s2 s3. map_memory a m n st s = Some (Inr key, s1) \<and> protect a n p s1 = Some (ResultSuccess, s2) \<and>
    unmap a n s2 = Some (ResultSuccess, s3) \<and> look s3 = look s"
proof -
  obtain key s1 where s1: "map_memory a m n st s = Some (Inr key, s1)" "ready s1" "look s1 = with_mapping a m n st (look s)"
    using map_free [OF assms] by blast
  have u1: "used_range (look s1) a n" using mapped_used s1(3) by simp
  obtain s2 where s2: "protect a n p s1 = Some (ResultSuccess, s2)" "ready s2" "look s2 = with_change (set_perms p) a n (look s1)"
    using protect_used [OF s1(2) assms(2) u1] by blast
  have "used_range (look s2) a n"
    by (auto simp: s2(3) s1(3) used_range_def with_change_def updated_def with_mapping_def mapped_at_def set_perms_def)
  then obtain s3 where s3: "unmap a n s2 = Some (ResultSuccess, s3)" "look s3 = with_change (\<lambda>_. free_attrs) a n (look s2)"
    using unmap_used [OF s2(2) assms(2)] by blast
  have "look s3 x = look s x" for x
    using assms(4) free_look [OF assms(1), of x]
    by (auto simp: s3(2) s2(3) s1(3) with_change_def updated_def with_mapping_def free_range_def)
  then show ?thesis using s1(1) s2(1) s3(1) by auto
qed

end

section \<open>The manager provides it\<close>

definition unlocked_space :: "VMManager \<Rightarrow> bool" where
  "unlocked_space vm \<longleftrightarrow> vm_inv vm \<and> \<not> is_locked vm"

lemma free_content:
  assumes "vm_inv vm" "free_at (vma_map vm) x"
  shows "vm_content vm x = Some free_attrs"
proof -
  note i = vm_invD [OF assms(1)]
  have "x < vm_end" using content_outside [OF i(2), of x] assms(2) by (cases "x < vm_end") auto
  then obtain xs v ys where v: "vma_map vm = xs @ v # ys" "ub v \<le> x" "x < vend v" using tiled_find [OF i(2), of x] by auto
  then have "vm_content vm x = Some (attrs v x)" using content_mid [of 0 xs v ys vm_end x] i(2) by simp
  moreover have "vma_ok v" "vma_type v = VMA_Free" using i(2,3) v assms(2) free_at_mid [of 0 xs v ys vm_end x] by auto
  ultimately show ?thesis by (simp add: attrs_def vma_ok_def)
qed

lemma same_space_locked: "same_space vm vm' \<Longrightarrow> is_locked vm' = is_locked vm"
  by (simp add: same_space_def)

interpretation vs: address_space unlocked_space vm_content MapBackingMemory UnmapRange ReprotectRange
proof (unfold_locales, goal_cases)
  case (1 s a n m st)
  have vm: "vm_inv s" "\<not> is_locked s" using 1(1) by (simp_all add: unlocked_space_def)
  obtain vm' key where "MapBackingMemory a m n st s = Some (Inr key, vm')" "vm_inv vm'" "same_space s vm'"
    "vm_content vm' = with_mapping a m n st (vm_content s)"
    using MapBackingMemory_ok(2) [OF vm 1(2,3), of st] 1(4) unfolding free_range_def with_mapping_def fun_eq_iff by blast
  then show ?case using same_space_locked [of s vm'] vm(2) unfolding unlocked_space_def by blast
next
  case (2 s a n m st)
  then show ?case using MapBackingMemory_ok(1) [of s a n m st] by (simp add: free_range_def unlocked_space_def)
next
  case (3 s a n)
  have vm: "vm_inv s" "\<not> is_locked s" using 3(1) by (simp_all add: unlocked_space_def)
  obtain vm' where "UnmapRange a n s = Some (ResultSuccess, vm')" "vm_inv vm'" "same_space s vm'"
    "vm_content vm' = with_change (\<lambda>_. free_attrs) a n (vm_content s)"
    using UnmapRange_ok(2) [OF vm 3(2)] 3(3) unfolding used_range_def with_change_def fun_eq_iff by blast
  then show ?case using same_space_locked [of s vm'] vm(2) unfolding unlocked_space_def by blast
next
  case (4 s a n)
  then show ?case using UnmapRange_ok(1) [of s a n] by (simp add: used_range_def unlocked_space_def)
next
  case (5 s a n p)
  have vm: "vm_inv s" "\<not> is_locked s" using 5(1) by (simp_all add: unlocked_space_def)
  obtain vm' where "ReprotectRange a n p s = Some (ResultSuccess, vm')" "vm_inv vm'" "same_space s vm'"
    "vm_content vm' = with_change (set_perms p) a n (vm_content s)"
    using ReprotectRange_ok(2) [OF vm 5(2), of p] 5(3) unfolding used_range_def with_change_def fun_eq_iff by blast
  then show ?case using same_space_locked [of s vm'] vm(2) unfolding unlocked_space_def by blast
next
  case (6 s a n p)
  then show ?case using ReprotectRange_ok(1) [of s a n p] by (simp add: used_range_def unlocked_space_def)
next
  case (7 s x)
  then show ?case unfolding unlocked_space_def by (blast intro: free_content)
qed

end
