(* ===== verification/Vm_Contract.thy ===== *)
theory Vm_Contract
  imports Vm_Space
begin

text \<open>
  What the manager of an address space promises, for every space that can be reached.
\<close>

section \<open>An example\<close>

definition demo_space :: VMManager where
  "demo_space = the (VMManager_Reset \<lparr>vma_map = [], page_table = 0, is_locked = False, vm_memory = heap_memory (\<lambda>_. 0)\<rparr>)"

lemma demo_space:
  shows "vm_reachable demo_space" "\<not> is_locked demo_space" "vma_map demo_space = [initial_vma]"
proof -
  define vm where "vm = \<lparr>vma_map = [], page_table = 0, is_locked = False, vm_memory = heap_memory (\<lambda>_. 0)\<rparr>"
  obtain vm' where vm': "VMManager_Reset vm = Some vm'" "same_space vm vm'" "vma_map vm' = [initial_vma]"
    using Reset_ok [of vm] by (auto simp: vm_def)
  then have e: "demo_space = vm'" by (simp add: demo_space_def vm_def)
  show "vm_reachable demo_space" using vm_reachable.reset vm'(1) e by blast
  show "\<not> is_locked demo_space" "vma_map demo_space = [initial_vma]" using vm'(2,3) e by (simp_all add: same_space_def vm_def)
qed

lemma demo_free: "good_range a n \<Longrightarrow> free_range (vm_content demo_space) a n"
  by (auto simp: demo_space(3) good_range_def free_range_def content_def attrs_def initial_vma_def vend_def MAX_ADDRESS_def)

lemma demo_args: "good_range 0x8000000 0x3000" "backs (Some (FCRAM, 0x1000)) 0x3000"
  by (simp_all add: good_range_def page_aligned_unat backs_def)

lemma demo_mapped:
  "\<exists>key vm. MapBackingMemory 0x8000000 (Some (FCRAM, 0x1000)) 0x3000 MS_Private demo_space = Some (Inr key, vm) \<and> vm_reachable vm \<and>
    vm_content vm = with_mapping 0x8000000 (Some (FCRAM, 0x1000)) 0x3000 MS_Private (vm_content demo_space)"
proof -
  have "unlocked_space demo_space" using demo_space vm_reachable_inv by (simp add: unlocked_space_def)
  then obtain key vm where r: "MapBackingMemory 0x8000000 (Some (FCRAM, 0x1000)) 0x3000 MS_Private demo_space = Some (Inr key, vm)"
    "vm_content vm = with_mapping 0x8000000 (Some (FCRAM, 0x1000)) 0x3000 MS_Private (vm_content demo_space)"
    using vs.map_free [of demo_space] demo_args demo_free by blast
  moreover have "vm_reachable vm" using vm_reachable.step [OF demo_space(1) vm_step.map [OF demo_args(2) r(1)]] .
  ultimately show ?thesis by blast
qed

section \<open>Properties\<close>

lemma no_two_areas:
  assumes t: "tiled a vs b" and v: "v \<in> set vs" "ub v \<le> x" "x < vend v" and w: "w \<in> set vs" "ub w \<le> x" "x < vend w"
  shows "v = w"
proof -
  obtain xs ys where vs: "vs = xs @ v # ys" using v(1) by (auto dest: split_list)
  have "tiled a xs (ub v)" "tiled (vend v) ys b" using t vs by (simp_all add: tiled_mid)
  then have "w \<in> set xs \<Longrightarrow> vend w \<le> ub v" "w \<in> set ys \<Longrightarrow> vend v \<le> ub w" using tiled_in by blast+
  then show ?thesis using vs v w by auto
qed

text \<open>
  C16: In every address space that can be reached, every address below 0x40000000 lies in exactly one area, areas follow each other
  without gaps, two free areas are never neighbours, and the page table agrees with the areas page by page: pages of free areas are unmapped and pages
  of areas in use point at the memory behind their addresses, unless the rasterizer has taken them over.
\<close>

theorem address_space_is_tiled:
  assumes "vm_reachable vm"
  shows "(\<forall>x < 0x40000000. \<exists>!v. v \<in> set (vma_map vm) \<and> unat (vma_base v) \<le> x \<and> x < unat (vma_base v) + unat (vma_size v)) \<and>
    (\<forall>xs v w ys. vma_map vm = xs @ v # w # ys \<longrightarrow> vma_base v + vma_size v = vma_base w \<and> \<not> (vma_type v = VMA_Free \<and> vma_type w = VMA_Free)) \<and>
    (\<forall>v p. v \<in> set (vma_map vm) \<and> unat (vma_base v) \<le> p * CITRA_PAGE_SIZE \<and> p * CITRA_PAGE_SIZE < unat (vma_base v) + unat (vma_size v) \<longrightarrow>
      (let t = tables (vm_memory vm) (page_table vm) in
       case vma_type v of
         VMA_Free \<Rightarrow> attributes t p = Unmapped \<and> pointers t p = None
       | VMA_BackingMemory \<Rightarrow> (\<exists>b off. backing_memory v = Some (b, off) \<and>
           (attributes t p = Memory \<and> pointers t p = Some (b, off + (p * CITRA_PAGE_SIZE - unat (vma_base v))) \<or>
            attributes t p = RasterizerCachedMemory \<and> pointers t p = None))))"
proof (intro conjI allI impI)
  note i = vm_invD [OF vm_reachable_inv [OF assms]]
  show "\<exists>!v. v \<in> set (vma_map vm) \<and> unat (vma_base v) \<le> x \<and> x < unat (vma_base v) + unat (vma_size v)" if h: "x < 0x40000000" for x
  proof -
    obtain xs v ys where "vma_map vm = xs @ v # ys" "ub v \<le> x" "x < vend v" using tiled_find [OF i(2), of x] h by auto
    then show ?thesis unfolding vend_def [symmetric] using no_two_areas [OF i(2)] by (intro ex1I [of _ v]) auto
  qed
  show "vma_base v + vma_size v = vma_base w" if "vma_map vm = xs @ v # w # ys" for xs v w ys
    using tiled_adjacent(1) [of 0 xs v w ys vm_end] i(2) that by simp
  show "\<not> (vma_type v = VMA_Free \<and> vma_type w = VMA_Free)" if "vma_map vm = xs @ v # w # ys" for xs v w ys
    using i(4) that by (simp add: free_merged_append free_merged_Cons)
  fix v p
  assume h: "v \<in> set (vma_map vm) \<and> unat (vma_base v) \<le> p * CITRA_PAGE_SIZE \<and> p * CITRA_PAGE_SIZE < unat (vma_base v) + unat (vma_size v)"
  let ?t = "tables (vm_memory vm) (page_table vm)"
  obtain xs ys where "vma_map vm = xs @ v # ys" using h by (auto dest: split_list)
  then have "vm_content vm (p * CITRA_PAGE_SIZE) = Some (attrs v (p * CITRA_PAGE_SIZE))"
    using content_mid [of 0 xs v ys vm_end "p * CITRA_PAGE_SIZE"] i(2) h by (simp add: vend_def)
  then have "page_agrees (Some (attrs v (p * CITRA_PAGE_SIZE))) ?t p" using i(5) unfolding pages_agree_def by metis
  moreover have "vma_ok v" using i(3) h by blast
  ultimately show "let t = ?t in case vma_type v of
         VMA_Free \<Rightarrow> attributes t p = Unmapped \<and> pointers t p = None
       | VMA_BackingMemory \<Rightarrow> (\<exists>b off. backing_memory v = Some (b, off) \<and>
           (attributes t p = Memory \<and> pointers t p = Some (b, off + (p * CITRA_PAGE_SIZE - unat (vma_base v))) \<or>
            attributes t p = RasterizerCachedMemory \<and> pointers t p = None))"
    by (auto simp: Let_def page_agrees_def attrs_def entry_is_def vma_ok_def split: VMAType.splits)
qed

theorem address_space_is_tiled_witness:
  "\<exists>key vm. MapBackingMemory 0x8000000 (Some (FCRAM, 0x1000)) 0x3000 MS_Private demo_space = Some (Inr key, vm) \<and>
    (\<exists>!v. v \<in> set (vma_map vm) \<and> unat (vma_base v) \<le> 0x8001000 \<and> 0x8001000 < unat (vma_base v) + unat (vma_size v))"
proof -
  obtain key vm where r: "MapBackingMemory 0x8000000 (Some (FCRAM, 0x1000)) 0x3000 MS_Private demo_space = Some (Inr key, vm)" "vm_reachable vm"
    using demo_mapped by blast
  then have "\<exists>!v. v \<in> set (vma_map vm) \<and> unat (vma_base v) \<le> 0x8001000 \<and> 0x8001000 < unat (vma_base v) + unat (vma_size v)"
    using conjunct1 [OF address_space_is_tiled [of vm]] by simp
  then show ?thesis using r by blast
qed

text \<open>
  C17: Mapping memory, unmapping, protecting and changing the state of a range are pointwise updates of what lies at the addresses,
  however the areas are cut. Each succeeds exactly when the whole range is free (mapping), in use (the others), or in use and in the expected state; a refusal
  returns the invalid state error and changes nothing.
\<close>

theorem operations_refine_updates:
  assumes "vm_reachable vm" "\<not> is_locked vm" "good_range a n" "backs m n"
  shows "(if free_range (vm_content vm) a n
      then \<exists>key vm'. MapBackingMemory a m n st vm = Some (Inr key, vm') \<and> vm_content vm' = with_mapping a m n st (vm_content vm)
      else MapBackingMemory a m n st vm = Some (Inl ResultInvalidAddressState, vm)) \<and>
    (if used_range (vm_content vm) a n
      then (\<exists>vm'. UnmapRange a n vm = Some (ResultSuccess, vm') \<and> vm_content vm' = with_change (\<lambda>_. free_attrs) a n (vm_content vm)) \<and>
        (\<exists>vm'. ReprotectRange a n p vm = Some (ResultSuccess, vm') \<and> vm_content vm' = with_change (set_perms p) a n (vm_content vm))
      else UnmapRange a n vm = Some (ResultInvalidAddressState, vm) \<and> ReprotectRange a n p vm = Some (ResultInvalidAddressState, vm)) \<and>
    (if \<forall>x c. unat a \<le> x \<and> x < unat a + unat n \<and> vm_content vm x = Some c \<longrightarrow> in_state st p c \<and> fst c \<noteq> VMA_Free
      then \<exists>vm'. ChangeMemoryState a n st p st' p' vm = Some (ResultSuccess, vm') \<and> vm_content vm' = with_change (set_state st' p') a n (vm_content vm)
      else ChangeMemoryState a n st p st' p' vm = Some (ResultInvalidAddressState, vm))"
proof -
  have inv: "vm_inv vm" and u: "unlocked_space vm" using assms(1,2) vm_reachable_inv by (simp_all add: unlocked_space_def)
  have "\<exists>vm'. ChangeMemoryState a n st p st' p' vm = Some (ResultSuccess, vm') \<and> vm_content vm' = with_change (set_state st' p') a n (vm_content vm)"
    if "\<forall>x c. unat a \<le> x \<and> x < unat a + unat n \<and> vm_content vm x = Some c \<longrightarrow> in_state st p c \<and> fst c \<noteq> VMA_Free"
    using ChangeMemoryState_ok(2) [OF inv assms(2,3), of st p st' p'] that unfolding with_change_def fun_eq_iff by blast
  moreover have "ChangeMemoryState a n st p st' p' vm = Some (ResultInvalidAddressState, vm)"
    if "\<not> (\<forall>x c. unat a \<le> x \<and> x < unat a + unat n \<and> vm_content vm x = Some c \<longrightarrow> in_state st p c \<and> fst c \<noteq> VMA_Free)"
    using ChangeMemoryState_ok(1) [OF inv assms(2,3), of st p st' p'] that by blast
  ultimately show ?thesis
    using vs.map_free [OF u assms(3,4), of st] vs.map_used [OF u assms(3,4), of st] vs.unmap_used [OF u assms(3)] vs.unmap_free [OF u assms(3)]
      vs.protect_used [OF u assms(3), of p] vs.protect_free [OF u assms(3), of p] unfolding if_bool_eq_conj by blast
qed

theorem operations_refine_updates_witness:
  "\<exists>key vm. MapBackingMemory 0x8000000 (Some (FCRAM, 0x1000)) 0x3000 MS_Private demo_space = Some (Inr key, vm) \<and>
    vm_content vm 0x8001004 = Some (VMA_BackingMemory, Perm_ReadWrite, MS_Private, Some (FCRAM, 0x2004)) \<and> vm_content vm 0x8003000 = Some free_attrs"
proof -
  have "vm_content demo_space 0x8003000 = Some free_attrs"
    by (simp add: demo_space(3) content_def attrs_def initial_vma_def vend_def MAX_ADDRESS_def)
  then show ?thesis
    using conjunct1 [OF operations_refine_updates [OF demo_space(1,2) demo_args, of MS_Private 0 MS_Free 0]] demo_free [OF demo_args(1)]
    by (auto simp: with_mapping_def mapped_at_def)
qed

text \<open>
  Memory that has been mapped can be protected and unmapped again, whatever its neighbours, and afterwards every address looks as before.
\<close>

theorem map_protect_unmap_restores:
  assumes "vm_reachable vm" "\<not> is_locked vm" "good_range a n" "backs m n" "free_range (vm_content vm) a n"
  shows "\<exists>key vm1 vm2 vm3. MapBackingMemory a m n st vm = Some (Inr key, vm1) \<and> ReprotectRange a n p vm1 = Some (ResultSuccess, vm2) \<and>
    UnmapRange a n vm2 = Some (ResultSuccess, vm3) \<and> vm_content vm3 = vm_content vm"
  using vs.map_protect_unmap [of vm a n m st p] assms vm_reachable_inv by (simp add: unlocked_space_def)

theorem map_protect_unmap_restores_witness:
  "\<exists>key vm1 vm2 vm3. MapBackingMemory 0x8000000 (Some (FCRAM, 0x1000)) 0x3000 MS_Private demo_space = Some (Inr key, vm1) \<and>
    ReprotectRange 0x8000000 0x3000 Perm_Read vm1 = Some (ResultSuccess, vm2) \<and>
    UnmapRange 0x8000000 0x3000 vm2 = Some (ResultSuccess, vm3) \<and> vm_content vm3 = vm_content demo_space"
  by (rule map_protect_unmap_restores [OF demo_space(1,2) demo_args demo_free [OF demo_args(1)]])

text \<open>
  Mappings of disjoint free ranges can be made in either order, with the same result.
\<close>

theorem disjoint_mappings_commute:
  assumes "vm_reachable vm" "\<not> is_locked vm" "good_range a n" "backs m n" "free_range (vm_content vm) a n"
    "good_range b k" "backs m' k" "free_range (vm_content vm) b k" "disjoint_ranges a n b k"
  shows "\<exists>key1 vm1 key2 vm2 key3 vm3 key4 vm4. MapBackingMemory a m n st vm = Some (Inr key1, vm1) \<and> MapBackingMemory b m' k st' vm1 = Some (Inr key2, vm2) \<and>
    MapBackingMemory b m' k st' vm = Some (Inr key3, vm3) \<and> MapBackingMemory a m n st vm3 = Some (Inr key4, vm4) \<and> vm_content vm2 = vm_content vm4"
  using vs.maps_commute [of vm a n m b k m' st st'] assms vm_reachable_inv by (simp add: unlocked_space_def)

theorem disjoint_mappings_commute_witness:
  "\<exists>key1 vm1 key2 vm2 key3 vm3 key4 vm4. MapBackingMemory 0x8000000 (Some (FCRAM, 0x1000)) 0x3000 MS_Private demo_space = Some (Inr key1, vm1) \<and>
    MapBackingMemory 0x8003000 (Some (FCRAM, 0x4000)) 0x1000 MS_Private vm1 = Some (Inr key2, vm2) \<and>
    MapBackingMemory 0x8003000 (Some (FCRAM, 0x4000)) 0x1000 MS_Private demo_space = Some (Inr key3, vm3) \<and>
    MapBackingMemory 0x8000000 (Some (FCRAM, 0x1000)) 0x3000 MS_Private vm3 = Some (Inr key4, vm4) \<and> vm_content vm2 = vm_content vm4"
proof -
  have g: "good_range 0x8003000 0x1000" by (simp add: good_range_def page_aligned_unat)
  show ?thesis
    by (rule disjoint_mappings_commute [OF demo_space(1,2) demo_args demo_free [OF demo_args(1)] g _ demo_free [OF g]])
      (simp_all add: backs_def disjoint_ranges_def)
qed

text \<open>
  The backing blocks of a range are found exactly when the whole range is in use; then they cover it from its first to its last address, in order
  and without empty blocks, and each block is the memory behind the addresses it covers.
\<close>

theorem backing_blocks_cover_the_range:
  assumes "vm_reachable vm" "good_range a n"
  shows "if used_range (vm_content vm) a n
    then \<exists>bs. GetBackingBlocksForRange a n (vma_map vm) = Some (Inr bs) \<and> blocks_cover (vm_content vm) (unat a) bs (unat a + unat n)
    else GetBackingBlocksForRange a n (vma_map vm) = Some (Inl ResultInvalidAddressState)"
  using GetBackingBlocksForRange_ok [OF vm_reachable_inv [OF assms(1)] assms(2)] unfolding used_range_def by presburger

theorem backing_blocks_cover_the_range_witness:
  "\<exists>key vm bs. MapBackingMemory 0x8000000 (Some (FCRAM, 0x1000)) 0x3000 MS_Private demo_space = Some (Inr key, vm) \<and>
    GetBackingBlocksForRange 0x8001000 0x2000 (vma_map vm) = Some (Inr bs) \<and> blocks_cover (vm_content vm) 0x8001000 bs 0x8003000"
proof -
  obtain key vm where r: "MapBackingMemory 0x8000000 (Some (FCRAM, 0x1000)) 0x3000 MS_Private demo_space = Some (Inr key, vm)" "vm_reachable vm"
    "vm_content vm = with_mapping 0x8000000 (Some (FCRAM, 0x1000)) 0x3000 MS_Private (vm_content demo_space)"
    using demo_mapped by blast
  have "used_range (vm_content vm) 0x8001000 0x2000" by (simp add: r(3) used_range_def with_mapping_def mapped_at_def)
  moreover have "good_range 0x8001000 0x2000" by (simp add: good_range_def page_aligned_unat)
  ultimately show ?thesis using backing_blocks_cover_the_range [OF r(2)] r(1) by fastforce
qed

end
