(* ===== verification/Interval_Set.thy ===== *)
theory Interval_Set
  imports Prelude
begin

text \<open>
  \<open>boost::icl::interval_set<u32>\<close>, which the memory regions of the kernel use, is not part of the repository: its operations are the record \<open>icl\<close>,
  its documented behaviour the locale \<open>interval_sets\<close>. An interval \<open>(l, u)\<close> is open on the right; it is empty when \<open>l \<ge> u\<close>.
  Iterating a set gives its maximal intervals in ascending order. Sets kept as lists of such intervals obey the laws.
\<close>

section \<open>Interface\<close>

type_synonym interval = "u32 \<times> u32"

record 'i icl =
  icl_empty :: 'i
  icl_add :: "'i \<Rightarrow> interval \<Rightarrow> 'i"
  icl_subtract :: "'i \<Rightarrow> interval \<Rightarrow> 'i"
  icl_contains :: "'i \<Rightarrow> interval \<Rightarrow> bool"
  icl_intersects :: "'i \<Rightarrow> interval \<Rightarrow> bool"
  icl_blocks :: "'i \<Rightarrow> interval list"

abbreviation span :: "interval \<Rightarrow> u32 set" where "span iv \<equiv> {fst iv..<snd iv}"

definition spans :: "interval list \<Rightarrow> u32 set" where "spans bs = (\<Union>iv \<in> set bs. span iv)"

lemma spans_simps [simp]: "spans [] = {}" "spans (iv # bs) = span iv \<union> spans bs" "spans (xs @ ys) = spans xs \<union> spans ys" "spans (rev bs) = spans bs"
  by (auto simp: spans_def)

abbreviation points :: "'i icl \<Rightarrow> 'i \<Rightarrow> u32 set" where "points ops s \<equiv> spans (icl_blocks ops s)"

text \<open>Adding and removing a whole set.\<close>

definition icl_add_set :: "'i icl \<Rightarrow> 'i \<Rightarrow> 'i \<Rightarrow> 'i" where
  "icl_add_set ops s t = foldl (icl_add ops) s (icl_blocks ops t)"

definition icl_subtract_set :: "'i icl \<Rightarrow> 'i \<Rightarrow> 'i \<Rightarrow> 'i" where
  "icl_subtract_set ops s t = foldl (icl_subtract ops) s (icl_blocks ops t)"

definition well_spaced :: "interval list \<Rightarrow> bool" where
  "well_spaced bs \<longleftrightarrow> sorted_wrt (\<lambda>iv jv. snd iv < fst jv) bs \<and> (\<forall>iv \<in> set bs. fst iv < snd iv)"

locale interval_sets =
  fixes ops :: "'i icl"
  assumes blocks_well_spaced: "well_spaced (icl_blocks ops s)"
    and points_empty: "icl_blocks ops (icl_empty ops) = []"
    and points_add: "points ops (icl_add ops s iv) = points ops s \<union> span iv"
    and points_subtract: "points ops (icl_subtract ops s iv) = points ops s - span iv"
    and contains_iff: "icl_contains ops s iv \<longleftrightarrow> span iv \<subseteq> points ops s"
    and intersects_iff: "icl_intersects ops s iv \<longleftrightarrow> span iv \<inter> points ops s \<noteq> {}"
begin

lemma points_add_all: "points ops (foldl (icl_add ops) s bs) = points ops s \<union> spans bs"
  by (induction bs arbitrary: s) (simp_all add: points_add Un_assoc)

lemma points_subtract_all: "points ops (foldl (icl_subtract ops) s bs) = points ops s - spans bs"
  by (induction bs arbitrary: s) (simp_all add: points_subtract Diff_eq Int_assoc)

lemma points_add_set: "points ops (icl_add_set ops s t) = points ops s \<union> points ops t"
  by (simp add: icl_add_set_def points_add_all)

lemma points_subtract_set: "points ops (icl_subtract_set ops s t) = points ops s - points ops t"
  by (simp add: icl_subtract_set_def points_subtract_all)

end

section \<open>Canonical lists\<close>

lemma well_spaced_simps [simp]: "well_spaced []" "well_spaced (iv # bs) \<longleftrightarrow> fst iv < snd iv \<and> (\<forall>jv \<in> set bs. snd iv < fst jv) \<and> well_spaced bs"
  by (auto simp: well_spaced_def)

lemma well_spaced_append: "well_spaced (xs @ ys) \<longleftrightarrow> well_spaced xs \<and> well_spaced ys \<and> (\<forall>iv \<in> set xs. \<forall>jv \<in> set ys. snd iv < fst jv)"
  by (auto simp: well_spaced_def sorted_wrt_append)

lemma well_spaced_filter: "well_spaced bs \<Longrightarrow> well_spaced (filter P bs)"
  by (simp add: well_spaced_def sorted_wrt_filter)

lemma spans_bounds:
  "well_spaced (iv # bs) \<Longrightarrow> x \<in> spans bs \<Longrightarrow> snd iv < x"
  by (auto simp: spans_def dest: less_le_trans)

lemma well_spaced_blocks:
  assumes "well_spaced bs" "iv \<in> set bs" "jv \<in> set bs"
  shows "iv = jv \<or> snd iv < fst jv \<or> snd jv < fst iv" "fst iv < snd iv"
proof -
  obtain xs ys where bs: "bs = xs @ iv # ys" using assms(2) by (auto dest: split_list)
  then show "iv = jv \<or> snd iv < fst jv \<or> snd jv < fst iv" "fst iv < snd iv" using assms(1,3) by (auto simp: well_spaced_append)
qed

text \<open>An interval without gaps lies in one block.\<close>

lemma interval_in_block:
  assumes "well_spaced bs" "l < u" "{l..<u} \<subseteq> spans bs"
  shows "\<exists>iv \<in> set bs. fst iv \<le> l \<and> u \<le> snd iv"
proof -
  obtain iv where iv: "iv \<in> set bs" "fst iv \<le> l" "l < snd iv" using assms(2,3) by (auto simp: spans_def subset_iff)
  have "u \<le> snd iv"
  proof (rule ccontr)
    assume n: "\<not> u \<le> snd iv"
    then have "snd iv \<in> spans bs" using assms(3) iv(3) by (simp add: subset_iff less_imp_le not_le)
    then obtain jv where jv: "jv \<in> set bs" "fst jv \<le> snd iv" "snd iv < snd jv" by (auto simp: spans_def)
    then show False using well_spaced_blocks(1) [OF assms(1) iv(1) jv(1)] iv(2,3) by auto
  qed
  then show ?thesis using iv by blast
qed

section \<open>Sets as lists\<close>

definition list_add :: "interval \<Rightarrow> interval list \<Rightarrow> interval list" where
  "list_add iv bs =
     (if fst iv \<ge> snd iv then bs
      else
        let touching = filter (\<lambda>jv. fst jv \<le> snd iv \<and> fst iv \<le> snd jv) bs
        in filter (\<lambda>jv. snd jv < fst iv) bs
           @ (Min (set (fst iv # map fst touching)), Max (set (snd iv # map snd touching))) # filter (\<lambda>jv. snd iv < fst jv) bs)"

definition cut_block :: "interval \<Rightarrow> interval \<Rightarrow> interval list" where
  "cut_block iv jv = (if fst jv < fst iv then [(fst jv, min (snd jv) (fst iv))] else []) @ (if snd iv < snd jv then [(max (fst jv) (snd iv), snd jv)] else [])"

definition list_subtract :: "interval \<Rightarrow> interval list \<Rightarrow> interval list" where
  "list_subtract iv bs = (if fst iv \<ge> snd iv then bs else concat (map (cut_block iv) bs))"

lemma list_add_points:
  assumes "well_spaced bs"
  shows "spans (list_add iv bs) = spans bs \<union> span iv" "well_spaced (list_add iv bs)"
proof -
  define ts where "ts = filter (\<lambda>jv. fst jv \<le> snd iv \<and> fst iv \<le> snd jv) bs"
  define l u where "l = Min (set (fst iv # map fst ts))" and "u = Max (set (snd iv # map snd ts))"
  have l: "l \<le> fst iv" "\<And>jv. jv \<in> set ts \<Longrightarrow> l \<le> fst jv" "l \<in> insert (fst iv) (fst ` set ts)"
    unfolding l_def using Min_in [of "set (fst iv # map fst ts)"] by auto
  have u: "snd iv \<le> u" "\<And>jv. jv \<in> set ts \<Longrightarrow> snd jv \<le> u" "u \<in> insert (snd iv) (snd ` set ts)"
    unfolding u_def using Max_in [of "set (snd iv # map snd ts)"] by auto
  have e: "list_add iv bs = filter (\<lambda>jv. snd jv < fst iv) bs @ (l, u) # filter (\<lambda>jv. snd iv < fst jv) bs" if "fst iv < snd iv"
    using that by (simp add: list_add_def Let_def l_def u_def ts_def)
  have "x \<in> spans (list_add iv bs) \<longleftrightarrow> x \<in> spans bs \<union> span iv" if h: "fst iv < snd iv" for x
  proof
    assume "x \<in> spans (list_add iv bs)"
    then consider "x \<in> spans bs" | "l \<le> x" "x < u" unfolding e [OF h] by (force simp: spans_def)
    then show "x \<in> spans bs \<union> span iv"
    proof cases
      case 2
      consider "x < fst iv" | "x \<in> span iv" | "snd iv \<le> x" by fastforce
      then show ?thesis
      proof cases
        case 1
        then obtain jv where "jv \<in> set ts" "fst jv \<le> x" using l(3) 2(1) by auto
        then show ?thesis using 1 by (auto simp: ts_def spans_def intro!: bexI [of _ jv])
      next
        case 3
        then obtain jv where "jv \<in> set ts" "x < snd jv" using u(3) 2(2) by auto
        then show ?thesis using 3 by (auto simp: ts_def spans_def intro!: bexI [of _ jv])
      qed simp
    qed simp
  next
    assume "x \<in> spans bs \<union> span iv"
    then consider jv where "jv \<in> set bs" "fst jv \<le> x" "x < snd jv" | "x \<in> span iv" by (auto simp: spans_def)
    then show "x \<in> spans (list_add iv bs)"
    proof cases
      case 1
      then show ?thesis unfolding e [OF h] using l(2) [of jv] u(2) [of jv] by (cases "jv \<in> set ts") (auto simp: ts_def spans_def)
    next
      case 2
      then show ?thesis unfolding e [OF h] using l(1) u(1) by auto
    qed
  qed
  then have "fst iv < snd iv \<Longrightarrow> spans (list_add iv bs) = spans bs \<union> span iv" by blast
  then show "spans (list_add iv bs) = spans bs \<union> span iv"
    by (cases "fst iv < snd iv") (simp_all add: list_add_def)
  have "well_spaced (list_add iv bs)" if h: "fst iv < snd iv"
  proof -
    have a: "snd jv < l" if "jv \<in> set bs" "snd jv < fst iv" for jv
    proof (cases "l = fst iv")
      case False
      then obtain kv where kv: "kv \<in> set bs" "l = fst kv" "fst iv \<le> snd kv" using l(3) by (auto simp: ts_def)
      then show ?thesis using well_spaced_blocks [OF assms \<open>jv \<in> set bs\<close> kv(1)] that by auto
    qed (use that in simp)
    have b: "u < fst jv" if "jv \<in> set bs" "snd iv < fst jv" for jv
    proof (cases "u = snd iv")
      case False
      then obtain kv where kv: "kv \<in> set bs" "u = snd kv" "fst kv \<le> snd iv" using u(3) by (auto simp: ts_def)
      then show ?thesis using well_spaced_blocks [OF assms \<open>jv \<in> set bs\<close> kv(1)] well_spaced_blocks(2) [OF assms kv(1,1)] that by auto
    qed (use that in simp)
    have "l < u" using l(1) u(1) h by simp
    then show ?thesis unfolding e [OF h] using assms a b h by (auto simp: well_spaced_append well_spaced_filter)
  qed
  then show "well_spaced (list_add iv bs)" using assms by (cases "fst iv < snd iv") (auto simp: list_add_def)
qed

lemma cut_block_points:
  assumes "fst iv < snd iv" "fst jv < snd jv"
  shows "spans (cut_block iv jv) = span jv - span iv" "well_spaced (cut_block iv jv)" "\<And>kv. kv \<in> set (cut_block iv jv) \<Longrightarrow> fst jv \<le> fst kv \<and> snd kv \<le> snd jv"
  using assms by (auto simp: cut_block_def)

lemma list_subtract_points:
  assumes "well_spaced bs"
  shows "spans (list_subtract iv bs) = spans bs - span iv" "well_spaced (list_subtract iv bs)"
proof -
  have "spans (concat (map (cut_block iv) bs)) = spans bs - span iv \<and> well_spaced (concat (map (cut_block iv) bs))" if h: "fst iv < snd iv"
    using assms
  proof (induction bs)
    case (Cons jv bs)
    note c = cut_block_points [OF h, of jv]
    have "snd kv < fst kv'" if k: "kv \<in> set (cut_block iv jv)" "k \<in> set bs" "kv' \<in> set (cut_block iv k)" for kv k kv'
    proof -
      have "snd jv < fst k" "fst k < snd k" "fst jv < snd jv" using Cons.prems k(2) by (auto simp: well_spaced_def)
      then show ?thesis using c(3) [OF _ k(1)] cut_block_points(3) [OF h _ k(3)] by auto
    qed
    then show ?case using c(1,2) Cons by (auto simp: well_spaced_append)
  qed simp
  then show "spans (list_subtract iv bs) = spans bs - span iv" "well_spaced (list_subtract iv bs)"
    using assms by (auto simp: list_subtract_def)
qed

typedef interval_list = "{bs. well_spaced bs}"
  by (intro exI [of _ "[]"]) simp

definition il_empty :: interval_list where "il_empty = Abs_interval_list []"
definition il_blocks :: "interval_list \<Rightarrow> interval list" where "il_blocks s = Rep_interval_list s"
definition il_add :: "interval_list \<Rightarrow> interval \<Rightarrow> interval_list" where "il_add s iv = Abs_interval_list (list_add iv (Rep_interval_list s))"
definition il_subtract :: "interval_list \<Rightarrow> interval \<Rightarrow> interval_list" where
  "il_subtract s iv = Abs_interval_list (list_subtract iv (Rep_interval_list s))"

lemma il_well_spaced: "well_spaced (il_blocks s)" using Rep_interval_list [of s] by (simp add: il_blocks_def)

lemma il_rep [simp]:
  "il_blocks il_empty = []" "il_blocks (il_add s iv) = list_add iv (il_blocks s)" "il_blocks (il_subtract s iv) = list_subtract iv (il_blocks s)"
  using list_add_points(2) [OF il_well_spaced, of iv s] list_subtract_points(2) [OF il_well_spaced, of iv s]
  by (simp_all add: il_blocks_def il_empty_def il_add_def il_subtract_def Abs_interval_list_inverse)

definition il_contains :: "interval_list \<Rightarrow> interval \<Rightarrow> bool" where
  "il_contains s iv \<longleftrightarrow> fst iv \<ge> snd iv \<or> (\<exists>jv \<in> set (il_blocks s). fst jv \<le> fst iv \<and> snd iv \<le> snd jv)"

definition il_intersects :: "interval_list \<Rightarrow> interval \<Rightarrow> bool" where
  "il_intersects s iv \<longleftrightarrow> (\<exists>jv \<in> set (il_blocks s). max (fst jv) (fst iv) < min (snd jv) (snd iv))"

definition list_icl :: "interval_list icl" where
  "list_icl = \<lparr>icl_empty = il_empty, icl_add = il_add, icl_subtract = il_subtract, icl_contains = il_contains,
               icl_intersects = il_intersects, icl_blocks = il_blocks\<rparr>"

lemma il_contains_iff: "il_contains s iv \<longleftrightarrow> span iv \<subseteq> spans (il_blocks s)"
proof (cases "fst iv < snd iv")
  case True
  have "span iv \<subseteq> spans (il_blocks s)" if "jv \<in> set (il_blocks s)" "fst jv \<le> fst iv" "snd iv \<le> snd jv" for jv
    using that by (intro subsetI) (auto simp: spans_def intro!: bexI [of _ jv])
  then show ?thesis using interval_in_block [OF il_well_spaced True] True by (auto simp: il_contains_def)
qed (auto simp: il_contains_def)

lemma il_intersects_iff: "il_intersects s iv \<longleftrightarrow> span iv \<inter> spans (il_blocks s) \<noteq> {}"
proof
  assume "il_intersects s iv"
  then obtain jv where jv: "jv \<in> set (il_blocks s)" "max (fst jv) (fst iv) < min (snd jv) (snd iv)" by (auto simp: il_intersects_def)
  then have "max (fst jv) (fst iv) \<in> span iv \<inter> span jv" by auto
  then show "span iv \<inter> spans (il_blocks s) \<noteq> {}" using jv(1) unfolding spans_def by blast
next
  assume "span iv \<inter> spans (il_blocks s) \<noteq> {}"
  then obtain x jv where "jv \<in> set (il_blocks s)" "x \<in> span iv" "x \<in> span jv" unfolding spans_def by blast
  then have "max (fst jv) (fst iv) \<le> x" "x < min (snd jv) (snd iv)" by auto
  then show "il_intersects s iv" using \<open>jv \<in> set (il_blocks s)\<close> unfolding il_intersects_def by (meson le_less_trans)
qed

interpretation li: interval_sets list_icl
  by unfold_locales
    (simp_all add: list_icl_def il_well_spaced il_contains_iff il_intersects_iff list_add_points list_subtract_points)

lemmas list_icl_laws = li.interval_sets_axioms

end
