(* ===== verification/Memory_Region.thy ===== *)
theory Memory_Region
  imports Interval_Set Kernel_State
begin

text \<open>
  \<open>MemoryRegionInfo\<close> of \<open>hle/kernel/memory.cpp\<close>, the allocator of the three regions of FCRAM, and \<open>MemoryInit\<close>, which lays them out.
  The free blocks of a region are an interval set \<open>'i\<close> with the operations \<open>ops\<close>. A failed assertion is \<open>None\<close>.
\<close>

section \<open>Regions\<close>

record 'i MemoryRegionInfo =
  region_base :: u32
  region_size :: u32
  region_used :: u32
  free_blocks :: 'i
  region_locked :: bool

definition Region_Reset :: "'i icl \<Rightarrow> u32 \<Rightarrow> u32 \<Rightarrow> 'i MemoryRegionInfo \<Rightarrow> 'i MemoryRegionInfo option" where
  "Region_Reset ops base sz r =
     (if region_locked r then None
      else Some (r\<lparr>region_base := base, region_size := sz, region_used := 0,
                   free_blocks := icl_add ops (icl_empty ops) (base, base + sz)\<rparr>))"

text \<open>The loop of \<open>HeapAllocate\<close> over the free blocks, highest first: the blocks taken and what is missing.\<close>

fun heap_loop :: "'i icl \<Rightarrow> interval list \<Rightarrow> u32 \<Rightarrow> 'i \<Rightarrow> 'i \<times> u32" where
  "heap_loop ops [] rest result = (result, rest)"
| "heap_loop ops (iv # ivs) rest result =
     (if snd iv - fst iv \<ge> rest then (icl_add ops result (snd iv - rest, snd iv), 0)
      else heap_loop ops ivs (rest - (snd iv - fst iv)) (icl_add ops result iv))"

definition Region_HeapAllocate :: "'i icl \<Rightarrow> u32 \<Rightarrow> 'i MemoryRegionInfo \<Rightarrow> ('i \<times> 'i MemoryRegionInfo) option" where
  "Region_HeapAllocate ops sz r =
     (if region_locked r then None
      else
        let (result, rest) = heap_loop ops (rev (icl_blocks ops (free_blocks r))) sz (icl_empty ops)
        in if rest \<noteq> 0 then Some (icl_empty ops, r)
           else Some (result, r\<lparr>free_blocks := icl_subtract_set ops (free_blocks r) result, region_used := region_used r + sz\<rparr>))"

definition Region_LinearAllocate_at :: "'i icl \<Rightarrow> u32 \<Rightarrow> u32 \<Rightarrow> 'i MemoryRegionInfo \<Rightarrow> (bool \<times> 'i MemoryRegionInfo) option" where
  "Region_LinearAllocate_at ops offset_in sz r =
     (if region_locked r then None
      else
        let iv = (offset_in, offset_in + sz)
        in if \<not> icl_contains ops (free_blocks r) iv then Some (False, r)
           else Some (True, r\<lparr>free_blocks := icl_subtract ops (free_blocks r) iv, region_used := region_used r + sz\<rparr>))"

definition Region_LinearAllocate :: "'i icl \<Rightarrow> u32 \<Rightarrow> 'i MemoryRegionInfo \<Rightarrow> (u32 option \<times> 'i MemoryRegionInfo) option" where
  "Region_LinearAllocate ops sz r =
     (if region_locked r then None
      else
        case find (\<lambda>iv. snd iv - fst iv \<ge> sz) (icl_blocks ops (free_blocks r)) of
          None \<Rightarrow> Some (None, r)
        | Some iv \<Rightarrow>
            Some (Some (fst iv), r\<lparr>free_blocks := icl_subtract ops (free_blocks r) (fst iv, fst iv + sz), region_used := region_used r + sz\<rparr>))"

definition Region_RLinearAllocate :: "'i icl \<Rightarrow> u32 \<Rightarrow> 'i MemoryRegionInfo \<Rightarrow> (u32 option \<times> 'i MemoryRegionInfo) option" where
  "Region_RLinearAllocate ops sz r =
     (if region_locked r then None
      else
        case find (\<lambda>iv. snd iv - fst iv \<ge> sz) (rev (icl_blocks ops (free_blocks r))) of
          None \<Rightarrow> Some (None, r)
        | Some iv \<Rightarrow>
            Some (Some (snd iv - sz), r\<lparr>free_blocks := icl_subtract ops (free_blocks r) (snd iv - sz, snd iv), region_used := region_used r + sz\<rparr>))"

definition Region_Free :: "'i icl \<Rightarrow> u32 \<Rightarrow> u32 \<Rightarrow> 'i MemoryRegionInfo \<Rightarrow> 'i MemoryRegionInfo option" where
  "Region_Free ops offset_in sz r =
     (if region_locked r then Some r
      else
        let iv = (offset_in, offset_in + sz)
        in if icl_intersects ops (free_blocks r) iv then None
           else Some (r\<lparr>free_blocks := icl_add ops (free_blocks r) iv, region_used := region_used r - sz\<rparr>))"

definition Region_Unlock :: "'i MemoryRegionInfo \<Rightarrow> 'i MemoryRegionInfo" where
  "Region_Unlock r = r\<lparr>region_locked := False\<rparr>"

section \<open>The layout of FCRAM\<close>

abbreviation FCRAM_SIZE :: u32 where "FCRAM_SIZE \<equiv> 0x08000000"

datatype MemoryRegion = APPLICATION | SYSTEM | BASE

datatype New3dsMemoryMode = Legacy | NewProd | NewDev1 | NewDev2

definition memory_region_sizes :: "(u32 \<times> u32 \<times> u32) list" where
  "memory_region_sizes =
     [(0x04000000, 0x02C00000, 0x01400000), (0, 0, 0), (0x06000000, 0x00C00000, 0x01400000), (0x05000000, 0x01C00000, 0x01400000),
      (0x04800000, 0x02400000, 0x01400000), (0x02000000, 0x04C00000, 0x01400000), (0x07C00000, 0x06400000, 0x02000000),
      (0x0B200000, 0x02E00000, 0x02000000)]"

text \<open>The fields of \<open>ConfigMemDef\<close> that depend on the layout.\<close>

record ConfigMem_layout =
  app_mem_type :: nat
  app_mem_alloc :: u32
  sys_mem_alloc :: u32
  base_mem_alloc :: u32

definition mem_types :: "bool \<Rightarrow> nat \<Rightarrow> New3dsMemoryMode \<Rightarrow> nat \<times> nat" where
  "mem_types is_new_3ds memory_mode n3ds_mode =
     (if is_new_3ds then
        (case n3ds_mode of NewProd \<Rightarrow> (6, 6) | NewDev2 \<Rightarrow> (6, 6) | NewDev1 \<Rightarrow> (7, 7) | Legacy \<Rightarrow> (6, memory_mode))
      else (memory_mode, memory_mode))"

text \<open>An index outside the table is \<open>None\<close>.\<close>

definition MemoryInit ::
    "'i icl \<Rightarrow> bool \<Rightarrow> nat \<Rightarrow> New3dsMemoryMode \<Rightarrow> (MemoryRegion \<Rightarrow> 'i MemoryRegionInfo) \<Rightarrow>
     ((MemoryRegion \<Rightarrow> 'i MemoryRegionInfo) \<times> ConfigMem_layout) option" where
  "MemoryInit ops is_new_3ds memory_mode n3ds_mode memory_regions =
     (let (mem_type_index, reported_mem_type) = mem_types is_new_3ds memory_mode n3ds_mode
      in if mem_type_index \<ge> length memory_region_sizes \<or> reported_mem_type \<ge> length memory_region_sizes then None
         else
           let (app, sys, bas) = memory_region_sizes ! mem_type_index
           in do {
             r0 \<leftarrow> Region_Reset ops 0 app (memory_regions APPLICATION);
             let base = 0 + region_size r0;
             r1 \<leftarrow> Region_Reset ops base sys (memory_regions SYSTEM);
             let base = base + region_size r1;
             r2 \<leftarrow> Region_Reset ops base bas (memory_regions BASE);
             let base = base + region_size r2;
             if base \<noteq> (if is_new_3ds then FCRAM_N3DS_SIZE else FCRAM_SIZE) then None
             else Some (memory_regions(APPLICATION := r0, SYSTEM := r1, BASE := r2),
                        \<lparr>app_mem_type = reported_mem_type, app_mem_alloc = fst (memory_region_sizes ! reported_mem_type),
                         sys_mem_alloc = region_size r1, base_mem_alloc = region_size r2\<rparr>)
           })"

section \<open>Invariant\<close>

definition region_span :: "'i MemoryRegionInfo \<Rightarrow> u32 set" where
  "region_span r = {x. unat (region_base r) \<le> unat x \<and> unat x < unat (region_base r) + unat (region_size r)}"

abbreviation free_points :: "'i icl \<Rightarrow> 'i MemoryRegionInfo \<Rightarrow> u32 set" where "free_points ops r \<equiv> points ops (free_blocks r)"

text \<open>Free memory lies in the region, and what is used and what is free make up its size.\<close>

definition region_ok :: "'i icl \<Rightarrow> 'i MemoryRegionInfo \<Rightarrow> bool" where
  "region_ok ops r \<longleftrightarrow> unat (region_base r) + unat (region_size r) < 2 ^ 32 \<and> free_points ops r \<subseteq> region_span r \<and>
     unat (region_used r) + card (free_points ops r) = unat (region_size r)"

lemma unat_u32: "unat (x :: u32) < 4294967296"
  by (rule order_less_le_trans [OF unsigned_less]) simp

lemma card_span: "card {l..<u :: u32} = unat u - unat l"
proof -
  have "unat ` {l..<u} = {unat l..<unat u}"
  proof (intro set_eqI iffI)
    fix n assume "n \<in> {unat l..<unat u}"
    then have "n < 2 ^ 32" using unat_u32 [of u] by simp
    then have "unat (of_nat n :: u32) = n" by (simp add: unat_of_nat)
    then show "n \<in> unat ` {l..<u}" using \<open>n \<in> {unat l..<unat u}\<close> by (intro image_eqI [of _ _ "of_nat n"]) (simp_all add: word_le_nat_alt word_less_nat_alt)
  qed (auto simp: word_le_nat_alt word_less_nat_alt)
  then have "card {unat l..<unat u} = card {l..<u}" by (metis card_image inj_onI word_unat_eq_iff)
  then show ?thesis by simp
qed

lemma region_span_card: "unat (region_base r) + unat (region_size r) < 2 ^ 32 \<Longrightarrow> card (region_span r) = unat (region_size r)"
proof -
  assume "unat (region_base r) + unat (region_size r) < 2 ^ 32"
  then have "unat (region_base r + region_size r) = unat (region_base r) + unat (region_size r)" by (simp add: unat_word_ariths)
  then have "region_span r = {region_base r..<region_base r + region_size r}" "card {region_base r..<region_base r + region_size r} = unat (region_size r)"
    by (auto simp: region_span_def card_span word_le_nat_alt word_less_nat_alt)
  then show ?thesis by simp
qed

text \<open>The highest \<open>n\<close> points of a set.\<close>

definition highest :: "nat \<Rightarrow> u32 set \<Rightarrow> u32 set \<Rightarrow> bool" where
  "highest n S T \<longleftrightarrow> T \<subseteq> S \<and> card T = n \<and> (\<forall>x \<in> T. \<forall>y \<in> S - T. y < x)"

lemma block_sub:
  assumes "fst iv < snd iv" "(n :: u32) \<le> snd iv - fst iv"
  shows "unat (snd iv - fst iv) = unat (snd iv) - unat (fst iv)" "unat (snd iv - n) = unat (snd iv) - unat n" "fst iv \<le> snd iv - n" "snd iv - n \<le> snd iv"
    "unat (fst iv + n) = unat (fst iv) + unat n" "fst iv + n \<le> snd iv" "fst iv \<le> fst iv + n" "unat n \<le> unat (snd iv) - unat (fst iv)"
proof -
  show d: "unat (snd iv - fst iv) = unat (snd iv) - unat (fst iv)" using assms(1) by (simp add: unat_sub word_le_nat_alt word_less_nat_alt)
  show n: "unat n \<le> unat (snd iv) - unat (fst iv)" using assms(2) d by (simp add: word_le_nat_alt)
  have n': "unat (fst iv) + unat n \<le> unat (snd iv)" using n assms(1) by (simp add: word_less_nat_alt)
  show s: "unat (snd iv - n) = unat (snd iv) - unat n" using n' by (simp add: unat_sub word_le_nat_alt)
  show a: "unat (fst iv + n) = unat (fst iv) + unat n" using n' unat_u32 [of "snd iv"] by (simp add: unat_word_ariths)
  show "fst iv \<le> snd iv - n" "snd iv - n \<le> snd iv" "fst iv + n \<le> snd iv" "fst iv \<le> fst iv + n" using n' s a by (simp_all add: word_le_nat_alt)
qed

lemma highest_insert:
  assumes "highest n S T" "S \<inter> B = {}" "\<And>x y. x \<in> B \<Longrightarrow> y \<in> S \<Longrightarrow> y < x" "finite T" "finite B"
  shows "highest (card B + n) (B \<union> S) (B \<union> T)"
proof -
  have "card (B \<union> T) = card B + n" using assms by (subst card_Un_disjoint) (auto simp: highest_def)
  then show ?thesis using assms unfolding highest_def by blast
qed

lemma finite_u32 [simp, intro]: "finite (S :: u32 set)"
  by (rule finite_subset [OF subset_UNIV]) simp

context interval_sets
begin

text \<open>The loop takes the highest free memory.\<close>

lemma heap_loop_ok:
  "well_spaced (rev bs) \<Longrightarrow> heap_loop ops bs rest result = (result', rest') \<Longrightarrow>
   \<exists>T. points ops result' = points ops result \<union> T \<and> highest (unat rest - unat rest') (spans bs) T \<and> unat rest' = unat rest - card (spans bs)"
proof (induction bs arbitrary: rest result)
  case Nil
  then show ?case by (intro exI [of _ "{}"]) (simp add: highest_def)
next
  case (Cons iv bs)
  have c: "well_spaced (rev bs)" "fst iv < snd iv" "\<And>jv. jv \<in> set bs \<Longrightarrow> snd jv < fst iv" using Cons.prems(1) by (auto simp: well_spaced_append)
  have below: "y < fst iv" if "y \<in> spans bs" for y
  proof -
    obtain jv where "jv \<in> set bs" "y < snd jv" using \<open>y \<in> spans bs\<close> unfolding spans_def by auto
    then show ?thesis using c(3) by (blast intro: less_trans)
  qed
  have disj: "span iv \<inter> spans bs = {}" using below leD unfolding disjoint_iff atLeastLessThan_iff by blast
  have cd: "card (spans (iv # bs)) = unat (snd iv) - unat (fst iv) + card (spans bs)"
    using disj by (simp add: card_Un_disjoint card_span)
  show ?case
  proof (cases "rest \<le> snd iv - fst iv")
    case True
    note n = block_sub [OF c(2) True]
    have "result' = icl_add ops result (snd iv - rest, snd iv)" "rest' = 0" using Cons.prems(2) True by auto
    moreover have "highest (unat rest) (spans (iv # bs)) {snd iv - rest..<snd iv}"
    proof -
      have up: "y < x" if "snd iv - rest \<le> x" "y \<in> spans bs" for x y using below [OF that(2)] n(3) that(1) by order
      have "{snd iv - rest..<snd iv} \<subseteq> span iv" using n(3) by auto
      moreover have "card {snd iv - rest..<snd iv} = unat rest" using n(2,8) by (simp add: card_span)
      moreover have "y < x" if "x \<in> {snd iv - rest..<snd iv}" "y \<in> span iv" "y \<notin> {snd iv - rest..<snd iv}" for x y using that by auto
      ultimately show ?thesis using up by (auto simp: highest_def)
    qed
    moreover have "unat rest - card (spans (iv # bs)) = 0" using n(8) cd by simp
    ultimately show ?thesis by (intro exI [of _ "{snd iv - rest..<snd iv}"]) (simp add: points_add)
  next
    case False
    define k where "k = snd iv - fst iv"
    have d: "unat k = card (span iv)" using c(2) by (simp add: k_def card_span unat_sub word_le_nat_alt word_less_nat_alt)
    have r: "unat (rest - k) = unat rest - unat k" "unat k < unat rest" using False by (simp_all add: k_def unat_sub word_le_nat_alt)
    have "heap_loop ops bs (rest - k) (icl_add ops result iv) = (result', rest')" using Cons.prems(2) False by (simp add: k_def)
    then obtain T where T: "points ops result' = points ops (icl_add ops result iv) \<union> T" "highest (unat (rest - k) - unat rest') (spans bs) T"
      "unat rest' = unat (rest - k) - card (spans bs)"
      using Cons.IH [OF c(1)] by blast
    have "highest (card (span iv) + (unat (rest - k) - unat rest')) (span iv \<union> spans bs) (span iv \<union> T)"
    proof (rule highest_insert [OF T(2)])
      show "y < x" if "x \<in> span iv" "y \<in> spans bs" for x y using below [OF that(2)] that(1) by (meson atLeastLessThan_iff less_le_trans)
    qed (use disj in blast, simp_all)
    moreover have "card (span iv) + (unat (rest - k) - unat rest') = unat rest - unat rest'" using r T(3) d by linarith
    moreover have "unat rest' = unat rest - card (spans (iv # bs))" using T(3) r(1) d cd unfolding card_span by linarith
    moreover have "points ops result' = points ops result \<union> (span iv \<union> T)" using T(1) by (simp only: points_add Un_assoc)
    ultimately show ?thesis by (intro exI [of _ "span iv \<union> T"]) (simp only: spans_simps simp_thms)
  qed
qed

lemma Region_HeapAllocate_ok:
  assumes ok: "region_ok ops r" and lk: "\<not> region_locked r"
  shows "card (free_points ops r) < unat sz \<Longrightarrow> Region_HeapAllocate ops sz r = Some (icl_empty ops, r)"
    "unat sz \<le> card (free_points ops r) \<Longrightarrow>
     \<exists>result r'. Region_HeapAllocate ops sz r = Some (result, r') \<and> highest (unat sz) (free_points ops r) (points ops result) \<and>
       free_points ops r' = free_points ops r - points ops result \<and> region_ok ops r' \<and> \<not> region_locked r' \<and>
       region_base r' = region_base r \<and> region_size r' = region_size r"
proof -
  let ?bs = "rev (icl_blocks ops (free_blocks r))"
  obtain result rest where l: "heap_loop ops ?bs sz (icl_empty ops) = (result, rest)" by fastforce
  obtain T where T: "points ops result = T" "highest (unat sz - unat rest) (free_points ops r) T" "unat rest = unat sz - card (free_points ops r)"
    using heap_loop_ok [OF _ l] blocks_well_spaced [of "free_blocks r"] by (auto simp: points_empty)
  show "Region_HeapAllocate ops sz r = Some (icl_empty ops, r)" if "card (free_points ops r) < unat sz"
  proof -
    have "rest \<noteq> 0" using T(3) that by auto
    then show ?thesis using l lk by (simp add: Region_HeapAllocate_def)
  qed
  assume sz: "unat sz \<le> card (free_points ops r)"
  then have rest: "rest = 0" using T(3) by (simp add: unat_eq_zero)
  let ?r = "r\<lparr>free_blocks := icl_subtract_set ops (free_blocks r) result, region_used := region_used r + sz\<rparr>"
  have fp: "free_points ops ?r = free_points ops r - T" using T(1) by (simp add: points_subtract_set)
  have h: "T \<subseteq> free_points ops r" "card T = unat sz" using T(2) rest by (simp_all add: highest_def)
  have cd: "card (free_points ops r - T) = card (free_points ops r) - unat sz" using h by (simp add: card_Diff_subset)
  have "unat (region_used r + sz) = unat (region_used r) + unat sz"
    using ok sz unat_u32 [of "region_size r"] by (simp add: region_ok_def unat_word_ariths)
  then have "region_ok ops ?r" using ok sz cd by (auto simp: region_ok_def region_span_def points_subtract_set T(1))
  then show "\<exists>result r'. Region_HeapAllocate ops sz r = Some (result, r') \<and> highest (unat sz) (free_points ops r) (points ops result) \<and>
       free_points ops r' = free_points ops r - points ops result \<and> region_ok ops r' \<and> \<not> region_locked r' \<and>
       region_base r' = region_base r \<and> region_size r' = region_size r"
    using l lk rest T fp by (intro exI [of _ result] exI [of _ ?r]) (simp add: Region_HeapAllocate_def)
qed

end

end
