(* ===== verification/Region_Facts.thy ===== *)
theory Region_Facts
  imports Memory_Region
begin

text \<open>
  The allocators of a memory region: linear allocations are first fit from either end, memory that is freed can be allocated again, and
  the accounting of a region is exact in every state that can be reached.
\<close>

section \<open>Linear allocation\<close>

definition fits :: "u32 set \<Rightarrow> u32 \<Rightarrow> u32 \<Rightarrow> bool" where
  "fits S n l \<longleftrightarrow> unat l + unat n < 2 ^ 32 \<and> {l..<l + n} \<subseteq> S"

lemma find_first_block:
  "well_spaced bs \<Longrightarrow> find P bs = Some iv \<Longrightarrow> jv \<in> set bs \<Longrightarrow> P jv \<Longrightarrow> fst iv \<le> fst jv"
proof (induction bs)
  case (Cons kv bs)
  have "fst kv < fst jv" if "jv \<in> set bs" using Cons.prems(1) that by (auto dest: less_trans)
  then show ?case using Cons by (cases "P kv") auto
qed simp

lemma find_last_block:
  "well_spaced bs \<Longrightarrow> find P (rev bs) = Some iv \<Longrightarrow> jv \<in> set bs \<Longrightarrow> P jv \<Longrightarrow> snd jv \<le> snd iv"
proof (induction bs rule: rev_induct)
  case (snoc kv bs)
  have kv: "fst kv < snd kv" "jv \<in> set bs \<Longrightarrow> snd jv < fst kv" "well_spaced bs" using snoc.prems(1) by (simp_all add: well_spaced_append)
  show ?case
  proof (cases "P kv")
    case True
    then have "iv = kv" using snoc.prems(2) by simp
    then show ?thesis using kv(1,2) snoc.prems(3) by (cases "jv = kv") (simp_all add: less_imp_le)
  next
    case False
    then have "jv \<in> set bs" using snoc.prems(3,4) by auto
    then show ?thesis using snoc.IH [OF kv(3)] snoc.prems(2,4) False by simp
  qed
qed simp

lemma find_Some_block: "find P bs = Some iv \<Longrightarrow> iv \<in> set bs \<and> P iv"
  by (induction bs) (auto split: if_splits)

lemma unat_plus_less: "unat l + unat n < 2 ^ 32 \<Longrightarrow> unat (l + n :: u32) = unat l + unat n"
  by (simp add: unat_word_ariths)

text \<open>Where a block fits: inside one of the maximal blocks.\<close>

lemma fits_block:
  assumes c: "well_spaced bs" and n: "0 < n"
  shows "fits (spans bs) n l \<longleftrightarrow> (\<exists>iv \<in> set bs. n \<le> snd iv - fst iv \<and> fst iv \<le> l \<and> l \<le> snd iv - n)"
proof
  assume f: "fits (spans bs) n l"
  then have u: "unat (l + n) = unat l + unat n" by (simp add: fits_def unat_plus_less)
  then have "l < l + n" using n by (simp add: word_less_nat_alt)
  then obtain iv where iv: "iv \<in> set bs" "fst iv \<le> l" "l + n \<le> snd iv" using interval_in_block [OF c, of l "l + n"] f by (auto simp: fits_def)
  have le: "unat (fst iv) \<le> unat l" "unat l + unat n \<le> unat (snd iv)" using iv(2,3) u by (simp_all add: word_le_nat_alt)
  then have "unat (snd iv - fst iv) = unat (snd iv) - unat (fst iv)" "unat (snd iv - n) = unat (snd iv) - unat n"
    by (simp_all add: unat_sub word_le_nat_alt)
  then show "\<exists>iv \<in> set bs. n \<le> snd iv - fst iv \<and> fst iv \<le> l \<and> l \<le> snd iv - n"
    using iv(1) le by (intro bexI [of _ iv]) (auto simp: word_le_nat_alt)
next
  assume "\<exists>iv \<in> set bs. n \<le> snd iv - fst iv \<and> fst iv \<le> l \<and> l \<le> snd iv - n"
  then obtain iv where iv: "iv \<in> set bs" "n \<le> snd iv - fst iv" "fst iv \<le> l" "l \<le> snd iv - n" by blast
  note b = block_sub [OF well_spaced_blocks(2) [OF c iv(1,1)] iv(2)]
  have "unat l + unat n \<le> unat (snd iv)" using iv(4) b(2,8) by (simp add: word_le_nat_alt)
  then have s: "unat l + unat n < 2 ^ 32" "l + n \<le> snd iv" using unat_u32 [of "snd iv"] by (simp_all add: word_le_nat_alt unat_plus_less)
  then have "{l..<l + n} \<subseteq> span iv" using iv(3) by auto
  then show "fits (spans bs) n l" using s(1) iv(1) unfolding fits_def spans_def by blast
qed

section \<open>Accounting\<close>

definition region_step_ok :: "'i icl \<Rightarrow> 'i MemoryRegionInfo \<Rightarrow> 'i MemoryRegionInfo \<Rightarrow> u32 set \<Rightarrow> bool" where
  "region_step_ok ops r r' S \<longleftrightarrow> free_points ops r' = S \<and> region_ok ops r' \<and> \<not> region_locked r' \<and>
     region_base r' = region_base r \<and> region_size r' = region_size r"

context interval_sets
begin

lemma take_interval:
  assumes ok: "region_ok ops r" "\<not> region_locked r" and f: "fits (free_points ops r) n l"
  shows "region_step_ok ops r (r\<lparr>free_blocks := icl_subtract ops (free_blocks r) (l, l + n), region_used := region_used r + n\<rparr>)
    (free_points ops r - {l..<l + n})"
proof -
  have cd: "card {l..<l + n} = unat n" using f by (simp add: fits_def card_span unat_plus_less)
  have sub: "{l..<l + n} \<subseteq> free_points ops r" using f by (simp add: fits_def)
  have le: "unat n \<le> card (free_points ops r)" using card_mono [OF _ sub] cd by simp
  have d: "card (free_points ops r - {l..<l + n}) = card (free_points ops r) - unat n" using sub cd by (simp add: card_Diff_subset)
  have "unat (region_used r + n) = unat (region_used r) + unat n"
    using ok(1) le unat_u32 [of "region_size r"] by (simp add: region_ok_def unat_word_ariths)
  then show ?thesis using ok d le by (auto simp: region_step_ok_def region_ok_def region_span_def points_subtract)
qed

lemma Region_LinearAllocate_at_ok:
  assumes ok: "region_ok ops r" "\<not> region_locked r" and n: "unat l + unat n < 2 ^ 32"
  shows "\<not> fits (free_points ops r) n l \<Longrightarrow> Region_LinearAllocate_at ops l n r = Some (False, r)"
    "fits (free_points ops r) n l \<Longrightarrow>
     \<exists>r'. Region_LinearAllocate_at ops l n r = Some (True, r') \<and> region_step_ok ops r r' (free_points ops r - {l..<l + n})"
  using take_interval [OF ok, of n l] ok(2) n by (simp_all add: Region_LinearAllocate_at_def contains_iff fits_def)

lemma Region_LinearAllocate_ok:
  assumes ok: "region_ok ops r" "\<not> region_locked r" and n: "0 < n"
  shows "\<nexists>l. fits (free_points ops r) n l \<Longrightarrow> Region_LinearAllocate ops n r = Some (None, r)"
    "\<exists>l. fits (free_points ops r) n l \<Longrightarrow>
     \<exists>l r'. Region_LinearAllocate ops n r = Some (Some l, r') \<and> fits (free_points ops r) n l \<and> (\<forall>l'. fits (free_points ops r) n l' \<longrightarrow> l \<le> l') \<and>
       region_step_ok ops r r' (free_points ops r - {l..<l + n})"
proof -
  let ?bs = "icl_blocks ops (free_blocks r)"
  note c = blocks_well_spaced [of "free_blocks r"]
  have none: "fits (free_points ops r) n (fst iv)" if "iv \<in> set ?bs" "n \<le> snd iv - fst iv" for iv
    using fits_block [OF c n] that block_sub(3) [OF well_spaced_blocks(2) [OF c that(1,1)] that(2)] by blast
  show "Region_LinearAllocate ops n r = Some (None, r)" if "\<nexists>l. fits (free_points ops r) n l"
    using that none ok(2) by (cases "find (\<lambda>iv. n \<le> snd iv - fst iv) ?bs") (auto simp: Region_LinearAllocate_def dest: find_Some_block)
  assume "\<exists>l. fits (free_points ops r) n l"
  then obtain jv where "jv \<in> set ?bs" "n \<le> snd jv - fst jv" using fits_block [OF c n] by blast
  then obtain iv where iv: "find (\<lambda>iv. n \<le> snd iv - fst iv) ?bs = Some iv" by (cases "find (\<lambda>iv. n \<le> snd iv - fst iv) ?bs") (auto simp: find_None_iff)
  have f: "fits (free_points ops r) n (fst iv)" using none find_Some_block [OF iv] by blast
  have "fst iv \<le> l'" if "fits (free_points ops r) n l'" for l'
    using that find_first_block [OF c iv] unfolding fits_block [OF c n] by (meson order_trans)
  then show "\<exists>l r'. Region_LinearAllocate ops n r = Some (Some l, r') \<and> fits (free_points ops r) n l \<and> (\<forall>l'. fits (free_points ops r) n l' \<longrightarrow> l \<le> l') \<and>
       region_step_ok ops r r' (free_points ops r - {l..<l + n})"
    using f iv ok(2) take_interval [OF ok f] by (simp add: Region_LinearAllocate_def)
qed

lemma Region_RLinearAllocate_ok:
  assumes ok: "region_ok ops r" "\<not> region_locked r" and n: "0 < n"
  shows "\<nexists>l. fits (free_points ops r) n l \<Longrightarrow> Region_RLinearAllocate ops n r = Some (None, r)"
    "\<exists>l. fits (free_points ops r) n l \<Longrightarrow>
     \<exists>l r'. Region_RLinearAllocate ops n r = Some (Some l, r') \<and> fits (free_points ops r) n l \<and> (\<forall>l'. fits (free_points ops r) n l' \<longrightarrow> l' \<le> l) \<and>
       region_step_ok ops r r' (free_points ops r - {l..<l + n})"
proof -
  let ?bs = "icl_blocks ops (free_blocks r)"
  note c = blocks_well_spaced [of "free_blocks r"]
  have none: "fits (free_points ops r) n (snd iv - n)" if "iv \<in> set ?bs" "n \<le> snd iv - fst iv" for iv
    using fits_block [OF c n] that block_sub(3) [OF well_spaced_blocks(2) [OF c that(1,1)] that(2)] by blast
  show "Region_RLinearAllocate ops n r = Some (None, r)" if "\<nexists>l. fits (free_points ops r) n l"
    using that none ok(2) by (cases "find (\<lambda>iv. n \<le> snd iv - fst iv) (rev ?bs)") (auto simp: Region_RLinearAllocate_def dest!: find_Some_block)
  assume "\<exists>l. fits (free_points ops r) n l"
  then obtain jv where "jv \<in> set ?bs" "n \<le> snd jv - fst jv" using fits_block [OF c n] by blast
  then obtain iv where iv: "find (\<lambda>iv. n \<le> snd iv - fst iv) (rev ?bs) = Some iv"
    by (cases "find (\<lambda>iv. n \<le> snd iv - fst iv) (rev ?bs)") (auto simp: find_None_iff)
  have i: "iv \<in> set ?bs" "n \<le> snd iv - fst iv" using find_Some_block [OF iv] by simp_all
  have f: "fits (free_points ops r) n (snd iv - n)" using none i by blast
  have "l' \<le> snd iv - n" if l: "fits (free_points ops r) n l'" for l'
  proof -
    obtain jv where jv: "jv \<in> set ?bs" "n \<le> snd jv - fst jv" "l' \<le> snd jv - n" using l unfolding fits_block [OF c n] by blast
    have "snd jv \<le> snd iv" using find_last_block [OF c iv jv(1,2)] .
    then have "snd jv - n \<le> snd iv - n"
      using block_sub(2) [OF well_spaced_blocks(2) [OF c jv(1,1)] jv(2)] block_sub(2) [OF well_spaced_blocks(2) [OF c i(1,1)] i(2)]
      by (simp add: word_le_nat_alt)
    then show ?thesis using jv(3) by order
  qed
  then show "\<exists>l r'. Region_RLinearAllocate ops n r = Some (Some l, r') \<and> fits (free_points ops r) n l \<and> (\<forall>l'. fits (free_points ops r) n l' \<longrightarrow> l' \<le> l) \<and>
       region_step_ok ops r r' (free_points ops r - {l..<l + n})"
    using f iv ok(2) take_interval [OF ok f] by (simp add: Region_RLinearAllocate_def)
qed

lemma Region_Free_ok:
  assumes ok: "region_ok ops r" "\<not> region_locked r" and n: "unat l + unat n < 2 ^ 32"
    and used: "{l..<l + n} \<subseteq> region_span r - free_points ops r"
  shows "\<exists>r'. Region_Free ops l n r = Some r' \<and> region_step_ok ops r r' (free_points ops r \<union> {l..<l + n}) \<and> region_used r' = region_used r - n"
proof -
  have cd: "card {l..<l + n} = unat n" using n by (simp add: card_span unat_plus_less)
  have u: "card (free_points ops r \<union> {l..<l + n}) = card (free_points ops r) + unat n" using used cd by (subst card_Un_disjoint) auto
  have "card (free_points ops r \<union> {l..<l + n}) \<le> card (region_span r)" using ok(1) used by (intro card_mono) (auto simp: region_ok_def)
  then have le: "card (free_points ops r) + unat n \<le> unat (region_size r)" using u region_span_card [of r] ok(1) by (simp add: region_ok_def)
  then have "unat (region_used r - n) = unat (region_used r) - unat n" using ok(1) by (simp add: unat_sub word_le_nat_alt region_ok_def)
  then show ?thesis
    using ok u le used by (auto simp: Region_Free_def Let_def intersects_iff region_step_ok_def region_ok_def region_span_def points_add)
qed

lemma Region_Reset_ok:
  assumes "\<not> region_locked r" "unat b + unat n < 2 ^ 32"
  shows "\<exists>r'. Region_Reset ops b n r = Some r' \<and> region_ok ops r' \<and> \<not> region_locked r' \<and> region_base r' = b \<and> region_size r' = n \<and>
    region_used r' = 0 \<and> free_points ops r' = {b..<b + n}"
proof -
  have "card {b..<b + n} = unat n" "{b..<b + n} \<subseteq> {x. unat b \<le> unat x \<and> unat x < unat b + unat n}"
    using assms(2) by (auto simp: card_span unat_plus_less word_le_nat_alt word_less_nat_alt)
  then show ?thesis using assms by (simp add: Region_Reset_def region_ok_def region_span_def points_add points_empty)
qed

end

section \<open>Runs of a region\<close>

text \<open>The operations of a region when they return; memory that is freed lies in the region and was allocated, as its callers see to.\<close>

inductive region_step :: "'i icl \<Rightarrow> 'i MemoryRegionInfo \<Rightarrow> 'i MemoryRegionInfo \<Rightarrow> bool" for ops where
  heap: "Region_HeapAllocate ops n r = Some (result, r') \<Longrightarrow> region_step ops r r'"
| linear_at: "unat l + unat n < 2 ^ 32 \<Longrightarrow> Region_LinearAllocate_at ops l n r = Some (ok, r') \<Longrightarrow> region_step ops r r'"
| linear: "0 < n \<Longrightarrow> Region_LinearAllocate ops n r = Some (l, r') \<Longrightarrow> region_step ops r r'"
| rlinear: "0 < n \<Longrightarrow> Region_RLinearAllocate ops n r = Some (l, r') \<Longrightarrow> region_step ops r r'"
| free: "unat l + unat n < 2 ^ 32 \<Longrightarrow> {l..<l + n} \<subseteq> region_span r - free_points ops r \<Longrightarrow> Region_Free ops l n r = Some r' \<Longrightarrow> region_step ops r r'"
| unlock: "region_step ops r (Region_Unlock r)"

inductive region_reachable :: "'i icl \<Rightarrow> 'i MemoryRegionInfo \<Rightarrow> bool" for ops where
  reset: "unat b + unat n < 2 ^ 32 \<Longrightarrow> Region_Reset ops b n r = Some r' \<Longrightarrow> region_reachable ops r'"
| step: "region_reachable ops r \<Longrightarrow> region_step ops r r' \<Longrightarrow> region_reachable ops r'"

context interval_sets
begin

lemma region_step_keeps: "region_step ops r r' \<Longrightarrow> region_ok ops r \<Longrightarrow> region_ok ops r'"
proof (induction rule: region_step.induct)
  case (heap n r result r')
  then have lk: "\<not> region_locked r" by (auto simp: Region_HeapAllocate_def)
  then show ?case using heap Region_HeapAllocate_ok [OF heap(2) lk, of n] by (cases "unat n \<le> card (free_points ops r)") auto
next
  case (linear_at l n r ok r')
  then have lk: "\<not> region_locked r" by (auto simp: Region_LinearAllocate_at_def)
  then show ?case using linear_at Region_LinearAllocate_at_ok [OF linear_at(3) lk linear_at(1)]
    by (cases "fits (free_points ops r) n l") (auto simp: region_step_ok_def)
next
  case (linear n r l r')
  then have lk: "\<not> region_locked r" by (auto simp: Region_LinearAllocate_def)
  then show ?case using linear Region_LinearAllocate_ok [OF linear(3) lk linear(1)]
    by (cases "\<exists>l. fits (free_points ops r) n l") (auto simp: region_step_ok_def)
next
  case (rlinear n r l r')
  then have lk: "\<not> region_locked r" by (auto simp: Region_RLinearAllocate_def)
  then show ?case using rlinear Region_RLinearAllocate_ok [OF rlinear(3) lk rlinear(1)]
    by (cases "\<exists>l. fits (free_points ops r) n l") (auto simp: region_step_ok_def)
next
  case (free l n r r')
  then show ?case using Region_Free_ok [OF free(4) _ free(1,2)] by (cases "region_locked r") (auto simp: region_step_ok_def Region_Free_def)
next
  case (unlock r)
  then show ?case by (simp add: Region_Unlock_def region_ok_def region_span_def)
qed

lemma region_reachable_ok: "region_reachable ops r \<Longrightarrow> region_ok ops r"
proof (induction rule: region_reachable.induct)
  case (reset b n r r')
  then have "\<not> region_locked r" by (auto simp: Region_Reset_def split: if_splits)
  then show ?case using Region_Reset_ok [of r b n] reset by auto
qed (blast intro: region_step_keeps)

text \<open>Allocating and freeing again.\<close>

lemma linear_round_trip:
  assumes "region_ok ops r" "\<not> region_locked r" "0 < n" "Region_LinearAllocate ops n r = Some (Some l, r1)"
  shows "\<exists>r2. Region_Free ops l n r1 = Some r2 \<and> free_points ops r2 = free_points ops r \<and> region_used r2 = region_used r \<and> region_ok ops r2"
proof -
  have f: "fits (free_points ops r) n l" "region_step_ok ops r r1 (free_points ops r - {l..<l + n})"
    using Region_LinearAllocate_ok [OF assms(1-3)] assms(4) by (cases "\<exists>l. fits (free_points ops r) n l"; auto)+
  have u: "region_used r1 = region_used r + n" using assms(2,4) by (auto simp: Region_LinearAllocate_def split: option.splits)
  have r1: "region_ok ops r1" "\<not> region_locked r1" "free_points ops r1 = free_points ops r - {l..<l + n}" "region_span r1 = region_span r"
    using f(2) by (simp_all add: region_step_ok_def region_span_def)
  have sub: "{l..<l + n} \<subseteq> free_points ops r" "unat l + unat n < 2 ^ 32" using f(1) by (simp_all add: fits_def)
  then have "{l..<l + n} \<subseteq> region_span r1 - free_points ops r1" using r1(3,4) assms(1) by (auto simp: region_ok_def)
  then obtain r2 where "Region_Free ops l n r1 = Some r2" "region_step_ok ops r1 r2 (free_points ops r1 \<union> {l..<l + n})" "region_used r2 = region_used r1 - n"
    using Region_Free_ok [OF r1(1,2) sub(2)] by blast
  then show ?thesis using u r1(3) sub(1) by (auto simp: region_step_ok_def)
qed

end

section \<open>The layout\<close>

definition fcram_size :: "bool \<Rightarrow> u32" where
  "fcram_size is_new_3ds = (if is_new_3ds then FCRAM_N3DS_SIZE else FCRAM_SIZE)"

text \<open>The memory modes of \<open>kernel.h\<close>.\<close>

abbreviation memory_modes :: "nat set" where "memory_modes \<equiv> {0, 2, 3, 4, 5}"

lemma region_sizes_add_up:
  assumes "m \<in> memory_modes" "mem_types new m mode = (i, j)" "memory_region_sizes ! i = (a, s, b)"
  shows "i < length memory_region_sizes" "j < length memory_region_sizes" "unat a + unat s + unat b = unat (fcram_size new)"
  using assms by (auto simp: mem_types_def memory_region_sizes_def fcram_size_def split: if_splits New3dsMemoryMode.splits)

lemma free_region_span:
  assumes "unat b + unat n < 2 ^ 32" "region_base r = b" "region_size r = n"
  shows "{b..<b + n} = region_span r"
  using assms by (auto simp: region_span_def word_le_nat_alt word_less_nat_alt unat_plus_less)

context interval_sets
begin

lemma MemoryInit_ok:
  assumes m: "m \<in> memory_modes" and lk: "\<And>k. \<not> region_locked (regions k)"
  shows "\<exists>rs c. MemoryInit ops new m mode regions = Some (rs, c) \<and>
    (\<forall>k. region_reachable ops (rs k) \<and> free_points ops (rs k) = region_span (rs k)) \<and>
    (\<forall>k k'. k \<noteq> k' \<longrightarrow> region_span (rs k) \<inter> region_span (rs k') = {}) \<and> (\<Union>k. region_span (rs k)) = {x. x < fcram_size new}"
proof -
  obtain i j where ij: "mem_types new m mode = (i, j)" by fastforce
  obtain a s b where sizes: "memory_region_sizes ! i = (a, s, b)" by (cases "memory_region_sizes ! i")
  note z = region_sizes_add_up [OF m ij sizes]
  have f: "unat (fcram_size new) < 2 ^ 32" by (simp add: fcram_size_def)
  have u: "unat (a + s) = unat a + unat s" "unat (a + s + b) = unat a + unat s + unat b" using z(3) f by (simp_all add: unat_plus_less)
  have l: "unat (0 :: u32) + unat a < 2 ^ 32" "unat a + unat s < 2 ^ 32" "unat (a + s) + unat b < 2 ^ 32" using z(3) f u by simp_all
  obtain r0 where r0: "Region_Reset ops 0 a (regions APPLICATION) = Some r0" "region_base r0 = 0" "region_size r0 = a" "free_points ops r0 = {0..<0 + a}"
    using Region_Reset_ok [OF lk l(1)] by blast
  obtain r1 where r1: "Region_Reset ops a s (regions SYSTEM) = Some r1" "region_base r1 = a" "region_size r1 = s" "free_points ops r1 = {a..<a + s}"
    using Region_Reset_ok [OF lk l(2)] by blast
  obtain r2 where r2: "Region_Reset ops (a + s) b (regions BASE) = Some r2" "region_base r2 = a + s" "region_size r2 = b" "free_points ops r2 = {a + s..<a + s + b}"
    using Region_Reset_ok [OF lk l(3)] by blast
  note r = r0 r1 r2
  define rs where "rs = regions(APPLICATION := r0, SYSTEM := r1, BASE := r2)"
  have rs: "rs APPLICATION = r0" "rs SYSTEM = r1" "rs BASE = r2" by (simp_all add: rs_def)
  have spans: "region_span r0 = {x. unat x < unat a}" "region_span r1 = {x. unat a \<le> unat x \<and> unat x < unat a + unat s}"
    "region_span r2 = {x. unat a + unat s \<le> unat x \<and> unat x < unat (fcram_size new)}"
    using r u z(3) by (simp_all add: region_span_def)
  have "a + s + b = fcram_size new" using u(2) z(3) by (simp add: word_unat_eq_iff)
  then have "\<exists>c. MemoryInit ops new m mode regions = Some (rs, c)"
    using z(1,2) r by (simp add: MemoryInit_def ij sizes rs_def fcram_size_def)
  moreover have "region_reachable ops (rs k) \<and> free_points ops (rs k) = region_span (rs k)" for k
    using region_reachable.reset [OF l(1) r(1)] region_reachable.reset [OF l(2) r(5)] region_reachable.reset [OF l(3) r(9)]
      free_region_span [OF l(1) r(2,3)] free_region_span [OF l(2) r(6,7)] free_region_span [OF l(3) r(10,11)] r(4,8,12)
    by (cases k) (simp_all add: rs)
  moreover have "region_span (rs k) \<inter> region_span (rs k') = {}" if "k \<noteq> k'" for k k'
    using that spans by (cases k; cases k') (auto simp: rs)
  moreover have "(\<Union>k. region_span (rs k)) = {x. x < fcram_size new}"
  proof -
    have "(\<Union>k. region_span (rs k)) = region_span r0 \<union> region_span r1 \<union> region_span r2"
    proof -
      have "(UNIV :: MemoryRegion set) = {APPLICATION, SYSTEM, BASE}" using MemoryRegion.exhaust by blast
      then have "(\<Union>k. region_span (rs k)) = (\<Union>k \<in> {APPLICATION, SYSTEM, BASE}. region_span (rs k))" by simp
      then show ?thesis by (simp only: rs image_insert image_empty Union_insert Union_empty Un_empty_right Un_assoc)
    qed
    then show ?thesis using spans z(3) by (auto simp: word_less_nat_alt)
  qed
  ultimately show ?thesis by blast
qed

end

section \<open>Properties\<close>

text \<open>
  A heap allocation succeeds exactly when the region has enough free memory, however scattered. It takes the highest free addresses,
  as many as asked for, and nothing else changes hands; a refusal changes nothing.
\<close>

theorem heap_allocation_takes_the_highest:
  assumes "interval_sets ops" "region_reachable ops r" "\<not> region_locked r"
  shows "if unat n \<le> card (free_points ops r)
    then \<exists>result r'. Region_HeapAllocate ops n r = Some (result, r') \<and> highest (unat n) (free_points ops r) (points ops result) \<and>
      free_points ops r' = free_points ops r - points ops result
    else Region_HeapAllocate ops n r = Some (icl_empty ops, r)"
  using interval_sets.Region_HeapAllocate_ok [OF assms(1) interval_sets.region_reachable_ok [OF assms(1,2)] assms(3), of n] by auto

text \<open>
  C27: Linear allocation finds the lowest address at which the whole block is free, reverse linear allocation the highest, and both fail
  only when there is none.
\<close>

theorem linear_allocation_is_first_fit:
  assumes "interval_sets ops" "region_reachable ops r" "\<not> region_locked r" "0 < n"
  shows "if \<exists>l. fits (free_points ops r) n l
    then \<exists>l r1 h r2. Region_LinearAllocate ops n r = Some (Some l, r1) \<and> fits (free_points ops r) n l \<and>
      free_points ops r1 = free_points ops r - {l..<l + n} \<and> Region_RLinearAllocate ops n r = Some (Some h, r2) \<and>
      fits (free_points ops r) n h \<and> free_points ops r2 = free_points ops r - {h..<h + n} \<and> (\<forall>l'. fits (free_points ops r) n l' \<longrightarrow> l \<le> l' \<and> l' \<le> h)
    else Region_LinearAllocate ops n r = Some (None, r) \<and> Region_RLinearAllocate ops n r = Some (None, r)"
proof -
  note ok = interval_sets.region_reachable_ok [OF assms(1,2)] assms(3)
  note a = interval_sets.Region_LinearAllocate_ok [OF assms(1) ok assms(4)] and b = interval_sets.Region_RLinearAllocate_ok [OF assms(1) ok assms(4)]
  show ?thesis
  proof (cases "\<exists>l. fits (free_points ops r) n l")
    case True
    then show ?thesis using a(2) b(2) unfolding region_step_ok_def by (simp only: if_True) blast
  qed (use a(1) b(1) in simp)
qed

text \<open>
  C28: Laying out the regions returns for every memory mode, and the regions partition FCRAM. In every state a region reaches, what is used and
  what is free add up to its size, free memory lies in the region, and freeing a linear allocation restores both.
\<close>

theorem regions_account_for_fcram:
  assumes "interval_sets ops"
  shows "(m \<in> memory_modes \<and> (\<forall>k. \<not> region_locked (regions k)) \<longrightarrow> (\<exists>rs c. MemoryInit ops new m mode regions = Some (rs, c) \<and>
      (\<forall>k. region_reachable ops (rs k) \<and> free_points ops (rs k) = region_span (rs k)) \<and>
      (\<forall>k k'. k \<noteq> k' \<longrightarrow> region_span (rs k) \<inter> region_span (rs k') = {}) \<and> (\<Union>k. region_span (rs k)) = {x. x < fcram_size new})) \<and>
    (region_reachable ops r \<longrightarrow> free_points ops r \<subseteq> region_span r \<and> unat (region_used r) + card (free_points ops r) = unat (region_size r) \<and>
      (\<forall>n l r1. 0 < n \<and> Region_LinearAllocate ops n r = Some (Some l, r1) \<longrightarrow>
        (\<exists>r2. Region_Free ops l n r1 = Some r2 \<and> free_points ops r2 = free_points ops r \<and> region_used r2 = region_used r)))"
proof (rule conjI)
  show "m \<in> memory_modes \<and> (\<forall>k. \<not> region_locked (regions k)) \<longrightarrow> (\<exists>rs c. MemoryInit ops new m mode regions = Some (rs, c) \<and>
      (\<forall>k. region_reachable ops (rs k) \<and> free_points ops (rs k) = region_span (rs k)) \<and>
      (\<forall>k k'. k \<noteq> k' \<longrightarrow> region_span (rs k) \<inter> region_span (rs k') = {}) \<and> (\<Union>k. region_span (rs k)) = {x. x < fcram_size new})"
    using interval_sets.MemoryInit_ok [OF assms, of m regions new mode] by blast
  have "\<exists>r2. Region_Free ops l n r1 = Some r2 \<and> free_points ops r2 = free_points ops r \<and> region_used r2 = region_used r"
    if "region_reachable ops r" "0 < n" "Region_LinearAllocate ops n r = Some (Some l, r1)" for n l r1
  proof -
    have "\<not> region_locked r" using that(3) by (auto simp: Region_LinearAllocate_def)
    then show ?thesis using interval_sets.linear_round_trip [OF assms interval_sets.region_reachable_ok [OF assms that(1)] _ that(2,3)] by blast
  qed
  then show "region_reachable ops r \<longrightarrow> free_points ops r \<subseteq> region_span r \<and> unat (region_used r) + card (free_points ops r) = unat (region_size r) \<and>
      (\<forall>n l r1. 0 < n \<and> Region_LinearAllocate ops n r = Some (Some l, r1) \<longrightarrow>
        (\<exists>r2. Region_Free ops l n r1 = Some r2 \<and> free_points ops r2 = free_points ops r \<and> region_used r2 = region_used r))"
    using interval_sets.region_reachable_ok [OF assms, of r] by (auto simp: region_ok_def)
qed

section \<open>An example\<close>

definition demo_region :: "interval_list MemoryRegionInfo" where
  "demo_region = \<lparr>region_base = 0, region_size = 0, region_used = 0, free_blocks = il_empty, region_locked = False\<rparr>"

definition demo_app :: "interval_list MemoryRegionInfo" where
  "demo_app = the (Region_Reset list_icl 0 0x4000000 demo_region)"

lemma demo_app:
  "region_reachable list_icl demo_app" "\<not> region_locked demo_app" "icl_blocks list_icl (free_blocks demo_app) = [(0, 0x4000000)]"
proof -
  have e: "Region_Reset list_icl 0 0x4000000 demo_region = Some demo_app" by (simp add: demo_app_def Region_Reset_def demo_region_def)
  show "region_reachable list_icl demo_app" by (rule region_reachable.reset [OF _ e]) simp
  show "\<not> region_locked demo_app" "icl_blocks list_icl (free_blocks demo_app) = [(0, 0x4000000)]"
    by (simp_all add: demo_app_def Region_Reset_def demo_region_def list_icl_def list_add_def)
qed

theorem heap_allocation_takes_the_highest_witness:
  "\<exists>result r'. Region_HeapAllocate list_icl 0x3000 demo_app = Some (result, r') \<and> points list_icl result = {0x3FFD000..<0x4000000}"
proof -
  have fp: "free_points list_icl demo_app = {0..<0x4000000}" by (simp add: demo_app(3))
  have big: "unat (0x3000 :: u32) \<le> card (free_points list_icl demo_app)" by (simp add: fp card_span)
  obtain result r' where r: "Region_HeapAllocate list_icl 0x3000 demo_app = Some (result, r')"
    using heap_allocation_takes_the_highest [OF list_icl_laws demo_app(1,2), of "0x3000"] big by auto
  then have "result = il_add il_empty (0x3FFD000, 0x4000000)"
    using demo_app(2,3) by (simp add: Region_HeapAllocate_def list_icl_def)
  then have "points list_icl result = {0x3FFD000..<0x4000000}" by (simp add: list_icl_def list_add_def)
  then show ?thesis using r by blast
qed

theorem linear_allocation_is_first_fit_witness:
  "\<exists>l r1 h r2. Region_LinearAllocate list_icl 0x3000 demo_app = Some (Some l, r1) \<and> Region_RLinearAllocate list_icl 0x3000 demo_app = Some (Some h, r2) \<and> l \<le> h"
proof -
  have "fits (free_points list_icl demo_app) 0x3000 0" by (auto simp: demo_app(3) fits_def)
  then show ?thesis using linear_allocation_is_first_fit [OF list_icl_laws demo_app(1,2), of "0x3000"] by (auto split: if_splits)
qed

theorem regions_account_for_fcram_witness:
  "(\<exists>rs c. MemoryInit list_icl False 0 Legacy (\<lambda>_. demo_region) = Some (rs, c) \<and> (\<Union>k. region_span (rs k)) = {x. x < FCRAM_SIZE}) \<and>
   unat (region_used demo_app) + card (free_points list_icl demo_app) = unat (region_size demo_app)"
proof -
  have "\<not> region_locked demo_region" by (simp add: demo_region_def)
  then show ?thesis
    using regions_account_for_fcram [OF list_icl_laws, of 0 "\<lambda>_. demo_region" False Legacy demo_app]
      demo_app(1) by (auto simp: fcram_size_def)
qed

end
