(* ===== verification/Process_Memory.thy ===== *)
theory Process_Memory
  imports Vm_Contract Region_Facts Kernel_Sched
begin

text \<open>
  The memory of a process: \<open>hle/kernel/process.cpp\<close> (heap, linear heap, thread local storage, aliases, kernel capabilities),
  the mappings of \<open>hle/kernel/memory.cpp\<close> and the calls \<open>ControlMemory\<close> and \<open>QueryMemory\<close> of \<open>hle/kernel/svc.cpp\<close>. The regions are those of the
  kernel; the memory system is the one the address space of the process refers to. Failed assertions, the dereference of \<open>end()\<close> and a full
  \<open>static_vector\<close> are the abort \<open>None\<close>.
\<close>

section \<open>Data\<close>

definition ResultInvalidCombination :: ResultCode where "ResultInvalidCombination = make_result 1006 6 7 28"
definition ResultMisalignedAddress :: ResultCode where "ResultMisalignedAddress = make_result 1009 6 7 28"
definition ResultMisalignedSize :: ResultCode where "ResultMisalignedSize = make_result 1010 6 7 28"
definition ResultOutOfHeapMemory :: ResultCode where "ResultOutOfHeapMemory = make_result 1011 6 3 1"

record 'i ProcessMemory =
  vm_manager :: VMManager
  memory_regions :: "MemoryRegion \<Rightarrow> 'i MemoryRegionInfo"
  memory_region :: MemoryRegion
  holding_memory :: 'i
  holding_tls_memory :: 'i
  memory_used :: u32
  process_limit :: ResourceLimit
  kernel_version :: u32

abbreviation HEAP_BASE :: u32 where "HEAP_BASE \<equiv> 0x08000000"
abbreviation HEAP_LIMIT :: u32 where "HEAP_LIMIT \<equiv> 0x10000000"

abbreviation own_region :: "'i ProcessMemory \<Rightarrow> 'i MemoryRegionInfo" where "own_region p \<equiv> memory_regions p (memory_region p)"

definition set_region :: "MemoryRegion \<Rightarrow> 'i MemoryRegionInfo \<Rightarrow> 'i ProcessMemory \<Rightarrow> 'i ProcessMemory" where
  "set_region k r p = p\<lparr>memory_regions := (memory_regions p)(k := r)\<rparr>"

definition GetLinearHeapAreaAddress :: "'i ProcessMemory \<Rightarrow> u32" where
  "GetLinearHeapAreaAddress p = (if kernel_version p < 0x22C then LINEAR_HEAP_VADDR else NEW_LINEAR_HEAP_VADDR)"

definition GetLinearHeapBase :: "'i ProcessMemory \<Rightarrow> u32" where
  "GetLinearHeapBase p = GetLinearHeapAreaAddress p + region_base (own_region p)"

definition GetLinearHeapLimit :: "'i ProcessMemory \<Rightarrow> u32" where
  "GetLinearHeapLimit p = GetLinearHeapBase p + region_size (own_region p)"

section \<open>FCRAM\<close>

text \<open>\<open>std::fill\<close> with zero between two pointers into FCRAM.\<close>

definition fill_fcram :: "u32 \<Rightarrow> u32 \<Rightarrow> MemorySystem \<Rightarrow> MemorySystem option" where
  "fill_fcram lower upper m =
     (if lower \<le> FCRAM_N3DS_SIZE \<and> upper \<le> FCRAM_N3DS_SIZE
      then Some (m\<lparr>host := host_put (host m) FCRAM (unat lower) (replicate (unat upper - unat lower) 0)\<rparr>) else None)"

definition commit_memory :: "u32 \<Rightarrow> 'i ProcessMemory \<Rightarrow> 'i ProcessMemory" where
  "commit_memory sz p = p\<lparr>memory_used := memory_used p + sz, process_limit := snd (Reserve RL_Commit (uint sz) (process_limit p))\<rparr>"

definition release_memory :: "u32 \<Rightarrow> 'i ProcessMemory \<Rightarrow> 'i ProcessMemory" where
  "release_memory sz p = p\<lparr>memory_used := memory_used p - sz, process_limit := snd (ResourceLimit_Release RL_Commit (uint sz) (process_limit p))\<rparr>"

section \<open>Heap\<close>

text \<open>One block: cleared, mapped and protected. \<open>Reprotect\<close> gets the area that \<open>MapBackingMemory\<close> returns, merged with its neighbours.\<close>

definition map_fcram :: "u32 \<Rightarrow> u32 \<Rightarrow> u32 \<Rightarrow> VMAPermission \<Rightarrow> MemoryState \<Rightarrow> VMManager \<Rightarrow> VMManager option" where
  "map_fcram target lower sz perms st vm =
     do {
       m \<leftarrow> fill_fcram lower (lower + sz) (vm_memory vm);
       (res, vm) \<leftarrow> MapBackingMemory target (GetFCRAMRef (unat lower)) sz st (vm\<lparr>vm_memory := m\<rparr>);
       case res of
         Inl _ \<Rightarrow> None
       | Inr key \<Rightarrow> map_option snd (Reprotect key perms vm)
     }"

fun map_heap_blocks :: "u32 \<Rightarrow> interval list \<Rightarrow> VMAPermission \<Rightarrow> MemoryState \<Rightarrow> VMManager \<Rightarrow> VMManager option" where
  "map_heap_blocks interval_target [] perms st vm = Some vm"
| "map_heap_blocks interval_target (iv # ivs) perms st vm =
     do {
       vm \<leftarrow> map_fcram interval_target (fst iv) (snd iv - fst iv) perms st vm;
       map_heap_blocks (interval_target + (snd iv - fst iv)) ivs perms st vm
     }"

definition HeapAllocate ::
    "'i icl \<Rightarrow> u32 \<Rightarrow> u32 \<Rightarrow> VMAPermission \<Rightarrow> MemoryState \<Rightarrow> bool \<Rightarrow> 'i ProcessMemory \<Rightarrow> ((ResultCode + u32) \<times> 'i ProcessMemory) option" where
  "HeapAllocate ops target sz perms st skip_range_check p =
     (if (target < HEAP_BASE \<or> target + sz > HEAP_LIMIT \<or> target + sz < target) \<and> \<not> skip_range_check then Some (Inl ResultInvalidAddress, p)
      else do {
        it \<leftarrow> FindVMA target (vma_map (vm_manager p));
        v \<leftarrow> Option.bind it (\<lambda>key. vma_at key (vma_map (vm_manager p)));
        if vma_type v \<noteq> VMA_Free \<or> vma_base v + vma_size v < target + sz then Some (Inl ResultInvalidAddressState, p)
        else do {
          (allocated, r) \<leftarrow> Region_HeapAllocate ops sz (own_region p);
          let p = set_region (memory_region p) r p;
          if icl_blocks ops allocated = [] then Some (Inl ResultOutOfHeapMemory, p)
          else do {
            vm \<leftarrow> map_heap_blocks target (icl_blocks ops allocated) perms st (vm_manager p);
            Some (Inr target, commit_memory sz (p\<lparr>vm_manager := vm, holding_memory := icl_add_set ops (holding_memory p) allocated\<rparr>))
          }
        }
      })"

fun free_blocks_loop :: "'i icl \<Rightarrow> (MemoryRef \<times> u32) list \<Rightarrow> 'i ProcessMemory \<Rightarrow> 'i ProcessMemory option" where
  "free_blocks_loop ops [] p = Some p"
| "free_blocks_loop ops ((mem_ref, block_size) # bs) p =
     do {
       backing_offset \<leftarrow> Option.bind mem_ref GetFCRAMOffset;
       r \<leftarrow> Region_Free ops backing_offset block_size (own_region p);
       let p = set_region (memory_region p) r p;
       free_blocks_loop ops bs (p\<lparr>holding_memory := icl_subtract ops (holding_memory p) (backing_offset, backing_offset + block_size)\<rparr>)
     }"

definition HeapFree :: "'i icl \<Rightarrow> u32 \<Rightarrow> u32 \<Rightarrow> 'i ProcessMemory \<Rightarrow> (ResultCode \<times> 'i ProcessMemory) option" where
  "HeapFree ops target sz p =
     (if target < HEAP_BASE \<or> target + sz > HEAP_LIMIT \<or> target + sz < target then Some (ResultInvalidAddress, p)
      else if sz = 0 then Some (ResultSuccess, p)
      else do {
        blocks \<leftarrow> GetBackingBlocksForRange target sz (vma_map (vm_manager p));
        case blocks of
          Inl code \<Rightarrow> Some (code, p)
        | Inr bs \<Rightarrow> do {
            p \<leftarrow> free_blocks_loop ops bs p;
            (code, vm) \<leftarrow> UnmapRange target sz (vm_manager p);
            if code \<noteq> ResultSuccess then None
            else Some (ResultSuccess, release_memory sz (p\<lparr>vm_manager := vm\<rparr>))
          }
      })"

section \<open>Linear heap\<close>

definition LinearAllocate :: "'i icl \<Rightarrow> u32 \<Rightarrow> u32 \<Rightarrow> VMAPermission \<Rightarrow> 'i ProcessMemory \<Rightarrow> ((ResultCode + u32) \<times> 'i ProcessMemory) option" where
  "LinearAllocate ops target sz perms p =
     do {
       found \<leftarrow>
         (if target = 0 then do {
            (off, r) \<leftarrow> Region_LinearAllocate ops sz (own_region p);
            Some (case off of None \<Rightarrow> Inl ResultOutOfHeapMemory | Some off \<Rightarrow> Inr (off, off + GetLinearHeapAreaAddress p, r))
          }
          else if target < GetLinearHeapBase p \<or> target + sz > GetLinearHeapLimit p \<or> target + sz < target then Some (Inl ResultInvalidAddress)
          else do {
            let off = target - GetLinearHeapAreaAddress p;
            (ok, r) \<leftarrow> Region_LinearAllocate_at ops off sz (own_region p);
            Some (if ok then Inr (off, target, r) else Inl ResultInvalidAddressState)
          });
       case found of
         Inl code \<Rightarrow> Some (Inl code, p)
       | Inr (off, target, r) \<Rightarrow> do {
           vm \<leftarrow> map_fcram target off sz perms MS_Continuous (vm_manager p);
           let p = set_region (memory_region p) r p;
           Some (Inr target, commit_memory sz (p\<lparr>vm_manager := vm, holding_memory := icl_add ops (holding_memory p) (off, off + sz)\<rparr>))
         }
     }"

definition LinearFree :: "'i icl \<Rightarrow> u32 \<Rightarrow> u32 \<Rightarrow> 'i ProcessMemory \<Rightarrow> (ResultCode \<times> 'i ProcessMemory) option" where
  "LinearFree ops target sz p =
     (if target < GetLinearHeapBase p \<or> target + sz > GetLinearHeapLimit p \<or> target + sz < target then Some (ResultInvalidAddress, p)
      else if sz = 0 then Some (ResultSuccess, p)
      else do {
        (code, vm) \<leftarrow> UnmapRange target sz (vm_manager p);
        if code \<noteq> ResultSuccess then Some (code, p\<lparr>vm_manager := vm\<rparr>)
        else do {
          let off = target - GetLinearHeapAreaAddress p;
          r \<leftarrow> Region_Free ops off sz (own_region p);
          let p = set_region (memory_region p) r p;
          Some (ResultSuccess, release_memory sz (p\<lparr>vm_manager := vm, holding_memory := icl_subtract ops (holding_memory p) (off, off + sz)\<rparr>))
        }
      })"

section \<open>Thread local storage\<close>

text \<open>A new page of thread local storage, from the BASE region; the result of the mapping is not looked at.\<close>

definition AllocateTlsPage :: "'i icl \<Rightarrow> nat \<Rightarrow> 'i ProcessMemory \<Rightarrow> ((ResultCode + u32) \<times> 'i ProcessMemory) option" where
  "AllocateTlsPage ops tls_page p =
     do {
       (off, r) \<leftarrow> Region_LinearAllocate ops 0x1000 (memory_regions p BASE);
       case off of
         None \<Rightarrow> Some (Inl ResultOutOfMemory, p)
       | Some off \<Rightarrow> do {
           let p = set_region BASE r p;
           let p = p\<lparr>holding_tls_memory := icl_add ops (holding_tls_memory p) (off, off + 0x1000), memory_used := memory_used p + 0x1000\<rparr>;
           let tls_page_addr = TLS_AREA_VADDR + of_nat tls_page * 0x1000;
           (_, vm) \<leftarrow> MapBackingMemory tls_page_addr (GetFCRAMRef (unat off)) 0x1000 MS_Locked (vm_manager p);
           Some (Inr tls_page_addr, p\<lparr>vm_manager := vm\<rparr>)
         }
     }"

section \<open>Aliases\<close>

fun map_alias_blocks :: "u32 \<Rightarrow> (MemoryRef \<times> u32) list \<Rightarrow> VMAPermission \<Rightarrow> MemoryState \<Rightarrow> VMManager \<Rightarrow> VMManager option" where
  "map_alias_blocks interval_target [] perms st vm = Some vm"
| "map_alias_blocks interval_target ((mem_ref, block_size) # bs) perms st vm =
     do {
       (res, vm) \<leftarrow> MapBackingMemory interval_target mem_ref block_size st vm;
       vm \<leftarrow> (case res of Inl _ \<Rightarrow> None | Inr key \<Rightarrow> map_option snd (Reprotect key perms vm));
       map_alias_blocks (interval_target + block_size) bs perms st vm
     }"

definition Process_Map :: "u32 \<Rightarrow> u32 \<Rightarrow> u32 \<Rightarrow> VMAPermission \<Rightarrow> bool \<Rightarrow> VMManager \<Rightarrow> (ResultCode \<times> VMManager) option" where
  "Process_Map target source sz perms privileged vm =
     (if \<not> privileged \<and> (source < HEAP_BASE \<or> source + sz > HEAP_LIMIT \<or> source + sz < source) then Some (ResultInvalidAddress, vm)
      else if source - target < sz \<or> target - source < sz then
        (if privileged then
           (if source = target then ChangeMemoryState source sz MS_Private Perm_ReadWrite MS_AliasCode perms vm
            else Some (ResultInvalidAddress, vm))
         else Some (ResultInvalidAddressState, vm))
      else do {
        it \<leftarrow> FindVMA target (vma_map vm);
        v \<leftarrow> Option.bind it (\<lambda>key. vma_at key (vma_map vm));
        if vma_type v \<noteq> VMA_Free \<or> vma_base v + vma_size v < target + sz then Some (ResultInvalidAddressState, vm)
        else do {
          (code, vm) \<leftarrow> ChangeMemoryState source sz MS_Private Perm_ReadWrite (if privileged then MS_Locked else MS_Aliased)
                          (if privileged then Perm_None else Perm_ReadWrite) vm;
          if code \<noteq> ResultSuccess then Some (code, vm)
          else do {
            blocks \<leftarrow> GetBackingBlocksForRange source sz (vma_map vm);
            case blocks of
              Inl code \<Rightarrow> Some (code, vm)
            | Inr bs \<Rightarrow> map_option (\<lambda>vm. (ResultSuccess, vm)) (map_alias_blocks target bs perms (if privileged then MS_AliasCode else MS_Alias) vm)
          }
        }
      })"

definition Process_Unmap :: "u32 \<Rightarrow> u32 \<Rightarrow> u32 \<Rightarrow> VMAPermission \<Rightarrow> bool \<Rightarrow> VMManager \<Rightarrow> (ResultCode \<times> VMManager) option" where
  "Process_Unmap target source sz perms privileged vm =
     (if \<not> privileged \<and> (source < HEAP_BASE \<or> source + sz > HEAP_LIMIT \<or> source + sz < source) then Some (ResultInvalidAddress, vm)
      else if source - target < sz \<or> target - source < sz then
        (if privileged then
           (if source = target then ChangeMemoryState source sz MS_AliasCode Perm_None MS_Private perms vm
            else Some (ResultInvalidAddress, vm))
         else Some (ResultInvalidAddressState, vm))
      else do {
        (code, vm) \<leftarrow> UnmapRange target sz vm;
        if code \<noteq> ResultSuccess then Some (code, vm)
        else do {
          (code, vm) \<leftarrow> ChangeMemoryState source sz (if privileged then MS_Locked else MS_Aliased) Perm_None MS_Private perms vm;
          Some (if code \<noteq> ResultSuccess then code else ResultSuccess, vm)
        }
      })"

end
