(* ===== verification/Process_Calls.thy ===== *)
theory Process_Calls
  imports Process_Memory
begin

text \<open>
  The end of a process, its kernel capabilities and special mappings, and the calls on memory: \<open>FreeAllMemory\<close>, \<open>ParseKernelCaps\<close>,
  \<open>HandleSpecialMapping\<close>, \<open>MapSharedPages\<close>, \<open>Run\<close> as far as it lays out memory, \<open>ControlMemory\<close> and \<open>QueryProcessMemory\<close>.
\<close>

unbundle bit_operations_syntax

section \<open>Freeing everything\<close>

text \<open>The region and the resource limit of the process are set, as they are once it runs.\<close>

fun free_held :: "'i icl \<Rightarrow> interval list \<Rightarrow> 'i ProcessMemory \<Rightarrow> 'i ProcessMemory option" where
  "free_held ops [] p = Some p"
| "free_held ops (entry # es) p =
     do {
       r \<leftarrow> Region_Free ops (fst entry) (snd entry - fst entry) (own_region p);
       free_held ops es (release_memory (snd entry - fst entry) (set_region (memory_region p) r p))
     }"

fun free_held_tls :: "'i icl \<Rightarrow> interval list \<Rightarrow> 'i ProcessMemory \<Rightarrow> 'i ProcessMemory option" where
  "free_held_tls ops [] p = Some p"
| "free_held_tls ops (entry # es) p =
     do {
       r \<leftarrow> Region_Free ops (fst entry) (snd entry - fst entry) (memory_regions p BASE);
       let p = set_region BASE r p;
       free_held_tls ops es (p\<lparr>memory_used := memory_used p - (snd entry - fst entry)\<rparr>)
     }"

definition FreeAllMemory :: "'i icl \<Rightarrow> 'i ProcessMemory \<Rightarrow> 'i ProcessMemory option" where
  "FreeAllMemory ops p =
     do {
       p \<leftarrow> free_held ops (icl_blocks ops (holding_memory p)) p;
       let p = p\<lparr>holding_memory := icl_empty ops\<rparr>;
       p \<leftarrow> free_held_tls ops (icl_blocks ops (holding_tls_memory p)) p;
       Some (p\<lparr>holding_tls_memory := icl_empty ops\<rparr>)
     }"

section \<open>Kernel capabilities\<close>

record AddressMapping =
  mapping_address :: u32
  mapping_size :: u32
  read_only :: bool
  unk_flag :: bool

record KernelCaps =
  svc_access_mask :: "bool list"
  handle_table_size :: u32
  process_flags :: u32
  address_mappings :: "AddressMapping list"
  caps_kernel_version :: u32

text \<open>The mask has 128 bits; the mappings are a \<open>static_vector\<close> of at most eight.\<close>

function set_svc_bits :: "nat \<Rightarrow> u32 \<Rightarrow> bool list \<Rightarrow> bool list" where
  "set_svc_bits index bits access =
     (if bits \<noteq> 0 \<and> index < length access then set_svc_bits (index + 1) (drop_bit 1 bits) (access[index := bit bits 0]) else access)"
  by pat_completeness auto
termination by (relation "measure (\<lambda>(index, bits, access). length access - index)") auto

definition push_mapping :: "AddressMapping \<Rightarrow> KernelCaps \<Rightarrow> KernelCaps option" where
  "push_mapping m c = (if length (address_mappings c) < 8 then Some (c\<lparr>address_mappings := address_mappings c @ [m]\<rparr>) else None)"

definition range_mapping :: "u32 \<Rightarrow> u32 \<Rightarrow> AddressMapping" where
  "range_mapping descriptor end_desc =
     (let address = push_bit 12 descriptor; end_address = push_bit 12 end_desc
      in \<lparr>mapping_address = address, mapping_size = (if address < end_address then end_address - address else 0),
          read_only = bit descriptor 20, unk_flag = bit end_desc 20\<rparr>)"

fun ParseKernelCaps :: "u32 list \<Rightarrow> KernelCaps \<Rightarrow> KernelCaps option" where
  "ParseKernelCaps [] c = Some c"
| "ParseKernelCaps (descriptor # ds) c =
     (let ty = drop_bit 20 descriptor
      in if descriptor = 0xFFFFFFFF then ParseKernelCaps ds c
         else if ty AND 0xF00 = 0xE00 then ParseKernelCaps ds c
         else if ty AND 0xF80 = 0xF00 then
           ParseKernelCaps ds
             (c\<lparr>svc_access_mask := set_svc_bits (unat (drop_bit 24 descriptor AND 7) * 24) (descriptor AND 0xFFFFFF) (svc_access_mask c)\<rparr>)
         else if ty AND 0xFF0 = 0xFE0 then ParseKernelCaps ds (c\<lparr>handle_table_size := descriptor AND 0x3FF\<rparr>)
         else if ty AND 0xFF8 = 0xFF0 then ParseKernelCaps ds (c\<lparr>process_flags := descriptor AND 0xFFFF\<rparr>)
         else if ty AND 0xFFE = 0xFF8 then
           (case ds of
              [] \<Rightarrow> Some c
            | end_desc # es \<Rightarrow>
                if drop_bit 20 end_desc AND 0xFFE \<noteq> 0xFF8 then ParseKernelCaps ds c
                else do { c \<leftarrow> push_mapping (range_mapping descriptor end_desc) c; ParseKernelCaps es c })
         else if ty AND 0xFFF = 0xFFE then
           do {
             c \<leftarrow> push_mapping \<lparr>mapping_address = push_bit 12 descriptor, mapping_size = 0x1000, read_only = False, unk_flag = False\<rparr> c;
             ParseKernelCaps ds c
           }
         else if ty AND 0xFE0 = 0xFC0 then ParseKernelCaps ds (c\<lparr>caps_kernel_version := descriptor AND 0xFFFF\<rparr>)
         else ParseKernelCaps ds c)"

definition Set3dsxKernelCaps :: "KernelCaps \<Rightarrow> KernelCaps" where
  "Set3dsxKernelCaps c =
     c\<lparr>svc_access_mask := replicate (length (svc_access_mask c)) True,
       address_mappings :=
         [\<lparr>mapping_address = 0x1FF50000, mapping_size = 0x8000, read_only = True, unk_flag = False\<rparr>,
          \<lparr>mapping_address = 0x1FF70000, mapping_size = 0x8000, read_only = True, unk_flag = False\<rparr>,
          \<lparr>mapping_address = 0x1F000000, mapping_size = 0x600000, read_only = False, unk_flag = False\<rparr>],
       caps_kernel_version := 0x23a\<rparr>"

section \<open>Special mappings\<close>

text \<open>Virtual base, physical base and size; VRAM comes before the IO area it overlaps.\<close>

definition special_areas :: "(u32 \<times> u32 \<times> u32) list" where
  "special_areas =
     [(VRAM_VADDR, VRAM_PADDR, VRAM_SIZE), (0x1EC00000, IO_AREA_PADDR, 0x00400000), (0x1FF00000, DSP_RAM_PADDR, DSP_RAM_SIZE),
      (0x1E800000, N3DS_EXTRA_RAM_PADDR, N3DS_EXTRA_RAM_SIZE - 0x20000)]"

definition map_and_protect :: "u32 \<Rightarrow> MemoryRef \<Rightarrow> u32 \<Rightarrow> MemoryState \<Rightarrow> VMAPermission \<Rightarrow> VMManager \<Rightarrow> VMManager option" where
  "map_and_protect target r sz st perms vm =
     do {
       (res, vm) \<leftarrow> MapBackingMemory target r sz st vm;
       case res of Inl _ \<Rightarrow> None | Inr key \<Rightarrow> map_option snd (Reprotect key perms vm)
     }"

definition HandleSpecialMapping :: "AddressMapping \<Rightarrow> VMManager \<Rightarrow> VMManager option" where
  "HandleSpecialMapping mapping vm =
     (let mapping_limit = mapping_address mapping + mapping_size mapping
      in if mapping_limit < mapping_address mapping then Some vm
         else case find (\<lambda>(vaddr_base, paddr_base, sz). mapping_address mapping \<ge> vaddr_base \<and> mapping_limit \<le> vaddr_base + sz) special_areas of
           None \<Rightarrow> Some vm
         | Some (vaddr_base, paddr_base, sz) \<Rightarrow>
             let offset_into_region = mapping_address mapping - vaddr_base
             in if paddr_base = IO_AREA_PADDR then Some vm
                else
                  let (target_pointer, m) = GetPhysicalRef (paddr_base + offset_into_region) (vm_memory vm)
                  in map_and_protect (mapping_address mapping) target_pointer (mapping_size mapping) (if unk_flag mapping then MS_Static else MS_IO)
                       (if read_only mapping then Perm_Read else Perm_ReadWrite) (vm\<lparr>vm_memory := m\<rparr>))"

text \<open>The configuration memory and the shared page are the objects \<open>cfg\<close> and \<open>shp\<close>.\<close>

definition MapSharedPages :: "backing \<Rightarrow> backing \<Rightarrow> VMManager \<Rightarrow> VMManager option" where
  "MapSharedPages cfg shp vm =
     do {
       vm \<leftarrow> map_and_protect 0x1FF80000 (make_ref cfg 0) 0x1000 MS_Shared Perm_Read vm;
       map_and_protect 0x1FF81000 (make_ref shp 0) 0x1000 MS_Shared Perm_Read vm
     }"

fun special_mappings :: "AddressMapping list \<Rightarrow> VMManager \<Rightarrow> VMManager option" where
  "special_mappings [] vm = Some vm"
| "special_mappings (m # ms) vm = do { vm \<leftarrow> HandleSpecialMapping m vm; special_mappings ms vm }"

record Segment =
  segment_offset :: nat
  segment_addr :: u32
  segment_size :: u32

text \<open>\<open>MapSegment\<close>: the result of the allocation is not looked at.\<close>

definition MapSegment :: "'i icl \<Rightarrow> bytes \<Rightarrow> Segment \<Rightarrow> VMAPermission \<Rightarrow> MemoryState \<Rightarrow> 'i ProcessMemory \<Rightarrow> 'i ProcessMemory option" where
  "MapSegment ops code_memory segment perms st p =
     do {
       (_, p) \<leftarrow> HeapAllocate ops (segment_addr segment) (segment_size segment) perms st True p;
       if segment_offset segment + unat (segment_size segment) > length code_memory then None
       else do {
         m \<leftarrow> WriteBlockImpl False (page_table (vm_manager p)) (vm_memory (vm_manager p)) (segment_addr segment)
                (take (unat (segment_size segment)) (drop (segment_offset segment) code_memory));
         Some (p\<lparr>vm_manager := (vm_manager p)\<lparr>vm_memory := m\<rparr>\<rparr>)
       }
     }"

definition Run_memory ::
    "'i icl \<Rightarrow> backing \<Rightarrow> backing \<Rightarrow> bytes \<Rightarrow> Segment \<Rightarrow> Segment \<Rightarrow> Segment \<Rightarrow> u32 \<Rightarrow> AddressMapping list \<Rightarrow> 'i ProcessMemory \<Rightarrow> 'i ProcessMemory option" where
  "Run_memory ops cfg shp code_memory code rodata data stack_size mappings p =
     do {
       p \<leftarrow> MapSegment ops code_memory code Perm_ReadExecute MS_Code p;
       p \<leftarrow> MapSegment ops code_memory rodata Perm_Read MS_Code p;
       p \<leftarrow> MapSegment ops code_memory data Perm_ReadWrite MS_Private p;
       (_, p) \<leftarrow> HeapAllocate ops (HEAP_LIMIT - stack_size) stack_size Perm_ReadWrite MS_Locked True p;
       vm \<leftarrow> MapSharedPages cfg shp (vm_manager p);
       vm \<leftarrow> special_mappings mappings vm;
       Some (p\<lparr>vm_manager := vm\<rparr>)
     }"

section \<open>Calls\<close>

definition with_vm :: "'i ProcessMemory \<Rightarrow> (ResultCode \<times> VMManager) option \<Rightarrow> ((ResultCode \<times> u32 option) \<times> 'i ProcessMemory) option" where
  "with_vm p r = map_option (\<lambda>(code, vm). ((code, None), p\<lparr>vm_manager := vm\<rparr>)) r"

definition with_out :: "((ResultCode + u32) \<times> 'i ProcessMemory) option \<Rightarrow> ((ResultCode \<times> u32 option) \<times> 'i ProcessMemory) option" where
  "with_out r = map_option (\<lambda>(res, p). (case res of Inl code \<Rightarrow> (code, None) | Inr addr \<Rightarrow> (ResultSuccess, Some addr), p)) r"

definition with_addr :: "u32 \<Rightarrow> (ResultCode \<times> 'i ProcessMemory) option \<Rightarrow> ((ResultCode \<times> u32 option) \<times> 'i ProcessMemory) option" where
  "with_addr addr r = map_option (\<lambda>(code, p). ((code, if code = ResultSuccess then Some addr else None), p)) r"

text \<open>The result is the code and, where the call sets it, the address it returns.\<close>

definition ControlMemory ::
    "'i icl \<Rightarrow> u32 \<Rightarrow> u32 \<Rightarrow> u32 \<Rightarrow> u32 \<Rightarrow> u32 \<Rightarrow> 'i ProcessMemory \<Rightarrow> ((ResultCode \<times> u32 option) \<times> 'i ProcessMemory) option" where
  "ControlMemory ops addr0 addr1 sz operation permissions p =
     (if \<not> page_aligned addr0 then Some ((ResultMisalignedAddress, None), p)
      else if \<not> page_aligned addr1 then Some ((ResultMisalignedAddress, None), p)
      else if \<not> page_aligned sz then Some ((ResultMisalignedSize, None), p)
      else
        let operation = operation AND NOT 0xF00
        in if permissions AND 3 \<noteq> permissions then Some ((ResultInvalidCombination, None), p)
           else
             let perms = ucast permissions;
                 op = operation AND 0xFF
             in if op = 1 then
                  (if addr0 \<ge> HEAP_BASE \<and> addr0 < HEAP_LIMIT then with_addr addr0 (HeapFree ops addr0 sz p)
                   else if addr0 \<ge> GetLinearHeapBase p \<and> addr0 < GetLinearHeapLimit p then with_addr addr0 (LinearFree ops addr0 sz p)
                   else Some ((ResultInvalidAddress, None), p))
                else if op = 3 then
                  (if operation AND 0x10000 \<noteq> 0 then with_out (LinearAllocate ops addr0 sz perms p)
                   else with_out (HeapAllocate ops addr0 sz perms MS_Private False p))
                else if op = 4 then with_vm p (Process_Map addr0 addr1 sz perms False (vm_manager p))
                else if op = 5 then with_vm p (Process_Unmap addr0 addr1 sz perms False (vm_manager p))
                else if op = 6 then with_vm p (ReprotectRange addr0 sz perms (vm_manager p))
                else Some ((ResultInvalidCombination, None), p))"

record MemoryInfo =
  base_address :: u32
  info_size :: u32
  permission :: VMAPermission
  info_state :: MemoryState

definition same_info :: "VirtualMemoryArea \<Rightarrow> VirtualMemoryArea \<Rightarrow> bool" where
  "same_info v w \<longleftrightarrow> vma_permissions w = vma_permissions v \<and> meminfo_state w = meminfo_state v"

text \<open>\<open>lower\<close> and \<open>upper\<close> are the first and the last area of the run of matching areas around the one found.\<close>

definition QueryProcessMemory :: "VirtualMemoryArea list option \<Rightarrow> u32 \<Rightarrow> (ResultCode + MemoryInfo) option" where
  "QueryProcessMemory process addr =
     (case process of
        None \<Rightarrow> Some (Inl (handle_code ResultInvalidHandle))
      | Some vs \<Rightarrow> do {
          it \<leftarrow> FindVMA addr vs;
          case it of
            None \<Rightarrow> Some (Inl ResultInvalidAddress)
          | Some key \<Rightarrow> do {
              v \<leftarrow> vma_at key vs;
              let lower = last (v # takeWhile (same_info v) (rev (takeWhile (\<lambda>u. vma_base u \<noteq> key) vs)));
              let upper = last (takeWhile (same_info v) (areas_from key vs));
              Some (Inr \<lparr>base_address = vma_base lower, info_size = vma_base upper + vma_size upper - vma_base lower,
                         permission = vma_permissions v, info_state = meminfo_state v\<rparr>)
            }
        })"

end
