(* ===== verification/Process_Facts.thy ===== *)
theory Process_Facts
  imports Process_Calls
begin

text \<open>
  Facts about the memory calls of a process: what a query reports, and what the kernel capabilities of a title are read as.
\<close>

section \<open>Queries\<close>

text \<open>What a query looks at.\<close>

definition info_at :: "VMManager \<Rightarrow> nat \<Rightarrow> (VMAPermission \<times> MemoryState) option" where
  "info_at vm x = map_option (\<lambda>(_, p, s, _). (p, s)) (vm_content vm x)"

lemma takeWhile_key: "tiled a (xs @ v # ys) b \<Longrightarrow> takeWhile (\<lambda>u. vma_base u \<noteq> vma_base v) (xs @ v # ys) = xs"
  using tiled_bases(3) [of a xs v ys b] by (induction xs arbitrary: a) (auto simp: takeWhile_append)

lemma info_at_area:
  assumes "tiled 0 (vma_map vm) vm_end" "w \<in> set (vma_map vm)" "ub w \<le> x" "x < vend w"
  shows "info_at vm x = Some (vma_permissions w, meminfo_state w)"
proof -
  obtain xs ys where "vma_map vm = xs @ w # ys" using assms(2) by (auto dest: split_list)
  then show ?thesis using content_mid [of 0 xs w ys vm_end x] assms by (simp add: info_at_def attrs_def)
qed

lemma tiled_hd: "tiled a (v # vs) b \<Longrightarrow> ub v = a" by simp

lemma tiled_last: "tiled a vs b \<Longrightarrow> vs \<noteq> [] \<Longrightarrow> vend (last vs) = b"
  by (induction vs arbitrary: a) auto

lemma QueryProcessMemory_run:
  assumes t: "tiled 0 (vma_map vm) vm_end" and vs: "vma_map vm = zs @ as @ v # bs @ ws"
    and m: "\<forall>u \<in> set as. same_info v u" "\<forall>u \<in> set bs. same_info v u" and z: "zs \<noteq> [] \<longrightarrow> \<not> same_info v (last zs)" and w: "ws \<noteq> [] \<longrightarrow> \<not> same_info v (hd ws)"
    and a: "ub v \<le> unat addr" "unat addr < vend v"
  shows "QueryProcessMemory (Some (vma_map vm)) addr = Some (Inr \<lparr>base_address = vma_base (hd (as @ [v])),
    info_size = vma_base (last (v # bs)) + vma_size (last (v # bs)) - vma_base (hd (as @ [v])), permission = vma_permissions v, info_state = meminfo_state v\<rparr>)"
proof -
  have t': "tiled 0 ((zs @ as) @ v # bs @ ws) vm_end" using t vs by simp
  have f: "FindVMA addr (vma_map vm) = Some (Some (vma_base v))" "vma_at (vma_base v) (vma_map vm) = Some v"
    using FindVMA_mid [OF t' a] vma_at_mid [OF t'] vs by simp_all
  have k: "takeWhile (\<lambda>u. vma_base u \<noteq> vma_base v) (vma_map vm) = zs @ as" "areas_from (vma_base v) (vma_map vm) = v # bs @ ws"
    using takeWhile_key [OF t'] vs tiled_bases(3) [OF t'] by (simp_all add: areas_from_def dropWhile_append)
  have l: "takeWhile (same_info v) (rev (zs @ as)) = rev as"
    using m(1) z by (cases zs rule: rev_cases) (simp_all add: takeWhile_append)
  have u: "takeWhile (same_info v) (v # bs @ ws) = v # bs"
    using m(2) w by (cases ws) (simp_all add: takeWhile_append same_info_def)
  have "last (v # rev as) = hd (as @ [v])" by (cases as) simp_all
  then show ?thesis using f k l u by (simp add: QueryProcessMemory_def Let_def del: last.simps)
qed

lemma query_run_parts: "\<exists>zs as. xs = zs @ as \<and> (\<forall>u \<in> set as. P u) \<and> (zs \<noteq> [] \<longrightarrow> \<not> P (last zs))"
proof (intro exI conjI)
  show "xs = rev (dropWhile P (rev xs)) @ rev (takeWhile P (rev xs))" by (metis rev_append rev_rev_ident takeWhile_dropWhile_id)
  show "\<forall>u \<in> set (rev (takeWhile P (rev xs))). P u" by (auto dest: set_takeWhileD)
  show "rev (dropWhile P (rev xs)) \<noteq> [] \<longrightarrow> \<not> P (last (rev (dropWhile P (rev xs))))" using hd_dropWhile [of P "rev xs"] by (auto simp: last_rev)
qed

text \<open>
  C26: A query returns the longest range around the address in which all addresses have the same permissions and state, however the areas are cut and
  whatever memory lies behind them.
\<close>

theorem query_reports_the_maximal_range:
  assumes "vm_reachable vm" "unat addr < 0x40000000"
  shows "\<exists>info lo hi. QueryProcessMemory (Some (vma_map vm)) addr = Some (Inr info) \<and> lo = unat (base_address info) \<and> hi = lo + unat (info_size info) \<and>
    lo \<le> unat addr \<and> unat addr < hi \<and> hi \<le> 0x40000000 \<and> (\<forall>x. lo \<le> x \<and> x < hi \<longrightarrow> info_at vm x = Some (permission info, info_state info)) \<and>
    (lo = 0 \<or> info_at vm (lo - 1) \<noteq> Some (permission info, info_state info)) \<and> (hi = 0x40000000 \<or> info_at vm hi \<noteq> Some (permission info, info_state info))"
proof -
  have t: "tiled 0 (vma_map vm) vm_end" using vm_invD(2) [OF vm_reachable_inv [OF assms(1)]] .
  obtain xs v ys where v: "vma_map vm = xs @ v # ys" "ub v \<le> unat addr" "unat addr < vend v" using tiled_find [OF t, of "unat addr"] assms(2) by auto
  obtain zs as where xs: "xs = zs @ as" "\<forall>u \<in> set as. same_info v u" "zs \<noteq> [] \<longrightarrow> \<not> same_info v (last zs)" using query_run_parts [of xs "same_info v"] by blast
  define bs ws where "bs = takeWhile (same_info v) ys" and "ws = dropWhile (same_info v) ys"
  have ys: "ys = bs @ ws" "\<forall>u \<in> set bs. same_info v u" "ws \<noteq> [] \<longrightarrow> \<not> same_info v (hd ws)"
    using hd_dropWhile [of "same_info v" ys] by (auto simp: bs_def ws_def dest: set_takeWhileD)
  have vs: "vma_map vm = zs @ as @ v # bs @ ws" using v(1) xs(1) ys(1) by simp
  define lo hi where "lo = ub (hd (as @ [v]))" and "hi = vend (last (v # bs))"
  obtain a b where ab: "tiled 0 zs a" "tiled a (as @ v # bs) b" "tiled b ws vm_end" using t vs by (auto simp: tiled_append)
  have e: "a = lo" "b = hi" using ab(2) tiled_last [OF ab(2)] by (cases as; simp add: lo_def hi_def)+
  note r = QueryProcessMemory_run [OF t vs xs(2) ys(2) xs(3) ys(3) v(2,3)]
  have run: "\<exists>w \<in> set (as @ v # bs). ub w \<le> x \<and> x < vend w" if h: "lo \<le> x" "x < hi" for x
  proof -
    obtain us w zs where w: "as @ v # bs = us @ w # zs" "ub w \<le> x" "x < vend w" using tiled_find [OF ab(2), of x] h e by auto
    then show ?thesis by (intro bexI [of _ w]) simp_all
  qed
  have same: "same_info v w" if "w \<in> set (as @ v # bs)" for w using that xs(2) ys(2) by (auto simp: same_info_def)
  have inside: "info_at vm x = Some (vma_permissions v, meminfo_state v)" if h: "lo \<le> x" "x < hi" for x
  proof -
    obtain w where w: "w \<in> set (as @ v # bs)" "ub w \<le> x" "x < vend w" using run [OF h] by blast
    then have "w \<in> set (vma_map vm)" using vs by auto
    then show ?thesis using info_at_area [OF t _ w(2,3)] same [OF w(1)] by (simp add: same_info_def)
  qed
  have below: "info_at vm (lo - 1) \<noteq> Some (vma_permissions v, meminfo_state v)" if "lo \<noteq> 0"
  proof -
    have z: "zs \<noteq> []" using ab(1) e(1) that by auto
    then have "last zs \<in> set (vma_map vm)" "vend (last zs) = lo" "ub (last zs) < vend (last zs)"
      using vs tiled_last [OF ab(1)] tiled_in [OF ab(1), of "last zs"] e(1) by auto
    then have "info_at vm (lo - 1) = Some (vma_permissions (last zs), meminfo_state (last zs))" using info_at_area [OF t, of "last zs" "lo - 1"] by simp
    then show ?thesis using xs(3) z by (simp add: same_info_def)
  qed
  have above: "info_at vm hi \<noteq> Some (vma_permissions v, meminfo_state v)" if h: "hi \<noteq> 0x40000000"
  proof -
    obtain w ws' where w: "ws = w # ws'" using ab(3) e(2) h by (cases ws) auto
    then have "w \<in> set (vma_map vm)" "ub w = hi" "ub w < vend w" using vs ab(3) e(2) tiled_in [OF ab(3), of w] by auto
    then have "info_at vm hi = Some (vma_permissions w, meminfo_state w)" using info_at_area [OF t, of w hi] by simp
    then show ?thesis using ys(3) w by (simp add: same_info_def)
  qed
  have le: "hi \<le> vm_end" "lo \<le> ub v" "vend v \<le> hi" using tiled_le [OF ab(3)] tiled_in [OF ab(2), of v] e by auto
  have "unat (vma_base (last (v # bs)) + vma_size (last (v # bs)) - vma_base (hd (as @ [v]))) = hi - lo"
  proof -
    let ?l = "last (v # bs)" and ?h = "hd (as @ [v])"
    have "unat (vma_base ?l) + unat (vma_size ?l) < 2 ^ 32" using le(1) by (simp add: hi_def vend_def del: last.simps)
    then have "unat (vma_base ?l + vma_size ?l) = hi" by (simp only: unat_plus_less hi_def vend_def)
    moreover have "lo \<le> hi" using le v(2,3) by linarith
    ultimately show ?thesis by (simp only: unat_sub word_le_nat_alt lo_def)
  qed
  moreover have "lo + (hi - lo) = hi" using le v(2,3) by linarith
  moreover have "lo \<le> unat addr" "unat addr < hi" using le v(2,3) by linarith+
  ultimately show ?thesis using r inside below above le(1) by (intro exI [of _ lo] exI [of _ hi] exI conjI) (auto simp: lo_def [symmetric])
qed

theorem query_reports_the_maximal_range_witness:
  "\<exists>info. QueryProcessMemory (Some (vma_map demo_space)) 0x8001234 = Some (Inr info) \<and> base_address info = 0 \<and> info_at demo_space 0 = Some (permission info, info_state info)"
proof -
  obtain info lo hi where r: "QueryProcessMemory (Some (vma_map demo_space)) 0x8001234 = Some (Inr info)" "lo = unat (base_address info)" "lo \<le> 0x8001234" "0x8001234 < hi"
    "\<forall>x. lo \<le> x \<and> x < hi \<longrightarrow> info_at demo_space x = Some (permission info, info_state info)"
    "lo = 0 \<or> info_at demo_space (lo - 1) \<noteq> Some (permission info, info_state info)"
    using query_reports_the_maximal_range [OF demo_space(1), of "0x8001234"] by auto
  have all: "info_at demo_space x = Some (Perm_None, MS_Free)" if "x < 0x40000000" for x
    using that by (simp add: info_at_def demo_space(3) content_def attrs_def initial_vma_def vend_def MAX_ADDRESS_def)
  have "(permission info, info_state info) = (Perm_None, MS_Free)" using r(3-5) all [of "0x8001234"] by auto
  then have "lo = 0" using r(3,6) all [of "lo - 1"] by auto
  then show ?thesis using r by (intro exI [of _ info]) (simp add: unat_eq_zero)
qed

section \<open>Kernel capabilities\<close>

text \<open>Well-formed capabilities: the mask has its 128 bits, there are at most eight mappings, each aligned to pages and not wrapping around.\<close>

definition mapping_ok :: "AddressMapping \<Rightarrow> bool" where
  "mapping_ok m \<longleftrightarrow> page_aligned (mapping_address m) \<and> page_aligned (mapping_size m) \<and> unat (mapping_address m) + unat (mapping_size m) \<le> 2 ^ 32"

definition caps_ok :: "KernelCaps \<Rightarrow> bool" where
  "caps_ok c \<longleftrightarrow> length (svc_access_mask c) = 0x80 \<and> length (address_mappings c) \<le> 8 \<and> (\<forall>m \<in> set (address_mappings c). mapping_ok m) \<and>
     unat (handle_table_size c) \<le> 0x3FF \<and> unat (caps_kernel_version c) \<le> 0xFFFF"

lemma length_set_svc_bits [simp]: "length (set_svc_bits index bits access) = length access"
  by (induction index bits access rule: set_svc_bits.induct) (simp add: set_svc_bits.simps)

lemma page_aligned_push: "page_aligned (push_bit 12 (d :: u32))"
proof -
  have "CITRA_PAGE_MASK = mask 12" by (simp add: mask_eq_exp_minus_1)
  moreover have "push_bit 12 d AND mask 12 = 0" by (simp only: take_bit_eq_mask [symmetric] take_bit_push_bit) simp
  ultimately show ?thesis unfolding page_aligned_def by (simp only:)
qed

lemma mapping_between_ok:
  assumes "page_aligned a" "page_aligned b"
  shows "mapping_ok \<lparr>mapping_address = a, mapping_size = (if a < b then b - a else 0), read_only = r, unk_flag = u\<rparr>"
proof (cases "a < b")
  case True
  then have "unat (b - a) = unat b - unat a" "unat a < unat b" by (simp_all add: unat_sub word_less_nat_alt word_le_nat_alt)
  then show ?thesis using True assms page_aligned_diff [of b a] unat_u32 [of b] by (simp add: mapping_ok_def)
next
  case False
  then show ?thesis using assms unat_u32 [of a] by (simp add: mapping_ok_def page_aligned_unat)
qed

lemma range_mapping_ok: "mapping_ok (range_mapping d e)"
  unfolding range_mapping_def Let_def by (rule mapping_between_ok) (rule page_aligned_push)+

lemma page_mapping_ok: "mapping_ok \<lparr>mapping_address = push_bit 12 d, mapping_size = 0x1000, read_only = r, unk_flag = u\<rparr>"
proof -
  define a where "a = push_bit 12 d"
  have al: "page_aligned a" "4096 dvd unat a" using page_aligned_push [of d] by (simp_all add: a_def page_aligned_unat)
  then have "unat a + 4096 \<le> 2 ^ 32" using unat_u32 [of a] by (elim dvdE) simp
  then show ?thesis using al unfolding a_def [symmetric] by (simp add: mapping_ok_def page_aligned_unat)
qed

lemma push_mapping_ok: "push_mapping m c = Some c' \<Longrightarrow> mapping_ok m \<Longrightarrow> caps_ok c \<Longrightarrow> caps_ok c'"
  by (auto simp: push_mapping_def caps_ok_def split: if_splits)

lemma and_bounds: "unat (d AND 0x3FF :: u32) \<le> 0x3FF" "unat (d AND 0xFFFF :: u32) \<le> 0xFFFF"
  using word_and_le1 [of d "0x3FF"] word_and_le1 [of d "0xFFFF"] by (simp_all add: word_le_nat_alt)

lemma caps_ok_fields:
  assumes "caps_ok c"
  shows "caps_ok (c\<lparr>svc_access_mask := set_svc_bits i bits (svc_access_mask c)\<rparr>)" "caps_ok (c\<lparr>handle_table_size := d AND 0x3FF\<rparr>)"
    "caps_ok (c\<lparr>process_flags := f\<rparr>)" "caps_ok (c\<lparr>caps_kernel_version := d AND 0xFFFF\<rparr>)"
  using assms and_bounds [of d] by (simp_all add: caps_ok_def)

definition parsed_ok :: "KernelCaps \<Rightarrow> u32 list \<Rightarrow> KernelCaps option \<Rightarrow> bool" where
  "parsed_ok c ds r \<longleftrightarrow> (case r of Some c' \<Rightarrow> caps_ok c' | None \<Rightarrow> 8 < length (address_mappings c) + length ds)"

lemma parsed_step:
  "parsed_ok c' es r \<Longrightarrow> length (address_mappings c') + length es \<le> length (address_mappings c) + length ds \<Longrightarrow> parsed_ok c ds r"
  by (simp add: parsed_ok_def split: option.splits)

lemma parsed_if: "(P \<Longrightarrow> parsed_ok c ds a) \<Longrightarrow> (\<not> P \<Longrightarrow> parsed_ok c ds b) \<Longrightarrow> parsed_ok c ds (if P then a else b)"
  by simp

lemma parsed_push:
  assumes "caps_ok c" "mapping_ok m" "length es < length ds" "\<And>c'. caps_ok c' \<Longrightarrow> parsed_ok c' es (f c')"
  shows "parsed_ok c ds (push_mapping m c \<bind> f)"
proof (cases "push_mapping m c")
  case None
  then show ?thesis using assms(3) by (auto simp: parsed_ok_def push_mapping_def split: if_splits)
next
  case (Some c')
  have "length (address_mappings c') = Suc (length (address_mappings c))" using Some by (auto simp: push_mapping_def split: if_splits)
  then show ?thesis using parsed_step [OF assms(4) [OF push_mapping_ok [OF Some assms(2,1)]]] assms(3) Some by simp
qed

lemma ParseKernelCaps_ok: "caps_ok c \<Longrightarrow> parsed_ok c ds (ParseKernelCaps ds c)"
proof (induction "length ds" arbitrary: ds c rule: less_induct)
  case less
  show ?case
  proof (cases ds)
    case Nil
    then show ?thesis using less.prems by (simp add: parsed_ok_def)
  next
    case (Cons d es)
    have same: "parsed_ok c (d # es) (ParseKernelCaps es c')" if "caps_ok c'" "address_mappings c' = address_mappings c" for c'
      using parsed_step [OF less.hyps [of es c']] that Cons by simp
    have range: "parsed_ok c (d # es) (case es of [] \<Rightarrow> Some c | e # es' \<Rightarrow> if drop_bit 20 e AND 0xFFE \<noteq> 0xFF8 then ParseKernelCaps es c
        else push_mapping (range_mapping d e) c \<bind> ParseKernelCaps es')"
    proof (cases es)
      case (Cons e es')
      have "parsed_ok c (d # es) (push_mapping (range_mapping d e) c \<bind> ParseKernelCaps es')"
      proof (rule parsed_push [OF less.prems range_mapping_ok, of es'])
        show "parsed_ok c' es' (ParseKernelCaps es' c')" if "caps_ok c'" for c' using less.hyps [OF _ that] Cons \<open>ds = d # es\<close> by simp
      qed (use Cons in simp)
      then show ?thesis using Cons same [OF less.prems] by simp
    qed (use less.prems in \<open>simp add: parsed_ok_def\<close>)
    have page: "parsed_ok c (d # es) (push_mapping \<lparr>mapping_address = push_bit 12 d, mapping_size = 0x1000, read_only = False, unk_flag = False\<rparr> c \<bind> ParseKernelCaps es)"
    proof (rule parsed_push [OF less.prems page_mapping_ok, of es])
      show "parsed_ok c' es (ParseKernelCaps es c')" if "caps_ok c'" for c' using less.hyps [OF _ that] Cons by simp
    qed simp
    have fields: "parsed_ok c (d # es) (ParseKernelCaps es c)" "parsed_ok c (d # es) (ParseKernelCaps es (c\<lparr>process_flags := f\<rparr>))"
      "parsed_ok c (d # es) (ParseKernelCaps es (c\<lparr>svc_access_mask := set_svc_bits i bits (svc_access_mask c)\<rparr>))"
      "parsed_ok c (d # es) (ParseKernelCaps es (c\<lparr>handle_table_size := d AND 0x3FF\<rparr>))"
      "parsed_ok c (d # es) (ParseKernelCaps es (c\<lparr>caps_kernel_version := d AND 0xFFFF\<rparr>))" for f i bits
      by (rule same, rule less.prems caps_ok_fields [OF less.prems], simp)+
    show ?thesis unfolding Cons ParseKernelCaps.simps(2) Let_def by (intro parsed_if range page fields)
  qed
qed

lemma Set3dsxKernelCaps_ok: "caps_ok c \<Longrightarrow> caps_ok (Set3dsxKernelCaps c)"
  by (simp add: Set3dsxKernelCaps_def caps_ok_def mapping_ok_def page_aligned_unat)


definition demo_caps :: KernelCaps where
  "demo_caps = \<lparr>svc_access_mask = replicate 0x80 False, handle_table_size = 0x200, process_flags = 0, address_mappings = [], caps_kernel_version = 0\<rparr>"


end
