(* ===== verification/Process_Heap.thy ===== *)
theory Process_Heap
  imports Process_Facts
begin

text \<open>
  Allocation and release of heap memory: the blocks of FCRAM a region gives, mapped one behind the other, and given back.
\<close>

section \<open>Mapping one block\<close>

text \<open>What may happen to an address outside the mapped range: \<open>Reprotect\<close> gets the merged area, so neighbours that were writable, had the same state and
  continued the memory of the block get the permissions of the block.\<close>

definition touched :: "VMAPermission \<Rightarrow> MemoryState \<Rightarrow> attrs option \<Rightarrow> attrs option \<Rightarrow> bool" where
  "touched perms st c c' \<longleftrightarrow> c' = c \<or> (\<exists>r. c = Some (VMA_BackingMemory, Perm_ReadWrite, st, r) \<and> c' = Some (VMA_BackingMemory, perms, st, r))"

lemma touched_refl [simp]: "touched perms st c c" by (simp add: touched_def)

lemma touched_trans: "touched perms st c c' \<Longrightarrow> touched perms st c' c'' \<Longrightarrow> touched perms st c c''"
  by (auto simp: touched_def)

lemma touched_rw: "touched Perm_ReadWrite st c c' \<longleftrightarrow> c' = c"
  by (auto simp: touched_def)

lemma touched_done: "touched perms st (Some (ty, perms, st', r)) c' \<Longrightarrow> c' = Some (ty, perms, st', r)"
  by (auto simp: touched_def)

lemma fill_fcram_vm:
  assumes "unlocked_space vm" "unat lower + unat sz \<le> 0x10000000"
  shows "\<exists>m. fill_fcram lower (lower + sz) (vm_memory vm) = Some m \<and> unlocked_space (vm\<lparr>vm_memory := m\<rparr>)"
proof -
  have u: "unat (lower + sz) = unat lower + unat sz" using assms(2) by (simp add: unat_plus_less)
  have "lower \<le> FCRAM_N3DS_SIZE" "lower + sz \<le> FCRAM_N3DS_SIZE" using assms(2) u by (simp_all add: word_le_nat_alt)
  moreover have "unlocked_space (vm\<lparr>vm_memory := m\<rparr>)" if "tables m = tables (vm_memory vm)" for m
    using assms(1) that by (simp add: unlocked_space_def vm_inv_def vm_core_def)
  ultimately show ?thesis by (simp add: fill_fcram_def)
qed

text \<open>Mapping and protecting, for any memory.\<close>

lemma map_and_protect_ok:
  assumes vm: "unlocked_space vm" and g: "good_range target sz" and b: "backs r sz" and f: "free_range (vm_content vm) target sz"
  shows "\<exists>vm'. map_and_protect target r sz st perms vm = Some vm' \<and> unlocked_space vm' \<and>
    (\<forall>x. if unat target \<le> x \<and> x < unat target + unat sz then vm_content vm' x = Some (mapped_at (unat target) r st perms x)
      else touched perms st (vm_content vm x) (vm_content vm' x))"
proof -
  have i: "vm_inv vm" "\<not> is_locked vm" using vm by (simp_all add: unlocked_space_def)
  let ?in = "\<lambda>x. unat target \<le> x \<and> x < unat target + unat sz"
  obtain vm1 xs v ys where m: "MapBackingMemory target r sz st vm = Some (Inr (vma_base v), vm1)" "vma_map vm1 = xs @ v # ys" "ub v \<le> unat target"
    "unat target + unat sz \<le> vend v" "vm_inv vm1" "same_space vm vm1"
    "\<forall>x. vm_content vm1 x = (if ?in x then Some (mapped_at (unat target) r st Perm_ReadWrite x) else vm_content vm x)"
    using MapBackingMemory_ok(2) [OF i g b, of st] f unfolding free_range_def by blast
  have lk: "\<not> is_locked vm1" using i(2) m(6) same_space_locked by simp
  have t: "tiled 0 (xs @ v # ys) vm_end" using vm_invD(2) [OF m(5)] m(2) by simp
  have in_v: "vm_content vm1 x = Some (attrs v x)" if "ub v \<le> x" "x < vend v" for x using content_mid [OF t, of x] m(2) that by simp
  have "vm_content vm1 (unat target) = Some (mapped_at (unat target) r st Perm_ReadWrite (unat target))" using m(7) good_rangeD(4) [OF g] by simp
  then have v: "vma_type v = VMA_BackingMemory" "vma_permissions v = Perm_ReadWrite" "meminfo_state v = st"
    using in_v [of "unat target"] m(3,4) good_rangeD(4) [OF g] by (auto simp: mapped_at_def attrs_def)
  obtain key vm2 where p: "Reprotect (vma_base v) perms vm1 = Some (key, vm2)" "vm_inv vm2" "same_space vm1 vm2"
    "\<forall>x. vm_content vm2 x = updated (set_perms perms) (ub v) (vend v) (vm_content vm1) x"
    using Reprotect_ok [OF m(5) lk m(2), of perms] v(1) by auto
  have step: "touched perms st (vm_content vm1 x) (vm_content vm2 x)" for x
    using p(4) in_v [of x] v by (auto simp: updated_def set_perms_def attrs_def touched_def)
  have "vm_content vm2 x = Some (mapped_at (unat target) r st perms x)" if "?in x" for x
    using p(4) m(3,4,7) that by (simp add: updated_def set_perms_def mapped_at_def)
  moreover have "touched perms st (vm_content vm x) (vm_content vm2 x)" if "\<not> ?in x" for x using step [of x] m(7) that by simp
  moreover have "unlocked_space vm2" using p(2,3) lk same_space_locked by (simp add: unlocked_space_def)
  ultimately show ?thesis using m(1) p(1) by (simp add: map_and_protect_def)
qed

lemma map_fcram_ok:
  assumes vm: "unlocked_space vm" and g: "good_range target sz" and l: "unat lower + unat sz \<le> 0x10000000" and f: "free_range (vm_content vm) target sz"
  shows "\<exists>vm'. map_fcram target lower sz perms st vm = Some vm' \<and> unlocked_space vm' \<and>
    (\<forall>x. if unat target \<le> x \<and> x < unat target + unat sz then vm_content vm' x = Some (mapped_at (unat target) (Some (FCRAM, unat lower)) st perms x)
      else touched perms st (vm_content vm x) (vm_content vm' x))"
proof -
  obtain m where m: "fill_fcram lower (lower + sz) (vm_memory vm) = Some m" "unlocked_space (vm\<lparr>vm_memory := m\<rparr>)" using fill_fcram_vm [OF vm l] by blast
  have e: "map_fcram target lower sz perms st vm = map_and_protect target (Some (FCRAM, unat lower)) sz st perms (vm\<lparr>vm_memory := m\<rparr>)"
    using m(1) l by (simp add: map_fcram_def GetFCRAMRef_def make_ref_def map_and_protect_def)
  have b: "backs (Some (FCRAM, unat lower)) sz" using l by (simp add: backs_def)
  have c: "vma_map (vm\<lparr>vm_memory := m\<rparr>) = vma_map vm" by simp
  show ?thesis using map_and_protect_ok [OF m(2) g b, of st perms] f unfolding e c by blast
qed

section \<open>Mapping several blocks\<close>

definition block_length :: "interval \<Rightarrow> nat" where "block_length iv = unat (snd iv) - unat (fst iv)"

definition total_length :: "interval list \<Rightarrow> nat" where "total_length bs = sum_list (map block_length bs)"

lemma total_length_simps [simp]: "total_length [] = 0" "total_length (iv # bs) = block_length iv + total_length bs"
  by (simp_all add: total_length_def)

text \<open>The address in FCRAM of the byte \<open>i\<close> of blocks laid out one behind the other.\<close>

fun block_point :: "interval list \<Rightarrow> nat \<Rightarrow> nat" where
  "block_point [] i = 0"
| "block_point (iv # bs) i = (if i < block_length iv then unat (fst iv) + i else block_point bs (i - block_length iv))"

definition fcram_block :: "interval \<Rightarrow> bool" where
  "fcram_block iv \<longleftrightarrow> fst iv < snd iv \<and> unat (snd iv) \<le> 0x10000000 \<and> page_aligned (fst iv) \<and> page_aligned (snd iv)"

lemma fcram_blockD:
  assumes "fcram_block iv"
  shows "unat (snd iv - fst iv) = block_length iv" "0 < block_length iv" "unat (fst iv) + block_length iv = unat (snd iv)" "page_aligned (snd iv - fst iv)"
  using assms page_aligned_diff [of "snd iv" "fst iv"] by (auto simp: fcram_block_def block_length_def unat_sub word_less_nat_alt word_le_nat_alt)

lemma map_heap_blocks_ok:
  "unlocked_space vm \<Longrightarrow> \<forall>iv \<in> set bs. fcram_block iv \<Longrightarrow> page_aligned target \<Longrightarrow> unat target + total_length bs \<le> vm_end \<Longrightarrow>
   \<forall>x. unat target \<le> x \<and> x < unat target + total_length bs \<longrightarrow> map_option fst (vm_content vm x) = Some VMA_Free \<Longrightarrow>
   \<exists>vm'. map_heap_blocks target bs perms st vm = Some vm' \<and> unlocked_space vm' \<and>
     (\<forall>i < total_length bs. vm_content vm' (unat target + i) = Some (VMA_BackingMemory, perms, st, Some (FCRAM, block_point bs i))) \<and>
     (\<forall>x. \<not> (unat target \<le> x \<and> x < unat target + total_length bs) \<longrightarrow> touched perms st (vm_content vm x) (vm_content vm' x))"
proof (induction bs arbitrary: target vm)
  case (Cons iv bs)
  let ?n = "block_length iv"
  have iv: "fcram_block iv" using Cons.prems(2) by simp
  note d = fcram_blockD [OF iv]
  have g: "good_range target (snd iv - fst iv)" using d Cons.prems(3,4) by (simp add: good_range_def word_less_nat_alt)
  have f: "free_range (vm_content vm) target (snd iv - fst iv)" using Cons.prems(5) d(1) by (simp add: free_range_def)
  have l: "unat (fst iv) + unat (snd iv - fst iv) \<le> 0x10000000" using d iv by (simp add: fcram_block_def)
  obtain vm1 where m: "map_fcram target (fst iv) (snd iv - fst iv) perms st vm = Some vm1" "unlocked_space vm1"
    "\<And>x. if unat target \<le> x \<and> x < unat target + ?n then vm_content vm1 x = Some (mapped_at (unat target) (Some (FCRAM, unat (fst iv))) st perms x)
      else touched perms st (vm_content vm x) (vm_content vm1 x)"
    using map_fcram_ok [OF Cons.prems(1) g l f, of perms st] unfolding d(1) by blast
  define target' where "target' = target + (snd iv - fst iv)"
  have t': "unat target' = unat target + ?n" "page_aligned target'" using good_rangeD(6,10) [OF g] d(1) by (simp_all add: target'_def)
  have f1: "map_option fst (vm_content vm1 x) = Some VMA_Free" if x: "unat target' \<le> x" "x < unat target' + total_length bs" for x
  proof -
    have "map_option fst (vm_content vm x) = Some VMA_Free" using Cons.prems(5) x t'(1) by simp
    moreover have "touched perms st (vm_content vm x) (vm_content vm1 x)" using m(3) [of x] x t'(1) by simp
    ultimately show ?thesis by (auto simp: touched_def)
  qed
  have c: "\<forall>iv \<in> set bs. fcram_block iv" "unat target' + total_length bs \<le> vm_end" using Cons.prems(2,4) t'(1) by simp_all
  obtain vm2 where r: "map_heap_blocks target' bs perms st vm1 = Some vm2" "unlocked_space vm2"
    "\<forall>i < total_length bs. vm_content vm2 (unat target' + i) = Some (VMA_BackingMemory, perms, st, Some (FCRAM, block_point bs i))"
    "\<And>x. \<not> (unat target' \<le> x \<and> x < unat target' + total_length bs) \<Longrightarrow> touched perms st (vm_content vm1 x) (vm_content vm2 x)"
    using Cons.IH [OF m(2) c(1) t'(2) c(2)] f1 by blast
  have "vm_content vm2 (unat target + i) = Some (VMA_BackingMemory, perms, st, Some (FCRAM, block_point (iv # bs) i))" if i: "i < total_length (iv # bs)" for i
  proof (cases "i < ?n")
    case True
    then have "vm_content vm1 (unat target + i) = Some (VMA_BackingMemory, perms, st, Some (FCRAM, unat (fst iv) + i))"
      using m(3) [of "unat target + i"] by (simp add: mapped_at_def)
    then show ?thesis using r(4) [of "unat target + i"] t'(1) True touched_done by auto
  next
    case False
    then show ?thesis using r(3) i t'(1) by (auto dest!: spec [of _ "i - ?n"])
  qed
  moreover have "touched perms st (vm_content vm x) (vm_content vm2 x)" if x: "\<not> (unat target \<le> x \<and> x < unat target + total_length (iv # bs))" for x
  proof -
    have "\<not> (unat target \<le> x \<and> x < unat target + ?n)" "\<not> (unat target' \<le> x \<and> x < unat target' + total_length bs)" using x t'(1) by auto
    then show ?thesis using touched_trans m(3) [of x] r(4) [of x] by auto
  qed
  ultimately show ?case using m(1) r(1,2) by (simp add: target'_def)
qed simp

section \<open>Whole pages\<close>

definition page_set :: "u32 set \<Rightarrow> bool" where
  "page_set S \<longleftrightarrow> (\<forall>x y. unat x div 4096 = unat y div 4096 \<longrightarrow> (x \<in> S \<longleftrightarrow> y \<in> S))"

lemma page_set_ops: "page_set {}" "page_set S \<Longrightarrow> page_set T \<Longrightarrow> page_set (S \<union> T)" "page_set S \<Longrightarrow> page_set T \<Longrightarrow> page_set (S - T)"
  unfolding page_set_def by blast+

lemma page_set_span:
  assumes "page_aligned a" "page_aligned b"
  shows "page_set {a..<b}"
proof -
  obtain p q where p: "unat a = 4096 * p" "unat b = 4096 * q" using assms by (auto simp: page_aligned_unat elim!: dvdE)
  have "x \<in> {a..<b} \<longleftrightarrow> p \<le> unat x div 4096 \<and> unat x div 4096 < q" for x
    by (auto simp: word_le_nat_alt word_less_nat_alt p div_less_iff_less_mult less_eq_div_iff_mult_less_eq mult.commute)
  then show ?thesis by (simp add: page_set_def)
qed

lemma same_page_pred:
  assumes "\<not> page_aligned a"
  shows "unat (a - 1) = unat a - 1" "unat (a - 1) div 4096 = unat a div 4096" "0 < unat a"
proof -
  have r: "0 < unat a mod 4096" using assms by (simp add: page_aligned_unat dvd_eq_mod_eq_0)
  then show p: "0 < unat a" by (cases "unat a = 0") auto
  then show u: "unat (a - 1) = unat a - 1" by (simp add: unat_sub word_le_nat_alt)
  have "unat a - 1 = unat a div 4096 * 4096 + (unat a mod 4096 - 1)" using r div_mult_mod_eq [of "unat a" 4096] by linarith
  moreover have "unat a mod 4096 - 1 < 4096" using mod_less_divisor [of 4096 "unat a"] by linarith
  ultimately show "unat (a - 1) div 4096 = unat a div 4096" unfolding u by (metis div_mult_self3 div_less add_0_right zero_neq_numeral)
qed

text \<open>The maximal blocks of a set of whole pages begin and end at pages.\<close>

lemma block_pages:
  assumes c: "well_spaced bs" and s: "page_set (spans bs)" and iv: "iv \<in> set bs"
  shows "page_aligned (fst iv)" "page_aligned (snd iv)"
proof -
  have lt: "fst iv < snd iv" using well_spaced_blocks(2) [OF c iv iv] .
  have in_block: "x \<in> spans bs \<longleftrightarrow> (\<exists>jv \<in> set bs. fst jv \<le> x \<and> x < snd jv)" for x by (simp add: spans_def)
  show "page_aligned (fst iv)"
  proof (rule ccontr)
    assume n: "\<not> page_aligned (fst iv)"
    note p = same_page_pred [OF n]
    have "fst iv \<in> spans bs" unfolding in_block using iv lt by auto
    then have "fst iv - 1 \<in> spans bs" using s p(2) unfolding page_set_def by blast
    then obtain jv where jv: "jv \<in> set bs" "fst jv \<le> fst iv - 1" "fst iv - 1 < snd jv" unfolding in_block by blast
    have u: "unat (fst jv) \<le> unat (fst iv) - 1" "unat (fst iv) - 1 < unat (snd jv)" using jv(2,3) p(1) by (simp_all add: word_le_nat_alt word_less_nat_alt)
    then show False using well_spaced_blocks(1) [OF c iv jv(1)] lt p(3) by (auto simp: word_less_nat_alt)
  qed
  show "page_aligned (snd iv)"
  proof (rule ccontr)
    assume n: "\<not> page_aligned (snd iv)"
    note p = same_page_pred [OF n]
    have "unat (fst iv) \<le> unat (snd iv) - 1" using lt by (simp add: word_less_nat_alt)
    then have "snd iv - 1 \<in> spans bs" unfolding in_block using iv p(1,3) by (intro bexI [of _ iv]) (simp_all add: word_le_nat_alt word_less_nat_alt)
    then have "snd iv \<in> spans bs" using s p(2) unfolding page_set_def by blast
    then obtain jv where jv: "jv \<in> set bs" "fst jv \<le> snd iv" "snd iv < snd jv" unfolding in_block by blast
    then show False using well_spaced_blocks(1) [OF c iv jv(1)] lt by auto
  qed
qed

context interval_sets
begin

lemma heap_loop_pages:
  "\<forall>iv \<in> set bs. fst iv < snd iv \<and> page_aligned (fst iv) \<and> page_aligned (snd iv) \<Longrightarrow> page_aligned rest \<Longrightarrow> page_set (points ops result) \<Longrightarrow>
   heap_loop ops bs rest result = (result', rest') \<Longrightarrow> page_set (points ops result')"
proof (induction bs arbitrary: rest result)
  case (Cons iv bs)
  have iv: "fst iv < snd iv" "page_aligned (fst iv)" "page_aligned (snd iv)" using Cons.prems(1) by simp_all
  show ?case
  proof (cases "rest \<le> snd iv - fst iv")
    case True
    have "page_aligned (snd iv - rest)" using page_aligned_diff [OF iv(3) Cons.prems(2)] block_sub [OF iv(1) True] iv(1) by (simp add: word_le_nat_alt word_less_nat_alt)
    then have "page_set (points ops (icl_add ops result (snd iv - rest, snd iv)))"
      using Cons.prems(3) page_set_span [of "snd iv - rest" "snd iv"] iv(3) by (simp add: points_add page_set_ops)
    then show ?thesis using Cons.prems(4) True by auto
  next
    case False
    have d: "page_aligned (snd iv - fst iv)" using page_aligned_diff [OF iv(3,2)] iv(1) by simp
    then have "page_aligned (rest - (snd iv - fst iv))" using page_aligned_diff [OF Cons.prems(2) d] False by simp
    moreover have "page_set (points ops (icl_add ops result iv))" using Cons.prems(3) page_set_span [OF iv(2,3)] by (simp add: points_add page_set_ops)
    ultimately show ?thesis using Cons.IH [of "rest - (snd iv - fst iv)" "icl_add ops result iv"] Cons.prems(1,4) False by simp
  qed
qed simp

lemma HeapAllocate_pages:
  assumes "page_set (free_points ops r)" "page_aligned sz" "Region_HeapAllocate ops sz r = Some (result, r')"
  shows "page_set (points ops result)"
proof -
  obtain res rest where l: "heap_loop ops (rev (icl_blocks ops (free_blocks r))) sz (icl_empty ops) = (res, rest)" by fastforce
  have "page_set (points ops res)"
    by (rule heap_loop_pages [OF _ assms(2) _ l])
      (use block_pages [OF blocks_well_spaced assms(1)] well_spaced_blocks(2) [OF blocks_well_spaced [of "free_blocks r"]] in \<open>auto simp: points_empty page_set_ops\<close>)
  then show ?thesis using assms(3) l by (auto simp: Region_HeapAllocate_def points_empty page_set_ops split: if_splits)
qed

end

section \<open>Blocks in order\<close>

lemma total_length_card: "well_spaced bs \<Longrightarrow> total_length bs = card (spans bs)"
proof (induction bs)
  case (Cons iv bs)
  have "span iv \<inter> spans bs = {}"
  proof (rule ccontr)
    assume "span iv \<inter> spans bs \<noteq> {}"
    then obtain x where "x < snd iv" "x \<in> spans bs" by auto
    then show False using spans_bounds [OF Cons.prems, of x] by simp
  qed
  then show ?case using Cons by (simp add: card_Un_disjoint card_span block_length_def)
qed simp

lemma block_point_in: "\<forall>iv \<in> set bs. fst iv < snd iv \<Longrightarrow> i < total_length bs \<Longrightarrow> \<exists>iv \<in> set bs. unat (fst iv) \<le> block_point bs i \<and> block_point bs i < unat (snd iv)"
proof (induction bs arbitrary: i)
  case (Cons iv bs)
  have lt: "unat (fst iv) < unat (snd iv)" using Cons.prems(1) by (simp add: word_less_nat_alt)
  show ?case
  proof (cases "i < block_length iv")
    case True
    then have "unat (fst iv) + i < unat (snd iv)" using lt by (simp add: block_length_def)
    then show ?thesis using True by (intro bexI [of _ iv]) simp_all
  next
    case False
    then obtain jv where "jv \<in> set bs" "unat (fst jv) \<le> block_point bs (i - block_length iv)" "block_point bs (i - block_length iv) < unat (snd jv)"
      using Cons.IH [of "i - block_length iv"] Cons.prems by fastforce
    then show ?thesis using False by (intro bexI [of _ jv]) simp_all
  qed
qed simp

lemma block_point_mono: "well_spaced bs \<Longrightarrow> i < j \<Longrightarrow> j < total_length bs \<Longrightarrow> block_point bs i < block_point bs j"
proof (induction bs arbitrary: i j)
  case (Cons iv bs)
  let ?n = "block_length iv"
  have lt: "\<forall>jv \<in> set bs. fst jv < snd jv" "\<forall>jv \<in> set bs. snd iv < fst jv" "well_spaced bs" using Cons.prems(1) by (auto simp: well_spaced_def)
  consider "j < ?n" | "i < ?n" "?n \<le> j" | "?n \<le> i" using Cons.prems(2) by linarith
  then show ?case
  proof cases
    case 2
    then obtain jv where jv: "jv \<in> set bs" "unat (fst jv) \<le> block_point bs (j - ?n)" using block_point_in [OF lt(1), of "j - ?n"] Cons.prems(3) by fastforce
    have "unat (snd iv) < unat (fst jv)" using lt(2) jv(1) by (simp add: word_less_nat_alt)
    then show ?thesis using 2 jv(2) by (simp add: block_length_def)
  next
    case 3
    then show ?thesis using Cons.IH [OF lt(3), of "i - ?n" "j - ?n"] Cons.prems(2,3) by simp
  qed (use Cons.prems(2) in simp)
qed simp

lemma block_point_onto: "\<forall>iv \<in> set bs. fst iv < snd iv \<Longrightarrow> x \<in> spans bs \<Longrightarrow> \<exists>i < total_length bs. unat x = block_point bs i"
proof (induction bs)
  case (Cons iv bs)
  show ?case
  proof (cases "x \<in> span iv")
    case True
    then have "unat (fst iv) \<le> unat x" "unat x < unat (snd iv)" by (simp_all add: word_le_nat_alt word_less_nat_alt)
    then have "unat x - unat (fst iv) < block_length iv" "unat (fst iv) + (unat x - unat (fst iv)) = unat x" by (simp_all add: block_length_def)
    then show ?thesis by (intro exI [of _ "unat x - unat (fst iv)"]) simp
  next
    case False
    then obtain i where "i < total_length bs" "unat x = block_point bs i" using Cons by auto
    then show ?thesis by (intro exI [of _ "block_length iv + i"]) simp
  qed
qed simp

text \<open>The addresses in FCRAM of a part of the blocks.\<close>

definition part_points :: "interval list \<Rightarrow> nat \<Rightarrow> nat \<Rightarrow> u32 set" where
  "part_points bs a b = {x. \<exists>i. a \<le> i \<and> i < b \<and> unat x = block_point bs i}"

lemma part_points_all:
  assumes "well_spaced bs"
  shows "part_points bs 0 (total_length bs) = spans bs"
proof -
  have lt: "\<forall>iv \<in> set bs. fst iv < snd iv" using assms by (simp add: well_spaced_def)
  have "x \<in> spans bs" if i: "i < total_length bs" "unat x = block_point bs i" for x i
  proof -
    obtain iv where "iv \<in> set bs" "unat (fst iv) \<le> unat x" "unat x < unat (snd iv)" using block_point_in [OF lt i(1)] i(2) by auto
    then show ?thesis unfolding spans_def by (auto simp: word_le_nat_alt word_less_nat_alt)
  qed
  then show ?thesis using block_point_onto [OF lt] by (auto simp: part_points_def)
qed

lemma part_points_split: "a \<le> b \<Longrightarrow> b \<le> c \<Longrightarrow> part_points bs a c = part_points bs a b \<union> part_points bs b c"
  by (auto simp: part_points_def) (metis le_trans not_le order_less_le_trans)+

lemma part_points_disjoint:
  assumes "well_spaced bs" "b \<le> c" "c \<le> total_length bs"
  shows "part_points bs a b \<inter> part_points bs b c = {}"
proof -
  have False if "i < b" "b \<le> j" "j < c" "block_point bs i = block_point bs j" for i j
    using block_point_mono [OF assms(1), of i j] that assms(3) by simp
  then show ?thesis unfolding part_points_def by fastforce
qed

lemma part_points_block:
  assumes "\<And>j. j < unat n \<Longrightarrow> block_point bs (a + j) = unat l + j" "unat l + unat n < 2 ^ 32"
  shows "part_points bs a (a + unat n) = {l..<l + n}"
proof -
  have u: "unat (l + n) = unat l + unat n" using assms(2) by (rule unat_plus_less)
  have "(\<exists>i. a \<le> i \<and> i < a + unat n \<and> unat x = block_point bs i) \<longleftrightarrow> unat l \<le> unat x \<and> unat x < unat l + unat n" for x :: u32
  proof
    assume "\<exists>i. a \<le> i \<and> i < a + unat n \<and> unat x = block_point bs i"
    then obtain i where i: "a \<le> i" "i < a + unat n" "unat x = block_point bs i" by blast
    then have "unat x = unat l + (i - a)" "i - a < unat n" using assms(1) [of "i - a"] by simp_all
    then show "unat l \<le> unat x \<and> unat x < unat l + unat n" by linarith
  next
    assume h: "unat l \<le> unat x \<and> unat x < unat l + unat n"
    then have "unat x - unat l < unat n" "unat l + (unat x - unat l) = unat x" by linarith+
    then have "a \<le> a + (unat x - unat l)" "a + (unat x - unat l) < a + unat n" "unat x = block_point bs (a + (unat x - unat l))"
      using assms(1) [of "unat x - unat l"] by linarith+
    then show "\<exists>i. a \<le> i \<and> i < a + unat n \<and> unat x = block_point bs i" by blast
  qed
  then show ?thesis by (auto simp: part_points_def word_le_nat_alt word_less_nat_alt u)
qed

section \<open>Allocation\<close>

definition proc_ok :: "'i icl \<Rightarrow> 'i ProcessMemory \<Rightarrow> bool" where
  "proc_ok ops p \<longleftrightarrow> unlocked_space (vm_manager p) \<and> region_ok ops (own_region p) \<and> \<not> region_locked (own_region p) \<and>
     page_set (free_points ops (own_region p)) \<and> unat (region_base (own_region p)) + unat (region_size (own_region p)) \<le> 0x10000000 \<and>
     points ops (holding_memory p) \<inter> free_points ops (own_region p) = {}"

definition heap_range :: "u32 \<Rightarrow> u32 \<Rightarrow> bool" where
  "heap_range target sz \<longleftrightarrow> page_aligned target \<and> page_aligned sz \<and> 0 < sz \<and> unat HEAP_BASE \<le> unat target \<and> unat target + unat sz \<le> unat HEAP_LIMIT"

lemma heap_rangeD:
  assumes "heap_range target sz"
  shows "good_range target sz" "\<not> target < HEAP_BASE" "\<not> target + sz > HEAP_LIMIT" "\<not> target + sz < target"
proof -
  show g: "good_range target sz" using assms by (simp add: heap_range_def good_range_def)
  show "\<not> target < HEAP_BASE" "\<not> target + sz > HEAP_LIMIT" "\<not> target + sz < target"
    using assms good_rangeD(6) [OF g] by (simp_all add: heap_range_def word_less_nat_alt word_le_nat_alt not_less)
qed

text \<open>The test of \<open>HeapAllocate\<close> looks at one area only; as free areas are merged, it sees the whole range.\<close>

lemma free_test:
  assumes inv: "vm_inv vm" and g: "good_range target sz"
  shows "\<exists>v. FindVMA target (vma_map vm) = Some (Some (vma_base v)) \<and> vma_at (vma_base v) (vma_map vm) = Some v \<and>
    ((vma_type v \<noteq> VMA_Free \<or> vma_base v + vma_size v < target + sz) \<longleftrightarrow> \<not> free_range (vm_content vm) target sz)"
proof -
  note i = vm_invD [OF inv] and d = good_rangeD [OF g]
  obtain xs v ys where v: "vma_map vm = xs @ v # ys" "ub v \<le> unat target" "unat target < vend v" using tiled_find [OF i(2), of "unat target"] d(4,5) by auto
  have t: "tiled 0 (xs @ v # ys) vm_end" using i(2) v(1) by simp
  have e: "vend v \<le> vm_end" using tiled_in [OF t, of v] by simp
  then have "unat (vma_base v + vma_size v) = vend v" using unat_plus_less [of "vma_base v" "vma_size v"] by (simp add: vend_def)
  then have lt: "vma_base v + vma_size v < target + sz \<longleftrightarrow> vend v < unat target + unat sz" by (simp add: word_less_nat_alt d(6))
  have "free_range (vm_content vm) target sz" if "vma_type v = VMA_Free" "unat target + unat sz \<le> vend v"
    unfolding free_range_def v(1) using free_at_mid [OF t] that v(2) by (meson le_trans order_less_le_trans)
  moreover have "vma_type v = VMA_Free \<and> unat target + unat sz \<le> vend v" if "free_range (vm_content vm) target sz"
    using free_area_covers [OF t _ v(2,3) d(5) _ d(4)] i(4) that v(1) by (simp add: free_range_def)
  ultimately have "(vma_type v \<noteq> VMA_Free \<or> vma_base v + vma_size v < target + sz) \<longleftrightarrow> \<not> free_range (vm_content vm) target sz" unfolding lt by linarith
  then show ?thesis using FindVMA_mid [OF t v(2,3)] vma_at_mid [OF t] v(1) by (intro exI [of _ v]) simp
qed

lemma allocated_blocks:
  assumes "well_spaced bs" "page_set (spans bs)" "\<And>x. x \<in> spans bs \<Longrightarrow> unat x < 0x10000000" "iv \<in> set bs"
  shows "fcram_block iv"
proof -
  have lt: "fst iv < snd iv" using well_spaced_blocks(2) [OF assms(1,4,4)] .
  then have u: "unat (fst iv) < unat (snd iv)" "unat (snd iv - 1) = unat (snd iv) - 1" by (simp_all add: word_less_nat_alt unat_sub word_le_nat_alt)
  then have "snd iv - 1 \<in> spans bs" using assms(4) unfolding spans_def by (auto simp: word_le_nat_alt word_less_nat_alt intro!: bexI [of _ iv])
  then have "unat (snd iv) \<le> 0x10000000" using assms(3) [of "snd iv - 1"] u by simp
  then show ?thesis using lt block_pages [OF assms(1,2,4)] by (simp add: fcram_block_def)
qed

lemma proc_okD:
  assumes "proc_ok ops p"
  shows "unlocked_space (vm_manager p)" "vm_inv (vm_manager p)" "region_ok ops (own_region p)" "\<not> region_locked (own_region p)"
    "page_set (free_points ops (own_region p))" "unat (region_base (own_region p)) + unat (region_size (own_region p)) \<le> 0x10000000"
    "points ops (holding_memory p) \<inter> free_points ops (own_region p) = {}"
    "\<And>x. x \<in> free_points ops (own_region p) \<Longrightarrow> unat x < 0x10000000"
  using assms by (auto simp: proc_ok_def unlocked_space_def region_ok_def region_span_def subset_iff)

text \<open>What a successful allocation leaves: blocks \<open>bs\<close> of FCRAM behind the range.\<close>

definition heap_mapped :: "interval list \<Rightarrow> u32 \<Rightarrow> VMAPermission \<Rightarrow> MemoryState \<Rightarrow> VMManager \<Rightarrow> VMManager \<Rightarrow> bool" where
  "heap_mapped bs target perms st vm vm' \<longleftrightarrow>
     (\<forall>i < total_length bs. vm_content vm' (unat target + i) = Some (VMA_BackingMemory, perms, st, Some (FCRAM, block_point bs i))) \<and>
     (\<forall>x. \<not> (unat target \<le> x \<and> x < unat target + total_length bs) \<longrightarrow> touched perms st (vm_content vm x) (vm_content vm' x))"

context interval_sets
begin

lemma HeapAllocate_ok:
  assumes p: "proc_ok ops p" and h: "heap_range target sz"
  shows "\<not> free_range (vm_content (vm_manager p)) target sz \<Longrightarrow> HeapAllocate ops target sz perms st skip p = Some (Inl ResultInvalidAddressState, p)"
    "free_range (vm_content (vm_manager p)) target sz \<Longrightarrow> card (free_points ops (own_region p)) < unat sz \<Longrightarrow>
     HeapAllocate ops target sz perms st skip p = Some (Inl ResultOutOfHeapMemory, p)"
    "free_range (vm_content (vm_manager p)) target sz \<Longrightarrow> unat sz \<le> card (free_points ops (own_region p)) \<Longrightarrow>
     \<exists>A p'. HeapAllocate ops target sz perms st skip p = Some (Inr target, p') \<and> proc_ok ops p' \<and> memory_region p' = memory_region p \<and>
       highest (unat sz) (free_points ops (own_region p)) (points ops A) \<and> free_points ops (own_region p') = free_points ops (own_region p) - points ops A \<and>
       region_base (own_region p') = region_base (own_region p) \<and> region_size (own_region p') = region_size (own_region p) \<and>
       points ops (holding_memory p') = points ops (holding_memory p) \<union> points ops A \<and> memory_used p' = memory_used p + sz \<and>
       heap_mapped (icl_blocks ops A) target perms st (vm_manager p) (vm_manager p')"
proof -
  note d = proc_okD [OF p] and r = heap_rangeD [OF h]
  let ?F = "free_points ops (own_region p)"
  obtain v where v: "FindVMA target (vma_map (vm_manager p)) = Some (Some (vma_base v))" "vma_at (vma_base v) (vma_map (vm_manager p)) = Some v"
    "(vma_type v \<noteq> VMA_Free \<or> vma_base v + vma_size v < target + sz) \<longleftrightarrow> \<not> free_range (vm_content (vm_manager p)) target sz"
    using free_test [OF d(2) r(1)] by blast
  show "HeapAllocate ops target sz perms st skip p = Some (Inl ResultInvalidAddressState, p)" if "\<not> free_range (vm_content (vm_manager p)) target sz"
    using that v r(2-4) by (simp add: HeapAllocate_def)
  assume f: "free_range (vm_content (vm_manager p)) target sz"
  have nb: "\<not> (vma_type v \<noteq> VMA_Free \<or> vma_base v + vma_size v < target + sz)" using v(3) f by blast
  have step: "HeapAllocate ops target sz perms st skip p = do {
      (allocated, r) \<leftarrow> Region_HeapAllocate ops sz (own_region p);
      let p = set_region (memory_region p) r p;
      if icl_blocks ops allocated = [] then Some (Inl ResultOutOfHeapMemory, p)
      else do {
        vm \<leftarrow> map_heap_blocks target (icl_blocks ops allocated) perms st (vm_manager p);
        Some (Inr target, commit_memory sz (p\<lparr>vm_manager := vm, holding_memory := icl_add_set ops (holding_memory p) allocated\<rparr>))
      } }"
    using v(1,2) nb r(2-4) by (simp add: HeapAllocate_def)
  show "HeapAllocate ops target sz perms st skip p = Some (Inl ResultOutOfHeapMemory, p)" if "card ?F < unat sz"
    unfolding step using Region_HeapAllocate_ok(1) [OF d(3,4) that] by (simp add: points_empty set_region_def)
  assume e: "unat sz \<le> card ?F"
  obtain A r' where A: "Region_HeapAllocate ops sz (own_region p) = Some (A, r')" "highest (unat sz) ?F (points ops A)" "free_points ops r' = ?F - points ops A"
    "region_ok ops r'" "\<not> region_locked r'" "region_base r' = region_base (own_region p)" "region_size r' = region_size (own_region p)"
    using Region_HeapAllocate_ok(2) [OF d(3,4) e] by blast
  have pg: "page_set (points ops A)" using HeapAllocate_pages [OF d(5) _ A(1)] h by (simp add: heap_range_def)
  have sub: "points ops A \<subseteq> ?F" "card (points ops A) = unat sz" using A(2) by (simp_all add: highest_def)
  have len: "total_length (icl_blocks ops A) = unat sz" using total_length_card [OF blocks_well_spaced] sub(2) by simp
  have ne: "icl_blocks ops A \<noteq> []" using len good_rangeD(4) [OF r(1)] by auto
  have blocks: "\<forall>iv \<in> set (icl_blocks ops A). fcram_block iv" using allocated_blocks [OF blocks_well_spaced pg] sub(1) d(8) by blast
  obtain vm' where vm': "map_heap_blocks target (icl_blocks ops A) perms st (vm_manager p) = Some vm'" "unlocked_space vm'"
    "heap_mapped (icl_blocks ops A) target perms st (vm_manager p) vm'"
    using map_heap_blocks_ok [OF d(1) blocks, of target perms st] good_rangeD(1,5) [OF r(1)] f unfolding len free_range_def heap_mapped_def by blast
  define p' where "p' = commit_memory sz (set_region (memory_region p) r' p\<lparr>vm_manager := vm', holding_memory := icl_add_set ops (holding_memory p) A\<rparr>)"
  have p': "vm_manager p' = vm'" "own_region p' = r'" "memory_region p' = memory_region p" "holding_memory p' = icl_add_set ops (holding_memory p) A"
    "memory_used p' = memory_used p + sz" by (simp_all add: p'_def commit_memory_def set_region_def)
  have "HeapAllocate ops target sz perms st skip p = Some (Inr target, p')"
    unfolding step using A(1) ne vm'(1) by (simp add: p'_def set_region_def commit_memory_def)
  moreover have "proc_ok ops p'"
    unfolding proc_ok_def p'(1,2,4) using vm'(2) A(3-7) d(5-7) pg sub(1) by (auto simp: page_set_ops points_add_set)
  ultimately show "\<exists>A p'. HeapAllocate ops target sz perms st skip p = Some (Inr target, p') \<and> proc_ok ops p' \<and> memory_region p' = memory_region p \<and>
       highest (unat sz) ?F (points ops A) \<and> free_points ops (own_region p') = ?F - points ops A \<and>
       region_base (own_region p') = region_base (own_region p) \<and> region_size (own_region p') = region_size (own_region p) \<and>
       points ops (holding_memory p') = points ops (holding_memory p) \<union> points ops A \<and> memory_used p' = memory_used p + sz \<and>
       heap_mapped (icl_blocks ops A) target perms st (vm_manager p) (vm_manager p')"
    using A(2,3,6,7) vm'(3) p' by (intro exI [of _ A] exI [of _ p']) (simp add: points_add_set)
qed

end

section \<open>Release\<close>

lemma blocks_cover_le: "blocks_cover c lo bs hi \<Longrightarrow> lo \<le> hi"
  by (induction bs arbitrary: lo) (auto, fastforce)

lemma covered_block:
  assumes cont: "\<And>i. i < total_n \<Longrightarrow> c (t + i) = Some (VMA_BackingMemory, perms, st, Some (FCRAM, block_point bs0 i))"
    and cov: "blocks_cover c (t + a) ((r, n) # bs) (t + total_n)"
  shows "a + unat n \<le> total_n" "0 < unat n" "r = Some (FCRAM, block_point bs0 a)" "\<And>j. j < unat n \<Longrightarrow> block_point bs0 (a + j) = block_point bs0 a + j"
    "block_point bs0 a + unat n \<le> 0x10000000"
proof -
  have h: "0 < n" "backs r n" "\<And>x. t + a \<le> x \<Longrightarrow> x < t + a + unat n \<Longrightarrow> \<exists>p s. c x = Some (mapped_at (t + a) r s p x)" "blocks_cover c (t + a + unat n) bs (t + total_n)"
    using cov by simp_all
  show le: "a + unat n \<le> total_n" using blocks_cover_le [OF h(4)] by simp
  show n: "0 < unat n" using h(1) by (simp add: word_less_nat_alt)
  have at: "Some (FCRAM, block_point bs0 (a + j)) = map_option (\<lambda>(b, off). (b, off + j)) r" if "j < unat n" for j
    using h(3) [of "t + (a + j)"] cont [of "a + j"] that le by (auto simp: mapped_at_def add.assoc)
  show r: "r = Some (FCRAM, block_point bs0 a)" using at [OF n] by (simp add: option.map_id)
  show "block_point bs0 (a + j) = block_point bs0 a + j" if "j < unat n" for j using at [OF that] r by simp
  show "block_point bs0 a + unat n \<le> 0x10000000" using h(2) r by (simp add: backs_def)
qed

context interval_sets
begin

lemma free_blocks_loop_ok:
  assumes ws: "well_spaced bs0" and cont: "\<And>i. i < total_length bs0 \<Longrightarrow> c (t + i) = Some (VMA_BackingMemory, perms, st, Some (FCRAM, block_point bs0 i))"
  shows "blocks_cover c (t + a) bs (t + total_length bs0) \<Longrightarrow> region_ok ops (own_region p) \<Longrightarrow> \<not> region_locked (own_region p) \<Longrightarrow>
    part_points bs0 a (total_length bs0) \<subseteq> region_span (own_region p) - free_points ops (own_region p) \<Longrightarrow>
    \<exists>p'. free_blocks_loop ops bs p = Some p' \<and> vm_manager p' = vm_manager p \<and> memory_region p' = memory_region p \<and> memory_used p' = memory_used p \<and>
      process_limit p' = process_limit p \<and>
      region_step_ok ops (own_region p) (own_region p') (free_points ops (own_region p) \<union> part_points bs0 a (total_length bs0)) \<and>
      points ops (holding_memory p') = points ops (holding_memory p) - part_points bs0 a (total_length bs0)"
proof (induction bs arbitrary: a p)
  case Nil
  then have "part_points bs0 a (total_length bs0) = {}" by (auto simp: part_points_def)
  then show ?case using Nil by (simp add: region_step_ok_def)
next
  case (Cons b bs)
  let ?T = "total_length bs0" and ?r = "own_region p"
  obtain r n where b: "b = (r, n)" by fastforce
  note cb = covered_block [where c = c and t = t, OF cont Cons.prems(1) [unfolded b]]
  define l where "l = (of_nat (block_point bs0 a) :: u32)"
  have l: "unat l = block_point bs0 a" "unat l + unat n < 2 ^ 32" using cb(5) by (simp_all add: l_def unat_of_nat)
  have off: "r \<bind> GetFCRAMOffset = Some l" using cb(3,5) by (simp add: GetFCRAMOffset_def l_def)
  have pp: "part_points bs0 a (a + unat n) = {l..<l + n}" using part_points_block [OF _ l(2), of bs0 a] cb(4) l(1) by simp
  have split: "part_points bs0 a ?T = {l..<l + n} \<union> part_points bs0 (a + unat n) ?T" using part_points_split [of a "a + unat n" ?T bs0] cb(1) pp by simp
  have disj: "{l..<l + n} \<inter> part_points bs0 (a + unat n) ?T = {}" using part_points_disjoint [OF ws cb(1), of a] pp by simp
  have sub: "{l..<l + n} \<subseteq> region_span ?r - free_points ops ?r" using Cons.prems(4) split by blast
  obtain r1 where r1: "Region_Free ops l n ?r = Some r1" "region_step_ok ops ?r r1 (free_points ops ?r \<union> {l..<l + n})"
    using Region_Free_ok [OF Cons.prems(2,3) l(2) sub] by blast
  define p1 where "p1 = set_region (memory_region p) r1 p\<lparr>holding_memory := icl_subtract ops (holding_memory p) (l, l + n)\<rparr>"
  have p1: "own_region p1 = r1" "vm_manager p1 = vm_manager p" "memory_region p1 = memory_region p" "memory_used p1 = memory_used p" "process_limit p1 = process_limit p"
    "points ops (holding_memory p1) = points ops (holding_memory p) - {l..<l + n}" by (simp_all add: p1_def set_region_def points_subtract)
  have s1: "region_span r1 = region_span ?r" "free_points ops r1 = free_points ops ?r \<union> {l..<l + n}" "region_ok ops r1" "\<not> region_locked r1"
    using r1(2) by (simp_all add: region_step_ok_def region_span_def)
  have cov: "blocks_cover c (t + (a + unat n)) bs (t + ?T)" using Cons.prems(1) b by (simp add: add.assoc)
  have rest: "part_points bs0 (a + unat n) ?T \<subseteq> region_span (own_region p1) - free_points ops (own_region p1)"
    unfolding p1(1) s1(1,2) using Cons.prems(4) split disj by blast
  obtain p' where p': "free_blocks_loop ops bs p1 = Some p'" "vm_manager p' = vm_manager p1" "memory_region p' = memory_region p1" "memory_used p' = memory_used p1"
    "process_limit p' = process_limit p1"
    "region_step_ok ops r1 (own_region p') (free_points ops r1 \<union> part_points bs0 (a + unat n) ?T)"
    "points ops (holding_memory p') = points ops (holding_memory p1) - part_points bs0 (a + unat n) ?T"
    using Cons.IH [OF cov _ _ rest] s1(3,4) unfolding p1(1) by blast
  have "free_blocks_loop ops (b # bs) p = Some p'" using p'(1) off r1(1) by (simp add: b p1_def Let_def set_region_def)
  moreover have "region_step_ok ops ?r (own_region p') (free_points ops ?r \<union> part_points bs0 a ?T)"
    using p'(6) r1(2) s1(2) unfolding split region_step_ok_def by (simp add: Un_assoc)
  moreover have "points ops (holding_memory p') = points ops (holding_memory p) - part_points bs0 a ?T" unfolding split using p'(7) p1(6) by blast
  ultimately show ?case using p'(2-5) p1(2-5) by simp
qed

text \<open>Freeing a range that is mapped onto blocks of the region which are in use.\<close>

lemma HeapFree_ok:
  assumes vm: "unlocked_space (vm_manager p)" and h: "heap_range target sz" and reg: "region_ok ops (own_region p)" "\<not> region_locked (own_region p)"
    and bs: "well_spaced bs" "total_length bs = unat sz" "spans bs \<subseteq> region_span (own_region p) - free_points ops (own_region p)"
    and cont: "\<And>i. i < unat sz \<Longrightarrow> vm_content (vm_manager p) (unat target + i) = Some (VMA_BackingMemory, perms, st, Some (FCRAM, block_point bs i))"
  shows "\<exists>p'. HeapFree ops target sz p = Some (ResultSuccess, p') \<and> unlocked_space (vm_manager p') \<and> memory_region p' = memory_region p \<and>
    region_step_ok ops (own_region p) (own_region p') (free_points ops (own_region p) \<union> spans bs) \<and>
    points ops (holding_memory p') = points ops (holding_memory p) - spans bs \<and> memory_used p' = memory_used p - sz \<and>
    vm_content (vm_manager p') = with_change (\<lambda>_. free_attrs) target sz (vm_content (vm_manager p))"
proof -
  note r = heap_rangeD [OF h]
  have inv: "vm_inv (vm_manager p)" using vm by (simp add: unlocked_space_def)
  have used: "used_range (vm_content (vm_manager p)) target sz"
    unfolding used_range_def
  proof (intro allI impI)
    fix x assume "unat target \<le> x \<and> x < unat target + unat sz"
    then have "x - unat target < unat sz" "unat target + (x - unat target) = x" by linarith+
    then show "map_option fst (vm_content (vm_manager p) x) \<noteq> Some VMA_Free" using cont [of "x - unat target"] by simp
  qed
  obtain blocks where b: "GetBackingBlocksForRange target sz (vma_map (vm_manager p)) = Some (Inr blocks)"
    "blocks_cover (vm_content (vm_manager p)) (unat target) blocks (unat target + unat sz)"
    using GetBackingBlocksForRange_ok [OF inv r(1)] used unfolding used_range_def by (auto split: if_splits)
  have pp: "part_points bs 0 (unat sz) = spans bs" using part_points_all [OF bs(1)] bs(2) by simp
  obtain p1 where p1: "free_blocks_loop ops blocks p = Some p1" "vm_manager p1 = vm_manager p" "memory_region p1 = memory_region p" "memory_used p1 = memory_used p"
    "region_step_ok ops (own_region p) (own_region p1) (free_points ops (own_region p) \<union> spans bs)" "points ops (holding_memory p1) = points ops (holding_memory p) - spans bs"
    using free_blocks_loop_ok [where t = "unat target" and a = 0 and bs = blocks and p = p and c = "vm_content (vm_manager p)" and perms = perms and st = st, OF bs(1)]
      cont b(2) reg bs(3) unfolding bs(2) pp by auto
  obtain vm' where u: "UnmapRange target sz (vm_manager p) = Some (ResultSuccess, vm')" "unlocked_space vm'"
    "vm_content vm' = with_change (\<lambda>_. free_attrs) target sz (vm_content (vm_manager p))"
    using vs.unmap_used [OF vm r(1) used] by blast
  have "sz \<noteq> 0" using good_rangeD(3) [OF r(1)] by auto
  then have "HeapFree ops target sz p = Some (ResultSuccess, release_memory sz (p1\<lparr>vm_manager := vm'\<rparr>))"
    using r(2-4) b(1) p1(1,2) u(1) by (simp add: HeapFree_def)
  then show ?thesis using p1(3-6) u(2,3) by (simp add: release_memory_def)
qed

end

section \<open>Properties\<close>

lemma ControlMemory_heap:
  assumes "heap_range target sz"
  shows "ControlMemory ops target 0 sz 3 3 p = with_out (HeapAllocate ops target sz Perm_ReadWrite MS_Private False p)"
    "ControlMemory ops target 0 sz 1 0 p = with_addr target (HeapFree ops target sz p)"
proof -
  have al: "page_aligned target" "page_aligned (0 :: u32)" "page_aligned sz" using assms by (simp_all add: heap_range_def page_aligned_unat)
  have ops: "(3 :: u32) AND NOT 0xF00 = 3" "(1 :: u32) AND NOT 0xF00 = 1" "(3 :: u32) AND 3 = 3" "(0 :: u32) AND 3 = 0" "(3 :: u32) AND 0xFF = 3" "(1 :: u32) AND 0xFF = 1"
    "(3 :: u32) AND 0x10000 = 0" "(ucast (3 :: u32) :: u8) = 3"
    by simp_all
  show "ControlMemory ops target 0 sz 3 3 p = with_out (HeapAllocate ops target sz Perm_ReadWrite MS_Private False p)"
    unfolding ControlMemory_def Let_def ops using al by simp
  have "target \<ge> HEAP_BASE" "target < HEAP_LIMIT"
    using assms good_rangeD(4) [OF heap_rangeD(1) [OF assms]] by (simp_all add: heap_range_def word_le_nat_alt word_less_nat_alt)
  then show "ControlMemory ops target 0 sz 1 0 p = with_addr target (HeapFree ops target sz p)"
    unfolding ControlMemory_def Let_def ops using al by simp
qed

text \<open>
  C19: A heap allocation is refused without effect when an address of the range is in use or the region has too little free memory. Otherwise it
  takes the highest free memory of the region, lays it out over the range in order, with the permissions asked for, and accounts for it. Outside the range only
  writable neighbours with the same state that continue the memory can change, and of those only the permissions.
\<close>

theorem heap_allocation_maps_free_memory:
  assumes "interval_sets ops" "proc_ok ops p" "heap_range target sz"
  shows "if \<not> free_range (vm_content (vm_manager p)) target sz then HeapAllocate ops target sz perms st skip p = Some (Inl ResultInvalidAddressState, p)
    else if card (free_points ops (own_region p)) < unat sz then HeapAllocate ops target sz perms st skip p = Some (Inl ResultOutOfHeapMemory, p)
    else \<exists>A p'. HeapAllocate ops target sz perms st skip p = Some (Inr target, p') \<and> proc_ok ops p' \<and>
      highest (unat sz) (free_points ops (own_region p)) (points ops A) \<and> free_points ops (own_region p') = free_points ops (own_region p) - points ops A \<and>
      points ops (holding_memory p') = points ops (holding_memory p) \<union> points ops A \<and> memory_used p' = memory_used p + sz \<and>
      (\<forall>i < unat sz. vm_content (vm_manager p') (unat target + i) = Some (VMA_BackingMemory, perms, st, Some (FCRAM, block_point (icl_blocks ops A) i))) \<and>
      (\<forall>x. \<not> (unat target \<le> x \<and> x < unat target + unat sz) \<longrightarrow> touched perms st (vm_content (vm_manager p) x) (vm_content (vm_manager p') x))"
proof -
  note h = interval_sets.HeapAllocate_ok [OF assms, of perms st skip]
  have len: "total_length (icl_blocks ops A) = unat sz" if "highest (unat sz) (free_points ops (own_region p)) (points ops A)" for A
    using that total_length_card [OF interval_sets.blocks_well_spaced [OF assms(1), of A]] by (simp add: highest_def)
  show ?thesis
  proof (cases "free_range (vm_content (vm_manager p)) target sz \<and> unat sz \<le> card (free_points ops (own_region p))")
    case True
    then obtain A p' where "HeapAllocate ops target sz perms st skip p = Some (Inr target, p')" "proc_ok ops p'"
      "highest (unat sz) (free_points ops (own_region p)) (points ops A)" "free_points ops (own_region p') = free_points ops (own_region p) - points ops A"
      "points ops (holding_memory p') = points ops (holding_memory p) \<union> points ops A" "memory_used p' = memory_used p + sz"
      "heap_mapped (icl_blocks ops A) target perms st (vm_manager p) (vm_manager p')"
      using h(3) by blast
    then show ?thesis using True len [of A] unfolding heap_mapped_def by (simp add: not_less del: split_paired_Ex) blast
  qed (use h(1,2) in auto)
qed


definition demo_process :: "interval_list ProcessMemory" where
  "demo_process = \<lparr>vm_manager = demo_space, memory_regions = (\<lambda>_. demo_app), memory_region = APPLICATION, holding_memory = il_empty,
     holding_tls_memory = il_empty, memory_used = 0, process_limit = ResourceLimit_Create, kernel_version = 0x22C\<rparr>"

lemma demo_process:
  "proc_ok list_icl demo_process" "heap_range 0x8000000 0x3000" "free_range (vm_content (vm_manager demo_process)) 0x8000000 0x3000"
  "unat (0x3000 :: u32) \<le> card (free_points list_icl (own_region demo_process))"
proof -
  have fp: "free_points list_icl demo_app = {0..<0x4000000}" by (simp add: demo_app(3))
  have ok: "region_ok list_icl demo_app" using li.region_reachable_ok [OF demo_app(1)] .
  have sz: "unat (region_base demo_app) + unat (region_size demo_app) \<le> 0x10000000" by (simp add: demo_app_def Region_Reset_def demo_region_def)
  have "page_set {0..<0x4000000}" by (rule page_set_span) (simp_all add: page_aligned_unat)
  then show "proc_ok list_icl demo_process"
    using ok sz fp demo_app(2) demo_space(2) vm_reachable_inv [OF demo_space(1)]
    by (simp add: proc_ok_def demo_process_def unlocked_space_def list_icl_def)
  show "heap_range 0x8000000 0x3000" by (simp add: heap_range_def page_aligned_unat)
  show "free_range (vm_content (vm_manager demo_process)) 0x8000000 0x3000" using demo_free [OF demo_args(1)] by (simp add: demo_process_def)
  show "unat (0x3000 :: u32) \<le> card (free_points list_icl (own_region demo_process))" by (simp add: demo_process_def fp card_span)
qed

theorem heap_allocation_maps_free_memory_witness:
  "\<exists>p'. HeapAllocate list_icl 0x8000000 0x3000 Perm_Read MS_Private False demo_process = Some (Inr 0x8000000, p') \<and>
    map_option fst (vm_content (vm_manager p') 0x8000004) = Some VMA_BackingMemory \<and> memory_used p' = 0x3000"
proof -
  obtain A p' where "HeapAllocate list_icl 0x8000000 0x3000 Perm_Read MS_Private False demo_process = Some (Inr 0x8000000, p')" "memory_used p' = memory_used demo_process + 0x3000"
    "\<forall>i < unat (0x3000 :: u32). vm_content (vm_manager p') (unat (0x8000000 :: u32) + i) = Some (VMA_BackingMemory, Perm_Read, MS_Private, Some (FCRAM, block_point (icl_blocks list_icl A) i))"
    using heap_allocation_maps_free_memory [OF list_icl_laws demo_process(1,2), of Perm_Read MS_Private False] demo_process(3,4)
    by (auto simp: not_less split: if_splits simp del: split_paired_Ex)
  then show ?thesis by (intro exI [of _ p']) (auto simp: demo_process_def dest!: spec [of _ 4])
qed


end
