(* ===== verification/Process_End.thy ===== *)
theory Process_End
  imports Process_Heap
begin

text \<open>
  The end of a process: \<open>FreeAllMemory\<close> gives every region back what the process held of it.
\<close>

lemma block_take:
  assumes "fst iv < snd (iv :: interval)"
  shows "fst iv + (snd iv - fst iv) = snd iv" "unat (fst iv) + unat (snd iv - fst iv) < 2 ^ 32" "of_nat (block_length iv) = snd iv - fst iv"
proof -
  have u: "unat (snd iv - fst iv) = block_length iv" using assms by (simp add: block_length_def unat_sub word_less_nat_alt word_le_nat_alt)
  show "unat (fst iv) + unat (snd iv - fst iv) < 2 ^ 32" using u assms unat_u32 [of "snd iv"] by (simp add: block_length_def word_less_nat_alt)
  show "of_nat (block_length iv) = snd iv - fst iv" unfolding u [symmetric] by simp
qed simp

lemma spans_step:
  assumes "well_spaced (iv # bs)"
  shows "span iv \<inter> spans bs = {}" "fst iv < snd iv" "well_spaced bs"
proof -
  show "span iv \<inter> spans bs = {}"
  proof (rule ccontr)
    assume "span iv \<inter> spans bs \<noteq> {}"
    then obtain x where "x < snd iv" "x \<in> spans bs" by auto
    then show False using spans_bounds [OF assms, of x] by simp
  qed
qed (use assms in simp_all)

lemma region_step_trans: "region_step_ok ops r r1 S \<Longrightarrow> region_step_ok ops r1 r2 T \<Longrightarrow> region_step_ok ops r r2 T"
  by (simp add: region_step_ok_def)

text \<open>What the process holds of a region, given the region.\<close>

definition held_of :: "'i icl \<Rightarrow> 'i ProcessMemory \<Rightarrow> MemoryRegion \<Rightarrow> u32 set" where
  "held_of ops p k = (if k = memory_region p then points ops (holding_memory p) else {}) \<union> (if k = BASE then points ops (holding_tls_memory p) else {})"

definition holds_own :: "'i icl \<Rightarrow> 'i ProcessMemory \<Rightarrow> bool" where
  "holds_own ops p \<longleftrightarrow> (\<forall>k. region_ok ops (memory_regions p k) \<and> \<not> region_locked (memory_regions p k) \<and>
       held_of ops p k \<subseteq> region_span (memory_regions p k) - free_points ops (memory_regions p k)) \<and>
     (memory_region p = BASE \<longrightarrow> points ops (holding_memory p) \<inter> points ops (holding_tls_memory p) = {})"

lemma holds_ownD:
  assumes "holds_own ops p"
  shows "region_ok ops (memory_regions p k)" "\<not> region_locked (memory_regions p k)"
    "points ops (holding_memory p) \<subseteq> region_span (own_region p) - free_points ops (own_region p)"
    "points ops (holding_tls_memory p) \<subseteq> region_span (memory_regions p BASE) - free_points ops (memory_regions p BASE)"
    "memory_region p = BASE \<Longrightarrow> points ops (holding_memory p) \<inter> points ops (holding_tls_memory p) = {}"
proof -
  have h: "region_ok ops (memory_regions p k)" "\<not> region_locked (memory_regions p k)"
    "held_of ops p k \<subseteq> region_span (memory_regions p k) - free_points ops (memory_regions p k)" for k
    using assms unfolding holds_own_def by blast+
  show "region_ok ops (memory_regions p k)" "\<not> region_locked (memory_regions p k)" by (rule h)+
  show "points ops (holding_memory p) \<subseteq> region_span (own_region p) - free_points ops (own_region p)" using h(3) [of "memory_region p"] by (simp add: held_of_def)
  show "points ops (holding_tls_memory p) \<subseteq> region_span (memory_regions p BASE) - free_points ops (memory_regions p BASE)" using h(3) [of BASE] by (simp add: held_of_def)
  show "memory_region p = BASE \<Longrightarrow> points ops (holding_memory p) \<inter> points ops (holding_tls_memory p) = {}" using assms unfolding holds_own_def by blast
qed

context interval_sets
begin

lemma give_block:
  assumes "region_ok ops r" "\<not> region_locked r" "well_spaced (iv # bs)" "spans (iv # bs) \<subseteq> region_span r - free_points ops r"
  shows "\<exists>r'. Region_Free ops (fst iv) (snd iv - fst iv) r = Some r' \<and> region_step_ok ops r r' (free_points ops r \<union> span iv) \<and>
    spans bs \<subseteq> region_span r' - free_points ops r'"
proof -
  note s = spans_step [OF assms(3)]
  note t = block_take [OF s(2)]
  have sub: "{fst iv..<fst iv + (snd iv - fst iv)} \<subseteq> region_span r - free_points ops r" unfolding t(1) using assms(4) by simp
  obtain r' where r': "Region_Free ops (fst iv) (snd iv - fst iv) r = Some r'" "region_step_ok ops r r' (free_points ops r \<union> span iv)"
    using Region_Free_ok [OF assms(1,2) t(2) sub] unfolding t(1) by blast
  moreover have "region_span r' = region_span r" "free_points ops r' = free_points ops r \<union> span iv" using r'(2) by (simp_all add: region_step_ok_def region_span_def)
  ultimately show ?thesis using assms(4) s(1) by auto
qed

lemma free_held_ok:
  "well_spaced bs \<Longrightarrow> region_ok ops (own_region p) \<Longrightarrow> \<not> region_locked (own_region p) \<Longrightarrow> spans bs \<subseteq> region_span (own_region p) - free_points ops (own_region p) \<Longrightarrow>
   \<exists>p' r. free_held ops bs p = Some p' \<and> memory_region p' = memory_region p \<and> holding_tls_memory p' = holding_tls_memory p \<and> vm_manager p' = vm_manager p \<and>
     memory_regions p' = (memory_regions p)(memory_region p := r) \<and> region_step_ok ops (own_region p) r (free_points ops (own_region p) \<union> spans bs) \<and>
     memory_used p' = memory_used p - of_nat (total_length bs)"
proof (induction bs arbitrary: p)
  case Nil
  then show ?case by (intro exI [of _ p] exI [of _ "own_region p"]) (simp add: region_step_ok_def)
next
  case (Cons iv bs)
  obtain r1 where r1: "Region_Free ops (fst iv) (snd iv - fst iv) (own_region p) = Some r1"
    "region_step_ok ops (own_region p) r1 (free_points ops (own_region p) \<union> span iv)" "spans bs \<subseteq> region_span r1 - free_points ops r1"
    using give_block [OF Cons.prems(2,3,1,4)] by blast
  define p1 where "p1 = release_memory (snd iv - fst iv) (set_region (memory_region p) r1 p)"
  have p1: "own_region p1 = r1" "memory_region p1 = memory_region p" "holding_tls_memory p1 = holding_tls_memory p" "vm_manager p1 = vm_manager p"
    "memory_regions p1 = (memory_regions p)(memory_region p := r1)" "memory_used p1 = memory_used p - (snd iv - fst iv)"
    by (simp_all add: p1_def release_memory_def set_region_def)
  obtain p' r where p': "free_held ops bs p1 = Some p'" "memory_region p' = memory_region p1" "holding_tls_memory p' = holding_tls_memory p1" "vm_manager p' = vm_manager p1"
    "memory_regions p' = (memory_regions p1)(memory_region p1 := r)" "region_step_ok ops r1 r (free_points ops r1 \<union> spans bs)"
    "memory_used p' = memory_used p1 - of_nat (total_length bs)"
    using Cons.IH [of p1] spans_step(3) [OF Cons.prems(1)] r1(2,3) unfolding p1(1) region_step_ok_def by blast
  have "region_step_ok ops (own_region p) r (free_points ops (own_region p) \<union> spans (iv # bs))"
    using region_step_trans [OF r1(2) p'(6)] r1(2) by (simp add: region_step_ok_def Un_assoc)
  moreover have "memory_used p' = memory_used p - of_nat (total_length (iv # bs))"
    using p'(7) p1(6) block_take(3) [OF spans_step(2) [OF Cons.prems(1)]] by simp
  moreover have "free_held ops (iv # bs) p = Some p'" using r1(1) p'(1) by (simp add: p1_def)
  ultimately show ?case using p'(2-5) p1(2-5) by (intro exI [of _ p'] exI [of _ r]) (simp only: fun_upd_upd simp_thms)
qed

lemma free_held_tls_ok:
  "well_spaced bs \<Longrightarrow> region_ok ops (memory_regions p BASE) \<Longrightarrow> \<not> region_locked (memory_regions p BASE) \<Longrightarrow>
   spans bs \<subseteq> region_span (memory_regions p BASE) - free_points ops (memory_regions p BASE) \<Longrightarrow>
   \<exists>p' r. free_held_tls ops bs p = Some p' \<and> memory_region p' = memory_region p \<and> vm_manager p' = vm_manager p \<and> holding_memory p' = holding_memory p \<and>
     memory_regions p' = (memory_regions p)(BASE := r) \<and> region_step_ok ops (memory_regions p BASE) r (free_points ops (memory_regions p BASE) \<union> spans bs) \<and>
     memory_used p' = memory_used p - of_nat (total_length bs)"
proof (induction bs arbitrary: p)
  case Nil
  then show ?case by (intro exI [of _ p] exI [of _ "memory_regions p BASE"]) (simp add: region_step_ok_def)
next
  case (Cons iv bs)
  obtain r1 where r1: "Region_Free ops (fst iv) (snd iv - fst iv) (memory_regions p BASE) = Some r1"
    "region_step_ok ops (memory_regions p BASE) r1 (free_points ops (memory_regions p BASE) \<union> span iv)" "spans bs \<subseteq> region_span r1 - free_points ops r1"
    using give_block [OF Cons.prems(2,3,1,4)] by blast
  define p1 where "p1 = set_region BASE r1 p\<lparr>memory_used := memory_used p - (snd iv - fst iv)\<rparr>"
  have p1: "memory_regions p1 BASE = r1" "memory_region p1 = memory_region p" "vm_manager p1 = vm_manager p" "holding_memory p1 = holding_memory p"
    "memory_regions p1 = (memory_regions p)(BASE := r1)" "memory_used p1 = memory_used p - (snd iv - fst iv)"
    by (simp_all add: p1_def set_region_def)
  obtain p' r where p': "free_held_tls ops bs p1 = Some p'" "memory_region p' = memory_region p1" "vm_manager p' = vm_manager p1" "holding_memory p' = holding_memory p1"
    "memory_regions p' = (memory_regions p1)(BASE := r)" "region_step_ok ops r1 r (free_points ops r1 \<union> spans bs)"
    "memory_used p' = memory_used p1 - of_nat (total_length bs)"
    using Cons.IH [of p1] spans_step(3) [OF Cons.prems(1)] r1(2,3) unfolding p1(1) region_step_ok_def by blast
  have "region_step_ok ops (memory_regions p BASE) r (free_points ops (memory_regions p BASE) \<union> spans (iv # bs))"
    using region_step_trans [OF r1(2) p'(6)] r1(2) by (simp add: region_step_ok_def Un_assoc)
  moreover have "memory_used p' = memory_used p - of_nat (total_length (iv # bs))"
    using p'(7) p1(6) block_take(3) [OF spans_step(2) [OF Cons.prems(1)]] by simp
  moreover have "free_held_tls ops (iv # bs) p = Some p'" using r1(1) p'(1) by (simp add: p1_def Let_def set_region_def)
  ultimately show ?case using p'(2-5) p1(2-5) by (intro exI [of _ p'] exI [of _ r]) (simp only: fun_upd_upd simp_thms)
qed

end

text \<open>
  C20: When a process ends, \<open>FreeAllMemory\<close> returns and gives every region exactly the memory the process held of it, also when the process itself
  lives in the BASE region; afterwards the process holds nothing and its account is reduced by what it held.
\<close>

theorem ending_returns_all_memory:
  assumes "interval_sets ops" "holds_own ops p"
  shows "\<exists>p'. FreeAllMemory ops p = Some p' \<and>
    (\<forall>k. free_points ops (memory_regions p' k) = free_points ops (memory_regions p k) \<union> held_of ops p k \<and> region_ok ops (memory_regions p' k)) \<and>
    points ops (holding_memory p') = {} \<and> points ops (holding_tls_memory p') = {} \<and>
    memory_used p' = memory_used p - of_nat (card (points ops (holding_memory p))) - of_nat (card (points ops (holding_tls_memory p)))"
proof -
  note h = holds_ownD [OF assms(2)] and ws = interval_sets.blocks_well_spaced [OF assms(1)]
  let ?H = "points ops (holding_memory p)" and ?T = "points ops (holding_tls_memory p)"
  obtain p1 r where p1: "free_held ops (icl_blocks ops (holding_memory p)) p = Some p1" "memory_region p1 = memory_region p" "holding_tls_memory p1 = holding_tls_memory p"
    "memory_regions p1 = (memory_regions p)(memory_region p := r)" "region_step_ok ops (own_region p) r (free_points ops (own_region p) \<union> ?H)"
    "memory_used p1 = memory_used p - of_nat (total_length (icl_blocks ops (holding_memory p)))"
    using interval_sets.free_held_ok [OF assms(1) ws h(1-3)] by blast
  define p2 where "p2 = p1\<lparr>holding_memory := icl_empty ops\<rparr>"
  let ?B = "memory_regions p2 BASE"
  have base: "region_ok ops ?B" "\<not> region_locked ?B" "?T \<subseteq> region_span ?B - free_points ops ?B"
    using h(1,2) [of BASE] h(4,5) p1(4,5) by (auto simp: p2_def region_step_ok_def region_span_def)
  obtain p3 s where p3: "free_held_tls ops (icl_blocks ops (holding_tls_memory p)) p2 = Some p3" "memory_region p3 = memory_region p2" "holding_memory p3 = holding_memory p2"
    "memory_regions p3 = (memory_regions p2)(BASE := s)" "region_step_ok ops ?B s (free_points ops ?B \<union> ?T)"
    "memory_used p3 = memory_used p2 - of_nat (total_length (icl_blocks ops (holding_tls_memory p)))"
    using interval_sets.free_held_tls_ok [OF assms(1) ws base] by blast
  have "FreeAllMemory ops p = Some (p3\<lparr>holding_tls_memory := icl_empty ops\<rparr>)" using p1(1,3) p3(1) by (simp add: FreeAllMemory_def p2_def)
  moreover have "free_points ops (memory_regions p3 k) = free_points ops (memory_regions p k) \<union> held_of ops p k \<and> region_ok ops (memory_regions p3 k)" for k
    using p3(4,5) p1(4,5) h(1) [of k] by (auto simp: p2_def held_of_def region_step_ok_def)
  ultimately show ?thesis
    using p3(3,6) p1(6) interval_sets.points_empty [OF assms(1)] total_length_card [OF ws]
    by (intro exI [of _ "p3\<lparr>holding_tls_memory := icl_empty ops\<rparr>"]) (simp add: p2_def)
qed

theorem ending_returns_all_memory_witness:
  "\<exists>p1 p2. ControlMemory list_icl 0x8000000 0 0x3000 3 3 demo_process = Some ((ResultSuccess, Some 0x8000000), p1) \<and> FreeAllMemory list_icl p1 = Some p2 \<and>
    points list_icl (holding_memory p2) = {}"
proof -
  obtain A p1 where a: "HeapAllocate list_icl 0x8000000 0x3000 Perm_ReadWrite MS_Private False demo_process = Some (Inr 0x8000000, p1)" "proc_ok list_icl p1"
    "memory_region p1 = APPLICATION" "highest (unat (0x3000 :: u32)) (free_points list_icl (own_region demo_process)) (points list_icl A)"
    "free_points list_icl (own_region p1) = free_points list_icl (own_region demo_process) - points list_icl A"
    "region_base (own_region p1) = region_base (own_region demo_process)" "region_size (own_region p1) = region_size (own_region demo_process)"
    "points list_icl (holding_memory p1) = points list_icl (holding_memory demo_process) \<union> points list_icl A"
    using li.HeapAllocate_ok(3) [OF demo_process, of Perm_ReadWrite MS_Private False] by (auto simp: demo_process_def simp del: split_paired_Ex)
  have same: "memory_regions p1 k = demo_app" if "k \<noteq> APPLICATION" for k
    using a(1) that by (auto simp: HeapAllocate_def demo_process_def commit_memory_def set_region_def Let_def split: if_splits bind_splits)
  have tls: "holding_tls_memory p1 = il_empty"
    using a(1) by (auto simp: HeapAllocate_def demo_process_def commit_memory_def set_region_def Let_def split: if_splits bind_splits)
  have "points list_icl (holding_memory demo_process) = {}" "own_region demo_process = demo_app" by (simp_all add: demo_process_def list_icl_def)
  then have hold: "points list_icl (holding_memory p1) = points list_icl A" "points list_icl A \<subseteq> free_points list_icl demo_app" "region_span (own_region p1) = region_span demo_app"
    using a(4,6-8) by (simp_all add: highest_def region_span_def)
  have app: "region_ok list_icl demo_app" using li.region_reachable_ok [OF demo_app(1)] .
  have "holds_own list_icl p1"
    unfolding holds_own_def
  proof (intro conjI allI)
    fix k
    show "region_ok list_icl (memory_regions p1 k)" "\<not> region_locked (memory_regions p1 k)"
      using proc_okD(3,4) [OF a(2)] same [of k] app demo_app(2) a(3) by (cases "k = APPLICATION"; simp)+
    show "held_of list_icl p1 k \<subseteq> region_span (memory_regions p1 k) - free_points list_icl (memory_regions p1 k)"
      using hold a(3,5) app \<open>own_region demo_process = demo_app\<close> tls
      by (cases k) (auto simp: held_of_def list_icl_def region_ok_def)
  qed (use a(3) in simp)
  then obtain p2 where "FreeAllMemory list_icl p1 = Some p2" "points list_icl (holding_memory p2) = {}" using ending_returns_all_memory [OF list_icl_laws] by blast
  moreover have "ControlMemory list_icl 0x8000000 0 0x3000 3 3 demo_process = Some ((ResultSuccess, Some 0x8000000), p1)"
    unfolding ControlMemory_heap(1) [OF demo_process(2)] a(1) by (simp add: with_out_def)
  ultimately show ?thesis by blast
qed

end
