(* ===== verification/Shared_Memory.thy ===== *)
theory Shared_Memory
  imports Process_End
begin

text \<open>
  The memory of several processes: \<open>hle/kernel/shared_memory.cpp\<close> and the calls on memory blocks of \<open>hle/kernel/svc.cpp\<close>. A \<open>machine\<close> has what the
  processes share (the regions, the memory system, the resource limits) once; \<open>fetch\<close> gives the memory of a process with the shared parts in place, \<open>put\<close> writes
  both back. A process that has been destroyed is \<open>None\<close>, as its expired weak pointer is.
\<close>

unbundle bit_operations_syntax

section \<open>Data\<close>

definition ResultWrongPermission :: ResultCode where "ResultWrongPermission = make_result 46 6 8 27"

abbreviation DontCare :: u32 where "DontCare \<equiv> 0x10000000"
abbreviation SHARED_MEMORY_VADDR_END :: u32 where "SHARED_MEMORY_VADDR_END \<equiv> 0x14000000"
abbreviation PROCESS_IMAGE_VADDR :: u32 where "PROCESS_IMAGE_VADDR \<equiv> 0x00100000"

record 'i SharedMemory =
  linear_heap_phys_offset :: u32
  backing_blocks :: "(MemoryRef \<times> u32) list"
  shm_size :: u32
  shm_region :: MemoryRegion
  shm_permissions :: u32
  other_permissions :: u32
  owner :: "nat option"
  shm_base :: u32
  shm_holding :: 'i

datatype machine_object = O_Thread nat | O_Process nat | O_SharedMemory nat | O_Other nat

record 'i machine =
  m_regions :: "MemoryRegion \<Rightarrow> 'i MemoryRegionInfo"
  m_memory :: MemorySystem
  m_limits :: "nat \<Rightarrow> ResourceLimit"
  limit_of :: "nat \<Rightarrow> nat"
  m_processes :: "nat \<Rightarrow> 'i ProcessMemory option"
  handles :: "nat \<Rightarrow> machine_object HandleTable"
  shared_device_mem :: "nat \<Rightarrow> bool"
  shared :: "nat \<Rightarrow> 'i SharedMemory option"
  next_shared :: nat

definition fetch :: "nat \<Rightarrow> 'i machine \<Rightarrow> 'i ProcessMemory option" where
  "fetch p k =
     map_option (\<lambda>q. q\<lparr>memory_regions := m_regions k, process_limit := m_limits k (limit_of k p),
                       vm_manager := (vm_manager q)\<lparr>vm_memory := m_memory k\<rparr>\<rparr>) (m_processes k p)"

definition put :: "nat \<Rightarrow> 'i ProcessMemory \<Rightarrow> 'i machine \<Rightarrow> 'i machine" where
  "put p q k =
     k\<lparr>m_regions := memory_regions q, m_memory := vm_memory (vm_manager q), m_limits := (m_limits k)(limit_of k p := process_limit q),
       m_processes := (m_processes k)(p \<mapsto> q)\<rparr>"

section \<open>Shared memory\<close>

definition ConvertPermissions :: "u32 \<Rightarrow> VMAPermission" where
  "ConvertPermissions perm = ucast (perm AND 7)"

fun free_intervals :: "'i icl \<Rightarrow> interval list \<Rightarrow> 'i MemoryRegionInfo \<Rightarrow> 'i MemoryRegionInfo option" where
  "free_intervals ops [] r = Some r"
| "free_intervals ops (iv # ivs) r = do { r \<leftarrow> Region_Free ops (fst iv) (snd iv - fst iv) r; free_intervals ops ivs r }"

text \<open>The destructor; the result of \<open>ChangeMemoryState\<close> is not looked at.\<close>

definition SharedMemory_destroy :: "'i icl \<Rightarrow> 'i SharedMemory \<Rightarrow> 'i machine \<Rightarrow> 'i machine option" where
  "SharedMemory_destroy ops s k =
     do {
       r \<leftarrow> free_intervals ops (icl_blocks ops (shm_holding s)) (m_regions k (shm_region s));
       let k = k\<lparr>m_regions := (m_regions k)(shm_region s := r)\<rparr>;
       case owner s of
         None \<Rightarrow> Some k
       | Some pid \<Rightarrow>
           (case fetch pid k of
              None \<Rightarrow> Some k
            | Some p \<Rightarrow> do {
                let p = p\<lparr>process_limit := snd (ResourceLimit_Release RL_SharedMemory 1 (process_limit p))\<rparr>;
                p \<leftarrow> (if shm_base s \<noteq> 0 then
                        map_option (\<lambda>(_, vm). p\<lparr>vm_manager := vm\<rparr>)
                          (ChangeMemoryState (shm_base s) (shm_size s) MS_Locked Perm_None MS_Private Perm_ReadWrite (vm_manager p))
                      else Some (p\<lparr>memory_used := memory_used p - shm_size s\<rparr>));
                Some (put pid p k)
              })
     }"

definition new_shared :: "'i icl \<Rightarrow> nat option \<Rightarrow> u32 \<Rightarrow> u32 \<Rightarrow> u32 \<Rightarrow> MemoryRegion \<Rightarrow> 'i SharedMemory" where
  "new_shared ops own sz permissions others region =
     \<lparr>linear_heap_phys_offset = 0, backing_blocks = [], shm_size = sz, shm_region = region, shm_permissions = permissions,
      other_permissions = others, owner = own, shm_base = 0, shm_holding = icl_empty ops\<rparr>"

text \<open>When the memory of the owner is not in the expected state, the new object is destroyed on return, before its address is set.\<close>

definition CreateSharedMemory ::
    "'i icl \<Rightarrow> nat option \<Rightarrow> u32 \<Rightarrow> u32 \<Rightarrow> u32 \<Rightarrow> u32 \<Rightarrow> MemoryRegion \<Rightarrow> 'i machine \<Rightarrow> ((ResultCode + 'i SharedMemory) \<times> 'i machine) option" where
  "CreateSharedMemory ops own sz permissions others address region k =
     (let s = new_shared ops own sz permissions others region
      in if address = 0 then do {
           (off, r) \<leftarrow> Region_LinearAllocate ops sz (m_regions k region);
           off \<leftarrow> off;
           m \<leftarrow> fill_fcram off (off + sz) (m_memory k);
           let k = k\<lparr>m_regions := (m_regions k)(region := r), m_memory := m\<rparr>;
           let k = (case Option.bind own (\<lambda>pid. map_option (Pair pid) (fetch pid k)) of
                      None \<Rightarrow> k
                    | Some (pid, p) \<Rightarrow> put pid (p\<lparr>memory_used := memory_used p + sz\<rparr>) k);
           Some (Inr (s\<lparr>backing_blocks := [(GetFCRAMRef (unat off), sz)], shm_holding := icl_add ops (shm_holding s) (off, off + sz),
                        linear_heap_phys_offset := off\<rparr>), k)
         }
         else do {
           pid \<leftarrow> own;
           p \<leftarrow> fetch pid k;
           (code, vm) \<leftarrow> ChangeMemoryState address sz MS_Private Perm_ReadWrite MS_Locked (ConvertPermissions permissions) (vm_manager p);
           let k = put pid (p\<lparr>vm_manager := vm\<rparr>) k;
           if code \<noteq> ResultSuccess then map_option (Pair (Inl code)) (SharedMemory_destroy ops s k)
           else do {
             blocks \<leftarrow> GetBackingBlocksForRange address sz (vma_map vm);
             case blocks of
               Inl _ \<Rightarrow> None
             | Inr bs \<Rightarrow> Some (Inr (s\<lparr>backing_blocks := bs, shm_base := address\<rparr>), k)
           }
         })"

fun fill_blocks :: "interval list \<Rightarrow> MemorySystem \<Rightarrow> MemorySystem option" where
  "fill_blocks [] m = Some m"
| "fill_blocks (iv # ivs) m = do { m \<leftarrow> fill_fcram (fst iv) (snd iv) m; fill_blocks ivs m }"

definition CreateSharedMemoryForApplet ::
    "'i icl \<Rightarrow> u32 \<Rightarrow> u32 \<Rightarrow> u32 \<Rightarrow> u32 \<Rightarrow> 'i machine \<Rightarrow> ('i SharedMemory \<times> 'i machine) option" where
  "CreateSharedMemoryForApplet ops off sz permissions others k =
     do {
       (blocks, r) \<leftarrow> Region_HeapAllocate ops sz (m_regions k SYSTEM);
       if icl_blocks ops blocks = [] then None
       else do {
         m \<leftarrow> fill_blocks (icl_blocks ops blocks) (m_memory k);
         Some ((new_shared ops None sz permissions others SYSTEM)
                 \<lparr>shm_holding := blocks, backing_blocks := map (\<lambda>iv. (GetFCRAMRef (unat (fst iv)), snd iv - fst iv)) (icl_blocks ops blocks),
                  shm_base := HEAP_BASE + off\<rparr>,
               k\<lparr>m_regions := (m_regions k)(SYSTEM := r), m_memory := m\<rparr>)
       }
     }"

text \<open>\<open>own\<close> says that the target process is the owner. The loop over the blocks is the one of \<open>Process::Map\<close>.\<close>

definition SharedMemory_Map :: "'i SharedMemory \<Rightarrow> bool \<Rightarrow> u32 \<Rightarrow> u32 \<Rightarrow> u32 \<Rightarrow> VMManager \<Rightarrow> (ResultCode \<times> VMManager) option" where
  "SharedMemory_Map s own address permissions others vm =
     (let own_other_permissions = (if own then shm_permissions s else other_permissions s)
      in if shm_base s = 0 \<and> others \<noteq> DontCare then Some (ResultInvalidCombination, vm)
         else if permissions AND NOT own_other_permissions \<noteq> 0 then Some (ResultInvalidCombination, vm)
         else if shm_base s \<noteq> 0 \<and> others = DontCare then Some (ResultInvalidCombination, vm)
         else if others \<noteq> DontCare \<and> shm_permissions s AND NOT others \<noteq> 0 then Some (ResultWrongPermission, vm)
         else if address \<noteq> 0 \<and> (address < HEAP_BASE \<or> address + shm_size s \<ge> SHARED_MEMORY_VADDR_END) then Some (ResultInvalidAddress, vm)
         else
           let target_address = (if shm_base s = 0 \<and> address = 0 then linear_heap_phys_offset s + LINEAR_HEAP_VADDR else address)
           in do {
             it \<leftarrow> FindVMA target_address (vma_map vm);
             v \<leftarrow> Option.bind it (\<lambda>key. vma_at key (vma_map vm));
             if vma_type v \<noteq> VMA_Free \<or> vma_base v + vma_size v < target_address + shm_size s then Some (ResultInvalidAddressState, vm)
             else map_option (Pair ResultSuccess) (map_alias_blocks target_address (backing_blocks s) (ConvertPermissions permissions) MS_Shared vm)
           })"

definition SharedMemory_Unmap :: "'i SharedMemory \<Rightarrow> u32 \<Rightarrow> VMManager \<Rightarrow> (ResultCode \<times> VMManager) option" where
  "SharedMemory_Unmap s address vm = UnmapRange address (shm_size s) vm"

section \<open>Calls\<close>

definition VerifyPermissions :: "u32 \<Rightarrow> bool" where
  "VerifyPermissions perm \<longleftrightarrow> perm \<in> {0, 1, 2, 3, DontCare}"

text \<open>The new object gets the next number and a handle; when the handle table is full it is destroyed.\<close>

definition CreateMemoryBlock :: "'i icl \<Rightarrow> nat \<Rightarrow> u32 \<Rightarrow> u32 \<Rightarrow> u32 \<Rightarrow> u32 \<Rightarrow> 'i machine \<Rightarrow> ((ResultCode + u32) \<times> 'i machine) option" where
  "CreateMemoryBlock ops pid addr sz my_permission other_permission k =
     (if \<not> page_aligned sz then Some (Inl ResultMisalignedSize, k)
      else if \<not> VerifyPermissions my_permission then Some (Inl ResultInvalidCombination, k)
      else if \<not> VerifyPermissions other_permission then Some (Inl ResultInvalidCombination, k)
      else if (addr < PROCESS_IMAGE_VADDR \<or> addr + sz > SHARED_MEMORY_VADDR_END) \<and> addr \<noteq> 0 then Some (Inl ResultInvalidAddress, k)
      else do {
        p \<leftarrow> fetch pid k;
        let k = put pid (p\<lparr>process_limit := snd (Reserve RL_SharedMemory 1 (process_limit p))\<rparr>) k;
        let region = (if addr = 0 \<and> shared_device_mem k pid then memory_region p else BASE);
        (res, k) \<leftarrow> CreateSharedMemory ops (Some pid) sz my_permission other_permission addr region k;
        case res of
          Inl code \<Rightarrow> Some (Inl code, k)
        | Inr s \<Rightarrow>
            (case HandleTable_Create (O_SharedMemory (next_shared k)) (handles k pid) of
               Inl e \<Rightarrow> map_option (Pair (Inl (handle_code e))) (SharedMemory_destroy ops s k)
             | Inr (h, t) \<Rightarrow>
                 Some (Inr h, k\<lparr>handles := (handles k)(pid := t), shared := (shared k)(next_shared k \<mapsto> s), next_shared := next_shared k + 1\<rparr>))
      })"

text \<open>\<open>handle_table.Get<SharedMemory>\<close>.\<close>

definition get_shared :: "nat \<Rightarrow> nat option \<Rightarrow> u32 \<Rightarrow> 'i machine \<Rightarrow> 'i SharedMemory option" where
  "get_shared pid tid h k =
     (case GetGeneric (map_option O_Thread tid) (Some (O_Process pid)) (handles k pid) h of
        Some (O_SharedMemory i) \<Rightarrow> shared k i
      | _ \<Rightarrow> None)"

definition MapMemoryBlock :: "nat \<Rightarrow> nat option \<Rightarrow> u32 \<Rightarrow> u32 \<Rightarrow> u32 \<Rightarrow> u32 \<Rightarrow> 'i machine \<Rightarrow> (ResultCode \<times> 'i machine) option" where
  "MapMemoryBlock pid tid h addr permissions others k =
     (case get_shared pid tid h k of
        None \<Rightarrow> Some (handle_code ResultInvalidHandle, k)
      | Some s \<Rightarrow>
          if permissions \<in> {1, 2, 3, 4, 5, 6, 7, DontCare} then do {
            p \<leftarrow> fetch pid k;
            (code, vm) \<leftarrow> SharedMemory_Map s (owner s = Some pid) addr permissions others (vm_manager p);
            Some (code, put pid (p\<lparr>vm_manager := vm\<rparr>) k)
          }
          else Some (ResultInvalidCombination, k))"

definition UnmapMemoryBlock :: "nat \<Rightarrow> nat option \<Rightarrow> u32 \<Rightarrow> u32 \<Rightarrow> 'i machine \<Rightarrow> (ResultCode \<times> 'i machine) option" where
  "UnmapMemoryBlock pid tid h addr k =
     (case get_shared pid tid h k of
        None \<Rightarrow> Some (handle_code ResultInvalidHandle, k)
      | Some s \<Rightarrow> do {
          p \<leftarrow> fetch pid k;
          (code, vm) \<leftarrow> SharedMemory_Unmap s addr (vm_manager p);
          Some (code, put pid (p\<lparr>vm_manager := vm\<rparr>) k)
        })"

text \<open>Closing the last handle destroys the object.\<close>

definition release_shared :: "'i icl \<Rightarrow> nat \<Rightarrow> 'i machine \<Rightarrow> 'i machine option" where
  "release_shared ops i k =
     (case shared k i of
        None \<Rightarrow> Some k
      | Some s \<Rightarrow> SharedMemory_destroy ops s (k\<lparr>shared := (shared k)(i := None)\<rparr>))"

end
