(* ===== verification/Shared_Facts.thy ===== *)
theory Shared_Facts
  imports Shared_Memory
begin

text \<open>
  Facts about shared memory: processes that map a block see the same bytes with the permissions they were granted, and blocks give back what they took.
\<close>

unbundle bit_operations_syntax

section \<open>Mapping blocks\<close>

definition block_ok :: "MemoryRef \<times> u32 \<Rightarrow> bool" where
  "block_ok b \<longleftrightarrow> 0 < snd b \<and> page_aligned (snd b) \<and> backs (fst b) (snd b)"

definition blocks_size :: "(MemoryRef \<times> u32) list \<Rightarrow> nat" where
  "blocks_size bs = sum_list (map (\<lambda>b. unat (snd b)) bs)"

lemma blocks_size_simps [simp]: "blocks_size [] = 0" "blocks_size ((r, n) # bs) = unat n + blocks_size bs"
  by (simp_all add: blocks_size_def)

text \<open>The memory behind the byte \<open>i\<close> of blocks laid out one behind the other.\<close>

fun ref_at :: "(MemoryRef \<times> u32) list \<Rightarrow> nat \<Rightarrow> MemoryRef" where
  "ref_at [] i = None"
| "ref_at ((r, n) # bs) i = (if i < unat n then map_option (\<lambda>(b, off). (b, off + i)) r else ref_at bs (i - unat n))"

lemma map_alias_blocks_Cons:
  "map_alias_blocks target ((r, n) # bs) perms st vm =
     do { vm \<leftarrow> map_and_protect target r n st perms vm; map_alias_blocks (target + n) bs perms st vm }"
  by (auto simp: map_and_protect_def bind_eq_None_conv split: bind_splits sum.splits)

definition laid_out :: "(MemoryRef \<times> u32) list \<Rightarrow> nat \<Rightarrow> VMAPermission \<Rightarrow> MemoryState \<Rightarrow> VMManager \<Rightarrow> VMManager \<Rightarrow> bool" where
  "laid_out bs t perms st vm vm' \<longleftrightarrow>
     (\<forall>i < blocks_size bs. vm_content vm' (t + i) = Some (VMA_BackingMemory, perms, st, ref_at bs i)) \<and>
     (\<forall>x. \<not> (t \<le> x \<and> x < t + blocks_size bs) \<longrightarrow> touched perms st (vm_content vm x) (vm_content vm' x))"

lemma map_alias_blocks_ok:
  "unlocked_space vm \<Longrightarrow> \<forall>b \<in> set bs. block_ok b \<Longrightarrow> page_aligned target \<Longrightarrow> unat target + blocks_size bs \<le> vm_end \<Longrightarrow>
   \<forall>x. unat target \<le> x \<and> x < unat target + blocks_size bs \<longrightarrow> map_option fst (vm_content vm x) = Some VMA_Free \<Longrightarrow>
   \<exists>vm'. map_alias_blocks target bs perms st vm = Some vm' \<and> unlocked_space vm' \<and> laid_out bs (unat target) perms st vm vm'"
proof (induction bs arbitrary: target vm)
  case Nil
  then show ?case by (simp add: laid_out_def)
next
  case (Cons b bs)
  obtain r n where b: "b = (r, n)" by fastforce
  have bo: "0 < n" "page_aligned n" "backs r n" using Cons.prems(2) b by (simp_all add: block_ok_def)
  have g: "good_range target n" using bo Cons.prems(3,4) b by (simp add: good_range_def)
  have f: "free_range (vm_content vm) target n" using Cons.prems(5) b by (simp add: free_range_def)
  obtain vm1 where m: "map_and_protect target r n st perms vm = Some vm1" "unlocked_space vm1"
    "\<And>x. if unat target \<le> x \<and> x < unat target + unat n then vm_content vm1 x = Some (mapped_at (unat target) r st perms x)
      else touched perms st (vm_content vm x) (vm_content vm1 x)"
    using map_and_protect_ok [OF Cons.prems(1) g bo(3) f, of st perms] by blast
  have t': "unat (target + n) = unat target + unat n" "page_aligned (target + n)" using good_rangeD(6,10) [OF g] by simp_all
  have f1: "map_option fst (vm_content vm1 x) = Some VMA_Free" if x: "unat (target + n) \<le> x" "x < unat (target + n) + blocks_size bs" for x
  proof -
    have "map_option fst (vm_content vm x) = Some VMA_Free" using Cons.prems(5) x t'(1) b by simp
    moreover have "touched perms st (vm_content vm x) (vm_content vm1 x)" using m(3) [of x] x t'(1) by simp
    ultimately show ?thesis by (auto simp: touched_def)
  qed
  have c: "\<forall>b \<in> set bs. block_ok b" "unat (target + n) + blocks_size bs \<le> vm_end" using Cons.prems(2,4) t'(1) b by simp_all
  obtain vm2 where r: "map_alias_blocks (target + n) bs perms st vm1 = Some vm2" "unlocked_space vm2" "laid_out bs (unat (target + n)) perms st vm1 vm2"
    using Cons.IH [OF m(2) c(1) t'(2) c(2)] f1 by blast
  note l = r(3) [unfolded laid_out_def, THEN conjunct1, rule_format] r(3) [unfolded laid_out_def, THEN conjunct2, rule_format]
  have "vm_content vm2 (unat target + i) = Some (VMA_BackingMemory, perms, st, ref_at (b # bs) i)" if i: "i < blocks_size (b # bs)" for i
  proof (cases "i < unat n")
    case True
    then have "vm_content vm1 (unat target + i) = Some (VMA_BackingMemory, perms, st, ref_at (b # bs) i)"
      using m(3) [of "unat target + i"] b by (simp add: mapped_at_def)
    then show ?thesis using l(2) [of "unat target + i"] t'(1) True touched_done by auto
  next
    case False
    then show ?thesis using l(1) [of "i - unat n"] i t'(1) b by auto
  qed
  moreover have "touched perms st (vm_content vm x) (vm_content vm2 x)" if x: "\<not> (unat target \<le> x \<and> x < unat target + blocks_size (b # bs))" for x
  proof -
    have "\<not> (unat target \<le> x \<and> x < unat target + unat n)" "\<not> (unat (target + n) \<le> x \<and> x < unat (target + n) + blocks_size bs)" using x t'(1) b by auto
    then show ?thesis using touched_trans m(3) [of x] l(2) [of x] by auto
  qed
  ultimately show ?case using m(1) r(1,2) b unfolding laid_out_def by (simp add: map_alias_blocks_Cons del: map_alias_blocks.simps)
qed

section \<open>Mapping shared memory\<close>

definition shm_ok :: "'i SharedMemory \<Rightarrow> bool" where
  "shm_ok s \<longleftrightarrow> 0 < shm_size s \<and> page_aligned (shm_size s) \<and> unat (shm_size s) \<le> 0x14000000 \<and>
     (\<forall>b \<in> set (backing_blocks s). block_ok b) \<and> blocks_size (backing_blocks s) = unat (shm_size s) \<and>
     (shm_base s = 0 \<longrightarrow> page_aligned (linear_heap_phys_offset s) \<and> unat (linear_heap_phys_offset s) + unat (shm_size s) \<le> 0x10000000)"

definition map_target :: "'i SharedMemory \<Rightarrow> u32 \<Rightarrow> u32" where
  "map_target s address = (if shm_base s = 0 \<and> address = 0 then linear_heap_phys_offset s + LINEAR_HEAP_VADDR else address)"

lemma map_target_range:
  assumes s: "shm_ok s" and a: "page_aligned address" "unat address + unat (shm_size s) < 2 ^ 32"
    and ok: "address = 0 \<or> \<not> (address < HEAP_BASE \<or> address + shm_size s \<ge> SHARED_MEMORY_VADDR_END)"
  shows "good_range (map_target s address) (shm_size s)"
proof -
  have z: "0 < shm_size s" "page_aligned (shm_size s)" "unat (shm_size s) \<le> 0x14000000" using s by (simp_all add: shm_ok_def)
  consider "shm_base s = 0 \<and> address = 0" | "shm_base s \<noteq> 0" "address = 0" | "address \<noteq> 0" by blast
  then show ?thesis
  proof cases
    case 1
    then have o: "page_aligned (linear_heap_phys_offset s)" "unat (linear_heap_phys_offset s) + unat (shm_size s) \<le> 0x10000000"
      using s by (simp_all add: shm_ok_def)
    then have "unat (linear_heap_phys_offset s + LINEAR_HEAP_VADDR) = unat (linear_heap_phys_offset s) + 0x14000000" by (simp add: unat_word_ariths)
    then show ?thesis using 1 z o by (simp add: map_target_def good_range_def page_aligned_unat)
  next
    case 2
    then show ?thesis using z by (simp add: map_target_def good_range_def page_aligned_unat)
  next
    case 3
    have "unat (address + shm_size s) = unat address + unat (shm_size s)" using a(2) by (simp add: unat_plus_less)
    moreover have "unat (address + shm_size s) < 0x14000000" using ok 3 by (simp add: word_le_nat_alt not_le)
    ultimately show ?thesis using 3 z a(1) by (simp add: map_target_def good_range_def)
  qed
qed

definition map_allowed :: "'i SharedMemory \<Rightarrow> bool \<Rightarrow> u32 \<Rightarrow> u32 \<Rightarrow> bool" where
  "map_allowed s own permissions others \<longleftrightarrow>
     permissions AND NOT (if own then shm_permissions s else other_permissions s) = 0 \<and>
     (shm_base s = 0 \<longleftrightarrow> others = DontCare) \<and> (others \<noteq> DontCare \<longrightarrow> shm_permissions s AND NOT others = 0)"

lemma SharedMemory_Map_ok:
  assumes vm: "unlocked_space vm" and s: "shm_ok s" and a: "page_aligned address" "unat address + unat (shm_size s) < 2 ^ 32"
  shows "\<exists>code vm'. SharedMemory_Map s own address permissions others vm = Some (code, vm') \<and>
    (if map_allowed s own permissions others \<and> (address \<noteq> 0 \<longrightarrow> address \<ge> HEAP_BASE \<and> address + shm_size s < SHARED_MEMORY_VADDR_END) \<and>
        free_range (vm_content vm) (map_target s address) (shm_size s)
     then code = ResultSuccess \<and> unlocked_space vm' \<and>
       laid_out (backing_blocks s) (unat (map_target s address)) (ConvertPermissions permissions) MS_Shared vm vm'
     else code \<noteq> ResultSuccess \<and> vm' = vm)"
proof -
  have codes: "ResultInvalidCombination \<noteq> ResultSuccess" "ResultWrongPermission \<noteq> ResultSuccess" "ResultInvalidAddress \<noteq> ResultSuccess"
    "ResultInvalidAddressState \<noteq> ResultSuccess"
    by (simp_all add: ResultInvalidCombination_def ResultWrongPermission_def ResultInvalidAddress_def ResultInvalidAddressState_def ResultSuccess_def make_result_def)
  let ?ok = "map_allowed s own permissions others" and ?ad = "address \<noteq> 0 \<longrightarrow> address \<ge> HEAP_BASE \<and> address + shm_size s < SHARED_MEMORY_VADDR_END"
  show ?thesis
  proof (cases "?ok \<and> ?ad")
    case False
    then have "\<exists>code. SharedMemory_Map s own address permissions others vm = Some (code, vm) \<and> code \<noteq> ResultSuccess"
      using codes by (auto simp: SharedMemory_Map_def map_allowed_def Let_def not_le not_less)
    then show ?thesis using False by auto
  next
    case True
    let ?t = "map_target s address"
    have g: "good_range ?t (shm_size s)" by (rule map_target_range [OF s a]) (use True in auto)
    obtain v where v: "FindVMA ?t (vma_map vm) = Some (Some (vma_base v))" "vma_at (vma_base v) (vma_map vm) = Some v"
      "(vma_type v \<noteq> VMA_Free \<or> vma_base v + vma_size v < ?t + shm_size s) \<longleftrightarrow> \<not> free_range (vm_content vm) ?t (shm_size s)"
      using free_test [OF _ g] vm unfolding unlocked_space_def by blast
    have step: "SharedMemory_Map s own address permissions others vm =
        (if \<not> free_range (vm_content vm) ?t (shm_size s) then Some (ResultInvalidAddressState, vm)
         else map_option (Pair ResultSuccess) (map_alias_blocks ?t (backing_blocks s) (ConvertPermissions permissions) MS_Shared vm))"
      unfolding v(3) [symmetric] using True v(1,2) by (auto simp: SharedMemory_Map_def map_allowed_def Let_def map_target_def)
    show ?thesis
    proof (cases "free_range (vm_content vm) ?t (shm_size s)")
      case f: True
      have b: "\<forall>b \<in> set (backing_blocks s). block_ok b" "blocks_size (backing_blocks s) = unat (shm_size s)" using s by (simp_all add: shm_ok_def)
      show ?thesis
        using map_alias_blocks_ok [OF vm b(1), of ?t "ConvertPermissions permissions" MS_Shared] good_rangeD(1,5) [OF g] f step True
        unfolding b(2) free_range_def by auto
    qed (use step codes True in simp)
  qed
qed


section \<open>Sharing\<close>

lemma ref_at_Some: "\<forall>b \<in> set bs. block_ok b \<Longrightarrow> i < blocks_size bs \<Longrightarrow> \<exists>h off. ref_at bs i = Some (h, off) \<and> off < GetSize h"
proof (induction bs arbitrary: i)
  case (Cons b bs)
  obtain r n where b: "b = (r, n)" by fastforce
  obtain h off where "r = Some (h, off)" "off + unat n \<le> GetSize h" using Cons.prems(1) b by (auto simp: block_ok_def backs_def)
  then show ?case using Cons.IH [of "i - unat n"] Cons.prems b by auto
qed simp

lemma SharedMemory_Map_success:
  assumes "unlocked_space vm" "shm_ok s" "page_aligned address" "unat address + unat (shm_size s) < 2 ^ 32"
    "SharedMemory_Map s own address permissions others vm = Some (ResultSuccess, vm')"
  shows "permissions AND NOT (if own then shm_permissions s else other_permissions s) = 0" "unlocked_space vm'"
    "laid_out (backing_blocks s) (unat (map_target s address)) (ConvertPermissions permissions) MS_Shared vm vm'"
  using SharedMemory_Map_ok [OF assms(1-4), of own permissions others] assms(5) unfolding map_allowed_def by (auto split: if_splits)

text \<open>The memory behind an address that is mapped directly is the one the areas say.\<close>

lemma content_vloc:
  assumes vm: "vm_inv vm" and c: "vm_content vm x = Some (VMA_BackingMemory, perms, st, Some (h, off))"
    and d: "attributes (tables (vm_memory vm) (page_table vm)) (x div CITRA_PAGE_SIZE) = Memory"
  shows "vloc (tables (vm_memory vm) (page_table vm)) x = (h, off)" "plain_page (tables (vm_memory vm) (page_table vm)) (x div CITRA_PAGE_SIZE)"
proof -
  note i = vm_invD [OF vm]
  let ?t = "tables (vm_memory vm) (page_table vm)" and ?p = "x div CITRA_PAGE_SIZE" and ?y = "x div CITRA_PAGE_SIZE * CITRA_PAGE_SIZE"
  have "x < vm_end" using content_outside [OF i(2), of x] c by (cases "x < vm_end") auto
  then obtain xs v ys where v: "vma_map vm = xs @ v # ys" "ub v \<le> x" "x < vend v" using tiled_find [OF i(2), of x] by auto
  have t: "tiled 0 (xs @ v # ys) vm_end" and ok: "vma_ok v" using i(2,3) v(1) by simp_all
  have a: "4096 dvd ub v" "4096 dvd unat (vma_size v)" using ok by (simp_all add: vma_ok_def page_aligned_unat)
  then obtain j k where jk: "ub v = j * 4096" "vend v = k * 4096" by (metis dvd_add dvd_def mult.commute vend_def)
  then have "j \<le> ?p" "?p < k" using v(2,3) by (simp_all add: div_less_iff_less_mult less_eq_div_iff_mult_less_eq)
  then have y: "ub v \<le> ?y" "?y \<le> x" "?y + 4096 \<le> vend v" using mult_le_mono1 [of "?p + 1" k 4096] by (simp_all add: jk)
  have cx: "attrs v x = (VMA_BackingMemory, perms, st, Some (h, off))" using content_mid [OF t, of x] c v by simp
  then obtain base where bm: "backing_memory v = Some (h, base)" "off = base + (x - ub v)" "vma_type v = VMA_BackingMemory" by (auto simp: attrs_def)
  have le: "base + unat (vma_size v) \<le> GetSize h" using ok bm by (simp add: vma_ok_def)
  have "vm_content vm ?y = Some (attrs v ?y)" using content_mid [OF t, of ?y] y v by simp
  then have "entry_is Memory (Some (h, base + (?y - ub v))) ?t ?p"
    using i(5) bm unfolding pages_agree_def page_agrees_def by (auto simp: attrs_def dest!: spec [of _ ?p])
  then have ptr: "pointers ?t ?p = Some (h, base + (?y - ub v))" using d by (simp add: entry_is_def)
  have "x = ?y + x mod CITRA_PAGE_SIZE" by simp
  then have "base + (?y - ub v) + x mod CITRA_PAGE_SIZE = off" using bm(2) y(1) by linarith
  then show "vloc ?t x = (h, off)" using ptr by (simp add: vloc_def)
  have "?p < PAGE_TABLE_NUM_ENTRIES" using \<open>x < vm_end\<close> by simp
  moreover have "base + (?y - ub v) + CITRA_PAGE_SIZE \<le> GetSize h" using le y by (simp add: vend_def)
  ultimately show "plain_page ?t ?p" using ptr d by (simp add: plain_page_def host_range_def)
qed

text \<open>
  C21: Processes that map a block of shared memory share it: the byte \<open>i\<close> of the block is the same byte of host memory in both address spaces, at whatever
  addresses it was mapped, also through the page tables where pages are mapped directly. Each process has the permissions it asked for, which never exceed those the
  owner allows it.
\<close>

theorem shared_memory_is_shared:
  assumes "unlocked_space va" "unlocked_space vb" "shm_ok s"
    "page_aligned a" "unat a + unat (shm_size s) < 2 ^ 32" "page_aligned b" "unat b + unat (shm_size s) < 2 ^ 32"
    "SharedMemory_Map s own_a a pa oa va = Some (ResultSuccess, va')" "SharedMemory_Map s own_b b pb ob vb = Some (ResultSuccess, vb')"
  shows "pa AND NOT (if own_a then shm_permissions s else other_permissions s) = 0 \<and>
    pb AND NOT (if own_b then shm_permissions s else other_permissions s) = 0 \<and>
    (\<forall>i < unat (shm_size s).
      let x = unat (map_target s a) + i; y = unat (map_target s b) + i;
          ta = tables (vm_memory va') (page_table va'); tb = tables (vm_memory vb') (page_table vb')
      in (\<exists>h off. vm_content va' x = Some (VMA_BackingMemory, ConvertPermissions pa, MS_Shared, Some (h, off)) \<and>
            vm_content vb' y = Some (VMA_BackingMemory, ConvertPermissions pb, MS_Shared, Some (h, off))) \<and>
         (attributes ta (x div CITRA_PAGE_SIZE) = Memory \<and> attributes tb (y div CITRA_PAGE_SIZE) = Memory \<longrightarrow> vloc ta x = vloc tb y))"
proof -
  note ma = SharedMemory_Map_success [OF assms(1,3,4,5,8)] and mb = SharedMemory_Map_success [OF assms(2,3,6,7,9)]
  have bs: "\<forall>b \<in> set (backing_blocks s). block_ok b" "blocks_size (backing_blocks s) = unat (shm_size s)" using assms(3) by (simp_all add: shm_ok_def)
  have i: "vm_inv va'" "vm_inv vb'" using ma(2) mb(2) by (simp_all add: unlocked_space_def)
  have c: "\<exists>h off. vm_content va' (unat (map_target s a) + j) = Some (VMA_BackingMemory, ConvertPermissions pa, MS_Shared, Some (h, off)) \<and>
      vm_content vb' (unat (map_target s b) + j) = Some (VMA_BackingMemory, ConvertPermissions pb, MS_Shared, Some (h, off))" if "j < unat (shm_size s)" for j
    using ma(3) mb(3) ref_at_Some [OF bs(1), of j] that unfolding laid_out_def bs(2) by fastforce
  show ?thesis
  proof (intro conjI allI impI)
    fix j assume j: "j < unat (shm_size s)"
    let ?x = "unat (map_target s a) + j" and ?y = "unat (map_target s b) + j"
    obtain h off where co: "vm_content va' ?x = Some (VMA_BackingMemory, ConvertPermissions pa, MS_Shared, Some (h, off))"
      "vm_content vb' ?y = Some (VMA_BackingMemory, ConvertPermissions pb, MS_Shared, Some (h, off))" using c [OF j] by blast
    then show "let x = ?x; y = ?y; ta = tables (vm_memory va') (page_table va'); tb = tables (vm_memory vb') (page_table vb')
      in (\<exists>h off. vm_content va' x = Some (VMA_BackingMemory, ConvertPermissions pa, MS_Shared, Some (h, off)) \<and>
            vm_content vb' y = Some (VMA_BackingMemory, ConvertPermissions pb, MS_Shared, Some (h, off))) \<and>
         (attributes ta (x div CITRA_PAGE_SIZE) = Memory \<and> attributes tb (y div CITRA_PAGE_SIZE) = Memory \<longrightarrow> vloc ta x = vloc tb y)"
      unfolding Let_def using content_vloc(1) [OF i(1) co(1)] content_vloc(1) [OF i(2) co(2)] by auto
  qed (use ma(1) mb(1) in simp_all)
qed


section \<open>Creation and destruction\<close>

lemma first_fit_aligned:
  assumes S: "page_set S" and f: "fits S n l" and m: "\<And>l'. fits S n l' \<Longrightarrow> l \<le> l'" and n: "0 < n"
  shows "page_aligned l"
proof (rule ccontr)
  assume na: "\<not> page_aligned l"
  note q = same_page_pred [OF na]
  have l: "{l..<l + n} \<subseteq> S" "unat l + unat n < 2 ^ 32" using f by (simp_all add: fits_def)
  have u: "unat (l + n) = unat l + unat n" "unat (l - 1 + n) = unat l - 1 + unat n" using l(2) q(1) by (simp_all add: unat_plus_less)
  have "l \<in> S" using l(1) u(1) n by (auto simp: word_le_nat_alt word_less_nat_alt)
  then have p: "l - 1 \<in> S" using S q(2) unfolding page_set_def by blast
  have "x \<in> S" if "x \<in> {l - 1..<l - 1 + n}" for x
  proof (cases "unat x = unat l - 1")
    case True
    then have "x = l - 1" using q(1) by (simp add: word_unat_eq_iff)
    then show ?thesis using p by simp
  next
    case False
    then have "x \<in> {l..<l + n}" using that u q(1,3) by (auto simp: word_le_nat_alt word_less_nat_alt)
    then show ?thesis using l(1) by blast
  qed
  then have "fits S n (l - 1)" using l(2) q(1) by (auto simp: fits_def)
  then show False using m [of "l - 1"] q(1,3) by (simp add: word_le_nat_alt)
qed

lemma s32_up_down: "- (2 ^ 31) \<le> x \<Longrightarrow> x < 2 ^ 31 \<Longrightarrow> to_s32 (to_s32 (x + 1) - 1) = x"
  by (simp add: to_s32_def mod_simps algebra_simps)

lemma reserve_release:
  assumes "- (2 ^ 31) \<le> m_current_values r ty" "m_current_values r ty < 2 ^ 31"
  shows "snd (ResourceLimit_Release ty 1 (snd (Reserve ty 1 r))) = r"
  using s32_up_down [OF assms] by (simp add: Reserve_def ResourceLimit_Release_def fun_upd_idem)

lemma zero_filled: "fill_fcram l (l + n) m = Some m' \<Longrightarrow> unat (l + n) = unat l + unat n \<Longrightarrow> i < unat n \<Longrightarrow> host m' FCRAM (unat l + i) = 0"
  by (auto simp: fill_fcram_def host_put_def split: if_splits)

text \<open>A block from a region: the object, the machine with it, and the way back.\<close>

context interval_sets
begin

lemma free_intervals_ok:
  "well_spaced bs \<Longrightarrow> region_ok ops r \<Longrightarrow> \<not> region_locked r \<Longrightarrow> spans bs \<subseteq> region_span r - free_points ops r \<Longrightarrow>
   \<exists>r'. free_intervals ops bs r = Some r' \<and> region_step_ok ops r r' (free_points ops r \<union> spans bs)"
proof (induction bs arbitrary: r)
  case Nil
  then show ?case by (simp add: region_step_ok_def)
next
  case (Cons iv bs)
  obtain r1 where r1: "Region_Free ops (fst iv) (snd iv - fst iv) r = Some r1" "region_step_ok ops r r1 (free_points ops r \<union> span iv)"
    "spans bs \<subseteq> region_span r1 - free_points ops r1" using give_block [OF Cons.prems(2,3,1,4)] by blast
  then obtain r2 where "free_intervals ops bs r1 = Some r2" "region_step_ok ops r1 r2 (free_points ops r1 \<union> spans bs)"
    using Cons.IH [of r1] spans_step(3) [OF Cons.prems(1)] by (auto simp: region_step_ok_def)
  then show ?case using r1(1,2) region_step_trans [OF r1(2)] by (auto simp: region_step_ok_def Un_assoc)
qed

lemma take_linear:
  assumes r: "region_ok ops r" "\<not> region_locked r" "unat (region_base r) + unat (region_size r) \<le> 0x10000000" "page_set (free_points ops r)"
    and n: "0 < n" and f: "\<exists>l. fits (free_points ops r) n l"
  shows "\<exists>l r' m'. Region_LinearAllocate ops n r = Some (Some l, r') \<and> fits (free_points ops r) n l \<and> page_aligned l \<and>
    unat l + unat n \<le> 0x10000000 \<and> region_step_ok ops r r' (free_points ops r - {l..<l + n}) \<and>
    fill_fcram l (l + n) m = Some m' \<and> (\<forall>i < unat n. host m' FCRAM (unat l + i) = 0)"
proof -
  obtain l r' where l: "Region_LinearAllocate ops n r = Some (Some l, r')" "fits (free_points ops r) n l" "\<And>l'. fits (free_points ops r) n l' \<Longrightarrow> l \<le> l'"
    "region_step_ok ops r r' (free_points ops r - {l..<l + n})" using Region_LinearAllocate_ok(2) [OF r(1,2) n f] by blast
  have w: "unat l + unat n < 2 ^ 32" "{l..<l + n} \<subseteq> free_points ops r" using l(2) by (simp_all add: fits_def)
  have u: "unat (l + n) = unat l + unat n" using w(1) by (simp add: unat_plus_less)
  define x where "x = l + n - 1"
  have x: "unat x = unat l + unat n - 1" using u n by (simp add: x_def unat_sub word_le_nat_alt word_less_nat_alt)
  then have "x \<in> {l..<l + n}" using u n by (auto simp: word_le_nat_alt word_less_nat_alt)
  then have "x \<in> region_span r" using w(2) r(1) by (auto simp: region_ok_def)
  then have e: "unat l + unat n \<le> 0x10000000" using x r(3) n by (simp add: region_span_def word_less_nat_alt) linarith
  then have "l \<le> FCRAM_N3DS_SIZE" "l + n \<le> FCRAM_N3DS_SIZE" using u by (simp_all add: word_le_nat_alt)
  then have "\<exists>m'. fill_fcram l (l + n) m = Some m'" by (simp add: fill_fcram_def)
  moreover have "page_aligned l" using first_fit_aligned [OF r(4) l(2) l(3) n] .
  ultimately show ?thesis using l e zero_filled [OF _ u] by blast
qed

end

lemma fetch_put [simp]: "fetch p (put p q k) = Some q"
  by (simp add: fetch_def put_def)

text \<open>The region a block without address comes from.\<close>

definition block_region :: "nat \<Rightarrow> 'i ProcessMemory \<Rightarrow> 'i machine \<Rightarrow> MemoryRegion" where
  "block_region pid p k = (if shared_device_mem k pid then memory_region p else BASE)"

lemma CreateMemoryBlock_region:
  assumes ops: "interval_sets ops" and p: "fetch pid k = Some p"
    and r: "region_ok ops (m_regions k (block_region pid p k))" "\<not> region_locked (m_regions k (block_region pid p k))"
      "unat (region_base (m_regions k (block_region pid p k))) + unat (region_size (m_regions k (block_region pid p k))) \<le> 0x10000000"
      "page_set (free_points ops (m_regions k (block_region pid p k)))"
    and sz: "page_aligned sz" "0 < sz" "VerifyPermissions pm" "VerifyPermissions om" and f: "\<exists>l. fits (free_points ops (m_regions k (block_region pid p k))) sz l"
    and h: "unat (next_free_slot (handles k pid)) < MAX_COUNT"
  shows "\<exists>hd l r' k1 m' t. CreateMemoryBlock ops pid 0 sz pm om k = Some (Inr hd, k1) \<and> HandleTable_Create (O_SharedMemory (next_shared k)) (handles k pid) = Inr (hd, t) \<and>
    fits (free_points ops (m_regions k (block_region pid p k))) sz l \<and> page_aligned l \<and> unat l + unat sz \<le> 0x10000000 \<and>
    region_step_ok ops (m_regions k (block_region pid p k)) r' (free_points ops (m_regions k (block_region pid p k)) - {l..<l + sz}) \<and>
    (\<forall>i < unat sz. host m' FCRAM (unat l + i) = 0) \<and>
    k1 = k\<lparr>m_regions := (m_regions k)(block_region pid p k := r'), m_memory := m',
           m_limits := (m_limits k)(limit_of k pid := snd (Reserve RL_SharedMemory 1 (m_limits k (limit_of k pid)))),
           m_processes := (m_processes k)(pid \<mapsto> p\<lparr>memory_regions := (m_regions k)(block_region pid p k := r'),
             process_limit := snd (Reserve RL_SharedMemory 1 (m_limits k (limit_of k pid))),
             vm_manager := (vm_manager p)\<lparr>vm_memory := m'\<rparr>, memory_used := memory_used p + sz\<rparr>),
           handles := (handles k)(pid := t),
           shared := (shared k)(next_shared k \<mapsto> (new_shared ops (Some pid) sz pm om (block_region pid p k))
             \<lparr>backing_blocks := [(Some (FCRAM, unat l), sz)], shm_holding := icl_add ops (icl_empty ops) (l, l + sz), linear_heap_phys_offset := l\<rparr>),
           next_shared := next_shared k + 1\<rparr>"
proof -
  let ?R = "block_region pid p k"
  obtain l r' m' where l: "Region_LinearAllocate ops sz (m_regions k ?R) = Some (Some l, r')" "fits (free_points ops (m_regions k ?R)) sz l" "page_aligned l"
    "unat l + unat sz \<le> 0x10000000" "region_step_ok ops (m_regions k ?R) r' (free_points ops (m_regions k ?R) - {l..<l + sz})"
    "fill_fcram l (l + sz) (m_memory k) = Some m'" "\<forall>i < unat sz. host m' FCRAM (unat l + i) = 0"
    using interval_sets.take_linear [OF ops r sz(2) f, of "m_memory k"] by blast
  obtain hd t where c: "HandleTable_Create (O_SharedMemory (next_shared k)) (handles k pid) = Inr (hd, t)"
    using h by (simp add: HandleTable_Create_def Let_def)
  obtain q where q: "m_processes k pid = Some q" "p = q\<lparr>memory_regions := m_regions k, process_limit := m_limits k (limit_of k pid),
      vm_manager := (vm_manager q)\<lparr>vm_memory := m_memory k\<rparr>\<rparr>" using p by (auto simp: fetch_def)
  have ref: "GetFCRAMRef (unat l) = Some (FCRAM, unat l)" using l(4) by (simp add: GetFCRAMRef_def make_ref_def)
  define k0 where "k0 = put pid (p\<lparr>process_limit := snd (Reserve RL_SharedMemory 1 (process_limit p))\<rparr>) k"
  have k0: "m_regions k0 = m_regions k" "m_memory k0 = m_memory k" "handles k0 = handles k" "shared_device_mem k0 = shared_device_mem k" "next_shared k0 = next_shared k"
    by (simp_all add: k0_def put_def q(2))
  have reg: "(if shared_device_mem k0 pid then memory_region p else BASE) = ?R" by (simp add: block_region_def k0)
  define s where "s = (new_shared ops (Some pid) sz pm om ?R)
    \<lparr>backing_blocks := [(Some (FCRAM, unat l), sz)], shm_holding := icl_add ops (icl_empty ops) (l, l + sz), linear_heap_phys_offset := l\<rparr>"
  have "CreateSharedMemory ops (Some pid) sz pm om 0 ?R k0 =
      Some (Inr s, put pid (the (fetch pid (k0\<lparr>m_regions := (m_regions k)(?R := r'), m_memory := m'\<rparr>))
        \<lparr>memory_used := memory_used p + sz\<rparr>) (k0\<lparr>m_regions := (m_regions k)(?R := r'), m_memory := m'\<rparr>))"
    using l(1,6) by (simp add: CreateSharedMemory_def k0 Let_def ref s_def new_shared_def) (simp add: k0_def put_def fetch_def)
  then have "CreateMemoryBlock ops pid 0 sz pm om k = Some (Inr hd, (put pid (the (fetch pid (k0\<lparr>m_regions := (m_regions k)(?R := r'), m_memory := m'\<rparr>))
        \<lparr>memory_used := memory_used p + sz\<rparr>) (k0\<lparr>m_regions := (m_regions k)(?R := r'), m_memory := m'\<rparr>))
        \<lparr>handles := (handles k)(pid := t), shared := (shared k)(next_shared k \<mapsto> s), next_shared := next_shared k + 1\<rparr>)"
    using sz p c reg by (simp add: CreateMemoryBlock_def Let_def k0_def [symmetric]) (simp add: k0 put_def k0_def)
  then show ?thesis using l(2-5,7) c
    by (intro exI [of _ hd] exI [of _ l] exI [of _ r'] exI [of _ _] exI [of _ m'] exI [of _ t])
      (simp add: s_def put_def fetch_def k0_def q)
qed

lemma shm_region_ok:
  assumes "page_aligned l" "unat l + unat sz \<le> 0x10000000" "page_aligned sz" "0 < sz"
  shows "shm_ok ((new_shared ops own sz pm om R)\<lparr>backing_blocks := [(Some (FCRAM, unat l), sz)], shm_holding := H, linear_heap_phys_offset := l\<rparr>)"
  using assms by (simp add: shm_ok_def new_shared_def block_ok_def backs_def)



section \<open>Blocks of own memory\<close>

lemma page_aligned_ops:
  assumes "page_aligned a" "page_aligned b"
  shows "page_aligned (a - b)" "page_aligned (a + b)"
proof -
  have m: "page_aligned x \<longleftrightarrow> 4096 dvd uint x" for x by (simp add: page_aligned_unat flip: int_dvd_int_iff)
  show "page_aligned (a - b)" "page_aligned (a + b)" using assms by (simp_all add: m uint_word_ariths dvd_mod)
qed

lemma backing_loop_aligned:
  assumes "backing_loop target stop vs acc = Some r"
  shows "page_aligned target \<longrightarrow> page_aligned stop \<longrightarrow> all_ok vs \<longrightarrow> (\<forall>b \<in> set acc. page_aligned (snd b)) \<longrightarrow>
    (case r of Inl _ \<Rightarrow> True | Inr bs \<Rightarrow> \<forall>b \<in> set bs. page_aligned (snd b))"
proof (rule backing_loop.raw_induct [OF _ assms], goal_cases)
  case (1 loop target stop vs acc r)
  show ?case
  proof (intro impI)
    assume h: "page_aligned target" "page_aligned stop" "all_ok vs" "\<forall>b \<in> set acc. page_aligned (snd b)"
    show "case r of Inl _ \<Rightarrow> True | Inr bs \<Rightarrow> \<forall>b \<in> set bs. page_aligned (snd b)"
    proof (cases "target = stop")
      case False
      then obtain key v where v: "FindVMA target vs = Some (Some key)" "vma_at key vs = Some v" using 1(2) by (auto split: bind_splits)
      then have "v \<in> set vs" by (auto simp: vma_at_def find_Some_iff)
      then have "page_aligned (vma_base v)" "page_aligned (vma_size v)" using h(3) by (auto simp: vma_ok_def)
      then have a: "page_aligned (min stop (vma_base v + vma_size v) - target)" using h(1,2) by (simp add: min_def page_aligned_ops)
      show ?thesis
      proof (cases "vma_type v")
        case VMA_Free
        then show ?thesis using 1(2) False v by auto
      next
        case VMA_BackingMemory
        let ?n = "min stop (vma_base v + vma_size v) - target"
        obtain m where m: "loop (target + ?n) stop vs (acc @ [(m, ?n)]) = Some r" using 1(2) False v VMA_BackingMemory by (auto simp: Let_def split: bind_splits)
        then show ?thesis using 1(1) [OF m] h a page_aligned_ops(2) [OF h(1) a] by auto
      qed
    qed (use 1(2) h in auto)
  qed
qed

lemma blocks_cover_refs:
  "blocks_cover c lo bs hi \<Longrightarrow> blocks_size bs = hi - lo \<and> (\<forall>b \<in> set bs. 0 < snd b \<and> backs (fst b) (snd b)) \<and>
   (\<forall>i < hi - lo. \<exists>p s. c (lo + i) = Some (VMA_BackingMemory, p, s, ref_at bs i))"
proof (induction bs arbitrary: lo)
  case (Cons b bs)
  obtain r n where b: "b = (r, n)" by fastforce
  have h: "0 < n" "backs r n" "\<And>x. lo \<le> x \<Longrightarrow> x < lo + unat n \<Longrightarrow> \<exists>p s. c x = Some (mapped_at lo r s p x)" "blocks_cover c (lo + unat n) bs hi"
    using Cons.prems b by auto
  have le: "lo + unat n \<le> hi" using blocks_cover_le [OF h(4)] .
  note ih = Cons.IH [OF h(4)]
  have "\<exists>p s. c (lo + i) = Some (VMA_BackingMemory, p, s, ref_at (b # bs) i)" if i: "i < hi - lo" for i
  proof (cases "i < unat n")
    case True
    then show ?thesis using h(3) [of "lo + i"] b by (auto simp: mapped_at_def)
  next
    case False
    then have "\<exists>p s. c (lo + unat n + (i - unat n)) = Some (VMA_BackingMemory, p, s, ref_at bs (i - unat n))" using ih i by (auto dest!: conjunct2 spec [of _ "i - unat n"])
    then show ?thesis using False b by simp
  qed
  then show ?case using ih h(1,2) le b by auto
qed simp

lemma blocks_of_range:
  assumes vm: "vm_inv vm" and g: "good_range a n" and u: "used_range (vm_content vm) a n"
  shows "\<exists>bs. GetBackingBlocksForRange a n (vma_map vm) = Some (Inr bs) \<and> (\<forall>b \<in> set bs. block_ok b) \<and> blocks_size bs = unat n \<and>
    (\<forall>i < unat n. \<exists>p s. vm_content vm (unat a + i) = Some (VMA_BackingMemory, p, s, ref_at bs i))"
proof -
  obtain bs where bs: "GetBackingBlocksForRange a n (vma_map vm) = Some (Inr bs)" "blocks_cover (vm_content vm) (unat a) bs (unat a + unat n)"
    using GetBackingBlocksForRange_ok [OF vm g] u unfolding used_range_def by (meson order.trans)
  have "\<forall>b \<in> set bs. page_aligned (snd b)"
    using backing_loop_aligned [OF bs(1) [unfolded GetBackingBlocksForRange_def]] good_rangeD(1,10) [OF g] vm_invD(3) [OF vm] by simp
  then show ?thesis using bs(1) blocks_cover_refs [OF bs(2)] by (auto simp: block_ok_def)
qed

text \<open>Memory of the process that may be made a block: private and writable.\<close>

definition own_memory :: "(nat \<Rightarrow> attrs option) \<Rightarrow> u32 \<Rightarrow> u32 \<Rightarrow> bool" where
  "own_memory c a n \<longleftrightarrow> (\<forall>x v. unat a \<le> x \<and> x < unat a + unat n \<and> c x = Some v \<longrightarrow> in_state MS_Private Perm_ReadWrite v \<and> fst v \<noteq> VMA_Free)"

lemma change_state:
  assumes "unlocked_space vm" "good_range a n"
  shows "if \<forall>x v. unat a \<le> x \<and> x < unat a + unat n \<and> vm_content vm x = Some v \<longrightarrow> in_state st p v \<and> fst v \<noteq> VMA_Free
    then \<exists>vm'. ChangeMemoryState a n st p st' p' vm = Some (ResultSuccess, vm') \<and> unlocked_space vm' \<and> vm_content vm' = with_change (set_state st' p') a n (vm_content vm)
    else ChangeMemoryState a n st p st' p' vm = Some (ResultInvalidAddressState, vm)"
proof -
  have vm: "vm_inv vm" "\<not> is_locked vm" using assms(1) by (simp_all add: unlocked_space_def)
  show ?thesis
  proof (cases "\<forall>x v. unat a \<le> x \<and> x < unat a + unat n \<and> vm_content vm x = Some v \<longrightarrow> in_state st p v \<and> fst v \<noteq> VMA_Free")
    case True
    then obtain vm' where "ChangeMemoryState a n st p st' p' vm = Some (ResultSuccess, vm')" "vm_inv vm'" "same_space vm vm'"
      "\<forall>x. vm_content vm' x = updated (set_state st' p') (unat a) (unat a + unat n) (vm_content vm) x"
      using ChangeMemoryState_ok(2) [OF vm assms(2), of st p st' p'] by blast
    then show ?thesis using True vm(2) same_space_locked [of vm vm'] by (auto simp: unlocked_space_def with_change_def fun_eq_iff)
  next
    case False
    then have "ChangeMemoryState a n st p st' p' vm = Some (ResultInvalidAddressState, vm)" using ChangeMemoryState_ok(1) [OF vm assms(2), of st p st' p'] by blast
    then show ?thesis unfolding if_not_P [OF False] .
  qed
qed

lemma own_memory_used:
  assumes "unlocked_space vm" "good_range a n" "own_memory (vm_content vm) a n"
  shows "used_range (vm_content vm) a n"
  unfolding used_range_def
proof (intro allI impI notI)
  fix x assume x: "unat a \<le> x \<and> x < unat a + unat n" "map_option fst (vm_content vm x) = Some VMA_Free"
  then obtain v where "vm_content vm x = Some v" "fst v = VMA_Free" by (auto simp del: split_paired_Ex split_paired_All)
  then show False using assms(3) x(1) unfolding own_memory_def by blast
qed

lemma fetch_parts:
  assumes "fetch pid k = Some p"
  shows "memory_regions p = m_regions k" "process_limit p = m_limits k (limit_of k pid)" "vm_memory (vm_manager p) = m_memory k"
  using assms by (auto simp: fetch_def)

lemma CreateSharedMemory_own:
  assumes ops: "interval_sets ops" and p: "fetch pid k = Some p" and vm: "unlocked_space (vm_manager p)" and g: "good_range a sz" and a: "a \<noteq> 0"
  shows "own_memory (vm_content (vm_manager p)) a sz \<Longrightarrow>
      \<exists>vm bs. CreateSharedMemory ops (Some pid) sz pm om a R k =
          Some (Inr ((new_shared ops (Some pid) sz pm om R)\<lparr>backing_blocks := bs, shm_base := a\<rparr>), put pid (p\<lparr>vm_manager := vm\<rparr>) k) \<and>
        unlocked_space vm \<and> vm_content vm = with_change (set_state MS_Locked (ConvertPermissions pm)) a sz (vm_content (vm_manager p)) \<and>
        (\<forall>b \<in> set bs. block_ok b) \<and> blocks_size bs = unat sz \<and>
        (\<forall>i < unat sz. \<exists>q s. vm_content (vm_manager p) (unat a + i) = Some (VMA_BackingMemory, q, s, ref_at bs i))"
    "\<not> own_memory (vm_content (vm_manager p)) a sz \<Longrightarrow>
      CreateSharedMemory ops (Some pid) sz pm om a R k = Some (Inl ResultInvalidAddressState,
        put pid (p\<lparr>process_limit := snd (ResourceLimit_Release RL_SharedMemory 1 (process_limit p)), memory_used := memory_used p - sz\<rparr>)
          (put pid p k))"
proof -
  note ch = change_state [OF vm g, of MS_Private Perm_ReadWrite MS_Locked "ConvertPermissions pm"]
  assume o: "own_memory (vm_content (vm_manager p)) a sz"
  then obtain vm' where v: "ChangeMemoryState a sz MS_Private Perm_ReadWrite MS_Locked (ConvertPermissions pm) (vm_manager p) = Some (ResultSuccess, vm')"
    "unlocked_space vm'" "vm_content vm' = with_change (set_state MS_Locked (ConvertPermissions pm)) a sz (vm_content (vm_manager p))"
    using ch unfolding own_memory_def by (auto split: if_splits)
  have "used_range (vm_content vm') a sz"
    using own_memory_used [OF vm g o] by (auto simp: v(3) used_range_def with_change_def updated_def set_state_def)
  then obtain bs where bs: "GetBackingBlocksForRange a sz (vma_map vm') = Some (Inr bs)" "\<forall>b \<in> set bs. block_ok b" "blocks_size bs = unat sz"
    "\<forall>i < unat sz. \<exists>p s. vm_content vm' (unat a + i) = Some (VMA_BackingMemory, p, s, ref_at bs i)"
    using blocks_of_range [OF _ g] v(2) unfolding unlocked_space_def by blast
  have "\<exists>q s. vm_content (vm_manager p) (unat a + i) = Some (VMA_BackingMemory, q, s, ref_at bs i)" if "i < unat sz" for i
    using bs(4) that unfolding v(3) with_change_def updated_def set_state_def by (auto split: if_splits option.splits dest!: spec [of _ i])
  then show "\<exists>vm bs. CreateSharedMemory ops (Some pid) sz pm om a R k =
          Some (Inr ((new_shared ops (Some pid) sz pm om R)\<lparr>backing_blocks := bs, shm_base := a\<rparr>), put pid (p\<lparr>vm_manager := vm\<rparr>) k) \<and>
        unlocked_space vm \<and> vm_content vm = with_change (set_state MS_Locked (ConvertPermissions pm)) a sz (vm_content (vm_manager p)) \<and>
        (\<forall>b \<in> set bs. block_ok b) \<and> blocks_size bs = unat sz \<and>
        (\<forall>i < unat sz. \<exists>q s. vm_content (vm_manager p) (unat a + i) = Some (VMA_BackingMemory, q, s, ref_at bs i))"
    using v bs a p by (intro exI [of _ vm'] exI [of _ bs]) (simp add: CreateSharedMemory_def Let_def ResultSuccess_def)
next
  note ch = change_state [OF vm g, of MS_Private Perm_ReadWrite MS_Locked "ConvertPermissions pm"]
  assume n: "\<not> own_memory (vm_content (vm_manager p)) a sz"
  then have "ChangeMemoryState a sz MS_Private Perm_ReadWrite MS_Locked (ConvertPermissions pm) (vm_manager p) = Some (ResultInvalidAddressState, vm_manager p)"
    using ch unfolding own_memory_def by presburger
  moreover have "ResultInvalidAddressState \<noteq> ResultSuccess" by (simp add: ResultInvalidAddressState_def ResultSuccess_def make_result_def)
  moreover have "icl_blocks ops (icl_empty ops) = []" using interval_sets.points_empty [OF ops] by simp
  ultimately show "CreateSharedMemory ops (Some pid) sz pm om a R k = Some (Inl ResultInvalidAddressState,
        put pid (p\<lparr>process_limit := snd (ResourceLimit_Release RL_SharedMemory 1 (process_limit p)), memory_used := memory_used p - sz\<rparr>)
          (put pid p k))"
    using a p by (simp add: CreateSharedMemory_def Let_def SharedMemory_destroy_def new_shared_def)
qed

lemma restore_state:
  assumes vm: "unlocked_space vm" and g: "good_range a sz" and o: "own_memory c a sz" and e: "vm_content vm = with_change (set_state MS_Locked q) a sz c"
  shows "\<exists>vm'. ChangeMemoryState a sz MS_Locked Perm_None MS_Private Perm_ReadWrite vm = Some (ResultSuccess, vm') \<and>
    vm_content vm' = with_change (set_state MS_Private Perm_ReadWrite) a sz c"
proof -
  have "in_state MS_Locked Perm_None v \<and> fst v \<noteq> VMA_Free" if x: "unat a \<le> x" "x < unat a + unat sz" "vm_content vm x = Some v" for x v
  proof -
    obtain w where w: "c x = Some w" "v = set_state MS_Locked q w" using x by (auto simp: e with_change_def updated_def)
    then have "fst w \<noteq> VMA_Free" using o x(1,2) unfolding own_memory_def by blast
    then show ?thesis using w(2) by (simp add: set_state_def in_state_def split: prod.splits)
  qed
  then have all: "\<forall>x v. unat a \<le> x \<and> x < unat a + unat sz \<and> vm_content vm x = Some v \<longrightarrow> in_state MS_Locked Perm_None v \<and> fst v \<noteq> VMA_Free" by blast
  obtain vm' where v: "ChangeMemoryState a sz MS_Locked Perm_None MS_Private Perm_ReadWrite vm = Some (ResultSuccess, vm')"
    "vm_content vm' = with_change (set_state MS_Private Perm_ReadWrite) a sz (vm_content vm)"
    using change_state [OF vm g, of MS_Locked Perm_None MS_Private Perm_ReadWrite] unfolding if_P [OF all] by blast
  have "with_change (set_state MS_Private Perm_ReadWrite) a sz (vm_content vm) x = with_change (set_state MS_Private Perm_ReadWrite) a sz c x" for x
    by (cases "c x") (auto simp: e with_change_def updated_def set_state_def)
  then show ?thesis using v by auto
qed

text \<open>
  C23: A memory block at an address of its creator is the memory that lies there, exactly when all of it is private and writable: that memory is locked with the
  permissions of the creator while the block exists, nothing is charged, and destroying the block makes it private and writable again. When it is not, the call
  fails and no address changes, but the account of the process is reduced by the size of the block although nothing was ever charged.
\<close>

theorem block_of_own_memory:
  assumes "interval_sets ops" "fetch pid k = Some p" "unlocked_space (vm_manager p)" "good_range a sz" "PROCESS_IMAGE_VADDR \<le> a" "a + sz \<le> SHARED_MEMORY_VADDR_END"
    "VerifyPermissions pm" "VerifyPermissions om" "unat (next_free_slot (handles k pid)) < MAX_COUNT"
    "- (2 ^ 31) \<le> m_current_values (process_limit p) RL_SharedMemory" "m_current_values (process_limit p) RL_SharedMemory < 2 ^ 31"
  shows "if own_memory (vm_content (vm_manager p)) a sz
    then \<exists>hd s k1 p1 k2 p2. CreateMemoryBlock ops pid a sz pm om k = Some (Inr hd, k1) \<and> fetch pid k1 = Some p1 \<and> shared k1 (next_shared k) = Some s \<and> shm_ok s \<and>
      (\<forall>i < unat sz. \<exists>q t. vm_content (vm_manager p) (unat a + i) = Some (VMA_BackingMemory, q, t, ref_at (backing_blocks s) i)) \<and>
      vm_content (vm_manager p1) = with_change (set_state MS_Locked (ConvertPermissions pm)) a sz (vm_content (vm_manager p)) \<and> memory_used p1 = memory_used p \<and>
      release_shared ops (next_shared k) k1 = Some k2 \<and> fetch pid k2 = Some p2 \<and>
      vm_content (vm_manager p2) = with_change (set_state MS_Private Perm_ReadWrite) a sz (vm_content (vm_manager p)) \<and>
      memory_used p2 = memory_used p \<and> m_limits k2 = m_limits k
    else \<exists>k1 p1. CreateMemoryBlock ops pid a sz pm om k = Some (Inl ResultInvalidAddressState, k1) \<and> fetch pid k1 = Some p1 \<and>
      vm_content (vm_manager p1) = vm_content (vm_manager p) \<and> m_limits k1 = m_limits k \<and> memory_used p1 = memory_used p - sz"
proof -
  have a: "a \<noteq> 0" using assms(5) by auto
  note pl = fetch_parts(2) [OF assms(2)]
  define p0 where "p0 = p\<lparr>process_limit := snd (Reserve RL_SharedMemory 1 (process_limit p))\<rparr>"
  define k0 where "k0 = put pid p0 k"
  have f0: "fetch pid k0 = Some p0" "unlocked_space (vm_manager p0)" "vm_manager p0 = vm_manager p" "memory_used p0 = memory_used p" using assms(3) by (simp_all add: k0_def p0_def)
  have k0: "handles k0 = handles k" "next_shared k0 = next_shared k" "m_limits k0 = (m_limits k)(limit_of k pid := process_limit p0)" "limit_of k0 = limit_of k"
    "m_regions k0 = m_regions k" using fetch_parts [OF assms(2)] by (simp_all add: k0_def put_def p0_def)
  have lim: "snd (ResourceLimit_Release RL_SharedMemory 1 (process_limit p0)) = m_limits k (limit_of k pid)"
    using reserve_release assms(10,11) pl unfolding p0_def by simp
  have step: "CreateMemoryBlock ops pid a sz pm om k = do {
        (res, k) \<leftarrow> CreateSharedMemory ops (Some pid) sz pm om a BASE k0;
        case res of
          Inl code \<Rightarrow> Some (Inl code, k)
        | Inr s \<Rightarrow>
            (case HandleTable_Create (O_SharedMemory (next_shared k)) (handles k pid) of
               Inl e \<Rightarrow> map_option (Pair (Inl (handle_code e))) (SharedMemory_destroy ops s k)
             | Inr (h, t) \<Rightarrow>
                 Some (Inr h, k\<lparr>handles := (handles k)(pid := t), shared := (shared k)(next_shared k \<mapsto> s), next_shared := next_shared k + 1\<rparr>)) }"
    using a assms(2,5-8) good_rangeD(2) [OF assms(4)] by (simp add: CreateMemoryBlock_def k0_def p0_def leD [OF assms(5)] leD [OF assms(6)])
  note own = CreateSharedMemory_own [OF assms(1) f0(1,2) assms(4) a, of pm om BASE]
  show ?thesis
  proof (cases "own_memory (vm_content (vm_manager p)) a sz")
    case False
    define p1 where "p1 = p0\<lparr>process_limit := snd (ResourceLimit_Release RL_SharedMemory 1 (process_limit p0)), memory_used := memory_used p0 - sz\<rparr>"
    have "CreateMemoryBlock ops pid a sz pm om k = Some (Inl ResultInvalidAddressState, put pid p1 (put pid p0 k0))"
      unfolding step using own(2) False f0(3) by (simp add: p1_def)
    moreover have "m_limits (put pid p1 (put pid p0 k0)) = m_limits k" by (simp add: put_def k0 p1_def lim fun_upd_idem)
    moreover have "vm_manager p1 = vm_manager p" "memory_used p1 = memory_used p - sz" by (simp_all add: p1_def f0(3,4))
    ultimately show ?thesis using False by auto
  next
    case True
    then obtain vm bs where c: "CreateSharedMemory ops (Some pid) sz pm om a BASE k0 =
          Some (Inr ((new_shared ops (Some pid) sz pm om BASE)\<lparr>backing_blocks := bs, shm_base := a\<rparr>), put pid (p0\<lparr>vm_manager := vm\<rparr>) k0)"
      "unlocked_space vm" "vm_content vm = with_change (set_state MS_Locked (ConvertPermissions pm)) a sz (vm_content (vm_manager p))"
      "\<forall>b \<in> set bs. block_ok b" "blocks_size bs = unat sz"
      "\<forall>i < unat sz. \<exists>q s. vm_content (vm_manager p) (unat a + i) = Some (VMA_BackingMemory, q, s, ref_at bs i)"
      using own(1) unfolding f0(3) by blast
    define s where "s = (new_shared ops (Some pid) sz pm om BASE)\<lparr>backing_blocks := bs, shm_base := a\<rparr>"
    obtain hd t where h: "HandleTable_Create (O_SharedMemory (next_shared k)) (handles k pid) = Inr (hd, t)" using assms(9) by (simp add: HandleTable_Create_def Let_def)
    define k1 where "k1 = (put pid (p0\<lparr>vm_manager := vm\<rparr>) k0)\<lparr>handles := (handles k)(pid := t), shared := (shared k0)(next_shared k \<mapsto> s), next_shared := next_shared k + 1\<rparr>"
    have k1: "CreateMemoryBlock ops pid a sz pm om k = Some (Inr hd, k1)"
      unfolding step c(1) using h by (simp add: k1_def s_def put_def k0)
    obtain vm2 where v2: "ChangeMemoryState a sz MS_Locked Perm_None MS_Private Perm_ReadWrite vm = Some (ResultSuccess, vm2)"
      "vm_content vm2 = with_change (set_state MS_Private Perm_ReadWrite) a sz (vm_content (vm_manager p))"
      using restore_state [OF c(2) assms(4) True c(3)] by blast
    define p2 where "p2 = p0\<lparr>process_limit := m_limits k (limit_of k pid), vm_manager := vm2\<rparr>"
    have emp: "icl_blocks ops (icl_empty ops) = []" using interval_sets.points_empty [OF assms(1)] by simp
    have r: "release_shared ops (next_shared k) k1 = Some (put pid p2 (k1\<lparr>shared := (shared k0)(next_shared k := None)\<rparr>))"
      using a v2(1) emp lim by (simp add: release_shared_def SharedMemory_destroy_def k1_def s_def new_shared_def p2_def put_def fetch_def)
    have small: "unat sz \<le> 0x14000000"
    proof -
      have "unat a + unat sz \<le> 0x14000000" using assms(6) good_rangeD(6) [OF assms(4)] by (simp add: word_le_nat_alt)
      then show ?thesis using assms(5) by (simp add: word_le_nat_alt)
    qed
    have s: "shared k1 (next_shared k) = Some s" "shm_ok s" "backing_blocks s = bs" "fetch pid k1 = Some (p0\<lparr>vm_manager := vm\<rparr>)"
      using c(4,5) a good_rangeD(2,3) [OF assms(4)] small by (simp_all add: k1_def s_def shm_ok_def new_shared_def fetch_def put_def)
    have "m_limits (put pid p2 (k1\<lparr>shared := (shared k0)(next_shared k := None)\<rparr>)) = m_limits k" by (simp add: put_def k0 k1_def p2_def fun_upd_idem)
    moreover have "vm_manager p2 = vm2" "memory_used p2 = memory_used p" by (simp_all add: p2_def f0)
    ultimately have "fetch pid k1 = Some (p0\<lparr>vm_manager := vm\<rparr>) \<and> shared k1 (next_shared k) = Some s \<and> shm_ok s \<and>
      (\<forall>i < unat sz. \<exists>q t. vm_content (vm_manager p) (unat a + i) = Some (VMA_BackingMemory, q, t, ref_at (backing_blocks s) i)) \<and>
      vm_content (vm_manager (p0\<lparr>vm_manager := vm\<rparr>)) = with_change (set_state MS_Locked (ConvertPermissions pm)) a sz (vm_content (vm_manager p)) \<and>
      memory_used (p0\<lparr>vm_manager := vm\<rparr>) = memory_used p \<and>
      release_shared ops (next_shared k) k1 = Some (put pid p2 (k1\<lparr>shared := (shared k0)(next_shared k := None)\<rparr>)) \<and>
      fetch pid (put pid p2 (k1\<lparr>shared := (shared k0)(next_shared k := None)\<rparr>)) = Some p2 \<and>
      vm_content (vm_manager p2) = with_change (set_state MS_Private Perm_ReadWrite) a sz (vm_content (vm_manager p)) \<and>
      memory_used p2 = memory_used p \<and> m_limits (put pid p2 (k1\<lparr>shared := (shared k0)(next_shared k := None)\<rparr>)) = m_limits k"
      using s r c(3,6) v2(2) f0(4) by simp
    then show ?thesis unfolding if_P [OF True] using k1 by blast
  qed
qed


section \<open>An example\<close>

definition demo_machine :: "interval_list machine" where
  "demo_machine = \<lparr>m_regions = (\<lambda>_. demo_app), m_memory = vm_memory demo_space, m_limits = (\<lambda>_. ResourceLimit_Create), limit_of = (\<lambda>_. 0),
     m_processes = (\<lambda>_. Some demo_process), handles = (\<lambda>_. HandleTable_new), shared_device_mem = (\<lambda>_. False), shared = (\<lambda>_. None), next_shared = 0\<rparr>"

lemma demo_machine:
  "fetch 0 demo_machine = Some demo_process" "block_region 0 demo_process demo_machine = BASE" "m_regions demo_machine r = demo_app"
  "handles demo_machine 0 = HandleTable_new" "next_shared demo_machine = 0"
  "- (2 ^ 31) \<le> m_current_values (process_limit demo_process) RL_SharedMemory" "m_current_values (process_limit demo_process) RL_SharedMemory < 2 ^ 31"
  "unat (next_free_slot (handles demo_machine 0)) < MAX_COUNT"
  by (simp_all add: fetch_def demo_machine_def demo_process_def block_region_def ResourceLimit_Create_def HandleTable_new_def HandleTable_Clear_def MAX_COUNT_def)

lemma demo_app_region:
  "region_ok list_icl demo_app" "unat (region_base demo_app) + unat (region_size demo_app) \<le> 0x10000000" "page_set (free_points list_icl demo_app)"
  "\<exists>l. fits (free_points list_icl demo_app) 0x3000 l"
proof -
  show "region_ok list_icl demo_app" using li.region_reachable_ok [OF demo_app(1)] .
  show "unat (region_base demo_app) + unat (region_size demo_app) \<le> 0x10000000" by (simp add: demo_app_def Region_Reset_def demo_region_def)
  have "page_set {0..<0x4000000}" by (rule page_set_span) (simp_all add: page_aligned_unat)
  then show "page_set (free_points list_icl demo_app)" by (simp add: demo_app(3))
  show "\<exists>l. fits (free_points list_icl demo_app) 0x3000 l" by (intro exI [of _ 0]) (auto simp: fits_def demo_app(3))
qed


theorem block_of_own_memory_witness:
  "\<exists>k1 p1. CreateMemoryBlock list_icl 0 0x8000000 0x3000 3 1 demo_machine = Some (Inl ResultInvalidAddressState, k1) \<and> fetch 0 k1 = Some p1 \<and> memory_used p1 = 0xFFFFD000"
proof -
  have v: "VerifyPermissions 3" "VerifyPermissions 1" "PROCESS_IMAGE_VADDR \<le> 0x8000000" "0x8000000 + 0x3000 \<le> SHARED_MEMORY_VADDR_END" by (simp_all add: VerifyPermissions_def)
  have vm: "vm_manager demo_process = demo_space" "unlocked_space demo_space" using demo_space vm_reachable_inv by (simp_all add: demo_process_def unlocked_space_def)
  have "vm_content demo_space 0x8000000 = Some free_attrs" by (simp add: demo_space(3) content_def attrs_def initial_vma_def vend_def MAX_ADDRESS_def)
  then have n: "\<not> own_memory (vm_content (vm_manager demo_process)) 0x8000000 0x3000"
    unfolding own_memory_def vm(1) by (auto intro!: exI [of _ "0x8000000"])
  show ?thesis
    using block_of_own_memory [OF list_icl_laws demo_machine(1) _ demo_args(1) v(3,4,1,2) demo_machine(8) demo_machine(6,7)] vm n
    by (auto simp: demo_process_def)
qed

definition demo_shared :: "interval_list SharedMemory" where
  "demo_shared = (new_shared list_icl (Some 0) 0x3000 3 1 BASE)\<lparr>backing_blocks := [(Some (FCRAM, 0x5000), 0x3000)], linear_heap_phys_offset := 0x5000\<rparr>"

theorem shared_memory_is_shared_witness:
  "\<exists>va vb h off. SharedMemory_Map demo_shared True 0x10000000 3 DontCare demo_space = Some (ResultSuccess, va) \<and>
    SharedMemory_Map demo_shared False 0 1 DontCare demo_space = Some (ResultSuccess, vb) \<and>
    vm_content va 0x10000004 = Some (VMA_BackingMemory, 3, MS_Shared, Some (h, off)) \<and> vm_content vb 0x14005004 = Some (VMA_BackingMemory, 1, MS_Shared, Some (h, off))"
proof -
  have vm: "unlocked_space demo_space" using demo_space vm_reachable_inv by (simp add: unlocked_space_def)
  have s: "shm_ok demo_shared" "shm_size demo_shared = 0x3000" "map_target demo_shared 0x10000000 = 0x10000000" "map_target demo_shared 0 = 0x14005000"
    by (simp_all add: demo_shared_def shm_ok_def new_shared_def block_ok_def backs_def page_aligned_unat map_target_def)
  have al: "page_aligned 0x10000000" "page_aligned 0" by (simp_all add: page_aligned_unat)
  have r: "free_range (vm_content demo_space) (map_target demo_shared 0x10000000) (shm_size demo_shared)" "free_range (vm_content demo_space) (map_target demo_shared 0) (shm_size demo_shared)"
    unfolding s by (rule demo_free, simp add: good_range_def page_aligned_unat)+
  have ok: "map_allowed demo_shared True 3 DontCare" "map_allowed demo_shared False 1 DontCare" by (simp_all add: map_allowed_def demo_shared_def new_shared_def)
  obtain va where va: "SharedMemory_Map demo_shared True 0x10000000 3 DontCare demo_space = Some (ResultSuccess, va)"
    using SharedMemory_Map_ok [OF vm s(1) al(1), of True 3 DontCare] r(1) ok(1) s(2) by (auto split: if_splits)
  obtain vb where vb: "SharedMemory_Map demo_shared False 0 1 DontCare demo_space = Some (ResultSuccess, vb)"
    using SharedMemory_Map_ok [OF vm s(1) al(2), of False 1 DontCare] r(2) ok(2) s(2) by (auto split: if_splits)
  have c: "ConvertPermissions 3 = 3" "ConvertPermissions 1 = 1" by (simp_all add: ConvertPermissions_def)
  have "\<exists>h off. vm_content va (unat (0x10000000 :: u32) + 4) = Some (VMA_BackingMemory, ConvertPermissions 3, MS_Shared, Some (h, off)) \<and>
      vm_content vb (unat (0x14005000 :: u32) + 4) = Some (VMA_BackingMemory, ConvertPermissions 1, MS_Shared, Some (h, off))"
    using shared_memory_is_shared [OF vm vm s(1) al(1) _ al(2) _ va vb] unfolding s(2-4) Let_def by (auto dest!: spec [of _ 4])
  then show ?thesis using va vb unfolding c by auto
qed

end
