(* ===== verification/Ipc_Translate.thy ===== *)
theory Ipc_Translate
  imports Shared_Facts
begin

text \<open>
  \<open>hle/kernel/ipc.cpp\<close> and the descriptors of \<open>hle/ipc.h\<close>: the translation of a command buffer from the process of one thread to that of another.
  Processes are numbered by their identifiers. The command buffer has 64 words; \<open>None\<close> is a word that has not been written, and reading one is the abort
  \<open>None\<close>, as are failed assertions, a null pointer and an index beyond the buffer. The recorder of the debugger is not modelled.
\<close>

unbundle bit_operations_syntax

section \<open>Descriptors\<close>

definition COMMAND_BUFFER_LENGTH :: nat where "COMMAND_BUFFER_LENGTH = 0x40"

datatype DescriptorType = StaticBuffer | PXIBuffer | MappedBuffer | CopyHandle | MoveHandle | CallingPid | UnknownDescriptor

definition MOVE_HANDLE :: u32 where "MOVE_HANDLE = 0x10"

definition normal_params_size :: "u32 \<Rightarrow> nat" where "normal_params_size header = unat (drop_bit 6 header AND 0x3F)"
definition translate_params_size :: "u32 \<Rightarrow> nat" where "translate_params_size header = unat (header AND 0x3F)"

definition MakeHeader :: "u16 \<Rightarrow> u32 \<Rightarrow> u32 \<Rightarrow> u32" where
  "MakeHeader command_id normal translate = push_bit 16 (ucast command_id) OR push_bit 6 (normal AND 0x3F) OR (translate AND 0x3F)"

definition IsHandleDescriptor :: "u32 \<Rightarrow> bool" where "IsHandleDescriptor descriptor \<longleftrightarrow> descriptor AND 0xF = 0"

definition HandleNumberFromDesc :: "u32 \<Rightarrow> nat" where "HandleNumberFromDesc descriptor = unat (drop_bit 26 descriptor + 1)"

definition MoveHandleDesc :: "u32 \<Rightarrow> u32" where "MoveHandleDesc num_handles = MOVE_HANDLE OR push_bit 26 (num_handles - 1)"
definition CopyHandleDesc :: "u32 \<Rightarrow> u32" where "CopyHandleDesc num_handles = push_bit 26 (num_handles - 1)"

definition GetDescriptorType :: "u32 \<Rightarrow> DescriptorType" where
  "GetDescriptorType descriptor =
     (if IsHandleDescriptor descriptor then
        (let ty = descriptor AND 0x30
         in if ty = 0 then CopyHandle else if ty = MOVE_HANDLE then MoveHandle else if ty = 0x20 then CallingPid else UnknownDescriptor)
      else if descriptor AND 8 \<noteq> 0 then MappedBuffer
      else if descriptor AND 4 \<noteq> 0 then PXIBuffer
      else StaticBuffer)"

definition static_size :: "u32 \<Rightarrow> u32" where "static_size descriptor = drop_bit 14 descriptor"
definition static_buffer_id :: "u32 \<Rightarrow> u32" where "static_buffer_id descriptor = drop_bit 10 descriptor AND 0xF"
definition mapped_size :: "u32 \<Rightarrow> u32" where "mapped_size descriptor = drop_bit 4 descriptor"
definition mapped_perms :: "u32 \<Rightarrow> u32" where "mapped_perms descriptor = drop_bit 1 descriptor AND 3"

definition StaticBufferDesc :: "u32 \<Rightarrow> u32 \<Rightarrow> u32" where
  "StaticBufferDesc sz buffer_id = push_bit 14 sz OR push_bit 10 (buffer_id AND 0xF) OR 2"

text \<open>The fields of a mapped buffer descriptor overlap: the permissions are bits of the flags.\<close>

definition MappedBufferDesc :: "u32 \<Rightarrow> u32 \<Rightarrow> u32" where
  "MappedBufferDesc sz perms = push_bit 4 sz OR ((8 AND NOT 6) OR push_bit 1 (perms AND 3))"

section \<open>The state\<close>

record MappedBufferContext =
  ctx_permissions :: u32
  ctx_size :: u32
  source_address :: u32
  target_address :: u32
  ctx_buffer :: backing

record 'i ipc =
  machine :: "'i machine"
  next_buffer :: nat
  mapped_buffer_context :: "MappedBufferContext list"
  cmd_buf :: "u32 option list"

text \<open>The memory of a process, through its page table; changing its address space.\<close>

definition read_process :: "nat \<Rightarrow> u32 \<Rightarrow> nat \<Rightarrow> 'i machine \<Rightarrow> (bytes \<times> 'i machine) option" where
  "read_process pid a n k =
     do { p \<leftarrow> fetch pid k; (bs, m) \<leftarrow> ReadBlockImpl False (page_table (vm_manager p)) (m_memory k) a n; Some (bs, k\<lparr>m_memory := m\<rparr>) }"

definition write_process :: "nat \<Rightarrow> u32 \<Rightarrow> bytes \<Rightarrow> 'i machine \<Rightarrow> 'i machine option" where
  "write_process pid a bs k =
     do { p \<leftarrow> fetch pid k; m \<leftarrow> WriteBlockImpl False (page_table (vm_manager p)) (m_memory k) a bs; Some (k\<lparr>m_memory := m\<rparr>) }"

definition in_space :: "nat \<Rightarrow> (VMManager \<Rightarrow> ('r \<times> VMManager) option) \<Rightarrow> 'i machine \<Rightarrow> ('r \<times> 'i machine) option" where
  "in_space pid f k = do { p \<leftarrow> fetch pid k; (r, vm) \<leftarrow> f (vm_manager p); Some (r, put pid (p\<lparr>vm_manager := vm\<rparr>) k) }"

definition on_machine :: "('r \<times> 'i machine) option \<Rightarrow> 'i ipc \<Rightarrow> ('r \<times> 'i ipc) option" where
  "on_machine r s = map_option (\<lambda>(x, k). (x, s\<lparr>machine := k\<rparr>)) r"

definition get_word :: "nat \<Rightarrow> 'i ipc \<Rightarrow> u32 option" where
  "get_word i s = (if i < length (cmd_buf s) then cmd_buf s ! i else None)"

definition set_word :: "nat \<Rightarrow> u32 \<Rightarrow> 'i ipc \<Rightarrow> 'i ipc option" where
  "set_word i w s = (if i < length (cmd_buf s) then Some (s\<lparr>cmd_buf := (cmd_buf s)[i := Some w]\<rparr>) else None)"

section \<open>Handles\<close>

text \<open>The object a handle of the sender names; with the descriptor of a single moved handle the handle is closed.\<close>

definition take_object :: "nat \<Rightarrow> nat \<Rightarrow> u32 \<Rightarrow> u32 \<Rightarrow> 'i machine \<Rightarrow> machine_object option \<times> 'i machine" where
  "take_object src_thread src descriptor h k =
     (if h = CurrentThread then (Some (O_Thread src_thread), k)
      else if h = CurrentProcess then (Some (O_Process src), k)
      else if h \<noteq> 0 then
        (GetGeneric None None (handles k src) h,
         if descriptor = MOVE_HANDLE then
           (case HandleTable_Close h (handles k src) of Inl _ \<Rightarrow> k | Inr t \<Rightarrow> k\<lparr>handles := (handles k)(src := t)\<rparr>)
         else k)
      else (None, k))"

text \<open>The receiver gets a handle for the object, or 0.\<close>

definition give_object :: "nat \<Rightarrow> nat \<Rightarrow> machine_object option \<Rightarrow> 'i ipc \<Rightarrow> 'i ipc option" where
  "give_object dst i object s =
     (case object of
        None \<Rightarrow> set_word i 0 s
      | Some obj \<Rightarrow>
          (case HandleTable_Create obj (handles (machine s) dst) of
             Inl _ \<Rightarrow> None
           | Inr (h', t) \<Rightarrow> set_word i h' (s\<lparr>machine := (machine s)\<lparr>handles := (handles (machine s))(dst := t)\<rparr>\<rparr>)))"

fun translate_handles :: "nat \<Rightarrow> nat \<Rightarrow> nat \<Rightarrow> u32 \<Rightarrow> nat \<Rightarrow> nat \<Rightarrow> 'i ipc \<Rightarrow> 'i ipc option" where
  "translate_handles src_thread src dst descriptor 0 i s = Some s"
| "translate_handles src_thread src dst descriptor (Suc n) i s =
     do {
       h \<leftarrow> get_word i s;
       let (object, k) = take_object src_thread src descriptor h (machine s);
       s \<leftarrow> give_object dst i object (s\<lparr>machine := k\<rparr>);
       translate_handles src_thread src dst descriptor n (i + 1) s
     }"

section \<open>Buffers\<close>

definition translate_static :: "nat \<Rightarrow> nat \<Rightarrow> u32 \<Rightarrow> u32 \<Rightarrow> nat \<Rightarrow> 'i ipc \<Rightarrow> 'i ipc option" where
  "translate_static src dst dst_address descriptor i s =
     do {
       static_buffer_src_address \<leftarrow> get_word i s;
       (data, s) \<leftarrow> on_machine (read_process src static_buffer_src_address (unat (static_size descriptor)) (machine s)) s;
       let static_buffer_offset = of_nat (COMMAND_BUFFER_LENGTH * 4) + 8 * static_buffer_id descriptor;
       (target, s) \<leftarrow> on_machine (read_process dst (dst_address + static_buffer_offset) 8 (machine s)) s;
       if \<not> length data \<le> unat (static_size (ReadLE32 target 0)) then None
       else do {
         k \<leftarrow> write_process dst (ReadLE32 target 4) data (machine s);
         set_word i (ReadLE32 target 4) (s\<lparr>machine := k\<rparr>)
       }
     }"

definition page_start :: "u32 \<Rightarrow> u32" where "page_start a = a AND NOT CITRA_PAGE_MASK"

definition align_up :: "u32 \<Rightarrow> u32" where
  "align_up v = (if v AND CITRA_PAGE_MASK = 0 then v else (v - (v AND CITRA_PAGE_MASK)) + 0x1000)"

definition pages_of :: "u32 \<Rightarrow> u32 \<Rightarrow> u32" where
  "pages_of a sz = drop_bit CITRA_PAGE_BITS (align_up ((a - page_start a) + sz))"

abbreviation IPC_MAPPING_VADDR :: u32 where "IPC_MAPPING_VADDR \<equiv> 0x04000000"
abbreviation IPC_MAPPING_SIZE :: u32 where "IPC_MAPPING_SIZE \<equiv> 0x04000000"

text \<open>\<open>MapBackingMemoryToBase\<close> and \<open>Unwrap\<close>, then the guard pages.\<close>

definition map_guarded :: "backing \<Rightarrow> u32 \<Rightarrow> VMManager \<Rightarrow> (u32 \<times> VMManager) option" where
  "map_guarded buffer sz vm =
     do {
       (res, vm) \<leftarrow> MapBackingMemoryToBase IPC_MAPPING_VADDR IPC_MAPPING_SIZE (make_ref buffer 0) sz MS_Shared vm;
       case res of
         Inl _ \<Rightarrow> None
       | Inr target \<Rightarrow> do {
           (c1, vm) \<leftarrow> ChangeMemoryState target 0x1000 MS_Shared Perm_ReadWrite MS_Reserved Perm_None vm;
           if c1 \<noteq> ResultSuccess then None
           else do {
             (c2, vm) \<leftarrow> ChangeMemoryState (target + sz - 0x1000) 0x1000 MS_Shared Perm_ReadWrite MS_Reserved Perm_None vm;
             if c2 \<noteq> ResultSuccess then None else Some (target, vm)
           }
         }
     }"

definition request_buffer :: "nat \<Rightarrow> nat \<Rightarrow> u32 \<Rightarrow> nat \<Rightarrow> u32 \<Rightarrow> 'i ipc \<Rightarrow> 'i ipc option" where
  "request_buffer src dst descriptor i source s =
     (let sz = mapped_size descriptor;
          page_offset = source - page_start source;
          buffer_size = (pages_of source sz + 2) * 0x1000;
          buffer = BufferMem (next_buffer s) (unat buffer_size);
          k = machine s;
          m = m_memory k;
          k = k\<lparr>m_memory := m\<lparr>host := host_put (host m) buffer 0 (replicate (unat buffer_size) 0)\<rparr>\<rparr>
      in do {
        (data, k) \<leftarrow> read_process src source (unat sz) k;
        h \<leftarrow> host_write (host (m_memory k)) buffer (0x1000 + unat page_offset) data;
        let k = k\<lparr>m_memory := (m_memory k)\<lparr>host := h\<rparr>\<rparr>;
        (target, k) \<leftarrow> in_space dst (map_guarded buffer buffer_size) k;
        let target = target + 0x1000;
        s \<leftarrow> set_word i (target + page_offset) (s\<lparr>machine := k, next_buffer := next_buffer s + 1\<rparr>);
        Some (s\<lparr>mapped_buffer_context := mapped_buffer_context s @
                 [\<lparr>ctx_permissions = mapped_perms descriptor, ctx_size = sz, source_address = source, target_address = target + page_offset, ctx_buffer = buffer\<rparr>]\<rparr>)
      })"

text \<open>In a reply the source is the process the buffer was mapped into.\<close>

definition state_at :: "u32 \<Rightarrow> VMManager \<Rightarrow> MemoryState option" where
  "state_at a vm = do { it \<leftarrow> FindVMA a (vma_map vm); key \<leftarrow> it; map_option meminfo_state (vma_at key (vma_map vm)) }"

definition unmap_guarded :: "u32 \<Rightarrow> u32 \<Rightarrow> VMManager \<Rightarrow> (unit \<times> VMManager) option" where
  "unmap_guarded start num_pages vm =
     do {
       prev_state \<leftarrow> state_at (start - 0x1000) vm;
       next_state \<leftarrow> state_at (start + num_pages * 0x1000) vm;
       if \<not> (prev_state = MS_Reserved \<and> next_state = MS_Reserved) then None
       else do {
         (code, vm) \<leftarrow> UnmapRange (start - 0x1000) ((num_pages + 2) * 0x1000) vm;
         if code \<noteq> ResultSuccess then None else Some ((), vm)
       }
     }"

definition matches :: "u32 \<Rightarrow> u32 \<Rightarrow> MappedBufferContext \<Rightarrow> bool" where
  "matches descriptor source c \<longleftrightarrow>
     ctx_permissions c = mapped_perms descriptor \<and> ctx_size c = mapped_size descriptor \<and> target_address c = source"

definition reply_buffer :: "nat \<Rightarrow> nat \<Rightarrow> u32 \<Rightarrow> u32 \<Rightarrow> 'i ipc \<Rightarrow> 'i ipc option" where
  "reply_buffer src dst descriptor source s =
     do {
       found \<leftarrow> find (matches descriptor source) (mapped_buffer_context s);
       k \<leftarrow> (if mapped_perms descriptor \<noteq> 1 then do {
               p \<leftarrow> fetch src (machine s);
               q \<leftarrow> fetch dst (machine s);
               m \<leftarrow> CopyBlock (page_table (vm_manager q)) (page_table (vm_manager p)) (source_address found) (target_address found)
                      (unat (mapped_size descriptor)) (m_memory (machine s));
               Some ((machine s)\<lparr>m_memory := m\<rparr>)
             }
             else Some (machine s));
       (_, k) \<leftarrow> in_space src (unmap_guarded (page_start source) (pages_of source (mapped_size descriptor))) k;
       Some (s\<lparr>machine := k, mapped_buffer_context := remove1 found (mapped_buffer_context s)\<rparr>)
     }"

definition translate_mapped :: "nat \<Rightarrow> nat \<Rightarrow> bool \<Rightarrow> u32 \<Rightarrow> nat \<Rightarrow> 'i ipc \<Rightarrow> 'i ipc option" where
  "translate_mapped src dst reply descriptor i s =
     do {
       source \<leftarrow> get_word i s;
       if mapped_size descriptor = 0 then set_word i 0 s
       else if \<not> 1 \<le> pages_of source (mapped_size descriptor) then None
       else if reply then reply_buffer src dst descriptor source s
       else request_buffer src dst descriptor i source s
     }"

section \<open>Translation\<close>

definition CommandTooLarge :: ResultCode where "CommandTooLarge = make_result 54 6 5 25"

function translate_loop :: "nat \<Rightarrow> nat \<Rightarrow> nat \<Rightarrow> u32 \<Rightarrow> bool \<Rightarrow> nat \<Rightarrow> nat \<Rightarrow> 'i ipc \<Rightarrow> (ResultCode \<times> 'i ipc) option" where
  "translate_loop src_thread src dst dst_address reply command_size i s =
     (if i < command_size then do {
        descriptor \<leftarrow> get_word i s;
        case GetDescriptorType descriptor of
          CallingPid \<Rightarrow> do { s \<leftarrow> set_word (i + 1) (of_nat src) s; translate_loop src_thread src dst dst_address reply command_size (i + 2) s }
        | StaticBuffer \<Rightarrow> do { s \<leftarrow> translate_static src dst dst_address descriptor (i + 1) s; translate_loop src_thread src dst dst_address reply command_size (i + 2) s }
        | MappedBuffer \<Rightarrow> do { s \<leftarrow> translate_mapped src dst reply descriptor (i + 1) s; translate_loop src_thread src dst dst_address reply command_size (i + 2) s }
        | PXIBuffer \<Rightarrow> translate_loop src_thread src dst dst_address reply command_size (i + 1) s
        | UnknownDescriptor \<Rightarrow> translate_loop src_thread src dst dst_address reply command_size (i + 1) s
        | _ \<Rightarrow>
            (if i + 1 + HandleNumberFromDesc descriptor > command_size then Some (CommandTooLarge, s)
             else do {
               s \<leftarrow> translate_handles src_thread src dst descriptor (HandleNumberFromDesc descriptor) (i + 1) s;
               translate_loop src_thread src dst dst_address reply command_size (i + 1 + HandleNumberFromDesc descriptor) s
             })
      }
      else Some (ResultSuccess, s))"
  by pat_completeness auto
termination
  by (relation "measure (\<lambda>(_, _, _, _, _, n, i, _). n - i)") auto

declare translate_loop.simps [simp del]

fun words_of :: "bytes \<Rightarrow> u32 list" where
  "words_of (a # b # c # d # bs) = ReadLE32 [a, b, c, d] 0 # words_of bs"
| "words_of _ = []"

definition bytes_of :: "u32 option list \<Rightarrow> bytes option" where
  "bytes_of ws = (if None \<in> set ws then None else Some (concat (map (\<lambda>w. WriteLE32 [0, 0, 0, 0] 0 (the w)) ws)))"

definition TranslateCommandBuffer ::
    "nat \<Rightarrow> nat \<Rightarrow> nat \<Rightarrow> u32 \<Rightarrow> u32 \<Rightarrow> bool \<Rightarrow> 'i ipc \<Rightarrow> (ResultCode \<times> 'i ipc) option" where
  "TranslateCommandBuffer src_thread src dst src_address dst_address reply s =
     do {
       (hd_bytes, s) \<leftarrow> on_machine (read_process src src_address 4 (machine s)) s;
       let header = ReadLE32 hd_bytes 0;
       let untranslated_size = 1 + normal_params_size header;
       let command_size = untranslated_size + translate_params_size header;
       if \<not> command_size \<le> COMMAND_BUFFER_LENGTH then None
       else do {
         (bs, s) \<leftarrow> on_machine (read_process src src_address (command_size * 4) (machine s)) s;
         let s = s\<lparr>cmd_buf := map Some (words_of bs) @ replicate (COMMAND_BUFFER_LENGTH - command_size) None\<rparr>;
         (code, s) \<leftarrow> translate_loop src_thread src dst dst_address reply command_size untranslated_size s;
         if code \<noteq> ResultSuccess then Some (code, s)
         else do {
           out \<leftarrow> bytes_of (take command_size (cmd_buf s));
           k \<leftarrow> write_process dst dst_address out (machine s);
           Some (ResultSuccess, s\<lparr>machine := k\<rparr>)
         }
       }
     }"

end
