(* ===== verification/Ipc_Facts.thy ===== *)
theory Ipc_Facts
  imports Ipc_Translate
begin

text \<open>
  Facts about the translation of command buffers: descriptors are read as they were made, and handles name the same objects on the other side.
\<close>

unbundle bit_operations_syntax

section \<open>Descriptors\<close>

lemma masks32: "(0x3F :: u32) = mask 6" "(0xF :: u32) = mask 4" "(3 :: u32) = mask 2"
  by (simp_all add: mask_eq_exp_minus_1)

lemma small_take_bit: "unat (w :: u32) < 2 ^ n \<Longrightarrow> take_bit n w = w"
  by (simp add: word_unat_eq_iff unsigned_take_bit_eq take_bit_nat_eq_self_iff)

lemma field_low:
  fixes w :: u32
  assumes "m \<le> k"
  shows "push_bit k w AND mask m = 0"
  using assms by (simp add: take_bit_push_bit flip: take_bit_eq_mask)

lemma field_high:
  fixes w :: u32
  assumes "take_bit l w = w" "l + k \<le> 32" "take_bit k x = x"
  shows "drop_bit k (push_bit k w OR x) = w"
proof (rule bit_word_eqI)
  fix n assume n: "n < LENGTH(32)"
  have "\<not> bit x (n + k)" using assms(3) by (metis bit_take_bit_iff not_add_less2)
  moreover have "bit w n \<Longrightarrow> n < l" using assms(1) by (metis bit_take_bit_iff)
  ultimately show "bit (drop_bit k (push_bit k w OR x)) n = bit w n" using assms(2) n by (auto simp: bit_simps add.commute)
qed

lemma handle_descriptors:
  assumes "1 \<le> unat n" "unat n \<le> 64"
  shows "GetDescriptorType (CopyHandleDesc n) = CopyHandle" "GetDescriptorType (MoveHandleDesc n) = MoveHandle"
    "HandleNumberFromDesc (CopyHandleDesc n) = unat n" "HandleNumberFromDesc (MoveHandleDesc n) = unat n"
    "MoveHandleDesc n = MOVE_HANDLE \<longleftrightarrow> n = 1"
proof -
  define w where "w = n - 1"
  define k where "k = (26 :: nat)"
  have w: "unat w = unat n - 1" using assms(1) by (simp add: w_def unat_sub word_le_nat_alt)
  then have t: "take_bit 6 w = w" using assms by (intro small_take_bit) simp
  have six: "push_bit k w AND 0x3F = 0" using field_low [of 6 k w] by (simp add: k_def masks32)
  then have "push_bit k w AND (0x3F AND 0xF) = 0" "push_bit k w AND (0x3F AND 0x30) = 0" unfolding and.assoc [symmetric] by simp_all
  then have low: "push_bit k w AND 0xF = 0" "push_bit k w AND 0x30 = 0" "(0x10 OR push_bit k w) AND 0xF = 0" "(0x10 OR push_bit k w) AND 0x30 = 0x10"
    by (simp_all add: bit.conj_disj_distrib2)
  have high: "drop_bit k (push_bit k w) = w" "drop_bit k (0x10 OR push_bit k w) = w"
    using field_high [OF t, of k 0] field_high [OF t, of k "0x10"] small_take_bit [of "0x10" k] by (simp_all add: k_def or.commute)
  have e: "CopyHandleDesc n = push_bit k w" "MoveHandleDesc n = 0x10 OR push_bit k w"
    by (simp_all add: CopyHandleDesc_def MoveHandleDesc_def MOVE_HANDLE_def w_def k_def)
  show "GetDescriptorType (CopyHandleDesc n) = CopyHandle" "GetDescriptorType (MoveHandleDesc n) = MoveHandle"
    using low unfolding e GetDescriptorType_def IsHandleDescriptor_def MOVE_HANDLE_def by simp_all
  have "unat (w + 1) = unat n" by (simp add: w_def)
  then show "HandleNumberFromDesc (CopyHandleDesc n) = unat n" "HandleNumberFromDesc (MoveHandleDesc n) = unat n"
    using high unfolding e HandleNumberFromDesc_def k_def by simp_all
  show "MoveHandleDesc n = MOVE_HANDLE \<longleftrightarrow> n = 1"
  proof
    assume "MoveHandleDesc n = MOVE_HANDLE"
    then have "w = drop_bit k (0x10 :: u32)" using high(2) unfolding e MOVE_HANDLE_def by simp
    then show "n = 1" by (simp add: w_def k_def)
  qed (simp add: MoveHandleDesc_def)
qed

lemma buffer_descriptors:
  assumes "unat sz < 2 ^ 18" "unat b < 16"
  shows "GetDescriptorType (StaticBufferDesc sz b) = StaticBuffer" "static_size (StaticBufferDesc sz b) = sz" "static_buffer_id (StaticBufferDesc sz b) = b"
proof -
  define k l where "k = (14 :: nat)" and "l = (10 :: nat)"
  have tb: "take_bit 4 b = b" "take_bit 18 sz = sz" using assms by (simp_all add: small_take_bit)
  then have b: "b AND 0xF = b" by (simp add: masks32 flip: take_bit_eq_mask)
  have e: "StaticBufferDesc sz b = push_bit k sz OR (push_bit l b OR 2)" by (simp add: StaticBufferDesc_def b k_def l_def or.assoc)
  have two: "take_bit l (2 :: u32) = 2" by (intro small_take_bit) (simp add: l_def)
  have lo: "push_bit k sz AND 0xF = 0" "push_bit l b AND 0xF = 0" using field_low [of 4 k sz] field_low [of 4 l b] by (simp_all add: k_def l_def masks32)
  then have "push_bit k sz AND (0xF AND 8) = 0" "push_bit l b AND (0xF AND 8) = 0" "push_bit k sz AND (0xF AND 4) = 0" "push_bit l b AND (0xF AND 4) = 0"
    unfolding and.assoc [symmetric] by simp_all
  then show "GetDescriptorType (StaticBufferDesc sz b) = StaticBuffer"
    using lo unfolding e GetDescriptorType_def IsHandleDescriptor_def by (simp add: bit.conj_disj_distrib2)
  have "take_bit k (push_bit l b OR 2) = push_bit l b OR 2"
  proof (rule bit_word_eqI)
    fix n assume n: "n < LENGTH(32)"
    have "bit b (n - l) \<Longrightarrow> n - l < 4" using tb(1) by (metis bit_take_bit_iff)
    moreover have "bit (2 :: u32) n \<Longrightarrow> n < l" using two by (metis bit_take_bit_iff)
    ultimately show "bit (take_bit k (push_bit l b OR 2)) n = bit (push_bit l b OR 2) n" using n by (auto simp: bit_simps k_def l_def)
  qed
  then show "static_size (StaticBufferDesc sz b) = sz" using field_high [OF tb(2), of k "push_bit l b OR 2"] unfolding e static_size_def by (simp add: k_def)
  have "drop_bit l (push_bit k sz OR (push_bit l b OR 2)) = push_bit 4 sz OR b"
  proof (rule bit_word_eqI)
    fix n assume n: "n < LENGTH(32)"
    have "\<not> bit (2 :: u32) (n + l)" using two by (metis bit_take_bit_iff not_add_less2)
    moreover have "bit b n \<Longrightarrow> n < 4" using tb(1) by (metis bit_take_bit_iff)
    moreover have "bit sz (n - 4) \<Longrightarrow> n - 4 < 18" using tb(2) by (metis bit_take_bit_iff)
    ultimately show "bit (drop_bit l (push_bit k sz OR (push_bit l b OR 2))) n = bit (push_bit 4 sz OR b) n"
      using n by (auto simp: bit_simps k_def l_def add.commute)
  qed
  moreover have "(push_bit 4 sz OR b) AND 0xF = b" using field_low [of 4 4 sz] b by (simp add: bit.conj_disj_distrib2 masks32)
  ultimately show "static_buffer_id (StaticBufferDesc sz b) = b" unfolding e static_buffer_id_def l_def by simp
qed

lemma mapped_descriptors:
  assumes "unat sz < 2 ^ 28" "unat perms < 4"
  shows "GetDescriptorType (MappedBufferDesc sz perms) = MappedBuffer" "mapped_size (MappedBufferDesc sz perms) = sz" "mapped_perms (MappedBufferDesc sz perms) = perms"
proof -
  define k where "k = (4 :: nat)"
  define x where "x = (8 AND NOT 6) OR push_bit 1 (perms AND 3)"
  have "perms = 0 \<or> perms = 1 \<or> perms = 2 \<or> perms = 3" using assms(2) by (auto simp: word_unat_eq_iff)
  then have x: "x AND 8 = 8" "x AND 0xF = x" "drop_bit 1 x AND 3 = perms" "unat x < 2 ^ k" by (auto simp: x_def k_def)
  have e: "MappedBufferDesc sz perms = push_bit k sz OR x" by (simp add: MappedBufferDesc_def x_def k_def)
  have tb: "take_bit 28 sz = sz" using assms(1) by (rule small_take_bit)
  have lo: "push_bit k sz AND 0xF = 0" using field_low [of 4 k sz] by (simp add: k_def masks32)
  then have "push_bit k sz AND (0xF AND 8) = 0" unfolding and.assoc [symmetric] by simp
  then show "GetDescriptorType (MappedBufferDesc sz perms) = MappedBuffer"
    using lo x unfolding e GetDescriptorType_def IsHandleDescriptor_def by (auto simp: bit.conj_disj_distrib2)
  show "mapped_size (MappedBufferDesc sz perms) = sz"
    using field_high [OF tb, of k x] small_take_bit [OF x(4)] unfolding e mapped_size_def by (simp add: k_def)
  have "drop_bit 1 (push_bit k sz) AND mask 2 = 0" by (rule bit_word_eqI) (auto simp: bit_simps k_def)
  then show "mapped_perms (MappedBufferDesc sz perms) = perms"
    using x(3) unfolding e mapped_perms_def masks32 by (simp add: drop_bit_or bit.conj_disj_distrib2)
qed

section \<open>Handles\<close>

definition named_object :: "nat \<Rightarrow> nat \<Rightarrow> machine_object HandleTable \<Rightarrow> u32 \<Rightarrow> machine_object option" where
  "named_object src_thread src t h =
     (if h = CurrentThread then Some (O_Thread src_thread) else if h = CurrentProcess then Some (O_Process src) else if h \<noteq> 0 then lookup t h else None)"

lemma take_object_named:
  "fst (take_object th src d h k) = named_object th src (handles k src) h"
  "d \<noteq> MOVE_HANDLE \<Longrightarrow> snd (take_object th src d h k) = k"
  by (simp_all add: take_object_def named_object_def GetGeneric_lookup)

definition free_slots :: "'o HandleTable \<Rightarrow> nat" where
  "free_slots t = card {s. s < MAX_COUNT \<and> objects t s = None}"

lemma free_slots_Create:
  assumes "table_wf t" "0 < free_slots t"
  shows "\<exists>h t'. HandleTable_Create obj t = Inr (h, t') \<and> free_slots t' = free_slots t - 1"
proof -
  have "\<exists>s < MAX_COUNT. objects t s = None" using assms(2) by (auto simp: free_slots_def card_gt_0_iff)
  then obtain h t' where c: "HandleTable_Create obj t = Inr (h, t')"
    using Create_fails_iff [OF assms(1), of obj] by (cases "HandleTable_Create obj t") fastforce+
  define x where "x = unat (next_free_slot t)"
  have x: "x < MAX_COUNT" "objects t' = (objects t)(x \<mapsto> obj)" using c by (auto simp: HandleTable_Create_def Let_def x_def split: if_splits)
  then have "objects t x = None" using free_slot [OF assms(1)] by (simp add: x_def)
  moreover have "{s. s < MAX_COUNT \<and> objects t' s = None} = {s. s < MAX_COUNT \<and> objects t s = None} - {x}" using x by auto
  ultimately show ?thesis using c x(1) by (simp add: free_slots_def)
qed

text \<open>What the receiver gets for the handles \<open>hs\<close>: new handles for the objects, 0 where there is none; its other handles stay.\<close>

definition received :: "machine_object option list \<Rightarrow> u32 list \<Rightarrow> machine_object HandleTable \<Rightarrow> machine_object HandleTable \<Rightarrow> bool" where
  "received objs ws t t' \<longleftrightarrow> length ws = length objs \<and>
     (\<forall>j < length objs. case objs ! j of None \<Rightarrow> ws ! j = 0 | Some obj \<Rightarrow> lookup t' (ws ! j) = Some obj \<and> lookup t (ws ! j) = None) \<and>
     (\<forall>h obj. lookup t h = Some obj \<longrightarrow> lookup t' h = Some obj)"

lemma received_Nil [simp]: "received [] [] t t" by (simp add: received_def)

lemma received_Cons:
  assumes "case obj of None \<Rightarrow> w = 0 \<and> t1 = t | Some x \<Rightarrow> lookup t1 w = Some x \<and> lookup t w = None \<and> (\<forall>h y. lookup t h = Some y \<longrightarrow> lookup t1 h = Some y)"
    "received objs ws t1 t2"
  shows "received (obj # objs) (w # ws) t t2"
proof -
  have mono: "lookup t h = Some y \<Longrightarrow> lookup t1 h = Some y" for h y using assms(1) by (cases obj) auto
  have r: "length ws = length objs" "\<And>j. j < length objs \<Longrightarrow> case objs ! j of None \<Rightarrow> ws ! j = 0 | Some x \<Rightarrow> lookup t2 (ws ! j) = Some x \<and> lookup t1 (ws ! j) = None"
    "\<And>h y. lookup t1 h = Some y \<Longrightarrow> lookup t2 h = Some y" using assms(2) unfolding received_def by blast+
  have "case (obj # objs) ! j of None \<Rightarrow> (w # ws) ! j = 0 | Some x \<Rightarrow> lookup t2 ((w # ws) ! j) = Some x \<and> lookup t ((w # ws) ! j) = None" if j: "j < Suc (length objs)" for j
  proof (cases j)
    case 0
    then show ?thesis using assms(1) r(3) by (cases obj) auto
  next
    case (Suc i)
    have "lookup t (ws ! i) = None" if "lookup t1 (ws ! i) = None" using mono that by (cases "lookup t (ws ! i)") auto
    then show ?thesis using r(2) [of i] j Suc by (auto split: option.splits)
  qed
  then show ?thesis using r(1,3) mono unfolding received_def by auto
qed

lemma one_handle:
  assumes "table_wf (handles (machine s) dst)" "0 < free_slots (handles (machine s) dst)" "i < length (cmd_buf s)"
  shows "\<exists>w t. give_object dst i obj s = Some (s\<lparr>machine := (machine s)\<lparr>handles := (handles (machine s))(dst := t)\<rparr>, cmd_buf := (cmd_buf s)[i := Some w]\<rparr>) \<and>
      table_wf t \<and> free_slots t \<ge> free_slots (handles (machine s) dst) - 1 \<and>
      (case obj of None \<Rightarrow> w = 0 \<and> t = handles (machine s) dst
       | Some x \<Rightarrow> lookup t w = Some x \<and> lookup (handles (machine s) dst) w = None \<and> (\<forall>h y. lookup (handles (machine s) dst) h = Some y \<longrightarrow> lookup t h = Some y))"
proof (cases obj)
  case None
  have "(machine s)\<lparr>handles := handles (machine s)\<rparr> = machine s" by simp
  then show ?thesis using None assms by (intro exI [of _ 0] exI [of _ "handles (machine s) dst"]) (simp add: set_word_def give_object_def)
next
  case (Some x)
  obtain h t where c: "HandleTable_Create x (handles (machine s) dst) = Inr (h, t)" "free_slots t = free_slots (handles (machine s) dst) - 1"
    using free_slots_Create [OF assms(1,2)] by blast
  note l = lookup_Create [OF assms(1) c(1)]
  have "lookup t h' = Some y" if "lookup (handles (machine s) dst) h' = Some y" for h' y
    using l(1) [of h'] l(2,3) that lookup_canonical [of h' h "handles (machine s) dst"] by auto
  then show ?thesis using Some c l table_wf_Create [OF assms(1) c(1)] assms(3)
    by (intro exI [of _ h] exI [of _ t]) (simp add: set_word_def give_object_def)
qed

lemma list_update_middle: "i + n \<le> length xs \<Longrightarrow> length ws = n \<Longrightarrow>
   take (i + 1) (xs[i := w]) @ ws @ drop (i + 1 + n) (xs[i := w]) = take i xs @ (w # ws) @ drop (i + Suc n) xs" if "i < length xs" for xs :: "'a list"
  using that by (simp add: take_Suc_conv_app_nth take_update_swap list_update_append)

lemma copy_handles:
  assumes d: "d \<noteq> MOVE_HANDLE" and sd: "src \<noteq> dst"
  shows "length hs = n \<Longrightarrow> i + n \<le> length (cmd_buf s) \<Longrightarrow> (\<forall>j < n. cmd_buf s ! (i + j) = Some (hs ! j)) \<Longrightarrow>
    table_wf (handles (machine s) dst) \<Longrightarrow> n \<le> free_slots (handles (machine s) dst) \<Longrightarrow>
    \<exists>ws t. translate_handles th src dst d n i s =
        Some (s\<lparr>machine := (machine s)\<lparr>handles := (handles (machine s))(dst := t)\<rparr>, cmd_buf := take i (cmd_buf s) @ map Some ws @ drop (i + n) (cmd_buf s)\<rparr>) \<and>
      table_wf t \<and> received (map (named_object th src (handles (machine s) src)) hs) ws (handles (machine s) dst) t"
proof (induction n arbitrary: hs i s)
  case 0
  have "(machine s)\<lparr>handles := handles (machine s)\<rparr> = machine s" by simp
  then show ?case using 0 by (intro exI [of _ "[]"] exI [of _ "handles (machine s) dst"]) simp
next
  case (Suc n)
  obtain h hs' where hs: "hs = h # hs'" "length hs' = n" using Suc.prems(1) by (cases hs) auto
  have hw: "get_word i s = Some h" using Suc.prems(2,3) hs by (auto simp: get_word_def)
  let ?obj = "named_object th src (handles (machine s) src) h" and ?k = "machine s"
  have to: "take_object th src d h ?k = (?obj, ?k)" using take_object_named(1) [of th src d h ?k] take_object_named(2) [OF d, of th src h ?k] by (simp add: prod_eq_iff)
  obtain w t1 where o: "give_object dst i ?obj s = Some (s\<lparr>machine := ?k\<lparr>handles := (handles ?k)(dst := t1)\<rparr>, cmd_buf := (cmd_buf s)[i := Some w]\<rparr>)" "table_wf t1"
      "free_slots t1 \<ge> free_slots (handles ?k dst) - 1"
      "case ?obj of None \<Rightarrow> w = 0 \<and> t1 = handles ?k dst
       | Some x \<Rightarrow> lookup t1 w = Some x \<and> lookup (handles ?k dst) w = None \<and> (\<forall>h y. lookup (handles ?k dst) h = Some y \<longrightarrow> lookup t1 h = Some y)"
    using one_handle [OF Suc.prems(4), of i ?obj] Suc.prems(2,5) by auto
  define s1 where "s1 = s\<lparr>machine := ?k\<lparr>handles := (handles ?k)(dst := t1)\<rparr>, cmd_buf := (cmd_buf s)[i := Some w]\<rparr>"
  have s1: "cmd_buf s1 = (cmd_buf s)[i := Some w]" "machine s1 = ?k\<lparr>handles := (handles ?k)(dst := t1)\<rparr>" by (simp_all add: s1_def)
  have "i + 1 + n \<le> length (cmd_buf s1)" "\<forall>j < n. cmd_buf s1 ! (i + 1 + j) = Some (hs' ! j)" using Suc.prems(2,3) hs by (auto simp: s1)
  moreover have "table_wf (handles (machine s1) dst)" "n \<le> free_slots (handles (machine s1) dst)" using o(2,3) Suc.prems(5) by (simp_all add: s1)
  ultimately obtain ws t where r: "translate_handles th src dst d n (i + 1) s1 =
        Some (s1\<lparr>machine := (machine s1)\<lparr>handles := (handles (machine s1))(dst := t)\<rparr>, cmd_buf := take (i + 1) (cmd_buf s1) @ map Some ws @ drop (i + 1 + n) (cmd_buf s1)\<rparr>)"
      "table_wf t" "received (map (named_object th src (handles (machine s1) src)) hs') ws (handles (machine s1) dst) t"
    using Suc.IH [OF hs(2), of "i + 1" s1] by blast
  have ln: "length (map Some ws) = n" using r(3) hs(2) by (simp add: received_def)
  have buf: "take (i + 1) (cmd_buf s1) @ map Some ws @ drop (i + 1 + n) (cmd_buf s1) = take i (cmd_buf s) @ map Some (w # ws) @ drop (i + Suc n) (cmd_buf s)"
    using list_update_middle [of i "cmd_buf s" n "map Some ws" "Some w"] Suc.prems(2) ln by (simp add: s1)
  have "translate_handles th src dst d (Suc n) i s = translate_handles th src dst d n (i + 1) s1" using hw to o(1) by (simp add: s1_def)
  also have "\<dots> = Some (s\<lparr>machine := ?k\<lparr>handles := (handles ?k)(dst := t)\<rparr>, cmd_buf := take i (cmd_buf s) @ map Some (w # ws) @ drop (i + Suc n) (cmd_buf s)\<rparr>)"
    unfolding r(1) buf by (simp add: s1_def)
  finally show ?case
    using r(2) received_Cons [OF o(4), of "map (named_object th src (handles ?k src)) hs'" ws t] r(3) sd hs(1) unfolding s1(2)
    by (intro exI [of _ "w # ws"] exI [of _ t]) (simp only: simp_thms, simp)
qed

lemma move_handle:
  assumes sd: "src \<noteq> dst" and i: "i < length (cmd_buf s)" "cmd_buf s ! i = Some h" and wf: "table_wf (handles (machine s) dst)" "table_wf (handles (machine s) src)"
    and f: "0 < free_slots (handles (machine s) dst)"
  shows "\<exists>w t u. translate_handles th src dst MOVE_HANDLE 1 i s =
      Some (s\<lparr>machine := (machine s)\<lparr>handles := (handles (machine s))(src := u, dst := t)\<rparr>, cmd_buf := (cmd_buf s)[i := Some w]\<rparr>) \<and>
    table_wf t \<and> table_wf u \<and> received [named_object th src (handles (machine s) src) h] [w] (handles (machine s) dst) t \<and>
    (\<forall>x. lookup u x = (if h \<notin> {0, CurrentThread, CurrentProcess} \<and> canonical x = canonical h then None else lookup (handles (machine s) src) x))"
proof -
  let ?k = "machine s" and ?u = "handles (machine s) src"
  define k1 where "k1 = snd (take_object th src MOVE_HANDLE h ?k)"
  have to: "take_object th src MOVE_HANDLE h ?k = (named_object th src ?u h, k1)" using take_object_named(1) [of th src MOVE_HANDLE h ?k] by (simp add: k1_def prod_eq_iff)
  obtain u where u: "k1 = ?k\<lparr>handles := (handles ?k)(src := u)\<rparr>" "table_wf u"
    "\<forall>x. lookup u x = (if h \<notin> {0, CurrentThread, CurrentProcess} \<and> canonical x = canonical h then None else lookup ?u x)"
  proof (cases "h \<notin> {0, CurrentThread, CurrentProcess}")
    case False
    then have "k1 = ?k" by (auto simp: k1_def take_object_def)
    then show ?thesis using that [of ?u] wf(2) False by auto
  next
    case True
    show ?thesis
    proof (cases "HandleTable_Close h ?u")
      case (Inl e)
      then have "lookup ?u h = None" "k1 = ?k" using Close_fails_iff [of h ?u e] True by (auto simp: k1_def take_object_def)
      moreover have "lookup ?u x = None" if "canonical x = canonical h" for x using lookup_canonical [OF that, of ?u] \<open>lookup ?u h = None\<close> by simp
      ultimately show ?thesis using that [of ?u] wf(2) by auto
    next
      case (Inr t')
      then have "k1 = ?k\<lparr>handles := (handles ?k)(src := t')\<rparr>" using True by (simp add: k1_def take_object_def)
      then show ?thesis using that [of t'] table_wf_Close [OF wf(2) Inr] lookup_Close(1) [OF wf(2) Inr] True by simp
    qed
  qed
  have hd: "handles k1 dst = handles ?k dst" using u(1) sd by simp
  have e: "machine (s\<lparr>machine := k1\<rparr>) = k1" "cmd_buf (s\<lparr>machine := k1\<rparr>) = cmd_buf s" by simp_all
  obtain w t where o: "give_object dst i (named_object th src ?u h) (s\<lparr>machine := k1\<rparr>) =
      Some (s\<lparr>machine := k1\<lparr>handles := (handles k1)(dst := t)\<rparr>, cmd_buf := (cmd_buf s)[i := Some w]\<rparr>)" "table_wf t"
      "case named_object th src ?u h of None \<Rightarrow> w = 0 \<and> t = handles ?k dst
       | Some x \<Rightarrow> lookup t w = Some x \<and> lookup (handles ?k dst) w = None \<and> (\<forall>h y. lookup (handles ?k dst) h = Some y \<longrightarrow> lookup t h = Some y)"
    using one_handle [of "s\<lparr>machine := k1\<rparr>" dst i "named_object th src ?u h"] wf(1) f i(1) unfolding e hd by auto
  have "get_word i s = Some h" using i by (simp add: get_word_def)
  then have "translate_handles th src dst MOVE_HANDLE 1 i s = Some (s\<lparr>machine := k1\<lparr>handles := (handles k1)(dst := t)\<rparr>, cmd_buf := (cmd_buf s)[i := Some w]\<rparr>)"
    using to o(1) by simp
  then show ?thesis
    using o(2) received_Cons [OF o(3), of "[]" "[]" t] u by (intro exI [of _ w] exI [of _ t] exI [of _ u]) simp
qed

text \<open>
  C24: Translating the handles of a command gives the receiver handles for the same objects: the pseudo handles stand for the sending thread and process,
  invalid handles become 0, every new handle was unused, and the receiver keeps all its handles; the rest of the command is unchanged. A handle that is
  moved alone is closed in the sender, and nothing else there; handles that are copied stay, and so do two or more handles that are moved together.
\<close>

theorem handles_are_translated:
  assumes "src \<noteq> dst" "1 \<le> n" "n \<le> 64" "d = CopyHandleDesc (of_nat n) \<or> d = MoveHandleDesc (of_nat n)" "length hs = n" "i + n \<le> length (cmd_buf s)"
    "\<forall>j < n. cmd_buf s ! (i + j) = Some (hs ! j)" "table_wf (handles (machine s) dst)" "table_wf (handles (machine s) src)" "n \<le> free_slots (handles (machine s) dst)"
  shows "\<exists>s' ws. translate_handles th src dst d (HandleNumberFromDesc d) i s = Some s' \<and>
    cmd_buf s' = take i (cmd_buf s) @ map Some ws @ drop (i + n) (cmd_buf s) \<and> table_wf (handles (machine s') dst) \<and>
    received (map (named_object th src (handles (machine s) src)) hs) ws (handles (machine s) dst) (handles (machine s') dst) \<and>
    (\<forall>q. q \<noteq> src \<and> q \<noteq> dst \<longrightarrow> handles (machine s') q = handles (machine s) q) \<and>
    (if d = MoveHandleDesc 1
     then \<forall>x. lookup (handles (machine s') src) x =
       (if hs ! 0 \<notin> {0, CurrentThread, CurrentProcess} \<and> canonical x = canonical (hs ! 0) then None else lookup (handles (machine s) src) x)
     else handles (machine s') src = handles (machine s) src)"
proof -
  have u: "unat (of_nat n :: u32) = n" "1 \<le> unat (of_nat n :: u32)" "unat (of_nat n :: u32) \<le> 64" using assms(2,3) by (simp_all add: unat_of_nat)
  note hd = handle_descriptors [OF u(2,3)]
  have n: "HandleNumberFromDesc d = n" using assms(4) hd(3,4) u(1) by auto
  have one: "MoveHandleDesc 1 = MOVE_HANDLE" by (simp add: MoveHandleDesc_def)
  show ?thesis
  proof (cases "d = MOVE_HANDLE")
    case False
    obtain ws t where "translate_handles th src dst d n i s =
        Some (s\<lparr>machine := (machine s)\<lparr>handles := (handles (machine s))(dst := t)\<rparr>, cmd_buf := take i (cmd_buf s) @ map Some ws @ drop (i + n) (cmd_buf s)\<rparr>)"
      "table_wf t" "received (map (named_object th src (handles (machine s) src)) hs) ws (handles (machine s) dst) t"
      using copy_handles [OF False assms(1,5-8,10), of th] by blast
    then show ?thesis unfolding n one using assms(1) False by (auto simp del: split_paired_Ex)
  next
    case True
    have "n = 1"
    proof -
      have "GetDescriptorType d = MoveHandle" unfolding True by (simp add: GetDescriptorType_def IsHandleDescriptor_def MOVE_HANDLE_def)
      then have "d = MoveHandleDesc (of_nat n)" using assms(4) hd(1) by auto
      then show ?thesis using hd(5) True u(1) by simp
    qed
    then obtain h where h: "hs = [h]" using assms(5) by (cases hs) auto
    have i: "i < length (cmd_buf s)" "cmd_buf s ! i = Some h" using assms(6,7) \<open>n = 1\<close> h by auto
    obtain w t u where m: "translate_handles th src dst MOVE_HANDLE 1 i s =
        Some (s\<lparr>machine := (machine s)\<lparr>handles := (handles (machine s))(src := u, dst := t)\<rparr>, cmd_buf := (cmd_buf s)[i := Some w]\<rparr>)"
      "table_wf t" "received [named_object th src (handles (machine s) src) h] [w] (handles (machine s) dst) t"
      "\<forall>x. lookup u x = (if h \<notin> {0, CurrentThread, CurrentProcess} \<and> canonical x = canonical h then None else lookup (handles (machine s) src) x)"
      using move_handle [OF assms(1) i assms(8,9), of th] assms(10) \<open>n = 1\<close> by auto
    have "(cmd_buf s)[i := Some w] = take i (cmd_buf s) @ map Some [w] @ drop (i + n) (cmd_buf s)" using i(1) \<open>n = 1\<close> by (simp add: upd_conv_take_nth_drop)
    moreover have "HandleNumberFromDesc MOVE_HANDLE = 1" using n True \<open>n = 1\<close> by simp
    ultimately show ?thesis unfolding one True using assms(1) m \<open>n = 1\<close> h
      by (intro exI [of _ "s\<lparr>machine := (machine s)\<lparr>handles := (handles (machine s))(src := u, dst := t)\<rparr>, cmd_buf := (cmd_buf s)[i := Some w]\<rparr>"] exI [of _ "[w]"]) (simp del: translate_handles.simps)
  qed
qed

definition demo_handles :: "machine_object HandleTable" where
  "demo_handles = (case HandleTable_Create (O_SharedMemory 7) HandleTable_new of Inr (h, t) \<Rightarrow> t | Inl _ \<Rightarrow> HandleTable_new)"

lemma demo_handles: "table_wf demo_handles" "lookup demo_handles 1 = Some (O_SharedMemory 7)"
proof -
  obtain t where c: "HandleTable_Create (O_SharedMemory 7) HandleTable_new = Inr (1, t)"
    by (auto simp: HandleTable_Create_def HandleTable_new_def HandleTable_Clear_def MAX_COUNT_def make_handle_def)
  then have "demo_handles = t" by (simp add: demo_handles_def)
  then show "table_wf demo_handles" "lookup demo_handles 1 = Some (O_SharedMemory 7)" using table_wf_Create [OF table_wf_new c] lookup_Create(1,3) [OF table_wf_new c] by simp_all
qed

definition demo_ipc :: "interval_list ipc" where
  "demo_ipc = \<lparr>machine = demo_machine\<lparr>handles := (\<lambda>p. if p = 0 then demo_handles else HandleTable_new)\<rparr>, next_buffer = 0, mapped_buffer_context = [],
     cmd_buf = [Some 1, Some CurrentProcess]\<rparr>"

theorem handles_are_translated_witness:
  "\<exists>s ws. translate_handles 5 0 1 (MoveHandleDesc 2) 2 0 demo_ipc = Some s \<and> cmd_buf s = map Some ws \<and>
    lookup (handles (machine s) 1) (ws ! 0) = Some (O_SharedMemory 7) \<and> lookup (handles (machine s) 1) (ws ! 1) = Some (O_Process 0) \<and>
    lookup (handles (machine s) 0) 1 = Some (O_SharedMemory 7)"
proof -
  have fs: "free_slots (HandleTable_new :: machine_object HandleTable) = MAX_COUNT"
  proof -
    have "{s. s < MAX_COUNT \<and> objects (HandleTable_new :: machine_object HandleTable) s = None} = {..<MAX_COUNT}" by (auto simp: HandleTable_new_def HandleTable_Clear_def)
    then show ?thesis by (simp add: free_slots_def)
  qed
  have d: "handles (machine demo_ipc) 0 = demo_handles" "handles (machine demo_ipc) 1 = HandleTable_new" "cmd_buf demo_ipc = [Some 1, Some CurrentProcess]" by (simp_all add: demo_ipc_def)
  have two: "MoveHandleDesc (2 :: u32) \<noteq> MoveHandleDesc 1" "HandleNumberFromDesc (MoveHandleDesc 2) = 2" by (simp_all add: MoveHandleDesc_def MOVE_HANDLE_def HandleNumberFromDesc_def)
  have words: "\<forall>j < 2. cmd_buf demo_ipc ! (0 + j) = Some ([1, CurrentProcess] ! j)" unfolding d by (auto simp: less_Suc_eq numeral_2_eq_2)
  obtain s ws where s: "translate_handles 5 0 1 (MoveHandleDesc 2) 2 0 demo_ipc = Some s" "cmd_buf s = map Some ws"
    "received (map (named_object 5 0 demo_handles) [1, CurrentProcess]) ws HandleTable_new (handles (machine s) 1)" "handles (machine s) 0 = demo_handles"
    using handles_are_translated [of 0 1 2 "MoveHandleDesc 2" "[1, CurrentProcess]" 0 demo_ipc 5] two words table_wf_new demo_handles(1) fs
    unfolding d by (auto simp: MAX_COUNT_def)
  have "named_object 5 0 demo_handles 1 = Some (O_SharedMemory 7)" "named_object 5 0 demo_handles CurrentProcess = Some (O_Process 0)"
    using demo_handles(2) by (simp_all add: named_object_def CurrentThread_def CurrentProcess_def)
  then have "received [Some (O_SharedMemory 7), Some (O_Process 0)] ws HandleTable_new (handles (machine s) 1)" using s(3) by simp
  then have "\<forall>j < 2. case [Some (O_SharedMemory 7), Some (O_Process 0)] ! j of None \<Rightarrow> ws ! j = 0
      | Some obj \<Rightarrow> lookup (handles (machine s) 1) (ws ! j) = Some obj \<and> lookup (HandleTable_new :: machine_object HandleTable) (ws ! j) = None"
    unfolding received_def by (simp add: numeral_2_eq_2)
  from this [rule_format, of 0] this [rule_format, of 1]
  have "lookup (handles (machine s) 1) (ws ! 0) = Some (O_SharedMemory 7)" "lookup (handles (machine s) 1) (ws ! 1) = Some (O_Process 0)" by simp_all
  then show ?thesis using s demo_handles(2) by auto
qed

end
