(* ===== verification/Ipc_Buffers.thy ===== *)
theory Ipc_Buffers
  imports Ipc_Facts
begin

text \<open>
  The mechanisms of mapped buffers: the pages of a buffer, what the operations on an address space leave alone, copying between the memories of two
  processes, and mappings between two guard pages.
\<close>

unbundle bit_operations_syntax

section \<open>Pages\<close>

lemma page_parts:
  fixes a :: u32
  shows "unat (a - page_start a) = unat a mod 4096" "unat (page_start a) = unat a div 4096 * 4096" "a - page_start a = a AND CITRA_PAGE_MASK" "page_aligned (page_start a)"
proof -
  have m: "(CITRA_PAGE_MASK :: u32) = mask 12" by (simp add: mask_eq_exp_minus_1)
  have "NOT a AND (a AND CITRA_PAGE_MASK) = 0" by (simp add: and.left_commute flip: and.assoc)
  then have "a - (a AND CITRA_PAGE_MASK) = a AND NOT (a AND CITRA_PAGE_MASK)" by (rule disjunctive_diff_eq_and_not)
  also have "\<dots> = page_start a" unfolding page_start_def by (rule bit_word_eqI) (auto simp: bit_simps)
  finally have s: "page_start a = a - (a AND CITRA_PAGE_MASK)" by simp
  then show e: "a - page_start a = a AND CITRA_PAGE_MASK" by simp
  show o: "unat (a - page_start a) = unat a mod 4096"
    unfolding e m by (simp only: unsigned_take_bit_eq flip: take_bit_eq_mask) (simp add: take_bit_eq_mod)
  then have le: "a - page_start a \<le> a" by (simp add: word_le_nat_alt)
  have "unat (page_start a) = unat a - unat (a - page_start a)" using s e unat_sub [OF le] by simp
  then show p: "unat (page_start a) = unat a div 4096 * 4096" unfolding o by (simp add: minus_mod_eq_div_mult)
  show "page_aligned (page_start a)" using p by (simp add: page_aligned_unat)
qed

lemma mask_mod: "unat (v AND CITRA_PAGE_MASK) = unat v mod 4096"
  using page_parts(1,3) [of v] by simp

lemma unat_align_up:
  assumes "unat v < 2 ^ 31"
  shows "unat (align_up v) = (unat v + 4095) div 4096 * 4096"
proof (cases "unat v mod 4096 = 0")
  case True
  then have "v AND CITRA_PAGE_MASK = 0" using mask_mod [of v] by (simp add: word_unat_eq_iff)
  moreover have "(unat v + 4095) div 4096 * 4096 = unat v" using True by (auto elim!: dvdE simp: mod_eq_0_iff_dvd)
  ultimately show ?thesis by (simp add: align_up_def)
next
  case False
  then have n: "v AND CITRA_PAGE_MASK \<noteq> 0" using mask_mod [of v] by (auto simp: word_unat_eq_iff)
  have le: "v AND CITRA_PAGE_MASK \<le> v" using mask_mod [of v] by (simp add: word_le_nat_alt)
  have u: "unat (v - (v AND CITRA_PAGE_MASK)) = unat v div 4096 * 4096" using unat_sub [OF le] mask_mod [of v] by (simp add: minus_mod_eq_div_mult)
  have "unat v div 4096 * 4096 + 4096 < 2 ^ 32" using assms by (simp add: le_less_trans [OF div_times_less_eq_dividend])
  then have "unat (v - (v AND CITRA_PAGE_MASK) + 0x1000) = unat v div 4096 * 4096 + 4096" using u by (simp add: unat_plus_less)
  moreover have "(unat v + 4095) div 4096 = unat v div 4096 + 1"
  proof -
    have "unat v + 4095 = 4096 * (unat v div 4096 + 1) + (unat v mod 4096 - 1)" using False mult_div_mod_eq [of 4096 "unat v"] by simp
    moreover have "unat v mod 4096 - 1 < 4096" using mod_less_divisor [of 4096 "unat v"] by linarith
    ultimately show ?thesis by (metis add.commute div_mult_self4 div_less add_0_right zero_neq_numeral)
  qed
  ultimately show ?thesis using n by (simp add: align_up_def)
qed

lemma unat_pages_of:
  assumes "unat sz < 2 ^ 28"
  shows "unat (pages_of a sz) = (unat a mod 4096 + unat sz + 4095) div 4096"
proof -
  have u: "unat ((a - page_start a) + sz) = unat a mod 4096 + unat sz"
    using assms page_parts(1) [of a] mod_less_divisor [of 4096 "unat a"] by (subst unat_plus_less) auto
  have "unat a mod 4096 < 4096" by simp
  then have "unat a mod 4096 + unat sz < 2 ^ 31" using assms by simp
  then have "unat (align_up ((a - page_start a) + sz)) = (unat a mod 4096 + unat sz + 4095) div 4096 * 4096" using unat_align_up u by metis
  then show ?thesis unfolding pages_of_def by (simp only: unat_drop_bit_eq) (simp add: drop_bit_eq_div)
qed

lemma page_start_plus:
  assumes "page_aligned x" "unat off < 4096" "unat x + unat off < 2 ^ 32"
  shows "page_start (x + off) = x" "x + off - page_start (x + off) = off"
proof -
  have u: "unat (x + off) = unat x + unat off" using assms(3) by (simp add: unat_plus_less)
  have "unat (page_start (x + off)) = unat x" using page_parts(2) [of "x + off"] assms(1,2) u by (auto simp: page_aligned_unat elim!: dvdE)
  then show "page_start (x + off) = x" by (simp add: word_unat_eq_iff)
  then show "x + off - page_start (x + off) = off" by simp
qed

section \<open>What the operations keep\<close>

text \<open>The rasterizer leaves a set of bytes of host memory alone: none of them is in its cache.\<close>

definition spares :: "gpu_ops \<Rightarrow> (backing \<times> nat) set \<Rightarrow> bool" where
  "spares g L \<longleftrightarrow> (\<forall>mode a n h. \<forall>(b, off) \<in> L. rasterizer_region g mode a n h b off = h b off)"

text \<open>
  A change of one page table: the other page tables and the bytes in \<open>L\<close> stay, and no page becomes a cached one that does not lie in an area of the rasterizer.
\<close>

definition kept :: "(backing \<times> nat) set \<Rightarrow> nat \<Rightarrow> MemorySystem \<Rightarrow> MemorySystem \<Rightarrow> bool" where
  "kept L pt m m' \<longleftrightarrow> gpu m' = gpu m \<and> (\<forall>(b, off) \<in> L. host m' b off = host m b off) \<and> (\<forall>t. t \<noteq> pt \<longrightarrow> tables m' t = tables m t) \<and>
     (\<forall>p. marker_At (of_nat p * 0x1000) = None \<and> attributes (tables m pt) p \<noteq> RasterizerCachedMemory \<longrightarrow> attributes (tables m' pt) p \<noteq> RasterizerCachedMemory)"

lemma kept_refl [simp]: "kept L pt m m" by (simp add: kept_def split: prod.splits)

lemma kept_trans: "kept L pt m m1 \<Longrightarrow> kept L pt m1 m2 \<Longrightarrow> kept L pt m m2"
  by (auto simp: kept_def split: prod.splits)

lemma kept_spares: "kept L pt m m' \<Longrightarrow> spares (gpu m') L = spares (gpu m) L"
  by (simp add: kept_def)

lemma set_page_kept:
  "ty = RasterizerCachedMemory \<longrightarrow> marker_At (of_nat p * 0x1000) \<noteq> None \<Longrightarrow> kept L pt m (set_page pt p ty r m)"
  by (auto simp: kept_def set_page_def)

lemma check_kept: "spares (gpu m) L \<Longrightarrow> kept L pt m (CheckRegion a e mode rs re ps m)"
  by (simp add: kept_def spares_def CheckRegion_def Let_def split: prod.splits)

lemma check_spares: "spares (gpu m) L \<Longrightarrow> spares (gpu (CheckRegion a e mode rs re ps m)) L"
  using check_kept kept_spares by blast

lemma flush_kept:
  assumes "spares (gpu m) L"
  shows "kept L pt m (RasterizerFlushVirtualRegion a n mode m)"
proof -
  let ?c = "\<lambda>rs re ps. CheckRegion a (a + n) mode rs re ps"
  define m1 where "m1 = ?c VRAM_VADDR VRAM_VADDR_END VRAM_PADDR (?c NEW_LINEAR_HEAP_VADDR NEW_LINEAR_HEAP_VADDR_END FCRAM_PADDR
    (?c LINEAR_HEAP_VADDR LINEAR_HEAP_VADDR_END FCRAM_PADDR m))"
  have "kept L pt m m1" unfolding m1_def by (intro kept_trans [OF kept_trans [OF check_kept check_kept] check_kept] check_spares assms)
  moreover have "kept L pt m1 (?c rs re ps m1)" for rs re ps unfolding m1_def by (intro check_kept check_spares assms)
  ultimately show ?thesis using kept_trans [of L pt m m1]
    unfolding RasterizerFlushVirtualRegion_def Let_def m1_def [symmetric] by (auto split: option.split)
qed

lemma map_pages_loop_kept: "map_pages_loop pt base stop r ty m = Some m' \<Longrightarrow> ty \<noteq> RasterizerCachedMemory \<Longrightarrow> kept L pt m m'"
proof (induction pt base stop r ty m rule: map_pages_loop.induct)
  case (1 pt base stop r ty m)
  define m1 where "m1 = set_page pt (unat base) ty r m"
  define m2 where "m2 = (if ty = Memory \<and> marker_IsCached (base * of_nat CITRA_PAGE_SIZE) m1 then set_page pt (unat base) RasterizerCachedMemory None m1 else m1)"
  have m1: "kept L pt m m1" using 1(3) by (simp add: m1_def set_page_kept)
  have "kept L pt m1 m2" by (auto simp: m2_def marker_IsCached_def split: option.splits intro!: set_page_kept)
  with m1 have m2: "kept L pt m m2" by (rule kept_trans)
  show ?case
  proof (cases "base = stop")
    case True
    then show ?thesis using 1(2) by (simp add: map_pages_loop.simps)
  next
    case False
    then have lt: "\<not> PAGE_TABLE_NUM_ENTRIES \<le> unat base" using 1(2) by (auto simp: map_pages_loop.simps)
    have "map_pages_loop pt base stop r ty m = map_pages_loop pt (base + 1) stop (next_page_ref r) ty m2"
      by (subst map_pages_loop.simps) (simp only: False lt Let_def m1_def m2_def not_False_eq_True if_True if_False)
    then have "map_pages_loop pt (base + 1) stop (next_page_ref r) ty m2 = Some m'" using 1(2) by simp
    then have "kept L pt m2 m'" using 1(1) [OF False lt m1_def m2_def] 1(3) by blast
    then show ?thesis using kept_trans m2 by blast
  qed
qed

lemma MapPages_kept: "MapPages pt base sz r ty m = Some m' \<Longrightarrow> spares (gpu m) L \<Longrightarrow> ty \<noteq> RasterizerCachedMemory \<Longrightarrow> kept L pt m m'"
  unfolding MapPages_def Let_def using kept_trans [OF flush_kept map_pages_loop_kept] map_pages_loop_kept by (auto split: if_splits)

text \<open>The operations on an address space change only its own page table, and leave alone what the rasterizer leaves alone.\<close>

definition vm_kept :: "(backing \<times> nat) set \<Rightarrow> VMManager \<Rightarrow> VMManager \<Rightarrow> bool" where
  "vm_kept L vm vm' \<longleftrightarrow> page_table vm' = page_table vm \<and> kept L (page_table vm) (vm_memory vm) (vm_memory vm')"

lemma vm_kept_refl [simp]: "vm_kept L vm vm" "vm_kept L vm (vm\<lparr>vma_map := vs\<rparr>)" by (simp_all add: vm_kept_def)

lemma vm_kept_trans: "vm_kept L vm vm1 \<Longrightarrow> vm_kept L vm1 vm2 \<Longrightarrow> vm_kept L vm vm2"
  using kept_trans by (auto simp: vm_kept_def)

lemma vm_kept_areas [simp]: "vm_kept L (vm\<lparr>vma_map := vs\<rparr>) vm' = vm_kept L vm vm'" "vm_kept L vm (vm'\<lparr>vma_map := vs\<rparr>) = vm_kept L vm vm'"
  by (simp_all add: vm_kept_def)

abbreviation vm_spares :: "(backing \<times> nat) set \<Rightarrow> VMManager \<Rightarrow> bool" where "vm_spares L vm \<equiv> spares (gpu (vm_memory vm)) L"

lemma vm_kept_spares: "vm_kept L vm vm' \<Longrightarrow> vm_spares L vm \<Longrightarrow> vm_spares L vm'"
  using kept_spares by (auto simp: vm_kept_def)

lemma change_vma_kept:
  assumes "change_vma f key vm = Some (k, vm')" "vm_spares L vm"
  shows "vm_kept L vm vm'"
proof -
  obtain v vm1 vs where v: "UpdatePageTableForVMA (f v) (vm\<lparr>vma_map := put_vma (f v) (vma_map vm)\<rparr>) = Some vm1" "vm' = vm1\<lparr>vma_map := vs\<rparr>"
    using assms(1) by (auto simp: change_vma_def bind_eq_Some_conv)
  then have "vm_kept L vm vm1" using assms(2) unfolding UpdatePageTableForVMA_def UnmapRegion_def MapMemoryRegion_def
    by (cases "vma_type (f v)") (auto simp: vm_kept_def split: if_splits dest: MapPages_kept)
  then show ?thesis using v(2) by simp
qed

lemma range_loop_kept:
  assumes "range_loop f e it vm = Some vm'" "vm_spares L vm"
    and "\<And>key vm k vm'. f key vm = Some (k, vm') \<Longrightarrow> vm_spares L vm \<Longrightarrow> vm_kept L vm vm'"
  shows "vm_kept L vm vm'"
  using assms
proof (induction rule: range_loop.raw_induct [rotated, consumes 1, case_names 1])
  case (1 loop f e it vm vm')
  show ?case
  proof (cases "case it of None \<Rightarrow> True | Some key \<Rightarrow> \<not> key < e")
    case True
    then show ?thesis using 1(2) by (auto split: option.splits)
  next
    case False
    then obtain key k vm1 where k: "it = Some key" "f key vm = Some (k, vm1)" "loop f e (std_next k (vma_map vm1)) vm1 = Some vm'"
      using 1(2) by (auto split: option.splits simp: bind_eq_Some_conv)
    have 2: "vm_kept L vm vm1" using 1(4) k(2) 1(3) .
    moreover have "vm_kept L vm1 vm'" by (rule 1(1) [OF k(3) vm_kept_spares [OF 2 1(3)]]) (rule 1(4))
    ultimately show ?thesis by (rule vm_kept_trans)
  qed
qed

lemma Unmap_kept: "VMManager_Unmap key vm = Some (k, vm') \<Longrightarrow> vm_spares L vm \<Longrightarrow> vm_kept L vm vm'"
  by (auto simp: VMManager_Unmap_def split: if_splits intro: change_vma_kept)

lemma operations_kept:
  assumes "vm_spares L vm"
  shows "MapBackingMemory a r n st vm = Some (res, vm') \<Longrightarrow> vm_kept L vm vm'"
    "MapBackingMemoryToBase b rs r n st vm = Some (res, vm') \<Longrightarrow> vm_kept L vm vm'"
    "UnmapRange a n vm = Some (c, vm') \<Longrightarrow> vm_kept L vm vm'"
    "ChangeMemoryState a n es ep ns np vm = Some (c, vm') \<Longrightarrow> vm_kept L vm vm'"
proof -
  have m: "vm_kept L vm vm'" if e: "MapBackingMemory a r n st vm = Some (res, vm')" for a res
  proof -
    consider "vm' = vm" | f key vs k where "change_vma f key (vm\<lparr>vma_map := vs\<rparr>) = Some (k, vm')"
      using e by (auto simp: MapBackingMemory_def bind_eq_Some_conv split: if_splits) (auto split: sum.splits if_splits simp: bind_eq_Some_conv)
    then show ?thesis using change_vma_kept [of _ _ "vm\<lparr>vma_map := vs\<rparr>" for vs] assms by cases fastforce+
  qed
  then show "MapBackingMemory a r n st vm = Some (res, vm') \<Longrightarrow> vm_kept L vm vm'" .
  show "MapBackingMemoryToBase b rs r n st vm = Some (res, vm') \<Longrightarrow> vm_kept L vm vm'"
    using m by (auto simp: MapBackingMemoryToBase_def bind_eq_Some_conv Let_def split: if_splits)
  show "vm_kept L vm vm'" if e: "UnmapRange a n vm = Some (c, vm')"
  proof -
    consider "vm' = vm" | e it vs where "range_loop VMManager_Unmap e it (vm\<lparr>vma_map := vs\<rparr>) = Some vm'"
      using e by (auto simp: UnmapRange_def bind_eq_Some_conv split: if_splits) (auto split: sum.splits if_splits simp: bind_eq_Some_conv)
    then show ?thesis using range_loop_kept [where f = VMManager_Unmap and vm = "vm\<lparr>vma_map := vs\<rparr>" for vs, OF _ _ Unmap_kept] assms by cases fastforce+
  qed
  show "vm_kept L vm vm'" if e: "ChangeMemoryState a n es ep ns np vm = Some (c, vm')"
  proof -
    consider "vm' = vm" | f e it vs where "range_loop (change_vma f) e it (vm\<lparr>vma_map := vs\<rparr>) = Some vm'"
      using e by (auto simp: ChangeMemoryState_def bind_eq_Some_conv split: if_splits option.splits) (auto split: sum.splits simp: bind_eq_Some_conv)
    then show ?thesis using range_loop_kept [where f = "change_vma f" and vm = "vm\<lparr>vma_map := vs\<rparr>" for f vs, OF _ _ change_vma_kept] assms by cases fastforce+
  qed
qed

section \<open>Copying between processes\<close>

abbreviation loc_byte :: "host_memory \<Rightarrow> backing \<times> nat \<Rightarrow> u8" where "loc_byte h l \<equiv> (case l of (b, off) \<Rightarrow> h b off)"

definition plain_range :: "PageTable \<Rightarrow> nat \<Rightarrow> nat \<Rightarrow> bool" where
  "plain_range t a n \<longleftrightarrow> (\<forall>x. a \<le> x \<and> x < a + n \<longrightarrow> plain_page t (x div CITRA_PAGE_SIZE))"

lemma plain_range_end: "plain_range t a n \<Longrightarrow> 0 < n \<Longrightarrow> a + n \<le> 2 ^ 32"
  by (force simp: plain_range_def plain_page_def dest: spec [of _ "a + n - 1"])

lemma plain_range_part: "plain_range t a n \<Longrightarrow> a \<le> b \<Longrightarrow> b + k \<le> a + n \<Longrightarrow> plain_range t b k"
  by (simp add: plain_range_def)

lemma ReadBlockImpl_plain:
  assumes "plain_range (tables m pt) (unat a) n"
  shows "ReadBlockImpl unsafe pt m a n = Some (map (\<lambda>x. loc_byte (host m) (vloc (tables m pt) x)) [unat a..<unat a + n], m)"
  using read_block_loop_plain [of "unat (a AND CITRA_PAGE_MASK)" "unat (drop_bit CITRA_PAGE_BITS a)" n m pt unsafe "[]"] assms
  by (simp add: ReadBlockImpl_def page_of_address plain_range_def)

lemma WriteBlockImpl_plain:
  assumes "plain_range (tables m pt) (unat a) (length bs)"
  shows "WriteBlockImpl unsafe pt m a bs = Some (m\<lparr>host := poke (tables m pt) (unat a) bs (host m)\<rparr>)"
  using write_block_loop_plain [of "unat (a AND CITRA_PAGE_MASK)" "unat (drop_bit CITRA_PAGE_BITS a)" bs m pt unsafe] assms
  by (simp add: WriteBlockImpl_def page_of_address plain_range_def)

lemma poke_other: "l \<notin> vloc t ` {a..<a + length bs} \<Longrightarrow> loc_byte (poke t a bs h) l = loc_byte h l"
proof (induction bs arbitrary: a h)
  case (Cons x bs)
  then have "l \<notin> vloc t ` {Suc a..<Suc a + length bs}" "l \<noteq> vloc t a" by auto
  then show ?case using Cons.IH by (auto split: prod.splits)
qed simp

lemma copy_block_loop_plain:
  assumes "po < CITRA_PAGE_SIZE" "plain_range (tables m sp) (pi * CITRA_PAGE_SIZE + po) n" "plain_range (tables m dp) (unat d) n"
    and "vloc (tables m sp) ` {pi * CITRA_PAGE_SIZE + po..<pi * CITRA_PAGE_SIZE + po + n} \<inter> vloc (tables m dp) ` {unat d..<unat d + n} = {}"
  shows "copy_block_loop dp sp d pi po n m = Some (m\<lparr>host := poke (tables m dp) (unat d)
      (map (\<lambda>x. loc_byte (host m) (vloc (tables m sp) x)) [pi * CITRA_PAGE_SIZE + po..<pi * CITRA_PAGE_SIZE + po + n]) (host m)\<rparr>)"
  using assms
proof (induction n arbitrary: d pi po m rule: less_induct)
  case (less n)
  let ?a = "pi * CITRA_PAGE_SIZE + po"
  let ?c = "min (CITRA_PAGE_SIZE - po) n"
  let ?S = "tables m sp" and ?D = "tables m dp"
  show ?case
  proof (cases "n = 0")
    case True
    then show ?thesis by (simp add: copy_block_loop.simps)
  next
    case False
    then have c: "0 < ?c" "?c \<le> n" "n - ?c < n" using less.prems(1) by simp_all
    have "?a div CITRA_PAGE_SIZE = pi" using less.prems(1) by simp
    then have "plain_page ?S pi" using less.prems(2) False unfolding plain_range_def by (metis less_add_same_cancel1 neq0_conv order_refl)
    then obtain b base where pg: "pointers ?S pi = Some (b, base)" "attributes ?S pi = Memory" "pi < PAGE_TABLE_NUM_ENTRIES"
      "host_range b (base + po) ?c" "\<And>i. i < CITRA_PAGE_SIZE \<Longrightarrow> vloc ?S (pi * CITRA_PAGE_SIZE + i) = (b, base + i)"
      using less.prems(1) by (elim page_chunk [where off = po and n = ?c]) auto
    define bs where "bs = map (\<lambda>x. loc_byte (host m) (vloc ?S x)) [?a..<?a + ?c]"
    have "host m b (base + po + i) = loc_byte (host m) (vloc ?S (?a + i))" if "i < ?c" for i
    proof -
      have "po + i < CITRA_PAGE_SIZE" using that by auto
      from pg(5) [OF this] show ?thesis by (simp add: add.assoc)
    qed
    then have "map (host m b) [base + po..<base + po + ?c] = bs" unfolding bs_def by (intro nth_equalityI) simp_all
    then have rd: "host_read (host m) b (base + po) ?c = Some bs" using pg(4) by (simp add: host_read_def)
    define m1 where "m1 = m\<lparr>host := poke ?D (unat d) bs (host m)\<rparr>"
    have len: "length bs = ?c" by (simp add: bs_def)
    have "plain_range ?D (unat d) (length bs)" unfolding len by (rule plain_range_part [OF less.prems(3)]) (use c in auto)
    then have wr: "WriteBlockImpl False dp m d bs = Some m1" by (simp add: WriteBlockImpl_plain m1_def)
    have run: "copy_block_loop dp sp d pi po n m = copy_block_loop dp sp (d + of_nat ?c) (pi + 1) 0 (n - ?c) m1"
      using False pg(1-3) rd wr by (subst copy_block_loop.simps) (simp add: Let_def)
    show ?thesis
    proof (cases "n = ?c")
      case True
      then show ?thesis unfolding run using bs_def by (simp add: copy_block_loop.simps m1_def)
    next
      case more: False
      then have cc: "?c = CITRA_PAGE_SIZE - po" "?a + ?c = (pi + 1) * CITRA_PAGE_SIZE" using less.prems(1) by auto
      have "unat d + n \<le> 2 ^ 32" using plain_range_end [OF less.prems(3)] False by simp
      then have d: "unat (d + of_nat ?c) = unat d + ?c" using more c(2) by (simp add: unat_word_ariths unat_of_nat take_bit_eq_mod)
      have S: "tables m1 = tables m" by (simp add: m1_def)
      let ?b = "(pi + 1) * CITRA_PAGE_SIZE + 0"
      have e: "?b = ?a + ?c" by (simp only: cc(2) add_0_right)
      have p: "plain_range (tables m1 sp) ?b (n - ?c)" unfolding S e by (rule plain_range_part [OF less.prems(2)]) (use c(2) in auto)
      have q: "plain_range (tables m1 dp) (unat (d + of_nat ?c)) (n - ?c)" unfolding S d by (rule plain_range_part [OF less.prems(3)]) (use c in auto)
      have sub: "{?b..<?b + (n - ?c)} \<subseteq> {?a..<?a + n}" "{unat d + ?c..<unat d + ?c + (n - ?c)} \<subseteq> {unat d..<unat d + n}"
        unfolding e using c(2) by auto
      have dj: "vloc (tables m1 sp) ` {?b..<?b + (n - ?c)} \<inter> vloc (tables m1 dp) ` {unat (d + of_nat ?c)..<unat (d + of_nat ?c) + (n - ?c)} = {}"
        unfolding S d using less.prems(4) sub by blast
      note ih = less.IH [OF c(3) _ p q dj, unfolded S d]
      have "loc_byte (host m1) (vloc ?S x) = loc_byte (host m) (vloc ?S x)" if "x \<in> {?b..<?b + (n - ?c)}" for x
      proof -
        have "x \<in> {?a..<?a + n}" using sub(1) that by (rule subsetD)
        moreover have "{unat d..<unat d + length bs} \<subseteq> {unat d..<unat d + n}" unfolding len using c(2) by simp
        ultimately have "vloc ?S x \<notin> vloc ?D ` {unat d..<unat d + length bs}" using less.prems(4) by blast
        then show ?thesis by (simp add: m1_def poke_other)
      qed
      then have same: "map (\<lambda>x. loc_byte (host m1) (vloc ?S x)) [?b..<?b + (n - ?c)] = map (\<lambda>x. loc_byte (host m) (vloc ?S x)) [?b..<?b + (n - ?c)]" by simp
      have "[?a..<?a + n] = [?a..<?a + ?c] @ [?b..<?b + (n - ?c)]" using page_split [OF less.prems(1), of pi n] by simp
      then have "map (\<lambda>x. loc_byte (host m) (vloc ?S x)) [?a..<?a + n] = bs @ map (\<lambda>x. loc_byte (host m) (vloc ?S x)) [?b..<?b + (n - ?c)]" by (simp only: map_append bs_def)
      then have "poke ?D (unat d) (map (\<lambda>x. loc_byte (host m) (vloc ?S x)) [?a..<?a + n]) (host m) =
          poke ?D (unat d + ?c) (map (\<lambda>x. loc_byte (host m1) (vloc ?S x)) [?b..<?b + (n - ?c)]) (host m1)"
        by (simp only: poke_append same len) (simp add: m1_def)
      then show ?thesis unfolding run using ih by (simp add: m1_def)
    qed
  qed
qed

lemma CopyBlock_plain:
  assumes "plain_range (tables m sp) (unat a) n" "plain_range (tables m dp) (unat d) n"
    and "vloc (tables m sp) ` {unat a..<unat a + n} \<inter> vloc (tables m dp) ` {unat d..<unat d + n} = {}"
  shows "CopyBlock dp sp d a n m = Some (m\<lparr>host := poke (tables m dp) (unat d) (map (\<lambda>x. loc_byte (host m) (vloc (tables m sp) x)) [unat a..<unat a + n]) (host m)\<rparr>)"
  using copy_block_loop_plain [of "page_off a" m sp "page_of a" n dp d] assms
  by (simp add: CopyBlock_def page_of_def page_off_def page_of_address)

section \<open>Guarded mappings\<close>

text \<open>What the receiver sees while \<open>sz\<close> bytes of a buffer are lent to it, from the start of the area for buffers on; \<open>c\<close> is what it saw before.\<close>

definition lent_view :: "backing \<Rightarrow> u32 \<Rightarrow> (nat \<Rightarrow> attrs option) \<Rightarrow> nat \<Rightarrow> attrs option" where
  "lent_view buffer sz c x =
     (if 0x4000000 \<le> x \<and> x < 0x4000000 + unat sz then
        if x < 0x4001000 \<or> 0x4000000 + unat sz \<le> x + 0x1000 then Some (VMA_BackingMemory, Perm_None, MS_Reserved, Some (buffer, x - 0x4000000))
        else Some (VMA_BackingMemory, Perm_ReadWrite, MS_Shared, Some (buffer, x - 0x4000000))
      else c x)"

lemma map_to_base_ok:
  assumes vm: "unlocked_space vm" and f: "free_range (vm_content vm) IPC_MAPPING_VADDR IPC_MAPPING_SIZE" and sz: "0 < sz" "page_aligned sz" "unat sz \<le> 0x4000000"
    and b: "backs r sz"
  shows "\<exists>vm'. MapBackingMemoryToBase IPC_MAPPING_VADDR IPC_MAPPING_SIZE r sz st vm = Some (Inr IPC_MAPPING_VADDR, vm') \<and> unlocked_space vm' \<and>
    vm_content vm' = with_mapping IPC_MAPPING_VADDR r sz st (vm_content vm)"
proof -
  have i: "vm_inv vm" "\<not> is_locked vm" using vm by (simp_all add: unlocked_space_def)
  note iv = vm_invD [OF i(1)]
  obtain xs v ys where v: "vma_map vm = xs @ v # ys" "ub v \<le> 0x4000000" "0x4000000 < vend v" using tiled_find [OF iv(2), of "0x4000000"] by auto
  have t: "tiled 0 (xs @ v # ys) vm_end" "free_merged (xs @ v # ys)" using iv(2,4) v(1) by simp_all
  have fr: "vma_type v = VMA_Free" "0x8000000 \<le> vend v"
    using free_area_covers [OF t v(2,3), of "0x8000000"] f v(1) by (simp_all add: free_range_def)
  have vw: "unat (vma_base w + vma_size w) = vend w" if "w \<in> set (xs @ v # ys)" for w
    using tiled_in [OF t(1) that] by (intro vend_word) simp
  have before: "vend w \<le> 0x4000000" if "w \<in> set xs" for w using t(1) that v(2) tiled_in [of 0 xs "ub v" w] by (auto simp: tiled_mid)
  let ?P = "\<lambda>v. vma_type v = VMA_Free \<and> vma_base v + vma_size v > IPC_MAPPING_VADDR \<and> vma_base v + vma_size v \<ge> IPC_MAPPING_VADDR + sz"
  have xs: "\<not> ?P w" if "w \<in> set xs" for w using before [OF that] vw [of w] that by (auto simp: word_less_nat_alt)
  have u: "unat (IPC_MAPPING_VADDR + sz) = 0x4000000 + unat sz" using sz(3) by (simp add: unat_plus_less)
  have Pv: "?P v" using fr v(3) vw [of v] u sz(3) by (simp add: word_less_nat_alt word_le_nat_alt)
  have "find ?P (xs @ v # ys) = find ?P (v # ys)" using xs by (induction xs) auto
  then have fd: "find ?P (vma_map vm) = Some v" using Pv v(1) by simp
  have mx: "max IPC_MAPPING_VADDR (vma_base v) = IPC_MAPPING_VADDR" using v(2) by (intro max_absorb1) (simp add: word_le_nat_alt)
  have le: "\<not> IPC_MAPPING_VADDR + sz > IPC_MAPPING_VADDR + IPC_MAPPING_SIZE" using u sz(3) by (simp add: word_less_nat_alt)
  have g: "good_range IPC_MAPPING_VADDR sz" using sz by (simp add: good_range_def page_aligned_unat)
  have "free_range (vm_content vm) IPC_MAPPING_VADDR sz" using f sz(3) by (simp add: free_range_def)
  then obtain key vm' where m: "MapBackingMemory IPC_MAPPING_VADDR r sz st vm = Some (Inr key, vm')" "unlocked_space vm'"
    "vm_content vm' = with_mapping IPC_MAPPING_VADDR r sz st (vm_content vm)" using vs.map_free [OF vm g b] by blast
  have "MapBackingMemoryToBase IPC_MAPPING_VADDR IPC_MAPPING_SIZE r sz st vm = Some (Inr IPC_MAPPING_VADDR, vm')"
    unfolding MapBackingMemoryToBase_def fd using i(2) m(1) le by (simp add: mx)
  then show ?thesis using m(2,3) by blast
qed

lemma map_guarded_ok:
  assumes vm: "unlocked_space vm" and f: "free_range (vm_content vm) IPC_MAPPING_VADDR IPC_MAPPING_SIZE"
    and sz: "page_aligned sz" "0x3000 \<le> unat sz" "unat sz \<le> 0x4000000" and b: "unat sz \<le> GetSize buffer"
  shows "\<exists>vm'. map_guarded buffer sz vm = Some (IPC_MAPPING_VADDR, vm') \<and> unlocked_space vm' \<and> vm_content vm' = lent_view buffer sz (vm_content vm)"
proof -
  have pos: "0 < sz" using sz(2) by (simp add: word_less_nat_alt)
  have r: "make_ref buffer 0 = Some (buffer, 0)" "backs (Some (buffer, 0)) sz" using b by (simp_all add: make_ref_def backs_def)
  obtain v1 where v1: "MapBackingMemoryToBase IPC_MAPPING_VADDR IPC_MAPPING_SIZE (Some (buffer, 0)) sz MS_Shared vm = Some (Inr IPC_MAPPING_VADDR, v1)" "unlocked_space v1"
    "vm_content v1 = with_mapping IPC_MAPPING_VADDR (Some (buffer, 0)) sz MS_Shared (vm_content vm)"
    using map_to_base_ok [OF vm f pos sz(1,3) r(2)] by blast
  let ?hi = "IPC_MAPPING_VADDR + sz - 0x1000"
  have up: "(0x1000 :: u32) \<le> IPC_MAPPING_VADDR + sz" "unat (IPC_MAPPING_VADDR + sz) = 0x4000000 + unat sz"
    using sz(3) by (simp_all add: word_le_nat_alt unat_plus_less)
  have hi: "unat ?hi = 0x4000000 + unat sz - 0x1000" unfolding unat_sub [OF up(1)] up(2) by simp
  have "4096 dvd unat sz" using sz(1) by (simp add: page_aligned_unat)
  then have "4096 dvd unat ?hi" unfolding hi by (intro dvd_diff_nat dvd_add) simp_all
  then have g: "good_range IPC_MAPPING_VADDR 0x1000" "good_range ?hi 0x1000" using hi sz(3) by (simp_all add: good_range_def page_aligned_unat)
  have c1: "\<forall>x v. unat IPC_MAPPING_VADDR \<le> x \<and> x < unat IPC_MAPPING_VADDR + unat (0x1000 :: u32) \<and> vm_content v1 x = Some v \<longrightarrow>
      in_state MS_Shared Perm_ReadWrite v \<and> fst v \<noteq> VMA_Free"
    using sz(2) by (auto simp: v1(3) with_mapping_def mapped_at_def in_state_def)
  obtain v2 where v2: "ChangeMemoryState IPC_MAPPING_VADDR 0x1000 MS_Shared Perm_ReadWrite MS_Reserved Perm_None v1 = Some (ResultSuccess, v2)" "unlocked_space v2"
    "vm_content v2 = with_change (set_state MS_Reserved Perm_None) IPC_MAPPING_VADDR 0x1000 (vm_content v1)"
    using change_state [OF v1(2) g(1), of MS_Shared Perm_ReadWrite MS_Reserved Perm_None] unfolding if_P [OF c1] by blast
  have c2: "\<forall>x v. unat ?hi \<le> x \<and> x < unat ?hi + unat (0x1000 :: u32) \<and> vm_content v2 x = Some v \<longrightarrow> in_state MS_Shared Perm_ReadWrite v \<and> fst v \<noteq> VMA_Free"
    unfolding hi using sz(2) by (auto simp: v2(3) v1(3) with_change_def updated_def with_mapping_def mapped_at_def in_state_def)
  obtain v3 where v3: "ChangeMemoryState ?hi 0x1000 MS_Shared Perm_ReadWrite MS_Reserved Perm_None v2 = Some (ResultSuccess, v3)" "unlocked_space v3"
    "vm_content v3 = with_change (set_state MS_Reserved Perm_None) ?hi 0x1000 (vm_content v2)"
    using change_state [OF v2(2) g(2), of MS_Shared Perm_ReadWrite MS_Reserved Perm_None] unfolding if_P [OF c2] by blast
  have "vm_content v3 x = lent_view buffer sz (vm_content vm) x" for x
    unfolding v3(3) v2(3) v1(3) lent_view_def with_change_def updated_def with_mapping_def mapped_at_def hi using sz(2)
    by (auto simp: set_state_def)
  moreover have "map_guarded buffer sz vm = Some (IPC_MAPPING_VADDR, v3)"
    unfolding map_guarded_def r(1) using v1(1) v2(1) v3(1) by simp
  ultimately show ?thesis using v3(2) by blast
qed

lemma state_at_content:
  assumes "vm_inv vm" "vm_content vm (unat a) = Some (ty, pm, st, r)"
  shows "state_at a vm = Some st"
proof -
  note i = vm_invD [OF assms(1)]
  have "unat a < vm_end" using content_outside [OF i(2), of "unat a"] assms(2) by (cases "unat a < vm_end") auto
  then obtain xs v ys where v: "vma_map vm = xs @ v # ys" "ub v \<le> unat a" "unat a < vend v" using tiled_find [OF i(2), of "unat a"] by auto
  have t: "tiled 0 (xs @ v # ys) vm_end" using i(2) v(1) by simp
  have "attrs v (unat a) = (ty, pm, st, r)" using content_mid [OF t, of "unat a"] assms(2) v by simp
  then show ?thesis using FindVMA_mid [OF t v(2,3)] vma_at_mid [OF t] v(1) by (auto simp: state_at_def attrs_def)
qed

lemma unmap_guarded_ok:
  assumes vm: "unlocked_space vm" and c: "vm_content vm = lent_view buffer sz c"
    and n: "sz = (n + 2) * 0x1000" "1 \<le> unat n" "unat n \<le> 0x3FFE"
  shows "\<exists>vm'. unmap_guarded 0x4001000 n vm = Some ((), vm') \<and> unlocked_space vm' \<and>
    vm_content vm' = with_change (\<lambda>_. free_attrs) IPC_MAPPING_VADDR sz (lent_view buffer sz c)"
proof -
  have u: "unat (n + 2) = unat n + 2" using n(3) by (simp add: unat_plus_less)
  have "unat (n + 2) * unat (0x1000 :: u32) < 2 ^ LENGTH(32)" unfolding u using n(3) by simp
  then have "unat ((n + 2) * 0x1000) = unat (n + 2) * unat (0x1000 :: u32)" by (rule unat_mult_lem [THEN iffD1])
  then have s: "unat sz = unat n * 0x1000 + 0x2000" by (simp only: n(1) u) simp
  have m: "unat (n * 0x1000) = unat n * 0x1000" using n(3) by (subst unat_mult_lem [THEN iffD1]) simp_all
  have hi: "unat (0x4001000 + n * 0x1000) = 0x4001000 + unat n * 0x1000" using m n(3) by (subst unat_plus_less) simp_all
  have i: "vm_inv vm" using vm by (simp add: unlocked_space_def)
  have st: "state_at 0x4000000 vm = Some MS_Reserved" "state_at (0x4001000 + n * 0x1000) vm = Some MS_Reserved"
    by (rule state_at_content [OF i], simp add: c lent_view_def s hi)+
  have g: "good_range IPC_MAPPING_VADDR sz" using n(2,3) s by (simp add: good_range_def page_aligned_unat word_less_nat_alt)
  have us: "used_range (vm_content vm) IPC_MAPPING_VADDR sz" by (simp add: c used_range_def lent_view_def)
  obtain vm' where "UnmapRange IPC_MAPPING_VADDR sz vm = Some (ResultSuccess, vm')" "unlocked_space vm'" "vm_content vm' = with_change (\<lambda>_. free_attrs) IPC_MAPPING_VADDR sz (vm_content vm)"
    using vs.unmap_used [OF vm g us] by blast
  moreover from this have "unmap_guarded 0x4001000 n vm = Some ((), vm')" unfolding unmap_guarded_def n(1) [symmetric] using st by simp
  ultimately show ?thesis by (simp add: c)
qed

lemma lend_and_return:
  assumes "unlocked_space vm" "free_range (vm_content vm) IPC_MAPPING_VADDR IPC_MAPPING_SIZE" "unat sz \<le> 0x4000000"
  shows "with_change (\<lambda>_. free_attrs) IPC_MAPPING_VADDR sz (lent_view buffer sz (vm_content vm)) = vm_content vm"
proof
  fix x
  have "vm_content vm x = Some free_attrs" if "0x4000000 \<le> x" "x < 0x4000000 + unat sz"
    using assms that by (intro vs.free_look) (simp_all add: free_range_def)
  then show "with_change (\<lambda>_. free_attrs) IPC_MAPPING_VADDR sz (lent_view buffer sz (vm_content vm)) x = vm_content vm x"
    by (auto simp: with_change_def updated_def lent_view_def)
qed

end
