(* ===== verification/Ipc_Lending.thy ===== *)
theory Ipc_Lending
  imports Ipc_Buffers
begin

text \<open>
  Mapped buffers in commands: a request lends the receiver a copy of the sender's buffer, the reply returns it.
\<close>

unbundle bit_operations_syntax

section \<open>Address spaces of the machine\<close>

definition space :: "nat \<Rightarrow> 'i machine \<Rightarrow> VMManager option" where
  "space pid k = map_option vm_manager (fetch pid k)"

lemma space_memory: "space pid (k\<lparr>m_memory := m\<rparr>) = map_option (\<lambda>vm. vm\<lparr>vm_memory := m\<rparr>) (space pid k)"
  by (cases "m_processes k pid") (simp_all add: space_def fetch_def)

lemma space_put:
  "space pid (put pid' q k) = (if pid = pid' then Some (vm_manager q) else map_option (\<lambda>vm. vm\<lparr>vm_memory := vm_memory (vm_manager q)\<rparr>) (space pid k))"
  by (cases "m_processes k pid") (simp_all add: space_def fetch_def put_def)

lemma space_vm_memory: "space pid k = Some vm \<Longrightarrow> vm_memory vm = m_memory k"
  by (auto simp: space_def fetch_def)

lemma read_process_plain:
  assumes "space pid k = Some vm" "plain_range (tables (m_memory k) (page_table vm)) (unat a) n"
  shows "read_process pid a n k = Some (map (\<lambda>x. loc_byte (host (m_memory k)) (vloc (tables (m_memory k) (page_table vm)) x)) [unat a..<unat a + n], k)"
proof -
  obtain p where "fetch pid k = Some p" "vm_manager p = vm" using assms(1) by (auto simp: space_def)
  moreover have "k\<lparr>m_memory := m_memory k\<rparr> = k" by simp
  ultimately show ?thesis using assms(2) by (simp add: read_process_def ReadBlockImpl_plain)
qed

lemma in_space_ok:
  assumes "space pid k = Some vm" "f vm = Some (r, vm')"
  shows "\<exists>k'. in_space pid f k = Some (r, k') \<and> space pid k' = Some vm' \<and> m_memory k' = vm_memory vm' \<and>
    (\<forall>o'. o' \<noteq> pid \<longrightarrow> space o' k' = map_option (\<lambda>vm. vm\<lparr>vm_memory := vm_memory vm'\<rparr>) (space o' k))"
proof -
  obtain p where p: "fetch pid k = Some p" "vm_manager p = vm" using assms(1) by (auto simp: space_def)
  then have "in_space pid f k = Some (r, put pid (p\<lparr>vm_manager := vm'\<rparr>) k)" using assms(2) by (simp add: in_space_def)
  moreover have "m_memory (put pid (p\<lparr>vm_manager := vm'\<rparr>) k) = vm_memory vm'" by (simp add: put_def)
  ultimately show ?thesis by (auto simp: space_put)
qed

lemma unlocked_space_memory:
  assumes "unlocked_space vm" "tables m (page_table vm) = tables (vm_memory vm) (page_table vm)"
  shows "unlocked_space (vm\<lparr>vm_memory := m\<rparr>)"
  using assms by (simp add: unlocked_space_def vm_inv_def vm_core_def)

lemma guarded_kept:
  assumes "vm_spares L vm"
  shows "map_guarded buffer sz vm = Some (t, vm') \<Longrightarrow> vm_kept L vm vm'" "unmap_guarded a n vm = Some (u, vm') \<Longrightarrow> vm_kept L vm vm'"
proof -
  assume "map_guarded buffer sz vm = Some (t, vm')"
  then obtain v1 v2 r c1 c2 where v: "MapBackingMemoryToBase IPC_MAPPING_VADDR IPC_MAPPING_SIZE (make_ref buffer 0) sz MS_Shared vm = Some (r, v1)"
    "ChangeMemoryState t 0x1000 MS_Shared Perm_ReadWrite MS_Reserved Perm_None v1 = Some (c1, v2)"
    "ChangeMemoryState (t + sz - 0x1000) 0x1000 MS_Shared Perm_ReadWrite MS_Reserved Perm_None v2 = Some (c2, vm')"
    by (auto simp: map_guarded_def bind_eq_Some_conv split: if_splits) (auto split: sum.splits if_splits simp: bind_eq_Some_conv)
  have k1: "vm_kept L vm v1" by (rule operations_kept(2) [OF assms v(1)])
  note s1 = vm_kept_spares [OF k1 assms]
  have k2: "vm_kept L v1 v2" by (rule operations_kept(4) [OF s1 v(2)])
  have k3: "vm_kept L v2 vm'" by (rule operations_kept(4) [OF vm_kept_spares [OF k2 s1] v(3)])
  show "vm_kept L vm vm'" using k1 k2 k3 vm_kept_trans by blast
next
  assume "unmap_guarded a n vm = Some (u, vm')"
  then obtain c where "UnmapRange (a - 0x1000) ((n + 2) * 0x1000) vm = Some (c, vm')"
    by (auto simp: unmap_guarded_def bind_eq_Some_conv split: if_splits)
  then show "vm_kept L vm vm'" by (rule operations_kept(3) [OF assms])
qed

section \<open>Lending a buffer\<close>

lemma lent_size:
  assumes "0 < sz" "unat a mod 4096 + unat sz \<le> 0x1FFE000"
  shows "1 \<le> unat (pages_of a sz)" "unat (pages_of a sz) \<le> 0x1FFE" "unat ((pages_of a sz + 2) * 0x1000) = unat (pages_of a sz) * 0x1000 + 0x2000"
    "page_aligned ((pages_of a sz + 2) * 0x1000)" "unat a mod 4096 + unat sz \<le> unat (pages_of a sz) * 0x1000"
proof -
  let ?n = "pages_of a sz"
  have "unat sz < 2 ^ 28" using assms(2) by simp
  then have n: "unat ?n = (unat a mod 4096 + unat sz + 4095) div 4096" by (rule unat_pages_of)
  have z: "0 < unat sz" using assms(1) by (simp add: word_less_nat_alt)
  show lo: "1 \<le> unat ?n" unfolding n using z by (simp add: less_eq_div_iff_mult_less_eq)
  have "(unat a mod 4096 + unat sz + 4095) div 4096 < 0x1FFF" using assms(2) by (intro less_mult_imp_div_less) simp
  then show hi: "unat ?n \<le> 0x1FFE" unfolding n by simp
  have "unat a mod 4096 + unat sz + 4095 = (unat a mod 4096 + unat sz + 4095) div 4096 * 4096 + (unat a mod 4096 + unat sz + 4095) mod 4096" by simp
  moreover have "(unat a mod 4096 + unat sz + 4095) mod 4096 < 4096" by simp
  ultimately show "unat a mod 4096 + unat sz \<le> unat ?n * 0x1000" unfolding n by linarith
  have u: "unat (?n + 2) = unat ?n + 2" using hi by (simp add: unat_plus_less)
  have "unat (?n + 2) * unat (0x1000 :: u32) < 2 ^ LENGTH(32)" unfolding u using hi by simp
  then have "unat ((?n + 2) * 0x1000) = unat (?n + 2) * unat (0x1000 :: u32)" by (rule unat_mult_lem [THEN iffD1])
  then show s: "unat ((?n + 2) * 0x1000) = unat ?n * 0x1000 + 0x2000" by (simp only: u) simp
  show "page_aligned ((?n + 2) * 0x1000)" unfolding page_aligned_unat s by simp
qed

lemma lent_target:
  fixes a :: u32
  defines "t \<equiv> 0x4001000 + (a AND CITRA_PAGE_MASK)"
  shows "unat t = 0x4001000 + unat a mod 4096" "page_start t = 0x4001000" "pages_of t sz = pages_of a sz"
    "IPC_MAPPING_VADDR + 0x1000 + (a - page_start a) = t"
proof -
  have m: "unat (a AND CITRA_PAGE_MASK) = unat a mod 4096" by (rule mask_mod)
  then have lt: "unat (a AND CITRA_PAGE_MASK) < 4096" by simp
  then show "unat t = 0x4001000 + unat a mod 4096" unfolding t_def using m by (simp add: unat_plus_less)
  have "page_aligned 0x4001000" by (simp add: page_aligned_unat)
  note p = page_start_plus [OF this lt]
  show "page_start t = 0x4001000" unfolding t_def using lt by (intro p) simp
  have "t - page_start t = a AND CITRA_PAGE_MASK" unfolding t_def using lt by (intro p) simp
  then show "pages_of t sz = pages_of a sz" unfolding pages_of_def using page_parts(3) [of a] by simp
  show "IPC_MAPPING_VADDR + 0x1000 + (a - page_start a) = t" unfolding page_parts(3) t_def by simp
qed

lemma pages_uncached:
  assumes "vm_inv vm" "free_range (vm_content vm) IPC_MAPPING_VADDR IPC_MAPPING_SIZE" "0x4000 \<le> p" "p < 0x6000"
  shows "attributes (tables (vm_memory vm) (page_table vm)) p \<noteq> RasterizerCachedMemory" "marker_At (of_nat p * 0x1000) = None"
proof -
  note i = vm_invD [OF assms(1)]
  have "map_option fst (vm_content vm (p * CITRA_PAGE_SIZE)) = Some VMA_Free" using assms(2-4) by (simp add: free_range_def)
  then show "attributes (tables (vm_memory vm) (page_table vm)) p \<noteq> RasterizerCachedMemory"
    using i(5) unfolding pages_agree_def page_agrees_def entry_is_def by (auto split: option.splits dest!: spec [of _ p])
  have "unat (of_nat p * 0x1000 :: u32) = p * 4096" using assms(4) by (simp add: unat_word_ariths unat_of_nat)
  then show "marker_At (of_nat p * 0x1000) = None" using assms(4) by (simp add: marker_At_def word_le_nat_alt)
qed

lemma request_buffer_ok:
  assumes p: "src \<noteq> dst" "space src (machine s) = Some vp" "space dst (machine s) = Some vq" "page_table vp \<noteq> page_table vq"
    and q: "unlocked_space vq" "free_range (vm_content vq) IPC_MAPPING_VADDR IPC_MAPPING_SIZE"
    and i: "i < length (cmd_buf s)" and sz: "sz = mapped_size d" "0 < sz" "unat source mod 4096 + unat sz \<le> 0x1FFE000"
    and T: "T = tables (m_memory (machine s)) (page_table vp)" "plain_range T (unat source) (unat sz)"
    and B: "N = (pages_of source sz + 2) * 0x1000" "B = BufferMem (next_buffer s) (unat N)" "\<forall>x. unat source \<le> x \<and> x < unat source + unat sz \<longrightarrow> fst (vloc T x) \<noteq> B"
    and g: "spares (gpu (m_memory (machine s))) L" "{B} \<times> UNIV \<subseteq> L"
    and t: "t = 0x4001000 + (source AND CITRA_PAGE_MASK)"
  obtains s1 v1 where "request_buffer src dst d i source s = Some s1" "space dst (machine s1) = Some v1" "unlocked_space v1" "page_table v1 = page_table vq"
    "vm_content v1 = lent_view B N (vm_content vq)" "space src (machine s1) = Some (vp\<lparr>vm_memory := m_memory (machine s1)\<rparr>)"
    "cmd_buf s1 = (cmd_buf s)[i := Some t]"
    "mapped_buffer_context s1 = mapped_buffer_context s @ [\<lparr>ctx_permissions = mapped_perms d, ctx_size = sz, source_address = source, target_address = t, ctx_buffer = B\<rparr>]"
    "gpu (m_memory (machine s1)) = gpu (m_memory (machine s))" "tables (m_memory (machine s1)) (page_table vp) = T"
    "\<forall>j < unat sz. host (m_memory (machine s1)) B (0x1000 + unat source mod 4096 + j) = loc_byte (host (m_memory (machine s))) (vloc T (unat source + j))"
    "\<forall>x. 0x4000000 \<le> x \<and> x < 0x6000000 \<longrightarrow> attributes (tables (m_memory (machine s1)) (page_table vq)) (x div CITRA_PAGE_SIZE) \<noteq> RasterizerCachedMemory"
proof -
  note ls = lent_size [OF sz(2,3)]
  have N: "unat N = unat (pages_of source sz) * 0x1000 + 0x2000" "page_aligned N" unfolding B(1) by (fact ls)+
  let ?m = "m_memory (machine s)"
  define m0 where "m0 = ?m\<lparr>host := host_put (host ?m) B 0 (replicate (unat N) 0)\<rparr>"
  define data where "data = map (\<lambda>x. loc_byte (host ?m) (vloc T x)) [unat source..<unat source + unat sz]"
  have "data = map (\<lambda>x. loc_byte (host m0) (vloc T x)) [unat source..<unat source + unat sz]"
    using B(3) by (auto simp: data_def m0_def host_put_def split: prod.splits)
  moreover have "space src ((machine s)\<lparr>m_memory := m0\<rparr>) = Some (vp\<lparr>vm_memory := m0\<rparr>)" using p(2) by (simp add: space_memory)
  moreover have "tables m0 (page_table vp) = T" by (simp add: m0_def T(1))
  ultimately have rd: "read_process src source (unat sz) ((machine s)\<lparr>m_memory := m0\<rparr>) = Some (data, (machine s)\<lparr>m_memory := m0\<rparr>)"
    using read_process_plain [of src "(machine s)\<lparr>m_memory := m0\<rparr>" "vp\<lparr>vm_memory := m0\<rparr>" source "unat sz"] T(2) by simp
  let ?o = "0x1000 + unat (source - page_start source)"
  have off: "unat (source - page_start source) = unat source mod 4096" by (rule page_parts(1))
  define m1 where "m1 = m0\<lparr>host := host_put (host m0) B ?o data\<rparr>"
  have "host_range B ?o (length data)" using ls(5) N(1) by (simp add: host_range_def B(2) data_def off)
  then have wr: "host_write (host m0) B ?o data = Some (host m1)" by (simp add: host_write_def m1_def)
  let ?k1 = "(machine s)\<lparr>m_memory := m1\<rparr>" and ?vq1 = "vq\<lparr>vm_memory := m1\<rparr>"
  have tm: "tables m1 = tables ?m" "gpu m1 = gpu ?m" by (simp_all add: m1_def m0_def)
  have vq: "vm_memory vq = ?m" using space_vm_memory [OF p(3)] .
  have q1: "space dst ?k1 = Some ?vq1" "unlocked_space ?vq1" "vm_content ?vq1 = vm_content vq"
    using p(3) q(1) tm(1) vq by (simp_all add: space_memory unlocked_space_memory)
  obtain v1 where v1: "map_guarded B N ?vq1 = Some (IPC_MAPPING_VADDR, v1)" "unlocked_space v1" "vm_content v1 = lent_view B N (vm_content vq)"
    using map_guarded_ok [OF q1(2) _ N(2), of B] q(2) q1(3) N(1) ls(1,2) by (auto simp: B(2))
  have "vm_spares L ?vq1" using g(1) tm(2) by simp
  from guarded_kept(1) [OF this v1(1)] have kp: "page_table v1 = page_table vq" "kept L (page_table vq) m1 (vm_memory v1)" by (simp_all add: vm_kept_def)
  obtain k2 where k2: "in_space dst (map_guarded B N) ?k1 = Some (IPC_MAPPING_VADDR, k2)" "space dst k2 = Some v1" "m_memory k2 = vm_memory v1"
    "space src k2 = map_option (\<lambda>vm. vm\<lparr>vm_memory := vm_memory v1\<rparr>) (space src ?k1)"
    using in_space_ok [where f = "map_guarded B N", OF q1(1) v1(1)] p(1) by blast
  define s1 where "s1 = s\<lparr>machine := k2, next_buffer := next_buffer s + 1, cmd_buf := (cmd_buf s)[i := Some t],
    mapped_buffer_context := mapped_buffer_context s @ [\<lparr>ctx_permissions = mapped_perms d, ctx_size = sz, source_address = source, target_address = t, ctx_buffer = B\<rparr>]\<rparr>"
  have run: "request_buffer src dst d i source s = Some s1"
    unfolding request_buffer_def Let_def sz(1) [symmetric] B(1) [symmetric] B(2) [symmetric] m0_def [symmetric]
    using wr k2(1) i lent_target(4) [of source] by (simp add: rd m1_def set_word_def s1_def t)
  have bytes: "host m1 B (?o + j) = loc_byte (host ?m) (vloc T (unat source + j))" if "j < unat sz" for j
    using that by (simp add: m1_def host_put_def data_def)
  have kept_bytes: "host (vm_memory v1) B off = host m1 B off" for off using kp(2) g(2) unfolding kept_def by fastforce
  have un: "attributes (tables (vm_memory v1) (page_table vq)) (x div CITRA_PAGE_SIZE) \<noteq> RasterizerCachedMemory" if "0x4000000 \<le> x \<and> x < 0x6000000" for x
  proof -
    have "0x4000 \<le> x div CITRA_PAGE_SIZE" "x div CITRA_PAGE_SIZE < 0x6000" using that by (simp_all add: less_eq_div_iff_mult_less_eq div_less_iff_less_mult)
    note c = pages_uncached [OF _ q(2) this]
    show ?thesis using kp(2) c q(1) tm(1) vq unfolding kept_def unlocked_space_def by auto
  qed
  show thesis
    by (rule that [OF run]) (use k2 v1 kp p(2,4) bytes kept_bytes un tm in \<open>simp_all add: s1_def space_memory kept_def T(1) off\<close>)
qed

section \<open>Returning it\<close>

lemma lent_pages:
  assumes v: "vm_inv v" "vm_content v = lent_view B N c" and T: "Tq = tables (vm_memory v) (page_table v)"
    and u: "\<forall>x. 0x4000000 \<le> x \<and> x < 0x6000000 \<longrightarrow> attributes Tq (x div CITRA_PAGE_SIZE) \<noteq> RasterizerCachedMemory"
    and x: "0x4001000 \<le> x" "x + 0x1000 < 0x4000000 + unat N" "unat N \<le> 0x2000000"
  shows "vloc Tq x = (B, x - 0x4000000)" "plain_page Tq (x div CITRA_PAGE_SIZE)"
proof -
  have cx: "vm_content v x = Some (VMA_BackingMemory, Perm_ReadWrite, MS_Shared, Some (B, x - 0x4000000))" using x(1,2) by (simp add: v(2) lent_view_def)
  let ?p = "x div CITRA_PAGE_SIZE"
  have y: "0x4000000 \<le> ?p * CITRA_PAGE_SIZE" "?p * CITRA_PAGE_SIZE \<le> x"
    using x(1) mult_le_mono1 [of "0x4000" ?p CITRA_PAGE_SIZE] by (simp_all add: less_eq_div_iff_mult_less_eq)
  have "\<exists>pm st r. vm_content v y = Some (VMA_BackingMemory, pm, st, Some r)" if "0x4000000 \<le> y" "y \<le> x" for y
    using x(2) that by (simp add: v(2) lent_view_def)
  from this [OF y] have "\<exists>pm st r. vm_content v (?p * CITRA_PAGE_SIZE) = Some (VMA_BackingMemory, pm, st, Some r)" .
  moreover have "attributes Tq ?p \<noteq> RasterizerCachedMemory" using u x by simp
  ultimately have "attributes Tq ?p = Memory"
    using vm_invD(5) [OF v(1)] unfolding pages_agree_def page_agrees_def entry_is_def T by (auto dest!: spec [of _ ?p])
  then show "vloc Tq x = (B, x - 0x4000000)" "plain_page Tq ?p" using content_vloc [OF v(1) cx] T by simp_all
qed

lemma reply_buffer_ok:
  assumes p: "src \<noteq> dst" "space src (machine s) = Some vp" "space dst (machine s) = Some v1" "page_table vp \<noteq> page_table v1"
    and v1: "unlocked_space v1" "vm_content v1 = lent_view B N (vm_content vq)"
    and q: "unlocked_space vq" "free_range (vm_content vq) IPC_MAPPING_VADDR IPC_MAPPING_SIZE"
    and sz: "sz = mapped_size d" "0 < sz" "unat source mod 4096 + unat sz \<le> 0x1FFE000"
    and T: "T = tables (m_memory (machine s)) (page_table vp)" "plain_range T (unat source) (unat sz)" "inj_on (vloc T) {unat source..<unat source + unat sz}"
    and B: "N = (pages_of source sz + 2) * 0x1000" "\<forall>x. unat source \<le> x \<and> x < unat source + unat sz \<longrightarrow> fst (vloc T x) \<noteq> B"
    and g: "spares (gpu (m_memory (machine s))) L" "vloc T ` {unat source..<unat source + unat sz} \<subseteq> L"
    and t: "t = 0x4001000 + (source AND CITRA_PAGE_MASK)"
    and c: "mapped_buffer_context s = cs @ [\<lparr>ctx_permissions = mapped_perms d, ctx_size = sz, source_address = source, target_address = t, ctx_buffer = B\<rparr>]"
      "\<forall>c \<in> set cs. target_address c \<noteq> t"
    and u: "\<forall>x. 0x4000000 \<le> x \<and> x < 0x6000000 \<longrightarrow> attributes (tables (m_memory (machine s)) (page_table v1)) (x div CITRA_PAGE_SIZE) \<noteq> RasterizerCachedMemory"
  obtains s2 v2 where "reply_buffer dst src d t s = Some s2" "space dst (machine s2) = Some v2" "unlocked_space v2" "vm_content v2 = vm_content vq"
    "mapped_buffer_context s2 = cs" "tables (m_memory (machine s2)) (page_table vp) = T"
    "\<forall>j < unat sz. loc_byte (host (m_memory (machine s2))) (vloc T (unat source + j)) =
       (if mapped_perms d = 1 then loc_byte (host (m_memory (machine s))) (vloc T (unat source + j))
        else host (m_memory (machine s)) B (0x1000 + unat source mod 4096 + j))"
proof -
  let ?m = "m_memory (machine s)"
  define Tq where "Tq = tables ?m (page_table v1)"
  note ls = lent_size [OF sz(2,3)] and lt = lent_target [of source, folded t]
  have N: "unat N = unat (pages_of source sz) * 0x1000 + 0x2000" unfolding B(1) by (fact ls)
  have vm: "vm_memory v1 = ?m" by (rule space_vm_memory [OF p(3)])
  have lp: "vloc Tq x = (B, x - 0x4000000) \<and> plain_page Tq (x div CITRA_PAGE_SIZE)" if "unat t \<le> x \<and> x < unat t + unat sz" for x
    using lent_pages [of v1 B N "vm_content vq" Tq x] v1 u that lt(1) ls(2,5) N vm unfolding unlocked_space_def Tq_def by auto
  define bs where "bs = map (\<lambda>x. loc_byte (host ?m) (vloc Tq x)) [unat t..<unat t + unat sz]"
  have bs: "bs ! j = host ?m B (0x1000 + unat source mod 4096 + j)" if "j < unat sz" for j using lp [of "unat t + j"] that lt(1) by (simp add: bs_def add.assoc)
  have "vloc Tq ` {unat t..<unat t + unat sz} \<inter> vloc T ` {unat source..<unat source + unat sz} = {}"
  proof (intro equals0I)
    fix l assume "l \<in> vloc Tq ` {unat t..<unat t + unat sz} \<inter> vloc T ` {unat source..<unat source + unat sz}"
    then obtain x y where "unat t \<le> x \<and> x < unat t + unat sz" "l = vloc Tq x" "unat source \<le> y \<and> y < unat source + unat sz" "l = vloc T y" by auto
    then show False using lp [of x] B(2) by auto
  qed
  then have copy: "CopyBlock (page_table vp) (page_table v1) source t (unat sz) ?m = Some (?m\<lparr>host := poke T (unat source) bs (host ?m)\<rparr>)"
    using CopyBlock_plain [of ?m "page_table v1" t "unat sz" "page_table vp" source] T(1,2) lp by (simp add: plain_range_def flip: Tq_def bs_def)
  define m1 where "m1 = (if mapped_perms d \<noteq> 1 then ?m\<lparr>host := poke T (unat source) bs (host ?m)\<rparr> else ?m)"
  have tm: "tables m1 = tables ?m" "gpu m1 = gpu ?m" by (simp_all add: m1_def)
  have by1: "loc_byte (host m1) (vloc T (unat source + j)) =
      (if mapped_perms d = 1 then loc_byte (host ?m) (vloc T (unat source + j)) else host ?m B (0x1000 + unat source mod 4096 + j))" if "j < unat sz" for j
    using poke_lookup [OF T(3), of "unat source" bs "unat source + j" "host ?m"] bs [OF that] that by (simp add: m1_def bs_def)
  let ?k = "(machine s)\<lparr>m_memory := m1\<rparr>" and ?v = "v1\<lparr>vm_memory := m1\<rparr>"
  have sv: "space dst ?k = Some ?v" "unlocked_space ?v" "vm_content ?v = lent_view B N (vm_content vq)"
    using p(3) v1 tm(1) vm by (simp_all add: space_memory unlocked_space_memory)
  obtain v2 where v2: "unmap_guarded 0x4001000 (pages_of source sz) ?v = Some ((), v2)" "unlocked_space v2"
    "vm_content v2 = with_change (\<lambda>_. free_attrs) IPC_MAPPING_VADDR N (lent_view B N (vm_content vq))"
    using unmap_guarded_ok [OF sv(2,3) B(1)] ls(1,2) by auto
  have cv: "vm_content v2 = vm_content vq" unfolding v2(3) using ls(2) N by (intro lend_and_return q) simp
  have "vm_spares L ?v" using g(1) tm(2) by simp
  from guarded_kept(2) [OF this v2(1)] have kp: "kept L (page_table v1) m1 (vm_memory v2)" by (simp add: vm_kept_def)
  obtain k2 where k2: "in_space dst (unmap_guarded 0x4001000 (pages_of source sz)) ?k = Some ((), k2)" "space dst k2 = Some v2" "m_memory k2 = vm_memory v2"
    using in_space_ok [where f = "unmap_guarded 0x4001000 (pages_of source sz)", OF sv(1) v2(1)] by blast
  obtain pp qq where f: "fetch src (machine s) = Some pp" "fetch dst (machine s) = Some qq" "vm_manager pp = vp" "vm_manager qq = v1" using p(2,3) by (auto simp: space_def)
  have "find (matches d t) cs = None" using c(2) by (auto simp: find_None_iff matches_def)
  then have fd: "find (matches d t) (mapped_buffer_context s) = Some \<lparr>ctx_permissions = mapped_perms d, ctx_size = sz, source_address = source, target_address = t, ctx_buffer = B\<rparr>"
    unfolding c(1) by (induction cs) (auto simp: matches_def sz(1) split: if_splits)
  have "\<lparr>ctx_permissions = mapped_perms d, ctx_size = sz, source_address = source, target_address = t, ctx_buffer = B\<rparr> \<notin> set cs" using c(2) by auto
  then have rm: "remove1 \<lparr>ctx_permissions = mapped_perms d, ctx_size = sz, source_address = source, target_address = t, ctx_buffer = B\<rparr> (mapped_buffer_context s) = cs"
    unfolding c(1) by (simp add: remove1_append)
  define s2 where "s2 = s\<lparr>machine := k2, mapped_buffer_context := cs\<rparr>"
  have "(machine s)\<lparr>m_memory := ?m\<rparr> = machine s" by simp
  then have run: "reply_buffer dst src d t s = Some s2"
    unfolding reply_buffer_def fd using copy k2(1) f rm by (cases "mapped_perms d = 1") (simp_all add: lt(2,3) m1_def s2_def flip: sz(1))
  have kb: "loc_byte (host (vm_memory v2)) l = loc_byte (host m1) l" if "l \<in> vloc T ` {unat source..<unat source + unat sz}" for l
  proof -
    have "l \<in> L" using g(2) that by blast
    then show ?thesis using kp unfolding kept_def by (auto split: prod.splits)
  qed
  have tb: "tables (vm_memory v2) (page_table vp) = T" using kp p(4) tm(1) T(1) by (simp add: kept_def)
  have b2: "\<forall>j < unat sz. loc_byte (host (vm_memory v2)) (vloc T (unat source + j)) =
      (if mapped_perms d = 1 then loc_byte (host ?m) (vloc T (unat source + j)) else host ?m B (0x1000 + unat source mod 4096 + j))"
    using by1 kb by simp
  show thesis by (rule that [OF run, of v2]) (use k2(2,3) v2(2) cv tb b2 in \<open>simp_all add: s2_def\<close>)
qed

section \<open>Requests and replies\<close>

text \<open>
  C25: A mapped buffer of a request is lent to the receiver and returned by the reply. The request maps a copy of the bytes of the sender at the same offset in a page, readable
  and writable and between two reserved guard pages, writes its address into the command and changes nothing else in the receiver's address space. Whatever the
  receiver then does to memory, a reply that names the buffer, at any place of its own command, unmaps it: the address space of the receiver and the list of lent buffers
  are as they were, and the sender finds in its buffer what the receiver left there, or, if the buffer was lent for reading only, its memory as it is.
\<close>

theorem mapped_buffer_round_trip:
  assumes "src \<noteq> dst" "space src (machine s) = Some vp" "space dst (machine s) = Some vq" "page_table vp \<noteq> page_table vq"
    "unlocked_space vq" "free_range (vm_content vq) IPC_MAPPING_VADDR IPC_MAPPING_SIZE"
    "get_word i s = Some source" "sz = mapped_size d" "0 < sz" "unat source mod 4096 + unat sz \<le> 0x1FFE000"
    "T = tables (m_memory (machine s)) (page_table vp)" "plain_range T (unat source) (unat sz)" "inj_on (vloc T) {unat source..<unat source + unat sz}"
    "N = (pages_of source sz + 2) * 0x1000" "B = BufferMem (next_buffer s) (unat N)"
    "\<forall>x. unat source \<le> x \<and> x < unat source + unat sz \<longrightarrow> fst (vloc T x) \<noteq> B"
    "spares (gpu (m_memory (machine s))) ({B} \<times> UNIV \<union> vloc T ` {unat source..<unat source + unat sz})"
    "t = 0x4001000 + (source AND CITRA_PAGE_MASK)" "\<forall>c \<in> set (mapped_buffer_context s). target_address c \<noteq> t"
  shows "\<exists>s1 v1. translate_mapped src dst False d i s = Some s1 \<and> get_word i s1 = Some t \<and> space dst (machine s1) = Some v1 \<and> vm_content v1 = lent_view B N (vm_content vq) \<and>
    (\<forall>j < unat sz. host (m_memory (machine s1)) B (0x1000 + unat source mod 4096 + j) = loc_byte (host (m_memory (machine s))) (vloc T (unat source + j))) \<and>
    (\<forall>h buf i'. i' < length buf \<and> buf ! i' = Some t \<longrightarrow>
      (\<exists>s2 v2. translate_mapped dst src True d i' (s1\<lparr>machine := (machine s1)\<lparr>m_memory := (m_memory (machine s1))\<lparr>host := h\<rparr>\<rparr>, cmd_buf := buf\<rparr>) = Some s2 \<and>
        space dst (machine s2) = Some v2 \<and> unlocked_space v2 \<and> vm_content v2 = vm_content vq \<and> mapped_buffer_context s2 = mapped_buffer_context s \<and>
        tables (m_memory (machine s2)) (page_table vp) = T \<and>
        (\<forall>j < unat sz. loc_byte (host (m_memory (machine s2))) (vloc T (unat source + j)) =
           (if mapped_perms d = 1 then loc_byte h (vloc T (unat source + j)) else h B (0x1000 + unat source mod 4096 + j)))))"
proof -
  let ?L = "{B} \<times> UNIV \<union> vloc T ` {unat source..<unat source + unat sz}"
  have i: "i < length (cmd_buf s)" using assms(7) by (auto simp: get_word_def split: if_splits)
  note one = lent_size(1) [OF assms(9,10)] and lt = lent_target [of source, folded assms(18)]
  have pos: "mapped_size d \<noteq> 0" "1 \<le> pages_of source sz" "1 \<le> pages_of t sz" using assms(8,9) one lt(3) by (auto simp: word_le_nat_alt)
  obtain s1 v1 where r: "request_buffer src dst d i source s = Some s1" "space dst (machine s1) = Some v1" "unlocked_space v1" "page_table v1 = page_table vq"
    "vm_content v1 = lent_view B N (vm_content vq)" "space src (machine s1) = Some (vp\<lparr>vm_memory := m_memory (machine s1)\<rparr>)"
    "cmd_buf s1 = (cmd_buf s)[i := Some t]"
    "mapped_buffer_context s1 = mapped_buffer_context s @ [\<lparr>ctx_permissions = mapped_perms d, ctx_size = sz, source_address = source, target_address = t, ctx_buffer = B\<rparr>]"
    "gpu (m_memory (machine s1)) = gpu (m_memory (machine s))" "tables (m_memory (machine s1)) (page_table vp) = T"
    "\<forall>j < unat sz. host (m_memory (machine s1)) B (0x1000 + unat source mod 4096 + j) = loc_byte (host (m_memory (machine s))) (vloc T (unat source + j))"
    "\<forall>x. 0x4000000 \<le> x \<and> x < 0x6000000 \<longrightarrow> attributes (tables (m_memory (machine s1)) (page_table vq)) (x div CITRA_PAGE_SIZE) \<noteq> RasterizerCachedMemory"
    using request_buffer_ok [OF assms(1-6) i assms(8-12,14-16,17) _ assms(18)] by blast
  have q: "translate_mapped src dst False d i s = Some s1" using r(1) assms(7) pos assms(8) by (simp add: translate_mapped_def)
  have reply: "\<exists>s2 v2. translate_mapped dst src True d i' (s1\<lparr>machine := (machine s1)\<lparr>m_memory := (m_memory (machine s1))\<lparr>host := h\<rparr>\<rparr>, cmd_buf := buf\<rparr>) = Some s2 \<and>
        space dst (machine s2) = Some v2 \<and> unlocked_space v2 \<and> vm_content v2 = vm_content vq \<and> mapped_buffer_context s2 = mapped_buffer_context s \<and>
        tables (m_memory (machine s2)) (page_table vp) = T \<and>
        (\<forall>j < unat sz. loc_byte (host (m_memory (machine s2))) (vloc T (unat source + j)) =
           (if mapped_perms d = 1 then loc_byte h (vloc T (unat source + j)) else h B (0x1000 + unat source mod 4096 + j)))"
    if b: "i' < length buf \<and> buf ! i' = Some t" for h buf i'
  proof -
    define m where "m = (m_memory (machine s1))\<lparr>host := h\<rparr>"
    define s' where "s' = s1\<lparr>machine := (machine s1)\<lparr>m_memory := m\<rparr>, cmd_buf := buf\<rparr>"
    have vm: "vm_memory v1 = m_memory (machine s1)" by (rule space_vm_memory [OF r(2)])
    have sp: "space src (machine s') = Some (vp\<lparr>vm_memory := m\<rparr>)" "space dst (machine s') = Some (v1\<lparr>vm_memory := m\<rparr>)" using r(2,6) by (simp_all add: s'_def space_memory)
    have un: "unlocked_space (v1\<lparr>vm_memory := m\<rparr>)" "vm_content (v1\<lparr>vm_memory := m\<rparr>) = lent_view B N (vm_content vq)"
      using r(3,5) vm by (simp_all add: unlocked_space_memory m_def)
    have T: "T = tables (m_memory (machine s')) (page_table (vp\<lparr>vm_memory := m\<rparr>))" "page_table (vp\<lparr>vm_memory := m\<rparr>) \<noteq> page_table (v1\<lparr>vm_memory := m\<rparr>)"
      "spares (gpu (m_memory (machine s'))) ?L" "mapped_buffer_context s' = mapped_buffer_context s1" "host (m_memory (machine s')) = h"
      "\<forall>x. 0x4000000 \<le> x \<and> x < 0x6000000 \<longrightarrow>
        attributes (tables (m_memory (machine s')) (page_table (v1\<lparr>vm_memory := m\<rparr>))) (x div CITRA_PAGE_SIZE) \<noteq> RasterizerCachedMemory"
      using r(4,9,10,12) assms(4,17) by (simp_all add: s'_def m_def)
    obtain s2 v2 where w: "reply_buffer dst src d t s' = Some s2" "space dst (machine s2) = Some v2" "unlocked_space v2" "vm_content v2 = vm_content vq"
      "mapped_buffer_context s2 = mapped_buffer_context s" "tables (m_memory (machine s2)) (page_table vp) = T"
      "\<forall>j < unat sz. loc_byte (host (m_memory (machine s2))) (vloc T (unat source + j)) =
         (if mapped_perms d = 1 then loc_byte h (vloc T (unat source + j)) else h B (0x1000 + unat source mod 4096 + j))"
      using reply_buffer_ok [OF assms(1) sp T(2) un assms(5,6,8-10) T(1) assms(12-14,16) T(3) _ assms(18) _ assms(19) T(6)] r(8) unfolding T(4,5) by auto
    have "translate_mapped dst src True d i' s' = Some s2"
      using w(1) b pos assms(8) by (simp add: translate_mapped_def get_word_def s'_def)
    then show ?thesis using w(2-7) unfolding s'_def m_def by blast
  qed
  have "get_word i s1 = Some t" using r(7) i by (simp add: get_word_def)
  then show ?thesis using q r(2,5,11) reply by blast
qed

definition demo_lending :: "interval_list ipc" where
  "demo_lending =
     \<lparr>machine = demo_machine\<lparr>m_memory := (vm_memory demo_space)\<lparr>tables := (tables (vm_memory demo_space))(1 := heap_table), gpu := idle_gpu\<rparr>,
        m_processes := (\<lambda>i. Some (if i = 1 then demo_process\<lparr>vm_manager := demo_space\<lparr>page_table := 1\<rparr>\<rparr> else demo_process))\<rparr>,
      next_buffer = 0, mapped_buffer_context = [], cmd_buf = [Some 0x8000010]\<rparr>"

lemma demo_lending:
  fixes m :: MemorySystem
  defines "m \<equiv> m_memory (machine demo_lending)"
  shows "space 1 (machine demo_lending) = Some (demo_space\<lparr>page_table := 1, vm_memory := m\<rparr>)" "space 0 (machine demo_lending) = Some (demo_space\<lparr>vm_memory := m\<rparr>)"
    "page_table demo_space = 0" "unlocked_space (demo_space\<lparr>vm_memory := m\<rparr>)" "tables m 1 = heap_table" "gpu m = idle_gpu"
proof -
  obtain vm' where "VMManager_Reset \<lparr>vma_map = [], page_table = 0, is_locked = False, vm_memory = heap_memory (\<lambda>_. 0)\<rparr> = Some vm'"
    "same_space \<lparr>vma_map = [], page_table = 0, is_locked = False, vm_memory = heap_memory (\<lambda>_. 0)\<rparr> vm'"
    using Reset_ok [of "\<lparr>vma_map = [], page_table = 0, is_locked = False, vm_memory = heap_memory (\<lambda>_. 0)\<rparr>"] by auto
  then show pt: "page_table demo_space = 0" by (simp add: demo_space_def same_space_def)
  show "space 1 (machine demo_lending) = Some (demo_space\<lparr>page_table := 1, vm_memory := m\<rparr>)" "space 0 (machine demo_lending) = Some (demo_space\<lparr>vm_memory := m\<rparr>)"
    "tables m 1 = heap_table" "gpu m = idle_gpu"
    by (simp_all add: m_def demo_lending_def space_def fetch_def demo_process_def)
  have "unlocked_space demo_space" using demo_space vm_reachable_inv by (simp add: unlocked_space_def)
  then show "unlocked_space (demo_space\<lparr>vm_memory := m\<rparr>)" using pt by (intro unlocked_space_memory) (simp_all add: m_def demo_lending_def)
qed

theorem mapped_buffer_round_trip_witness:
  "\<exists>s1 s2. translate_mapped 1 0 False (MappedBufferDesc 0x1800 3) 0 demo_lending = Some s1 \<and> get_word 0 s1 = Some 0x4001010 \<and>
    translate_mapped 0 1 True (MappedBufferDesc 0x1800 3) 0 (s1\<lparr>machine := (machine s1)\<lparr>m_memory := (m_memory (machine s1))\<lparr>host := \<lambda>_ i. of_nat i\<rparr>\<rparr>, cmd_buf := [Some 0x4001010]\<rparr>) = Some s2 \<and>
    host (m_memory (machine s2)) FCRAM 0x14 = 0x14 \<and> mapped_buffer_context s2 = []"
proof -
  let ?d = "MappedBufferDesc 0x1800 3" and ?m = "m_memory (machine demo_lending)" and ?a = "0x8000010 :: u32"
  have d: "mapped_size ?d = 0x1800" "mapped_perms ?d = 3" by (rule mapped_descriptors; simp)+
  have pg: "pages_of ?a 0x1800 = 2" by (simp add: pages_of_def page_start_def align_up_def)
  have w: "get_word 0 demo_lending = Some ?a" "next_buffer demo_lending = 0" "mapped_buffer_context demo_lending = []" by (simp_all add: demo_lending_def get_word_def)
  have pl: "plain_range heap_table 0x8000010 0x1800" by (auto simp: plain_range_def plain_page_def heap_table_def host_range_def)
  have vl: "vloc heap_table x = (FCRAM, x - 0x8000000)" if "0x8000010 \<le> x" "x < 0x8001810" for x using heap_table_vloc [of x] that by simp
  have inj: "inj_on (vloc heap_table) {0x8000010..<0x8001810}" by (auto simp: inj_on_def vl)
  have fresh: "\<forall>x. 0x8000010 \<le> x \<and> x < 0x8001810 \<longrightarrow> fst (vloc heap_table x) \<noteq> BufferMem 0 0x4000" by (auto simp: vl)
  have sp: "spares idle_gpu L" for L by (simp add: spares_def idle_gpu_def split: prod.splits)
  have fr: "free_range (vm_content (demo_space\<lparr>vm_memory := ?m\<rparr>)) IPC_MAPPING_VADDR IPC_MAPPING_SIZE"
    using demo_free [of IPC_MAPPING_VADDR IPC_MAPPING_SIZE] by (simp add: good_range_def page_aligned_unat)
  obtain s1 where s1: "translate_mapped 1 0 False ?d 0 demo_lending = Some s1" "get_word 0 s1 = Some 0x4001010"
    "\<forall>h buf i'. i' < length buf \<and> buf ! i' = Some 0x4001010 \<longrightarrow>
      (\<exists>s2. translate_mapped 0 1 True ?d i' (s1\<lparr>machine := (machine s1)\<lparr>m_memory := (m_memory (machine s1))\<lparr>host := h\<rparr>\<rparr>, cmd_buf := buf\<rparr>) = Some s2 \<and> mapped_buffer_context s2 = [] \<and>
        (\<forall>j < 0x1800. loc_byte (host (m_memory (machine s2))) (vloc heap_table (0x8000010 + j)) = h (BufferMem 0 0x4000) (0x1010 + j)))"
    using mapped_buffer_round_trip [of 1 0 demo_lending _ _ 0 ?a "0x1800" ?d heap_table "0x4000" "BufferMem 0 0x4000" "0x4001010",
        OF _ demo_lending(1,2) _ demo_lending(4) fr w(1)] d pg w(2,3) pl inj fresh sp demo_lending(3,5,6) by fastforce
  obtain s2 where s2: "translate_mapped 0 1 True ?d 0 (s1\<lparr>machine := (machine s1)\<lparr>m_memory := (m_memory (machine s1))\<lparr>host := \<lambda>_ i. of_nat i\<rparr>\<rparr>, cmd_buf := [Some 0x4001010]\<rparr>) = Some s2"
    "mapped_buffer_context s2 = []" "\<forall>j < 0x1800. loc_byte (host (m_memory (machine s2))) (vloc heap_table (0x8000010 + j)) = of_nat (0x1010 + j)"
    using spec [OF spec [OF spec [OF s1(3), of "\<lambda>_ i. of_nat i"], of "[Some 0x4001010]"], of 0] by auto
  have "host (m_memory (machine s2)) FCRAM 0x14 = 0x14" using spec [OF s2(3), of 4] vl [of "0x8000014"] by simp
  then show ?thesis using s1(1,2) s2(1,2) by blast
qed

end
