(* ===== verification/Spec2Isabelle.thy ===== *)
theory Spec2Isabelle
  imports Nuzlocke_Facts Memory_Access Save_Archive Save_States Handle_Table Thread_Queue_List Timing_Facts Kernel_Facts
    Ipc_Lending
begin

text \<open>
  \<^bold>\<open>The program.\<close> AzaharPlus is an emulator of the 3DS console with an automated nuzlocke challenge for the sixth generation of
  the Pokemon games. The emulated program runs on emulated cores and calls the emulated kernel (\<open>core/hle/kernel\<close>), which keeps
  threads, synchronization objects, address spaces and physical memory; emulated time (\<open>core/core_timing.cpp\<close>) ends
  slices and fires events. Every access to emulated memory passes \<open>core/memory.cpp\<close>. From there a timer drives the
  challenge (\<open>core/poke_export.cpp\<close>, \<open>core/poke_capture.cpp\<close>, \<open>core/poke_reader.cpp\<close>): it reads the party from
  emulated memory, notices deaths, replaces the dead, takes Poke Balls away when an encounter may not be caught, caps levels and keeps a
  score in an enciphered file. \<open>core/poke_antirq.cpp\<close> saves the console when the window is closed, so that a lost battle cannot be
  left, and \<open>core/file_sys/savedata_archive.cpp\<close> enciphers the save files of the games. Paths below are relative to \<open>src/src\<close>.

  \<^bold>\<open>Conventions.\<close> Machine integers are words (\<open>u8\<close>, \<open>u16\<close>, \<open>u32\<close>, \<open>u64\<close>) where wrap-around matters; the signed 64-bit times are
  integers with their conversions written out. State is passed explicitly as records. \<open>None\<close> as the result of an operation is an abort of the
  emulator: a failed assertion, an exception nobody catches, an index outside an array, the dereference of \<open>end()\<close>, a full container of fixed
  capacity. Errors the code returns are values: result codes, option types or sum types. Loops are structural or have a termination proof;
  loops whose end depends on an invariant (the walk through the links of the ready queue, the wake-up of waiters, the loop over due
  events, the walks over the areas of an address space) are \<open>partial_function (option)\<close>, and the lemmas prove that they return.
  No bounds or fuel are used.

  \<^bold>\<open>Shared theories.\<close> \<open>Prelude\<close> has the integer types, little-endian accessors (\<open>core/poke_export.cpp\<close>), byte buffers and the generic lemmas.
  \<open>Host_Files\<close> is the host file system as the challenge uses it.

  \<^bold>\<open>The challenge.\<close>
  \<^item> \<open>Pk6_Crypto\<close>: \<open>DecryptPk6InPlace\<close>, \<open>EncryptPk6InPlace\<close>, block shuffling and checksums of \<open>core/poke_export.cpp\<close>; decryption and encryption
    are inverse to each other.
  \<^item> \<open>Pk6_Slot\<close>: the readers of party and battle slots, matching, and the conversion to a dead Shedinja, whose
    result is described for every record.
  \<^item> \<open>Item_Pocket\<close>, \<open>Points_File\<close>, \<open>Nuzlocke_State\<close>: the item pockets, the score file of \<open>core/poke_reader.cpp\<close> and the global
    variables. The locale \<open>stream_mask\<close> holds what the two XOR ciphers of the program share; it is
    interpreted for the score file and for the save data archive.
  \<^item> \<open>Capture_Rules\<close>, \<open>Capture_Facts\<close>: visited routes, evolution lines, \<open>ShouldRemove\<close>, \<open>RemovePokeballs\<close>, \<open>RestorePokeballs\<close> of
    \<open>core/poke_capture.cpp\<close>. The decision refines the abstract rule (one capture per map, no known evolution line, the exceptions for
    static encounters), and taking and returning the balls conserves every item.
  \<^item> \<open>Nuzlocke\<close>, \<open>Nuzlocke_Facts\<close>: deaths, battle transitions, \<open>DeleteFaintedPokemon\<close>, the level cap and the timer in \<open>core/memory.cpp\<close>. With a
    mapped heap every operation returns, keeps the global state well formed, and writes what it should and nothing else.

  \<^bold>\<open>Files and save states.\<close>
  \<^item> \<open>Path_Parser\<close> (\<open>core/file_sys/path_parser.cpp\<close> and the wrappers of \<open>common/file_util.cpp\<close> it uses) and \<open>Save_Archive\<close>
    (\<open>core/file_sys/savedata_archive.cpp\<close>, \<open>disk_archive.cpp\<close>): valid paths stay below the mount point, invalid ones never reach the host,
    and the XOR layer is transparent.
  \<^item> \<open>Save_States\<close> (\<open>core/poke_antirq.cpp\<close>, the signals of \<open>core/core.cpp\<close>): in every interleaving of signals and turns of the main loop
    a slot is loaded or saved only on request.

  \<^bold>\<open>Memory.\<close> \<open>Memory_System\<close> and \<open>Memory_Access\<close> model \<open>core/memory.cpp\<close>: page tables, host memory, block and single accesses, exclusive writes,
  cached pages, physical addresses. The locale \<open>guest_memory\<close> is the interface the challenge relies on (a block that was written is
  read back, and nothing else changes); it is interpreted for the heap of the emulated program.

  \<^bold>\<open>The kernel.\<close>
  \<^item> \<open>Handle_Table\<close> (\<open>handle_table.cpp\<close>) refines a finite map; \<open>Thread_Queue_List\<close> (\<open>common/thread_queue_list.h\<close>) refines one
    list for each priority, which is the locale \<open>ready_queue\<close> the scheduler uses.
  \<^item> \<open>Binary_Heap\<close>, \<open>Core_Timing\<close>, \<open>Timing_Facts\<close>: the event queues (the heap operations of the C++ library, locale \<open>min_queue\<close>) and
    \<open>core/core_timing.cpp\<close>. Due events run in order, no slice runs past an event, and the conversions of time have exact bounds.
  \<^item> \<open>Kernel_State\<close>, \<open>Kernel_Sync\<close>, \<open>Kernel_Sched\<close>, \<open>Kernel_Svc\<close>, \<open>Kernel_Call\<close>: threads (\<open>thread.cpp\<close>), wait objects, mutexes, semaphores, events,
    timers, address arbiters and resource limits (the files of the same names), the scheduler, the supervisor calls on them
    (\<open>svc.cpp\<close>) with their wrappers and the dispatch.
  \<^item> \<open>Kernel_Inv\<close>, \<open>Kernel_Wake\<close>, \<open>Kernel_Steps\<close>, \<open>Kernel_Switch\<close>, \<open>Kernel_Life\<close>, \<open>Kernel_Create\<close>, \<open>Kernel_Runs\<close>: the invariant of the kernel (ready
    queues, waiting lists, holders and the states of the threads agree), kept by every operation and therefore in every
    state of \<open>reachable\<close>. Its steps are the supervisor calls of a running thread, arbitrary changes of registers and memory by guest
    instructions, scheduling, the change of cores, due timeouts, timers, started threads and time. A step is an operation that returns: for
    the scheduler, the wake-up of waiters, timeouts and the calls of the properties it is proved that they do.
  \<^item> \<open>Kernel_Example\<close> has concrete reachable kernels, \<open>Kernel_Facts\<close> the properties: mutual exclusion, agreement of the lists, the
    choice of the scheduler, wake-ups, timeouts, permits and priority inheritance.

  \<^bold>\<open>Address spaces and physical memory.\<close>
  \<^item> \<open>Vm_Manager\<close> models \<open>hle/kernel/vm_manager.cpp\<close>. \<open>Vm_Tiles\<close>, \<open>Vm_Facts\<close>, \<open>Vm_Ops\<close>, \<open>Vm_Runs\<close>: the areas tile the address space,
    free areas that meet are merged, and the page table agrees with the areas, in every reachable address space. \<open>Vm_Space\<close> states what its clients
    need as the locale \<open>address_space\<close>: a view of what lies at every address, with pointwise updates; \<open>Vm_Contract\<close> has the properties.
  \<^item> \<open>Interval_Set\<close> states the documented behaviour of \<open>boost::icl::interval_set\<close> as the locale \<open>interval_sets\<close>, interpreted for
    sorted lists of intervals. \<open>Memory_Region\<close> and \<open>Region_Facts\<close> model the allocators of \<open>hle/kernel/memory.cpp\<close> over it: heap memory
    is taken from the top, linear allocation is first fit, the accounts are exact, and the layouts partition FCRAM.
  \<^item> \<open>Process_Memory\<close>, \<open>Process_Calls\<close>: heap, linear heap, pages of thread local storage, aliases, kernel capabilities, special mappings and the end of a
    process (\<open>hle/kernel/process.cpp\<close>, \<open>memory.cpp\<close>), \<open>ControlMemory\<close> and \<open>QueryProcessMemory\<close> of \<open>svc.cpp\<close>. \<open>Process_Facts\<close>, \<open>Process_Heap\<close>,
    \<open>Process_End\<close> join the address spaces with the regions: an allocation maps free memory, freeing undoes it, a query reports the
    maximal range, and the end of a process returns all it held.

  \<^bold>\<open>Several processes.\<close> A \<open>machine\<close> has the regions, the memory system and the resource limits once for all processes.
  \<^item> \<open>Shared_Memory\<close> models \<open>hle/kernel/shared_memory.cpp\<close> and \<open>CreateMemoryBlock\<close>, \<open>MapMemoryBlock\<close>, \<open>UnmapMemoryBlock\<close> of \<open>svc.cpp\<close>. \<open>Shared_Facts\<close>:
    whoever maps a block sees the same bytes, with permissions its owner allows; a block is made of the first free memory that fits or of memory of
    its creator, and destroying it gives back what it took.
  \<^item> \<open>Ipc_Translate\<close> models \<open>hle/kernel/ipc.cpp\<close> with the descriptors of \<open>hle/ipc.h\<close>: handles, static buffers and mapped buffers of a command, for
    requests and replies. \<open>Ipc_Facts\<close>: descriptors are read as they are made, and handles name the same objects on the other side. \<open>Ipc_Buffers\<close> and
    \<open>Ipc_Lending\<close>: a mapped buffer is a copy between guard pages, and the reply unmaps it and copies back what the receiver wrote. The bound of 32 MB on a buffer
    keeps it below the frame buffers of plugins; the hypothesis \<open>spares\<close> says that no byte of the buffer is in the cache of the rasterizer.

  \<^bold>\<open>Parameters.\<close> The operating system below the file wrappers, the JSON library of the score file, the callbacks of events, the scale of the
  clock (floating point), and, in \<open>hle_env\<close>, the wake-up callbacks and notifiers of services and the periodic export of the party. What is
  needed of the callbacks is \<open>env_ok\<close> (they change contexts and memory only) and \<open>export_total\<close> (the export returns); the examples
  instantiate both. The mapping of a new page of thread local storage is a parameter of the thread theories and is modelled as
  \<open>AllocateTlsPage\<close> with the memory of processes.

  \<^bold>\<open>Not modelled.\<close> Sessions and ports and the calls on them: their effect is that of the HLE services, some hundred thousand lines of command
  handlers. The processor cores (an interpreter and an external recompiler): guest instructions are arbitrary changes
  of registers and memory. Video and audio: floating point and host interfaces. Loaders, frontends, cheats and network: file formats and glue
  around host libraries. The contents of save states, which a serialization library writes. Logging, the notification of the plugin loader,
  dump functions that nothing calls, and vendored libraries. Creation and listing of processes and code sets is bookkeeping around the
  operations above and only their memory is modelled.
\<close>

end
